(* ===== verification/Prelude.thy ===== *)
theory Prelude
  imports Main "HOL-Library.AList" "HOL-Library.Sublist"
begin

text \<open>
  Shared vocabulary of the development.

  \<^item> Time: a JavaScript \<^verbatim>\<open>Date\<close> or \<^verbatim>\<open>Date.now()\<close> value is the integer number of
    milliseconds since the epoch. Every clock reading of the source is an argument of the
    definition that makes it, so two readings in one handler are two arguments.
  \<^item> Tables: a Postgres table is the list of its rows in insertion order.
    \<open>select_first\<close> is \<^verbatim>\<open>SELECT ... WHERE ... LIMIT 1\<close>, \<open>update_where\<close> is
    \<^verbatim>\<open>UPDATE ... WHERE\<close>, \<open>returning\<close> its \<^verbatim>\<open>RETURNING\<close> rows.
  \<^item> JavaScript's insertion-ordered \<^verbatim>\<open>Map\<close> is an association list with the library's
    \<open>AList.update\<close> (which keeps the position of a key that is already there) and
    \<open>AList.delete\<close>.
  \<^item> The locales state the contracts most components rely on: an atomic conditional
    update of one row (\<open>guarded_update\<close>), a step relation with an inductive invariant
    (\<open>inductive_invariant\<close>), and an implementation of an abstract specification
    (\<open>functional_refinement\<close>).
\<close>

named_theorems table_simps
named_theorems status_defs

type_synonym time = int
type_synonym 'r table = "'r list"

section \<open>Tables\<close>

definition select_first :: "('r \<Rightarrow> bool) \<Rightarrow> 'r table \<Rightarrow> 'r option" where
  "select_first P rows = find P rows"

definition update_where :: "('r \<Rightarrow> bool) \<Rightarrow> ('r \<Rightarrow> 'r) \<Rightarrow> 'r table \<Rightarrow> 'r table" where
  "update_where P f rows = map (\<lambda>r. if P r then f r else r) rows"

definition returning :: "('r \<Rightarrow> bool) \<Rightarrow> ('r \<Rightarrow> 'r) \<Rightarrow> 'r table \<Rightarrow> 'r list" where
  "returning P f rows = map f (filter P rows)"

lemma select_first_None [table_simps]:
  "select_first P rows = None \<longleftrightarrow> (\<forall>r \<in> set rows. \<not> P r)"
  unfolding select_first_def by (induction rows) auto

lemma select_first_SomeD:
  "select_first P rows = Some r \<Longrightarrow> r \<in> set rows \<and> P r"
  unfolding select_first_def by (induction rows) (auto split: if_splits)

lemma select_first_Nil [simp]: "select_first P [] = None"
  by (simp add: select_first_def)

lemma select_first_Cons [simp]:
  "select_first P (r # rows) = (if P r then Some r else select_first P rows)"
  by (simp add: select_first_def)

lemma select_first_append:
  "select_first P (xs @ ys) =
     (case select_first P xs of None \<Rightarrow> select_first P ys | Some r \<Rightarrow> Some r)"
  by (induction xs) auto

lemma select_first_cong_set:
  "(\<And>r. r \<in> set rows \<Longrightarrow> P r = Q r) \<Longrightarrow> select_first P rows = select_first Q rows"
  by (induction rows) auto

lemma update_where_Nil [simp]: "update_where P f [] = []"
  by (simp add: update_where_def)

lemma update_where_Cons [simp]:
  "update_where P f (r # rows) = (if P r then f r else r) # update_where P f rows"
  by (simp add: update_where_def)

lemma update_where_append [simp]:
  "update_where P f (xs @ ys) = update_where P f xs @ update_where P f ys"
  by (simp add: update_where_def)

lemma length_update_where [simp]: "length (update_where P f rows) = length rows"
  by (simp add: update_where_def)

lemma set_update_where:
  "set (update_where P f rows) = (\<lambda>r. if P r then f r else r) ` set rows"
  by (simp add: update_where_def)

lemma update_where_none:
  "(\<And>r. r \<in> set rows \<Longrightarrow> \<not> P r) \<Longrightarrow> update_where P f rows = rows"
  by (induction rows) auto

lemma map_update_where_frame:
  "(\<And>r. g (f r) = g r) \<Longrightarrow> map g (update_where P f rows) = map g rows"
  by (induction rows) auto

lemma returning_Nil_iff: "returning P f rows = [] \<longleftrightarrow> (\<forall>r \<in> set rows. \<not> P r)"
  by (auto simp: returning_def filter_empty_conv)

subsection \<open>Rows found by a unique key\<close>

definition row_by :: "('r \<Rightarrow> 'k) \<Rightarrow> 'r table \<Rightarrow> 'k \<Rightarrow> 'r option" where
  "row_by key rows i = select_first (\<lambda>r. key r = i) rows"

definition key_unique :: "('r \<Rightarrow> 'k) \<Rightarrow> 'r table \<Rightarrow> bool" where
  "key_unique key rows \<longleftrightarrow> distinct (map key rows)"

lemma row_by_SomeD: "row_by key rows i = Some r \<Longrightarrow> r \<in> set rows \<and> key r = i"
  unfolding row_by_def by (drule select_first_SomeD) auto

lemma row_by_None: "row_by key rows i = None \<longleftrightarrow> i \<notin> key ` set rows"
  by (auto simp: row_by_def table_simps)

lemma row_by_Nil [simp]: "row_by key [] i = None"
  by (simp add: row_by_def)

lemma row_by_Cons [simp]:
  "row_by key (r # rows) i = (if key r = i then Some r else row_by key rows i)"
  by (simp add: row_by_def)

lemma row_by_unique:
  "key_unique key rows \<Longrightarrow> r \<in> set rows \<Longrightarrow> row_by key rows (key r) = Some r"
  by (induction rows) (auto simp: key_unique_def)

lemma key_unique_eq:
  "key_unique key rows \<Longrightarrow> r \<in> set rows \<Longrightarrow> s \<in> set rows \<Longrightarrow> key r = key s \<Longrightarrow> r = s"
  by (metis option.inject row_by_unique)

lemma key_unique_update_where [simp]:
  "(\<And>r. key (f r) = key r) \<Longrightarrow> key_unique key (update_where P f rows) = key_unique key rows"
  by (simp add: key_unique_def map_update_where_frame)

lemma key_unique_snoc:
  "key_unique key (rows @ [r]) \<longleftrightarrow> key_unique key rows \<and> key r \<notin> key ` set rows"
  by (auto simp: key_unique_def)

lemma row_by_update_where:
  "(\<And>r. key (f r) = key r) \<Longrightarrow>
   row_by key (update_where P f rows) i = map_option (\<lambda>r. if P r then f r else r) (row_by key rows i)"
  by (induction rows) auto

lemma row_by_snoc:
  "row_by key (rows @ [r]) i =
     (case row_by key rows i of None \<Rightarrow> (if key r = i then Some r else None) | Some s \<Rightarrow> Some s)"
  by (induction rows) auto

lemma keys_filter_update:
  assumes "\<And>r. P r \<Longrightarrow> Q (f r) \<Longrightarrow> Q r" and "\<And>r. k (f r) = k r"
  shows "k ` set (filter Q (update_where P f rows)) \<subseteq> k ` set (filter Q rows)"
  using assms by (induction rows) auto

lemma key_unique_filter_update:
  assumes "\<And>r. P r \<Longrightarrow> Q (f r) \<Longrightarrow> Q r" and "\<And>r. k (f r) = k r"
    and "key_unique k (filter Q rows)"
  shows "key_unique k (filter Q (update_where P f rows))"
  using assms(3)
proof (induction rows)
  case (Cons r rows)
  let ?r = "if P r then f r else r" and ?rows = "update_where P f rows"
  have sub: "k ` set (filter Q ?rows) \<subseteq> k ` set (filter Q rows)"
    using assms(1,2) by (rule keys_filter_update)
  have IH: "key_unique k (filter Q ?rows)"
    using Cons by (simp add: key_unique_def split: if_splits)
  show ?case
  proof (cases "Q ?r")
    case True
    with assms(1) have "Q r" by (simp split: if_splits)
    with Cons.prems have "k r \<notin> k ` set (filter Q rows)" by (simp add: key_unique_def)
    with sub have "k r \<notin> k ` set (filter Q ?rows)" by blast
    moreover have "k ?r = k r" by (simp add: assms(2))
    ultimately show ?thesis using True IH by (simp add: key_unique_def)
  next
    case False
    with IH show ?thesis by simp
  qed
qed simp

text \<open>
  The conditional update of one row, \<^verbatim>\<open>UPDATE t SET .. WHERE id = i AND guard RETURNING *\<close>,
  taking the first returned row as \<^verbatim>\<open>const [row] = await ...\<close> does.
\<close>

definition guarded_write ::
  "('r \<Rightarrow> 'k) \<Rightarrow> ('r \<Rightarrow> bool) \<Rightarrow> ('r \<Rightarrow> 'r) \<Rightarrow> 'k \<Rightarrow> 'r table \<Rightarrow> 'r table \<times> 'r option" where
  "guarded_write key g f i rows =
     (update_where (\<lambda>r. key r = i \<and> g r) f rows,
      case returning (\<lambda>r. key r = i \<and> g r) f rows of [] \<Rightarrow> None | r # _ \<Rightarrow> Some r)"

lemma guarded_write_hit:
  assumes "row_by key rows i = Some r" and "g r" and "key_unique key rows"
  shows "snd (guarded_write key g f i rows) = Some (f r)"
  using assms
proof (induction rows)
  case Nil
  then show ?case by simp
next
  case (Cons s rows)
  then show ?case
    by (auto simp: guarded_write_def returning_def key_unique_def split: if_splits list.splits)
qed

lemma guarded_write_miss:
  assumes "\<And>r. row_by key rows i = Some r \<Longrightarrow> \<not> g r" and "key_unique key rows"
  shows "guarded_write key g f i rows = (rows, None)"
proof -
  have none: "\<not> (key r = i \<and> g r)" if "r \<in> set rows" for r
    using assms row_by_unique [of key rows r] that by auto
  then have "returning (\<lambda>r. key r = i \<and> g r) f rows = []"
    by (auto simp: returning_Nil_iff)
  with none show ?thesis
    by (simp add: guarded_write_def update_where_none)
qed

lemma guarded_write_row:
  assumes "\<And>r. key (f r) = key r"
  shows "row_by key (fst (guarded_write key g f i rows)) j =
    (if j = i then map_option (\<lambda>r. if g r then f r else r) (row_by key rows i) else row_by key rows j)"
proof -
  have "map_option (\<lambda>r. if key r = i \<and> g r then f r else r) (row_by key rows j) =
    (if j = i then map_option (\<lambda>r. if g r then f r else r) (row_by key rows i) else row_by key rows j)"
    by (cases "row_by key rows j") (auto dest: row_by_SomeD)
  then show ?thesis
    by (simp add: guarded_write_def row_by_update_where assms)
qed

section \<open>The contract of an atomic conditional update\<close>

text \<open>
  Several components serialise concurrent workers with one \<^verbatim>\<open>UPDATE ... WHERE guard\<close>:
  the claim state machine, the market-watcher leases, the dead-letter replay marker. The
  contract says what such an update promises; the client lemmas say why at most one of two
  competing updates can win.
\<close>

locale guarded_update =
  fixes get :: "'db \<Rightarrow> 'k \<Rightarrow> 'r option"
    and guard :: "'a \<Rightarrow> 'r \<Rightarrow> bool"
    and eff :: "'a \<Rightarrow> 'r \<Rightarrow> 'r"
    and upd :: "'a \<Rightarrow> 'k \<Rightarrow> 'db \<Rightarrow> 'db \<times> 'r option"
    and wf :: "'db \<Rightarrow> bool"
  assumes upd_hit: "wf db \<Longrightarrow> get db i = Some r \<Longrightarrow> guard a r \<Longrightarrow> snd (upd a i db) = Some (eff a r)"
    and upd_miss: "wf db \<Longrightarrow> (\<And>r. get db i = Some r \<Longrightarrow> \<not> guard a r) \<Longrightarrow> upd a i db = (db, None)"
    and upd_get: "wf db \<Longrightarrow> get (fst (upd a i db)) j =
          (if j = i then map_option (\<lambda>r. if guard a r then eff a r else r) (get db i) else get db j)"
    and upd_wf: "wf db \<Longrightarrow> wf (fst (upd a i db))"
begin

lemma upd_success_iff:
  assumes "wf db"
  shows "snd (upd a i db) \<noteq> None \<longleftrightarrow> (\<exists>r. get db i = Some r \<and> guard a r)"
proof
  assume "snd (upd a i db) \<noteq> None"
  then show "\<exists>r. get db i = Some r \<and> guard a r"
    using upd_miss [OF assms, of i a] by (cases "\<exists>r. get db i = Some r \<and> guard a r") auto
next
  assume "\<exists>r. get db i = Some r \<and> guard a r"
  then show "snd (upd a i db) \<noteq> None"
    using upd_hit [OF assms] by auto
qed

lemma upd_SomeD:
  assumes "wf db" and "upd a i db = (db', Some r')"
  shows "\<exists>r. get db i = Some r \<and> guard a r \<and> r' = eff a r \<and> get db' i = Some r'"
proof -
  from assms obtain r where r: "get db i = Some r" "guard a r"
    using upd_success_iff [of db a i] by auto
  with assms have "r' = eff a r"
    using upd_hit [of db i r a] by simp
  moreover have "get db' i = Some (eff a r)"
    using upd_get [OF assms(1), of a i i] assms(2) r by simp
  ultimately show ?thesis using r by blast
qed

lemma upd_frame:
  "wf db \<Longrightarrow> j \<noteq> i \<Longrightarrow> get (fst (upd a i db)) j = get db j"
  by (simp add: upd_get)

text \<open>After a winning update whose result no longer satisfies a competing guard, the competitor
  loses and changes nothing.\<close>

lemma upd_excludes:
  assumes "wf db" and "upd a i db = (db', Some r')" and "\<not> guard b r'"
  shows "upd b i db' = (db', None)"
proof -
  have "get db' i = Some r'" using upd_SomeD [OF assms(1,2)] by blast
  moreover have "wf db'" using upd_wf [OF assms(1), of a i] assms(2) by simp
  ultimately show ?thesis using assms(3) by (intro upd_miss) auto
qed

end

text \<open>
  A table whose rows are found by a unique key, with a family of conditional writes that keep the
  key, satisfies the contract.
\<close>

locale keyed_table =
  fixes key :: "'r \<Rightarrow> 'k"
    and guard :: "'a \<Rightarrow> 'r \<Rightarrow> bool"
    and eff :: "'a \<Rightarrow> 'r \<Rightarrow> 'r"
  assumes key_eff: "key (eff a r) = key r"

sublocale keyed_table \<subseteq> tbl: guarded_update "row_by key" guard eff
  "\<lambda>a. guarded_write key (guard a) (eff a)" "key_unique key"
proof unfold_locales
  fix db i r a
  assume "key_unique key db" "row_by key db i = Some r" "guard a r"
  then show "snd (guarded_write key (guard a) (eff a) i db) = Some (eff a r)"
    by (intro guarded_write_hit)
next
  fix db i a
  assume "key_unique key db" "\<And>r. row_by key db i = Some r \<Longrightarrow> \<not> guard a r"
  then show "guarded_write key (guard a) (eff a) i db = (db, None)"
    by (intro guarded_write_miss)
next
  fix db i j a
  show "row_by key (fst (guarded_write key (guard a) (eff a) i db)) j =
    (if j = i then map_option (\<lambda>r. if guard a r then eff a r else r) (row_by key db i)
     else row_by key db j)"
    by (rule guarded_write_row) (rule key_eff)
next
  fix db i a
  assume "key_unique key db"
  then show "key_unique key (fst (guarded_write key (guard a) (eff a) i db))"
    by (simp add: guarded_write_def key_eff)
qed

section \<open>Invariants of step relations\<close>

inductive reach :: "('s \<Rightarrow> bool) \<Rightarrow> ('s \<Rightarrow> 's \<Rightarrow> bool) \<Rightarrow> 's \<Rightarrow> bool"
  for init step where
  reach_init: "init s \<Longrightarrow> reach init step s"
| reach_step: "reach init step s \<Longrightarrow> step s t \<Longrightarrow> reach init step t"

locale inductive_invariant =
  fixes init :: "'s \<Rightarrow> bool"
    and step :: "'s \<Rightarrow> 's \<Rightarrow> bool"
    and inv :: "'s \<Rightarrow> bool"
  assumes inv_init: "init s \<Longrightarrow> inv s"
    and inv_step: "inv s \<Longrightarrow> step s t \<Longrightarrow> inv t"
begin

lemma reach_inv: "reach init step s \<Longrightarrow> inv s"
  by (induction rule: reach.induct) (auto intro: inv_init inv_step)

lemma reach_inv_star: "step\<^sup>*\<^sup>* s t \<Longrightarrow> inv s \<Longrightarrow> inv t"
  by (induction rule: rtranclp_induct) (auto intro: inv_step)

end

section \<open>Functional refinement\<close>

text \<open>
  A sequence of operations run on a state, with the answers in order.
\<close>

fun run_ops :: "('e \<Rightarrow> 's \<Rightarrow> 's \<times> 'o) \<Rightarrow> 'e list \<Rightarrow> 's \<Rightarrow> 's \<times> 'o list" where
  "run_ops step [] s = (s, [])"
| "run_ops step (e # es) s =
    (case step e s of (s1, out) \<Rightarrow> (case run_ops step es s1 of (s2, outs) \<Rightarrow> (s2, out # outs)))"

text \<open>
  The contract of an implementation: every operation keeps the coupling invariant, gives the answer of
  the specification and commutes with the abstraction. The client lemma extends this to whole runs.
\<close>

locale functional_refinement =
  fixes impl :: "'e \<Rightarrow> 's \<Rightarrow> 's \<times> 'o"
    and spec :: "'e \<Rightarrow> 'a \<Rightarrow> 'a \<times> 'o"
    and abstr :: "'s \<Rightarrow> 'a"
    and coupling :: "'s \<Rightarrow> bool"
  assumes coupling_kept: "coupling s \<Longrightarrow> coupling (fst (impl e s))"
    and abstr_commutes: "coupling s \<Longrightarrow> abstr (fst (impl e s)) = fst (spec e (abstr s))"
    and same_answer: "coupling s \<Longrightarrow> snd (impl e s) = snd (spec e (abstr s))"
begin

lemma run_refines:
  assumes "coupling s"
  shows "coupling (fst (run_ops impl es s))
    \<and> run_ops spec es (abstr s) = (abstr (fst (run_ops impl es s)), snd (run_ops impl es s))"
  using assms
proof (induction es arbitrary: s)
  case (Cons e es)
  from Cons.IH [OF coupling_kept [OF Cons.prems, of e]] show ?case
    using abstr_commutes [OF Cons.prems, of e] same_answer [OF Cons.prems, of e]
    by (simp add: case_prod_beta)
qed simp

end

section \<open>Fixed backoff schedules\<close>

text \<open>
  \<^verbatim>\<open>SCHEDULE[i]\<close> of a JavaScript array: \<open>None\<close> (undefined) out of range.
\<close>

definition js_nth :: "'a list \<Rightarrow> int \<Rightarrow> 'a option" where
  "js_nth xs i = (if 0 \<le> i \<and> nat i < length xs then Some (xs ! nat i) else None)"

lemma js_nth_None_iff: "js_nth xs i = None \<longleftrightarrow> i < 0 \<or> int (length xs) \<le> i"
  by (auto simp: js_nth_def)

lemma js_nth_SomeD: "js_nth xs i = Some x \<Longrightarrow> x \<in> set xs"
  by (auto simp: js_nth_def split: if_splits)

section \<open>Insertion-ordered maps\<close>

lemma alist_update_absent: "x \<notin> fst ` set p \<Longrightarrow> AList.update x v p = p @ [(x, v)]"
  by (induction p) auto

section \<open>Sums with errors\<close>

lemma sum_case_Inr_iff:
  "(case s of Inl e \<Rightarrow> Inl e | Inr x \<Rightarrow> f x) = Inr y \<longleftrightarrow> (\<exists>x. s = Inr x \<and> f x = Inr y)"
  by (cases s) auto

end
