(* ===== verification/Schema.thy ===== *)
theory Schema
  imports Prelude
begin

text \<open>
  The tables of \<^verbatim>\<open>src/db/schema.ts\<close> that the modelled components read and write: one record
  per table, one field per column (a row of \<^verbatim>\<open>claims\<close> extends the part the service sees). Nullable
  columns are options. Text columns without a TypeScript union stay strings; \<^verbatim>\<open>claims.status\<close> is the union
  \<^verbatim>\<open>ClaimStatus\<close> of \<^verbatim>\<open>claimService.ts\<close> and is a datatype. JSON columns are a type parameter or
  an association list of string fields, which is what the modelled code reads of them.
  \<open>app_db\<close> groups the tables that several components share.
\<close>

section \<open>Users, markets, predictions\<close>

record user_row =
  u_id :: string
  u_stellarAddress :: string
  u_createdAt :: time

record market_row =
  m_id :: string
  m_question :: string
  m_status :: string
  m_resolutionOutcome :: "string option"
  m_resolutionTime :: time
  m_winningOutcome :: "string option"
  m_metadata :: "(string \<times> string) list option"
  m_indexedLedger :: int
  m_archived :: bool
  m_version :: int
  m_featured :: bool
  m_featuredAt :: "time option"
  m_featuredBy :: "string option"
  m_forceFinalized :: bool
  m_createdAt :: time

record prediction_row =
  p_id :: string
  p_marketId :: string
  p_userId :: string
  p_outcome :: string
  p_amount :: string
  p_txHash :: string
  p_fundingSource :: "string option"
  p_status :: string
  p_result :: "string option"
  p_claimTxHash :: "string option"
  p_claimedAt :: "time option"
  p_createdAt :: time
  p_confirmAttempts :: int
  p_lastError :: "string option"

section \<open>Claims\<close>

datatype claim_status =
    Prepared | Submitting | Paid | Failed | Expired | Settled | Rejected

text \<open>
  \<^verbatim>\<open>ClaimRecord\<close> of \<^verbatim>\<open>claimService.ts\<close>: the part of a row the claim service sees. A stored row
  adds the columns only the settle confirmer uses; \<open>claim_record.truncate\<close> is \<^verbatim>\<open>toRecord\<close>.
\<close>

record claim_record =
  c_id :: string
  c_userId :: string
  c_marketId :: string
  c_amount :: string
  c_status :: claim_status
  c_settlementTx :: "string option"
  c_claimNonce :: "string option"
  c_expectedTxHash :: "string option"
  c_preparedXdr :: "string option"
  c_expiresAt :: "time option"
  c_errorCode :: "string option"
  c_createdAt :: time

record claim_row = claim_record +
  c_settleAttempts :: nat
  c_nextSettleAttemptAt :: "time option"
  c_settledAt :: "time option"

text \<open>
  The partial unique index \<^verbatim>\<open>claims_one_active_per_user_market_idx\<close>: two rows of one user and
  market are never both prepared, submitting or paid.
\<close>

fun index_status :: "claim_status \<Rightarrow> bool" where
  "index_status Prepared = True"
| "index_status Submitting = True"
| "index_status Paid = True"
| "index_status _ = False"

definition claims_one_active_per_user_market_idx :: "claim_row table \<Rightarrow> bool" where
  "claims_one_active_per_user_market_idx rows \<longleftrightarrow>
     key_unique (\<lambda>c. (c_userId c, c_marketId c)) (filter (\<lambda>c. index_status (c_status c)) rows)"

section \<open>Indexer tables\<close>

text \<open>
  JSON values, as the payload column of \<^verbatim>\<open>indexer_events\<close> stores them. Payloads of which the
  modelled code only carries or reads string fields are lists of such fields.
\<close>

datatype json =
    JNull | JBool bool | JNum int | JStr string | JArr "json list" | JObj "(string \<times> json) list"

type_synonym json_fields = "(string \<times> string) list"

record indexer_event_row =
  ie_id :: string
  ie_ledger :: int
  ie_txHash :: string
  ie_txApplicationOrder :: int
  ie_opIndex :: int
  ie_eventIndex :: int
  ie_eventType :: string
  ie_createdAt :: time
  ie_marketId :: "string option"
  ie_data :: "json option"
  ie_canonical :: bool

record indexer_reorg_row =
  ir_id :: string
  ir_ledger :: int
  ir_txApplicationOrder :: int
  ir_opIndex :: int
  ir_eventIndex :: int
  ir_oldTxHash :: string
  ir_newTxHash :: string
  ir_repairedPredictions :: int
  ir_status :: string
  ir_createdAt :: time

record indexer_cursor_row =
  ic_id :: int
  ic_lastLedger :: int
  ic_updatedAt :: time

record app_db =
  db_users :: "user_row table"
  db_markets :: "market_row table"
  db_predictions :: "prediction_row table"
  db_claims :: "claim_row table"

lemma index_status_simps [simp]:
  "index_status s \<longleftrightarrow> s = Prepared \<or> s = Submitting \<or> s = Paid"
  by (cases s) auto

end
