(* ===== verification/Claim_Repo.thy ===== *)
theory Claim_Repo
  imports Schema
begin

text \<open>
  The claim persistence port: \<^verbatim>\<open>src/services/claimErrors.ts\<close> and the Drizzle implementation
  \<^verbatim>\<open>src/services/claimRepo.ts\<close>. Each method is one atomic statement on \<open>app_db\<close>.
  Database outages (an exception that is not a unique violation) are not modelled.
  The identifier and creation time that Postgres fills in on insert are arguments.
  \<open>transition\<close> satisfies the contract \<open>guarded_update\<close>.
\<close>

section \<open>Errors\<close>

text \<open>
  \<^verbatim>\<open>detail\<close> is the reason text where the code passes one; an SDK exception passed as detail is
  opaque and modelled as absent (it is only logged).
\<close>

record claim_error =
  ce_status :: int
  ce_code :: string
  ce_message :: string
  ce_detail :: "string option"

definition ClaimError :: "int \<Rightarrow> string \<Rightarrow> string \<Rightarrow> claim_error" where
  "ClaimError st code msg = \<lparr>ce_status = st, ce_code = code, ce_message = msg, ce_detail = None\<rparr>"

lemma ClaimError_simps [simp]:
  "ce_status (ClaimError st code msg) = st"
  "ce_code (ClaimError st code msg) = code"
  by (simp_all add: ClaimError_def)

section \<open>Port types\<close>

record context_prediction =
  cp_id :: string
  cp_result :: "string option"
  cp_amount :: string
  cp_claimTxHash :: "string option"
  cp_claimedAt :: "time option"

record claim_context =
  cx_market :: "string option"
  cx_prediction :: "context_prediction option"
  cx_ambiguous :: bool
  cx_unconfirmedOnly :: bool

record new_prepared_claim =
  nc_userId :: string
  nc_marketId :: string
  nc_amount :: string
  nc_claimNonce :: string
  nc_expectedTxHash :: string
  nc_preparedXdr :: string
  nc_expiresAt :: time

record transition_patch =
  tp_settlementTx :: "string option"
  tp_errorCode :: "string option"
  tp_notExpiredAt :: "time option"

definition no_patch :: transition_patch where
  "no_patch = \<lparr>tp_settlementTx = None, tp_errorCode = None, tp_notExpiredAt = None\<rparr>"

section \<open>Operations\<close>

definition toRecord :: "claim_row \<Rightarrow> claim_record" where
  "toRecord row = claim_record.truncate row"

definition context_prediction_of :: "prediction_row \<Rightarrow> context_prediction" where
  "context_prediction_of p = \<lparr>cp_id = p_id p, cp_result = p_result p, cp_amount = p_amount p,
     cp_claimTxHash = p_claimTxHash p, cp_claimedAt = p_claimedAt p\<rparr>"

text \<open>
  Only the number of confirmed rows (up to two) and, when there is exactly one, that row are used,
  so the \<^verbatim>\<open>ORDER BY id LIMIT 2\<close> of the source does not influence the result.
\<close>

definition loadContext :: "app_db \<Rightarrow> string \<Rightarrow> string \<Rightarrow> claim_context" where
  "loadContext db marketId userId =
    (let market = map_option m_status (row_by m_id (db_markets db) marketId);
         confirmed = filter (\<lambda>p. p_marketId p = marketId \<and> p_userId p = userId
                                 \<and> p_status p = ''confirmed'') (db_predictions db)
     in if length confirmed > 1 then
          \<lparr>cx_market = market, cx_prediction = None, cx_ambiguous = True, cx_unconfirmedOnly = False\<rparr>
        else case confirmed of
          [] \<Rightarrow> \<lparr>cx_market = market, cx_prediction = None, cx_ambiguous = False,
                 cx_unconfirmedOnly =
                   (\<exists>p \<in> set (db_predictions db). p_marketId p = marketId \<and> p_userId p = userId)\<rparr>
        | p # _ \<Rightarrow> \<lparr>cx_market = market, cx_prediction = Some (context_prediction_of p),
                     cx_ambiguous = False, cx_unconfirmedOnly = False\<rparr>)"

definition findActiveClaim :: "app_db \<Rightarrow> string \<Rightarrow> string \<Rightarrow> claim_record option" where
  "findActiveClaim db userId marketId =
     map_option toRecord (select_first (\<lambda>c. c_userId c = userId \<and> c_marketId c = marketId
        \<and> c_status c \<in> {Prepared, Submitting, Paid, Settled}) (db_claims db))"

definition hasConsumedNonce :: "app_db \<Rightarrow> string \<Rightarrow> string \<Rightarrow> bool" where
  "hasConsumedNonce db userId marketId =
     (select_first (\<lambda>c. c_userId c = userId \<and> c_marketId c = marketId
        \<and> c_status c \<in> {Paid, Settled}) (db_claims db) \<noteq> None)"

definition new_claim_row :: "new_prepared_claim \<Rightarrow> string \<Rightarrow> time \<Rightarrow> claim_row" where
  "new_claim_row nc newId now =
     \<lparr>c_id = newId, c_userId = nc_userId nc, c_marketId = nc_marketId nc, c_amount = nc_amount nc,
      c_status = Prepared, c_settlementTx = None, c_claimNonce = Some (nc_claimNonce nc),
      c_expectedTxHash = Some (nc_expectedTxHash nc), c_preparedXdr = Some (nc_preparedXdr nc),
      c_expiresAt = Some (nc_expiresAt nc), c_errorCode = None, c_createdAt = now,
      c_settleAttempts = 0, c_nextSettleAttemptAt = None, c_settledAt = None\<rparr>"

text \<open>Postgres raises 23505 when the primary key or the partial unique index would be violated.\<close>

definition isUniqueViolation :: "claim_row table \<Rightarrow> claim_row \<Rightarrow> bool" where
  "isUniqueViolation rows r \<longleftrightarrow>
     (\<exists>c \<in> set rows. c_id c = c_id r) \<or>
     (\<exists>c \<in> set rows. c_userId c = c_userId r \<and> c_marketId c = c_marketId r
                     \<and> index_status (c_status c))"

definition insertPrepared ::
  "new_prepared_claim \<Rightarrow> string \<Rightarrow> time \<Rightarrow> app_db \<Rightarrow> app_db \<times> claim_record option" where
  "insertPrepared nc newId now db =
     (let r = new_claim_row nc newId now
      in if isUniqueViolation (db_claims db) r then (db, None)
         else (db\<lparr>db_claims := db_claims db @ [r]\<rparr>, Some (toRecord r)))"

definition findById :: "app_db \<Rightarrow> string \<Rightarrow> claim_record option" where
  "findById db i = map_option toRecord (row_by c_id (db_claims db) i)"

definition transition_guard ::
  "claim_status \<times> claim_status \<times> transition_patch \<Rightarrow> 'a claim_record_scheme \<Rightarrow> bool" where
  "transition_guard a c = (case a of (from, to, patch) \<Rightarrow>
     c_status c = from \<and>
     (case tp_notExpiredAt patch of None \<Rightarrow> True
      | Some t \<Rightarrow> (case c_expiresAt c of None \<Rightarrow> False | Some e \<Rightarrow> t < e)))"

definition transition_set ::
  "claim_status \<times> claim_status \<times> transition_patch \<Rightarrow> 'a claim_record_scheme \<Rightarrow> 'a claim_record_scheme" where
  "transition_set a c = (case a of (from, to, patch) \<Rightarrow>
     c\<lparr>c_status := to,
       c_settlementTx := (case tp_settlementTx patch of None \<Rightarrow> c_settlementTx c | Some x \<Rightarrow> Some x),
       c_errorCode := (case tp_errorCode patch of None \<Rightarrow> c_errorCode c | Some x \<Rightarrow> Some x)\<rparr>)"

definition transition ::
  "claim_status \<times> claim_status \<times> transition_patch \<Rightarrow> string \<Rightarrow> app_db \<Rightarrow> app_db \<times> claim_record option" where
  "transition a i db =
     (let w = guarded_write c_id (transition_guard a) (transition_set a) i (db_claims db)
      in (db\<lparr>db_claims := fst w\<rparr>, map_option toRecord (snd w)))"

definition recordPredictionClaim :: "string \<Rightarrow> string \<Rightarrow> string \<Rightarrow> time \<Rightarrow> app_db \<Rightarrow> app_db" where
  "recordPredictionClaim userId marketId txHash claimedAt db =
     db\<lparr>db_predictions := update_where (\<lambda>p. p_userId p = userId \<and> p_marketId p = marketId)
          (\<lambda>p. p\<lparr>p_claimTxHash := Some txHash, p_claimedAt := Some claimedAt\<rparr>) (db_predictions db)\<rparr>"

section \<open>The table invariant\<close>

definition claims_ok :: "app_db \<Rightarrow> bool" where
  "claims_ok db \<longleftrightarrow> key_unique c_id (db_claims db)
     \<and> claims_one_active_per_user_market_idx (db_claims db)"

lemma toRecord_simps [simp]:
  "c_id (toRecord r) = c_id r" "c_userId (toRecord r) = c_userId r"
  "c_marketId (toRecord r) = c_marketId r" "c_amount (toRecord r) = c_amount r"
  "c_status (toRecord r) = c_status r" "c_settlementTx (toRecord r) = c_settlementTx r"
  "c_claimNonce (toRecord r) = c_claimNonce r" "c_expectedTxHash (toRecord r) = c_expectedTxHash r"
  "c_preparedXdr (toRecord r) = c_preparedXdr r" "c_expiresAt (toRecord r) = c_expiresAt r"
  "c_errorCode (toRecord r) = c_errorCode r"
  by (simp_all add: toRecord_def claim_record.truncate_def)

lemma transition_set_simps [simp]:
  "c_id (transition_set a r) = c_id r" "c_userId (transition_set a r) = c_userId r"
  "c_marketId (transition_set a r) = c_marketId r" "c_expiresAt (transition_set a r) = c_expiresAt r"
  "c_status (transition_set a r) = fst (snd a)"
  by (simp_all add: transition_set_def split: prod.splits)

lemma toRecord_transition_set: "toRecord (transition_set a r) = transition_set a (toRecord r)"
  by (simp add: toRecord_def transition_set_def claim_record.truncate_def split: prod.splits option.splits)

lemma transition_guard_toRecord [simp]: "transition_guard a (toRecord r) = transition_guard a r"
  by (simp add: transition_guard_def split: prod.splits option.splits)

lemma db_claims_transition [simp]:
  "db_claims (fst (transition a i db)) =
     fst (guarded_write c_id (transition_guard a) (transition_set a) i (db_claims db))"
  by (simp add: transition_def Let_def)

lemma db_predictions_transition [simp]:
  "db_predictions (fst (transition a i db)) = db_predictions db"
  "db_markets (fst (transition a i db)) = db_markets db"
  by (simp_all add: transition_def Let_def)

lemma db_claims_recordPredictionClaim [simp]:
  "db_claims (recordPredictionClaim u m h t db) = db_claims db"
  by (simp add: recordPredictionClaim_def)

interpretation claim_rows: keyed_table c_id transition_guard
  "transition_set :: _ \<Rightarrow> claim_row \<Rightarrow> claim_row"
  by unfold_locales simp

interpretation claim_tr: guarded_update findById transition_guard transition_set transition
  "\<lambda>db. key_unique c_id (db_claims db)"
proof unfold_locales
  fix db :: app_db and i r and a :: "claim_status \<times> claim_status \<times> transition_patch"
  assume "key_unique c_id (db_claims db)" "findById db i = Some r" "transition_guard a r"
  then show "snd (transition a i db) = Some (transition_set a r)"
    by (auto simp: findById_def transition_def Let_def claim_rows.tbl.upd_hit toRecord_transition_set)
next
  fix db :: app_db and i and a :: "claim_status \<times> claim_status \<times> transition_patch"
  assume uq: "key_unique c_id (db_claims db)"
    and no: "\<And>r. findById db i = Some r \<Longrightarrow> \<not> transition_guard a r"
  have "guarded_write c_id (transition_guard a) (transition_set a) i (db_claims db) = (db_claims db, None)"
    by (rule claim_rows.tbl.upd_miss [OF uq]) (use no in \<open>auto simp: findById_def\<close>)
  then show "transition a i db = (db, None)"
    by (simp add: transition_def Let_def)
next
  fix db :: app_db and i j and a :: "claim_status \<times> claim_status \<times> transition_patch"
  show "findById (fst (transition a i db)) j =
    (if j = i then map_option (\<lambda>r. if transition_guard a r then transition_set a r else r) (findById db i)
     else findById db j)"
    by (auto simp: findById_def guarded_write_row option.map_comp comp_def toRecord_transition_set
             intro!: option.map_cong)
next
  fix db :: app_db and i and a :: "claim_status \<times> claim_status \<times> transition_patch"
  assume "key_unique c_id (db_claims db)"
  then show "key_unique c_id (db_claims (fst (transition a i db)))"
    using claim_rows.tbl.upd_wf by simp
qed

lemma insertPrepared_ok: "claims_ok db \<Longrightarrow> claims_ok (fst (insertPrepared nc i t db))"
  by (auto simp: claims_ok_def insertPrepared_def Let_def isUniqueViolation_def
        claims_one_active_per_user_market_idx_def key_unique_snoc new_claim_row_def)

lemma transition_ok:
  assumes "claims_ok db" and "index_status to \<Longrightarrow> index_status from"
  shows "claims_ok (fst (transition (from, to, p) i db))"
proof -
  have "key_unique c_id (db_claims (fst (transition (from, to, p) i db)))"
    using assms(1) claim_tr.upd_wf unfolding claims_ok_def by blast
  moreover have "claims_one_active_per_user_market_idx (db_claims (fst (transition (from, to, p) i db)))"
    unfolding claims_one_active_per_user_market_idx_def db_claims_transition guarded_write_def fst_conv
    by (rule key_unique_filter_update)
      (use assms in \<open>auto simp: transition_guard_def claims_ok_def
         claims_one_active_per_user_market_idx_def\<close>)
  ultimately show ?thesis by (simp add: claims_ok_def)
qed

lemma insertPrepared_Some:
  "insertPrepared nc i t db = (db', Some r) \<Longrightarrow>
     db_claims db' = db_claims db @ [new_claim_row nc i t] \<and> r = toRecord (new_claim_row nc i t)
     \<and> i \<notin> c_id ` set (db_claims db)"
  by (auto simp: insertPrepared_def Let_def isUniqueViolation_def new_claim_row_def split: if_splits)

lemma insertPrepared_None:
  "snd (insertPrepared nc i t db) = None \<Longrightarrow> fst (insertPrepared nc i t db) = db"
  by (auto simp: insertPrepared_def Let_def split: if_splits)

end
