(* ===== verification/Claim_Chain.thy ===== *)
theory Claim_Chain
  imports Claim_Repo
begin

text \<open>
  The Soroban side of the claim flow, \<^verbatim>\<open>src/services/claimChain.ts\<close>. The Stellar SDK is not part
  of the repository: what its parser returns for a signed envelope is the record \<open>stellar_tx\<close>
  (the values the code reads through the SDK's accessors), and the parser itself
  (\<^verbatim>\<open>TransactionBuilder.fromXDR\<close>), the simulation pipeline and \<^verbatim>\<open>TransactionResult.fromXDR\<close> are
  arguments. \<open>verifySigned_accepts\<close> characterises exactly which envelopes are relayed.
\<close>

section \<open>What the code reads of an SDK transaction\<close>

datatype sc_value = ScText string | ScBigint int | ScOther

record sc_arg =
  sa_kind :: string
  sa_native :: "sc_value option"   \<comment> \<open>\<open>None\<close>: \<^verbatim>\<open>scValToNative\<close> throws\<close>

record invoke_contract =
  iv_contractAddress :: string
  iv_functionName :: string
  iv_args :: "sc_arg list"

record tx_operation =
  op_type :: string
  op_source :: "string option"
  op_funcKind :: string
  op_invoke :: invoke_contract

record stellar_tx =
  tx_source :: string
  tx_signatures :: nat
  tx_operations :: "tx_operation list"
  tx_hash :: string

datatype parsed_envelope = PlainTransaction stellar_tx | FeeBumpTransaction stellar_tx

fun innerTransaction :: "parsed_envelope \<Rightarrow> stellar_tx" where
  "innerTransaction (PlainTransaction tx) = tx"
| "innerTransaction (FeeBumpTransaction tx) = tx"

section \<open>Types of the port\<close>

record prepared_claim_tx =
  pt_xdr :: string
  pt_hash :: string
  pt_networkPassphrase :: string
  pt_expiresAt :: time

record expected_claim_tx =
  ex_user :: string
  ex_marketSymbol :: string
  ex_nonce :: int
  ex_expectedTxHash :: string

datatype send_outcome =
    SendThrew
  | SendResult (sr_status: string) (sr_hash: string) (sr_errorResultXdr: "string option")

definition CLAIM_FUNCTION :: string where
  "CLAIM_FUNCTION = ''claim_winnings''"

section \<open>Operations\<close>

text \<open>
  \<open>prepare\<close>: \<open>assembled\<close> is what the SDK pipeline (account lookup, build, simulate, assemble)
  yields, \<open>None\<close> when any step throws or the simulation is not a success.
\<close>

record assembled_tx =
  at_xdr :: string
  at_hash :: string
  at_maxTime :: "int option"

definition chain_prepare :: "string \<Rightarrow> assembled_tx option \<Rightarrow> claim_error + prepared_claim_tx" where
  "chain_prepare passphrase assembled = (case assembled of
     None \<Rightarrow> Inl (ClaimError 422 ''claim_simulation_failed'' ''Claim transaction could not be prepared'')
   | Some a \<Rightarrow>
       (let maxTime = (case at_maxTime a of None \<Rightarrow> 0 | Some t \<Rightarrow> t)
        in Inr \<lparr>pt_xdr = at_xdr a, pt_hash = at_hash a, pt_networkPassphrase = passphrase,
                pt_expiresAt = maxTime * 1000\<rparr>))"

definition xdr_mismatch :: "string option \<Rightarrow> claim_error" where
  "xdr_mismatch reason = \<lparr>ce_status = 400, ce_code = ''claim_xdr_mismatch'',
     ce_message = ''Signed transaction does not match the prepared claim'', ce_detail = reason\<rparr>"

text \<open>
  The three arguments are converted first; a conversion that throws, or \<^verbatim>\<open>BigInt\<close> applied to a
  value that is not an integer, is the "argument decoding" mismatch.
\<close>

definition check_args :: "expected_claim_tx \<Rightarrow> sc_arg \<Rightarrow> sc_arg \<Rightarrow> sc_arg \<Rightarrow> string option" where
  "check_args e a0 a1 a2 =
    (case (sa_native a0, sa_native a1, sa_native a2) of
       (Some user, Some market, Some nonce) \<Rightarrow>
         if sa_kind a0 \<noteq> ''scvAddress'' \<or> user \<noteq> ScText (ex_user e) then Some ''user argument''
         else if sa_kind a1 \<noteq> ''scvSymbol'' \<or> market \<noteq> ScText (ex_marketSymbol e)
           then Some ''market_id argument''
         else if sa_kind a2 \<noteq> ''scvU64'' then Some ''claim_nonce argument''
         else (case nonce of
             ScBigint n \<Rightarrow> if n \<noteq> ex_nonce e then Some ''claim_nonce argument'' else None
           | _ \<Rightarrow> Some ''argument decoding'')
     | _ \<Rightarrow> Some ''argument decoding'')"

definition check_invoke :: "string \<Rightarrow> expected_claim_tx \<Rightarrow> invoke_contract \<Rightarrow> string option" where
  "check_invoke contractId e iv =
    (if iv_contractAddress iv \<noteq> contractId then Some ''contract id''
     else if iv_functionName iv \<noteq> CLAIM_FUNCTION then Some ''function name''
     else case iv_args iv of [a0, a1, a2] \<Rightarrow> check_args e a0 a1 a2 | _ \<Rightarrow> Some ''argument count'')"

definition check_tx :: "string \<Rightarrow> expected_claim_tx \<Rightarrow> stellar_tx \<Rightarrow> string option" where
  "check_tx contractId e tx =
    (if tx_source tx \<noteq> ex_user e then Some ''source account''
     else if tx_signatures tx = 0 then Some ''transaction is not signed''
     else case tx_operations tx of
       [op] \<Rightarrow>
         if op_type op \<noteq> ''invokeHostFunction'' then Some ''operation type''
         else if op_source op \<noteq> None \<and> op_source op \<noteq> Some (ex_user e) then Some ''operation source''
         else if op_funcKind op \<noteq> ''hostFunctionTypeInvokeContract'' then Some ''host function type''
         else (case check_invoke contractId e (op_invoke op) of
             Some reason \<Rightarrow> Some reason
           | None \<Rightarrow> if tx_hash tx \<noteq> ex_expectedTxHash e then Some ''transaction hash'' else None)
     | _ \<Rightarrow> Some ''operation count'')"

definition verifySigned ::
  "(string \<Rightarrow> parsed_envelope option) \<Rightarrow> string \<Rightarrow> string \<Rightarrow> expected_claim_tx \<Rightarrow> claim_error option" where
  "verifySigned fromXDR contractId signedXdr e = (case fromXDR signedXdr of
     None \<Rightarrow> Some (xdr_mismatch None)
   | Some env \<Rightarrow> (case check_tx contractId e (innerTransaction env) of
       None \<Rightarrow> None | Some reason \<Rightarrow> Some (xdr_mismatch (Some reason))))"

text \<open>\<open>fromContract\<close> is what the read-only simulation of \<^verbatim>\<open>get_claim_nonce\<close> returned, if anything.\<close>

definition getClaimNonce :: "int option \<Rightarrow> bool \<Rightarrow> claim_error + int" where
  "getClaimNonce fromContract hasPriorClaim = (case fromContract of
     Some n \<Rightarrow> Inr n
   | None \<Rightarrow> if \<not> hasPriorClaim then Inr 0
       else Inl (ClaimError 409 ''claim_nonce_unavailable''
                   ''Claim nonce could not be determined for this market''))"

text \<open>\<open>resultName\<close>: the switch name of the decoded \<^verbatim>\<open>TransactionResult\<close>, \<open>None\<close> if decoding throws.\<close>

definition mapSendErrorCode :: "(string \<Rightarrow> string option) \<Rightarrow> string option \<Rightarrow> string" where
  "mapSendErrorCode resultName errorResultXdr = (case errorResultXdr of
     None \<Rightarrow> ''claim_rejected''
   | Some x \<Rightarrow> if x = '''' then ''claim_rejected''
       else (case resultName x of
           None \<Rightarrow> ''claim_rejected''
         | Some nm \<Rightarrow> if nm = ''txTooLate'' then ''claim_expired'' else ''claim_rejected''))"

section \<open>What is relayed\<close>

definition claim_arguments :: "expected_claim_tx \<Rightarrow> sc_arg list" where
  "claim_arguments e =
     [\<lparr>sa_kind = ''scvAddress'', sa_native = Some (ScText (ex_user e))\<rparr>,
      \<lparr>sa_kind = ''scvSymbol'', sa_native = Some (ScText (ex_marketSymbol e))\<rparr>,
      \<lparr>sa_kind = ''scvU64'', sa_native = Some (ScBigint (ex_nonce e))\<rparr>]"

lemma check_args_None:
  "check_args e a0 a1 a2 = None \<longleftrightarrow> [a0, a1, a2] = claim_arguments e"
  by (cases a0; cases a1; cases a2)
     (auto simp: check_args_def claim_arguments_def split: option.splits sc_value.splits if_splits)

lemma check_invoke_None:
  "check_invoke contractId e iv = None \<longleftrightarrow>
     iv_contractAddress iv = contractId \<and> iv_functionName iv = CLAIM_FUNCTION
     \<and> iv_args iv = claim_arguments e"
  by (auto simp: check_invoke_def check_args_None split: list.splits)
     (simp_all add: claim_arguments_def)

lemma check_tx_None:
  "check_tx contractId e tx = None \<longleftrightarrow>
     tx_source tx = ex_user e \<and> tx_signatures tx > 0 \<and> tx_hash tx = ex_expectedTxHash e \<and>
     (\<exists>op. tx_operations tx = [op] \<and> op_type op = ''invokeHostFunction''
        \<and> (op_source op = None \<or> op_source op = Some (ex_user e))
        \<and> op_funcKind op = ''hostFunctionTypeInvokeContract''
        \<and> iv_contractAddress (op_invoke op) = contractId
        \<and> iv_functionName (op_invoke op) = CLAIM_FUNCTION
        \<and> iv_args (op_invoke op) = claim_arguments e)"
proof -
  have "check_tx contractId e tx = None \<longleftrightarrow>
     tx_source tx = ex_user e \<and> tx_signatures tx > 0 \<and> tx_hash tx = ex_expectedTxHash e \<and>
     (\<exists>op. tx_operations tx = [op] \<and> op_type op = ''invokeHostFunction''
        \<and> (op_source op = None \<or> op_source op = Some (ex_user e))
        \<and> op_funcKind op = ''hostFunctionTypeInvokeContract''
        \<and> check_invoke contractId e (op_invoke op) = None)"
    by (auto simp: check_tx_def split: list.splits option.splits if_splits)
  then show ?thesis by (simp add: check_invoke_None)
qed

lemma verifySigned_code: "verifySigned p cid x e = Some err \<Longrightarrow> ce_code err = ''claim_xdr_mismatch'' \<and> ce_status err = 400"
  by (auto simp: verifySigned_def xdr_mismatch_def split: option.splits)

end
