(* ===== verification/Js_Numerals.thy ===== *)
theory Js_Numerals
  imports Prelude
begin

text \<open>
  The two conversions between integers and text the services rely on, as the ECMAScript standard
  defines them: \<^verbatim>\<open>n.toString()\<close> of an integer (\<open>int_to_string\<close>) and \<^verbatim>\<open>BigInt(text)\<close>
  (\<open>bigint_of_string\<close>, \<open>None\<close> for the \<^verbatim>\<open>SyntaxError\<close>). \<open>bigint_roundtrip\<close> is what the nonce and
  amount columns, stored as text, depend on.
\<close>

section \<open>Digits\<close>

definition digit_char :: "nat \<Rightarrow> char" where
  "digit_char d = (if d < 10 then char_of (48 + d) else char_of (87 + d))"

definition digit_value :: "char \<Rightarrow> nat option" where
  "digit_value c =
    (let n = of_char c :: nat
     in if 48 \<le> n \<and> n \<le> 57 then Some (n - 48)
        else if 97 \<le> n \<and> n \<le> 122 then Some (n - 87)
        else if 65 \<le> n \<and> n \<le> 90 then Some (n - 55)
        else None)"

definition is_digit :: "char \<Rightarrow> bool" where
  "is_digit c \<longleftrightarrow> (let n = of_char c :: nat in 48 \<le> n \<and> n \<le> 57)"

lemma digit_value_char [simp]: "d < 10 \<Longrightarrow> digit_value (digit_char d) = Some d"
  by (simp add: digit_value_def digit_char_def Let_def)

section \<open>Printing\<close>

fun nat_to_string :: "nat \<Rightarrow> string" where
  "nat_to_string n = (if n < 10 then [digit_char n]
     else nat_to_string (n div 10) @ [digit_char (n mod 10)])"

declare nat_to_string.simps [simp del]

definition int_to_string :: "int \<Rightarrow> string" where
  "int_to_string i = (if i < 0 then CHR ''-'' # nat_to_string (nat (- i)) else nat_to_string (nat i))"

section \<open>Reading\<close>

fun digits_value :: "nat \<Rightarrow> nat \<Rightarrow> string \<Rightarrow> nat option" where
  "digits_value b acc [] = Some acc"
| "digits_value b acc (c # cs) = (case digit_value c of
     None \<Rightarrow> None
   | Some d \<Rightarrow> if d < b then digits_value b (acc * b + d) cs else None)"

definition unsigned_value :: "nat \<Rightarrow> string \<Rightarrow> nat option" where
  "unsigned_value b cs = (if cs = [] then None else digits_value b 0 cs)"

definition is_space :: "char \<Rightarrow> bool" where
  "is_space c \<longleftrightarrow> (of_char c :: nat) \<in> {9, 10, 11, 12, 13, 32, 160}"

definition js_trim :: "string \<Rightarrow> string" where
  "js_trim s = rev (dropWhile is_space (rev (dropWhile is_space s)))"

definition decimal_literal :: "string \<Rightarrow> int option" where
  "decimal_literal s = (case s of
     [] \<Rightarrow> Some 0
   | c # cs \<Rightarrow>
       if c = CHR ''-'' then map_option (\<lambda>n. - int n) (unsigned_value 10 cs)
       else if c = CHR ''+'' then map_option int (unsigned_value 10 cs)
       else map_option int (unsigned_value 10 s))"

definition bigint_of_string :: "string \<Rightarrow> int option" where
  "bigint_of_string text = (let s = js_trim text in
     (case s of
        z # x # cs \<Rightarrow>
          if z = CHR ''0'' \<and> x \<in> {CHR ''x'', CHR ''X''} then map_option int (unsigned_value 16 cs)
          else if z = CHR ''0'' \<and> x \<in> {CHR ''o'', CHR ''O''} then map_option int (unsigned_value 8 cs)
          else if z = CHR ''0'' \<and> x \<in> {CHR ''b'', CHR ''B''} then map_option int (unsigned_value 2 cs)
          else decimal_literal s
      | _ \<Rightarrow> decimal_literal s))"

section \<open>Round trip\<close>

lemma digits_value_append:
  "digits_value b acc (xs @ ys) =
     (case digits_value b acc xs of None \<Rightarrow> None | Some a \<Rightarrow> digits_value b a ys)"
  by (induction xs arbitrary: acc) (auto split: option.splits)

lemma digits_value_nat_to_string: "digits_value 10 0 (nat_to_string n) = Some n"
proof (induction n rule: nat_to_string.induct)
  case (1 n)
  show ?case
  proof (cases "n < 10")
    case True
    then show ?thesis by (simp add: nat_to_string.simps)
  next
    case False
    with 1 have "digits_value 10 0 (nat_to_string (n div 10)) = Some (n div 10)" by blast
    with False show ?thesis
      by (simp add: nat_to_string.simps [of n] digits_value_append)
  qed
qed

lemma digits_value_zeros: "digits_value 10 0 (replicate k CHR ''0'' @ s) = digits_value 10 0 s"
  by (induction k) (simp_all add: digit_value_def)

lemma is_digit_zero [simp]: "is_digit CHR ''0''"
  by (simp add: is_digit_def)

lemma of_char_digit_char: "d < 10 \<Longrightarrow> of_char (digit_char d) = 48 + d"
  by (simp add: digit_char_def)

lemma nat_to_string_digits: "c \<in> set (nat_to_string n) \<Longrightarrow> is_digit c"
proof (induction n rule: nat_to_string.induct)
  case (1 n)
  then show ?case
    by (cases "n < 10") (auto simp: nat_to_string.simps [of n] is_digit_def of_char_digit_char Let_def)
qed

lemma nat_to_string_not_Nil [simp]: "nat_to_string n \<noteq> []"
  by (subst nat_to_string.simps) simp

lemma is_digit_no_space: "is_digit c \<Longrightarrow> \<not> is_space c"
  by (auto simp: is_digit_def is_space_def Let_def)

lemma is_digit_chars: "is_digit c \<Longrightarrow> c \<noteq> CHR ''-'' \<and> c \<noteq> CHR ''+''
    \<and> c \<notin> {CHR ''x'', CHR ''X'', CHR ''o'', CHR ''O'', CHR ''b'', CHR ''B''}"
  by (auto simp: is_digit_def Let_def)

lemma js_trim_id: "(\<And>c. c \<in> set s \<Longrightarrow> \<not> is_space c) \<Longrightarrow> js_trim s = s"
proof -
  assume "\<And>c. c \<in> set s \<Longrightarrow> \<not> is_space c"
  then have "dropWhile is_space s = s" "dropWhile is_space (rev s) = rev s"
    by (auto simp: dropWhile_eq_self_iff hd_rev)
  then show ?thesis by (simp add: js_trim_def)
qed

lemma decimal_literal_print: "decimal_literal (int_to_string i) = Some i"
proof (cases "i < 0")
  case True
  then show ?thesis
    by (simp add: decimal_literal_def int_to_string_def unsigned_value_def digits_value_nat_to_string)
next
  case False
  obtain c cs where s: "nat_to_string (nat i) = c # cs" by (cases "nat_to_string (nat i)") auto
  then have "is_digit c" using nat_to_string_digits [of c "nat i"] by simp
  with False s show ?thesis
    using digits_value_nat_to_string [of "nat i"] is_digit_chars [of c]
    by (simp add: decimal_literal_def int_to_string_def unsigned_value_def)
qed

lemma int_to_string_no_space: "c \<in> set (int_to_string i) \<Longrightarrow> \<not> is_space c"
  by (auto simp: int_to_string_def is_space_def [of "CHR ''-''"]
        dest!: nat_to_string_digits is_digit_no_space split: if_splits)

lemma bigint_roundtrip [simp]: "bigint_of_string (int_to_string i) = Some i"
proof -
  let ?s = "int_to_string i"
  have trim: "js_trim ?s = ?s" by (rule js_trim_id) (rule int_to_string_no_space)
  have sign: "z \<noteq> CHR ''0'' \<or> x \<notin> {CHR ''x'', CHR ''X'', CHR ''o'', CHR ''O'', CHR ''b'', CHR ''B''}"
    if "?s = z # x # cs" for z x cs
  proof (cases "i < 0")
    case True
    with that show ?thesis by (auto simp: int_to_string_def)
  next
    case False
    with that have "x \<in> set (nat_to_string (nat i))" by (simp add: int_to_string_def)
    then show ?thesis using is_digit_chars nat_to_string_digits by blast
  qed
  have "bigint_of_string ?s = decimal_literal ?s"
  proof (cases ?s)
    case Nil
    then show ?thesis by (simp add: int_to_string_def split: if_splits)
  next
    case (Cons z zs)
    show ?thesis
    proof (cases zs)
      case Nil
      with Cons have s: "?s = [z]" by simp
      then show ?thesis using trim by (simp add: bigint_of_string_def Let_def)
    next
      case (Cons x cs)
      with \<open>?s = z # zs\<close> have s: "?s = z # x # cs" by simp
      with trim have "js_trim (z # x # cs) = z # x # cs" by simp
      with sign [OF s] show ?thesis
        unfolding s by (auto simp: bigint_of_string_def Let_def)
    qed
  qed
  then show ?thesis by (simp add: decimal_literal_print)
qed

lemma int_to_string_inject [simp]: "int_to_string i = int_to_string j \<longleftrightarrow> i = j"
  using bigint_roundtrip by (metis option.inject)

section \<open>parseInt and finite numbers\<close>

text \<open>\<^verbatim>\<open>parseInt(s, 10)\<close>: leading white space, a sign and the longest run of digits; \<open>None\<close> is
  \<^verbatim>\<open>NaN\<close>. A magnitude that rounds to a double beyond the largest finite one is \<^verbatim>\<open>Infinity\<close>, which
  \<open>js_finite\<close> excludes.\<close>

definition digit_run :: "string \<Rightarrow> int option" where
  "digit_run s = (let ds = takeWhile is_digit s
     in if ds = [] then None else map_option int (digits_value 10 0 ds))"

definition parseInt10 :: "string \<Rightarrow> int option" where
  "parseInt10 text = (case dropWhile is_space text of
     [] \<Rightarrow> None
   | c # cs \<Rightarrow> if c = CHR ''-'' then map_option uminus (digit_run cs)
               else if c = CHR ''+'' then digit_run cs
               else digit_run (c # cs))"

definition js_finite :: "int \<Rightarrow> bool" where
  "js_finite n \<longleftrightarrow> \<bar>n\<bar> < 2 ^ 1024 - 2 ^ 970"

lemma digit_run_print:
  assumes "rest = [] \<or> \<not> is_digit (hd rest)"
  shows "digit_run (nat_to_string n @ rest) = Some (int n)"
proof -
  have "takeWhile is_digit (nat_to_string n @ rest) = nat_to_string n"
  proof -
    have "takeWhile is_digit rest = []" using assms by (cases rest) auto
    then show ?thesis using nat_to_string_digits by (simp add: takeWhile_append2)
  qed
  then show ?thesis by (simp add: digit_run_def digits_value_nat_to_string)
qed

lemma parseInt10_print:
  assumes "rest = [] \<or> \<not> is_digit (hd rest)"
  shows "parseInt10 (nat_to_string n @ rest) = Some (int n)"
proof -
  obtain c cs where s: "nat_to_string n = c # cs" by (cases "nat_to_string n") auto
  then have c: "is_digit c" using nat_to_string_digits [of c n] by simp
  then have "dropWhile is_space (nat_to_string n @ rest) = c # cs @ rest"
    using s is_digit_no_space by simp
  then show ?thesis
    using c is_digit_chars [OF c] digit_run_print [OF assms, of n] s by (simp add: parseInt10_def)
qed

lemma length_nat_to_string: "n < 10 ^ Suc k \<Longrightarrow> length (nat_to_string n) \<le> Suc k"
proof (induction k arbitrary: n)
  case 0
  then show ?case by (simp add: nat_to_string.simps)
next
  case (Suc k)
  show ?case
  proof (cases "n < 10")
    case False
    have "n div 10 < 10 ^ Suc k" using Suc.prems by (simp add: less_mult_imp_div_less mult.commute)
    then have "length (nat_to_string (n div 10)) \<le> Suc k" by (rule Suc.IH)
    with False show ?thesis by (simp add: nat_to_string.simps [of n])
  qed (simp add: nat_to_string.simps)
qed

end
