(* ===== verification/Claim_Service.thy ===== *)
theory Claim_Service
  imports Claim_Chain Js_Numerals
begin

text \<open>
  The user-signed claim flow, \<^verbatim>\<open>src/services/claimService.ts\<close>. \<open>prepareClaim\<close> and \<open>submitClaim\<close>
  are written as step functions over a program counter: one step is the code between two awaited
  database or network calls and contains at most one atomic database statement, so the concurrent
  system of \<open>Claim_System\<close> can interleave them exactly where the source awaits. The handlers
  themselves run the step function from its start (\<open>prepareClaim_total\<close>, \<open>submitClaim_total\<close>: six,
  respectively seven steps always reach a result). What one step takes from outside the process
  (clock, generated identifier, RPC answers) is the record \<open>claim_io\<close>.
\<close>

section \<open>Requests, results, outside world\<close>

record prepare_input =
  pi_marketId :: string
  pi_userId :: string
  pi_stellarAddress :: string

record prepare_result =
  pr_claimId :: string
  pr_xdr :: "string option"
  pr_networkPassphrase :: string
  pr_expiresAt :: time

record submit_input =
  si_claimId :: string
  si_userId :: string
  si_stellarAddress :: string
  si_signedXdr :: string

record submit_result =
  sb_claimId :: string
  sb_status :: claim_status
  sb_predictionId :: "string option"
  sb_result :: "string option"
  sb_claimTxHash :: "string option"
  sb_claimedAt :: "time option"

text \<open>
  \<open>E_Other\<close>: an exception that is not a \<^verbatim>\<open>ClaimError\<close> (a \<^verbatim>\<open>TypeError\<close> on a null date, a
  \<^verbatim>\<open>SyntaxError\<close> of \<^verbatim>\<open>BigInt\<close>).
\<close>

datatype claim_exn = E_Claim claim_error | E_Other

record claim_io =
  io_now :: time
  io_newId :: string
  io_nonce :: "int option"
  io_assembled :: "assembled_tx option"
  io_send :: send_outcome

record claim_env =
  env_passphrase :: string
  env_contractId :: string
  env_fromXDR :: "string \<Rightarrow> parsed_envelope option"
  env_resultName :: "string \<Rightarrow> string option"

abbreviation throw :: "int \<Rightarrow> string \<Rightarrow> string \<Rightarrow> claim_exn + 'a" where
  "throw st code msg \<equiv> Inl (E_Claim (ClaimError st code msg))"

section \<open>Prepare\<close>

definition preparedResult :: "claim_env \<Rightarrow> claim_record \<Rightarrow> claim_exn + prepare_result" where
  "preparedResult E claim = (case c_expiresAt claim of
     None \<Rightarrow> Inl E_Other
   | Some e \<Rightarrow> Inr \<lparr>pr_claimId = c_id claim, pr_xdr = c_preparedXdr claim,
                    pr_networkPassphrase = env_passphrase E, pr_expiresAt = e\<rparr>)"

text \<open>The validation of the loaded context, up to the prediction that will be paid. An empty
  \<^verbatim>\<open>claimTxHash\<close> is falsy.\<close>

definition truthy_text :: "string option \<Rightarrow> bool" where
  "truthy_text s = (s \<noteq> None \<and> s \<noteq> Some '''')"

definition null_text :: "string option \<Rightarrow> string" where
  "null_text s = (case s of None \<Rightarrow> ''null'' | Some x \<Rightarrow> x)"

definition check_context :: "claim_context \<Rightarrow> claim_exn + context_prediction" where
  "check_context cx = (case cx_market cx of
     None \<Rightarrow> throw 404 ''market_not_found'' ''Market not found''
   | Some status \<Rightarrow>
     if status \<noteq> ''resolved'' then
       throw 400 ''market_not_resolved'' ''Market must be resolved before claims can be processed''
     else if cx_ambiguous cx then
       throw 409 ''ambiguous_prediction'' ''Multiple confirmed predictions found for this user and market''
     else (case cx_prediction cx of
       None \<Rightarrow>
         if cx_unconfirmedOnly cx then
           throw 400 ''prediction_not_winning'' ''No confirmed winning prediction found. Only confirmed winning predictions can be claimed''
         else throw 404 ''prediction_not_found'' ''No prediction found for this user and market''
     | Some p \<Rightarrow>
         if truthy_text (cp_claimTxHash p) then
           throw 409 ''claim_already_submitted'' ''Winnings for this market have already been claimed''
         else if cp_result p \<noteq> Some ''won'' then
           throw 400 ''prediction_not_winning''
             (''Prediction result is \"'' @ null_text (cp_result p) @ ''\". Only winning predictions can be claimed'')
         else Inr p))"

datatype prepare_pc =
    P_context
  | P_active context_prediction
  | P_expire context_prediction string
  | P_build context_prediction
  | P_insert context_prediction int prepared_claim_tx
  | P_winner
  | P_done "claim_exn + prepare_result"

definition prepare_active :: "claim_env \<Rightarrow> claim_io \<Rightarrow> context_prediction \<Rightarrow> claim_record option \<Rightarrow> prepare_pc" where
  "prepare_active E io p existing = (case existing of
     None \<Rightarrow> P_build p
   | Some c \<Rightarrow>
       if c_status c = Prepared then
         (if (case c_expiresAt c of None \<Rightarrow> False | Some e \<Rightarrow> e > io_now io)
          then P_done (preparedResult E c)
          else P_expire p (c_id c))
       else if c_status c = Submitting then
         P_done (throw 409 ''claim_in_progress'' ''A claim is already being submitted'')
       else P_done (throw 409 ''claim_already_submitted'' ''Winnings for this market have already been claimed''))"

definition prepare_build :: "claim_env \<Rightarrow> claim_io \<Rightarrow> context_prediction \<Rightarrow> bool \<Rightarrow> prepare_pc" where
  "prepare_build E io p hasPriorClaim =
    (case getClaimNonce (io_nonce io) hasPriorClaim of
       Inl e \<Rightarrow> P_done (Inl (E_Claim e))
     | Inr nonce \<Rightarrow> (case chain_prepare (env_passphrase E) (io_assembled io) of
         Inl e \<Rightarrow> P_done (Inl (E_Claim e))
       | Inr tx \<Rightarrow> P_insert p nonce tx))"

definition prepared_claim_of ::
  "prepare_input \<Rightarrow> context_prediction \<Rightarrow> int \<Rightarrow> prepared_claim_tx \<Rightarrow> new_prepared_claim" where
  "prepared_claim_of inp p nonce tx =
     \<lparr>nc_userId = pi_userId inp, nc_marketId = pi_marketId inp, nc_amount = cp_amount p,
      nc_claimNonce = int_to_string nonce, nc_expectedTxHash = pt_hash tx,
      nc_preparedXdr = pt_xdr tx, nc_expiresAt = pt_expiresAt tx\<rparr>"

fun prepare_step :: "claim_env \<Rightarrow> claim_io \<Rightarrow> prepare_input \<Rightarrow> app_db \<times> prepare_pc \<Rightarrow> app_db \<times> prepare_pc" where
  "prepare_step E io inp (db, P_context) =
     (case check_context (loadContext db (pi_marketId inp) (pi_userId inp)) of
        Inl e \<Rightarrow> (db, P_done (Inl e))
      | Inr p \<Rightarrow> (db, P_active p))"
| "prepare_step E io inp (db, P_active p) =
     (db, prepare_active E io p (findActiveClaim db (pi_userId inp) (pi_marketId inp)))"
| "prepare_step E io inp (db, P_expire p i) =
     (fst (transition (Prepared, Expired, no_patch\<lparr>tp_errorCode := Some ''claim_expired''\<rparr>) i db),
      P_build p)"
| "prepare_step E io inp (db, P_build p) =
     (db, prepare_build E io p (hasConsumedNonce db (pi_userId inp) (pi_marketId inp)))"
| "prepare_step E io inp (db, P_insert p nonce tx) =
     (case insertPrepared (prepared_claim_of inp p nonce tx) (io_newId io) (io_now io) db of
        (db', Some r) \<Rightarrow> (db', P_done (preparedResult E r))
      | (db', None) \<Rightarrow> (db', P_winner))"
| "prepare_step E io inp (db, P_winner) =
     (db, P_done (case findActiveClaim db (pi_userId inp) (pi_marketId inp) of
        None \<Rightarrow> throw 409 ''claim_in_progress'' ''A claim is already being submitted''
      | Some w \<Rightarrow> if c_status w = Prepared then preparedResult E w
                  else throw 409 ''claim_in_progress'' ''A claim is already being submitted''))"
| "prepare_step E io inp (db, P_done r) = (db, P_done r)"

text \<open>The handler alone, with the outside world of its i-th step given by \<open>ios i\<close>.\<close>

fun prepare_run :: "nat \<Rightarrow> claim_env \<Rightarrow> (nat \<Rightarrow> claim_io) \<Rightarrow> prepare_input \<Rightarrow> app_db \<times> prepare_pc \<Rightarrow> app_db \<times> prepare_pc" where
  "prepare_run 0 E ios inp s = s"
| "prepare_run (Suc n) E ios inp s = prepare_run n E (\<lambda>i. ios (Suc i)) inp (prepare_step E (ios 0) inp s)"

definition prepareClaim :: "claim_env \<Rightarrow> (nat \<Rightarrow> claim_io) \<Rightarrow> prepare_input \<Rightarrow> app_db \<Rightarrow> app_db \<times> prepare_pc" where
  "prepareClaim E ios inp db = prepare_run 6 E ios inp (db, P_context)"

section \<open>Submit\<close>

definition toSubmitResult :: "app_db \<Rightarrow> claim_record \<Rightarrow> submit_result" where
  "toSubmitResult db claim =
    (let prediction = cx_prediction (loadContext db (c_marketId claim) (c_userId claim))
     in \<lparr>sb_claimId = c_id claim, sb_status = c_status claim,
         sb_predictionId = map_option cp_id prediction,
         sb_result = (case prediction of None \<Rightarrow> None | Some p \<Rightarrow> cp_result p),
         sb_claimTxHash = c_settlementTx claim,
         sb_claimedAt = (case prediction of None \<Rightarrow> None | Some p \<Rightarrow> cp_claimedAt p)\<rparr>)"

datatype submit_pc =
    S_find
  | S_expire claim_record
  | S_begin claim_record
  | S_reload claim_record
  | S_send claim_record
  | S_revert claim_record string
  | S_paid claim_record string
  | S_record claim_record string
  | S_fail claim_record string
  | S_result claim_record
  | S_done "claim_exn + submit_result"

definition resolveNonSubmittable :: "claim_record \<Rightarrow> submit_pc" where
  "resolveNonSubmittable claim = (case c_status claim of
     Paid \<Rightarrow> S_result claim
   | Settled \<Rightarrow> S_result claim
   | Expired \<Rightarrow> S_done (throw 409 ''claim_expired'' ''Claim has expired; prepare a new one'')
   | Failed \<Rightarrow> S_done (throw 409 (case c_errorCode claim of None \<Rightarrow> ''claim_rejected'' | Some c \<Rightarrow> c)
                        ''Claim was rejected; prepare a new one'')
   | Rejected \<Rightarrow> S_done (throw 409 (case c_errorCode claim of None \<Rightarrow> ''claim_rejected'' | Some c \<Rightarrow> c)
                        ''Claim was rejected; prepare a new one'')
   | _ \<Rightarrow> S_done (throw 409 ''claim_in_progress'' ''Claim is already being submitted''))"

definition expected_of :: "submit_input \<Rightarrow> claim_record \<Rightarrow> int \<Rightarrow> expected_claim_tx" where
  "expected_of inp claim nonce =
     \<lparr>ex_user = si_stellarAddress inp, ex_marketSymbol = c_marketId claim, ex_nonce = nonce,
      ex_expectedTxHash = (case c_expectedTxHash claim of None \<Rightarrow> '''' | Some h \<Rightarrow> h)\<rparr>"

definition submit_check :: "claim_env \<Rightarrow> claim_io \<Rightarrow> submit_input \<Rightarrow> claim_record option \<Rightarrow> submit_pc" where
  "submit_check E io inp found = (case found of
     None \<Rightarrow> S_done (throw 404 ''claim_not_found'' ''Claim not found'')
   | Some claim \<Rightarrow>
     if c_userId claim \<noteq> si_userId inp then S_done (throw 404 ''claim_not_found'' ''Claim not found'')
     else if c_status claim \<noteq> Prepared then resolveNonSubmittable claim
     else if (case c_expiresAt claim of None \<Rightarrow> True | Some e \<Rightarrow> e \<le> io_now io) then S_expire claim
     else (case bigint_of_string (case c_claimNonce claim of None \<Rightarrow> ''0'' | Some n \<Rightarrow> n) of
         None \<Rightarrow> S_done (Inl E_Other)
       | Some nonce \<Rightarrow>
           (case verifySigned (env_fromXDR E) (env_contractId E) (si_signedXdr inp) (expected_of inp claim nonce) of
              Some err \<Rightarrow> S_done (Inl (E_Claim err))
            | None \<Rightarrow> S_begin claim)))"

fun submit_sent :: "claim_env \<Rightarrow> claim_record \<Rightarrow> send_outcome \<Rightarrow> submit_pc" where
  "submit_sent E claim SendThrew = S_revert claim ''Network unavailable; please retry''"
| "submit_sent E claim (SendResult status h err) =
    (if status = ''PENDING'' \<or> status = ''DUPLICATE'' then S_paid claim h
     else if status = ''TRY_AGAIN_LATER'' then S_revert claim ''Network busy; please retry''
     else S_fail claim (mapSendErrorCode (env_resultName E) err))"

fun submit_step :: "claim_env \<Rightarrow> claim_io \<Rightarrow> submit_input \<Rightarrow> app_db \<times> submit_pc \<Rightarrow> app_db \<times> submit_pc" where
  "submit_step E io inp (db, S_find) = (db, submit_check E io inp (findById db (si_claimId inp)))"
| "submit_step E io inp (db, S_expire claim) =
     (fst (transition (Prepared, Expired, no_patch\<lparr>tp_errorCode := Some ''claim_expired''\<rparr>) (c_id claim) db),
      S_done (throw 409 ''claim_expired'' ''Claim has expired; prepare a new one''))"
| "submit_step E io inp (db, S_begin claim) =
     (case transition (Prepared, Submitting, no_patch\<lparr>tp_notExpiredAt := Some (io_now io)\<rparr>) (c_id claim) db of
        (db', Some submitting) \<Rightarrow> (db', S_send submitting)
      | (db', None) \<Rightarrow> (db', S_reload claim))"
| "submit_step E io inp (db, S_reload claim) =
     (db, case findById db (c_id claim) of
        None \<Rightarrow> resolveNonSubmittable claim
      | Some current \<Rightarrow>
          if c_status current = Prepared
          then S_done (throw 409 ''claim_expired'' ''Claim has expired; prepare a new one'')
          else resolveNonSubmittable current)"
| "submit_step E io inp (db, S_send claim) = (db, submit_sent E claim (io_send io))"
| "submit_step E io inp (db, S_revert claim msg) =
     (fst (transition (Submitting, Prepared, no_patch) (c_id claim) db),
      S_done (throw 503 ''claim_rpc_unavailable'' msg))"
| "submit_step E io inp (db, S_paid claim h) =
     (case transition (Submitting, Paid, no_patch\<lparr>tp_settlementTx := Some h\<rparr>) (c_id claim) db of
        (db', Some paid) \<Rightarrow> (db', S_record paid h)
      | (db', None) \<Rightarrow> (db', S_record (claim\<lparr>c_status := Paid, c_settlementTx := Some h\<rparr>) h))"
| "submit_step E io inp (db, S_record claim h) =
     (recordPredictionClaim (si_userId inp) (c_marketId claim) h (io_now io) db, S_result claim)"
| "submit_step E io inp (db, S_fail claim code) =
     (fst (transition (Submitting, Failed, no_patch\<lparr>tp_errorCode := Some code\<rparr>) (c_id claim) db),
      S_done (throw (if code = ''claim_expired'' then 409 else 422) code
        (if code = ''claim_expired'' then ''Claim has expired; prepare a new one''
         else ''Claim transaction was rejected by the network'')))"
| "submit_step E io inp (db, S_result claim) = (db, S_done (Inr (toSubmitResult db claim)))"
| "submit_step E io inp (db, S_done r) = (db, S_done r)"

fun submit_run :: "nat \<Rightarrow> claim_env \<Rightarrow> (nat \<Rightarrow> claim_io) \<Rightarrow> submit_input \<Rightarrow> app_db \<times> submit_pc \<Rightarrow> app_db \<times> submit_pc" where
  "submit_run 0 E ios inp s = s"
| "submit_run (Suc n) E ios inp s = submit_run n E (\<lambda>i. ios (Suc i)) inp (submit_step E (ios 0) inp s)"

definition submitClaim :: "claim_env \<Rightarrow> (nat \<Rightarrow> claim_io) \<Rightarrow> submit_input \<Rightarrow> app_db \<Rightarrow> app_db \<times> submit_pc" where
  "submitClaim E ios inp db = submit_run 7 E ios inp (db, S_find)"

section \<open>Every handler finishes\<close>

text \<open>A rank that drops with every step: the number of steps still needed.\<close>

fun prepare_rank :: "prepare_pc \<Rightarrow> nat" where
  "prepare_rank P_context = 6"
| "prepare_rank (P_active _) = 5"
| "prepare_rank (P_expire _ _) = 4"
| "prepare_rank (P_build _) = 3"
| "prepare_rank (P_insert _ _ _) = 2"
| "prepare_rank P_winner = 1"
| "prepare_rank (P_done _) = 0"

fun submit_rank :: "submit_pc \<Rightarrow> nat" where
  "submit_rank S_find = 7"
| "submit_rank (S_expire _) = 1"
| "submit_rank (S_begin _) = 5"
| "submit_rank (S_reload _) = 2"
| "submit_rank (S_send _) = 4"
| "submit_rank (S_revert _ _) = 1"
| "submit_rank (S_paid _ _) = 3"
| "submit_rank (S_record _ _) = 2"
| "submit_rank (S_fail _ _) = 1"
| "submit_rank (S_result _) = 1"
| "submit_rank (S_done _) = 0"

lemma prepare_step_rank:
  "prepare_rank (snd (prepare_step E io inp (db, pc))) \<le> prepare_rank pc - 1"
  by (cases pc)
     (auto simp: prepare_active_def prepare_build_def split: sum.splits option.splits prod.splits)

lemma submit_rank_resolve: "submit_rank (resolveNonSubmittable c) \<le> 1"
  by (simp add: resolveNonSubmittable_def split: claim_status.splits)

lemma submit_rank_sent: "submit_rank (submit_sent E c r) \<le> 3"
  by (cases r) auto

lemma submit_step_rank:
  "submit_rank (snd (submit_step E io inp (db, pc))) \<le> submit_rank pc - 1"
proof (cases pc)
  case S_find
  have "submit_rank (submit_check E io inp r) \<le> 6" for r
    by (auto simp: submit_check_def split: option.splits intro: le_trans [OF submit_rank_resolve])
  with S_find show ?thesis by simp
qed (use submit_rank_resolve submit_rank_sent in \<open>auto split: option.splits prod.splits\<close>)

lemma prepare_run_rank: "prepare_rank (snd (prepare_run n E ios inp s)) \<le> prepare_rank (snd s) - n"
proof (induction n arbitrary: ios s)
  case (Suc n)
  have "prepare_rank (snd (prepare_step E (ios 0) inp s)) \<le> prepare_rank (snd s) - 1"
    using prepare_step_rank by (cases s) auto
  then show ?case
    using Suc [of "\<lambda>i. ios (Suc i)" "prepare_step E (ios 0) inp s"] by simp
qed simp

lemma submit_run_rank: "submit_rank (snd (submit_run n E ios inp s)) \<le> submit_rank (snd s) - n"
proof (induction n arbitrary: ios s)
  case (Suc n)
  have "submit_rank (snd (submit_step E (ios 0) inp s)) \<le> submit_rank (snd s) - 1"
    using submit_step_rank by (cases s) auto
  then show ?case
    using Suc [of "\<lambda>i. ios (Suc i)" "submit_step E (ios 0) inp s"] by simp
qed simp

lemma prepareClaim_returns: "\<exists>r. snd (prepareClaim E ios inp db) = P_done r"
  using prepare_run_rank [of 6 E ios inp "(db, P_context)"]
  by (cases "snd (prepareClaim E ios inp db)") (simp_all add: prepareClaim_def)

lemma submitClaim_returns: "\<exists>r. snd (submitClaim E ios inp db) = S_done r"
  using submit_run_rank [of 7 E ios inp "(db, S_find)"]
  by (cases "snd (submitClaim E ios inp db)") (simp_all add: submitClaim_def)

end
