(* ===== verification/Settle_Confirmer.thy ===== *)
theory Settle_Confirmer
  imports Claim_Repo
begin

text \<open>
  The settle confirmer, \<^verbatim>\<open>src/services/settleConfirmerService.ts\<close> with its Drizzle repository in
  \<^verbatim>\<open>src/workers/settleConfirmer.ts\<close>: it polls the paid claims, asks Horizon whether their
  transaction is final and moves them to settled or rejected, or schedules another check. The
  HTTP layer (\<^verbatim>\<open>fetchWithRetry\<close>) is an argument.
\<close>

section \<open>Backoff schedule\<close>

definition SETTLE_BACKOFF_MS :: "int list" where
  "SETTLE_BACKOFF_MS = [5 * 1000, 15 * 1000, 30 * 1000, 60 * 1000, 5 * 60 * 1000, 15 * 60 * 1000,
     60 * 60 * 1000]"

definition MAX_SETTLE_ATTEMPTS :: nat where
  "MAX_SETTLE_ATTEMPTS = length SETTLE_BACKOFF_MS"

definition calculateNextRetry :: "time \<Rightarrow> nat \<Rightarrow> time option" where
  "calculateNextRetry now attempts =
     (if attempts \<ge> MAX_SETTLE_ATTEMPTS then None else Some (now + SETTLE_BACKOFF_MS ! attempts))"

section \<open>Repository\<close>

record pending_claim =
  pc_id :: string
  pc_settlementTx :: string
  pc_settleAttempts :: nat

definition settle_due :: "time \<Rightarrow> claim_row \<Rightarrow> bool" where
  "settle_due now c \<longleftrightarrow> c_status c = Paid \<and> c_settlementTx c \<noteq> None
     \<and> (case c_nextSettleAttemptAt c of None \<Rightarrow> True | Some t \<Rightarrow> t \<le> now)"

definition getPendingSettlements :: "time \<Rightarrow> app_db \<Rightarrow> pending_claim list" where
  "getPendingSettlements now db =
     map (\<lambda>c. \<lparr>pc_id = c_id c, pc_settlementTx = the (c_settlementTx c),
               pc_settleAttempts = c_settleAttempts c\<rparr>) (filter (settle_due now) (db_claims db))"

definition set_claim :: "string \<Rightarrow> (claim_row \<Rightarrow> claim_row) \<Rightarrow> app_db \<Rightarrow> app_db" where
  "set_claim i f db = db\<lparr>db_claims := update_where (\<lambda>c. c_id c = i) f (db_claims db)\<rparr>"

definition markSettled :: "string \<Rightarrow> time \<Rightarrow> app_db \<Rightarrow> app_db" where
  "markSettled i settledAt = set_claim i (\<lambda>c. c\<lparr>c_status := Settled, c_settledAt := Some settledAt\<rparr>)"

definition scheduleRetry :: "string \<Rightarrow> time \<Rightarrow> nat \<Rightarrow> app_db \<Rightarrow> app_db" where
  "scheduleRetry i nextAt attempts =
     set_claim i (\<lambda>c. c\<lparr>c_settleAttempts := attempts, c_nextSettleAttemptAt := Some nextAt\<rparr>)"

definition markFailed :: "string \<Rightarrow> app_db \<Rightarrow> app_db" where
  "markFailed i = set_claim i (\<lambda>c. c\<lparr>c_status := Rejected\<rparr>)"

section \<open>Horizon client\<close>

record http_response =
  rs_status :: int
  rs_successful :: bool
  rs_ledger :: int
  rs_core_latest_ledger :: int

definition response_ok :: "http_response \<Rightarrow> bool" where
  "response_ok r \<longleftrightarrow> 200 \<le> rs_status r \<and> rs_status r \<le> 299"

definition strip_slashes :: "string \<Rightarrow> string" where
  "strip_slashes url = rev (dropWhile (\<lambda>c. c = CHR ''/'') (rev url))"

text \<open>\<open>None\<close>: the lookup throws (a failed fetch, a 404 or another error status).\<close>

definition getTransaction :: "(string \<Rightarrow> http_response option) \<Rightarrow> string \<Rightarrow> string \<Rightarrow> (bool \<times> int) option" where
  "getTransaction fetch baseUrl txHash =
     (case fetch (strip_slashes baseUrl @ ''/transactions/'' @ txHash) of
        None \<Rightarrow> None
      | Some r \<Rightarrow> if \<not> response_ok r then None else Some (rs_successful r, rs_ledger r))"

definition getCurrentLedger :: "(string \<Rightarrow> http_response option) \<Rightarrow> string \<Rightarrow> int option" where
  "getCurrentLedger fetch baseUrl =
     (case fetch (strip_slashes baseUrl) of
        None \<Rightarrow> None
      | Some r \<Rightarrow> if \<not> response_ok r then None else Some (rs_core_latest_ledger r))"

text \<open>What \<^verbatim>\<open>Promise.all\<close> of the two lookups yields for a transaction.\<close>

definition horizon_lookup ::
  "(string \<Rightarrow> http_response option) \<Rightarrow> string \<Rightarrow> string \<Rightarrow> (bool \<times> int \<times> int) option" where
  "horizon_lookup fetch baseUrl txHash =
     (case (getTransaction fetch baseUrl txHash, getCurrentLedger fetch baseUrl) of
        (Some (ok, ledger), Some current) \<Rightarrow> Some (ok, ledger, current)
      | _ \<Rightarrow> None)"

section \<open>One poll\<close>

datatype settle_outcome = OSettled | ORetried | OFailed

definition scheduleRetryOrFail :: "time \<Rightarrow> pending_claim \<Rightarrow> app_db \<Rightarrow> app_db \<times> settle_outcome" where
  "scheduleRetryOrFail now claim db =
     (case calculateNextRetry now (pc_settleAttempts claim + 1) of
        None \<Rightarrow> (markFailed (pc_id claim) db, OFailed)
      | Some nextAt \<Rightarrow> (scheduleRetry (pc_id claim) nextAt (pc_settleAttempts claim + 1) db, ORetried))"

definition processClaim ::
  "int \<Rightarrow> (string \<Rightarrow> (bool \<times> int \<times> int) option) \<Rightarrow> time \<Rightarrow> pending_claim \<Rightarrow> app_db \<Rightarrow> app_db \<times> settle_outcome" where
  "processClaim confirmationLedgers horizon now claim db =
     (case horizon (pc_settlementTx claim) of
        None \<Rightarrow> scheduleRetryOrFail now claim db
      | Some (successful, ledger, currentLedger) \<Rightarrow>
          if \<not> successful then (markFailed (pc_id claim) db, OFailed)
          else if currentLedger - ledger \<ge> confirmationLedgers
            then (markSettled (pc_id claim) now db, OSettled)
          else scheduleRetryOrFail now claim db)"

text \<open>
  The loop over the snapshot; each claim brings the Horizon answers and the clock reading of its
  own turn.
\<close>

fun poll_loop ::
  "int \<Rightarrow> (string \<Rightarrow> (bool \<times> int \<times> int) option) \<Rightarrow> (string \<Rightarrow> time) \<Rightarrow> pending_claim list
     \<Rightarrow> app_db \<times> nat \<times> nat \<Rightarrow> app_db \<times> nat \<times> nat" where
  "poll_loop k horizon clock [] acc = acc"
| "poll_loop k horizon clock (claim # rest) (db, settled, failed) =
     (case processClaim k horizon (clock (pc_id claim)) claim db of
        (db', OSettled) \<Rightarrow> poll_loop k horizon clock rest (db', settled + 1, failed)
      | (db', OFailed) \<Rightarrow> poll_loop k horizon clock rest (db', settled, failed + 1)
      | (db', ORetried) \<Rightarrow> poll_loop k horizon clock rest (db', settled, failed))"

record poll_result =
  po_processed :: nat
  po_settled :: nat
  po_failed :: nat

definition pollOnce ::
  "int \<Rightarrow> (string \<Rightarrow> (bool \<times> int \<times> int) option) \<Rightarrow> time \<Rightarrow> (string \<Rightarrow> time) \<Rightarrow> app_db \<Rightarrow> app_db \<times> poll_result" where
  "pollOnce k horizon now clock db =
     (let pending = getPendingSettlements now db;
          (db', settled, failed) = poll_loop k horizon clock pending (db, 0, 0)
      in (db', \<lparr>po_processed = length pending, po_settled = settled, po_failed = failed\<rparr>))"

section \<open>What one turn does to a row\<close>

definition settle_row ::
  "int \<Rightarrow> (string \<Rightarrow> (bool \<times> int \<times> int) option) \<Rightarrow> time \<Rightarrow> pending_claim \<Rightarrow> claim_row \<Rightarrow> claim_row" where
  "settle_row k horizon now claim c =
    (let retry = (if pc_settleAttempts claim + 1 < MAX_SETTLE_ATTEMPTS
           then c\<lparr>c_settleAttempts := pc_settleAttempts claim + 1,
                  c_nextSettleAttemptAt := Some (now + SETTLE_BACKOFF_MS ! (pc_settleAttempts claim + 1))\<rparr>
           else c\<lparr>c_status := Rejected\<rparr>)
     in case horizon (pc_settlementTx claim) of
          None \<Rightarrow> retry
        | Some (successful, ledger, current) \<Rightarrow>
            if \<not> successful then c\<lparr>c_status := Rejected\<rparr>
            else if current - ledger \<ge> k then c\<lparr>c_status := Settled, c_settledAt := Some now\<rparr>
            else retry)"

lemma processClaim_row:
  "fst (processClaim k h now claim db) = set_claim (pc_id claim) (settle_row k h now claim) db"
  by (auto simp: processClaim_def scheduleRetryOrFail_def calculateNextRetry_def markFailed_def
        markSettled_def scheduleRetry_def settle_row_def [abs_def] Let_def
        split: option.splits prod.splits)

lemma settle_row_frame [simp]:
  "c_id (settle_row k h now claim c) = c_id c"
  "c_userId (settle_row k h now claim c) = c_userId c"
  "c_marketId (settle_row k h now claim c) = c_marketId c"
  "c_amount (settle_row k h now claim c) = c_amount c"
  "c_claimNonce (settle_row k h now claim c) = c_claimNonce c"
  "c_expectedTxHash (settle_row k h now claim c) = c_expectedTxHash c"
  "c_settlementTx (settle_row k h now claim c) = c_settlementTx c"
  "c_preparedXdr (settle_row k h now claim c) = c_preparedXdr c"
  "c_expiresAt (settle_row k h now claim c) = c_expiresAt c"
  by (auto simp: settle_row_def Let_def split: option.splits)

lemma settle_row_status:
  "c_status (settle_row k h now claim c) \<in> {c_status c, Settled, Rejected}"
  by (auto simp: settle_row_def Let_def split: option.splits)

lemma row_by_set_claim:
  "(\<And>c. c_id (f c) = c_id c) \<Longrightarrow> row_by c_id (db_claims (set_claim i f db)) j =
     (if j = i then map_option f (row_by c_id (db_claims db) i) else row_by c_id (db_claims db) j)"
  by (cases "row_by c_id (db_claims db) j")
     (auto simp: set_claim_def row_by_update_where dest: row_by_SomeD)

lemma set_claim_frame [simp]:
  "db_predictions (set_claim i f db) = db_predictions db"
  "db_markets (set_claim i f db) = db_markets db"
  "db_users (set_claim i f db) = db_users db"
  by (simp_all add: set_claim_def)

lemma db_claims_set_claim [simp]:
  "db_claims (set_claim i f db) = update_where (\<lambda>c. c_id c = i) f (db_claims db)"
  by (simp add: set_claim_def)

lemma processClaim_ok:
  assumes "claims_ok db"
  shows "claims_ok (fst (processClaim k h now claim db))"
proof -
  have "key_unique c_id (db_claims (set_claim (pc_id claim) (settle_row k h now claim) db))"
    using assms by (simp add: set_claim_def claims_ok_def)
  moreover have "claims_one_active_per_user_market_idx
      (db_claims (set_claim (pc_id claim) (settle_row k h now claim) db))"
    unfolding claims_one_active_per_user_market_idx_def db_claims_set_claim
  proof (rule key_unique_filter_update)
    show "index_status (c_status c)" if "index_status (c_status (settle_row k h now claim c))" for c
      using that settle_row_status [of k h now claim c] by auto
  qed (use assms in \<open>simp_all add: claims_ok_def claims_one_active_per_user_market_idx_def\<close>)
  ultimately show ?thesis by (simp add: processClaim_row claims_ok_def)
qed

lemma poll_loop_fold:
  "fst (poll_loop k h clock pending acc) =
     fold (\<lambda>claim. set_claim (pc_id claim) (settle_row k h (clock (pc_id claim)) claim)) pending (fst acc)"
proof (induction pending arbitrary: acc)
  case (Cons claim rest)
  obtain db settled failed where acc: "acc = (db, settled, failed)" by (cases acc)
  show ?case
    using processClaim_row [of k h "clock (pc_id claim)" claim db]
    by (cases "processClaim k h (clock (pc_id claim)) claim db")
       (simp add: acc Cons split: settle_outcome.splits)
qed simp

end
