(* ===== verification/Claim_System.thy ===== *)
theory Claim_System
  imports Claim_Service Settle_Confirmer
begin

text \<open>
  The claim flow as the server runs it: any number of prepare and submit requests, interleaved at
  every await, the settle confirmer polling beside them, crashes of any of them at any point, and
  everything else in the system writing the other tables. The invariant of this step relation gives
  the guarantees the header comment of \<^verbatim>\<open>claimService.ts\<close> claims: one live claim per user and
  market, one submitter per claim at the RPC, only the prepared transaction is relayed, and the
  status column follows the state machine.
\<close>

section \<open>The system\<close>

datatype claim_proc =
    PrepareProc prepare_input prepare_pc
  | SubmitProc submit_input submit_pc

record claim_sys =
  sys_db :: app_db
  sys_procs :: "nat \<rightharpoonup> claim_proc"
  sys_poll :: "pending_claim list"

inductive claim_step :: "claim_env \<Rightarrow> int \<Rightarrow> claim_sys \<Rightarrow> claim_sys \<Rightarrow> bool" for E k where
  spawn_prepare: "sys_procs s pid = None \<Longrightarrow>
    claim_step E k s (s\<lparr>sys_procs := (sys_procs s)(pid \<mapsto> PrepareProc inp P_context)\<rparr>)"
| spawn_submit: "sys_procs s pid = None \<Longrightarrow>
    claim_step E k s (s\<lparr>sys_procs := (sys_procs s)(pid \<mapsto> SubmitProc sinp S_find)\<rparr>)"
| run_prepare: "sys_procs s pid = Some (PrepareProc inp pc) \<Longrightarrow>
    prepare_step E io inp (sys_db s, pc) = (db', pc') \<Longrightarrow>
    claim_step E k s (s\<lparr>sys_db := db', sys_procs := (sys_procs s)(pid \<mapsto> PrepareProc inp pc')\<rparr>)"
| run_submit: "sys_procs s pid = Some (SubmitProc sinp spc) \<Longrightarrow>
    submit_step E io sinp (sys_db s, spc) = (db', spc') \<Longrightarrow>
    claim_step E k s (s\<lparr>sys_db := db', sys_procs := (sys_procs s)(pid \<mapsto> SubmitProc sinp spc')\<rparr>)"
| crash: "claim_step E k s (s\<lparr>sys_procs := (sys_procs s)(pid := None)\<rparr>)"
| poll_start: "sys_poll s = [] \<Longrightarrow>
    claim_step E k s (s\<lparr>sys_poll := getPendingSettlements now (sys_db s)\<rparr>)"
| poll_turn: "sys_poll s = claim # rest \<Longrightarrow>
    processClaim k horizon now claim (sys_db s) = (db', out) \<Longrightarrow>
    claim_step E k s (s\<lparr>sys_db := db', sys_poll := rest\<rparr>)"
| poll_crash: "claim_step E k s (s\<lparr>sys_poll := []\<rparr>)"
| outside: "db_claims db' = db_claims (sys_db s) \<Longrightarrow> claim_step E k s (s\<lparr>sys_db := db'\<rparr>)"

definition claim_init :: "claim_sys \<Rightarrow> bool" where
  "claim_init s \<longleftrightarrow> claims_ok (sys_db s) \<and> sys_procs s = Map.empty \<and> sys_poll s = []"

section \<open>The state machine of the status column\<close>

text \<open>The edges of the diagram in \<^verbatim>\<open>claimService.ts\<close>, and the return to prepared after an RPC
  failure that the code also takes.\<close>

fun claim_edge :: "claim_status \<Rightarrow> claim_status \<Rightarrow> bool" where
  "claim_edge Prepared Submitting = True"
| "claim_edge Prepared Expired = True"
| "claim_edge Submitting Paid = True"
| "claim_edge Submitting Failed = True"
| "claim_edge Submitting Prepared = True"
| "claim_edge Paid Settled = True"
| "claim_edge Paid Rejected = True"
| "claim_edge _ _ = False"

definition same_terms :: "'a claim_record_scheme \<Rightarrow> 'b claim_record_scheme \<Rightarrow> bool" where
  "same_terms c r \<longleftrightarrow> c_id c = c_id r \<and> c_userId c = c_userId r \<and> c_marketId c = c_marketId r
     \<and> c_amount c = c_amount r \<and> c_claimNonce c = c_claimNonce r
     \<and> c_expectedTxHash c = c_expectedTxHash r \<and> c_preparedXdr c = c_preparedXdr r
     \<and> c_expiresAt c = c_expiresAt r"

text \<open>No row disappears, no row changes its terms, and only the row of claim \<open>i\<close>, if it was in
  status \<open>from\<close>, moves along an edge.\<close>

definition evolves :: "string \<Rightarrow> claim_status \<Rightarrow> app_db \<Rightarrow> app_db \<Rightarrow> bool" where
  "evolves i from db db' \<longleftrightarrow> (\<forall>j r. row_by c_id (db_claims db) j = Some r \<longrightarrow>
     (\<exists>r'. row_by c_id (db_claims db') j = Some r' \<and> same_terms r r' \<and>
        (c_status r' = c_status r \<or> j = i \<and> c_status r = from \<and> claim_edge from (c_status r'))))"

lemma same_terms_refl [simp]: "same_terms r r"
  by (simp add: same_terms_def)

lemma same_terms_trans: "same_terms a b \<Longrightarrow> same_terms b c \<Longrightarrow> same_terms a c"
  by (simp add: same_terms_def)

lemma same_terms_transition_set [simp]: "same_terms r (transition_set a r)"
  by (simp add: same_terms_def transition_set_def split: prod.splits)

lemma same_terms_settle_row [simp]: "same_terms r (settle_row k h t x r)"
  by (simp add: same_terms_def)

lemma same_terms_toRecord [simp]:
  "same_terms (toRecord r) c = same_terms r c" "same_terms c (toRecord r) = same_terms c r"
  by (simp_all add: same_terms_def)

lemma evolves_claims_eq: "db_claims db' = db_claims db \<Longrightarrow> evolves i from db db'"
  by (simp add: evolves_def)

lemma evolves_insert: "evolves i from db (fst (insertPrepared nc j t db))"
  by (auto simp: evolves_def insertPrepared_def Let_def row_by_snoc)

lemma evolves_transition:
  assumes "claim_edge from to"
  shows "evolves i from db (fst (transition (from, to, p) i db))"
  using assms unfolding evolves_def
  by (auto simp: guarded_write_row transition_guard_def [of _ "_ :: claim_row"])

lemma evolves_settle:
  assumes "row_by c_id (db_claims db) (pc_id x) = Some r" and "c_status r = Paid"
  shows "evolves (pc_id x) Paid db (fst (processClaim k h t x db))"
  unfolding evolves_def processClaim_row
  using assms settle_row_status [of k h t x r] by (auto simp: row_by_set_claim simp del: db_claims_set_claim)

section \<open>What each handler step does to the claims table\<close>

lemma transition_effect:
  assumes "claims_ok db" and "claim_edge from to"
  shows "claims_ok (fst (transition (from, to, p) i db)) \<and>
    evolves i from db (fst (transition (from, to, p) i db))"
proof -
  have "index_status to \<Longrightarrow> index_status from"
    using assms(2) by (cases "(from, to)" rule: claim_edge.cases) auto
  with assms show ?thesis by (blast intro: transition_ok evolves_transition)
qed

lemma prepare_step_effect:
  assumes "claims_ok db"
  shows "claims_ok (fst (prepare_step E io inp (db, pc)))
    \<and> (\<exists>i. evolves i Prepared db (fst (prepare_step E io inp (db, pc))))"
proof (cases pc)
  case (P_insert p n tx)
  let ?ins = "insertPrepared (prepared_claim_of inp p n tx) (io_newId io) (io_now io) db"
  have "fst (prepare_step E io inp (db, pc)) = fst ?ins"
    by (simp add: P_insert split: prod.splits option.splits)
  then show ?thesis
    using insertPrepared_ok [OF assms] evolves_insert by simp
next
  case (P_expire p i)
  then show ?thesis
    using transition_effect [OF assms, of Prepared Expired] by auto
qed (use assms in \<open>auto intro: evolves_claims_eq split: sum.splits\<close>)

text \<open>The claim a submit handler has captured, whether it has verified the envelope for it, and
  the claim it holds in status submitting.\<close>

fun captured :: "submit_pc \<Rightarrow> claim_record option" where
  "captured (S_begin c) = Some c"
| "captured (S_send c) = Some c"
| "captured (S_revert c _) = Some c"
| "captured (S_paid c _) = Some c"
| "captured (S_fail c _) = Some c"
| "captured _ = None"

fun held :: "submit_pc \<Rightarrow> string option" where
  "held (S_send c) = Some (c_id c)"
| "held (S_revert c _) = Some (c_id c)"
| "held (S_paid c _) = Some (c_id c)"
| "held (S_fail c _) = Some (c_id c)"
| "held _ = None"

fun holds :: "claim_proc \<Rightarrow> string option" where
  "holds (PrepareProc _ _) = None"
| "holds (SubmitProc _ pc) = held pc"

definition verified :: "claim_env \<Rightarrow> submit_input \<Rightarrow> 'a claim_record_scheme \<Rightarrow> bool" where
  "verified E inp c \<longleftrightarrow> (\<exists>nonce.
     bigint_of_string (case c_claimNonce c of None \<Rightarrow> ''0'' | Some n \<Rightarrow> n) = Some nonce \<and>
     verifySigned (env_fromXDR E) (env_contractId E) (si_signedXdr inp)
       (expected_of inp (claim_record.truncate c) nonce) = None)"

lemma verified_same_terms: "same_terms c r \<Longrightarrow> verified E inp c = verified E inp r"
  by (simp add: verified_def same_terms_def expected_of_def claim_record.truncate_def)

lemma submit_step_effect:
  assumes "claims_ok db"
  shows "claims_ok (fst (submit_step E io inp (db, pc)))
    \<and> (\<exists>i from. evolves i from db (fst (submit_step E io inp (db, pc))) \<and>
         (from = Prepared \<or> from = Submitting \<and> held pc = Some i))"
proof (cases pc)
  case (S_begin c)
  let ?tr = "transition (Prepared, Submitting, no_patch\<lparr>tp_notExpiredAt := Some (io_now io)\<rparr>) (c_id c) db"
  have "fst (submit_step E io inp (db, pc)) = fst ?tr"
    by (simp add: S_begin split: prod.splits option.splits)
  then show ?thesis using transition_effect [OF assms, of Prepared Submitting] by auto
next
  case (S_paid c h)
  let ?tr = "transition (Submitting, Paid, no_patch\<lparr>tp_settlementTx := Some h\<rparr>) (c_id c) db"
  have "fst (submit_step E io inp (db, pc)) = fst ?tr"
    by (simp add: S_paid split: prod.splits option.splits)
  then show ?thesis using transition_effect [OF assms, of Submitting Paid] S_paid by auto
next
  case (S_expire c)
  then show ?thesis using transition_effect [OF assms, of Prepared Expired] by auto
next
  case (S_revert c msg)
  then show ?thesis using transition_effect [OF assms, of Submitting Prepared] by auto
next
  case (S_fail c code)
  then show ?thesis using transition_effect [OF assms, of Submitting Failed] by auto
next
  case (S_record c h)
  then show ?thesis using assms by (auto simp: claims_ok_def evolves_claims_eq)
qed (use assms in \<open>auto intro: evolves_claims_eq\<close>)

section \<open>The invariant\<close>

definition proc_ok :: "claim_env \<Rightarrow> app_db \<Rightarrow> claim_proc \<Rightarrow> bool" where
  "proc_ok E db p \<longleftrightarrow> (case p of
     PrepareProc _ _ \<Rightarrow> True
   | SubmitProc inp pc \<Rightarrow> (case captured pc of
       None \<Rightarrow> True
     | Some c \<Rightarrow> (\<exists>r. row_by c_id (db_claims db) (c_id c) = Some r \<and> same_terms c r
          \<and> c_userId r = si_userId inp \<and> verified E inp r
          \<and> (held pc \<noteq> None \<longrightarrow> c_status r = Submitting))))"

definition poll_ok :: "app_db \<Rightarrow> pending_claim \<Rightarrow> bool" where
  "poll_ok db x \<longleftrightarrow> (\<exists>r. row_by c_id (db_claims db) (pc_id x) = Some r \<and> c_status r = Paid)"

definition exclusive :: "(nat \<rightharpoonup> claim_proc) \<Rightarrow> bool" where
  "exclusive ps \<longleftrightarrow> (\<forall>pid pid' p p' i. ps pid = Some p \<longrightarrow> ps pid' = Some p' \<longrightarrow>
     holds p = Some i \<longrightarrow> holds p' = Some i \<longrightarrow> pid = pid')"

definition claim_inv :: "claim_env \<Rightarrow> claim_sys \<Rightarrow> bool" where
  "claim_inv E s \<longleftrightarrow> claims_ok (sys_db s)
     \<and> (\<forall>pid p. sys_procs s pid = Some p \<longrightarrow> proc_ok E (sys_db s) p)
     \<and> exclusive (sys_procs s)
     \<and> (\<forall>x \<in> set (sys_poll s). poll_ok (sys_db s) x) \<and> distinct (map pc_id (sys_poll s))"

lemma held_captured: "held pc = Some i \<Longrightarrow> \<exists>c. captured pc = Some c \<and> c_id c = i"
  by (cases pc) auto

lemma holdsD:
  assumes "proc_ok E db p" and "holds p = Some i"
  shows "\<exists>r. row_by c_id (db_claims db) i = Some r \<and> c_status r = Submitting"
  using assms held_captured by (cases p) (force simp: proc_ok_def)+

lemma proc_ok_evolves:
  assumes "proc_ok E db p" and ev: "evolves i from db db'" and "from = Submitting \<Longrightarrow> holds p \<noteq> Some i"
  shows "proc_ok E db' p"
proof (cases p)
  case (SubmitProc inp pc)
  show ?thesis
  proof (cases "captured pc")
    case (Some c)
    with assms(1) SubmitProc obtain r where r: "row_by c_id (db_claims db) (c_id c) = Some r"
      "same_terms c r" "c_userId r = si_userId inp" "verified E inp r"
      "held pc \<noteq> None \<Longrightarrow> c_status r = Submitting"
      by (auto simp: proc_ok_def)
    with ev obtain r' where r': "row_by c_id (db_claims db') (c_id c) = Some r'" "same_terms r r'"
      "c_status r' = c_status r \<or> c_id c = i \<and> c_status r = from"
      unfolding evolves_def by blast
    have "held pc \<noteq> None \<Longrightarrow> c_status r' = Submitting"
      using r(5) r'(3) assms(3) Some SubmitProc held_captured by fastforce
    then show ?thesis
      using r r' Some SubmitProc same_terms_trans [OF r(2) r'(2)] verified_same_terms [OF r'(2)]
      by (auto simp: proc_ok_def same_terms_def)
  qed (simp add: proc_ok_def SubmitProc)
qed (simp add: proc_ok_def)

lemma poll_ok_evolves:
  assumes "poll_ok db x" and "evolves i from db db'" and "from = Paid \<Longrightarrow> pc_id x \<noteq> i"
  shows "poll_ok db' x"
  using assms unfolding poll_ok_def evolves_def by metis

lemma claim_inv_advance:
  assumes inv: "claim_inv E s" and ok: "claims_ok db'" and ev: "evolves i from (sys_db s) db'"
    and "from = Submitting \<Longrightarrow> \<forall>pid' p. sys_procs s pid' = Some p \<longrightarrow> holds p = Some i \<longrightarrow> pid' = pid"
    and "from \<noteq> Paid" and p': "proc_ok E db' p'" and "exclusive ((sys_procs s)(pid \<mapsto> p'))"
  shows "claim_inv E (s\<lparr>sys_db := db', sys_procs := (sys_procs s)(pid \<mapsto> p')\<rparr>)"
  using assms unfolding claim_inv_def
  by (auto intro: proc_ok_evolves [OF _ ev] poll_ok_evolves [OF _ ev])

lemma exclusive_weaker:
  assumes "exclusive ps" and "\<And>i. holds p' = Some i \<Longrightarrow> \<exists>p. ps pid = Some p \<and> holds p = Some i"
  shows "exclusive (ps(pid \<mapsto> p'))"
  using assms unfolding exclusive_def by (metis fun_upd_apply option.inject)

lemma exclusive_fresh:
  assumes "exclusive ps" and "holds p' = Some i"
    and "\<And>q p. ps q = Some p \<Longrightarrow> holds p \<noteq> Some i"
  shows "exclusive (ps(pid \<mapsto> p'))"
  using assms unfolding exclusive_def by (metis fun_upd_apply option.inject)

lemma findById_SomeD:
  "findById db i = Some c \<Longrightarrow> \<exists>r. row_by c_id (db_claims db) i = Some r \<and> c = toRecord r \<and> c_id r = i"
  by (auto simp: findById_def dest: row_by_SomeD)

lemma verified_truncate [simp]: "verified E inp (toRecord r) = verified E inp r"
  by (rule verified_same_terms) simp

lemma resolveNonSubmittable_captured [simp]: "captured (resolveNonSubmittable c) = None"
  by (simp add: resolveNonSubmittable_def split: claim_status.splits)

lemma captured_None_held: "captured pc = None \<Longrightarrow> held pc = None"
  by (cases pc) auto

lemma captured_None_ok [simp]: "captured pc = None \<Longrightarrow> proc_ok E db (SubmitProc inp pc)"
  by (simp add: proc_ok_def)

lemma submit_check_ok: "proc_ok E db (SubmitProc inp (submit_check E io inp (findById db i)))
    \<and> held (submit_check E io inp (findById db i)) = None"
proof (cases "findById db i")
  case None
  then show ?thesis by (simp add: submit_check_def)
next
  case (Some c)
  then obtain r where r: "row_by c_id (db_claims db) i = Some r" "c = toRecord r" "c_id r = i"
    using findById_SomeD by blast
  show ?thesis
  proof (cases "captured (submit_check E io inp (Some c))")
    case None
    then show ?thesis by (simp add: Some captured_None_held)
  next
    case cap: (Some c')
    have trunc: "claim_record.truncate c = c" by (simp add: claim_record.truncate_def)
    from cap have "submit_check E io inp (Some c) = S_begin c" "c_userId c = si_userId inp" "verified E inp c"
      by (auto simp: submit_check_def verified_def trunc split: if_splits option.splits)
    then show ?thesis using Some r by (auto simp: proc_ok_def)
  qed
qed

lemma submit_begin_ok:
  assumes ok: "claims_ok db" and p: "proc_ok E db (SubmitProc inp (S_begin c))"
    and tr: "transition (Prepared, Submitting, patch) (c_id c) db = (db', Some c')"
  shows "proc_ok E db' (SubmitProc inp (S_send c')) \<and> c_id c' = c_id c
    \<and> (\<exists>r. row_by c_id (db_claims db) (c_id c) = Some r \<and> c_status r = Prepared)"
proof -
  let ?a = "(Prepared, Submitting, patch)"
  have uq: "key_unique c_id (db_claims db)" using ok by (simp add: claims_ok_def)
  obtain c0 where c0: "findById db (c_id c) = Some c0" "transition_guard ?a c0"
    "c' = transition_set ?a c0" "findById db' (c_id c) = Some c'"
    using claim_tr.upd_SomeD [OF uq tr] by blast
  obtain r where r: "row_by c_id (db_claims db) (c_id c) = Some r" "c0 = toRecord r"
    using findById_SomeD [OF c0(1)] by blast
  obtain r' where r': "row_by c_id (db_claims db') (c_id c) = Some r'" "c' = toRecord r'"
    using findById_SomeD [OF c0(4)] by blast
  have "same_terms c0 c'" using c0(3) by simp
  with r(2) r'(2) have terms: "same_terms r r'" by simp
  have "c_status (toRecord r') = Submitting" unfolding r'(2) [symmetric] c0(3) by simp
  then have "c_status r' = Submitting" by simp
  moreover have "c_id r' = c_id c" "c_status r = Prepared"
    using c0(2) r(2) row_by_SomeD [OF r'(1)] by (simp_all add: transition_guard_def)
  ultimately show ?thesis
    using p r r' verified_same_terms [OF terms] terms by (auto simp: proc_ok_def same_terms_def)
qed

lemma submit_step_proc:
  assumes "claims_ok db" and p: "proc_ok E db (SubmitProc inp pc)"
    and st: "submit_step E io inp (db, pc) = (db', pc')"
  shows "proc_ok E db' (SubmitProc inp pc') \<and> (\<forall>i. held pc' = Some i \<longrightarrow>
    held pc = Some i \<or> (\<exists>r. row_by c_id (db_claims db) i = Some r \<and> c_status r = Prepared))"
proof (cases pc)
  case S_find
  then show ?thesis using st submit_check_ok by auto
next
  case (S_begin c)
  then show ?thesis
    using st p submit_begin_ok [OF assms(1)] by (fastforce split: prod.splits option.splits)
next
  case (S_send c)
  then show ?thesis
    using st p by (cases "io_send io") (auto simp: proc_ok_def split: if_splits)
next
  case (S_reload c)
  then show ?thesis using st by (auto simp: captured_None_held split: option.splits)
qed (use st in \<open>auto split: prod.splits option.splits\<close>)

section \<open>The invariant is inductive\<close>

lemma claim_inv_spawn:
  assumes "claim_inv E s" and "holds p = None" and "\<And>db. proc_ok E db p"
  shows "claim_inv E (s\<lparr>sys_procs := (sys_procs s)(pid \<mapsto> p)\<rparr>)"
  using assms exclusive_weaker [of "sys_procs s" p pid] by (simp add: claim_inv_def)

lemma claim_inv_run_prepare:
  assumes inv: "claim_inv E s" and st: "prepare_step E io inp (sys_db s, pc) = (db', pc')"
  shows "claim_inv E (s\<lparr>sys_db := db', sys_procs := (sys_procs s)(pid \<mapsto> PrepareProc inp pc')\<rparr>)"
proof -
  from inv have "claims_ok (sys_db s)" "exclusive (sys_procs s)" by (auto simp: claim_inv_def)
  with prepare_step_effect [of "sys_db s" E io inp pc] st obtain i
    where "claims_ok db'" "evolves i Prepared (sys_db s) db'" by auto
  then show ?thesis
    by (rule claim_inv_advance [OF inv])
       (use \<open>exclusive (sys_procs s)\<close> in \<open>auto intro: exclusive_weaker simp: proc_ok_def\<close>)
qed

lemma claim_inv_run_submit:
  assumes inv: "claim_inv E s" and pid: "sys_procs s pid = Some (SubmitProc inp pc)"
    and st: "submit_step E io inp (sys_db s, pc) = (db', pc')"
  shows "claim_inv E (s\<lparr>sys_db := db', sys_procs := (sys_procs s)(pid \<mapsto> SubmitProc inp pc')\<rparr>)"
proof -
  from inv have ok: "claims_ok (sys_db s)" and ex: "exclusive (sys_procs s)"
    and ps: "\<And>q p. sys_procs s q = Some p \<Longrightarrow> proc_ok E (sys_db s) p"
    by (auto simp: claim_inv_def)
  obtain i "from" where eff: "claims_ok db'" "evolves i from (sys_db s) db'"
    and src: "from = Prepared \<or> from = Submitting \<and> held pc = Some i"
    using submit_step_effect [OF ok, of E io inp pc] st by auto
  have new: "proc_ok E db' (SubmitProc inp pc')"
    and hd: "\<And>j. held pc' = Some j \<Longrightarrow> held pc = Some j \<or>
        (\<exists>r. row_by c_id (db_claims (sys_db s)) j = Some r \<and> c_status r = Prepared)"
    using submit_step_proc [OF ok ps [OF pid] st] by auto
  have ex': "exclusive ((sys_procs s)(pid \<mapsto> SubmitProc inp pc'))"
  proof (cases "\<exists>j. held pc' = Some j \<and> held pc \<noteq> Some j")
    case True
    then obtain j r where j: "held pc' = Some j"
      "row_by c_id (db_claims (sys_db s)) j = Some r" "c_status r = Prepared" using hd by blast
    have "holds p \<noteq> Some j" if "sys_procs s q = Some p" for q p
      using holdsD [OF ps [OF that]] j by fastforce
    then show ?thesis using j(1) by (intro exclusive_fresh [OF ex]) auto
  next
    case False
    then show ?thesis using pid by (intro exclusive_weaker [OF ex]) auto
  qed
  show ?thesis
    by (rule claim_inv_advance [OF inv eff _ _ new ex'])
       (use src pid ex in \<open>auto simp: exclusive_def\<close>)
qed

lemma getPendingSettlements_ok:
  assumes "claims_ok db"
  shows "(\<forall>x \<in> set (getPendingSettlements now db). poll_ok db x)
    \<and> distinct (map pc_id (getPendingSettlements now db))"
proof -
  have uq: "key_unique c_id (db_claims db)" using assms by (simp add: claims_ok_def)
  then have "distinct (map c_id (filter (settle_due now) (db_claims db)))"
    by (simp add: key_unique_def distinct_map_filter)
  moreover have "poll_ok db x" if "x \<in> set (getPendingSettlements now db)" for x
    using that row_by_unique [OF uq]
    by (auto simp: getPendingSettlements_def poll_ok_def settle_due_def)
  ultimately show ?thesis by (auto simp: getPendingSettlements_def comp_def)
qed

lemma claim_inv_poll_turn:
  assumes inv: "claim_inv E s" and "sys_poll s = claim # rest"
    and pc: "processClaim k h now claim (sys_db s) = (db', out)"
  shows "claim_inv E (s\<lparr>sys_db := db', sys_poll := rest\<rparr>)"
proof -
  from assms obtain r where r: "row_by c_id (db_claims (sys_db s)) (pc_id claim) = Some r" "c_status r = Paid"
    by (auto simp: claim_inv_def poll_ok_def)
  have ev: "evolves (pc_id claim) Paid (sys_db s) db'"
    using evolves_settle [OF r, of k h now] pc by simp
  have "claims_ok db'"
    using inv processClaim_ok [of "sys_db s" k h now claim] pc by (simp add: claim_inv_def)
  moreover have "poll_ok db' x" if "x \<in> set rest" for x
    using that assms by (intro poll_ok_evolves [OF _ ev]) (auto simp: claim_inv_def rev_image_eqI)
  ultimately show ?thesis
    using assms by (auto simp: claim_inv_def intro: proc_ok_evolves [OF _ ev])
qed

lemma claim_inv_outside:
  assumes "claim_inv E s" and eq: "db_claims db' = db_claims (sys_db s)"
  shows "claim_inv E (s\<lparr>sys_db := db'\<rparr>)"
proof -
  have "proc_ok E db' p = proc_ok E (sys_db s) p" "poll_ok db' x = poll_ok (sys_db s) x" for p x
    unfolding proc_ok_def poll_ok_def eq by (rule refl)+
  then show ?thesis using assms by (simp add: claim_inv_def claims_ok_def)
qed

lemma claim_inv_step: "claim_step E k s t \<Longrightarrow> claim_inv E s \<Longrightarrow> claim_inv E t"
proof (induction rule: claim_step.induct)
  case (spawn_prepare s pid inp)
  then show ?case by (auto intro: claim_inv_spawn simp: proc_ok_def)
next
  case (spawn_submit s pid sinp)
  then show ?case by (auto intro: claim_inv_spawn simp: proc_ok_def)
next
  case (crash s pid)
  then show ?case by (auto simp: claim_inv_def exclusive_def)
next
  case (poll_start s now)
  then show ?case using getPendingSettlements_ok [of "sys_db s" now] by (simp add: claim_inv_def)
next
  case (poll_crash s)
  then show ?case by (simp add: claim_inv_def)
qed (blast intro: claim_inv_run_prepare claim_inv_run_submit claim_inv_poll_turn claim_inv_outside)+

interpretation claim_run: inductive_invariant claim_init "claim_step E k" "claim_inv E"
proof
  show "claim_inv E s" if "claim_init s" for s
    using that by (simp add: claim_init_def claim_inv_def exclusive_def)
qed (rule claim_inv_step)

lemma claim_step_evolves:
  assumes "claim_step E k s t" and "claim_inv E s"
  shows "\<exists>i from. evolves i from (sys_db s) (sys_db t) \<and>
    (from = Submitting \<longrightarrow> (\<exists>pid p. sys_procs s pid = Some p \<and> holds p = Some i))"
  using assms
proof cases
  case (run_prepare pid inp pc io db' pc')
  then show ?thesis
    using assms prepare_step_effect [of "sys_db s" E io inp pc] by (force simp: claim_inv_def)
next
  case (run_submit pid inp pc io db' pc')
  moreover have "claims_ok (sys_db s)" using assms by (simp add: claim_inv_def)
  ultimately show ?thesis
    using submit_step_effect [of "sys_db s" E io inp pc] by fastforce
next
  case (poll_turn claim rest h now db' out)
  moreover obtain r where "row_by c_id (db_claims (sys_db s)) (pc_id claim) = Some r" "c_status r = Paid"
    using poll_turn assms by (auto simp: claim_inv_def poll_ok_def)
  ultimately show ?thesis using evolves_settle [of "sys_db s" claim r k h now] by fastforce
next
  case (outside db')
  then show ?thesis by (auto simp: evolves_claims_eq)
qed (auto simp: evolves_claims_eq)

section \<open>A concrete run\<close>

text \<open>One prepared claim, one wallet-signed envelope for it, and a submit request that has won the
  transition to submitting.\<close>

definition demo_tx :: stellar_tx where
  "demo_tx = \<lparr>tx_source = ''GUSER'', tx_signatures = 1, tx_operations =
     [\<lparr>op_type = ''invokeHostFunction'', op_source = None,
       op_funcKind = ''hostFunctionTypeInvokeContract'',
       op_invoke = \<lparr>iv_contractAddress = ''CCONTRACT'', iv_functionName = ''claim_winnings'',
         iv_args = [\<lparr>sa_kind = ''scvAddress'', sa_native = Some (ScText ''GUSER'')\<rparr>,
                    \<lparr>sa_kind = ''scvSymbol'', sa_native = Some (ScText ''m1'')\<rparr>,
                    \<lparr>sa_kind = ''scvU64'', sa_native = Some (ScBigint 0)\<rparr>]\<rparr>\<rparr>],
     tx_hash = ''h1''\<rparr>"

definition demo_env :: claim_env where
  "demo_env = \<lparr>env_passphrase = ''Test SDF Network'', env_contractId = ''CCONTRACT'',
     env_fromXDR = (\<lambda>x. if x = ''signed'' then Some (PlainTransaction demo_tx) else None),
     env_resultName = (\<lambda>x. None)\<rparr>"

definition demo_row :: "claim_status \<Rightarrow> claim_row" where
  "demo_row st = \<lparr>c_id = ''c1'', c_userId = ''u1'', c_marketId = ''m1'', c_amount = ''10'',
     c_status = st, c_settlementTx = None, c_claimNonce = Some ''0'',
     c_expectedTxHash = Some ''h1'', c_preparedXdr = Some ''unsigned'', c_expiresAt = Some 1000,
     c_errorCode = None, c_createdAt = 0, c_settleAttempts = 0, c_nextSettleAttemptAt = None,
     c_settledAt = None\<rparr>"

definition demo_prediction :: prediction_row where
  "demo_prediction = \<lparr>p_id = ''p1'', p_marketId = ''m1'', p_userId = ''u1'', p_outcome = ''yes'',
     p_amount = ''10'', p_txHash = ''t1'', p_fundingSource = None, p_status = ''confirmed'',
     p_result = Some ''won'', p_claimTxHash = None, p_claimedAt = None, p_createdAt = 0,
     p_confirmAttempts = 0, p_lastError = None\<rparr>"

definition demo_market :: market_row where
  "demo_market = \<lparr>m_id = ''m1'', m_question = ''q'', m_status = ''resolved'',
     m_resolutionOutcome = Some ''yes'', m_resolutionTime = 0, m_winningOutcome = Some ''yes'',
     m_metadata = None, m_indexedLedger = 1, m_archived = False, m_version = 0, m_featured = False,
     m_featuredAt = None, m_featuredBy = None, m_forceFinalized = False, m_createdAt = 0\<rparr>"

definition demo_db :: "claim_row list \<Rightarrow> app_db" where
  "demo_db cs = \<lparr>db_users = [], db_markets = [demo_market], db_predictions = [demo_prediction],
     db_claims = cs\<rparr>"

definition demo_submit :: submit_input where
  "demo_submit = \<lparr>si_claimId = ''c1'', si_userId = ''u1'', si_stellarAddress = ''GUSER'',
     si_signedXdr = ''signed''\<rparr>"

definition demo_io :: claim_io where
  "demo_io = \<lparr>io_now = 500, io_newId = ''c2'', io_nonce = None,
     io_assembled = Some \<lparr>at_xdr = ''unsigned'', at_hash = ''h1'', at_maxTime = Some 1\<rparr>,
     io_send = SendResult ''PENDING'' ''h1'' None\<rparr>"

definition demo_sys :: "claim_status \<Rightarrow> submit_pc option \<Rightarrow> claim_sys" where
  "demo_sys st pc = \<lparr>sys_db = demo_db [demo_row st],
     sys_procs = (case pc of None \<Rightarrow> Map.empty | Some x \<Rightarrow> [0 \<mapsto> SubmitProc demo_submit x]),
     sys_poll = []\<rparr>"

lemmas demo_defs = demo_tx_def demo_env_def demo_row_def demo_prediction_def demo_market_def
  demo_db_def demo_submit_def demo_io_def demo_sys_def

lemma demo_init: "claim_init (demo_sys Prepared None)"
  by (simp add: claim_init_def demo_defs claims_ok_def key_unique_def
        claims_one_active_per_user_market_idx_def)

lemma bigint_zero: "bigint_of_string ''0'' = Some 0"
  by code_simp

lemma demo_verified:
  "verifySigned (env_fromXDR demo_env) (env_contractId demo_env) ''signed''
     (expected_of demo_submit (toRecord (demo_row Prepared)) 0) = None"
  by (simp add: verifySigned_def demo_defs expected_of_def check_tx_def check_invoke_def
        check_args_def CLAIM_FUNCTION_def)

lemma demo_find:
  "submit_step demo_env demo_io demo_submit (demo_db [demo_row Prepared], S_find) =
     (demo_db [demo_row Prepared], S_begin (toRecord (demo_row Prepared)))"
  using demo_verified
  by (simp add: submit_check_def findById_def bigint_zero demo_db_def demo_row_def demo_io_def
        demo_submit_def)

lemma demo_begin:
  "submit_step demo_env demo_io demo_submit (demo_db [demo_row Prepared], S_begin (toRecord (demo_row Prepared))) =
     (demo_db [demo_row Submitting], S_send (toRecord (demo_row Submitting)))"
  by (simp add: transition_def guarded_write_def returning_def transition_guard_def
        transition_set_def no_patch_def demo_db_def demo_row_def demo_io_def)

lemma demo_reach:
  "reach claim_init (claim_step demo_env 3) (demo_sys Submitting (Some (S_send (toRecord (demo_row Submitting)))))"
proof -
  let ?step = "claim_step demo_env 3"
  have "?step (demo_sys Prepared None) (demo_sys Prepared (Some S_find))"
    using spawn_submit [of "demo_sys Prepared None" 0 demo_env 3 demo_submit] by (simp add: demo_sys_def)
  moreover have "?step (demo_sys Prepared (Some S_find)) (demo_sys Prepared (Some (S_begin (toRecord (demo_row Prepared)))))"
    using run_submit [of "demo_sys Prepared (Some S_find)" 0 demo_submit S_find demo_env demo_io _ _ 3] demo_find
    by (simp add: demo_sys_def)
  moreover have "?step (demo_sys Prepared (Some (S_begin (toRecord (demo_row Prepared)))))
      (demo_sys Submitting (Some (S_send (toRecord (demo_row Submitting)))))"
    using run_submit [of "demo_sys Prepared (Some (S_begin (toRecord (demo_row Prepared))))" 0 demo_submit
        "S_begin (toRecord (demo_row Prepared))" demo_env demo_io _ _ 3] demo_begin
    by (simp add: demo_sys_def)
  ultimately show ?thesis by (meson reach.intros demo_init)
qed

section \<open>Properties\<close>

text \<open>C1. Submits of one claim never race at the RPC: in every reachable state, two processes that
  are between winning the transition to submitting and giving the claim back are the same process,
  and the row it holds is in status submitting.\<close>

theorem claim_single_submitter:
  assumes "reach claim_init (claim_step E k) s"
    and "sys_procs s pid = Some p" and "holds p = Some i"
    and "sys_procs s pid' = Some p'" and "holds p' = Some i"
  shows "pid = pid' \<and> (\<exists>r. row_by c_id (db_claims (sys_db s)) i = Some r \<and> c_status r = Submitting)"
proof -
  have inv: "claim_inv E s" by (rule claim_run.reach_inv [OF assms(1)])
  then have "proc_ok E (sys_db s) p" using assms(2) by (simp add: claim_inv_def)
  from holdsD [OF this assms(3)] show ?thesis
    using inv assms(2-5) unfolding claim_inv_def exclusive_def by blast
qed

theorem claim_single_submitter_witness:
  "(0::nat) = 0 \<and> (\<exists>r. row_by c_id [demo_row Submitting] ''c1'' = Some r \<and> c_status r = Submitting)"
  using claim_single_submitter [OF demo_reach, of 0 "SubmitProc demo_submit (S_send (toRecord (demo_row Submitting)))"
      "''c1''" 0 "SubmitProc demo_submit (S_send (toRecord (demo_row Submitting)))"]
  by (simp add: demo_sys_def demo_db_def demo_row_def)

text \<open>C2. Only the prepared transaction is relayed: when a submit process is about to call
  \<^verbatim>\<open>sendTransaction\<close>, the claim is its user's own and in status submitting, and the signed envelope
  parses to a signed transaction of that user with the hash stored at prepare time and one
  \<^verbatim>\<open>claim_winnings\<close> call on the configured contract whose arguments are the user's address, the claim's
  market and the stored nonce.\<close>

theorem claim_relay_authentic:
  assumes "reach claim_init (claim_step E k) s"
    and "sys_procs s pid = Some (SubmitProc inp (S_send c))"
  shows "\<exists>r nonce envl op. row_by c_id (db_claims (sys_db s)) (c_id c) = Some r
    \<and> c_status r = Submitting \<and> c_userId r = si_userId inp
    \<and> bigint_of_string (case c_claimNonce r of None \<Rightarrow> ''0'' | Some n \<Rightarrow> n) = Some nonce
    \<and> env_fromXDR E (si_signedXdr inp) = Some envl
    \<and> tx_source (innerTransaction envl) = si_stellarAddress inp
    \<and> tx_signatures (innerTransaction envl) > 0
    \<and> tx_hash (innerTransaction envl) = (case c_expectedTxHash r of None \<Rightarrow> '''' | Some h \<Rightarrow> h)
    \<and> tx_operations (innerTransaction envl) = [op]
    \<and> iv_contractAddress (op_invoke op) = env_contractId E
    \<and> iv_functionName (op_invoke op) = ''claim_winnings''
    \<and> iv_args (op_invoke op) =
        [\<lparr>sa_kind = ''scvAddress'', sa_native = Some (ScText (si_stellarAddress inp))\<rparr>,
         \<lparr>sa_kind = ''scvSymbol'', sa_native = Some (ScText (c_marketId r))\<rparr>,
         \<lparr>sa_kind = ''scvU64'', sa_native = Some (ScBigint nonce)\<rparr>]"
proof -
  have "proc_ok E (sys_db s) (SubmitProc inp (S_send c))"
    using claim_run.reach_inv [OF assms(1)] assms(2) by (auto simp: claim_inv_def)
  then obtain r where r: "row_by c_id (db_claims (sys_db s)) (c_id c) = Some r" "c_status r = Submitting"
    "c_userId r = si_userId inp" "verified E inp r" by (auto simp: proc_ok_def)
  then obtain nonce envl
    where n: "bigint_of_string (case c_claimNonce r of None \<Rightarrow> ''0'' | Some n \<Rightarrow> n) = Some nonce"
    and e: "env_fromXDR E (si_signedXdr inp) = Some envl"
      "check_tx (env_contractId E) (expected_of inp (claim_record.truncate r) nonce) (innerTransaction envl) = None"
    by (auto simp: verified_def verifySigned_def split: option.splits)
  from e(2) show ?thesis
    using r n e(1) unfolding check_tx_None
    by (auto simp: expected_of_def claim_arguments_def CLAIM_FUNCTION_def claim_record.truncate_def)
qed

theorem claim_relay_authentic_witness:
  "\<exists>r. row_by c_id [demo_row Submitting] ''c1'' = Some r \<and> c_status r = Submitting \<and> c_userId r = ''u1''
     \<and> tx_hash demo_tx = ''h1''"
  using claim_relay_authentic [OF demo_reach, of 0 demo_submit "toRecord (demo_row Submitting)"]
  by (simp add: demo_sys_def demo_db_def demo_row_def demo_submit_def demo_env_def demo_tx_def)

text \<open>C3. The status column follows the state machine: in a reachable state no step deletes a claim
  or changes its user, market, amount, nonce, expected hash, envelope or expiry, and its status
  either stays or moves along an edge of the diagram (with the return from submitting to prepared
  after an RPC failure).\<close>

theorem claim_status_machine:
  assumes "reach claim_init (claim_step E k) s" and "claim_step E k s t"
    and "row_by c_id (db_claims (sys_db s)) i = Some r"
  shows "\<exists>r'. row_by c_id (db_claims (sys_db t)) i = Some r' \<and> same_terms r r'
    \<and> (c_status r' = c_status r \<or> claim_edge (c_status r) (c_status r'))"
  using claim_step_evolves [OF assms(2) claim_run.reach_inv [OF assms(1)]] assms(3)
  unfolding evolves_def by blast

theorem claim_status_machine_witness:
  "\<exists>r'. row_by c_id (db_claims (sys_db (demo_sys Submitting None))) ''c1'' = Some r'
     \<and> same_terms (demo_row Submitting) r'
     \<and> (c_status r' = Submitting \<or> claim_edge Submitting (c_status r'))"
proof -
  let ?s = "demo_sys Submitting (Some (S_send (toRecord (demo_row Submitting))))"
  have "claim_step demo_env 3 ?s (demo_sys Submitting None)"
    using crash [of demo_env 3 ?s 0] by (simp add: demo_sys_def)
  from claim_status_machine [OF demo_reach this, of "''c1''" "demo_row Submitting"]
  show ?thesis by (simp add: demo_sys_def demo_db_def demo_row_def)
qed

text \<open>C4. At most one live claim: in every reachable state two prepared, submitting or paid claims of
  one user on one market are the same row.\<close>

theorem claim_one_live:
  assumes "reach claim_init (claim_step E k) s"
    and "r \<in> set (db_claims (sys_db s))" and "r' \<in> set (db_claims (sys_db s))"
    and "index_status (c_status r)" and "index_status (c_status r')"
    and "c_userId r = c_userId r'" and "c_marketId r = c_marketId r'"
  shows "r = r'"
proof -
  have "claims_one_active_per_user_market_idx (db_claims (sys_db s))"
    using claim_run.reach_inv [OF assms(1)] by (simp add: claim_inv_def claims_ok_def)
  from key_unique_eq [OF this [unfolded claims_one_active_per_user_market_idx_def], of r r'] assms
  show ?thesis by simp
qed

theorem claim_one_live_witness:
  "index_status (c_status (demo_row Submitting)) \<and> demo_row Submitting \<in> set [demo_row Submitting]
     \<and> demo_row Submitting = demo_row Submitting"
  using claim_one_live [OF demo_reach, of "demo_row Submitting" "demo_row Submitting"]
  by (simp add: demo_sys_def demo_db_def demo_row_def)

definition orphaned :: "string \<Rightarrow> claim_sys \<Rightarrow> bool" where
  "orphaned i s \<longleftrightarrow> (\<exists>r. row_by c_id (db_claims (sys_db s)) i = Some r \<and> c_status r = Submitting)
     \<and> (\<forall>pid p. sys_procs s pid = Some p \<longrightarrow> holds p \<noteq> Some i)"

lemma orphaned_row_stays:
  assumes "claim_step E k s t" and "claim_inv E s" and "orphaned i s"
  shows "\<exists>r. row_by c_id (db_claims (sys_db t)) i = Some r \<and> c_status r = Submitting"
proof -
  obtain j "from" where ev: "evolves j from (sys_db s) (sys_db t)"
    and src: "from = Submitting \<Longrightarrow> \<exists>pid p. sys_procs s pid = Some p \<and> holds p = Some j"
    using claim_step_evolves [OF assms(1,2)] by blast
  obtain r where r: "row_by c_id (db_claims (sys_db s)) i = Some r" "c_status r = Submitting"
    using assms(3) by (auto simp: orphaned_def)
  have "\<not> (i = j \<and> from = Submitting)" using src assms(3) by (auto simp: orphaned_def)
  with ev r show ?thesis unfolding evolves_def by metis
qed

lemma orphaned_step:
  assumes "claim_step E k s t" and "claim_inv E s" and orph: "orphaned i s"
  shows "orphaned i t"
proof -
  obtain r where row: "row_by c_id (db_claims (sys_db s)) i = Some r" "c_status r = Submitting"
    and free: "\<And>pid p. sys_procs s pid = Some p \<Longrightarrow> holds p \<noteq> Some i"
    using orph by (auto simp: orphaned_def)
  have "holds p \<noteq> Some i" if "sys_procs t pid = Some p" for pid p
    using assms(1)
  proof cases
    case (run_submit q inp pc io db' pc')
    have "proc_ok E (sys_db s) (SubmitProc inp pc)" "claims_ok (sys_db s)"
      using assms(2) run_submit by (auto simp: claim_inv_def)
    from submit_step_proc [OF this(2,1) run_submit(3)] have "held pc' \<noteq> Some i"
      using free [OF run_submit(2)] row by auto
    then show ?thesis using that free run_submit(1) by (auto split: if_splits)
  qed (use that free in \<open>auto split: if_splits\<close>)
  with orphaned_row_stays [OF assms] show ?thesis by (simp add: orphaned_def)
qed

text \<open>C16. A claim whose submitter died is lost: once a claim is in status submitting and no process
  holds it, it stays in status submitting in every later state, whatever requests, polls, crashes
  or other writes follow (no step of the system is a sweeper for it).\<close>

theorem claim_orphan_stuck:
  assumes "reach claim_init (claim_step E k) s" and "orphaned i s" and "(claim_step E k)\<^sup>*\<^sup>* s t"
  shows "\<exists>r. row_by c_id (db_claims (sys_db t)) i = Some r \<and> c_status r = Submitting"
proof -
  from assms(3) have "claim_inv E t \<and> orphaned i t"
  proof (induction rule: rtranclp_induct)
    case base
    show ?case using claim_run.reach_inv [OF assms(1)] assms(2) by blast
  next
    case (step t u)
    then show ?case using claim_inv_step orphaned_step by blast
  qed
  then show ?thesis by (simp add: orphaned_def)
qed

theorem claim_orphan_stuck_witness:
  "\<exists>r. row_by c_id (db_claims (sys_db (demo_sys Submitting (Some S_find)))) ''c1'' = Some r
     \<and> c_status r = Submitting"
proof -
  let ?s = "demo_sys Submitting (Some (S_send (toRecord (demo_row Submitting))))"
  let ?t = "demo_sys Submitting None" and ?u = "demo_sys Submitting (Some S_find)"
  have "claim_step demo_env 3 ?s ?t" using crash [of demo_env 3 ?s 0] by (simp add: demo_sys_def)
  with demo_reach have r: "reach claim_init (claim_step demo_env 3) ?t" by (rule reach_step)
  have o: "orphaned ''c1'' ?t" by (simp add: orphaned_def demo_sys_def demo_db_def demo_row_def)
  have "claim_step demo_env 3 ?t ?u"
    using spawn_submit [of ?t 0 demo_env 3 demo_submit] by (simp add: demo_sys_def)
  then show ?thesis by (intro claim_orphan_stuck [OF r o]) blast
qed

end
