(* ===== verification/Claim_Flow.thy ===== *)
theory Claim_Flow
  imports Claim_System
begin

text \<open>
  The claim handlers one at a time, on every path that matters to a user: which envelopes are
  accepted, what a successful prepare guarantees, that a valid signed claim is paid and recorded,
  how every prepare request is answered, what a settlement poll does to every row, and the two places where the
  flow does not do what its messages or comments say.
\<close>

section \<open>Prepare\<close>

definition won_prediction :: "prepare_input \<Rightarrow> app_db \<Rightarrow> context_prediction \<Rightarrow> bool" where
  "won_prediction inp db q \<longleftrightarrow> (\<exists>p.
     filter (\<lambda>p. p_marketId p = pi_marketId inp \<and> p_userId p = pi_userId inp \<and> p_status p = ''confirmed'')
       (db_predictions db) = [p]
     \<and> q = context_prediction_of p \<and> p_result p = Some ''won'' \<and> \<not> truthy_text (p_claimTxHash p))
   \<and> (\<exists>m. row_by m_id (db_markets db) (pi_marketId inp) = Some m \<and> m_status m = ''resolved'')"

lemma check_context_ok:
  assumes "check_context (loadContext db (pi_marketId inp) (pi_userId inp)) = Inr q"
  shows "won_prediction inp db q"
  using assms
  by (auto simp: check_context_def loadContext_def Let_def won_prediction_def context_prediction_of_def
        split: option.splits if_splits list.splits)

definition prepared_row :: "prepare_input \<Rightarrow> app_db \<Rightarrow> prepare_result \<Rightarrow> bool" where
  "prepared_row inp db res \<longleftrightarrow> (\<exists>r. row_by c_id (db_claims db) (pr_claimId res) = Some r
     \<and> c_status r = Prepared \<and> c_userId r = pi_userId inp \<and> c_marketId r = pi_marketId inp
     \<and> c_preparedXdr r = pr_xdr res \<and> c_expiresAt r = Some (pr_expiresAt res))"

lemma preparedResult_Inr:
  "preparedResult E c = Inr res \<Longrightarrow> pr_claimId res = c_id c \<and> pr_xdr res = c_preparedXdr c
     \<and> c_expiresAt c = Some (pr_expiresAt res)"
  by (auto simp: preparedResult_def split: option.splits)

lemma findActive_prepared:
  assumes "claims_ok db" and "findActiveClaim db (pi_userId inp) (pi_marketId inp) = Some c"
    and "c_status c = Prepared" and "preparedResult E c = Inr res"
  shows "prepared_row inp db res"
proof -
  obtain r where r: "r \<in> set (db_claims db)" "c_userId r = pi_userId inp" "c_marketId r = pi_marketId inp"
    "c = toRecord r"
    using assms(2) unfolding findActiveClaim_def by (auto dest!: select_first_SomeD)
  moreover have "row_by c_id (db_claims db) (c_id r) = Some r"
    using assms(1) r(1) by (simp add: claims_ok_def row_by_unique)
  ultimately show ?thesis
    using assms(3) preparedResult_Inr [OF assms(4)] by (simp add: prepared_row_def)
qed

lemma insert_prepared:
  assumes "insertPrepared (prepared_claim_of inp p n tx) i t db = (db', Some c)"
    and "preparedResult E c = Inr res"
  shows "prepared_row inp db' res"
proof -
  note ins = insertPrepared_Some [OF assms(1)]
  then have "row_by c_id (db_claims db) i = None" by (simp add: row_by_None)
  then show ?thesis
    using ins preparedResult_Inr [OF assms(2)]
    by (auto simp: prepared_row_def row_by_snoc new_claim_row_def prepared_claim_of_def)
qed

text \<open>What holds between the steps of one prepare request that runs alone.\<close>

definition prepare_mid :: "prepare_input \<Rightarrow> app_db \<Rightarrow> app_db \<times> prepare_pc \<Rightarrow> bool" where
  "prepare_mid inp db0 s \<longleftrightarrow> (case s of (db, pc) \<Rightarrow> claims_ok db
     \<and> db_predictions db = db_predictions db0 \<and> db_markets db = db_markets db0
     \<and> (case pc of
          P_context \<Rightarrow> True
        | P_active q \<Rightarrow> won_prediction inp db0 q
        | P_expire q _ \<Rightarrow> won_prediction inp db0 q
        | P_build q \<Rightarrow> won_prediction inp db0 q
        | P_insert q _ _ \<Rightarrow> won_prediction inp db0 q
        | P_winner \<Rightarrow> (\<exists>q. won_prediction inp db0 q)
        | P_done (Inr res) \<Rightarrow> (\<exists>q. won_prediction inp db0 q) \<and> prepared_row inp db res
        | P_done (Inl e) \<Rightarrow> True))"

lemma won_prediction_cong:
  "db_predictions db = db_predictions db0 \<Longrightarrow> db_markets db = db_markets db0 \<Longrightarrow>
     won_prediction inp db q = won_prediction inp db0 q"
  by (simp add: won_prediction_def)

lemma insertPrepared_frame [simp]:
  "db_predictions (fst (insertPrepared nc i t db)) = db_predictions db"
  "db_markets (fst (insertPrepared nc i t db)) = db_markets db"
  by (simp_all add: insertPrepared_def Let_def)

lemma prepare_mid_step:
  assumes "prepare_mid inp db0 (db, pc)"
  shows "prepare_mid inp db0 (prepare_step E io inp (db, pc))"
proof -
  have ok: "claims_ok db" and eq: "db_predictions db = db_predictions db0" "db_markets db = db_markets db0"
    using assms by (auto simp: prepare_mid_def)
  note cong = won_prediction_cong [OF eq]
  show ?thesis
  proof (cases pc)
    case P_context
    then show ?thesis using ok eq check_context_ok [of db inp] cong
      by (auto simp: prepare_mid_def split: sum.splits)
  next
    case (P_active q)
    then show ?thesis using assms findActive_prepared [OF ok]
      by (auto simp: prepare_mid_def prepare_active_def split: option.splits sum.splits)
  next
    case (P_expire q i)
    then show ?thesis using assms transition_effect [OF ok, of Prepared Expired]
      by (simp add: prepare_mid_def)
  next
    case (P_build q)
    then show ?thesis using assms by (auto simp: prepare_mid_def prepare_build_def split: sum.splits)
  next
    case (P_insert q n tx)
    obtain db' c where ins: "insertPrepared (prepared_claim_of inp q n tx) (io_newId io) (io_now io) db = (db', c)"
      by fastforce
    have "claims_ok db'" "db_predictions db' = db_predictions db" "db_markets db' = db_markets db"
      using insertPrepared_ok [OF ok] insertPrepared_frame ins by (metis fst_conv)+
    then show ?thesis using P_insert assms ins insert_prepared [of inp q n tx]
      by (auto simp: prepare_mid_def split: option.splits sum.splits)
  next
    case P_winner
    then show ?thesis using assms findActive_prepared [OF ok]
      by (auto simp: prepare_mid_def split: option.splits sum.splits)
  next
    case (P_done r)
    then show ?thesis using assms by simp
  qed
qed

lemma prepare_mid_run: "prepare_mid inp db0 s \<Longrightarrow> prepare_mid inp db0 (prepare_run n E ios inp s)"
proof (induction n arbitrary: ios s)
  case (Suc n)
  then show ?case using prepare_mid_step by (cases s) auto
qed simp

lemma won_prediction_unique: "won_prediction inp db q \<Longrightarrow> won_prediction inp db q' \<Longrightarrow> q' = q"
  by (auto simp: won_prediction_def)

lemma check_context_won:
  assumes "won_prediction inp db q"
  shows "check_context (loadContext db (pi_marketId inp) (pi_userId inp)) = Inr q"
  using assms by (auto simp: won_prediction_def check_context_def loadContext_def context_prediction_of_def Let_def)

lemma check_context_not_won:
  assumes "\<nexists>q. won_prediction inp db q"
  obtains e where "check_context (loadContext db (pi_marketId inp) (pi_userId inp)) = Inl e"
  using assms check_context_ok [of db inp]
  by (cases "check_context (loadContext db (pi_marketId inp) (pi_userId inp))") auto

lemma prepare_not_won:
  assumes "\<nexists>q. won_prediction inp db q"
  shows "fst (prepareClaim E ios inp db) = db"
proof -
  obtain e where "check_context (loadContext db (pi_marketId inp) (pi_userId inp)) = Inl e"
    using check_context_not_won [OF assms] .
  then show ?thesis by (simp add: prepareClaim_def eval_nat_numeral)
qed

lemma prepare_active_claim:
  assumes "won_prediction inp db q" and "findActiveClaim db (pi_userId inp) (pi_marketId inp) = Some c"
    and "c_status c \<noteq> Prepared \<or> (\<exists>e. c_expiresAt c = Some e \<and> io_now (ios 1) < e)"
  shows "prepareClaim E ios inp db = (db, P_done (if c_status c = Prepared then preparedResult E c
      else if c_status c = Submitting then throw 409 ''claim_in_progress'' ''A claim is already being submitted''
      else throw 409 ''claim_already_submitted'' ''Winnings for this market have already been claimed''))"
  using assms(2,3) check_context_won [OF assms(1)] by (auto simp: prepareClaim_def eval_nat_numeral prepare_active_def)

lemma prepare_expired_claim:
  assumes "claims_ok db" and "won_prediction inp db q" and "findActiveClaim db (pi_userId inp) (pi_marketId inp) = Some c"
    and "c_status c = Prepared" and "\<nexists>e. c_expiresAt c = Some e \<and> io_now (ios 1) < e"
  shows "\<exists>r. row_by c_id (db_claims (fst (prepareClaim E ios inp db))) (c_id c) = Some r \<and> c_status r = Expired"
proof -
  let ?db = "fst (transition (Prepared, Expired, no_patch\<lparr>tp_errorCode := Some ''claim_expired''\<rparr>) (c_id c) db)"
  obtain r0 where r0: "r0 \<in> set (db_claims db)" "c = toRecord r0"
    using assms(3) unfolding findActiveClaim_def by (auto dest!: select_first_SomeD)
  then have row: "row_by c_id (db_claims db) (c_id c) = Some r0" using assms(1) by (simp add: claims_ok_def row_by_unique)
  have g: "transition_guard (Prepared, Expired, no_patch\<lparr>tp_errorCode := Some ''claim_expired''\<rparr>) r0"
    using assms(4) r0(2) by (simp add: transition_guard_def no_patch_def)
  then have ex: "\<exists>r. row_by c_id (db_claims ?db) (c_id c) = Some r \<and> c_status r = Expired"
    using row by (simp add: guarded_write_row)
  have act: "prepare_active E (ios 1) q (Some c) = P_expire q (c_id c)"
    using assms(4,5) by (auto simp: prepare_active_def split: option.split)
  have run: "prepareClaim E ios inp db = prepare_run 3 E (\<lambda>i. ios (i + 3)) inp (?db, P_build q)"
    using check_context_won [OF assms(2)] assms(3) act by (simp add: prepareClaim_def eval_nat_numeral)
  have keep: "\<exists>r. row_by c_id (db_claims (fst (prepare_run n E io inp (d, pc)))) (c_id c) = Some r \<and> c_status r = Expired"
    if "\<exists>r. row_by c_id (db_claims d) (c_id c) = Some r \<and> c_status r = Expired" "\<And>q i. pc \<noteq> P_expire q i" "pc \<noteq> P_context"
      "\<And>q. pc \<noteq> P_active q" for n io d pc
    using that
  proof (induction n arbitrary: io d pc)
    case (Suc n)
    show ?case
    proof (cases pc)
      case (P_insert p nonce tx)
      let ?ins = "insertPrepared (prepared_claim_of inp p nonce tx) (io_newId (io 0)) (io_now (io 0)) d"
      have "\<exists>r. row_by c_id (db_claims (fst ?ins)) (c_id c) = Some r \<and> c_status r = Expired"
        using Suc.prems(1) by (auto simp: insertPrepared_def Let_def row_by_snoc)
      then show ?thesis using Suc.IH P_insert by (cases ?ins; cases "snd ?ins") auto
    qed (use Suc in \<open>auto simp: prepare_build_def split: sum.split\<close>)
  qed simp
  show ?thesis unfolding run by (rule keep [OF ex]) simp_all
qed

lemma prepare_new_claim:
  assumes "won_prediction inp db q" and "findActiveClaim db (pi_userId inp) (pi_marketId inp) = None"
    and "chain_prepare (env_passphrase E) (io_assembled (ios 2)) = Inr tx" and "io_newId (ios 3) \<notin> c_id ` set (db_claims db)"
  shows "prepareClaim E ios inp db =
    (db\<lparr>db_claims := db_claims db @ [new_claim_row (prepared_claim_of inp q (case io_nonce (ios 2) of None \<Rightarrow> 0 | Some n \<Rightarrow> n) tx)
        (io_newId (ios 3)) (io_now (ios 3))]\<rparr>,
     P_done (Inr \<lparr>pr_claimId = io_newId (ios 3), pr_xdr = Some (pt_xdr tx), pr_networkPassphrase = env_passphrase E,
        pr_expiresAt = pt_expiresAt tx\<rparr>))"
proof -
  let ?n = "case io_nonce (ios 2) of None \<Rightarrow> 0 | Some n \<Rightarrow> n"
  have none: "\<And>c. c \<in> set (db_claims db) \<Longrightarrow> c_userId c = pi_userId inp \<Longrightarrow> c_marketId c = pi_marketId inp \<Longrightarrow>
      c_status c \<notin> {Prepared, Submitting, Paid, Settled}"
    using assms(2) by (auto simp: findActiveClaim_def select_first_None)
  then have "\<not> hasConsumedNonce db (pi_userId inp) (pi_marketId inp)" by (auto simp: hasConsumedNonce_def select_first_None)
  then have build: "prepare_build E (ios 2) q (hasConsumedNonce db (pi_userId inp) (pi_marketId inp)) = P_insert q ?n tx"
    using assms(3) by (simp add: prepare_build_def getClaimNonce_def split: option.split)
  have "\<not> isUniqueViolation (db_claims db) (new_claim_row (prepared_claim_of inp q ?n tx) (io_newId (ios 3)) (io_now (ios 3)))"
    using none assms(4) by (auto simp: isUniqueViolation_def new_claim_row_def prepared_claim_of_def image_iff)
  then show ?thesis
    using check_context_won [OF assms(1)] assms(2) build
    by (simp add: prepareClaim_def eval_nat_numeral prepare_active_def insertPrepared_def Let_def preparedResult_def)
      (simp add: new_claim_row_def prepared_claim_of_def)
qed

text \<open>C15. A prepare request that runs alone always answers, and this is what it answers. It never changes markets or
  predictions and keeps the claims table sound. A success names a stored, prepared claim of this user on this market with
  the returned envelope and expiry, for a resolved market on which the user has exactly one confirmed prediction, which won
  and is unclaimed. Without such a prediction it changes nothing and fails. With one, it depends on the active claim of
  the user on the market: a prepared claim that has not expired is answered again and nothing changes; a claim being
  submitted, or one that is paid or settled, is refused and nothing changes; a prepared claim that has expired is marked
  expired; and without an active claim, if the chain prepares a transaction and the new identifier is unused, exactly one
  claim is added, for the prediction's amount, with the contract's nonce (0 if it has none), and answered.\<close>

theorem prepareClaim_answers:
  assumes "claims_ok db"
  shows "\<exists>db' ans. prepareClaim E ios inp db = (db', P_done ans) \<and> claims_ok db'
    \<and> db_predictions db' = db_predictions db \<and> db_markets db' = db_markets db
    \<and> (\<forall>res. ans = Inr res \<longrightarrow> (\<exists>q. won_prediction inp db q) \<and> prepared_row inp db' res)
    \<and> ((\<nexists>q. won_prediction inp db q) \<longrightarrow> db' = db)
    \<and> (\<forall>q. won_prediction inp db q \<longrightarrow> (case findActiveClaim db (pi_userId inp) (pi_marketId inp) of
         Some c \<Rightarrow>
           (if c_status c = Submitting
            then db' = db \<and> ans = throw 409 ''claim_in_progress'' ''A claim is already being submitted''
            else if c_status c \<noteq> Prepared
            then db' = db \<and> ans = throw 409 ''claim_already_submitted'' ''Winnings for this market have already been claimed''
            else if \<exists>e. c_expiresAt c = Some e \<and> io_now (ios 1) < e
            then db' = db \<and> ans = preparedResult E c
            else \<exists>r. row_by c_id (db_claims db') (c_id c) = Some r \<and> c_status r = Expired)
       | None \<Rightarrow> (\<forall>tx. chain_prepare (env_passphrase E) (io_assembled (ios 2)) = Inr tx
             \<and> io_newId (ios 3) \<notin> c_id ` set (db_claims db) \<longrightarrow>
           db' = db\<lparr>db_claims := db_claims db @ [new_claim_row
               (prepared_claim_of inp q (case io_nonce (ios 2) of None \<Rightarrow> 0 | Some n \<Rightarrow> n) tx) (io_newId (ios 3)) (io_now (ios 3))]\<rparr>
           \<and> ans = Inr \<lparr>pr_claimId = io_newId (ios 3), pr_xdr = Some (pt_xdr tx), pr_networkPassphrase = env_passphrase E,
               pr_expiresAt = pt_expiresAt tx\<rparr>)))"
proof -
  obtain db' ans where run: "prepareClaim E ios inp db = (db', P_done ans)"
    using prepareClaim_returns [of E ios inp db] by (metis prod.collapse)
  have "prepare_mid inp db (db, P_context)" using assms by (simp add: prepare_mid_def)
  from prepare_mid_run [OF this, of 6 E ios] run
  have mid: "prepare_mid inp db (db', P_done ans)" by (simp add: prepareClaim_def)
  then have frame: "claims_ok db'" "db_predictions db' = db_predictions db" "db_markets db' = db_markets db"
    and ok: "\<And>res. ans = Inr res \<Longrightarrow> (\<exists>q. won_prediction inp db q) \<and> prepared_row inp db' res"
    by (auto simp: prepare_mid_def)
  show ?thesis
  proof (rule exI [of _ db'], rule exI [of _ ans], intro conjI allI impI)
    show "prepareClaim E ios inp db = (db', P_done ans)" by (rule run)
    show "(\<nexists>q. won_prediction inp db q) \<Longrightarrow> db' = db" using prepare_not_won [of inp db E ios] run by simp
    fix q
    assume w: "won_prediction inp db q"
    show "case findActiveClaim db (pi_userId inp) (pi_marketId inp) of
         Some c \<Rightarrow>
           (if c_status c = Submitting
            then db' = db \<and> ans = throw 409 ''claim_in_progress'' ''A claim is already being submitted''
            else if c_status c \<noteq> Prepared
            then db' = db \<and> ans = throw 409 ''claim_already_submitted'' ''Winnings for this market have already been claimed''
            else if \<exists>e. c_expiresAt c = Some e \<and> io_now (ios 1) < e
            then db' = db \<and> ans = preparedResult E c
            else \<exists>r. row_by c_id (db_claims db') (c_id c) = Some r \<and> c_status r = Expired)
       | None \<Rightarrow> (\<forall>tx. chain_prepare (env_passphrase E) (io_assembled (ios 2)) = Inr tx
             \<and> io_newId (ios 3) \<notin> c_id ` set (db_claims db) \<longrightarrow>
           db' = db\<lparr>db_claims := db_claims db @ [new_claim_row
               (prepared_claim_of inp q (case io_nonce (ios 2) of None \<Rightarrow> 0 | Some n \<Rightarrow> n) tx) (io_newId (ios 3)) (io_now (ios 3))]\<rparr>
           \<and> ans = Inr \<lparr>pr_claimId = io_newId (ios 3), pr_xdr = Some (pt_xdr tx), pr_networkPassphrase = env_passphrase E,
               pr_expiresAt = pt_expiresAt tx\<rparr>)"
    proof (cases "findActiveClaim db (pi_userId inp) (pi_marketId inp)")
      case None
      then show ?thesis using prepare_new_claim [OF w None] run by auto
    next
      case (Some c)
      show ?thesis
        using prepare_active_claim [OF w Some, of ios E] prepare_expired_claim [OF assms w Some, of ios E] run
        by (cases "c_status c = Prepared") (auto simp: Some)
    qed
  next
    fix res
    assume "ans = Inr res"
    from ok [OF this] show "\<exists>q. won_prediction inp db q" "prepared_row inp db' res" by blast+
  qed (use frame in auto)
qed

definition demo_prepare :: prepare_input where
  "demo_prepare = \<lparr>pi_marketId = ''m1'', pi_userId = ''u1'', pi_stellarAddress = ''GUSER''\<rparr>"

definition demo_prepared :: prepare_result where
  "demo_prepared = \<lparr>pr_claimId = ''c2'', pr_xdr = Some ''unsigned'',
     pr_networkPassphrase = ''Test SDF Network'', pr_expiresAt = 1000\<rparr>"

lemma demo_prepare_run:
  "\<exists>db'. prepareClaim demo_env (\<lambda>_. demo_io) demo_prepare (demo_db []) = (db', P_done (Inr demo_prepared))"
  by (simp add: prepareClaim_def eval_nat_numeral demo_prepare_def demo_prepared_def demo_db_def
      demo_market_def demo_prediction_def demo_io_def demo_env_def loadContext_def check_context_def
      context_prediction_of_def truthy_text_def prepare_active_def findActiveClaim_def prepare_build_def
      hasConsumedNonce_def getClaimNonce_def chain_prepare_def insertPrepared_def isUniqueViolation_def
      prepared_claim_of_def new_claim_row_def preparedResult_def Let_def)

theorem prepareClaim_answers_witness:
  "\<exists>db'. prepared_row demo_prepare db' demo_prepared \<and> claims_ok db' \<and> db_markets db' = [demo_market]"
proof -
  obtain db' where run: "prepareClaim demo_env (\<lambda>_. demo_io) demo_prepare (demo_db []) = (db', P_done (Inr demo_prepared))"
    using demo_prepare_run by blast
  have "claims_ok (demo_db [])"
    by (simp add: claims_ok_def demo_db_def key_unique_def claims_one_active_per_user_market_idx_def)
  from prepareClaim_answers [OF this, of demo_env "\<lambda>_. demo_io" demo_prepare] run
  have "prepared_row demo_prepare db' demo_prepared" "claims_ok db'" "db_markets db' = db_markets (demo_db [])" by auto
  then show ?thesis by (auto simp: demo_db_def)
qed

text \<open>C17. A user whose claim the settle confirmer rejected cannot prepare a new one, although the
  message says so: the paid transaction hash stays recorded on the prediction, and every later
  prepare request for that market answers \<^verbatim>\<open>claim_already_submitted\<close> and changes nothing, whatever
  the claims table holds.\<close>

theorem rejected_claim_blocks_prepare:
  assumes "row_by m_id (db_markets db) (pi_marketId inp) = Some m" and "m_status m = ''resolved''"
    and "filter (\<lambda>p. p_marketId p = pi_marketId inp \<and> p_userId p = pi_userId inp \<and> p_status p = ''confirmed'')
           (db_predictions db) = [p]"
    and "h \<noteq> ''''"
  shows "prepareClaim E ios inp (markFailed i (recordPredictionClaim (pi_userId inp) (pi_marketId inp) h t db))
    = (markFailed i (recordPredictionClaim (pi_userId inp) (pi_marketId inp) h t db),
       P_done (throw 409 ''claim_already_submitted'' ''Winnings for this market have already been claimed''))"
    (is "prepareClaim E ios inp ?db = _")
proof -
  let ?f = "\<lambda>p. p\<lparr>p_claimTxHash := Some h, p_claimedAt := Some t\<rparr>"
  let ?mine = "\<lambda>p. p_userId p = pi_userId inp \<and> p_marketId p = pi_marketId inp"
  let ?conf = "\<lambda>p. p_marketId p = pi_marketId inp \<and> p_userId p = pi_userId inp \<and> p_status p = ''confirmed''"
  have "filter ?conf (update_where ?mine ?f ps) = map ?f (filter ?conf ps)" for ps
    by (induction ps) auto
  from this [of "db_predictions db"] have only: "filter ?conf (db_predictions ?db) = [?f p]"
    unfolding assms(3) by (simp add: recordPredictionClaim_def markFailed_def)
  have "db_markets ?db = db_markets db" by (simp add: recordPredictionClaim_def markFailed_def)
  then have "loadContext ?db (pi_marketId inp) (pi_userId inp) =
      \<lparr>cx_market = Some ''resolved'', cx_prediction = Some (context_prediction_of (?f p)),
       cx_ambiguous = False, cx_unconfirmedOnly = False\<rparr>"
    using assms(1,2) unfolding loadContext_def only Let_def by simp
  then have "check_context (loadContext ?db (pi_marketId inp) (pi_userId inp)) =
      throw 409 ''claim_already_submitted'' ''Winnings for this market have already been claimed''"
    using assms(4) by (simp add: check_context_def context_prediction_of_def truthy_text_def)
  then show ?thesis by (simp add: prepareClaim_def eval_nat_numeral)
qed

theorem rejected_claim_blocks_prepare_witness:
  "\<exists>db'. prepareClaim demo_env (\<lambda>_. demo_io) demo_prepare db' =
     (db', P_done (throw 409 ''claim_already_submitted'' ''Winnings for this market have already been claimed''))"
  using rejected_claim_blocks_prepare [of "demo_db [demo_row Paid]" demo_prepare demo_market demo_prediction
      "''h1''" demo_env "\<lambda>_. demo_io" "''c1''" 5]
  by (auto simp: demo_db_def demo_prepare_def demo_market_def demo_prediction_def)

section \<open>Submit\<close>

lemma transition_hit:
  assumes "claims_ok db" and "row_by c_id (db_claims db) i = Some r" and "transition_guard a r"
  shows "\<exists>db'. transition a i db = (db', Some (toRecord (transition_set a r)))
    \<and> row_by c_id (db_claims db') i = Some (transition_set a r)
    \<and> db_predictions db' = db_predictions db \<and> db_markets db' = db_markets db"
proof -
  have "snd (transition a i db) = Some (toRecord (transition_set a r))"
    using assms claim_rows.tbl.upd_hit [of "db_claims db" i r a]
    by (simp add: claims_ok_def transition_def Let_def)
  moreover have "row_by c_id (db_claims (fst (transition a i db))) i = Some (transition_set a r)"
    using assms by (simp add: guarded_write_row)
  ultimately show ?thesis
    by (intro exI [of _ "fst (transition a i db)"]) (simp add: prod_eq_iff)
qed

text \<open>C7. A valid claim is paid: if the stored claim is prepared, the user's own, not expired at
  either clock reading, and the envelope verifies for it, then a \<^verbatim>\<open>PENDING\<close> answer of the network
  makes the request return the claim as paid with the transaction hash, the row is paid with that
  hash, and every prediction of the user on the market records it.\<close>

theorem submitClaim_pays:
  assumes ok: "claims_ok db" and row: "row_by c_id (db_claims db) (si_claimId sinp) = Some r"
    and st: "c_status r = Prepared" "c_userId r = si_userId sinp"
    and fresh: "c_expiresAt r = Some e" "io_now (ios 0) < e" "io_now (ios 1) < e"
    and ver: "verified E sinp r" and send: "io_send (ios 2) = SendResult ''PENDING'' h err"
  shows "\<exists>db' out r'. submitClaim E ios sinp db = (db', S_done (Inr out))
    \<and> sb_status out = Paid \<and> sb_claimTxHash out = Some h \<and> sb_claimId out = si_claimId sinp
    \<and> row_by c_id (db_claims db') (si_claimId sinp) = Some r' \<and> c_status r' = Paid \<and> c_settlementTx r' = Some h
    \<and> db_predictions db' = update_where (\<lambda>p. p_userId p = si_userId sinp \<and> p_marketId p = c_marketId r)
        (\<lambda>p. p\<lparr>p_claimTxHash := Some h, p_claimedAt := Some (io_now (ios 4))\<rparr>) (db_predictions db)"
proof -
  let ?i = "si_claimId sinp"
  have id: "c_id r = ?i" using row_by_SomeD [OF row] by simp
  have find: "submit_step E (ios 0) sinp (db, S_find) = (db, S_begin (toRecord r))"
    using row st fresh ver by (auto simp: submit_check_def findById_def verified_def toRecord_def [symmetric])
  let ?a = "(Prepared, Submitting, no_patch\<lparr>tp_notExpiredAt := Some (io_now (ios 1))\<rparr>)"
  obtain db1 where t1: "transition ?a ?i db = (db1, Some (toRecord (transition_set ?a r)))"
    "row_by c_id (db_claims db1) ?i = Some (transition_set ?a r)"
    "db_predictions db1 = db_predictions db"
    using transition_hit [OF ok row, of ?a] st fresh by (auto simp: transition_guard_def no_patch_def)
  have ok1: "claims_ok db1" using transition_effect [OF ok, of Prepared Submitting] t1(1) by (metis claim_edge.simps(1) fst_conv)
  let ?b = "(Submitting, Paid, no_patch\<lparr>tp_settlementTx := Some h\<rparr>)"
  let ?r1 = "transition_set ?a r" and ?r2 = "transition_set ?b (transition_set ?a r)"
  obtain db2 where t2: "transition ?b ?i db1 = (db2, Some (toRecord ?r2))"
    "row_by c_id (db_claims db2) ?i = Some ?r2" "db_predictions db2 = db_predictions db1"
    using transition_hit [OF ok1 t1(2), of ?b] by (auto simp: transition_guard_def no_patch_def)
  let ?db3 = "recordPredictionClaim (si_userId sinp) (c_marketId r) h (io_now (ios 4)) db2"
  have "submitClaim E ios sinp db = (?db3, S_done (Inr (toSubmitResult ?db3 (toRecord ?r2))))"
    using find t1(1) t2(1) send id
    by (simp add: submitClaim_def eval_nat_numeral)
  moreover have "sb_status (toSubmitResult ?db3 (toRecord ?r2)) = Paid"
    "sb_claimTxHash (toSubmitResult ?db3 (toRecord ?r2)) = Some h"
    "sb_claimId (toSubmitResult ?db3 (toRecord ?r2)) = ?i" "c_settlementTx ?r2 = Some h" "c_status ?r2 = Paid"
    using id by (simp_all add: toSubmitResult_def Let_def transition_set_def no_patch_def)
  ultimately show ?thesis
    using t1 t2 by (auto simp: recordPredictionClaim_def)
qed

theorem submitClaim_pays_witness:
  "\<exists>db' out. submitClaim demo_env (\<lambda>_. demo_io) demo_submit (demo_db [demo_row Prepared]) =
     (db', S_done (Inr out)) \<and> sb_status out = Paid \<and> sb_claimTxHash out = Some ''h1''"
proof -
  have "claims_ok (demo_db [demo_row Prepared])"
    using demo_init by (simp add: claim_init_def demo_sys_def)
  moreover have "verified demo_env demo_submit (demo_row Prepared)"
    unfolding verified_def using demo_verified bigint_zero
    by (intro exI [of _ 0]) (simp add: demo_row_def demo_submit_def toRecord_def)
  ultimately show ?thesis
    using submitClaim_pays [of "demo_db [demo_row Prepared]" demo_submit "demo_row Prepared" 1000
        "\<lambda>_. demo_io" demo_env "''h1''" None]
    by (fastforce simp: demo_db_def demo_row_def demo_submit_def demo_io_def)
qed

text \<open>The envelopes accepted are exactly the signed transactions of the expected user, with the
  expected hash, that consist of one contract invocation of \<^verbatim>\<open>claim_winnings\<close> on the configured
  contract, by that user, with exactly the three expected arguments; every other envelope is
  refused with \<^verbatim>\<open>claim_xdr_mismatch\<close>.\<close>

lemma verifySigned_accepts:
  "(verifySigned fromXDR contractId signedXdr e = None \<longleftrightarrow>
     (\<exists>envl tx op. fromXDR signedXdr = Some envl \<and> tx = innerTransaction envl
        \<and> tx_source tx = ex_user e \<and> tx_signatures tx > 0 \<and> tx_hash tx = ex_expectedTxHash e
        \<and> tx_operations tx = [op] \<and> op_type op = ''invokeHostFunction''
        \<and> (op_source op = None \<or> op_source op = Some (ex_user e))
        \<and> op_funcKind op = ''hostFunctionTypeInvokeContract''
        \<and> iv_contractAddress (op_invoke op) = contractId
        \<and> iv_functionName (op_invoke op) = CLAIM_FUNCTION
        \<and> iv_args (op_invoke op) = claim_arguments e))
   \<and> (case verifySigned fromXDR contractId signedXdr e of None \<Rightarrow> True
      | Some err \<Rightarrow> ce_code err = ''claim_xdr_mismatch'' \<and> ce_status err = 400)"
proof -
  have "verifySigned fromXDR contractId signedXdr e = None \<longleftrightarrow>
      (\<exists>envl. fromXDR signedXdr = Some envl \<and> check_tx contractId e (innerTransaction envl) = None)"
    by (auto simp: verifySigned_def split: option.splits)
  then show ?thesis
    by (auto simp: check_tx_None dest: verifySigned_code split: option.splits)
qed

section \<open>Settlement\<close>

lemma fold_update_rows:
  assumes "distinct (map kx xs)" and "\<And>x r. key (f x r) = key r"
  shows "fold (\<lambda>x. update_where (\<lambda>r. key r = kx x) (f x)) xs rows =
    map (\<lambda>r. case find (\<lambda>x. kx x = key r) xs of None \<Rightarrow> r | Some x \<Rightarrow> f x r) rows"
  using assms(1)
proof (induction xs arbitrary: rows)
  case (Cons x xs)
  have "find (\<lambda>y. kx y = kx x) xs = None"
    using Cons.prems by (auto simp: find_None_iff rev_image_eqI)
  then show ?case
    using Cons by (auto simp: update_where_def assms(2) comp_def)
qed (simp add: map_idI)

definition pending_of :: "claim_row \<Rightarrow> pending_claim" where
  "pending_of c = \<lparr>pc_id = c_id c, pc_settlementTx = the (c_settlementTx c), pc_settleAttempts = c_settleAttempts c\<rparr>"

lemma pc_id_pending_of [simp]: "pc_id (pending_of c) = c_id c"
  by (simp add: pending_of_def)

lemma find_pending:
  assumes "key_unique c_id rows" and "c \<in> set rows"
  shows "find (\<lambda>x. pc_id x = c_id c) (map pending_of (filter (settle_due now) rows)) =
    (if settle_due now c then Some (pending_of c) else None)"
  using assms
proof (induction rows)
  case (Cons d rows)
  have none: "find (\<lambda>x. pc_id x = c_id d) (map pending_of (filter (settle_due now) rows)) = None"
    using Cons.prems(1) by (auto simp: find_None_iff key_unique_def rev_image_eqI)
  show ?case
  proof (cases "c = d")
    case True
    with none show ?thesis by simp
  next
    case False
    with Cons.prems have "c \<in> set rows" "c_id d \<noteq> c_id c" "key_unique c_id rows"
      by (auto simp: key_unique_def)
    with Cons.IH show ?thesis by simp
  qed
qed simp

text \<open>A settlement poll treats every claim on its own: the rows that are paid, have a
  transaction and are due when the poll starts are settled, rejected or rescheduled by what Horizon
  says of their own transaction (successful with enough confirmations, unsuccessful, otherwise),
  every other row is left as it is, and the poll reports as processed exactly the due rows.\<close>

lemma pollOnce_rows:
  assumes "claims_ok db"
  shows "db_claims (fst (pollOnce k horizon now clock db)) =
      map (\<lambda>c. if settle_due now c then settle_row k horizon (clock (c_id c)) (pending_of c) c else c) (db_claims db)
    \<and> po_processed (snd (pollOnce k horizon now clock db)) = length (filter (settle_due now) (db_claims db))"
proof -
  let ?rows = "db_claims db" and ?pend = "getPendingSettlements now db"
  have uq: "key_unique c_id ?rows" using assms by (simp add: claims_ok_def)
  have pend: "?pend = map pending_of (filter (settle_due now) ?rows)"
    by (simp add: getPendingSettlements_def pending_of_def [abs_def])
  let ?f = "\<lambda>x. settle_row k horizon (clock (pc_id x)) x"
  have loop: "db_claims (fold (\<lambda>x. set_claim (pc_id x) (?f x)) xs db0) =
      fold (\<lambda>x. update_where (\<lambda>r. c_id r = pc_id x) (?f x)) xs (db_claims db0)" for xs db0
    by (induction xs arbitrary: db0) simp_all
  have "distinct (map pc_id ?pend)" using getPendingSettlements_ok [OF assms] by blast
  then have "db_claims (fst (poll_loop k horizon clock ?pend (db, 0, 0))) =
      map (\<lambda>r. case find (\<lambda>x. pc_id x = c_id r) ?pend of None \<Rightarrow> r | Some x \<Rightarrow> ?f x r) ?rows"
    by (simp add: poll_loop_fold loop fold_update_rows)
  also have "\<dots> = map (\<lambda>c. if settle_due now c then settle_row k horizon (clock (c_id c)) (pending_of c) c else c) ?rows"
    by (rule map_cong) (simp_all add: pend find_pending [OF uq])
  finally show ?thesis
    by (cases "poll_loop k horizon clock ?pend (db, 0, 0)") (auto simp: pollOnce_def Let_def pend)
qed

lemma pollOnce_rows_witness:
  "map c_status (db_claims (fst (pollOnce 3 (\<lambda>_. Some (True, 5, 9)) 100 (\<lambda>_. 101)
     (demo_db [(demo_row Paid)\<lparr>c_settlementTx := Some ''h1''\<rparr>])))) = [Settled]"
proof -
  have "claims_ok (demo_db [(demo_row Paid)\<lparr>c_settlementTx := Some ''h1''\<rparr>])"
    by (simp add: claims_ok_def demo_db_def key_unique_def claims_one_active_per_user_market_idx_def)
  from pollOnce_rows [OF this, of 3 "\<lambda>_. Some (True, 5, 9)" 100 "\<lambda>_. 101"] show ?thesis
    by (simp add: demo_db_def settle_due_def demo_row_def settle_row_def pending_of_def)
qed

end
