(* ===== verification/Watcher_Jobs.thy ===== *)
theory Watcher_Jobs
  imports Schema Js_Numerals
begin

text \<open>
  Lease-backed market-watcher jobs: \<^verbatim>\<open>src/services/marketWatcherJobService.ts\<close> (repository,
  coordinator, default handler) and \<^verbatim>\<open>src/jobs/marketWatcherLeaseSweeper.ts\<close>. The four leased
  updates of the repository are conditional updates of one row and satisfy \<open>guarded_update\<close>. The
  queue (BullMQ) is represented by the list of \<^verbatim>\<open>add\<close> calls made; what \<^verbatim>\<open>getJob(id).getState()\<close>
  answers and whether the Redis lock is acquired are arguments. \<^verbatim>\<open>process\<close> is split at the handler
  call, so that other workers may change the table in between.
\<close>

section \<open>Rows and constants\<close>

datatype job_status = JPending | JRunning | JRetryable | JSucceeded | JFailed

record watcher_job =
  j_id :: string
  j_marketId :: string
  j_jobKey :: string
  j_eventType :: string
  j_status :: job_status
  j_attempt :: int
  j_leaseToken :: "string option"
  j_leaseUntil :: "time option"
  j_startedAt :: "time option"
  j_completedAt :: "time option"
  j_nextAttemptAt :: "time option"
  j_watchersNotified :: int
  j_payload :: "json_fields option"
  j_lastError :: "string option"
  j_createdAt :: time
  j_updatedAt :: time

record job_data =
  jd_jobId :: string
  jd_marketId :: string
  jd_eventType :: string
  jd_eventRef :: string
  jd_jobKey :: string
  jd_payload :: "json_fields option"

definition DEFAULT_MAX_ATTEMPTS :: int where "DEFAULT_MAX_ATTEMPTS = 3"
definition DEFAULT_LEASE_MS :: int where "DEFAULT_LEASE_MS = 5 * 60 * 1000"
definition DEFAULT_RETRY_BASE_MS :: int where "DEFAULT_RETRY_BASE_MS = 30 * 1000"
definition MAX_RETRY_DELAY_MS :: int where "MAX_RETRY_DELAY_MS = 60 * 60 * 1000"

section \<open>Repository\<close>

definition new_job :: "string \<Rightarrow> time \<Rightarrow> time \<Rightarrow> string \<Rightarrow> string \<Rightarrow> string \<Rightarrow> json_fields option \<Rightarrow> watcher_job" where
  "new_job newId dbNow now marketId jobKey eventType payload =
     \<lparr>j_id = newId, j_marketId = marketId, j_jobKey = jobKey, j_eventType = eventType,
      j_status = JPending, j_attempt = 0, j_leaseToken = None, j_leaseUntil = None,
      j_startedAt = None, j_completedAt = None, j_nextAttemptAt = Some now, j_watchersNotified = 0,
      j_payload = Some (case payload of None \<Rightarrow> [] | Some p \<Rightarrow> p), j_lastError = None,
      j_createdAt = dbNow, j_updatedAt = dbNow\<rparr>"

text \<open>\<^verbatim>\<open>ON CONFLICT DO NOTHING\<close> on the unique job key, then a select by that key; the thrown error of
  the source (no row after the insert) cannot occur and is the \<open>None\<close> result.\<close>

definition createOrGetJob ::
  "string \<Rightarrow> time \<Rightarrow> time \<Rightarrow> string \<Rightarrow> string \<Rightarrow> string \<Rightarrow> json_fields option
     \<Rightarrow> watcher_job table \<Rightarrow> watcher_job table \<times> watcher_job option" where
  "createOrGetJob newId dbNow now marketId jobKey eventType payload jobs =
     (let jobs' = (if (\<exists>j \<in> set jobs. j_jobKey j = jobKey) then jobs
                   else jobs @ [new_job newId dbNow now marketId jobKey eventType payload])
      in (jobs', select_first (\<lambda>j. j_jobKey j = jobKey) jobs'))"

text \<open>The leased updates: their arguments, \<^verbatim>\<open>WHERE\<close> guards (beside the id) and \<^verbatim>\<open>SET\<close> clauses.\<close>

datatype lease_op =
    ClaimOp (lo_token: string) (lo_now: time) int
  | SucceedOp (lo_token: string) int (lo_now: time)
  | FailOp (lo_token: string) string (lo_now: time) int time
  | RenewOp (lo_token: string) (lo_now: time) int

fun lease_guard :: "lease_op \<Rightarrow> watcher_job \<Rightarrow> bool" where
  "lease_guard (ClaimOp token now leaseMs) j \<longleftrightarrow>
     j_status j = JPending
     \<or> j_status j = JRetryable \<and> (case j_nextAttemptAt j of None \<Rightarrow> True | Some t \<Rightarrow> t \<le> now)
     \<or> j_status j = JRunning \<and> (case j_leaseUntil j of None \<Rightarrow> True | Some t \<Rightarrow> t < now)"
| "lease_guard (SucceedOp token n now) j \<longleftrightarrow> j_leaseToken j = Some token \<and> j_status j = JRunning"
| "lease_guard (FailOp token err now maxAttempts nextAt) j \<longleftrightarrow>
     j_leaseToken j = Some token \<and> j_status j = JRunning"
| "lease_guard (RenewOp token now leaseMs) j \<longleftrightarrow>
     j_leaseToken j = Some token \<and> j_status j = JRunning
     \<and> (case j_leaseUntil j of None \<Rightarrow> False | Some t \<Rightarrow> now \<le> t)"

fun lease_set :: "lease_op \<Rightarrow> watcher_job \<Rightarrow> watcher_job" where
  "lease_set (ClaimOp token now leaseMs) j =
     j\<lparr>j_status := JRunning, j_attempt := j_attempt j + 1, j_leaseToken := Some token,
       j_leaseUntil := Some (now + leaseMs),
       j_startedAt := (case j_startedAt j of None \<Rightarrow> Some now | Some t \<Rightarrow> Some t), j_updatedAt := now\<rparr>"
| "lease_set (SucceedOp token n now) j =
     j\<lparr>j_status := JSucceeded, j_watchersNotified := n, j_completedAt := Some now,
       j_leaseToken := None, j_leaseUntil := None, j_updatedAt := now\<rparr>"
| "lease_set (FailOp token err now maxAttempts nextAt) j =
     j\<lparr>j_status := (if j_attempt j \<ge> maxAttempts then JFailed else JRetryable),
       j_lastError := Some (take 2000 err), j_nextAttemptAt := Some nextAt,
       j_completedAt := (if j_attempt j \<ge> maxAttempts then Some now else None),
       j_leaseToken := None, j_leaseUntil := None, j_updatedAt := now\<rparr>"
| "lease_set (RenewOp token now leaseMs) j =
     j\<lparr>j_leaseUntil := Some (now + leaseMs), j_updatedAt := now\<rparr>"

definition lease_update :: "lease_op \<Rightarrow> string \<Rightarrow> watcher_job table \<Rightarrow> watcher_job table \<times> watcher_job option" where
  "lease_update a = guarded_write j_id (lease_guard a) (lease_set a)"

definition claimJob :: "string \<Rightarrow> string \<Rightarrow> time \<Rightarrow> int \<Rightarrow> watcher_job table \<Rightarrow> watcher_job table \<times> watcher_job option" where
  "claimJob jobId token now leaseMs jobs = lease_update (ClaimOp token now leaseMs) jobId jobs"

definition markSucceeded :: "string \<Rightarrow> string \<Rightarrow> int \<Rightarrow> time \<Rightarrow> watcher_job table \<Rightarrow> watcher_job table \<times> bool" where
  "markSucceeded jobId token n now jobs =
     (case lease_update (SucceedOp token n now) jobId jobs of (jobs', r) \<Rightarrow> (jobs', r \<noteq> None))"

definition markFailed ::
  "string \<Rightarrow> string \<Rightarrow> string \<Rightarrow> time \<Rightarrow> int \<Rightarrow> time \<Rightarrow> watcher_job table
     \<Rightarrow> watcher_job table \<times> (job_status \<times> int) option" where
  "markFailed jobId token err now maxAttempts nextAt jobs =
     (case lease_update (FailOp token err now maxAttempts nextAt) jobId jobs of
        (jobs', r) \<Rightarrow> (jobs', map_option (\<lambda>j. (j_status j, j_attempt j)) r))"

definition renewLease :: "string \<Rightarrow> string \<Rightarrow> time \<Rightarrow> int \<Rightarrow> watcher_job table \<Rightarrow> watcher_job table \<times> bool" where
  "renewLease jobId token now leaseMs jobs =
     (case lease_update (RenewOp token now leaseMs) jobId jobs of (jobs', r) \<Rightarrow> (jobs', r \<noteq> None))"

definition due_retryable :: "time \<Rightarrow> watcher_job \<Rightarrow> bool" where
  "due_retryable now j \<longleftrightarrow> j_status j = JRetryable
     \<and> (case j_nextAttemptAt j of None \<Rightarrow> True | Some t \<Rightarrow> t \<le> now)"

definition listDueRetryable :: "time \<Rightarrow> nat \<Rightarrow> watcher_job table \<Rightarrow> watcher_job list" where
  "listDueRetryable now limit jobs = take limit (filter (due_retryable now) jobs)"

definition expired_lease :: "time \<Rightarrow> watcher_job \<Rightarrow> bool" where
  "expired_lease now j \<longleftrightarrow> j_status j = JRunning
     \<and> (case j_leaseUntil j of None \<Rightarrow> False | Some t \<Rightarrow> t < now)"

definition recover_set :: "time \<Rightarrow> int \<Rightarrow> watcher_job \<Rightarrow> watcher_job" where
  "recover_set now maxAttempts j =
     j\<lparr>j_status := (if j_attempt j \<ge> maxAttempts then JFailed else JRetryable),
       j_lastError := Some ''lease expired before completion'',
       j_completedAt := (if j_attempt j \<ge> maxAttempts then Some now else None),
       j_leaseToken := None, j_leaseUntil := None, j_nextAttemptAt := Some now, j_updatedAt := now\<rparr>"

definition recoverExpiredLeases :: "time \<Rightarrow> int \<Rightarrow> watcher_job table \<Rightarrow> watcher_job table \<times> watcher_job list" where
  "recoverExpiredLeases now maxAttempts jobs =
     (update_where (expired_lease now) (recover_set now maxAttempts) jobs,
      returning (expired_lease now) (recover_set now maxAttempts) jobs)"

definition getJob :: "string \<Rightarrow> watcher_job table \<Rightarrow> watcher_job option" where
  "getJob jobId jobs = row_by j_id jobs jobId"

section \<open>Job keys, backoff, enqueueing\<close>

definition buildWatcherJobKey :: "string \<Rightarrow> string \<Rightarrow> string \<Rightarrow> string option" where
  "buildWatcherJobKey marketId eventType eventRef =
     (if marketId = '''' \<or> eventType = '''' \<or> eventRef = '''' then None
      else Some (marketId @ '':'' @ eventType @ '':'' @ eventRef))"

definition retryDelayMs :: "int \<Rightarrow> int \<Rightarrow> int option" where
  "retryDelayMs attempt baseMs =
     (if attempt < 1 then None else if baseMs < 0 then None
      else Some (min MAX_RETRY_DELAY_MS (baseMs * 2 ^ nat (attempt - 1))))"

record queue_add =
  qa_data :: job_data
  qa_jobId :: string
  qa_delay :: "int option"

text \<open>The result \<open>None\<close> is the thrown key error; the third component lists the queue additions.\<close>

definition enqueueMarketWatcherJob ::
  "string \<Rightarrow> time \<Rightarrow> time \<Rightarrow> string \<Rightarrow> string \<Rightarrow> string \<Rightarrow> json_fields \<Rightarrow> watcher_job table
     \<Rightarrow> watcher_job table \<times> (watcher_job \<times> bool) option \<times> queue_add list" where
  "enqueueMarketWatcherJob newId dbNow now marketId eventType eventRef payload jobs =
     (case buildWatcherJobKey marketId eventType eventRef of
        None \<Rightarrow> (jobs, None, [])
      | Some jobKey \<Rightarrow>
          (case createOrGetJob newId dbNow now marketId jobKey eventType (Some payload) jobs of
             (jobs', None) \<Rightarrow> (jobs', None, [])
           | (jobs', Some job) \<Rightarrow>
               if j_status job = JSucceeded \<or> j_status job = JFailed then (jobs', Some (job, False), [])
               else (jobs', Some (job, True),
                 [\<lparr>qa_data = \<lparr>jd_jobId = j_id job, jd_marketId = marketId, jd_eventType = eventType,
                    jd_eventRef = eventRef, jd_jobKey = jobKey, jd_payload = Some payload\<rparr>,
                   qa_jobId = jobKey, qa_delay = None\<rparr>])))"

section \<open>Coordinator\<close>

record coordinator =
  co_leaseMs :: int
  co_maxAttempts :: int
  co_retryBaseMs :: int

text \<open>The constructor: \<open>None\<close> is its thrown error.\<close>

definition new_coordinator :: "int option \<Rightarrow> int option \<Rightarrow> int option \<Rightarrow> coordinator option" where
  "new_coordinator leaseMs maxAttempts retryBaseMs =
    (let co = \<lparr>co_leaseMs = (case leaseMs of None \<Rightarrow> DEFAULT_LEASE_MS | Some x \<Rightarrow> x),
               co_maxAttempts = (case maxAttempts of None \<Rightarrow> DEFAULT_MAX_ATTEMPTS | Some x \<Rightarrow> x),
               co_retryBaseMs = (case retryBaseMs of None \<Rightarrow> DEFAULT_RETRY_BASE_MS | Some x \<Rightarrow> x)\<rparr>
     in if co_maxAttempts co < 1 then None else Some co)"

datatype process_result = PSkipped | PSucceeded | PRetryable | PFailed | PThrew

datatype handler_outcome = HResult int | HLeaseLost | HThrew string

definition rescheduleOnLiveLease :: "job_data \<Rightarrow> time \<Rightarrow> watcher_job table \<Rightarrow> queue_add list" where
  "rescheduleOnLiveLease job now jobs = (case getJob (jd_jobId job) jobs of
     None \<Rightarrow> []
   | Some stored \<Rightarrow>
       if j_status stored \<noteq> JRunning then []
       else (case j_leaseUntil stored of
           None \<Rightarrow> []
         | Some leaseUntil \<Rightarrow>
             if leaseUntil < now then []
             else [\<lparr>qa_data = job,
                    qa_jobId = jd_jobKey job @ '':recover:'' @ int_to_string (j_attempt stored) @ '':''
                               @ int_to_string leaseUntil,
                    qa_delay = Some (leaseUntil + 1000 - now)\<rparr>]))"

text \<open>The first half of \<^verbatim>\<open>process\<close>: the claim. \<open>Inl\<close>: the handler will run on the claimed row;
  \<open>Inr\<close>: the job is skipped, with the queue additions.\<close>

definition process_claim ::
  "coordinator \<Rightarrow> job_data \<Rightarrow> string \<Rightarrow> time \<Rightarrow> time \<Rightarrow> watcher_job table
     \<Rightarrow> watcher_job table \<times> (watcher_job + queue_add list)" where
  "process_claim co job token now now2 jobs =
     (case claimJob (jd_jobId job) token now (co_leaseMs co) jobs of
        (jobs', Some claimed) \<Rightarrow> (jobs', Inl claimed)
      | (jobs', None) \<Rightarrow> (jobs', Inr (rescheduleOnLiveLease job now2 jobs')))"

text \<open>The catch branch for an ordinary error; \<open>t1\<close>, \<open>t2\<close>, \<open>t3\<close> are its three clock readings.\<close>

definition process_error ::
  "coordinator \<Rightarrow> job_data \<Rightarrow> string \<Rightarrow> watcher_job \<Rightarrow> string \<Rightarrow> time \<Rightarrow> time \<Rightarrow> time \<Rightarrow> watcher_job table
     \<Rightarrow> watcher_job table \<times> process_result \<times> queue_add list" where
  "process_error co job token claimed message t1 t2 t3 jobs =
     (case retryDelayMs (j_attempt claimed) (co_retryBaseMs co) of
        None \<Rightarrow> (jobs, PThrew, [])
      | Some delay \<Rightarrow>
          (let retryAt = t1 + delay
           in case markFailed (j_id claimed) token message t2 (co_maxAttempts co) retryAt jobs of
                (jobs', None) \<Rightarrow> (jobs', PSkipped, [])
              | (jobs', Some (status, attempt)) \<Rightarrow>
                  if status = JRetryable then
                    (jobs', PRetryable,
                     [\<lparr>qa_data = job, qa_jobId = jd_jobKey job @ '':retry:'' @ int_to_string attempt,
                       qa_delay = Some (max 0 (retryAt - t3))\<rparr>])
                  else (jobs', PFailed, [])))"

text \<open>The second half of \<^verbatim>\<open>process\<close>: what happens to the handler's outcome, on the table as it is by
  then.\<close>

definition process_finish ::
  "coordinator \<Rightarrow> job_data \<Rightarrow> string \<Rightarrow> watcher_job \<Rightarrow> handler_outcome \<Rightarrow> time \<Rightarrow> time \<Rightarrow> time
     \<Rightarrow> watcher_job table \<Rightarrow> watcher_job table \<times> process_result \<times> queue_add list" where
  "process_finish co job token claimed out t1 t2 t3 jobs = (case out of
     HResult n \<Rightarrow>
       if n < 0 then
         process_error co job token claimed ''invalid watchersNotified count returned by handler'' t1 t2 t3 jobs
       else (case markSucceeded (j_id claimed) token n t1 jobs of
           (jobs', True) \<Rightarrow> (jobs', PSucceeded, [])
         | (jobs', False) \<Rightarrow> (jobs', PSkipped, []))
   | HLeaseLost \<Rightarrow> (jobs, PSkipped, [])
   | HThrew message \<Rightarrow> process_error co job token claimed message t1 t2 t3 jobs)"

section \<open>Default handler\<close>

record watcher_notification =
  wn_userId :: string
  wn_type :: string
  wn_title :: string
  wn_body :: string
  wn_data :: json_fields

definition notification_rows :: "job_data \<Rightarrow> string list \<Rightarrow> watcher_notification list" where
  "notification_rows inp watchers =
     map (\<lambda>u. \<lparr>wn_userId = u, wn_type = jd_eventType inp,
               wn_title = ''Market Update: '' @ jd_marketId inp,
               wn_body = ''Event ['' @ jd_eventType inp @ ''] occurred on watched market '' @ jd_marketId inp,
               wn_data = (case jd_payload inp of None \<Rightarrow> [] | Some p \<Rightarrow> p)\<rparr>) watchers"

text \<open>
  The batch loop. \<open>beats\<close> says for every heartbeat in turn whether the lease was renewed; \<open>first\<close> is
  \<^verbatim>\<open>i = 0\<close>. The batch size is positive (500 by default); for 0, where the loop of the source would
  not end, the value of the equation is not used.
  The result is what was written and whether the loop ran to its end.
\<close>

function write_batches ::
  "nat \<Rightarrow> bool \<Rightarrow> bool list \<Rightarrow> 'n list \<Rightarrow> 'n list \<Rightarrow> 'n list \<times> bool" where
  "write_batches bs first beats rows written =
     (if rows = [] \<or> bs = 0 then (written, True)
      else if first then write_batches bs False beats (drop bs rows) (written @ take bs rows)
      else case beats of
          [] \<Rightarrow> (written, False)
        | False # _ \<Rightarrow> (written, False)
        | True # beats' \<Rightarrow> write_batches bs False beats' (drop bs rows) (written @ take bs rows))"
  by pat_completeness auto
termination
  by (relation "measure (\<lambda>(bs, first, beats, rows, written). length rows)") auto

declare write_batches.simps [simp del]

record market_watcher =
  mw_marketId :: string
  mw_userId :: string

definition defaultMarketWatcherHandler ::
  "market_watcher table \<Rightarrow> job_data \<Rightarrow> nat \<Rightarrow> bool list \<Rightarrow> watcher_notification list
     \<Rightarrow> watcher_notification list \<times> handler_outcome" where
  "defaultMarketWatcherHandler watcher_rows inp batchSize beats notifications =
    (let watchers = map mw_userId (filter (\<lambda>w. mw_marketId w = jd_marketId inp) watcher_rows)
     in if watchers = [] then (notifications, HResult 0)
        else case write_batches batchSize True beats (notification_rows inp watchers) notifications of
            (written, True) \<Rightarrow> (written, HResult (int (length watchers)))
          | (written, False) \<Rightarrow> (written, HLeaseLost))"

section \<open>Lease sweeper\<close>

definition LIVE_STATES :: "string list" where
  "LIVE_STATES = [''waiting'', ''delayed'', ''active'', ''prioritized'', ''waiting-children'']"

record sweep_result =
  sw_locked :: bool
  sw_recovered :: nat
  sw_enqueued :: nat

definition hasLiveQueueJob :: "(string \<Rightarrow> string option) \<Rightarrow> watcher_job \<Rightarrow> bool" where
  "hasLiveQueueJob queueState job =
     list_ex (\<lambda>i. case queueState i of None \<Rightarrow> False | Some st \<Rightarrow> st \<in> set LIVE_STATES)
       [j_jobKey job, j_jobKey job @ '':retry:'' @ int_to_string (j_attempt job),
        j_jobKey job @ '':recover:'' @ int_to_string (j_attempt job)]"

definition toJobData :: "watcher_job \<Rightarrow> job_data" where
  "toJobData job =
    (let pre = j_marketId job @ '':'' @ j_eventType job @ '':'';
         eventRef = (if prefix pre (j_jobKey job) then drop (length pre) (j_jobKey job) else j_jobKey job)
     in \<lparr>jd_jobId = j_id job, jd_marketId = j_marketId job, jd_eventType = j_eventType job,
         jd_eventRef = eventRef, jd_jobKey = j_jobKey job,
         jd_payload = Some (case j_payload job of None \<Rightarrow> [] | Some p \<Rightarrow> p)\<rparr>)"

definition sweep_add :: "watcher_job \<Rightarrow> queue_add" where
  "sweep_add job = \<lparr>qa_data = toJobData job,
     qa_jobId = j_jobKey job @ '':recover:'' @ int_to_string (j_attempt job), qa_delay = None\<rparr>"

definition sweepOnce ::
  "bool \<Rightarrow> (string \<Rightarrow> string option) \<Rightarrow> int \<Rightarrow> nat \<Rightarrow> time \<Rightarrow> watcher_job table
     \<Rightarrow> watcher_job table \<times> sweep_result \<times> queue_add list" where
  "sweepOnce acquired queueState maxAttempts batchLimit now jobs =
    (if \<not> acquired then (jobs, \<lparr>sw_locked = False, sw_recovered = 0, sw_enqueued = 0\<rparr>, [])
     else case recoverExpiredLeases now maxAttempts jobs of (jobs', expired) \<Rightarrow>
       (let recovered = filter (\<lambda>j. j_status j = JRetryable) expired;
            due = listDueRetryable now batchLimit jobs';
            seen = map j_id recovered;
            candidates = recovered @ filter (\<lambda>j. j_id j \<notin> set seen) due;
            adds = map sweep_add (filter (\<lambda>j. \<not> hasLiveQueueJob queueState j) candidates)
        in (jobs', \<lparr>sw_locked = True, sw_recovered = length expired, sw_enqueued = length adds\<rparr>, adds)))"

section \<open>The table as a lease protocol\<close>

interpretation job_rows: keyed_table j_id lease_guard lease_set
proof
  show "j_id (lease_set a j) = j_id j" for a j by (cases a) auto
qed

text \<open>
  Everything that happens to the jobs table: creation under a fresh identifier, the leased updates
  of any worker, and the sweeper. \<open>T\<close> says which lease tokens claims may use.
\<close>

inductive job_step :: "(string \<Rightarrow> bool) \<Rightarrow> watcher_job table \<Rightarrow> watcher_job table \<Rightarrow> bool" for T where
  job_create: "i \<notin> j_id ` set jobs \<Longrightarrow>
    job_step T jobs (fst (createOrGetJob i dbNow now marketId jobKey eventType payload jobs))"
| job_lease: "(\<And>t now ms. a = ClaimOp t now ms \<Longrightarrow> T t) \<Longrightarrow> job_step T jobs (fst (lease_update a i jobs))"
| job_recover: "job_step T jobs (fst (recoverExpiredLeases now maxAttempts jobs))"

definition job_wf :: "watcher_job \<Rightarrow> bool" where
  "job_wf j \<longleftrightarrow> (j_status j = JRunning \<longleftrightarrow> j_leaseToken j \<noteq> None)
     \<and> (j_leaseUntil j = None \<longleftrightarrow> j_leaseToken j = None)
     \<and> (j_completedAt j \<noteq> None \<longleftrightarrow> j_status j \<in> {JSucceeded, JFailed})
     \<and> j_attempt j \<ge> 0 \<and> (j_status j = JPending \<longleftrightarrow> j_attempt j = 0)
     \<and> (j_startedAt j = None \<longleftrightarrow> j_attempt j = 0)"

definition jobs_ok :: "watcher_job table \<Rightarrow> bool" where
  "jobs_ok jobs \<longleftrightarrow> key_unique j_id jobs \<and> key_unique j_jobKey jobs \<and> (\<forall>j \<in> set jobs. job_wf j)"

lemma job_wf_lease_set: "job_wf j \<Longrightarrow> lease_guard a j \<Longrightarrow> job_wf (lease_set a j)"
  by (cases a) (auto simp: job_wf_def split: option.splits)

lemma job_wf_recover: "job_wf j \<Longrightarrow> expired_lease now j \<Longrightarrow> job_wf (recover_set now m j)"
  by (auto simp: job_wf_def expired_lease_def recover_set_def)

lemma job_wf_new: "job_wf (new_job i d n m k e p)"
  by (simp add: job_wf_def new_job_def)

lemma lease_set_frame [simp]:
  "j_id (lease_set a j) = j_id j" "j_jobKey (lease_set a j) = j_jobKey j"
  "j_marketId (lease_set a j) = j_marketId j" "j_eventType (lease_set a j) = j_eventType j"
  by (cases a; simp)+

lemma recover_set_frame [simp]:
  "j_id (recover_set now m j) = j_id j" "j_jobKey (recover_set now m j) = j_jobKey j"
  "j_attempt (recover_set now m j) = j_attempt j"
  by (simp_all add: recover_set_def)

lemma jobs_ok_step: "job_step T jobs jobs' \<Longrightarrow> jobs_ok jobs \<Longrightarrow> jobs_ok jobs'"
proof (induction rule: job_step.induct)
  case (job_create i jobs dbNow now m k e p)
  then show ?case
    using job_wf_new [of i dbNow now m k e p]
    by (auto simp: createOrGetJob_def Let_def jobs_ok_def key_unique_snoc new_job_def)
next
  case (job_lease a jobs i)
  then show ?case
    using job_wf_lease_set
    by (auto simp: jobs_ok_def lease_update_def guarded_write_def set_update_where)
next
  case (job_recover jobs now m)
  then show ?case
    using job_wf_recover by (auto simp: jobs_ok_def recoverExpiredLeases_def set_update_where)
qed

interpretation job_run: inductive_invariant "\<lambda>jobs. jobs = []" "job_step T" jobs_ok
proof
  show "jobs_ok jobs" if "jobs = []" for jobs
    using that by (simp add: jobs_ok_def key_unique_def)
qed (rule jobs_ok_step)

subsection \<open>The life cycle of a row\<close>

fun job_edge :: "job_status \<Rightarrow> job_status \<Rightarrow> bool" where
  "job_edge JPending s = (s = JRunning)"
| "job_edge JRetryable s = (s = JRunning)"
| "job_edge JRunning s = (s \<noteq> JPending)"
| "job_edge JSucceeded s = False"
| "job_edge JFailed s = False"

lemma job_edge_lease: "lease_guard a j \<Longrightarrow> job_edge (j_status j) (j_status (lease_set a j))"
  by (cases a) auto

lemma job_edge_recover: "expired_lease now j \<Longrightarrow> job_edge (j_status j) (j_status (recover_set now m j))"
  by (auto simp: expired_lease_def recover_set_def)

lemma lease_attempt: "j_attempt (lease_set a j) \<ge> j_attempt j"
  by (cases a) auto

lemma job_step_row:
  assumes "job_step T jobs jobs'" and "row_by j_id jobs i = Some j"
  shows "\<exists>j'. row_by j_id jobs' i = Some j' \<and> j_jobKey j' = j_jobKey j \<and> j_attempt j \<le> j_attempt j'
    \<and> (j' = j \<or> job_edge (j_status j) (j_status j'))"
  using assms
proof (induction rule: job_step.induct)
  case (job_create k jobs)
  then show ?case by (auto simp: createOrGetJob_def Let_def row_by_snoc)
next
  case (job_lease a jobs k)
  then show ?case
    using job_edge_lease [of a j] lease_attempt [of j a]
    by (cases "lease_guard a j") (auto simp: lease_update_def guarded_write_row)
next
  case (job_recover jobs now m)
  then show ?case
    using job_edge_recover [of now j m]
    by (auto simp: recoverExpiredLeases_def row_by_update_where)
qed

text \<open>C18. The life of a watcher job: from the empty table on, in every reachable state identifiers and
  job keys are unique and every row is well formed (a lease token and a lease end exactly while
  running, a completion time exactly when finished, the attempt counter zero exactly while pending);
  and every step keeps each row, never lowers its attempt counter, moves its status only along
  pending or retryable to running, or from running on, and leaves succeeded and failed rows exactly
  as they are.\<close>

theorem watcher_job_lifecycle:
  assumes "reach (\<lambda>jobs. jobs = []) (job_step T) jobs" and "job_step T jobs jobs'"
    and "row_by j_id jobs i = Some j"
  shows "jobs_ok jobs \<and> (\<exists>j'. row_by j_id jobs' i = Some j' \<and> j_jobKey j' = j_jobKey j
    \<and> j_attempt j \<le> j_attempt j' \<and> (j' = j \<or> job_edge (j_status j) (j_status j')))"
  using job_run.reach_inv [OF assms(1)] job_step_row [OF assms(2,3)] by blast

definition demo_job :: watcher_job where
  "demo_job = new_job ''j1'' 0 0 ''m1'' ''m1:resolved:9'' ''resolved'' None"

definition demo_running :: watcher_job where
  "demo_running = lease_set (ClaimOp ''t1'' 5 100) demo_job"

lemma demo_job_reach: "reach (\<lambda>jobs. jobs = []) (job_step (\<lambda>_. True)) [demo_job]"
proof -
  have "job_step (\<lambda>_. True) [] (fst (createOrGetJob ''j1'' 0 0 ''m1'' ''m1:resolved:9'' ''resolved'' None []))"
    by (rule job_create) simp
  then have "job_step (\<lambda>_. True) [] [demo_job]"
    by (simp add: createOrGetJob_def demo_job_def)
  moreover have "reach (\<lambda>jobs. jobs = []) (job_step (\<lambda>_. True)) []" by (rule reach_init) (rule refl)
  ultimately show ?thesis by (rule reach_step [rotated])
qed

lemma demo_claim_step: "job_step (\<lambda>_. True) [demo_job] [demo_running]"
proof -
  have "fst (lease_update (ClaimOp ''t1'' 5 100) ''j1'' [demo_job]) = [demo_running]"
    by (simp add: lease_update_def guarded_write_def demo_job_def demo_running_def new_job_def)
  moreover have "job_step (\<lambda>_. True) [demo_job] (fst (lease_update (ClaimOp ''t1'' 5 100) ''j1'' [demo_job]))"
    by (rule job_lease) simp
  ultimately show ?thesis by simp
qed

theorem watcher_job_lifecycle_witness:
  "jobs_ok [demo_job] \<and> (\<exists>j'. row_by j_id [demo_running] ''j1'' = Some j'
     \<and> (j' = demo_job \<or> job_edge JPending (j_status j')))"
  using watcher_job_lifecycle [OF demo_job_reach demo_claim_step, of "''j1''" demo_job]
  by (simp add: demo_job_def demo_running_def new_job_def)

subsection \<open>Fencing\<close>

lemma lease_update_miss:
  assumes "key_unique j_id jobs" and "\<And>j. row_by j_id jobs i = Some j \<Longrightarrow> \<not> lease_guard a j"
  shows "lease_update a i jobs = (jobs, None)"
  using job_rows.tbl.upd_miss [OF assms] by (simp add: lease_update_def)

definition fenced :: "string \<Rightarrow> string \<Rightarrow> watcher_job table \<Rightarrow> bool" where
  "fenced t i jobs \<longleftrightarrow> (\<forall>j. row_by j_id jobs i = Some j \<longrightarrow> j_leaseToken j \<noteq> Some t)"

lemma fenced_step:
  assumes "job_step (\<lambda>u. u \<noteq> t) jobs jobs'" and "fenced t i jobs"
  shows "fenced t i jobs'"
  using assms
proof (induction rule: job_step.induct)
  case (job_create k jobs d n m key e p)
  then show ?case
    by (auto simp: fenced_def createOrGetJob_def Let_def row_by_snoc new_job_def split: option.splits)
next
  case (job_lease a jobs k)
  have "j_leaseToken (lease_set a j) \<noteq> Some t" if "j_leaseToken j \<noteq> Some t" for j
    using job_lease.hyps that by (cases a) auto
  with job_lease.prems show ?case
    by (auto simp: fenced_def lease_update_def guarded_write_row split: if_splits)
next
  case (job_recover jobs now m)
  then show ?case
    by (auto simp: fenced_def recoverExpiredLeases_def row_by_update_where recover_set_def)
qed

text \<open>C19. A stale worker is fenced off for good: once a job no longer carries a worker's lease token
  (its lease expired and another worker or the sweeper took the job, or it finished), then after any
  further activity in which nobody claims with that token again, the worker's success report, failure
  report and heartbeat are all refused and change nothing.\<close>

theorem stale_worker_fenced:
  assumes "reach (\<lambda>jobs. jobs = []) (job_step (\<lambda>_. True)) jobs" and "fenced t i jobs"
    and "(job_step (\<lambda>u. u \<noteq> t))\<^sup>*\<^sup>* jobs jobs'"
  shows "markSucceeded i t n now jobs' = (jobs', False)
    \<and> markFailed i t err now maxAttempts nextAt jobs' = (jobs', None)
    \<and> renewLease i t now leaseMs jobs' = (jobs', False)"
proof -
  have "jobs_ok jobs" by (rule job_run.reach_inv [OF assms(1)])
  with assms(3) have "jobs_ok jobs'" by (rule job_run.reach_inv_star)
  then have uq: "key_unique j_id jobs'" by (simp add: jobs_ok_def)
  from assms(3) have f: "fenced t i jobs'"
    by (induction rule: rtranclp_induct) (use assms(2) fenced_step in auto)
  have "lease_update a i jobs' = (jobs', None)"
    if "a \<in> {SucceedOp t n now, FailOp t err now maxAttempts nextAt, RenewOp t now leaseMs}" for a
    by (rule lease_update_miss [OF uq]) (use that f in \<open>auto simp: fenced_def\<close>)
  then show ?thesis
    by (simp add: markSucceeded_def markFailed_def renewLease_def)
qed

theorem stale_worker_fenced_witness:
  "markSucceeded ''j1'' ''t0'' 3 7 [demo_running] = ([demo_running], False)
     \<and> renewLease ''j1'' ''t0'' 7 100 [demo_running] = ([demo_running], False)"
proof -
  have r: "reach (\<lambda>jobs. jobs = []) (job_step (\<lambda>_. True)) [demo_running]"
    by (rule reach_step [OF demo_job_reach demo_claim_step])
  have f: "fenced ''t0'' ''j1'' [demo_running]"
    by (simp add: fenced_def demo_running_def demo_job_def new_job_def)
  show ?thesis using stale_worker_fenced [OF r f rtranclp.rtrancl_refl] by blast
qed

text \<open>One worker at a time: while a job is running under a lease that has not ended, nobody can
  claim it (the claim returns nothing and changes nothing); and whoever does claim a job gets it
  running under its own token with the lease ending the configured time later and the attempt
  counter raised by one, after which only that token is accepted.\<close>

lemma lease_exclusive:
  assumes "jobs_ok jobs"
  shows "(\<forall>j until. row_by j_id jobs i = Some j \<longrightarrow> j_status j = JRunning \<longrightarrow> j_leaseUntil j = Some until \<longrightarrow>
      now \<le> until \<longrightarrow> claimJob i t now leaseMs jobs = (jobs, None))
    \<and> (\<forall>jobs' j'. claimJob i t now leaseMs jobs = (jobs', Some j') \<longrightarrow>
        row_by j_id jobs' i = Some j' \<and> j_status j' = JRunning \<and> j_leaseToken j' = Some t
        \<and> j_leaseUntil j' = Some (now + leaseMs)
        \<and> (\<exists>j. row_by j_id jobs i = Some j \<and> j_attempt j' = j_attempt j + 1)
        \<and> (\<forall>u n now'. u \<noteq> t \<longrightarrow> markSucceeded i u n now' jobs' = (jobs', False)))"
proof -
  have uq: "key_unique j_id jobs" using assms by (simp add: jobs_ok_def)
  have "claimJob i t now leaseMs jobs = (jobs, None)"
    if "row_by j_id jobs i = Some j" "j_status j = JRunning" "j_leaseUntil j = Some until" "now \<le> until" for j until
    unfolding claimJob_def by (rule lease_update_miss [OF uq]) (use that in auto)
  moreover have "row_by j_id jobs' i = Some j' \<and> j_status j' = JRunning \<and> j_leaseToken j' = Some t
        \<and> j_leaseUntil j' = Some (now + leaseMs)
        \<and> (\<exists>j. row_by j_id jobs i = Some j \<and> j_attempt j' = j_attempt j + 1)
        \<and> (\<forall>u n now'. u \<noteq> t \<longrightarrow> markSucceeded i u n now' jobs' = (jobs', False))"
    if c: "claimJob i t now leaseMs jobs = (jobs', Some j')" for jobs' j'
  proof -
    from c have gw: "guarded_write j_id (lease_guard (ClaimOp t now leaseMs)) (lease_set (ClaimOp t now leaseMs)) i jobs
        = (jobs', Some j')" by (simp add: claimJob_def lease_update_def)
    obtain j where j: "row_by j_id jobs i = Some j" "j' = lease_set (ClaimOp t now leaseMs) j"
      "row_by j_id jobs' i = Some j'"
      using job_rows.tbl.upd_SomeD [OF uq gw] by blast
    have "markSucceeded i u n now' jobs' = (jobs', False)" if "u \<noteq> t" for u n now'
    proof -
      have "\<not> lease_guard (SucceedOp u n now') j'" using j that by simp
      from job_rows.tbl.upd_excludes [OF uq gw this] show ?thesis
        by (simp add: markSucceeded_def lease_update_def)
    qed
    with j show ?thesis by simp
  qed
  ultimately show ?thesis by blast
qed

lemma lease_exclusive_witness:
  "claimJob ''j1'' ''t2'' 50 100 [demo_running] = ([demo_running], None)"
proof -
  have "jobs_ok [demo_running]"
    by (rule job_run.reach_inv [OF reach_step [OF demo_job_reach demo_claim_step]])
  from lease_exclusive [OF this, of "''j1''" 50 "''t2''" 100] show ?thesis
    by (simp add: demo_running_def demo_job_def new_job_def)
qed

section \<open>Coordinator, handler and sweeper behaviour\<close>

lemma retryDelayMs_Some:
  "attempt \<ge> 1 \<Longrightarrow> baseMs \<ge> 0 \<Longrightarrow>
     \<exists>d. retryDelayMs attempt baseMs = Some d \<and> 0 \<le> d \<and> d \<le> MAX_RETRY_DELAY_MS"
  by (auto simp: retryDelayMs_def MAX_RETRY_DELAY_MS_def)

lemma lease_update_hit:
  assumes "key_unique j_id jobs" and "row_by j_id jobs i = Some j" and "lease_guard a j"
  shows "\<exists>jobs'. lease_update a i jobs = (jobs', Some (lease_set a j))
    \<and> row_by j_id jobs' i = Some (lease_set a j)"
proof -
  have "snd (lease_update a i jobs) = Some (lease_set a j)"
    unfolding lease_update_def by (rule job_rows.tbl.upd_hit [OF assms])
  moreover have "row_by j_id (fst (lease_update a i jobs)) i = Some (lease_set a j)"
    using assms by (simp add: lease_update_def guarded_write_row)
  ultimately show ?thesis by (intro exI [of _ "fst (lease_update a i jobs)"]) (simp add: prod_eq_iff)
qed

text \<open>A failed attempt is retried within bounds: when the handler of the worker that holds the
  lease throws, the job becomes failed if this was its last allowed attempt, with nothing queued;
  otherwise it becomes retryable, due after a delay of at most one hour, and exactly one retry
  message is queued for it, delayed by at most an hour.\<close>

lemma process_error_outcome:
  assumes "jobs_ok jobs" and "row_by j_id jobs (j_id claimed) = Some j" and "j_leaseToken j = Some t"
    and "j_attempt claimed = j_attempt j" and "co_retryBaseMs co \<ge> 0" and "t1 \<le> t3"
  shows "\<exists>jobs' res adds j'. process_finish co job t claimed (HThrew msg) t1 t2 t3 jobs = (jobs', res, adds)
    \<and> row_by j_id jobs' (j_id claimed) = Some j'
    \<and> (if j_attempt j \<ge> co_maxAttempts co then res = PFailed \<and> adds = [] \<and> j_status j' = JFailed
       else res = PRetryable \<and> j_status j' = JRetryable
         \<and> (\<exists>due. j_nextAttemptAt j' = Some due \<and> t1 \<le> due \<and> due \<le> t1 + MAX_RETRY_DELAY_MS)
         \<and> (\<exists>add d. adds = [add] \<and> qa_data add = job \<and> qa_delay add = Some d \<and> 0 \<le> d \<and> d \<le> MAX_RETRY_DELAY_MS))"
proof -
  have wf: "job_wf j" and uq: "key_unique j_id jobs"
    using assms(1,2) row_by_SomeD [OF assms(2)] by (auto simp: jobs_ok_def)
  have run: "j_status j = JRunning" using wf assms(3) by (simp add: job_wf_def)
  then have "j_attempt j \<ge> 1" using wf by (auto simp: job_wf_def)
  then obtain d where d: "retryDelayMs (j_attempt claimed) (co_retryBaseMs co) = Some d"
    "0 \<le> d" "d \<le> MAX_RETRY_DELAY_MS"
    using retryDelayMs_Some assms(4,5) by metis
  let ?a = "FailOp t msg t2 (co_maxAttempts co) (t1 + d)"
  obtain jobs' where u: "lease_update ?a (j_id claimed) jobs = (jobs', Some (lease_set ?a j))"
    "row_by j_id jobs' (j_id claimed) = Some (lease_set ?a j)"
    using lease_update_hit [OF uq assms(2), of ?a] assms(3) run by auto
  show ?thesis
    using u d assms(6) MAX_RETRY_DELAY_MS_def
    by (auto simp: process_finish_def process_error_def markFailed_def)
qed

lemma process_error_outcome_witness:
  "\<exists>jobs' adds j'. process_finish \<lparr>co_leaseMs = 100, co_maxAttempts = 3, co_retryBaseMs = 10\<rparr>
     (toJobData demo_job) ''t1'' demo_running (HThrew ''boom'') 20 21 22 [demo_running] = (jobs', PRetryable, adds)
     \<and> row_by j_id jobs' ''j1'' = Some j' \<and> j_status j' = JRetryable"
proof -
  have "jobs_ok [demo_running]"
    by (rule job_run.reach_inv [OF reach_step [OF demo_job_reach demo_claim_step]])
  from process_error_outcome [OF this, of demo_running demo_running "''t1''"
      "\<lparr>co_leaseMs = 100, co_maxAttempts = 3, co_retryBaseMs = 10\<rparr>" 20 22 "toJobData demo_job" "''boom''" 21]
  show ?thesis by (auto simp: demo_running_def demo_job_def new_job_def)
qed

text \<open>The sweeper leaves no expired lease behind and loses no job: after a sweep that got the lock
  no running job has an expired lease; every job whose lease had expired is failed if its attempts are
  exhausted and otherwise retryable and due at once, and then a live queue message exists for it or the
  sweep queued one.\<close>

lemma sweepOnce_recovers:
  assumes "jobs_ok jobs" and "sweepOnce True queueState maxAttempts limit now jobs = (jobs', res, adds)"
  shows "(\<forall>j \<in> set jobs'. \<not> expired_lease now j)
    \<and> sw_recovered res = length (filter (expired_lease now) jobs)
    \<and> (\<forall>j \<in> set jobs. expired_lease now j \<longrightarrow>
        (\<exists>j'. row_by j_id jobs' (j_id j) = Some j' \<and>
          (if j_attempt j \<ge> maxAttempts then j_status j' = JFailed
           else j_status j' = JRetryable \<and> j_nextAttemptAt j' = Some now
             \<and> (hasLiveQueueJob queueState j' \<or> sweep_add j' \<in> set adds))))"
proof -
  let ?f = "recover_set now maxAttempts"
  have jobs': "jobs' = update_where (expired_lease now) ?f jobs"
    and rec: "sw_recovered res = length (filter (expired_lease now) jobs)"
    using assms(2) by (auto simp: sweepOnce_def recoverExpiredLeases_def returning_def Let_def)
  have adds: "hasLiveQueueJob queueState (?f j) \<or> sweep_add (?f j) \<in> set adds"
    if "j \<in> set jobs" "expired_lease now j" "\<not> maxAttempts \<le> j_attempt j" for j
  proof -
    have "j_status (?f j) = JRetryable" using that(3) by (simp add: recover_set_def)
    with assms(2) that show ?thesis
      by (cases "hasLiveQueueJob queueState (?f j)")
         (auto simp: sweepOnce_def recoverExpiredLeases_def returning_def Let_def)
  qed
  have "row_by j_id jobs' (j_id j) = Some (?f j)" if "j \<in> set jobs" "expired_lease now j" for j
    using that assms(1) by (simp add: jobs' row_by_update_where row_by_unique jobs_ok_def)
  moreover have "\<not> expired_lease now j" if "j \<in> set jobs'" for j
    using that by (auto simp: jobs' set_update_where expired_lease_def recover_set_def)
  moreover have "j_status (?f j) = (if j_attempt j \<ge> maxAttempts then JFailed else JRetryable)"
    "j_nextAttemptAt (?f j) = Some now" for j
    by (simp_all add: recover_set_def)
  ultimately show ?thesis
    using rec adds by auto
qed

lemma sweepOnce_recovers_witness:
  "\<exists>jobs' res adds. sweepOnce True (\<lambda>_. None) 3 100 500 [demo_running] = (jobs', res, adds)
     \<and> sw_recovered res = 1 \<and> (\<forall>j \<in> set jobs'. \<not> expired_lease 500 j)"
proof -
  have ok: "jobs_ok [demo_running]"
    by (rule job_run.reach_inv [OF reach_step [OF demo_job_reach demo_claim_step]])
  obtain jobs' res adds where s: "sweepOnce True (\<lambda>_. None) 3 100 500 [demo_running] = (jobs', res, adds)"
    by (metis prod_cases3)
  have "expired_lease 500 demo_running"
    by (simp add: expired_lease_def demo_running_def demo_job_def new_job_def)
  with sweepOnce_recovers [OF ok s] s show ?thesis by simp
qed

text \<open>The sweeper rebuilds the message of a job from its row: for a job created by enqueueing an
  event, the data the sweeper queues is the data the enqueue queued, event reference included.\<close>

lemma toJobData_roundtrip:
  assumes "buildWatcherJobKey marketId eventType eventRef = Some key"
  shows "toJobData (new_job i dbNow now marketId key eventType (Some payload)) =
    \<lparr>jd_jobId = i, jd_marketId = marketId, jd_eventType = eventType, jd_eventRef = eventRef,
     jd_jobKey = key, jd_payload = Some payload\<rparr>"
  using assms by (auto simp: buildWatcherJobKey_def toJobData_def new_job_def Let_def split: if_splits)

lemma toJobData_roundtrip_witness:
  "jd_eventRef (toJobData (new_job ''j1'' 0 0 ''m1'' ''m1:resolved:9'' ''resolved'' (Some []))) = ''9''"
  using toJobData_roundtrip [of "''m1''" "''resolved''" "''9''" "''m1:resolved:9''" "''j1''" 0 0 "[]"]
  by (simp add: buildWatcherJobKey_def)

subsection \<open>Batches of notifications\<close>

lemma write_batches_all:
  assumes "0 < bs" and "length rows \<le> bs * (length beats + (if first then 1 else 0))" and "\<forall>b \<in> set beats. b"
  shows "write_batches bs first beats rows written = (written @ rows, True)"
  using assms
proof (induction bs first beats rows written rule: write_batches.induct)
  case (1 bs first beats rows written)
  show ?case
  proof (cases "rows = []")
    case True
    then show ?thesis by (simp add: write_batches.simps)
  next
    case False
    note ne = False
    show ?thesis
    proof (cases first)
      case True
      have "write_batches bs False beats (drop bs rows) (written @ take bs rows)
          = ((written @ take bs rows) @ drop bs rows, True)"
        by (rule "1.IH"(1)) (use ne True "1.prems" in auto)
      with True ne "1.prems"(1) show ?thesis by (simp add: write_batches.simps [of bs True])
    next
      case False
      have "\<exists>beats'. beats = True # beats'"
        using "1.prems"(2,3) ne False by (cases beats) auto
      then obtain beats' where beats: "beats = True # beats'" by blast
      have "write_batches bs False beats' (drop bs rows) (written @ take bs rows)
          = ((written @ take bs rows) @ drop bs rows, True)"
        by (rule "1.IH"(2) [OF _ _ beats]) (use ne False "1.prems" beats in auto)
      with False ne beats "1.prems"(1) show ?thesis by (simp add: write_batches.simps [of bs False])
    qed
  qed
qed

text \<open>Watchers can be notified twice, although the job table is documented to rule that out: when
  a worker has written the first batch and then loses its lease, the rows stay written, and the next
  worker that takes the job over writes all of them again.\<close>

lemma failover_duplicates_notifications:
  assumes "0 < bs" and "rows = notification_rows inp (map mw_userId (filter (\<lambda>w. mw_marketId w = jd_marketId inp) watchers))"
    and "bs < length rows" and "\<forall>b \<in> set beats. b" and "length rows \<le> bs * (length beats + 1)"
  shows "\<exists>written. defaultMarketWatcherHandler watchers inp bs [False] old = (written, HLeaseLost)
    \<and> written = old @ take bs rows
    \<and> defaultMarketWatcherHandler watchers inp bs beats written =
        (old @ take bs rows @ rows, HResult (int (length rows)))"
proof -
  let ?ws = "map mw_userId (filter (\<lambda>w. mw_marketId w = jd_marketId inp) watchers)"
  have len: "length rows = length ?ws" by (simp add: assms(2) notification_rows_def)
  with assms(3) have ne: "?ws \<noteq> []" "rows \<noteq> []" by auto
  have "write_batches bs True [False] rows old = (old @ take bs rows, False)"
    using assms(1,3) ne by (simp add: write_batches.simps [of bs])
  moreover have "write_batches bs True beats rows (old @ take bs rows) = ((old @ take bs rows) @ rows, True)"
    using assms by (intro write_batches_all) auto
  ultimately show ?thesis
    using ne len unfolding defaultMarketWatcherHandler_def Let_def assms(2) by simp
qed

lemma failover_duplicates_notifications_witness:
  "\<exists>written. defaultMarketWatcherHandler [\<lparr>mw_marketId = ''m1'', mw_userId = ''u1''\<rparr>,
       \<lparr>mw_marketId = ''m1'', mw_userId = ''u2''\<rparr>] (toJobData demo_job) 1 [False] [] = (written, HLeaseLost)
     \<and> map wn_userId (fst (defaultMarketWatcherHandler [\<lparr>mw_marketId = ''m1'', mw_userId = ''u1''\<rparr>,
       \<lparr>mw_marketId = ''m1'', mw_userId = ''u2''\<rparr>] (toJobData demo_job) 1 [True] written)) = [''u1'', ''u1'', ''u2'']"
proof -
  let ?ws = "[\<lparr>mw_marketId = ''m1'', mw_userId = ''u1''\<rparr>, \<lparr>mw_marketId = ''m1'', mw_userId = ''u2''\<rparr>]"
  have m: "jd_marketId (toJobData demo_job) = ''m1''" by (simp add: toJobData_def demo_job_def new_job_def)
  have len: "length (notification_rows inp us) = length us" "map wn_userId (notification_rows inp us) = us" for inp us
    by (simp_all add: notification_rows_def comp_def)
  from failover_duplicates_notifications [of 1 _ "toJobData demo_job" ?ws "[True]" "[]", OF _ refl]
  obtain written where "defaultMarketWatcherHandler ?ws (toJobData demo_job) 1 [False] [] = (written, HLeaseLost)"
    "fst (defaultMarketWatcherHandler ?ws (toJobData demo_job) 1 [True] written) =
       take 1 (notification_rows (toJobData demo_job) [''u1'', ''u2'']) @ notification_rows (toJobData demo_job) [''u1'', ''u2'']"
    by (auto simp: m len)
  then show ?thesis by (auto simp: len take_map [symmetric])
qed

end
