(* ===== verification/Cursor.thy ===== *)
theory Cursor
  imports Complex_Main Js_Numerals "HOL-Library.List_Lexorder" "HOL-Library.Char_ord"
begin

text \<open>
  Keyset pagination, \<^verbatim>\<open>src/utils/cursor.ts\<close>. Text is its UTF-8 byte string (a HOL \<^verbatim>\<open>char\<close> is a byte);
  \<open>utf8\<close> stands for \<^verbatim>\<open>Buffer.toString("utf8")\<close>, which leaves valid UTF-8 as it is and replaces invalid
  sequences. Base64url is written out as Node implements it: the encoder is unpadded and the decoder
  accepts both alphabets and skips every other character. Comparison of keys is lexicographic on code
  points, which for the ISO timestamps and UUIDs used as keys is JavaScript's order.
  \<open>paginate_walk\<close>: following the cursors visits every row exactly once, in order.
\<close>

section \<open>Base64url\<close>

definition b64_char :: "nat \<Rightarrow> char" where
  "b64_char n = (if n < 26 then char_of (65 + n) else if n < 52 then char_of (71 + n)
     else if n < 62 then char_of (n - 4) else if n = 62 then CHR ''-'' else CHR ''_'')"

definition b64_value :: "char \<Rightarrow> nat option" where
  "b64_value c = (let n = of_char c :: nat in
     if 65 \<le> n \<and> n \<le> 90 then Some (n - 65)
     else if 97 \<le> n \<and> n \<le> 122 then Some (n - 71)
     else if 48 \<le> n \<and> n \<le> 57 then Some (n + 4)
     else if c = CHR ''-'' \<or> c = CHR ''+'' then Some 62
     else if c = CHR ''_'' \<or> c = CHR ''/'' then Some 63
     else None)"

fun to_sextets :: "nat list \<Rightarrow> nat list" where
  "to_sextets [] = []"
| "to_sextets [a] = [a div 4, (a mod 4) * 16]"
| "to_sextets [a, b] = [a div 4, (a mod 4) * 16 + b div 16, (b mod 16) * 4]"
| "to_sextets (a # b # c # rest) =
     a div 4 # ((a mod 4) * 16 + b div 16) # ((b mod 16) * 4 + c div 64) # (c mod 64) # to_sextets rest"

fun of_sextets :: "nat list \<Rightarrow> nat list" where
  "of_sextets [] = []"
| "of_sextets [w] = []"
| "of_sextets [w, x] = [w * 4 + x div 16]"
| "of_sextets [w, x, y] = [w * 4 + x div 16, (x mod 16) * 16 + y div 4]"
| "of_sextets (w # x # y # z # rest) =
     (w * 4 + x div 16) # ((x mod 16) * 16 + y div 4) # ((y mod 4) * 64 + z) # of_sextets rest"

definition base64url_encode :: "string \<Rightarrow> string" where
  "base64url_encode s = map b64_char (to_sextets (map of_char s))"

definition base64url_decode :: "string \<Rightarrow> string" where
  "base64url_decode s = map char_of (of_sextets (List.map_filter b64_value s))"

lemma b64_value_char: "n < 64 \<Longrightarrow> b64_value (b64_char n) = Some n"
  by (auto simp: b64_char_def b64_value_def Let_def)

lemma to_sextets_bound: "(\<forall>x \<in> set bs. x < 256) \<Longrightarrow> \<forall>x \<in> set (to_sextets bs). x < 64"
  by (induction bs rule: to_sextets.induct) auto

lemma of_to_sextets: "(\<forall>x \<in> set bs. x < 256) \<Longrightarrow> of_sextets (to_sextets bs) = bs"
proof (induction bs rule: to_sextets.induct)
  case (4 a b c rest)
  have "b < 256" "c < 256" using 4 by simp_all
  then have "b div 16 < 16" "c div 64 < 4" by (simp_all add: less_mult_imp_div_less)
  then have "b div 16 div 16 = 0" "b div 16 mod 16 = b div 16" "c div 64 div 4 = 0" "c div 64 mod 4 = c div 64"
    by simp_all
  then have "(a div 4) * 4 + ((a mod 4) * 16 + b div 16) div 16 = a"
    "(((a mod 4) * 16 + b div 16) mod 16) * 16 + ((b mod 16) * 4 + c div 64) div 4 = b"
    "((b mod 16) * 4 + c div 64) mod 4 * 64 + c mod 64 = c"
    by (simp_all add: div_mult_mod_eq)
  then show ?case using 4 by simp
next
  case (3 a b)
  have "b div 16 < 16" using 3 by (simp add: less_mult_imp_div_less)
  then show ?case by simp
qed auto

lemma map_filter_b64: "(\<forall>x \<in> set xs. x < 64) \<Longrightarrow> List.map_filter b64_value (map b64_char xs) = xs"
  by (induction xs) (auto simp: b64_value_char)

lemma base64url_roundtrip [simp]: "base64url_decode (base64url_encode s) = s"
proof -
  have bytes: "\<forall>x \<in> set (map of_char s). x < (256 :: nat)" by auto
  have "List.map_filter b64_value (base64url_encode s) = to_sextets (map of_char s)"
    unfolding base64url_encode_def by (rule map_filter_b64) (rule to_sextets_bound [OF bytes])
  then show ?thesis by (simp add: base64url_decode_def of_to_sextets [OF bytes] comp_def)
qed

lemma base64url_encode_Nil_iff: "base64url_encode s = [] \<longleftrightarrow> s = []"
  by (metis base64url_roundtrip base64url_encode_def list.map_disc_iff map_is_Nil_conv to_sextets.simps(1))

section \<open>Cursors\<close>

record cursor_key =
  ck_sortValue :: string
  ck_id :: string

record 'r page =
  pg_data :: "'r list"
  pg_nextCursor :: "string option"

definition DEFAULT_PAGE_SIZE :: nat where "DEFAULT_PAGE_SIZE = 20"
definition MAX_PAGE_SIZE :: nat where "MAX_PAGE_SIZE = 100"
definition CURSOR_VERSION :: string where "CURSOR_VERSION = ''v1''"

text \<open>What a request can pass as limit: text, a number (\<open>None\<close>: not finite), anything else.\<close>

datatype raw_limit = RawText string | RawNumber "rat option" | RawOther

definition clampLimit :: "raw_limit \<Rightarrow> nat" where
  "clampLimit raw =
    (let n = (case raw of
           RawText s \<Rightarrow> (case parseInt10 s of None \<Rightarrow> None
                        | Some i \<Rightarrow> if js_finite i then Some (of_int i) else None)
         | RawNumber x \<Rightarrow> x
         | RawOther \<Rightarrow> None)
     in case n of
          None \<Rightarrow> DEFAULT_PAGE_SIZE
        | Some x \<Rightarrow> if x \<le> 0 then DEFAULT_PAGE_SIZE else min (nat \<lfloor>x :: rat\<rfloor>) MAX_PAGE_SIZE)"

definition encodeCursor :: "cursor_key \<Rightarrow> string" where
  "encodeCursor key = base64url_encode (CURSOR_VERSION @ ''|'' @ nat_to_string (length (ck_sortValue key))
     @ ''|'' @ ck_sortValue key @ ck_id key)"

text \<open>\<^verbatim>\<open>s.indexOf("|")\<close> with the two slices around it.\<close>

definition split_bar :: "string \<Rightarrow> (string \<times> string) option" where
  "split_bar s = (case dropWhile (\<lambda>c. c \<noteq> CHR ''|'') s of
     [] \<Rightarrow> None | _ # rest \<Rightarrow> Some (takeWhile (\<lambda>c. c \<noteq> CHR ''|'') s, rest))"

definition decodeCursor :: "(string \<Rightarrow> string) \<Rightarrow> string option \<Rightarrow> cursor_key option" where
  "decodeCursor utf8 raw = (case raw of
     None \<Rightarrow> None
   | Some text \<Rightarrow>
     if text = [] then None
     else (case split_bar (utf8 (base64url_decode text)) of
       None \<Rightarrow> None
     | Some (version, rest) \<Rightarrow>
       if version \<noteq> CURSOR_VERSION then None
       else (case split_bar rest of
         None \<Rightarrow> None
       | Some (svLenStr, payload) \<Rightarrow>
         (case parseInt10 svLenStr of
            None \<Rightarrow> None
          | Some svLen \<Rightarrow>
            if \<not> js_finite svLen \<or> svLen < 0 then None
            else if int (length payload) < svLen then None
            else (let sortValue = utf8 (take (nat svLen) payload);
                      i = utf8 (drop (nat svLen) payload)
                  in if sortValue = [] \<or> i = [] then None
                     else Some \<lparr>ck_sortValue = sortValue, ck_id = i\<rparr>)))))"

definition isAfter :: "cursor_key \<Rightarrow> cursor_key \<Rightarrow> bool" where
  "isAfter cursor row =
    (if ck_sortValue row \<noteq> ck_sortValue cursor then ck_sortValue row < ck_sortValue cursor
     else ck_id row < ck_id cursor)"

text \<open>\<^verbatim>\<open>findIndex\<close>: the number of rows before the first match, \<open>None\<close> for -1.\<close>

definition findIndex :: "('r \<Rightarrow> bool) \<Rightarrow> 'r list \<Rightarrow> nat option" where
  "findIndex P rows = (if list_ex P rows then Some (length (takeWhile (\<lambda>r. \<not> P r) rows)) else None)"

definition paginate ::
  "(string \<Rightarrow> string) \<Rightarrow> 'r list \<Rightarrow> ('r \<Rightarrow> cursor_key) \<Rightarrow> string option \<Rightarrow> raw_limit \<Rightarrow> 'r page" where
  "paginate utf8 rows toKey rawCursor rawLimit =
    (let limit = clampLimit rawLimit;
         start = (case decodeCursor utf8 rawCursor of
             None \<Rightarrow> Some 0
           | Some cursor \<Rightarrow> findIndex (\<lambda>r. isAfter cursor (toKey r)) rows);
         from = (case start of None \<Rightarrow> length rows | Some i \<Rightarrow> i);
         slice = take limit (drop from rows);
         hasMore = from + limit < length rows
     in \<lparr>pg_data = slice,
         pg_nextCursor = (if hasMore \<and> slice \<noteq> [] then Some (encodeCursor (toKey (last slice))) else None)\<rparr>)"

section \<open>Properties\<close>

definition cursor_text :: "cursor_key \<Rightarrow> string" where
  "cursor_text key = CURSOR_VERSION @ ''|'' @ nat_to_string (length (ck_sortValue key)) @ ''|''
     @ ck_sortValue key @ ck_id key"

text \<open>A key a row can have: both parts are non-empty valid UTF-8, of a length a string can have.\<close>

definition key_ok :: "(string \<Rightarrow> string) \<Rightarrow> cursor_key \<Rightarrow> bool" where
  "key_ok utf8 key \<longleftrightarrow> ck_sortValue key \<noteq> [] \<and> ck_id key \<noteq> []
     \<and> utf8 (ck_sortValue key) = ck_sortValue key \<and> utf8 (ck_id key) = ck_id key
     \<and> utf8 (cursor_text key) = cursor_text key \<and> js_finite (int (length (ck_sortValue key)))"

lemma split_bar_append: "CHR ''|'' \<notin> set pre \<Longrightarrow> split_bar (pre @ CHR ''|'' # rest) = Some (pre, rest)"
proof -
  assume "CHR ''|'' \<notin> set pre"
  then have "takeWhile (\<lambda>c. c \<noteq> CHR ''|'') (pre @ CHR ''|'' # rest) = pre"
    "dropWhile (\<lambda>c. c \<noteq> CHR ''|'') (pre @ CHR ''|'' # rest) = CHR ''|'' # rest"
    by (induction pre) auto
  then show ?thesis by (simp add: split_bar_def)
qed

lemma no_bar_digits: "CHR ''|'' \<notin> set (nat_to_string n)"
  using nat_to_string_digits by (fastforce simp: is_digit_def Let_def)

lemma parseInt10_nat [simp]: "parseInt10 (nat_to_string n) = Some (int n)"
  using parseInt10_print [of "[]" n] by simp

lemma decode_encode:
  assumes "key_ok utf8 key"
  shows "decodeCursor utf8 (Some (encodeCursor key)) = Some key"
proof -
  let ?sv = "ck_sortValue key" and ?id = "ck_id key"
  have enc: "encodeCursor key = base64url_encode (cursor_text key)"
    by (simp add: encodeCursor_def cursor_text_def)
  have "encodeCursor key \<noteq> []" by (simp add: enc base64url_encode_Nil_iff cursor_text_def)
  moreover have "split_bar (cursor_text key) = Some (CURSOR_VERSION, nat_to_string (length ?sv) @ CHR ''|'' # ?sv @ ?id)"
    unfolding cursor_text_def using split_bar_append [of CURSOR_VERSION] by (simp add: CURSOR_VERSION_def)
  moreover have "split_bar (nat_to_string (length ?sv) @ CHR ''|'' # ?sv @ ?id) = Some (nat_to_string (length ?sv), ?sv @ ?id)"
    by (rule split_bar_append) (rule no_bar_digits)
  ultimately show ?thesis
    using assms by (simp add: decodeCursor_def enc key_ok_def Let_def)
qed

text \<open>Cursors round-trip: decoding an encoded cursor gives back its key, whatever characters
  (separators included) the sort value and the identifier contain.\<close>

lemma cursor_roundtrip:
  assumes "key_ok utf8 key"
  shows "decodeCursor utf8 (Some (encodeCursor key)) = Some key"
  using assms by (rule decode_encode)

lemma demo_key_ok: "key_ok (\<lambda>s. s) \<lparr>ck_sortValue = ''2025|01'', ck_id = ''a|b''\<rparr>"
  by (simp add: key_ok_def js_finite_def)

lemma cursor_roundtrip_witness:
  "decodeCursor (\<lambda>s. s) (Some (encodeCursor \<lparr>ck_sortValue = ''2025|01'', ck_id = ''a|b''\<rparr>)) =
     Some \<lparr>ck_sortValue = ''2025|01'', ck_id = ''a|b''\<rparr>"
  by (rule cursor_roundtrip) (rule demo_key_ok)

text \<open>A client that follows the cursors, \<open>n\<close> requests at most.\<close>

fun walk_pages ::
  "nat \<Rightarrow> (string \<Rightarrow> string) \<Rightarrow> 'r list \<Rightarrow> ('r \<Rightarrow> cursor_key) \<Rightarrow> string option \<Rightarrow> raw_limit \<Rightarrow> 'r list list" where
  "walk_pages 0 utf8 rows toKey cur rawLimit = []"
| "walk_pages (Suc n) utf8 rows toKey cur rawLimit =
    (let p = paginate utf8 rows toKey cur rawLimit
     in pg_data p # (case pg_nextCursor p of None \<Rightarrow> [] | Some c \<Rightarrow> walk_pages n utf8 rows toKey (Some c) rawLimit))"

definition sorted_desc :: "('r \<Rightarrow> cursor_key) \<Rightarrow> 'r list \<Rightarrow> bool" where
  "sorted_desc toKey rows \<longleftrightarrow> sorted_wrt (\<lambda>a b. isAfter (toKey a) (toKey b)) rows"

lemma isAfter_irrefl: "\<not> isAfter k k"
  by (simp add: isAfter_def)

lemma isAfter_asym: "isAfter a b \<Longrightarrow> \<not> isAfter b a"
  by (auto simp: isAfter_def split: if_splits)

lemma findIndex_sorted:
  assumes "sorted_desc toKey rows" and "i < length rows"
  shows "findIndex (\<lambda>r. isAfter (toKey (rows ! i)) (toKey r)) rows =
    (if Suc i < length rows then Some (Suc i) else None)"
proof -
  let ?P = "\<lambda>r. isAfter (toKey (rows ! i)) (toKey r)"
  have before: "\<not> ?P (rows ! j)" if "j \<le> i" for j
  proof (cases "j = i")
    case False
    with that assms have "isAfter (toKey (rows ! j)) (toKey (rows ! i))"
      by (simp add: sorted_desc_def sorted_wrt_iff_nth_less)
    then show ?thesis by (rule isAfter_asym)
  qed (simp add: isAfter_irrefl)
  have after: "?P (rows ! j)" if "i < j" "j < length rows" for j
    using that assms by (simp add: sorted_desc_def sorted_wrt_iff_nth_less)
  show ?thesis
  proof (cases "Suc i < length rows")
    case True
    have "list_ex ?P rows" using after [of "Suc i"] True nth_mem [OF True] by (auto simp: list_ex_iff)
    moreover have "length (takeWhile (\<lambda>r. \<not> ?P r) rows) = Suc i"
    proof -
      have "takeWhile (\<lambda>r. \<not> ?P r) rows = take (Suc i) rows"
        by (rule takeWhile_eq_take_P_nth) (use before after True in auto)
      then show ?thesis using True by simp
    qed
    ultimately show ?thesis using True by (simp add: findIndex_def)
  next
    case False
    then have "\<not> list_ex ?P rows" using before assms(2) by (auto simp: list_ex_iff in_set_conv_nth)
    with False show ?thesis by (simp add: findIndex_def)
  qed
qed

lemma paginate_from:
  assumes "sorted_desc toKey rows" and "\<forall>r \<in> set rows. key_ok utf8 (toKey r)"
    and "k \<le> length rows" and "cur = (if k = 0 then None else Some (encodeCursor (toKey (rows ! (k - 1)))))"
  shows "paginate utf8 rows toKey cur rawLimit =
    \<lparr>pg_data = take (clampLimit rawLimit) (drop k rows),
     pg_nextCursor = (if k + clampLimit rawLimit < length rows \<and> 0 < clampLimit rawLimit
       then Some (encodeCursor (toKey (rows ! (k + clampLimit rawLimit - 1)))) else None)\<rparr>"
proof -
  let ?l = "clampLimit rawLimit"
  have start: "(case (case decodeCursor utf8 cur of None \<Rightarrow> Some 0
      | Some cursor \<Rightarrow> findIndex (\<lambda>r. isAfter cursor (toKey r)) rows) of None \<Rightarrow> length rows | Some i \<Rightarrow> i) = k"
  proof (cases "k = 0")
    case True
    then show ?thesis using assms(4) by (simp add: decodeCursor_def)
  next
    case False
    with assms(3) have k: "k - 1 < length rows" "Suc (k - 1) = k" by simp_all
    then have "decodeCursor utf8 cur = Some (toKey (rows ! (k - 1)))"
      using assms(2,4) False by (simp add: decode_encode)
    then show ?thesis using findIndex_sorted [OF assms(1) k(1)] k assms(3) by auto
  qed
  have "last (take ?l (drop k rows)) = rows ! (k + ?l - 1)" if "k + ?l < length rows" "0 < ?l"
    using that by (simp add: last_conv_nth nth_append)
  then show ?thesis unfolding paginate_def Let_def start by auto
qed

lemma walk_from:
  assumes "sorted_desc toKey rows" and "\<forall>r \<in> set rows. key_ok utf8 (toKey r)" and "0 < clampLimit rawLimit"
  shows "k \<le> length rows \<Longrightarrow> length rows - k < n \<Longrightarrow>
    cur = (if k = 0 then None else Some (encodeCursor (toKey (rows ! (k - 1))))) \<Longrightarrow>
    concat (walk_pages n utf8 rows toKey cur rawLimit) = drop k rows"
proof (induction n arbitrary: k cur)
  case (Suc n)
  let ?l = "clampLimit rawLimit"
  note page = paginate_from [OF assms(1,2) Suc.prems(1,3), of rawLimit]
  show ?case
  proof (cases "k + ?l < length rows")
    case True
    have "concat (walk_pages n utf8 rows toKey (Some (encodeCursor (toKey (rows ! (k + ?l - 1))))) rawLimit) = drop (k + ?l) rows"
      by (rule Suc.IH) (use True Suc.prems assms(3) in auto)
    then have "concat (walk_pages (Suc n) utf8 rows toKey cur rawLimit) = take ?l (drop k rows) @ drop ?l (drop k rows)"
      using page True assms(3) by (simp add: Let_def add.commute)
    then show ?thesis by (simp only: append_take_drop_id)
  next
    case False
    then show ?thesis using page by (simp add: Let_def)
  qed
qed simp

text \<open>Following the cursors lists everything once: for rows sorted strictly descending by key, a
  client that starts without a cursor and requests pages until there is no next cursor gets, page by
  page, exactly the rows, each once and in order, within one more request than there are rows, and no
  page is longer than the clamped limit.\<close>

lemma paginate_walk:
  assumes "sorted_desc toKey rows" and "\<forall>r \<in> set rows. key_ok utf8 (toKey r)" and "0 < clampLimit rawLimit"
  shows "concat (walk_pages (length rows + 1) utf8 rows toKey None rawLimit) = rows
    \<and> length (pg_data (paginate utf8 rows toKey cur rawLimit)) \<le> min (clampLimit rawLimit) MAX_PAGE_SIZE"
proof -
  have "clampLimit rawLimit \<le> MAX_PAGE_SIZE"
    by (auto simp: clampLimit_def Let_def DEFAULT_PAGE_SIZE_def MAX_PAGE_SIZE_def split: option.splits)
  moreover have "length (pg_data (paginate utf8 rows toKey cur rawLimit)) \<le> clampLimit rawLimit"
    by (simp add: paginate_def Let_def)
  ultimately show ?thesis
    using walk_from [OF assms, of 0 "length rows + 1" None] by simp
qed

definition demo_keys :: "cursor_key list" where
  "demo_keys = [\<lparr>ck_sortValue = ''3'', ck_id = ''a''\<rparr>, \<lparr>ck_sortValue = ''2'', ck_id = ''b''\<rparr>, \<lparr>ck_sortValue = ''2'', ck_id = ''a''\<rparr>]"

lemma clampLimit_one: "clampLimit (RawNumber (Some 1)) = 1"
  by (simp add: clampLimit_def MAX_PAGE_SIZE_def)

lemma paginate_walk_witness:
  "concat (walk_pages 4 (\<lambda>s. s) demo_keys (\<lambda>k. k) None (RawNumber (Some 1))) = demo_keys"
proof -
  have "sorted_desc (\<lambda>k. k) demo_keys"
    by (simp add: sorted_desc_def demo_keys_def isAfter_def less_char_def)
  moreover have "\<forall>r \<in> set demo_keys. key_ok (\<lambda>s. s) r"
    by (simp add: demo_keys_def key_ok_def js_finite_def)
  ultimately show ?thesis
    using paginate_walk [of "\<lambda>k. k" demo_keys "\<lambda>s. s" "RawNumber (Some 1)"]
    by (simp add: clampLimit_one demo_keys_def numeral_eq_Suc)
qed

end
