(* ===== verification/Webhook_Store.thy ===== *)
theory Webhook_Store
  imports Prelude
begin

text \<open>
  The webhook persistence boundary: the interface \<^verbatim>\<open>WebhookStore\<close> of \<^verbatim>\<open>src/services/webhookStore.ts\<close> as a record of
  operations, its contract as the locale \<open>webhook_store\<close>, and \<^verbatim>\<open>InMemoryWebhookStore\<close> (JavaScript maps), proved to satisfy
  it. The client lemmas (a delivery is dead-lettered at most once and never lives in both maps, whatever the interleaving
  of operations) are proved once in the locale. Identifiers and clock readings are arguments. The two cursor listings are
  not part of the contract. The Drizzle implementation does not satisfy the contract: see \<^verbatim>\<open>Drizzle_Webhook_Store.thy\<close>.
\<close>

section \<open>Rows\<close>

datatype delivery_status = DPending | DDelivered | DFailed

type_synonym header_map = "(string \<times> string) list"

record webhook_delivery =
  d_id :: string
  d_eventId :: string
  d_eventType :: string
  d_targetUrl :: string
  d_payload :: string
  d_signature :: string
  d_headers :: "header_map option"
  d_status :: delivery_status
  d_attempts :: nat
  d_maxAttempts :: nat
  d_lastError :: "string option"
  d_nextAttemptAt :: "time option"
  d_createdAt :: time
  d_updatedAt :: time

record dlq_row =
  q_id :: string
  q_originalId :: string
  q_eventId :: string
  q_eventType :: string
  q_targetUrl :: string
  q_payload :: string
  q_signature :: string
  q_headers :: "header_map option"
  q_attempts :: nat
  q_maxAttempts :: nat
  q_lastError :: string
  q_failedAt :: time
  q_replayedAt :: "time option"
  q_replayDeliveryId :: "string option"

record new_delivery =
  n_eventId :: string
  n_eventType :: string
  n_targetUrl :: string
  n_payload :: string
  n_signature :: string
  n_headers :: "header_map option"
  n_maxAttempts :: "nat option"

text \<open>A partial update: \<open>None\<close> is an absent key.\<close>

record delivery_patch =
  dp_status :: "delivery_status option"
  dp_attempts :: "nat option"
  dp_lastError :: "string option option"
  dp_nextAttemptAt :: "time option option"

definition apply_patch :: "delivery_patch \<Rightarrow> time \<Rightarrow> webhook_delivery \<Rightarrow> webhook_delivery" where
  "apply_patch p now d =
     d\<lparr>d_status := (case dp_status p of None \<Rightarrow> d_status d | Some x \<Rightarrow> x),
       d_attempts := (case dp_attempts p of None \<Rightarrow> d_attempts d | Some x \<Rightarrow> x),
       d_lastError := (case dp_lastError p of None \<Rightarrow> d_lastError d | Some x \<Rightarrow> x),
       d_nextAttemptAt := (case dp_nextAttemptAt p of None \<Rightarrow> d_nextAttemptAt d | Some x \<Rightarrow> x),
       d_updatedAt := now\<rparr>"

definition fresh_delivery :: "string \<Rightarrow> time \<Rightarrow> time \<Rightarrow> new_delivery \<Rightarrow> webhook_delivery" where
  "fresh_delivery newId now created nd =
     \<lparr>d_id = newId, d_eventId = n_eventId nd, d_eventType = n_eventType nd, d_targetUrl = n_targetUrl nd,
      d_payload = n_payload nd, d_signature = n_signature nd, d_headers = n_headers nd,
      d_status = DPending, d_attempts = 0,
      d_maxAttempts = (case n_maxAttempts nd of None \<Rightarrow> 5 | Some m \<Rightarrow> m),
      d_lastError = None, d_nextAttemptAt = Some now, d_createdAt = created, d_updatedAt = created\<rparr>"

definition dlq_of :: "string \<Rightarrow> time \<Rightarrow> string \<Rightarrow> webhook_delivery \<Rightarrow> dlq_row" where
  "dlq_of newId now lastError live =
     \<lparr>q_id = newId, q_originalId = d_id live, q_eventId = d_eventId live, q_eventType = d_eventType live,
      q_targetUrl = d_targetUrl live, q_payload = d_payload live, q_signature = d_signature live,
      q_headers = d_headers live, q_attempts = d_attempts live, q_maxAttempts = d_maxAttempts live,
      q_lastError = lastError, q_failedAt = now, q_replayedAt = None, q_replayDeliveryId = None\<rparr>"

section \<open>The interface\<close>

text \<open>The clock argument of \<open>ws_create\<close> is read by the application, the second one is the clock that
  fills in the creation time (the same one, for the in-memory store).\<close>

record 's store_ops =
  ws_create :: "string \<Rightarrow> time \<Rightarrow> time \<Rightarrow> new_delivery \<Rightarrow> 's \<Rightarrow> 's \<times> webhook_delivery"
  ws_get :: "'s \<Rightarrow> string \<Rightarrow> webhook_delivery option"
  ws_update :: "string \<Rightarrow> delivery_patch \<Rightarrow> time \<Rightarrow> 's \<Rightarrow> 's \<times> webhook_delivery option"
  ws_move :: "string \<Rightarrow> time \<Rightarrow> string \<Rightarrow> string \<Rightarrow> 's \<Rightarrow> 's \<times> dlq_row option"
  ws_getDlq :: "'s \<Rightarrow> string \<Rightarrow> dlq_row option"
  ws_markReplayed :: "string \<Rightarrow> string \<Rightarrow> time \<Rightarrow> 's \<Rightarrow> 's \<times> bool"

text \<open>Every call that can reach a store, with identifiers that are fresh where the source generates
  a UUID. \<open>ws_step S s t\<close>: one operation, by anybody.\<close>

inductive ws_step :: "'s store_ops \<Rightarrow> 's \<Rightarrow> 's \<Rightarrow> bool" for S where
  ws_create_step: "ws_get S s i = None \<Longrightarrow> (\<And>d q. ws_getDlq S s d = Some q \<Longrightarrow> q_originalId q \<noteq> i) \<Longrightarrow>
    ws_step S s (fst (ws_create S i now created nd s))"
| ws_update_step: "ws_step S s (fst (ws_update S i p now s))"
| ws_move_step: "ws_getDlq S s d = None \<Longrightarrow> ws_step S s (fst (ws_move S d now i err s))"
| ws_mark_step: "ws_step S s (fst (ws_markReplayed S d i now s))"

text \<open>No delivery is in both tables, and no two dead letters come from one delivery.\<close>

definition dlq_once :: "'s store_ops \<Rightarrow> 's \<Rightarrow> bool" where
  "dlq_once S s \<longleftrightarrow>
     (\<forall>d q. ws_getDlq S s d = Some q \<longrightarrow> ws_get S s (q_originalId q) = None) \<and>
     (\<forall>d e q r. ws_getDlq S s d = Some q \<longrightarrow> ws_getDlq S s e = Some r \<longrightarrow>
        q_originalId q = q_originalId r \<longrightarrow> d = e)"

locale webhook_store =
  fixes S :: "'s store_ops" and inv :: "'s \<Rightarrow> bool"
  assumes create_law: "inv s \<Longrightarrow> ws_get S s i = None \<Longrightarrow>
      snd (ws_create S i now created nd s) = fresh_delivery i now (d_createdAt (snd (ws_create S i now created nd s))) nd
      \<and> ws_get S (fst (ws_create S i now created nd s)) j =
          (if j = i then Some (snd (ws_create S i now created nd s)) else ws_get S s j)
      \<and> ws_getDlq S (fst (ws_create S i now created nd s)) = ws_getDlq S s"
    and create_inv: "inv s \<Longrightarrow> ws_get S s i = None \<Longrightarrow> inv (fst (ws_create S i now created nd s))"
    and get_id: "inv s \<Longrightarrow> ws_get S s i = Some live \<Longrightarrow> d_id live = i"
    and update_law: "inv s \<Longrightarrow>
      ws_get S (fst (ws_update S i p now s)) j =
        (if j = i then map_option (apply_patch p now) (ws_get S s i) else ws_get S s j)
      \<and> ws_getDlq S (fst (ws_update S i p now s)) = ws_getDlq S s"
    and update_inv: "inv s \<Longrightarrow> inv (fst (ws_update S i p now s))"
    and move_gone: "inv s \<Longrightarrow> ws_get S s i = None \<Longrightarrow> ws_move S d now i err s = (s, None)"
    and move_live: "inv s \<Longrightarrow> ws_get S s i = Some live \<Longrightarrow> ws_getDlq S s d = None \<Longrightarrow>
      snd (ws_move S d now i err s) = Some (dlq_of d now err live)
      \<and> ws_get S (fst (ws_move S d now i err s)) j = (if j = i then None else ws_get S s j)
      \<and> ws_getDlq S (fst (ws_move S d now i err s)) e =
          (if e = d then Some (dlq_of d now err live) else ws_getDlq S s e)"
    and move_inv: "inv s \<Longrightarrow> ws_getDlq S s d = None \<Longrightarrow> inv (fst (ws_move S d now i err s))"
    and mark_miss: "inv s \<Longrightarrow> (\<And>q. ws_getDlq S s d = Some q \<Longrightarrow> q_replayedAt q \<noteq> None) \<Longrightarrow>
      ws_markReplayed S d i now s = (s, False)"
    and mark_hit: "inv s \<Longrightarrow> ws_getDlq S s d = Some q \<Longrightarrow> q_replayedAt q = None \<Longrightarrow>
      snd (ws_markReplayed S d i now s) \<and> ws_get S (fst (ws_markReplayed S d i now s)) = ws_get S s
      \<and> ws_getDlq S (fst (ws_markReplayed S d i now s)) e =
          (if e = d then Some (q\<lparr>q_replayedAt := Some now, q_replayDeliveryId := Some i\<rparr>) else ws_getDlq S s e)"
    and mark_inv: "inv s \<Longrightarrow> inv (fst (ws_markReplayed S d i now s))"
begin

lemma create_get [simp]:
  assumes "inv s" "ws_get S s i = None"
  shows "ws_get S (fst (ws_create S i now created nd s)) j =
      (if j = i then Some (snd (ws_create S i now created nd s)) else ws_get S s j)"
    "ws_getDlq S (fst (ws_create S i now created nd s)) = ws_getDlq S s"
  using create_law [OF assms] by blast+

lemma create_row:
  assumes "inv s" "ws_get S s i = None"
  obtains c where "snd (ws_create S i now created nd s) = fresh_delivery i now c nd"
  using create_law [OF assms] by blast

lemma update_get [simp]:
  assumes "inv s"
  shows "ws_get S (fst (ws_update S i p now s)) j =
        (if j = i then map_option (apply_patch p now) (ws_get S s i) else ws_get S s j)"
    "ws_getDlq S (fst (ws_update S i p now s)) = ws_getDlq S s"
  using update_law [OF assms] by blast+

lemma dlq_once_move:
  assumes "inv s" and "dlq_once S s" and "ws_getDlq S s d = None"
  shows "dlq_once S (fst (ws_move S d now i err s))"
proof (cases "ws_get S s i")
  case None
  then show ?thesis using assms by (simp add: move_gone)
next
  case (Some live)
  note m = move_live [OF assms(1) Some assms(3), of now err]
  have orig: "q_originalId (dlq_of d now err live) = i"
    using get_id [OF assms(1) Some] by (simp add: dlq_of_def)
  have other: "q_originalId q \<noteq> i" if "ws_getDlq S s e = Some q" for e q
    using assms(2) that Some unfolding dlq_once_def by force
  have get: "ws_get S (fst (ws_move S d now i err s)) j = (if j = i then None else ws_get S s j)"
    and dlq: "ws_getDlq S (fst (ws_move S d now i err s)) e =
          (if e = d then Some (dlq_of d now err live) else ws_getDlq S s e)" for j e
    using m by blast+
  show ?thesis
    using assms(2) orig unfolding dlq_once_def get dlq by (auto split: if_splits dest: other)
qed

lemma dlq_once_mark:
  assumes "inv s" and "dlq_once S s"
  shows "dlq_once S (fst (ws_markReplayed S d i now s))"
proof (cases "\<exists>q. ws_getDlq S s d = Some q \<and> q_replayedAt q = None")
  case True
  then obtain q where q: "ws_getDlq S s d = Some q" "q_replayedAt q = None" by blast
  show ?thesis
    using assms(2) mark_hit [OF assms(1) q, of i now] q unfolding dlq_once_def
    by (auto split: if_splits)
next
  case False
  then show ?thesis using mark_miss [OF assms(1), of d i now] assms(2) by auto
qed

lemma ws_step_inv: "ws_step S s t \<Longrightarrow> inv s \<and> dlq_once S s \<Longrightarrow> inv t \<and> dlq_once S t"
proof (induction rule: ws_step.induct)
  case (ws_create_step s i now created nd)
  then have "dlq_once S (fst (ws_create S i now created nd s))"
    unfolding dlq_once_def by (auto split: if_splits)
  with ws_create_step show ?case by (simp add: create_inv)
next
  case (ws_update_step s i p now)
  then have "dlq_once S (fst (ws_update S i p now s))"
    unfolding dlq_once_def by (auto split: if_splits)
  with ws_update_step show ?case by (simp add: update_inv)
qed (auto simp: move_inv mark_inv dlq_once_move dlq_once_mark)

end

section \<open>In-memory implementation\<close>

record mem_store =
  ms_deliveries :: "(string \<times> webhook_delivery) list"
  ms_dlq :: "(string \<times> dlq_row) list"

definition mem_createDelivery ::
  "string \<Rightarrow> time \<Rightarrow> time \<Rightarrow> new_delivery \<Rightarrow> mem_store \<Rightarrow> mem_store \<times> webhook_delivery" where
  "mem_createDelivery newId now created nd s =
     (let row = fresh_delivery newId now now nd
      in (s\<lparr>ms_deliveries := AList.update newId row (ms_deliveries s)\<rparr>, row))"

definition mem_getDelivery :: "mem_store \<Rightarrow> string \<Rightarrow> webhook_delivery option" where
  "mem_getDelivery s i = map_of (ms_deliveries s) i"

definition mem_updateDelivery ::
  "string \<Rightarrow> delivery_patch \<Rightarrow> time \<Rightarrow> mem_store \<Rightarrow> mem_store \<times> webhook_delivery option" where
  "mem_updateDelivery i p now s = (case map_of (ms_deliveries s) i of
     None \<Rightarrow> (s, None)
   | Some row \<Rightarrow> (s\<lparr>ms_deliveries := AList.update i (apply_patch p now row) (ms_deliveries s)\<rparr>,
                  Some (apply_patch p now row)))"

definition mem_moveToDlq ::
  "string \<Rightarrow> time \<Rightarrow> string \<Rightarrow> string \<Rightarrow> mem_store \<Rightarrow> mem_store \<times> dlq_row option" where
  "mem_moveToDlq newId now deliveryId lastError s = (case map_of (ms_deliveries s) deliveryId of
     None \<Rightarrow> (s, None)
   | Some live \<Rightarrow>
       (let row = dlq_of newId now lastError live
        in (s\<lparr>ms_dlq := AList.update newId row (ms_dlq s),
              ms_deliveries := AList.delete deliveryId (ms_deliveries s)\<rparr>, Some row)))"

definition mem_getDlqRow :: "mem_store \<Rightarrow> string \<Rightarrow> dlq_row option" where
  "mem_getDlqRow s i = map_of (ms_dlq s) i"

definition mem_markReplayed :: "string \<Rightarrow> string \<Rightarrow> time \<Rightarrow> mem_store \<Rightarrow> mem_store \<times> bool" where
  "mem_markReplayed dlqId replayId now s = (case map_of (ms_dlq s) dlqId of
     None \<Rightarrow> (s, False)
   | Some row \<Rightarrow>
       if q_replayedAt row \<noteq> None then (s, False)
       else (s\<lparr>ms_dlq := AList.update dlqId
               (row\<lparr>q_replayedAt := Some now, q_replayDeliveryId := Some replayId\<rparr>) (ms_dlq s)\<rparr>, True))"

definition mem_ops :: "mem_store store_ops" where
  "mem_ops = \<lparr>ws_create = mem_createDelivery, ws_get = mem_getDelivery, ws_update = mem_updateDelivery,
     ws_move = mem_moveToDlq, ws_getDlq = mem_getDlqRow, ws_markReplayed = mem_markReplayed\<rparr>"

definition mem_ok :: "mem_store \<Rightarrow> bool" where
  "mem_ok s \<longleftrightarrow> (\<forall>i d. map_of (ms_deliveries s) i = Some d \<longrightarrow> d_id d = i)"

lemma apply_patch_id [simp]: "d_id (apply_patch p now d) = d_id d"
  by (simp add: apply_patch_def)

lemma fresh_delivery_simps [simp]:
  "d_id (fresh_delivery i now c nd) = i" "d_createdAt (fresh_delivery i now c nd) = c"
  by (simp_all add: fresh_delivery_def)

lemmas mem_defs = mem_ops_def mem_ok_def mem_createDelivery_def mem_getDelivery_def
  mem_updateDelivery_def mem_moveToDlq_def mem_getDlqRow_def mem_markReplayed_def Let_def

interpretation mem: webhook_store mem_ops mem_ok
  by unfold_locales
     (auto simp: mem_defs update_conv' delete_conv' fun_eq_iff split: option.splits if_splits)

section \<open>Dead letters exactly once\<close>

interpretation mem_run: inductive_invariant "\<lambda>s. s = \<lparr>ms_deliveries = [], ms_dlq = []\<rparr>" "ws_step mem_ops"
  "\<lambda>s. mem_ok s \<and> dlq_once mem_ops s"
proof
  show "mem_ok s \<and> dlq_once mem_ops s" if "s = \<lparr>ms_deliveries = [], ms_dlq = []\<rparr>" for s
    using that by (simp add: mem_defs dlq_once_def)
qed (rule mem.ws_step_inv)

text \<open>C25. Exactly-once dead-lettering: in every state the in-memory store reaches from empty maps by any interleaving of
  creations, updates, moves and replay marks, a dead-lettered delivery is no longer live, and no delivery is
  dead-lettered twice.\<close>

theorem mem_dlq_exactly_once:
  assumes "reach (\<lambda>s. s = \<lparr>ms_deliveries = [], ms_dlq = []\<rparr>) (ws_step mem_ops) s"
  shows "(\<forall>d q. map_of (ms_dlq s) d = Some q \<longrightarrow> map_of (ms_deliveries s) (q_originalId q) = None)
    \<and> (\<forall>d e q r. map_of (ms_dlq s) d = Some q \<longrightarrow> map_of (ms_dlq s) e = Some r \<longrightarrow> q_originalId q = q_originalId r \<longrightarrow> d = e)"
proof -
  have "dlq_once mem_ops s" using mem_run.reach_inv [OF assms] by blast
  then show ?thesis unfolding dlq_once_def by (simp add: mem_ops_def mem_getDelivery_def mem_getDlqRow_def)
qed

lemma demo_ws_reach:
  "\<exists>s q. reach (\<lambda>s. s = \<lparr>ms_deliveries = [], ms_dlq = []\<rparr>) (ws_step mem_ops) s \<and> map_of (ms_dlq s) ''q1'' = Some q
     \<and> q_originalId q = ''d1''"
proof -
  let ?s0 = "\<lparr>ms_deliveries = [], ms_dlq = []\<rparr>"
  let ?nd = "\<lparr>n_eventId = ''e'', n_eventType = ''market.resolved'', n_targetUrl = ''u'', n_payload = ''p'',
    n_signature = ''s'', n_headers = None, n_maxAttempts = Some 1\<rparr>"
  let ?s1 = "fst (ws_create mem_ops ''d1'' 0 0 ?nd ?s0)"
  let ?s2 = "fst (ws_move mem_ops ''q1'' 1 ''d1'' ''boom'' ?s1)"
  have "reach (\<lambda>s. s = ?s0) (ws_step mem_ops) ?s0" by (rule reach_init) (rule refl)
  moreover have "ws_step mem_ops ?s0 ?s1" by (rule ws_create_step) (simp_all add: mem_defs)
  ultimately have "reach (\<lambda>s. s = ?s0) (ws_step mem_ops) ?s1" by (rule reach_step)
  moreover have "ws_step mem_ops ?s1 ?s2" by (rule ws_move_step) (simp add: mem_defs)
  ultimately have "reach (\<lambda>s. s = ?s0) (ws_step mem_ops) ?s2" by (rule reach_step)
  moreover have "\<exists>q. map_of (ms_dlq ?s2) ''q1'' = Some q \<and> q_originalId q = ''d1''"
    by (simp add: mem_defs fresh_delivery_def dlq_of_def)
  ultimately show ?thesis by blast
qed

theorem mem_dlq_exactly_once_witness:
  "\<exists>(s :: mem_store) q. map_of (ms_dlq s) ''q1'' = Some q \<and> q_originalId q = ''d1'' \<and> map_of (ms_deliveries s) ''d1'' = None"
proof -
  obtain s q where s: "reach (\<lambda>s. s = \<lparr>ms_deliveries = [], ms_dlq = []\<rparr>) (ws_step mem_ops) s"
    "map_of (ms_dlq s) ''q1'' = Some q" "q_originalId q = ''d1''" using demo_ws_reach by blast
  with mem_dlq_exactly_once [OF s(1), THEN conjunct1, rule_format, OF s(2)] show ?thesis by auto
qed

end
