(* ===== verification/Webhook_Security.thy ===== *)
theory Webhook_Security
  imports Js_Numerals
begin

text \<open>
  Rotating-key webhook signatures with replay protection,
  \<^verbatim>\<open>src/services/signedWebhookSecurity.ts\<close>. Two library functions are arguments: \<open>hmac\<close>
  (HMAC-SHA256 in lower-case hexadecimal, by secret and message) and \<open>toNumber\<close> (ECMAScript's
  \<^verbatim>\<open>Number(text)\<close> where it is a safe integer, \<open>None\<close> otherwise). Times are in seconds.
\<close>

section \<open>Keys and nonces\<close>

definition DEFAULT_TIMESTAMP_TOLERANCE_SECONDS :: int where "DEFAULT_TIMESTAMP_TOLERANCE_SECONDS = 300"
definition DEFAULT_NONCE_TTL_SECONDS :: int where "DEFAULT_NONCE_TTL_SECONDS = 600"
definition MAX_SIGNING_KEYS :: nat where "MAX_SIGNING_KEYS = 8"
definition MAX_SAFE_INTEGER :: int where "MAX_SAFE_INTEGER = 2 ^ 53 - 1"

record signing_key =
  k_id :: string
  k_secret :: string
  k_activeFrom :: int
  k_expiresAt :: "int option"

record signed_webhook =
  sg_keyId :: string
  sg_timestamp :: int
  sg_nonce :: string
  sg_signature :: string
  sg_header :: string

datatype verification_failure =
    Malformed | UnknownKey | KeyNotActive | TimestampOutOfRange | NonceReplayed | InvalidSignature

datatype verification_result = VOk string int string | VFail verification_failure

text \<open>\<^verbatim>\<open>InMemoryNonceStore\<close>: an insertion-ordered map from nonce key to expiry.\<close>

type_synonym nonce_entries = "(string \<times> int) list"

definition prune :: "int \<Rightarrow> nonce_entries \<Rightarrow> nonce_entries \<times> nat" where
  "prune now es = (filter (\<lambda>(k, e). \<not> e \<le> now) es, length (filter (\<lambda>(k, e). e \<le> now) es))"

definition nonce_key :: "string \<Rightarrow> string \<Rightarrow> string" where
  "nonce_key namespace nonce = namespace @ [char_of (0 :: nat)] @ nonce"

definition nonce_claim :: "nat \<Rightarrow> string \<Rightarrow> string \<Rightarrow> int \<Rightarrow> int \<Rightarrow> nonce_entries \<Rightarrow> nonce_entries \<times> bool" where
  "nonce_claim maxEntries namespace nonce expiresAt now es =
    (let es1 = fst (prune now es); key = nonce_key namespace nonce
     in if key \<in> fst ` set es1 then (es1, False)
        else let es2 = (if length es1 \<ge> maxEntries
                        then (case es1 of [] \<Rightarrow> [] | (k, _) # _ \<Rightarrow> AList.delete k es1) else es1)
             in (AList.update key expiresAt es2, True))"

section \<open>The signer\<close>

record webhook_security =
  sec_keys :: "(string \<times> signing_key) list"
  sec_tolerance :: int
  sec_nonceTtl :: int
  sec_maxEntries :: nat
  sec_nonces :: nonce_entries

definition id_char :: "char \<Rightarrow> bool" where
  "id_char c \<longleftrightarrow> (let n = of_char c :: nat in 48 \<le> n \<and> n \<le> 57 \<or> 65 \<le> n \<and> n \<le> 90 \<or> 97 \<le> n \<and> n \<le> 122
     \<or> c = CHR ''.'' \<or> c = CHR ''_'' \<or> c = CHR ''-'')"

definition hex_char :: "char \<Rightarrow> bool" where
  "hex_char c \<longleftrightarrow> (let n = of_char c :: nat in 48 \<le> n \<and> n \<le> 57 \<or> 97 \<le> n \<and> n \<le> 102)"

definition valid_key_id :: "string \<Rightarrow> bool" where
  "valid_key_id s \<longleftrightarrow> s \<noteq> [] \<and> length s \<le> 64 \<and> list_all id_char s"

definition safe_integer :: "int \<Rightarrow> bool" where
  "safe_integer n \<longleftrightarrow> - MAX_SAFE_INTEGER \<le> n \<and> n \<le> MAX_SAFE_INTEGER"

text \<open>\<open>None\<close>: the source throws.\<close>

definition addKey :: "signing_key \<Rightarrow> webhook_security \<Rightarrow> webhook_security option" where
  "addKey key sec =
    (if \<not> valid_key_id (k_id key) then None
     else if length (k_secret key) < 16 then None
     else if \<not> safe_integer (k_activeFrom key) \<or> k_activeFrom key < 0 then None
     else if (case k_expiresAt key of None \<Rightarrow> False | Some e \<Rightarrow> e \<le> k_activeFrom key) then None
     else Some (sec\<lparr>sec_keys := AList.update (k_id key) key (sec_keys sec)\<rparr>))"

definition rotate_key :: "signing_key \<Rightarrow> webhook_security \<Rightarrow> webhook_security option" where
  "rotate_key key sec = addKey key sec"

definition removeKey :: "string \<Rightarrow> webhook_security \<Rightarrow> webhook_security \<times> bool" where
  "removeKey i sec = (sec\<lparr>sec_keys := AList.delete i (sec_keys sec)\<rparr>, i \<in> fst ` set (sec_keys sec))"

definition positive :: "int \<Rightarrow> int option" where
  "positive v = (if \<not> safe_integer v \<or> v \<le> 0 then None else Some v)"

fun addKeys :: "signing_key list \<Rightarrow> webhook_security \<Rightarrow> webhook_security option" where
  "addKeys [] sec = Some sec"
| "addKeys (k # ks) sec = (case addKey k sec of None \<Rightarrow> None | Some sec' \<Rightarrow> addKeys ks sec')"

definition new_security ::
  "signing_key list \<Rightarrow> int option \<Rightarrow> int option \<Rightarrow> nat \<Rightarrow> webhook_security option" where
  "new_security keys tolerance ttl maxEntries =
    (if length keys = 0 \<or> length keys > MAX_SIGNING_KEYS then None
     else case positive (case tolerance of None \<Rightarrow> DEFAULT_TIMESTAMP_TOLERANCE_SECONDS | Some x \<Rightarrow> x) of
       None \<Rightarrow> None
     | Some tol \<Rightarrow> (case positive (case ttl of None \<Rightarrow> DEFAULT_NONCE_TTL_SECONDS | Some x \<Rightarrow> x) of
         None \<Rightarrow> None
       | Some nt \<Rightarrow> addKeys keys \<lparr>sec_keys = [], sec_tolerance = tol, sec_nonceTtl = nt,
                                   sec_maxEntries = maxEntries, sec_nonces = []\<rparr>))"

definition key_active :: "int \<Rightarrow> signing_key \<Rightarrow> bool" where
  "key_active now key \<longleftrightarrow> k_activeFrom key \<le> now \<and> (case k_expiresAt key of None \<Rightarrow> True | Some e \<Rightarrow> now < e)"

text \<open>The stable sort by descending activation time; its first element is used.\<close>

definition activeKey :: "int \<Rightarrow> webhook_security \<Rightarrow> signing_key option" where
  "activeKey now sec =
    (case sort_key (\<lambda>k. - k_activeFrom k) (filter (key_active now) (map snd (sec_keys sec))) of
       [] \<Rightarrow> None | k # _ \<Rightarrow> Some k)"

definition digest :: "(string \<Rightarrow> string \<Rightarrow> string) \<Rightarrow> signing_key \<Rightarrow> string \<Rightarrow> int \<Rightarrow> string \<Rightarrow> string" where
  "digest hmac key body timestamp nonce =
     hmac (k_secret key) (''predictify-webhook-v1'' @ [CHR 0x0A] @ k_id key @ [CHR 0x0A]
       @ int_to_string timestamp @ [CHR 0x0A] @ nonce @ [CHR 0x0A] @ body)"

definition sign :: "(string \<Rightarrow> string \<Rightarrow> string) \<Rightarrow> string \<Rightarrow> int \<Rightarrow> string \<Rightarrow> webhook_security \<Rightarrow> signed_webhook option" where
  "sign hmac body now nonce sec = (case activeKey now sec of
     None \<Rightarrow> None
   | Some key \<Rightarrow>
       (let signature = digest hmac key body now nonce
        in Some \<lparr>sg_keyId = k_id key, sg_timestamp = now, sg_nonce = nonce, sg_signature = signature,
             sg_header = ''v1='' @ k_id key @ '',t='' @ int_to_string now @ '',n='' @ nonce @ '',s='' @ signature\<rparr>))"

section \<open>Verification\<close>

fun split_on :: "char \<Rightarrow> string \<Rightarrow> string list" where
  "split_on c [] = [[]]"
| "split_on c (x # xs) = (if x = c then [] # split_on c xs
     else case split_on c xs of [] \<Rightarrow> [[x]] | p # ps \<Rightarrow> (x # p) # ps)"

definition header_part :: "string \<Rightarrow> string \<times> string" where
  "header_part part = (case dropWhile (\<lambda>c. c \<noteq> CHR ''='') part of
     [] \<Rightarrow> ([], []) | _ # v \<Rightarrow> (takeWhile (\<lambda>c. c \<noteq> CHR ''='') part, v))"

record parsed_header =
  ph_keyId :: string
  ph_timestamp :: int
  ph_nonce :: string
  ph_signature :: string

definition parseHeader :: "(string \<Rightarrow> int option) \<Rightarrow> string \<Rightarrow> parsed_header option" where
  "parseHeader toNumber header =
    (if length header > 512 then None
     else
       (let parts = rev (map header_part (split_on CHR '','' header));
            keyId = (case map_of parts ''v1'' of None \<Rightarrow> [] | Some v \<Rightarrow> v);
            timestamp = (case map_of parts ''t'' of None \<Rightarrow> None | Some v \<Rightarrow> toNumber v);
            nonce = (case map_of parts ''n'' of None \<Rightarrow> [] | Some v \<Rightarrow> v);
            signature = (case map_of parts ''s'' of None \<Rightarrow> [] | Some v \<Rightarrow> v)
        in case timestamp of
             None \<Rightarrow> None
           | Some t \<Rightarrow>
               if \<not> valid_key_id keyId \<or> t < 0
                  \<or> \<not> (list_all hex_char nonce \<and> 8 \<le> length nonce \<and> length nonce \<le> 128)
                  \<or> \<not> (list_all hex_char signature \<and> length signature = 64)
               then None
               else Some \<lparr>ph_keyId = keyId, ph_timestamp = t, ph_nonce = nonce, ph_signature = signature\<rparr>))"

fun hex_bytes :: "string \<Rightarrow> nat list" where
  "hex_bytes (a # b # rest) = (case (digit_value a, digit_value b) of
     (Some x, Some y) \<Rightarrow> if x < 16 \<and> y < 16 then (16 * x + y) # hex_bytes rest else []
   | _ \<Rightarrow> [])"
| "hex_bytes _ = []"

definition verify ::
  "(string \<Rightarrow> string \<Rightarrow> string) \<Rightarrow> (string \<Rightarrow> int option) \<Rightarrow> string \<Rightarrow> string \<Rightarrow> int \<Rightarrow> webhook_security
     \<Rightarrow> webhook_security \<times> verification_result" where
  "verify hmac toNumber body header now sec = (case parseHeader toNumber header of
     None \<Rightarrow> (sec, VFail Malformed)
   | Some p \<Rightarrow> (case map_of (sec_keys sec) (ph_keyId p) of
       None \<Rightarrow> (sec, VFail UnknownKey)
     | Some key \<Rightarrow>
       if \<not> key_active now key then (sec, VFail KeyNotActive)
       else if \<bar>now - ph_timestamp p\<bar> > sec_tolerance sec then (sec, VFail TimestampOutOfRange)
       else if hex_bytes (digest hmac key body (ph_timestamp p) (ph_nonce p)) \<noteq> hex_bytes (ph_signature p)
         then (sec, VFail InvalidSignature)
       else (case nonce_claim (sec_maxEntries sec) (k_id key) (ph_nonce p) (now + sec_nonceTtl sec) now (sec_nonces sec) of
           (es, False) \<Rightarrow> (sec\<lparr>sec_nonces := es\<rparr>, VFail NonceReplayed)
         | (es, True) \<Rightarrow> (sec\<lparr>sec_nonces := es\<rparr>, VOk (k_id key) (ph_timestamp p) (ph_nonce p)))))"

section \<open>Well-formed signers\<close>

definition sec_ok :: "webhook_security \<Rightarrow> bool" where
  "sec_ok sec \<longleftrightarrow> distinct (map fst (sec_keys sec))
     \<and> (\<forall>i k. map_of (sec_keys sec) i = Some k \<longrightarrow> k_id k = i \<and> valid_key_id i)
     \<and> 0 < sec_tolerance sec \<and> 0 < sec_nonceTtl sec \<and> distinct (map fst (sec_nonces sec))"

lemma addKey_ok: "sec_ok sec \<Longrightarrow> addKey key sec = Some sec' \<Longrightarrow> sec_ok sec'"
  by (auto simp: sec_ok_def addKey_def update_conv' distinct_update split: if_splits)

lemma removeKey_ok: "sec_ok sec \<Longrightarrow> sec_ok (fst (removeKey i sec))"
  by (auto simp: sec_ok_def removeKey_def delete_conv' distinct_delete restrict_map_def split: if_splits)

lemma addKeys_ok: "sec_ok sec \<Longrightarrow> addKeys ks sec = Some sec' \<Longrightarrow> sec_ok sec'"
  by (induction ks arbitrary: sec) (auto split: option.splits intro: addKey_ok)

lemma positive_SomeD: "positive v = Some w \<Longrightarrow> 0 < w"
  by (auto simp: positive_def split: if_splits)

lemma sec_ok_empty: "0 < t \<Longrightarrow> 0 < n \<Longrightarrow>
  sec_ok \<lparr>sec_keys = [], sec_tolerance = t, sec_nonceTtl = n, sec_maxEntries = m, sec_nonces = []\<rparr>"
  by (simp add: sec_ok_def)

lemma new_security_ok: "new_security keys tol ttl m = Some sec \<Longrightarrow> sec_ok sec"
  by (auto simp: new_security_def split: if_splits option.splits
      intro: addKeys_ok [OF sec_ok_empty] dest!: positive_SomeD)

lemma nonce_claim_distinct:
  assumes "distinct (map fst es)"
  shows "distinct (map fst (fst (nonce_claim m ns n e now es)))"
proof -
  have d: "distinct (map fst (fst (prune now es)))" using assms by (simp add: prune_def distinct_map_filter)
  let ?es2 = "if length (fst (prune now es)) \<ge> m
    then (case fst (prune now es) of [] \<Rightarrow> [] | (k, _) # _ \<Rightarrow> AList.delete k (fst (prune now es)))
    else fst (prune now es)"
  have "distinct (map fst ?es2)" using d by (auto split: list.splits intro: distinct_delete)
  then have "distinct (map fst (AList.update (nonce_key ns n) e ?es2))" by (rule distinct_update)
  with d show ?thesis unfolding nonce_claim_def Let_def
    by (cases "nonce_key ns n \<in> fst ` set (fst (prune now es))") (simp_all only: if_True if_False fst_conv)
qed

lemma verify_ok: "sec_ok sec \<Longrightarrow> sec_ok (fst (verify hmac toNumber body header now sec))"
  using nonce_claim_distinct
  by (auto simp: verify_def sec_ok_def split: option.splits prod.splits bool.splits dest!: arg_cong [where f = fst])

section \<open>Parsing a signed header\<close>

lemma split_on_append:
  "c \<notin> set xs \<Longrightarrow> split_on c (xs @ c # ys) = xs # split_on c ys"
  by (induction xs) auto

lemma split_on_last: "c \<notin> set xs \<Longrightarrow> split_on c xs = [xs]"
  by (induction xs) auto

lemma header_part_eq: "CHR ''='' \<notin> set k \<Longrightarrow> header_part (k @ CHR ''='' # v) = (k, v)"
proof -
  assume "CHR ''='' \<notin> set k"
  then have "takeWhile (\<lambda>c. c \<noteq> CHR ''='') (k @ CHR ''='' # v) = k"
    "dropWhile (\<lambda>c. c \<noteq> CHR ''='') (k @ CHR ''='' # v) = CHR ''='' # v"
    by (induction k) auto
  then show ?thesis by (simp add: header_part_def)
qed

lemma id_char_no_comma: "list_all id_char s \<Longrightarrow> CHR '','' \<notin> set s"
  by (auto simp: list_all_iff id_char_def Let_def)

lemma hex_char_no_comma: "list_all hex_char s \<Longrightarrow> CHR '','' \<notin> set s"
  by (auto simp: list_all_iff hex_char_def Let_def)

lemma digits_no_comma: "0 \<le> t \<Longrightarrow> CHR '','' \<notin> set (int_to_string t)"
  using nat_to_string_digits by (fastforce simp: int_to_string_def is_digit_def Let_def)

lemma length_time: "0 \<le> t \<Longrightarrow> t \<le> MAX_SAFE_INTEGER \<Longrightarrow> length (int_to_string t) \<le> 16"
  using length_nat_to_string [of "nat t" 15] by (simp add: int_to_string_def MAX_SAFE_INTEGER_def)

lemma parseHeader_print:
  assumes "valid_key_id kid" and "0 \<le> t" "t \<le> MAX_SAFE_INTEGER" and "toNumber (int_to_string t) = Some t"
    and "list_all hex_char nonce" "8 \<le> length nonce" "length nonce \<le> 128"
    and "list_all hex_char sg" "length sg = 64"
  shows "parseHeader toNumber (''v1='' @ kid @ '',t='' @ int_to_string t @ '',n='' @ nonce @ '',s='' @ sg) =
    Some \<lparr>ph_keyId = kid, ph_timestamp = t, ph_nonce = nonce, ph_signature = sg\<rparr>"
proof -
  let ?h = "''v1='' @ kid @ '',t='' @ int_to_string t @ '',n='' @ nonce @ '',s='' @ sg"
  have len: "length ?h \<le> 512"
    using assms length_time [OF assms(2,3)] by (simp add: valid_key_id_def)
  have "?h = (''v1='' @ kid) @ CHR '','' # (''t='' @ int_to_string t) @ CHR '','' # (''n='' @ nonce) @ CHR '','' # (''s='' @ sg)"
    by simp
  moreover have "CHR '','' \<notin> set (''v1='' @ kid)" "CHR '','' \<notin> set (''t='' @ int_to_string t)"
    "CHR '','' \<notin> set (''n='' @ nonce)" "CHR '','' \<notin> set (''s='' @ sg)"
    using assms id_char_no_comma hex_char_no_comma digits_no_comma by (auto simp: valid_key_id_def)
  ultimately have "split_on CHR '','' ?h = [''v1='' @ kid, ''t='' @ int_to_string t, ''n='' @ nonce, ''s='' @ sg]"
    by (metis split_on_append split_on_last)
  then have "rev (map header_part (split_on CHR '','' ?h)) =
      [(''s'', sg), (''n'', nonce), (''t'', int_to_string t), (''v1'', kid)]"
    using header_part_eq [of "''v1''" kid] header_part_eq [of "''t''"] header_part_eq [of "''n''"] header_part_eq [of "''s''"]
    by simp
  then show ?thesis using len assms unfolding parseHeader_def Let_def by simp
qed

section \<open>Signing and verifying agree\<close>

definition hmac_hex :: "(string \<Rightarrow> string \<Rightarrow> string) \<Rightarrow> bool" where
  "hmac_hex hmac \<longleftrightarrow> (\<forall>secret msg. list_all hex_char (hmac secret msg) \<and> length (hmac secret msg) = 64)"

lemma activeKey_SomeD:
  assumes "activeKey now sec = Some k" and "sec_ok sec"
  shows "key_active now k \<and> map_of (sec_keys sec) (k_id k) = Some k \<and> valid_key_id (k_id k)"
proof -
  have "k \<in> set (sort_key (\<lambda>k. - k_activeFrom k) (filter (key_active now) (map snd (sec_keys sec))))"
    using assms(1) unfolding activeKey_def by (simp only: split: list.splits) auto
  then have k: "key_active now k" "k \<in> snd ` set (sec_keys sec)" unfolding set_sort by auto
  then obtain i where "(i, k) \<in> set (sec_keys sec)" by auto
  then have "map_of (sec_keys sec) i = Some k" using assms(2) by (simp add: sec_ok_def)
  with k assms(2) show ?thesis by (auto simp: sec_ok_def)
qed

lemma nonce_claim_fresh:
  "nonce_key ns n \<notin> fst ` set (fst (prune now es)) \<Longrightarrow> snd (nonce_claim m ns n e now es)"
  by (simp add: nonce_claim_def Let_def)

lemma signed_accepted:
  assumes "sec_ok sec" and "sign hmac body t nonce sec = Some sg"
    and "hmac_hex hmac" and "toNumber (int_to_string t) = Some t" and "0 \<le> t" "t \<le> MAX_SAFE_INTEGER"
    and "list_all hex_char nonce" "8 \<le> length nonce" "length nonce \<le> 128"
    and "activeKey t sec = Some k" and "key_active now k" and "\<bar>now - t\<bar> \<le> sec_tolerance sec"
    and "nonce_key (k_id k) nonce \<notin> fst ` set (fst (prune now (sec_nonces sec)))"
  shows "snd (verify hmac toNumber body (sg_header sg) now sec) = VOk (k_id k) t nonce"
proof -
  have k: "map_of (sec_keys sec) (k_id k) = Some k" "valid_key_id (k_id k)"
    using activeKey_SomeD [OF assms(10,1)] by simp_all
  have sig: "list_all hex_char (digest hmac k body t nonce)" "length (digest hmac k body t nonce) = 64"
    using assms(3) by (simp_all add: hmac_hex_def digest_def)
  have hdr: "sg_header sg = ''v1='' @ k_id k @ '',t='' @ int_to_string t @ '',n='' @ nonce @ '',s='' @ digest hmac k body t nonce"
    using assms(2,10) by (auto simp: sign_def Let_def)
  have "parseHeader toNumber (sg_header sg) =
      Some \<lparr>ph_keyId = k_id k, ph_timestamp = t, ph_nonce = nonce, ph_signature = digest hmac k body t nonce\<rparr>"
    unfolding hdr by (rule parseHeader_print) (use assms k sig in simp_all)
  then show ?thesis
    using k assms nonce_claim_fresh [OF assms(13), of "sec_maxEntries sec" "now + sec_nonceTtl sec"]
    by (auto simp: verify_def split: prod.splits bool.splits)
qed

text \<open>C26. Signing and verifying agree: a body signed at time \<open>t\<close> with a fresh hexadecimal nonce is
  accepted by the same signer at every time within the tolerance at which the signing key is still
  active, with the key, timestamp and nonce it was signed with.\<close>

theorem sign_verify_roundtrip:
  assumes "sec_ok sec" and "sign hmac body t nonce sec = Some sg"
    and "hmac_hex hmac" and "toNumber (int_to_string t) = Some t" and "0 \<le> t" "t \<le> MAX_SAFE_INTEGER"
    and "list_all hex_char nonce" "8 \<le> length nonce" "length nonce \<le> 128"
    and "activeKey t sec = Some k" and "key_active now k" and "\<bar>now - t\<bar> \<le> sec_tolerance sec"
    and "nonce_key (k_id k) nonce \<notin> fst ` set (fst (prune now (sec_nonces sec)))"
  shows "snd (verify hmac toNumber body (sg_header sg) now sec) = VOk (k_id k) t nonce"
  using assms by (rule signed_accepted)

definition demo_hmac :: "string \<Rightarrow> string \<Rightarrow> string" where
  "demo_hmac secret msg = replicate 64 (CHR ''a'')"

definition demo_key :: signing_key where
  "demo_key = \<lparr>k_id = ''k1'', k_secret = replicate 16 (CHR ''s''), k_activeFrom = 0, k_expiresAt = None\<rparr>"

definition demo_sec :: webhook_security where
  "demo_sec = \<lparr>sec_keys = [(''k1'', demo_key)], sec_tolerance = 300, sec_nonceTtl = 600,
     sec_maxEntries = 10000, sec_nonces = []\<rparr>"

lemma demo_sec_new: "new_security [demo_key] None None 10000 = Some demo_sec"
  by (simp add: new_security_def addKey_def demo_key_def demo_sec_def valid_key_id_def id_char_def
      safe_integer_def positive_def MAX_SAFE_INTEGER_def MAX_SIGNING_KEYS_def
      DEFAULT_TIMESTAMP_TOLERANCE_SECONDS_def DEFAULT_NONCE_TTL_SECONDS_def)

lemma demo_active: "activeKey t demo_sec = (if 0 \<le> t then Some demo_key else None)" "0 \<le> t \<Longrightarrow> key_active t demo_key"
  by (simp_all add: activeKey_def demo_sec_def demo_key_def key_active_def)

lemma demo_hmac_hex: "hmac_hex demo_hmac"
  by (simp add: hmac_hex_def demo_hmac_def hex_char_def list_all_iff)

theorem sign_verify_roundtrip_witness:
  "\<exists>sg. sign demo_hmac ''body'' 1000 ''0123456789abcdef'' demo_sec = Some sg \<and>
     snd (verify demo_hmac (\<lambda>s. bigint_of_string s) ''body'' (sg_header sg) 1100 demo_sec) = VOk ''k1'' 1000 ''0123456789abcdef''"
proof -
  let ?sg = "the (sign demo_hmac ''body'' 1000 ''0123456789abcdef'' demo_sec)"
  have s: "sign demo_hmac ''body'' 1000 ''0123456789abcdef'' demo_sec = Some ?sg"
    by (simp add: sign_def demo_active Let_def)
  have "snd (verify demo_hmac bigint_of_string ''body'' (sg_header ?sg) 1100 demo_sec) = VOk (k_id demo_key) 1000 ''0123456789abcdef''"
    by (rule sign_verify_roundtrip [OF new_security_ok [OF demo_sec_new] s demo_hmac_hex])
       (simp_all add: demo_active MAX_SAFE_INTEGER_def hex_char_def Let_def, simp_all add: demo_sec_def prune_def)
  with s show ?thesis by (auto simp: demo_key_def)
qed

lemma demo_accepted:
  assumes "0 \<le> t" "t \<le> MAX_SAFE_INTEGER" "0 \<le> now" "\<bar>now - t\<bar> \<le> tol" "0 < tol"
  shows "\<exists>header. snd (verify demo_hmac bigint_of_string ''body'' header now (demo_sec\<lparr>sec_tolerance := tol\<rparr>)) =
    VOk ''k1'' t ''0123456789abcdef''"
proof -
  let ?sec = "demo_sec\<lparr>sec_tolerance := tol\<rparr>" and ?n = "''0123456789abcdef''"
  have ok: "sec_ok ?sec" using new_security_ok [OF demo_sec_new] assms(5) by (simp add: sec_ok_def)
  have act: "activeKey t ?sec = Some demo_key" using assms(1) demo_active(1) [of t] by (simp add: activeKey_def)
  then have s: "sign demo_hmac ''body'' t ?n ?sec = Some (the (sign demo_hmac ''body'' t ?n ?sec))"
    by (simp add: sign_def Let_def)
  have "snd (verify demo_hmac bigint_of_string ''body'' (sg_header (the (sign demo_hmac ''body'' t ?n ?sec))) now ?sec) =
      VOk (k_id demo_key) t ?n"
    by (rule signed_accepted [OF ok s demo_hmac_hex _ _ _ _ _ _ act])
       (use assms demo_active(2) in \<open>simp_all add: hex_char_def demo_sec_def prune_def\<close>)
  then show ?thesis by (auto simp: demo_key_def)
qed

section \<open>Replays\<close>

text \<open>A sequence of verifications (body, header, time) by one receiver.\<close>

fun verify_all ::
  "(string \<Rightarrow> string \<Rightarrow> string) \<Rightarrow> (string \<Rightarrow> int option) \<Rightarrow> (string \<times> string \<times> int) list \<Rightarrow> webhook_security \<Rightarrow> webhook_security" where
  "verify_all hmac toNumber [] sec = sec"
| "verify_all hmac toNumber ((body, header, now) # rest) sec =
     verify_all hmac toNumber rest (fst (verify hmac toNumber body header now sec))"

lemma map_of_prune:
  "distinct (map fst es) \<Longrightarrow> map_of (fst (prune now es)) k =
     (case map_of es k of None \<Rightarrow> None | Some e \<Rightarrow> if e \<le> now then None else Some e)"
  by (induction es) (auto simp: prune_def map_of_eq_None_iff split: option.splits)

lemma length_update_le: "length (AList.update k v al) \<le> Suc (length al)"
  by (induction al) auto

lemma nonce_claim_keeps:
  assumes "distinct (map fst es)" and "map_of es key = Some e" and "now < e" and "length es < m"
  shows "map_of (fst (nonce_claim m ns n x now es)) key = Some e
    \<and> length (fst (nonce_claim m ns n x now es)) \<le> Suc (length es)"
proof -
  let ?es1 = "fst (prune now es)"
  have keep: "map_of ?es1 key = Some e" using map_of_prune [OF assms(1)] assms(2,3) by simp
  then have inn: "key \<in> fst ` set ?es1" by (force dest: map_of_SomeD)
  have len: "length ?es1 \<le> length es" by (simp add: prune_def)
  then have cap: "\<not> m \<le> length ?es1" using assms(4) by simp
  show ?thesis
  proof (cases "nonce_key ns n \<in> fst ` set ?es1")
    case True
    then show ?thesis using keep len by (simp add: nonce_claim_def Let_def)
  next
    case False
    with inn have "key \<noteq> nonce_key ns n" by blast
    with False cap keep len show ?thesis
      using le_trans [OF length_update_le [of "nonce_key ns n" x ?es1]]
      by (simp add: nonce_claim_def Let_def update_conv')
  qed
qed

lemma verify_keeps:
  assumes "sec_ok sec" and "map_of (sec_nonces sec) key = Some e" and "now < e"
    and "length (sec_nonces sec) < sec_maxEntries sec"
  shows "map_of (sec_nonces (fst (verify hmac toNumber body header now sec))) key = Some e
    \<and> length (sec_nonces (fst (verify hmac toNumber body header now sec))) \<le> Suc (length (sec_nonces sec))"
proof -
  have d: "distinct (map fst (sec_nonces sec))" using assms(1) by (simp add: sec_ok_def)
  note c = nonce_claim_keeps [OF d assms(2-4)]
  show ?thesis
    using assms(2) c by (auto simp: verify_def split: option.splits prod.splits bool.splits dest!: arg_cong [where f = fst])
qed

lemma verify_frame [simp]:
  "sec_maxEntries (fst (verify hmac toNumber body header now sec)) = sec_maxEntries sec"
  "sec_tolerance (fst (verify hmac toNumber body header now sec)) = sec_tolerance sec"
  "sec_keys (fst (verify hmac toNumber body header now sec)) = sec_keys sec"
  by (auto simp: verify_def split: option.splits prod.splits bool.splits)

lemma verify_all_keeps:
  assumes "sec_ok sec" and "map_of (sec_nonces sec) key = Some e" and "\<forall>(b, h, t) \<in> set ops. t < e"
    and "length (sec_nonces sec) + length ops \<le> sec_maxEntries sec"
  shows "map_of (sec_nonces (verify_all hmac toNumber ops sec)) key = Some e
    \<and> sec_ok (verify_all hmac toNumber ops sec)
    \<and> sec_tolerance (verify_all hmac toNumber ops sec) = sec_tolerance sec"
  using assms
proof (induction ops arbitrary: sec)
  case (Cons op ops)
  obtain b h t where op: "op = (b, h, t)" by (cases op)
  let ?sec = "fst (verify hmac toNumber b h t sec)"
  have k: "map_of (sec_nonces ?sec) key = Some e" "length (sec_nonces ?sec) \<le> Suc (length (sec_nonces sec))"
    using verify_keeps [OF Cons.prems(1,2), of t hmac toNumber b h] Cons.prems(3,4) op by auto
  show ?case
    using Cons.IH [OF verify_ok [OF Cons.prems(1)] k(1)] Cons.prems(3,4) k(2) op by auto
qed simp

lemma verify_okD:
  assumes "snd (verify hmac toNumber body header now sec) = VOk kid t nonce" and "sec_ok sec"
  shows "\<exists>p. parseHeader toNumber header = Some p \<and> ph_keyId p = kid \<and> ph_timestamp p = t \<and> ph_nonce p = nonce
    \<and> \<bar>now - t\<bar> \<le> sec_tolerance sec \<and> nonce_key kid nonce \<notin> fst ` set (fst (prune now (sec_nonces sec)))
    \<and> map_of (sec_nonces (fst (verify hmac toNumber body header now sec))) (nonce_key kid nonce) = Some (now + sec_nonceTtl sec)"
proof -
  obtain p key es where p: "parseHeader toNumber header = Some p" "map_of (sec_keys sec) (ph_keyId p) = Some key"
    "k_id key = kid" "ph_timestamp p = t" "ph_nonce p = nonce" "\<bar>now - t\<bar> \<le> sec_tolerance sec"
    and c: "nonce_claim (sec_maxEntries sec) kid nonce (now + sec_nonceTtl sec) now (sec_nonces sec) = (es, True)"
    and v: "fst (verify hmac toNumber body header now sec) = sec\<lparr>sec_nonces := es\<rparr>"
    using assms(1) by (auto simp: verify_def split: option.splits if_splits prod.splits bool.splits)
  have "ph_keyId p = kid" using p(2,3) assms(2) by (auto simp: sec_ok_def)
  moreover have "nonce_key kid nonce \<notin> fst ` set (fst (prune now (sec_nonces sec)))"
    "map_of es (nonce_key kid nonce) = Some (now + sec_nonceTtl sec)"
    using c by (auto simp: nonce_claim_def Let_def update_conv' split: if_splits)
  ultimately show ?thesis using p v by auto
qed

text \<open>Replays are refused: if the nonce lifetime is more than twice the timestamp tolerance, then
  after a message was accepted, and after any further verifications (fewer than the nonce cache can
  hold) at times before the nonce expires, no message with the same key, timestamp and nonce is ever
  accepted again, at any later time.\<close>

lemma replay_refused:
  assumes "sec_ok sec" and "snd (verify hmac toNumber body header now sec) = VOk kid t nonce"
    and "2 * sec_tolerance sec < sec_nonceTtl sec"
    and "\<forall>(b, h, u) \<in> set ops. u < now + sec_nonceTtl sec"
    and "length (sec_nonces (fst (verify hmac toNumber body header now sec))) + length ops \<le> sec_maxEntries sec"
    and "parseHeader toNumber header' = Some p" and "ph_keyId p = kid" "ph_timestamp p = t" "ph_nonce p = nonce"
    and "now \<le> later"
  shows "\<exists>why. snd (verify hmac toNumber body' header' later
    (verify_all hmac toNumber ops (fst (verify hmac toNumber body header now sec)))) = VFail why"
proof (rule ccontr)
  let ?sec1 = "fst (verify hmac toNumber body header now sec)"
  let ?sec2 = "verify_all hmac toNumber ops ?sec1"
  assume "\<not> ?thesis"
  then obtain kid' t' n' where v: "snd (verify hmac toNumber body' header' later ?sec2) = VOk kid' t' n'"
    by (cases "snd (verify hmac toNumber body' header' later ?sec2)") auto
  have acc: "\<bar>now - t\<bar> \<le> sec_tolerance sec"
    "map_of (sec_nonces ?sec1) (nonce_key kid nonce) = Some (now + sec_nonceTtl sec)"
    using verify_okD [OF assms(2,1)] by auto
  have keep: "map_of (sec_nonces ?sec2) (nonce_key kid nonce) = Some (now + sec_nonceTtl sec)"
    "sec_ok ?sec2" "sec_tolerance ?sec2 = sec_tolerance sec"
    using verify_all_keeps [OF verify_ok [OF assms(1)] acc(2) assms(4)] assms(5) by auto
  have w: "\<bar>later - t\<bar> \<le> sec_tolerance sec" "nonce_key kid nonce \<notin> fst ` set (fst (prune later (sec_nonces ?sec2)))"
    using verify_okD [OF v keep(2)] assms(6-9) keep(3) by auto
  then have "later < now + sec_nonceTtl sec" using acc(1) assms(3) by linarith
  then have "map_of (fst (prune later (sec_nonces ?sec2))) (nonce_key kid nonce) = Some (now + sec_nonceTtl sec)"
    using map_of_prune [of "sec_nonces ?sec2" later] keep(1,2) by (simp add: sec_ok_def)
  then show False using w(2) by (force dest: map_of_SomeD)
qed

text \<open>With the default configuration (tolerance 300 s, nonce lifetime 600 s) a message can be
  replayed once: a message accepted with a timestamp 300 s ahead of the receiver's clock is accepted
  again, unchanged, exactly 600 s later, since its nonce is dropped in the very second its timestamp
  is last accepted.\<close>

lemma replay_at_boundary:
  assumes "sec_ok sec" and "sec_tolerance sec = DEFAULT_TIMESTAMP_TOLERANCE_SECONDS"
    and "sec_nonceTtl sec = DEFAULT_NONCE_TTL_SECONDS"
    and "snd (verify hmac toNumber body header now sec) = VOk kid (now + 300) nonce"
    and "\<forall>k. map_of (sec_keys sec) kid = Some k \<longrightarrow> key_active (now + 600) k"
  shows "snd (verify hmac toNumber body header (now + 600) (fst (verify hmac toNumber body header now sec))) =
    VOk kid (now + 300) nonce"
proof -
  let ?sec1 = "fst (verify hmac toNumber body header now sec)"
  obtain p where p: "parseHeader toNumber header = Some p" "ph_keyId p = kid" "ph_timestamp p = now + 300" "ph_nonce p = nonce"
    and m: "map_of (sec_nonces ?sec1) (nonce_key kid nonce) = Some (now + 600)"
    using verify_okD [OF assms(4,1)] assms(3) by (auto simp: DEFAULT_NONCE_TTL_SECONDS_def)
  have "map_of (fst (prune (now + 600) (sec_nonces ?sec1))) (nonce_key kid nonce) = None"
    using map_of_prune [of "sec_nonces ?sec1" "now + 600"] m verify_ok [OF assms(1)] by (simp add: sec_ok_def)
  then have fresh: "nonce_key kid nonce \<notin> fst ` set (fst (prune (now + 600) (sec_nonces ?sec1)))"
    by (simp add: map_of_eq_None_iff)
  obtain key where key: "map_of (sec_keys sec) kid = Some key" "k_id key = kid"
    "hex_bytes (digest hmac key body (now + 300) nonce) = hex_bytes (ph_signature p)"
    using assms(4) p by (auto simp: verify_def split: option.splits if_splits prod.splits bool.splits)
  show ?thesis
    unfolding verify_def [of _ _ _ _ "now + 600"]
    using p key assms(2,5) nonce_claim_fresh [OF fresh, of "sec_maxEntries ?sec1" "now + 600 + sec_nonceTtl ?sec1"]
    by (auto simp: DEFAULT_TIMESTAMP_TOLERANCE_SECONDS_def split: prod.splits bool.splits)
qed

lemma replay_at_boundary_witness:
  "\<exists>header. snd (verify demo_hmac bigint_of_string ''body'' header 1000 demo_sec) = VOk ''k1'' 1300 ''0123456789abcdef''
     \<and> snd (verify demo_hmac bigint_of_string ''body'' header 1600 (fst (verify demo_hmac bigint_of_string ''body'' header 1000 demo_sec))) =
       VOk ''k1'' 1300 ''0123456789abcdef''"
proof -
  have same: "demo_sec\<lparr>sec_tolerance := 300\<rparr> = demo_sec" by (simp add: demo_sec_def)
  obtain header where h: "snd (verify demo_hmac bigint_of_string ''body'' header 1000 demo_sec) = VOk ''k1'' 1300 ''0123456789abcdef''"
    using demo_accepted [of 1300 1000 300] unfolding same by (auto simp: MAX_SAFE_INTEGER_def)
  have key: "\<forall>k. map_of (sec_keys demo_sec) ''k1'' = Some k \<longrightarrow> key_active 1600 k"
    using demo_active(2) [of 1600] by (auto simp: demo_sec_def)
  from replay_at_boundary [OF new_security_ok [OF demo_sec_new], of demo_hmac bigint_of_string "''body''" header 1000 "''k1''"] h key
  show ?thesis
    by (intro exI [of _ header]) (simp add: demo_sec_def DEFAULT_TIMESTAMP_TOLERANCE_SECONDS_def DEFAULT_NONCE_TTL_SECONDS_def)
qed

lemma replay_refused_witness:
  "\<exists>header why. snd (verify demo_hmac bigint_of_string ''body'' header 1000 (demo_sec\<lparr>sec_tolerance := 200\<rparr>)) =
       VOk ''k1'' 1100 ''0123456789abcdef''
     \<and> snd (verify demo_hmac bigint_of_string ''body'' header 1001
          (fst (verify demo_hmac bigint_of_string ''body'' header 1000 (demo_sec\<lparr>sec_tolerance := 200\<rparr>)))) = VFail why"
proof -
  let ?sec = "demo_sec\<lparr>sec_tolerance := 200\<rparr>"
  obtain header where h: "snd (verify demo_hmac bigint_of_string ''body'' header 1000 ?sec) = VOk ''k1'' 1100 ''0123456789abcdef''"
    using demo_accepted [of 1100 1000 200] by (auto simp: MAX_SAFE_INTEGER_def)
  have ok: "sec_ok ?sec" using new_security_ok [OF demo_sec_new] by (simp add: sec_ok_def)
  obtain p where p: "parseHeader bigint_of_string header = Some p" "ph_keyId p = ''k1''" "ph_timestamp p = 1100"
    "ph_nonce p = ''0123456789abcdef''" using verify_okD [OF h ok] by auto
  have "length (sec_nonces (fst (verify demo_hmac bigint_of_string ''body'' header 1000 ?sec))) \<le> 1"
    by (auto simp: verify_def nonce_claim_def prune_def demo_sec_def split: option.splits)
  then have "\<exists>why. snd (verify demo_hmac bigint_of_string ''body'' header 1001
      (verify_all demo_hmac bigint_of_string [] (fst (verify demo_hmac bigint_of_string ''body'' header 1000 ?sec)))) = VFail why"
    by (intro replay_refused [OF ok h _ _ _ p]) (simp_all add: demo_sec_def)
  with h show ?thesis by auto
qed

end
