(* ===== verification/Webhook_Dispatcher.thy ===== *)
theory Webhook_Dispatcher
  imports Webhook_Store Webhook_Security
begin

text \<open>
  The class \<^verbatim>\<open>WebhookDispatcher\<close> of \<^verbatim>\<open>src/services/webhookDispatcher.ts\<close>, over any store that
  satisfies the contract \<open>webhook_store\<close>: signing and enqueueing, one delivery attempt, and replay from
  the dead-letter queue. HMAC and the HTTP sender are arguments; \<open>send\<close> answers the status code, or
  \<open>Inl\<close> the message of the exception it throws. The properties are proved inside the contract and
  stated for the in-memory store.
\<close>

section \<open>Definitions\<close>

definition defaultBackoff :: "nat \<Rightarrow> int" where
  "defaultBackoff attempt = min (2 ^ (attempt - 1) * 1000) (5 * 60 * 1000)"

definition dispatcher_sign :: "(string \<Rightarrow> string \<Rightarrow> string) \<Rightarrow> string \<Rightarrow> string \<Rightarrow> string" where
  "dispatcher_sign hmac secret payload = hmac secret payload"

definition dispatcher_verify :: "(string \<Rightarrow> string \<Rightarrow> string) \<Rightarrow> string \<Rightarrow> string \<Rightarrow> string \<Rightarrow> bool" where
  "dispatcher_verify hmac secret payload signature =
     (let expected = dispatcher_sign hmac secret payload
      in length expected = length signature \<and> expected = signature)"

record enqueue_input =
  ei_eventId :: string
  ei_eventType :: string
  ei_targetUrl :: string
  ei_payload :: string
  ei_signature :: "string option"
  ei_headers :: "header_map option"
  ei_maxAttempts :: "nat option"

text \<open>Object spread: later keys replace earlier ones.\<close>

definition spread :: "header_map \<Rightarrow> header_map \<Rightarrow> header_map" where
  "spread base rest = fold (\<lambda>(k, v) m. AList.update k v m) rest base"

text \<open>\<open>security\<close>: the optional rotating-key signer with the time and nonce it would use now. \<open>None\<close>: it
  has no active key and throws.\<close>

definition enqueue ::
  "'s store_ops \<Rightarrow> (string \<Rightarrow> string \<Rightarrow> string) \<Rightarrow> string \<Rightarrow> (webhook_security \<times> int \<times> string) option
     \<Rightarrow> string \<Rightarrow> time \<Rightarrow> time \<Rightarrow> enqueue_input \<Rightarrow> 's \<Rightarrow> ('s \<times> webhook_delivery) option" where
  "enqueue S hmac secret security newId now created inp s =
    (let store = (\<lambda>signature headers. ws_create S newId now created
           \<lparr>n_eventId = ei_eventId inp, n_eventType = ei_eventType inp, n_targetUrl = ei_targetUrl inp,
            n_payload = ei_payload inp, n_signature = signature, n_headers = headers,
            n_maxAttempts = ei_maxAttempts inp\<rparr> s)
     in case (security, ei_signature inp) of
          (Some (sec, t, nonce), None) \<Rightarrow>
            (case sign hmac (ei_payload inp) t nonce sec of
               None \<Rightarrow> None
             | Some signed \<Rightarrow>
                 Some (store (sg_header signed)
                   (Some (spread (case ei_headers inp of None \<Rightarrow> [] | Some h \<Rightarrow> h)
                     [(''x-predictify-timestamp'', int_to_string (sg_timestamp signed)),
                      (''x-predictify-nonce'', sg_nonce signed)]))))
        | (_, Some signature) \<Rightarrow> Some (store signature (ei_headers inp))
        | (None, None) \<Rightarrow> Some (store (dispatcher_sign hmac secret (ei_payload inp)) (ei_headers inp)))"

definition buildHeaders :: "webhook_delivery \<Rightarrow> header_map" where
  "buildHeaders d = spread
     [(''content-type'', ''application/json''), (''x-predictify-signature'', d_signature d),
      (''x-predictify-event-id'', d_eventId d), (''x-predictify-event-type'', d_eventType d)]
     (case d_headers d of None \<Rightarrow> [] | Some h \<Rightarrow> h)"

record http_request =
  rq_url :: string
  rq_body :: string
  rq_headers :: header_map

datatype attempt_result = ADelivered | ARetry | ADeadLettered | AGone

definition delivery_failure :: "string + int \<Rightarrow> string option" where
  "delivery_failure r = (case r of
     Inl msg \<Rightarrow> Some msg
   | Inr status \<Rightarrow> if status < 200 \<or> status \<ge> 300 then Some (''non-2xx response: '' @ int_to_string status) else None)"

text \<open>\<open>now\<close> is \<^verbatim>\<open>Date.now()\<close> at the retry computation, \<open>now1\<close> and \<open>now2\<close> the store's clock in the two
  updates, \<open>dlqId\<close> the identifier a dead letter would get. The third component lists the requests sent.\<close>

definition attemptDelivery ::
  "'s store_ops \<Rightarrow> (http_request \<Rightarrow> string + int) \<Rightarrow> (nat \<Rightarrow> int) \<Rightarrow> time \<Rightarrow> time \<Rightarrow> time \<Rightarrow> string \<Rightarrow> string \<Rightarrow> 's
     \<Rightarrow> 's \<times> attempt_result \<times> http_request list" where
  "attemptDelivery S send backoff now now1 now2 dlqId deliveryId s = (case ws_get S s deliveryId of
     None \<Rightarrow> (s, AGone, [])
   | Some delivery \<Rightarrow>
     if d_status delivery = DDelivered then (s, ADelivered, [])
     else
       (let attempt = d_attempts delivery + 1;
            req = \<lparr>rq_url = d_targetUrl delivery, rq_body = d_payload delivery, rq_headers = buildHeaders delivery\<rparr>
        in case delivery_failure (send req) of
             None \<Rightarrow> (fst (ws_update S deliveryId \<lparr>dp_status = Some DDelivered, dp_attempts = Some attempt,
                        dp_lastError = Some None, dp_nextAttemptAt = Some None\<rparr> now1 s), ADelivered, [req])
           | Some failure \<Rightarrow>
               (let s' = fst (ws_update S deliveryId \<lparr>dp_status = Some DFailed, dp_attempts = Some attempt,
                        dp_lastError = Some (Some failure), dp_nextAttemptAt = Some (Some (now + backoff attempt))\<rparr> now1 s)
                in if attempt \<ge> d_maxAttempts delivery
                   then (fst (ws_move S dlqId now2 deliveryId failure s'), ADeadLettered, [req])
                   else (s', ARetry, [req]))))"

definition replayFromDlq ::
  "'s store_ops \<Rightarrow> string \<Rightarrow> time \<Rightarrow> time \<Rightarrow> time \<Rightarrow> time \<Rightarrow> dlq_row \<Rightarrow> 's \<Rightarrow> 's \<times> webhook_delivery option" where
  "replayFromDlq S newId now created now1 now2 row s =
    (case ws_create S newId now created
        \<lparr>n_eventId = q_eventId row, n_eventType = q_eventType row, n_targetUrl = q_targetUrl row,
         n_payload = q_payload row, n_signature = q_signature row, n_headers = q_headers row,
         n_maxAttempts = Some (q_maxAttempts row)\<rparr> s of
       (s1, fresh) \<Rightarrow>
         (case ws_markReplayed S (q_id row) (d_id fresh) now1 s1 of
            (s2, True) \<Rightarrow> (s2, Some fresh)
          | (s2, False) \<Rightarrow>
              (fst (ws_update S (d_id fresh) \<lparr>dp_status = Some DFailed, dp_attempts = None,
                 dp_lastError = None, dp_nextAttemptAt = None\<rparr> now2 s2), None)))"

text \<open>\<open>n\<close> attempts in a row, the clock readings and the dead-letter identifier of the i-th given by
  functions; the sent requests are collected.\<close>

fun attempts_run ::
  "'s store_ops \<Rightarrow> (http_request \<Rightarrow> string + int) \<Rightarrow> (nat \<Rightarrow> int) \<Rightarrow> time \<Rightarrow> string \<Rightarrow> string \<Rightarrow> nat \<Rightarrow> 's
     \<Rightarrow> 's \<times> http_request list" where
  "attempts_run S send backoff now dlqId i 0 s = (s, [])"
| "attempts_run S send backoff now dlqId i (Suc n) s =
    (case attempts_run S send backoff now dlqId i n s of (s1, reqs) \<Rightarrow>
       (case attemptDelivery S send backoff now now now dlqId i s1 of (s2, _, rs) \<Rightarrow> (s2, reqs @ rs)))"

section \<open>Behaviour under the contract\<close>

context webhook_store
begin

lemma attempt_success:
  assumes "inv s" and "ws_get S s i = Some d" and "d_status d \<noteq> DDelivered"
    and "delivery_failure (send \<lparr>rq_url = d_targetUrl d, rq_body = d_payload d, rq_headers = buildHeaders d\<rparr>) = None"
  shows "\<exists>s'. attemptDelivery S send backoff now now1 now2 dlqId i s =
      (s', ADelivered, [\<lparr>rq_url = d_targetUrl d, rq_body = d_payload d, rq_headers = buildHeaders d\<rparr>])
    \<and> (\<exists>d'. ws_get S s' i = Some d' \<and> d_status d' = DDelivered \<and> d_attempts d' = d_attempts d + 1)"
  using assms by (simp add: attemptDelivery_def Let_def apply_patch_def)

lemma attempt_failure:
  assumes "inv s" and "ws_get S s i = Some d" and "d_status d \<noteq> DDelivered" and "ws_getDlq S s dlqId = None"
    and "delivery_failure (send \<lparr>rq_url = d_targetUrl d, rq_body = d_payload d, rq_headers = buildHeaders d\<rparr>) = Some err"
  shows "\<exists>s' res. attemptDelivery S send backoff now now1 now2 dlqId i s =
      (s', res, [\<lparr>rq_url = d_targetUrl d, rq_body = d_payload d, rq_headers = buildHeaders d\<rparr>]) \<and> inv s'
    \<and> (if d_attempts d + 1 \<ge> d_maxAttempts d
       then res = ADeadLettered \<and> ws_get S s' i = None
         \<and> (\<exists>q. ws_getDlq S s' dlqId = Some q \<and> q_originalId q = i \<and> q_payload q = d_payload d
              \<and> q_signature q = d_signature d \<and> q_attempts q = d_attempts d + 1 \<and> q_lastError q = err)
       else res = ARetry \<and> ws_getDlq S s' = ws_getDlq S s
         \<and> ws_get S s' i = Some (d\<lparr>d_status := DFailed, d_attempts := d_attempts d + 1, d_lastError := Some err,
              d_nextAttemptAt := Some (now + backoff (d_attempts d + 1)), d_updatedAt := now1\<rparr>))"
proof -
  let ?p = "\<lparr>dp_status = Some DFailed, dp_attempts = Some (d_attempts d + 1), dp_lastError = Some (Some err),
     dp_nextAttemptAt = Some (Some (now + backoff (d_attempts d + 1)))\<rparr>"
  let ?s = "fst (ws_update S i ?p now1 s)" and ?d = "apply_patch ?p now1 d"
  have u: "inv ?s" "ws_get S ?s i = Some ?d" "ws_getDlq S ?s dlqId = None"
    using assms by (simp_all add: update_inv)
  have id: "d_id d = i" by (rule get_id [OF assms(1,2)])
  note m = move_live [OF u, of now2 err]
  have "ws_get S (fst (ws_move S dlqId now2 i err ?s)) i = None"
    "ws_getDlq S (fst (ws_move S dlqId now2 i err ?s)) dlqId = Some (dlq_of dlqId now2 err ?d)"
    using m by simp_all
  moreover have "q_originalId (dlq_of dlqId now2 err ?d) = i" "q_payload (dlq_of dlqId now2 err ?d) = d_payload d"
    "q_signature (dlq_of dlqId now2 err ?d) = d_signature d" "q_attempts (dlq_of dlqId now2 err ?d) = d_attempts d + 1"
    "q_lastError (dlq_of dlqId now2 err ?d) = err"
    using id by (simp_all add: dlq_of_def apply_patch_def)
  moreover have "inv (fst (ws_move S dlqId now2 i err ?s))" by (rule move_inv [OF u(1,3)])
  ultimately show ?thesis
    using assms u unfolding attemptDelivery_def Let_def by (simp add: apply_patch_def)
qed

lemma attempts_all_fail:
  assumes "inv s" and "ws_get S s i = Some d" and "d_status d \<noteq> DDelivered" and "ws_getDlq S s dlqId = None"
    and "\<And>r. delivery_failure (send r) \<noteq> None" and "d_attempts d + n < d_maxAttempts d"
  shows "\<exists>s' d'. attempts_run S send backoff now dlqId i n s = (s', replicate n
      \<lparr>rq_url = d_targetUrl d, rq_body = d_payload d, rq_headers = buildHeaders d\<rparr>)
    \<and> inv s' \<and> ws_getDlq S s' = ws_getDlq S s \<and> ws_get S s' i = Some d' \<and> d_status d' \<noteq> DDelivered
    \<and> d_attempts d' = d_attempts d + n \<and> d_maxAttempts d' = d_maxAttempts d \<and> d_targetUrl d' = d_targetUrl d
    \<and> d_payload d' = d_payload d \<and> d_signature d' = d_signature d \<and> buildHeaders d' = buildHeaders d"
  using assms(6)
proof (induction n)
  case 0
  then show ?case using assms by auto
next
  case (Suc n)
  let ?req = "\<lparr>rq_url = d_targetUrl d, rq_body = d_payload d, rq_headers = buildHeaders d\<rparr>"
  from Suc obtain s1 d1 where r: "attempts_run S send backoff now dlqId i n s = (s1, replicate n ?req)"
    and s1: "inv s1" "ws_getDlq S s1 = ws_getDlq S s" "ws_get S s1 i = Some d1" "d_status d1 \<noteq> DDelivered"
    and d1: "d_attempts d1 = d_attempts d + n" "d_maxAttempts d1 = d_maxAttempts d" "d_targetUrl d1 = d_targetUrl d"
      "d_payload d1 = d_payload d" "d_signature d1 = d_signature d" "buildHeaders d1 = buildHeaders d" by auto
  obtain err where err: "delivery_failure (send \<lparr>rq_url = d_targetUrl d1, rq_body = d_payload d1, rq_headers = buildHeaders d1\<rparr>) = Some err"
    using assms(5) by blast
  have "buildHeaders (d1\<lparr>d_status := x, d_attempts := a, d_lastError := l, d_nextAttemptAt := n', d_updatedAt := u\<rparr>) = buildHeaders d1"
    for x a l n' u by (simp add: buildHeaders_def)
  then show ?case
    using attempt_failure [of s1 i d1 dlqId send err backoff now now now] err s1 d1 r Suc.prems assms(4)
    by (auto simp: replicate_append_same [symmetric])
qed

text \<open>A delivery that always fails is sent exactly as often as allowed and then dead-lettered.\<close>

lemma exhausted_dead_lettered:
  assumes "inv s" and "ws_get S s i = Some d" and "d_status d \<noteq> DDelivered" and "ws_getDlq S s dlqId = None"
    and "\<And>r. delivery_failure (send r) \<noteq> None" and "d_attempts d = 0" and "0 < d_maxAttempts d"
  shows "\<exists>s' q. attempts_run S send backoff now dlqId i (d_maxAttempts d) s = (s', replicate (d_maxAttempts d)
      \<lparr>rq_url = d_targetUrl d, rq_body = d_payload d, rq_headers = buildHeaders d\<rparr>)
    \<and> ws_get S s' i = None \<and> ws_getDlq S s' dlqId = Some q \<and> q_originalId q = i
    \<and> q_payload q = d_payload d \<and> q_signature q = d_signature d \<and> q_attempts q = d_maxAttempts d"
proof -
  let ?req = "\<lparr>rq_url = d_targetUrl d, rq_body = d_payload d, rq_headers = buildHeaders d\<rparr>"
  obtain n where n: "d_maxAttempts d = Suc n" using assms(7) by (cases "d_maxAttempts d") auto
  obtain s1 d1 where r: "attempts_run S send backoff now dlqId i n s = (s1, replicate n ?req)"
    and s1: "inv s1" "ws_getDlq S s1 = ws_getDlq S s" "ws_get S s1 i = Some d1" "d_status d1 \<noteq> DDelivered"
    and d1: "d_attempts d1 = n" "d_maxAttempts d1 = Suc n" "d_targetUrl d1 = d_targetUrl d"
      "d_payload d1 = d_payload d" "d_signature d1 = d_signature d" "buildHeaders d1 = buildHeaders d"
    using attempts_all_fail [of s i d dlqId send n backoff now] assms n by auto
  obtain err where err: "delivery_failure (send \<lparr>rq_url = d_targetUrl d1, rq_body = d_payload d1, rq_headers = buildHeaders d1\<rparr>) = Some err"
    using assms(5) by blast
  show ?thesis
    using attempt_failure [of s1 i d1 dlqId send err backoff now now now] err s1 d1 r n assms(4)
    by (auto simp: replicate_append_same [symmetric])
qed

lemma replay_fresh:
  assumes "inv s" and "ws_getDlq S s (q_id row) = Some row" and "q_replayedAt row = None" and "ws_get S s newId = None"
  shows "\<exists>s' d. replayFromDlq S newId now created now1 now2 row s = (s', Some d) \<and> inv s'
    \<and> ws_get S s' newId = Some d \<and> d_id d = newId \<and> d_payload d = q_payload row \<and> d_signature d = q_signature row
    \<and> d_headers d = q_headers row \<and> d_targetUrl d = q_targetUrl row \<and> d_maxAttempts d = q_maxAttempts row
    \<and> d_attempts d = 0 \<and> d_status d = DPending \<and> (\<forall>j. j \<noteq> newId \<longrightarrow> ws_get S s' j = ws_get S s j)
    \<and> ws_getDlq S s' (q_id row) = Some (row\<lparr>q_replayedAt := Some now1, q_replayDeliveryId := Some newId\<rparr>)"
proof -
  let ?nd = "\<lparr>n_eventId = q_eventId row, n_eventType = q_eventType row, n_targetUrl = q_targetUrl row,
         n_payload = q_payload row, n_signature = q_signature row, n_headers = q_headers row,
         n_maxAttempts = Some (q_maxAttempts row)\<rparr>"
  obtain s1 d where c: "ws_create S newId now created ?nd s = (s1, d)" by fastforce
  obtain t where d: "d = fresh_delivery newId now t ?nd"
    using create_row [OF assms(1,4)] c by (metis snd_conv)
  have s1: "inv s1" "ws_get S s1 newId = Some d" "ws_getDlq S s1 = ws_getDlq S s"
    and frame: "\<And>j. j \<noteq> newId \<Longrightarrow> ws_get S s1 j = ws_get S s j"
    using create_inv [OF assms(1,4), of now created ?nd] create_get [OF assms(1,4), of now created ?nd] c by auto
  have dlq: "ws_getDlq S s1 (q_id row) = Some row" using s1(3) assms(2) by simp
  obtain s2 b where m: "ws_markReplayed S (q_id row) newId now1 s1 = (s2, b)" by fastforce
  have "b" "ws_get S s2 = ws_get S s1"
    "ws_getDlq S s2 (q_id row) = Some (row\<lparr>q_replayedAt := Some now1, q_replayDeliveryId := Some newId\<rparr>)" "inv s2"
    using mark_hit [OF s1(1) dlq assms(3), of newId now1 "q_id row"] mark_inv [OF s1(1), of "q_id row" newId now1] m by auto
  then show ?thesis
    using c m d s1 frame by (auto simp: replayFromDlq_def fresh_delivery_def)
qed

lemma replay_lost:
  assumes "inv s" and "ws_getDlq S s (q_id row) = Some q" and "q_replayedAt q \<noteq> None" and "ws_get S s newId = None"
  shows "\<exists>s' d. replayFromDlq S newId now created now1 now2 row s = (s', None) \<and> inv s'
    \<and> ws_get S s' newId = Some d \<and> d_payload d = q_payload row \<and> d_signature d = q_signature row
    \<and> d_targetUrl d = q_targetUrl row \<and> d_attempts d = 0 \<and> d_status d = DFailed \<and> d_nextAttemptAt d = Some now"
proof -
  let ?nd = "\<lparr>n_eventId = q_eventId row, n_eventType = q_eventType row, n_targetUrl = q_targetUrl row,
         n_payload = q_payload row, n_signature = q_signature row, n_headers = q_headers row,
         n_maxAttempts = Some (q_maxAttempts row)\<rparr>"
  obtain s1 d where c: "ws_create S newId now created ?nd s = (s1, d)" by fastforce
  obtain t where d: "d = fresh_delivery newId now t ?nd"
    using create_row [OF assms(1,4)] c by (metis snd_conv)
  have s1: "inv s1" "ws_get S s1 newId = Some d" "ws_getDlq S s1 = ws_getDlq S s"
    using create_inv [OF assms(1,4), of now created ?nd] create_get [OF assms(1,4), of now created ?nd] c by auto
  have "ws_markReplayed S (q_id row) newId now1 s1 = (s1, False)"
    by (rule mark_miss [OF s1(1)]) (use assms(2,3) s1(3) in auto)
  then show ?thesis
    using c d s1 update_inv [OF s1(1)] by (auto simp: replayFromDlq_def fresh_delivery_def apply_patch_def)
qed

lemma leaked_replay_sent:
  assumes "inv s" and "ws_get S s i = Some d" and "d_status d = DFailed"
  shows "\<exists>s' res. attemptDelivery S send backoff now now1 now2 dlqId i s =
    (s', res, [\<lparr>rq_url = d_targetUrl d, rq_body = d_payload d, rq_headers = buildHeaders d\<rparr>])"
  using assms by (auto simp: attemptDelivery_def Let_def split: option.splits)

end

section \<open>Properties over the in-memory store\<close>

text \<open>Every attempt of a live delivery has exactly one of three outcomes: a 2xx answer makes it
  delivered with the attempt counted; a failure before the last allowed attempt keeps it live, failed,
  with the attempt counted, the error kept and the next attempt after the backoff; a failure of the
  last one removes it from the live table and leaves one dead letter with its payload, signature,
  attempt count and the error. In each case exactly one request is sent: the stored bytes under the
  stored signature.\<close>

lemma attempt_outcomes:
  assumes "mem_ok s" and "map_of (ms_deliveries s) i = Some d" and "d_status d \<noteq> DDelivered"
    and "map_of (ms_dlq s) dlqId = None"
    and "req = \<lparr>rq_url = d_targetUrl d, rq_body = d_payload d, rq_headers = buildHeaders d\<rparr>"
  shows "\<exists>s' res. attemptDelivery mem_ops send backoff now now1 now2 dlqId i s = (s', res, [req])
    \<and> (case delivery_failure (send req) of
         None \<Rightarrow> res = ADelivered \<and> (\<exists>d'. map_of (ms_deliveries s') i = Some d'
                  \<and> d_status d' = DDelivered \<and> d_attempts d' = d_attempts d + 1)
       | Some err \<Rightarrow>
           if d_attempts d + 1 \<ge> d_maxAttempts d
           then res = ADeadLettered \<and> map_of (ms_deliveries s') i = None
             \<and> (\<exists>q. map_of (ms_dlq s') dlqId = Some q \<and> q_originalId q = i \<and> q_payload q = d_payload d
                  \<and> q_signature q = d_signature d \<and> q_attempts q = d_attempts d + 1 \<and> q_lastError q = err)
           else res = ARetry
             \<and> map_of (ms_deliveries s') i = Some (d\<lparr>d_status := DFailed, d_attempts := d_attempts d + 1,
                  d_lastError := Some err, d_nextAttemptAt := Some (now + backoff (d_attempts d + 1)), d_updatedAt := now1\<rparr>))"
proof -
  have ops: "ws_get mem_ops = mem_getDelivery" "ws_getDlq mem_ops = mem_getDlqRow" by (simp_all add: mem_ops_def)
  have g: "ws_get mem_ops s i = Some d" "ws_getDlq mem_ops s dlqId = None"
    using assms(2,4) by (simp_all add: ops mem_getDelivery_def mem_getDlqRow_def)
  show ?thesis
  proof (cases "delivery_failure (send req)")
    case None
    then show ?thesis
      using mem.attempt_success [of s i d send backoff now now1 now2 dlqId] assms(1,3,5) g
      by (auto simp: ops mem_getDelivery_def)
  next
    case (Some err)
    then show ?thesis
      using mem.attempt_failure [of s i d dlqId send err backoff now now1 now2] assms(1,3,5) g
      by (auto simp: ops mem_getDelivery_def mem_getDlqRow_def split: if_splits)
  qed
qed

definition demo_delivery :: webhook_delivery where
  "demo_delivery = fresh_delivery ''d1'' 0 0 \<lparr>n_eventId = ''e'', n_eventType = ''market.resolved'',
     n_targetUrl = ''https://x'', n_payload = ''{}'', n_signature = ''sig'', n_headers = None, n_maxAttempts = Some 2\<rparr>"

definition demo_store :: mem_store where
  "demo_store = \<lparr>ms_deliveries = [(''d1'', demo_delivery)], ms_dlq = []\<rparr>"

lemma demo_store_ok: "mem_ok demo_store"
  by (simp add: mem_ok_def demo_store_def demo_delivery_def fresh_delivery_def)

lemma attempt_outcomes_witness:
  "\<exists>s' d'. fst (attemptDelivery mem_ops (\<lambda>_. Inr 200) defaultBackoff 1 1 1 ''q1'' ''d1'' demo_store) = s'
     \<and> map_of (ms_deliveries s') ''d1'' = Some d' \<and> d_status d' = DDelivered \<and> d_attempts d' = 1"
  using attempt_outcomes [OF demo_store_ok, of "''d1''" demo_delivery "''q1''" _ "\<lambda>_. Inr 200" defaultBackoff 1 1 1]
  by (auto simp: demo_store_def demo_delivery_def fresh_delivery_def delivery_failure_def)

text \<open>A subscriber that never answers 2xx is tried exactly the allowed number of times: all attempts
  send the identical request, and after the last one the delivery is gone from the live table and
  dead-lettered with that attempt count.\<close>

lemma exhausted_after_max_attempts:
  assumes "mem_ok s" and "map_of (ms_deliveries s) i = Some d" and "d_status d = DPending" and "d_attempts d = 0"
    and "0 < d_maxAttempts d" and "map_of (ms_dlq s) dlqId = None" and "\<And>r. delivery_failure (send r) \<noteq> None"
  shows "\<exists>s' q. attempts_run mem_ops send backoff now dlqId i (d_maxAttempts d) s = (s', replicate (d_maxAttempts d)
      \<lparr>rq_url = d_targetUrl d, rq_body = d_payload d, rq_headers = buildHeaders d\<rparr>)
    \<and> map_of (ms_deliveries s') i = None \<and> map_of (ms_dlq s') dlqId = Some q \<and> q_originalId q = i
    \<and> q_payload q = d_payload d \<and> q_signature q = d_signature d \<and> q_attempts q = d_maxAttempts d"
  using mem.exhausted_dead_lettered [of s i d dlqId send backoff now] assms
  by (simp add: mem_ops_def mem_getDelivery_def mem_getDlqRow_def)

lemma exhausted_after_max_attempts_witness:
  "\<exists>s' q reqs. attempts_run mem_ops (\<lambda>_. Inl ''down'') defaultBackoff 0 ''q1'' ''d1'' 2 demo_store = (s', reqs)
     \<and> length reqs = 2 \<and> map_of (ms_dlq s') ''q1'' = Some q \<and> q_attempts q = 2"
  using exhausted_after_max_attempts [OF demo_store_ok, of "''d1''" demo_delivery "''q1''" "\<lambda>_. Inl ''down''" defaultBackoff 0]
  by (force simp: demo_store_def demo_delivery_def fresh_delivery_def delivery_failure_def)

text \<open>A dead letter is replayed byte for byte, once: the first replay creates a pending delivery
  with the stored payload, signature, headers, target and attempt limit and no attempts made, and marks
  the dead letter with it. A replay that finds the dead letter already replayed returns nothing, but the
  delivery it created stays in the live table, failed, due at once, and is sent by the next attempt:
  the roll-back that is to prevent a duplicate delivery does not.\<close>

lemma replay_once_but_leaks:
  assumes "mem_ok s" and "map_of (ms_dlq s) (q_id row) = Some row" and "q_replayedAt row = None"
    and "map_of (ms_deliveries s) id1 = None" and "id2 \<noteq> id1" and "map_of (ms_deliveries s) id2 = None"
  shows "\<exists>s1 d1 s2 d2. replayFromDlq mem_ops id1 now created now1 now2 row s = (s1, Some d1)
    \<and> map_of (ms_deliveries s1) id1 = Some d1
    \<and> d_payload d1 = q_payload row \<and> d_signature d1 = q_signature row \<and> d_headers d1 = q_headers row
    \<and> d_attempts d1 = 0 \<and> d_status d1 = DPending \<and> d_maxAttempts d1 = q_maxAttempts row
    \<and> replayFromDlq mem_ops id2 now' created' now1' now2' row s1 = (s2, None)
    \<and> map_of (ms_deliveries s2) id2 = Some d2 \<and> d_status d2 = DFailed \<and> d_attempts d2 = 0
    \<and> d_nextAttemptAt d2 = Some now'
    \<and> snd (snd (attemptDelivery mem_ops send backoff t t1 t2 dlqId id2 s2)) =
        [\<lparr>rq_url = q_targetUrl row, rq_body = q_payload row, rq_headers = buildHeaders d2\<rparr>]"
proof -
  have ops: "ws_get mem_ops = mem_getDelivery" "ws_getDlq mem_ops = mem_getDlqRow" by (simp_all add: mem_ops_def)
  note g = ops mem_getDelivery_def mem_getDlqRow_def
  obtain s1 d1 where r1: "replayFromDlq mem_ops id1 now created now1 now2 row s = (s1, Some d1)" "mem_ok s1"
    "map_of (ms_deliveries s1) id1 = Some d1" "d_payload d1 = q_payload row" "d_signature d1 = q_signature row"
    "d_headers d1 = q_headers row" "d_attempts d1 = 0" "d_status d1 = DPending" "d_maxAttempts d1 = q_maxAttempts row"
    "map_of (ms_dlq s1) (q_id row) = Some (row\<lparr>q_replayedAt := Some now1, q_replayDeliveryId := Some id1\<rparr>)"
    "map_of (ms_deliveries s1) id2 = None"
    using mem.replay_fresh [of s row id1 now created now1 now2] assms by (auto simp: g)
  obtain s2 d2 where r2: "replayFromDlq mem_ops id2 now' created' now1' now2' row s1 = (s2, None)" "mem_ok s2"
    "map_of (ms_deliveries s2) id2 = Some d2" "d_payload d2 = q_payload row" "d_targetUrl d2 = q_targetUrl row"
    "d_status d2 = DFailed" "d_attempts d2 = 0" "d_nextAttemptAt d2 = Some now'"
    using mem.replay_lost [of s1 row _ id2 now' created' now1' now2'] r1(2,10,11) by (auto simp: g)
  have "snd (snd (attemptDelivery mem_ops send backoff t t1 t2 dlqId id2 s2)) =
      [\<lparr>rq_url = q_targetUrl row, rq_body = q_payload row, rq_headers = buildHeaders d2\<rparr>]"
    using mem.leaked_replay_sent [of s2 id2 d2 send backoff t t1 t2 dlqId] r2 by (auto simp: g)
  with r1 r2 show ?thesis by blast
qed

definition demo_dead :: dlq_row where
  "demo_dead = dlq_of ''q1'' 9 ''down'' demo_delivery"

lemma replay_once_but_leaks_witness:
  "\<exists>s1 d1 s2 d2. replayFromDlq mem_ops ''d2'' 10 10 10 10 demo_dead \<lparr>ms_deliveries = [], ms_dlq = [(''q1'', demo_dead)]\<rparr> = (s1, Some d1)
     \<and> d_payload d1 = ''{}'' \<and> replayFromDlq mem_ops ''d3'' 11 11 11 11 demo_dead s1 = (s2, None)
     \<and> map_of (ms_deliveries s2) ''d3'' = Some d2 \<and> d_status d2 = DFailed"
proof -
  have "mem_ok \<lparr>ms_deliveries = [], ms_dlq = [(''q1'', demo_dead)]\<rparr>" by (simp add: mem_ok_def)
  moreover have "q_id demo_dead = ''q1''" "q_replayedAt demo_dead = None" "q_payload demo_dead = ''{}''"
    by (simp_all add: demo_dead_def dlq_of_def demo_delivery_def fresh_delivery_def)
  ultimately show ?thesis
    using replay_once_but_leaks [of "\<lparr>ms_deliveries = [], ms_dlq = [(''q1'', demo_dead)]\<rparr>" demo_dead "''d2''" "''d3''" 10 10 10 10 11 11 11 11]
    by (simp, metis)
qed

end
