(* ===== verification/Webhook_Queue.thy ===== *)
theory Webhook_Queue
  imports Schema Js_Numerals
begin

text \<open>
  The queue-driven webhook path: the functions of \<^verbatim>\<open>src/services/webhookDispatcher.ts\<close> on the tables
  \<^verbatim>\<open>webhook_subscriptions\<close> and \<^verbatim>\<open>webhook_deliveries\<close> (signatures, fan-out, one attempt, backoff,
  subscription helpers) and the job handler of \<^verbatim>\<open>src/workers/webhookWorker.ts\<close>. HMAC, the JSON
  serialiser and the HTTP exchange are arguments; the queue is the list of messages added.
\<close>

section \<open>Rows and constants\<close>

datatype row_status = RPending | RDelivering | RSuccess | RFailed | RTerminal

record subscription_row =
  s_id :: string
  s_url :: string
  s_secret :: string
  s_events :: "string list option"   \<comment> \<open>\<open>None\<close>: the JSON value is not an array\<close>
  s_active :: bool
  s_createdAt :: time
  s_updatedAt :: time

record delivery_row =
  w_id :: string
  w_subscriptionId :: string
  w_eventType :: string
  w_payload :: json_fields
  w_status :: row_status
  w_attempt :: nat
  w_nextRetryAt :: time
  w_lastStatusCode :: "int option"
  w_lastError :: "string option"
  w_createdAt :: time
  w_updatedAt :: time

record webhook_db =
  wh_subs :: "subscription_row table"
  wh_rows :: "delivery_row table"

record post_result =
  ar_deliveryId :: string
  ar_success :: bool
  ar_statusCode :: "int option"
  ar_error :: "string option"

definition BACKOFF_MS :: "int list" where
  "BACKOFF_MS = [30 * 1000, 5 * 60 * 1000, 60 * 60 * 1000, 6 * 60 * 60 * 1000, 24 * 60 * 60 * 1000]"

definition MAX_ATTEMPTS :: nat where
  "MAX_ATTEMPTS = length BACKOFF_MS + 1"

section \<open>Signatures\<close>

text \<open>\<open>hmacHex\<close>: HMAC-SHA256 keyed with the bytes of a hexadecimal secret.\<close>

definition signPayload :: "(string \<Rightarrow> string \<Rightarrow> string) \<Rightarrow> string \<Rightarrow> string \<Rightarrow> string" where
  "signPayload hmacHex secret rawBody = ''sha256='' @ hmacHex secret rawBody"

definition verifySignature :: "(string \<Rightarrow> string \<Rightarrow> string) \<Rightarrow> string \<Rightarrow> string \<Rightarrow> string \<Rightarrow> bool" where
  "verifySignature hmacHex secret rawBody signature =
    (if \<not> prefix ''sha256='' signature then False
     else (let expected = signPayload hmacHex secret rawBody
           in if length expected \<noteq> length signature then False else expected = signature))"

section \<open>Fan-out and attempts\<close>

definition interested :: "string \<Rightarrow> subscription_row \<Rightarrow> bool" where
  "interested eventType sub = (case s_events sub of
     None \<Rightarrow> False | Some events \<Rightarrow> eventType \<in> set events \<or> ''*'' \<in> set events)"

definition new_row :: "string \<Rightarrow> time \<Rightarrow> string \<Rightarrow> json_fields \<Rightarrow> subscription_row \<Rightarrow> delivery_row" where
  "new_row newId now eventType payload sub =
     \<lparr>w_id = newId, w_subscriptionId = s_id sub, w_eventType = eventType, w_payload = payload,
      w_status = RPending, w_attempt = 0, w_nextRetryAt = now, w_lastStatusCode = None, w_lastError = None,
      w_createdAt = now, w_updatedAt = now\<rparr>"

text \<open>\<open>newIds\<close> gives the identifier of the row created for a subscription. Insertions and queue
  additions succeed (a rejected promise is reported as an entry of its own by the source).\<close>

definition dispatchEvent ::
  "(string \<Rightarrow> string) \<Rightarrow> time \<Rightarrow> string \<Rightarrow> json_fields \<Rightarrow> webhook_db \<Rightarrow> webhook_db \<times> post_result list \<times> string list" where
  "dispatchEvent newIds now eventType payload db =
    (let matching = filter (interested eventType) (filter s_active (wh_subs db))
     in if matching = [] then (db, [], [])
        else (db\<lparr>wh_rows := wh_rows db @ map (\<lambda>sub. new_row (newIds (s_id sub)) now eventType payload sub) matching\<rparr>,
              map (\<lambda>sub. \<lparr>ar_deliveryId = newIds (s_id sub), ar_success = True, ar_statusCode = Some 202, ar_error = None\<rparr>) matching,
              map (\<lambda>sub. newIds (s_id sub)) matching))"

definition computeNextState :: "time \<Rightarrow> nat \<Rightarrow> bool \<Rightarrow> row_status \<times> time" where
  "computeNextState now attempt success =
    (if success then (RSuccess, now)
     else (case js_nth BACKOFF_MS (int attempt - 1) of
         None \<Rightarrow> (RTerminal, now)
       | Some backoffMs \<Rightarrow> (RFailed, now + backoffMs)))"

text \<open>The HTTP exchange: \<open>Inl\<close> the error message, or the status and the response text.\<close>

definition post_outcome :: "string + (int \<times> string) \<Rightarrow> bool \<times> int option \<times> string option" where
  "post_outcome r = (case r of
     Inl msg \<Rightarrow> (False, None, Some msg)
   | Inr (status, text) \<Rightarrow>
       if 200 \<le> status \<and> status < 300 then (True, Some status, None)
       else (False, Some status, Some (''HTTP '' @ int_to_string status @ '': '' @ take 256 text)))"

record post_request =
  po_url :: string
  po_signature :: string
  po_event :: string
  po_delivery :: string
  po_body :: string

definition set_row :: "string \<Rightarrow> (delivery_row \<Rightarrow> delivery_row) \<Rightarrow> webhook_db \<Rightarrow> webhook_db" where
  "set_row i f db = db\<lparr>wh_rows := update_where (\<lambda>w. w_id w = i) f (wh_rows db)\<rparr>"

definition attemptPost ::
  "(string \<Rightarrow> string \<Rightarrow> string) \<Rightarrow> (post_request \<Rightarrow> string + (int \<times> string)) \<Rightarrow> time \<Rightarrow> string \<Rightarrow> string \<Rightarrow> string \<Rightarrow> string
     \<Rightarrow> string \<Rightarrow> webhook_db \<Rightarrow> webhook_db \<times> post_result \<times> post_request list" where
  "attemptPost hmacHex http now deliveryId url secret rawBody eventType db =
    (let db1 = set_row deliveryId (\<lambda>w. w\<lparr>w_status := RDelivering, w_updatedAt := now\<rparr>) db
     in case row_by w_id (wh_rows db1) deliveryId of
          None \<Rightarrow> (db1, \<lparr>ar_deliveryId = deliveryId, ar_success = False, ar_statusCode = None,
                        ar_error = Some ''delivery record not found''\<rparr>, [])
        | Some delivery \<Rightarrow>
            (let attempt = w_attempt delivery + 1;
                 req = \<lparr>po_url = url, po_signature = signPayload hmacHex secret rawBody, po_event = eventType,
                        po_delivery = deliveryId, po_body = rawBody\<rparr>
             in case post_outcome (http req) of (success, statusCode, err) \<Rightarrow>
               (case computeNextState now attempt success of (nextStatus, nextRetryAt) \<Rightarrow>
                  (set_row deliveryId (\<lambda>w. w\<lparr>w_status := nextStatus, w_attempt := attempt, w_lastStatusCode := statusCode,
                      w_lastError := err, w_nextRetryAt := nextRetryAt, w_updatedAt := now\<rparr>) db1,
                   \<lparr>ar_deliveryId = deliveryId, ar_success = success, ar_statusCode = statusCode, ar_error = err\<rparr>,
                   [req]))))"

section \<open>Subscriptions and listing\<close>

definition createSubscription ::
  "string \<Rightarrow> string \<Rightarrow> time \<Rightarrow> string \<Rightarrow> string list \<Rightarrow> webhook_db \<Rightarrow> webhook_db \<times> subscription_row" where
  "createSubscription newId secret now url events db =
    (let sub = \<lparr>s_id = newId, s_url = url, s_secret = secret, s_events = Some events, s_active = True,
                s_createdAt = now, s_updatedAt = now\<rparr>
     in (db\<lparr>wh_subs := wh_subs db @ [sub]\<rparr>, sub))"

definition deactivateSubscription :: "string \<Rightarrow> time \<Rightarrow> webhook_db \<Rightarrow> webhook_db" where
  "deactivateSubscription i now db =
     db\<lparr>wh_subs := update_where (\<lambda>s. s_id s = i) (\<lambda>s. s\<lparr>s_active := False, s_updatedAt := now\<rparr>) (wh_subs db)\<rparr>"

definition getOverdueDeliveries :: "time \<Rightarrow> nat \<Rightarrow> webhook_db \<Rightarrow> delivery_row list" where
  "getOverdueDeliveries now limit db =
     take limit (filter (\<lambda>w. w_status w \<in> {RPending, RFailed} \<and> w_nextRetryAt w \<le> now) (wh_rows db))"

section \<open>The worker's job handler\<close>

datatype job_end = JobReturned | JobThrew string

text \<open>\<open>queue\<close>: the delayed message added, if any (delivery id and delay).\<close>

definition worker_job ::
  "(string \<Rightarrow> string \<Rightarrow> string) \<Rightarrow> (json_fields \<Rightarrow> string) \<Rightarrow> (post_request \<Rightarrow> string + (int \<times> string)) \<Rightarrow> time \<Rightarrow> time \<Rightarrow> string
     \<Rightarrow> webhook_db \<Rightarrow> webhook_db \<times> job_end \<times> post_request list \<times> (string \<times> int) list" where
  "worker_job hmacHex stringify http now now2 deliveryId db =
    (case row_by w_id (wh_rows db) deliveryId of
       None \<Rightarrow> (db, JobReturned, [], [])
     | Some delivery \<Rightarrow>
       if w_status delivery = RSuccess \<or> w_status delivery = RTerminal then (db, JobReturned, [], [])
       else (case row_by s_id (wh_subs db) (w_subscriptionId delivery) of
           None \<Rightarrow> (set_row (w_id delivery) (\<lambda>w. w\<lparr>w_status := RTerminal, w_updatedAt := now\<rparr>) db, JobReturned, [], [])
         | Some sub \<Rightarrow>
             (case attemptPost hmacHex http now (w_id delivery) (s_url sub) (s_secret sub) (stringify (w_payload delivery))
                 (w_eventType delivery) db of (db', result, reqs) \<Rightarrow>
               if ar_success result then (db', JobReturned, reqs, [])
               else
                 (db', JobThrew (case ar_error result of None \<Rightarrow> ''Delivery failed''
                                 | Some e \<Rightarrow> if e = '''' then ''Delivery failed'' else e), reqs,
                  (case row_by w_id (wh_rows db') (w_id delivery) of
                     None \<Rightarrow> []
                   | Some updated \<Rightarrow> if w_status updated = RFailed
                       then [(w_id delivery, max 0 (w_nextRetryAt updated - now2))] else [])))))"

fun worker_runs ::
  "(string \<Rightarrow> string \<Rightarrow> string) \<Rightarrow> (json_fields \<Rightarrow> string) \<Rightarrow> (post_request \<Rightarrow> string + (int \<times> string)) \<Rightarrow> (nat \<Rightarrow> time) \<Rightarrow> string
     \<Rightarrow> nat \<Rightarrow> webhook_db \<Rightarrow> webhook_db \<times> post_request list" where
  "worker_runs hmacHex stringify http clock i 0 db = (db, [])"
| "worker_runs hmacHex stringify http clock i (Suc n) db =
    (case worker_runs hmacHex stringify http clock i n db of (db1, reqs) \<Rightarrow>
       (case worker_job hmacHex stringify http (clock n) (clock n) i db1 of (db2, _, rs, _) \<Rightarrow> (db2, reqs @ rs)))"

section \<open>Properties\<close>

lemma row_by_set_row:
  assumes "\<And>w. w_id (f w) = w_id w"
  shows "row_by w_id (wh_rows (set_row i f db)) j =
    (if j = i then map_option f (row_by w_id (wh_rows db) i) else row_by w_id (wh_rows db) j)"
  by (cases "row_by w_id (wh_rows db) j")
     (auto simp: set_row_def row_by_update_where assms dest: row_by_SomeD)

lemma set_row_subs [simp]: "wh_subs (set_row i f db) = wh_subs db"
  by (simp add: set_row_def)

lemma attemptPost_row:
  assumes "row_by w_id (wh_rows db) i = Some w"
    and "\<not> fst (post_outcome (http \<lparr>po_url = url, po_signature = signPayload hmacHex secret body, po_event = ev,
            po_delivery = i, po_body = body\<rparr>))"
  shows "\<exists>db' res w'. attemptPost hmacHex http now i url secret body ev db =
      (db', res, [\<lparr>po_url = url, po_signature = signPayload hmacHex secret body, po_event = ev, po_delivery = i, po_body = body\<rparr>])
    \<and> \<not> ar_success res \<and> wh_subs db' = wh_subs db \<and> row_by w_id (wh_rows db') i = Some w'
    \<and> w_attempt w' = w_attempt w + 1 \<and> w_subscriptionId w' = w_subscriptionId w \<and> w_payload w' = w_payload w
    \<and> w_eventType w' = w_eventType w
    \<and> w_status w' = (if w_attempt w + 1 < MAX_ATTEMPTS then RFailed else RTerminal)"
  using assms
  by (auto simp: attemptPost_def Let_def row_by_set_row computeNextState_def js_nth_def MAX_ATTEMPTS_def
      BACKOFF_MS_def split: prod.splits)

text \<open>A delivery whose subscriber always fails is posted at most six times by the worker: after
  any number of runs the number of requests sent is the number of runs or six, whichever is less (the
  module's header promises terminal status after five), every request is the same one, signed over the
  serialised payload, and from the sixth run on the row is terminal.\<close>

lemma worker_posts_at_most_six:
  assumes "row_by w_id (wh_rows db) i = Some w" and "w_status w = RPending" and "w_attempt w = 0"
    and "row_by s_id (wh_subs db) (w_subscriptionId w) = Some sub"
    and "\<And>r. \<not> fst (post_outcome (http r))"
  shows "\<exists>db' w'. worker_runs hmacHex stringify http clock i n db = (db', replicate (min n 6)
      \<lparr>po_url = s_url sub, po_signature = signPayload hmacHex (s_secret sub) (stringify (w_payload w)),
       po_event = w_eventType w, po_delivery = i, po_body = stringify (w_payload w)\<rparr>)
    \<and> row_by w_id (wh_rows db') i = Some w' \<and> wh_subs db' = wh_subs db \<and> w_attempt w' = min n 6
    \<and> w_subscriptionId w' = w_subscriptionId w \<and> w_payload w' = w_payload w \<and> w_eventType w' = w_eventType w
    \<and> (w_status w' = RTerminal \<longleftrightarrow> 6 \<le> n) \<and> w_status w' \<noteq> RSuccess"
proof (induction n)
  case 0
  then show ?case using assms by auto
next
  case (Suc n)
  let ?req = "\<lparr>po_url = s_url sub, po_signature = signPayload hmacHex (s_secret sub) (stringify (w_payload w)),
       po_event = w_eventType w, po_delivery = i, po_body = stringify (w_payload w)\<rparr>"
  from Suc obtain db1 w1 where r: "worker_runs hmacHex stringify http clock i n db = (db1, replicate (min n 6) ?req)"
    and w1: "row_by w_id (wh_rows db1) i = Some w1" "wh_subs db1 = wh_subs db" "w_attempt w1 = min n 6"
      "w_subscriptionId w1 = w_subscriptionId w" "w_payload w1 = w_payload w" "w_eventType w1 = w_eventType w"
      "w_status w1 = RTerminal \<longleftrightarrow> 6 \<le> n" "w_status w1 \<noteq> RSuccess" by auto
  have id: "w_id w1 = i" using row_by_SomeD [OF w1(1)] by simp
  show ?case
  proof (cases "6 \<le> n")
    case True
    then show ?thesis using r w1 by (simp add: worker_job_def)
  next
    case False
    obtain db2 res w2 where a: "attemptPost hmacHex http (clock n) i (s_url sub) (s_secret sub) (stringify (w_payload w)) (w_eventType w) db1
        = (db2, res, [?req])" "\<not> ar_success res" "wh_subs db2 = wh_subs db1" "row_by w_id (wh_rows db2) i = Some w2"
      "w_attempt w2 = w_attempt w1 + 1" "w_subscriptionId w2 = w_subscriptionId w1" "w_payload w2 = w_payload w1"
      "w_eventType w2 = w_eventType w1" "w_status w2 = (if w_attempt w1 + 1 < MAX_ATTEMPTS then RFailed else RTerminal)"
      using attemptPost_row [of db1 i w1 http "s_url sub" hmacHex "s_secret sub" "stringify (w_payload w)" "w_eventType w" "clock n"]
        w1(1) assms(5) by blast
    have "worker_runs hmacHex stringify http clock i (Suc n) db = (db2, replicate (min n 6) ?req @ [?req])"
      using r w1 a id False assms(4) by (simp add: worker_job_def)
    moreover have "replicate (min n 6) ?req @ [?req] = replicate (min (Suc n) 6) ?req"
      using False by (simp add: replicate_append_same)
    ultimately show ?thesis using a w1 False by (auto simp: MAX_ATTEMPTS_def BACKOFF_MS_def)
  qed
qed

definition demo_sub :: subscription_row where
  "demo_sub = \<lparr>s_id = ''s1'', s_url = ''https://x'', s_secret = ''00'', s_events = Some [''*''], s_active = True,
     s_createdAt = 0, s_updatedAt = 0\<rparr>"

definition demo_wh :: webhook_db where
  "demo_wh = \<lparr>wh_subs = [demo_sub], wh_rows = [new_row ''w1'' 0 ''market.resolved'' [] demo_sub]\<rparr>"

lemma worker_posts_at_most_six_witness:
  "\<exists>db' reqs. worker_runs (\<lambda>_ _. ''00'') (\<lambda>_. ''{}'') (\<lambda>_. Inl ''refused'') (\<lambda>_. 0) ''w1'' 9 demo_wh = (db', reqs)
     \<and> length reqs = 6"
  using worker_posts_at_most_six [of demo_wh "''w1''" "new_row ''w1'' 0 ''market.resolved'' [] demo_sub" demo_sub
      "\<lambda>_. Inl ''refused''" "\<lambda>_ _. ''00''" "\<lambda>_. ''{}''" "\<lambda>_. 0" 9]
  by (auto simp: demo_wh_def new_row_def demo_sub_def post_outcome_def)

text \<open>Events fan out to exactly the subscribers that asked for them: dispatching an event adds one
  pending delivery, with no attempts and the event's payload, and one queue message per active
  subscription whose event list contains the event type or the wildcard, in subscription order, and
  touches nothing else.\<close>

lemma dispatch_fans_out:
  assumes "dispatchEvent newIds now eventType payload db = (db', results, queued)"
  shows "wh_subs db' = wh_subs db
    \<and> (\<exists>new. wh_rows db' = wh_rows db @ new
        \<and> map w_subscriptionId new = map s_id (filter (\<lambda>sub. s_active sub \<and> interested eventType sub) (wh_subs db))
        \<and> queued = map w_id new \<and> map ar_deliveryId results = map w_id new
        \<and> (\<forall>w \<in> set new. w_status w = RPending \<and> w_attempt w = 0 \<and> w_payload w = payload \<and> w_eventType w = eventType))"
proof -
  let ?m = "filter (interested eventType) (filter s_active (wh_subs db))"
  have m: "?m = filter (\<lambda>sub. s_active sub \<and> interested eventType sub) (wh_subs db)" by (simp add: conj_commute)
  let ?new = "map (\<lambda>sub. new_row (newIds (s_id sub)) now eventType payload sub) ?m"
  have "wh_rows db' = wh_rows db @ ?new" "queued = map w_id ?new" "map ar_deliveryId results = map w_id ?new"
    "wh_subs db' = wh_subs db"
    using assms by (auto simp: dispatchEvent_def Let_def new_row_def comp_def split: if_splits)
  then show ?thesis
    by (intro conjI exI [of _ ?new]) (auto simp: m new_row_def comp_def)
qed

lemma dispatch_fans_out_witness:
  "\<exists>db' results queued. dispatchEvent (\<lambda>_. ''w2'') 5 ''market.resolved'' [] demo_wh = (db', results, queued)
     \<and> map w_subscriptionId (wh_rows db') = [''s1'', ''s1'']"
proof -
  obtain db' results queued where d: "dispatchEvent (\<lambda>_. ''w2'') 5 ''market.resolved'' [] demo_wh = (db', results, queued)"
    by (metis prod_cases3)
  from dispatch_fans_out [OF d] obtain new where "wh_rows db' = wh_rows demo_wh @ new"
    "map w_subscriptionId new = map s_id (filter (\<lambda>sub. s_active sub \<and> interested ''market.resolved'' sub) (wh_subs demo_wh))" by blast
  then have "map w_subscriptionId (wh_rows db') = [''s1'', ''s1'']"
    by (simp add: demo_wh_def demo_sub_def new_row_def interested_def)
  with d show ?thesis by (intro exI conjI)
qed

end
