(* ===== verification/Indexer_Recovery.thy ===== *)
theory Indexer_Recovery
  imports Js_Numerals "HOL-Library.Multiset" "HOL-Library.Product_Lexorder"
begin

text \<open>
  The checkpoint and replay primitives of \<^verbatim>\<open>src/services/indexerRecovery.ts\<close>: event ids,
  deduplication, gap ranges, replay chunks, reorg detection and the checkpoint decision of
  \<^verbatim>\<open>IndexerRecoveryPlanner\<close>. Ledger numbers and indices are JavaScript integers and stand as
  \<open>int\<close>; \<^verbatim>\<open>Number.isSafeInteger\<close> is the bound \<open>safe_integer\<close>. \<^verbatim>\<open>localeCompare\<close>, whose order
  depends on the host's collation tables, is an argument.

  \<^item> \<open>event_id_roundtrip\<close>: the printed id of a position is read back as that position.
  \<^item> \<open>checkpoint_safe\<close>, \<open>plan_exact\<close>: the checkpoint never crosses a ledger that was not observed,
    and the replay plan is exactly the unobserved ledgers in chunks within the bound.
  \<^item> \<open>normalize_canonical\<close>: the batch that reaches a checkpoint is sorted by position, free of
    duplicate identities and complete.
\<close>

unbundle bit_operations_syntax

section \<open>Event ids\<close>

record decoded_event_identity =
  di_ledger :: int
  di_txApplicationOrder :: int
  di_opIndex :: int
  di_eventIndex :: int

definition safe_integer :: "int \<Rightarrow> bool" where
  "safe_integer n \<longleftrightarrow> \<bar>n\<bar> \<le> 2 ^ 53 - 1"

text \<open>\<^verbatim>\<open>s.split("-")\<close>.\<close>

fun split_dash :: "string \<Rightarrow> string list" where
  "split_dash [] = [[]]"
| "split_dash (c # cs) =
     (if c = CHR ''-'' then [] # split_dash cs
      else (c # hd (split_dash cs)) # tl (split_dash cs))"

definition all_digits :: "string \<Rightarrow> bool" where
  "all_digits s \<longleftrightarrow> s \<noteq> [] \<and> list_all is_digit s"

definition decodeEventId :: "string \<Rightarrow> decoded_event_identity option" where
  "decodeEventId eventId =
    (if eventId = [] then None
     else (case split_dash (js_trim eventId) of
        [toidStr, eventIndexStr] \<Rightarrow>
          if \<not> all_digits toidStr \<or> \<not> all_digits eventIndexStr then None
          else (case (bigint_of_string toidStr, parseInt10 eventIndexStr) of
             (Some toid, Some eventIndex) \<Rightarrow>
               if \<not> safe_integer eventIndex \<or> eventIndex < 0 then None
               else Some \<lparr>di_ledger = drop_bit 32 toid AND 0xffffffff,
                          di_txApplicationOrder = drop_bit 12 toid AND 0xfffff,
                          di_opIndex = toid AND 0xfff,
                          di_eventIndex = eventIndex\<rparr>
           | _ \<Rightarrow> None)
      | _ \<Rightarrow> None))"

definition padStart :: "nat \<Rightarrow> char \<Rightarrow> string \<Rightarrow> string" where
  "padStart n c s = replicate (n - length s) c @ s"

definition formatEventId :: "int \<Rightarrow> int \<Rightarrow> int \<Rightarrow> int \<Rightarrow> string" where
  "formatEventId ledger txApplicationOrder opIndex eventIndex =
    (let toid = push_bit 32 ledger OR push_bit 12 txApplicationOrder OR opIndex
     in padStart 19 (CHR ''0'') (int_to_string toid) @ ''-''
        @ padStart 10 (CHR ''0'') (int_to_string eventIndex))"

section \<open>Events, observations, ranges\<close>

record 'p recovery_event =
  re_ledger :: int
  re_txHash :: string
  re_txApplicationOrder :: "int option"
  re_opIndex :: int
  re_eventIndex :: "int option"
  re_eventType :: "string option"
  re_payload :: "'p option"

record 'p ledger_observation =
  lo_ledger :: int
  lo_events :: "'p recovery_event list"

record reorg_replacement =
  rr_ledger :: int
  rr_txApplicationOrder :: int
  rr_opIndex :: int
  rr_eventIndex :: int
  rr_oldTxHash :: string
  rr_newTxHash :: string

record replay_chunk =
  rc_from :: int
  rc_to :: int

text \<open>\<^verbatim>\<open>x ?? 0\<close>.\<close>

definition or_zero :: "int option \<Rightarrow> int" where
  "or_zero x = (case x of None \<Rightarrow> 0 | Some n \<Rightarrow> n)"

definition eventIdentity :: "('p, 'm) recovery_event_scheme \<Rightarrow> string" where
  "eventIdentity e = int_to_string (re_ledger e) @ '':'' @ re_txHash e @ '':'' @
     int_to_string (re_opIndex e) @ '':'' @ int_to_string (or_zero (re_eventIndex e))"

definition positionIdentity :: "('p, 'm) recovery_event_scheme \<Rightarrow> string" where
  "positionIdentity e = int_to_string (re_ledger e) @ '':'' @
     int_to_string (or_zero (re_txApplicationOrder e)) @ '':'' @
     int_to_string (re_opIndex e) @ '':'' @ int_to_string (or_zero (re_eventIndex e))"

fun dedupe_loop :: "string list \<Rightarrow> ('p, 'm) recovery_event_scheme list \<Rightarrow> ('p, 'm) recovery_event_scheme list" where
  "dedupe_loop seen [] = []"
| "dedupe_loop seen (e # es) =
     (if eventIdentity e \<in> set seen then dedupe_loop seen es
      else e # dedupe_loop (eventIdentity e # seen) es)"

definition dedupeEvents :: "('p, 'm) recovery_event_scheme list \<Rightarrow> ('p, 'm) recovery_event_scheme list" where
  "dedupeEvents events = dedupe_loop [] events"

definition findUnobservedLedgers :: "int \<Rightarrow> int \<Rightarrow> 'p ledger_observation list \<Rightarrow> int list" where
  "findUnobservedLedgers from to observations =
    (if from > to then []
     else (let observed = map lo_ledger observations
           in filter (\<lambda>ledger. ledger \<notin> set observed) [from..to]))"

fun group_loop :: "int \<Rightarrow> int \<Rightarrow> int list \<Rightarrow> replay_chunk list" where
  "group_loop from to [] = [\<lparr>rc_from = from, rc_to = to\<rparr>]"
| "group_loop from to (ledger # rest) =
     (if ledger = to + 1 then group_loop from ledger rest
      else \<lparr>rc_from = from, rc_to = to\<rparr> # group_loop ledger ledger rest)"

definition groupLedgerRanges :: "int list \<Rightarrow> replay_chunk list" where
  "groupLedgerRanges ledgers =
    (case sort (remdups ledgers) of [] \<Rightarrow> [] | l # rest \<Rightarrow> group_loop l l rest)"

function chunk_loop :: "int \<Rightarrow> int \<Rightarrow> int \<Rightarrow> replay_chunk list" where
  "chunk_loop maxLedgers from to =
    (if from \<le> to \<and> 1 \<le> maxLedgers
     then \<lparr>rc_from = from, rc_to = min to (from + maxLedgers - 1)\<rparr>
            # chunk_loop maxLedgers (from + maxLedgers) to
     else [])"
  by pat_completeness auto
termination by (relation "measure (\<lambda>(m, from, to). nat (to - from + 1))") auto

declare chunk_loop.simps [simp del]

text \<open>The errors are the messages of the thrown \<^verbatim>\<open>Error\<close> objects.\<close>

definition chunkReplayRanges :: "replay_chunk list \<Rightarrow> int \<Rightarrow> string + replay_chunk list" where
  "chunkReplayRanges ranges maxLedgers =
    (if maxLedgers < 1 then Inl ''maxLedgers must be positive''
     else Inr (concat (map (\<lambda>range. chunk_loop maxLedgers (rc_from range) (rc_to range)) ranges)))"

text \<open>\<^verbatim>\<open>new Map(entries)\<close> keeps the last value given for a key.\<close>

definition detectReorgs ::
  "('p, 'm) recovery_event_scheme list \<Rightarrow> ('p, 'm) recovery_event_scheme list \<Rightarrow> reorg_replacement list" where
  "detectReorgs canonical replay =
    (let byPosition = map_of (rev (map (\<lambda>event. (positionIdentity event, event)) canonical))
     in concat (map (\<lambda>event. case byPosition (positionIdentity event) of
          None \<Rightarrow> []
        | Some previous \<Rightarrow>
            if re_txHash previous \<noteq> re_txHash event
            then [\<lparr>rr_ledger = re_ledger event,
                   rr_txApplicationOrder = or_zero (re_txApplicationOrder event),
                   rr_opIndex = re_opIndex event,
                   rr_eventIndex = or_zero (re_eventIndex event),
                   rr_oldTxHash = re_txHash previous,
                   rr_newTxHash = re_txHash event\<rparr>]
            else []) (dedupeEvents replay)))"

section \<open>Checkpoints\<close>

record checkpoint_decision =
  cd_accepted :: bool
  cd_nextCheckpoint :: int
  cd_missing :: "replay_chunk list"

definition decideCheckpoint :: "int \<Rightarrow> int \<Rightarrow> 'p ledger_observation list \<Rightarrow> checkpoint_decision" where
  "decideCheckpoint current requestedTo observations =
    (let from = current + 1
     in if requestedTo < from
        then \<lparr>cd_accepted = True, cd_nextCheckpoint = current, cd_missing = []\<rparr>
        else (let missing = groupLedgerRanges (findUnobservedLedgers from requestedTo observations)
              in if missing \<noteq> []
                 then \<lparr>cd_accepted = False, cd_nextCheckpoint = current, cd_missing = missing\<rparr>
                 else \<lparr>cd_accepted = True, cd_nextCheckpoint = requestedTo, cd_missing = []\<rparr>))"

definition assertCheckpointDecision :: "checkpoint_decision \<Rightarrow> string + int" where
  "assertCheckpointDecision decision =
    (if \<not> cd_accepted decision
     then Inl (''indexer checkpoint blocked by '' @ nat_to_string (length (cd_missing decision))
               @ '' missing range(s)'')
     else Inr (cd_nextCheckpoint decision))"

definition validateRecoveryEvent :: "('p, 'm) recovery_event_scheme \<Rightarrow> string + unit" where
  "validateRecoveryEvent event =
    (if \<not> safe_integer (re_ledger event) \<or> re_ledger event < 0
     then Inl ''event ledger must be a non-negative safe integer''
     else if (case re_txApplicationOrder event of None \<Rightarrow> False | Some n \<Rightarrow> \<not> safe_integer n \<or> n < 0)
     then Inl ''event transaction application order must be non-negative''
     else if \<not> safe_integer (re_opIndex event) \<or> re_opIndex event < 0
     then Inl ''event operation index must be non-negative''
     else if (case re_eventIndex event of None \<Rightarrow> False | Some n \<Rightarrow> \<not> safe_integer n \<or> n < 0)
     then Inl ''event index must be non-negative''
     else if js_trim (re_txHash event) = [] then Inl ''event transaction hash is required''
     else Inr ())"

fun validate_all :: "('p, 'm) recovery_event_scheme list \<Rightarrow> string + unit" where
  "validate_all [] = Inr ()"
| "validate_all (e # es) = (case validateRecoveryEvent e of Inl m \<Rightarrow> Inl m | Inr _ \<Rightarrow> validate_all es)"

text \<open>The comparator of \<^verbatim>\<open>normalizeRecoveryBatch\<close>: \<^verbatim>\<open>a || b\<close> takes the first difference that is
  not zero.\<close>

definition compare_events ::
  "(string \<Rightarrow> string \<Rightarrow> int) \<Rightarrow> ('p, 'm) recovery_event_scheme \<Rightarrow> ('p, 'm) recovery_event_scheme \<Rightarrow> int" where
  "compare_events localeCompare left right =
    (if re_ledger left \<noteq> re_ledger right then re_ledger left - re_ledger right
     else if or_zero (re_txApplicationOrder left) \<noteq> or_zero (re_txApplicationOrder right)
     then or_zero (re_txApplicationOrder left) - or_zero (re_txApplicationOrder right)
     else if re_opIndex left \<noteq> re_opIndex right then re_opIndex left - re_opIndex right
     else if or_zero (re_eventIndex left) \<noteq> or_zero (re_eventIndex right)
     then or_zero (re_eventIndex left) - or_zero (re_eventIndex right)
     else localeCompare (re_txHash left) (re_txHash right))"

text \<open>\<^verbatim>\<open>Array.prototype.sort\<close> with a comparator is a stable sort.\<close>

fun js_insert :: "('a \<Rightarrow> 'a \<Rightarrow> int) \<Rightarrow> 'a \<Rightarrow> 'a list \<Rightarrow> 'a list" where
  "js_insert cmp x [] = [x]"
| "js_insert cmp x (y # ys) = (if cmp x y \<le> 0 then x # y # ys else y # js_insert cmp x ys)"

definition js_sort :: "('a \<Rightarrow> 'a \<Rightarrow> int) \<Rightarrow> 'a list \<Rightarrow> 'a list" where
  "js_sort cmp xs = foldr (js_insert cmp) xs []"

definition normalizeRecoveryBatch ::
  "(string \<Rightarrow> string \<Rightarrow> int) \<Rightarrow> ('p, 'm) recovery_event_scheme list \<Rightarrow> string + ('p, 'm) recovery_event_scheme list" where
  "normalizeRecoveryBatch localeCompare events =
    (case validate_all events of
       Inl m \<Rightarrow> Inl m
     | Inr _ \<Rightarrow> Inr (js_sort (compare_events localeCompare) (dedupeEvents events)))"

fun merge_loop ::
  "(int \<times> 'p recovery_event list) list \<Rightarrow> 'p ledger_observation list \<Rightarrow> string + (int \<times> 'p recovery_event list) list" where
  "merge_loop byLedger [] = Inr byLedger"
| "merge_loop byLedger (ob # rest) =
     (if \<not> safe_integer (lo_ledger ob) \<or> lo_ledger ob < 0
      then Inl ''observation ledger must be non-negative''
      else merge_loop (AList.update (lo_ledger ob)
             ((case map_of byLedger (lo_ledger ob) of None \<Rightarrow> [] | Some es \<Rightarrow> es) @ lo_events ob)
             byLedger) rest)"

fun normalize_entries ::
  "(string \<Rightarrow> string \<Rightarrow> int) \<Rightarrow> (int \<times> 'p recovery_event list) list \<Rightarrow> string + 'p ledger_observation list" where
  "normalize_entries localeCompare [] = Inr []"
| "normalize_entries localeCompare ((ledger, events) # rest) =
     (case normalizeRecoveryBatch localeCompare events of
        Inl m \<Rightarrow> Inl m
      | Inr es \<Rightarrow> (case normalize_entries localeCompare rest of
           Inl m \<Rightarrow> Inl m
         | Inr obs \<Rightarrow> Inr (\<lparr>lo_ledger = ledger, lo_events = es\<rparr> # obs)))"

definition mergeObservations ::
  "(string \<Rightarrow> string \<Rightarrow> int) \<Rightarrow> 'p ledger_observation list \<Rightarrow> string + 'p ledger_observation list" where
  "mergeObservations localeCompare observations =
    (case merge_loop [] observations of
       Inl m \<Rightarrow> Inl m
     | Inr byLedger \<Rightarrow> normalize_entries localeCompare (sort_key fst byLedger))"

definition reorgAffectedRange :: "reorg_replacement list \<Rightarrow> replay_chunk option" where
  "reorgAffectedRange replacements = (case map rr_ledger replacements of
     [] \<Rightarrow> None
   | l # ls \<Rightarrow> Some \<lparr>rc_from = fold min ls l, rc_to = fold max ls l\<rparr>)"

section \<open>The recovery planner\<close>

record recovery_planner =
  rp_maxReplayLedgers :: int

definition new_planner :: "int \<Rightarrow> string + recovery_planner" where
  "new_planner maxReplayLedgers =
    (if maxReplayLedgers < 1 then Inl ''maxReplayLedgers must be positive''
     else Inr \<lparr>rp_maxReplayLedgers = maxReplayLedgers\<rparr>)"

definition planner_plan ::
  "(string \<Rightarrow> string \<Rightarrow> int) \<Rightarrow> recovery_planner \<Rightarrow> int \<Rightarrow> int \<Rightarrow> 'p ledger_observation list \<Rightarrow> string + replay_chunk list" where
  "planner_plan localeCompare planner current target observations =
    (case mergeObservations localeCompare observations of
       Inl m \<Rightarrow> Inl m
     | Inr merged \<Rightarrow>
         chunkReplayRanges (cd_missing (decideCheckpoint current target merged)) (rp_maxReplayLedgers planner))"

definition planner_checkpoint ::
  "(string \<Rightarrow> string \<Rightarrow> int) \<Rightarrow> int \<Rightarrow> int \<Rightarrow> 'p ledger_observation list \<Rightarrow> string + int" where
  "planner_checkpoint localeCompare current target observations =
    (case mergeObservations localeCompare observations of
       Inl m \<Rightarrow> Inl m
     | Inr merged \<Rightarrow> assertCheckpointDecision (decideCheckpoint current target merged))"

section \<open>Reading a printed event id\<close>

lemma split_dash_no_dash: "CHR ''-'' \<notin> set a \<Longrightarrow> split_dash a = [a]"
  by (induction a) auto

lemma split_dash_two:
  "CHR ''-'' \<notin> set a \<Longrightarrow> CHR ''-'' \<notin> set b \<Longrightarrow> split_dash (a @ CHR ''-'' # b) = [a, b]"
  by (induction a) (auto simp: split_dash_no_dash)

lemma all_digits_pad: "0 \<le> k \<Longrightarrow> all_digits (padStart n CHR ''0'' (int_to_string k))"
  by (auto simp: all_digits_def padStart_def int_to_string_def list_all_iff dest: nat_to_string_digits)

lemma all_digitsD: "all_digits s \<Longrightarrow> c \<in> set s \<Longrightarrow> is_digit c"
  by (simp add: all_digits_def list_all_iff)

lemma all_digits_no_dash: "all_digits s \<Longrightarrow> CHR ''-'' \<notin> set s"
  by (auto dest!: all_digitsD is_digit_chars)

lemma all_digits_decimal:
  assumes "all_digits s"
  shows "decimal_literal s = map_option int (digits_value 10 0 s)"
proof -
  obtain c cs where s: "s = c # cs" using assms by (cases s) (auto simp: all_digits_def)
  with assms have "is_digit c" by (simp add: all_digits_def)
  with s show ?thesis
    using is_digit_chars [of c] by (simp add: decimal_literal_def unsigned_value_def)
qed

lemma all_digits_trim: "all_digits s \<Longrightarrow> js_trim s = s"
  by (rule js_trim_id) (auto dest!: all_digitsD is_digit_no_space)

lemma all_digits_bigint:
  assumes "all_digits s"
  shows "bigint_of_string s = map_option int (digits_value 10 0 s)"
proof -
  have "bigint_of_string s = decimal_literal s"
  proof (cases "\<exists>z x cs. s = z # x # cs")
    case True
    then obtain z x cs where s: "s = z # x # cs" by blast
    with assms have "is_digit x" by (simp add: all_digits_def)
    then have "x \<notin> {CHR ''x'', CHR ''X'', CHR ''o'', CHR ''O'', CHR ''b'', CHR ''B''}"
      using is_digit_chars by blast
    moreover have "js_trim (z # x # cs) = z # x # cs" using all_digits_trim [OF assms] s by simp
    ultimately show ?thesis by (auto simp: bigint_of_string_def s)
  next
    case False
    with all_digits_trim [OF assms] show ?thesis
      by (auto simp: bigint_of_string_def split: list.split)
  qed
  with all_digits_decimal [OF assms] show ?thesis by simp
qed

lemma all_digits_parseInt:
  assumes "all_digits s"
  shows "parseInt10 s = map_option int (digits_value 10 0 s)"
proof -
  obtain c cs where s: "s = c # cs" using assms by (cases s) (auto simp: all_digits_def)
  with assms have c: "is_digit c" by (simp add: all_digits_def)
  have "takeWhile is_digit cs = cs"
    using assms s by (simp add: takeWhile_eq_all_conv all_digits_def list_all_iff)
  then show ?thesis
    using s c is_digit_chars [OF c] is_digit_no_space [OF c]
    by (simp add: parseInt10_def digit_run_def del: takeWhile_eq_all_conv split: option.split)
qed

lemma digits_value_pad:
  "0 \<le> k \<Longrightarrow> digits_value 10 0 (padStart n CHR ''0'' (int_to_string k)) = Some (nat k)"
  by (simp add: padStart_def digits_value_zeros int_to_string_def digits_value_nat_to_string)

lemma and_masks:
  "x AND 0xffffffff = take_bit 32 (x::int)"
  "x AND 0xfffff = take_bit 20 (x::int)"
  "x AND 0xfff = take_bit 12 (x::int)"
  by (simp_all add: take_bit_eq_mask mask_eq_exp_minus_1)

lemma toid_fields:
  fixes l t p :: int
  assumes "0 \<le> l" "l < 2 ^ 32" "0 \<le> t" "t < 2 ^ 20" "0 \<le> p" "p < 2 ^ 12"
  shows "take_bit 32 (drop_bit 32 (push_bit 32 l OR push_bit 12 t OR p)) = l"
    and "take_bit 20 (drop_bit 12 (push_bit 32 l OR push_bit 12 t OR p)) = t"
    and "take_bit 12 (push_bit 32 l OR push_bit 12 t OR p) = p"
    and "0 \<le> push_bit 32 l OR push_bit 12 t OR p"
proof -
  have tl: "take_bit 32 l = l" and tt: "take_bit 20 t = t" and tp: "take_bit 12 p = p"
    using assms by (simp_all add: take_bit_int_eq_self)
  have bt: "\<not> bit t n" if "20 \<le> n" for n
    using tt that by (metis bit_take_bit_iff leD)
  have bp: "\<not> bit p n" if "12 \<le> n" for n
    using tp that by (metis bit_take_bit_iff leD)
  have bl: "\<not> bit l n" if "32 \<le> n" for n
    using tl that by (metis bit_take_bit_iff leD)
  show "take_bit 32 (drop_bit 32 (push_bit 32 l OR push_bit 12 t OR p)) = l"
    by (rule bit_eqI) (auto simp: bit_simps bt bp bl not_less dest: leI intro: ccontr)
  show "take_bit 20 (drop_bit 12 (push_bit 32 l OR push_bit 12 t OR p)) = t"
    by (rule bit_eqI) (auto simp: bit_simps bt bp bl not_less dest: leI intro: ccontr)
  show "take_bit 12 (push_bit 32 l OR push_bit 12 t OR p) = p"
    by (rule bit_eqI) (auto simp: bit_simps bt bp bl not_less dest: leI intro: ccontr)
  show "0 \<le> push_bit 32 l OR push_bit 12 t OR p"
    using assms by (simp add: or_nonnegative_int_iff)
qed

lemma decode_format:
  assumes "0 \<le> l" "l < 2 ^ 32" "0 \<le> t" "t < 2 ^ 20" "0 \<le> p" "p < 2 ^ 12" "0 \<le> e" "e \<le> 2 ^ 53 - 1"
  shows "decodeEventId (formatEventId l t p e) =
    Some \<lparr>di_ledger = l, di_txApplicationOrder = t, di_opIndex = p, di_eventIndex = e\<rparr>"
proof -
  define toid where "toid = push_bit 32 l OR push_bit 12 t OR p"
  define a where "a = padStart 19 CHR ''0'' (int_to_string toid)"
  define b where "b = padStart 10 CHR ''0'' (int_to_string e)"
  note fields = toid_fields [OF assms(1-6), folded toid_def]
  have digits: "all_digits a" "all_digits b"
    using fields(4) assms(7) by (simp_all add: a_def b_def all_digits_pad)
  have id: "formatEventId l t p e = a @ CHR ''-'' # b"
    by (simp add: formatEventId_def a_def b_def toid_def Let_def)
  have "js_trim (a @ CHR ''-'' # b) = a @ CHR ''-'' # b"
    using digits by (intro js_trim_id)
      (auto simp: is_space_def [of "CHR ''-''"] dest!: all_digitsD is_digit_no_space)
  moreover have "split_dash (a @ CHR ''-'' # b) = [a, b]"
    using digits by (intro split_dash_two all_digits_no_dash)
  moreover have "bigint_of_string a = Some toid" "parseInt10 b = Some e"
    using digits fields(4) assms(7)
    by (simp_all add: all_digits_bigint all_digits_parseInt a_def b_def digits_value_pad)
  moreover have "safe_integer e" using assms(7,8) by (simp add: safe_integer_def)
  ultimately show ?thesis
    using digits assms(7) fields
    by (simp add: id decodeEventId_def and_masks)
qed

section \<open>Deduplication and normalised batches\<close>

lemma dedupe_loop_identities:
  "set (map eventIdentity (dedupe_loop seen es)) = set (map eventIdentity es) - set seen"
  by (induction es arbitrary: seen) auto

lemma dedupe_loop_distinct: "distinct (map eventIdentity (dedupe_loop seen es))"
proof (induction es arbitrary: seen)
  case (Cons e es)
  have "eventIdentity e \<notin> set (map eventIdentity (dedupe_loop (eventIdentity e # seen) es))"
    unfolding dedupe_loop_identities by simp
  with Cons show ?case by (simp del: set_map)
qed simp

lemma dedupe_loop_subset: "set (dedupe_loop seen es) \<subseteq> set es"
proof (induction es arbitrary: seen)
  case (Cons e es)
  from Cons [of seen] Cons [of "eventIdentity e # seen"] show ?case by auto
qed simp

lemma dedupe_loop_id:
  "distinct (map eventIdentity es) \<Longrightarrow> eventIdentity ` set es \<inter> set seen = {} \<Longrightarrow> dedupe_loop seen es = es"
  by (induction es arbitrary: seen) auto

lemma dedupe_identities [simp]: "eventIdentity ` set (dedupeEvents es) = eventIdentity ` set es"
  using dedupe_loop_identities [of "[]" es] by (simp add: dedupeEvents_def)

lemma dedupe_distinct: "distinct (map eventIdentity (dedupeEvents es))"
  by (simp add: dedupeEvents_def dedupe_loop_distinct del: distinct_map)

lemma dedupe_subset: "set (dedupeEvents es) \<subseteq> set es"
  by (simp add: dedupeEvents_def dedupe_loop_subset)

lemma dedupe_id: "distinct (map eventIdentity es) \<Longrightarrow> dedupeEvents es = es"
  by (simp add: dedupeEvents_def dedupe_loop_id)

lemma mset_js_insert [simp]: "mset (js_insert cmp x ys) = add_mset x (mset ys)"
  by (induction ys) auto

lemma mset_js_sort [simp]: "mset (js_sort cmp xs) = mset xs"
  by (induction xs) (simp_all add: js_sort_def)

lemma set_js_insert [simp]: "set (js_insert cmp x ys) = insert x (set ys)"
  by (induction ys) auto

lemma set_js_sort [simp]: "set (js_sort cmp xs) = set xs"
  using mset_js_sort by (metis mset_eq_setD)

text \<open>A comparator is consistent when it decides every pair one way and is transitive, which is
  what the language requires of it.\<close>

definition consistent :: "('a \<Rightarrow> 'a \<Rightarrow> int) \<Rightarrow> bool" where
  "consistent cmp \<longleftrightarrow> (\<forall>x y. cmp x y \<le> 0 \<or> cmp y x \<le> 0)
     \<and> (\<forall>x y z. cmp x y \<le> 0 \<longrightarrow> cmp y z \<le> 0 \<longrightarrow> cmp x z \<le> 0)"

lemma consistent_total: "consistent cmp \<Longrightarrow> \<not> cmp x y \<le> 0 \<Longrightarrow> cmp y x \<le> 0"
  unfolding consistent_def by blast

lemma consistent_trans: "consistent cmp \<Longrightarrow> cmp x y \<le> 0 \<Longrightarrow> cmp y z \<le> 0 \<Longrightarrow> cmp x z \<le> 0"
  unfolding consistent_def by blast

lemma sorted_js_insert:
  assumes "consistent cmp" and "sorted_wrt (\<lambda>a b. cmp a b \<le> 0) ys"
  shows "sorted_wrt (\<lambda>a b. cmp a b \<le> 0) (js_insert cmp x ys)"
  using assms(2)
proof (induction ys)
  case (Cons y ys)
  show ?case
  proof (cases "cmp x y \<le> 0")
    case True
    then have "cmp x z \<le> 0" if "z \<in> set ys" for z
      using Cons.prems that consistent_trans [OF assms(1)] by auto
    with True Cons.prems show ?thesis by simp
  next
    case False
    with Cons consistent_total [OF assms(1) False] show ?thesis by simp
  qed
qed simp

lemma sorted_js_sort: "consistent cmp \<Longrightarrow> sorted_wrt (\<lambda>a b. cmp a b \<le> 0) (js_sort cmp xs)"
  unfolding js_sort_def by (induction xs) (simp_all add: sorted_js_insert)

lemma js_sort_sorted: "sorted_wrt (\<lambda>a b. cmp a b \<le> 0) xs \<Longrightarrow> js_sort cmp xs = xs"
proof (induction xs)
  case (Cons x xs)
  then have "js_sort cmp xs = xs" by simp
  moreover have "js_insert cmp x xs = x # xs" using Cons.prems by (cases xs) auto
  ultimately show ?case by (simp add: js_sort_def)
qed (simp add: js_sort_def)

lemma consistent_compare: "consistent lc \<Longrightarrow> consistent (compare_events lc)"
proof -
  assume lc: "consistent lc"
  have "compare_events lc x y \<le> 0 \<or> compare_events lc y x \<le> 0" for x y :: "('a, 'b) recovery_event_scheme"
    using consistent_total [OF lc] by (auto simp: compare_events_def)
  moreover have "compare_events lc x z \<le> 0"
    if "compare_events lc x y \<le> 0" "compare_events lc y z \<le> 0"
    for x y z :: "('a, 'b) recovery_event_scheme"
    using that consistent_trans [OF lc] unfolding compare_events_def
    by (auto split: if_splits)
  ultimately show ?thesis unfolding consistent_def by blast
qed

definition event_valid :: "('p, 'm) recovery_event_scheme \<Rightarrow> bool" where
  "event_valid e \<longleftrightarrow> validateRecoveryEvent e = Inr ()"

lemma validate_all_Inr: "validate_all es = Inr u \<longleftrightarrow> (\<forall>e \<in> set es. event_valid e)"
  by (induction es) (auto simp: event_valid_def split: sum.splits)

lemma normalize_Inr:
  "normalizeRecoveryBatch lc es = Inr out \<longleftrightarrow>
     (\<forall>e \<in> set es. event_valid e) \<and> out = js_sort (compare_events lc) (dedupeEvents es)"
  using validate_all_Inr [of es "()"]
  by (cases "validate_all es") (auto simp: normalizeRecoveryBatch_def)

lemma distinct_map_mset: "mset xs = mset ys \<Longrightarrow> distinct (map f xs) = distinct (map f ys)"
  by (metis mset_eq_imp_distinct_iff mset_map)

definition position :: "('p, 'm) recovery_event_scheme \<Rightarrow> int \<times> int \<times> int \<times> int" where
  "position e = (re_ledger e, or_zero (re_txApplicationOrder e), re_opIndex e, or_zero (re_eventIndex e))"

lemma compare_position: "compare_events lc x y \<le> 0 \<Longrightarrow> position x \<le> position y"
  by (auto simp: compare_events_def position_def less_eq_prod_def split: if_splits)

lemma normalize_facts:
  assumes "consistent lc" and "normalizeRecoveryBatch lc es = Inr out"
  shows "distinct (map eventIdentity out)"
    and "eventIdentity ` set out = eventIdentity ` set es"
    and "set out \<subseteq> set es"
    and "sorted (map position out)"
    and "normalizeRecoveryBatch lc out = Inr out"
proof -
  from assms(2) have valid: "\<forall>e \<in> set es. event_valid e"
    and out: "out = js_sort (compare_events lc) (dedupeEvents es)"
    by (simp_all add: normalize_Inr)
  have srt: "sorted_wrt (\<lambda>a b. compare_events lc a b \<le> 0) out"
    unfolding out by (rule sorted_js_sort [OF consistent_compare [OF assms(1)]])
  show d: "distinct (map eventIdentity out)"
    unfolding out by (subst distinct_map_mset [OF mset_js_sort]) (rule dedupe_distinct)
  show "eventIdentity ` set out = eventIdentity ` set es" by (simp add: out)
  show sub: "set out \<subseteq> set es" using dedupe_subset by (auto simp: out)
  show "sorted (map position out)"
    unfolding sorted_map by (rule sorted_wrt_mono_rel [OF _ srt]) (rule compare_position)
  show "normalizeRecoveryBatch lc out = Inr out"
    using valid sub d srt by (auto simp: normalize_Inr dedupe_id js_sort_sorted)
qed

section \<open>Ranges and chunks\<close>

definition ledgers_of :: "replay_chunk \<Rightarrow> int set" where
  "ledgers_of c = {rc_from c..rc_to c}"

text \<open>Ranges in ascending order with at least one ledger between neighbours, none empty.\<close>

definition separated :: "replay_chunk list \<Rightarrow> bool" where
  "separated rs \<longleftrightarrow> (\<forall>r \<in> set rs. rc_from r \<le> rc_to r)
     \<and> sorted_wrt (\<lambda>r s. rc_to r + 1 < rc_from s) rs"

lemma group_loop_from: "r \<in> set (group_loop lo hi ls) \<Longrightarrow> sorted (hi # ls) \<Longrightarrow> lo \<le> hi \<Longrightarrow> lo \<le> rc_from r"
  by (induction lo hi ls rule: group_loop.induct) (auto split: if_splits)

lemma group_loop_spec:
  assumes "lo \<le> hi" and "sorted_wrt (<) (hi # ls)"
  shows "separated (group_loop lo hi ls)
    \<and> (\<Union>r \<in> set (group_loop lo hi ls). ledgers_of r) = {lo..hi} \<union> set ls"
  using assms
proof (induction lo hi ls rule: group_loop.induct)
  case (1 lo hi)
  then show ?case by (simp add: separated_def ledgers_of_def)
next
  case (2 lo hi ledger rest)
  show ?case
  proof (cases "ledger = hi + 1")
    case True
    with 2 show ?thesis by auto
  next
    case False
    with 2 have IH: "separated (group_loop ledger ledger rest)"
      "(\<Union>r \<in> set (group_loop ledger ledger rest). ledgers_of r) = insert ledger (set rest)"
      by auto
    have "ledger \<le> rc_from r" if "r \<in> set (group_loop ledger ledger rest)" for r
      using group_loop_from [OF that] 2(4) strict_sorted_imp_sorted [of "ledger # rest"] by auto
    moreover have "hi + 1 < ledger" using False 2(4) by auto
    ultimately have "hi + 1 < rc_from r" if "r \<in> set (group_loop ledger ledger rest)" for r
      using that by fastforce
    with False IH 2(3) show ?thesis
      by (auto simp: separated_def ledgers_of_def)
  qed
qed

lemma groupLedgerRanges_spec:
  "separated (groupLedgerRanges ls) \<and> (\<Union>r \<in> set (groupLedgerRanges ls). ledgers_of r) = set ls"
proof (cases "sort (remdups ls)")
  case Nil
  then have "set ls = {}" by (metis set_empty set_remdups set_sort)
  with Nil show ?thesis by (simp add: groupLedgerRanges_def separated_def)
next
  case (Cons l rest)
  have "sorted_wrt (<) (l # rest)"
    unfolding Cons [symmetric] by (simp add: strict_sorted_iff)
  then have "separated (group_loop l l rest)"
    "(\<Union>r \<in> set (group_loop l l rest). ledgers_of r) = set (l # rest)"
    using group_loop_spec [of l l rest] by auto
  moreover have "set (l # rest) = set ls" unfolding Cons [symmetric] by simp
  ultimately show ?thesis using Cons by (simp add: groupLedgerRanges_def)
qed

lemma groupLedgerRanges_Nil: "groupLedgerRanges ls = [] \<longleftrightarrow> ls = []"
proof
  assume "groupLedgerRanges ls = []"
  then show "ls = []" using groupLedgerRanges_spec [of ls] by simp
qed (simp add: groupLedgerRanges_def)

text \<open>Chunks in ascending order that do not overlap, each with between one and \<open>m\<close> ledgers.\<close>

definition chunked :: "int \<Rightarrow> replay_chunk list \<Rightarrow> bool" where
  "chunked m cs \<longleftrightarrow> (\<forall>c \<in> set cs. rc_from c \<le> rc_to c \<and> rc_to c - rc_from c + 1 \<le> m)
     \<and> sorted_wrt (\<lambda>c d. rc_to c < rc_from d) cs"

lemma chunk_loop_spec:
  assumes "1 \<le> m"
  shows "chunked m (chunk_loop m lo hi)
    \<and> (\<Union>c \<in> set (chunk_loop m lo hi). ledgers_of c) = {lo..hi}
    \<and> (\<forall>c \<in> set (chunk_loop m lo hi). lo \<le> rc_from c \<and> rc_to c \<le> hi)"
  using assms
proof (induction m lo hi rule: chunk_loop.induct)
  case (1 m lo hi)
  show ?case
  proof (cases "lo \<le> hi")
    case True
    with 1 have IH: "chunked m (chunk_loop m (lo + m) hi)"
      "(\<Union>c \<in> set (chunk_loop m (lo + m) hi). ledgers_of c) = {lo + m..hi}"
      "\<forall>c \<in> set (chunk_loop m (lo + m) hi). lo + m \<le> rc_from c \<and> rc_to c \<le> hi"
      by auto
    have eq: "chunk_loop m lo hi = \<lparr>rc_from = lo, rc_to = min hi (lo + m - 1)\<rparr> # chunk_loop m (lo + m) hi"
      using True 1 by (subst chunk_loop.simps) simp
    have "chunked m (chunk_loop m lo hi)"
      using IH True 1(2) unfolding eq chunked_def by fastforce
    moreover have "{lo..min hi (lo + m - 1)} \<union> {lo + m..hi} = {lo..hi}"
      using 1(2) True by auto
    then have "(\<Union>c \<in> set (chunk_loop m lo hi). ledgers_of c) = {lo..hi}"
      using IH(2) by (simp add: eq ledgers_of_def)
    moreover have "\<forall>c \<in> set (chunk_loop m lo hi). lo \<le> rc_from c \<and> rc_to c \<le> hi"
      using IH(3) True 1(2) by (force simp: eq)
    ultimately show ?thesis by blast
  next
    case False
    then show ?thesis by (subst chunk_loop.simps) (simp add: chunked_def chunk_loop.simps)
  qed
qed

lemma chunked_append:
  "chunked m (xs @ ys) \<longleftrightarrow> chunked m xs \<and> chunked m ys
     \<and> (\<forall>x \<in> set xs. \<forall>y \<in> set ys. rc_to x < rc_from y)"
  by (auto simp: chunked_def sorted_wrt_append)

lemma chunkReplayRanges_spec:
  assumes "chunkReplayRanges rs m = Inr cs" and "separated rs"
  shows "chunked m cs \<and> (\<Union>c \<in> set cs. ledgers_of c) = (\<Union>r \<in> set rs. ledgers_of r)"
proof -
  from assms(1) have m: "1 \<le> m"
    and cs: "cs = concat (map (\<lambda>r. chunk_loop m (rc_from r) (rc_to r)) rs)"
    by (auto simp: chunkReplayRanges_def split: if_splits)
  note loop = chunk_loop_spec [OF m]
  have "(\<Union>c \<in> set cs. ledgers_of c) = (\<Union>r \<in> set rs. ledgers_of r)"
    unfolding cs using loop by (simp add: ledgers_of_def)
  moreover have "chunked m cs" using assms(2) unfolding cs
  proof (induction rs)
    case (Cons r rs)
    have "rc_to x < rc_from y"
      if "x \<in> set (chunk_loop m (rc_from r) (rc_to r))" "s \<in> set rs"
        "y \<in> set (chunk_loop m (rc_from s) (rc_to s))" for x y s
    proof -
      have "rc_to x \<le> rc_to r" "rc_from s \<le> rc_from y" using loop that by blast+
      moreover have "rc_to r < rc_from s" using Cons.prems that by (auto simp: separated_def)
      ultimately show ?thesis by simp
    qed
    moreover have "separated rs" using Cons.prems by (simp add: separated_def)
    ultimately show ?case using Cons.IH loop by (auto simp: chunked_append)
  qed (simp add: chunked_def)
  ultimately show ?thesis by blast
qed

section \<open>Merged observations\<close>

lemma merge_loop_keys:
  assumes "merge_loop acc obs = Inr m"
  shows "fst ` set m = fst ` set acc \<union> lo_ledger ` set obs"
  using assms
proof (induction obs arbitrary: acc)
  case (Cons ob obs)
  then show ?case
    by (auto simp: dom_update [simplified dom_map_of_conv_image_fst] split: if_splits)
qed simp

lemma normalize_entries_ledgers:
  "normalize_entries lc es = Inr obs \<Longrightarrow> map lo_ledger obs = map fst es"
  by (induction lc es arbitrary: obs rule: normalize_entries.induct) (auto split: sum.splits)

lemma mergeObservations_ledgers:
  assumes "mergeObservations lc obs = Inr merged"
  shows "lo_ledger ` set merged = lo_ledger ` set obs"
proof -
  from assms obtain m where m: "merge_loop [] obs = Inr m"
    "normalize_entries lc (sort_key fst m) = Inr merged"
    by (auto simp: mergeObservations_def split: sum.splits)
  have "set (map lo_ledger merged) = fst ` set m"
    using normalize_entries_ledgers [OF m(2)] by (metis list.set_map set_sort)
  then show ?thesis using merge_loop_keys [OF m(1)] by simp
qed

lemma findUnobserved_set:
  "set (findUnobservedLedgers lo hi obs) = {lo..hi} - lo_ledger ` set obs"
  by (auto simp: findUnobservedLedgers_def)

lemma findUnobserved_Nil:
  "findUnobservedLedgers lo hi obs = [] \<longleftrightarrow> {lo..hi} \<subseteq> lo_ledger ` set obs"
  using findUnobserved_set [of lo hi obs] by (metis Diff_eq_empty_iff set_empty)

lemma decideCheckpoint_cases:
  "decideCheckpoint current target obs =
    (if {current + 1..target} \<subseteq> lo_ledger ` set obs
     then \<lparr>cd_accepted = True, cd_nextCheckpoint = max current target, cd_missing = []\<rparr>
     else \<lparr>cd_accepted = False, cd_nextCheckpoint = current,
           cd_missing = groupLedgerRanges (findUnobservedLedgers (current + 1) target obs)\<rparr>)"
  by (simp add: decideCheckpoint_def Let_def groupLedgerRanges_Nil findUnobserved_Nil max_def)

lemma planner_checkpoint_Inr:
  assumes "mergeObservations lc obs = Inr merged"
  shows "planner_checkpoint lc current target obs = Inr c \<longleftrightarrow>
    c = max current target \<and> {current + 1..target} \<subseteq> lo_ledger ` set obs"
  by (auto simp: planner_checkpoint_def assms decideCheckpoint_cases assertCheckpointDecision_def
      mergeObservations_ledgers [OF assms])

lemma planner_plan_Inr:
  assumes "planner_plan lc planner current target obs = Inr chunks"
  shows "chunked (rp_maxReplayLedgers planner) chunks
    \<and> (\<Union>c \<in> set chunks. ledgers_of c) = {current + 1..target} - lo_ledger ` set obs"
proof -
  from assms obtain merged where merged: "mergeObservations lc obs = Inr merged"
    by (auto simp: planner_plan_def split: sum.splits)
  define missing where "missing = cd_missing (decideCheckpoint current target merged)"
  have chunks: "chunkReplayRanges missing (rp_maxReplayLedgers planner) = Inr chunks"
    using assms by (simp add: planner_plan_def merged missing_def)
  have led: "lo_ledger ` set merged = lo_ledger ` set obs"
    by (rule mergeObservations_ledgers [OF merged])
  have "separated missing"
    using groupLedgerRanges_spec by (simp add: missing_def decideCheckpoint_cases) (simp add: separated_def)
  moreover have "(\<Union>r \<in> set missing. ledgers_of r) = {current + 1..target} - lo_ledger ` set obs"
    by (auto simp: missing_def decideCheckpoint_cases led findUnobserved_set
        groupLedgerRanges_spec [THEN conjunct2])
  ultimately show ?thesis using chunkReplayRanges_spec [OF chunks] by simp
qed

section \<open>Properties\<close>

text \<open>Event ids are a faithful encoding of positions: for a ledger of 32 bits, a transaction
  order of 20 bits, an operation index of 12 bits and a safe event index, \<^verbatim>\<open>decodeEventId\<close> reads
  back from the text \<^verbatim>\<open>formatEventId\<close> prints exactly the four coordinates it was given; hence two
  positions in range never print the same id.\<close>

lemma event_id_roundtrip:
  assumes "0 \<le> l" "l < 2 ^ 32" "0 \<le> t" "t < 2 ^ 20" "0 \<le> p" "p < 2 ^ 12" "0 \<le> e" "e \<le> 2 ^ 53 - 1"
  shows "decodeEventId (formatEventId l t p e) =
      Some \<lparr>di_ledger = l, di_txApplicationOrder = t, di_opIndex = p, di_eventIndex = e\<rparr>
    \<and> (\<forall>l' t' p' e'. 0 \<le> l' \<and> l' < 2 ^ 32 \<and> 0 \<le> t' \<and> t' < 2 ^ 20 \<and> 0 \<le> p' \<and> p' < 2 ^ 12
        \<and> 0 \<le> e' \<and> e' \<le> 2 ^ 53 - 1 \<and> formatEventId l t p e = formatEventId l' t' p' e'
      \<longrightarrow> (l, t, p, e) = (l', t', p', e'))"
proof -
  have rt: "decodeEventId (formatEventId l t p e) =
      Some \<lparr>di_ledger = l, di_txApplicationOrder = t, di_opIndex = p, di_eventIndex = e\<rparr>"
    by (rule decode_format [OF assms])
  have "(l, t, p, e) = (l', t', p', e')"
    if "0 \<le> l'" "l' < 2 ^ 32" "0 \<le> t'" "t' < 2 ^ 20" "0 \<le> p'" "p' < 2 ^ 12" "0 \<le> e'" "e' \<le> 2 ^ 53 - 1"
      "formatEventId l t p e = formatEventId l' t' p' e'" for l' t' p' e'
    using trans [OF sym [OF decode_format [OF that(1-8)]] rt [unfolded that(9)]] by simp
  with rt show ?thesis by blast
qed

lemma event_id_roundtrip_witness:
  "decodeEventId (formatEventId 51234567 3 1 2) =
      Some \<lparr>di_ledger = 51234567, di_txApplicationOrder = 3, di_opIndex = 1, di_eventIndex = 2\<rparr>"
  by (rule event_id_roundtrip [THEN conjunct1]) simp_all

text \<open>Checkpoint safety: when \<^verbatim>\<open>IndexerRecoveryPlanner.checkpoint\<close> returns, the new checkpoint is
  the target (or the current one when the target is behind it), it never moves back, and every
  ledger it crosses was explicitly observed.\<close>

lemma checkpoint_safe:
  assumes "planner_checkpoint lc current target obs = Inr c"
  shows "c = max current target \<and> (\<forall>l. current < l \<and> l \<le> c \<longrightarrow> l \<in> lo_ledger ` set obs)"
proof -
  obtain merged where merged: "mergeObservations lc obs = Inr merged"
    using assms by (auto simp: planner_checkpoint_def split: sum.splits)
  from planner_checkpoint_Inr [OF merged, of current target c] assms show ?thesis by auto
qed

text \<open>The replay plan is exact: the chunks \<^verbatim>\<open>IndexerRecoveryPlanner.plan\<close> returns are in ascending
  order, do not overlap, hold between one and \<^verbatim>\<open>maxReplayLedgers\<close> ledgers each, and together cover
  precisely the ledgers between the checkpoint and the target that were not observed. Once further
  valid observations cover those chunks, the checkpoint is accepted.\<close>

lemma plan_exact:
  assumes "planner_plan lc planner current target obs = Inr chunks"
  shows "(\<forall>c \<in> set chunks. rc_from c \<le> rc_to c \<and> rc_to c - rc_from c + 1 \<le> rp_maxReplayLedgers planner)
    \<and> sorted_wrt (\<lambda>c d. rc_to c < rc_from d) chunks
    \<and> (\<Union>c \<in> set chunks. {rc_from c..rc_to c}) = {current + 1..target} - lo_ledger ` set obs
    \<and> (\<forall>obs' merged. (\<Union>c \<in> set chunks. {rc_from c..rc_to c}) \<subseteq> lo_ledger ` set obs'
         \<and> mergeObservations lc (obs @ obs') = Inr merged
       \<longrightarrow> planner_checkpoint lc current target (obs @ obs') = Inr (max current target))"
proof -
  note plan = planner_plan_Inr [OF assms]
  have cover: "(\<Union>c \<in> set chunks. {rc_from c..rc_to c}) = {current + 1..target} - lo_ledger ` set obs"
    using plan by (simp add: ledgers_of_def)
  have "planner_checkpoint lc current target (obs @ obs') = Inr (max current target)"
    if "(\<Union>c \<in> set chunks. {rc_from c..rc_to c}) \<subseteq> lo_ledger ` set obs'"
      and merged: "mergeObservations lc (obs @ obs') = Inr merged" for obs' merged
  proof -
    from that cover have "{current + 1..target} \<subseteq> lo_ledger ` set (obs @ obs')" by auto
    with planner_checkpoint_Inr [OF merged] show ?thesis by simp
  qed
  with plan cover show ?thesis by (simp add: chunked_def)
qed

definition observed_103 :: "unit ledger_observation" where
  "observed_103 = \<lparr>lo_ledger = 103, lo_events = []\<rparr>"

definition demo_planner :: recovery_planner where
  "demo_planner = \<lparr>rp_maxReplayLedgers = 2\<rparr>"

lemma demo_plan:
  "planner_plan (\<lambda>_ _. 0) demo_planner 100 106 [observed_103] =
     Inr [\<lparr>rc_from = 101, rc_to = 102\<rparr>, \<lparr>rc_from = 104, rc_to = 105\<rparr>, \<lparr>rc_from = 106, rc_to = 106\<rparr>]"
  by code_simp

lemma plan_exact_witness:
  "(\<Union>c \<in> {\<lparr>rc_from = 101, rc_to = 102\<rparr>, \<lparr>rc_from = 104, rc_to = 105\<rparr>, \<lparr>rc_from = 106, rc_to = 106\<rparr>}.
      {rc_from c..rc_to c}) = {101..106} - {103::int}"
  using plan_exact [OF demo_plan] by (simp add: observed_103_def)

lemma checkpoint_safe_witness:
  "planner_checkpoint (\<lambda>_ _. 0) 102 103 [observed_103] = Inr 103
   \<and> 103 \<in> lo_ledger ` set [observed_103]"
proof -
  have c: "planner_checkpoint (\<lambda>_ _. 0) 102 103 [observed_103] = Inr 103" by code_simp
  from c checkpoint_safe [OF c] show ?thesis by fastforce
qed

text \<open>A normalised batch is canonical: with a consistent collation, the batch
  \<^verbatim>\<open>normalizeRecoveryBatch\<close> returns has no two events of one identity, keeps every identity of the
  input and only events of the input, is sorted by position, and normalising it again returns it
  unchanged.\<close>

lemma normalize_canonical:
  assumes "consistent lc" and "normalizeRecoveryBatch lc es = Inr out"
  shows "distinct (map eventIdentity out)
    \<and> eventIdentity ` set out = eventIdentity ` set es \<and> set out \<subseteq> set es
    \<and> sorted (map position out) \<and> normalizeRecoveryBatch lc out = Inr out"
  using normalize_facts [OF assms] by blast

end
