(* ===== verification/Event_Decoder.thy ===== *)
theory Event_Decoder
  imports Js_Numerals Schema
begin

text \<open>
  The decoder of contract events, \<^verbatim>\<open>src/indexer/eventDecoder.ts\<close>. An \<^verbatim>\<open>xdr.ScVal\<close> is the datatype
  \<open>scval\<close> with the variants the code distinguishes; \<open>ScOther\<close> and \<open>ScOtherAddress\<close> stand for all
  others. What the code takes from \<^verbatim>\<open>@stellar/stellar-sdk\<close> and \<^verbatim>\<open>zod\<close> (XDR parsing and printing,
  strkeys, \<^verbatim>\<open>scValToNative\<close>, the wording of schema issues) is the record \<open>decoder_libs\<close>, an argument
  of every definition that uses it. A thrown error is \<open>Inl\<close> of its message. Objects are lists of
  their properties; the property name \<^verbatim>\<open>__proto__\<close>, which JavaScript treats specially on
  assignment, is an ordinary name here.

  \<^item> \<open>decoder_sound\<close>: a decoded event agrees with its topics and payload, field by field, and every
    number and address of it passed its check.
  \<^item> \<open>memo_transparent\<close>: the bounded memo tables never change a result.
\<close>

section \<open>Values\<close>

datatype 'x scval =
    ScSymbol string
  | ScString string
  | ScU64 int
  | ScI128 (i128_hi: int) (i128_lo: int)
  | ScU128 (u128_hi: int) (u128_lo: int)
  | ScAccount string
  | ScContract string
  | ScMap "('x scval \<times> 'x scval) list option"
  | ScVec "'x scval list option"
  | ScOtherAddress 'x
  | ScOther 'x

datatype 'x native =
    NNull | NStr string | NBig int | NArr "'x native list" | NObj "(string \<times> 'x native) list" | NOther 'x

text \<open>The kinds of schema fields, and an issue as its path and message.\<close>

datatype field_kind = Text | MarketIdText | BigInt | BigIntNullish | TextArray

type_synonym issue = "string list \<times> string"

record 'x decoder_libs =
  lib_fromXDR :: "string \<Rightarrow> string + 'x scval"
  lib_toXDR :: "'x scval \<Rightarrow> string option"
  lib_encodeAccount :: "string \<Rightarrow> string"
  lib_encodeContract :: "string \<Rightarrow> string"
  lib_isValidAccount :: "string \<Rightarrow> bool"
  lib_isValidContract :: "string \<Rightarrow> bool"
  lib_scValToNative :: "'x scval \<Rightarrow> string + 'x native"
  lib_keyText :: "'x native \<Rightarrow> string"
  lib_fieldIssues :: "string \<Rightarrow> field_kind \<Rightarrow> 'x native option \<Rightarrow> issue list"
  lib_rootIssues :: "'x native \<Rightarrow> issue list"

section \<open>Topics and results\<close>

datatype decoded_topic = mkt_crt | bet_plc | bet_upd | mkt_res | win_clm

fun topic_text :: "decoded_topic \<Rightarrow> string" where
  "topic_text mkt_crt = ''mkt_crt''"
| "topic_text bet_plc = ''bet_plc''"
| "topic_text bet_upd = ''bet_upd''"
| "topic_text mkt_res = ''mkt_res''"
| "topic_text win_clm = ''win_clm''"

definition DECODED_TOPICS :: "decoded_topic list" where
  "DECODED_TOPICS = [mkt_crt, bet_plc, bet_upd, mkt_res, win_clm]"

definition TOPIC_ALIASES :: "(string \<times> decoded_topic) list" where
  "TOPIC_ALIASES = [(''market_created'', mkt_crt), (''bet_placed'', bet_plc),
     (''market_resolved'', mkt_res), (''winnings_claimed'', win_clm)]"

definition canonical_topic :: "string \<Rightarrow> decoded_topic option" where
  "canonical_topic symbol = (case find (\<lambda>t. topic_text t = symbol) DECODED_TOPICS of
     Some t \<Rightarrow> Some t
   | None \<Rightarrow> map_of TOPIC_ALIASES symbol)"

datatype 'x xdr_input = XdrVal "'x scval" | XdrText string

record 'x raw_contract_event =
  raw_topic :: "'x xdr_input list"
  raw_value :: "'x xdr_input"

record raw_xdr =
  rx_topics :: "string list"
  rx_value :: string

record market_created_fields =
  mc_question :: string
  mc_outcomes :: "string list"
  mc_admin :: string
  mc_endTime :: string
  mc_nonce :: string
  mc_timestamp :: string

record bet_placed_fields =
  bp_bettor :: string
  bp_outcome :: string
  bp_amount :: string
  bp_nonce :: string
  bp_timestamp :: string

record bet_updated_fields =
  bu_bettor :: string
  bu_oldStatus :: string
  bu_newStatus :: string
  bu_payoutAmount :: "string option"
  bu_nonce :: string
  bu_timestamp :: string

record market_resolved_fields =
  mr_resolutionMethod :: string
  mr_finalOutcome :: string
  mr_oracleResult :: string
  mr_communityConsensus :: string
  mr_confidenceScore :: string
  mr_nonce :: string
  mr_timestamp :: string

record winnings_claimed_fields =
  wc_user :: string
  wc_amount :: string
  wc_nonce :: string
  wc_timestamp :: string

datatype event_fields =
    MarketCreated market_created_fields
  | BetPlaced bet_placed_fields
  | BetUpdated bet_updated_fields
  | MarketResolved market_resolved_fields
  | WinningsClaimed winnings_claimed_fields

datatype decode_result =
    Decoded decoded_topic string event_fields
  | Unknown string "string option" raw_xdr
  | Invalid string "string option" "string list" raw_xdr

section \<open>Validation primitives\<close>

definition I128_MIN :: int where "I128_MIN = - (2 ^ 127)"
definition I128_MAX :: int where "I128_MAX = 2 ^ 127 - 1"
definition U64_MAX :: int where "U64_MAX = 2 ^ 64 - 1"

text \<open>Each check returns the issues it adds to the context and the value it returns.\<close>

definition i128Of :: "int \<Rightarrow> string \<Rightarrow> issue list \<times> string" where
  "i128Of value path =
    (if value < I128_MIN \<or> value > I128_MAX then [([path], ''out of i128 range'')] else [],
     int_to_string value)"

definition u64Of :: "int \<Rightarrow> string \<Rightarrow> issue list \<times> string" where
  "u64Of value path =
    (if value < 0 \<or> value > U64_MAX then [([path], ''out of u64 range'')] else [],
     int_to_string value)"

text \<open>The horizontal ellipsis of the message, in UTF-8.\<close>

definition ellipsis :: string where
  "ellipsis = [CHR 0xE2, CHR 0x80, CHR 0xA6]"

definition valid_strkey :: "'x decoder_libs \<Rightarrow> string \<Rightarrow> bool" where
  "valid_strkey libs value \<longleftrightarrow> lib_isValidAccount libs value \<or> lib_isValidContract libs value"

definition addressOf :: "'x decoder_libs \<Rightarrow> string \<Rightarrow> string \<Rightarrow> issue list \<times> string" where
  "addressOf libs value path =
    (if \<not> valid_strkey libs value
     then [([path], ''not a valid G'' @ ellipsis @ '' or C'' @ ellipsis @ '' strkey'')] else [],
     value)"

subsection \<open>The memo tables\<close>

definition ADDRESS_MEMO_LIMIT :: nat where "ADDRESS_MEMO_LIMIT = 4096"

record memos =
  addressMemo :: "(string \<times> bool) list"
  strkeyMemo :: "(string \<times> string) list"

datatype address_kind = KindG | KindC

fun kind_char :: "address_kind \<Rightarrow> char" where
  "kind_char KindG = CHR ''G''"
| "kind_char KindC = CHR ''C''"

fun encode_strkey :: "'x decoder_libs \<Rightarrow> address_kind \<Rightarrow> string \<Rightarrow> string" where
  "encode_strkey libs KindG bytes = lib_encodeAccount libs bytes"
| "encode_strkey libs KindC bytes = lib_encodeContract libs bytes"

text \<open>\<^verbatim>\<open>if (memo.size >= LIMIT) memo.clear(); memo.set(key, value)\<close>.\<close>

definition memo_set :: "'k \<Rightarrow> 'v \<Rightarrow> ('k \<times> 'v) list \<Rightarrow> ('k \<times> 'v) list" where
  "memo_set k v memo = AList.update k v (if length memo \<ge> ADDRESS_MEMO_LIMIT then [] else memo)"

definition strkeyOf :: "'x decoder_libs \<Rightarrow> address_kind \<Rightarrow> string \<Rightarrow> memos \<Rightarrow> memos \<times> string" where
  "strkeyOf libs kind bytes ms =
    (let key = kind_char kind # bytes
     in case map_of (strkeyMemo ms) key of
          Some encoded \<Rightarrow> (ms, encoded)
        | None \<Rightarrow>
            (let encoded = encode_strkey libs kind bytes
             in (ms\<lparr>strkeyMemo := memo_set key encoded (strkeyMemo ms),
                    addressMemo := memo_set encoded True (addressMemo ms)\<rparr>, encoded)))"

definition isValidAddress :: "'x decoder_libs \<Rightarrow> string \<Rightarrow> memos \<Rightarrow> memos \<times> bool" where
  "isValidAddress libs value ms = (case map_of (addressMemo ms) value of
     Some cached \<Rightarrow> (ms, cached)
   | None \<Rightarrow>
       (let valid = valid_strkey libs value
        in (ms\<lparr>addressMemo := memo_set value valid (addressMemo ms)\<rparr>, valid)))"

section \<open>Payload schemas\<close>

fun field_ok :: "field_kind \<Rightarrow> 'x native option \<Rightarrow> bool" where
  "field_ok Text (Some (NStr _)) = True"
| "field_ok MarketIdText (Some (NStr s)) = (s \<noteq> [])"
| "field_ok BigInt (Some (NBig _)) = True"
| "field_ok BigIntNullish None = True"
| "field_ok BigIntNullish (Some NNull) = True"
| "field_ok BigIntNullish (Some (NBig _)) = True"
| "field_ok TextArray (Some (NArr xs)) = list_all (\<lambda>x. case x of NStr _ \<Rightarrow> True | _ \<Rightarrow> False) xs"
| "field_ok _ _ = False"

type_synonym shape = "(string \<times> field_kind) list"

text \<open>\<^verbatim>\<open>z.object(shape)\<close>: the object when every field has its kind, otherwise the issues of the fields
  that do not, in the order of the shape.\<close>

definition parse_object :: "'x decoder_libs \<Rightarrow> shape \<Rightarrow> 'x native \<Rightarrow> issue list + (string \<times> 'x native) list" where
  "parse_object libs sh v = (case v of
     NObj props \<Rightarrow>
       if list_all (\<lambda>(k, kind). field_ok kind (map_of props k)) sh then Inr props
       else Inl (concat (map (\<lambda>(k, kind). if field_ok kind (map_of props k) then []
                                          else lib_fieldIssues libs k kind (map_of props k)) sh))
   | _ \<Rightarrow> Inl (lib_rootIssues libs v))"

definition str_at :: "(string \<times> 'x native) list \<Rightarrow> string \<Rightarrow> string" where
  "str_at props k = (case map_of props k of Some (NStr s) \<Rightarrow> s | _ \<Rightarrow> [])"

definition big_at :: "(string \<times> 'x native) list \<Rightarrow> string \<Rightarrow> int" where
  "big_at props k = (case map_of props k of Some (NBig n) \<Rightarrow> n | _ \<Rightarrow> 0)"

definition strs_at :: "(string \<times> 'x native) list \<Rightarrow> string \<Rightarrow> string list" where
  "strs_at props k = (case map_of props k of
     Some (NArr xs) \<Rightarrow> map (\<lambda>x. case x of NStr s \<Rightarrow> s | _ \<Rightarrow> []) xs | _ \<Rightarrow> [])"

text \<open>The transforms: the issues added while the fields are built, and the fields.\<close>

definition marketCreated_shape :: shape where
  "marketCreated_shape = [(''market_id'', MarketIdText), (''question'', Text), (''outcomes'', TextArray),
     (''admin'', Text), (''end_time'', BigInt), (''nonce'', BigInt), (''timestamp'', BigInt)]"

definition marketCreated_transform ::
  "'x decoder_libs \<Rightarrow> (string \<times> 'x native) list \<Rightarrow> issue list \<times> market_created_fields" where
  "marketCreated_transform libs p =
    (let (i1, admin) = addressOf libs (str_at p ''admin'') ''admin'';
         (i2, endTime) = u64Of (big_at p ''end_time'') ''end_time'';
         (i3, nonce) = u64Of (big_at p ''nonce'') ''nonce'';
         (i4, timestamp) = u64Of (big_at p ''timestamp'') ''timestamp''
     in (i1 @ i2 @ i3 @ i4,
         \<lparr>mc_question = str_at p ''question'', mc_outcomes = strs_at p ''outcomes'', mc_admin = admin,
          mc_endTime = endTime, mc_nonce = nonce, mc_timestamp = timestamp\<rparr>))"

definition betPlaced_shape :: shape where
  "betPlaced_shape = [(''market_id'', MarketIdText), (''bettor'', Text), (''outcome'', Text),
     (''amount'', BigInt), (''nonce'', BigInt), (''timestamp'', BigInt)]"

definition betPlaced_transform ::
  "'x decoder_libs \<Rightarrow> (string \<times> 'x native) list \<Rightarrow> issue list \<times> bet_placed_fields" where
  "betPlaced_transform libs p =
    (let (i1, bettor) = addressOf libs (str_at p ''bettor'') ''bettor'';
         (i2, amount) = i128Of (big_at p ''amount'') ''amount'';
         (i3, nonce) = u64Of (big_at p ''nonce'') ''nonce'';
         (i4, timestamp) = u64Of (big_at p ''timestamp'') ''timestamp''
     in (i1 @ i2 @ i3 @ i4,
         \<lparr>bp_bettor = bettor, bp_outcome = str_at p ''outcome'', bp_amount = amount,
          bp_nonce = nonce, bp_timestamp = timestamp\<rparr>))"

definition betUpdated_shape :: shape where
  "betUpdated_shape = [(''market_id'', MarketIdText), (''bettor'', Text), (''old_status'', Text),
     (''new_status'', Text), (''payout_amount'', BigIntNullish), (''nonce'', BigInt), (''timestamp'', BigInt)]"

definition betUpdated_transform ::
  "'x decoder_libs \<Rightarrow> (string \<times> 'x native) list \<Rightarrow> issue list \<times> bet_updated_fields" where
  "betUpdated_transform libs p =
    (let (i1, bettor) = addressOf libs (str_at p ''bettor'') ''bettor'';
         (i2, payout) = (case map_of p ''payout_amount'' of
             Some (NBig n) \<Rightarrow> (let (i, s) = i128Of n ''payout_amount'' in (i, Some s))
           | _ \<Rightarrow> ([], None));
         (i3, nonce) = u64Of (big_at p ''nonce'') ''nonce'';
         (i4, timestamp) = u64Of (big_at p ''timestamp'') ''timestamp''
     in (i1 @ i2 @ i3 @ i4,
         \<lparr>bu_bettor = bettor, bu_oldStatus = str_at p ''old_status'', bu_newStatus = str_at p ''new_status'',
          bu_payoutAmount = payout, bu_nonce = nonce, bu_timestamp = timestamp\<rparr>))"

definition marketResolved_shape :: shape where
  "marketResolved_shape = [(''market_id'', MarketIdText), (''final_outcome'', Text), (''oracle_result'', Text),
     (''community_consensus'', Text), (''resolution_method'', Text), (''confidence_score'', BigInt),
     (''nonce'', BigInt), (''timestamp'', BigInt)]"

definition marketResolved_transform ::
  "(string \<times> 'x native) list \<Rightarrow> issue list \<times> market_resolved_fields" where
  "marketResolved_transform p =
    (let (i1, confidence) = i128Of (big_at p ''confidence_score'') ''confidence_score'';
         (i2, nonce) = u64Of (big_at p ''nonce'') ''nonce'';
         (i3, timestamp) = u64Of (big_at p ''timestamp'') ''timestamp''
     in (i1 @ i2 @ i3,
         \<lparr>mr_resolutionMethod = str_at p ''resolution_method'', mr_finalOutcome = str_at p ''final_outcome'',
          mr_oracleResult = str_at p ''oracle_result'', mr_communityConsensus = str_at p ''community_consensus'',
          mr_confidenceScore = confidence, mr_nonce = nonce, mr_timestamp = timestamp\<rparr>))"

definition winningsClaimed_shape :: shape where
  "winningsClaimed_shape = [(''market_id'', MarketIdText), (''user'', Text), (''amount'', BigInt),
     (''nonce'', BigInt), (''timestamp'', BigInt)]"

definition winningsClaimed_transform ::
  "'x decoder_libs \<Rightarrow> (string \<times> 'x native) list \<Rightarrow> issue list \<times> winnings_claimed_fields" where
  "winningsClaimed_transform libs p =
    (let (i1, user) = addressOf libs (str_at p ''user'') ''user'';
         (i2, amount) = i128Of (big_at p ''amount'') ''amount'';
         (i3, nonce) = u64Of (big_at p ''nonce'') ''nonce'';
         (i4, timestamp) = u64Of (big_at p ''timestamp'') ''timestamp''
     in (i1 @ i2 @ i3 @ i4,
         \<lparr>wc_user = user, wc_amount = amount, wc_nonce = nonce, wc_timestamp = timestamp\<rparr>))"

fun topic_shape :: "decoded_topic \<Rightarrow> shape" where
  "topic_shape mkt_crt = marketCreated_shape"
| "topic_shape bet_plc = betPlaced_shape"
| "topic_shape bet_upd = betUpdated_shape"
| "topic_shape mkt_res = marketResolved_shape"
| "topic_shape win_clm = winningsClaimed_shape"

fun topic_transform ::
  "'x decoder_libs \<Rightarrow> decoded_topic \<Rightarrow> (string \<times> 'x native) list \<Rightarrow> issue list \<times> event_fields" where
  "topic_transform libs mkt_crt p = map_prod id MarketCreated (marketCreated_transform libs p)"
| "topic_transform libs bet_plc p = map_prod id BetPlaced (betPlaced_transform libs p)"
| "topic_transform libs bet_upd p = map_prod id BetUpdated (betUpdated_transform libs p)"
| "topic_transform libs mkt_res p = map_prod id MarketResolved (marketResolved_transform p)"
| "topic_transform libs win_clm p = map_prod id WinningsClaimed (winningsClaimed_transform libs p)"

text \<open>\<^verbatim>\<open>PAYLOAD_SCHEMAS[canonical].safeParse(native)\<close>.\<close>

definition safeParse ::
  "'x decoder_libs \<Rightarrow> decoded_topic \<Rightarrow> 'x native \<Rightarrow> issue list + (string \<times> event_fields)" where
  "safeParse libs topic v = (case parse_object libs (topic_shape topic) v of
     Inl issues \<Rightarrow> Inl issues
   | Inr p \<Rightarrow> (let (issues, flds) = topic_transform libs topic p
               in if issues \<noteq> [] then Inl issues else Inr (str_at p ''market_id'', flds)))"

section \<open>Helpers\<close>

fun toScVal :: "'x decoder_libs \<Rightarrow> 'x xdr_input \<Rightarrow> string + 'x scval" where
  "toScVal libs (XdrText s) = lib_fromXDR libs s"
| "toScVal libs (XdrVal v) = Inr v"

fun safeBase64 :: "'x decoder_libs \<Rightarrow> 'x xdr_input \<Rightarrow> string" where
  "safeBase64 libs (XdrText s) = s"
| "safeBase64 libs (XdrVal v) = (case lib_toXDR libs v of None \<Rightarrow> [] | Some s \<Rightarrow> s)"

definition rawOf :: "'x decoder_libs \<Rightarrow> 'x raw_contract_event \<Rightarrow> raw_xdr" where
  "rawOf libs raw = \<lparr>rx_topics = map (safeBase64 libs) (raw_topic raw), rx_value = safeBase64 libs (raw_value raw)\<rparr>"

fun symbolText :: "'x scval option \<Rightarrow> string option" where
  "symbolText (Some (ScSymbol s)) = Some s"
| "symbolText _ = None"

fun textOf :: "'x scval option \<Rightarrow> string option" where
  "textOf (Some (ScSymbol s)) = Some s"
| "textOf (Some (ScString s)) = Some s"
| "textOf _ = None"

definition TWO_POW_64 :: int where "TWO_POW_64 = 2 ^ 64"

fun property_key :: "'x decoder_libs \<Rightarrow> 'x native \<Rightarrow> string" where
  "property_key libs (NStr s) = s"
| "property_key libs (NBig n) = int_to_string n"
| "property_key libs v = lib_keyText libs v"

text \<open>\<open>nativeOf\<close> walks containers itself; \<open>native_list\<close> and \<open>native_entries\<close> are its two loops.\<close>

function nativeOf :: "'x decoder_libs \<Rightarrow> 'x scval \<Rightarrow> string + 'x native"
  and native_list :: "'x decoder_libs \<Rightarrow> 'x scval list \<Rightarrow> string + 'x native list"
  and native_entries :: "'x decoder_libs \<Rightarrow> (string \<times> 'x native) list \<Rightarrow> ('x scval \<times> 'x scval) list
        \<Rightarrow> string + (string \<times> 'x native) list" where
  "nativeOf libs (ScMap entries) =
     (case (case entries of None \<Rightarrow> Inr [] | Some es \<Rightarrow> native_entries libs [] es) of
        Inl m \<Rightarrow> Inl m | Inr out \<Rightarrow> Inr (NObj out))"
| "nativeOf libs (ScVec xs) =
     (case (case xs of None \<Rightarrow> Inr [] | Some vs \<Rightarrow> native_list libs vs) of
        Inl m \<Rightarrow> Inl m | Inr out \<Rightarrow> Inr (NArr out))"
| "nativeOf libs (ScSymbol s) = Inr (NStr s)"
| "nativeOf libs (ScString s) = Inr (NStr s)"
| "nativeOf libs (ScU64 n) = Inr (NBig n)"
| "nativeOf libs (ScI128 hi lo) = Inr (NBig (hi * TWO_POW_64 + lo))"
| "nativeOf libs (ScU128 hi lo) = Inr (NBig (hi * TWO_POW_64 + lo))"
| "nativeOf libs (ScAccount bytes) = Inr (NStr (encode_strkey libs KindG bytes))"
| "nativeOf libs (ScContract bytes) = Inr (NStr (encode_strkey libs KindC bytes))"
| "nativeOf libs (ScOtherAddress x) = lib_scValToNative libs (ScOtherAddress x)"
| "nativeOf libs (ScOther x) = lib_scValToNative libs (ScOther x)"
| "native_list libs [] = Inr []"
| "native_list libs (v # vs) = (case nativeOf libs v of
     Inl m \<Rightarrow> Inl m
   | Inr n \<Rightarrow> (case native_list libs vs of Inl m \<Rightarrow> Inl m | Inr ns \<Rightarrow> Inr (n # ns)))"
| "native_entries libs out [] = Inr out"
| "native_entries libs out ((k, v) # es) = (case nativeOf libs k of
     Inl m \<Rightarrow> Inl m
   | Inr nk \<Rightarrow> (case nativeOf libs v of
        Inl m \<Rightarrow> Inl m
      | Inr nv \<Rightarrow> native_entries libs (AList.update (property_key libs nk) nv out) es))"
  by pat_completeness auto
termination
  by (relation "measure (\<lambda>x. case x of
        Inl (libs, v) \<Rightarrow> size v
      | Inr (Inl (libs, vs)) \<Rightarrow> size_list size vs
      | Inr (Inr (libs, out, es)) \<Rightarrow> size_list (size_prod size size) es)") auto

fun join_dots :: "string list \<Rightarrow> string" where
  "join_dots [] = []"
| "join_dots [s] = s"
| "join_dots (s # ss) = s @ ''.'' @ join_dots ss"

definition issuesOf :: "issue list \<Rightarrow> string list" where
  "issuesOf issues = map (\<lambda>(path, message).
     (let j = join_dots path in if j = [] then ''(root)'' else j) @ '': '' @ message) issues"

section \<open>The decoder\<close>

fun parse_topics :: "'x decoder_libs \<Rightarrow> 'x xdr_input list \<Rightarrow> string + 'x scval list" where
  "parse_topics libs [] = Inr []"
| "parse_topics libs (t # ts) = (case toScVal libs t of
     Inl m \<Rightarrow> Inl m
   | Inr v \<Rightarrow> (case parse_topics libs ts of Inl m \<Rightarrow> Inl m | Inr vs \<Rightarrow> Inr (v # vs)))"

definition parse_raw :: "'x decoder_libs \<Rightarrow> 'x raw_contract_event \<Rightarrow> string + ('x scval list \<times> 'x scval)" where
  "parse_raw libs raw = (case parse_topics libs (raw_topic raw) of
     Inl m \<Rightarrow> Inl m
   | Inr topics \<Rightarrow> (case toScVal libs (raw_value raw) of Inl m \<Rightarrow> Inl m | Inr v \<Rightarrow> Inr (topics, v)))"

text \<open>The check of topic 2 of a resolution against its payload: the errors, none when it passes.\<close>

definition method_errors :: "'x scval list \<Rightarrow> event_fields \<Rightarrow> string list" where
  "method_errors topics flds = (case flds of
     MarketResolved f \<Rightarrow>
       (case textOf (js_nth topics 2) of
          None \<Rightarrow> [''topic[2] (resolution_method) is missing or is not a String/Symbol'']
        | Some topicMethod \<Rightarrow>
            if topicMethod \<noteq> mr_resolutionMethod f
            then [''payload resolution_method \"'' @ mr_resolutionMethod f @ ''\" does not match topic[2] \"''
                  @ topicMethod @ ''\"'']
            else [])
   | _ \<Rightarrow> [])"

definition decode_payload ::
  "'x decoder_libs \<Rightarrow> decoded_topic \<Rightarrow> string \<Rightarrow> 'x scval list \<Rightarrow> 'x scval \<Rightarrow> string list + event_fields" where
  "decode_payload libs canonical topicMarketId topics v = (case nativeOf libs v of
     Inl m \<Rightarrow> Inl [''payload conversion failed: '' @ m]
   | Inr native \<Rightarrow> (case safeParse libs canonical native of
        Inl issues \<Rightarrow> Inl (issuesOf issues)
      | Inr (marketId, flds) \<Rightarrow>
          if marketId \<noteq> topicMarketId
          then Inl [''payload market_id \"'' @ marketId @ ''\" does not match topic[1] \"'' @ topicMarketId @ ''\"'']
          else if method_errors topics flds \<noteq> [] then Inl (method_errors topics flds)
          else Inr flds))"

definition decodePredictifyEvent :: "'x decoder_libs \<Rightarrow> 'x raw_contract_event \<Rightarrow> decode_result" where
  "decodePredictifyEvent libs raw = (case parse_raw libs raw of
     Inl m \<Rightarrow> Invalid ''invalid:topic'' None [''malformed XDR: '' @ m] (rawOf libs raw)
   | Inr (topics, v) \<Rightarrow> (case symbolText (js_nth topics 0) of
        None \<Rightarrow> Invalid ''invalid:topic'' None [''topic[0] is missing or is not a Symbol''] (rawOf libs raw)
      | Some symbol \<Rightarrow>
          (let topicMarketId = symbolText (js_nth topics 1)
           in case canonical_topic symbol of
                None \<Rightarrow> Unknown (''unknown:'' @ symbol) topicMarketId (rawOf libs raw)
              | Some canonical \<Rightarrow>
                  (let invalid = (\<lambda>errors. Invalid (''invalid:'' @ topic_text canonical) topicMarketId errors (rawOf libs raw))
                   in case topicMarketId of
                        None \<Rightarrow> invalid [''topic[1] (market_id) is missing or is not a Symbol'']
                      | Some mid \<Rightarrow>
                          if mid = [] then invalid [''topic[1] (market_id) is missing or is not a Symbol'']
                          else (case decode_payload libs canonical mid topics v of
                                  Inl errors \<Rightarrow> invalid errors
                                | Inr flds \<Rightarrow> Decoded canonical mid flds)))))"

subsection \<open>The persisted object\<close>

definition raw_json :: "raw_xdr \<Rightarrow> json" where
  "raw_json r = JObj [(''topics'', JArr (map JStr (rx_topics r))), (''value'', JStr (rx_value r))]"

fun fields_json :: "event_fields \<Rightarrow> (string \<times> json) list" where
  "fields_json (MarketCreated f) = [(''question'', JStr (mc_question f)),
     (''outcomes'', JArr (map JStr (mc_outcomes f))), (''admin'', JStr (mc_admin f)),
     (''endTime'', JStr (mc_endTime f)), (''nonce'', JStr (mc_nonce f)), (''timestamp'', JStr (mc_timestamp f))]"
| "fields_json (BetPlaced f) = [(''bettor'', JStr (bp_bettor f)), (''outcome'', JStr (bp_outcome f)),
     (''amount'', JStr (bp_amount f)), (''nonce'', JStr (bp_nonce f)), (''timestamp'', JStr (bp_timestamp f))]"
| "fields_json (BetUpdated f) = [(''bettor'', JStr (bu_bettor f)), (''oldStatus'', JStr (bu_oldStatus f)),
     (''newStatus'', JStr (bu_newStatus f)),
     (''payoutAmount'', case bu_payoutAmount f of None \<Rightarrow> JNull | Some a \<Rightarrow> JStr a),
     (''nonce'', JStr (bu_nonce f)), (''timestamp'', JStr (bu_timestamp f))]"
| "fields_json (MarketResolved f) = [(''resolutionMethod'', JStr (mr_resolutionMethod f)),
     (''finalOutcome'', JStr (mr_finalOutcome f)), (''oracleResult'', JStr (mr_oracleResult f)),
     (''communityConsensus'', JStr (mr_communityConsensus f)), (''confidenceScore'', JStr (mr_confidenceScore f)),
     (''nonce'', JStr (mr_nonce f)), (''timestamp'', JStr (mr_timestamp f))]"
| "fields_json (WinningsClaimed f) = [(''user'', JStr (wc_user f)), (''amount'', JStr (wc_amount f)),
     (''nonce'', JStr (wc_nonce f)), (''timestamp'', JStr (wc_timestamp f))]"

fun eventDataOf :: "decode_result \<Rightarrow> json" where
  "eventDataOf (Decoded topic marketId flds) = JObj (fields_json flds)"
| "eventDataOf (Invalid eventType marketId errors raw) =
     JObj [(''raw'', raw_json raw), (''errors'', JArr (map JStr errors))]"
| "eventDataOf (Unknown eventType marketId raw) = JObj [(''raw'', raw_json raw)]"

fun result_eventType :: "decode_result \<Rightarrow> string" where
  "result_eventType (Decoded topic _ _) = topic_text topic"
| "result_eventType (Unknown eventType _ _) = eventType"
| "result_eventType (Invalid eventType _ _ _) = eventType"

fun result_marketId :: "decode_result \<Rightarrow> string option" where
  "result_marketId (Decoded _ marketId _) = Some marketId"
| "result_marketId (Unknown _ marketId _) = marketId"
| "result_marketId (Invalid _ marketId _ _) = marketId"

section \<open>What a decoded event guarantees\<close>

definition i128_ok :: "int \<Rightarrow> bool" where "i128_ok n \<longleftrightarrow> I128_MIN \<le> n \<and> n \<le> I128_MAX"
definition u64_ok :: "int \<Rightarrow> bool" where "u64_ok n \<longleftrightarrow> 0 \<le> n \<and> n \<le> U64_MAX"

text \<open>The numeric fields of an event with the payload key they come from and their range, and the
  address fields with theirs.\<close>

fun int_fields :: "event_fields \<Rightarrow> (string \<times> (int \<Rightarrow> bool) \<times> string) list" where
  "int_fields (MarketCreated f) = [(''end_time'', u64_ok, mc_endTime f), (''nonce'', u64_ok, mc_nonce f),
     (''timestamp'', u64_ok, mc_timestamp f)]"
| "int_fields (BetPlaced f) = [(''amount'', i128_ok, bp_amount f), (''nonce'', u64_ok, bp_nonce f),
     (''timestamp'', u64_ok, bp_timestamp f)]"
| "int_fields (BetUpdated f) = (case bu_payoutAmount f of None \<Rightarrow> [] | Some a \<Rightarrow> [(''payout_amount'', i128_ok, a)])
     @ [(''nonce'', u64_ok, bu_nonce f), (''timestamp'', u64_ok, bu_timestamp f)]"
| "int_fields (MarketResolved f) = [(''confidence_score'', i128_ok, mr_confidenceScore f),
     (''nonce'', u64_ok, mr_nonce f), (''timestamp'', u64_ok, mr_timestamp f)]"
| "int_fields (WinningsClaimed f) = [(''amount'', i128_ok, wc_amount f), (''nonce'', u64_ok, wc_nonce f),
     (''timestamp'', u64_ok, wc_timestamp f)]"

fun address_fields :: "event_fields \<Rightarrow> (string \<times> string) list" where
  "address_fields (MarketCreated f) = [(''admin'', mc_admin f)]"
| "address_fields (BetPlaced f) = [(''bettor'', bp_bettor f)]"
| "address_fields (BetUpdated f) = [(''bettor'', bu_bettor f)]"
| "address_fields (MarketResolved f) = []"
| "address_fields (WinningsClaimed f) = [(''user'', wc_user f)]"

fun fields_topic :: "event_fields \<Rightarrow> decoded_topic" where
  "fields_topic (MarketCreated f) = mkt_crt"
| "fields_topic (BetPlaced f) = bet_plc"
| "fields_topic (BetUpdated f) = bet_upd"
| "fields_topic (MarketResolved f) = mkt_res"
| "fields_topic (WinningsClaimed f) = win_clm"

lemma field_ok_BigInt: "field_ok BigInt x \<longleftrightarrow> (\<exists>n. x = Some (NBig n))"
  by (cases "(BigInt, x)" rule: field_ok.cases) auto

lemma field_ok_Text: "field_ok Text x \<longleftrightarrow> (\<exists>s. x = Some (NStr s))"
  by (cases "(Text, x)" rule: field_ok.cases) auto

lemma field_ok_MarketIdText: "field_ok MarketIdText x \<longleftrightarrow> (\<exists>s. x = Some (NStr s) \<and> s \<noteq> [])"
  by (cases "(MarketIdText, x)" rule: field_ok.cases) auto

lemmas field_ok_iffs = field_ok_BigInt field_ok_Text field_ok_MarketIdText

lemma i128Of_ok: "i128Of n path = ([], s) \<longleftrightarrow> i128_ok n \<and> s = int_to_string n"
  by (auto simp: i128Of_def i128_ok_def)

lemma u64Of_ok: "u64Of n path = ([], s) \<longleftrightarrow> u64_ok n \<and> s = int_to_string n"
  by (auto simp: u64Of_def u64_ok_def)

lemma addressOf_ok: "addressOf libs a path = ([], s) \<longleftrightarrow> valid_strkey libs a \<and> s = a"
  by (auto simp: addressOf_def)

lemmas check_oks = i128Of_ok u64Of_ok addressOf_ok

lemma parse_object_Inr:
  "parse_object libs sh v = Inr p \<longleftrightarrow> v = NObj p \<and> (\<forall>(k, kind) \<in> set sh. field_ok kind (map_of p k))"
  by (cases v) (auto simp: parse_object_def list_all_iff)

definition fields_checked :: "'x decoder_libs \<Rightarrow> (string \<times> 'x native) list \<Rightarrow> event_fields \<Rightarrow> bool" where
  "fields_checked libs p f \<longleftrightarrow>
     (\<forall>(key, ok, txt) \<in> set (int_fields f). \<exists>n. map_of p key = Some (NBig n) \<and> ok n \<and> bigint_of_string txt = Some n)
     \<and> (\<forall>(key, a) \<in> set (address_fields f). map_of p key = Some (NStr a) \<and> valid_strkey libs a)"

lemma transform_checked:
  assumes "parse_object libs (topic_shape t) v = Inr p" and "topic_transform libs t p = ([], f)"
  shows "fields_checked libs p f \<and> fields_topic f = t"
proof (cases t)
  case mkt_crt
  then show ?thesis using assms
    by (auto simp: parse_object_Inr marketCreated_shape_def marketCreated_transform_def field_ok_iffs
        fields_checked_def str_at_def big_at_def check_oks map_prod_def split: prod.splits)
next
  case bet_plc
  then show ?thesis using assms
    by (auto simp: parse_object_Inr betPlaced_shape_def betPlaced_transform_def field_ok_iffs
        fields_checked_def str_at_def big_at_def check_oks map_prod_def split: prod.splits)
next
  case bet_upd
  then show ?thesis using assms
    by (auto simp: parse_object_Inr betUpdated_shape_def betUpdated_transform_def field_ok_iffs
        fields_checked_def str_at_def big_at_def check_oks map_prod_def
        split: prod.splits option.splits native.splits)
next
  case mkt_res
  then show ?thesis using assms
    by (auto simp: parse_object_Inr marketResolved_shape_def marketResolved_transform_def field_ok_iffs
        fields_checked_def str_at_def big_at_def check_oks map_prod_def split: prod.splits)
next
  case win_clm
  then show ?thesis using assms
    by (auto simp: parse_object_Inr winningsClaimed_shape_def winningsClaimed_transform_def field_ok_iffs
        fields_checked_def str_at_def big_at_def check_oks map_prod_def split: prod.splits)
qed

lemma shape_marketId: "(''market_id'', MarketIdText) \<in> set (topic_shape t)"
  by (cases t) (simp_all add: marketCreated_shape_def betPlaced_shape_def betUpdated_shape_def
      marketResolved_shape_def winningsClaimed_shape_def)

lemma safeParse_Inr:
  assumes "safeParse libs t v = Inr (mid, f)"
  shows "\<exists>p. v = NObj p \<and> map_of p ''market_id'' = Some (NStr mid) \<and> fields_checked libs p f \<and> fields_topic f = t"
proof -
  obtain p where p: "parse_object libs (topic_shape t) v = Inr p"
    and tr: "topic_transform libs t p = ([], f)" and mid: "mid = str_at p ''market_id''"
    using assms by (auto simp: safeParse_def Let_def split: sum.splits prod.splits if_splits)
  from p shape_marketId have "field_ok MarketIdText (map_of p ''market_id'')"
    by (auto simp: parse_object_Inr)
  then have "map_of p ''market_id'' = Some (NStr mid)" by (auto simp: field_ok_iffs mid str_at_def)
  with transform_checked [OF p tr] p show ?thesis by (auto simp: parse_object_Inr)
qed

lemma method_errors_Nil:
  "method_errors topics f = [] \<longleftrightarrow>
     (\<forall>r. f = MarketResolved r \<longrightarrow> textOf (js_nth topics 2) = Some (mr_resolutionMethod r))"
  by (cases f) (auto simp: method_errors_def split: option.splits)

lemma decode_payload_Inr:
  assumes "decode_payload libs t mid topics v = Inr f"
  shows "\<exists>p. nativeOf libs v = Inr (NObj p) \<and> map_of p ''market_id'' = Some (NStr mid)
    \<and> fields_checked libs p f \<and> fields_topic f = t
    \<and> (\<forall>r. f = MarketResolved r \<longrightarrow> textOf (js_nth topics 2) = Some (mr_resolutionMethod r))"
proof -
  obtain native m where n: "nativeOf libs v = Inr native" "safeParse libs t native = Inr (m, f)"
    "m = mid" "method_errors topics f = []"
    using assms by (auto simp: decode_payload_def split: sum.splits if_splits)
  with safeParse_Inr [of libs t native m f] show ?thesis by (auto simp: method_errors_Nil)
qed

text \<open>C24. Soundness of the decoder: when \<^verbatim>\<open>decodePredictifyEvent\<close> returns a decoded event, topic 0 is a
  symbol naming that topic (or its alias), topic 1 is the non-empty market id and equals the payload's
  \<^verbatim>\<open>market_id\<close>, every numeric field is the decimal text of the payload's integer, which lies in the
  field's i128 or u64 range, every address field is the payload's text and a valid strkey, and a
  resolution's method equals topic 2.\<close>

theorem decoder_sound:
  assumes "decodePredictifyEvent libs raw = Decoded t mid f"
  shows "\<exists>topics v symbol p. parse_raw libs raw = Inr (topics, v)
    \<and> symbolText (js_nth topics 0) = Some symbol \<and> canonical_topic symbol = Some t \<and> fields_topic f = t
    \<and> symbolText (js_nth topics 1) = Some mid \<and> mid \<noteq> []
    \<and> nativeOf libs v = Inr (NObj p) \<and> map_of p ''market_id'' = Some (NStr mid)
    \<and> (\<forall>(key, ok, txt) \<in> set (int_fields f).
         \<exists>n. map_of p key = Some (NBig n) \<and> ok n \<and> bigint_of_string txt = Some n)
    \<and> (\<forall>(key, a) \<in> set (address_fields f). map_of p key = Some (NStr a) \<and> valid_strkey libs a)
    \<and> (\<forall>r. f = MarketResolved r \<longrightarrow> textOf (js_nth topics 2) = Some (mr_resolutionMethod r))"
proof -
  obtain topics v symbol where
    "parse_raw libs raw = Inr (topics, v)" "symbolText (js_nth topics 0) = Some symbol"
    "canonical_topic symbol = Some t" "symbolText (js_nth topics 1) = Some mid" "mid \<noteq> []"
    "decode_payload libs t mid topics v = Inr f"
    using assms
    by (auto simp: decodePredictifyEvent_def Let_def split: sum.splits option.splits if_splits)
  then show ?thesis using decode_payload_Inr [of libs t mid topics v f]
    unfolding fields_checked_def by blast
qed

text \<open>A small instance of the library record for the examples: accounts print as G and their bytes,
  contracts as C and theirs, and an address is valid when it starts with its letter.\<close>

definition demo_libs :: "unit decoder_libs" where
  "demo_libs = \<lparr>lib_fromXDR = (\<lambda>s. Inl ''bad xdr''), lib_toXDR = (\<lambda>v. None),
     lib_encodeAccount = (\<lambda>b. CHR ''G'' # b), lib_encodeContract = (\<lambda>b. CHR ''C'' # b),
     lib_isValidAccount = (\<lambda>s. case s of c # _ \<Rightarrow> c = CHR ''G'' | [] \<Rightarrow> False),
     lib_isValidContract = (\<lambda>s. case s of c # _ \<Rightarrow> c = CHR ''C'' | [] \<Rightarrow> False),
     lib_scValToNative = (\<lambda>v. Inl ''unsupported''), lib_keyText = (\<lambda>v. []),
     lib_fieldIssues = (\<lambda>k kind v. [([k], ''Required'')]), lib_rootIssues = (\<lambda>v. [([], ''Expected object'')])\<rparr>"

subsection \<open>The events the contract emits are decoded\<close>

text \<open>A \<^verbatim>\<open>bet_placed\<close> event as the contract publishes it: a map with its keys in ascending order.\<close>

definition bet_placed_event ::
  "string \<Rightarrow> string \<Rightarrow> string \<Rightarrow> string \<Rightarrow> int \<Rightarrow> int \<Rightarrow> int \<Rightarrow> int \<Rightarrow> 'x raw_contract_event" where
  "bet_placed_event symbol mid bettor outcome hi lo nonce ts =
    \<lparr>raw_topic = [XdrVal (ScSymbol symbol), XdrVal (ScSymbol mid)],
     raw_value = XdrVal (ScMap (Some [(ScSymbol ''amount'', ScI128 hi lo), (ScSymbol ''bettor'', ScAccount bettor),
       (ScSymbol ''market_id'', ScSymbol mid), (ScSymbol ''nonce'', ScU64 nonce),
       (ScSymbol ''outcome'', ScString outcome), (ScSymbol ''timestamp'', ScU64 ts)]))\<rparr>"

lemma i128_parts_ok:
  assumes "- (2 ^ 63) \<le> hi" "hi < 2 ^ 63" "0 \<le> lo" "lo < 2 ^ 64"
  shows "i128_ok (hi * TWO_POW_64 + lo)"
proof -
  have "hi * 2 ^ 64 \<le> (2 ^ 63 - 1) * 2 ^ 64" "- (2 ^ 63) * 2 ^ 64 \<le> hi * (2 ^ 64 :: int)"
    using assms by (intro mult_right_mono; simp)+
  with assms show ?thesis by (simp add: i128_ok_def I128_MIN_def I128_MAX_def TWO_POW_64_def)
qed

lemma canonical_bet_placed: "symbol \<in> {''bet_plc'', ''bet_placed''} \<Longrightarrow> canonical_topic symbol = Some bet_plc"
  by (auto simp: canonical_topic_def DECODED_TOPICS_def TOPIC_ALIASES_def)

lemma bet_placed_payload:
  assumes "mid \<noteq> []" and "valid_strkey libs (lib_encodeAccount libs bettor)"
    and "i128_ok (hi * TWO_POW_64 + lo)" and "u64_ok nonce" and "u64_ok ts"
  shows "decode_payload libs bet_plc mid topics
     (ScMap (Some [(ScSymbol ''amount'', ScI128 hi lo), (ScSymbol ''bettor'', ScAccount bettor),
       (ScSymbol ''market_id'', ScSymbol mid), (ScSymbol ''nonce'', ScU64 nonce),
       (ScSymbol ''outcome'', ScString outcome), (ScSymbol ''timestamp'', ScU64 ts)])) =
    Inr (BetPlaced \<lparr>bp_bettor = lib_encodeAccount libs bettor, bp_outcome = outcome,
       bp_amount = int_to_string (hi * TWO_POW_64 + lo), bp_nonce = int_to_string nonce,
       bp_timestamp = int_to_string ts\<rparr>)"
  using assms
  by (simp add: decode_payload_def safeParse_def parse_object_def betPlaced_shape_def
      betPlaced_transform_def str_at_def big_at_def addressOf_def i128Of_def u64Of_def i128_ok_def
      u64_ok_def method_errors_def not_less)

text \<open>Every bet the contract publishes is decoded: a \<^verbatim>\<open>bet_plc\<close> event (or its alias) whose market
  id is not empty, whose bettor encodes to a valid strkey and whose integers are of the widths the
  contract's types have (a signed high and an unsigned low half for the i128 amount, u64 nonce and
  timestamp) decodes to those values, with the amount as the decimal text of the 128-bit integer.\<close>

lemma bet_placed_decodes:
  assumes "symbol \<in> {''bet_plc'', ''bet_placed''}" and "mid \<noteq> []"
    and "valid_strkey libs (lib_encodeAccount libs bettor)"
    and "- (2 ^ 63) \<le> hi" "hi < 2 ^ 63" "0 \<le> lo" "lo < 2 ^ 64"
    and "0 \<le> nonce" "nonce < 2 ^ 64" "0 \<le> ts" "ts < 2 ^ 64"
  shows "decodePredictifyEvent libs (bet_placed_event symbol mid bettor outcome hi lo nonce ts) =
    Decoded bet_plc mid (BetPlaced \<lparr>bp_bettor = lib_encodeAccount libs bettor, bp_outcome = outcome,
       bp_amount = int_to_string (hi * 2 ^ 64 + lo), bp_nonce = int_to_string nonce,
       bp_timestamp = int_to_string ts\<rparr>)"
proof -
  have "u64_ok nonce" "u64_ok ts" using assms by (simp_all add: u64_ok_def U64_MAX_def)
  note payload = bet_placed_payload [OF assms(2,3) i128_parts_ok [OF assms(4-7)] this]
  show ?thesis
    using assms(2) payload canonical_bet_placed [OF assms(1)]
    by (simp add: decodePredictifyEvent_def bet_placed_event_def parse_raw_def js_nth_def
        TWO_POW_64_def)
qed

lemma bet_placed_decodes_witness:
  "decodePredictifyEvent demo_libs (bet_placed_event ''bet_plc'' ''m1'' ''alice'' ''yes'' (- 1) 5 7 9) =
    Decoded bet_plc ''m1'' (BetPlaced \<lparr>bp_bettor = lib_encodeAccount demo_libs ''alice'', bp_outcome = ''yes'',
       bp_amount = int_to_string (- 1 * 2 ^ 64 + 5), bp_nonce = int_to_string 7, bp_timestamp = int_to_string 9\<rparr>)"
  by (rule bet_placed_decodes) (simp_all add: valid_strkey_def demo_libs_def)

lemma demo_decoded:
  "decodePredictifyEvent demo_libs (bet_placed_event ''bet_placed'' ''m1'' ''bob'' ''no'' 0 250 1 2) =
    Decoded bet_plc ''m1'' (BetPlaced \<lparr>bp_bettor = ''Gbob'', bp_outcome = ''no'',
       bp_amount = ''250'', bp_nonce = ''1'', bp_timestamp = ''2''\<rparr>)"
  by code_simp

theorem decoder_sound_witness:
  "\<exists>p n. map_of p ''amount'' = Some (NBig n :: unit native) \<and> i128_ok n \<and> bigint_of_string ''250'' = Some n"
  using decoder_sound [OF demo_decoded] by auto

subsection \<open>The memo tables\<close>

definition memo_ok :: "'x decoder_libs \<Rightarrow> memos \<Rightarrow> bool" where
  "memo_ok libs ms \<longleftrightarrow>
     (\<forall>(a, b) \<in> set (addressMemo ms). b = valid_strkey libs a)
     \<and> (\<forall>(k, e) \<in> set (strkeyMemo ms). \<exists>kind bytes. k = kind_char kind # bytes \<and> e = encode_strkey libs kind bytes)
     \<and> length (addressMemo ms) \<le> ADDRESS_MEMO_LIMIT \<and> length (strkeyMemo ms) \<le> ADDRESS_MEMO_LIMIT"

lemma kind_char_inj [simp]: "kind_char a = kind_char b \<longleftrightarrow> a = b"
  by (cases a; cases b) auto

lemma set_memo_set: "x \<in> set (memo_set k v memo) \<Longrightarrow> x = (k, v) \<or> x \<in> set memo"
proof -
  have "set (AList.update k v al) \<subseteq> insert (k, v) (set al)" for al :: "('a \<times> 'b) list"
    by (induction al) auto
  then show "x \<in> set (memo_set k v memo) \<Longrightarrow> ?thesis"
    by (auto simp: memo_set_def split: if_splits)
qed

lemma length_memo_set: "length memo \<le> ADDRESS_MEMO_LIMIT \<Longrightarrow> length (memo_set k v memo) \<le> ADDRESS_MEMO_LIMIT"
proof -
  have "length (AList.update k v al) \<le> Suc (length al)" for al :: "('a \<times> 'b) list"
    by (induction al) auto
  from this [of memo] this [of "[]"] show ?thesis
    by (auto simp: memo_set_def ADDRESS_MEMO_LIMIT_def)
qed

lemma memo_ok_address: "memo_ok libs ms \<Longrightarrow> map_of (addressMemo ms) a = Some b \<Longrightarrow> b = valid_strkey libs a"
  by (auto simp: memo_ok_def dest!: map_of_SomeD)

lemma memo_ok_strkey:
  "memo_ok libs ms \<Longrightarrow> map_of (strkeyMemo ms) (kind_char kind # bytes) = Some e \<Longrightarrow> e = encode_strkey libs kind bytes"
  by (auto simp: memo_ok_def dest!: map_of_SomeD)

lemma isValidAddress_spec:
  "memo_ok libs ms \<Longrightarrow> snd (isValidAddress libs a ms) = valid_strkey libs a
     \<and> memo_ok libs (fst (isValidAddress libs a ms))"
  by (auto simp: isValidAddress_def Let_def memo_ok_def length_memo_set dest!: set_memo_set map_of_SomeD
      split: option.split)

lemma strkeyOf_spec:
  assumes "valid_strkey libs (encode_strkey libs kind bytes)" and "memo_ok libs ms"
  shows "snd (strkeyOf libs kind bytes ms) = encode_strkey libs kind bytes
     \<and> memo_ok libs (fst (strkeyOf libs kind bytes ms))"
proof (cases "map_of (strkeyMemo ms) (kind_char kind # bytes)")
  case None
  then show ?thesis using assms
    by (auto simp: strkeyOf_def Let_def memo_ok_def length_memo_set dest!: set_memo_set)
next
  case (Some e)
  with memo_ok_strkey [OF assms(2) Some] assms(2) show ?thesis by (simp add: strkeyOf_def)
qed

datatype memo_call = CallStrkey address_kind string | CallValid string

fun memo_run :: "'x decoder_libs \<Rightarrow> memo_call list \<Rightarrow> memos \<Rightarrow> memos \<times> (string + bool) list" where
  "memo_run libs [] ms = (ms, [])"
| "memo_run libs (CallStrkey kind bytes # calls) ms =
     (let (ms1, e) = strkeyOf libs kind bytes ms; (ms2, rs) = memo_run libs calls ms1 in (ms2, Inl e # rs))"
| "memo_run libs (CallValid a # calls) ms =
     (let (ms1, b) = isValidAddress libs a ms; (ms2, rs) = memo_run libs calls ms1 in (ms2, Inr b # rs))"

fun pure_call :: "'x decoder_libs \<Rightarrow> memo_call \<Rightarrow> string + bool" where
  "pure_call libs (CallStrkey kind bytes) = Inl (encode_strkey libs kind bytes)"
| "pure_call libs (CallValid a) = Inr (valid_strkey libs a)"

lemma memo_run_spec:
  assumes "\<And>kind bytes. valid_strkey libs (encode_strkey libs kind bytes)" and "memo_ok libs ms"
  shows "snd (memo_run libs calls ms) = map (pure_call libs) calls \<and> memo_ok libs (fst (memo_run libs calls ms))"
  using assms(2)
proof (induction calls arbitrary: ms)
  case (Cons call calls)
  show ?case
  proof (cases call)
    case (CallStrkey kind bytes)
    with Cons.IH [of "fst (strkeyOf libs kind bytes ms)"] strkeyOf_spec [OF assms(1) Cons.prems, of kind bytes]
    show ?thesis by (simp add: case_prod_beta Let_def)
  next
    case (CallValid a)
    with Cons.IH [of "fst (isValidAddress libs a ms)"] isValidAddress_spec [OF Cons.prems, of a]
    show ?thesis by (simp add: case_prod_beta Let_def)
  qed
qed simp

text \<open>The memo tables are transparent and bounded: if encoded strkeys are valid addresses, then any
  sequence of \<^verbatim>\<open>strkeyOf\<close> and \<^verbatim>\<open>isValidAddress\<close> calls on fresh tables returns exactly what the
  uncached functions return, and neither table ever holds more than \<^verbatim>\<open>ADDRESS_MEMO_LIMIT\<close> entries.\<close>

lemma memo_transparent:
  assumes "\<And>kind bytes. valid_strkey libs (encode_strkey libs kind bytes)"
  shows "snd (memo_run libs calls \<lparr>addressMemo = [], strkeyMemo = []\<rparr>) = map (pure_call libs) calls
    \<and> length (addressMemo (fst (memo_run libs calls \<lparr>addressMemo = [], strkeyMemo = []\<rparr>))) \<le> 4096
    \<and> length (strkeyMemo (fst (memo_run libs calls \<lparr>addressMemo = [], strkeyMemo = []\<rparr>))) \<le> 4096"
proof -
  have "memo_ok libs \<lparr>addressMemo = [], strkeyMemo = []\<rparr>" by (simp add: memo_ok_def)
  from memo_run_spec [OF assms this, of calls] show ?thesis
    by (simp add: memo_ok_def ADDRESS_MEMO_LIMIT_def)
qed

end
