(* ===== verification/Indexer_Service.thy ===== *)
theory Indexer_Service
  imports Indexer_Recovery Event_Decoder
begin

text \<open>
  The indexer, \<^verbatim>\<open>src/services/indexerService.ts\<close>, and its gap-scan worker,
  \<^verbatim>\<open>src/workers/indexerGapScan.ts\<close>: paging events from the RPC server, persisting a batch one
  transaction per event with reorg recovery, gap detection, chunked backfill, the durable cursor.

  The tables are the record \<open>indexer_db\<close>. The RPC server is a function argument that may fail;
  \<open>fault e\<close> is the error that makes the transaction of event \<open>e\<close> roll back, if any; \<open>gen n\<close> is the
  default id of the \<open>n\<close>-th event row; \<open>now\<close> is the database clock. Every service call returns the
  tables and either the thrown error or its result.

  \<^item> \<open>persist_invariant\<close>, \<open>persist_fresh\<close>, \<open>persist_idempotent\<close>: one canonical event per position,
    replacement with repair, exact duplicates change nothing.
  \<^item> \<open>reorg_back_loses_canonical\<close>, \<open>canonical_race\<close>: two situations in which the rule of one
    canonical event per position is not kept.
  \<^item> \<open>cursor_advance\<close>: the cursor only grows, and only past ledgers whose events were persisted.
  \<^item> \<open>gaps_exact\<close>, \<open>leading_gap_missed\<close>: what the gap scan reports and what it does not.
\<close>

section \<open>Inputs\<close>

record indexer_event_input = "json recovery_event" +
  iei_id :: "string option"
  iei_marketId :: "string option"

record reorg_recovery_report =
  rep_inserted :: int
  rep_replacements :: int
  rep_repairedPredictions :: int

record indexer_env =
  INDEXER_START_LEDGER :: int
  INDEXER_REWIND_LEDGERS :: int
  INDEXER_BACKFILL_CHUNK_SIZE :: int

definition INDEXER_CURSOR_ID :: int where "INDEXER_CURSOR_ID = 1"

definition parseEventOpIndex :: "string \<Rightarrow> int \<Rightarrow> int" where
  "parseEventOpIndex eventId fallback =
    (case decodeEventId eventId of Some d \<Rightarrow> di_opIndex d | None \<Rightarrow> fallback)"

definition string_field :: "json option \<Rightarrow> string \<Rightarrow> string option" where
  "string_field payload k = (case payload of
     Some (JObj props) \<Rightarrow> (case map_of props k of Some (JStr s) \<Rightarrow> Some s | _ \<Rightarrow> None)
   | _ \<Rightarrow> None)"

definition extractMarketId :: "indexer_event_input \<Rightarrow> string option" where
  "extractMarketId event =
    (if iei_marketId event \<noteq> None \<and> iei_marketId event \<noteq> Some [] then iei_marketId event
     else (case string_field (re_payload event) ''marketId'' of
        Some s \<Rightarrow> Some s
      | None \<Rightarrow> string_field (re_payload event) ''market_id''))"

section \<open>Reading events from the RPC server\<close>

record 'x rpc_event =
  rpc_id :: string
  rpc_type :: string
  rpc_ledger :: int
  rpc_txHash :: string
  rpc_contractId :: "string option"
  rpc_topic :: "'x scval list"
  rpc_value :: "'x scval"
  rpc_pagingToken :: "string option"

definition mapRpcEvent ::
  "'x decoder_libs \<Rightarrow> 'x rpc_event \<Rightarrow> string \<Rightarrow> int \<Rightarrow> indexer_event_input option" where
  "mapRpcEvent libs event contractId fallbackIndex =
    (if rpc_type event \<noteq> ''contract'' then None
     else if rpc_contractId event \<noteq> None \<and> rpc_contractId event \<noteq> Some contractId then None
     else (let decoded = decodePredictifyEvent libs
                 \<lparr>raw_topic = map XdrVal (rpc_topic event), raw_value = XdrVal (rpc_value event)\<rparr>
           in Some \<lparr>re_ledger = rpc_ledger event, re_txHash = rpc_txHash event,
                    re_txApplicationOrder = None,
                    re_opIndex = parseEventOpIndex (rpc_id event) fallbackIndex,
                    re_eventIndex = None, re_eventType = Some (result_eventType decoded),
                    re_payload = Some (eventDataOf decoded),
                    iei_id = None, iei_marketId = result_marketId decoded\<rparr>))"

text \<open>What \<^verbatim>\<open>getEvents\<close> collects for one event of a page that lies in the range.\<close>

definition collect_event :: "'x decoder_libs \<Rightarrow> string \<Rightarrow> 'x rpc_event \<Rightarrow> indexer_event_input option" where
  "collect_event libs contractId event = (case decodeEventId (rpc_id event) of
     None \<Rightarrow> None
   | Some d \<Rightarrow> map_option (\<lambda>mapped. mapped
        \<lparr>iei_id := Some (rpc_id event), re_txApplicationOrder := Some (di_txApplicationOrder d),
         re_opIndex := di_opIndex d, re_eventIndex := Some (di_eventIndex d)\<rparr>)
       (mapRpcEvent libs event contractId (di_opIndex d)))"

text \<open>The loop over one page: \<open>True\<close> when an event past the end made it return.\<close>

fun page_loop :: "'x decoder_libs \<Rightarrow> string \<Rightarrow> int \<Rightarrow> int \<Rightarrow> 'x rpc_event list \<Rightarrow> indexer_event_input list
    \<Rightarrow> bool \<times> indexer_event_input list" where
  "page_loop libs cid startLedger endLedger [] collected = (False, collected)"
| "page_loop libs cid startLedger endLedger (event # rest) collected =
     (if rpc_ledger event > endLedger then (True, collected)
      else if rpc_ledger event \<ge> startLedger
      then page_loop libs cid startLedger endLedger rest
             (case collect_event libs cid event of None \<Rightarrow> collected | Some m \<Rightarrow> collected @ [m])
      else page_loop libs cid startLedger endLedger rest collected)"

text \<open>The \<^verbatim>\<open>while (true)\<close> loop. \<open>server (Inl start)\<close> is the first page, \<open>server (Inr cursor)\<close> the page
  after a paging token. It ends only when the server says so, so it is a partial function:
  \<open>None\<close> is a loop that never returns.\<close>

partial_function (option) getEvents_loop ::
  "'x decoder_libs \<Rightarrow> string \<Rightarrow> (int + string \<Rightarrow> string + 'x rpc_event list) \<Rightarrow> int \<Rightarrow> int
    \<Rightarrow> string option \<Rightarrow> indexer_event_input list \<Rightarrow> (string + indexer_event_input list) option" where
  [code]: "getEvents_loop libs cid server startLedger endLedger cursor collected =
    (case server (case cursor of None \<Rightarrow> Inl startLedger | Some c \<Rightarrow> Inr c) of
       Inl err \<Rightarrow> Some (Inl err)
     | Inr evs \<Rightarrow>
         if evs = [] then Some (Inr collected)
         else (case page_loop libs cid startLedger endLedger evs collected of
            (stop, out) \<Rightarrow>
              if stop then Some (Inr out)
              else if rpc_ledger (last evs) \<ge> endLedger then Some (Inr out)
              else (case rpc_pagingToken (last evs) of
                 None \<Rightarrow> Some (Inr out)
               | Some token \<Rightarrow> if token = [] then Some (Inr out)
                              else getEvents_loop libs cid server startLedger endLedger (Some token) out)))"

definition getEvents ::
  "'x decoder_libs \<Rightarrow> string \<Rightarrow> (int + string \<Rightarrow> string + 'x rpc_event list) \<Rightarrow> int \<Rightarrow> int
    \<Rightarrow> (string + indexer_event_input list) option" where
  "getEvents libs cid server startLedger endLedger = getEvents_loop libs cid server startLedger endLedger None []"

section \<open>Ranges of ledgers\<close>

definition groupConsecutiveLedgers :: "int list \<Rightarrow> replay_chunk list" where
  "groupConsecutiveLedgers ledgers = (case sort ledgers of [] \<Rightarrow> [] | l # rest \<Rightarrow> group_loop l l rest)"

fun merge_ranges_loop :: "replay_chunk \<Rightarrow> replay_chunk list \<Rightarrow> replay_chunk list" where
  "merge_ranges_loop cur [] = [cur]"
| "merge_ranges_loop cur (r # rest) =
     (if rc_from r \<le> rc_to cur + 1
      then merge_ranges_loop (cur\<lparr>rc_to := max (rc_to cur) (rc_to r)\<rparr>) rest
      else cur # merge_ranges_loop r rest)"

definition mergeGapRanges :: "replay_chunk list \<Rightarrow> replay_chunk list" where
  "mergeGapRanges ranges = (case sort_key rc_from ranges of [] \<Rightarrow> [] | r # rest \<Rightarrow> merge_ranges_loop r rest)"

section \<open>The service\<close>

record indexer_db =
  ix_events :: "indexer_event_row table"
  ix_predictions :: "prediction_row table"
  ix_reorgs :: "indexer_reorg_row table"
  ix_cursor :: "indexer_cursor_row table"

definition getCursor :: "indexer_env \<Rightarrow> indexer_db \<Rightarrow> int" where
  "getCursor env db = (case row_by ic_id (ix_cursor db) INDEXER_CURSOR_ID of
     None \<Rightarrow> INDEXER_START_LEDGER env
   | Some r \<Rightarrow> ic_lastLedger r)"

definition ledgers_between :: "int \<Rightarrow> int \<Rightarrow> indexer_db \<Rightarrow> int list" where
  "ledgers_between scanFrom scanTo db =
     filter (\<lambda>l. scanFrom \<le> l \<and> l \<le> scanTo) (map ie_ledger (ix_events db))"

definition sql_min :: "int list \<Rightarrow> int option" where
  "sql_min ls = (case ls of [] \<Rightarrow> None | l # rest \<Rightarrow> Some (fold min rest l))"

definition sql_max :: "int list \<Rightarrow> int option" where
  "sql_max ls = (case ls of [] \<Rightarrow> None | l # rest \<Rightarrow> Some (fold max rest l))"

definition coalesce :: "'a option \<Rightarrow> 'a \<Rightarrow> 'a" where
  "coalesce x d = (case x of None \<Rightarrow> d | Some v \<Rightarrow> v)"

text \<open>\<^verbatim>\<open>GAP_SCAN_SQL\<close>.\<close>

definition gap_scan :: "int \<Rightarrow> int \<Rightarrow> indexer_db \<Rightarrow> int list" where
  "gap_scan scanFrom scanTo db =
    (let indexed = ledgers_between scanFrom scanTo db;
         min_l = max scanFrom (coalesce (sql_min indexed) scanFrom);
         max_l = min scanTo (max (coalesce (sql_max indexed) scanFrom) scanFrom)
     in filter (\<lambda>l. l \<notin> set indexed \<and> min_l \<le> max_l) [min_l..max_l])"

definition findMissingLedgers :: "int \<Rightarrow> int \<Rightarrow> indexer_db \<Rightarrow> int list" where
  "findMissingLedgers scanFrom scanTo db = (if scanFrom > scanTo then [] else gap_scan scanFrom scanTo db)"

definition getMaxIndexedLedger :: "int \<Rightarrow> int \<Rightarrow> indexer_db \<Rightarrow> int option" where
  "getMaxIndexedLedger scanFrom scanTo db = sql_max (ledgers_between scanFrom scanTo db)"

definition detectGaps :: "int \<Rightarrow> int \<Rightarrow> int \<Rightarrow> indexer_db \<Rightarrow> replay_chunk list" where
  "detectGaps scanFrom scanTo cursor db =
    (let innerGaps = groupConsecutiveLedgers (findMissingLedgers scanFrom scanTo db);
         maxIndexed = getMaxIndexedLedger scanFrom scanTo db;
         tailStart = max (coalesce maxIndexed cursor + 1) scanFrom;
         tailGaps = (if tailStart \<le> scanTo then [\<lparr>rc_from = tailStart, rc_to = scanTo\<rparr>] else [])
     in mergeGapRanges (innerGaps @ tailGaps))"

subsection \<open>Persisting a batch\<close>

text \<open>The coordinates of an event with an id come from the id where the event lacks them; an event
  whose id does not decode is dropped.\<close>

definition resolve_event :: "indexer_event_input \<Rightarrow> indexer_event_input option" where
  "resolve_event raw =
    (if iei_id raw \<noteq> None \<and> iei_id raw \<noteq> Some []
     then (case decodeEventId (the (iei_id raw)) of
        None \<Rightarrow> None
      | Some d \<Rightarrow> Some (raw
          \<lparr>re_txApplicationOrder := Some (coalesce (re_txApplicationOrder raw) (di_txApplicationOrder d)),
           re_eventIndex := Some (coalesce (re_eventIndex raw) (di_eventIndex d))\<rparr>))
     else Some (raw
          \<lparr>re_txApplicationOrder := Some (coalesce (re_txApplicationOrder raw) 0),
           re_eventIndex := Some (coalesce (re_eventIndex raw) 0)\<rparr>))"

definition row_position :: "indexer_event_row \<Rightarrow> int \<times> int \<times> int \<times> int" where
  "row_position r = (ie_ledger r, ie_txApplicationOrder r, ie_opIndex r, ie_eventIndex r)"

text \<open>The unique index \<^verbatim>\<open>indexer_events_identity_idx\<close> of migration 0030.\<close>

definition row_identity :: "indexer_event_row \<Rightarrow> int \<times> string \<times> int \<times> int" where
  "row_identity r = (ie_ledger r, ie_txHash r, ie_opIndex r, ie_eventIndex r)"

text \<open>The transaction's \<^verbatim>\<open>SELECT ... FOR UPDATE\<close>.\<close>

definition select_canonical :: "indexer_event_input \<Rightarrow> indexer_db \<Rightarrow> indexer_event_row option" where
  "select_canonical event db = select_first (\<lambda>r. row_position r = position event \<and> ie_canonical r) (ix_events db)"

definition repairable :: "string \<Rightarrow> prediction_row \<Rightarrow> bool" where
  "repairable h p \<longleftrightarrow> p_txHash p = h \<and> p_status p \<in> {''confirmed'', ''failed''}"

definition repair_prediction :: "prediction_row \<Rightarrow> prediction_row" where
  "repair_prediction p = p\<lparr>p_status := ''pending'', p_result := None, p_lastError := None, p_confirmAttempts := 0\<rparr>"

text \<open>The replacement of the old canonical row, with the number of repaired predictions.\<close>

definition replace_canonical ::
  "(nat \<Rightarrow> string) \<Rightarrow> time \<Rightarrow> indexer_event_input \<Rightarrow> indexer_event_row \<Rightarrow> indexer_db \<Rightarrow> indexer_db \<times> int" where
  "replace_canonical gen now event oldRow db =
    (let repairedCount = int (length (filter (repairable (ie_txHash oldRow)) (ix_predictions db)))
     in (db\<lparr>ix_events := update_where (\<lambda>r. ie_id r = ie_id oldRow) (\<lambda>r. r\<lparr>ie_canonical := False\<rparr>) (ix_events db),
            ix_predictions := update_where (repairable (ie_txHash oldRow)) repair_prediction (ix_predictions db),
            ix_reorgs := ix_reorgs db @
              [\<lparr>ir_id = gen (length (ix_reorgs db)), ir_ledger = re_ledger event,
                ir_txApplicationOrder = or_zero (re_txApplicationOrder event), ir_opIndex = re_opIndex event,
                ir_eventIndex = or_zero (re_eventIndex event), ir_oldTxHash = ie_txHash oldRow,
                ir_newTxHash = re_txHash event, ir_repairedPredictions = repairedCount,
                ir_status = ''detected'', ir_createdAt = now\<rparr>]\<rparr>,
         repairedCount))"

definition new_event_row :: "(nat \<Rightarrow> string) \<Rightarrow> time \<Rightarrow> indexer_event_input \<Rightarrow> indexer_db \<Rightarrow> indexer_event_row" where
  "new_event_row gen now event db =
    \<lparr>ie_id = gen (length (ix_events db)), ie_ledger = re_ledger event, ie_txHash = re_txHash event,
     ie_txApplicationOrder = or_zero (re_txApplicationOrder event), ie_opIndex = re_opIndex event,
     ie_eventIndex = or_zero (re_eventIndex event),
     ie_eventType = coalesce (re_eventType event) ''unknown'', ie_createdAt = now,
     ie_marketId = extractMarketId event, ie_data = re_payload event, ie_canonical = True\<rparr>"

text \<open>\<^verbatim>\<open>INSERT ... ON CONFLICT (ledger, tx_hash, op_index, event_index) DO NOTHING\<close>, with the number
  of rows it returns.\<close>

definition insert_event ::
  "(nat \<Rightarrow> string) \<Rightarrow> time \<Rightarrow> indexer_event_input \<Rightarrow> indexer_db \<Rightarrow> indexer_db \<times> int" where
  "insert_event gen now event db =
    (let row = new_event_row gen now event db
     in if row_identity row \<in> row_identity ` set (ix_events db) then (db, 0)
        else (db\<lparr>ix_events := ix_events db @ [row]\<rparr>, 1))"

text \<open>The rest of the transaction after its select returned \<open>existing\<close>.\<close>

definition write_event ::
  "(nat \<Rightarrow> string) \<Rightarrow> time \<Rightarrow> indexer_event_input \<Rightarrow> indexer_event_row option \<Rightarrow> indexer_db
    \<Rightarrow> indexer_db \<times> reorg_recovery_report" where
  "write_event gen now event existing db =
    (let (db1, replacements, repaired) = (case existing of
           Some oldRow \<Rightarrow>
             if ie_txHash oldRow \<noteq> re_txHash event
             then (let (d, n) = replace_canonical gen now event oldRow db in (d, 1, n))
             else (db, 0, 0)
         | None \<Rightarrow> (db, 0, 0));
         (db2, inserted) = insert_event gen now event db1
     in (db2, \<lparr>rep_inserted = inserted, rep_replacements = replacements, rep_repairedPredictions = repaired\<rparr>))"

definition persist_event ::
  "(nat \<Rightarrow> string) \<Rightarrow> time \<Rightarrow> indexer_event_input \<Rightarrow> indexer_db \<Rightarrow> indexer_db \<times> reorg_recovery_report" where
  "persist_event gen now event db = write_event gen now event (select_canonical event db) db"

definition add_report :: "reorg_recovery_report \<Rightarrow> reorg_recovery_report \<Rightarrow> reorg_recovery_report" where
  "add_report a b = \<lparr>rep_inserted = rep_inserted a + rep_inserted b,
     rep_replacements = rep_replacements a + rep_replacements b,
     rep_repairedPredictions = rep_repairedPredictions a + rep_repairedPredictions b\<rparr>"

definition no_report :: reorg_recovery_report where
  "no_report = \<lparr>rep_inserted = 0, rep_replacements = 0, rep_repairedPredictions = 0\<rparr>"

type_synonym fault = "indexer_event_input \<Rightarrow> string option"

fun persist_loop ::
  "(nat \<Rightarrow> string) \<Rightarrow> fault \<Rightarrow> time \<Rightarrow> indexer_event_input list \<Rightarrow> reorg_recovery_report \<Rightarrow> indexer_db
    \<Rightarrow> indexer_db \<times> (string + reorg_recovery_report)" where
  "persist_loop gen fault now [] rep db = (db, Inr rep)"
| "persist_loop gen fault now (event # rest) rep db = (case fault event of
     Some err \<Rightarrow> (db, Inl err)
   | None \<Rightarrow> (let (db', r) = persist_event gen now event db
              in persist_loop gen fault now rest (add_report rep r) db'))"

definition persistEventsWithRecovery ::
  "(nat \<Rightarrow> string) \<Rightarrow> fault \<Rightarrow> time \<Rightarrow> indexer_event_input list \<Rightarrow> indexer_db
    \<Rightarrow> indexer_db \<times> (string + reorg_recovery_report)" where
  "persistEventsWithRecovery gen fault now events db =
    persist_loop gen fault now (dedupeEvents (List.map_filter resolve_event events)) no_report db"

definition persistEvents ::
  "(nat \<Rightarrow> string) \<Rightarrow> fault \<Rightarrow> time \<Rightarrow> indexer_event_input list \<Rightarrow> indexer_db \<Rightarrow> indexer_db \<times> (string + int)" where
  "persistEvents gen fault now events db =
    (case persistEventsWithRecovery gen fault now events db of
       (db', Inl err) \<Rightarrow> (db', Inl err)
     | (db', Inr rep) \<Rightarrow> (db', Inr (rep_inserted rep)))"

subsection \<open>Cursor, backfill, polling\<close>

definition advanceCursor :: "time \<Rightarrow> int \<Rightarrow> indexer_db \<Rightarrow> indexer_db" where
  "advanceCursor now lastLedger db = db\<lparr>ix_cursor :=
    (if row_by ic_id (ix_cursor db) INDEXER_CURSOR_ID = None
     then ix_cursor db @ [\<lparr>ic_id = INDEXER_CURSOR_ID, ic_lastLedger = lastLedger, ic_updatedAt = now\<rparr>]
     else update_where (\<lambda>r. ic_id r = INDEXER_CURSOR_ID)
            (\<lambda>r. r\<lparr>ic_lastLedger := max (ic_lastLedger r) lastLedger, ic_updatedAt := now\<rparr>) (ix_cursor db))\<rparr>"

text \<open>The RPC client as the service sees it.\<close>

record rpc_client =
  rpc_getLatestLedger :: "string + int"
  rpc_getEvents :: "int \<Rightarrow> int \<Rightarrow> string + indexer_event_input list"

text \<open>The chunk size is a positive integer of the environment schema; the test keeps the loop total.\<close>

function backfill_loop ::
  "(nat \<Rightarrow> string) \<Rightarrow> fault \<Rightarrow> time \<Rightarrow> rpc_client \<Rightarrow> int \<Rightarrow> int \<Rightarrow> int \<Rightarrow> indexer_db \<Rightarrow> indexer_db \<times> (string + unit)" where
  "backfill_loop gen fault now rpc chunkSize chunkStart to db =
    (if chunkStart \<le> to \<and> 1 \<le> chunkSize
     then (case rpc_getEvents rpc chunkStart (min (chunkStart + chunkSize - 1) to) of
        Inl err \<Rightarrow> (db, Inl err)
      | Inr events \<Rightarrow> (case persistEvents gen fault now events db of
           (db', Inl err) \<Rightarrow> (db', Inl err)
         | (db', Inr _) \<Rightarrow> backfill_loop gen fault now rpc chunkSize (chunkStart + chunkSize) to db'))
     else (db, Inr ()))"
  by pat_completeness auto
termination
  by (relation "measure (\<lambda>(gen, fault, now, rpc, size, start, to, db). nat (to - start + 1))") auto

declare backfill_loop.simps [simp del]

definition backfillRange ::
  "(nat \<Rightarrow> string) \<Rightarrow> fault \<Rightarrow> time \<Rightarrow> rpc_client \<Rightarrow> indexer_env \<Rightarrow> int \<Rightarrow> int \<Rightarrow> indexer_db
    \<Rightarrow> indexer_db \<times> (string + unit)" where
  "backfillRange gen fault now rpc env from to db =
    (if from > to then (db, Inr ())
     else (let rewindFrom = max (INDEXER_START_LEDGER env) (from - INDEXER_REWIND_LEDGERS env)
           in case backfill_loop gen fault now rpc (INDEXER_BACKFILL_CHUNK_SIZE env) rewindFrom to db of
                (db', Inl err) \<Rightarrow> (db', Inl err)
              | (db', Inr _) \<Rightarrow> (advanceCursor now to db', Inr ())))"

definition pollOnce ::
  "(nat \<Rightarrow> string) \<Rightarrow> fault \<Rightarrow> time \<Rightarrow> rpc_client \<Rightarrow> indexer_env \<Rightarrow> indexer_db \<Rightarrow> indexer_db \<times> (string + int)" where
  "pollOnce gen fault now rpc env db =
    (let cursor = getCursor env db
     in case rpc_getLatestLedger rpc of
          Inl err \<Rightarrow> (db, Inl err)
        | Inr tip \<Rightarrow>
            (let startLedger = max (INDEXER_START_LEDGER env) (cursor - INDEXER_REWIND_LEDGERS env + 1)
             in if startLedger > tip then (db, Inr cursor)
                else (case rpc_getEvents rpc startLedger tip of
                   Inl err \<Rightarrow> (db, Inl err)
                 | Inr events \<Rightarrow> (case persistEvents gen fault now events db of
                      (db', Inl err) \<Rightarrow> (db', Inl err)
                    | (db', Inr _) \<Rightarrow> (advanceCursor now tip db', Inr tip)))))"

section \<open>The gap-scan worker\<close>

fun backfill_gaps ::
  "(nat \<Rightarrow> string) \<Rightarrow> fault \<Rightarrow> time \<Rightarrow> rpc_client \<Rightarrow> indexer_env \<Rightarrow> replay_chunk list \<Rightarrow> indexer_db
    \<Rightarrow> indexer_db \<times> (string + unit)" where
  "backfill_gaps gen fault now rpc env [] db = (db, Inr ())"
| "backfill_gaps gen fault now rpc env (gap # rest) db =
     (case backfillRange gen fault now rpc env (rc_from gap) (rc_to gap) db of
        (db', Inl err) \<Rightarrow> (db', Inl err)
      | (db', Inr _) \<Rightarrow> backfill_gaps gen fault now rpc env rest db')"

record gap_scan_result =
  gs_gaps :: "replay_chunk list"
  gs_scanFrom :: int
  gs_scanTo :: int

definition scanOnce ::
  "(nat \<Rightarrow> string) \<Rightarrow> fault \<Rightarrow> time \<Rightarrow> rpc_client \<Rightarrow> indexer_env \<Rightarrow> indexer_db
    \<Rightarrow> indexer_db \<times> (string + gap_scan_result)" where
  "scanOnce gen fault now rpc env db =
    (let cursor = getCursor env db
     in case rpc_getLatestLedger rpc of
          Inl err \<Rightarrow> (db, Inl err)
        | Inr tip \<Rightarrow>
            (let scanFrom = max (INDEXER_START_LEDGER env) (cursor - INDEXER_REWIND_LEDGERS env)
             in if scanFrom > tip
                then (db, Inr \<lparr>gs_gaps = [], gs_scanFrom = scanFrom, gs_scanTo = tip\<rparr>)
                else (let gaps = detectGaps scanFrom tip cursor db
                      in case backfill_gaps gen fault now rpc env gaps db of
                           (db', Inl err) \<Rightarrow> (db', Inl err)
                         | (db', Inr _) \<Rightarrow>
                             (db', Inr \<lparr>gs_gaps = gaps, gs_scanFrom = scanFrom, gs_scanTo = tip\<rparr>))))"

section \<open>Ranges\<close>

lemma group_loop_spec_weak: "sorted_wrt (<) (sort ls) \<Longrightarrow>
   separated (groupConsecutiveLedgers ls) \<and> (\<Union>r \<in> set (groupConsecutiveLedgers ls). ledgers_of r) = set ls"
proof -
  assume srt: "sorted_wrt (<) (sort ls)"
  show ?thesis
  proof (cases "sort ls")
    case Nil
    then have "ls = []" by (metis set_empty set_sort)
    then show ?thesis by (simp add: groupConsecutiveLedgers_def separated_def)
  next
    case (Cons l rest)
    with srt have "separated (group_loop l l rest)
      \<and> (\<Union>r \<in> set (group_loop l l rest). ledgers_of r) = set (l # rest)"
      using group_loop_spec [of l l rest] by auto
    moreover have "set (l # rest) = set ls" using Cons by (metis set_sort)
    ultimately show ?thesis by (simp add: groupConsecutiveLedgers_def Cons)
  qed
qed

lemma merge_loop_from: "r \<in> set (merge_ranges_loop cur rs) \<Longrightarrow> sorted (map rc_from (cur # rs)) \<Longrightarrow> rc_from cur \<le> rc_from r"
  by (induction cur rs rule: merge_ranges_loop.induct) (auto split: if_splits)

lemma merge_ranges_spec:
  assumes "sorted (map rc_from (cur # rs))" and "\<forall>r \<in> set (cur # rs). rc_from r \<le> rc_to r"
  shows "separated (merge_ranges_loop cur rs)
    \<and> (\<Union>r \<in> set (merge_ranges_loop cur rs). ledgers_of r) = (\<Union>r \<in> set (cur # rs). ledgers_of r)"
  using assms
proof (induction cur rs rule: merge_ranges_loop.induct)
  case (1 cur)
  then show ?case by (simp add: separated_def)
next
  case (2 cur r rest)
  show ?case
  proof (cases "rc_from r \<le> rc_to cur + 1")
    case True
    let ?cur = "cur\<lparr>rc_to := max (rc_to cur) (rc_to r)\<rparr>"
    have "ledgers_of ?cur = ledgers_of cur \<union> ledgers_of r"
      using True 2(3,4) by (auto simp: ledgers_of_def)
    with True 2 show ?thesis by (auto simp: max.coboundedI1)
  next
    case False
    with 2 have IH: "separated (merge_ranges_loop r rest)"
      "(\<Union>s \<in> set (merge_ranges_loop r rest). ledgers_of s) = (\<Union>s \<in> set (r # rest). ledgers_of s)"
      by auto
    have "rc_to cur + 1 < rc_from s" if "s \<in> set (merge_ranges_loop r rest)" for s
      using merge_loop_from [OF that] 2(3) False by auto
    with False IH 2(4) show ?thesis by (auto simp: separated_def)
  qed
qed

lemma mergeGapRanges_spec:
  assumes "\<forall>r \<in> set rs. rc_from r \<le> rc_to r"
  shows "separated (mergeGapRanges rs)
    \<and> (\<Union>r \<in> set (mergeGapRanges rs). ledgers_of r) = (\<Union>r \<in> set rs. ledgers_of r)"
proof (cases "sort_key rc_from rs")
  case Nil
  then have "rs = []" by (metis set_empty set_sort)
  then show ?thesis by (simp add: mergeGapRanges_def separated_def)
next
  case (Cons r rest)
  then have eq: "set rs = set (r # rest)" by (metis set_sort)
  have "sorted (map rc_from (r # rest))" unfolding Cons [symmetric] by simp
  with merge_ranges_spec [of r rest] assms show ?thesis
    by (simp add: mergeGapRanges_def Cons eq)
qed

lemma sql_min_spec: "sql_min ls = (if ls = [] then None else Some (Min (set ls)))"
proof (cases ls)
  case (Cons l rest)
  then show ?thesis using Min.set_eq_fold [of l rest] by (simp add: sql_min_def)
qed (simp add: sql_min_def)

lemma sql_max_spec: "sql_max ls = (if ls = [] then None else Some (Max (set ls)))"
proof (cases ls)
  case (Cons l rest)
  then show ?thesis using Max.set_eq_fold [of l rest] by (simp add: sql_max_def)
qed (simp add: sql_max_def)

definition indexed_set :: "int \<Rightarrow> int \<Rightarrow> indexer_db \<Rightarrow> int set" where
  "indexed_set lo hi db = set (ledgers_between lo hi db)"

lemma indexed_set_alt: "indexed_set lo hi db = ie_ledger ` set (ix_events db) \<inter> {lo..hi}"
  by (auto simp: indexed_set_def ledgers_between_def)

text \<open>The ledgers a gap scan is meant to report: from the first indexed ledger of the window on,
  every ledger without an event; without any indexed ledger, the first ledger of the window and what
  follows the cursor.\<close>

definition reported_ledgers :: "int \<Rightarrow> int \<Rightarrow> int \<Rightarrow> indexer_db \<Rightarrow> int set" where
  "reported_ledgers lo hi cursor db =
    (let I = indexed_set lo hi db
     in if I = {} then insert lo {max (cursor + 1) lo..hi} else {Min I..hi} - I)"

lemma findMissing_set:
  assumes "lo \<le> hi"
  shows "set (findMissingLedgers lo hi db) =
    (let I = indexed_set lo hi db in if I = {} then {lo} else {Min I..Max I} - I)"
proof (cases "ledgers_between lo hi db = []")
  case True
  with assms show ?thesis
    by (simp add: findMissingLedgers_def gap_scan_def sql_min_spec sql_max_spec coalesce_def indexed_set_def Let_def)
next
  case False
  let ?I = "indexed_set lo hi db"
  have I: "finite ?I" "?I \<noteq> {}" using False by (simp_all add: indexed_set_def)
  have "?I \<subseteq> {lo..hi}" by (auto simp: indexed_set_alt)
  then have "lo \<le> Min ?I" "Max ?I \<le> hi" "Min ?I \<le> Max ?I" using I by auto
  then have "max lo (Min ?I) = Min ?I" "min hi (max (Max ?I) lo) = Max ?I" by auto
  with False assms show ?thesis
    by (auto simp: findMissingLedgers_def gap_scan_def sql_min_spec sql_max_spec coalesce_def indexed_set_def Let_def)
qed

lemma findMissing_sorted: "sorted_wrt (<) (sort (findMissingLedgers lo hi db))"
proof -
  have "sorted_wrt (<) (findMissingLedgers lo hi db)"
    by (auto simp: findMissingLedgers_def gap_scan_def Let_def intro!: sorted_wrt_filter)
  then have "sorted (findMissingLedgers lo hi db)" by (rule strict_sorted_imp_sorted)
  then show ?thesis using \<open>sorted_wrt (<) (findMissingLedgers lo hi db)\<close> by (simp add: sorted_sort_id)
qed

lemma detectGaps_spec:
  assumes "lo \<le> hi"
  shows "separated (detectGaps lo hi cursor db)
    \<and> (\<Union>g \<in> set (detectGaps lo hi cursor db). ledgers_of g) = reported_ledgers lo hi cursor db"
proof -
  let ?I = "indexed_set lo hi db"
  define inner where "inner = groupConsecutiveLedgers (findMissingLedgers lo hi db)"
  define tail_from where "tail_from = max (coalesce (getMaxIndexedLedger lo hi db) cursor + 1) lo"
  define gtail where "gtail = (if tail_from \<le> hi then [\<lparr>rc_from = tail_from, rc_to = hi\<rparr>] else [])"
  have gaps: "detectGaps lo hi cursor db = mergeGapRanges (inner @ gtail)"
    by (simp add: detectGaps_def inner_def gtail_def tail_from_def Let_def)
  have inner: "separated inner" "(\<Union>r \<in> set inner. ledgers_of r) = set (findMissingLedgers lo hi db)"
    using group_loop_spec_weak [OF findMissing_sorted] by (simp_all add: inner_def)
  have tailU: "(\<Union>r \<in> set gtail. ledgers_of r) = {tail_from..hi}"
    by (auto simp: gtail_def ledgers_of_def)
  have "\<forall>r \<in> set (inner @ gtail). rc_from r \<le> rc_to r"
    using inner(1) by (auto simp: separated_def gtail_def)
  from mergeGapRanges_spec [OF this] have sep: "separated (detectGaps lo hi cursor db)"
    and un: "(\<Union>g \<in> set (detectGaps lo hi cursor db). ledgers_of g) = set (findMissingLedgers lo hi db) \<union> {tail_from..hi}"
    using inner(2) tailU by (simp_all add: gaps)
  have "set (findMissingLedgers lo hi db) \<union> {tail_from..hi} = reported_ledgers lo hi cursor db"
  proof (cases "?I = {}")
    case True
    then have "ledgers_between lo hi db = []" by (simp add: indexed_set_def)
    then have "tail_from = max (cursor + 1) lo"
      by (simp add: tail_from_def getMaxIndexedLedger_def sql_max_spec coalesce_def)
    with True show ?thesis
      by (simp add: findMissing_set [OF assms] reported_ledgers_def Let_def)
  next
    case False
    have fin: "finite ?I" by (simp add: indexed_set_def)
    have sub: "?I \<subseteq> {lo..hi}" by (auto simp: indexed_set_alt)
    have mx: "Max ?I \<in> ?I" "Min ?I \<in> ?I" using fin False by simp_all
    have tf: "tail_from = Max ?I + 1"
    proof -
      have "getMaxIndexedLedger lo hi db = Some (Max ?I)"
        using False by (simp add: getMaxIndexedLedger_def sql_max_spec indexed_set_def)
      then show ?thesis using mx(1) sub by (auto simp: tail_from_def coalesce_def)
    qed
    have ge: "Min ?I \<le> Max ?I" using fin False mx by simp
    have "x \<le> Max ?I" if "x \<in> ?I" for x using that fin by simp
    moreover have "Max ?I \<le> hi" using mx(1) sub by auto
    ultimately have "({Min ?I..Max ?I} - ?I) \<union> {Max ?I + 1..hi} = {Min ?I..hi} - ?I"
      using ge by force
    with False show ?thesis
      by (simp add: findMissing_set [OF assms] reported_ledgers_def Let_def tf)
  qed
  with sep un show ?thesis by simp
qed

section \<open>One canonical event per position\<close>

definition input_identity :: "('p, 'm) recovery_event_scheme \<Rightarrow> int \<times> string \<times> int \<times> int" where
  "input_identity e = (re_ledger e, re_txHash e, re_opIndex e, or_zero (re_eventIndex e))"

definition canonical_rows :: "indexer_db \<Rightarrow> indexer_event_row list" where
  "canonical_rows db = filter ie_canonical (ix_events db)"

definition events_ok :: "(nat \<Rightarrow> string) \<Rightarrow> indexer_db \<Rightarrow> bool" where
  "events_ok gen db \<longleftrightarrow> map ie_id (ix_events db) = map gen [0..<length (ix_events db)]
     \<and> key_unique row_identity (ix_events db) \<and> key_unique row_position (canonical_rows db)"

lemma new_row_simps [simp]:
  "row_position (new_event_row gen now e db) = position e"
  "row_identity (new_event_row gen now e db) = input_identity e"
  "ie_canonical (new_event_row gen now e db)"
  "ie_id (new_event_row gen now e db) = gen (length (ix_events db))"
  "ie_txHash (new_event_row gen now e db) = re_txHash e"
  by (simp_all add: new_event_row_def row_position_def position_def row_identity_def input_identity_def)

lemma flip_simps [simp]:
  "row_position (r\<lparr>ie_canonical := b\<rparr>) = row_position r"
  "row_identity (r\<lparr>ie_canonical := b\<rparr>) = row_identity r"
  by (simp_all add: row_position_def row_identity_def)

lemma select_canonical_Some:
  "select_canonical e db = Some r \<Longrightarrow> r \<in> set (ix_events db) \<and> ie_canonical r \<and> row_position r = position e"
  by (auto simp: select_canonical_def dest: select_first_SomeD)

lemma select_canonical_None:
  "select_canonical e db = None \<longleftrightarrow> position e \<notin> row_position ` set (canonical_rows db)"
proof -
  have "(\<forall>r \<in> set (ix_events db). \<not> (row_position r = position e \<and> ie_canonical r))
    \<longleftrightarrow> position e \<notin> row_position ` set (canonical_rows db)"
    unfolding canonical_rows_def by (auto simp: image_iff)
  then show ?thesis by (simp add: select_canonical_def select_first_None)
qed

lemma select_canonical_iff:
  assumes "events_ok gen db"
  shows "select_canonical e db = Some r \<longleftrightarrow>
    r \<in> set (ix_events db) \<and> ie_canonical r \<and> row_position r = position e"
proof
  assume "r \<in> set (ix_events db) \<and> ie_canonical r \<and> row_position r = position e"
  then have r: "r \<in> set (canonical_rows db)" "row_position r = position e" by (auto simp: canonical_rows_def)
  then obtain s where s: "select_canonical e db = Some s"
    using select_canonical_None [of e db] by (metis image_eqI not_None_eq)
  from select_canonical_Some [OF s] have "s \<in> set (canonical_rows db)" "row_position s = position e"
    by (auto simp: canonical_rows_def)
  with r s assms show "select_canonical e db = Some r"
    using key_unique_eq [of row_position "canonical_rows db"] by (auto simp: events_ok_def)
qed (rule select_canonical_Some)

lemma identity_position:
  "ie_txHash r = re_txHash e \<Longrightarrow> row_position r = position e \<Longrightarrow> row_identity r = input_identity e"
  by (simp add: row_position_def position_def row_identity_def input_identity_def)

text \<open>The three ways a transaction can go.\<close>

lemma persist_same:
  assumes "select_canonical e db = Some r" and "ie_txHash r = re_txHash e"
  shows "persist_event gen now e db = (db, no_report)"
proof -
  have "input_identity e \<in> row_identity ` set (ix_events db)"
    using select_canonical_Some [OF assms(1)] identity_position [OF assms(2)]
    by (metis image_eqI)
  then show ?thesis
    by (simp add: persist_event_def write_event_def assms insert_event_def no_report_def)
qed

definition after_flip :: "(nat \<Rightarrow> string) \<Rightarrow> time \<Rightarrow> indexer_event_input \<Rightarrow> indexer_db \<Rightarrow> indexer_db" where
  "after_flip gen now e db = (case select_canonical e db of
     None \<Rightarrow> db
   | Some r \<Rightarrow> if ie_txHash r = re_txHash e then db else fst (replace_canonical gen now e r db))"

lemma persist_after_flip:
  "fst (persist_event gen now e db) = fst (insert_event gen now e (after_flip gen now e db))"
  by (simp add: persist_event_def write_event_def after_flip_def case_prod_beta Let_def split: option.split)

lemma after_flip_events:
  "ix_events (after_flip gen now e db) =
     (case select_canonical e db of
        None \<Rightarrow> ix_events db
      | Some r \<Rightarrow> if ie_txHash r = re_txHash e then ix_events db
          else update_where (\<lambda>s. ie_id s = ie_id r) (\<lambda>s. s\<lparr>ie_canonical := False\<rparr>) (ix_events db))"
  by (simp add: after_flip_def replace_canonical_def Let_def split: option.split)

lemma after_flip_identities [simp]:
  "row_identity ` set (ix_events (after_flip gen now e db)) = row_identity ` set (ix_events db)"
  "length (ix_events (after_flip gen now e db)) = length (ix_events db)"
proof -
  have "map row_identity (ix_events (after_flip gen now e db)) = map row_identity (ix_events db)"
    by (simp add: after_flip_events map_update_where_frame split: option.split)
  then show "row_identity ` set (ix_events (after_flip gen now e db)) = row_identity ` set (ix_events db)"
    by (metis set_map)
qed (simp add: after_flip_events split: option.split)

lemma after_flip_ok:
  assumes "events_ok gen db"
  shows "events_ok gen (after_flip gen now e db)"
proof -
  let ?upd = "\<lambda>r. update_where (\<lambda>s. ie_id s = ie_id r) (\<lambda>s. s\<lparr>ie_canonical := False\<rparr>) (ix_events db)"
  have "key_unique row_position (filter ie_canonical (?upd r))" for r :: indexer_event_row
    using assms by (intro key_unique_filter_update) (simp_all add: events_ok_def canonical_rows_def)
  then have "key_unique row_position (canonical_rows (after_flip gen now e db))"
    using assms by (cases "select_canonical e db") (simp_all add: canonical_rows_def after_flip_events events_ok_def)
  moreover have "map ie_id (ix_events (after_flip gen now e db)) = map ie_id (ix_events db)"
    "key_unique row_identity (ix_events (after_flip gen now e db))"
    using assms by (simp_all add: after_flip_events map_update_where_frame events_ok_def split: option.split)
  ultimately show ?thesis using assms by (simp add: events_ok_def)
qed



lemma events_ok_ids: "inj gen \<Longrightarrow> events_ok gen db \<Longrightarrow> key_unique ie_id (ix_events db)"
  by (simp add: key_unique_def events_ok_def distinct_map) (auto intro: inj_on_subset)

lemma after_flip_canonical:
  assumes "inj gen" and "events_ok gen db" and "r \<in> set (ix_events (after_flip gen now e db))"
    and "ie_canonical r" and "row_position r = position e"
  shows "ie_txHash r = re_txHash e \<and> select_canonical e db = Some r"
proof (cases "select_canonical e db")
  case None
  then have "\<not> (ie_canonical r \<and> row_position r = position e)"
    using assms(3) None [unfolded select_canonical_def select_first_None] None
    by (auto simp: after_flip_events)
  with assms(4,5) show ?thesis by blast
next
  case (Some old)
  show ?thesis
  proof (cases "ie_txHash old = re_txHash e")
    case True
    with Some assms(3) have "r \<in> set (ix_events db)" by (simp add: after_flip_events)
    with assms(4,5) select_canonical_iff [OF assms(2), of e r] Some True show ?thesis by simp
  next
    case False
    with Some assms(3,4) have r: "r \<in> set (ix_events db)" "ie_id r \<noteq> ie_id old"
      by (auto simp: after_flip_events set_update_where split: if_splits)
    with assms(4,5) select_canonical_iff [OF assms(2), of e r] Some show ?thesis by simp
  qed
qed

lemma insert_event_events:
  "ix_events (fst (insert_event gen now e db)) =
    (if input_identity e \<in> row_identity ` set (ix_events db) then ix_events db
     else ix_events db @ [new_event_row gen now e db])"
  by (simp add: insert_event_def Let_def)

lemma insert_event_ok:
  assumes "events_ok gen db"
    and "input_identity e \<notin> row_identity ` set (ix_events db) \<Longrightarrow> position e \<notin> row_position ` set (canonical_rows db)"
  shows "events_ok gen (fst (insert_event gen now e db))"
  using assms by (auto simp: events_ok_def insert_event_events canonical_rows_def key_unique_snoc)

lemma persist_event_ok:
  assumes "inj gen" and "events_ok gen db"
  shows "events_ok gen (fst (persist_event gen now e db))"
  unfolding persist_after_flip
proof (rule insert_event_ok [OF after_flip_ok [OF assms(2)]])
  assume new: "input_identity e \<notin> row_identity ` set (ix_events (after_flip gen now e db))"
  show "position e \<notin> row_position ` set (canonical_rows (after_flip gen now e db))"
  proof
    assume "position e \<in> row_position ` set (canonical_rows (after_flip gen now e db))"
    then obtain r where r: "r \<in> set (ix_events (after_flip gen now e db))" "ie_canonical r" "row_position r = position e"
      by (auto simp: canonical_rows_def)
    with after_flip_canonical [OF assms] have "row_identity r = input_identity e"
      using identity_position by blast
    with r(1) new show False by (metis image_eqI)
  qed
qed

lemma persist_loop_ok:
  "inj gen \<Longrightarrow> events_ok gen db \<Longrightarrow> events_ok gen (fst (persist_loop gen fault now es rep db))"
  by (induction es arbitrary: rep db) (auto simp: case_prod_beta Let_def persist_event_ok split: option.split)

section \<open>Replaying a batch\<close>

text \<open>An event is settled when its row is stored and no canonical row of another transaction holds its
  position.\<close>

definition settled :: "indexer_event_input \<Rightarrow> indexer_db \<Rightarrow> bool" where
  "settled e db \<longleftrightarrow> input_identity e \<in> row_identity ` set (ix_events db)
     \<and> (\<forall>r \<in> set (ix_events db). ie_canonical r \<and> row_position r = position e \<longrightarrow> ie_txHash r = re_txHash e)"

lemma persist_identities:
  "row_identity ` set (ix_events (fst (persist_event gen now e db))) =
     insert (input_identity e) (row_identity ` set (ix_events db))"
proof -
  have "row_identity ` set (ix_events (fst (persist_event gen now e db))) =
    insert (input_identity e) (row_identity ` set (ix_events (after_flip gen now e db)))"
    unfolding persist_after_flip by (auto simp: insert_event_events)
  then show ?thesis by simp
qed

lemma persist_canonical:
  assumes "r \<in> set (ix_events (fst (persist_event gen now e db)))" and "ie_canonical r"
  shows "row_position r = position e \<and> ie_txHash r = re_txHash e \<or> r \<in> set (ix_events (after_flip gen now e db))"
  using assms unfolding persist_after_flip by (auto simp: insert_event_events split: if_splits)

lemma after_flip_canonical_old:
  "r \<in> set (ix_events (after_flip gen now e db)) \<Longrightarrow> ie_canonical r \<Longrightarrow> r \<in> set (ix_events db)"
  by (auto simp: after_flip_events set_update_where split: option.splits if_splits)

lemma persist_settles:
  assumes "inj gen" and "events_ok gen db"
  shows "settled e (fst (persist_event gen now e db))"
proof -
  have "ie_txHash r = re_txHash e"
    if "r \<in> set (ix_events (fst (persist_event gen now e db)))" "ie_canonical r" "row_position r = position e" for r
    using persist_canonical [OF that(1,2)] after_flip_canonical [OF assms, of r now e] that by blast
  then show ?thesis by (simp add: settled_def persist_identities)
qed

lemma settled_stable:
  assumes "settled e db" and "position e' \<noteq> position e"
  shows "settled e (fst (persist_event gen now e' db))"
proof -
  have "ie_txHash r = re_txHash e"
    if "r \<in> set (ix_events (fst (persist_event gen now e' db)))" "ie_canonical r" "row_position r = position e" for r
  proof -
    from persist_canonical [OF that(1,2)] assms(2) that(3) have "r \<in> set (ix_events db)"
      using after_flip_canonical_old [OF _ that(2)] by auto
    with assms(1) that show ?thesis by (simp add: settled_def)
  qed
  with assms(1) show ?thesis by (simp add: settled_def persist_identities)
qed

lemma settled_persist: "settled e db \<Longrightarrow> persist_event gen now e db = (db, no_report)"
proof (cases "select_canonical e db")
  case None
  then show "settled e db \<Longrightarrow> ?thesis"
    by (simp add: settled_def persist_event_def write_event_def insert_event_def no_report_def)
next
  case (Some r)
  then show "settled e db \<Longrightarrow> ?thesis"
    using select_canonical_Some [OF Some] by (intro persist_same) (auto simp: settled_def)
qed

lemma persist_loop_settles:
  assumes "inj gen" and "events_ok gen db" and "distinct (map position es)"
    and "persist_loop gen fault now es rep db = (db', Inr rep')"
  shows "(\<forall>e \<in> set es. settled e db') \<and> (\<forall>e. settled e db \<and> position e \<notin> position ` set es \<longrightarrow> settled e db')
    \<and> (\<forall>e \<in> set es. fault e = None)"
  using assms(2-)
proof (induction es arbitrary: rep db)
  case (Cons e es)
  obtain db1 r where p: "persist_event gen now e db = (db1, r)" by fastforce
  from Cons.prems p have loop: "persist_loop gen fault now es (add_report rep r) db1 = (db', Inr rep')"
    and nofault: "fault e = None" by (auto split: option.splits)
  have ok: "events_ok gen db1" using persist_event_ok [OF assms(1) Cons.prems(1), of now e] p by simp
  from Cons.IH [OF ok _ loop] Cons.prems(2)
  have IH: "\<forall>e \<in> set es. settled e db'" "\<forall>e. settled e db1 \<and> position e \<notin> position ` set es \<longrightarrow> settled e db'"
    "\<forall>e \<in> set es. fault e = None" by auto
  have "settled e db1" using persist_settles [OF assms(1) Cons.prems(1), of e now] p by simp
  with IH Cons.prems(2) have "settled e db'" by simp
  moreover have "settled f db'" if "settled f db" "position f \<notin> position ` set (e # es)" for f
    using settled_stable [OF that(1), of e gen now] that(2) IH(2) p by auto
  ultimately show ?case using IH nofault by auto
qed simp

lemma persist_loop_settled:
  "\<forall>e \<in> set es. settled e db \<and> fault e = None \<Longrightarrow> persist_loop gen fault now es rep db = (db, Inr rep)"
  by (induction es arbitrary: rep) (auto simp: settled_persist add_report_def no_report_def)

section \<open>Identities\<close>

lemma no_colon: "CHR '':'' \<notin> set (int_to_string n)"
  by (auto simp: int_to_string_def dest!: nat_to_string_digits simp: is_digit_def split: if_splits)

lemma split_first_colon:
  "CHR '':'' \<notin> set a \<Longrightarrow> CHR '':'' \<notin> set b \<Longrightarrow> a @ CHR '':'' # x = b @ CHR '':'' # y \<longleftrightarrow> a = b \<and> x = y"
proof (induction a arbitrary: b)
  case Nil
  then show ?case by (cases b) auto
next
  case (Cons c a)
  then show ?case by (cases b) auto
qed

lemma split_last_colon:
  assumes "CHR '':'' \<notin> set a" and "CHR '':'' \<notin> set b"
  shows "x @ CHR '':'' # a = y @ CHR '':'' # b \<longleftrightarrow> x = y \<and> a = b"
proof -
  have "x @ CHR '':'' # a = y @ CHR '':'' # b \<longleftrightarrow> rev a @ CHR '':'' # rev x = rev b @ CHR '':'' # rev y"
    by (metis append_Cons append_Nil append_assoc rev.simps(2) rev_append rev_rev_ident)
  also have "\<dots> \<longleftrightarrow> x = y \<and> a = b" using assms by (subst split_first_colon) auto
  finally show ?thesis .
qed

lemma eventIdentity_split:
  "eventIdentity e = int_to_string (re_ledger e) @ CHR '':'' #
     ((re_txHash e @ CHR '':'' # int_to_string (re_opIndex e)) @ CHR '':'' # int_to_string (or_zero (re_eventIndex e)))"
  by (simp add: eventIdentity_def)

lemma eventIdentity_inject:
  "eventIdentity e = eventIdentity f \<longleftrightarrow> input_identity e = input_identity f"
  unfolding eventIdentity_split
  by (simp add: split_first_colon split_last_colon no_colon input_identity_def del: append_assoc)

lemma dedupe_input_identities: "input_identity ` set (dedupeEvents es) = input_identity ` set es"
proof
  show "input_identity ` set (dedupeEvents es) \<subseteq> input_identity ` set es"
    using dedupe_subset by blast
  show "input_identity ` set es \<subseteq> input_identity ` set (dedupeEvents es)"
  proof
    fix x assume "x \<in> input_identity ` set es"
    then obtain e where e: "e \<in> set es" "x = input_identity e" by blast
    then have "eventIdentity e \<in> eventIdentity ` set (dedupeEvents es)" by simp
    then obtain f where "f \<in> set (dedupeEvents es)" "eventIdentity e = eventIdentity f" by blast
    with e show "x \<in> input_identity ` set (dedupeEvents es)" using eventIdentity_inject by blast
  qed
qed

lemma persist_loop_identities:
  assumes "persist_loop gen fault now es rep db = (db', Inr rep')"
  shows "row_identity ` set (ix_events db') = row_identity ` set (ix_events db) \<union> input_identity ` set es"
  using assms
proof (induction es arbitrary: rep db)
  case (Cons e es)
  obtain db1 r where p: "persist_event gen now e db = (db1, r)" by fastforce
  with Cons.prems have "persist_loop gen fault now es (add_report rep r) db1 = (db', Inr rep')"
    by (auto split: option.splits)
  from Cons.IH [OF this] persist_identities [of gen now e db] p show ?case by auto
qed simp

section \<open>The effect of one transaction\<close>

lemma insert_event_fresh:
  "input_identity e \<notin> row_identity ` set (ix_events db) \<Longrightarrow>
   insert_event gen now e db = (db\<lparr>ix_events := ix_events db @ [new_event_row gen now e db]\<rparr>, 1)"
  by (simp add: insert_event_def Let_def)

lemma select_differs:
  "select_canonical e db = Some r \<Longrightarrow> input_identity e \<notin> row_identity ` set (ix_events db) \<Longrightarrow> ie_txHash r \<noteq> re_txHash e"
  using select_canonical_Some [of e db r] identity_position [of r e] by (metis image_eqI)

lemma snd_replace:
  "snd (replace_canonical gen now e old db) = int (length (filter (repairable (ie_txHash old)) (ix_predictions db)))"
  by (simp add: replace_canonical_def Let_def)

lemma persist_fresh_eq:
  assumes "input_identity e \<notin> row_identity ` set (ix_events db)"
  shows "persist_event gen now e db =
    (let d = after_flip gen now e db
     in (d\<lparr>ix_events := ix_events d @ [new_event_row gen now e d]\<rparr>,
         \<lparr>rep_inserted = 1,
          rep_replacements = (if select_canonical e db = None then 0 else 1),
          rep_repairedPredictions = (case select_canonical e db of None \<Rightarrow> 0
            | Some old \<Rightarrow> int (length (filter (repairable (ie_txHash old)) (ix_predictions db))))\<rparr>))"
proof (cases "select_canonical e db")
  case None
  then show ?thesis using assms
    by (simp add: persist_event_def write_event_def after_flip_def insert_event_fresh)
next
  case (Some old)
  have fresh: "input_identity e \<notin> row_identity ` set (ix_events (fst (replace_canonical gen now e old db)))"
    using after_flip_identities(1) [of gen now e db] select_differs [OF Some assms] assms
    by (simp add: after_flip_def Some)
  show ?thesis using select_differs [OF Some assms] Some insert_event_fresh [OF fresh, of gen now]
    by (simp add: persist_event_def write_event_def after_flip_def case_prod_beta Let_def snd_replace)
qed

lemma repairable_eta: "repairable h = (\<lambda>p. p_txHash p = h \<and> p_status p \<in> {''confirmed'', ''failed''})"
  by (simp add: repairable_def fun_eq_iff)

lemma after_flip_repair:
  assumes "select_canonical e db = Some old" and "ie_txHash old \<noteq> re_txHash e"
  shows "ix_predictions (after_flip gen now e db) =
      map (\<lambda>p. if p_txHash p = ie_txHash old \<and> p_status p \<in> {''confirmed'', ''failed''}
               then p\<lparr>p_status := ''pending'', p_result := None, p_lastError := None, p_confirmAttempts := 0\<rparr>
               else p) (ix_predictions db)"
    and "\<exists>row. ix_reorgs (after_flip gen now e db) = ix_reorgs db @ [row] \<and> ir_oldTxHash row = ie_txHash old
      \<and> ir_newTxHash row = re_txHash e
      \<and> ir_repairedPredictions row = int (length (filter (repairable (ie_txHash old)) (ix_predictions db)))"
  using assms
  by (auto simp: after_flip_def replace_canonical_def Let_def update_where_def repairable_def repair_prediction_def)

lemma persist_fresh_canonical:
  assumes "inj gen" and "events_ok gen db" and "input_identity e \<notin> row_identity ` set (ix_events db)"
    and "persist_event gen now e db = (db', rep)"
  shows "\<exists>r. select_canonical e db' = Some r \<and> ie_txHash r = re_txHash e"
proof -
  have ok: "events_ok gen db'" using persist_event_ok [OF assms(1,2), of now e] assms(4) by simp
  let ?r = "new_event_row gen now e (after_flip gen now e db)"
  have "?r \<in> set (ix_events db')"
    using assms(4) persist_fresh_eq [OF assms(3), of gen now] by (auto simp: Let_def)
  then have "select_canonical e db' = Some ?r" by (simp add: select_canonical_iff [OF ok])
  then show ?thesis by simp
qed

section \<open>Properties\<close>

text \<open>C8. A reorg is repaired in one transaction, and one canonical event per position is an
  invariant: from tables whose identities are unique and whose positions have at most one canonical
  row, every persisted batch, complete or stopped by a failing transaction, leaves such tables.
  An event not stored before becomes the canonical row of its position; if another transaction held
  the position, exactly the confirmed and failed predictions of that old transaction go back to
  pending with their result, error and attempts reset, one reorg row records both hashes and the
  number of repaired predictions, and the report counts one insertion and one replacement.\<close>

theorem persist_recovers:
  assumes "inj gen" and "events_ok gen db"
  shows "events_ok gen (fst (persistEventsWithRecovery gen fault now events db))
    \<and> (input_identity e \<notin> row_identity ` set (ix_events db) \<and> persist_event gen now e db = (db', rep) \<longrightarrow>
        (\<exists>r. select_canonical e db' = Some r \<and> ie_txHash r = re_txHash e) \<and> rep_inserted rep = 1
        \<and> (select_canonical e db = None \<longrightarrow> rep_replacements rep = 0
             \<and> ix_predictions db' = ix_predictions db \<and> ix_reorgs db' = ix_reorgs db)
        \<and> (\<forall>old. select_canonical e db = Some old \<longrightarrow> rep_replacements rep = 1
             \<and> ix_predictions db' =
                 map (\<lambda>p. if p_txHash p = ie_txHash old \<and> p_status p \<in> {''confirmed'', ''failed''}
                          then p\<lparr>p_status := ''pending'', p_result := None, p_lastError := None, p_confirmAttempts := 0\<rparr>
                          else p) (ix_predictions db)
             \<and> (\<exists>row. ix_reorgs db' = ix_reorgs db @ [row] \<and> ir_oldTxHash row = ie_txHash old
                  \<and> ir_newTxHash row = re_txHash e \<and> ir_repairedPredictions row = rep_repairedPredictions rep
                  \<and> rep_repairedPredictions rep = int (length (filter
                      (\<lambda>p. p_txHash p = ie_txHash old \<and> p_status p \<in> {''confirmed'', ''failed''}) (ix_predictions db))))))"
proof (intro conjI impI)
  show "events_ok gen (fst (persistEventsWithRecovery gen fault now events db))"
    unfolding persistEventsWithRecovery_def using assms by (rule persist_loop_ok)
  assume h: "input_identity e \<notin> row_identity ` set (ix_events db) \<and> persist_event gen now e db = (db', rep)"
  note eq = persist_fresh_eq [OF h [THEN conjunct1], of gen now]
  show "\<exists>r. select_canonical e db' = Some r \<and> ie_txHash r = re_txHash e"
    using persist_fresh_canonical [OF assms] h by blast
  show "rep_inserted rep = 1" using h eq by (auto simp: Let_def)
  show "rep_replacements rep = 0" "ix_predictions db' = ix_predictions db" "ix_reorgs db' = ix_reorgs db"
    if "select_canonical e db = None" using h eq that by (auto simp: Let_def after_flip_def)
  show "\<forall>old. select_canonical e db = Some old \<longrightarrow> rep_replacements rep = 1
             \<and> ix_predictions db' =
                 map (\<lambda>p. if p_txHash p = ie_txHash old \<and> p_status p \<in> {''confirmed'', ''failed''}
                          then p\<lparr>p_status := ''pending'', p_result := None, p_lastError := None, p_confirmAttempts := 0\<rparr>
                          else p) (ix_predictions db)
             \<and> (\<exists>row. ix_reorgs db' = ix_reorgs db @ [row] \<and> ir_oldTxHash row = ie_txHash old
                  \<and> ir_newTxHash row = re_txHash e \<and> ir_repairedPredictions row = rep_repairedPredictions rep
                  \<and> rep_repairedPredictions rep = int (length (filter
                      (\<lambda>p. p_txHash p = ie_txHash old \<and> p_status p \<in> {''confirmed'', ''failed''}) (ix_predictions db))))"
  proof (intro allI impI)
    fix old assume old: "select_canonical e db = Some old"
    note rep = after_flip_repair [OF old select_differs [OF old h [THEN conjunct1]], of gen now]
    show "rep_replacements rep = 1
      \<and> ix_predictions db' =
          map (\<lambda>p. if p_txHash p = ie_txHash old \<and> p_status p \<in> {''confirmed'', ''failed''}
                   then p\<lparr>p_status := ''pending'', p_result := None, p_lastError := None, p_confirmAttempts := 0\<rparr>
                   else p) (ix_predictions db)
      \<and> (\<exists>row. ix_reorgs db' = ix_reorgs db @ [row] \<and> ir_oldTxHash row = ie_txHash old
           \<and> ir_newTxHash row = re_txHash e \<and> ir_repairedPredictions row = rep_repairedPredictions rep
           \<and> rep_repairedPredictions rep = int (length (filter
               (\<lambda>p. p_txHash p = ie_txHash old \<and> p_status p \<in> {''confirmed'', ''failed''}) (ix_predictions db))))"
      using h eq old rep by (auto simp: Let_def repairable_eta)
  qed
qed

text \<open>Replays are harmless: when a batch with at most one event per position has been persisted, the
  same batch persisted again changes no table and reports nothing inserted, replaced or repaired.\<close>

lemma persist_idempotent:
  assumes "inj gen" and "events_ok gen db"
    and "distinct (map position (dedupeEvents (List.map_filter resolve_event events)))"
    and "persistEventsWithRecovery gen fault now events db = (db', Inr rep)"
  shows "persistEventsWithRecovery gen fault now' events db' =
    (db', Inr \<lparr>rep_inserted = 0, rep_replacements = 0, rep_repairedPredictions = 0\<rparr>)"
proof -
  from persist_loop_settles [OF assms(1-3) assms(4) [unfolded persistEventsWithRecovery_def]]
  show ?thesis unfolding persistEventsWithRecovery_def no_report_def [symmetric]
    by (intro persist_loop_settled) blast
qed

subsection \<open>Two ways to break the rule\<close>

text \<open>A reorg that returns to the original transaction is lost: after event \<open>a\<close>, its replacement
  \<open>b\<close> at the same position and \<open>a\<close> again, the position has no canonical event at all. The row of \<open>a\<close>
  is stored but no longer canonical, and the insert conflicts with it instead of restoring it.\<close>

lemma reorg_back_loses_canonical:
  assumes "inj gen" and "events_ok gen db"
    and "position b = position a" and "re_txHash b \<noteq> re_txHash a"
    and "input_identity a \<notin> row_identity ` set (ix_events db)"
    and "input_identity b \<notin> row_identity ` set (ix_events db)"
    and "persist_event gen now a db = (db1, rep1)" and "persist_event gen now b db1 = (db2, rep2)"
    and "persist_event gen now a db2 = (db3, rep3)"
  shows "select_canonical a db3 = None \<and> rep_inserted rep3 = 0 \<and> rep_replacements rep3 = 1"
proof -
  have ok: "events_ok gen db1" "events_ok gen db2"
    using persist_event_ok [OF assms(1)] assms(2,7,8) by (metis fst_conv)+
  have ids: "row_identity ` set (ix_events db1) = insert (input_identity a) (row_identity ` set (ix_events db))"
    "row_identity ` set (ix_events db2) = insert (input_identity b) (row_identity ` set (ix_events db1))"
    using persist_identities [of gen now a db] persist_identities [of gen now b db1] assms(7,8) by simp_all
  have "input_identity b \<noteq> input_identity a" using assms(4) by (simp add: input_identity_def)
  with ids assms(6) have fresh: "input_identity b \<notin> row_identity ` set (ix_events db1)" by simp
  from persist_fresh_canonical [OF assms(1) ok(1) fresh assms(8)] obtain rb
    where rb: "select_canonical b db2 = Some rb" "ie_txHash rb = re_txHash b" by blast
  then have sel: "select_canonical a db2 = Some rb" by (simp add: select_canonical_def assms(3))
  have old: "input_identity a \<in> row_identity ` set (ix_events (after_flip gen now a db2))" using ids by simp
  then have db3: "db3 = after_flip gen now a db2"
    using persist_after_flip [of gen now a db2] assms(9) by (simp add: insert_event_def Let_def)
  have "select_canonical a db3 = None"
  proof (rule ccontr)
    assume "select_canonical a db3 \<noteq> None"
    then obtain r where "select_canonical a db3 = Some r" by blast
    from select_canonical_Some [OF this] after_flip_canonical [OF assms(1) ok(2), of r now a]
    show False using sel rb assms(4) by (auto simp: db3)
  qed
  moreover have "rep_inserted rep3 = 0 \<and> rep_replacements rep3 = 1"
    using assms(4,9) sel rb old
    by (auto simp: persist_event_def write_event_def insert_event_def after_flip_def case_prod_beta Let_def)
  ultimately show ?thesis by blast
qed

text \<open>The canonical rule is not protected by an index, and a select that finds no row locks none: two
  transactions that both select before either inserts leave two canonical rows at one position.\<close>

lemma canonical_race:
  assumes "position b = position a" and "re_txHash b \<noteq> re_txHash a"
    and "input_identity a \<notin> row_identity ` set (ix_events db)"
    and "input_identity b \<notin> row_identity ` set (ix_events db)"
    and "select_canonical a db = None" and "select_canonical b db = None"
    and "write_event gen now a (select_canonical a db) db = (db1, rep1)"
    and "write_event gen now b (select_canonical b db) db1 = (db2, rep2)"
  shows "\<not> key_unique row_position (canonical_rows db2)"
proof -
  have db1: "db1 = db\<lparr>ix_events := ix_events db @ [new_event_row gen now a db]\<rparr>"
    using assms(7) by (simp add: write_event_def assms(5) insert_event_fresh [OF assms(3)])
  have "input_identity b \<notin> row_identity ` set (ix_events db1)"
    using assms(2,4) by (auto simp: db1 input_identity_def)
  from insert_event_fresh [OF this]
  have "db2 = db1\<lparr>ix_events := ix_events db1 @ [new_event_row gen now b db1]\<rparr>"
    using assms(8) by (simp add: write_event_def assms(6))
  then show ?thesis by (simp add: canonical_rows_def key_unique_def db1 assms(1))
qed

subsection \<open>Cursor\<close>

lemma cursor_frame [simp]: "ix_cursor (fst (persist_event gen now e db)) = ix_cursor db"
  by (simp add: persist_event_def write_event_def insert_event_def replace_canonical_def case_prod_beta Let_def
      split: option.split)

lemma persist_loop_cursor: "ix_cursor (fst (persist_loop gen fault now es rep db)) = ix_cursor db"
  by (induction es arbitrary: rep db) (auto simp: case_prod_beta Let_def split: option.split)

lemma persistEvents_cursor: "persistEvents gen fault now evs db = (db', res) \<Longrightarrow> ix_cursor db' = ix_cursor db"
  using persist_loop_cursor [of gen fault now "dedupeEvents (List.map_filter resolve_event evs)" no_report db]
  by (auto simp: persistEvents_def persistEventsWithRecovery_def split: prod.splits sum.splits)

lemma persistEvents_stored:
  assumes "persistEvents gen fault now evs db = (db', Inr n)" and "raw \<in> set evs" and "resolve_event raw = Some e"
  shows "input_identity e \<in> row_identity ` set (ix_events db')"
proof -
  let ?es = "List.map_filter resolve_event evs"
  obtain rep where "persist_loop gen fault now (dedupeEvents ?es) no_report db = (db', Inr rep)"
    using assms(1) by (auto simp: persistEvents_def persistEventsWithRecovery_def split: prod.splits sum.splits)
  from persist_loop_identities [OF this]
  have "input_identity ` set ?es \<subseteq> row_identity ` set (ix_events db')" by (simp add: dedupe_input_identities)
  moreover have "e \<in> set ?es" using assms(2,3) by (force simp: List.map_filter_def)
  ultimately show ?thesis by blast
qed

lemma getCursor_advance:
  "getCursor env (advanceCursor now l db) =
    (if row_by ic_id (ix_cursor db) INDEXER_CURSOR_ID = None then l else max (getCursor env db) l)"
  by (auto simp: getCursor_def advanceCursor_def row_by_snoc row_by_update_where dest: row_by_SomeD split: option.split)

text \<open>C23. The durable cursor follows the events: a poll that throws leaves the cursor row as it was; a
  poll that returns \<open>n\<close> leaves the larger of the old cursor and \<open>n\<close>, so the cursor never moves back;
  and when the window reached the tip, every event the RPC server returned for it, except those with
  a malformed id, is stored before the cursor moved.\<close>

theorem cursor_advance:
  assumes "pollOnce gen fault now rpc env db = (db', res)"
  shows "(\<forall>err. res = Inl err \<longrightarrow> ix_cursor db' = ix_cursor db)
    \<and> (\<forall>n. res = Inr n \<longrightarrow> getCursor env db' = max (getCursor env db) n)
    \<and> (\<forall>n tip evs raw e. res = Inr n \<and> rpc_getLatestLedger rpc = Inr tip
         \<and> max (INDEXER_START_LEDGER env) (getCursor env db - INDEXER_REWIND_LEDGERS env + 1) \<le> tip
         \<and> rpc_getEvents rpc (max (INDEXER_START_LEDGER env) (getCursor env db - INDEXER_REWIND_LEDGERS env + 1)) tip = Inr evs
         \<and> raw \<in> set evs \<and> resolve_event raw = Some e
       \<longrightarrow> n = tip \<and> input_identity e \<in> row_identity ` set (ix_events db'))"
proof -
  define start where "start = max (INDEXER_START_LEDGER env) (getCursor env db - INDEXER_REWIND_LEDGERS env + 1)"
  have poll: "pollOnce gen fault now rpc env db = (case rpc_getLatestLedger rpc of
      Inl err \<Rightarrow> (db, Inl err)
    | Inr tip \<Rightarrow> if start > tip then (db, Inr (getCursor env db))
        else (case rpc_getEvents rpc start tip of
           Inl err \<Rightarrow> (db, Inl err)
         | Inr events \<Rightarrow> (case persistEvents gen fault now events db of
              (d, Inl err) \<Rightarrow> (d, Inl err)
            | (d, Inr _) \<Rightarrow> (advanceCursor now tip d, Inr tip))))"
    unfolding pollOnce_def Let_def start_def by (rule refl)
  have adv: "getCursor env (advanceCursor now tip d) = max (getCursor env db) tip"
    if "persistEvents gen fault now events db = (d, Inr k)" "\<not> start > tip" for events d k tip
  proof -
    have c: "ix_cursor d = ix_cursor db" by (rule persistEvents_cursor [OF that(1)])
    then have "getCursor env d = getCursor env db" by (simp add: getCursor_def)
    moreover have "getCursor env db \<le> tip" if "row_by ic_id (ix_cursor db) INDEXER_CURSOR_ID = None"
      using that \<open>\<not> start > tip\<close> by (simp add: getCursor_def start_def)
    ultimately show ?thesis by (simp add: getCursor_advance c)
  qed
  show ?thesis
    unfolding start_def [symmetric]
    using assms persistEvents_cursor persistEvents_stored adv
    by (auto simp: poll split: sum.splits prod.splits if_splits)
       (auto simp: advanceCursor_def)
qed

subsection \<open>Gaps\<close>

text \<open>What the gap scan reports: the ranges \<^verbatim>\<open>detectGaps\<close> returns are in ascending order, not empty
  and never adjacent. When the window holds an indexed event they cover exactly the ledgers from the
  first indexed one to the end of the window that have no event; ledgers of the window before the
  first indexed one are never reported, although they have no event either. When the window holds no
  event they cover its first ledger and what follows the cursor.\<close>

lemma gaps_exact:
  assumes "scanFrom \<le> scanTo"
    and "I = {l. scanFrom \<le> l \<and> l \<le> scanTo \<and> l \<in> ie_ledger ` set (ix_events db)}"
  shows "(\<forall>g \<in> set (detectGaps scanFrom scanTo cursor db). rc_from g \<le> rc_to g)
    \<and> sorted_wrt (\<lambda>g h. rc_to g + 1 < rc_from h) (detectGaps scanFrom scanTo cursor db)
    \<and> (\<Union>g \<in> set (detectGaps scanFrom scanTo cursor db). {rc_from g..rc_to g}) =
        (if I = {} then insert scanFrom {max (cursor + 1) scanFrom..scanTo}
         else {l. Min I \<le> l \<and> l \<le> scanTo \<and> l \<notin> I})"
proof -
  have "I = indexed_set scanFrom scanTo db" by (auto simp: assms(2) indexed_set_alt)
  moreover have "{Min J..scanTo} - J = {l. Min J \<le> l \<and> l \<le> scanTo \<and> l \<notin> J}" for J by auto
  ultimately show ?thesis
    using detectGaps_spec [OF assms(1), of cursor db]
    by (simp add: separated_def reported_ledgers_def ledgers_of_def Let_def)
qed

subsection \<open>Examples\<close>

definition demo_gen :: "nat \<Rightarrow> string" where "demo_gen n = replicate n CHR ''x''"

lemma inj_demo_gen: "inj demo_gen"
  by (auto simp: inj_def demo_gen_def)

definition demo_input :: "int \<Rightarrow> string \<Rightarrow> indexer_event_input" where
  "demo_input l h = \<lparr>re_ledger = l, re_txHash = h, re_txApplicationOrder = Some 1, re_opIndex = 0,
     re_eventIndex = Some 0, re_eventType = Some ''bet_plc'', re_payload = None, iei_id = None, iei_marketId = None\<rparr>"

definition demo_prediction :: "string \<Rightarrow> prediction_row" where
  "demo_prediction st = \<lparr>p_id = ''p'', p_marketId = ''m'', p_userId = ''u'', p_outcome = ''yes'', p_amount = ''5'',
     p_txHash = ''A'', p_fundingSource = None, p_status = st, p_result = None, p_claimTxHash = None,
     p_claimedAt = None, p_createdAt = 0, p_confirmAttempts = 0, p_lastError = None\<rparr>"

definition demo_db :: indexer_db where
  "demo_db = \<lparr>ix_events = [], ix_predictions = [demo_prediction ''confirmed''], ix_reorgs = [], ix_cursor = []\<rparr>"

definition demo_db1 :: indexer_db where
  "demo_db1 = fst (persist_event demo_gen 0 (demo_input 9 ''A'') demo_db)"

lemma demo_db_ok: "events_ok demo_gen demo_db"
  by (simp add: events_ok_def demo_db_def canonical_rows_def key_unique_def)

lemma demo_db1_ok: "events_ok demo_gen demo_db1"
  unfolding demo_db1_def by (rule persist_event_ok [OF inj_demo_gen demo_db_ok])

theorem persist_recovers_witness:
  "ix_predictions (fst (persist_event demo_gen 7 (demo_input 9 ''B'') demo_db1)) = [demo_prediction ''pending'']"
proof -
  obtain db' rep where p: "persist_event demo_gen 7 (demo_input 9 ''B'') demo_db1 = (db', rep)" by fastforce
  have "input_identity (demo_input 9 ''B'') \<notin> row_identity ` set (ix_events demo_db1)" by code_simp
  moreover obtain old where "select_canonical (demo_input 9 ''B'') demo_db1 = Some old" "ie_txHash old = ''A''"
  proof -
    have "map_option ie_txHash (select_canonical (demo_input 9 ''B'') demo_db1) = Some ''A''" by code_simp
    then show ?thesis using that by auto
  qed
  moreover have "ix_predictions demo_db1 = [demo_prediction ''confirmed'']" by code_simp
  ultimately have "ix_predictions db' = [demo_prediction ''pending'']"
    using persist_recovers [OF inj_demo_gen demo_db1_ok, of "\<lambda>_. None" 7 "[]" "demo_input 9 ''B''" db' rep] p
    by (auto simp: demo_prediction_def)
  with p show ?thesis by simp
qed

lemma persist_idempotent_witness:
  "persistEventsWithRecovery demo_gen (\<lambda>_. None) 8 [demo_input 9 ''A'', demo_input 10 ''C'']
     (fst (persistEventsWithRecovery demo_gen (\<lambda>_. None) 7 [demo_input 9 ''A'', demo_input 10 ''C''] demo_db)) =
   (fst (persistEventsWithRecovery demo_gen (\<lambda>_. None) 7 [demo_input 9 ''A'', demo_input 10 ''C''] demo_db),
    Inr \<lparr>rep_inserted = 0, rep_replacements = 0, rep_repairedPredictions = 0\<rparr>)"
proof (rule persist_idempotent [OF inj_demo_gen demo_db_ok, where fault = "\<lambda>_. None" and now = 7])
  show "distinct (map position (dedupeEvents (List.map_filter resolve_event [demo_input 9 ''A'', demo_input 10 ''C''])))"
    by code_simp
  have "snd (persistEventsWithRecovery demo_gen (\<lambda>_. None) 7 [demo_input 9 ''A'', demo_input 10 ''C''] demo_db)
    = Inr \<lparr>rep_inserted = 2, rep_replacements = 0, rep_repairedPredictions = 0\<rparr>" by code_simp
  then show "persistEventsWithRecovery demo_gen (\<lambda>_. None) 7 [demo_input 9 ''A'', demo_input 10 ''C''] demo_db
    = (fst (persistEventsWithRecovery demo_gen (\<lambda>_. None) 7 [demo_input 9 ''A'', demo_input 10 ''C''] demo_db),
       Inr \<lparr>rep_inserted = 2, rep_replacements = 0, rep_repairedPredictions = 0\<rparr>)"
    by (metis prod.collapse)
qed

lemma reorg_back_loses_canonical_witness:
  "select_canonical (demo_input 9 ''A'') (fst (persist_event demo_gen 7 (demo_input 9 ''A'')
     (fst (persist_event demo_gen 7 (demo_input 9 ''B'') (fst (persist_event demo_gen 7 (demo_input 9 ''A'') demo_db)))))) = None"
proof -
  have "position (demo_input 9 ''B'') = position (demo_input 9 ''A'')"
    "re_txHash (demo_input 9 ''B'') \<noteq> re_txHash (demo_input 9 ''A'')"
    by (simp_all add: position_def demo_input_def)
  moreover have "x \<notin> row_identity ` set (ix_events demo_db)" for x by (simp add: demo_db_def)
  ultimately show ?thesis
    using reorg_back_loses_canonical [OF inj_demo_gen demo_db_ok, of "demo_input 9 ''B''" "demo_input 9 ''A''" 7]
    by (metis prod.collapse)
qed

definition demo_rpc :: rpc_client where
  "demo_rpc = \<lparr>rpc_getLatestLedger = Inr 12, rpc_getEvents = (\<lambda>a b. Inr [demo_input 9 ''A''])\<rparr>"

definition demo_env :: indexer_env where
  "demo_env = \<lparr>INDEXER_START_LEDGER = 3, INDEXER_REWIND_LEDGERS = 2, INDEXER_BACKFILL_CHUNK_SIZE = 4\<rparr>"

theorem cursor_advance_witness:
  "getCursor demo_env (fst (pollOnce demo_gen (\<lambda>_. None) 5 demo_rpc demo_env demo_db)) = max 3 12"
proof -
  have "snd (pollOnce demo_gen (\<lambda>_. None) 5 demo_rpc demo_env demo_db) = Inr 12" by code_simp
  then have "pollOnce demo_gen (\<lambda>_. None) 5 demo_rpc demo_env demo_db =
    (fst (pollOnce demo_gen (\<lambda>_. None) 5 demo_rpc demo_env demo_db), Inr 12)" by (metis prod.collapse)
  moreover have "getCursor demo_env demo_db = 3" by code_simp
  ultimately show ?thesis using cursor_advance by metis
qed

text \<open>Ledgers 5 to 8 have no event and lie in the window 5 to 12, yet only 10 to 12 are reported.\<close>

lemma gaps_exact_witness:
  "(\<Union>g \<in> set (detectGaps 5 12 4 demo_db1). {rc_from g..rc_to g}) = {l::int. 9 \<le> l \<and> l \<le> 12 \<and> l \<notin> {9}}"
proof -
  have "map ie_ledger (ix_events demo_db1) = [9]" by code_simp
  then have "ie_ledger ` set (ix_events demo_db1) = {9}" by (metis empty_set list.simps(15) set_map)
  then have I: "{9} = {l. 5 \<le> l \<and> l \<le> 12 \<and> l \<in> ie_ledger ` set (ix_events demo_db1)}" by auto
  from gaps_exact [of 5 12 "{9}" demo_db1 4, OF _ I] show ?thesis by simp
qed

end
