(* ===== verification/Predictions_Confirmer.thy ===== *)
theory Predictions_Confirmer
  imports Indexer_Service
begin

text \<open>
  The predictions confirmer, \<^verbatim>\<open>src/workers/predictionsConfirmer.ts\<close>: the Drizzle repository, the
  transactional tick and the service's poll. The state \<open>settlement_db\<close> is the indexer's tables with
  the users and markets the queries join. \<^verbatim>\<open>LIMIT\<close> without an order may pick any rows; the model
  takes the first of the table. \<open>jsonText\<close> prints a JSON array or object for the operator \<^verbatim>\<open>->>\<close>.

  \<^item> \<open>tick_rows\<close>: one tick is a function of each row alone, so no row's fate depends on another's.
  \<^item> \<open>unmatched_fails_at_max\<close>: without an event a prediction fails at exactly the configured tick.
\<close>

section \<open>State\<close>

record settlement_db =
  sd_ix :: indexer_db
  sd_users :: "user_row table"
  sd_markets :: "market_row table"

abbreviation sd_predictions :: "settlement_db \<Rightarrow> prediction_row table" where
  "sd_predictions db \<equiv> ix_predictions (sd_ix db)"

definition set_predictions :: "(prediction_row table \<Rightarrow> prediction_row table) \<Rightarrow> settlement_db \<Rightarrow> settlement_db" where
  "set_predictions f db = db\<lparr>sd_ix := (sd_ix db)\<lparr>ix_predictions := f (sd_predictions db)\<rparr>\<rparr>"

record confirmed_prediction =
  cp_id :: string
  cp_marketId :: string
  cp_userId :: string
  cp_outcome :: string
  cp_amount :: string
  cp_txHash :: string
  cp_status :: string

record poll_result =
  pr_processed :: int
  pr_confirmed :: int
  pr_incremented :: int
  pr_failed :: int
  pr_webhookErrors :: int

definition DEFAULT_MAX_ATTEMPTS :: int where "DEFAULT_MAX_ATTEMPTS = 3"

definition BET_PLACED_EVENT_TYPE :: string where "BET_PLACED_EVENT_TYPE = ''bet_plc''"

section \<open>Repository\<close>

text \<open>\<^verbatim>\<open>data->>'bettor'\<close>.\<close>

fun json_text :: "(json \<Rightarrow> string) \<Rightarrow> json \<Rightarrow> string option" where
  "json_text jsonText JNull = None"
| "json_text jsonText (JStr s) = Some s"
| "json_text jsonText (JNum n) = Some (int_to_string n)"
| "json_text jsonText (JBool b) = Some (if b then ''true'' else ''false'')"
| "json_text jsonText j = Some (jsonText j)"

definition json_get_text :: "(json \<Rightarrow> string) \<Rightarrow> json option \<Rightarrow> string \<Rightarrow> string option" where
  "json_get_text jsonText data k = (case data of
     Some (JObj props) \<Rightarrow> (case map_of props k of None \<Rightarrow> None | Some j \<Rightarrow> json_text jsonText j)
   | _ \<Rightarrow> None)"

text \<open>SQL equality with a NULL on either side is not true.\<close>

definition sql_eq :: "'a option \<Rightarrow> 'a option \<Rightarrow> bool" where
  "sql_eq a b \<longleftrightarrow> a \<noteq> None \<and> a = b"

definition confirmingEventExists :: "(json \<Rightarrow> string) \<Rightarrow> settlement_db \<Rightarrow> prediction_row \<Rightarrow> bool" where
  "confirmingEventExists jsonText db p \<longleftrightarrow>
    list_ex (\<lambda>r. ie_txHash r = p_txHash p \<and> ie_eventType r = BET_PLACED_EVENT_TYPE \<and> ie_canonical r
        \<and> sql_eq (ie_marketId r) (Some (p_marketId p))
        \<and> sql_eq (json_get_text jsonText (ie_data r) ''bettor'')
                 (map_option u_stellarAddress (row_by u_id (sd_users db) (p_userId p))))
      (ix_events (sd_ix db))"

definition confirm_candidate :: "(json \<Rightarrow> string) \<Rightarrow> settlement_db \<Rightarrow> prediction_row \<Rightarrow> bool" where
  "confirm_candidate jsonText db p \<longleftrightarrow>
     p_status p = ''pending'' \<and> p_txHash p \<noteq> [] \<and> confirmingEventExists jsonText db p"

definition findConfirmedCandidateIds :: "(json \<Rightarrow> string) \<Rightarrow> nat \<Rightarrow> settlement_db \<Rightarrow> string list" where
  "findConfirmedCandidateIds jsonText batchSize db =
     take batchSize (remdups (map p_id (filter (confirm_candidate jsonText db) (sd_predictions db))))"

text \<open>The \<^verbatim>\<open>CASE\<close> of the update: the score of a prediction in its market, NULL while it is open.\<close>

definition late_score :: "settlement_db \<Rightarrow> prediction_row \<Rightarrow> string option" where
  "late_score db p = (case row_by m_id (sd_markets db) (p_marketId p) of
     None \<Rightarrow> None
   | Some m \<Rightarrow> (case m_winningOutcome m of
        None \<Rightarrow> None
      | Some w \<Rightarrow> if m_status m = ''resolved'' then Some (if w = p_outcome p then ''won'' else ''lost'') else None))"

definition confirm_row :: "settlement_db \<Rightarrow> prediction_row \<Rightarrow> prediction_row" where
  "confirm_row db p = p\<lparr>p_status := ''confirmed'', p_confirmAttempts := 0, p_lastError := None,
     p_result := (case p_result p of Some r \<Rightarrow> Some r | None \<Rightarrow> late_score db p)\<rparr>"

definition to_confirmed :: "prediction_row \<Rightarrow> confirmed_prediction" where
  "to_confirmed p = \<lparr>cp_id = p_id p, cp_marketId = p_marketId p, cp_userId = p_userId p,
     cp_outcome = p_outcome p, cp_amount = p_amount p, cp_txHash = p_txHash p, cp_status = p_status p\<rparr>"

definition confirmBatch :: "string list \<Rightarrow> settlement_db \<Rightarrow> settlement_db \<times> confirmed_prediction list" where
  "confirmBatch ids db =
    (if ids = [] then (db, [])
     else (set_predictions (update_where (\<lambda>p. p_id p \<in> set ids) (confirm_row db)) db,
           map to_confirmed (returning (\<lambda>p. p_id p \<in> set ids) (confirm_row db) (sd_predictions db))))"

definition unmatched :: "(json \<Rightarrow> string) \<Rightarrow> settlement_db \<Rightarrow> prediction_row \<Rightarrow> bool" where
  "unmatched jsonText db p \<longleftrightarrow>
     p_status p = ''pending'' \<and> p_txHash p \<noteq> [] \<and> \<not> confirmingEventExists jsonText db p"

definition incrementAttempts :: "(json \<Rightarrow> string) \<Rightarrow> int \<Rightarrow> settlement_db \<Rightarrow> settlement_db \<times> int" where
  "incrementAttempts jsonText maxAttempts db =
    (let sel = (\<lambda>p. unmatched jsonText db p \<and> p_confirmAttempts p < maxAttempts)
     in (set_predictions (update_where sel (\<lambda>p. p\<lparr>p_confirmAttempts := p_confirmAttempts p + 1\<rparr>)) db,
         int (length (filter sel (sd_predictions db)))))"

definition failed_message :: "int \<Rightarrow> string" where
  "failed_message maxAttempts =
     ''No matching bet_plc indexer event found after '' @ int_to_string maxAttempts @ '' attempts''"

definition markFailed :: "(json \<Rightarrow> string) \<Rightarrow> int \<Rightarrow> settlement_db \<Rightarrow> settlement_db \<times> string list" where
  "markFailed jsonText maxAttempts db =
    (let sel = (\<lambda>p. unmatched jsonText db p \<and> p_confirmAttempts p \<ge> maxAttempts);
         upd = (\<lambda>p. p\<lparr>p_status := ''failed'', p_lastError := Some (failed_message maxAttempts)\<rparr>)
     in (set_predictions (update_where sel upd) db, map p_id (returning sel upd (sd_predictions db))))"

definition getPredictionsByIds :: "string list \<Rightarrow> settlement_db \<Rightarrow> confirmed_prediction list" where
  "getPredictionsByIds ids db =
    (if ids = [] then [] else map to_confirmed (filter (\<lambda>p. p_id p \<in> set ids) (sd_predictions db)))"

definition transactionalTick ::
  "(json \<Rightarrow> string) \<Rightarrow> nat \<Rightarrow> int \<Rightarrow> settlement_db \<Rightarrow> settlement_db \<times> confirmed_prediction list \<times> int \<times> string list" where
  "transactionalTick jsonText batchSize maxAttempts db =
    (let candidateIds = findConfirmedCandidateIds jsonText batchSize db;
         (db1, confirmed) = confirmBatch candidateIds db;
         (db2, incremented) = incrementAttempts jsonText maxAttempts db1;
         (db3, failedIds) = markFailed jsonText maxAttempts db2
     in (db3, confirmed, incremented, failedIds))"

section \<open>Service\<close>

text \<open>\<open>emit\<close> is the webhook emitter: whether the dispatch for a payload succeeded. The poll returns
  the payloads it emitted for, in order.\<close>

definition webhook_payload :: "confirmed_prediction \<Rightarrow> json_fields" where
  "webhook_payload row = [(''predictionId'', cp_id row), (''marketId'', cp_marketId row), (''userId'', cp_userId row),
     (''outcome'', cp_outcome row), (''amount'', cp_amount row), (''txHash'', cp_txHash row)]"

definition confirmer_pollOnce ::
  "(json \<Rightarrow> string) \<Rightarrow> (string \<Rightarrow> json_fields \<Rightarrow> bool) \<Rightarrow> nat \<Rightarrow> int \<Rightarrow> settlement_db
    \<Rightarrow> settlement_db \<times> poll_result \<times> (string \<times> json_fields) list" where
  "confirmer_pollOnce jsonText emit batchSize maxAttempts db =
    (case transactionalTick jsonText batchSize maxAttempts db of (db', confirmed, incremented, failedIds) \<Rightarrow>
       (let calls = map (\<lambda>row. (''prediction.confirmed'', webhook_payload row)) confirmed;
            confirmedCount = int (length confirmed);
            failedCount = int (length failedIds)
        in (db', \<lparr>pr_processed = confirmedCount + incremented + failedCount, pr_confirmed = confirmedCount,
                  pr_incremented = incremented, pr_failed = failedCount,
                  pr_webhookErrors = int (length (filter (\<lambda>(t, p). \<not> emit t p) calls))\<rparr>, calls)))"

section \<open>A tick, row by row\<close>

lemma set_predictions_simps [simp]:
  "sd_predictions (set_predictions f db) = f (sd_predictions db)"
  "ix_events (sd_ix (set_predictions f db)) = ix_events (sd_ix db)"
  "sd_users (set_predictions f db) = sd_users db"
  "sd_markets (set_predictions f db) = sd_markets db"
  by (simp_all add: set_predictions_def)

lemma exists_set_predictions [simp]:
  "confirmingEventExists jt (set_predictions f db) = confirmingEventExists jt db"
  by (rule ext) (simp add: confirmingEventExists_def)

lemma exists_cong:
  "p_txHash q = p_txHash p \<Longrightarrow> p_marketId q = p_marketId p \<Longrightarrow> p_userId q = p_userId p \<Longrightarrow>
   confirmingEventExists jt db q = confirmingEventExists jt db p"
  by (simp add: confirmingEventExists_def)

lemma unmatched_set_predictions [simp]: "unmatched jt (set_predictions f db) = unmatched jt db"
  by (rule ext) (simp add: unmatched_def)

text \<open>The effect of one tick on one row, given the ids it confirms.\<close>

definition tick_row :: "(json \<Rightarrow> string) \<Rightarrow> int \<Rightarrow> settlement_db \<Rightarrow> string list \<Rightarrow> prediction_row \<Rightarrow> prediction_row" where
  "tick_row jt maxAttempts db ids p =
    (if p_id p \<in> set ids then confirm_row db p
     else if unmatched jt db p
     then (if p_confirmAttempts p + 1 < maxAttempts then p\<lparr>p_confirmAttempts := p_confirmAttempts p + 1\<rparr>
           else p\<lparr>p_confirmAttempts := (if p_confirmAttempts p < maxAttempts then p_confirmAttempts p + 1 else p_confirmAttempts p),
                  p_status := ''failed'', p_lastError := Some (failed_message maxAttempts)\<rparr>)
     else p)"

lemma confirmBatch_rows:
  "sd_predictions (fst (confirmBatch ids db)) = map (\<lambda>p. if p_id p \<in> set ids then confirm_row db p else p) (sd_predictions db)"
  by (simp add: confirmBatch_def update_where_def)

lemma confirmBatch_unmatched [simp]: "unmatched jt (fst (confirmBatch ids db)) = unmatched jt db"
  by (simp add: confirmBatch_def)

lemma confirmed_not_unmatched: "\<not> unmatched jt db (confirm_row db' p)"
  by (simp add: unmatched_def confirm_row_def)

lemma unmatched_attempts [simp]: "unmatched jt db (p\<lparr>p_confirmAttempts := n\<rparr>) = unmatched jt db p"
  by (simp add: unmatched_def exists_cong [of "p\<lparr>p_confirmAttempts := n\<rparr>" p])

lemma tick_rows_fst:
  "sd_predictions (fst (transactionalTick jt batch maxA db)) =
     map (tick_row jt maxA db (findConfirmedCandidateIds jt batch db)) (sd_predictions db)"
  unfolding transactionalTick_def incrementAttempts_def markFailed_def Let_def case_prod_beta
  by (auto simp: confirmBatch_rows update_where_def tick_row_def confirmed_not_unmatched)

lemma tick_frame:
  "sd_users (fst (transactionalTick jt batch maxA db)) = sd_users db"
  "sd_markets (fst (transactionalTick jt batch maxA db)) = sd_markets db"
  "ix_events (sd_ix (fst (transactionalTick jt batch maxA db))) = ix_events (sd_ix db)"
  by (simp_all add: transactionalTick_def incrementAttempts_def markFailed_def confirmBatch_def Let_def case_prod_beta)

lemma candidate_ids_sub:
  "i \<in> set (findConfirmedCandidateIds jt batch db) \<Longrightarrow> \<exists>p \<in> set (sd_predictions db). p_id p = i \<and> confirm_candidate jt db p"
  by (auto simp: findConfirmedCandidateIds_def dest!: in_set_takeD)

lemma candidate_ids_iff:
  assumes "key_unique p_id (sd_predictions db)" and "p \<in> set (sd_predictions db)"
    and "p_id p \<in> set (findConfirmedCandidateIds jt batch db)"
  shows "confirm_candidate jt db p"
  using candidate_ids_sub [OF assms(3)] key_unique_eq [OF assms(1,2)] by metis

lemma candidate_ids_all:
  assumes "length (filter (confirm_candidate jt db) (sd_predictions db)) \<le> batch" and "p \<in> set (sd_predictions db)"
    and "confirm_candidate jt db p"
  shows "p_id p \<in> set (findConfirmedCandidateIds jt batch db)"
proof -
  let ?ids = "map p_id (filter (confirm_candidate jt db) (sd_predictions db))"
  have "length (remdups ?ids) \<le> batch" using assms(1) length_remdups_leq [of ?ids] by simp
  then have "findConfirmedCandidateIds jt batch db = remdups ?ids"
    by (simp add: findConfirmedCandidateIds_def)
  then show ?thesis using assms(2,3) by auto
qed

lemma tick_row_id [simp]: "p_id (tick_row jt maxA db ids p) = p_id p"
  by (simp add: tick_row_def confirm_row_def)

lemma tick_unique:
  "key_unique p_id (sd_predictions (fst (transactionalTick jt batch maxA db))) = key_unique p_id (sd_predictions db)"
  by (simp add: tick_rows_fst key_unique_def comp_def)

lemma tick_length: "length (sd_predictions (fst (transactionalTick jt batch maxA db))) = length (sd_predictions db)"
  by (simp add: tick_rows_fst)

lemma tick_exists [simp]:
  "confirmingEventExists jt (fst (transactionalTick jt batch maxA db)) = confirmingEventExists jt db"
  by (rule ext) (simp add: confirmingEventExists_def tick_frame)

lemma confirmBatch_returned:
  "snd (confirmBatch ids db) = map (to_confirmed \<circ> confirm_row db) (filter (\<lambda>p. p_id p \<in> set ids) (sd_predictions db))"
  by (auto simp: confirmBatch_def returning_def)

lemma tick_confirmed:
  "fst (snd (transactionalTick jt batch maxA db)) =
     map (to_confirmed \<circ> confirm_row db) (filter (\<lambda>p. p_id p \<in> set (findConfirmedCandidateIds jt batch db)) (sd_predictions db))"
  by (simp add: transactionalTick_def Let_def case_prod_beta confirmBatch_returned)

section \<open>Properties\<close>

text \<open>A tick of the confirmer acts on every row alone: it confirms only pending predictions with a
  transaction hash for which a canonical \<^verbatim>\<open>bet_plc\<close> event of the same transaction, market and bettor is
  indexed, at most a batch of them and all of them when they fit, resetting attempts and error and
  scoring the row if its market is resolved and it has no score; a pending prediction with a hash and no such event gets one attempt more
  and fails with the descriptive error once its attempts reach the maximum; every other row, and every
  other table, is unchanged; and the rows returned for webhooks are exactly the confirmed ones.\<close>

lemma tick_rows:
  assumes "key_unique p_id (sd_predictions db)"
    and "transactionalTick jt batch maxA db = (db', confirmed, incremented, failedIds)"
  shows "\<exists>ids. distinct ids \<and> length ids \<le> batch
    \<and> (\<forall>p \<in> set (sd_predictions db). p_id p \<in> set ids \<longrightarrow>
         p_status p = ''pending'' \<and> p_txHash p \<noteq> [] \<and> confirmingEventExists jt db p)
    \<and> (length (filter (\<lambda>p. p_status p = ''pending'' \<and> p_txHash p \<noteq> [] \<and> confirmingEventExists jt db p) (sd_predictions db)) \<le> batch
       \<longrightarrow> (\<forall>p \<in> set (sd_predictions db).
            p_status p = ''pending'' \<and> p_txHash p \<noteq> [] \<and> confirmingEventExists jt db p \<longrightarrow> p_id p \<in> set ids))
    \<and> sd_predictions db' = map (\<lambda>p.
        if p_id p \<in> set ids
        then p\<lparr>p_status := ''confirmed'', p_confirmAttempts := 0, p_lastError := None,
               p_result := (case p_result p of Some r \<Rightarrow> Some r | None \<Rightarrow> late_score db p)\<rparr>
        else if p_status p = ''pending'' \<and> p_txHash p \<noteq> [] \<and> \<not> confirmingEventExists jt db p
        then (if p_confirmAttempts p + 1 < maxA then p\<lparr>p_confirmAttempts := p_confirmAttempts p + 1\<rparr>
              else p\<lparr>p_confirmAttempts := (if p_confirmAttempts p < maxA then p_confirmAttempts p + 1 else p_confirmAttempts p),
                     p_status := ''failed'', p_lastError := Some (failed_message maxA)\<rparr>)
        else p) (sd_predictions db)
    \<and> sd_users db' = sd_users db \<and> sd_markets db' = sd_markets db \<and> ix_events (sd_ix db') = ix_events (sd_ix db)
    \<and> map cp_id confirmed = map p_id (filter (\<lambda>p. p_id p \<in> set ids) (sd_predictions db))"
proof -
  define ids where "ids = findConfirmedCandidateIds jt batch db"
  have db': "db' = fst (transactionalTick jt batch maxA db)" using assms(2) by simp
  have conf: "confirmed = fst (snd (transactionalTick jt batch maxA db))" using assms(2) by simp
  have cand: "confirm_candidate jt db = (\<lambda>p. p_status p = ''pending'' \<and> p_txHash p \<noteq> [] \<and> confirmingEventExists jt db p)"
    by (rule ext) (simp add: confirm_candidate_def)
  have a: "distinct ids \<and> length ids \<le> batch" by (simp add: ids_def findConfirmedCandidateIds_def)
  have b: "\<forall>p \<in> set (sd_predictions db). p_id p \<in> set ids \<longrightarrow> confirm_candidate jt db p"
    using candidate_ids_iff [OF assms(1)] by (simp add: ids_def)
  have c: "length (filter (confirm_candidate jt db) (sd_predictions db)) \<le> batch \<longrightarrow>
      (\<forall>p \<in> set (sd_predictions db). confirm_candidate jt db p \<longrightarrow> p_id p \<in> set ids)"
    using candidate_ids_all by (simp add: ids_def)
  have d: "map cp_id confirmed = map p_id (filter (\<lambda>p. p_id p \<in> set ids) (sd_predictions db))"
    by (simp add: conf tick_confirmed ids_def comp_def to_confirmed_def confirm_row_def)
  have e: "sd_predictions db' = map (tick_row jt maxA db ids) (sd_predictions db)"
    by (simp add: db' tick_rows_fst ids_def)
  show ?thesis
    using a b c d e tick_frame [of jt batch maxA db]
    unfolding cand tick_row_def confirm_row_def unmatched_def db'
    by (intro exI [of _ ids]) blast
qed

subsection \<open>Giving up\<close>

definition tick_step :: "(json \<Rightarrow> string) \<Rightarrow> nat \<Rightarrow> int \<Rightarrow> settlement_db \<Rightarrow> settlement_db" where
  "tick_step jt batch maxA db = fst (transactionalTick jt batch maxA db)"

lemma ticks_frame:
  "confirmingEventExists jt ((tick_step jt batch maxA ^^ n) db) = confirmingEventExists jt db
   \<and> key_unique p_id (sd_predictions ((tick_step jt batch maxA ^^ n) db)) = key_unique p_id (sd_predictions db)
   \<and> length (sd_predictions ((tick_step jt batch maxA ^^ n) db)) = length (sd_predictions db)"
  by (induction n) (simp_all add: tick_step_def tick_unique tick_length)

lemma tick_nth:
  assumes "key_unique p_id (sd_predictions db)" and "i < length (sd_predictions db)"
    and "p = sd_predictions db ! i" and "\<not> confirmingEventExists jt db p"
  shows "sd_predictions (tick_step jt batch maxA db) ! i = tick_row jt maxA db [] p"
proof -
  have "p \<in> set (sd_predictions db)" using assms(2,3) by simp
  then have "p_id p \<notin> set (findConfirmedCandidateIds jt batch db)"
    using candidate_ids_iff [OF assms(1)] assms(4) by (auto simp: confirm_candidate_def)
  then show ?thesis using assms(2,3) by (simp add: tick_step_def tick_rows_fst tick_row_def)
qed

lemma unmatched_ticks:
  assumes "key_unique p_id (sd_predictions db)" and "i < length (sd_predictions db)"
    and "p = sd_predictions db ! i" and "unmatched jt db p" and "p_confirmAttempts p = 0" and "1 \<le> maxA"
  shows "sd_predictions ((tick_step jt batch maxA ^^ n) db) ! i =
    (if int n < maxA then p\<lparr>p_confirmAttempts := int n\<rparr>
     else p\<lparr>p_confirmAttempts := maxA, p_status := ''failed'', p_lastError := Some (failed_message maxA)\<rparr>)"
proof (induction n)
  case 0
  then show ?case using assms by simp
next
  case (Suc n)
  let ?db = "(tick_step jt batch maxA ^^ n) db" and ?q = "sd_predictions ((tick_step jt batch maxA ^^ n) db) ! i"
  note frame = ticks_frame [where jt = jt and batch = batch and maxA = maxA and n = n and db = db]
  have noev: "\<not> confirmingEventExists jt ?db ?q"
    using assms(4) exists_cong [of ?q p jt db] frame Suc.IH by (simp add: unmatched_def split: if_splits)
  have "sd_predictions (tick_step jt batch maxA ?db) ! i = tick_row jt maxA ?db [] ?q"
    using frame assms(1,2) noev by (intro tick_nth) simp_all
  moreover have "unmatched jt ?db ?q = (int n < maxA)"
    using Suc.IH noev assms(4) by (auto simp: unmatched_def)
  ultimately show ?case using Suc.IH by (auto simp: tick_row_def)
qed

text \<open>A prediction without an event is given up at the right time: if a pending prediction with a
  transaction hash and no attempts never gets a matching event, then with a maximum of at least one
  it is still pending with \<open>n\<close> attempts after \<open>n\<close> ticks for every \<open>n\<close> below the maximum, and from the
  tick at the maximum on it is failed with the error message, whatever the other rows do.\<close>

lemma unmatched_fails_at_max:
  assumes "key_unique p_id (sd_predictions db)" and "i < length (sd_predictions db)"
    and "p = sd_predictions db ! i" and "p_status p = ''pending''" and "p_txHash p \<noteq> []"
    and "\<not> confirmingEventExists jt db p" and "p_confirmAttempts p = 0" and "1 \<le> maxA"
  shows "sd_predictions (((\<lambda>d. fst (transactionalTick jt batch maxA d)) ^^ n) db) ! i =
    (if int n < maxA then p\<lparr>p_confirmAttempts := int n\<rparr>
     else p\<lparr>p_confirmAttempts := maxA, p_status := ''failed'',
            p_lastError := Some (''No matching bet_plc indexer event found after '' @ int_to_string maxA @ '' attempts'')\<rparr>)"
proof -
  have "unmatched jt db p" using assms(4-6) by (simp add: unmatched_def)
  from unmatched_ticks [OF assms(1-3) this assms(7,8), where batch = batch and n = n]
  show ?thesis by (simp add: tick_step_def [abs_def] failed_message_def)
qed

definition demo_bet_row :: indexer_event_row where
  "demo_bet_row = \<lparr>ie_id = ''e'', ie_ledger = 9, ie_txHash = ''T'', ie_txApplicationOrder = 1, ie_opIndex = 0,
     ie_eventIndex = 0, ie_eventType = ''bet_plc'', ie_createdAt = 0, ie_marketId = Some ''m'',
     ie_data = Some (JObj [(''bettor'', JStr ''GA'')]), ie_canonical = True\<rparr>"

definition demo_pending :: "string \<Rightarrow> string \<Rightarrow> prediction_row" where
  "demo_pending i h = (demo_prediction ''pending'')\<lparr>p_id := i, p_txHash := h\<rparr>"

definition demo_settlement :: settlement_db where
  "demo_settlement = \<lparr>sd_ix = \<lparr>ix_events = [demo_bet_row],
       ix_predictions = [demo_pending ''p1'' ''T'', demo_pending ''p2'' ''U''], ix_reorgs = [], ix_cursor = []\<rparr>,
     sd_users = [\<lparr>u_id = ''u'', u_stellarAddress = ''GA'', u_createdAt = 0\<rparr>], sd_markets = []\<rparr>"

lemma demo_settlement_unique: "key_unique p_id (sd_predictions demo_settlement)"
  by (simp add: demo_settlement_def key_unique_def demo_pending_def demo_prediction_def)

lemma tick_rows_witness:
  "map cp_id (fst (snd (transactionalTick (\<lambda>_. []) 10 3 demo_settlement))) = [''p1'']"
proof -
  obtain db' c n f where t: "transactionalTick (\<lambda>_. []) 10 3 demo_settlement = (db', c, n, f)"
    using prod_cases4 by blast
  have "length c = 1"
  proof -
    have "length (fst (snd (transactionalTick (\<lambda>_. []) 10 3 demo_settlement))) = 1" by code_simp
    then show ?thesis by (simp add: t)
  qed
  moreover from tick_rows [OF demo_settlement_unique t] obtain ids
    where ids: "map cp_id c = map p_id (filter (\<lambda>p. p_id p \<in> set ids) (sd_predictions demo_settlement))"
      "\<forall>p \<in> set (sd_predictions demo_settlement). p_id p \<in> set ids \<longrightarrow> confirmingEventExists (\<lambda>_. []) demo_settlement p"
    by blast
  have "\<not> confirmingEventExists (\<lambda>_. []) demo_settlement (demo_pending ''p2'' ''U'')" by code_simp
  with ids(2) have "''p2'' \<notin> set ids"
    by (auto simp: demo_settlement_def demo_pending_def demo_prediction_def)
  ultimately show ?thesis using ids(1) t
    by (auto simp: demo_settlement_def demo_pending_def demo_prediction_def split: if_splits)
qed

lemma unmatched_fails_at_max_witness:
  "p_status (sd_predictions (((\<lambda>d. fst (transactionalTick (\<lambda>_. []) 10 3 d)) ^^ 3) demo_settlement) ! 1) = ''failed''"
proof -
  have "sd_predictions demo_settlement ! 1 = demo_pending ''p2'' ''U''" by (simp add: demo_settlement_def)
  moreover have "\<not> confirmingEventExists (\<lambda>_. []) demo_settlement (demo_pending ''p2'' ''U'')" by code_simp
  ultimately show ?thesis
    using unmatched_fails_at_max [OF demo_settlement_unique, where i = 1 and p = "demo_pending ''p2'' ''U''"
        and jt = "\<lambda>_. []" and maxA = 3 and batch = 10 and n = 3]
    by (simp add: demo_settlement_def demo_pending_def demo_prediction_def)
qed

end
