(* ===== verification/Oracle_Guard.thy ===== *)
theory Oracle_Guard
  imports Complex_Main Indexer_Recovery
begin

text \<open>
  The oracle admission policy of \<^verbatim>\<open>src/services/oracleSettlementGuard.ts\<close>. Prices are JavaScript
  numbers: \<open>Fin q\<close> for a finite one, \<open>NotFinite\<close> for NaN and the infinities. Median and deviation are
  computed exactly on rationals; the rounding of double arithmetic is not modelled. Times and policy
  values are integers, which the code requires of them.

  \<open>accepted_within_policy\<close> states what an accepted snapshot guarantees.
\<close>

datatype js_num = Fin rat | NotFinite

record oracle_price =
  op_source :: string
  op_price :: js_num
  op_observedAt :: int

record oracle_snapshot =
  os_marketId :: string
  os_prices :: "oracle_price list"
  os_fallback :: "oracle_price option"

record oracle_policy =
  maxAgeSeconds :: int
  minSources :: int
  maxDeviationBps :: int
  maxClockSkewSeconds :: int
  allowFallback :: bool

definition DEFAULT_ORACLE_SETTLEMENT_POLICY :: oracle_policy where
  "DEFAULT_ORACLE_SETTLEMENT_POLICY = \<lparr>maxAgeSeconds = 120, minSources = 3, maxDeviationBps = 100,
     maxClockSkewSeconds = 5, allowFallback = False\<rparr>"

datatype oracle_rejection_reason =
    market_mismatch | missing_prices | invalid_price | duplicate_source | stale_price | future_price
  | quorum_not_reached | deviation_exceeded | fallback_disabled | fallback_invalid

record oracle_rejection =
  rj_reason :: oracle_rejection_reason
  rj_message :: string
  rj_marketId :: string
  rj_sourceCount :: int
  rj_observedAt :: "int option"

record oracle_acceptance =
  ac_marketId :: string
  ac_price :: rat
  ac_sourceCount :: int
  ac_sources :: "string list"
  ac_observedAt :: int
  ac_usedFallback :: bool

datatype oracle_decision = Accepted oracle_acceptance | RejectedBy oracle_rejection

definition reject :: "oracle_rejection_reason \<Rightarrow> string \<Rightarrow> oracle_snapshot \<Rightarrow> nat \<Rightarrow> int option \<Rightarrow> oracle_decision" where
  "reject reason message snapshot sourceCount observedAt =
     RejectedBy \<lparr>rj_reason = reason, rj_message = message, rj_marketId = os_marketId snapshot,
       rj_sourceCount = int sourceCount, rj_observedAt = observedAt\<rparr>"

text \<open>\<^verbatim>\<open>/^[A-Za-z0-9._:-]{1,64}$/\<close>.\<close>

definition source_char :: "char \<Rightarrow> bool" where
  "source_char c \<longleftrightarrow> (let n = of_char c :: nat in
     65 \<le> n \<and> n \<le> 90 \<or> 97 \<le> n \<and> n \<le> 122 \<or> 48 \<le> n \<and> n \<le> 57 \<or> c \<in> {CHR ''.'', CHR ''_'', CHR '':'', CHR ''-''})"

definition validatePrice :: "oracle_price \<Rightarrow> oracle_rejection_reason option" where
  "validatePrice price =
    (if \<not> (1 \<le> length (op_source price) \<and> length (op_source price) \<le> 64 \<and> list_all source_char (op_source price))
     then Some invalid_price
     else if (case op_price price of NotFinite \<Rightarrow> True | Fin q \<Rightarrow> q \<le> 0) then Some invalid_price
     else if \<not> safe_integer (op_observedAt price) \<or> op_observedAt price < 0 then Some invalid_price
     else None)"

definition normalizePolicy :: "oracle_policy \<Rightarrow> string + oracle_policy" where
  "normalizePolicy policy =
    (if \<not> safe_integer (maxAgeSeconds policy) \<or> maxAgeSeconds policy \<le> 0 then Inl ''maxAgeSeconds must be positive''
     else if \<not> safe_integer (minSources policy) \<or> minSources policy \<le> 0 then Inl ''minSources must be positive''
     else if \<not> safe_integer (maxDeviationBps policy) \<or> maxDeviationBps policy < 0 \<or> maxDeviationBps policy > 10000
     then Inl ''maxDeviationBps must be 0..10000''
     else if \<not> safe_integer (maxClockSkewSeconds policy) \<or> maxClockSkewSeconds policy < 0
     then Inl ''maxClockSkewSeconds must be non-negative''
     else Inr policy)"

definition medianPrice :: "rat list \<Rightarrow> string + rat" where
  "medianPrice values =
    (if values = [] then Inl ''cannot calculate median of an empty set''
     else (let sorted_v = sort values; middle = length values div 2
           in Inr (if length values mod 2 = 1 then sorted_v ! middle
                   else (sorted_v ! (middle - 1) + sorted_v ! middle) / 2)))"

text \<open>\<open>None\<close> is \<^verbatim>\<open>Number.POSITIVE_INFINITY\<close>.\<close>

definition deviationBps :: "rat \<Rightarrow> rat \<Rightarrow> rat option" where
  "deviationBps val reference = (if reference \<le> 0 then None else Some (\<bar>val - reference\<bar> / reference * 10000))"

definition price_value :: "oracle_price \<Rightarrow> rat" where
  "price_value p = (case op_price p of Fin q \<Rightarrow> q | NotFinite \<Rightarrow> 0)"

definition evaluateFallback ::
  "oracle_snapshot \<Rightarrow> int \<Rightarrow> oracle_policy \<Rightarrow> string list \<Rightarrow> nat \<Rightarrow> oracle_decision" where
  "evaluateFallback snapshot now policy knownSources validCount =
    (if \<not> allowFallback policy
     then reject quorum_not_reached
            (''oracle quorum requires '' @ int_to_string (minSources policy) @ '' fresh sources'') snapshot validCount None
     else (case os_fallback snapshot of
        None \<Rightarrow> reject fallback_invalid ''fallback must be a distinct explicitly supplied source'' snapshot validCount None
      | Some fb \<Rightarrow>
          if op_source fb \<in> set knownSources
          then reject fallback_invalid ''fallback must be a distinct explicitly supplied source'' snapshot validCount None
          else if validatePrice fb \<noteq> None \<or> op_observedAt fb > now + maxClockSkewSeconds policy
                  \<or> now - op_observedAt fb > maxAgeSeconds policy
          then reject fallback_invalid ''fallback price is invalid or outside its freshness window'' snapshot validCount None
          else Accepted \<lparr>ac_marketId = os_marketId snapshot, ac_price = price_value fb, ac_sourceCount = 1,
                 ac_sources = [op_source fb], ac_observedAt = op_observedAt fb, ac_usedFallback = True\<rparr>))"

text \<open>The loop over the prices: a rejection, or the source names seen and the fresh prices.\<close>

fun price_loop ::
  "oracle_snapshot \<Rightarrow> int \<Rightarrow> oracle_policy \<Rightarrow> string list \<Rightarrow> oracle_price list \<Rightarrow> oracle_price list
    \<Rightarrow> oracle_decision + (string list \<times> oracle_price list)" where
  "price_loop snapshot now policy names valid [] = Inr (names, valid)"
| "price_loop snapshot now policy names valid (price # rest) =
    (case validatePrice price of
       Some structural \<Rightarrow> Inl (reject structural ''oracle price failed validation'' snapshot (length valid) None)
     | None \<Rightarrow>
         if op_source price \<in> set names
         then Inl (reject duplicate_source ''oracle sources must be unique'' snapshot (length valid) None)
         else if op_observedAt price > now + maxClockSkewSeconds policy
         then Inl (reject future_price ''oracle observation is from the future'' snapshot (length valid) (Some (op_observedAt price)))
         else if now - op_observedAt price > maxAgeSeconds policy
         then price_loop snapshot now policy (op_source price # names) valid rest
         else price_loop snapshot now policy (op_source price # names) (valid @ [price]) rest)"

definition exceeds :: "rat option \<Rightarrow> int \<Rightarrow> bool" where
  "exceeds d bound = (case d of None \<Rightarrow> True | Some q \<Rightarrow> q > of_int bound)"

text \<open>\<^verbatim>\<open>sort()\<close> of strings compares their code units.\<close>

fun string_less_eq :: "string \<Rightarrow> string \<Rightarrow> bool" where
  "string_less_eq [] _ = True"
| "string_less_eq (_ # _) [] = False"
| "string_less_eq (a # as) (b # bs) =
     (if of_char a < (of_char b :: nat) then True else if a = b then string_less_eq as bs else False)"

definition sort_strings :: "string list \<Rightarrow> string list" where
  "sort_strings xs = js_sort (\<lambda>a b. if string_less_eq a b then 0 else 1) xs"

definition evaluateOracleSnapshot ::
  "oracle_snapshot \<Rightarrow> int \<Rightarrow> oracle_policy \<Rightarrow> string option \<Rightarrow> string + oracle_decision" where
  "evaluateOracleSnapshot snapshot now policy expectedMarketId =
    (case normalizePolicy policy of
       Inl m \<Rightarrow> Inl m
     | Inr normalized \<Rightarrow>
         if (case expectedMarketId of None \<Rightarrow> False | Some e \<Rightarrow> os_marketId snapshot \<noteq> e)
         then Inr (reject market_mismatch ''oracle snapshot belongs to a different market'' snapshot 0 None)
         else if \<not> safe_integer now \<or> now < 0
         then Inr (reject future_price ''settlement clock is invalid'' snapshot 0 None)
         else if os_prices snapshot = []
         then Inr (reject missing_prices ''no oracle prices were supplied'' snapshot 0 None)
         else (case price_loop snapshot now normalized [] [] (os_prices snapshot) of
            Inl rejection \<Rightarrow> Inr rejection
          | Inr (sourceNames, valid) \<Rightarrow>
              if int (length valid) < minSources normalized
              then Inr (evaluateFallback snapshot now normalized sourceNames (length valid))
              else (case medianPrice (map price_value valid) of
                 Inl m \<Rightarrow> Inl m
               | Inr median \<Rightarrow>
                   (case find (\<lambda>item. exceeds (deviationBps (price_value item) median) (maxDeviationBps normalized)) valid of
                      Some outlier \<Rightarrow> Inr (reject deviation_exceeded
                        ''oracle prices exceed the configured deviation boundary'' snapshot (length valid) (Some (op_observedAt outlier)))
                    | None \<Rightarrow> Inr (Accepted \<lparr>ac_marketId = os_marketId snapshot, ac_price = median,
                        ac_sourceCount = int (length valid), ac_sources = sort_strings (map op_source valid),
                        ac_observedAt = (case map op_observedAt valid of [] \<Rightarrow> 0 | t # ts \<Rightarrow> fold min ts t),
                        ac_usedFallback = False\<rparr>)))))"

section \<open>What acceptance means\<close>

definition fresh :: "oracle_policy \<Rightarrow> int \<Rightarrow> oracle_price \<Rightarrow> bool" where
  "fresh policy now p \<longleftrightarrow> validatePrice p = None \<and> op_observedAt p \<le> now + maxClockSkewSeconds policy
     \<and> now - op_observedAt p \<le> maxAgeSeconds policy"

lemma price_loop_Inr:
  assumes "price_loop snapshot now policy names valid prices = Inr (names', valid')"
    and "\<forall>p \<in> set valid. fresh policy now p" and "distinct (map op_source valid)"
    and "op_source ` set valid \<subseteq> set names"
  shows "valid' = valid @ filter (fresh policy now) prices \<and> distinct (map op_source valid')
    \<and> set names' = set names \<union> op_source ` set prices"
  using assms
proof (induction snapshot now policy names valid prices rule: price_loop.induct)
  case (2 snapshot now policy names valid price rest)
  show ?case
  proof (cases "now - op_observedAt price > maxAgeSeconds policy")
    case True
    with 2 have "price_loop snapshot now policy (op_source price # names) valid rest = Inr (names', valid')"
      by (auto split: option.splits if_splits)
    from 2(1) [OF _ _ _ True this] 2(3-6) True show ?thesis
      by (auto simp: fresh_def split: option.splits if_splits)
  next
    case False
    with 2 have loop: "price_loop snapshot now policy (op_source price # names) (valid @ [price]) rest = Inr (names', valid')"
      and fr: "fresh policy now price" and new: "op_source price \<notin> set names"
      by (auto simp: fresh_def split: option.splits if_splits)
    from 2(2) [OF _ _ _ False loop] 2(3-6) fr new False show ?thesis
      by (auto simp: fresh_def)
  qed
qed simp

lemma median_between:
  assumes "medianPrice vs = Inr m" and "v \<in> set vs"
  shows "m \<le> Max (set vs) \<and> Min (set vs) \<le> m"
proof -
  have ne: "vs \<noteq> []" using assms by auto
  then have len: "length vs div 2 < length vs" by (cases vs) auto
  have "sort vs ! i \<in> set vs" if "i < length vs" for i
    using that by (metis length_sort nth_mem set_sort)
  then have bound: "Min (set vs) \<le> sort vs ! i \<and> sort vs ! i \<le> Max (set vs)" if "i < length vs" for i
    using that by simp
  have "length vs div 2 - 1 < length vs" using len by linarith
  with bound [OF len] bound [of "length vs div 2 - 1"] assms(1) ne show ?thesis
    by (auto simp: medianPrice_def Let_def field_simps split: if_splits)
qed

lemma deviation_bound:
  assumes "\<not> exceeds (deviationBps v m) b"
  shows "0 < m \<and> \<bar>v - m\<bar> * 10000 \<le> of_int b * m"
  using assms by (auto simp: exceeds_def deviationBps_def field_simps split: if_splits)

text \<open>C27. What an accepted oracle snapshot guarantees: the policy is well formed and the snapshot is for
  the expected market. Without fallback, the fresh prices (valid, from distinct sources, neither older
  than the maximal age nor further in the future than the allowed skew) reach the required number,
  the reported price lies between the smallest and the largest of them, and every one of them is
  within the configured deviation of it. With fallback, the policy allows it, fewer fresh prices than
  required were supplied, and the price is that of a fresh fallback from a source not among them.\<close>

theorem accepted_within_policy:
  assumes "evaluateOracleSnapshot snapshot now policy (Some mid) = Inr (Accepted a)"
  shows "os_marketId snapshot = mid \<and> ac_marketId a = mid \<and> normalizePolicy policy = Inr policy
    \<and> distinct (map op_source (filter (fresh policy now) (os_prices snapshot)))
    \<and> (\<not> ac_usedFallback a \<longrightarrow>
         minSources policy \<le> ac_sourceCount a
         \<and> ac_sourceCount a = int (length (filter (fresh policy now) (os_prices snapshot)))
         \<and> Min (price_value ` set (filter (fresh policy now) (os_prices snapshot))) \<le> ac_price a
         \<and> ac_price a \<le> Max (price_value ` set (filter (fresh policy now) (os_prices snapshot)))
         \<and> (\<forall>p \<in> set (filter (fresh policy now) (os_prices snapshot)).
              \<bar>price_value p - ac_price a\<bar> * 10000 \<le> of_int (maxDeviationBps policy) * ac_price a))
    \<and> (ac_usedFallback a \<longrightarrow> allowFallback policy
         \<and> int (length (filter (fresh policy now) (os_prices snapshot))) < minSources policy
         \<and> (\<exists>fb. os_fallback snapshot = Some fb \<and> fresh policy now fb \<and> ac_price a = price_value fb
              \<and> op_source fb \<notin> op_source ` set (os_prices snapshot)))"
proof -
  have norm: "normalizePolicy policy = Inr policy"
    using assms by (auto simp: evaluateOracleSnapshot_def normalizePolicy_def split: sum.splits if_splits)
  have mid: "os_marketId snapshot = mid"
    using assms by (auto simp: evaluateOracleSnapshot_def norm reject_def split: if_splits)
  obtain names valid where loop: "price_loop snapshot now policy [] [] (os_prices snapshot) = Inr (names, valid)"
  proof -
    have "price_loop snapshot now policy names valid ps = Inl d \<Longrightarrow> \<exists>r. d = RejectedBy r" for names valid ps d
      by (induction snapshot now policy names valid ps rule: price_loop.induct)
        (auto simp: reject_def split: option.splits if_splits)
    then show ?thesis using assms that
      by (fastforce simp: evaluateOracleSnapshot_def norm reject_def split: sum.splits if_splits)
  qed
  have all: "valid = [] @ filter (fresh policy now) (os_prices snapshot) \<and> distinct (map op_source valid)
    \<and> set names = set [] \<union> op_source ` set (os_prices snapshot)"
    by (rule price_loop_Inr [OF loop]) simp_all
  then have valid: "valid = filter (fresh policy now) (os_prices snapshot)" by simp
  from all have dist: "distinct (map op_source valid)" by blast
  from all have names: "set names = op_source ` set (os_prices snapshot)" by simp
  show ?thesis
  proof (cases "int (length valid) < minSources policy")
    case True
    with assms have "evaluateFallback snapshot now policy names (length valid) = Accepted a"
      by (auto simp: evaluateOracleSnapshot_def norm loop reject_def split: if_splits)
    with True norm mid dist names show ?thesis unfolding valid [symmetric]
      by (auto simp: evaluateFallback_def reject_def fresh_def split: if_splits option.splits)
  next
    case False
    have pos: "0 < minSources policy" using norm by (auto simp: normalizePolicy_def split: if_splits)
    with False have ne: "valid \<noteq> []" by auto
    obtain m where m: "medianPrice (map price_value valid) = Inr m" using ne by (simp add: medianPrice_def Let_def)
    have ok: "find (\<lambda>item. exceeds (deviationBps (price_value item) m) (maxDeviationBps policy)) valid = None"
      and a: "ac_price a = m" "ac_sourceCount a = int (length valid)" "\<not> ac_usedFallback a" "ac_marketId a = mid"
      using assms False mid
      by (auto simp: evaluateOracleSnapshot_def norm loop reject_def m split: if_splits option.splits)
    have dev: "\<bar>price_value p - m\<bar> * 10000 \<le> of_int (maxDeviationBps policy) * m" if "p \<in> set valid" for p
      using ok that deviation_bound by (auto simp: find_None_iff)
    have "price_value (hd valid) \<in> set (map price_value valid)" using ne by simp
    from median_between [OF m this] have "m \<le> Max (price_value ` set valid)" "Min (price_value ` set valid) \<le> m"
      by simp_all
    with False norm mid dist a dev show ?thesis unfolding valid [symmetric] by simp
  qed
qed

definition demo_price :: "string \<Rightarrow> rat \<Rightarrow> oracle_price" where
  "demo_price s q = \<lparr>op_source = s, op_price = Fin q, op_observedAt = 1000\<rparr>"

definition demo_snapshot :: oracle_snapshot where
  "demo_snapshot = \<lparr>os_marketId = ''m'', os_prices = [demo_price ''a'' 100, demo_price ''b'' 101, demo_price ''c'' 100],
     os_fallback = None\<rparr>"

lemma demo_snapshot_accepted:
  "evaluateOracleSnapshot demo_snapshot 1010 DEFAULT_ORACLE_SETTLEMENT_POLICY (Some ''m'') =
    Inr (Accepted \<lparr>ac_marketId = ''m'', ac_price = 100, ac_sourceCount = 3, ac_sources = [''a'', ''b'', ''c''],
      ac_observedAt = 1000, ac_usedFallback = False\<rparr>)"
  by code_simp

theorem accepted_within_policy_witness:
  "minSources DEFAULT_ORACLE_SETTLEMENT_POLICY \<le> 3 \<and> os_marketId demo_snapshot = ''m''"
  using accepted_within_policy [OF demo_snapshot_accepted] by simp

end
