(* ===== verification/Market_Resolution.thy ===== *)
theory Market_Resolution
  imports Predictions_Confirmer Oracle_Guard Webhook_Queue
begin

text \<open>
  Market resolution, \<^verbatim>\<open>src/services/marketResolutionService.ts\<close>: the atomic resolution of the Drizzle
  repository, the subscriber query, the event handler and the entry point guarded by the oracle
  policy. Webhook deliveries are the list of signed requests; HMAC, the JSON serialiser and the HTTP
  outcome are arguments. The contract \<^verbatim>\<open>MarketResolutionRepo\<close> promises its client is the locale
  \<open>resolution_repo\<close>; the Drizzle repository interprets it.

  \<^item> \<open>resolve_once\<close>: replayed and conflicting events never resolve a market twice.
  \<^item> \<open>oracle_gate\<close>: a refused oracle snapshot changes nothing.
\<close>

record market_resolved_event =
  mre_marketId :: string
  mre_winningOutcome :: string
  mre_ledger :: int
  mre_timestamp :: int

section \<open>The Drizzle repository\<close>

definition score_open :: "string \<Rightarrow> prediction_row \<Rightarrow> bool" where
  "score_open marketId p \<longleftrightarrow> p_marketId p = marketId \<and> p_status p = ''confirmed'' \<and> p_result p = None"

definition score_row :: "string \<Rightarrow> prediction_row \<Rightarrow> prediction_row" where
  "score_row winningOutcome p = p\<lparr>p_result := Some (if p_outcome p = winningOutcome then ''won'' else ''lost'')\<rparr>"

definition atomicResolve :: "string \<Rightarrow> string \<Rightarrow> settlement_db \<Rightarrow> settlement_db \<times> bool" where
  "atomicResolve marketId winningOutcome db = (case row_by m_id (sd_markets db) marketId of
     None \<Rightarrow> (db, False)
   | Some market \<Rightarrow>
       if m_status market = ''resolved'' then (db, False)
       else (set_predictions (update_where (score_open marketId) (score_row winningOutcome))
               (db\<lparr>sd_markets := update_where (\<lambda>m. m_id m = marketId)
                  (\<lambda>m. m\<lparr>m_status := ''resolved'', m_winningOutcome := Some winningOutcome\<rparr>) (sd_markets db)\<rparr>),
             True))"

definition fetchWebhookSubscribers :: "string \<Rightarrow> subscription_row table \<Rightarrow> (string \<times> string) list" where
  "fetchWebhookSubscribers event subs =
     map (\<lambda>s. (s_url s, s_secret s))
       (filter (\<lambda>s. case s_events s of None \<Rightarrow> False | Some evs \<Rightarrow> event \<in> set evs) subs)"

section \<open>The service\<close>

record signed_post =
  sp_url :: string
  sp_signature :: string
  sp_body :: string

definition httpWebhookEmitter ::
  "(string \<Rightarrow> string \<Rightarrow> string) \<Rightarrow> (market_resolved_event \<Rightarrow> string) \<Rightarrow> string \<times> string \<Rightarrow> market_resolved_event \<Rightarrow> signed_post" where
  "httpWebhookEmitter hmac serialize subscriber payload =
    (let body = serialize payload
     in \<lparr>sp_url = fst subscriber, sp_signature = ''sha256='' @ hmac (snd subscriber) body, sp_body = body\<rparr>)"

text \<open>The handler over any repository operation \<open>resolve\<close>: the state, whether it was processed, and the
  requests sent. A failed delivery is logged and changes nothing, so the HTTP outcomes do not appear.\<close>

definition resolveMarket_with ::
  "(string \<Rightarrow> string \<Rightarrow> 'db \<Rightarrow> 'db \<times> bool) \<Rightarrow> (string \<Rightarrow> string \<Rightarrow> string) \<Rightarrow> (market_resolved_event \<Rightarrow> string)
    \<Rightarrow> subscription_row table \<Rightarrow> market_resolved_event \<Rightarrow> 'db \<Rightarrow> 'db \<times> bool \<times> signed_post list" where
  "resolveMarket_with resolve hmac serialize subs event db =
    (case resolve (mre_marketId event) (mre_winningOutcome event) db of
       (db', False) \<Rightarrow> (db', False, [])
     | (db', True) \<Rightarrow> (db', True, map (\<lambda>s. httpWebhookEmitter hmac serialize s event)
                                  (fetchWebhookSubscribers ''market.resolved'' subs)))"

definition resolveMarket ::
  "(string \<Rightarrow> string \<Rightarrow> string) \<Rightarrow> (market_resolved_event \<Rightarrow> string) \<Rightarrow> subscription_row table \<Rightarrow> market_resolved_event
    \<Rightarrow> settlement_db \<Rightarrow> settlement_db \<times> bool \<times> signed_post list" where
  "resolveMarket = resolveMarket_with atomicResolve"

text \<open>\<^verbatim>\<open>OracleRejectionReason\<close> values print as themselves.\<close>

fun reason_text :: "oracle_rejection_reason \<Rightarrow> string" where
  "reason_text market_mismatch = ''market_mismatch''"
| "reason_text missing_prices = ''missing_prices''"
| "reason_text invalid_price = ''invalid_price''"
| "reason_text duplicate_source = ''duplicate_source''"
| "reason_text stale_price = ''stale_price''"
| "reason_text future_price = ''future_price''"
| "reason_text quorum_not_reached = ''quorum_not_reached''"
| "reason_text deviation_exceeded = ''deviation_exceeded''"
| "reason_text fallback_disabled = ''fallback_disabled''"
| "reason_text fallback_invalid = ''fallback_invalid''"

definition resolveMarketWithOracle ::
  "(string \<Rightarrow> string \<Rightarrow> string) \<Rightarrow> (market_resolved_event \<Rightarrow> string) \<Rightarrow> subscription_row table \<Rightarrow> market_resolved_event
    \<Rightarrow> oracle_snapshot \<Rightarrow> oracle_policy \<Rightarrow> settlement_db
    \<Rightarrow> settlement_db \<times> (string + (bool \<times> rat)) \<times> signed_post list" where
  "resolveMarketWithOracle hmac serialize subs event oracle policy db =
    (case evaluateOracleSnapshot oracle (mre_timestamp event) policy (Some (mre_marketId event)) of
       Inl m \<Rightarrow> (db, Inl m, [])
     | Inr (RejectedBy r) \<Rightarrow> (db, Inl (''oracle_settlement_rejected:'' @ reason_text (rj_reason r)), [])
     | Inr (Accepted a) \<Rightarrow> (case resolveMarket hmac serialize subs event db of
          (db', processed, posts) \<Rightarrow> (db', Inr (processed, ac_price a), posts)))"

text \<open>A stream of events through the handler: the outcomes and all requests.\<close>

fun resolve_all ::
  "(string \<Rightarrow> string \<Rightarrow> 'db \<Rightarrow> 'db \<times> bool) \<Rightarrow> (string \<Rightarrow> string \<Rightarrow> string) \<Rightarrow> (market_resolved_event \<Rightarrow> string)
    \<Rightarrow> subscription_row table \<Rightarrow> market_resolved_event list \<Rightarrow> 'db \<Rightarrow> 'db \<times> bool list \<times> signed_post list" where
  "resolve_all resolve hmac serialize subs [] db = (db, [], [])"
| "resolve_all resolve hmac serialize subs (e # es) db =
    (case resolveMarket_with resolve hmac serialize subs e db of (db1, b, posts) \<Rightarrow>
     (case resolve_all resolve hmac serialize subs es db1 of (db2, bs, rest) \<Rightarrow> (db2, b # bs, posts @ rest)))"

text \<open>The markets of the events that were processed.\<close>

definition processed_markets :: "market_resolved_event list \<Rightarrow> bool list \<Rightarrow> string list" where
  "processed_markets es bs = map mre_marketId (map fst (filter snd (zip es bs)))"

lemma processed_markets_simps [simp]:
  "processed_markets [] bs = []"
  "processed_markets (e # es) (b # bs) = (if b then mre_marketId e # processed_markets es bs else processed_markets es bs)"
  by (simp_all add: processed_markets_def)

section \<open>The contract of a resolution repository\<close>

locale resolution_repo =
  fixes resolve :: "string \<Rightarrow> string \<Rightarrow> 'db \<Rightarrow> 'db \<times> bool"
    and known :: "'db \<Rightarrow> string \<Rightarrow> bool"
    and resolved :: "'db \<Rightarrow> string \<Rightarrow> bool"
    and outcome :: "'db \<Rightarrow> string \<Rightarrow> string option"
  assumes resolve_open: "known db m \<Longrightarrow> \<not> resolved db m \<Longrightarrow> snd (resolve m w db)
        \<and> resolved (fst (resolve m w db)) m \<and> outcome (fst (resolve m w db)) m = Some w"
    and resolve_noop: "resolved db m \<or> \<not> known db m \<Longrightarrow> resolve m w db = (db, False)"
    and resolve_frame: "n \<noteq> m \<Longrightarrow> resolved (fst (resolve m w db)) n = resolved db n
        \<and> outcome (fst (resolve m w db)) n = outcome db n"
    and resolve_known: "known (fst (resolve m w db)) n = known db n"
begin

lemma handler_state: "fst (resolveMarket_with resolve hmac ser subs e db) = fst (resolve (mre_marketId e) (mre_winningOutcome e) db)"
  by (auto simp: resolveMarket_with_def split: prod.split bool.split)

lemma handler_processed: "fst (snd (resolveMarket_with resolve hmac ser subs e db)) = snd (resolve (mre_marketId e) (mre_winningOutcome e) db)"
  by (auto simp: resolveMarket_with_def split: prod.split bool.split)

lemma processed_iff: "snd (resolve m w db) \<longleftrightarrow> known db m \<and> \<not> resolved db m"
  using resolve_open [of db m w] resolve_noop [of db m w] by (metis snd_conv)

lemma resolved_stays:
  assumes "resolved db n"
  shows "resolved (fst (resolve m w db)) n \<and> outcome (fst (resolve m w db)) n = outcome db n"
proof (cases "n = m")
  case True
  with assms resolve_noop [of db m w] show ?thesis by simp
next
  case False
  with assms resolve_frame [of n m w db] show ?thesis by simp
qed

lemma resolve_all_stays:
  "resolved db n \<Longrightarrow> resolved (fst (resolve_all resolve hmac ser subs es db)) n
     \<and> outcome (fst (resolve_all resolve hmac ser subs es db)) n = outcome db n"
proof (induction es arbitrary: db)
  case (Cons e es)
  let ?db = "fst (resolve (mre_marketId e) (mre_winningOutcome e) db)"
  from resolved_stays [OF Cons.prems] Cons.IH [of ?db] show ?case
    by (simp add: case_prod_beta handler_state)
qed simp

text \<open>The first event of a market decides it: later events for it are no-ops.\<close>

lemma resolve_all_first:
  assumes "known db n" and "\<not> resolved db n"
  shows "outcome (fst (resolve_all resolve hmac ser subs es db)) n =
      (case find (\<lambda>e. mre_marketId e = n) es of None \<Rightarrow> outcome db n | Some e \<Rightarrow> Some (mre_winningOutcome e))"
  using assms
proof (induction es arbitrary: db)
  case (Cons e es)
  let ?db = "fst (resolve (mre_marketId e) (mre_winningOutcome e) db)"
  have step: "fst (resolve_all resolve hmac ser subs (e # es) db) = fst (resolve_all resolve hmac ser subs es ?db)"
    by (simp add: case_prod_beta handler_state)
  show ?case
  proof (cases "mre_marketId e = n")
    case True
    with Cons.prems resolve_open [of db n "mre_winningOutcome e"] resolve_all_stays [of ?db n hmac ser subs es]
    show ?thesis unfolding step by simp
  next
    case False
    with Cons.prems resolve_frame [of n "mre_marketId e" "mre_winningOutcome e" db]
      resolve_known [of "mre_marketId e" "mre_winningOutcome e" db n] Cons.IH [of ?db]
    show ?thesis unfolding step by (simp split: option.split)
  qed
qed simp

text \<open>No market is processed twice.\<close>

lemma resolve_all_processed:
  "distinct (processed_markets es (fst (snd (resolve_all resolve hmac ser subs es db))))
   \<and> (\<forall>n \<in> set (processed_markets es (fst (snd (resolve_all resolve hmac ser subs es db)))).
        \<not> resolved db n)"
proof (induction es arbitrary: db)
  case (Cons e es)
  let ?m = "mre_marketId e" and ?w = "mre_winningOutcome e"
  let ?db = "fst (resolve ?m ?w db)"
  have bs: "fst (snd (resolve_all resolve hmac ser subs (e # es) db)) =
      snd (resolve ?m ?w db) # fst (snd (resolve_all resolve hmac ser subs es ?db))"
    by (simp add: case_prod_beta handler_state handler_processed)
  have later: "\<not> resolved db n" if "\<not> resolved ?db n" for n using resolved_stays [of db n] that by blast
  show ?case
  proof (cases "snd (resolve ?m ?w db)")
    case True
    with processed_iff have "known db ?m" "\<not> resolved db ?m" by auto
    with resolve_open have "resolved ?db ?m" by blast
    with Cons.IH [of ?db] True later \<open>\<not> resolved db ?m\<close> show ?thesis unfolding bs by auto
  next
    case False
    with Cons.IH [of ?db] later show ?thesis unfolding bs by auto
  qed
qed simp

end

section \<open>The Drizzle repository satisfies it\<close>

definition market_known :: "settlement_db \<Rightarrow> string \<Rightarrow> bool" where
  "market_known db m \<longleftrightarrow> row_by m_id (sd_markets db) m \<noteq> None"

definition market_resolved :: "settlement_db \<Rightarrow> string \<Rightarrow> bool" where
  "market_resolved db m \<longleftrightarrow> (case row_by m_id (sd_markets db) m of None \<Rightarrow> False | Some r \<Rightarrow> m_status r = ''resolved'')"

definition market_outcome :: "settlement_db \<Rightarrow> string \<Rightarrow> string option" where
  "market_outcome db m = (case row_by m_id (sd_markets db) m of None \<Rightarrow> None | Some r \<Rightarrow> m_winningOutcome r)"

lemma resolve_market_row:
  "row_by m_id (sd_markets (fst (atomicResolve m w db))) n =
    (if n = m \<and> \<not> market_resolved db m
     then map_option (\<lambda>r. r\<lparr>m_status := ''resolved'', m_winningOutcome := Some w\<rparr>) (row_by m_id (sd_markets db) n)
     else row_by m_id (sd_markets db) n)"
proof -
  have upd: "row_by m_id (update_where (\<lambda>r. m_id r = m) (\<lambda>r. r\<lparr>m_status := ''resolved'', m_winningOutcome := Some w\<rparr>) rows) k =
    (if k = m then map_option (\<lambda>r. r\<lparr>m_status := ''resolved'', m_winningOutcome := Some w\<rparr>) (row_by m_id rows k)
     else row_by m_id rows k)" for rows :: "market_row table" and k
    by (cases "row_by m_id rows k") (auto simp: row_by_update_where dest: row_by_SomeD)
  show ?thesis
    by (auto simp: atomicResolve_def market_resolved_def upd split: option.split)
qed

interpretation drz: resolution_repo atomicResolve market_known market_resolved market_outcome
proof unfold_locales
  fix db m w
  assume "market_known db m" "\<not> market_resolved db m"
  moreover from this have "snd (atomicResolve m w db)"
    by (auto simp: market_known_def market_resolved_def atomicResolve_def)
  ultimately show "snd (atomicResolve m w db) \<and> market_resolved (fst (atomicResolve m w db)) m
      \<and> market_outcome (fst (atomicResolve m w db)) m = Some w"
    by (auto simp: market_known_def market_resolved_def market_outcome_def resolve_market_row split: option.split)
next
  fix db m w
  assume "market_resolved db m \<or> \<not> market_known db m"
  then show "atomicResolve m w db = (db, False)"
    by (auto simp: market_known_def market_resolved_def atomicResolve_def split: option.splits)
next
  fix n m w db
  assume "n \<noteq> (m::string)"
  then show "market_resolved (fst (atomicResolve m w db)) n = market_resolved db n
      \<and> market_outcome (fst (atomicResolve m w db)) n = market_outcome db n"
    by (simp add: market_resolved_def market_outcome_def resolve_market_row)
next
  fix m w db n
  show "market_known (fst (atomicResolve m w db)) n = market_known db n"
    by (simp add: market_known_def resolve_market_row)
qed

section \<open>Properties\<close>

text \<open>C10. A market is resolved once: over any stream of \<^verbatim>\<open>market_resolved\<close> events, including replays and
  events that name different outcomes, no market is processed twice, a market that was open and known
  ends with the outcome of the first event that names it, and a market already resolved keeps its
  outcome.\<close>

theorem resolve_once:
  shows "distinct (processed_markets events
        (fst (snd (resolve_all atomicResolve hmac ser subs events db))))
    \<and> (market_known db m \<and> \<not> market_resolved db m \<longrightarrow>
         market_outcome (fst (resolve_all atomicResolve hmac ser subs events db)) m =
           (case find (\<lambda>e. mre_marketId e = m) events of
              None \<Rightarrow> market_outcome db m | Some e \<Rightarrow> Some (mre_winningOutcome e)))
    \<and> (market_resolved db m \<longrightarrow>
         market_outcome (fst (resolve_all atomicResolve hmac ser subs events db)) m = market_outcome db m)"
  using drz.resolve_all_processed drz.resolve_all_first drz.resolve_all_stays by blast

definition demo_market :: market_row where
  "demo_market = \<lparr>m_id = ''m'', m_question = ''q'', m_status = ''active'', m_resolutionOutcome = None, m_resolutionTime = 0,
     m_winningOutcome = None, m_metadata = None, m_indexedLedger = 0, m_archived = False, m_version = 1,
     m_featured = False, m_featuredAt = None, m_featuredBy = None, m_forceFinalized = False, m_createdAt = 0\<rparr>"

definition demo_open :: settlement_db where
  "demo_open = demo_settlement\<lparr>sd_markets := [demo_market]\<rparr>"

definition demo_resolution :: "string \<Rightarrow> market_resolved_event" where
  "demo_resolution w = \<lparr>mre_marketId = ''m'', mre_winningOutcome = w, mre_ledger = 5, mre_timestamp = 1010\<rparr>"

theorem resolve_once_witness:
  "market_outcome (fst (resolve_all atomicResolve (\<lambda>_ _. []) (\<lambda>_. []) []
      [demo_resolution ''yes'', demo_resolution ''no''] demo_open)) ''m'' = Some ''yes''"
proof -
  have "market_known demo_open ''m'' \<and> \<not> market_resolved demo_open ''m''" by code_simp
  with resolve_once [of "[demo_resolution ''yes'', demo_resolution ''no'']" "\<lambda>_ _. []" "\<lambda>_. []" "[]" demo_open "''m''"]
  show ?thesis by (simp add: demo_resolution_def)
qed

text \<open>The oracle gate: if the admission policy does not accept the snapshot for this market at the
  event's time, \<^verbatim>\<open>resolveMarketWithOracle\<close> fails, the tables are unchanged and no webhook is sent; if it
  accepts, the tables and webhooks are those of \<^verbatim>\<open>resolveMarket\<close> and the returned price is the
  accepted one.\<close>

lemma oracle_gate:
  "((\<forall>a. evaluateOracleSnapshot oracle (mre_timestamp event) policy (Some (mre_marketId event)) \<noteq> Inr (Accepted a))
      \<longrightarrow> (\<exists>m. resolveMarketWithOracle hmac ser subs event oracle policy db = (db, Inl m, [])))
   \<and> (\<forall>a. evaluateOracleSnapshot oracle (mre_timestamp event) policy (Some (mre_marketId event)) = Inr (Accepted a)
      \<longrightarrow> resolveMarketWithOracle hmac ser subs event oracle policy db =
            (fst (resolveMarket hmac ser subs event db),
             Inr (fst (snd (resolveMarket hmac ser subs event db)), ac_price a),
             snd (snd (resolveMarket hmac ser subs event db))))"
  by (auto simp: resolveMarketWithOracle_def split: sum.split oracle_decision.split prod.split)

lemma oracle_gate_witness:
  "\<exists>m. resolveMarketWithOracle (\<lambda>_ _. []) (\<lambda>_. []) [] (demo_resolution ''yes'')
      (demo_snapshot\<lparr>os_prices := []\<rparr>) DEFAULT_ORACLE_SETTLEMENT_POLICY demo_open = (demo_open, Inl m, [])"
proof -
  have "evaluateOracleSnapshot (demo_snapshot\<lparr>os_prices := []\<rparr>) 1010 DEFAULT_ORACLE_SETTLEMENT_POLICY (Some ''m'')
    = Inr (reject missing_prices ''no oracle prices were supplied'' (demo_snapshot\<lparr>os_prices := []\<rparr>) 0 None)"
    by code_simp
  with oracle_gate [of "demo_snapshot\<lparr>os_prices := []\<rparr>" "demo_resolution ''yes''" DEFAULT_ORACLE_SETTLEMENT_POLICY]
  show ?thesis by (simp add: reject_def demo_resolution_def)
qed

end
