(* ===== verification/Market_Admin.thy ===== *)
theory Market_Admin
  imports Market_Resolution
begin

text \<open>
  The other writers of markets and predictions: \<^verbatim>\<open>predictionService.ts\<close> (placing a prediction),
  \<^verbatim>\<open>disputeService.ts\<close> (opening a dispute), \<^verbatim>\<open>marketAdmin.ts\<close> and the route \<^verbatim>\<open>admin/force-resolve.ts\<close>
  (forcing an outcome), \<^verbatim>\<open>updateMarket\<close> of \<^verbatim>\<open>marketService.ts\<close> (optimistic locking) and
  \<^verbatim>\<open>marketFeatureService.ts\<close>. Their composition with the confirmer, the resolver and the indexer is the
  step relation \<open>settle_step\<close>.

  \<^item> \<open>results_exact\<close>: the result column is a function of the row's status and its market, in every state
    the confirmer, resolver, indexer and prediction service reach when their transactions run one after the other.
  \<^item> \<open>forced_outcome_strands_winners\<close>, \<open>resolved_not_final\<close>: what the administrative and dispute paths
    break.
\<close>

section \<open>State\<close>

record market_audit_row =
  au_marketId :: string
  au_adminAddress :: string
  au_action :: string
  au_beforeState :: json
  au_afterState :: json

record dispute_row =
  d_id :: string
  d_marketId :: string
  d_openedBy :: string
  d_reason :: string
  d_evidenceUri :: "string option"
  d_status :: string
  d_createdAt :: time

record admin_db =
  ad_core :: settlement_db
  ad_audit :: "market_audit_row list"
  ad_disputes :: "dispute_row table"
  ad_trail :: "(string \<times> string) list"

datatype admin_error =
    NotFound string | MarketClosed | Conflict string | Validation string | Unauthorized string
  | Unprocessable string | VersionConflict | Forbidden string | Plain string
  | MarketNotFoundError string | MarketArchivedError string

definition get_market :: "string \<Rightarrow> admin_db \<Rightarrow> market_row option" where
  "get_market i db = row_by m_id (sd_markets (ad_core db)) i"

definition set_market :: "string \<Rightarrow> (market_row \<Rightarrow> market_row) \<Rightarrow> admin_db \<Rightarrow> admin_db" where
  "set_market i f db = db\<lparr>ad_core := (ad_core db)\<lparr>sd_markets :=
     update_where (\<lambda>m. m_id m = i) f (sd_markets (ad_core db))\<rparr>\<rparr>"

section \<open>Placing a prediction\<close>

record new_prediction =
  np_marketId :: string
  np_userId :: string
  np_outcome :: string
  np_amount :: string
  np_txHash :: string

definition fresh_prediction :: "string \<Rightarrow> time \<Rightarrow> new_prediction \<Rightarrow> prediction_row" where
  "fresh_prediction newId now q =
    \<lparr>p_id = newId, p_marketId = np_marketId q, p_userId = np_userId q, p_outcome = np_outcome q,
     p_amount = np_amount q, p_txHash = np_txHash q, p_fundingSource = None, p_status = ''pending'',
     p_result = None, p_claimTxHash = None, p_claimedAt = None, p_createdAt = now,
     p_confirmAttempts = 0, p_lastError = None\<rparr>"

definition createPrediction ::
  "string \<Rightarrow> time \<Rightarrow> new_prediction \<Rightarrow> settlement_db \<Rightarrow> settlement_db \<times> (admin_error + prediction_row)" where
  "createPrediction newId now q db = (case row_by m_id (sd_markets db) (np_marketId q) of
     None \<Rightarrow> (db, Inl (NotFound ''Market not found''))
   | Some market \<Rightarrow>
       if m_status market \<noteq> ''active'' then (db, Inl MarketClosed)
       else if m_resolutionTime market \<le> now then (db, Inl MarketClosed)
       else (case select_first (\<lambda>p. p_userId p = np_userId q \<and> p_marketId p = np_marketId q \<and> p_txHash p = np_txHash q)
                    (sd_predictions db) of
          Some existing \<Rightarrow> (db, Inr existing)
        | None \<Rightarrow> (let row = fresh_prediction newId now q
                   in (set_predictions (\<lambda>rows. rows @ [row]) db, Inr row))))"

definition getUserPredictions :: "string \<Rightarrow> string \<Rightarrow> settlement_db \<Rightarrow> prediction_row list" where
  "getUserPredictions marketId userId db =
     filter (\<lambda>p. p_marketId p = marketId \<and> p_userId p = userId) (sd_predictions db)"

section \<open>Disputes\<close>

definition openDispute ::
  "string \<Rightarrow> time \<Rightarrow> string \<Rightarrow> string \<Rightarrow> string \<Rightarrow> string option \<Rightarrow> admin_db \<Rightarrow> admin_db \<times> (admin_error + dispute_row)" where
  "openDispute newId now marketId userId reason evidenceUri db =
    (if get_market marketId db = None then (db, Inl (NotFound ''market_not_found''))
     else if getUserPredictions marketId userId (ad_core db) = [] then (db, Inl (Forbidden ''no_prediction''))
     else if list_ex (\<lambda>d. d_marketId d = marketId \<and> d_openedBy d = userId \<and> d_status d = ''open'') (ad_disputes db)
     then (db, Inl (Conflict ''duplicate_dispute''))
     else (let dispute = \<lparr>d_id = newId, d_marketId = marketId, d_openedBy = userId, d_reason = reason,
                 d_evidenceUri = evidenceUri, d_status = ''open'', d_createdAt = now\<rparr>
           in (set_market marketId (\<lambda>m. m\<lparr>m_status := ''disputed''\<rparr>) (db\<lparr>ad_disputes := ad_disputes db @ [dispute]\<rparr>),
               Inr dispute)))"

section \<open>Forced outcomes\<close>

definition json_opt :: "string option \<Rightarrow> json" where
  "json_opt x = (case x of None \<Rightarrow> JNull | Some s \<Rightarrow> JStr s)"

definition resolution_state :: "string \<Rightarrow> string option \<Rightarrow> bool \<Rightarrow> int \<Rightarrow> json" where
  "resolution_state st w forced v = JObj [(''status'', JStr st), (''winningOutcome'', json_opt w),
     (''forceFinalized'', JBool forced), (''version'', JNum v)]"

text \<open>The transaction both forced paths run, with the audit row of its action.\<close>

definition force_outcome :: "string \<Rightarrow> market_row \<Rightarrow> string \<Rightarrow> string \<Rightarrow> admin_db \<Rightarrow> admin_db" where
  "force_outcome action market winningOutcome adminAddress db =
    (let db1 = set_market (m_id market) (\<lambda>m. m\<lparr>m_status := ''resolved'', m_winningOutcome := Some winningOutcome,
                 m_forceFinalized := True, m_version := m_version market + 1\<rparr>) db
     in db1\<lparr>ad_audit := ad_audit db1 @
          [\<lparr>au_marketId = m_id market, au_adminAddress = adminAddress, au_action = action,
            au_beforeState = resolution_state (m_status market) (m_winningOutcome market) (m_forceFinalized market) (m_version market),
            au_afterState = resolution_state ''resolved'' (Some winningOutcome) True (m_version market + 1)\<rparr>]\<rparr>)"

text \<open>The handler of \<^verbatim>\<open>POST /admin/force-resolve/:id\<close> after authentication; \<open>winning\<close> is the body
  field, \<open>None\<close> when it is missing or not a string.\<close>

definition forceResolve ::
  "time \<Rightarrow> string option \<Rightarrow> string \<Rightarrow> string option \<Rightarrow> admin_db \<Rightarrow> admin_db \<times> (admin_error + unit)" where
  "forceResolve now winning marketId adminAddress db =
    (case winning of None \<Rightarrow> (db, Inl (Validation ''Invalid request body''))
     | Some winningOutcome \<Rightarrow>
       if winningOutcome = [] then (db, Inl (Validation ''Invalid request body''))
       else (case adminAddress of None \<Rightarrow> (db, Inl (Unauthorized ''Authentication required''))
        | Some admin \<Rightarrow>
          if admin = [] then (db, Inl (Unauthorized ''Authentication required''))
          else (case get_market marketId db of
             None \<Rightarrow> (db, Inl (NotFound ''Market not found''))
           | Some market \<Rightarrow>
               if m_forceFinalized market \<or> m_status market = ''resolved''
               then (db, Inl (Conflict ''Market already resolved''))
               else if now < m_resolutionTime market
               then (db, Inl (Validation ''Market has not yet reached its resolution deadline''))
               else (force_outcome ''force_resolve'' market winningOutcome admin db, Inr ()))))"

datatype finalize_outcome =
    Preview string string time   \<comment> \<open>market, current status, resolution time\<close>
  | Finalized string string      \<comment> \<open>market, winning outcome\<close>
  | AlreadyFinalized

definition forceFinalize ::
  "time \<Rightarrow> string \<Rightarrow> string \<Rightarrow> string \<Rightarrow> bool \<Rightarrow> admin_db \<Rightarrow> admin_db \<times> (admin_error + finalize_outcome)" where
  "forceFinalize now marketId winningOutcome adminAddress confirm db = (case get_market marketId db of
     None \<Rightarrow> (db, Inl (NotFound ''Market not found''))
   | Some market \<Rightarrow>
       if m_forceFinalized market then (db, Inr AlreadyFinalized)
       else if now < m_resolutionTime market
       then (db, Inl (Unprocessable ''Market has not yet reached its resolution deadline''))
       else if \<not> confirm then (db, Inr (Preview (m_id market) (m_status market) (m_resolutionTime market)))
       else (force_outcome ''force_finalize'' market winningOutcome adminAddress db, Inr (Finalized marketId winningOutcome)))"

section \<open>Editing and featuring a market\<close>

record market_patch =
  mp_question :: "string option"
  mp_metadata :: "(string \<times> string) list option"

definition apply_market_patch :: "market_patch \<Rightarrow> market_row \<Rightarrow> market_row" where
  "apply_market_patch patch m = m
    \<lparr>m_question := (case mp_question patch of None \<Rightarrow> m_question m | Some q \<Rightarrow> q),
     m_metadata := (case mp_metadata patch of None \<Rightarrow> m_metadata m | Some d \<Rightarrow> Some d)\<rparr>"

definition fields_object :: "(string \<times> string) list option \<Rightarrow> json" where
  "fields_object d = (case d of None \<Rightarrow> JNull | Some kvs \<Rightarrow> JObj (map (\<lambda>(k, v). (k, JStr v)) kvs))"

definition edit_state :: "market_row \<Rightarrow> json" where
  "edit_state m = JObj [(''question'', JStr (m_question m)), (''metadata'', fields_object (m_metadata m)), (''version'', JNum (m_version m))]"

text \<open>The read of the transaction, and the write that follows it.\<close>

definition update_check :: "string \<Rightarrow> int \<Rightarrow> admin_db \<Rightarrow> admin_error + market_row" where
  "update_check i expectedVersion db = (case get_market i db of
     None \<Rightarrow> Inl (NotFound ''Market not found'')
   | Some m \<Rightarrow> if m_version m \<noteq> expectedVersion then Inl VersionConflict else Inr m)"

definition update_write ::
  "string \<Rightarrow> market_patch \<Rightarrow> int \<Rightarrow> string option \<Rightarrow> market_row \<Rightarrow> admin_db \<Rightarrow> admin_db \<times> market_row" where
  "update_write i patch expectedVersion adminAddress current db =
    (let upd = (\<lambda>m. (apply_market_patch patch m)\<lparr>m_version := expectedVersion + 1\<rparr>);
         db1 = set_market i upd db;
         row = (case get_market i db1 of Some m \<Rightarrow> m | None \<Rightarrow> upd current)
     in (case adminAddress of
           None \<Rightarrow> (db1, row)
         | Some admin \<Rightarrow> if admin = [] then (db1, row)
             else (db1\<lparr>ad_audit := ad_audit db1 @ [\<lparr>au_marketId = i, au_adminAddress = admin, au_action = ''update'',
                     au_beforeState = edit_state current, au_afterState = edit_state row\<rparr>]\<rparr>, row)))"

definition updateMarket ::
  "string \<Rightarrow> market_patch \<Rightarrow> int \<Rightarrow> string option \<Rightarrow> admin_db \<Rightarrow> admin_db \<times> (admin_error + market_row)" where
  "updateMarket i patch expectedVersion adminAddress db =
    (if i = [] then (db, Inl (Plain ''Market ID must be a non-empty string''))
     else if expectedVersion < 0 then (db, Inl (Plain ''expectedVersion must be a non-negative number''))
     else (case update_check i expectedVersion db of
        Inl e \<Rightarrow> (db, Inl e)
      | Inr current \<Rightarrow> (case update_write i patch expectedVersion adminAddress current db of (db', row) \<Rightarrow> (db', Inr row))))"

record feature_result =
  fr_marketId :: string
  fr_featured :: bool
  fr_featuredAt :: "time option"
  fr_featuredBy :: "string option"
  fr_changed :: bool

definition feature_state :: "bool \<Rightarrow> time option \<Rightarrow> string option \<Rightarrow> json" where
  "feature_state f t u = JObj [(''featured'', JBool f), (''featuredAt'', case t of None \<Rightarrow> JNull | Some x \<Rightarrow> JNum x),
     (''featuredBy'', json_opt u)]"

definition setFeatured ::
  "time \<Rightarrow> string \<Rightarrow> string \<Rightarrow> bool \<Rightarrow> admin_db \<Rightarrow> admin_db \<times> (admin_error + feature_result)" where
  "setFeatured now marketId adminAddress featured db = (case get_market marketId db of
     None \<Rightarrow> (db, Inl (MarketNotFoundError marketId))
   | Some ex \<Rightarrow>
       if m_archived ex then (db, Inl (MarketArchivedError marketId))
       else if m_featured ex = featured
       then (db, Inr \<lparr>fr_marketId = m_id ex, fr_featured = m_featured ex, fr_featuredAt = m_featuredAt ex,
                      fr_featuredBy = m_featuredBy ex, fr_changed = False\<rparr>)
       else (let featAt = (if featured then Some now else None); who = (if featured then Some adminAddress else None);
                 db1 = set_market marketId (\<lambda>m. m\<lparr>m_featured := featured, m_featuredAt := featAt, m_featuredBy := who\<rparr>) db
             in (db1\<lparr>ad_audit := ad_audit db1 @
                    [\<lparr>au_marketId = marketId, au_adminAddress = adminAddress,
                      au_action = (if featured then ''feature'' else ''unfeature''),
                      au_beforeState = feature_state (m_featured ex) (m_featuredAt ex) (m_featuredBy ex),
                      au_afterState = feature_state featured featAt who\<rparr>]\<rparr>,
                 Inr \<lparr>fr_marketId = m_id ex, fr_featured = featured, fr_featuredAt = featAt, fr_featuredBy = who,
                      fr_changed = True\<rparr>)))"

text \<open>\<^verbatim>\<open>recordAuditTrail\<close> writes a row of \<^verbatim>\<open>audit_logs\<close> for every call that did not throw.\<close>

definition with_trail :: "string \<Rightarrow> string \<Rightarrow> admin_db \<times> (admin_error + feature_result) \<Rightarrow> admin_db \<times> (admin_error + feature_result)" where
  "with_trail action admin r = (case r of
     (db, Inl e) \<Rightarrow> (db, Inl e)
   | (db, Inr row) \<Rightarrow> (db\<lparr>ad_trail := ad_trail db @ [(action, admin)]\<rparr>, Inr row))"

definition featureMarket :: "time \<Rightarrow> string \<Rightarrow> string \<Rightarrow> admin_db \<Rightarrow> admin_db \<times> (admin_error + feature_result)" where
  "featureMarket now marketId adminAddress db =
     with_trail ''market.feature'' adminAddress (setFeatured now marketId adminAddress True db)"

definition unfeatureMarket :: "time \<Rightarrow> string \<Rightarrow> string \<Rightarrow> admin_db \<Rightarrow> admin_db \<times> (admin_error + feature_result)" where
  "unfeatureMarket now marketId adminAddress db =
     with_trail ''market.unfeature'' adminAddress (setFeatured now marketId adminAddress False db)"

section \<open>The settlement system\<close>

text \<open>One step of the indexer, the confirmer, the resolver or the prediction service: each of their transactions runs
  alone, as one step. \<open>Settlement_Interleaving\<close> runs them statement by statement.\<close>

inductive settle_step :: "settlement_db \<Rightarrow> settlement_db \<Rightarrow> bool" where
  step_tick: "settle_step db (fst (transactionalTick jt batch maxA db))"
| step_resolve: "settle_step db (fst (atomicResolve m w db))"
| step_index: "settle_step db (db\<lparr>sd_ix := fst (persist_event gen now e (sd_ix db))\<rparr>)"
| step_place: "settle_step db (fst (createPrediction newId now q db))"

text \<open>The result of every prediction is the score its market gives it when the prediction is confirmed,
  and absent otherwise.\<close>

definition results_ok :: "settlement_db \<Rightarrow> bool" where
  "results_ok db \<longleftrightarrow> (\<forall>p \<in> set (sd_predictions db).
     p_result p = (if p_status p = ''confirmed'' then late_score db p else None))"

lemma late_score_cong:
  "p_marketId q = p_marketId p \<Longrightarrow> p_outcome q = p_outcome p \<Longrightarrow> sd_markets db' = sd_markets db \<Longrightarrow>
   late_score db' q = late_score db p"
  by (simp add: late_score_def split: option.split)

lemma tick_results:
  assumes "results_ok db"
  shows "results_ok (fst (transactionalTick jt batch maxA db))"
proof -
  let ?db = "fst (transactionalTick jt batch maxA db)" and ?ids = "findConfirmedCandidateIds jt batch db"
  have mk: "sd_markets ?db = sd_markets db" by (rule tick_frame)
  have "p_result q = (if p_status q = ''confirmed'' then late_score ?db q else None)"
    if "q = tick_row jt maxA db ?ids p" "p \<in> set (sd_predictions db)" for q p
  proof -
    have old: "p_result p = (if p_status p = ''confirmed'' then late_score db p else None)"
      using assms that(2) by (simp add: results_ok_def)
    have "late_score ?db q = late_score db p"
      using that(1) mk by (intro late_score_cong) (simp_all add: tick_row_def confirm_row_def)
    with old that(1) show ?thesis
      by (auto simp: tick_row_def confirm_row_def unmatched_def split: option.splits if_splits)
  qed
  then show ?thesis unfolding results_ok_def tick_rows_fst by auto
qed

lemma resolve_results:
  assumes "results_ok db"
  shows "results_ok (fst (atomicResolve m w db))"
proof (cases "snd (atomicResolve m w db)")
  case False
  then have "atomicResolve m w db = (db, False)"
    by (auto simp: atomicResolve_def split: option.splits if_splits)
  with assms show ?thesis by simp
next
  case True
  let ?db = "fst (atomicResolve m w db)"
  have open_m: "\<not> market_resolved db m" "market_known db m" using True drz.processed_iff by blast+
  have rows: "sd_predictions ?db = map (\<lambda>p. if score_open m p then score_row w p else p) (sd_predictions db)"
    using open_m by (auto simp: atomicResolve_def market_resolved_def market_known_def update_where_def split: option.splits)
  have other: "late_score ?db p = late_score db p" if "p_marketId p \<noteq> m" for p
    using that by (simp add: late_score_def resolve_market_row)
  have mine: "late_score ?db p = Some (if p_outcome p = w then ''won'' else ''lost'')" "late_score db p = None"
    if "p_marketId p = m" for p
    using that open_m
    by (auto simp: late_score_def resolve_market_row market_known_def market_resolved_def split: option.splits)
  have sc: "late_score ?db (score_row w p) = late_score ?db p" for p
    by (rule late_score_cong) (simp_all add: score_row_def)
  have "p_result q = (if p_status q = ''confirmed'' then late_score ?db q else None)"
    if "q = (if score_open m p then score_row w p else p)" "p \<in> set (sd_predictions db)" for q p
  proof -
    have old: "p_result p = (if p_status p = ''confirmed'' then late_score db p else None)"
      using assms that(2) by (simp add: results_ok_def)
    show ?thesis
    proof (cases "p_marketId p = m")
      case True
      with old that(1) mine [OF True] sc show ?thesis by (auto simp: score_open_def score_row_def)
    next
      case False
      with old that(1) other [OF False] show ?thesis by (simp add: score_open_def)
    qed
  qed
  then show ?thesis unfolding results_ok_def rows set_map by blast
qed

lemma persist_predictions:
  "\<exists>h. ix_predictions (fst (persist_event gen now e ix)) = update_where (repairable h) repair_prediction (ix_predictions ix)
     \<or> ix_predictions (fst (persist_event gen now e ix)) = ix_predictions ix"
  by (auto simp: persist_event_def write_event_def insert_event_def replace_canonical_def case_prod_beta Let_def
      split: option.split)

lemma index_results:
  assumes "results_ok db"
  shows "results_ok (db\<lparr>sd_ix := fst (persist_event gen now e (sd_ix db))\<rparr>)"
proof -
  let ?db = "db\<lparr>sd_ix := fst (persist_event gen now e (sd_ix db))\<rparr>"
  have ls: "late_score ?db p = late_score db p" for p by (simp add: late_score_def)
  from persist_predictions [of gen now e "sd_ix db"] obtain h where
    "sd_predictions ?db = update_where (repairable h) repair_prediction (sd_predictions db)
     \<or> sd_predictions ?db = sd_predictions db" by auto
  then show ?thesis
  proof
    assume rows: "sd_predictions ?db = update_where (repairable h) repair_prediction (sd_predictions db)"
    show ?thesis using assms unfolding results_ok_def rows ls
      by (auto simp: set_update_where repair_prediction_def)
  next
    assume "sd_predictions ?db = sd_predictions db"
    with assms show ?thesis by (simp add: results_ok_def ls)
  qed
qed

lemma place_results: "results_ok db \<Longrightarrow> results_ok (fst (createPrediction newId now q db))"
  by (auto simp: results_ok_def createPrediction_def fresh_prediction_def Let_def late_score_def split: option.split)

definition no_results :: "settlement_db \<Rightarrow> bool" where
  "no_results db \<longleftrightarrow> (\<forall>p \<in> set (sd_predictions db). p_status p \<noteq> ''confirmed'' \<and> p_result p = None)"

interpretation scoring: inductive_invariant no_results settle_step results_ok
proof unfold_locales
  fix s :: settlement_db
  assume "no_results s"
  then show "results_ok s" by (simp add: no_results_def results_ok_def)
next
  fix s t
  assume "results_ok s" and "settle_step s t"
  from this(2,1) show "results_ok t"
    by (cases rule: settle_step.cases) (auto intro: tick_results resolve_results index_results place_results)
qed

section \<open>Properties\<close>

text \<open>When the transactions run one after the other, in any order, from tables without confirmed or scored predictions, a
  prediction has a result exactly when it is confirmed and its market is resolved with an outcome. (What their statements
  do to each other when they overlap is \<open>results_interleaved\<close> of \<open>Settlement_Interleaving\<close>.)\<close>

lemma results_exact:
  assumes "reach no_results settle_step db" and "p \<in> set (sd_predictions db)"
  shows "p_result p =
    (if p_status p = ''confirmed''
     then (case row_by m_id (sd_markets db) (p_marketId p) of
             None \<Rightarrow> None
           | Some m \<Rightarrow> (case m_winningOutcome m of
                None \<Rightarrow> None
              | Some w \<Rightarrow> if m_status m = ''resolved''
                          then Some (if w = p_outcome p then ''won'' else ''lost'') else None))
     else None)"
  using scoring.reach_inv [OF assms(1)] assms(2) by (simp add: results_ok_def late_score_def)

lemma demo_open_init: "no_results demo_open"
  by (simp add: no_results_def demo_open_def demo_settlement_def demo_pending_def demo_prediction_def)

lemma results_exact_witness:
  "map p_result (sd_predictions (fst (transactionalTick (\<lambda>_. []) 10 3 (fst (atomicResolve ''m'' ''yes'' demo_open))))) =
     [Some ''won'', None]"
proof -
  let ?db = "fst (transactionalTick (\<lambda>_. []) 10 3 (fst (atomicResolve ''m'' ''yes'' demo_open)))"
  have "reach no_results settle_step demo_open" using demo_open_init by (rule reach_init)
  then have "reach no_results settle_step (fst (atomicResolve ''m'' ''yes'' demo_open))"
    using step_resolve by (rule reach_step)
  then have r: "reach no_results settle_step ?db" using step_tick by (rule reach_step)
  have rows: "map (\<lambda>p. (p_status p, p_marketId p, p_outcome p)) (sd_predictions ?db) =
      [(''confirmed'', ''m'', ''yes''), (''pending'', ''m'', ''yes'')]"
    "map_option (\<lambda>m. (m_status m, m_winningOutcome m)) (row_by m_id (sd_markets ?db) ''m'') = Some (''resolved'', Some ''yes'')"
    by code_simp+
  obtain p q where preds: "sd_predictions ?db = [p, q]" using rows(1) by (auto simp: map_eq_Cons_conv)
  obtain m where m: "row_by m_id (sd_markets ?db) ''m'' = Some m" "m_status m = ''resolved''" "m_winningOutcome m = Some ''yes''"
    using rows(2) by auto
  have "p_result p = Some ''won''" "p_result q = None"
    using results_exact [OF r, of p] results_exact [OF r, of q] rows(1) m by (simp_all add: preds)
  then show ?thesis by (simp add: preds)
qed

subsection \<open>Forced outcomes\<close>

text \<open>A prediction stranded in a resolved market: confirmed, without a result, and nothing will score it.\<close>

definition stranded :: "nat \<Rightarrow> string \<Rightarrow> settlement_db \<Rightarrow> bool" where
  "stranded i m db \<longleftrightarrow> i < length (sd_predictions db) \<and> market_resolved db m
     \<and> p_marketId (sd_predictions db ! i) = m \<and> p_status (sd_predictions db ! i) = ''confirmed''
     \<and> p_result (sd_predictions db ! i) = None"

inductive scoring_step :: "settlement_db \<Rightarrow> settlement_db \<Rightarrow> bool" where
  score_tick: "key_unique p_id (sd_predictions db) \<Longrightarrow> scoring_step db (fst (transactionalTick jt batch maxA db))"
| score_resolve: "scoring_step db (fst (atomicResolve m w db))"

lemma tick_stranded:
  assumes "stranded i m db" and "key_unique p_id (sd_predictions db)"
  shows "stranded i m (fst (transactionalTick jt batch maxA db))"
proof -
  let ?p = "sd_predictions db ! i"
  have "?p \<in> set (sd_predictions db)" "p_status ?p = ''confirmed''" using assms(1) by (simp_all add: stranded_def)
  then have "p_id ?p \<notin> set (findConfirmedCandidateIds jt batch db)"
    using candidate_ids_iff [OF assms(2), of ?p jt batch] by (auto simp: confirm_candidate_def)
  with assms(1) show ?thesis
    by (simp add: stranded_def tick_rows_fst tick_row_def unmatched_def market_resolved_def tick_frame)
qed

lemma resolve_stranded:
  assumes "stranded i m db"
  shows "stranded i m (fst (atomicResolve n w db))"
proof (cases "n = m")
  case True
  with assms drz.resolve_noop [of db m w] show ?thesis by (simp add: stranded_def)
next
  case False
  have res: "market_resolved (fst (atomicResolve n w db)) m"
    using assms drz.resolved_stays by (simp add: stranded_def)
  have "sd_predictions (fst (atomicResolve n w db)) ! i = sd_predictions db ! i
      \<and> length (sd_predictions (fst (atomicResolve n w db))) = length (sd_predictions db)"
    using assms False
    by (auto simp: atomicResolve_def stranded_def update_where_def score_open_def split: option.split)
  with assms res show ?thesis by (simp add: stranded_def)
qed

lemma scoring_stranded: "scoring_step\<^sup>*\<^sup>* db final \<Longrightarrow> stranded i m db \<Longrightarrow> stranded i m final"
  by (induction rule: rtranclp_induct) (auto elim!: scoring_step.cases intro: tick_stranded resolve_stranded)

lemma forced_market:
  assumes "get_market (m_id market) db = Some market"
  shows "market_resolved (ad_core (force_outcome action market w admin db)) (m_id market)
    \<and> market_outcome (ad_core (force_outcome action market w admin db)) (m_id market) = Some w
    \<and> sd_predictions (ad_core (force_outcome action market w admin db)) = sd_predictions (ad_core db)"
  using assms
  by (simp add: force_outcome_def set_market_def get_market_def market_resolved_def market_outcome_def
      row_by_update_where Let_def)

text \<open>C28. Forcing an outcome strands the bets: when an administrator force-resolves an overdue market, its
  predictions that are already confirmed and unscored stay unscored, and no number of confirmer ticks
  and resolution events scores them afterwards, so their winners never become claimable. (Normal
  resolution scores them in its transaction.)\<close>

theorem forced_outcome_strands_winners:
  assumes "forceResolve now (Some w) mid (Some admin) db = (db', Inr ())"
    and "i < length (sd_predictions (ad_core db))" and "p = sd_predictions (ad_core db) ! i"
    and "p_marketId p = mid" and "p_status p = ''confirmed''" and "p_result p = None"
    and "scoring_step\<^sup>*\<^sup>* (ad_core db') final"
  shows "market_outcome (ad_core db') mid = Some w \<and> p_result (sd_predictions final ! i) = None
    \<and> p_status (sd_predictions final ! i) = ''confirmed''"
proof -
  obtain market where m: "get_market mid db = Some market" "db' = force_outcome ''force_resolve'' market w admin db"
    using assms(1) by (auto simp: forceResolve_def split: option.splits if_splits)
  then have mid: "m_id market = mid" by (auto simp: get_market_def dest: row_by_SomeD)
  from forced_market [of market db "''force_resolve''" w admin] m mid
  have f: "market_resolved (ad_core db') mid" "market_outcome (ad_core db') mid = Some w"
    "sd_predictions (ad_core db') = sd_predictions (ad_core db)" by auto
  then have start: "stranded i mid (ad_core db')" using assms(2-6) by (simp add: stranded_def)
  have "stranded i mid final" by (rule scoring_stranded [OF assms(7) start])
  with f show ?thesis by (simp add: stranded_def)
qed

definition demo_admin :: admin_db where
  "demo_admin = \<lparr>ad_core = demo_open\<lparr>sd_ix := (sd_ix demo_open)\<lparr>ix_predictions := [demo_prediction ''confirmed'']\<rparr>\<rparr>,
     ad_audit = [], ad_disputes = [], ad_trail = []\<rparr>"

theorem forced_outcome_strands_winners_witness:
  "p_result (sd_predictions (fst (atomicResolve ''m'' ''yes''
      (ad_core (fst (forceResolve 5 (Some ''yes'') ''m'' (Some ''GADMIN'') demo_admin))))) ! 0) = None"
proof -
  have "snd (forceResolve 5 (Some ''yes'') ''m'' (Some ''GADMIN'') demo_admin) = Inr ()" by code_simp
  then have f: "forceResolve 5 (Some ''yes'') ''m'' (Some ''GADMIN'') demo_admin =
    (fst (forceResolve 5 (Some ''yes'') ''m'' (Some ''GADMIN'') demo_admin), Inr ())" by (metis prod.collapse)
  have "sd_predictions (ad_core demo_admin) = [demo_prediction ''confirmed'']" by (simp add: demo_admin_def)
  then show ?thesis
    using forced_outcome_strands_winners [OF f, of 0 "demo_prediction ''confirmed''"
        "fst (atomicResolve ''m'' ''yes'' (ad_core (fst (forceResolve 5 (Some ''yes'') ''m'' (Some ''GADMIN'') demo_admin))))"]
      score_resolve by (simp add: demo_prediction_def r_into_rtranclp)
qed

text \<open>A resolution is not final: on a market that was resolved in the normal way and is past its
  deadline, \<^verbatim>\<open>forceFinalize\<close> with confirmation replaces the winning outcome (its documentation excludes
  resolved markets, its guards do not), and after a dispute is opened the next resolution event
  replaces it as well; both leave the results already assigned under the old outcome unchanged.\<close>

lemma resolved_not_final:
  assumes "get_market mid db = Some market" and "m_status market = ''resolved''" and "m_winningOutcome market = Some w"
  shows "(\<not> m_forceFinalized market \<and> m_resolutionTime market \<le> now \<longrightarrow>
      market_outcome (ad_core (fst (forceFinalize now mid v admin True db))) mid = Some v
      \<and> sd_predictions (ad_core (fst (forceFinalize now mid v admin True db))) = sd_predictions (ad_core db))
    \<and> (\<forall>d db'. openDispute newId t mid userId reason uri db = (db', Inr d) \<longrightarrow>
      market_outcome (fst (atomicResolve mid v (ad_core db'))) mid = Some v
      \<and> (\<forall>i < length (sd_predictions (ad_core db)). p_result (sd_predictions (ad_core db) ! i) \<noteq> None \<longrightarrow>
           sd_predictions (fst (atomicResolve mid v (ad_core db'))) ! i = sd_predictions (ad_core db) ! i))"
proof (intro conjI impI allI)
  have mid: "m_id market = mid" using assms(1) by (auto simp: get_market_def dest: row_by_SomeD)
  note f = forced_market [of market db "''force_finalize''" v admin]
  show "market_outcome (ad_core (fst (forceFinalize now mid v admin True db))) mid = Some v"
    "sd_predictions (ad_core (fst (forceFinalize now mid v admin True db))) = sd_predictions (ad_core db)"
    if "\<not> m_forceFinalized market \<and> m_resolutionTime market \<le> now"
    using that f assms(1) mid by (auto simp: forceFinalize_def)
  fix d db'
  assume "openDispute newId t mid userId reason uri db = (db', Inr d)"
  then obtain ds where db': "db' = set_market mid (\<lambda>m. m\<lparr>m_status := ''disputed''\<rparr>) (db\<lparr>ad_disputes := ds\<rparr>)"
    by (auto simp: openDispute_def Let_def split: if_splits)
  have row: "row_by m_id (sd_markets (ad_core db')) mid = Some (market\<lparr>m_status := ''disputed''\<rparr>)"
    using assms(1) mid by (simp add: db' set_market_def get_market_def row_by_update_where)
  have preds: "sd_predictions (ad_core db') = sd_predictions (ad_core db)" by (simp add: db' set_market_def)
  show "market_outcome (fst (atomicResolve mid v (ad_core db'))) mid = Some v"
    using drz.resolve_open [of "ad_core db'" mid v] row by (simp add: market_known_def market_resolved_def)
  show "sd_predictions (fst (atomicResolve mid v (ad_core db'))) ! i = sd_predictions (ad_core db) ! i"
    if "i < length (sd_predictions (ad_core db))" "p_result (sd_predictions (ad_core db) ! i) \<noteq> None" for i
    using that row by (auto simp: atomicResolve_def preds update_where_def score_open_def)
qed

lemma resolved_not_final_witness:
  "market_outcome (ad_core (fst (forceFinalize 5 ''m'' ''no'' ''GADMIN'' True
      (demo_admin\<lparr>ad_core := fst (atomicResolve ''m'' ''yes'' (ad_core demo_admin))\<rparr>)))) ''m'' = Some ''no''"
proof -
  let ?db = "demo_admin\<lparr>ad_core := fst (atomicResolve ''m'' ''yes'' (ad_core demo_admin))\<rparr>"
  have "map_option (\<lambda>m. (m_status m, m_winningOutcome m, m_forceFinalized m, m_resolutionTime m)) (get_market ''m'' ?db)
    = Some (''resolved'', Some ''yes'', False, 0)" by code_simp
  then obtain m where m: "get_market ''m'' ?db = Some m" "m_status m = ''resolved''" "m_winningOutcome m = Some ''yes''"
    "\<not> m_forceFinalized m" "m_resolutionTime m = 0" by auto
  from resolved_not_final [OF m(1-3), of 5 "''no''" "''GADMIN''"] m(4,5) show ?thesis by simp
qed

subsection \<open>Optimistic locking\<close>

text \<open>One after the other, two updates with the same expected version cannot both succeed; but the version
  is compared in a read, not in the update's condition, so two transactions that both read first do.\<close>

lemma update_write_get:
  "get_market i (fst (update_write i patch v admin cur db)) =
     map_option (\<lambda>m. (apply_market_patch patch m)\<lparr>m_version := v + 1\<rparr>) (get_market i db)"
proof -
  have "get_market i (set_market i (\<lambda>m. (apply_market_patch patch m)\<lparr>m_version := v + 1\<rparr>) db) =
     map_option (\<lambda>m. (apply_market_patch patch m)\<lparr>m_version := v + 1\<rparr>) (get_market i db)"
    by (cases "get_market i db")
      (auto simp: get_market_def set_market_def row_by_update_where apply_market_patch_def dest: row_by_SomeD)
  then show ?thesis
    by (simp add: update_write_def Let_def get_market_def split: option.split)
qed

lemma update_sequential:
  assumes "updateMarket i patch v admin db = (db', Inr row)"
  shows "updateMarket i patch' v admin' db' = (db', Inl VersionConflict)"
proof -
  obtain cur where c: "get_market i db = Some cur" "i \<noteq> []" "0 \<le> v"
    and w: "update_write i patch v admin cur db = (db', row)"
    using assms by (auto simp: updateMarket_def update_check_def split: option.splits if_splits prod.splits sum.splits)
  have "map_option m_version (get_market i db') = Some (v + 1)"
    using update_write_get [of i patch v admin cur db] w c(1) by simp
  with c show ?thesis by (auto simp: updateMarket_def update_check_def)
qed

lemma update_race:
  assumes "update_check i v db = Inr cur" and "update_write i patch1 v a1 cur db = (db1, r1)"
    and "update_write i patch2 v a2 cur db1 = (db2, r2)" and "mp_question patch2 = Some q"
  shows "map_option m_question (get_market i db2) = Some q \<and> map_option m_version (get_market i db2) = Some (v + 1)"
proof -
  have "get_market i db = Some cur" using assms(1) by (auto simp: update_check_def split: option.splits if_splits)
  then show ?thesis
    using update_write_get [of i patch1 v a1 cur db] update_write_get [of i patch2 v a2 cur db1] assms(2-4)
    by (simp add: apply_market_patch_def)
qed

end
