(* ===== verification/Refresh_Tokens.thy ===== *)
theory Refresh_Tokens
  imports Schema
begin

text \<open>
  Refresh-token rotation, \<^verbatim>\<open>src/services/refreshTokenService.ts\<close>. \<open>hash\<close> is SHA-256 and \<open>signAccess\<close>
  the JWT signer; random tokens, row identifiers, family identifiers and clock readings are arguments.
  \<open>rotate_step\<close> takes one database statement at a time, so that requests can interleave;
  \<open>rotateRefreshToken\<close> runs it to the end.

  \<^item> \<open>one_active_per_family\<close>: with requests one after the other a family never has two active tokens.
  \<^item> \<open>reuse_revokes_family\<close>: presenting a rotated token again revokes every token of its family.
  \<^item> \<open>concurrent_rotation_forks\<close>: two overlapping requests with one token both succeed and leave two
    active tokens, which reuse detection was to exclude.
\<close>

section \<open>Rows and results\<close>

record refresh_row =
  rt_id :: string
  rt_userId :: string
  rt_tokenHash :: string
  rt_familyId :: string
  rt_parentId :: "string option"
  rt_expiresAt :: time
  rt_revokedAt :: "time option"

record token_db =
  tk_tokens :: "refresh_row table"
  tk_users :: "user_row table"

definition REFRESH_TOKEN_TTL_MS :: int where
  "REFRESH_TOKEN_TTL_MS = 30 * 24 * 60 * 60 * 1000"

datatype rotate_error =
    UnauthorizedError string
  | ForbiddenError string string

record token_pair =
  accessToken :: string
  refreshToken :: string

section \<open>Queries\<close>

definition findRefreshTokenByRawToken :: "(string \<Rightarrow> string) \<Rightarrow> string \<Rightarrow> token_db \<Rightarrow> refresh_row option" where
  "findRefreshTokenByRawToken hash rawToken db = select_first (\<lambda>t. rt_tokenHash t = hash rawToken) (tk_tokens db)"

definition findUserById :: "string \<Rightarrow> token_db \<Rightarrow> user_row option" where
  "findUserById userId db = select_first (\<lambda>u. u_id u = userId) (tk_users db)"

definition revokeTokenFamilyById :: "time \<Rightarrow> string \<Rightarrow> token_db \<Rightarrow> token_db" where
  "revokeTokenFamilyById now familyId db = db\<lparr>tk_tokens :=
     update_where (\<lambda>t. rt_familyId t = familyId \<and> rt_revokedAt t = None) (\<lambda>t. t\<lparr>rt_revokedAt := Some now\<rparr>) (tk_tokens db)\<rparr>"

text \<open>\<open>newId\<close>, \<open>token\<close> and \<open>newFamily\<close> are the generated identifier, the random token and the random
  family, the last used when no family is given. \<open>None\<close> is the insert rejected by the primary key, by
  the unique index on \<^verbatim>\<open>token_hash\<close> or by the reference to \<^verbatim>\<open>users\<close>, which the caller sees as an exception.\<close>

definition issueRefreshToken ::
  "(string \<Rightarrow> string) \<Rightarrow> string \<Rightarrow> string \<Rightarrow> string \<Rightarrow> time \<Rightarrow> string \<Rightarrow> string option \<Rightarrow> string option
    \<Rightarrow> token_db \<Rightarrow> (token_db \<times> string \<times> time \<times> string) option" where
  "issueRefreshToken hash newId token newFamily now userId familyId parentId db =
    (let fam = (case familyId of None \<Rightarrow> newFamily | Some f \<Rightarrow> if f = [] then newFamily else f);
         expiresAt = now + REFRESH_TOKEN_TTL_MS
     in if newId \<in> rt_id ` set (tk_tokens db) \<or> hash token \<in> rt_tokenHash ` set (tk_tokens db)
           \<or> userId \<notin> u_id ` set (tk_users db)
        then None
        else Some (db\<lparr>tk_tokens := tk_tokens db @
           [\<lparr>rt_id = newId, rt_userId = userId, rt_tokenHash = hash token, rt_familyId = fam,
             rt_parentId = (case parentId of None \<Rightarrow> None | Some p \<Rightarrow> if p = [] then None else Some p),
             rt_expiresAt = expiresAt, rt_revokedAt = None\<rparr>]\<rparr>,
         token, expiresAt, fam))"

definition revokeFamily :: "(string \<Rightarrow> string) \<Rightarrow> time \<Rightarrow> string \<Rightarrow> token_db \<Rightarrow> token_db" where
  "revokeFamily hash now rawToken db = (case findRefreshTokenByRawToken hash rawToken db of
     None \<Rightarrow> db
   | Some t \<Rightarrow> revokeTokenFamilyById now (rt_familyId t) db)"

section \<open>Rotation, one statement at a time\<close>

datatype rotate_pc =
    R_find
  | R_reuse refresh_row
  | R_user refresh_row
  | R_revoke refresh_row user_row
  | R_issue refresh_row user_row
  | R_done "rotate_error + token_pair"
  | R_threw

record rotate_args =
  ra_hash :: "string \<Rightarrow> string"
  ra_signAccess :: "string \<Rightarrow> string \<Rightarrow> string"
  ra_raw :: string
  ra_newId :: string
  ra_token :: string
  ra_newFamily :: string
  ra_checkedAt :: time
  ra_now :: time
  ra_issuedAt :: time

text \<open>\<open>ra_checkedAt\<close>, \<open>ra_now\<close> and \<open>ra_issuedAt\<close> are the clock readings of the expiry test, of the
  revocation and of the new expiry.\<close>

fun rotate_step :: "rotate_args \<Rightarrow> rotate_pc \<Rightarrow> token_db \<Rightarrow> rotate_pc \<times> token_db" where
  "rotate_step a R_find db = (case findRefreshTokenByRawToken (ra_hash a) (ra_raw a) db of
     None \<Rightarrow> (R_done (Inl (UnauthorizedError ''Invalid refresh token'')), db)
   | Some t \<Rightarrow>
       if rt_revokedAt t \<noteq> None then (R_reuse t, db)
       else if rt_expiresAt t < ra_checkedAt a then (R_done (Inl (UnauthorizedError ''Refresh token expired'')), db)
       else (R_user t, db))"
| "rotate_step a (R_reuse t) db =
     (R_done (Inl (ForbiddenError ''Refresh token reuse detected'' ''Token has already been used'')),
      revokeTokenFamilyById (ra_now a) (rt_familyId t) db)"
| "rotate_step a (R_user t) db = (case findUserById (rt_userId t) db of
     None \<Rightarrow> (R_done (Inl (UnauthorizedError ''Invalid refresh token'')), db)
   | Some u \<Rightarrow> (R_revoke t u, db))"
| "rotate_step a (R_revoke t u) db =
     (R_issue t u, db\<lparr>tk_tokens := update_where (\<lambda>r. rt_id r = rt_id t) (\<lambda>r. r\<lparr>rt_revokedAt := Some (ra_now a)\<rparr>) (tk_tokens db)\<rparr>)"
| "rotate_step a (R_issue t u) db =
     (case issueRefreshToken (ra_hash a) (ra_newId a) (ra_token a) (ra_newFamily a) (ra_issuedAt a)
             (rt_userId t) (Some (rt_familyId t)) (Some (rt_id t)) db of
        None \<Rightarrow> (R_threw, db)
      | Some (db', token, _, _) \<Rightarrow>
          (R_done (Inr \<lparr>accessToken = ra_signAccess a (u_id u) (u_stellarAddress u), refreshToken = token\<rparr>), db'))"
| "rotate_step a (R_done r) db = (R_done r, db)"
| "rotate_step a R_threw db = (R_threw, db)"

fun rotate_run :: "nat \<Rightarrow> rotate_args \<Rightarrow> rotate_pc \<Rightarrow> token_db \<Rightarrow> rotate_pc \<times> token_db" where
  "rotate_run 0 a pc db = (pc, db)"
| "rotate_run (Suc n) a pc db = (case rotate_step a pc db of (pc', db') \<Rightarrow> rotate_run n a pc' db')"

text \<open>Four statements are the longest path, so four steps end every request.\<close>

definition rotateRefreshToken :: "rotate_args \<Rightarrow> token_db \<Rightarrow> rotate_pc \<times> token_db" where
  "rotateRefreshToken a db = rotate_run 4 a R_find db"

section \<open>Families\<close>

definition active :: "refresh_row \<Rightarrow> bool" where
  "active t \<longleftrightarrow> rt_revokedAt t = None"

definition active_in :: "string \<Rightarrow> token_db \<Rightarrow> refresh_row list" where
  "active_in fam db = filter (\<lambda>t. active t \<and> rt_familyId t = fam) (tk_tokens db)"

definition families_ok :: "token_db \<Rightarrow> bool" where
  "families_ok db \<longleftrightarrow> key_unique rt_id (tk_tokens db) \<and> key_unique rt_familyId (filter active (tk_tokens db))
     \<and> (\<forall>t \<in> set (tk_tokens db). rt_familyId t \<noteq> [])"

lemma revoke_family_none: "active_in fam (revokeTokenFamilyById now fam db) = []"
proof -
  have "filter (\<lambda>t. active t \<and> rt_familyId t = fam)
      (update_where (\<lambda>t. rt_familyId t = fam \<and> rt_revokedAt t = None) (\<lambda>t. t\<lparr>rt_revokedAt := Some now\<rparr>) rows) = []"
    for rows :: "refresh_row table" by (induction rows) (auto simp: active_def)
  then show ?thesis by (simp add: active_in_def revokeTokenFamilyById_def)
qed

lemma revoke_some_ok:
  assumes "families_ok db"
  shows "families_ok (db\<lparr>tk_tokens := update_where P (\<lambda>t. t\<lparr>rt_revokedAt := Some now\<rparr>) (tk_tokens db)\<rparr>)"
proof -
  have "key_unique rt_familyId (filter active (update_where P (\<lambda>t. t\<lparr>rt_revokedAt := Some now\<rparr>) (tk_tokens db)))"
    using assms by (intro key_unique_filter_update) (simp_all add: families_ok_def active_def)
  with assms show ?thesis by (auto simp: families_ok_def set_update_where)
qed

lemma revoke_family_ok: "families_ok db \<Longrightarrow> families_ok (revokeTokenFamilyById now fam db)"
  unfolding revokeTokenFamilyById_def by (rule revoke_some_ok)

lemma rotate_find_some:
  "findRefreshTokenByRawToken h raw db = Some t \<Longrightarrow> t \<in> set (tk_tokens db) \<and> rt_tokenHash t = h raw"
  unfolding findRefreshTokenByRawToken_def by (rule select_first_SomeD)

text \<open>The answer and the tables of a completed rotation, by case.\<close>

definition revoke_presented :: "time \<Rightarrow> refresh_row \<Rightarrow> token_db \<Rightarrow> token_db" where
  "revoke_presented now t db =
     db\<lparr>tk_tokens := update_where (\<lambda>r. rt_id r = rt_id t) (\<lambda>r. r\<lparr>rt_revokedAt := Some now\<rparr>) (tk_tokens db)\<rparr>"

lemma rotate_cases:
  "rotateRefreshToken a db =
    (case findRefreshTokenByRawToken (ra_hash a) (ra_raw a) db of
       None \<Rightarrow> (R_done (Inl (UnauthorizedError ''Invalid refresh token'')), db)
     | Some t \<Rightarrow>
         if rt_revokedAt t \<noteq> None
         then (R_done (Inl (ForbiddenError ''Refresh token reuse detected'' ''Token has already been used'')),
               revokeTokenFamilyById (ra_now a) (rt_familyId t) db)
         else if rt_expiresAt t < ra_checkedAt a then (R_done (Inl (UnauthorizedError ''Refresh token expired'')), db)
         else (case findUserById (rt_userId t) db of
            None \<Rightarrow> (R_done (Inl (UnauthorizedError ''Invalid refresh token'')), db)
          | Some u \<Rightarrow> rotate_step a (R_issue t u) (revoke_presented (ra_now a) t db)))"
proof (cases "findRefreshTokenByRawToken (ra_hash a) (ra_raw a) db")
  case None
  then show ?thesis by (simp add: rotateRefreshToken_def eval_nat_numeral)
next
  case (Some t)
  then show ?thesis
    by (cases "findUserById (rt_userId t) db")
      (simp_all add: rotateRefreshToken_def eval_nat_numeral revoke_presented_def split: prod.split del: rotate_step.simps(5))
qed

lemma rotate_returns:
  "fst (rotateRefreshToken a db) = R_threw \<or> (\<exists>r. fst (rotateRefreshToken a db) = R_done r)"
  unfolding rotate_cases by (simp split: option.split)

lemma issue_ok:
  assumes "families_ok db" and "issueRefreshToken h nid tok nfam now uid f par db = Some (db', tk, ex, fam)"
    and "fam \<noteq> []" and "\<And>t. t \<in> set (tk_tokens db) \<Longrightarrow> active t \<Longrightarrow> rt_familyId t \<noteq> fam"
  shows "families_ok db'"
proof -
  from assms(2) have row: "\<exists>t. tk_tokens db' = tk_tokens db @ [t] \<and> rt_id t = nid \<and> rt_familyId t = fam \<and> active t"
    and nid: "nid \<notin> rt_id ` set (tk_tokens db)"
    by (auto simp: issueRefreshToken_def Let_def active_def split: if_splits)
  from row obtain t where "tk_tokens db' = tk_tokens db @ [t]" "rt_id t = nid" "rt_familyId t = fam" "active t"
    by blast
  moreover have "fam \<notin> rt_familyId ` set (filter active (tk_tokens db))" using assms(4) by fastforce
  ultimately show ?thesis using assms(1,3) nid by (auto simp: families_ok_def key_unique_snoc)
qed

lemma presented_was_last:
  assumes "families_ok db" and "t \<in> set (tk_tokens db)" and "active t"
    and "r \<in> set (tk_tokens (revoke_presented now t db))" and "active r"
  shows "rt_familyId r \<noteq> rt_familyId t"
proof
  assume same: "rt_familyId r = rt_familyId t"
  from assms(4,5) have r: "r \<in> set (tk_tokens db)" "rt_id r \<noteq> rt_id t"
    by (auto simp: revoke_presented_def set_update_where active_def split: if_splits)
  then have "r = t"
    using assms same by (intro key_unique_eq [of rt_familyId "filter active (tk_tokens db)"]) (auto simp: families_ok_def)
  with r show False by simp
qed

lemma rotate_ok:
  assumes ok: "families_ok db"
  shows "families_ok (snd (rotateRefreshToken a db))"
proof (cases "findRefreshTokenByRawToken (ra_hash a) (ra_raw a) db")
  case None
  with ok show ?thesis by (simp add: rotate_cases)
next
  case (Some t)
  then have t: "t \<in> set (tk_tokens db)" using rotate_find_some by blast
  let ?db = "revoke_presented (ra_now a) t db"
  have ok': "families_ok ?db" unfolding revoke_presented_def using ok by (rule revoke_some_ok)
  have issued: "families_ok (snd (rotate_step a (R_issue t u) ?db))" if "active t" for u
  proof (cases "issueRefreshToken (ra_hash a) (ra_newId a) (ra_token a) (ra_newFamily a) (ra_issuedAt a)
             (rt_userId t) (Some (rt_familyId t)) (Some (rt_id t)) ?db")
    case None
    with ok' show ?thesis by simp
  next
    case (Some x)
    obtain db' tk ex fam where x: "x = (db', tk, ex, fam)" by (metis prod_cases4)
    have "rt_familyId t \<noteq> []" using ok t by (simp add: families_ok_def)
    then have fam: "fam = rt_familyId t" using Some x by (auto simp: issueRefreshToken_def Let_def split: if_splits)
    have "families_ok db'"
      using ok' Some x fam \<open>rt_familyId t \<noteq> []\<close> presented_was_last [OF ok t that]
      by (intro issue_ok [OF ok', of _ _ _ _ _ _ _ _ db' tk ex fam]) auto
    with Some x show ?thesis by simp
  qed
  with Some ok revoke_family_ok show ?thesis by (simp add: rotate_cases active_def split: option.split)
qed

section \<open>Requests one after the other\<close>

text \<open>A caller that gives no family gets a token in a family of its own, under an identifier \<^verbatim>\<open>randomUUID\<close> has not
  returned before. (The service exports this for a login; no route under src calls it.)\<close>

inductive token_step :: "token_db \<Rightarrow> token_db \<Rightarrow> bool" where
  login: "issueRefreshToken h newId token newFamily now userId None None db = Some (db', r)
     \<Longrightarrow> newFamily \<noteq> [] \<Longrightarrow> newFamily \<notin> rt_familyId ` set (tk_tokens db) \<Longrightarrow> token_step db db'"
| rotate: "token_step db (snd (rotateRefreshToken a db))"
| logout: "token_step db (revokeFamily h now rawToken db)"

definition no_tokens :: "token_db \<Rightarrow> bool" where
  "no_tokens db \<longleftrightarrow> tk_tokens db = []"

interpretation families: inductive_invariant no_tokens token_step families_ok
proof unfold_locales
  fix s :: token_db
  assume "no_tokens s"
  then show "families_ok s" by (simp add: no_tokens_def families_ok_def key_unique_def)
next
  fix s t
  assume ok: "families_ok s" and "token_step s t"
  from this(2) show "families_ok t"
  proof cases
    case (login h newId token newFamily now userId r)
    obtain tk ex fam where r: "r = (tk, ex, fam)" by (cases r)
    then have "fam = newFamily" using login(1) by (auto simp: issueRefreshToken_def Let_def split: if_splits)
    with login r show ?thesis by (intro issue_ok [OF ok]) auto
  next
    case rotate
    with rotate_ok [OF ok] show ?thesis by simp
  next
    case logout
    with ok revoke_family_ok show ?thesis by (simp add: revokeFamily_def split: option.split)
  qed
qed

section \<open>Properties\<close>

lemma families_ok_at_most_one:
  assumes "families_ok db"
  shows "length (active_in fam db) \<le> 1"
proof -
  have "distinct (map rt_familyId rows) \<Longrightarrow> length (filter (\<lambda>t. rt_familyId t = fam) rows) \<le> 1"
    for rows :: "refresh_row list"
    by (induction rows) (auto simp: filter_empty_conv image_iff)
  from this [of "filter active (tk_tokens db)"] assms show ?thesis
    by (simp add: families_ok_def key_unique_def active_in_def conj_commute)
qed

text \<open>C11. However logins, rotations and logouts follow one another, each request run to its end before the
  next, at most one token of a family is active.\<close>

theorem one_active_per_family:
  assumes "reach no_tokens token_step db"
  shows "length (active_in fam db) \<le> 1"
  by (rule families_ok_at_most_one) (rule families.reach_inv [OF assms])

text \<open>A user, a login and a rotation, for the witnesses.\<close>

definition one_user :: token_db where
  "one_user = \<lparr>tk_tokens = [], tk_users = [\<lparr>u_id = ''u1'', u_stellarAddress = ''G1'', u_createdAt = 0\<rparr>]\<rparr>"

definition first_token :: refresh_row where
  "first_token = \<lparr>rt_id = ''t1'', rt_userId = ''u1'', rt_tokenHash = ''ra'', rt_familyId = ''f1'', rt_parentId = None,
     rt_expiresAt = REFRESH_TOKEN_TTL_MS, rt_revokedAt = None\<rparr>"

definition logged_in :: token_db where
  "logged_in = one_user\<lparr>tk_tokens := [first_token]\<rparr>"

definition rotate_a :: rotate_args where
  "rotate_a = \<lparr>ra_hash = rev, ra_signAccess = (\<lambda>i s. i @ s), ra_raw = ''ar'', ra_newId = ''t2'', ra_token = ''br'',
     ra_newFamily = ''f2'', ra_checkedAt = 10, ra_now = 11, ra_issuedAt = 12\<rparr>"

definition rotate_b :: rotate_args where
  "rotate_b = rotate_a\<lparr>ra_newId := ''t3'', ra_token := ''cr'', ra_checkedAt := 10, ra_now := 13, ra_issuedAt := 14\<rparr>"

lemmas token_examples = one_user_def first_token_def logged_in_def rotate_a_def rotate_b_def
  findRefreshTokenByRawToken_def findUserById_def revokeTokenFamilyById_def issueRefreshToken_def
  revoke_presented_def active_in_def active_def REFRESH_TOKEN_TTL_MS_def

lemma logged_in_reach: "reach no_tokens token_step logged_in"
proof (rule reach_step)
  show "reach no_tokens token_step one_user" by (rule reach_init) (simp add: no_tokens_def one_user_def)
  have "issueRefreshToken rev ''t1'' ''ar'' ''f1'' 0 ''u1'' None None one_user =
    Some (logged_in, ''ar'', REFRESH_TOKEN_TTL_MS, ''f1'')" by (simp add: token_examples Let_def)
  then show "token_step one_user logged_in" by (rule login) (simp_all add: one_user_def)
qed

theorem one_active_per_family_witness:
  "length (active_in ''f1'' (snd (rotateRefreshToken rotate_a logged_in))) \<le> 1
   \<and> active_in ''f1'' (snd (rotateRefreshToken rotate_a logged_in)) \<noteq> []"
proof (rule conjI)
  show "length (active_in ''f1'' (snd (rotateRefreshToken rotate_a logged_in))) \<le> 1"
    by (rule one_active_per_family [OF reach_step [OF logged_in_reach rotate]])
  show "active_in ''f1'' (snd (rotateRefreshToken rotate_a logged_in)) \<noteq> []"
    by (simp add: rotate_cases token_examples Let_def)
qed

lemma select_first_update_where:
  "(\<And>r. P (f r) = P r) \<Longrightarrow>
   select_first P (update_where Q f rows) = map_option (\<lambda>r. if Q r then f r else r) (select_first P rows)"
  by (induction rows) auto

lemma find_after_revoke:
  "findRefreshTokenByRawToken h raw (revoke_presented now t db) =
     map_option (\<lambda>r. if rt_id r = rt_id t then r\<lparr>rt_revokedAt := Some now\<rparr> else r) (findRefreshTokenByRawToken h raw db)"
  unfolding findRefreshTokenByRawToken_def revoke_presented_def
  by (simp add: select_first_update_where)

lemma find_after_issue:
  assumes "findRefreshTokenByRawToken h raw db = Some r"
  shows "findRefreshTokenByRawToken h raw (snd (rotate_step a (R_issue t u) db)) = Some r"
  using assms
  by (auto simp: findRefreshTokenByRawToken_def issueRefreshToken_def Let_def select_first_append split: option.split)

lemma rotate_InrD:
  assumes "rotateRefreshToken a db = (R_done (Inr pair), db')"
  obtains t u where "findRefreshTokenByRawToken (ra_hash a) (ra_raw a) db = Some t"
    and "rotate_step a (R_issue t u) (revoke_presented (ra_now a) t db) = (R_done (Inr pair), db')"
  using assms unfolding rotate_cases by (fastforce split: option.splits if_splits simp del: rotate_step.simps)

lemma other_family_kept:
  "f \<noteq> fam \<Longrightarrow> active_in f (revokeTokenFamilyById now fam db) = active_in f db"
proof -
  assume "f \<noteq> fam"
  then have "filter (\<lambda>t. active t \<and> rt_familyId t = f)
      (update_where (\<lambda>t. rt_familyId t = fam \<and> rt_revokedAt t = None) (\<lambda>t. t\<lparr>rt_revokedAt := Some now\<rparr>) rows)
    = filter (\<lambda>t. active t \<and> rt_familyId t = f) rows"
    for rows :: "refresh_row table" by (induction rows) (auto simp: active_def)
  then show ?thesis by (simp add: active_in_def revokeTokenFamilyById_def)
qed

text \<open>Reuse detection: once a token has been rotated, presenting it again is answered 403 and leaves no
  active token in its family, so the successor issued by the first rotation is dead too; the other
  families are untouched.\<close>

lemma reuse_revokes_family:
  assumes "rotateRefreshToken a db = (R_done (Inr pair), db1)"
    and "ra_hash b = ra_hash a" and "ra_raw b = ra_raw a"
  shows "\<exists>t db2. findRefreshTokenByRawToken (ra_hash a) (ra_raw a) db = Some t
    \<and> rotateRefreshToken b db1 =
        (R_done (Inl (ForbiddenError ''Refresh token reuse detected'' ''Token has already been used'')), db2)
    \<and> active_in (rt_familyId t) db2 = []
    \<and> (\<forall>f. f \<noteq> rt_familyId t \<longrightarrow> active_in f db2 = active_in f db1)"
proof -
  obtain t u where t: "findRefreshTokenByRawToken (ra_hash a) (ra_raw a) db = Some t"
    and step: "rotate_step a (R_issue t u) (revoke_presented (ra_now a) t db) = (R_done (Inr pair), db1)"
    by (rule rotate_InrD [OF assms(1)])
  have "findRefreshTokenByRawToken (ra_hash a) (ra_raw a) (revoke_presented (ra_now a) t db)
      = Some (t\<lparr>rt_revokedAt := Some (ra_now a)\<rparr>)" by (simp add: find_after_revoke t)
  from find_after_issue [OF this, of a t u] step
  have "findRefreshTokenByRawToken (ra_hash b) (ra_raw b) db1 = Some (t\<lparr>rt_revokedAt := Some (ra_now a)\<rparr>)"
    by (simp add: assms(2,3) del: rotate_step.simps)
  then have "rotateRefreshToken b db1 =
      (R_done (Inl (ForbiddenError ''Refresh token reuse detected'' ''Token has already been used'')),
       revokeTokenFamilyById (ra_now b) (rt_familyId t) db1)" by (simp add: rotate_cases)
  with t show ?thesis by (blast intro: revoke_family_none other_family_kept)
qed

lemma rotate_a_result:
  "rotateRefreshToken rotate_a logged_in = (R_done (Inr \<lparr>accessToken = ''u1G1'', refreshToken = ''br''\<rparr>),
     snd (rotateRefreshToken rotate_a logged_in))"
  by (simp add: rotate_cases token_examples Let_def)

lemma reuse_revokes_family_witness:
  "fst (rotateRefreshToken rotate_b (snd (rotateRefreshToken rotate_a logged_in))) =
     R_done (Inl (ForbiddenError ''Refresh token reuse detected'' ''Token has already been used''))
   \<and> active_in ''f1'' (snd (rotateRefreshToken rotate_b (snd (rotateRefreshToken rotate_a logged_in)))) = []"
proof -
  have "findRefreshTokenByRawToken (ra_hash rotate_a) (ra_raw rotate_a) logged_in = Some first_token"
    by (simp add: token_examples)
  then show ?thesis
    using reuse_revokes_family [OF rotate_a_result, of rotate_b] by (auto simp: rotate_b_def first_token_def)
qed

section \<open>Overlapping requests\<close>

fun interleave :: "rotate_args \<Rightarrow> rotate_args \<Rightarrow> bool list \<Rightarrow> rotate_pc \<times> rotate_pc \<times> token_db \<Rightarrow> rotate_pc \<times> rotate_pc \<times> token_db" where
  "interleave a b [] s = s"
| "interleave a b (first # sched) (pa, pb, db) =
     (if first then (case rotate_step a pa db of (pa', db') \<Rightarrow> interleave a b sched (pa', pb, db'))
      else (case rotate_step b pb db of (pb', db') \<Rightarrow> interleave a b sched (pa, pb', db')))"

definition insertable :: "rotate_args \<Rightarrow> token_db \<Rightarrow> bool" where
  "insertable a db \<longleftrightarrow> ra_newId a \<notin> rt_id ` set (tk_tokens db) \<and> ra_hash a (ra_token a) \<notin> rt_tokenHash ` set (tk_tokens db)"

definition alternating :: "bool list" where
  "alternating = [True, False, True, False, True, False, True, False]"

lemma insertable_revoke: "insertable a (revoke_presented now t db) = insertable a db"
proof -
  have "map rt_id (tk_tokens (revoke_presented now t db)) = map rt_id (tk_tokens db)"
    "map rt_tokenHash (tk_tokens (revoke_presented now t db)) = map rt_tokenHash (tk_tokens db)"
    by (simp_all add: revoke_presented_def map_update_where_frame)
  then show ?thesis unfolding insertable_def by (metis list.set_map)
qed

definition successor :: "rotate_args \<Rightarrow> refresh_row \<Rightarrow> refresh_row" where
  "successor a t = \<lparr>rt_id = ra_newId a, rt_userId = rt_userId t, rt_tokenHash = ra_hash a (ra_token a),
     rt_familyId = (if rt_familyId t = [] then ra_newFamily a else rt_familyId t),
     rt_parentId = (if rt_id t = [] then None else Some (rt_id t)),
     rt_expiresAt = ra_issuedAt a + REFRESH_TOKEN_TTL_MS, rt_revokedAt = None\<rparr>"

lemma issue_step:
  assumes "insertable a db" and "rt_userId t \<in> u_id ` set (tk_users db)"
  shows "rotate_step a (R_issue t u) db =
    (R_done (Inr \<lparr>accessToken = ra_signAccess a (u_id u) (u_stellarAddress u), refreshToken = ra_token a\<rparr>),
     db\<lparr>tk_tokens := tk_tokens db @ [successor a t]\<rparr>)"
  using assms by (simp add: insertable_def issueRefreshToken_def Let_def successor_def)

text \<open>Two overlapping requests that present the same active token both get a new token, and the family
  then has two active tokens: the reuse test reads \<^verbatim>\<open>revoked_at\<close> before the unconditional update that
  sets it, so a stolen token replayed at the same moment is not detected.\<close>

lemma concurrent_rotation_forks:
  assumes "findRefreshTokenByRawToken (ra_hash a) (ra_raw a) db = Some t" and "active t"
    and "rt_familyId t \<noteq> []" and "findUserById (rt_userId t) db = Some u"
    and "ra_hash b = ra_hash a" and "ra_raw b = ra_raw a"
    and "ra_checkedAt a \<le> rt_expiresAt t" and "ra_checkedAt b \<le> rt_expiresAt t"
    and "insertable a db" and "insertable b db"
    and "ra_newId a \<noteq> ra_newId b" and "ra_hash a (ra_token a) \<noteq> ra_hash a (ra_token b)"
  shows "\<exists>x y db'. interleave a b alternating (R_find, R_find, db) = (R_done (Inr x), R_done (Inr y), db')
    \<and> refreshToken x = ra_token a \<and> refreshToken y = ra_token b \<and> 2 \<le> length (active_in (rt_familyId t) db')"
proof -
  let ?d = "revoke_presented (ra_now b) t (revoke_presented (ra_now a) t db)"
  let ?da = "?d\<lparr>tk_tokens := tk_tokens ?d @ [successor a t]\<rparr>"
  have user: "rt_userId t \<in> u_id ` set (tk_users db)"
    using select_first_SomeD [OF assms(4) [unfolded findUserById_def]] by force
  then have users: "rt_userId t \<in> u_id ` set (tk_users ?d)" "rt_userId t \<in> u_id ` set (tk_users ?da)"
    by (simp_all add: revoke_presented_def)
  have a: "insertable a ?d" using assms(9) by (simp add: insertable_revoke)
  have "insertable b ?d" using assms(10) by (simp add: insertable_revoke)
  with assms(5,11,12) have b: "insertable b ?da" by (auto simp: insertable_def successor_def)
  have "interleave a b alternating (R_find, R_find, db) =
    (fst (rotate_step a (R_issue t u) ?d), rotate_step b (R_issue t u) (snd (rotate_step a (R_issue t u) ?d)))"
    using assms(1-8) unfolding alternating_def
    by (simp add: active_def not_less revoke_presented_def case_prod_beta del: rotate_step.simps(5))
  moreover note issue_step [OF a users(1), of u] issue_step [OF b users(2), of u]
  moreover have "2 \<le> length (active_in (rt_familyId t) (?da\<lparr>tk_tokens := tk_tokens ?da @ [successor b t]\<rparr>))"
    using assms(3) by (simp add: active_in_def active_def successor_def)
  ultimately show ?thesis by (simp del: rotate_step.simps)
qed

lemma concurrent_rotation_forks_witness:
  "2 \<le> length (active_in ''f1'' (snd (snd (interleave rotate_a rotate_b alternating (R_find, R_find, logged_in)))))"
proof -
  have "findRefreshTokenByRawToken (ra_hash rotate_a) (ra_raw rotate_a) logged_in = Some first_token"
    "findUserById (rt_userId first_token) logged_in = Some \<lparr>u_id = ''u1'', u_stellarAddress = ''G1'', u_createdAt = 0\<rparr>"
    by (simp_all add: token_examples)
  from concurrent_rotation_forks [OF this(1) _ _ this(2), of rotate_b]
  show ?thesis by (auto simp: token_examples insertable_def)
qed

end
