(* ===== verification/Request_Limits.thy ===== *)
theory Request_Limits
  imports Js_Numerals Complex_Main
begin

text \<open>
  The two in-process limiters: \<^verbatim>\<open>src/middleware/perUserConcurrency.ts\<close> caps the requests of one caller
  that are in flight, \<^verbatim>\<open>src/middleware/rateLimit.ts\<close> caps their rate with a token bucket.

  \<^item> A \<^verbatim>\<open>Map\<close> is an association list; a handler runs without interruption up to \<^verbatim>\<open>next()\<close>, so one
    call is one step.
  \<^item> \<open>concurrency_refines\<close>: the counters implement the abstract limiter that remembers nothing but how
    many admitted requests of each caller have not ended.
  \<^item> \<open>bucket_bound\<close>: whatever the order of requests and clock readings, a caller is admitted at most
    the capacity plus the refill of the observed time span.
  \<^item> Token counts are exact rationals; the rounding of doubles is not modelled.
\<close>

section \<open>Who is calling\<close>

text \<open>The parts of a request the limiters read. \<^verbatim>\<open>None\<close> is \<^verbatim>\<open>undefined\<close>.\<close>

record caller_request =
  rq_adminAddress :: "string option"
  rq_stellarAddress :: "string option"
  rq_address :: "string option"
  rq_sub :: "string option"
  rq_id :: "string option"
  rq_xForwardedFor :: "string option"
  rq_remoteAddress :: "string option"

text \<open>\<^verbatim>\<open>a ?? b\<close>\<close>

definition coalesce :: "'a option \<Rightarrow> 'a option \<Rightarrow> 'a option" where
  "coalesce a b = (case a of None \<Rightarrow> b | Some x \<Rightarrow> Some x)"

definition getClientIp :: "caller_request \<Rightarrow> string" where
  "getClientIp req =
    (let direct = (case rq_remoteAddress req of None \<Rightarrow> ''unknown'' | Some a \<Rightarrow> a)
     in case rq_xForwardedFor req of
          None \<Rightarrow> direct
        | Some xff \<Rightarrow>
            if js_trim xff \<noteq> []
            then (let firstHop = js_trim (takeWhile (\<lambda>c. c \<noteq> CHR '','') xff)
                  in if firstHop \<noteq> [] then firstHop else direct)
            else direct)"

definition resolveKey :: "caller_request \<Rightarrow> string" where
  "resolveKey req = (case coalesce (rq_id req) (rq_stellarAddress req) of
     Some identity \<Rightarrow> if js_trim identity \<noteq> [] then ''user:'' @ js_trim identity else ''ip:'' @ getClientIp req
   | None \<Rightarrow> ''ip:'' @ getClientIp req)"

definition getAuthenticatedUserKey :: "caller_request \<Rightarrow> string option" where
  "getAuthenticatedUserKey req =
    (case coalesce (rq_adminAddress req) (coalesce (rq_stellarAddress req)
            (coalesce (rq_address req) (coalesce (rq_sub req) (rq_id req)))) of
       None \<Rightarrow> None
     | Some identity \<Rightarrow> if js_trim identity = [] then None else Some (''user:'' @ js_trim identity))"

definition getUserRateKey :: "caller_request \<Rightarrow> string" where
  "getUserRateKey req = (case getAuthenticatedUserKey req of Some k \<Rightarrow> k | None \<Rightarrow> ''ip:'' @ getClientIp req)"

text \<open>An anonymous caller, who chooses \<^verbatim>\<open>X-Forwarded-For\<close>, cannot take the key of a signed-in one.\<close>

lemma anonymous_key_apart:
  assumes "getAuthenticatedUserKey req = None" and "getAuthenticatedUserKey req' \<noteq> None"
  shows "getUserRateKey req \<noteq> getUserRateKey req'"
  using assms by (auto simp: getUserRateKey_def getAuthenticatedUserKey_def split: option.splits if_splits)

section \<open>Requests in flight\<close>

type_synonym counters = "(string \<times> int) list"

definition concurrency_limit :: "rat option \<Rightarrow> int \<Rightarrow> int" where
  "concurrency_limit limit env = max 1 (case limit of None \<Rightarrow> env | Some l \<Rightarrow> \<lfloor>l\<rfloor>)"

definition counter :: "counters \<Rightarrow> string \<Rightarrow> int \<Rightarrow> int" where
  "counter cs key dflt = (case map_of cs key of None \<Rightarrow> dflt | Some n \<Rightarrow> n)"

definition enter :: "int \<Rightarrow> string \<Rightarrow> counters \<Rightarrow> counters \<times> bool" where
  "enter limit key cs =
    (let current = counter cs key 0 + 1;
         cs1 = AList.update key current cs
     in if limit < current then (AList.update key (current - 1) cs1, False) else (cs1, True))"

definition leave :: "string \<Rightarrow> counters \<Rightarrow> counters" where
  "leave key cs =
    (let after = max 0 (counter cs key 1 - 1)
     in if after = 0 then AList.delete key cs else AList.update key after cs)"

text \<open>An admitted request holds its key and the flag its two listeners share.\<close>

record admitted =
  adm_key :: string
  adm_decremented :: bool

record limiter =
  lm_counters :: counters
  lm_admitted :: "admitted list"

datatype limiter_event =
    Arrives string
  | Emits nat

text \<open>\<open>Arrives key\<close> is a call of the middleware; \<open>Emits i\<close> is a \<^verbatim>\<open>finish\<close> or \<^verbatim>\<open>close\<close> event of the response of
  the \<open>i\<close>-th admitted request, which may come once, twice or after other requests.\<close>

definition decrement :: "nat \<Rightarrow> limiter \<Rightarrow> limiter" where
  "decrement i st =
    (if i < length (lm_admitted st) \<and> \<not> adm_decremented (lm_admitted st ! i)
     then \<lparr>lm_counters = leave (adm_key (lm_admitted st ! i)) (lm_counters st),
           lm_admitted = (lm_admitted st)[i := (lm_admitted st ! i)\<lparr>adm_decremented := True\<rparr>]\<rparr>
     else st)"

definition perUserConcurrencyMiddleware :: "int \<Rightarrow> string \<Rightarrow> limiter \<Rightarrow> limiter \<times> bool" where
  "perUserConcurrencyMiddleware limit key st =
    (case enter limit key (lm_counters st) of
       (cs, False) \<Rightarrow> (st\<lparr>lm_counters := cs\<rparr>, False)
     | (cs, True) \<Rightarrow> (\<lparr>lm_counters = cs, lm_admitted = lm_admitted st @ [\<lparr>adm_key = key, adm_decremented = False\<rparr>]\<rparr>, True))"

fun limiter_step :: "int \<Rightarrow> limiter_event \<Rightarrow> limiter \<Rightarrow> limiter \<times> bool" where
  "limiter_step limit (Arrives key) st = perUserConcurrencyMiddleware limit key st"
| "limiter_step limit (Emits i) st = (decrement i st, True)"

definition no_requests :: limiter where
  "no_requests = \<lparr>lm_counters = [], lm_admitted = []\<rparr>"

subsection \<open>The abstract limiter\<close>

text \<open>The specification: the keys of the admitted requests that have not ended, \<open>None\<close> for an ended one. A
  caller is admitted exactly when fewer than \<open>limit\<close> of its requests are open.\<close>

type_synonym open_requests = "string option list"

definition open_count :: "string \<Rightarrow> open_requests \<Rightarrow> nat" where
  "open_count key os = length (filter (\<lambda>k. k = Some key) os)"

fun spec_step :: "int \<Rightarrow> limiter_event \<Rightarrow> open_requests \<Rightarrow> open_requests \<times> bool" where
  "spec_step limit (Arrives key) os =
    (if int (open_count key os) < limit then (os @ [Some key], True) else (os, False))"
| "spec_step limit (Emits i) os = (if i < length os then os[i := None] else os, True)"

definition abs_limiter :: "limiter \<Rightarrow> open_requests" where
  "abs_limiter st = map (\<lambda>a. if adm_decremented a then None else Some (adm_key a)) (lm_admitted st)"

text \<open>The coupling invariant: an entry of the \<^verbatim>\<open>Map\<close> is the number of open requests of its key, and a key
  without open requests has no entry.\<close>

definition coupled :: "limiter \<Rightarrow> bool" where
  "coupled st \<longleftrightarrow> (\<forall>key. map_of (lm_counters st) key =
     (if open_count key (abs_limiter st) = 0 then None else Some (int (open_count key (abs_limiter st)))))"

lemma open_count_snoc [simp]: "open_count key (os @ [o']) = open_count key os + (if o' = Some key then 1 else 0)"
  by (simp add: open_count_def)

lemma open_count_close:
  assumes "i < length os" and "os ! i = Some key'"
  shows "open_count key (os[i := None]) = open_count key os - (if key = key' then 1 else 0)
    \<and> 0 < open_count key' os"
  using assms
proof (induction os arbitrary: i)
  case (Cons x os)
  then show ?case
  proof (cases i)
    case 0
    with Cons.prems show ?thesis by (simp add: open_count_def)
  next
    case (Suc n)
    with Cons.prems Cons.IH [of n] show ?thesis by (auto simp: open_count_def)
  qed
qed simp

lemma abs_limiter_counters [simp]: "abs_limiter (st\<lparr>lm_counters := cs\<rparr>) = abs_limiter st"
  by (simp add: abs_limiter_def)

lemma counter_coupled:
  "coupled st \<Longrightarrow> counter (lm_counters st) key 0 = int (open_count key (abs_limiter st))"
  by (simp add: coupled_def counter_def)

lemma arrive_refines:
  assumes c: "coupled st" and "1 \<le> limit"
  shows "coupled (fst (perUserConcurrencyMiddleware limit key st))
    \<and> abs_limiter (fst (perUserConcurrencyMiddleware limit key st)) = fst (spec_step limit (Arrives key) (abs_limiter st))
    \<and> snd (perUserConcurrencyMiddleware limit key st) = snd (spec_step limit (Arrives key) (abs_limiter st))"
proof (cases "int (open_count key (abs_limiter st)) < limit")
  case True
  have "abs_limiter \<lparr>lm_counters = cs, lm_admitted = lm_admitted st @ [\<lparr>adm_key = key, adm_decremented = False\<rparr>]\<rparr>
      = abs_limiter st @ [Some key]" for cs by (simp add: abs_limiter_def)
  with True c show ?thesis
    by (auto simp: perUserConcurrencyMiddleware_def enter_def Let_def counter_coupled coupled_def update_conv')
next
  case False
  with assms(2) have "0 < open_count key (abs_limiter st)" by simp
  with False c show ?thesis
    by (auto simp: perUserConcurrencyMiddleware_def enter_def Let_def counter_coupled coupled_def update_conv')
qed

lemma abs_decrement:
  "abs_limiter (decrement i st) = (if i < length (abs_limiter st) then (abs_limiter st)[i := None] else abs_limiter st)"
  by (auto simp: abs_limiter_def decrement_def map_update intro!: nth_equalityI simp: nth_list_update)

lemma decrement_coupled:
  assumes c: "coupled st"
  shows "coupled (decrement i st)"
proof (cases "i < length (lm_admitted st) \<and> \<not> adm_decremented (lm_admitted st ! i)")
  case True
  let ?k = "adm_key (lm_admitted st ! i)" and ?os = "abs_limiter st"
  have os: "i < length ?os" "?os ! i = Some ?k" using True by (simp_all add: abs_limiter_def)
  note cl = open_count_close [OF os]
  have "lm_counters (decrement i st) = leave ?k (lm_counters st)" using True by (simp add: decrement_def)
  moreover have "counter (lm_counters st) ?k 1 = int (open_count ?k ?os)"
    using c cl by (auto simp: coupled_def counter_def)
  ultimately show ?thesis
    using c cl os(1) by (auto simp: coupled_def abs_decrement leave_def Let_def update_conv' delete_conv')
next
  case False
  with c show ?thesis by (auto simp: decrement_def)
qed

lemma limit_pos: "1 \<le> concurrency_limit l env"
  by (simp add: concurrency_limit_def)

lemma step_refines:
  assumes "coupled st" and "1 \<le> limit"
  shows "coupled (fst (limiter_step limit e st))
    \<and> abs_limiter (fst (limiter_step limit e st)) = fst (spec_step limit e (abs_limiter st))
    \<and> snd (limiter_step limit e st) = snd (spec_step limit e (abs_limiter st))"
proof (cases e)
  case (Arrives key)
  with arrive_refines [OF assms, of key] show ?thesis by simp
next
  case (Emits i)
  with decrement_coupled [OF assms(1), of i] show ?thesis by (simp add: abs_decrement)
qed

interpretation lim: functional_refinement "limiter_step (concurrency_limit l env)" "spec_step (concurrency_limit l env)"
  abs_limiter coupled for l env
  by unfold_locales (simp_all add: step_refines [OF _ limit_pos])

lemma no_requests_coupled: "coupled no_requests" "abs_limiter no_requests = []"
  by (simp_all add: coupled_def no_requests_def abs_limiter_def open_count_def)

lemma spec_bounded:
  assumes "\<forall>key. int (open_count key os) \<le> limit"
  shows "\<forall>key. int (open_count key (fst (run_ops (spec_step limit) es os))) \<le> limit"
  using assms
proof (induction es arbitrary: os)
  case (Cons e es)
  have "int (open_count key (fst (spec_step limit e os))) \<le> limit" for key
  proof (cases e)
    case (Arrives k)
    with Cons.prems show ?thesis by (cases "k = key") auto
  next
    case (Emits i)
    have "i < length os \<Longrightarrow> open_count key (os[i := None]) \<le> open_count key os"
      using open_count_close [of i os _ key] by (cases "os ! i") (auto simp: list_update_id, metis list_update_id order_refl)
    with Emits Cons.prems show ?thesis by (auto intro: order_trans [OF _ Cons.prems [rule_format]])
  qed
  with Cons.IH show ?case by (simp add: case_prod_beta)
qed simp

text \<open>C9. The counting middleware refines the abstract limiter: for every sequence of arriving requests and of
  \<^verbatim>\<open>finish\<close>/\<^verbatim>\<open>close\<close> events (in any order, repeated, with any configured limit) the answers are those of the
  specification, which admits a caller exactly when fewer than the limit of its requests are open; so a
  caller never has more than the limit open, and a caller without open requests has no entry in the
  \<^verbatim>\<open>Map\<close>.\<close>

theorem concurrency_refines:
  "run_ops (spec_step (concurrency_limit l env)) es [] =
     (abs_limiter (fst (run_ops (limiter_step (concurrency_limit l env)) es no_requests)),
      snd (run_ops (limiter_step (concurrency_limit l env)) es no_requests))
   \<and> int (open_count key (abs_limiter (fst (run_ops (limiter_step (concurrency_limit l env)) es no_requests))))
        \<le> concurrency_limit l env
   \<and> (key \<in> fst ` set (lm_counters (fst (run_ops (limiter_step (concurrency_limit l env)) es no_requests))) \<longleftrightarrow>
        0 < open_count key (abs_limiter (fst (run_ops (limiter_step (concurrency_limit l env)) es no_requests))))"
proof -
  let ?st = "fst (run_ops (limiter_step (concurrency_limit l env)) es no_requests)"
  note run = lim.run_refines [OF no_requests_coupled(1), of l env es, unfolded no_requests_coupled(2)]
  have "open_count k [] = 0" for k by (simp add: open_count_def)
  then have "int (open_count key (abs_limiter ?st)) \<le> concurrency_limit l env"
    using spec_bounded [of "[]" "concurrency_limit l env" es] run limit_pos [of l env] by (simp add: order_trans)
  moreover have "key \<in> fst ` set (lm_counters ?st) \<longleftrightarrow> 0 < open_count key (abs_limiter ?st)"
    using run map_of_eq_None_iff [of "lm_counters ?st" key] by (auto simp: coupled_def split: if_splits)
  ultimately show ?thesis using run by blast
qed

section \<open>The token bucket\<close>

record bucket =
  tokens :: rat
  lastRefillAt :: time

type_synonym buckets = "(string \<times> bucket) list"

record bucket_config =
  bc_capacity :: int
  bc_refillWindowMs :: int

definition bucket_config_of :: "rat option \<Rightarrow> rat option \<Rightarrow> bucket_config" where
  "bucket_config_of capacity refillWindowMs =
    \<lparr>bc_capacity = max 1 \<lfloor>case capacity of None \<Rightarrow> 60 | Some c \<Rightarrow> c\<rfloor>,
     bc_refillWindowMs = max 1 \<lfloor>case refillWindowMs of None \<Rightarrow> 60 * 1000 | Some w \<Rightarrow> w\<rfloor>\<rparr>"

definition refillRatePerMs :: "bucket_config \<Rightarrow> rat" where
  "refillRatePerMs cfg = of_int (bc_capacity cfg) / of_int (bc_refillWindowMs cfg)"

definition refill :: "bucket_config \<Rightarrow> time \<Rightarrow> bucket \<Rightarrow> bucket" where
  "refill cfg now b =
    (if lastRefillAt b < now
     then \<lparr>tokens = min (of_int (bc_capacity cfg)) (tokens b + of_int (now - lastRefillAt b) * refillRatePerMs cfg),
           lastRefillAt = now\<rparr>
     else b)"

definition msUntilNextToken :: "bucket_config \<Rightarrow> rat \<Rightarrow> int" where
  "msUntilNextToken cfg tk = max 1 \<lceil>(1 - tk) / refillRatePerMs cfg\<rceil>"

text \<open>\<open>Limited retryAfter resetSeconds resetAt\<close> is the 429 answer with its headers, \<open>Passed remaining resetSeconds
  resetAt\<close> the headers of an admitted request; \<open>resetAt\<close> is the instant that is printed in ISO form.\<close>

datatype bucket_answer =
    Limited int int time
  | Passed int int time

definition bucket_key :: "string option \<Rightarrow> caller_request \<Rightarrow> string" where
  "bucket_key overrideKey req = (case overrideKey of
     Some k \<Rightarrow> if js_trim k \<noteq> [] then k else getUserRateKey req
   | None \<Rightarrow> getUserRateKey req)"

text \<open>The \<^verbatim>\<open>Map\<close> holds the bucket object itself, so the refill of a refused request is kept; an object that
  was made for this request enters the \<^verbatim>\<open>Map\<close> only when the request passes.\<close>

definition token_bucket :: "bucket_config \<Rightarrow> time \<Rightarrow> string \<Rightarrow> buckets \<Rightarrow> buckets \<times> bucket_answer" where
  "token_bucket cfg now key bs =
    (let known = map_of bs key;
         b = refill cfg now (case known of None \<Rightarrow> \<lparr>tokens = of_int (bc_capacity cfg), lastRefillAt = now\<rparr> | Some b \<Rightarrow> b)
     in if tokens b < 1
        then (let ms = msUntilNextToken cfg (tokens b)
              in (if known = None then bs else AList.update key b bs,
                  Limited (max 1 \<lceil>(of_int ms :: rat) / 1000\<rceil>) \<lceil>(of_int (now + ms) :: rat) / 1000\<rceil> (now + ms)))
        else (let b' = b\<lparr>tokens := max 0 (tokens b - 1)\<rparr>;
                  ms = msUntilNextToken cfg (tokens b')
              in (AList.update key b' bs,
                  Passed \<lfloor>tokens b'\<rfloor> \<lceil>(of_int (now + ms) :: rat) / 1000\<rceil> (now + ms))))"

fun is_passed :: "bucket_answer \<Rightarrow> bool" where
  "is_passed (Passed _ _ _) = True"
| "is_passed (Limited _ _ _) = False"

subsection \<open>How many requests pass\<close>

definition bucket_step :: "bucket_config \<Rightarrow> time \<times> string \<Rightarrow> buckets \<Rightarrow> buckets \<times> bucket_answer" where
  "bucket_step cfg e bs = token_bucket cfg (fst e) (snd e) bs"

definition passed_for :: "string \<Rightarrow> (time \<times> string) list \<Rightarrow> bucket_answer list \<Rightarrow> nat" where
  "passed_for key es outs = length (filter (\<lambda>(e, out). snd e = key \<and> is_passed out) (zip es outs))"

definition buckets_ok :: "bucket_config \<Rightarrow> buckets \<Rightarrow> bool" where
  "buckets_ok cfg bs \<longleftrightarrow> (\<forall>k b. map_of bs k = Some b \<longrightarrow> 0 \<le> tokens b \<and> tokens b \<le> of_int (bc_capacity cfg))"

text \<open>What the bucket can still hand out until \<open>b\<close>, seen from time \<open>a\<close>: the tokens it has at \<open>a\<close> and the refill
  from then on.\<close>

definition allowance :: "bucket_config \<Rightarrow> time \<Rightarrow> time \<Rightarrow> bucket \<Rightarrow> rat" where
  "allowance cfg a b bk =
     min (of_int (bc_capacity cfg)) (tokens bk + of_int (max 0 (a - lastRefillAt bk)) * refillRatePerMs cfg)
     + of_int (max 0 (b - max a (lastRefillAt bk))) * refillRatePerMs cfg"

lemma config_pos: "1 \<le> bc_capacity (bucket_config_of c w) \<and> 1 \<le> bc_refillWindowMs (bucket_config_of c w)"
  by (simp add: bucket_config_of_def)

lemma rate_pos: "0 < refillRatePerMs (bucket_config_of c w)"
  using config_pos [of c w] by (simp add: refillRatePerMs_def)

lemma min_add_shift: "0 \<le> z \<Longrightarrow> min c (x + (y + z)) \<le> min c (x + y) + (z :: rat)"
  by (simp add: min_def)

lemma allowance_refill:
  assumes r: "0 \<le> refillRatePerMs cfg" and "a \<le> now" and "now \<le> b"
  shows "allowance cfg a b (refill cfg now bk) \<le> allowance cfg a b bk"
proof (cases "lastRefillAt bk < now")
  case True
  let ?r = "refillRatePerMs cfg" and ?l = "lastRefillAt bk" and ?m = "max a (lastRefillAt bk)"
  have split: "now - ?l = max 0 (a - ?l) + (now - ?m)" "max 0 (b - ?m) = (now - ?m) + (b - now)" "0 \<le> now - ?m"
    using True assms(2,3) by auto
  have "of_int (now - ?l) * ?r = of_int (max 0 (a - ?l)) * ?r + of_int (now - ?m) * ?r"
    by (subst split(1)) (simp only: of_int_add distrib_right)
  moreover have "of_int (max 0 (b - ?m)) * ?r = of_int (now - ?m) * ?r + of_int (b - now) * ?r"
    by (subst split(2)) (simp only: of_int_add distrib_right)
  moreover have "0 \<le> of_int (now - ?m) * ?r" using split(3) r by (intro mult_nonneg_nonneg) simp_all
  moreover have "max 0 (a - now) = 0" "max 0 (b - max a now) = b - now" using assms(2,3) by auto
  ultimately show ?thesis using True by (simp add: allowance_def refill_def min_add_shift del: of_int_diff)
next
  case False
  then show ?thesis by (simp add: refill_def)
qed

lemma allowance_spend:
  assumes "a \<le> lastRefillAt bk" and "1 \<le> tokens bk" and "tokens bk \<le> of_int (bc_capacity cfg)"
  shows "allowance cfg a b (bk\<lparr>tokens := max 0 (tokens bk - 1)\<rparr>) = allowance cfg a b bk - 1"
  using assms by (simp add: allowance_def)

lemma allowance_nonneg:
  "0 \<le> refillRatePerMs cfg \<Longrightarrow> 0 \<le> tokens bk \<Longrightarrow> 0 \<le> bc_capacity cfg \<Longrightarrow> 0 \<le> allowance cfg a b bk"
  by (simp add: allowance_def)

lemma refill_ok:
  assumes "0 \<le> refillRatePerMs cfg" and "0 \<le> bc_capacity cfg"
    and "0 \<le> tokens bk" and "tokens bk \<le> of_int (bc_capacity cfg)"
  shows "0 \<le> tokens (refill cfg now bk) \<and> tokens (refill cfg now bk) \<le> of_int (bc_capacity cfg)
    \<and> now \<le> lastRefillAt (refill cfg now bk)"
  using assms by (auto simp: refill_def)

text \<open>The bucket the handler works on, and the allowance of a key, whose bucket is full while it is absent.\<close>

definition known_bucket :: "bucket_config \<Rightarrow> time \<Rightarrow> string \<Rightarrow> buckets \<Rightarrow> bucket" where
  "known_bucket cfg now key bs =
    (case map_of bs key of None \<Rightarrow> \<lparr>tokens = of_int (bc_capacity cfg), lastRefillAt = now\<rparr> | Some b \<Rightarrow> b)"

definition key_allowance :: "bucket_config \<Rightarrow> time \<Rightarrow> time \<Rightarrow> string \<Rightarrow> buckets \<Rightarrow> rat" where
  "key_allowance cfg a b key bs = (case map_of bs key of
     None \<Rightarrow> of_int (bc_capacity cfg) + of_int (b - a) * refillRatePerMs cfg
   | Some bk \<Rightarrow> allowance cfg a b bk)"

lemma known_allowance:
  assumes "0 \<le> refillRatePerMs cfg" and "a \<le> now" and "now \<le> b"
  shows "allowance cfg a b (known_bucket cfg now key bs) \<le> key_allowance cfg a b key bs"
proof (cases "map_of bs key")
  case None
  have "max 0 (a - now) = 0" "max 0 (b - max a now) = b - now" using assms(2,3) by auto
  moreover have "of_int (b - now) * refillRatePerMs cfg \<le> of_int (b - a) * refillRatePerMs cfg"
    using assms by (intro mult_right_mono) simp_all
  ultimately show ?thesis using None by (simp add: known_bucket_def key_allowance_def allowance_def del: of_int_diff)
next
  case (Some bk)
  then show ?thesis by (simp add: known_bucket_def key_allowance_def)
qed

lemma bucket_step_case:
  assumes cfg: "0 \<le> refillRatePerMs cfg" "1 \<le> bc_capacity cfg" and ok: "buckets_ok cfg bs"
  shows "buckets_ok cfg (fst (token_bucket cfg now key bs))
    \<and> (\<forall>k. k \<noteq> key \<longrightarrow> map_of (fst (token_bucket cfg now key bs)) k = map_of bs k)
    \<and> (a \<le> now \<and> now \<le> b \<longrightarrow>
        key_allowance cfg a b key (fst (token_bucket cfg now key bs))
          + (if is_passed (snd (token_bucket cfg now key bs)) then 1 else 0) \<le> key_allowance cfg a b key bs)"
proof -
  let ?k = "known_bucket cfg now key bs"
  let ?b = "refill cfg now ?k"
  have k: "0 \<le> tokens ?k" "tokens ?k \<le> of_int (bc_capacity cfg)"
    using ok cfg(2) by (auto simp: known_bucket_def buckets_ok_def split: option.split)
  note b = refill_ok [OF cfg(1) _ k, of now]
  have le: "a \<le> now \<Longrightarrow> now \<le> b \<Longrightarrow> allowance cfg a b ?b \<le> key_allowance cfg a b key bs"
    using allowance_refill [OF cfg(1)] known_allowance [OF cfg(1)] by (meson order_trans)
  show ?thesis
  proof (cases "tokens ?b < 1")
    case True
    have known: "map_of bs key \<noteq> None"
    proof
      assume "map_of bs key = None"
      with True cfg(2) show False by (simp add: known_bucket_def refill_def)
    qed
    with True have "token_bucket cfg now key bs = (AList.update key ?b bs, snd (token_bucket cfg now key bs))"
      and "\<not> is_passed (snd (token_bucket cfg now key bs))"
      by (auto simp: token_bucket_def Let_def simp flip: known_bucket_def)
    with ok b cfg le show ?thesis
      by (cases "token_bucket cfg now key bs") (auto simp: buckets_ok_def update_conv' key_allowance_def)
  next
    case False
    let ?b' = "?b\<lparr>tokens := max 0 (tokens ?b - 1)\<rparr>"
    from False have "token_bucket cfg now key bs = (AList.update key ?b' bs, snd (token_bucket cfg now key bs))"
      and "is_passed (snd (token_bucket cfg now key bs))"
      by (simp_all add: token_bucket_def Let_def flip: known_bucket_def)
    moreover have "a \<le> now \<Longrightarrow> allowance cfg a b ?b' = allowance cfg a b ?b - 1"
      using False b cfg by (intro allowance_spend) auto
    ultimately show ?thesis using ok b cfg le False
      by (cases "token_bucket cfg now key bs") (auto simp: buckets_ok_def update_conv' key_allowance_def)
  qed
qed

lemma passed_for_Cons:
  "passed_for key (e # es) (out # outs) =
     (if snd e = key \<and> is_passed out then 1 else 0) + passed_for key es outs"
  by (simp add: passed_for_def)

lemma run_allowance:
  assumes cfg: "0 \<le> refillRatePerMs cfg" "1 \<le> bc_capacity cfg" and "buckets_ok cfg bs"
    and "\<forall>e \<in> set es. a \<le> fst e \<and> fst e \<le> b" and "a \<le> b"
  shows "of_nat (passed_for key es (snd (run_ops (bucket_step cfg) es bs))) \<le> key_allowance cfg a b key bs"
  using assms(3,4)
proof (induction es arbitrary: bs)
  case Nil
  then show ?case using cfg assms(5) allowance_nonneg [OF cfg(1)]
    by (auto simp: passed_for_def key_allowance_def buckets_ok_def split: option.split)
next
  case (Cons e es)
  obtain now k where e: "e = (now, k)" by (cases e)
  obtain bs1 out where s: "token_bucket cfg now k bs = (bs1, out)" by fastforce
  note step = bucket_step_case [OF cfg Cons.prems(1), of now k a b, unfolded s fst_conv snd_conv]
  have "of_nat (passed_for key es (snd (run_ops (bucket_step cfg) es bs1))) \<le> key_allowance cfg a b key bs1"
    using Cons step by simp
  moreover have "key_allowance cfg a b key bs1 + (if k = key \<and> is_passed out then 1 else 0) \<le> key_allowance cfg a b key bs"
    using step Cons.prems(2) e by (cases "k = key") (auto simp: key_allowance_def)
  moreover have "bucket_step cfg e bs = (bs1, out)" by (simp add: bucket_step_def e s)
  ultimately show ?case by (auto simp: e passed_for_Cons case_prod_beta split: if_splits)
qed

lemma key_allowance_le:
  assumes "0 \<le> refillRatePerMs cfg" and "a \<le> b"
  shows "key_allowance cfg a b key bs \<le> of_int (bc_capacity cfg) + of_int (b - a) * refillRatePerMs cfg"
proof (cases "map_of bs key")
  case (Some bk)
  have "of_int (max 0 (b - max a (lastRefillAt bk))) * refillRatePerMs cfg \<le> of_int (b - a) * refillRatePerMs cfg"
    using assms by (intro mult_right_mono) simp_all
  with Some show ?thesis by (simp add: key_allowance_def allowance_def add_mono del: of_int_diff)
qed (simp add: key_allowance_def)

lemma run_ok:
  assumes "0 \<le> refillRatePerMs cfg" "1 \<le> bc_capacity cfg" and "buckets_ok cfg bs"
  shows "buckets_ok cfg (fst (run_ops (bucket_step cfg) es bs))"
  using assms(3)
proof (induction es arbitrary: bs)
  case (Cons e es)
  from Cons.IH bucket_step_case [OF assms(1,2) Cons.prems, of "fst e" "snd e"] show ?case
    by (simp add: case_prod_beta bucket_step_def)
qed simp

text \<open>The rate bound: however many requests, from whatever callers, arrived before (\<open>past\<close>), among requests
  whose clock readings lie between \<open>a\<close> and \<open>b\<close>, in any order, at most \<open>capacity + (b - a) * capacity / window\<close>
  of one caller pass.\<close>

lemma bucket_bound:
  assumes "cfg = bucket_config_of c w" and "\<forall>e \<in> set es. a \<le> fst e \<and> fst e \<le> b" and "a \<le> b"
  shows "of_nat (passed_for key es (snd (run_ops (bucket_step cfg) es (fst (run_ops (bucket_step cfg) past [])))))
    \<le> of_int (bc_capacity cfg) + (of_int ((b - a) * bc_capacity cfg) / of_int (bc_refillWindowMs cfg) :: rat)"
proof -
  have r: "0 \<le> refillRatePerMs cfg" and cap: "1 \<le> bc_capacity cfg"
    using rate_pos [of c w] config_pos [of c w] by (simp_all add: assms(1))
  have ok: "buckets_ok cfg (fst (run_ops (bucket_step cfg) past []))"
    by (rule run_ok [OF r cap]) (simp add: buckets_ok_def)
  from order_trans [OF run_allowance [OF r cap ok assms(2,3)] key_allowance_le [OF r assms(3)]]
  show ?thesis by (simp add: refillRatePerMs_def)
qed

text \<open>Three requests in one millisecond with a capacity of two: the third is refused.\<close>

lemma bucket_bound_witness:
  "passed_for ''user:a'' [(5, ''user:a''), (5, ''user:a''), (5, ''user:a'')]
     (snd (run_ops (bucket_step (bucket_config_of (Some 2) (Some 1000)))
        [(5, ''user:a''), (5, ''user:a''), (5, ''user:a'')] [])) = 2"
proof -
  let ?cfg = "bucket_config_of (Some 2) (Some 1000)" and ?es = "[(5, ''user:a''), (5, ''user:a''), (5, ''user:a'')]"
  have cap: "bc_capacity ?cfg = 2" by (simp add: bucket_config_of_def)
  have "of_nat (passed_for ''user:a'' ?es (snd (run_ops (bucket_step ?cfg) ?es (fst (run_ops (bucket_step ?cfg) [] []))))) \<le> (2 :: rat)"
    using bucket_bound [OF refl, of ?es 5 5 "''user:a''" "Some 2" "Some 1000" "[]"] by (simp add: cap)
  then have "passed_for ''user:a'' ?es (snd (run_ops (bucket_step ?cfg) ?es [])) \<le> 2" by simp
  moreover have "2 \<le> passed_for ''user:a'' ?es (snd (run_ops (bucket_step ?cfg) ?es []))" by code_simp
  ultimately show ?thesis by simp
qed

text \<open>A refused caller that waits until the announced reset passes.\<close>

lemma refused_then_passes:
  assumes cfg: "cfg = bucket_config_of c w" and "map_of bs key = Some b" and "lastRefillAt b \<le> now"
    and "token_bucket cfg now key bs = (bs1, Limited retryAfter resetSeconds resetAt)" and "resetAt \<le> now'"
  shows "is_passed (snd (token_bucket cfg now' key bs1))"
proof -
  let ?b = "refill cfg now b" and ?r = "refillRatePerMs cfg"
  have r: "0 < ?r" and cap: "1 \<le> bc_capacity cfg" using rate_pos [of c w] config_pos [of c w] by (simp_all add: cfg)
  from assms(2,4) have bs1: "bs1 = AList.update key ?b bs" and at: "resetAt = now + msUntilNextToken cfg (tokens ?b)"
    by (auto simp: token_bucket_def Let_def split: if_splits)
  have last: "lastRefillAt ?b = now" using assms(3) by (auto simp: refill_def)
  have "(1 - tokens ?b) / ?r \<le> of_int (msUntilNextToken cfg (tokens ?b))"
    unfolding msUntilNextToken_def by (meson le_of_int_ceiling max.cobounded2 of_int_le_iff order_trans)
  also have "\<dots> \<le> of_int (now' - now)" using at assms(5) by (simp only: of_int_le_iff)
  finally have "1 - tokens ?b \<le> of_int (now' - now) * ?r" using r by (simp add: pos_divide_le_eq)
  moreover have "now < now'" using at assms(5) by (simp add: msUntilNextToken_def)
  ultimately have "\<not> tokens (refill cfg now' ?b) < 1" using last cap by (simp add: refill_def)
  then show ?thesis by (simp add: token_bucket_def Let_def bs1 update_conv')
qed

end
