(* ===== verification/Circuit_Breaker.thy ===== *)
theory Circuit_Breaker
  imports Prelude
begin

text \<open>
  The in-process circuit breaker, \<^verbatim>\<open>src/lib/circuitBreaker.ts\<close>. A call of \<^verbatim>\<open>fire\<close> is two steps, what happens
  before \<^verbatim>\<open>await fn()\<close> and what happens after it, so that calls overlap; the state captured by the first
  part travels with the call. \<open>breaker_step\<close> is the system of one breaker and the calls in flight.

  \<^item> \<open>single_probe\<close>: without a manual reset, at most one call that saw the half-open state is in flight.
  \<^item> \<open>trips_until_stale_success\<close>: the threshold number of failures opens it and new calls are refused until the
    reset delay has passed; an older call that succeeds in between closes it at once.
\<close>

section \<open>State\<close>

datatype circuit_state = CLOSED | OPEN | HALF_OPEN

record breaker_config =
  cb_name :: string
  cb_failureThreshold :: int
  cb_windowMs :: int
  cb_resetTimeoutMs :: int

record breaker_options =
  bo_failureThreshold :: "int option"
  bo_windowMs :: "int option"
  bo_resetTimeoutMs :: "int option"
  bo_cooldownPeriodMs :: "int option"

record breaker =
  currentState :: circuit_state
  failures :: "time list"
  openedAt :: time
  halfOpenProbeInFlight :: bool

definition new_breaker :: breaker where
  "new_breaker = \<lparr>currentState = CLOSED, failures = [], openedAt = 0, halfOpenProbeInFlight = False\<rparr>"

definition or_else :: "'a option \<Rightarrow> 'a \<Rightarrow> 'a" where
  "or_else x d = (case x of None \<Rightarrow> d | Some v \<Rightarrow> v)"

definition breaker_config_of :: "string \<Rightarrow> breaker_options \<Rightarrow> breaker_config" where
  "breaker_config_of name opts =
    \<lparr>cb_name = name,
     cb_failureThreshold = or_else (bo_failureThreshold opts) 5,
     cb_windowMs = or_else (bo_windowMs opts) 60000,
     cb_resetTimeoutMs = (case bo_resetTimeoutMs opts of Some r \<Rightarrow> r | None \<Rightarrow> or_else (bo_cooldownPeriodMs opts) 30000)\<rparr>"

section \<open>Operations\<close>

definition getState :: "breaker_config \<Rightarrow> time \<Rightarrow> breaker \<Rightarrow> breaker \<times> circuit_state" where
  "getState cfg now b =
    (let b' = (if currentState b = OPEN \<and> cb_resetTimeoutMs cfg \<le> now - openedAt b then b\<lparr>currentState := HALF_OPEN\<rparr> else b)
     in (b', currentState b'))"

definition open_breaker :: "time \<Rightarrow> breaker \<Rightarrow> breaker" where
  "open_breaker now b = b\<lparr>currentState := OPEN, openedAt := now\<rparr>"

text \<open>The clock is read for the cutoff, for the entry and for the opening.\<close>

definition recordFailure :: "breaker_config \<Rightarrow> time \<times> time \<times> time \<Rightarrow> circuit_state \<Rightarrow> breaker \<Rightarrow> breaker" where
  "recordFailure cfg t state b = (case t of (t1, t2, t3) \<Rightarrow>
    (if state = HALF_OPEN then open_breaker t3 b
     else (let cutoff = t1 - cb_windowMs cfg;
               b1 = b\<lparr>failures := filter (\<lambda>ts. cutoff \<le> ts) (failures b) @ [t2]\<rparr>
           in if cb_failureThreshold cfg \<le> int (length (failures b1)) then open_breaker t3 b1 else b1)))"

text \<open>\<open>Inl state\<close> is the \<^verbatim>\<open>CircuitBreakerOpenError\<close>, \<open>Inr state\<close> the captured state of a call that goes on.\<close>

definition fire_begin :: "breaker_config \<Rightarrow> time \<Rightarrow> breaker \<Rightarrow> breaker \<times> (circuit_state + circuit_state)" where
  "fire_begin cfg now b =
    (case getState cfg now b of (b1, state) \<Rightarrow>
       if state = OPEN \<or> (state = HALF_OPEN \<and> halfOpenProbeInFlight b1) then (b1, Inl state)
       else (if state = HALF_OPEN then b1\<lparr>halfOpenProbeInFlight := True\<rparr> else b1, Inr state))"

definition fire_finally :: "circuit_state \<Rightarrow> breaker \<Rightarrow> breaker" where
  "fire_finally state b = (if state = HALF_OPEN then b\<lparr>halfOpenProbeInFlight := False\<rparr> else b)"

definition fire_success :: "circuit_state \<Rightarrow> breaker \<Rightarrow> breaker" where
  "fire_success state b = fire_finally state (b\<lparr>currentState := CLOSED, failures := []\<rparr>)"

definition fire_failure :: "breaker_config \<Rightarrow> time \<times> time \<times> time \<Rightarrow> circuit_state \<Rightarrow> breaker \<Rightarrow> breaker" where
  "fire_failure cfg t state b = fire_finally state (recordFailure cfg t state b)"

definition reset_breaker :: "breaker \<Rightarrow> breaker" where
  "reset_breaker b = \<lparr>currentState = CLOSED, failures = [], openedAt = 0, halfOpenProbeInFlight = False\<rparr>"

record breaker_snapshot =
  sn_state :: circuit_state
  sn_breakerName :: string
  sn_circuitName :: string
  sn_openedAt :: time
  sn_halfOpenAfterMs :: int

definition snapshot :: "breaker_config \<Rightarrow> time \<Rightarrow> breaker \<Rightarrow> breaker \<times> breaker_snapshot" where
  "snapshot cfg now b = (case getState cfg now b of (b1, state) \<Rightarrow>
     (b1, \<lparr>sn_state = state, sn_breakerName = cb_name cfg, sn_circuitName = cb_name cfg,
           sn_openedAt = openedAt b1, sn_halfOpenAfterMs = cb_resetTimeoutMs cfg\<rparr>))"

type_synonym breakers = "(string \<times> breaker_config \<times> breaker) list"

text \<open>The registry: the options of the first request for a name stay.\<close>

definition getCircuitBreaker :: "string \<Rightarrow> breaker_options \<Rightarrow> breakers \<Rightarrow> breakers \<times> breaker_config \<times> breaker" where
  "getCircuitBreaker name opts bs = (case map_of bs name of
     Some x \<Rightarrow> (bs, x)
   | None \<Rightarrow> (let x = (breaker_config_of name opts, new_breaker) in (AList.update name x bs, x)))"

lemma getCircuitBreaker_stable:
  "snd (getCircuitBreaker name opts' (fst (getCircuitBreaker name opts bs))) = snd (getCircuitBreaker name opts bs)"
  by (simp add: getCircuitBreaker_def Let_def update_conv' split: option.split)

section \<open>Overlapping calls\<close>

text \<open>The calls in flight, by the state each captured.\<close>

record breaker_sys =
  bs_breaker :: breaker
  bs_calls :: "circuit_state list"

inductive breaker_step :: "breaker_config \<Rightarrow> breaker_sys \<Rightarrow> breaker_sys \<Rightarrow> bool" for cfg where
  refused: "fire_begin cfg now (bs_breaker s) = (b, Inl st) \<Longrightarrow> breaker_step cfg s (s\<lparr>bs_breaker := b\<rparr>)"
| started: "fire_begin cfg now (bs_breaker s) = (b, Inr st) \<Longrightarrow>
    breaker_step cfg s \<lparr>bs_breaker = b, bs_calls = bs_calls s @ [st]\<rparr>"
| succeeded: "bs_calls s = xs @ st # ys \<Longrightarrow>
    breaker_step cfg s \<lparr>bs_breaker = fire_success st (bs_breaker s), bs_calls = xs @ ys\<rparr>"
| failed: "bs_calls s = xs @ st # ys \<Longrightarrow>
    breaker_step cfg s \<lparr>bs_breaker = fire_failure cfg t st (bs_breaker s), bs_calls = xs @ ys\<rparr>"
| observed: "breaker_step cfg s (s\<lparr>bs_breaker := fst (getState cfg now (bs_breaker s))\<rparr>)"

definition probes :: "breaker_sys \<Rightarrow> nat" where
  "probes s = length (filter (\<lambda>st. st = HALF_OPEN) (bs_calls s))"

definition probe_inv :: "breaker_sys \<Rightarrow> bool" where
  "probe_inv s \<longleftrightarrow> OPEN \<notin> set (bs_calls s) \<and> probes s = (if halfOpenProbeInFlight (bs_breaker s) then 1 else 0)"

lemmas breaker_defs = fire_begin_def getState_def fire_success_def fire_failure_def fire_finally_def
  recordFailure_def open_breaker_def Let_def

lemma probe_flag [simp]:
  "halfOpenProbeInFlight (fire_success st b) = (halfOpenProbeInFlight b \<and> st \<noteq> HALF_OPEN)"
  "halfOpenProbeInFlight (fire_failure cfg t st b) = (halfOpenProbeInFlight b \<and> st \<noteq> HALF_OPEN)"
  "halfOpenProbeInFlight (fst (getState cfg now b)) = halfOpenProbeInFlight b"
  by (auto simp: breaker_defs split: prod.split)

lemma begin_refused: "fire_begin cfg now b = (b', Inl st) \<Longrightarrow> halfOpenProbeInFlight b' = halfOpenProbeInFlight b"
  by (auto simp: breaker_defs split: if_splits)

lemma begin_started:
  "fire_begin cfg now b = (b', Inr st) \<Longrightarrow>
     (st = CLOSED \<and> halfOpenProbeInFlight b' = halfOpenProbeInFlight b)
     \<or> (st = HALF_OPEN \<and> \<not> halfOpenProbeInFlight b \<and> halfOpenProbeInFlight b')"
  by (cases "currentState b") (auto simp: breaker_defs split: if_splits)

definition breaker_init :: "breaker_sys \<Rightarrow> bool" where
  "breaker_init s \<longleftrightarrow> s = \<lparr>bs_breaker = new_breaker, bs_calls = []\<rparr>"

interpretation probing: inductive_invariant breaker_init "breaker_step cfg" probe_inv for cfg
proof unfold_locales
  fix s
  assume "breaker_init s"
  then show "probe_inv s" by (simp add: breaker_init_def probe_inv_def probes_def new_breaker_def)
next
  fix s t
  assume inv: "probe_inv s" and "breaker_step cfg s t"
  from this(2) show "probe_inv t"
  proof cases
    case (refused now b st)
    with inv begin_refused [of cfg now "bs_breaker s" b st] show ?thesis by (simp add: probe_inv_def probes_def)
  next
    case (started now b st)
    with inv begin_started [of cfg now "bs_breaker s" b st] show ?thesis by (auto simp: probe_inv_def probes_def)
  next
    case (succeeded xs st ys)
    with inv show ?thesis by (auto simp: probe_inv_def probes_def split: if_splits)
  next
    case (failed xs st ys t')
    with inv show ?thesis by (auto simp: probe_inv_def probes_def split: if_splits)
  next
    case (observed now)
    with inv show ?thesis by (simp add: probe_inv_def probes_def)
  qed
qed

section \<open>Properties\<close>

text \<open>In every state that calls reach together, overlapping in any way and succeeding or failing in any
  order, at most one call in flight is a probe of the half-open breaker, and one is in flight exactly
  when the flag says so.\<close>

lemma single_probe:
  assumes "reach breaker_init (breaker_step cfg) s"
  shows "probes s \<le> 1 \<and> (probes s = 1 \<longleftrightarrow> halfOpenProbeInFlight (bs_breaker s)) \<and> OPEN \<notin> set (bs_calls s)"
  using probing.reach_inv [OF assms] by (simp add: probe_inv_def)

definition demo_config :: breaker_config where
  "demo_config = breaker_config_of ''rpc'' \<lparr>bo_failureThreshold = Some 1, bo_windowMs = None, bo_resetTimeoutMs = None,
     bo_cooldownPeriodMs = None\<rparr>"

definition tripped :: breaker where
  "tripped = \<lparr>currentState = OPEN, failures = [0], openedAt = 0, halfOpenProbeInFlight = False\<rparr>"

lemmas demo_breaker = demo_config_def breaker_config_of_def tripped_def new_breaker_def or_else_def breaker_defs

lemma demo_probe_reach:
  "reach breaker_init (breaker_step demo_config)
     \<lparr>bs_breaker = tripped\<lparr>currentState := HALF_OPEN, halfOpenProbeInFlight := True\<rparr>, bs_calls = [HALF_OPEN]\<rparr>"
proof -
  let ?r = "reach breaker_init (breaker_step demo_config)"
  have "?r \<lparr>bs_breaker = new_breaker, bs_calls = []\<rparr>" by (rule reach_init) (simp add: breaker_init_def)
  moreover have "fire_begin demo_config 0 new_breaker = (new_breaker, Inr CLOSED)" by (simp add: demo_breaker)
  ultimately have "?r \<lparr>bs_breaker = new_breaker, bs_calls = [CLOSED]\<rparr>"
    using started [of demo_config 0 "\<lparr>bs_breaker = new_breaker, bs_calls = []\<rparr>"] by (auto intro: reach_step)
  moreover have "fire_failure demo_config (0, 0, 0) CLOSED new_breaker = tripped" by (simp add: demo_breaker)
  ultimately have "?r \<lparr>bs_breaker = tripped, bs_calls = []\<rparr>"
    using failed [of "\<lparr>bs_breaker = new_breaker, bs_calls = [CLOSED]\<rparr>" "[]" CLOSED "[]" demo_config "(0, 0, 0)"]
    by (auto intro: reach_step)
  moreover have "fire_begin demo_config 30000 tripped =
      (tripped\<lparr>currentState := HALF_OPEN, halfOpenProbeInFlight := True\<rparr>, Inr HALF_OPEN)" by (simp add: demo_breaker)
  ultimately show ?thesis
    using started [of demo_config 30000 "\<lparr>bs_breaker = tripped, bs_calls = []\<rparr>"] by (auto intro: reach_step)
qed

lemma single_probe_witness:
  "probes \<lparr>bs_breaker = tripped\<lparr>currentState := HALF_OPEN, halfOpenProbeInFlight := True\<rparr>, bs_calls = [HALF_OPEN]\<rparr> = 1"
  using single_probe [OF demo_probe_reach] by simp

text \<open>Failures of calls that started while the breaker was closed, at the given times.\<close>

definition fail_all :: "breaker_config \<Rightarrow> time list \<Rightarrow> breaker \<Rightarrow> breaker" where
  "fail_all cfg ts b = fold (\<lambda>t. fire_failure cfg (t, t, t) CLOSED) ts b"

lemma fail_all_state:
  assumes "\<forall>x \<in> set ts. \<forall>y \<in> set ts. x - cb_windowMs cfg \<le> y" and "int (length ts) \<le> cb_failureThreshold cfg"
  shows "failures (fail_all cfg ts new_breaker) = ts
    \<and> currentState (fail_all cfg ts new_breaker) =
        (if cb_failureThreshold cfg \<le> int (length ts) \<and> ts \<noteq> [] then OPEN else CLOSED)
    \<and> (currentState (fail_all cfg ts new_breaker) = OPEN \<longrightarrow> openedAt (fail_all cfg ts new_breaker) = last ts)"
  using assms
proof (induction ts rule: rev_induct)
  case Nil
  then show ?case by (simp add: fail_all_def new_breaker_def)
next
  case (snoc t ts)
  let ?b = "fail_all cfg ts new_breaker"
  have ih: "failures ?b = ts" "currentState ?b = CLOSED" using snoc by auto
  have "filter (\<lambda>u. t - cb_windowMs cfg \<le> u) ts = ts" using snoc.prems(1) by (simp add: filter_id_conv)
  moreover have "fail_all cfg (ts @ [t]) new_breaker = fire_failure cfg (t, t, t) CLOSED ?b" by (simp add: fail_all_def)
  ultimately show ?case using ih by (simp add: breaker_defs)
qed

text \<open>The breaker trips at exactly the threshold, and an older call can untrip it: below the threshold number
  of failures within the window it stays closed; with the last of them every new call is refused until the
  reset delay has passed; but a call that started before and succeeds after the breaker opened closes it,
  and the next call is let through although the delay has not passed.\<close>

lemma trips_until_stale_success:
  assumes "\<forall>x \<in> set ts. \<forall>y \<in> set ts. x - cb_windowMs cfg \<le> y"
    and "int (length ts) = cb_failureThreshold cfg" and "ts \<noteq> []" and "now - last ts < cb_resetTimeoutMs cfg"
  shows "(\<forall>k < length ts. currentState (fail_all cfg (take k ts) new_breaker) = CLOSED)
    \<and> fire_begin cfg now (fail_all cfg ts new_breaker) = (fail_all cfg ts new_breaker, Inl OPEN)
    \<and> snd (fire_begin cfg now (fire_success CLOSED (fail_all cfg ts new_breaker))) = Inr CLOSED"
proof (intro conjI allI impI)
  fix k
  assume k: "k < length ts"
  then have "\<forall>x \<in> set (take k ts). \<forall>y \<in> set (take k ts). x - cb_windowMs cfg \<le> y"
    using assms(1) by (meson in_set_takeD)
  from fail_all_state [OF this] k assms(2) show "currentState (fail_all cfg (take k ts) new_breaker) = CLOSED"
    by simp
next
  have "currentState (fail_all cfg ts new_breaker) = OPEN \<and> openedAt (fail_all cfg ts new_breaker) = last ts"
    using fail_all_state [OF assms(1)] assms(2,3) by simp
  then show "fire_begin cfg now (fail_all cfg ts new_breaker) = (fail_all cfg ts new_breaker, Inl OPEN)"
    using assms(4) by (simp add: breaker_defs)
  show "snd (fire_begin cfg now (fire_success CLOSED (fail_all cfg ts new_breaker))) = Inr CLOSED"
    by (simp add: breaker_defs)
qed

lemma trips_until_stale_success_witness:
  "snd (fire_begin demo_config 10 (fail_all demo_config [0] new_breaker)) = Inl OPEN
   \<and> snd (fire_begin demo_config 10 (fire_success CLOSED (fail_all demo_config [0] new_breaker))) = Inr CLOSED"
  using trips_until_stale_success [of "[0]" demo_config 10]
  by (simp add: demo_config_def breaker_config_of_def or_else_def)

end
