(* ===== verification/Idempotency.thy ===== *)
theory Idempotency
  imports Schema
begin

text \<open>
  \<^verbatim>\<open>Idempotency-Key\<close> handling, \<^verbatim>\<open>src/middleware/idempotency.ts\<close>, with its cleanup worker
  \<^verbatim>\<open>src/workers/cleanupIdempotency.ts\<close>. \<open>sha\<close> is SHA-256. A request is two steps: \<open>idempotency\<close> up to \<^verbatim>\<open>next()\<close>
  (or the answer it sends itself), and \<open>saveIdempotency\<close> when the route answers.

  \<^item> \<open>replay_exact\<close>: a stored answer is replayed to every repetition until it expires, whatever other
    requests and cleanups run in between, and a different body under the key is refused.
  \<^item> \<open>expired_row_blocks\<close>: an expired row that the hourly cleanup has not removed yet lets every repetition
    run the route again, because the primary key keeps the new answer out.
\<close>

section \<open>Records\<close>

type_synonym headers = "(string \<times> string) list"

record idem_row =
  ir_key :: string
  ir_fingerprint :: string
  ir_responseStatus :: int
  ir_responseBody :: json
  ir_responseHeaders :: headers
  ir_expiresAt :: time

type_synonym idem_table = "idem_row table"

definition IDEMPOTENCY_TTL_MS :: int where
  "IDEMPOTENCY_TTL_MS = 24 * 60 * 60 * 1000"

definition REPLAY_HEADERS :: "string list" where
  "REPLAY_HEADERS = [''content-type'', ''location'', ''x-request-id'', ''content-disposition'']"

section \<open>Keys\<close>

text \<open>A header is absent, a string, or (for a repeated header) an array of strings.\<close>

datatype header_value = HString string | HArray "string list"

definition printable :: "char \<Rightarrow> bool" where
  "printable c \<longleftrightarrow> 32 \<le> (of_char c :: nat) \<and> (of_char c :: nat) \<le> 126"

fun isValidIdempotencyKey :: "header_value \<Rightarrow> bool" where
  "isValidIdempotencyKey (HString key) \<longleftrightarrow> 1 \<le> length key \<and> length key \<le> 255 \<and> list_all printable key"
| "isValidIdempotencyKey (HArray _) \<longleftrightarrow> False"

text \<open>\<^verbatim>\<open>if (!key)\<close>: absent or the empty string.\<close>

fun no_key :: "header_value option \<Rightarrow> bool" where
  "no_key None = True"
| "no_key (Some (HString k)) = (k = [])"
| "no_key (Some (HArray _)) = False"

section \<open>The middleware\<close>

record http_answer =
  ha_status :: int
  ha_headers :: headers
  ha_body :: json

datatype idem_decision =
    PassThrough
  | InvalidKey
  | ConflictKey
  | Replayed http_answer
  | Miss string string

definition idem_lookup :: "string \<Rightarrow> time \<Rightarrow> idem_table \<Rightarrow> idem_row option" where
  "idem_lookup key now rows = select_first (\<lambda>r. ir_key r = key \<and> now < ir_expiresAt r) rows"

text \<open>The headers that are replayed, in the order of \<^verbatim>\<open>REPLAY_HEADERS\<close>; an empty value is skipped.\<close>

definition replay_headers :: "headers \<Rightarrow> headers" where
  "replay_headers hs = concat (map (\<lambda>h. case map_of hs h of None \<Rightarrow> [] | Some v \<Rightarrow> if v = [] then [] else [(h, v)]) REPLAY_HEADERS)"

definition replay_answer :: "idem_row \<Rightarrow> http_answer" where
  "replay_answer r = \<lparr>ha_status = ir_responseStatus r,
     ha_headers = replay_headers (ir_responseHeaders r) @ [(''Idempotent-Replayed'', ''true'')], ha_body = ir_responseBody r\<rparr>"

text \<open>\<open>body\<close> is the text the fingerprint is taken of: the body itself when it is a string, its JSON otherwise.\<close>

definition idempotency :: "(string \<Rightarrow> string) \<Rightarrow> time \<Rightarrow> header_value option \<Rightarrow> string \<Rightarrow> idem_table \<Rightarrow> idem_decision" where
  "idempotency sha now key body rows =
    (if no_key key then PassThrough
     else case key of
       Some (HString k) \<Rightarrow>
         if \<not> isValidIdempotencyKey (HString k) then InvalidKey
         else (case idem_lookup k now rows of
            Some existing \<Rightarrow> if ir_fingerprint existing \<noteq> sha body then ConflictKey else Replayed (replay_answer existing)
          | None \<Rightarrow> Miss k (sha body))
     | _ \<Rightarrow> InvalidKey)"

text \<open>What the route hands to \<^verbatim>\<open>res.json\<close> or \<^verbatim>\<open>res.send\<close>; \<^verbatim>\<open>res.send\<close> of a value that is neither a string, a
  buffer nor an object stores nothing.\<close>

datatype sent_body =
    SentJson json
  | SentText string
  | SentOther

fun stored_body :: "sent_body \<Rightarrow> json option" where
  "stored_body (SentJson (JStr s)) = Some (JObj [(''content'', JStr s)])"
| "stored_body (SentJson j) = Some j"
| "stored_body (SentText s) = Some (JObj [(''content'', JStr s)])"
| "stored_body SentOther = None"

definition captured_headers :: "headers \<Rightarrow> headers" where
  "captured_headers hs = concat (map (\<lambda>h. case map_of hs h of None \<Rightarrow> [] | Some v \<Rightarrow> [(h, v)]) REPLAY_HEADERS)"

text \<open>The insert; a row with the same primary key or a \<^verbatim>\<open>null\<close> body makes it fail, and the failure is only
  logged.\<close>

definition insert_idem :: "idem_row \<Rightarrow> idem_table \<Rightarrow> idem_table" where
  "insert_idem r rows = (if ir_key r \<in> ir_key ` set rows \<or> ir_responseBody r = JNull then rows else rows @ [r])"

text \<open>The first answer a route sends is the one that is stored (\<^verbatim>\<open>persisted\<close>), if its status is 2xx.\<close>

definition saveIdempotency ::
  "string \<Rightarrow> string \<Rightarrow> time \<Rightarrow> int \<Rightarrow> headers \<Rightarrow> sent_body \<Rightarrow> bool \<times> idem_table \<Rightarrow> bool \<times> idem_table" where
  "saveIdempotency key fingerprint now status hs sent st = (case st of (persisted, rows) \<Rightarrow>
    (case stored_body sent of
       None \<Rightarrow> (persisted, rows)
     | Some valBody \<Rightarrow>
         if persisted then (persisted, rows)
         else if 200 \<le> status \<and> status < 300
         then (True, insert_idem \<lparr>ir_key = key, ir_fingerprint = fingerprint, ir_responseStatus = status,
                ir_responseBody = valBody, ir_responseHeaders = captured_headers hs,
                ir_expiresAt = now + IDEMPOTENCY_TTL_MS\<rparr> rows)
         else (True, rows)))"

section \<open>Streaming exports\<close>

datatype export_check =
    ExSkip
  | ExBadRequest
  | ExConflict
  | ExHit int headers json
  | ExMiss string string

text \<open>The headers of a hit are the stored ones that may be replayed, in stored order.\<close>

definition checkExportsIdempotency ::
  "(string \<Rightarrow> string) \<Rightarrow> time \<Rightarrow> header_value option \<Rightarrow> string \<Rightarrow> idem_table \<Rightarrow> export_check" where
  "checkExportsIdempotency sha now rawKey fingerprintSource rows = (case rawKey of
     None \<Rightarrow> ExSkip
   | Some (HArray _) \<Rightarrow> ExBadRequest
   | Some (HString k) \<Rightarrow>
       if \<not> isValidIdempotencyKey (HString k) then ExBadRequest
       else (case idem_lookup k now rows of
          Some existing \<Rightarrow>
            if ir_fingerprint existing \<noteq> sha fingerprintSource then ExConflict
            else ExHit (ir_responseStatus existing)
                   ((''Idempotent-Replayed'', ''true'') # filter (\<lambda>(h, _). h \<in> set REPLAY_HEADERS) (ir_responseHeaders existing))
                   (ir_responseBody existing)
        | None \<Rightarrow> ExMiss k (sha fingerprintSource)))"

definition persistExportsIdempotency :: "string \<Rightarrow> string \<Rightarrow> string \<Rightarrow> int \<Rightarrow> headers \<Rightarrow> time \<Rightarrow> idem_table \<Rightarrow> idem_table" where
  "persistExportsIdempotency key fingerprint buffer status hs now rows =
     insert_idem \<lparr>ir_key = key, ir_fingerprint = fingerprint, ir_responseStatus = status,
       ir_responseBody = JObj [(''content'', JStr buffer)], ir_responseHeaders = hs, ir_expiresAt = now + IDEMPOTENCY_TTL_MS\<rparr> rows"

section \<open>Cleanup\<close>

definition cleanupIdempotencyKeys :: "time \<Rightarrow> idem_table \<Rightarrow> idem_table \<times> nat" where
  "cleanupIdempotencyKeys now rows =
    (filter (\<lambda>r. \<not> ir_expiresAt r < now) rows, length (filter (\<lambda>r. ir_expiresAt r < now) rows))"

section \<open>Other traffic\<close>

text \<open>What may happen to the table between a request and its repetition: other routes answer, exports are
  stored, and cleanups run, the last at \<open>horizon\<close> at the latest.\<close>

inductive idem_step :: "time \<Rightarrow> idem_table \<Rightarrow> idem_table \<Rightarrow> bool" for horizon where
  answered: "idem_step horizon rows (snd (saveIdempotency key fp now status hs sent (persisted, rows)))"
| exported: "idem_step horizon rows (persistExportsIdempotency key fp buffer status hs now rows)"
| cleaned: "now \<le> horizon \<Longrightarrow> idem_step horizon rows (fst (cleanupIdempotencyKeys now rows))"

definition kept :: "idem_row \<Rightarrow> idem_table \<Rightarrow> bool" where
  "kept r rows \<longleftrightarrow> row_by ir_key rows (ir_key r) = Some r"

lemma kept_insert: "kept r rows \<Longrightarrow> kept r (insert_idem n rows)"
  by (simp add: kept_def insert_idem_def row_by_snoc)

lemma kept_filter: "kept r rows \<Longrightarrow> P r \<Longrightarrow> kept r (filter P rows)"
  unfolding kept_def by (induction rows) (auto split: if_splits)

lemma kept_save: "kept r rows \<Longrightarrow> kept r (snd (saveIdempotency key fp now status hs sent (p, rows)))"
  by (simp add: saveIdempotency_def kept_insert split: option.split)

lemma kept_step: "kept r rows \<Longrightarrow> horizon \<le> ir_expiresAt r \<Longrightarrow> idem_step horizon rows rows' \<Longrightarrow> kept r rows'"
  by (erule idem_step.cases)
    (auto simp: persistExportsIdempotency_def cleanupIdempotencyKeys_def intro: kept_save kept_insert kept_filter)

interpretation traffic: inductive_invariant "kept r" "idem_step (min horizon (ir_expiresAt r))" "kept r" for r horizon
  by unfold_locales (auto intro: kept_step [OF _ min.cobounded2])

lemma kept_lookup: "kept r rows \<Longrightarrow> now < ir_expiresAt r \<Longrightarrow> idem_lookup (ir_key r) now rows = Some r"
  unfolding kept_def idem_lookup_def by (induction rows) (auto split: if_splits)

lemma expired_lookup:
  assumes "key_unique ir_key rows" and "kept r rows" and "ir_expiresAt r \<le> now"
  shows "idem_lookup (ir_key r) now rows = None"
proof -
  have "s = r" if "s \<in> set rows" "ir_key s = ir_key r" for s
    using assms(1,2) that row_by_SomeD [of ir_key rows "ir_key r" r] by (auto simp: kept_def intro: key_unique_eq)
  with assms(3) show ?thesis unfolding idem_lookup_def select_first_None by fastforce
qed

lemma save_keeps_unique:
  "key_unique ir_key rows \<Longrightarrow> key_unique ir_key (snd (saveIdempotency key fp now status hs sent (p, rows)))"
  by (simp add: saveIdempotency_def insert_idem_def key_unique_snoc split: option.split)

section \<open>Properties\<close>

text \<open>A repetition is answered from the store: if a route answers a first request under a key with a 2xx
  status and a body, then, whatever other requests, exports and cleanups (up to the expiry) run in between,
  every request with the same key and body within 24 hours gets that status, body and the replayable
  headers without the route running, and one with another fingerprint is refused with a conflict.\<close>

lemma replay_exact:
  assumes "isValidIdempotencyKey (HString k)" and "k \<notin> ir_key ` set rows"
    and "200 \<le> status" and "status < 300" and "stored_body sent = Some b" and "b \<noteq> JNull"
    and "(idem_step horizon)\<^sup>*\<^sup>* (snd (saveIdempotency k (sha body) now status hs sent (False, rows))) rows'"
    and "horizon \<le> now + IDEMPOTENCY_TTL_MS" and "now' < now + IDEMPOTENCY_TTL_MS"
  shows "idempotency sha now' (Some (HString k)) body rows' =
      Replayed \<lparr>ha_status = status,
        ha_headers = replay_headers (captured_headers hs) @ [(''Idempotent-Replayed'', ''true'')], ha_body = b\<rparr>
    \<and> (\<forall>body'. sha body' \<noteq> sha body \<longrightarrow> idempotency sha now' (Some (HString k)) body' rows' = ConflictKey)"
proof -
  let ?r = "\<lparr>ir_key = k, ir_fingerprint = sha body, ir_responseStatus = status, ir_responseBody = b,
     ir_responseHeaders = captured_headers hs, ir_expiresAt = now + IDEMPOTENCY_TTL_MS\<rparr>"
  have "row_by ir_key rows k = None" using assms(2) by (simp add: row_by_None)
  then have "kept ?r (snd (saveIdempotency k (sha body) now status hs sent (False, rows)))"
    using assms(2-6) by (simp add: saveIdempotency_def insert_idem_def kept_def row_by_snoc)
  moreover have "min horizon (ir_expiresAt ?r) = horizon" using assms(8) by simp
  ultimately have "kept ?r rows'" using traffic.reach_inv_star [of horizon ?r] assms(7) by simp
  from kept_lookup [OF this] assms(9) have "idem_lookup k now' rows' = Some ?r" by simp
  moreover have "k \<noteq> []" using assms(1) by auto
  ultimately show ?thesis using assms(1) by (simp add: idempotency_def replay_answer_def del: isValidIdempotencyKey.simps)
qed

lemma replay_exact_witness:
  "idempotency rev 10 (Some (HString ''k1'')) ''body''
     (snd (saveIdempotency ''k1'' (rev ''body'') 0 201 [] (SentJson (JNum 7)) (False, []))) =
   Replayed \<lparr>ha_status = 201, ha_headers = [(''Idempotent-Replayed'', ''true'')], ha_body = JNum 7\<rparr>"
  using replay_exact [of "''k1''" "[]" 201 "SentJson (JNum 7)" "JNum 7" 0 rev "''body''" 0 "[]"
      "snd (saveIdempotency ''k1'' (rev ''body'') 0 201 [] (SentJson (JNum 7)) (False, []))" 10]
  by (simp add: printable_def IDEMPOTENCY_TTL_MS_def captured_headers_def replay_headers_def REPLAY_HEADERS_def)

text \<open>A request with its key, body and clock reading, and what the route would answer; the flag says whether the
  route ran.\<close>

record idem_request =
  iq_key :: string
  iq_body :: string
  iq_now :: time
  iq_savedAt :: time
  iq_status :: int
  iq_headers :: headers
  iq_sent :: sent_body

definition serve :: "(string \<Rightarrow> string) \<Rightarrow> idem_request \<Rightarrow> idem_table \<Rightarrow> idem_table \<times> bool" where
  "serve sha q rows = (case idempotency sha (iq_now q) (Some (HString (iq_key q))) (iq_body q) rows of
     Miss k fp \<Rightarrow> (snd (saveIdempotency k fp (iq_savedAt q) (iq_status q) (iq_headers q) (iq_sent q) (False, rows)), True)
   | PassThrough \<Rightarrow> (rows, True)
   | _ \<Rightarrow> (rows, False))"

lemma serve_expired:
  assumes "key_unique ir_key rows" and "kept r rows" and "isValidIdempotencyKey (HString (ir_key r))"
    and "iq_key q = ir_key r" and "ir_expiresAt r \<le> iq_now q"
  shows "serve sha q rows = (rows, True)"
proof -
  have "ir_key r \<in> ir_key ` set rows" using assms(2) row_by_SomeD [of ir_key rows "ir_key r" r] by (auto simp: kept_def)
  moreover have "ir_key r \<noteq> []" using assms(3) by auto
  moreover note expired_lookup [OF assms(1,2,5)]
  ultimately show ?thesis using assms(3,4)
    by (simp add: serve_def idempotency_def saveIdempotency_def insert_idem_def split: option.split
        del: isValidIdempotencyKey.simps)
qed

text \<open>An expired record that is still in the table disables the key: after its expiry and until a cleanup
  removes it, every request under the key runs the route, also when the requests are identical, and none
  of their answers is stored, since the insert meets the old row's primary key.\<close>

lemma expired_row_blocks:
  assumes "key_unique ir_key rows" and "row_by ir_key rows k = Some r" and "isValidIdempotencyKey (HString k)"
    and "\<forall>q \<in> set qs. iq_key q = k \<and> ir_expiresAt r \<le> iq_now q"
  shows "run_ops (serve sha) qs rows = (rows, replicate (length qs) True)"
proof -
  have k: "ir_key r = k" "kept r rows" using row_by_SomeD [OF assms(2)] assms(2) by (auto simp: kept_def)
  from assms(4) show ?thesis
  proof (induction qs)
    case (Cons q qs)
    then have "serve sha q rows = (rows, True)" using k assms(1,3) by (intro serve_expired) auto
    with Cons show ?case by simp
  qed simp
qed

definition demo_expired :: idem_row where
  "demo_expired = \<lparr>ir_key = ''k1'', ir_fingerprint = ''f'', ir_responseStatus = 200, ir_responseBody = JNum 1,
     ir_responseHeaders = [], ir_expiresAt = 100\<rparr>"

definition demo_repeat :: idem_request where
  "demo_repeat = \<lparr>iq_key = ''k1'', iq_body = ''pay'', iq_now = 200, iq_savedAt = 201, iq_status = 200, iq_headers = [],
     iq_sent = SentJson (JNum 2)\<rparr>"

lemma expired_row_blocks_witness:
  "run_ops (serve rev) [demo_repeat, demo_repeat] [demo_expired] = ([demo_expired], [True, True])"
  using expired_row_blocks [of "[demo_expired]" "''k1''" demo_expired "[demo_repeat, demo_repeat]" rev]
  by (simp add: demo_expired_def demo_repeat_def key_unique_def printable_def)

end
