(* ===== verification/Union_Find.thy ===== *)
theory Union_Find
  imports Prelude
begin

text \<open>
  The union-find of \<^verbatim>\<open>src/services/fraudService.ts\<close>: a \<^verbatim>\<open>Map\<close> of parents with path compression and a \<^verbatim>\<open>Map\<close> of
  ranks. Both loops of \<^verbatim>\<open>find\<close> are partial functions whose \<open>None\<close> is not returning (or reaching a key without a
  parent, which the source would read as \<^verbatim>\<open>undefined\<close>); \<open>climb_returns\<close> and \<open>compress_returns\<close> show that they
  return in every state the operations build.

  \<open>root_at p x n r\<close> says that \<open>r\<close> is reached from \<open>x\<close> in \<open>n\<close> steps; \<open>root_of\<close> forgets \<open>n\<close> and \<open>same_set\<close> is the
  partition. \<open>find_spec\<close> and \<open>union_spec\<close> say what the operations do to it.
\<close>

type_synonym parents = "(string \<times> string) list"

record union_find =
  uf_parent :: parents
  uf_rank :: "(string \<times> int) list"

definition new_union_find :: union_find where
  "new_union_find = \<lparr>uf_parent = [], uf_rank = []\<rparr>"

definition uf_add :: "string \<Rightarrow> union_find \<Rightarrow> union_find" where
  "uf_add x uf = (if map_of (uf_parent uf) x = None
     then \<lparr>uf_parent = AList.update x x (uf_parent uf), uf_rank = AList.update x 0 (uf_rank uf)\<rparr>
     else uf)"

partial_function (option) climb :: "parents \<Rightarrow> string \<Rightarrow> string option" where
  "climb p root = (case map_of p root of
     None \<Rightarrow> None
   | Some q \<Rightarrow> if q = root then Some root else climb p q)"

partial_function (option) compress :: "string \<Rightarrow> string \<Rightarrow> parents \<Rightarrow> parents option" where
  "compress root cur p = (case map_of p cur of
     None \<Rightarrow> None
   | Some nxt \<Rightarrow> if nxt = root then Some p else compress root nxt (AList.update cur root p))"

declare climb.simps [code] compress.simps [code]

definition uf_find :: "string \<Rightarrow> union_find \<Rightarrow> (string \<times> union_find) option" where
  "uf_find x uf0 =
    (let uf = uf_add x uf0
     in case climb (uf_parent uf) x of
          None \<Rightarrow> None
        | Some root \<Rightarrow> map_option (\<lambda>p. (root, uf\<lparr>uf_parent := p\<rparr>)) (compress root x (uf_parent uf)))"

definition rank_of :: "union_find \<Rightarrow> string \<Rightarrow> int" where
  "rank_of uf x = (case map_of (uf_rank uf) x of None \<Rightarrow> 0 | Some n \<Rightarrow> n)"

definition uf_link :: "string \<Rightarrow> string \<Rightarrow> union_find \<Rightarrow> union_find" where
  "uf_link ra rb uf =
    (let rankA = rank_of uf ra; rankB = rank_of uf rb
     in if rankA < rankB then uf\<lparr>uf_parent := AList.update ra rb (uf_parent uf)\<rparr>
        else if rankB < rankA then uf\<lparr>uf_parent := AList.update rb ra (uf_parent uf)\<rparr>
        else \<lparr>uf_parent = AList.update rb ra (uf_parent uf), uf_rank = AList.update ra (rankA + 1) (uf_rank uf)\<rparr>)"

definition uf_union :: "string \<Rightarrow> string \<Rightarrow> union_find \<Rightarrow> (bool \<times> union_find) option" where
  "uf_union a b uf = (case uf_find a uf of
     None \<Rightarrow> None
   | Some (ra, uf1) \<Rightarrow> (case uf_find b uf1 of
       None \<Rightarrow> None
     | Some (rb, uf2) \<Rightarrow> Some (if ra = rb then (False, uf2) else (True, uf_link ra rb uf2))))"

text \<open>The loop that files items under the root of their node, in the order of the items; \<open>m\<close> is the \<^verbatim>\<open>Map\<close> it
  fills. \<^verbatim>\<open>components\<close> files the keys of the parent \<^verbatim>\<open>Map\<close> themselves.\<close>

fun group_by_root :: "('x \<Rightarrow> string) \<Rightarrow> 'x list \<Rightarrow> (string \<times> 'x list) list \<Rightarrow> union_find
    \<Rightarrow> ((string \<times> 'x list) list \<times> union_find) option" where
  "group_by_root key [] m uf = Some (m, uf)"
| "group_by_root key (x # xs) m uf = (case uf_find (key x) uf of
     None \<Rightarrow> None
   | Some (root, uf1) \<Rightarrow>
       group_by_root key xs (AList.update root (case map_of m root of None \<Rightarrow> [x] | Some b \<Rightarrow> b @ [x]) m) uf1)"

definition components :: "union_find \<Rightarrow> ((string \<times> string list) list \<times> union_find) option" where
  "components uf = group_by_root (\<lambda>node. node) (map fst (uf_parent uf)) [] uf"

section \<open>Roots\<close>

fun root_at :: "parents \<Rightarrow> string \<Rightarrow> nat \<Rightarrow> string \<Rightarrow> bool" where
  "root_at p x 0 r \<longleftrightarrow> map_of p x = Some x \<and> r = x"
| "root_at p x (Suc n) r \<longleftrightarrow> (\<exists>q. map_of p x = Some q \<and> q \<noteq> x \<and> root_at p q n r)"

definition root_of :: "parents \<Rightarrow> string \<Rightarrow> string \<Rightarrow> bool" where
  "root_of p x r \<longleftrightarrow> (\<exists>n. root_at p x n r)"

text \<open>The invariant: the keys are distinct and every key leads to a root.\<close>

definition rooted :: "parents \<Rightarrow> bool" where
  "rooted p \<longleftrightarrow> distinct (map fst p) \<and> (\<forall>x \<in> fst ` set p. \<exists>r. root_of p x r)"

lemma root_at_unique: "root_at p x n r \<Longrightarrow> root_at p x m s \<Longrightarrow> n = m \<and> r = s"
proof (induction n arbitrary: x m)
  case 0
  then show ?case by (cases m) auto
next
  case (Suc n)
  then obtain q where q: "map_of p x = Some q" "q \<noteq> x" "root_at p q n r" by auto
  with Suc.prems obtain m' where "m = Suc m'" "root_at p q m' s" by (cases m) auto
  with Suc.IH [OF q(3)] show ?case by simp
qed

lemma root_ofI: "root_at p x n r \<Longrightarrow> root_of p x r"
  unfolding root_of_def by blast

lemma root_of_unique: "root_of p x r \<Longrightarrow> root_of p x s \<Longrightarrow> r = s"
  by (auto simp: root_of_def dest: root_at_unique)

lemma root_at_root: "root_at p x n r \<Longrightarrow> map_of p r = Some r"
  by (induction n arbitrary: x) auto

lemma root_of_root: "root_of p x r \<Longrightarrow> map_of p r = Some r"
  by (auto simp: root_of_def intro: root_at_root)

lemma root_of_self: "map_of p r = Some r \<Longrightarrow> root_of p r r"
  unfolding root_of_def by (rule exI [of _ 0]) simp

lemma root_of_step: "map_of p x = Some q \<Longrightarrow> q \<noteq> x \<Longrightarrow> root_of p x r \<longleftrightarrow> root_of p q r"
proof
  assume a: "map_of p x = Some q" "q \<noteq> x" "root_of p x r"
  then obtain n where "root_at p x n r" by (auto simp: root_of_def)
  with a show "root_of p q r" by (cases n) (auto simp: root_of_def)
next
  assume "map_of p x = Some q" "q \<noteq> x" "root_of p q r"
  then show "root_of p x r" unfolding root_of_def by (metis root_at.simps(2))
qed

lemma root_of_dom: "root_of p x r \<Longrightarrow> x \<in> fst ` set p \<and> r \<in> fst ` set p"
proof -
  assume r: "root_of p x r"
  then obtain n where "root_at p x n r" by (auto simp: root_of_def)
  then have "map_of p x \<noteq> None" by (cases n) auto
  moreover have "map_of p r \<noteq> None" using root_of_root [OF r] by simp
  ultimately show ?thesis by (simp add: map_of_eq_None_iff)
qed

lemma rooted_root: "rooted p \<Longrightarrow> x \<in> fst ` set p \<Longrightarrow> \<exists>r. root_of p x r"
  by (auto simp: rooted_def)

subsection \<open>The loops\<close>

lemma climb_returns: "root_of p x r \<Longrightarrow> climb p x = Some r"
proof -
  have "root_at p x n r \<Longrightarrow> climb p x = Some r" for n
    by (induction n arbitrary: x) (subst climb.simps, auto)+
  then show "root_of p x r \<Longrightarrow> climb p x = Some r" by (auto simp: root_of_def)
qed

text \<open>Pointing a node directly at its root changes no root and shortens no other path.\<close>

lemma shortcut_path:
  assumes "root_at p x n r" and "root_at p y m r" and "m < n"
  shows "root_at (AList.update x r p) y m r"
  using assms(2,3)
proof (induction m arbitrary: y)
  case 0
  then have "y \<noteq> x" using root_at_unique [OF assms(1), of 0 r] by auto
  with 0 show ?case by (simp add: update_conv')
next
  case (Suc m)
  then obtain q where q: "map_of p y = Some q" "q \<noteq> y" "root_at p q m r" by auto
  have "y \<noteq> x" using root_at_unique [OF assms(1), of "Suc m" r] Suc.prems by auto
  moreover have "root_at (AList.update x r p) q m r" using Suc q by simp
  ultimately show ?case using q by (auto simp: update_conv')
qed

definition same_roots :: "parents \<Rightarrow> parents \<Rightarrow> bool" where
  "same_roots p p' \<longleftrightarrow> map fst p' = map fst p \<and> (\<forall>y s. root_of p' y s \<longleftrightarrow> root_of p y s)"

lemma same_roots_refl: "same_roots p p"
  by (simp add: same_roots_def)

lemma same_roots_trans: "same_roots p q \<Longrightarrow> same_roots q r \<Longrightarrow> same_roots p r"
  by (simp add: same_roots_def)

lemma same_roots_rooted: "same_roots p p' \<Longrightarrow> rooted p \<Longrightarrow> rooted p'"
proof -
  assume s: "same_roots p p'" and "rooted p"
  from s have "root_of p' = root_of p" by (intro ext) (simp add: same_roots_def)
  moreover from s have "map fst p' = map fst p" by (simp add: same_roots_def)
  ultimately show ?thesis using \<open>rooted p\<close> by (simp add: rooted_def flip: set_map)
qed

lemma keys_update_present: "x \<in> fst ` set p \<Longrightarrow> map fst (AList.update x v p) = map fst p"
  by (induction p) auto

lemma root_update_mono:
  assumes "root_of p x r" and "root_of p y s"
  shows "root_of (AList.update x r p) y s"
proof -
  let ?p = "AList.update x r p"
  have rr: "map_of ?p r = Some r" using root_of_root [OF assms(1)] by (simp add: update_conv')
  have x: "root_of ?p x r"
  proof (cases "x = r")
    case True
    with rr show ?thesis by (simp add: root_of_self)
  next
    case False
    then have "root_of ?p x r \<longleftrightarrow> root_of ?p r r" by (intro root_of_step) (simp_all add: update_conv')
    with rr show ?thesis by (simp add: root_of_self)
  qed
  from assms(2) obtain n where "root_at p y n s" by (auto simp: root_of_def)
  then show ?thesis
  proof (induction n arbitrary: y)
    case 0
    then have y: "map_of p y = Some y" "s = y" by auto
    show ?case
    proof (cases "y = x")
      case True
      with y have "r = y" using root_of_unique [OF assms(1)] root_of_self [of p y] by simp
      with x y True show ?thesis by simp
    next
      case False
      with y show ?thesis by (simp add: update_conv' root_of_self)
    qed
  next
    case (Suc n)
    show ?case
    proof (cases "y = x")
      case True
      with Suc.prems root_of_unique [OF assms(1)] have "s = r" unfolding root_of_def by metis
      with True x show ?thesis by simp
    next
      case False
      from Suc.prems obtain q where q: "map_of p y = Some q" "q \<noteq> y" "root_at p q n s" by auto
      with Suc.IH have "root_of ?p q s" by blast
      with q False show ?thesis using root_of_step [of ?p y q s] by (simp add: update_conv')
    qed
  qed
qed

lemma shortcut_same:
  assumes "rooted p" and "root_of p x r"
  shows "same_roots p (AList.update x r p)"
proof -
  let ?p = "AList.update x r p"
  have keys: "map fst ?p = map fst p" using root_of_dom [OF assms(2)] by (intro keys_update_present) simp
  have "root_of p y s" if s: "root_of ?p y s" for y s
  proof -
    have "y \<in> fst ` set p" using root_of_dom [OF s] keys by (metis list.set_map)
    then obtain s' where s': "root_of p y s'" using rooted_root [OF assms(1)] by blast
    with root_of_unique [OF s root_update_mono [OF assms(2) s']] show ?thesis by simp
  qed
  with keys root_update_mono [OF assms(2)] show ?thesis by (auto simp: same_roots_def)
qed

lemma compress_returns:
  assumes "rooted p" and "root_at p x n r"
  shows "\<exists>p'. compress r x p = Some p' \<and> same_roots p p'"
  using assms
proof (induction n arbitrary: x p)
  case 0
  then show ?case by (subst compress.simps) (auto intro: same_roots_refl)
next
  case (Suc n)
  then obtain q where q: "map_of p x = Some q" "q \<noteq> x" "root_at p q n r" by auto
  show ?case
  proof (cases "q = r")
    case True
    with q show ?thesis by (subst compress.simps) (auto intro: same_roots_refl)
  next
    case False
    let ?p = "AList.update x r p"
    have "root_of p x r" using Suc.prems(2) unfolding root_of_def by blast
    with Suc.prems(1) have s: "same_roots p ?p" by (rule shortcut_same)
    have "root_at ?p q n r" using Suc.prems q by (intro shortcut_path) auto
    with Suc.IH [OF same_roots_rooted [OF s Suc.prems(1)]] obtain p' where
      "compress r q ?p = Some p'" "same_roots ?p p'" by blast
    with s False q show ?thesis by (subst compress.simps) (auto intro: same_roots_trans)
  qed
qed

section \<open>The partition\<close>

definition uf_nodes :: "union_find \<Rightarrow> string set" where
  "uf_nodes uf = fst ` set (uf_parent uf)"

definition same_set :: "union_find \<Rightarrow> string \<Rightarrow> string \<Rightarrow> bool" where
  "same_set uf x y \<longleftrightarrow> (\<exists>r. root_of (uf_parent uf) x r \<and> root_of (uf_parent uf) y r)"

lemma same_set_sym: "same_set uf x y \<Longrightarrow> same_set uf y x"
  by (auto simp: same_set_def)

lemma same_set_trans: "same_set uf x y \<Longrightarrow> same_set uf y z \<Longrightarrow> same_set uf x z"
  unfolding same_set_def using root_of_unique by blast

lemma same_set_root: "root_of (uf_parent uf) x r \<Longrightarrow> same_set uf x y \<longleftrightarrow> root_of (uf_parent uf) y r"
  unfolding same_set_def using root_of_unique by blast

lemma same_set_cong:
  assumes "same_set uf a r"
  shows "same_set uf x a \<longleftrightarrow> same_set uf x r" "same_set uf a x \<longleftrightarrow> same_set uf r x"
  using same_set_trans [OF _ assms, of x] same_set_trans [OF _ same_set_sym [OF assms], of x]
    same_set_trans [OF assms, of x] same_set_trans [OF same_set_sym [OF assms], of x] by blast+

lemma same_set_refl: "rooted (uf_parent uf) \<Longrightarrow> x \<in> uf_nodes uf \<Longrightarrow> same_set uf x x"
  using rooted_root [of "uf_parent uf" x] by (auto simp: same_set_def uf_nodes_def)

lemma add_present: "x \<in> uf_nodes uf \<Longrightarrow> uf_add x uf = uf"
  by (auto simp: uf_add_def uf_nodes_def map_of_eq_None_iff)

lemma parent_present:
  assumes "rooted p" and "map_of p y = Some q"
  shows "q \<in> fst ` set p"
proof (cases "q = y")
  case True
  with map_of_SomeD [OF assms(2)] show ?thesis by force
next
  case False
  have "y \<in> fst ` set p" using map_of_SomeD [OF assms(2)] by force
  with rooted_root [OF assms(1)] obtain r where "root_of p y r" by blast
  then have "root_of p q r" using root_of_step [OF assms(2) False] by blast
  then show ?thesis using root_of_dom by blast
qed

lemma root_of_snoc:
  assumes "rooted p" and "x \<notin> fst ` set p"
  shows "root_of (p @ [(x, x)]) y s \<longleftrightarrow> root_of p y s \<or> (y = x \<and> s = x)"
proof -
  have none: "map_of p x = None" using assms(2) by (simp add: map_of_eq_None_iff)
  then have get: "map_of (p @ [(x, x)]) y = (if y = x then Some x else map_of p y)" for y
    by (auto simp: map_add_def split: option.split)
  have "root_at (p @ [(x, x)]) y n s \<longleftrightarrow> root_at p y n s \<or> (n = 0 \<and> y = x \<and> s = x)" for n
  proof (induction n arbitrary: y)
    case 0
    show ?case using none get [of y] by auto
  next
    case (Suc n)
    have "q \<noteq> x" if "map_of p y = Some q" for q using parent_present [OF assms(1) that] assms(2) by auto
    with Suc none get [of y] show ?case by auto
  qed
  then show ?thesis unfolding root_of_def by auto
qed

lemma add_spec:
  assumes "rooted (uf_parent uf)"
  shows "rooted (uf_parent (uf_add x uf)) \<and> uf_nodes (uf_add x uf) = insert x (uf_nodes uf)
    \<and> (\<forall>y z. same_set (uf_add x uf) y z \<longleftrightarrow> same_set uf y z \<or> (y = x \<and> z = x))
    \<and> map fst (uf_parent (uf_add x uf)) =
        (if x \<in> uf_nodes uf then map fst (uf_parent uf) else map fst (uf_parent uf) @ [x])"
proof (cases "x \<in> uf_nodes uf")
  case True
  with assms show ?thesis by (auto simp: add_present same_set_refl)
next
  case False
  let ?p = "uf_parent uf"
  have p: "uf_parent (uf_add x uf) = ?p @ [(x, x)]"
    using False by (simp add: uf_add_def uf_nodes_def map_of_eq_None_iff alist_update_absent)
  note r = root_of_snoc [OF assms False [unfolded uf_nodes_def]]
  have "\<not> root_of ?p x s" for s using root_of_dom False by (auto simp: uf_nodes_def)
  then have "same_set (uf_add x uf) y z \<longleftrightarrow> same_set uf y z \<or> (y = x \<and> z = x)" for y z
    using root_of_dom [of ?p _ x] False by (auto simp: same_set_def p r uf_nodes_def)
  moreover have "rooted (?p @ [(x, x)])"
    using assms False rooted_root [OF assms] by (auto simp: rooted_def r uf_nodes_def)
  ultimately show ?thesis using False by (simp add: p uf_nodes_def)
qed

text \<open>\<^verbatim>\<open>find\<close> returns the root, adds the node if it is new, and keeps the partition.\<close>

lemma find_spec:
  assumes "rooted (uf_parent uf)" and "x \<in> uf_nodes uf"
  shows "\<exists>r uf'. uf_find x uf = Some (r, uf') \<and> root_of (uf_parent uf) x r
    \<and> same_roots (uf_parent uf) (uf_parent uf') \<and> uf_rank uf' = uf_rank uf"
proof -
  obtain r n where r: "root_at (uf_parent uf) x n r"
    using rooted_root [OF assms(1) assms(2) [unfolded uf_nodes_def]] unfolding root_of_def by blast
  then have "climb (uf_parent uf) x = Some r" by (intro climb_returns root_ofI)
  moreover obtain p' where "compress r x (uf_parent uf) = Some p'" "same_roots (uf_parent uf) p'"
    using compress_returns [OF assms(1) r] by blast
  ultimately show ?thesis using root_ofI [OF r] assms(2) by (simp add: uf_find_def add_present)
qed

lemma same_roots_same_set:
  "same_roots (uf_parent uf) (uf_parent uf') \<Longrightarrow> same_set uf' = same_set uf"
  by (intro ext) (simp add: same_set_def same_roots_def)

lemma same_roots_nodes:
  "same_roots (uf_parent uf) (uf_parent uf') \<Longrightarrow> uf_nodes uf' = uf_nodes uf"
  unfolding same_roots_def uf_nodes_def by (metis list.set_map)

text \<open>Hanging one root below another joins their sets and changes nothing else.\<close>

lemma hang_root:
  assumes "rooted p" and "map_of p a = Some a" and "map_of p b = Some b" and "a \<noteq> b"
  shows "rooted (AList.update a b p) \<and> map fst (AList.update a b p) = map fst p
    \<and> (\<forall>y s. root_of (AList.update a b p) y s \<longleftrightarrow>
         (if root_of p y a then s = b else root_of p y s))"
proof -
  let ?p = "AList.update a b p"
  have keys: "map fst ?p = map fst p" using root_of_dom [OF root_of_self [OF assms(2)]] by (intro keys_update_present) simp
  have b: "root_of ?p b b" using assms(3,4) by (intro root_of_self) (simp add: update_conv')
  then have a: "root_of ?p a b" using root_of_step [of ?p a b b] assms(4) by (simp add: update_conv')
  have step: "root_of ?p y (if s = a then b else s)" if "root_at p y n s" for y n s
    using that
  proof (induction n arbitrary: y)
    case 0
    with a show ?case by (cases "y = a") (auto simp: update_conv' intro: root_of_self)
  next
    case (Suc n)
    then obtain q where q: "map_of p y = Some q" "q \<noteq> y" "root_at p q n s" by auto
    with assms(2) have "y \<noteq> a" by auto
    with q Suc.IH [OF q(3)] show ?case using root_of_step [of ?p y q] by (simp add: update_conv')
  qed
  have fwd: "root_of ?p y (if s = a then b else s)" if "root_of p y s" for y s
  proof -
    from that obtain n where "root_at p y n s" unfolding root_of_def by blast
    then show ?thesis by (rule step)
  qed
  have iff: "root_of ?p y s \<longleftrightarrow> (if root_of p y a then s = b else root_of p y s)" for y s
  proof (cases "y \<in> fst ` set p")
    case True
    then obtain r where r: "root_of p y r" using rooted_root [OF assms(1)] by blast
    with fwd [OF r] show ?thesis by (auto dest: root_of_unique split: if_splits)
  next
    case False
    with keys root_of_dom [of ?p y s] root_of_dom [of p y] show ?thesis by (auto simp flip: set_map)
  qed
  moreover have "rooted ?p"
    using assms(1) fwd unfolding rooted_def set_map [symmetric] keys by blast
  ultimately show ?thesis using keys by blast
qed

lemma hang_same_set:
  assumes "rooted (uf_parent uf)" and "map_of (uf_parent uf) a = Some a" and "map_of (uf_parent uf) b = Some b"
    and "a \<noteq> b" and "uf_parent uf' = AList.update a b (uf_parent uf)"
  shows "same_set uf' x y \<longleftrightarrow> same_set uf x y \<or> (same_set uf x a \<and> same_set uf b y) \<or> (same_set uf x b \<and> same_set uf a y)"
proof -
  note h = hang_root [OF assms(1-4), folded assms(5), THEN conjunct2, THEN conjunct2, rule_format]
  have ra: "root_of (uf_parent uf) a a" and rb: "root_of (uf_parent uf) b b" using assms(2,3) by (auto intro: root_of_self)
  have a: "same_set uf z a \<longleftrightarrow> root_of (uf_parent uf) z a" "same_set uf a z \<longleftrightarrow> root_of (uf_parent uf) z a"
    and b: "same_set uf z b \<longleftrightarrow> root_of (uf_parent uf) z b" "same_set uf b z \<longleftrightarrow> root_of (uf_parent uf) z b" for z
    using same_set_root [OF ra, of z] same_set_root [OF rb, of z] by (auto dest: same_set_sym)
  show ?thesis unfolding a b
    by (cases "root_of (uf_parent uf) x a"; cases "root_of (uf_parent uf) y a")
      (auto simp: same_set_def h dest: root_of_unique)
qed

lemma link_parent:
  "uf_parent (uf_link ra rb uf) = AList.update ra rb (uf_parent uf) \<or> uf_parent (uf_link ra rb uf) = AList.update rb ra (uf_parent uf)"
  by (simp add: uf_link_def Let_def)

text \<open>\<^verbatim>\<open>union\<close> joins the two sets, whichever root the ranks put on top, and reports whether they were apart.\<close>

lemma union_spec:
  assumes ok: "rooted (uf_parent uf)" and "a \<in> uf_nodes uf" and "b \<in> uf_nodes uf"
  shows "\<exists>merged uf'. uf_union a b uf = Some (merged, uf') \<and> rooted (uf_parent uf')
    \<and> map fst (uf_parent uf') = map fst (uf_parent uf) \<and> (merged \<longleftrightarrow> \<not> same_set uf a b)
    \<and> (\<forall>x y. same_set uf' x y \<longleftrightarrow>
         same_set uf x y \<or> (same_set uf x a \<and> same_set uf b y) \<or> (same_set uf x b \<and> same_set uf a y))"
proof -
  obtain ra uf1 where f1: "uf_find a uf = Some (ra, uf1)" "root_of (uf_parent uf) a ra" "same_roots (uf_parent uf) (uf_parent uf1)"
    using find_spec [OF ok assms(2)] by blast
  note ok1 = same_roots_rooted [OF f1(3) ok]
  obtain rb uf2 where f2: "uf_find b uf1 = Some (rb, uf2)" "root_of (uf_parent uf1) b rb" "same_roots (uf_parent uf1) (uf_parent uf2)"
    using find_spec [OF ok1] assms(3) same_roots_nodes [OF f1(3)] by blast
  note ok2 = same_roots_rooted [OF f2(3) ok1] and s = same_roots_trans [OF f1(3) f2(3)]
  have rb: "root_of (uf_parent uf) b rb" using f2(2) f1(3) by (simp add: same_roots_def)
  have root2: "map_of (uf_parent uf2) ra = Some ra" "map_of (uf_parent uf2) rb = Some rb"
    using f1(2) rb s by (auto simp: same_roots_def intro: root_of_root [of "uf_parent uf2"])
  have set2: "same_set uf2 = same_set uf" using s by (rule same_roots_same_set)
  have keys: "map fst (uf_parent uf2) = map fst (uf_parent uf)" using s by (simp add: same_roots_def)
  have ab: "same_set uf a b \<longleftrightarrow> ra = rb" using same_set_root [OF f1(2), of b] rb by (auto dest: root_of_unique)
  have ends: "same_set uf x a \<longleftrightarrow> same_set uf x ra" "same_set uf a x \<longleftrightarrow> same_set uf ra x"
    "same_set uf x b \<longleftrightarrow> same_set uf x rb" "same_set uf b x \<longleftrightarrow> same_set uf rb x" for x
  proof -
    have "same_set uf a ra" "same_set uf b rb"
      using f1(2) rb by (auto simp: same_set_def intro: root_of_self root_of_root)
    then show "same_set uf x a \<longleftrightarrow> same_set uf x ra" "same_set uf a x \<longleftrightarrow> same_set uf ra x"
      "same_set uf x b \<longleftrightarrow> same_set uf x rb" "same_set uf b x \<longleftrightarrow> same_set uf rb x"
      using same_set_cong by blast+
  qed
  show ?thesis
  proof (cases "ra = rb")
    case True
    then have "uf_union a b uf = Some (False, uf2)" by (simp add: uf_union_def f1 f2)
    moreover have "same_set uf x a \<and> same_set uf b y \<or> same_set uf x b \<and> same_set uf a y \<Longrightarrow> same_set uf x y" for x y
      using ends True same_set_trans same_set_sym by blast
    then have "\<forall>x y. same_set uf2 x y \<longleftrightarrow>
        same_set uf x y \<or> (same_set uf x a \<and> same_set uf b y) \<or> (same_set uf x b \<and> same_set uf a y)"
      unfolding set2 by blast
    moreover have "False \<longleftrightarrow> \<not> same_set uf a b" using ab True by blast
    ultimately show ?thesis using ok2 keys by blast
  next
    case False
    let ?uf = "uf_link ra rb uf2"
    have "uf_union a b uf = Some (True, ?uf)" using False by (simp add: uf_union_def f1 f2)
    moreover have "rooted (uf_parent ?uf) \<and> map fst (uf_parent ?uf) = map fst (uf_parent uf)"
      using keys link_parent [of ra rb uf2] hang_root [OF ok2 root2 False] hang_root [OF ok2 root2(2,1) False [symmetric]] by auto
    moreover have "same_set ?uf x y \<longleftrightarrow> same_set uf x y \<or> (same_set uf x ra \<and> same_set uf rb y) \<or> (same_set uf x rb \<and> same_set uf ra y)" for x y
      using link_parent [of ra rb uf2] hang_same_set [OF ok2 root2 False, of ?uf x y]
        hang_same_set [OF ok2 root2(2,1) False [symmetric], of ?uf x y] unfolding set2 by blast
    then have "\<forall>x y. same_set ?uf x y \<longleftrightarrow>
        same_set uf x y \<or> (same_set uf x a \<and> same_set uf b y) \<or> (same_set uf x b \<and> same_set uf a y)"
      unfolding ends by blast
    moreover have "True \<longleftrightarrow> \<not> same_set uf a b" using ab False by blast
    ultimately show ?thesis by blast
  qed
qed

section \<open>Components\<close>

definition nonempty :: "'a list \<Rightarrow> 'a list option" where
  "nonempty xs = (if xs = [] then None else Some xs)"

lemma group_by_root_spec:
  assumes "rooted (uf_parent uf)" and "key ` set xs \<subseteq> uf_nodes uf" and "\<forall>r. map_of m r = nonempty (g r)"
    and "distinct (map fst m)"
  shows "\<exists>m' uf'. group_by_root key xs m uf = Some (m', uf') \<and> same_roots (uf_parent uf) (uf_parent uf')
    \<and> distinct (map fst m')
    \<and> (\<forall>r. map_of m' r = nonempty (g r @ filter (\<lambda>x. root_of (uf_parent uf) (key x) r) xs))"
  using assms
proof (induction xs arbitrary: m uf g)
  case Nil
  then show ?case by (simp add: same_roots_refl)
next
  case (Cons x xs)
  obtain root uf1 where f: "uf_find (key x) uf = Some (root, uf1)" "root_of (uf_parent uf) (key x) root"
    "same_roots (uf_parent uf) (uf_parent uf1)" using find_spec [OF Cons.prems(1), of "key x"] Cons.prems(2) by auto
  let ?m = "AList.update root (case map_of m root of None \<Rightarrow> [x] | Some b \<Rightarrow> b @ [x]) m"
  let ?g = "g(root := g root @ [x])"
  have get: "\<forall>r. map_of ?m r = nonempty (?g r)"
    using Cons.prems(3) by (auto simp: update_conv' nonempty_def split: option.split)
  have roots: "root_of (uf_parent uf1) y r \<longleftrightarrow> root_of (uf_parent uf) y r" for y r using f(3) by (simp add: same_roots_def)
  have here: "root_of (uf_parent uf) (key x) r \<longleftrightarrow> r = root" for r using f(2) by (auto dest: root_of_unique)
  have sub: "key ` set xs \<subseteq> uf_nodes uf1" using Cons.prems(2) same_roots_nodes [OF f(3)] by simp
  obtain m' uf' where rec: "group_by_root key xs ?m uf1 = Some (m', uf')"
    "same_roots (uf_parent uf1) (uf_parent uf')" "distinct (map fst m')"
    "\<forall>r. map_of m' r = nonempty (?g r @ filter (\<lambda>x. root_of (uf_parent uf1) (key x) r) xs)"
    using Cons.IH [OF same_roots_rooted [OF f(3) Cons.prems(1)] sub get distinct_update [OF Cons.prems(4)]] by blast
  have "map_of m' r = nonempty (g r @ filter (\<lambda>x. root_of (uf_parent uf) (key x) r) (x # xs))" for r
    using rec(4) by (simp add: roots here)
  with rec same_roots_trans [OF f(3)] f(1) show ?case by simp
qed

text \<open>Every component is listed once, under its root, with its members in insertion order.\<close>

lemma components_spec:
  assumes "rooted (uf_parent uf)"
  shows "\<exists>comps uf'. components uf = Some (comps, uf') \<and> distinct (map fst comps)
    \<and> (\<forall>r. map_of comps r = nonempty (filter (\<lambda>x. root_of (uf_parent uf) x r) (map fst (uf_parent uf))))"
  using group_by_root_spec [OF assms, of "\<lambda>node. node" "map fst (uf_parent uf)" "[]" "\<lambda>_. []"]
  by (auto simp: components_def uf_nodes_def nonempty_def)

end
