(* ===== verification/Fraud_Graph.thy ===== *)
theory Fraud_Graph
  imports Union_Find Js_Numerals "HOL-Library.List_Lexorder" "HOL-Library.Char_ord"
begin

text \<open>
  The pure part of the fraud detector, \<^verbatim>\<open>src/services/fraudService.ts\<close>: the suspicion graph between addresses and
  its clusters. \<open>sha\<close> is SHA-256. A JavaScript \<^verbatim>\<open>Set\<close> is a list without repetition in insertion order; strings
  compare by their characters, as \<^verbatim>\<open><\<close> and \<^verbatim>\<open>sort()\<close> do.

  \<^item> \<open>build_graph_exact\<close>: the edges are exactly the pairs of addresses that share a funder, a transaction or a
    betting pattern.
  \<^item> \<open>clusters_are_components\<close>: \<open>clusterize\<close> returns the connected components of at least two addresses, each
    once, with their own edges and score.
\<close>

section \<open>Data\<close>

record fraud_prediction =
  fp_predictionId :: string
  fp_userId :: string
  fp_stellarAddress :: string
  fp_marketId :: string
  fp_outcome :: string
  fp_amount :: string
  fp_txHash :: string
  fp_fundingSource :: "string option"
  fp_createdAt :: time

datatype edge_reason = SHARED_FUNDING_SOURCE | SHARED_TX_HASH | REPEATED_PATTERN

record graph_edge =
  ge_a :: string
  ge_b :: string
  ge_reason :: edge_reason
  ge_detail :: string

record address_graph =
  ag_nodes :: "string list"
  ag_edges :: "graph_edge list"

record cluster =
  cl_key :: string
  cl_members :: "string list"
  cl_edges :: "graph_edge list"
  cl_score :: int

definition MIN_CLUSTER_SIZE :: nat where "MIN_CLUSTER_SIZE = 2"

definition PATTERN_BUCKET_MS :: int where "PATTERN_BUCKET_MS = 5 * 60 * 1000"

fun EDGE_WEIGHT :: "edge_reason \<Rightarrow> int" where
  "EDGE_WEIGHT SHARED_FUNDING_SOURCE = 5"
| "EDGE_WEIGHT SHARED_TX_HASH = 8"
| "EDGE_WEIGHT REPEATED_PATTERN = 3"

fun edge_reason_text :: "edge_reason \<Rightarrow> string" where
  "edge_reason_text SHARED_FUNDING_SOURCE = ''SHARED_FUNDING_SOURCE''"
| "edge_reason_text SHARED_TX_HASH = ''SHARED_TX_HASH''"
| "edge_reason_text REPEATED_PATTERN = ''REPEATED_PATTERN''"

section \<open>Building the graph\<close>

definition orderedPair :: "string \<Rightarrow> string \<Rightarrow> string \<times> string" where
  "orderedPair x y = (if x < y then (x, y) else (y, x))"

definition join_bar :: "string list \<Rightarrow> string" where
  "join_bar xs = concat (case xs of [] \<Rightarrow> [] | y # ys \<Rightarrow> y # concat (map (\<lambda>z. [''|'', z]) ys))"

definition makeClusterKey :: "(string \<Rightarrow> string) \<Rightarrow> string list \<Rightarrow> string" where
  "makeClusterKey sha members = sha (join_bar (sort members))"

definition set_add :: "'a \<Rightarrow> 'a list \<Rightarrow> 'a list" where
  "set_add x xs = (if x \<in> set xs then xs else xs @ [x])"

type_synonym addr_buckets = "(string \<times> string list) list"

definition bucket_get :: "addr_buckets \<Rightarrow> string \<Rightarrow> string list" where
  "bucket_get m k = (case map_of m k of None \<Rightarrow> [] | Some s \<Rightarrow> s)"

definition bucket_add :: "string \<Rightarrow> string \<Rightarrow> addr_buckets \<Rightarrow> addr_buckets" where
  "bucket_add k addr m = AList.update k (set_add addr (bucket_get m k)) m"

definition patternKey :: "fraud_prediction \<Rightarrow> string" where
  "patternKey r = fp_marketId r @ ''|'' @ fp_outcome r @ ''|'' @ fp_amount r @ ''|''
     @ int_to_string (fp_createdAt r div PATTERN_BUCKET_MS)"

text \<open>One turn of the first loop, on the nodes and the three bucket maps.\<close>

definition graph_row ::
  "fraud_prediction \<Rightarrow> string list \<times> addr_buckets \<times> addr_buckets \<times> addr_buckets
    \<Rightarrow> string list \<times> addr_buckets \<times> addr_buckets \<times> addr_buckets" where
  "graph_row r st = (case st of (nodes, byFunder, byTxHash, byPattern) \<Rightarrow>
    (if fp_stellarAddress r = [] then st
     else (set_add (fp_stellarAddress r) nodes,
           (case fp_fundingSource r of
              None \<Rightarrow> byFunder
            | Some f \<Rightarrow> if f = [] then byFunder else bucket_add f (fp_stellarAddress r) byFunder),
           (if fp_txHash r = [] then byTxHash else bucket_add (fp_txHash r) (fp_stellarAddress r) byTxHash),
           bucket_add (patternKey r) (fp_stellarAddress r) byPattern)))"

type_synonym edge_map = "(string \<times> graph_edge) list"

definition edge_key :: "graph_edge \<Rightarrow> string" where
  "edge_key e = edge_reason_text (ge_reason e) @ ''::'' @ ge_detail e @ ''::'' @ ge_a e @ ''::'' @ ge_b e"

definition addEdge :: "edge_reason \<Rightarrow> string \<Rightarrow> string \<Rightarrow> string \<Rightarrow> edge_map \<Rightarrow> edge_map" where
  "addEdge reason detail a b em =
    (if a = b then em
     else (case orderedPair a b of (x, y) \<Rightarrow>
       (let e = \<lparr>ge_a = x, ge_b = y, ge_reason = reason, ge_detail = detail\<rparr>
        in if map_of em (edge_key e) \<noteq> None then em else AList.update (edge_key e) e em)))"

text \<open>The two nested loops over the pairs of one bucket, and the loop over the buckets of one map.\<close>

fun add_pairs :: "edge_reason \<Rightarrow> string \<Rightarrow> string list \<Rightarrow> edge_map \<Rightarrow> edge_map" where
  "add_pairs reason detail [] em = em"
| "add_pairs reason detail (x # xs) em = add_pairs reason detail xs (fold (\<lambda>y. addEdge reason detail x y) xs em)"

definition bucket_edges :: "edge_reason \<Rightarrow> addr_buckets \<Rightarrow> edge_map \<Rightarrow> edge_map" where
  "bucket_edges reason m em = fold (\<lambda>(k, addrs) em. if length addrs < 2 then em else add_pairs reason k addrs em) m em"

definition buildGraph :: "fraud_prediction list \<Rightarrow> address_graph" where
  "buildGraph rows = (case fold graph_row rows ([], [], [], []) of (nodes, byFunder, byTxHash, byPattern) \<Rightarrow>
     \<lparr>ag_nodes = nodes,
      ag_edges = map snd (bucket_edges REPEATED_PATTERN byPattern
        (bucket_edges SHARED_TX_HASH byTxHash (bucket_edges SHARED_FUNDING_SOURCE byFunder [])))\<rparr>)"

section \<open>Clusters\<close>

fun union_edges :: "graph_edge list \<Rightarrow> union_find \<Rightarrow> union_find option" where
  "union_edges [] uf = Some uf"
| "union_edges (e # es) uf = (case uf_union (ge_a e) (ge_b e) uf of None \<Rightarrow> None | Some (_, uf1) \<Rightarrow> union_edges es uf1)"

definition make_cluster :: "(string \<Rightarrow> string) \<Rightarrow> (string \<times> graph_edge list) list \<Rightarrow> string \<times> string list \<Rightarrow> cluster" where
  "make_cluster sha edgesPerRoot c = (case c of (root, members) \<Rightarrow>
    (let sorted_members = sort members;
         edges = (case map_of edgesPerRoot root of None \<Rightarrow> [] | Some es \<Rightarrow> es)
     in \<lparr>cl_key = makeClusterKey sha sorted_members, cl_members = sorted_members, cl_edges = edges,
         cl_score = fold (\<lambda>e s. s + EDGE_WEIGHT (ge_reason e)) edges 0\<rparr>))"

definition clusterize :: "(string \<Rightarrow> string) \<Rightarrow> address_graph \<Rightarrow> cluster list option" where
  "clusterize sha graph =
    (case union_edges (ag_edges graph) (fold uf_add (ag_nodes graph) new_union_find) of
       None \<Rightarrow> None
     | Some uf \<Rightarrow> (case group_by_root ge_a (ag_edges graph) [] uf of
         None \<Rightarrow> None
       | Some (edgesPerRoot, uf1) \<Rightarrow> (case components uf1 of
           None \<Rightarrow> None
         | Some (comps, _) \<Rightarrow>
             Some (map (make_cluster sha edgesPerRoot) (filter (\<lambda>(_, members). MIN_CLUSTER_SIZE \<le> length members) comps)))))"

section \<open>Connected addresses\<close>

definition linked :: "graph_edge list \<Rightarrow> string \<Rightarrow> string \<Rightarrow> bool" where
  "linked es x y \<longleftrightarrow> (\<exists>e \<in> set es. (ge_a e = x \<and> ge_b e = y) \<or> (ge_a e = y \<and> ge_b e = x))"

definition connected :: "graph_edge list \<Rightarrow> string \<Rightarrow> string \<Rightarrow> bool" where
  "connected es = (linked es)\<^sup>*\<^sup>*"

lemma linked_sym: "linked es x y \<Longrightarrow> linked es y x"
  by (auto simp: linked_def)

lemma connected_sym: "connected es x y \<Longrightarrow> connected es y x"
  unfolding connected_def by (induction rule: rtranclp_induct) (auto intro: converse_rtranclp_into_rtranclp linked_sym)

lemma connected_trans: "connected es x y \<Longrightarrow> connected es y z \<Longrightarrow> connected es x z"
  unfolding connected_def by (rule rtranclp_trans)

lemma connected_refl: "connected es x x"
  by (simp add: connected_def)

lemma connected_mono: "set es \<subseteq> set fs \<Longrightarrow> connected es x y \<Longrightarrow> connected fs x y"
  unfolding connected_def linked_def by (erule rtranclp_mono [THEN predicate2D, rotated]) blast

lemma connected_edge: "e \<in> set es \<Longrightarrow> connected es (ge_a e) (ge_b e)"
  unfolding connected_def linked_def by (rule r_into_rtranclp) blast

text \<open>One more edge joins the classes of its ends.\<close>

lemma connected_snoc:
  "connected (es @ [e]) x y \<longleftrightarrow> connected es x y
     \<or> (connected es x (ge_a e) \<and> connected es (ge_b e) y) \<or> (connected es x (ge_b e) \<and> connected es (ge_a e) y)"
  (is "?l \<longleftrightarrow> ?r y")
proof
  assume ?l
  then show "?r y" unfolding connected_def [of "es @ [e]"]
  proof (induction rule: rtranclp_induct)
    case base
    show ?case by (simp add: connected_refl)
  next
    case (step y z)
    from step.hyps(2) consider "linked es y z" | "y = ge_a e" "z = ge_b e" | "y = ge_b e" "z = ge_a e"
      by (auto simp: linked_def)
    then show ?case
    proof cases
      case 1
      then have "connected es y z" by (simp add: connected_def)
      with step.IH show ?thesis using connected_trans by blast
    next
      case 2
      with step.IH show ?thesis using connected_refl connected_trans by blast
    next
      case 3
      with step.IH show ?thesis using connected_refl connected_trans by blast
    qed
  qed
next
  have m: "connected es u v \<Longrightarrow> connected (es @ [e]) u v" for u v by (rule connected_mono) auto
  have "connected (es @ [e]) (ge_a e) (ge_b e)" by (rule connected_edge) simp
  then show "?r y \<Longrightarrow> ?l" using m connected_trans connected_sym by meson
qed

section \<open>Clustering is exact\<close>

lemma add_nodes_spec:
  assumes "distinct (map fst (uf_parent uf) @ ns)" and "rooted (uf_parent uf)"
    and "\<forall>x y. same_set uf x y \<longleftrightarrow> x = y \<and> x \<in> uf_nodes uf"
  shows "rooted (uf_parent (fold uf_add ns uf)) \<and> map fst (uf_parent (fold uf_add ns uf)) = map fst (uf_parent uf) @ ns
    \<and> (\<forall>x y. same_set (fold uf_add ns uf) x y \<longleftrightarrow> x = y \<and> x \<in> uf_nodes (fold uf_add ns uf))"
  using assms
proof (induction ns arbitrary: uf)
  case (Cons n ns)
  note add = add_spec [OF Cons.prems(2), of n]
  have "n \<notin> uf_nodes uf" using Cons.prems(1) by (auto simp: uf_nodes_def)
  with add Cons.prems have "distinct (map fst (uf_parent (uf_add n uf)) @ ns)"
    "\<forall>x y. same_set (uf_add n uf) x y \<longleftrightarrow> x = y \<and> x \<in> uf_nodes (uf_add n uf)" by auto
  from Cons.IH [OF this(1) _ this(2)] add \<open>n \<notin> uf_nodes uf\<close> show ?case by simp
qed simp

definition uf_upto :: "string list \<Rightarrow> graph_edge list \<Rightarrow> union_find \<Rightarrow> bool" where
  "uf_upto ns es uf \<longleftrightarrow> rooted (uf_parent uf) \<and> map fst (uf_parent uf) = ns
     \<and> (\<forall>x y. same_set uf x y \<longleftrightarrow> x \<in> set ns \<and> y \<in> set ns \<and> connected es x y)"

lemma new_upto: "distinct ns \<Longrightarrow> uf_upto ns [] (fold uf_add ns new_union_find)"
proof -
  assume d: "distinct ns"
  have "(linked [])\<^sup>*\<^sup>* x y \<Longrightarrow> x = y" for x y
    by (induction rule: rtranclp_induct) (simp_all add: linked_def)
  then have c: "connected [] x y \<longleftrightarrow> x = y" for x y by (auto simp: connected_def)
  have "rooted (uf_parent (fold uf_add ns new_union_find)) \<and> map fst (uf_parent (fold uf_add ns new_union_find)) = ns
    \<and> (\<forall>x y. same_set (fold uf_add ns new_union_find) x y \<longleftrightarrow> x = y \<and> x \<in> uf_nodes (fold uf_add ns new_union_find))"
    using add_nodes_spec [of new_union_find ns] d root_of_dom [of "[]"]
    by (auto simp: new_union_find_def rooted_def same_set_def uf_nodes_def)
  then show ?thesis by (auto simp: uf_upto_def c uf_nodes_def simp flip: set_map)
qed

lemma union_edges_spec:
  assumes "uf_upto ns done uf" and "\<forall>e \<in> set es. ge_a e \<in> set ns \<and> ge_b e \<in> set ns"
  shows "\<exists>uf'. union_edges es uf = Some uf' \<and> uf_upto ns (done @ es) uf'"
  using assms
proof (induction es arbitrary: uf "done")
  case (Cons e es)
  have nodes: "uf_nodes uf = set ns" using Cons.prems(1) unfolding uf_upto_def uf_nodes_def by (metis list.set_map)
  obtain b uf1 where u: "uf_union (ge_a e) (ge_b e) uf = Some (b, uf1)" "rooted (uf_parent uf1)"
    "map fst (uf_parent uf1) = map fst (uf_parent uf)"
    "\<forall>x y. same_set uf1 x y \<longleftrightarrow> same_set uf x y \<or> (same_set uf x (ge_a e) \<and> same_set uf (ge_b e) y)
       \<or> (same_set uf x (ge_b e) \<and> same_set uf (ge_a e) y)"
    using union_spec [of uf "ge_a e" "ge_b e"] Cons.prems nodes by (auto simp: uf_upto_def)
  have "same_set uf1 x y \<longleftrightarrow> x \<in> set ns \<and> y \<in> set ns \<and> connected (done @ [e]) x y" for x y
    using Cons.prems u(4) unfolding connected_snoc uf_upto_def by auto
  then have "uf_upto ns (done @ [e]) uf1" using u(2,3) Cons.prems(1) by (simp add: uf_upto_def)
  with Cons.IH [of "done @ [e]" uf1] Cons.prems(2) u(1) show ?case by simp
qed simp

text \<open>The component of an address, as the sorted list of its members.\<close>

definition component :: "address_graph \<Rightarrow> string \<Rightarrow> string list" where
  "component g x = sorted_list_of_set {y \<in> set (ag_nodes g). connected (ag_edges g) x y}"

definition graph_ok :: "address_graph \<Rightarrow> bool" where
  "graph_ok g \<longleftrightarrow> distinct (ag_nodes g) \<and> (\<forall>e \<in> set (ag_edges g). ge_a e \<in> set (ag_nodes g) \<and> ge_b e \<in> set (ag_nodes g))"

lemma fold_score: "fold (\<lambda>e s. s + EDGE_WEIGHT (ge_reason e)) es s = s + sum_list (map (\<lambda>e. EDGE_WEIGHT (ge_reason e)) es)"
  by (induction es arbitrary: s) simp_all

lemma component_of_root:
  assumes up: "uf_upto (ag_nodes g) (ag_edges g) uf" and "x \<in> set (ag_nodes g)" and "root_of (uf_parent uf) x r"
    and "distinct (ag_nodes g)"
  shows "sort (filter (\<lambda>y. root_of (uf_parent uf) y r) (ag_nodes g)) = component g x"
proof -
  have "root_of (uf_parent uf) y r \<longleftrightarrow> connected (ag_edges g) x y" if "y \<in> set (ag_nodes g)" for y
    using same_set_root [OF assms(3), of y] up that assms(2) by (simp add: uf_upto_def)
  then have "set (filter (\<lambda>y. root_of (uf_parent uf) y r) (ag_nodes g)) = {y \<in> set (ag_nodes g). connected (ag_edges g) x y}"
    by auto
  moreover have "distinct (filter (\<lambda>y. root_of (uf_parent uf) y r) (ag_nodes g))" using assms(4) by simp
  ultimately show ?thesis unfolding component_def
    by (metis distinct_remdups_id sorted_list_of_set_sort_remdups)
qed

text \<open>What the filed lists hold when the union-find has processed the whole graph.\<close>

definition grouped :: "address_graph \<Rightarrow> union_find \<Rightarrow> (string \<times> graph_edge list) list \<Rightarrow> (string \<times> string list) list \<Rightarrow> bool" where
  "grouped g uf m comps \<longleftrightarrow> uf_upto (ag_nodes g) (ag_edges g) uf \<and> distinct (map fst comps)
    \<and> (\<forall>r. map_of m r = nonempty (filter (\<lambda>e. root_of (uf_parent uf) (ge_a e) r) (ag_edges g)))
    \<and> (\<forall>r. map_of comps r = nonempty (filter (\<lambda>x. root_of (uf_parent uf) x r) (ag_nodes g)))"

lemma clusterize_groups:
  assumes "graph_ok g"
  shows "\<exists>uf m comps. grouped g uf m comps
    \<and> clusterize sha g = Some (map (make_cluster sha m) (filter (\<lambda>(_, members). MIN_CLUSTER_SIZE \<le> length members) comps))"
proof -
  let ?ns = "ag_nodes g" and ?es = "ag_edges g"
  obtain uf where u: "union_edges ?es (fold uf_add ?ns new_union_find) = Some uf" "uf_upto ?ns ?es uf"
    using union_edges_spec [OF new_upto, of ?ns ?es] assms by (auto simp: graph_ok_def)
  have ok: "rooted (uf_parent uf)" and keys: "map fst (uf_parent uf) = ?ns" using u(2) by (simp_all add: uf_upto_def)
  have "uf_nodes uf = set ?ns" unfolding uf_nodes_def keys [symmetric] by simp
  then have "ge_a ` set ?es \<subseteq> uf_nodes uf" using assms by (auto simp: graph_ok_def)
  from group_by_root_spec [OF ok this, of "[]" "\<lambda>_. []"] obtain m uf1 where
    m: "group_by_root ge_a ?es [] uf = Some (m, uf1)" "same_roots (uf_parent uf) (uf_parent uf1)"
      "\<forall>r. map_of m r = nonempty (filter (\<lambda>e. root_of (uf_parent uf) (ge_a e) r) ?es)"
    by (auto simp: nonempty_def)
  obtain comps uf2 where c: "components uf1 = Some (comps, uf2)" "distinct (map fst comps)"
    "\<forall>r. map_of comps r = nonempty (filter (\<lambda>x. root_of (uf_parent uf1) x r) (map fst (uf_parent uf1)))"
    using components_spec [OF same_roots_rooted [OF m(2) ok]] by blast
  have "\<forall>r. map_of comps r = nonempty (filter (\<lambda>x. root_of (uf_parent uf) x r) ?ns)"
    using c(3) m(2) keys by (simp add: same_roots_def)
  then have "grouped g uf m comps" using u(2) m(3) c(2) by (simp add: grouped_def)
  moreover have "clusterize sha g = Some (map (make_cluster sha m) (filter (\<lambda>(_, members). MIN_CLUSTER_SIZE \<le> length members) comps))"
    by (simp add: clusterize_def u(1) m(1) c(1))
  ultimately show ?thesis by blast
qed

lemma grouped_entry:
  "grouped g uf m comps \<Longrightarrow> (r, ms) \<in> set comps \<Longrightarrow>
     map_of comps r = Some ms \<and> ms = filter (\<lambda>x. root_of (uf_parent uf) x r) (ag_nodes g) \<and> ms \<noteq> []"
  using map_of_is_SomeI [of comps r ms] by (auto simp: grouped_def nonempty_def split: if_splits)

lemma grouped_root:
  "grouped g uf m comps \<Longrightarrow> (r, ms) \<in> set comps \<Longrightarrow> x \<in> set ms \<Longrightarrow> root_of (uf_parent uf) x r \<and> x \<in> set (ag_nodes g)"
  using grouped_entry [of g uf m comps r ms] by simp

lemma members_make [simp]: "cl_members (make_cluster sha m x) = sort (snd x)"
  by (cases x) (simp add: make_cluster_def Let_def)

lemma grouped_edges:
  assumes g: "grouped g uf m comps" and "graph_ok g" and c: "(r, ms) \<in> set comps"
  shows "cl_edges (make_cluster sha m (r, ms)) = filter (\<lambda>e. ge_a e \<in> set ms) (ag_edges g)"
proof -
  have "cl_edges (make_cluster sha m (r, ms)) = filter (\<lambda>e. root_of (uf_parent uf) (ge_a e) r) (ag_edges g)"
    using g by (auto simp: grouped_def make_cluster_def Let_def nonempty_def)
  also have "\<dots> = filter (\<lambda>e. ge_a e \<in> set ms) (ag_edges g)"
    using grouped_entry [OF g c] assms(2) by (intro filter_cong) (auto simp: graph_ok_def)
  finally show ?thesis .
qed

lemma grouped_inj:
  assumes g: "grouped g uf m comps"
  shows "inj_on (\<lambda>x. sort (snd x)) (set comps)"
proof (rule inj_onI, clarify)
  fix r ms r' ms'
  assume a: "(r, ms) \<in> set comps" "(r', ms') \<in> set comps" "sort (snd (r, ms)) = sort (snd (r', ms'))"
  then have same: "set ms = set ms'" by (metis set_sort snd_conv)
  note e = grouped_entry [OF g a(1)] grouped_entry [OF g a(2)]
  then obtain x where x: "x \<in> set ms" by (meson list.set_sel(1))
  then have "root_of (uf_parent uf) x r" using grouped_root [OF g a(1)] by blast
  moreover have "root_of (uf_parent uf) x r'" using grouped_root [OF g a(2)] x same by blast
  ultimately have "r = r'" by (rule root_of_unique)
  with e [THEN conjunct1] show "r = r' \<and> ms = ms'" by simp
qed

lemma grouped_members:
  assumes g: "grouped g uf m comps" and ok: "graph_ok g"
  shows "{ms. \<exists>c \<in> set comps. ms = sort (snd c) \<and> 2 \<le> length ms} =
    {ms. \<exists>x \<in> set (ag_nodes g). ms = component g x \<and> 2 \<le> length ms}" (is "?L = ?R")
proof (intro equalityI subsetI)
  have up: "uf_upto (ag_nodes g) (ag_edges g) uf" and nodes: "distinct (ag_nodes g)"
    using g ok by (simp_all add: grouped_def graph_ok_def)
  fix ms
  {
    assume "ms \<in> ?L"
    then obtain r xs where x: "(r, xs) \<in> set comps" "2 \<le> length ms" "ms = sort xs" by auto
    then obtain x where "x \<in> set xs" by (cases xs) auto
    with grouped_root [OF g x(1)] have "x \<in> set (ag_nodes g)" "root_of (uf_parent uf) x r" by blast+
    with component_of_root [OF up _ _ nodes] grouped_entry [OF g x(1)] x(2,3) show "ms \<in> ?R" by auto
  next
    assume "ms \<in> ?R"
    then obtain x where x: "x \<in> set (ag_nodes g)" "ms = component g x" "2 \<le> length ms" by blast
    have "set (ag_nodes g) = fst ` set (uf_parent uf)" using up unfolding uf_upto_def by (metis list.set_map)
    then obtain r where r: "root_of (uf_parent uf) x r"
      using rooted_root [of "uf_parent uf" x] up x(1) by (auto simp: uf_upto_def)
    let ?xs = "filter (\<lambda>y. root_of (uf_parent uf) y r) (ag_nodes g)"
    have eq: "sort ?xs = ms" using component_of_root [OF up x(1) r nodes] x(2) by simp
    have "x \<in> set ?xs" using x(1) r by simp
    then have "?xs \<noteq> []" by force
    then have "map_of comps r = Some ?xs" using g by (simp add: grouped_def nonempty_def)
    then have "(r, ?xs) \<in> set comps" by (rule map_of_SomeD)
    with eq x(3) show "ms \<in> ?L" by force
  }
qed

lemma clusterize_exact:
  assumes ok: "graph_ok g"
  shows "\<exists>cs. clusterize sha g = Some cs \<and> distinct (map cl_members cs)
    \<and> set (map cl_members cs) = {ms. \<exists>x \<in> set (ag_nodes g). ms = component g x \<and> 2 \<le> length ms}
    \<and> (\<forall>c \<in> set cs. cl_edges c = filter (\<lambda>e. ge_a e \<in> set (cl_members c)) (ag_edges g)
         \<and> cl_score c = sum_list (map (\<lambda>e. EDGE_WEIGHT (ge_reason e)) (cl_edges c))
         \<and> cl_key c = sha (join_bar (cl_members c)))"
proof -
  let ?P = "\<lambda>(_ :: string, members :: string list). MIN_CLUSTER_SIZE \<le> length members"
  obtain uf m comps where g: "grouped g uf m comps"
    and cl: "clusterize sha g = Some (map (make_cluster sha m) (filter ?P comps))"
    using clusterize_groups [OF ok] by blast
  let ?cs = "map (make_cluster sha m) (filter ?P comps)"
  have "distinct (filter ?P comps)" using g by (simp add: grouped_def distinct_map)
  then have dist: "distinct (map cl_members ?cs)"
    using inj_on_subset [OF grouped_inj [OF g] filter_is_subset] by (simp add: distinct_map o_def)
  have "set (map cl_members ?cs) = {ms. \<exists>c \<in> set comps. ms = sort (snd c) \<and> 2 \<le> length ms}"
    by (force simp: MIN_CLUSTER_SIZE_def)
  with grouped_members [OF g ok]
  have sets: "set (map cl_members ?cs) = {ms. \<exists>x \<in> set (ag_nodes g). ms = component g x \<and> 2 \<le> length ms}" by simp
  have each: "cl_edges k = filter (\<lambda>e. ge_a e \<in> set (cl_members k)) (ag_edges g)
       \<and> cl_score k = sum_list (map (\<lambda>e. EDGE_WEIGHT (ge_reason e)) (cl_edges k)) \<and> cl_key k = sha (join_bar (cl_members k))"
    if "k \<in> set ?cs" for k
  proof -
    from that obtain r ms where c: "(r, ms) \<in> set comps" "k = make_cluster sha m (r, ms)" by auto
    have "cl_score k = fold (\<lambda>e s. s + EDGE_WEIGHT (ge_reason e)) (cl_edges k) 0" "cl_key k = makeClusterKey sha (sort ms)"
      by (simp_all add: c(2) make_cluster_def Let_def)
    then show ?thesis using grouped_edges [OF g ok c(1)] by (simp add: c(2) fold_score makeClusterKey_def sorted_sort_id)
  qed
  from cl dist sets each show ?thesis by blast
qed

section \<open>The edges of the graph\<close>

subsection \<open>Buckets\<close>

definition funder_key :: "fraud_prediction \<Rightarrow> string option" where
  "funder_key r = (if fp_stellarAddress r = [] \<or> fp_fundingSource r = Some [] then None else fp_fundingSource r)"

definition tx_key :: "fraud_prediction \<Rightarrow> string option" where
  "tx_key r = (if fp_stellarAddress r = [] \<or> fp_txHash r = [] then None else Some (fp_txHash r))"

definition pattern_key :: "fraud_prediction \<Rightarrow> string option" where
  "pattern_key r = (if fp_stellarAddress r = [] then None else Some (patternKey r))"

fun shared_key :: "edge_reason \<Rightarrow> fraud_prediction \<Rightarrow> string option" where
  "shared_key SHARED_FUNDING_SOURCE r = funder_key r"
| "shared_key SHARED_TX_HASH r = tx_key r"
| "shared_key REPEATED_PATTERN r = pattern_key r"

definition file_row :: "(fraud_prediction \<Rightarrow> string option) \<Rightarrow> fraud_prediction \<Rightarrow> addr_buckets \<Rightarrow> addr_buckets" where
  "file_row f r m = (case f r of None \<Rightarrow> m | Some k \<Rightarrow> bucket_add k (fp_stellarAddress r) m)"

definition add_node :: "fraud_prediction \<Rightarrow> string list \<Rightarrow> string list" where
  "add_node r nodes = (if fp_stellarAddress r = [] then nodes else set_add (fp_stellarAddress r) nodes)"

lemma graph_rows:
  "fold graph_row rows (n, a, b, c) =
     (fold add_node rows n, fold (file_row funder_key) rows a, fold (file_row tx_key) rows b, fold (file_row pattern_key) rows c)"
proof (induction rows arbitrary: n a b c)
  case (Cons r rows)
  have "graph_row r (n, a, b, c) = (add_node r n, file_row funder_key r a, file_row tx_key r b, file_row pattern_key r c)"
    by (simp add: graph_row_def add_node_def file_row_def funder_key_def tx_key_def pattern_key_def split: option.split)
  with Cons show ?case by simp
qed simp

lemma nodes_spec:
  "distinct n \<Longrightarrow> distinct (fold add_node rows n)
     \<and> set (fold add_node rows n) = set n \<union> {a. a \<noteq> [] \<and> a \<in> fp_stellarAddress ` set rows}"
  by (induction rows arbitrary: n) (auto simp: add_node_def set_add_def)

definition buckets_wf :: "addr_buckets \<Rightarrow> bool" where
  "buckets_wf m \<longleftrightarrow> distinct (map fst m) \<and> (\<forall>k. distinct (bucket_get m k))"

lemma bucket_get_file:
  "bucket_get (file_row f r m) k = (if f r = Some k then set_add (fp_stellarAddress r) (bucket_get m k) else bucket_get m k)"
  by (auto simp: file_row_def bucket_add_def bucket_get_def update_conv' split: option.split)

lemma file_wf: "buckets_wf m \<Longrightarrow> buckets_wf (file_row f r m)"
  by (simp add: buckets_wf_def bucket_get_file set_add_def)
    (simp add: file_row_def bucket_add_def distinct_update split: option.split)

lemma files_spec:
  assumes "buckets_wf m"
  shows "buckets_wf (fold (file_row f) rows m)
    \<and> set (bucket_get (fold (file_row f) rows m) k) =
        set (bucket_get m k) \<union> {fp_stellarAddress r |r. r \<in> set rows \<and> f r = Some k}"
  using assms
proof (induction rows arbitrary: m)
  case (Cons r rows)
  from Cons.IH [OF file_wf [OF Cons.prems, of f r]] show ?case
    by (auto simp: bucket_get_file set_add_def)
qed simp

subsection \<open>Edges\<close>

definition mk_edge :: "edge_reason \<Rightarrow> string \<Rightarrow> string \<Rightarrow> string \<Rightarrow> graph_edge" where
  "mk_edge reason detail a b = (case orderedPair a b of (x, y) \<Rightarrow> \<lparr>ge_a = x, ge_b = y, ge_reason = reason, ge_detail = detail\<rparr>)"

definition plain :: "string \<Rightarrow> bool" where
  "plain s \<longleftrightarrow> CHR '':'' \<notin> set s"

lemma plain_split:
  assumes "x @ CHR '':'' # u = y @ CHR '':'' # v" and "plain x" and "plain y"
  shows "x = y \<and> u = v"
proof -
  have "takeWhile (\<lambda>c. c \<noteq> CHR '':'') (z @ CHR '':'' # w) = z" if "plain z" for z w
    using that by (subst takeWhile_append2) (auto simp: plain_def)
  from this [OF assms(2), of u] this [OF assms(3), of v] assms(1) show ?thesis by simp
qed

lemma plain_split_last:
  assumes "u @ CHR '':'' # x = v @ CHR '':'' # y" and "plain x" and "plain y"
  shows "x = y \<and> u = v"
proof -
  from assms(1) have "rev (u @ CHR '':'' # x) = rev (v @ CHR '':'' # y)" by simp
  then have "rev x @ CHR '':'' # rev u = rev y @ CHR '':'' # rev v" by simp
  then have "rev x = rev y \<and> rev u = rev v" using assms(2,3) by (intro plain_split) (simp_all add: plain_def)
  then show ?thesis by simp
qed

lemma edge_key_inj:
  assumes "edge_key e = edge_key f" and "plain (ge_a e)" "plain (ge_b e)" "plain (ge_a f)" "plain (ge_b f)"
  shows "e = (f :: graph_edge)"
proof -
  let ?k = "\<lambda>e :: graph_edge. edge_reason_text (ge_reason e) @ CHR '':'' # CHR '':'' # ge_detail e"
  have k: "edge_key e = ((?k e @ '':'') @ CHR '':'' # ge_a e @ '':'') @ CHR '':'' # ge_b e" for e :: graph_edge
    by (simp add: edge_key_def)
  from plain_split_last [OF assms(1) [unfolded k] assms(3,5)]
  have b: "ge_b e = ge_b f" and r1: "(?k e @ '':'') @ CHR '':'' # ge_a e @ '':'' = (?k f @ '':'') @ CHR '':'' # ge_a f @ '':''"
    by auto
  from r1 have "(?k e @ '':'') @ CHR '':'' # ge_a e = (?k f @ '':'') @ CHR '':'' # ge_a f" by simp
  from plain_split_last [OF this assms(2,4)] have a: "ge_a e = ge_a f" and r2: "?k e = ?k f" by auto
  have "plain (edge_reason_text r)" for r by (cases r) (simp_all add: plain_def)
  from plain_split [OF r2 this this] have "edge_reason_text (ge_reason e) = edge_reason_text (ge_reason f)" "ge_detail e = ge_detail f"
    by auto
  moreover have "edge_reason_text r = edge_reason_text s \<Longrightarrow> r = s" for r s by (cases r; cases s) simp_all
  ultimately show ?thesis using a b by simp
qed

definition edges_ok :: "edge_map \<Rightarrow> bool" where
  "edges_ok em \<longleftrightarrow> distinct (map fst em) \<and> (\<forall>(k, e) \<in> set em. k = edge_key e \<and> plain (ge_a e) \<and> plain (ge_b e))"

definition edge_set :: "edge_map \<Rightarrow> graph_edge set" where
  "edge_set em = snd ` set em"

lemma mk_edge_sym: "mk_edge reason detail a b = mk_edge reason detail b a"
  by (auto simp: mk_edge_def orderedPair_def)

lemma mk_edge_plain: "plain a \<Longrightarrow> plain b \<Longrightarrow> plain (ge_a (mk_edge reason detail a b)) \<and> plain (ge_b (mk_edge reason detail a b))"
  by (simp add: mk_edge_def orderedPair_def)

lemma addEdge_spec:
  assumes "edges_ok em" and "plain a" and "plain b"
  shows "edges_ok (addEdge reason detail a b em)
    \<and> edge_set (addEdge reason detail a b em) = edge_set em \<union> (if a = b then {} else {mk_edge reason detail a b})"
proof (cases "a = b")
  case True
  with assms(1) show ?thesis by (simp add: addEdge_def)
next
  case False
  let ?e = "mk_edge reason detail a b"
  note pl = mk_edge_plain [OF assms(2,3), of reason detail]
  have add: "addEdge reason detail a b em =
      (if map_of em (edge_key ?e) \<noteq> None then em else AList.update (edge_key ?e) ?e em)"
    using False by (simp add: addEdge_def mk_edge_def Let_def case_prod_beta)
  show ?thesis
  proof (cases "map_of em (edge_key ?e)")
    case None
    then have "AList.update (edge_key ?e) ?e em = em @ [(edge_key ?e, ?e)]"
      by (intro alist_update_absent) (simp add: map_of_eq_None_iff)
    with None False assms(1) pl show ?thesis
      by (auto simp: add edges_ok_def edge_set_def map_of_eq_None_iff)
  next
    case (Some f)
    then have "(edge_key ?e, f) \<in> set em" by (rule map_of_SomeD)
    with assms(1) have "edge_key ?e = edge_key f" "plain (ge_a f)" "plain (ge_b f)" and f: "f \<in> edge_set em"
      by (force simp: edges_ok_def edge_set_def)+
    then have "?e = f" using pl by (intro edge_key_inj) auto
    with f Some False assms(1) show ?thesis by (auto simp: add)
  qed
qed

lemma add_from_spec:
  assumes "edges_ok em" and "plain a" and "\<forall>y \<in> set ys. plain y \<and> y \<noteq> a"
  shows "edges_ok (fold (\<lambda>y. addEdge reason detail a y) ys em)
    \<and> edge_set (fold (\<lambda>y. addEdge reason detail a y) ys em) = edge_set em \<union> mk_edge reason detail a ` set ys"
  using assms
proof (induction ys arbitrary: em)
  case (Cons y ys)
  note s = addEdge_spec [OF Cons.prems(1,2), of y reason detail]
  with Cons.IH [of "addEdge reason detail a y em"] Cons.prems show ?case by auto
qed simp

lemma add_pairs_spec:
  assumes "edges_ok em" and "distinct xs" and "\<forall>x \<in> set xs. plain x"
  shows "edges_ok (add_pairs reason detail xs em) \<and> edge_set (add_pairs reason detail xs em) =
    edge_set em \<union> {mk_edge reason detail x y |x y. x \<in> set xs \<and> y \<in> set xs \<and> x \<noteq> y}"
  using assms
proof (induction xs arbitrary: em)
  case (Cons a xs)
  let ?em = "fold (\<lambda>y. addEdge reason detail a y) xs em"
  have from_a: "edges_ok ?em" "edge_set ?em = edge_set em \<union> mk_edge reason detail a ` set xs"
    using add_from_spec [OF Cons.prems(1), of a xs reason detail] Cons.prems by auto
  have "{mk_edge reason detail x y |x y. x \<in> set (a # xs) \<and> y \<in> set (a # xs) \<and> x \<noteq> y} =
    mk_edge reason detail a ` set xs \<union> {mk_edge reason detail x y |x y. x \<in> set xs \<and> y \<in> set xs \<and> x \<noteq> y}"
    using Cons.prems(2) mk_edge_sym by (fastforce simp: image_iff)
  with Cons.IH [OF from_a(1)] Cons.prems from_a(2) show ?case by auto
qed simp

lemma bucket_edges_spec:
  assumes "edges_ok em" and "\<forall>(k, s) \<in> set m. distinct s \<and> (\<forall>x \<in> set s. plain x)"
  shows "edges_ok (bucket_edges reason m em) \<and> edge_set (bucket_edges reason m em) =
    edge_set em \<union> {mk_edge reason k x y |k s x y. (k, s) \<in> set m \<and> x \<in> set s \<and> y \<in> set s \<and> x \<noteq> y}"
  using assms
proof (induction m arbitrary: em)
  case (Cons b m)
  obtain k s where b: "b = (k, s)" by (cases b)
  let ?em = "if length s < 2 then em else add_pairs reason k s em"
  have few: "\<not> (x \<in> set s \<and> y \<in> set s \<and> x \<noteq> y)" if "length s < 2" for x y
    using that by (cases s; cases "tl s") auto
  have s: "edges_ok ?em" "edge_set ?em = edge_set em \<union> {mk_edge reason k x y |x y. x \<in> set s \<and> y \<in> set s \<and> x \<noteq> y}"
    using add_pairs_spec [OF Cons.prems(1), of s reason k] Cons.prems few b by auto
  have "bucket_edges reason (b # m) em = bucket_edges reason m ?em" by (simp add: bucket_edges_def b)
  with Cons.IH [OF s(1)] Cons.prems(2) s(2) b show ?case by auto
qed (simp add: bucket_edges_def)

text \<open>The edges one map of buckets contributes.\<close>

definition sharing :: "edge_reason \<Rightarrow> (fraud_prediction \<Rightarrow> string option) \<Rightarrow> fraud_prediction list \<Rightarrow> graph_edge set" where
  "sharing reason f rows = {e. ge_reason e = reason \<and> ge_a e < ge_b e
     \<and> (\<exists>r \<in> set rows. \<exists>s \<in> set rows. fp_stellarAddress r = ge_a e \<and> fp_stellarAddress s = ge_b e
          \<and> f r = Some (ge_detail e) \<and> f s = Some (ge_detail e))}"

lemma mk_edge_eq:
  "x \<noteq> y \<Longrightarrow> e = mk_edge reason k x y \<longleftrightarrow>
     ge_reason e = reason \<and> ge_detail e = k \<and> ge_a e < ge_b e \<and> ((ge_a e = x \<and> ge_b e = y) \<or> (ge_a e = y \<and> ge_b e = x))"
  for e :: graph_edge
  by (cases "x < y") (auto simp: mk_edge_def orderedPair_def)

lemma bucket_entries:
  assumes "m = fold (file_row f) rows []" and "(k, s) \<in> set m"
  shows "distinct s \<and> set s = {fp_stellarAddress r |r. r \<in> set rows \<and> f r = Some k}"
proof -
  have "buckets_wf []" by (simp add: buckets_wf_def bucket_get_def)
  note spec = files_spec [OF this, of f rows k, folded assms(1)]
  then have wf: "distinct (map fst m)" "distinct (bucket_get m k)" by (simp_all add: buckets_wf_def)
  then have "bucket_get m k = s" using assms(2) by (simp add: bucket_get_def)
  with spec wf(2) show ?thesis by (simp add: bucket_get_def [of "[]"])
qed

lemma bucket_present:
  assumes "m = fold (file_row f) rows []" and "r \<in> set rows" and "f r = Some k"
  shows "\<exists>s. (k, s) \<in> set m"
proof -
  have "buckets_wf []" by (simp add: buckets_wf_def bucket_get_def)
  from files_spec [OF this, of f rows k, folded assms(1)] assms(2,3)
  have "bucket_get m k \<noteq> []" by auto
  then show ?thesis by (auto simp: bucket_get_def dest: map_of_SomeD split: option.splits)
qed

lemma reason_edges:
  assumes "edges_ok em" and "\<forall>r \<in> set rows. plain (fp_stellarAddress r)"
  shows "edges_ok (bucket_edges reason (fold (file_row f) rows []) em)
    \<and> edge_set (bucket_edges reason (fold (file_row f) rows []) em) = edge_set em \<union> sharing reason f rows"
proof -
  let ?m = "fold (file_row f) rows []"
  note entry = bucket_entries [OF refl, of _ _ f rows]
  have "\<forall>(k, s) \<in> set ?m. distinct s \<and> (\<forall>x \<in> set s. plain x)" using entry assms(2) by fastforce
  note spec = bucket_edges_spec [OF assms(1) this, of reason]
  have "{mk_edge reason k x y |k s x y. (k, s) \<in> set ?m \<and> x \<in> set s \<and> y \<in> set s \<and> x \<noteq> y} = sharing reason f rows"
    (is "?L = _")
  proof (intro equalityI subsetI)
    fix e
    assume "e \<in> ?L"
    then obtain k s x y where e: "e = mk_edge reason k x y" "(k, s) \<in> set ?m" "x \<in> set s" "y \<in> set s" "x \<noteq> y" by blast
    from entry [OF e(2)] e(3,4) obtain r r' where r: "r \<in> set rows" "x = fp_stellarAddress r" "f r = Some k"
      and r': "r' \<in> set rows" "y = fp_stellarAddress r'" "f r' = Some k" by auto
    from mk_edge_eq [OF e(5), of e reason k] e(1) have eq: "ge_reason e = reason" "ge_detail e = k" "ge_a e < ge_b e"
      and "(ge_a e = x \<and> ge_b e = y) \<or> (ge_a e = y \<and> ge_b e = x)" by blast+
    from this(4) show "e \<in> sharing reason f rows"
    proof
      assume "ge_a e = x \<and> ge_b e = y"
      with eq r r' show ?thesis unfolding sharing_def mem_Collect_eq
        by (intro conjI bexI [OF _ r(1)] bexI [OF _ r'(1)]) simp_all
    next
      assume "ge_a e = y \<and> ge_b e = x"
      with eq r r' show ?thesis unfolding sharing_def mem_Collect_eq
        by (intro conjI bexI [OF _ r'(1)] bexI [OF _ r(1)]) simp_all
    qed
  next
    fix e
    assume "e \<in> sharing reason f rows"
    then obtain r s where e: "ge_reason e = reason" "ge_a e < ge_b e" "r \<in> set rows" "s \<in> set rows"
      "fp_stellarAddress r = ge_a e" "fp_stellarAddress s = ge_b e" "f r = Some (ge_detail e)" "f s = Some (ge_detail e)"
      by (auto simp: sharing_def)
    from bucket_present [OF refl e(3), of f, OF e(7)] obtain b where b: "(ge_detail e, b) \<in> set ?m" by blast
    with entry [OF b] e have "ge_a e \<in> set b" "ge_b e \<in> set b" by force+
    moreover have "e = mk_edge reason (ge_detail e) (ge_a e) (ge_b e)" using e(1,2) by (simp add: mk_edge_eq)
    moreover have "ge_a e \<noteq> ge_b e" using e(2) by auto
    ultimately show "e \<in> ?L" using b by blast
  qed
  with spec show ?thesis by simp
qed

section \<open>Properties\<close>

lemma edges_ok_distinct:
  assumes "edges_ok em"
  shows "distinct (map snd em)"
proof -
  have "map fst em = map edge_key (map snd em)" using assms by (auto simp: edges_ok_def)
  with assms have "distinct (map edge_key (map snd em))" by (simp add: edges_ok_def)
  then show ?thesis unfolding distinct_map by blast
qed

lemma buildGraph_facts:
  assumes "\<forall>r \<in> set rows. plain (fp_stellarAddress r)"
  shows "distinct (ag_nodes (buildGraph rows)) \<and> distinct (ag_edges (buildGraph rows))
    \<and> set (ag_nodes (buildGraph rows)) = {a. a \<noteq> [] \<and> a \<in> fp_stellarAddress ` set rows}
    \<and> set (ag_edges (buildGraph rows)) = sharing SHARED_FUNDING_SOURCE funder_key rows
        \<union> sharing SHARED_TX_HASH tx_key rows \<union> sharing REPEATED_PATTERN pattern_key rows"
proof -
  let ?f = "bucket_edges SHARED_FUNDING_SOURCE (fold (file_row funder_key) rows []) []"
  let ?t = "bucket_edges SHARED_TX_HASH (fold (file_row tx_key) rows []) ?f"
  let ?p = "bucket_edges REPEATED_PATTERN (fold (file_row pattern_key) rows []) ?t"
  have g: "ag_nodes (buildGraph rows) = fold add_node rows []" "ag_edges (buildGraph rows) = map snd ?p"
    by (simp_all add: buildGraph_def graph_rows)
  have "edges_ok []" by (simp add: edges_ok_def)
  note f = reason_edges [OF this assms, of SHARED_FUNDING_SOURCE funder_key]
  note t = reason_edges [OF f [THEN conjunct1] assms, of SHARED_TX_HASH tx_key]
  note p = reason_edges [OF t [THEN conjunct1] assms, of REPEATED_PATTERN pattern_key]
  have "distinct (map snd ?p)" using p by (intro edges_ok_distinct) simp
  moreover have "set (map snd ?p) = edge_set ?p" by (simp add: edge_set_def)
  ultimately show ?thesis using f t p nodes_spec [of "[]" rows] by (auto simp: g edge_set_def [of "[]"])
qed

text \<open>The suspicion graph is exact: for predictions whose addresses contain no colon (Stellar addresses are
  base-32), the nodes are the non-empty addresses, and there is one edge for a reason and a detail between
  two addresses, in order, exactly when both have a prediction with that funder, that transaction hash, or
  that market, outcome, amount and five-minute slot; no edge is listed twice.\<close>

lemma build_graph_exact:
  assumes "\<forall>r \<in> set rows. CHR '':'' \<notin> set (fp_stellarAddress r)"
  shows "set (ag_nodes (buildGraph rows)) = {a. a \<noteq> [] \<and> a \<in> fp_stellarAddress ` set rows}
    \<and> distinct (ag_nodes (buildGraph rows)) \<and> distinct (ag_edges (buildGraph rows))
    \<and> (e \<in> set (ag_edges (buildGraph rows)) \<longleftrightarrow> ge_a e < ge_b e
        \<and> (\<exists>r \<in> set rows. \<exists>s \<in> set rows. fp_stellarAddress r = ge_a e \<and> fp_stellarAddress s = ge_b e
             \<and> shared_key (ge_reason e) r = Some (ge_detail e) \<and> shared_key (ge_reason e) s = Some (ge_detail e)))"
proof -
  have "\<forall>r \<in> set rows. plain (fp_stellarAddress r)" using assms by (simp add: plain_def)
  note g = buildGraph_facts [OF this]
  have "e \<in> sharing SHARED_FUNDING_SOURCE funder_key rows \<union> sharing SHARED_TX_HASH tx_key rows \<union> sharing REPEATED_PATTERN pattern_key rows
    \<longleftrightarrow> e \<in> sharing (ge_reason e) (shared_key (ge_reason e)) rows"
    by (cases "ge_reason e") (auto simp: sharing_def)
  with g show ?thesis by (auto simp: sharing_def)
qed

lemma buildGraph_ok: "\<forall>r \<in> set rows. CHR '':'' \<notin> set (fp_stellarAddress r) \<Longrightarrow> graph_ok (buildGraph rows)"
proof -
  assume "\<forall>r \<in> set rows. CHR '':'' \<notin> set (fp_stellarAddress r)"
  then have "\<forall>r \<in> set rows. plain (fp_stellarAddress r)" by (simp add: plain_def)
  note g = buildGraph_facts [OF this]
  have ne: "fp_stellarAddress r \<noteq> []" if "f r = Some k" "f \<in> {funder_key, tx_key, pattern_key}" for f r k
    using that by (auto simp: funder_key_def tx_key_def pattern_key_def split: if_splits)
  have "ge_a e \<in> {a. a \<noteq> [] \<and> a \<in> fp_stellarAddress ` set rows} \<and> ge_b e \<in> {a. a \<noteq> [] \<and> a \<in> fp_stellarAddress ` set rows}"
    if "e \<in> sharing reason f rows" and f: "f \<in> {funder_key, tx_key, pattern_key}" for e reason f
  proof -
    from that(1) obtain r s where "r \<in> set rows" "s \<in> set rows" "fp_stellarAddress r = ge_a e" "fp_stellarAddress s = ge_b e"
      "f r = Some (ge_detail e)" "f s = Some (ge_detail e)" by (auto simp: sharing_def)
    with ne [OF _ f] show ?thesis by (metis (mono_tags, lifting) image_eqI mem_Collect_eq)
  qed
  with g show ?thesis by (auto simp: graph_ok_def)
qed

text \<open>C6. Clustering is exact and ends: \<^verbatim>\<open>clusterize\<close> on the graph of any such predictions returns the connected
  components with at least two addresses, each once, as sorted lists of members; each carries exactly its own
  edges in graph order, the sum of their weights as score, and the hash of its members as key.\<close>

theorem clusters_are_components:
  assumes "\<forall>r \<in> set rows. CHR '':'' \<notin> set (fp_stellarAddress r)"
  shows "\<exists>cs. clusterize sha (buildGraph rows) = Some cs \<and> distinct (map cl_members cs)
    \<and> set (map cl_members cs) =
        {ms. \<exists>x \<in> set (ag_nodes (buildGraph rows)). ms = component (buildGraph rows) x \<and> 2 \<le> length ms}
    \<and> (\<forall>c \<in> set cs. cl_edges c = filter (\<lambda>e. ge_a e \<in> set (cl_members c)) (ag_edges (buildGraph rows))
         \<and> cl_score c = sum_list (map (\<lambda>e. EDGE_WEIGHT (ge_reason e)) (cl_edges c))
         \<and> cl_key c = sha (join_bar (cl_members c)))"
  by (rule clusterize_exact [OF buildGraph_ok [OF assms]])

text \<open>Three bets, two of them in one transaction.\<close>

definition demo_bet :: "string \<Rightarrow> string \<Rightarrow> string \<Rightarrow> fraud_prediction" where
  "demo_bet addr tx outcome = \<lparr>fp_predictionId = [], fp_userId = addr, fp_stellarAddress = addr, fp_marketId = ''m'',
     fp_outcome = outcome, fp_amount = ''10'', fp_txHash = tx, fp_fundingSource = None, fp_createdAt = 0\<rparr>"

definition demo_bets :: "fraud_prediction list" where
  "demo_bets = [demo_bet ''GB'' ''t1'' ''yes'', demo_bet ''GA'' ''t1'' ''no'', demo_bet ''GC'' ''t2'' ''maybe'']"

definition demo_edge :: graph_edge where
  "demo_edge = \<lparr>ge_a = ''GA'', ge_b = ''GB'', ge_reason = SHARED_TX_HASH, ge_detail = ''t1''\<rparr>"

lemma demo_bets_plain: "\<forall>r \<in> set demo_bets. CHR '':'' \<notin> set (fp_stellarAddress r)"
  by (simp add: demo_bets_def demo_bet_def)

lemma build_graph_exact_witness: "demo_edge \<in> set (ag_edges (buildGraph demo_bets))"
  using build_graph_exact [OF demo_bets_plain, of demo_edge]
  by (simp add: demo_edge_def demo_bets_def demo_bet_def tx_key_def)

theorem clusters_are_components_witness:
  "\<exists>c. clusterize rev (buildGraph demo_bets) = Some [c] \<and> cl_members c = [''GA'', ''GB''] \<and> cl_edges c = [demo_edge]
     \<and> cl_score c = 8"
proof -
  obtain cs where cs: "clusterize rev (buildGraph demo_bets) = Some cs"
    and each: "\<forall>c \<in> set cs. cl_edges c = filter (\<lambda>e. ge_a e \<in> set (cl_members c)) (ag_edges (buildGraph demo_bets))
         \<and> cl_score c = sum_list (map (\<lambda>e. EDGE_WEIGHT (ge_reason e)) (cl_edges c))"
    using clusters_are_components [OF demo_bets_plain, of rev] by blast
  have "map_option (map cl_members) (clusterize rev (buildGraph demo_bets)) = Some [[''GA'', ''GB'']]" by code_simp
  then obtain c where c: "cs = [c]" "cl_members c = [''GA'', ''GB'']" using cs by (auto simp: map_eq_Cons_conv)
  have "ag_edges (buildGraph demo_bets) = [demo_edge]" by code_simp
  with each c have "cl_edges c = [demo_edge]" "cl_score c = 8" by (simp_all add: demo_edge_def)
  with c cs show ?thesis by auto
qed

end
