(* ===== verification/Fraud_Flags.thy ===== *)
theory Fraud_Flags
  imports Fraud_Graph Schema
begin

text \<open>
  The stateful part of the fraud detector: \<^verbatim>\<open>runFraudScan\<close> and \<^verbatim>\<open>DrizzleFraudRepo\<close> of
  \<^verbatim>\<open>src/services/fraudService.ts\<close>, and the reviewer's \<^verbatim>\<open>PATCH /flags/:id\<close> of \<^verbatim>\<open>src/routes/admin/fraud.ts\<close>.

  \<^item> \<open>flag_lifecycle\<close>: scans and reviews in any interleaving move the status of a flag only as the review
    workflow allows, a dismissed flag stays dismissed, and a finding never has two rows.
  \<^item> \<open>carry_only_known_reasons\<close>: a new finding starts dismissed only when a dismissed one of the user already
    had every reason.
\<close>

section \<open>Rows\<close>

record fraud_flag =
  ff_id :: string
  ff_clusterKey :: string
  ff_userId :: string
  ff_stellarAddress :: string
  ff_reason :: string
  ff_evidence :: json
  ff_score :: int
  ff_status :: string
  ff_reviewedBy :: "string option"
  ff_reviewedAt :: "time option"
  ff_carriedFrom :: "string option"
  ff_correlationId :: "string option"
  ff_createdAt :: time
  ff_updatedAt :: time

record flag_input =
  fi_clusterKey :: string
  fi_stellarAddress :: string
  fi_userId :: string
  fi_reason :: string
  fi_score :: int
  fi_evidence :: json
  fi_correlationId :: "string option"

section \<open>Evidence\<close>

fun json_get :: "json \<Rightarrow> string \<Rightarrow> json option" where
  "json_get (JObj kvs) k = map_of kvs k"
| "json_get _ k = None"

fun edge_reason_of :: "json \<Rightarrow> string list" where
  "edge_reason_of e = (case json_get e ''reason'' of Some (JStr r) \<Rightarrow> if r = [] then [] else [r] | _ \<Rightarrow> [])"

definition evidenceReasons :: "json \<Rightarrow> string list" where
  "evidenceReasons ev =
    (let keys = (case json_get ev ''edgeReasonCounts'' of Some (JObj kvs) \<Rightarrow> filter (\<lambda>k. k \<noteq> []) (map fst kvs) | _ \<Rightarrow> [])
     in if keys \<noteq> [] then keys
        else (case json_get ev ''edges'' of
           Some (JArr es) \<Rightarrow> fold set_add (concat (map edge_reason_of es)) []
         | _ \<Rightarrow> []))"

definition resolveCarryDecision :: "json \<Rightarrow> (string \<times> json) option \<Rightarrow> string \<times> string option" where
  "resolveCarryDecision rowEvidence priorDismissal = (case priorDismissal of
     None \<Rightarrow> (''open'', None)
   | Some (pid, pev) \<Rightarrow>
       (let prior = evidenceReasons pev; nxt = evidenceReasons rowEvidence
        in if prior = [] \<or> nxt = [] then (''open'', None)
           else if list_all (\<lambda>r. r \<in> set prior) nxt then (''dismissed'', Some pid) else (''open'', None)))"

definition edge_json :: "graph_edge \<Rightarrow> json" where
  "edge_json e = JObj [(''a'', JStr (ge_a e)), (''b'', JStr (ge_b e)), (''reason'', JStr (edge_reason_text (ge_reason e))),
     (''detail'', JStr (ge_detail e))]"

definition reasonsByEdge :: "graph_edge list \<Rightarrow> (string \<times> int) list" where
  "reasonsByEdge es = fold (\<lambda>e acc. let r = edge_reason_text (ge_reason e)
     in AList.update r ((case map_of acc r of None \<Rightarrow> 0 | Some n \<Rightarrow> n) + 1) acc) es []"

definition reasonCode :: "(string \<times> int) list \<Rightarrow> string" where
  "reasonCode counts = (case sort_key (\<lambda>x. - snd x) counts of [] \<Rightarrow> ''ADDRESS_CLUSTER'' | x # _ \<Rightarrow> fst x)"

definition cluster_evidence :: "cluster \<Rightarrow> json" where
  "cluster_evidence c = JObj [(''clusterSize'', JNum (int (length (cl_members c)))), (''members'', JArr (map JStr (cl_members c))),
     (''edges'', JArr (map edge_json (cl_edges c))),
     (''edgeReasonCounts'', JObj (map (\<lambda>(r, n). (r, JNum n)) (reasonsByEdge (cl_edges c))))]"

section \<open>Scanning\<close>

definition loadRecentPredictions :: "time \<Rightarrow> nat \<Rightarrow> user_row table \<Rightarrow> prediction_row table \<Rightarrow> fraud_prediction list" where
  "loadRecentPredictions since limit us ps =
    take limit (sort_key (\<lambda>r. - fp_createdAt r)
      (concat (map (\<lambda>p. if since \<le> p_createdAt p
         then map (\<lambda>u. \<lparr>fp_predictionId = p_id p, fp_userId = p_userId p, fp_stellarAddress = u_stellarAddress u,
                fp_marketId = p_marketId p, fp_outcome = p_outcome p, fp_amount = p_amount p, fp_txHash = p_txHash p,
                fp_fundingSource = p_fundingSource p, fp_createdAt = p_createdAt p\<rparr>)
              (filter (\<lambda>u. u_id u = p_userId p) us)
         else []) ps)))"

definition addrToUser :: "fraud_prediction list \<Rightarrow> (string \<times> string) list" where
  "addrToUser rows = fold (\<lambda>r m. if fp_stellarAddress r = [] then m else AList.update (fp_stellarAddress r) (fp_userId r) m) rows []"

definition cluster_flags :: "string option \<Rightarrow> (string \<times> string) list \<Rightarrow> cluster \<Rightarrow> flag_input list" where
  "cluster_flags correlationId users_of c = concat (map (\<lambda>addr. case map_of users_of addr of
       None \<Rightarrow> []
     | Some userId \<Rightarrow> if userId = [] then [] else
         [\<lparr>fi_clusterKey = cl_key c, fi_stellarAddress = addr, fi_userId = userId,
           fi_reason = reasonCode (reasonsByEdge (cl_edges c)), fi_score = cl_score c, fi_evidence = cluster_evidence c,
           fi_correlationId = correlationId\<rparr>]) (cl_members c))"

section \<open>The repository\<close>

text \<open>The most recent dismissal of a user: latest \<^verbatim>\<open>updated_at\<close>, then latest \<^verbatim>\<open>created_at\<close>.\<close>

definition prior_dismissal :: "fraud_flag table \<Rightarrow> string \<Rightarrow> fraud_flag option" where
  "prior_dismissal flags userId =
    select_first (\<lambda>f. ff_userId f = userId)
      (sort_key (\<lambda>f. - ff_updatedAt f) (sort_key (\<lambda>f. - ff_createdAt f) (filter (\<lambda>f. ff_status f = ''dismissed'') flags)))"

definition carried_values :: "fraud_flag table \<Rightarrow> flag_input \<Rightarrow> string \<times> string option" where
  "carried_values flags r = resolveCarryDecision (fi_evidence r)
     (if fi_userId r = [] then None else map_option (\<lambda>f. (ff_id f, ff_evidence f)) (prior_dismissal flags (fi_userId r)))"

definition same_finding :: "flag_input \<Rightarrow> fraud_flag \<Rightarrow> bool" where
  "same_finding r f \<longleftrightarrow> ff_clusterKey f = fi_clusterKey r \<and> ff_userId f = fi_userId r"

text \<open>One row of the insert. \<open>newId\<close> supplies the generated identifiers; \<open>now\<close> is the transaction's clock.\<close>

definition upsert_one :: "(nat \<Rightarrow> string) \<Rightarrow> time \<Rightarrow> flag_input \<times> string \<times> string option \<Rightarrow> fraud_flag table \<Rightarrow> fraud_flag table" where
  "upsert_one newId now v flags = (case v of (r, status, carriedFrom) \<Rightarrow>
    (if list_ex (same_finding r) flags
     then update_where (same_finding r) (\<lambda>f. f\<lparr>ff_reason := fi_reason r, ff_score := fi_score r, ff_evidence := fi_evidence r,
            ff_correlationId := fi_correlationId r, ff_updatedAt := now\<rparr>) flags
     else flags @ [\<lparr>ff_id = newId (length flags), ff_clusterKey = fi_clusterKey r, ff_userId = fi_userId r,
            ff_stellarAddress = fi_stellarAddress r, ff_reason = fi_reason r, ff_evidence = fi_evidence r,
            ff_score = fi_score r, ff_status = status, ff_reviewedBy = None, ff_reviewedAt = None,
            ff_carriedFrom = carriedFrom, ff_correlationId = fi_correlationId r, ff_createdAt = now, ff_updatedAt = now\<rparr>]))"

text \<open>The dismissals are read before the insert. \<open>None\<close>: Postgres rejects a statement that would touch one row
  twice.\<close>

definition upsertFlags :: "(nat \<Rightarrow> string) \<Rightarrow> time \<Rightarrow> flag_input list \<Rightarrow> fraud_flag table \<Rightarrow> (fraud_flag table \<times> nat) option" where
  "upsertFlags newId now rows flags =
    (if rows = [] then Some (flags, 0)
     else if \<not> distinct (map (\<lambda>r. (fi_clusterKey r, fi_userId r)) rows) then None
     else Some (fold (upsert_one newId now) (map (\<lambda>r. (r, carried_values flags r)) rows) flags, length rows))"

datatype scan_error = BadLookback | BadLimit | ScanDiverged | ScanDbError

record scan_result =
  sr_scanned :: nat
  sr_edges :: nat
  sr_clusters :: nat
  sr_flagsWritten :: nat
  sr_correlationId :: "string option"

definition runFraudScan ::
  "(string \<Rightarrow> string) \<Rightarrow> (nat \<Rightarrow> string) \<Rightarrow> time \<Rightarrow> time \<Rightarrow> int \<Rightarrow> int \<Rightarrow> string option \<Rightarrow> user_row table \<Rightarrow> prediction_row table
    \<Rightarrow> fraud_flag table \<Rightarrow> fraud_flag table \<times> (scan_error + scan_result)" where
  "runFraudScan sha newId now dbNow lookbackMs limit correlationId us ps flags =
    (if lookbackMs \<le> 0 then (flags, Inl BadLookback)
     else if limit \<le> 0 then (flags, Inl BadLimit)
     else (let rows = loadRecentPredictions (now - lookbackMs) (nat limit) us ps; graph = buildGraph rows
           in case clusterize sha graph of
                None \<Rightarrow> (flags, Inl ScanDiverged)
              | Some clusters \<Rightarrow>
                  (let flagRows = concat (map (cluster_flags correlationId (addrToUser rows)) clusters)
                   in case (if flagRows = [] then Some (flags, 0) else upsertFlags newId dbNow flagRows flags) of
                        None \<Rightarrow> (flags, Inl ScanDbError)
                      | Some (flags', written) \<Rightarrow>
                          (flags', Inr \<lparr>sr_scanned = length rows, sr_edges = length (ag_edges graph),
                             sr_clusters = length clusters, sr_flagsWritten = written, sr_correlationId = correlationId\<rparr>))))"

definition listFlags :: "string option \<Rightarrow> int option \<Rightarrow> fraud_flag table \<Rightarrow> fraud_flag list" where
  "listFlags status limit flags =
    take (nat (max 1 (min (case limit of None \<Rightarrow> 50 | Some l \<Rightarrow> l) 200)))
      (sort_key (\<lambda>f. - ff_createdAt f) (filter (\<lambda>f. case status of None \<Rightarrow> True | Some s \<Rightarrow> ff_status f = s) flags))"

definition is_hex :: "char \<Rightarrow> bool" where
  "is_hex c \<longleftrightarrow> c \<in> set ''0123456789abcdefABCDEF''"

definition isUuid :: "string \<Rightarrow> bool" where
  "isUuid s \<longleftrightarrow> length s = 36 \<and> list_all (\<lambda>i. if i \<in> {8, 13, 18, 23} then s ! i = CHR ''-'' else is_hex (s ! i)) [0..<36]"

definition getFlag :: "string \<Rightarrow> fraud_flag table \<Rightarrow> fraud_flag option" where
  "getFlag i flags = (if isUuid i then select_first (\<lambda>f. ff_id f = i) flags else None)"

record flag_transition =
  ft_expectedStatus :: string
  ft_status :: string
  ft_reviewedBy :: string
  ft_now :: time

definition transition_ok :: "flag_transition \<Rightarrow> fraud_flag \<Rightarrow> bool" where
  "transition_ok t f \<longleftrightarrow> ff_status f = ft_expectedStatus t"

definition transition_eff :: "flag_transition \<Rightarrow> fraud_flag \<Rightarrow> fraud_flag" where
  "transition_eff t f = f\<lparr>ff_status := ft_status t, ff_reviewedBy := Some (ft_reviewedBy t),
     ff_reviewedAt := Some (ft_now t), ff_updatedAt := ft_now t\<rparr>"

definition transitionFlag :: "flag_transition \<Rightarrow> string \<Rightarrow> fraud_flag table \<Rightarrow> fraud_flag table \<times> fraud_flag option" where
  "transitionFlag t i flags = (if isUuid i then guarded_write ff_id (transition_ok t) (transition_eff t) i flags else (flags, None))"

section \<open>Review\<close>

definition canTransition :: "string \<Rightarrow> string \<Rightarrow> bool" where
  "canTransition from_status to_status =
    (if from_status = ''open'' then to_status = ''confirmed'' \<or> to_status = ''dismissed''
     else if from_status = ''confirmed'' then to_status = ''dismissed''
     else False)"

datatype review_error = FlagNotFound | InvalidTransition string string | NoteRequired | ModifiedByOther

text \<open>The handler reads the flag (\<open>review_read\<close>) and writes later (\<open>review_write\<close>); other requests may run in
  between. \<open>target\<close> is \<^verbatim>\<open>confirmed\<close> or \<^verbatim>\<open>dismissed\<close> by the body schema; the audit row is left out.\<close>

definition review_read :: "string \<Rightarrow> string \<Rightarrow> string option \<Rightarrow> fraud_flag table \<Rightarrow> review_error + fraud_flag" where
  "review_read i target note flags = (case getFlag i flags of
     None \<Rightarrow> Inl FlagNotFound
   | Some before \<Rightarrow>
       if \<not> canTransition (ff_status before) target then Inl (InvalidTransition (ff_status before) target)
       else if ff_status before = ''confirmed'' \<and> target = ''dismissed'' \<and> (case note of None \<Rightarrow> True | Some n \<Rightarrow> n = [])
       then Inl NoteRequired
       else Inr before)"

definition review_write :: "time \<Rightarrow> string \<Rightarrow> string \<Rightarrow> string \<Rightarrow> fraud_flag \<Rightarrow> fraud_flag table
    \<Rightarrow> fraud_flag table \<times> (review_error + fraud_flag)" where
  "review_write now admin i target before flags =
    (case transitionFlag \<lparr>ft_expectedStatus = ff_status before, ft_status = target, ft_reviewedBy = admin, ft_now = now\<rparr> i flags of
       (flags', None) \<Rightarrow> (flags', Inl ModifiedByOther)
     | (flags', Some after) \<Rightarrow> (flags', Inr after))"

section \<open>Scans and reviews together\<close>

definition finding :: "fraud_flag \<Rightarrow> string \<times> string" where
  "finding f = (ff_clusterKey f, ff_userId f)"

definition flags_ok :: "fraud_flag table \<Rightarrow> bool" where
  "flags_ok flags \<longleftrightarrow> key_unique ff_id flags \<and> key_unique finding flags
     \<and> (\<forall>f \<in> set flags. ff_status f \<in> {''open'', ''confirmed'', ''dismissed''})"

text \<open>A row keeps its identity, and its status follows the review workflow.\<close>

definition flag_moves :: "fraud_flag \<Rightarrow> fraud_flag \<Rightarrow> bool" where
  "flag_moves f f' \<longleftrightarrow> ff_id f' = ff_id f \<and> finding f' = finding f \<and> ff_carriedFrom f' = ff_carriedFrom f
     \<and> canTransition\<^sup>*\<^sup>* (ff_status f) (ff_status f')"

definition table_moves :: "fraud_flag table \<Rightarrow> fraud_flag table \<Rightarrow> bool" where
  "table_moves flags flags' \<longleftrightarrow> (\<forall>f \<in> set flags. \<exists>f' \<in> set flags'. flag_moves f f')"

lemma table_moves_refl: "table_moves flags flags"
  by (auto simp: table_moves_def flag_moves_def)

lemma flag_moves_trans: "flag_moves f g \<Longrightarrow> flag_moves g h \<Longrightarrow> flag_moves f h"
  unfolding flag_moves_def by (auto intro: rtranclp_trans)

lemma table_moves_trans: "table_moves a b \<Longrightarrow> table_moves b c \<Longrightarrow> table_moves a c"
  unfolding table_moves_def using flag_moves_trans by blast

lemma table_moves_map: "(\<And>f. f \<in> set flags \<Longrightarrow> flag_moves f (h f)) \<Longrightarrow> table_moves flags (map h flags)"
  by (auto simp: table_moves_def)

text \<open>Fresh identifiers: different from all present ones and from each other.\<close>

definition fresh_ids :: "(nat \<Rightarrow> string) \<Rightarrow> fraud_flag table \<Rightarrow> bool" where
  "fresh_ids newId flags \<longleftrightarrow> inj newId \<and> (\<forall>n. newId n \<notin> ff_id ` set flags)"

definition ids_upto :: "(nat \<Rightarrow> string) \<Rightarrow> fraud_flag table \<Rightarrow> fraud_flag table \<Rightarrow> bool" where
  "ids_upto newId orig flags \<longleftrightarrow> length orig \<le> length flags
     \<and> ff_id ` set flags \<subseteq> ff_id ` set orig \<union> newId ` {n. n < length flags}"

lemma upsert_one_ok:
  assumes ok: "flags_ok flags" and ids: "ids_upto newId orig flags" and fresh: "fresh_ids newId orig"
    and st: "status \<in> {''open'', ''dismissed''}"
  shows "flags_ok (upsert_one newId now (r, status, c) flags) \<and> ids_upto newId orig (upsert_one newId now (r, status, c) flags)
    \<and> table_moves flags (upsert_one newId now (r, status, c) flags)"
proof (cases "list_ex (same_finding r) flags")
  case True
  let ?h = "\<lambda>f. f\<lparr>ff_reason := fi_reason r, ff_score := fi_score r, ff_evidence := fi_evidence r,
            ff_correlationId := fi_correlationId r, ff_updatedAt := now\<rparr>"
  have up: "upsert_one newId now (r, status, c) flags = update_where (same_finding r) ?h flags"
    using True by (simp add: upsert_one_def)
  have "map ff_id (update_where (same_finding r) ?h flags) = map ff_id flags" by (simp add: map_update_where_frame)
  then have same_ids: "ff_id ` set (update_where (same_finding r) ?h flags) = ff_id ` set flags" by (metis list.set_map)
  have "flags_ok (update_where (same_finding r) ?h flags)"
    using ok by (auto simp: flags_ok_def finding_def set_update_where)
  moreover have "table_moves flags (update_where (same_finding r) ?h flags)"
    unfolding update_where_def by (rule table_moves_map) (simp add: flag_moves_def finding_def)
  ultimately show ?thesis using ids same_ids by (simp add: up ids_upto_def)
next
  case False
  let ?n = "newId (length flags)"
  have up: "\<exists>f. upsert_one newId now (r, status, c) flags = flags @ [f] \<and> ff_id f = ?n \<and> same_finding r f \<and> ff_status f = status"
    using False by (simp add: upsert_one_def same_finding_def)
  then obtain f where f: "upsert_one newId now (r, status, c) flags = flags @ [f]" "ff_id f = ?n" "same_finding r f" "ff_status f = status"
    by blast
  have "?n \<notin> ff_id ` set orig \<union> newId ` {n. n < length flags}" using fresh by (auto simp: fresh_ids_def dest: injD)
  then have "?n \<notin> ff_id ` set flags" using ids by (auto simp: ids_upto_def)
  moreover have "finding f \<notin> finding ` set flags"
    using False f(3) by (auto simp: finding_def same_finding_def list_ex_iff)
  ultimately have "flags_ok (flags @ [f])" using ok f(2,4) st by (auto simp: flags_ok_def key_unique_snoc)
  moreover have "ids_upto newId orig (flags @ [f])" using ids f(2) by (force simp: ids_upto_def)
  moreover have "table_moves flags (flags @ [f])" by (auto simp: table_moves_def flag_moves_def)
  ultimately show ?thesis by (simp add: f(1))
qed

lemma carried_status: "fst (carried_values flags r) \<in> {''open'', ''dismissed''}"
  by (auto simp: carried_values_def resolveCarryDecision_def Let_def split: option.split)

lemma upsert_all_ok:
  assumes "flags_ok flags" and "ids_upto newId orig flags" and "fresh_ids newId orig"
    and "\<forall>v \<in> set vs. fst (snd v) \<in> {''open'', ''dismissed''}"
  shows "flags_ok (fold (upsert_one newId now) vs flags) \<and> table_moves flags (fold (upsert_one newId now) vs flags)"
  using assms(1,2,4)
proof (induction vs arbitrary: flags)
  case (Cons v vs)
  obtain r status c where v: "v = (r, status, c)" by (cases v)
  from upsert_one_ok [OF Cons.prems(1,2) assms(3), of status now r c] Cons.prems(3) v
  have one: "flags_ok (upsert_one newId now v flags)" "ids_upto newId orig (upsert_one newId now v flags)"
    "table_moves flags (upsert_one newId now v flags)" by auto
  from Cons.IH [OF one(1,2)] Cons.prems(3) one(3) show ?case by (auto intro: table_moves_trans)
qed (simp add: table_moves_refl)

lemma scan_ok:
  assumes ok: "flags_ok flags" and fresh: "fresh_ids newId flags"
  shows "flags_ok (fst (runFraudScan sha newId now dbNow lookback limit cid us ps flags))
    \<and> table_moves flags (fst (runFraudScan sha newId now dbNow lookback limit cid us ps flags))"
proof -
  have ids: "ids_upto newId flags flags" by (auto simp: ids_upto_def)
  have "flags_ok fl \<and> table_moves flags fl" if "upsertFlags newId dbNow rows flags = Some (fl, n)" for rows fl n
  proof (cases "rows = []")
    case True
    with that ok show ?thesis by (simp add: upsertFlags_def table_moves_refl)
  next
    case False
    with that have "fl = fold (upsert_one newId dbNow) (map (\<lambda>r. (r, carried_values flags r)) rows) flags"
      by (auto simp: upsertFlags_def split: if_splits)
    with upsert_all_ok [OF ok ids fresh] carried_status show ?thesis by simp
  qed
  with ok table_moves_refl show ?thesis
    by (auto simp: runFraudScan_def Let_def split: option.split)
qed

interpretation flag_rows: keyed_table ff_id transition_ok transition_eff
  by unfold_locales (simp add: transition_eff_def)

lemma review_ok:
  assumes ok: "flags_ok flags" and "review_read i target note earlier = Inr before"
  shows "flags_ok (fst (review_write now admin i target before flags))
    \<and> table_moves flags (fst (review_write now admin i target before flags))"
proof -
  let ?t = "\<lparr>ft_expectedStatus = ff_status before, ft_status = target, ft_reviewedBy = admin, ft_now = now\<rparr>"
  have can: "canTransition (ff_status before) target"
    using assms(2) by (auto simp: review_read_def split: option.splits if_splits)
  then have target: "target \<in> {''open'', ''confirmed'', ''dismissed''}" by (auto simp: canTransition_def split: if_splits)
  let ?fl = "update_where (\<lambda>f. ff_id f = i \<and> transition_ok ?t f) (transition_eff ?t) flags"
  have w: "fst (review_write now admin i target before flags) = (if isUuid i then ?fl else flags)"
    by (auto simp: review_write_def transitionFlag_def guarded_write_def split: option.split prod.split)
  have "flags_ok ?fl" using ok target
    by (auto simp: flags_ok_def finding_def set_update_where transition_eff_def)
  moreover have "table_moves flags ?fl"
    unfolding update_where_def using can
    by (intro table_moves_map) (auto simp: flag_moves_def finding_def transition_eff_def transition_ok_def)
  ultimately show ?thesis using ok table_moves_refl w by simp
qed

inductive flag_step :: "fraud_flag table \<Rightarrow> fraud_flag table \<Rightarrow> bool" where
  scan: "fresh_ids newId flags \<Longrightarrow>
    flag_step flags (fst (runFraudScan sha newId now dbNow lookback limit cid us ps flags))"
| review: "review_read i target note earlier = Inr before \<Longrightarrow>
    flag_step flags (fst (review_write now admin i target before flags))"

interpretation flags: inductive_invariant "\<lambda>flags. flags = []" flag_step flags_ok
proof unfold_locales
  show "flags_ok s" if "s = []" for s using that by (simp add: flags_ok_def key_unique_def)
  show "flags_ok t" if "flags_ok s" "flag_step s t" for s t
    using that(2,1) by (cases rule: flag_step.cases) (auto dest: scan_ok review_ok)
qed

lemma flag_steps_move: "flag_step\<^sup>*\<^sup>* s t \<Longrightarrow> flags_ok s \<Longrightarrow> table_moves s t"
proof (induction rule: rtranclp_induct)
  case (step t u)
  have ok: "flags_ok t" using flags.reach_inv_star [OF step.hyps(1) step.prems] .
  from step.hyps(2) ok have "table_moves t u" by (cases rule: flag_step.cases) (auto dest: scan_ok review_ok)
  with step show ?case using table_moves_trans by blast
qed (simp add: table_moves_refl)

lemma dismissed_terminal: "canTransition\<^sup>*\<^sup>* ''dismissed'' s \<Longrightarrow> s = ''dismissed''"
  by (induction rule: rtranclp_induct) (auto simp: canTransition_def)

section \<open>Properties\<close>

text \<open>C14. Reviewer decisions survive: whatever scans and reviews run, in any order and with reviews writing on the
  strength of an arbitrarily old read, a flag stays under its identifier for the same cluster and user, its
  status moves only from open to confirmed or dismissed and from confirmed to dismissed, a dismissed flag
  stays dismissed, and no finding and no identifier ever has two rows.\<close>

theorem flag_lifecycle:
  assumes "reach (\<lambda>flags. flags = []) flag_step flags" and "flag_step\<^sup>*\<^sup>* flags flags'" and "f \<in> set flags"
  shows "(\<exists>f' \<in> set flags'. ff_id f' = ff_id f \<and> ff_clusterKey f' = ff_clusterKey f \<and> ff_userId f' = ff_userId f
      \<and> canTransition\<^sup>*\<^sup>* (ff_status f) (ff_status f') \<and> (ff_status f = ''dismissed'' \<longrightarrow> ff_status f' = ''dismissed''))
    \<and> distinct (map ff_id flags') \<and> distinct (map (\<lambda>f. (ff_clusterKey f, ff_userId f)) flags')"
proof -
  have ok: "flags_ok flags" by (rule flags.reach_inv [OF assms(1)])
  from flag_steps_move [OF assms(2) ok] assms(3) obtain f' where f': "f' \<in> set flags'" "flag_moves f f'"
    by (auto simp: table_moves_def)
  have "flags_ok flags'" by (rule flags.reach_inv_star [OF assms(2) ok])
  then have d: "distinct (map ff_id flags')" "distinct (map finding flags')" by (simp_all add: flags_ok_def key_unique_def)
  have "finding = (\<lambda>f. (ff_clusterKey f, ff_userId f))" by (intro ext) (simp add: finding_def)
  with d(2) have d2: "distinct (map (\<lambda>f. (ff_clusterKey f, ff_userId f)) flags')" by simp
  have "ff_id f' = ff_id f \<and> ff_clusterKey f' = ff_clusterKey f \<and> ff_userId f' = ff_userId f
      \<and> canTransition\<^sup>*\<^sup>* (ff_status f) (ff_status f') \<and> (ff_status f = ''dismissed'' \<longrightarrow> ff_status f' = ''dismissed'')"
    using f'(2) dismissed_terminal by (auto simp: flag_moves_def finding_def)
  with f'(1) d(1) d2 show ?thesis by (intro conjI bexI [of _ f']) simp_all
qed

text \<open>Scanning the three bets, then dismissing the first flag.\<close>

definition demo_uuid :: "nat \<Rightarrow> string" where
  "demo_uuid n = replicate 8 (CHR ''a'') @ ''-aaaa-aaaa-aaaa-aaaaaaaaaaaa'' @ replicate n (CHR ''b'')"

definition demo_users :: "user_row table" where
  "demo_users = [\<lparr>u_id = ''ua'', u_stellarAddress = ''GA'', u_createdAt = 0\<rparr>, \<lparr>u_id = ''ub'', u_stellarAddress = ''GB'', u_createdAt = 0\<rparr>]"

definition demo_stake :: "string \<Rightarrow> prediction_row" where
  "demo_stake u = \<lparr>p_id = u, p_marketId = ''m'', p_userId = u, p_outcome = u, p_amount = ''1'', p_txHash = ''t'',
     p_fundingSource = None, p_status = ''pending'', p_result = None, p_claimTxHash = None, p_claimedAt = None,
     p_createdAt = 0, p_confirmAttempts = 0, p_lastError = None\<rparr>"

definition demo_flags :: "fraud_flag table" where
  "demo_flags = fst (runFraudScan rev demo_uuid 0 1 1000 10 None demo_users [demo_stake ''ua'', demo_stake ''ub''] [])"

definition demo_dismissed :: "fraud_flag table" where
  "demo_dismissed = fst (review_write 5 ''GADMIN'' (demo_uuid 0) ''dismissed'' (hd demo_flags) demo_flags)"

lemma demo_flags_reach: "reach (\<lambda>flags. flags = []) flag_step demo_flags"
proof -
  have "reach (\<lambda>flags. flags = []) flag_step []" by (rule reach_init) simp
  moreover have "fresh_ids demo_uuid []" by (auto simp: fresh_ids_def demo_uuid_def inj_def)
  then have "flag_step [] demo_flags" unfolding demo_flags_def by (rule scan)
  ultimately show ?thesis by (rule reach_step)
qed

theorem flag_lifecycle_witness:
  "\<exists>f \<in> set demo_dismissed. ff_id f = demo_uuid 0 \<and> ff_userId f = ''ua'' \<and> ff_status f = ''dismissed''"
proof -
  have len: "map ff_id demo_dismissed = [demo_uuid 0, demo_uuid 1]" "map ff_status demo_dismissed = [''dismissed'', ''open'']"
    "map ff_userId demo_flags = [''ua'', ''ub'']" "map ff_id demo_flags = [demo_uuid 0, demo_uuid 1]"
    by code_simp+
  have "review_read (demo_uuid 0) ''dismissed'' None demo_flags = Inr (hd demo_flags)" by code_simp
  then have "flag_step demo_flags demo_dismissed" unfolding demo_dismissed_def by (rule review)
  then have "flag_step\<^sup>*\<^sup>* demo_flags demo_dismissed" by blast
  moreover obtain f g where fg: "demo_flags = [f, g]" using len(3) by (auto simp: map_eq_Cons_conv)
  moreover have "f \<in> set demo_flags" by (simp add: fg)
  ultimately have "(\<exists>f' \<in> set demo_dismissed. ff_id f' = ff_id f \<and> ff_userId f' = ff_userId f)"
    using flag_lifecycle [OF demo_flags_reach, of demo_dismissed f] by blast
  moreover obtain f' g' where fg': "demo_dismissed = [f', g']" using len(1) by (auto simp: map_eq_Cons_conv)
  moreover have "demo_uuid 0 \<noteq> demo_uuid 1" by (simp add: demo_uuid_def)
  moreover have "ff_id f = demo_uuid 0" "ff_userId f = ''ua''" using len(3,4) by (simp_all add: fg)
  moreover have "ff_id g' = demo_uuid 1" "ff_status f' = ''dismissed''" using len(1,2) by (simp_all add: fg')
  ultimately show ?thesis unfolding fg' by fastforce
qed

text \<open>A carried dismissal: a new finding is inserted as dismissed exactly when the user has a dismissed flag whose
  most recent evidence names a reason and already names every reason of the new evidence.\<close>

lemma carry_only_known_reasons:
  "fst (carried_values flags r) = ''dismissed'' \<longleftrightarrow> fi_userId r \<noteq> []
     \<and> (\<exists>f. prior_dismissal flags (fi_userId r) = Some f \<and> evidenceReasons (ff_evidence f) \<noteq> []
          \<and> evidenceReasons (fi_evidence r) \<noteq> []
          \<and> set (evidenceReasons (fi_evidence r)) \<subseteq> set (evidenceReasons (ff_evidence f)))"
  by (auto simp: carried_values_def resolveCarryDecision_def Let_def list_all_iff split: option.split)

end
