(* ===== verification/Side_Effect_Outbox.thy ===== *)
theory Side_Effect_Outbox
  imports Indexer_Recovery Schema Complex_Main
begin

text \<open>
  The in-memory transactional outbox, \<^verbatim>\<open>src/services/sideEffectOutbox.ts\<close>. The work of a transaction is the list of
  its calls on the transaction object; \<open>lc\<close> is \<^verbatim>\<open>localeCompare\<close>; \<open>newId\<close> supplies the generated identifiers. An event
  is processed in two steps around \<^verbatim>\<open>await handler(..)\<close>, so that several \<^verbatim>\<open>process\<close> calls overlap.

  \<^item> \<open>outbox_enqueues_once\<close>: whatever transactions, claims and completions run, an idempotency key has at most one
    event, and the event stays.
  \<^item> \<open>stale_failure_reopens\<close>: a worker whose lease ran out and whose handler then fails puts an event that another
    worker has completed back to pending.
\<close>

section \<open>State\<close>

datatype outbox_status = OPending | OProcessing | OCompleted | ODeadLetter

record outbox_event =
  oe_id :: string
  oe_idempotencyKey :: string
  oe_type :: string
  oe_payload :: json
  oe_status :: outbox_status
  oe_attempts :: int
  oe_availableAt :: time
  oe_leaseUntil :: "time option"
  oe_lastError :: "string option"
  oe_createdAt :: time
  oe_updatedAt :: time

record outbox =
  ob_effects :: "(string \<times> json) list"
  ob_events :: "(string \<times> outbox_event) list"
  ob_eventKeys :: "(string \<times> string) list"

datatype outbox_error = INVALID_OPTIONS string | INVALID_EVENT string

definition empty_outbox :: outbox where
  "empty_outbox = \<lparr>ob_effects = [], ob_events = [], ob_eventKeys = []\<rparr>"

definition OUTBOX_EVENT_TYPES :: "string list" where "OUTBOX_EVENT_TYPES = [''payout'', ''notification'']"
definition OUTBOX_MAX_ATTEMPTS :: int where "OUTBOX_MAX_ATTEMPTS = 5"
definition MAX_MAX_ATTEMPTS :: int where "MAX_MAX_ATTEMPTS = 20"
definition DEFAULT_BACKOFF_BASE_MS :: int where "DEFAULT_BACKOFF_BASE_MS = 250"
definition MAX_BACKOFF_MS :: int where "MAX_BACKOFF_MS = 60000"
definition OUTBOX_LEASE_MS :: int where "OUTBOX_LEASE_MS = 30000"

definition positiveBounded :: "rat option \<Rightarrow> int \<Rightarrow> int \<Rightarrow> outbox_error + int" where
  "positiveBounded value fallback maximum = (case value of
     None \<Rightarrow> Inr fallback
   | Some v \<Rightarrow> if of_int \<lfloor>v\<rfloor> \<noteq> v \<or> v < 1 then Inl (INVALID_OPTIONS ''outbox limits must be positive integers'')
               else Inr (min \<lfloor>v\<rfloor> maximum))"

definition nonNegativeBounded :: "rat option \<Rightarrow> int \<Rightarrow> int \<Rightarrow> outbox_error + int" where
  "nonNegativeBounded value fallback maximum = (case value of
     None \<Rightarrow> Inr fallback
   | Some v \<Rightarrow> if of_int \<lfloor>v\<rfloor> \<noteq> v \<or> v < 0 then Inl (INVALID_OPTIONS ''outbox delays must be non-negative integers'')
               else Inr (min \<lfloor>v\<rfloor> maximum))"

section \<open>Transactions\<close>

datatype staged_call =
    PutSideEffect string json
  | Enqueue string string json

record staged =
  sg_effects :: "(string \<times> json) list"
  sg_events :: "(string \<times> string \<times> json) list"

fun stage :: "staged_call \<Rightarrow> staged \<Rightarrow> outbox_error + staged" where
  "stage (PutSideEffect key v) st =
    (if key = [] then Inl (INVALID_EVENT ''side-effect key must be non-empty'')
     else Inr (st\<lparr>sg_effects := sg_effects st @ [(key, v)]\<rparr>))"
| "stage (Enqueue key typ payload) st =
    (if key = [] then Inl (INVALID_EVENT ''outbox idempotency key must be non-empty'')
     else if typ \<notin> set OUTBOX_EVENT_TYPES then Inl (INVALID_EVENT ''outbox event type is not recognized'')
     else if key \<in> fst ` set (sg_events st) then Inr st
     else Inr (st\<lparr>sg_events := sg_events st @ [(key, typ, payload)]\<rparr>))"

fun stage_all :: "staged_call list \<Rightarrow> staged \<Rightarrow> outbox_error + staged" where
  "stage_all [] st = Inr st"
| "stage_all (c # cs) st = (case stage c st of Inl e \<Rightarrow> Inl e | Inr st1 \<Rightarrow> stage_all cs st1)"

definition commit_event :: "(nat \<Rightarrow> string) \<Rightarrow> time \<Rightarrow> string \<times> string \<times> json \<Rightarrow> outbox \<Rightarrow> outbox" where
  "commit_event newId createdAt e ob = (case e of (key, typ, payload) \<Rightarrow>
    (if map_of (ob_eventKeys ob) key \<noteq> None then ob
     else (let i = newId (length (ob_events ob))
           in ob\<lparr>ob_events := AList.update i
                    \<lparr>oe_id = i, oe_idempotencyKey = key, oe_type = typ, oe_payload = payload, oe_status = OPending,
                     oe_attempts = 0, oe_availableAt = createdAt, oe_leaseUntil = None, oe_lastError = None,
                     oe_createdAt = createdAt, oe_updatedAt = createdAt\<rparr> (ob_events ob),
                  ob_eventKeys := AList.update key i (ob_eventKeys ob)\<rparr>)))"

definition transaction :: "(nat \<Rightarrow> string) \<Rightarrow> time \<Rightarrow> staged_call list \<Rightarrow> outbox \<Rightarrow> outbox_error + outbox" where
  "transaction newId now work ob = (case stage_all work \<lparr>sg_effects = [], sg_events = []\<rparr> of
     Inl e \<Rightarrow> Inl e
   | Inr st \<Rightarrow>
       if list_ex (\<lambda>e. map_of (ob_effects ob) (fst e) \<noteq> None) (sg_effects st)
          \<or> list_ex (\<lambda>e. map_of (ob_eventKeys ob) (fst e) \<noteq> None) (sg_events st)
       then Inr ob
       else Inr (fold (commit_event newId now) (sg_events st)
              (ob\<lparr>ob_effects := fold (\<lambda>(k, v). AList.update k v) (sg_effects st) (ob_effects ob)\<rparr>)))"

definition getByKey :: "string \<Rightarrow> outbox \<Rightarrow> outbox_event option" where
  "getByKey key ob = (case map_of (ob_eventKeys ob) key of
     None \<Rightarrow> None
   | Some i \<Rightarrow> if i = [] then None else map_of (ob_events ob) i)"

definition enqueue :: "(nat \<Rightarrow> string) \<Rightarrow> time \<Rightarrow> string \<Rightarrow> string \<Rightarrow> json \<Rightarrow> outbox \<Rightarrow> outbox \<times> (outbox_error + outbox_event)" where
  "enqueue newId now key typ payload ob = (case transaction newId now [Enqueue key typ payload] ob of
     Inl e \<Rightarrow> (ob, Inl e)
   | Inr ob1 \<Rightarrow> (ob1, case getByKey key ob1 of
       None \<Rightarrow> Inl (INVALID_EVENT ''outbox event was not committed'') | Some e \<Rightarrow> Inr e))"

definition getSideEffect :: "string \<Rightarrow> outbox \<Rightarrow> json option" where
  "getSideEffect key ob = map_of (ob_effects ob) key"

definition enqueuePayout :: "(nat \<Rightarrow> string) \<Rightarrow> time \<Rightarrow> string \<Rightarrow> json \<Rightarrow> outbox \<Rightarrow> outbox \<times> (outbox_error + outbox_event)" where
  "enqueuePayout newId now payoutId payload ob = enqueue newId now (''payout:'' @ payoutId) ''payout'' payload ob"

definition enqueueNotification :: "(nat \<Rightarrow> string) \<Rightarrow> time \<Rightarrow> string \<Rightarrow> json \<Rightarrow> outbox \<Rightarrow> outbox \<times> (outbox_error + outbox_event)" where
  "enqueueNotification newId now notificationId payload ob =
     enqueue newId now (''notification:'' @ notificationId) ''notification'' payload ob"

section \<open>Claiming and processing\<close>

definition compare_outbox :: "(string \<Rightarrow> string \<Rightarrow> int) \<Rightarrow> outbox_event \<Rightarrow> outbox_event \<Rightarrow> int" where
  "compare_outbox lc l r = (if oe_createdAt l - oe_createdAt r \<noteq> 0 then oe_createdAt l - oe_createdAt r
     else lc (oe_idempotencyKey l) (oe_idempotencyKey r))"

definition map_events :: "(outbox_event \<Rightarrow> outbox_event) \<Rightarrow> outbox \<Rightarrow> outbox" where
  "map_events f ob = ob\<lparr>ob_events := map (\<lambda>(i, e). (i, f e)) (ob_events ob)\<rparr>"

definition list_events :: "(string \<Rightarrow> string \<Rightarrow> int) \<Rightarrow> outbox_status option \<Rightarrow> outbox \<Rightarrow> outbox_event list" where
  "list_events lc status ob = js_sort (compare_outbox lc)
     (filter (\<lambda>e. case status of None \<Rightarrow> True | Some s \<Rightarrow> oe_status e = s) (map snd (ob_events ob)))"

definition reclaim_event :: "time \<Rightarrow> outbox_event \<Rightarrow> outbox_event" where
  "reclaim_event now e =
    (if oe_status e = OProcessing \<and> (case oe_leaseUntil e of None \<Rightarrow> False | Some l \<Rightarrow> l \<le> now)
     then e\<lparr>oe_status := OPending, oe_leaseUntil := None, oe_availableAt := now, oe_updatedAt := now\<rparr>
     else e)"

definition reclaimExpired :: "time \<Rightarrow> outbox \<Rightarrow> outbox" where
  "reclaimExpired now ob = map_events (reclaim_event now) ob"

text \<open>The clock is read for the reclaim, for the filter (one reading stands for those of the pass) and for the lease.\<close>

definition claim_event :: "time \<Rightarrow> int \<Rightarrow> outbox_event \<Rightarrow> outbox_event" where
  "claim_event claimedAt lease e = e\<lparr>oe_status := OProcessing, oe_attempts := oe_attempts e + 1,
     oe_leaseUntil := Some (claimedAt + lease), oe_updatedAt := claimedAt\<rparr>"

definition candidates :: "(string \<Rightarrow> string \<Rightarrow> int) \<Rightarrow> int \<Rightarrow> time \<Rightarrow> outbox \<Rightarrow> outbox_event list" where
  "candidates lc limit now ob = take (nat limit) (js_sort (compare_outbox lc)
     (filter (\<lambda>e. oe_status e = OPending \<and> oe_availableAt e \<le> now) (map snd (ob_events ob))))"

definition claim_outbox ::
  "(string \<Rightarrow> string \<Rightarrow> int) \<Rightarrow> rat option \<Rightarrow> rat option \<Rightarrow> time \<times> time \<times> time \<Rightarrow> outbox
    \<Rightarrow> outbox_error + (outbox \<times> outbox_event list)" where
  "claim_outbox lc limit leaseMs t ob = (case t of (t1, t2, t3) \<Rightarrow>
    (case positiveBounded limit 100 1000 of
       Inl e \<Rightarrow> Inl e
     | Inr boundedLimit \<Rightarrow> (case nonNegativeBounded leaseMs OUTBOX_LEASE_MS MAX_BACKOFF_MS of
         Inl e \<Rightarrow> Inl e
       | Inr boundedLease \<Rightarrow>
           (let ob1 = reclaimExpired t1 ob; cs = candidates lc boundedLimit t2 ob1
            in Inr (map_events (\<lambda>e. if oe_id e \<in> oe_id ` set cs then claim_event t3 boundedLease e else e) ob1,
                    map (claim_event t3 boundedLease) cs)))))"

definition complete_event :: "time \<Rightarrow> outbox_event \<Rightarrow> outbox_event" where
  "complete_event now e = e\<lparr>oe_status := OCompleted, oe_leaseUntil := None, oe_lastError := None, oe_updatedAt := now\<rparr>"

definition fail_event :: "int \<Rightarrow> int \<Rightarrow> int \<Rightarrow> string \<Rightarrow> time \<Rightarrow> outbox_event \<Rightarrow> outbox_event" where
  "fail_event maxAttempts base maximum msg now e =
    (let e1 = e\<lparr>oe_lastError := Some msg, oe_leaseUntil := None, oe_updatedAt := now\<rparr>
     in if maxAttempts \<le> oe_attempts e then e1\<lparr>oe_status := ODeadLetter\<rparr>
        else e1\<lparr>oe_status := OPending, oe_availableAt := now + min maximum (base * 2 ^ nat (max 0 (oe_attempts e - 1)))\<rparr>)"

definition with_event :: "string \<Rightarrow> (outbox_event \<Rightarrow> outbox_event) \<Rightarrow> outbox \<Rightarrow> outbox" where
  "with_event i f ob = map_events (\<lambda>e. if oe_id e = i then f e else e) ob"

record process_result =
  pr_claimed :: nat
  pr_completed :: nat
  pr_retried :: nat
  pr_deadLettered :: nat

text \<open>The loop when nothing else runs during the handlers; \<open>handler\<close> gives \<open>None\<close> or the message of the error.\<close>

fun process_loop ::
  "(outbox_event \<Rightarrow> string option) \<Rightarrow> int \<Rightarrow> int \<Rightarrow> int \<Rightarrow> time \<Rightarrow> outbox_event list \<Rightarrow> outbox \<times> process_result
    \<Rightarrow> outbox \<times> process_result" where
  "process_loop handler maxA base maximum now [] st = st"
| "process_loop handler maxA base maximum now (e # es) (ob, r) =
    (case map_of (ob_events ob) (oe_id e) of
       None \<Rightarrow> process_loop handler maxA base maximum now es (ob, r)
     | Some current \<Rightarrow>
         if oe_status current \<noteq> OProcessing then process_loop handler maxA base maximum now es (ob, r)
         else (case handler e of
            None \<Rightarrow> process_loop handler maxA base maximum now es
              (with_event (oe_id e) (complete_event now) ob, r\<lparr>pr_completed := pr_completed r + 1\<rparr>)
          | Some msg \<Rightarrow> process_loop handler maxA base maximum now es
              (with_event (oe_id e) (fail_event maxA base maximum msg now) ob,
               if maxA \<le> oe_attempts current then r\<lparr>pr_deadLettered := pr_deadLettered r + 1\<rparr>
               else r\<lparr>pr_retried := pr_retried r + 1\<rparr>)))"

record process_options =
  po_maxAttempts :: "rat option"
  po_backoffBaseMs :: "rat option"
  po_backoffMaxMs :: "rat option"
  po_leaseMs :: "rat option"

definition process_outbox ::
  "(string \<Rightarrow> string \<Rightarrow> int) \<Rightarrow> (outbox_event \<Rightarrow> string option) \<Rightarrow> process_options \<Rightarrow> time \<times> time \<times> time \<Rightarrow> time \<Rightarrow> outbox
    \<Rightarrow> outbox_error + (outbox \<times> process_result)" where
  "process_outbox lc handler opts t now ob =
    (case positiveBounded (po_maxAttempts opts) OUTBOX_MAX_ATTEMPTS MAX_MAX_ATTEMPTS of
       Inl e \<Rightarrow> Inl e
     | Inr maxAttempts \<Rightarrow> (case nonNegativeBounded (po_backoffBaseMs opts) DEFAULT_BACKOFF_BASE_MS MAX_BACKOFF_MS of
         Inl e \<Rightarrow> Inl e
       | Inr base \<Rightarrow> (case nonNegativeBounded (po_backoffMaxMs opts) MAX_BACKOFF_MS MAX_BACKOFF_MS of
           Inl e \<Rightarrow> Inl e
         | Inr maximum \<Rightarrow> (case nonNegativeBounded (po_leaseMs opts) OUTBOX_LEASE_MS MAX_BACKOFF_MS of
             Inl e \<Rightarrow> Inl e
           | Inr lease \<Rightarrow> (case claim_outbox lc (Some 100) (Some (of_int lease)) t ob of
               Inl e \<Rightarrow> Inl e
             | Inr (ob1, claimed) \<Rightarrow>
                 Inr (process_loop handler maxAttempts base maximum now claimed
                   (ob1, \<lparr>pr_claimed = length claimed, pr_completed = 0, pr_retried = 0, pr_deadLettered = 0\<rparr>)))))))"

section \<open>Overlapping workers\<close>

definition fresh_outbox_ids :: "(nat \<Rightarrow> string) \<Rightarrow> outbox \<Rightarrow> bool" where
  "fresh_outbox_ids newId ob \<longleftrightarrow> inj newId \<and> (\<forall>n. newId n \<notin> fst ` set (ob_events ob)) \<and> (\<forall>n. newId n \<noteq> [])"

text \<open>A completion or failure may come at any time after its claim, also when the lease has been taken over; the
  relation lets it come at any time at all.\<close>

inductive outbox_step :: "outbox \<Rightarrow> outbox \<Rightarrow> bool" where
  committed: "transaction newId now work ob = Inr ob' \<Longrightarrow> fresh_outbox_ids newId ob \<Longrightarrow> outbox_step ob ob'"
| claimed: "claim_outbox lc limit leaseMs t ob = Inr (ob', es) \<Longrightarrow> outbox_step ob ob'"
| completed: "outbox_step ob (with_event i (complete_event now) ob)"
| failed: "outbox_step ob (with_event i (fail_event maxA base maximum msg now) ob)"

definition outbox_ok :: "outbox \<Rightarrow> bool" where
  "outbox_ok ob \<longleftrightarrow> distinct (map fst (ob_events ob))
     \<and> (\<forall>(i, e) \<in> set (ob_events ob). i \<noteq> [] \<and> oe_id e = i \<and> map_of (ob_eventKeys ob) (oe_idempotencyKey e) = Some i)"

definition event_identity :: "outbox_event \<Rightarrow> string \<times> string \<times> string \<times> json \<times> time" where
  "event_identity e = (oe_id e, oe_idempotencyKey e, oe_type e, oe_payload e, oe_createdAt e)"

lemma identity_frames [simp]:
  "event_identity (reclaim_event now e) = event_identity e"
  "event_identity (claim_event now lease e) = event_identity e"
  "event_identity (complete_event now e) = event_identity e"
  "event_identity (fail_event maxA base maximum msg now e) = event_identity e"
  by (simp_all add: event_identity_def reclaim_event_def claim_event_def complete_event_def fail_event_def Let_def)

text \<open>An update that keeps the identity of every event keeps the keys, and the identities in order.\<close>

definition identities :: "outbox \<Rightarrow> (string \<times> string \<times> string \<times> string \<times> json \<times> time) list" where
  "identities ob = map (\<lambda>(i, e). (i, event_identity e)) (ob_events ob)"

lemma map_events_identities:
  assumes "\<And>e. event_identity (f e) = event_identity e"
  shows "identities (map_events f ob) = identities ob \<and> ob_eventKeys (map_events f ob) = ob_eventKeys ob"
  by (simp add: identities_def map_events_def case_prod_beta assms o_def)

lemma outbox_ok_identities:
  "outbox_ok ob \<longleftrightarrow> distinct (map fst (identities ob))
     \<and> (\<forall>(i, j, k, _) \<in> set (identities ob). i \<noteq> [] \<and> j = i \<and> map_of (ob_eventKeys ob) k = Some i)"
  unfolding outbox_ok_def identities_def event_identity_def by (simp add: case_prod_beta o_def)

lemma claim_identities:
  "claim_outbox lc limit leaseMs t ob = Inr (ob', es) \<Longrightarrow> identities ob' = identities ob \<and> ob_eventKeys ob' = ob_eventKeys ob"
  by (auto simp: claim_outbox_def reclaimExpired_def Let_def map_events_identities split: sum.splits prod.splits)

lemma with_event_identities:
  "(\<And>e. event_identity (f e) = event_identity e) \<Longrightarrow>
   identities (with_event i f ob) = identities ob \<and> ob_eventKeys (with_event i f ob) = ob_eventKeys ob"
  unfolding with_event_def by (rule map_events_identities) simp

definition outbox_extends :: "outbox \<Rightarrow> outbox \<Rightarrow> bool" where
  "outbox_extends ob ob' \<longleftrightarrow> (\<exists>new. identities ob' = identities ob @ new)
     \<and> (\<forall>k i. map_of (ob_eventKeys ob) k = Some i \<longrightarrow> map_of (ob_eventKeys ob') k = Some i)"

lemma outbox_extends_refl: "outbox_extends ob ob"
  by (simp add: outbox_extends_def)

lemma outbox_extends_trans: "outbox_extends a b \<Longrightarrow> outbox_extends b c \<Longrightarrow> outbox_extends a c"
  unfolding outbox_extends_def by (metis append.assoc)

definition later_fresh :: "(nat \<Rightarrow> string) \<Rightarrow> outbox \<Rightarrow> bool" where
  "later_fresh newId ob \<longleftrightarrow> inj newId \<and> (\<forall>n \<ge> length (ob_events ob). newId n \<notin> fst ` set (ob_events ob)) \<and> (\<forall>n. newId n \<noteq> [])"

lemma commit_ok:
  assumes ok: "outbox_ok ob" and fresh: "later_fresh newId ob"
  shows "outbox_ok (commit_event newId now e ob) \<and> outbox_extends ob (commit_event newId now e ob)
    \<and> later_fresh newId (commit_event newId now e ob)"
proof -
  obtain key kind payload where e: "e = (key, kind, payload)" by (cases e)
  show ?thesis
  proof (cases "map_of (ob_eventKeys ob) key")
    case (Some i)
    with ok fresh show ?thesis by (simp add: commit_event_def e outbox_extends_refl)
  next
    case None
    let ?i = "newId (length (ob_events ob))" and ?ob = "commit_event newId now e ob"
    have i: "?i \<notin> fst ` set (ob_events ob)" "?i \<noteq> []" using fresh by (simp_all add: later_fresh_def)
    have "oe_idempotencyKey x \<noteq> key" if "(j, x) \<in> set (ob_events ob)" for j x
      using ok that None by (auto simp: outbox_ok_def)
    moreover obtain x where x: "ob_events ?ob = ob_events ob @ [(?i, x)]" "oe_id x = ?i" "oe_idempotencyKey x = key"
      and keys: "ob_eventKeys ?ob = AList.update key ?i (ob_eventKeys ob)"
      using None i by (simp add: commit_event_def e Let_def alist_update_absent)
    ultimately have "outbox_ok ?ob" using ok i by (auto simp: outbox_ok_def update_conv')
    moreover have "outbox_extends ob ?ob" using None by (auto simp: outbox_extends_def identities_def x keys update_conv')
    moreover have "later_fresh newId ?ob" using fresh by (auto simp: later_fresh_def x dest: injD)
    ultimately show ?thesis by blast
  qed
qed

lemma commits_ok:
  assumes "outbox_ok ob" and "later_fresh newId ob"
  shows "outbox_ok (fold (commit_event newId now) es ob) \<and> outbox_extends ob (fold (commit_event newId now) es ob)"
  using assms
proof (induction es arbitrary: ob)
  case (Cons e es)
  note c = commit_ok [OF Cons.prems, of now e]
  with Cons.IH [of "commit_event newId now e ob"] show ?case by (auto intro: outbox_extends_trans)
qed (simp add: outbox_extends_refl)

lemma transaction_ok:
  assumes "outbox_ok ob" and "fresh_outbox_ids newId ob" and "transaction newId now work ob = Inr ob'"
  shows "outbox_ok ob' \<and> outbox_extends ob ob'"
proof -
  have "outbox_ok (ob\<lparr>ob_effects := es\<rparr>)" "later_fresh newId (ob\<lparr>ob_effects := es\<rparr>)" "outbox_extends ob (ob\<lparr>ob_effects := es\<rparr>)" for es
    using assms(1,2) by (auto simp: outbox_ok_def later_fresh_def fresh_outbox_ids_def outbox_extends_def identities_def)
  note c = commits_ok [OF this(1,2), where now = now] and x = this(3)
  from assms(3) show ?thesis
    using assms(1) c outbox_extends_trans [OF x]
    by (auto simp: transaction_def outbox_extends_refl split: sum.splits if_splits)
qed

lemma step_ok:
  assumes "outbox_ok ob" and "outbox_step ob ob'"
  shows "outbox_ok ob' \<and> outbox_extends ob ob'"
  using assms(2)
proof cases
  case (committed newId now work)
  with assms(1) transaction_ok show ?thesis by blast
next
  case (claimed lc limit leaseMs t es)
  from claim_identities [OF claimed] assms(1) show ?thesis by (simp add: outbox_ok_identities outbox_extends_def)
next
  case (completed i now)
  have "identities ob' = identities ob \<and> ob_eventKeys ob' = ob_eventKeys ob" unfolding completed by (rule with_event_identities) simp
  with assms(1) show ?thesis by (simp add: outbox_ok_identities outbox_extends_def)
next
  case (failed i maxA base maximum msg now)
  have "identities ob' = identities ob \<and> ob_eventKeys ob' = ob_eventKeys ob" unfolding failed by (rule with_event_identities) simp
  with assms(1) show ?thesis by (simp add: outbox_ok_identities outbox_extends_def)
qed

interpretation outboxes: inductive_invariant "\<lambda>ob. ob = empty_outbox" outbox_step outbox_ok
proof unfold_locales
  show "outbox_ok s" if "s = empty_outbox" for s using that by (simp add: outbox_ok_def empty_outbox_def)
  show "outbox_ok t" if "outbox_ok s" "outbox_step s t" for s t using step_ok that by blast
qed

lemma steps_extend: "outbox_step\<^sup>*\<^sup>* a b \<Longrightarrow> outbox_ok a \<Longrightarrow> outbox_extends a b"
proof (induction rule: rtranclp_induct)
  case (step b c)
  have "outbox_ok b" using outboxes.reach_inv_star [OF step.hyps(1) step.prems] .
  from step_ok [OF this step.hyps(2)] step show ?case using outbox_extends_trans by blast
qed (simp add: outbox_extends_refl)

section \<open>Properties\<close>

lemma outbox_ok_empty: "outbox_ok empty_outbox"
  by (simp add: outbox_ok_def empty_outbox_def)

lemma key_of_event: "outbox_ok ob \<Longrightarrow> (i, e) \<in> set (ob_events ob) \<Longrightarrow> map_of (ob_eventKeys ob) (oe_idempotencyKey e) = Some i"
  by (auto simp: outbox_ok_def)

lemma outbox_ok_distinct_keys:
  assumes "outbox_ok ob"
  shows "distinct (map (\<lambda>(i, e). oe_idempotencyKey e) (ob_events ob))"
proof -
  have ids: "distinct (map fst (ob_events ob))" using assms by (simp add: outbox_ok_def)
  moreover have "inj_on (\<lambda>(i, e). oe_idempotencyKey e) (set (ob_events ob))"
  proof (rule inj_onI, clarsimp)
    fix i e j f
    assume m: "(i, e) \<in> set (ob_events ob)" "(j, f) \<in> set (ob_events ob)" and k: "oe_idempotencyKey e = oe_idempotencyKey f"
    have "i = j" using key_of_event [OF assms m(1)] key_of_event [OF assms m(2)] k by simp
    with ids m show "i = j \<and> e = f" by (simp add: eq_key_imp_eq_value)
  qed
  ultimately show ?thesis by (simp add: distinct_map)
qed

text \<open>A transaction that stages an event under a key that has one changes nothing.\<close>

lemma stage_keeps: "stage c st = Inr st1 \<Longrightarrow> fst ` set (sg_events st) \<subseteq> fst ` set (sg_events st1)"
  by (cases c) (auto split: if_splits)

lemma stage_all_keeps: "stage_all cs st = Inr st1 \<Longrightarrow> fst ` set (sg_events st) \<subseteq> fst ` set (sg_events st1)"
proof (induction cs arbitrary: st)
  case (Cons c cs)
  then obtain st2 where "stage c st = Inr st2" "stage_all cs st2 = Inr st1" by (auto split: sum.splits)
  then show ?case using stage_keeps Cons.IH by (meson subset_trans)
qed simp

lemma stage_all_has:
  assumes "stage_all cs st = Inr st1" and "Enqueue key kind payload \<in> set cs"
  shows "key \<in> fst ` set (sg_events st1)"
  using assms
proof (induction cs arbitrary: st)
  case (Cons c cs)
  then obtain st2 where s: "stage c st = Inr st2" "stage_all cs st2 = Inr st1" by (auto split: sum.splits)
  show ?case
  proof (cases "c = Enqueue key kind payload")
    case True
    with s(1) have "key \<in> fst ` set (sg_events st2)" by (auto split: if_splits)
    with stage_all_keeps [OF s(2)] show ?thesis by blast
  next
    case False
    with Cons.IH [OF s(2)] Cons.prems(2) show ?thesis by simp
  qed
qed simp

lemma transaction_existing_key:
  assumes "transaction newId now work ob = Inr ob'" and "Enqueue key kind payload \<in> set work"
    and "map_of (ob_eventKeys ob) key = Some i"
  shows "ob' = ob"
proof -
  from assms(1) obtain st where st: "stage_all work \<lparr>sg_effects = [], sg_events = []\<rparr> = Inr st"
    by (auto simp: transaction_def split: sum.splits)
  have "key \<in> fst ` set (sg_events st)" by (rule stage_all_has [OF st assms(2)])
  then have "list_ex (\<lambda>e. map_of (ob_eventKeys ob) (fst e) \<noteq> None) (sg_events st)"
    using assms(3) by (auto simp: list_ex_iff)
  with assms(1) st show ?thesis by (simp add: transaction_def del: not_None_eq)
qed

text \<open>C30. For every key the outbox holds at most one event, whatever transactions, claims, completions and failures run
  and however they overlap; an event that was stored keeps its key, type, payload and creation time in every later
  state, and a transaction that enqueues its key again changes nothing, its side effects included.\<close>

theorem outbox_enqueues_once:
  assumes "outbox_step\<^sup>*\<^sup>* empty_outbox ob" and "outbox_step\<^sup>*\<^sup>* ob ob'" and "map_of (ob_events ob) i = Some e"
    and "Enqueue (oe_idempotencyKey e) kind payload \<in> set work"
  shows "distinct (map (\<lambda>(i, e). oe_idempotencyKey e) (ob_events ob'))
    \<and> (\<exists>e'. map_of (ob_events ob') i = Some e' \<and> event_identity e' = event_identity e)
    \<and> transaction newId now work ob' \<in> {Inr ob'} \<union> range Inl"
proof -
  have ok: "outbox_ok ob" "outbox_ok ob'"
    using outboxes.reach_inv_star [OF assms(1) outbox_ok_empty] outboxes.reach_inv_star [OF assms(2)] by blast+
  have "(i, event_identity e) \<in> set (identities ob)" using map_of_SomeD [OF assms(3)] by (force simp: identities_def)
  then have "(i, event_identity e) \<in> set (identities ob')"
    using steps_extend [OF assms(2) ok(1)] by (auto simp: outbox_extends_def)
  then obtain e' where e': "(i, e') \<in> set (ob_events ob')" "event_identity e' = event_identity e"
    by (auto simp: identities_def)
  have m: "map_of (ob_events ob') i = Some e'" using ok(2) e'(1) by (simp add: outbox_ok_def)
  have "map_of (ob_eventKeys ob') (oe_idempotencyKey e) = Some i"
    using key_of_event [OF ok(2) e'(1)] e'(2) by (simp add: event_identity_def)
  then have "transaction newId now work ob' \<in> {Inr ob'} \<union> range Inl"
    using transaction_existing_key [OF _ assms(4)] by (cases "transaction newId now work ob'") auto
  with outbox_ok_distinct_keys [OF ok(2)] m e'(2) show ?thesis by blast
qed

theorem outbox_enqueues_once_witness:
  "\<exists>ob ob' i e. outbox_step\<^sup>*\<^sup>* empty_outbox ob \<and> outbox_step\<^sup>*\<^sup>* ob ob' \<and> map_of (ob_events ob) i = Some e
     \<and> oe_status e = OPending \<and> distinct (map (\<lambda>(i, e). oe_idempotencyKey e) (ob_events ob'))
     \<and> (\<exists>e'. map_of (ob_events ob') i = Some e' \<and> event_identity e' = event_identity e)"
proof -
  let ?newId = "\<lambda>n. replicate (Suc n) CHR ''i''" and ?work = "[Enqueue ''payout:p1'' ''payout'' JNull]"
  let ?ob = "fold (commit_event ?newId 5) [(''payout:p1'', ''payout'', JNull)] empty_outbox"
  let ?ob' = "with_event ''i'' (complete_event 9) ?ob"
  have t: "transaction ?newId 5 ?work empty_outbox = Inr ?ob"
    by (simp add: transaction_def OUTBOX_EVENT_TYPES_def empty_outbox_def)
  have "fresh_outbox_ids ?newId empty_outbox"
    by (simp add: fresh_outbox_ids_def empty_outbox_def inj_def)
  then have s1: "outbox_step\<^sup>*\<^sup>* empty_outbox ?ob" using outbox_step.committed [OF t] by (intro r_into_rtranclp)
  have s2: "outbox_step\<^sup>*\<^sup>* ?ob ?ob'" by (rule r_into_rtranclp) (rule outbox_step.completed)
  obtain e where e: "map_of (ob_events ?ob) ''i'' = Some e" "oe_idempotencyKey e = ''payout:p1''" "oe_status e = OPending"
    by (simp add: commit_event_def empty_outbox_def Let_def)
  have "Enqueue (oe_idempotencyKey e) ''payout'' JNull \<in> set ?work" by (simp add: e(2))
  from outbox_enqueues_once [OF s1 s2 e(1) this] s1 s2 e(1,3) show ?thesis by blast
qed

lemma map_of_map_events:
  "map_of (ob_events (map_events f ob)) i = map_option f (map_of (ob_events ob) i)"
proof -
  have "map_of (map (\<lambda>(i, e). (i, f e)) es) i = map_option f (map_of es i)" for es :: "(string \<times> outbox_event) list"
    by (induction es) auto
  then show ?thesis by (simp add: map_events_def)
qed

lemma claim_takes:
  assumes ok: "outbox_ok ob" and e: "map_of (ob_events ob) i = Some e"
    and s: "oe_status e = OPending" "oe_availableAt e \<le> t" and len: "length (ob_events ob) \<le> 100"
  shows "\<exists>ob' es e'. claim_outbox lc None None (t, t, t) ob = Inr (ob', es) \<and> e' \<in> set es \<and> oe_id e' = i
    \<and> event_identity e' = event_identity e"
proof -
  let ?ob1 = "reclaimExpired t ob"
  let ?es = "filter (\<lambda>e. oe_status e = OPending \<and> oe_availableAt e \<le> t) (map snd (ob_events ?ob1))"
  have "length ?es \<le> 100"
    using len by (simp add: reclaimExpired_def map_events_def length_filter_le [THEN le_trans])
  then have "candidates lc 100 t ?ob1 = js_sort (compare_outbox lc) ?es" by (simp add: candidates_def mset_js_sort [THEN mset_eq_length])
  moreover have "map_of (ob_events ?ob1) i = Some e"
    using e s by (simp add: reclaimExpired_def map_of_map_events reclaim_event_def)
  then have "e \<in> set ?es" using s by (force dest: map_of_SomeD)
  ultimately have "e \<in> set (candidates lc 100 t ?ob1)" by simp
  moreover have "oe_id e = i" using ok map_of_SomeD [OF e] by (auto simp: outbox_ok_def)
  ultimately show ?thesis
    by (force simp: claim_outbox_def positiveBounded_def nonNegativeBounded_def Let_def claim_event_def event_identity_def)
qed

text \<open>A handler that fails after its lease has been taken over undoes the work of the worker that took it: an event
  that another worker has completed, below the attempt limit, becomes pending again, and once the backoff is over a
  worker claims and delivers it a second time.\<close>

lemma stale_failure_reopens:
  assumes "outbox_ok ob" and "map_of (ob_events ob) i = Some e" and "oe_status e = OCompleted"
    and "oe_attempts e < maxA" and "length (ob_events ob) \<le> 100" and "now + maximum \<le> t"
  shows "\<exists>ob' es e'. claim_outbox lc None None (t, t, t) (with_event i (fail_event maxA base maximum msg now) ob) = Inr (ob', es)
    \<and> e' \<in> set es \<and> oe_id e' = i \<and> event_identity e' = event_identity e"
proof -
  let ?f = "fail_event maxA base maximum msg now"
  let ?ob = "with_event i ?f ob"
  have ids: "identities ?ob = identities ob \<and> ob_eventKeys ?ob = ob_eventKeys ob" by (rule with_event_identities) simp
  then have "outbox_ok ?ob" using assms(1) by (simp add: outbox_ok_identities)
  moreover have "oe_id e = i" using assms(1) map_of_SomeD [OF assms(2)] by (auto simp: outbox_ok_def)
  then have "map_of (ob_events ?ob) i = Some (?f e)" using assms(2) by (simp add: with_event_def map_of_map_events)
  moreover have "oe_status (?f e) = OPending" "oe_availableAt (?f e) \<le> t"
    using assms(4,6) by (auto simp: fail_event_def Let_def min_def)
  moreover have "length (ob_events ?ob) \<le> 100" using assms(5) by (simp add: with_event_def map_events_def)
  ultimately show ?thesis using claim_takes [of ?ob i "?f e" t lc] by simp
qed

lemma stale_failure_reopens_witness:
  "let p = \<lparr>oe_id = ''i'', oe_idempotencyKey = ''k'', oe_type = ''payout'', oe_payload = JNull, oe_status = OCompleted,
      oe_attempts = 2, oe_availableAt = 0, oe_leaseUntil = None, oe_lastError = None, oe_createdAt = 0, oe_updatedAt = 40000\<rparr>;
     ob = \<lparr>ob_effects = [], ob_events = [(''i'', p)], ob_eventKeys = [(''k'', ''i'')]\<rparr>
   in oe_status p = OCompleted \<and> (\<exists>ob' es e'. claim_outbox (\<lambda>_ _. 0) None None (200000, 200000, 200000)
        (with_event ''i'' (fail_event 5 250 60000 ''timeout'' 50000) ob) = Inr (ob', es) \<and> e' \<in> set es \<and> oe_id e' = ''i''
        \<and> event_identity e' = event_identity p)"
proof -
  let ?p = "\<lparr>oe_id = ''i'', oe_idempotencyKey = ''k'', oe_type = ''payout'', oe_payload = JNull, oe_status = OCompleted,
      oe_attempts = 2, oe_availableAt = 0, oe_leaseUntil = None, oe_lastError = None, oe_createdAt = 0, oe_updatedAt = 40000\<rparr>"
  let ?ob = "\<lparr>ob_effects = [], ob_events = [(''i'', ?p)], ob_eventKeys = [(''k'', ''i'')]\<rparr> :: outbox"
  have "outbox_ok ?ob" by (simp add: outbox_ok_def)
  from stale_failure_reopens [OF this, of "''i''" ?p 5 50000 60000 200000] show ?thesis by (simp add: Let_def)
qed

text \<open>When nothing interferes with the handlers, every claimed event is accounted for.\<close>

lemma with_event_other:
  "oe_id e \<noteq> i \<Longrightarrow> map_of (ob_events ob) j = Some e \<Longrightarrow> map_of (ob_events (with_event i f ob)) j = Some e"
  by (simp add: with_event_def map_of_map_events)

lemma process_loop_accounts:
  assumes "distinct (map oe_id es)"
    and "\<And>e. e \<in> set es \<Longrightarrow> \<exists>c. map_of (ob_events ob) (oe_id e) = Some c \<and> oe_id c = oe_id e \<and> oe_status c = OProcessing"
    and "process_loop handler maxA base maximum now es (ob, r) = (ob', r')"
  shows "pr_completed r' + pr_retried r' + pr_deadLettered r' = pr_completed r + pr_retried r + pr_deadLettered r + length es
    \<and> pr_claimed r' = pr_claimed r"
  using assms
proof (induction es arbitrary: ob r)
  case (Cons e es)
  obtain c where c: "map_of (ob_events ob) (oe_id e) = Some c" "oe_status c = OProcessing" using Cons.prems(2) by force
  have keep: "\<exists>c. map_of (ob_events (with_event (oe_id e) f ob)) (oe_id e') = Some c \<and> oe_id c = oe_id e' \<and> oe_status c = OProcessing"
    if "e' \<in> set es" for e' f
  proof -
    from Cons.prems(2) that obtain d where d: "map_of (ob_events ob) (oe_id e') = Some d" "oe_id d = oe_id e'" "oe_status d = OProcessing"
      by force
    moreover have "oe_id d \<noteq> oe_id e" using Cons.prems(1) that d(2) by force
    ultimately show ?thesis using with_event_other by blast
  qed
  have dist: "distinct (map oe_id es)" using Cons.prems(1) by simp
  show ?case
  proof (cases "handler e")
    case None
    with Cons.prems(3) c have "process_loop handler maxA base maximum now es
        (with_event (oe_id e) (complete_event now) ob, r\<lparr>pr_completed := pr_completed r + 1\<rparr>) = (ob', r')" by simp
    from Cons.IH [OF dist keep this] show ?thesis by simp
  next
    case (Some msg)
    with Cons.prems(3) c obtain r1 where r1: "process_loop handler maxA base maximum now es
        (with_event (oe_id e) (fail_event maxA base maximum msg now) ob, r1) = (ob', r')"
      "r1 = (if maxA \<le> oe_attempts c then r\<lparr>pr_deadLettered := pr_deadLettered r + 1\<rparr> else r\<lparr>pr_retried := pr_retried r + 1\<rparr>)"
      by simp
    from Cons.IH [OF dist keep r1(1)] r1(2) show ?thesis by (simp split: if_splits)
  qed
qed simp

lemma candidates_distinct:
  assumes "outbox_ok ob"
  shows "distinct (map oe_id (candidates lc limit now ob)) \<and> set (candidates lc limit now ob) \<subseteq> snd ` set (ob_events ob)"
proof -
  let ?p = "filter (\<lambda>e. oe_status e = OPending \<and> oe_availableAt e \<le> now) (map snd (ob_events ob))"
  have "map oe_id (map snd (ob_events ob)) = map fst (ob_events ob)" using assms by (auto simp: outbox_ok_def)
  moreover have "distinct (map fst (ob_events ob))" using assms by (simp add: outbox_ok_def)
  ultimately have "distinct (map oe_id (map snd (ob_events ob)))" by (simp only:)
  then have "distinct (map oe_id ?p)" by (rule distinct_map_filter)
  then have "distinct (map oe_id (js_sort (compare_outbox lc) ?p))" by (subst distinct_map_mset [OF mset_js_sort])
  then show ?thesis by (auto simp: candidates_def take_map [symmetric] dest!: in_set_takeD)
qed

lemma claim_claimed:
  assumes ok: "outbox_ok ob" and c: "claim_outbox lc limit leaseMs t ob = Inr (ob', es)"
  shows "distinct (map oe_id es)
    \<and> (\<forall>e \<in> set es. \<exists>c. map_of (ob_events ob') (oe_id e) = Some c \<and> oe_id c = oe_id e \<and> oe_status c = OProcessing)"
proof -
  obtain t1 t2 t3 where t: "t = (t1, t2, t3)" by (cases t)
  let ?ob1 = "reclaimExpired t1 ob"
  have "identities ?ob1 = identities ob \<and> ob_eventKeys ?ob1 = ob_eventKeys ob"
    unfolding reclaimExpired_def by (rule map_events_identities) simp
  then have ok1: "outbox_ok ?ob1" using ok by (simp add: outbox_ok_identities)
  from c obtain n lease where es: "es = map (claim_event t3 lease) (candidates lc n t2 ?ob1)"
    and ob': "ob' = map_events (\<lambda>e. if oe_id e \<in> oe_id ` set (candidates lc n t2 ?ob1) then claim_event t3 lease e else e) ?ob1"
    by (auto simp: claim_outbox_def t Let_def split: sum.splits)
  note d = candidates_distinct [OF ok1, of lc n t2]
  have ids: "map oe_id es = map oe_id (candidates lc n t2 ?ob1)" by (simp add: es claim_event_def)
  have "\<exists>c. map_of (ob_events ob') (oe_id e) = Some c \<and> oe_id c = oe_id e \<and> oe_status c = OProcessing" if "e \<in> set es" for e
  proof -
    from that obtain a where a: "a \<in> set (candidates lc n t2 ?ob1)" "oe_id e = oe_id a" by (auto simp: es claim_event_def)
    with d obtain i where "(i, a) \<in> set (ob_events ?ob1)" by force
    with ok1 have "map_of (ob_events ?ob1) (oe_id a) = Some a" by (auto simp: outbox_ok_def)
    with a show ?thesis by (simp add: ob' map_of_map_events claim_event_def)
  qed
  with d ids show ?thesis by simp
qed

lemma process_accounts:
  assumes "outbox_ok ob" and "process_outbox lc handler opts t now ob = Inr (ob', r)"
  shows "pr_completed r + pr_retried r + pr_deadLettered r = pr_claimed r"
proof -
  from assms(2) obtain maxA base maximum lease ob1 es where
    c: "claim_outbox lc (Some 100) (Some (of_int lease)) t ob = Inr (ob1, es)" and
    l: "process_loop handler maxA base maximum now es
      (ob1, \<lparr>pr_claimed = length es, pr_completed = 0, pr_retried = 0, pr_deadLettered = 0\<rparr>) = (ob', r)"
    by (auto simp: process_outbox_def split: sum.splits)
  from claim_claimed [OF assms(1) c] process_loop_accounts [OF _ _ l] show ?thesis by simp
qed

end
