(* ===== verification/Exact_Amounts.thy ===== *)
theory Exact_Amounts
  imports Js_Numerals Oracle_Guard
begin

text \<open>
  Exact token amounts of \<^verbatim>\<open>src/services/reconciliationService.ts\<close>: decimal strings with up to seven fractional
  digits as integers of stroops, and the string operations they and the report keys use. \<open>None\<close> is the
  \<^verbatim>\<open>SyntaxError\<close> of \<^verbatim>\<open>BigInt\<close>.

  \<^item> \<open>stroops_roundtrip\<close>: reading a printed amount gives the amount back, negative ones and trailing zeros included.
\<close>

section \<open>String operations\<close>

text \<open>\<^verbatim>\<open>s.split(sep)\<close> for a separator that is not empty.\<close>

function js_split :: "string \<Rightarrow> string \<Rightarrow> string list" where
  "js_split sep [] = [[]]"
| "js_split sep (c # cs) =
    (if sep \<noteq> [] \<and> prefix sep (c # cs) then [] # js_split sep (drop (length sep) (c # cs))
     else (case js_split sep cs of [] \<Rightarrow> [[c]] | p # ps \<Rightarrow> (c # p) # ps))"
  by pat_completeness auto
termination by (relation "measure (\<lambda>(sep, s). length s)") auto

text \<open>\<^verbatim>\<open>[...new Set(xs)]\<close>: the first occurrences, in order.\<close>

definition js_unique :: "'a list \<Rightarrow> 'a list" where
  "js_unique xs = rev (remdups (rev xs))"

lemma set_js_unique [simp]: "set (js_unique xs) = set xs"
  by (simp add: js_unique_def)

lemma distinct_js_unique [simp]: "distinct (js_unique xs)"
  by (simp add: js_unique_def)

lemma set_sort_strings [simp]: "set (sort_strings xs) = set xs"
  by (simp add: sort_strings_def)

lemma mset_sort_strings [simp]: "mset (sort_strings xs) = mset xs"
  by (simp add: sort_strings_def)

lemma distinct_sort_strings [simp]: "distinct (sort_strings xs) = distinct xs"
  using distinct_map_mset [OF mset_sort_strings, of id xs] by simp

text \<open>Sorting by a consistent comparator commutes with a filter.\<close>

lemma js_insert_filter:
  assumes "consistent cmp" and "sorted_wrt (\<lambda>a b. cmp a b \<le> 0) ys"
  shows "filter P (js_insert cmp x ys) = (if P x then js_insert cmp x (filter P ys) else filter P ys)"
  using assms(2)
proof (induction ys)
  case (Cons y ys)
  then show ?case
  proof (cases "cmp x y \<le> 0")
    case True
    then have "cmp x z \<le> 0" if "z \<in> set ys" for z
      using Cons.prems that consistent_trans [OF assms(1)] by auto
    moreover have "set (filter P ys) \<subseteq> set ys" by auto
    ultimately have "js_insert cmp x (filter P ys) = x # filter P ys"
      by (cases "filter P ys") auto
    with True show ?thesis by auto
  qed auto
qed simp

lemma js_sort_filter: "consistent cmp \<Longrightarrow> js_sort cmp (filter P xs) = filter P (js_sort cmp xs)"
proof (induction xs)
  case (Cons x xs)
  have "js_sort cmp (x # xs) = js_insert cmp x (js_sort cmp xs)" by (simp add: js_sort_def)
  moreover have "js_sort cmp (x # filter P xs) = js_insert cmp x (js_sort cmp (filter P xs))" by (simp add: js_sort_def)
  ultimately show ?case using Cons js_insert_filter [OF Cons.prems sorted_js_sort [OF Cons.prems]] by simp
qed (simp add: js_sort_def)

lemma string_le_total: "string_less_eq a b \<or> string_less_eq b a"
proof (induction a b rule: string_less_eq.induct)
  case (3 a as b bs)
  have "a = b \<or> of_char a < (of_char b :: nat) \<or> of_char b < (of_char a :: nat)" using of_char_eq_iff [of a b] by (metis linorder_neqE)
  with 3 show ?case by auto
qed auto

lemma string_le_trans: "string_less_eq a b \<Longrightarrow> string_less_eq b c \<Longrightarrow> string_less_eq a c"
proof (induction a b arbitrary: c rule: string_less_eq.induct)
  case (3 a as b bs)
  then show ?case by (cases c) (auto split: if_splits)
next
  case (2 a as)
  then show ?case by simp
qed simp

section \<open>Amounts\<close>

definition STROOP_FACTOR :: int where "STROOP_FACTOR = 10000000"

definition parse_magnitude :: "string \<Rightarrow> int option" where
  "parse_magnitude absStr =
    (let parts = js_split ''.'' absStr;
         whole = hd parts;
         frac = (case tl parts of [] \<Rightarrow> '''' | f # _ \<Rightarrow> f);
         paddedFrac = take 7 (frac @ ''0000000'')
     in (case bigint_of_string (if whole = [] then ''0'' else whole) of
           None \<Rightarrow> None
         | Some w \<Rightarrow> (case bigint_of_string paddedFrac of
             None \<Rightarrow> None
           | Some f \<Rightarrow> Some (w * STROOP_FACTOR + f))))"

definition parseExactStroops :: "string option \<Rightarrow> int option" where
  "parseExactStroops amtStr = (case amtStr of
     None \<Rightarrow> Some 0
   | Some a \<Rightarrow>
       (let str = js_trim a
        in if str = [] then Some 0
           else if hd str = CHR ''-'' then map_option uminus (parse_magnitude (tl str))
           else parse_magnitude str))"

definition padStart :: "nat \<Rightarrow> char \<Rightarrow> string \<Rightarrow> string" where
  "padStart n c s = replicate (n - length s) c @ s"

definition strip_zeros :: "string \<Rightarrow> string" where
  "strip_zeros s = rev (dropWhile (\<lambda>c. c = CHR ''0'') (rev s))"

definition formatExactStroops :: "int \<Rightarrow> string" where
  "formatExactStroops stroops =
    (let isNegative = stroops < 0;
         n = (if isNegative then - stroops else stroops);
         whole = n div STROOP_FACTOR;
         frac = n mod STROOP_FACTOR;
         sgn = (if isNegative then ''-'' else '''')
     in if frac = 0 then sgn @ int_to_string whole
        else (let fracStr = strip_zeros (padStart 7 CHR ''0'' (int_to_string frac))
              in sgn @ int_to_string whole @ ''.'' @ fracStr))"

section \<open>Round trip\<close>

lemma js_split_none: "CHR ''.'' \<notin> set s \<Longrightarrow> js_split ''.'' s = [s]"
  by (induction s) auto

lemma js_split_dot: "CHR ''.'' \<notin> set a \<Longrightarrow> js_split ''.'' (a @ CHR ''.'' # b) = a # js_split ''.'' b"
  by (induction a) auto

lemma bigint_of_digits:
  assumes "\<And>c. c \<in> set s \<Longrightarrow> is_digit c" and "s \<noteq> []"
  shows "bigint_of_string s = map_option int (digits_value 10 0 s)"
proof -
  have trim: "js_trim s = s" by (rule js_trim_id) (use assms(1) is_digit_no_space in blast)
  obtain z zs where s: "s = z # zs" using assms(2) by (cases s) auto
  have z: "z \<noteq> CHR ''-''" "z \<noteq> CHR ''+''" using assms(1) is_digit_chars unfolding s by auto
  have "decimal_literal s = map_option int (digits_value 10 0 s)"
    using z by (simp add: decimal_literal_def unsigned_value_def s)
  moreover have "bigint_of_string s = decimal_literal s"
  proof (cases zs)
    case Nil
    then show ?thesis using trim by (simp add: bigint_of_string_def Let_def s)
  next
    case (Cons x cs)
    then have "is_digit x" using assms(1) s by simp
    from is_digit_chars [OF this] show ?thesis
      using trim by (auto simp: bigint_of_string_def Let_def s Cons)
  qed
  ultimately show ?thesis by simp
qed

lemma strip_zeros_split: "\<exists>k. s = strip_zeros s @ replicate k CHR ''0''"
proof -
  have "rev s = takeWhile (\<lambda>c. c = CHR ''0'') (rev s) @ dropWhile (\<lambda>c. c = CHR ''0'') (rev s)" by simp
  moreover have "takeWhile (\<lambda>c. c = CHR ''0'') xs = replicate (length (takeWhile (\<lambda>c. c = CHR ''0'') xs)) CHR ''0''" for xs
    by (induction xs) auto
  ultimately show ?thesis unfolding strip_zeros_def by (metis rev_append rev_replicate rev_rev_ident)
qed

lemma strip_zeros_pad:
  assumes "length s = 7"
  shows "take 7 (strip_zeros s @ ''0000000'') = s"
proof -
  obtain k where k: "s = strip_zeros s @ replicate k CHR ''0''" using strip_zeros_split by blast
  then have len: "length (strip_zeros s) + k = 7" using assms by (metis length_append length_replicate)
  have z: "''0000000'' = replicate k CHR ''0'' @ replicate (7 - k) CHR ''0''"
    using len by (simp add: replicate_add [symmetric] numeral_eq_Suc)
  have "take 7 (strip_zeros s @ ''0000000'') = strip_zeros s @ replicate k CHR ''0''"
    unfolding z using len by simp
  with k show ?thesis by simp
qed

lemma frac_digits:
  assumes "0 \<le> f" and "f < STROOP_FACTOR"
  defines "p \<equiv> padStart 7 CHR ''0'' (int_to_string f)"
  shows "length p = 7 \<and> (\<forall>c \<in> set p. is_digit c) \<and> digits_value 10 0 p = Some (nat f)"
proof -
  have s: "int_to_string f = nat_to_string (nat f)" using assms(1) by (simp add: int_to_string_def)
  have "length (nat_to_string (nat f)) \<le> Suc 6"
    by (rule length_nat_to_string) (use assms(1,2) in \<open>simp add: STROOP_FACTOR_def\<close>)
  then show ?thesis
    using nat_to_string_digits by (auto simp: p_def padStart_def s digits_value_zeros digits_value_nat_to_string is_digit_zero)
qed

lemma set_strip_zeros: "set (strip_zeros s) \<subseteq> set s"
  by (auto simp: strip_zeros_def dest: set_dropWhileD)

lemma digits_no_dot:
  assumes "\<And>c. c \<in> set s \<Longrightarrow> is_digit c"
  shows "CHR ''.'' \<notin> set s"
proof
  assume "CHR ''.'' \<in> set s"
  with assms have "is_digit CHR ''.''" by blast
  then show False by (simp add: is_digit_def)
qed

lemma parse_magnitude_print:
  assumes "0 \<le> n"
  defines "s \<equiv> formatExactStroops n"
  shows "parse_magnitude s = Some n \<and> hd s \<noteq> CHR ''-'' \<and> s \<noteq> [] \<and> (\<forall>c \<in> set s. \<not> is_space c)"
proof -
  let ?w = "n div STROOP_FACTOR" and ?f = "n mod STROOP_FACTOR"
  have w: "int_to_string ?w = nat_to_string (nat ?w)" and f0: "0 \<le> ?f" "?f < STROOP_FACTOR"
    using assms(1) by (auto simp: int_to_string_def STROOP_FACTOR_def)
  have wd: "is_digit c" if "c \<in> set (int_to_string ?w)" for c using that nat_to_string_digits by (simp add: w)
  have ne: "int_to_string ?w \<noteq> []" by (simp add: w)
  then have hd: "hd (int_to_string ?w) \<noteq> CHR ''-''" using wd is_digit_chars by (metis hd_in_set)
  note nodot = digits_no_dot [of "int_to_string ?w", OF wd]
  show ?thesis
  proof (cases "?f = 0")
    case True
    then have s: "s = int_to_string ?w" using assms(1) by (simp add: s_def formatExactStroops_def Let_def)
    have zero: "bigint_of_string (take 7 ''0000000'') = Some 0"
      using bigint_of_digits [of "''0000000''"] by (simp add: is_digit_zero digit_value_def)
    from True have "?w * STROOP_FACTOR = n" by (metis add.right_neutral div_mult_mod_eq)
    with zero ne have "parse_magnitude s = Some n" by (simp add: parse_magnitude_def Let_def s js_split_none [OF nodot])
    with hd ne wd show ?thesis by (auto simp: s is_digit_no_space)
  next
    case False
    let ?p = "padStart 7 CHR ''0'' (int_to_string ?f)"
    have s: "s = int_to_string ?w @ CHR ''.'' # strip_zeros ?p" using False assms(1) by (simp add: s_def formatExactStroops_def Let_def)
    note p = frac_digits [OF f0]
    have zd: "is_digit c" if "c \<in> set (strip_zeros ?p)" for c using p that set_strip_zeros by blast
    have sp: "js_split ''.'' s = [int_to_string ?w, strip_zeros ?p]"
      by (simp add: s js_split_dot [OF nodot] js_split_none [OF digits_no_dot, OF zd])
    have "?p \<noteq> []" using p by auto
    then have "bigint_of_string (take 7 (strip_zeros ?p @ ''0000000'')) = Some ?f"
      using p f0 bigint_of_digits [of ?p] by (simp add: strip_zeros_pad del: take_append)
    then have "parse_magnitude s = Some n" using ne by (simp add: parse_magnitude_def Let_def sp del: take_append)
    moreover have "\<not> is_space CHR ''.''" by (simp add: is_space_def)
    ultimately show ?thesis using hd ne wd zd by (auto simp: s is_digit_no_space)
  qed
qed

text \<open>An amount printed by \<^verbatim>\<open>formatExactStroops\<close> is read back by \<^verbatim>\<open>parseExactStroops\<close> as the same number of
  stroops, for every integer.\<close>

lemma stroops_roundtrip: "parseExactStroops (Some (formatExactStroops n)) = Some n"
proof (cases "n < 0")
  case False
  with parse_magnitude_print [of n] show ?thesis by (simp add: parseExactStroops_def js_trim_id Let_def)
next
  case True
  then have s: "formatExactStroops n = CHR ''-'' # formatExactStroops (- n)"
    by (auto simp: formatExactStroops_def Let_def)
  have "\<not> is_space CHR ''-''" by (simp add: is_space_def)
  then have "js_trim (formatExactStroops n) = formatExactStroops n"
    using True parse_magnitude_print [of "- n"] by (intro js_trim_id) (auto simp: s)
  with True parse_magnitude_print [of "- n"] show ?thesis
    by (simp add: s parseExactStroops_def Let_def)
qed

end
