(* ===== verification/Market_Reconciliation.thy ===== *)
theory Market_Reconciliation
  imports Exact_Amounts Schema
begin

text \<open>
  The market part of \<^verbatim>\<open>src/services/reconciliationService.ts\<close>: positions aggregated from the tables compared with
  the positions the chain reports. \<open>None\<close> stands for the \<^verbatim>\<open>SyntaxError\<close> of \<^verbatim>\<open>BigInt\<close> on an amount that is not
  an integer literal.

  \<^item> \<open>market_diff_exact\<close>: the difference table has one entry per key of either side, classified by the two amounts;
    no amount is lost or counted twice, and it reports no difference exactly when the two sides agree.
\<close>

section \<open>Positions\<close>

record side_position =
  sp_stellarAddress :: string
  sp_outcome :: string
  sp_amount :: string

datatype diff_status = Match | Mismatch | MissingOnChain | MissingInDb

record diff_entry =
  de_stellarAddress :: string
  de_outcome :: string
  de_dbAmount :: string
  de_onChainAmount :: "string option"
  de_difference :: "string option"
  de_status :: diff_status

record recon_summary =
  rs_totalKeys :: nat
  rs_matches :: nat
  rs_mismatches :: nat
  rs_missingOnChain :: nat
  rs_missingInDb :: nat

definition normaliseAmount :: "string \<Rightarrow> int option" where
  "normaliseAmount value = bigint_of_string value"

fun sum_from :: "int \<Rightarrow> side_position list \<Rightarrow> int option" where
  "sum_from acc [] = Some acc"
| "sum_from acc (p # ps) = (case normaliseAmount (sp_amount p) of
     None \<Rightarrow> None | Some a \<Rightarrow> sum_from (acc + a) ps)"

definition sumAmounts :: "side_position list \<Rightarrow> string option" where
  "sumAmounts positions = map_option int_to_string (sum_from 0 positions)"

definition positionKey :: "side_position \<Rightarrow> string" where
  "positionKey p = sp_stellarAddress p @ ''::'' @ sp_outcome p"

text \<open>\<^verbatim>\<open>const [a, b] = key.split("::")\<close> on a key with at least one separator.\<close>

definition key_parts :: "string \<Rightarrow> string \<times> string" where
  "key_parts key = (case js_split ''::'' key of a # b # _ \<Rightarrow> (a, b) | _ \<Rightarrow> (key, ''''))"

fun group_amounts :: "side_position list \<Rightarrow> (string \<times> int) list \<Rightarrow> (string \<times> int) list option" where
  "group_amounts [] grouped = Some grouped"
| "group_amounts (r # rs) grouped = (case normaliseAmount (sp_amount r) of
     None \<Rightarrow> None
   | Some a \<Rightarrow> group_amounts rs
       (AList.update (positionKey r) ((case map_of grouped (positionKey r) of None \<Rightarrow> 0 | Some n \<Rightarrow> n) + a) grouped))"

definition compare_positions :: "(string \<Rightarrow> string \<Rightarrow> int) \<Rightarrow> side_position \<Rightarrow> side_position \<Rightarrow> int" where
  "compare_positions lc a b =
    (let byAddress = lc (sp_stellarAddress a) (sp_stellarAddress b)
     in if byAddress \<noteq> 0 then byAddress else lc (sp_outcome a) (sp_outcome b))"

definition aggregatePositions :: "(string \<Rightarrow> string \<Rightarrow> int) \<Rightarrow> side_position list \<Rightarrow> side_position list option" where
  "aggregatePositions lc rows = map_option
     (\<lambda>grouped. js_sort (compare_positions lc) (map (\<lambda>(key, amount).
        \<lparr>sp_stellarAddress = fst (key_parts key), sp_outcome = snd (key_parts key), sp_amount = int_to_string amount\<rparr>) grouped))
     (group_amounts rows [])"

section \<open>The difference of two sides\<close>

definition js_map_of :: "('a \<Rightarrow> string) \<Rightarrow> 'a list \<Rightarrow> (string \<times> 'a) list" where
  "js_map_of key xs = fold (\<lambda>x. AList.update (key x) x) xs []"

definition diff_entry_of ::
  "(string \<times> side_position) list \<Rightarrow> (string \<times> side_position) list \<Rightarrow> string \<Rightarrow> diff_entry option" where
  "diff_entry_of dbMap onChainMap key = (case key_parts key of (stellarAddress, outcome) \<Rightarrow>
    (case (map_of dbMap key, map_of onChainMap key) of
       (Some d, Some c) \<Rightarrow> (case (normaliseAmount (sp_amount d), normaliseAmount (sp_amount c)) of
           (Some dbAmount, Some onChainAmount) \<Rightarrow>
             Some \<lparr>de_stellarAddress = stellarAddress, de_outcome = outcome, de_dbAmount = sp_amount d,
               de_onChainAmount = Some (sp_amount c), de_difference = Some (int_to_string (dbAmount - onChainAmount)),
               de_status = (if dbAmount = onChainAmount then Match else Mismatch)\<rparr>
         | _ \<Rightarrow> None)
     | (Some d, None) \<Rightarrow> Some \<lparr>de_stellarAddress = stellarAddress, de_outcome = outcome, de_dbAmount = sp_amount d,
         de_onChainAmount = None, de_difference = None, de_status = MissingOnChain\<rparr>
     | (None, Some c) \<Rightarrow> Some \<lparr>de_stellarAddress = stellarAddress, de_outcome = outcome, de_dbAmount = ''0'',
         de_onChainAmount = Some (sp_amount c), de_difference = None, de_status = MissingInDb\<rparr>
     | (None, None) \<Rightarrow> None))"

definition diff_keys :: "(string \<times> side_position) list \<Rightarrow> (string \<times> side_position) list \<Rightarrow> string list" where
  "diff_keys dbMap onChainMap = sort_strings (js_unique (map fst dbMap @ map fst onChainMap))"

definition count_status :: "diff_status \<Rightarrow> diff_entry list \<Rightarrow> nat" where
  "count_status s ds = length (filter (\<lambda>d. de_status d = s) ds)"

definition diffMarketPositions :: "side_position list \<Rightarrow> side_position list \<Rightarrow> (recon_summary \<times> diff_entry list) option" where
  "diffMarketPositions dbPositions onChainPositions =
    (let dbMap = js_map_of positionKey dbPositions; onChainMap = js_map_of positionKey onChainPositions
     in map_option (\<lambda>ds. (\<lparr>rs_totalKeys = length ds, rs_matches = count_status Match ds,
            rs_mismatches = count_status Mismatch ds, rs_missingOnChain = count_status MissingOnChain ds,
            rs_missingInDb = count_status MissingInDb ds\<rparr>, ds))
          (those (map (diff_entry_of dbMap onChainMap) (diff_keys dbMap onChainMap))))"

section \<open>The service\<close>

record on_chain_positions =
  oc_positions :: "side_position list"
  oc_source :: string
  oc_available :: bool
  oc_unavailableReason :: "string option"

record snapshot_side =
  ss_positions :: "side_position list"
  ss_totalAmount :: string

record market_recon_result =
  mr_marketId :: string
  mr_correlationId :: string
  mr_generatedAt :: time
  mr_status :: string
  mr_dbSnapshot :: snapshot_side
  mr_onChainSnapshot :: "snapshot_side \<times> on_chain_positions"
  mr_summary :: recon_summary
  mr_diffs :: "diff_entry list"

record recon_input =
  ri_marketId :: string
  ri_adminAddress :: string
  ri_ip :: string
  ri_correlationId :: string

datatype recon_error = ReconciliationNotFound string | AmountSyntax

text \<open>The audit rows the handler writes: action, wallet, address and correlation identifier.\<close>

type_synonym recon_audit = "(string \<times> string \<times> string \<times> string) list"

definition reconcileMarket_with ::
  "bool \<Rightarrow> side_position list option \<Rightarrow> on_chain_positions \<Rightarrow> time \<Rightarrow> recon_input \<Rightarrow> recon_audit
    \<Rightarrow> recon_audit \<times> (recon_error + market_recon_result)" where
  "reconcileMarket_with exists dbPositions onChain now input audit =
    (if \<not> exists then (audit, Inl (ReconciliationNotFound (ri_marketId input)))
     else (case dbPositions of
        None \<Rightarrow> (audit, Inl AmountSyntax)
      | Some dbp \<Rightarrow> (case diffMarketPositions dbp (oc_positions onChain) of
          None \<Rightarrow> (audit, Inl AmountSyntax)
        | Some (summary, ds) \<Rightarrow>
            (audit @ [(''admin.reconciliation.market.inspect'', ri_adminAddress input, ri_ip input, ri_correlationId input)],
             case (sumAmounts dbp, sumAmounts (oc_positions onChain)) of
               (Some dbTotal, Some chainTotal) \<Rightarrow> Inr
                 \<lparr>mr_marketId = ri_marketId input, mr_correlationId = ri_correlationId input, mr_generatedAt = now,
                  mr_status = (if oc_available onChain then ''ok'' else ''partial''),
                  mr_dbSnapshot = \<lparr>ss_positions = dbp, ss_totalAmount = dbTotal\<rparr>,
                  mr_onChainSnapshot = (\<lparr>ss_positions = oc_positions onChain, ss_totalAmount = chainTotal\<rparr>, onChain),
                  mr_summary = summary, mr_diffs = ds\<rparr>
             | _ \<Rightarrow> Inl AmountSyntax))))"

definition default_on_chain :: on_chain_positions where
  "default_on_chain = \<lparr>oc_positions = [], oc_source = ''soroban-rpc'', oc_available = False,
     oc_unavailableReason = Some (''On-chain market position lookup is not configured for this deployment yet. '' @
       ''Wire the contract read adapter before relying on this endpoint for live balances.'')\<rparr>"

definition marketExists :: "string \<Rightarrow> app_db \<Rightarrow> bool" where
  "marketExists marketId db \<longleftrightarrow> select_first (\<lambda>m. m_id m = marketId) (db_markets db) \<noteq> None"

text \<open>The inner join of \<^verbatim>\<open>predictions\<close> and \<^verbatim>\<open>users\<close>: a pair of rows for every match.\<close>

definition join_users :: "app_db \<Rightarrow> (prediction_row \<Rightarrow> bool) \<Rightarrow> (prediction_row \<times> user_row) list" where
  "join_users db P = concat (map (\<lambda>p. map (\<lambda>u. (p, u)) (filter (\<lambda>u. p_userId p = u_id u) (db_users db)))
     (filter P (db_predictions db)))"

definition getDbPositions :: "(string \<Rightarrow> string \<Rightarrow> int) \<Rightarrow> string \<Rightarrow> app_db \<Rightarrow> side_position list option" where
  "getDbPositions lc marketId db = aggregatePositions lc
     (map (\<lambda>(p, u). \<lparr>sp_stellarAddress = u_stellarAddress u, sp_outcome = p_outcome p, sp_amount = p_amount p\<rparr>)
       (join_users db (\<lambda>p. p_marketId p = marketId \<and> p_status p = ''confirmed'')))"

definition getOnChainPositions :: "(string \<Rightarrow> string \<Rightarrow> int) \<Rightarrow> on_chain_positions option" where
  "getOnChainPositions lc = map_option (\<lambda>ps. default_on_chain\<lparr>oc_positions := ps\<rparr>)
     (aggregatePositions lc (oc_positions default_on_chain))"

definition reconcileMarket ::
  "(string \<Rightarrow> string \<Rightarrow> int) \<Rightarrow> time \<Rightarrow> recon_input \<Rightarrow> app_db \<Rightarrow> recon_audit \<Rightarrow> recon_audit \<times> (recon_error + market_recon_result)" where
  "reconcileMarket lc now input db audit = (case getOnChainPositions lc of
     None \<Rightarrow> (audit, Inl AmountSyntax)
   | Some onChain \<Rightarrow> reconcileMarket_with (marketExists (ri_marketId input) db) (getDbPositions lc (ri_marketId input) db)
       onChain now input audit)"

section \<open>Nothing lost, nothing counted twice\<close>

lemma js_map_of_distinct: "distinct (map key xs) \<Longrightarrow> js_map_of key xs = map (\<lambda>x. (key x, x)) xs"
proof (induction xs rule: rev_induct)
  case (snoc x xs)
  then have "js_map_of key xs = map (\<lambda>x. (key x, x)) xs" "key x \<notin> set (map key xs)" by auto
  then show ?case by (simp add: js_map_of_def alist_update_absent image_image)
qed (simp add: js_map_of_def)

lemma map_of_js_map:
  "distinct (map key xs) \<Longrightarrow> map_of (js_map_of key xs) k = Some x \<longleftrightarrow> x \<in> set xs \<and> key x = k"
  by (auto simp: js_map_of_distinct o_def dest: map_of_SomeD intro!: map_of_is_SomeI)

lemma those_map: "(\<And>k. k \<in> set ks \<Longrightarrow> f k \<noteq> None) \<Longrightarrow> those (map f ks) = Some (map (\<lambda>k. the (f k)) ks)"
  by (induction ks) (force split: option.splits)+

definition amount_of :: "side_position \<Rightarrow> int" where
  "amount_of p = the (normaliseAmount (sp_amount p))"

lemma sum_from_Some:
  "sum_from acc ps = Some t \<longleftrightarrow> (\<forall>p \<in> set ps. normaliseAmount (sp_amount p) = Some (amount_of p)) \<and> t = acc + sum_list (map amount_of ps)"
proof (induction ps arbitrary: acc)
  case (Cons p ps)
  show ?case
  proof (cases "normaliseAmount (sp_amount p)")
    case (Some a)
    with Cons.IH [of "acc + a"] show ?thesis by (auto simp: amount_of_def add.assoc)
  qed simp
qed auto

definition key_value :: "(string \<times> side_position) list \<Rightarrow> string \<Rightarrow> int" where
  "key_value m k = (case map_of m k of None \<Rightarrow> 0 | Some p \<Rightarrow> amount_of p)"

lemma sum_key_value:
  assumes d: "distinct (map positionKey ps)" and ks: "distinct ks" "positionKey ` set ps \<subseteq> set ks"
  shows "sum_list (map (key_value (js_map_of positionKey ps)) ks) = sum_list (map amount_of ps)"
proof -
  let ?v = "key_value (js_map_of positionKey ps)"
  have v: "?v (positionKey p) = amount_of p" if "p \<in> set ps" for p
    using map_of_js_map [OF d, of "positionKey p" p] that by (simp add: key_value_def)
  have out: "?v k = 0" if "k \<notin> positionKey ` set ps" for k
  proof -
    have "map_of (js_map_of positionKey ps) k = None"
      using map_of_js_map [OF d, of k] that by (metis imageI option.exhaust)
    then show ?thesis by (simp add: key_value_def)
  qed
  have "sum_list (map ?v ks) = sum ?v (set ks)" by (rule sum_list_distinct_conv_sum_set [OF ks(1)])
  also have "\<dots> = sum ?v (positionKey ` set ps)" using ks(2) out by (intro sum.mono_neutral_right) auto
  also have "\<dots> = sum (\<lambda>p. ?v (positionKey p)) (set ps)" using d by (simp add: sum.reindex distinct_map)
  also have "\<dots> = sum_list (map amount_of ps)"
    using d v by (simp add: sum_list_distinct_conv_sum_set distinct_map cong: sum.cong)
  finally show ?thesis .
qed

definition entry_db :: "diff_entry \<Rightarrow> int" where
  "entry_db d = the (normaliseAmount (de_dbAmount d))"

definition entry_chain :: "diff_entry \<Rightarrow> int" where
  "entry_chain d = (case de_onChainAmount d of None \<Rightarrow> 0 | Some a \<Rightarrow> the (normaliseAmount a))"

lemma normalise_zero [simp]: "normaliseAmount ''0'' = Some 0"
  using bigint_of_digits [of "''0''"] by (simp add: normaliseAmount_def is_digit_zero digit_value_def)

definition classified :: "(string \<times> side_position) list \<Rightarrow> (string \<times> side_position) list \<Rightarrow> string \<Rightarrow> diff_entry \<Rightarrow> bool" where
  "classified dm cm k d \<longleftrightarrow> (de_stellarAddress d, de_outcome d) = key_parts k
     \<and> entry_db d = key_value dm k \<and> entry_chain d = key_value cm k
     \<and> (de_status d = MissingInDb \<longleftrightarrow> map_of dm k = None)
     \<and> (de_status d = MissingOnChain \<longleftrightarrow> map_of cm k = None)
     \<and> (de_status d = Match \<longleftrightarrow> map_of dm k \<noteq> None \<and> map_of cm k \<noteq> None \<and> key_value dm k = key_value cm k)
     \<and> (de_status d \<in> {Match, Mismatch} \<longrightarrow> de_difference d = Some (int_to_string (key_value dm k - key_value cm k)))"

lemma diff_entry_classified:
  assumes "\<And>p. map_of dm k = Some p \<or> map_of cm k = Some p \<Longrightarrow> normaliseAmount (sp_amount p) = Some (amount_of p)"
    and "map_of dm k \<noteq> None \<or> map_of cm k \<noteq> None"
  shows "\<exists>d. diff_entry_of dm cm k = Some d \<and> classified dm cm k d"
  using assms
  by (cases "map_of dm k"; cases "map_of cm k"; cases "key_parts k")
     (auto simp: diff_entry_of_def classified_def entry_db_def entry_chain_def key_value_def)


definition agree :: "side_position list \<Rightarrow> side_position list \<Rightarrow> bool" where
  "agree ps qs \<longleftrightarrow> (\<lambda>p. (positionKey p, amount_of p)) ` set ps = (\<lambda>p. (positionKey p, amount_of p)) ` set qs"

lemma agree_lookup:
  assumes "distinct (map positionKey ps)" and "distinct (map positionKey qs)"
  defines "dm \<equiv> js_map_of positionKey ps" and "cm \<equiv> js_map_of positionKey qs"
  shows "agree ps qs \<longleftrightarrow> (\<forall>k \<in> positionKey ` set ps \<union> positionKey ` set qs.
    map_of dm k \<noteq> None \<and> map_of cm k \<noteq> None \<and> key_value dm k = key_value cm k)"
proof -
  have 1: "map_option amount_of (map_of dm k) = Some a \<longleftrightarrow> (k, a) \<in> (\<lambda>p. (positionKey p, amount_of p)) ` set ps" for k a
    unfolding dm_def using map_of_js_map [OF assms(1)] by fastforce
  have 2: "map_option amount_of (map_of cm k) = Some a \<longleftrightarrow> (k, a) \<in> (\<lambda>p. (positionKey p, amount_of p)) ` set qs" for k a
    unfolding cm_def using map_of_js_map [OF assms(2)] by fastforce
  have keys: "k \<in> positionKey ` set ps \<longleftrightarrow> map_of dm k \<noteq> None" "k \<in> positionKey ` set qs \<longleftrightarrow> map_of cm k \<noteq> None" for k
    using map_of_js_map [OF assms(1), of k] map_of_js_map [OF assms(2), of k] unfolding dm_def cm_def by (auto simp: image_iff)
  have "agree ps qs \<longleftrightarrow> (\<forall>k. map_option amount_of (map_of dm k) = map_option amount_of (map_of cm k))"
    unfolding agree_def using 1 2 by (metis (no_types, lifting) option.exhaust set_eq_iff surj_pair)
  also have "\<dots> \<longleftrightarrow> (\<forall>k. k \<in> positionKey ` set ps \<union> positionKey ` set qs \<longrightarrow>
      map_of dm k \<noteq> None \<and> map_of cm k \<noteq> None \<and> key_value dm k = key_value cm k)"
  proof -
    have "map_option amount_of (map_of dm k) = map_option amount_of (map_of cm k) \<longleftrightarrow>
        (k \<in> positionKey ` set ps \<union> positionKey ` set qs \<longrightarrow>
         map_of dm k \<noteq> None \<and> map_of cm k \<noteq> None \<and> key_value dm k = key_value cm k)" for k
      unfolding Un_iff keys by (cases "map_of dm k"; cases "map_of cm k") (simp_all add: key_value_def)
    then show ?thesis by simp
  qed
  also have "\<dots> \<longleftrightarrow> (\<forall>k \<in> positionKey ` set ps \<union> positionKey ` set qs.
      map_of dm k \<noteq> None \<and> map_of cm k \<noteq> None \<and> key_value dm k = key_value cm k)"
    by blast
  finally show ?thesis .
qed

lemma status_counts:
  "count_status Match ds + count_status Mismatch ds + count_status MissingOnChain ds + count_status MissingInDb ds = length ds"
proof (induction ds)
  case (Cons d ds)
  then show ?case by (cases "de_status d") (simp_all add: count_status_def)
qed (simp add: count_status_def)

text \<open>The comparison of two sides with distinct keys and readable amounts has exactly one entry per key that occurs
  on a side; the amounts of its entries add up to the totals of the two snapshots, so no amount is lost or counted
  twice; its four counters add up to the number of keys; and every entry matches exactly when the two sides hold the
  same amounts under the same keys.\<close>

lemma market_diff_exact:
  assumes "distinct (map positionKey db)" and "distinct (map positionKey chain)"
    and "sumAmounts db = Some (int_to_string dbTotal)" and "sumAmounts chain = Some (int_to_string chainTotal)"
  shows "\<exists>s ds. diffMarketPositions db chain = Some (s, ds)
    \<and> length ds = card (positionKey ` set db \<union> positionKey ` set chain)
    \<and> (\<lambda>d. (de_stellarAddress d, de_outcome d)) ` set ds = key_parts ` (positionKey ` set db \<union> positionKey ` set chain)
    \<and> sum_list (map entry_db ds) = dbTotal \<and> sum_list (map entry_chain ds) = chainTotal
    \<and> rs_matches s + rs_mismatches s + rs_missingOnChain s + rs_missingInDb s = rs_totalKeys s \<and> rs_totalKeys s = length ds
    \<and> ((\<forall>d \<in> set ds. de_status d = Match) \<longleftrightarrow> agree db chain)"
proof -
  let ?dm = "js_map_of positionKey db" and ?cm = "js_map_of positionKey chain"
  let ?ks = "diff_keys ?dm ?cm" and ?K = "positionKey ` set db \<union> positionKey ` set chain"
  have K: "set ?ks = ?K" "distinct ?ks"
    using assms(1,2) by (auto simp: diff_keys_def js_map_of_distinct)
  have db: "\<forall>p \<in> set db. normaliseAmount (sp_amount p) = Some (amount_of p)" "dbTotal = sum_list (map amount_of db)"
    and ch: "\<forall>p \<in> set chain. normaliseAmount (sp_amount p) = Some (amount_of p)" "chainTotal = sum_list (map amount_of chain)"
    using assms(3,4) by (auto simp: sumAmounts_def sum_from_Some)
  have "\<exists>d. diff_entry_of ?dm ?cm k = Some d \<and> classified ?dm ?cm k d" if "k \<in> set ?ks" for k
  proof (rule diff_entry_classified)
    show "normaliseAmount (sp_amount p) = Some (amount_of p)" if "map_of ?dm k = Some p \<or> map_of ?cm k = Some p" for p
      using that db(1) ch(1) map_of_js_map [OF assms(1)] map_of_js_map [OF assms(2)] by blast
    show "map_of ?dm k \<noteq> None \<or> map_of ?cm k \<noteq> None"
      using that map_of_js_map [OF assms(1), of k] map_of_js_map [OF assms(2), of k] unfolding K by blast
  qed
  then obtain e where e: "\<And>k. k \<in> set ?ks \<Longrightarrow> diff_entry_of ?dm ?cm k = Some (e k) \<and> classified ?dm ?cm k (e k)" by metis
  let ?ds = "map e ?ks"
  have "those (map (diff_entry_of ?dm ?cm) ?ks) = Some (map (\<lambda>k. the (diff_entry_of ?dm ?cm k)) ?ks)"
    using e by (intro those_map) simp
  also have "map (\<lambda>k. the (diff_entry_of ?dm ?cm k)) ?ks = ?ds" using e by simp
  finally obtain s where s: "diffMarketPositions db chain = Some (s, ?ds)"
    "rs_totalKeys s = length ?ds" "rs_matches s + rs_mismatches s + rs_missingOnChain s + rs_missingInDb s = length ?ds"
    using status_counts [of ?ds] by (simp add: diffMarketPositions_def Let_def)
  have len: "length ?ds = card ?K" using distinct_card [OF K(2)] K(1) by simp
  have names: "(\<lambda>d. (de_stellarAddress d, de_outcome d)) ` set ?ds = key_parts ` ?K"
    using e by (auto simp: image_image classified_def K(1) [symmetric] intro!: image_cong)
  have "map entry_db ?ds = map (key_value ?dm) ?ks" "map entry_chain ?ds = map (key_value ?cm) ?ks"
    using e by (auto simp: classified_def)
  then have sums: "sum_list (map entry_db ?ds) = dbTotal" "sum_list (map entry_chain ?ds) = chainTotal"
    using sum_key_value [OF assms(1) K(2)] sum_key_value [OF assms(2) K(2)] db(2) ch(2) by (simp_all only: K(1) Un_upper1 Un_upper2)
  have "(\<forall>d \<in> set ?ds. de_status d = Match) \<longleftrightarrow> agree db chain"
    unfolding agree_lookup [OF assms(1,2)] using e by (auto simp: classified_def K(1) [symmetric])
  with s len names sums show ?thesis by simp
qed

lemma market_diff_exact_witness:
  "\<exists>s ds. diffMarketPositions
      [\<lparr>sp_stellarAddress = ''GA'', sp_outcome = ''yes'', sp_amount = ''100''\<rparr>,
       \<lparr>sp_stellarAddress = ''GB'', sp_outcome = ''no'', sp_amount = ''50''\<rparr>]
      [\<lparr>sp_stellarAddress = ''GA'', sp_outcome = ''yes'', sp_amount = ''90''\<rparr>] = Some (s, ds)
    \<and> length ds = 2 \<and> sum_list (map entry_db ds) = 150 \<and> sum_list (map entry_chain ds) = 90 \<and> rs_totalKeys s = 2"
proof -
  let ?db = "[\<lparr>sp_stellarAddress = ''GA'', sp_outcome = ''yes'', sp_amount = ''100''\<rparr>,
       \<lparr>sp_stellarAddress = ''GB'', sp_outcome = ''no'', sp_amount = ''50''\<rparr>]"
  let ?chain = "[\<lparr>sp_stellarAddress = ''GA'', sp_outcome = ''yes'', sp_amount = ''90''\<rparr>]"
  have "distinct (map positionKey ?db)" "distinct (map positionKey ?chain)" by (simp_all add: positionKey_def)
  moreover have "sumAmounts ?db = Some (int_to_string 150)" "sumAmounts ?chain = Some (int_to_string 90)" by code_simp+
  ultimately have "\<exists>s ds. diffMarketPositions ?db ?chain = Some (s, ds)
    \<and> length ds = card (positionKey ` set ?db \<union> positionKey ` set ?chain)
    \<and> sum_list (map entry_db ds) = 150 \<and> sum_list (map entry_chain ds) = 90 \<and> rs_totalKeys s = length ds"
    using market_diff_exact [of ?db ?chain 150 90] by blast
  moreover have "card (positionKey ` set ?db \<union> positionKey ` set ?chain) = 2" by (simp add: positionKey_def)
  ultimately show ?thesis by metis
qed

section \<open>Aggregation\<close>

definition lookup0 :: "(string \<times> int) list \<Rightarrow> string \<Rightarrow> int" where
  "lookup0 g k = (case map_of g k of None \<Rightarrow> 0 | Some n \<Rightarrow> n)"

lemma sum_update:
  "distinct (map fst g) \<Longrightarrow> sum_list (map snd (AList.update k v g)) = sum_list (map snd g) - lookup0 g k + v"
proof (induction g)
  case (Cons x g)
  then have "fst x = k \<Longrightarrow> k \<notin> fst ` set g" by auto
  with Cons show ?case by (cases x) (auto simp: lookup0_def)
qed (simp add: lookup0_def)

lemma group_amounts_spec:
  assumes "group_amounts rs g = Some g'" and "distinct (map fst g)"
  shows "distinct (map fst g') \<and> fst ` set g' = fst ` set g \<union> positionKey ` set rs
    \<and> sum_list (map snd g') = sum_list (map snd g) + sum_list (map amount_of rs)
    \<and> (\<forall>k. lookup0 g' k = lookup0 g k + sum_list (map amount_of (filter (\<lambda>r. positionKey r = k) rs)))"
  using assms
proof (induction rs arbitrary: g)
  case (Cons r rs)
  then obtain a where a: "normaliseAmount (sp_amount r) = Some a" by (auto split: option.splits)
  let ?g = "AList.update (positionKey r) (lookup0 g (positionKey r) + a) g"
  have ra: "amount_of r = a" by (simp add: amount_of_def a)
  have g: "group_amounts rs ?g = Some g'" using Cons.prems(1) by (simp add: a lookup0_def)
  have d: "distinct (map fst ?g)" using Cons.prems(2) by (rule distinct_update)
  have keys: "fst ` set ?g = insert (positionKey r) (fst ` set g)" by (simp add: dom_update [unfolded dom_map_of_conv_image_fst])
  have look: "lookup0 ?g k = lookup0 g k + (if positionKey r = k then a else 0)" for k
    by (simp add: lookup0_def update_conv')
  from Cons.IH [OF g d] show ?case
    by (simp add: keys sum_update [OF Cons.prems(2)] ra look)
qed auto

lemma split_clean: "CHR '':'' \<notin> set s \<Longrightarrow> js_split ''::'' s = [s]"
  by (induction s) auto

lemma key_parts_clean: "CHR '':'' \<notin> set a \<Longrightarrow> CHR '':'' \<notin> set b \<Longrightarrow> key_parts (a @ ''::'' @ b) = (a, b)"
proof -
  assume a: "CHR '':'' \<notin> set a" and b: "CHR '':'' \<notin> set b"
  have "js_split ''::'' (a @ ''::'' @ b) = [a, b]" using a by (induction a) (simp_all add: split_clean [OF b])
  then show ?thesis by (simp add: key_parts_def)
qed

definition clean_names :: "side_position list \<Rightarrow> bool" where
  "clean_names rs \<longleftrightarrow> (\<forall>r \<in> set rs. CHR '':'' \<notin> set (sp_stellarAddress r) \<union> set (sp_outcome r))"

text \<open>Aggregation keeps the sum of the amounts; when no name has a colon it has one position per key.\<close>

lemma aggregate_spec:
  assumes "aggregatePositions lc rows = Some ps"
  shows "sum_from 0 ps = Some (sum_list (map amount_of rows))
    \<and> (clean_names rows \<longrightarrow> distinct (map positionKey ps) \<and> positionKey ` set ps = positionKey ` set rows)"
proof -
  let ?pos = "\<lambda>(key, amount). \<lparr>sp_stellarAddress = fst (key_parts key), sp_outcome = snd (key_parts key), sp_amount = int_to_string amount\<rparr>"
  from assms obtain g where g: "group_amounts rows [] = Some g" "ps = js_sort (compare_positions lc) (map ?pos g)"
    by (auto simp: aggregatePositions_def)
  note spec = group_amounts_spec [OF g(1)]
  have amt: "map amount_of (map ?pos g) = map snd g" "\<forall>p \<in> set (map ?pos g). normaliseAmount (sp_amount p) = Some (amount_of p)"
    by (auto simp: amount_of_def normaliseAmount_def)
  have "mset (map amount_of ps) = mset (map amount_of (map ?pos g))"
    by (simp only: g(2) mset_map mset_js_sort)
  then have "sum_list (map amount_of ps) = sum_list (map snd g)" unfolding amt(1) by (metis sum_mset_sum_list)
  with amt(2) spec have 1: "sum_from 0 ps = Some (sum_list (map amount_of rows))" by (simp add: sum_from_Some g(2))
  have 2: "distinct (map positionKey ps) \<and> positionKey ` set ps = positionKey ` set rows" if "clean_names rows"
  proof -
    have "positionKey (?pos x) = fst x" if "x \<in> set g" for x
    proof -
      have "fst x \<in> positionKey ` set rows" using spec that by auto
      then obtain r where "r \<in> set rows" "fst x = positionKey r" by blast
      with \<open>clean_names rows\<close> have "key_parts (fst x) = (sp_stellarAddress r, sp_outcome r)"
        unfolding clean_names_def by (simp add: positionKey_def key_parts_clean del: append.simps)
      then show ?thesis using \<open>fst x = positionKey r\<close> by (cases x) (simp add: positionKey_def)
    qed
    then have keys: "map positionKey (map ?pos g) = map fst g" by simp
    have "distinct (map positionKey ps) = distinct (map positionKey (map ?pos g))"
      unfolding g(2) by (rule distinct_map_mset) simp
    moreover have "positionKey ` set ps = set (map positionKey (map ?pos g))" by (simp add: g(2) image_image)
    ultimately show ?thesis using spec unfolding keys by simp
  qed
  with 1 show ?thesis by blast
qed

section \<open>The report as wired\<close>

definition confirmed_positions :: "string \<Rightarrow> app_db \<Rightarrow> side_position list" where
  "confirmed_positions marketId db =
     map (\<lambda>(p, u). \<lparr>sp_stellarAddress = u_stellarAddress u, sp_outcome = p_outcome p, sp_amount = p_amount p\<rparr>)
       (join_users db (\<lambda>p. p_marketId p = marketId \<and> p_status p = ''confirmed''))"

lemma getOnChain_default: "getOnChainPositions lc = Some default_on_chain"
  by (simp add: getOnChainPositions_def aggregatePositions_def default_on_chain_def js_sort_def)

lemma empty_chain_agree: "agree ps [] \<longleftrightarrow> ps = []"
  by (auto simp: agree_def)

text \<open>The report of an existing market as the server is wired, with no chain reader: if every confirmed amount is
  an integer and no name has a colon, the report comes back with status \<^verbatim>\<open>partial\<close>, its total is the sum of the
  confirmed predictions of the market's users, every position is reported missing on the chain, and one audit row is
  written.\<close>

lemma market_report_as_wired:
  assumes "marketExists (ri_marketId input) db" and "clean_names (confirmed_positions (ri_marketId input) db)"
    and "\<forall>p \<in> set (confirmed_positions (ri_marketId input) db). normaliseAmount (sp_amount p) \<noteq> None"
  shows "\<exists>r. reconcileMarket lc now input db audit =
      (audit @ [(''admin.reconciliation.market.inspect'', ri_adminAddress input, ri_ip input, ri_correlationId input)], Inr r)
    \<and> mr_status r = ''partial''
    \<and> ss_totalAmount (mr_dbSnapshot r) = int_to_string (sum_list (map amount_of (confirmed_positions (ri_marketId input) db)))
    \<and> rs_totalKeys (mr_summary r) = card (positionKey ` set (confirmed_positions (ri_marketId input) db))
    \<and> rs_missingOnChain (mr_summary r) = rs_totalKeys (mr_summary r)"
proof -
  let ?rows = "confirmed_positions (ri_marketId input) db"
  have "group_amounts rs g \<noteq> None" if "\<forall>p \<in> set rs. normaliseAmount (sp_amount p) \<noteq> None" for rs g
    using that by (induction rs arbitrary: g) auto
  from this [OF assms(3), of "[]"] obtain ps where ps: "aggregatePositions lc ?rows = Some ps"
    unfolding aggregatePositions_def by blast
  note agg = aggregate_spec [OF ps]
  have d: "distinct (map positionKey ps)" "positionKey ` set ps = positionKey ` set ?rows" using agg assms(2) by blast+
  have tot: "sumAmounts ps = Some (int_to_string (sum_list (map amount_of ?rows)))" using agg by (simp add: sumAmounts_def)
  have nil: "sumAmounts [] = Some (int_to_string 0)" by (simp add: sumAmounts_def)
  have keys: "set (diff_keys (js_map_of positionKey ps) (js_map_of positionKey [])) = positionKey ` set ps"
    "distinct (diff_keys (js_map_of positionKey ps) (js_map_of positionKey []))"
    using d(1) by (auto simp: diff_keys_def js_map_of_distinct)
  let ?e = "\<lambda>k. \<lparr>de_stellarAddress = fst (key_parts k), de_outcome = snd (key_parts k),
    de_dbAmount = sp_amount (the (map_of (js_map_of positionKey ps) k)), de_onChainAmount = None, de_difference = None,
    de_status = MissingOnChain\<rparr>"
  have e: "diff_entry_of (js_map_of positionKey ps) (js_map_of positionKey []) k = Some (?e k)"
    if k: "k \<in> set (diff_keys (js_map_of positionKey ps) (js_map_of positionKey []))" for k
  proof -
    from k obtain p where "p \<in> set ps" "positionKey p = k" unfolding keys(1) by blast
    then have "map_of (js_map_of positionKey ps) k = Some p" using map_of_js_map [OF d(1)] by blast
    then show ?thesis by (simp add: diff_entry_of_def js_map_of_def split: prod.split)
  qed
  let ?ds = "map ?e (diff_keys (js_map_of positionKey ps) (js_map_of positionKey []))"
  have "those (map (diff_entry_of (js_map_of positionKey ps) (js_map_of positionKey []))
      (diff_keys (js_map_of positionKey ps) (js_map_of positionKey []))) = Some ?ds"
    using e by (subst those_map) simp_all
  moreover have "length ?ds = card (positionKey ` set ?rows)"
    unfolding length_map using distinct_card [OF keys(2)] keys(1) d(2) by simp
  moreover have "count_status MissingOnChain ?ds = length ?ds" by (simp add: count_status_def filter_map o_def)
  ultimately obtain s where "diffMarketPositions ps [] = Some (s, ?ds)" "rs_totalKeys s = card (positionKey ` set ?rows)"
    "rs_missingOnChain s = rs_totalKeys s"
    by (simp add: diffMarketPositions_def Let_def)
  with assms(1) ps tot show ?thesis
    by (simp add: reconcileMarket_def getOnChain_default reconcileMarket_with_def getDbPositions_def
        confirmed_positions_def [symmetric] sumAmounts_def default_on_chain_def)
qed

lemma market_report_as_wired_witness:
  "let db = \<lparr>db_users = [\<lparr>u_id = ''u1'', u_stellarAddress = ''GA'', u_createdAt = 0\<rparr>],
      db_markets = [\<lparr>m_id = ''m1'', m_question = ''q'', m_status = ''active'', m_resolutionOutcome = None, m_resolutionTime = 9,
        m_winningOutcome = None, m_metadata = None, m_indexedLedger = 1, m_archived = False, m_version = 1, m_featured = False,
        m_featuredAt = None, m_featuredBy = None, m_forceFinalized = False, m_createdAt = 0\<rparr>],
      db_predictions = [\<lparr>p_id = ''p1'', p_marketId = ''m1'', p_userId = ''u1'', p_outcome = ''yes'', p_amount = ''70'', p_txHash = ''t'',
        p_fundingSource = None, p_status = ''confirmed'', p_result = None, p_claimTxHash = None, p_claimedAt = None,
        p_createdAt = 0, p_confirmAttempts = 0, p_lastError = None\<rparr>],
      db_claims = []\<rparr>;
     input = \<lparr>ri_marketId = ''m1'', ri_adminAddress = ''GADM'', ri_ip = ''::1'', ri_correlationId = ''c''\<rparr>
   in \<exists>r. reconcileMarket (\<lambda>_ _. 0) 5 input db [] = ([(''admin.reconciliation.market.inspect'', ''GADM'', ''::1'', ''c'')], Inr r)
     \<and> mr_status r = ''partial'' \<and> ss_totalAmount (mr_dbSnapshot r) = int_to_string 70
     \<and> rs_totalKeys (mr_summary r) = 1 \<and> rs_missingOnChain (mr_summary r) = rs_totalKeys (mr_summary r)"
proof -
  let ?db = "\<lparr>db_users = [\<lparr>u_id = ''u1'', u_stellarAddress = ''GA'', u_createdAt = 0\<rparr>],
      db_markets = [\<lparr>m_id = ''m1'', m_question = ''q'', m_status = ''active'', m_resolutionOutcome = None, m_resolutionTime = 9,
        m_winningOutcome = None, m_metadata = None, m_indexedLedger = 1, m_archived = False, m_version = 1, m_featured = False,
        m_featuredAt = None, m_featuredBy = None, m_forceFinalized = False, m_createdAt = 0\<rparr>],
      db_predictions = [\<lparr>p_id = ''p1'', p_marketId = ''m1'', p_userId = ''u1'', p_outcome = ''yes'', p_amount = ''70'', p_txHash = ''t'',
        p_fundingSource = None, p_status = ''confirmed'', p_result = None, p_claimTxHash = None, p_claimedAt = None,
        p_createdAt = 0, p_confirmAttempts = 0, p_lastError = None\<rparr>],
      db_claims = []\<rparr> :: app_db"
  let ?input = "\<lparr>ri_marketId = ''m1'', ri_adminAddress = ''GADM'', ri_ip = ''::1'', ri_correlationId = ''c''\<rparr>"
  have rows: "confirmed_positions (ri_marketId ?input) ?db = [\<lparr>sp_stellarAddress = ''GA'', sp_outcome = ''yes'', sp_amount = ''70''\<rparr>]"
    by (simp add: confirmed_positions_def join_users_def)
  have amt: "normaliseAmount ''70'' = Some 70" by code_simp
  have "marketExists (ri_marketId ?input) ?db" by (simp add: marketExists_def)
  moreover have "clean_names (confirmed_positions (ri_marketId ?input) ?db)" unfolding rows by (simp add: clean_names_def)
  moreover have "\<forall>p \<in> set (confirmed_positions (ri_marketId ?input) ?db). normaliseAmount (sp_amount p) \<noteq> None"
    unfolding rows by (simp add: amt)
  ultimately show ?thesis
    using market_report_as_wired [of ?input ?db "\<lambda>_ _. 0" 5 "[]"] unfolding rows by (simp add: amount_of_def amt Let_def)
qed

end
