(* ===== verification/Payout_Reconciliation.thy ===== *)
theory Payout_Reconciliation
  imports Market_Reconciliation Event_Decoder
begin

text \<open>
  The payout part of \<^verbatim>\<open>src/services/reconciliationService.ts\<close>: predictions, claims and \<^verbatim>\<open>win_clm\<close> events grouped by
  user and market and checked against each other, and the stored reports. \<open>None\<close> of the engine is the
  \<^verbatim>\<open>SyntaxError\<close> of \<^verbatim>\<open>BigInt\<close>; \<open>sha\<close> stands for SHA-256 of the JSON text of its argument. A stored report's creation
  time is in microseconds, which a JavaScript \<^verbatim>\<open>Date\<close> cuts to milliseconds.

  \<^item> \<open>payout_exact\<close>: a key is counted as matched exactly when the predictions, claims and events of the user and market
    are consistent.
  \<^item> \<open>decoded_claim_never_matches\<close>: with the event rows the indexer writes, every paid claim is reported missing on
    chain and every claim event missing in the database.
\<close>

section \<open>Inputs\<close>

datatype discrepancy_kind =
    ClaimedOnChainMissingInDb | DbPaidMissingOnChain | AmountMismatch | ClaimForLosingPrediction
  | DuplicateOnChainClaim | StaleUnclaimed

datatype discrepancy_details =
    DuplicateDetails nat "string list" | LostDetails | LedgerDetails "int option" | SettlementDetails "string option"
  | StaleDetails time int

record payout_discrepancy =
  pd_kind :: discrepancy_kind
  pd_userId :: "string option"
  pd_stellarAddress :: "string option"
  pd_marketId :: string
  pd_predictionId :: "string option"
  pd_claimId :: "string option"
  pd_txHash :: "string option"
  pd_dbAmount :: "string option"
  pd_onChainAmount :: "string option"
  pd_difference :: "string option"
  pd_details :: "discrepancy_details option"

record claim_event =
  ce_id :: "string option"
  ce_txHash :: string
  ce_ledger :: "int option"
  ce_marketId :: string
  ce_userAddress :: string
  ce_amount :: string
  ce_createdAt :: time

record recon_prediction =
  rp_id :: string
  rp_userId :: string
  rp_stellarAddress :: string
  rp_marketId :: string
  rp_amount :: string
  rp_status :: string
  rp_result :: "string option"
  rp_claimTxHash :: "string option"
  rp_createdAt :: time

record recon_claim =
  rc_id :: string
  rc_userId :: string
  rc_stellarAddress :: "string option"
  rc_marketId :: string
  rc_amount :: string
  rc_status :: claim_status
  rc_settlementTx :: "string option"
  rc_createdAt :: time

section \<open>Reading the tables\<close>

definition in_window :: "time option \<Rightarrow> time option \<Rightarrow> time \<Rightarrow> bool" where
  "in_window since until t \<longleftrightarrow> (case since of None \<Rightarrow> True | Some s \<Rightarrow> s \<le> t) \<and> (case until of None \<Rightarrow> True | Some u \<Rightarrow> t \<le> u)"

text \<open>\<^verbatim>\<open>String(v)\<close> of a JSON value and \<^verbatim>\<open>payload.k ?? ..\<close>.\<close>

fun json_String :: "json \<Rightarrow> string" where
  "json_String JNull = ''null''"
| "json_String (JBool b) = (if b then ''true'' else ''false'')"
| "json_String (JNum n) = int_to_string n"
| "json_String (JStr s) = s"
| "json_String (JArr []) = ''''"
| "json_String (JArr [x]) = (if x = JNull then '''' else json_String x)"
| "json_String (JArr (x # y # xs)) = (if x = JNull then '''' else json_String x) @ '','' @ json_String (JArr (y # xs))"
| "json_String (JObj _) = ''[object Object]''"

definition json_prop :: "json \<Rightarrow> string \<Rightarrow> json option" where
  "json_prop v k = (case v of JObj kvs \<Rightarrow> (case map_of kvs k of Some JNull \<Rightarrow> None | r \<Rightarrow> r) | _ \<Rightarrow> None)"

definition first_prop :: "json \<Rightarrow> string list \<Rightarrow> string \<Rightarrow> string" where
  "first_prop v ks d = (case List.map_filter (json_prop v) ks of [] \<Rightarrow> d | x # _ \<Rightarrow> json_String x)"

definition claim_event_of :: "indexer_event_row \<Rightarrow> claim_event" where
  "claim_event_of r =
    (let payload = (case ie_data r of None \<Rightarrow> JObj [] | Some v \<Rightarrow> v)
     in \<lparr>ce_id = Some (ie_id r), ce_txHash = ie_txHash r, ce_ledger = Some (ie_ledger r),
         ce_marketId = (case ie_marketId r of Some m \<Rightarrow> m | None \<Rightarrow> first_prop payload [''marketId''] ''''),
         ce_userAddress = first_prop payload [''userAddress'', ''stellarAddress''] '''',
         ce_amount = first_prop payload [''amount''] ''0'', ce_createdAt = ie_createdAt r\<rparr>)"

definition getClaimEvents :: "time option \<Rightarrow> time option \<Rightarrow> indexer_event_row table \<Rightarrow> claim_event list" where
  "getClaimEvents since until events = map claim_event_of
     (filter (\<lambda>r. ie_eventType r = ''win_clm'' \<and> ie_canonical r \<and> in_window since until (ie_createdAt r)) events)"

definition select_predictions :: "time option \<Rightarrow> time option \<Rightarrow> app_db \<Rightarrow> recon_prediction list" where
  "select_predictions since until db = map
     (\<lambda>(p, u). \<lparr>rp_id = p_id p, rp_userId = p_userId p, rp_stellarAddress = u_stellarAddress u, rp_marketId = p_marketId p,
        rp_amount = p_amount p, rp_status = p_status p, rp_result = p_result p, rp_claimTxHash = p_claimTxHash p,
        rp_createdAt = p_createdAt p\<rparr>)
     (join_users db (\<lambda>p. in_window since until (p_createdAt p)))"

definition select_claims :: "time option \<Rightarrow> time option \<Rightarrow> app_db \<Rightarrow> recon_claim list" where
  "select_claims since until db = concat (map
     (\<lambda>c. map (\<lambda>u. \<lparr>rc_id = c_id c, rc_userId = c_userId c, rc_stellarAddress = Some (u_stellarAddress u),
        rc_marketId = c_marketId c, rc_amount = c_amount c, rc_status = c_status c, rc_settlementTx = c_settlementTx c,
        rc_createdAt = c_createdAt c\<rparr>)
        (filter (\<lambda>u. c_userId c = u_id u) (db_users db)))
     (filter (\<lambda>c. in_window since until (c_createdAt c)) (db_claims db)))"

section \<open>Grouping\<close>

definition js_or :: "string \<Rightarrow> string \<Rightarrow> string" where "js_or a b = (if a = [] then b else a)"

definition pred_key :: "recon_prediction \<Rightarrow> string" where
  "pred_key p = js_or (rp_stellarAddress p) (rp_userId p) @ ''::'' @ rp_marketId p"

definition claim_key :: "recon_claim \<Rightarrow> string" where
  "claim_key c = (case rc_stellarAddress c of None \<Rightarrow> rc_userId c | Some a \<Rightarrow> js_or a (rc_userId c)) @ ''::'' @ rc_marketId c"

definition event_key :: "claim_event \<Rightarrow> string" where
  "event_key e = ce_userAddress e @ ''::'' @ ce_marketId e"

fun group_by :: "('a \<Rightarrow> string) \<Rightarrow> 'a list \<Rightarrow> (string \<times> 'a list) list \<Rightarrow> (string \<times> 'a list) list" where
  "group_by key [] m = m"
| "group_by key (x # xs) m =
     group_by key xs (AList.update (key x) ((case map_of m (key x) of None \<Rightarrow> [] | Some ys \<Rightarrow> ys) @ [x]) m)"

definition entries_of :: "(string \<times> 'a list) list \<Rightarrow> string \<Rightarrow> 'a list" where
  "entries_of m k = (case map_of m k of None \<Rightarrow> [] | Some ys \<Rightarrow> ys)"

section \<open>The checks of one key\<close>

definition empty_discrepancy :: "discrepancy_kind \<Rightarrow> string \<Rightarrow> string \<Rightarrow> payout_discrepancy" where
  "empty_discrepancy kind userAddress marketId = \<lparr>pd_kind = kind, pd_userId = None, pd_stellarAddress = Some userAddress,
     pd_marketId = marketId, pd_predictionId = None, pd_claimId = None, pd_txHash = None, pd_dbAmount = None,
     pd_onChainAmount = None, pd_difference = None, pd_details = None\<rparr>"

definition check_duplicate :: "string \<Rightarrow> string \<Rightarrow> claim_event list \<Rightarrow> payout_discrepancy list" where
  "check_duplicate userAddress marketId evts = (case evts of
     e0 # e1 # _ \<Rightarrow> [(empty_discrepancy DuplicateOnChainClaim userAddress marketId)
        \<lparr>pd_txHash := Some (ce_txHash e1), pd_onChainAmount := Some (ce_amount e1),
         pd_details := Some (DuplicateDetails (length evts) (map ce_txHash evts))\<rparr>]
   | _ \<Rightarrow> [])"

definition check_losing ::
  "string \<Rightarrow> string \<Rightarrow> recon_prediction list \<Rightarrow> recon_claim list \<Rightarrow> claim_event list \<Rightarrow> payout_discrepancy list" where
  "check_losing userAddress marketId preds clms evts = (case find (\<lambda>p. rp_result p = Some ''lost'') preds of
     None \<Rightarrow> []
   | Some p \<Rightarrow> if evts \<noteq> [] \<or> clms \<noteq> [] then
        [(empty_discrepancy ClaimForLosingPrediction userAddress marketId)
          \<lparr>pd_predictionId := Some (rp_id p), pd_txHash := map_option ce_txHash (js_nth evts 0),
           pd_onChainAmount := map_option ce_amount (js_nth evts 0), pd_details := Some LostDetails\<rparr>]
      else [])"

definition check_missing_in_db :: "string \<Rightarrow> string \<Rightarrow> recon_claim list \<Rightarrow> claim_event list \<Rightarrow> payout_discrepancy list" where
  "check_missing_in_db userAddress marketId clms evts =
    (if evts \<noteq> [] \<and> clms = [] then
       map (\<lambda>e. (empty_discrepancy ClaimedOnChainMissingInDb userAddress marketId)
         \<lparr>pd_txHash := Some (ce_txHash e), pd_onChainAmount := Some (ce_amount e), pd_details := Some (LedgerDetails (ce_ledger e))\<rparr>) evts
     else [])"

definition check_missing_on_chain :: "string \<Rightarrow> string \<Rightarrow> recon_claim list \<Rightarrow> claim_event list \<Rightarrow> payout_discrepancy list" where
  "check_missing_on_chain userAddress marketId clms evts =
    (if evts = [] then
       map (\<lambda>c. (empty_discrepancy DbPaidMissingOnChain userAddress marketId)
         \<lparr>pd_claimId := Some (rc_id c), pd_dbAmount := Some (rc_amount c), pd_details := Some (SettlementDetails (rc_settlementTx c))\<rparr>)
         (filter (\<lambda>c. rc_status c = Paid \<or> rc_status c = Settled) clms)
     else [])"

definition check_amount :: "string \<Rightarrow> string \<Rightarrow> recon_claim list \<Rightarrow> claim_event list \<Rightarrow> payout_discrepancy list option" where
  "check_amount userAddress marketId clms evts = (case (evts, clms) of
     (evt # _, clm # _) \<Rightarrow>
       (case (parseExactStroops (Some (rc_amount clm)), parseExactStroops (Some (ce_amount evt))) of
          (Some dbStroops, Some onChainStroops) \<Rightarrow>
            (let diff = dbStroops - onChainStroops
             in Some (if diff \<noteq> 0 then [(empty_discrepancy AmountMismatch userAddress marketId)
                  \<lparr>pd_claimId := Some (rc_id clm), pd_txHash := Some (ce_txHash evt), pd_dbAmount := Some (rc_amount clm),
                   pd_onChainAmount := Some (ce_amount evt), pd_difference := Some (formatExactStroops diff)\<rparr>] else []))
        | _ \<Rightarrow> None)
   | _ \<Rightarrow> Some [])"

definition DAY_MS :: int where "DAY_MS = 24 * 60 * 60 * 1000"

definition is_stale :: "time \<Rightarrow> int \<Rightarrow> recon_prediction \<Rightarrow> bool" where
  "is_stale now staleThresholdMs p \<longleftrightarrow> rp_result p = Some ''won'' \<and> rp_status p = ''confirmed''
     \<and> (case rp_claimTxHash p of None \<Rightarrow> True | Some h \<Rightarrow> h = []) \<and> staleThresholdMs \<le> now - rp_createdAt p"

definition check_stale ::
  "time \<Rightarrow> int \<Rightarrow> string \<Rightarrow> string \<Rightarrow> recon_prediction list \<Rightarrow> recon_claim list \<Rightarrow> claim_event list \<Rightarrow> payout_discrepancy list" where
  "check_stale now staleThresholdMs userAddress marketId preds clms evts =
    (if clms = [] \<and> evts = [] then
       map (\<lambda>p. (empty_discrepancy StaleUnclaimed userAddress marketId)
         \<lparr>pd_predictionId := Some (rp_id p), pd_dbAmount := Some (rp_amount p),
          pd_details := Some (StaleDetails (rp_createdAt p) ((now - rp_createdAt p) div DAY_MS))\<rparr>)
         (filter (is_stale now staleThresholdMs) preds)
     else [])"

definition check_key ::
  "time \<Rightarrow> int \<Rightarrow> string \<Rightarrow> recon_prediction list \<Rightarrow> recon_claim list \<Rightarrow> claim_event list \<Rightarrow> payout_discrepancy list option" where
  "check_key now staleThresholdMs key preds clms evts = (case key_parts key of (userAddress, marketId) \<Rightarrow>
    (case check_amount userAddress marketId clms evts of
       None \<Rightarrow> None
     | Some amounts \<Rightarrow> Some (check_duplicate userAddress marketId evts @ check_losing userAddress marketId preds clms evts
         @ check_missing_in_db userAddress marketId clms evts @ check_missing_on_chain userAddress marketId clms evts
         @ amounts @ check_stale now staleThresholdMs userAddress marketId preds clms evts)))"

section \<open>The engine\<close>

definition BATCH_SIZE :: nat where "BATCH_SIZE = 1000"

function batches :: "nat \<Rightarrow> 'a list \<Rightarrow> 'a list list" where
  "batches n xs = (if xs = [] \<or> n = 0 then [] else take n xs # batches n (drop n xs))"
  by pat_completeness auto
termination by (relation "measure (\<lambda>(n, xs). length xs)") auto

declare batches.simps [simp del]

fun scan_keys ::
  "(string \<Rightarrow> payout_discrepancy list option) \<Rightarrow> string list \<Rightarrow> payout_discrepancy list \<times> nat \<Rightarrow> (payout_discrepancy list \<times> nat) option" where
  "scan_keys chk [] acc = Some acc"
| "scan_keys chk (k # ks) (ds, matchedKeys) = (case chk k of
     None \<Rightarrow> None
   | Some new \<Rightarrow> scan_keys chk ks (ds @ new, if length (ds @ new) = length ds then matchedKeys + 1 else matchedKeys))"

fun scan_batches ::
  "(string \<Rightarrow> payout_discrepancy list option) \<Rightarrow> string list list \<Rightarrow> payout_discrepancy list \<times> nat \<Rightarrow> (payout_discrepancy list \<times> nat) option" where
  "scan_batches chk [] acc = Some acc"
| "scan_batches chk (b # bs) acc = (case scan_keys chk b acc of None \<Rightarrow> None | Some acc1 \<Rightarrow> scan_batches chk bs acc1)"

definition kind_counts :: "payout_discrepancy list \<Rightarrow> discrepancy_kind \<Rightarrow> nat" where
  "kind_counts ds k = length (filter (\<lambda>d. pd_kind d = k) ds)"

record recon_core =
  co_keys :: "string list"
  co_matchedKeys :: nat
  co_discrepancies :: "payout_discrepancy list"

definition reconcile_core ::
  "time \<Rightarrow> int \<Rightarrow> recon_prediction list \<Rightarrow> recon_claim list \<Rightarrow> claim_event list \<Rightarrow> recon_core option" where
  "reconcile_core now staleThresholdMs preds clms evts =
    (let predictionsByKey = group_by pred_key preds []; claimsByKey = group_by claim_key clms []; eventsByKey = group_by event_key evts [];
         allKeys = sort_strings (js_unique (map pred_key preds @ map claim_key clms @ map event_key evts));
         chk = (\<lambda>key. check_key now staleThresholdMs key (entries_of predictionsByKey key) (entries_of claimsByKey key)
                  (entries_of eventsByKey key))
     in map_option (\<lambda>(ds, matched). \<lparr>co_keys = allKeys, co_matchedKeys = matched, co_discrepancies = ds\<rparr>)
          (scan_batches chk (batches BATCH_SIZE allKeys) ([], 0)))"

section \<open>The report is exact\<close>

lemma entries_of_group_by: "entries_of (group_by key xs m) k = entries_of m k @ filter (\<lambda>x. key x = k) xs"
proof (induction xs arbitrary: m)
  case (Cons x xs)
  show ?case unfolding group_by.simps Cons.IH by (simp add: entries_of_def update_conv')
qed simp

lemma concat_batches: "0 < n \<Longrightarrow> concat (batches n xs) = xs"
proof (induction n xs rule: batches.induct)
  case (1 n xs)
  then show ?case by (cases "xs = []") (simp_all add: batches.simps [of n xs] batches.simps [of n "[]"])
qed

lemma scan_keys_append:
  "scan_keys chk (xs @ ys) acc = (case scan_keys chk xs acc of None \<Rightarrow> None | Some a \<Rightarrow> scan_keys chk ys a)"
  by (induction chk xs acc rule: scan_keys.induct) (auto split: option.splits)

lemma scan_batches_concat: "scan_batches chk bs acc = scan_keys chk (concat bs) acc"
  by (induction bs arbitrary: acc) (auto simp: scan_keys_append split: option.splits)

lemma scan_keys_spec:
  "(\<And>k. k \<in> set ks \<Longrightarrow> chk k = Some (f k)) \<Longrightarrow>
   scan_keys chk ks (ds, m) = Some (ds @ concat (map f ks), m + length (filter (\<lambda>k. f k = []) ks))"
  by (induction ks arbitrary: ds m) auto

lemma check_amount_Nil:
  assumes "\<And>c. c \<in> set clms \<Longrightarrow> parseExactStroops (Some (rc_amount c)) \<noteq> None"
    and "\<And>e. e \<in> set evts \<Longrightarrow> parseExactStroops (Some (ce_amount e)) \<noteq> None"
  shows "\<exists>ds. check_amount a m clms evts = Some ds \<and> (ds = [] \<longleftrightarrow>
    (evts \<noteq> [] \<and> clms \<noteq> [] \<longrightarrow>
      parseExactStroops (Some (rc_amount (hd clms))) = parseExactStroops (Some (ce_amount (hd evts)))))"
  using assms by (cases evts; cases clms) (fastforce simp: check_amount_def Let_def split: option.splits)+

definition key_consistent ::
  "time \<Rightarrow> int \<Rightarrow> recon_prediction list \<Rightarrow> recon_claim list \<Rightarrow> claim_event list \<Rightarrow> bool" where
  "key_consistent now staleThresholdMs preds clms evts \<longleftrightarrow>
     length evts \<le> 1
     \<and> ((\<exists>p \<in> set preds. rp_result p = Some ''lost'') \<longrightarrow> evts = [] \<and> clms = [])
     \<and> (evts \<noteq> [] \<longrightarrow> clms \<noteq> [] \<and> parseExactStroops (Some (rc_amount (hd clms))) = parseExactStroops (Some (ce_amount (hd evts))))
     \<and> (evts = [] \<longrightarrow> (\<forall>c \<in> set clms. rc_status c \<noteq> Paid \<and> rc_status c \<noteq> Settled))
     \<and> (evts = [] \<and> clms = [] \<longrightarrow> (\<forall>p \<in> set preds. \<not> is_stale now staleThresholdMs p))"

definition consistent_at ::
  "time \<Rightarrow> int \<Rightarrow> recon_prediction list \<Rightarrow> recon_claim list \<Rightarrow> claim_event list \<Rightarrow> string \<Rightarrow> bool" where
  "consistent_at now staleThresholdMs preds clms evts k \<longleftrightarrow> key_consistent now staleThresholdMs
     (filter (\<lambda>p. pred_key p = k) preds) (filter (\<lambda>c. claim_key c = k) clms) (filter (\<lambda>e. event_key e = k) evts)"

lemma check_key_exact:
  assumes "\<And>c. c \<in> set clms \<Longrightarrow> parseExactStroops (Some (rc_amount c)) \<noteq> None"
    and "\<And>e. e \<in> set evts \<Longrightarrow> parseExactStroops (Some (ce_amount e)) \<noteq> None"
  shows "\<exists>ds. check_key now st key preds clms evts = Some ds \<and> (ds = [] \<longleftrightarrow> key_consistent now st preds clms evts)"
proof -
  obtain a m where k: "key_parts key = (a, m)" by fastforce
  obtain am where am: "check_amount a m clms evts = Some am" "am = [] \<longleftrightarrow> (evts \<noteq> [] \<and> clms \<noteq> [] \<longrightarrow>
      parseExactStroops (Some (rc_amount (hd clms))) = parseExactStroops (Some (ce_amount (hd evts))))"
    using check_amount_Nil [OF assms] by blast
  have 1: "check_duplicate a m evts = [] \<longleftrightarrow> length evts \<le> 1"
    by (simp add: check_duplicate_def split: list.split)
  have 2: "check_losing a m preds clms evts = [] \<longleftrightarrow> ((\<exists>p \<in> set preds. rp_result p = Some ''lost'') \<longrightarrow> evts = [] \<and> clms = [])"
    by (auto simp: check_losing_def find_None_iff find_Some_iff split: option.split)
  have 3: "check_missing_in_db a m clms evts = [] \<longleftrightarrow> (evts \<noteq> [] \<longrightarrow> clms \<noteq> [])"
    by (simp add: check_missing_in_db_def)
  have 4: "check_missing_on_chain a m clms evts = [] \<longleftrightarrow> (evts = [] \<longrightarrow> (\<forall>c \<in> set clms. rc_status c \<noteq> Paid \<and> rc_status c \<noteq> Settled))"
    by (auto simp: check_missing_on_chain_def filter_empty_conv)
  have 5: "check_stale now st a m preds clms evts = [] \<longleftrightarrow> (evts = [] \<and> clms = [] \<longrightarrow> (\<forall>p \<in> set preds. \<not> is_stale now st p))"
    by (auto simp: check_stale_def filter_empty_conv)
  show ?thesis unfolding check_key_def k key_consistent_def using am(2) by (simp add: am(1) 1 2 3 4 5) blast
qed

lemma kind_counts_sum:
  "kind_counts ds ClaimedOnChainMissingInDb + kind_counts ds DbPaidMissingOnChain + kind_counts ds AmountMismatch
   + kind_counts ds ClaimForLosingPrediction + kind_counts ds DuplicateOnChainClaim + kind_counts ds StaleUnclaimed = length ds"
proof (induction ds)
  case (Cons d ds)
  then show ?case by (cases "pd_kind d") (simp_all add: kind_counts_def)
qed (simp add: kind_counts_def)

lemma reconcile_core_spec:
  assumes "\<forall>c \<in> set clms. parseExactStroops (Some (rc_amount c)) \<noteq> None"
    and "\<forall>e \<in> set evts. parseExactStroops (Some (ce_amount e)) \<noteq> None"
  shows "\<exists>r f. reconcile_core now st preds clms evts = Some r
    \<and> set (co_keys r) = pred_key ` set preds \<union> claim_key ` set clms \<union> event_key ` set evts \<and> distinct (co_keys r)
    \<and> co_matchedKeys r = length (filter (\<lambda>k. f k = []) (co_keys r)) \<and> co_discrepancies r = concat (map f (co_keys r))
    \<and> (\<forall>k. check_key now st k (filter (\<lambda>p. pred_key p = k) preds) (filter (\<lambda>c. claim_key c = k) clms)
          (filter (\<lambda>e. event_key e = k) evts) = Some (f k))"
proof -
  let ?keys = "sort_strings (js_unique (map pred_key preds @ map claim_key clms @ map event_key evts))"
  let ?chk = "\<lambda>k. check_key now st k (filter (\<lambda>p. pred_key p = k) preds) (filter (\<lambda>c. claim_key c = k) clms)
     (filter (\<lambda>e. event_key e = k) evts)"
  have "\<exists>ds. ?chk k = Some ds \<and> (ds = [] \<longleftrightarrow> consistent_at now st preds clms evts k)" for k
    unfolding consistent_at_def by (rule check_key_exact) (use assms in auto)
  then obtain f where f: "\<And>k. ?chk k = Some (f k)" by metis
  have e: "entries_of (group_by key xs []) k = filter (\<lambda>x. key x = k) xs" for key :: "'z \<Rightarrow> string" and xs k
    by (simp add: entries_of_group_by) (simp add: entries_of_def)
  have "reconcile_core now st preds clms evts = Some \<lparr>co_keys = ?keys,
      co_matchedKeys = length (filter (\<lambda>k. f k = []) ?keys), co_discrepancies = concat (map f ?keys)\<rparr>"
    using scan_keys_spec [of ?keys ?chk f "[]" 0, OF f]
    by (simp add: reconcile_core_def Let_def e scan_batches_concat concat_batches BATCH_SIZE_def)
  with f show ?thesis by (auto simp: image_Un)
qed

text \<open>The amounts are compared between the first claim and the first event of a key, in the order in which the two queries
  return their rows; neither query has an \<^verbatim>\<open>ORDER BY\<close>. A user who let one claim expire and was paid a second one of the
  same market has two claim rows: the check is clean if the paid row comes first and reports a mismatch for the expired
  row if that one comes first.\<close>

lemma claim_order_decides:
  assumes "claim_key paid = event_key e" and "claim_key old = event_key e"
    and "parseExactStroops (Some (rc_amount paid)) = Some v" and "parseExactStroops (Some (ce_amount e)) = Some v"
    and "parseExactStroops (Some (rc_amount old)) = Some x" and "x \<noteq> v"
  shows "(\<exists>r. reconcile_core now st [] [paid, old] [e] = Some r \<and> co_discrepancies r = [])
    \<and> (\<exists>r d. reconcile_core now st [] [old, paid] [e] = Some r \<and> co_discrepancies r = [d]
          \<and> pd_kind d = AmountMismatch \<and> pd_claimId d = Some (rc_id old))"
proof -
  have b: "batches BATCH_SIZE [k] = [[k]]" for k :: string unfolding BATCH_SIZE_def by (subst batches.simps, subst batches.simps) simp
  obtain a m where k: "key_parts (event_key e) = (a, m)" by fastforce
  have u: "sort_strings (js_unique [event_key e, event_key e, event_key e]) = [event_key e]"
    by (simp add: js_unique_def sort_strings_def js_sort_def)
  show ?thesis
    using assms by (simp add: reconcile_core_def Let_def entries_of_def u b check_key_def k check_amount_def check_duplicate_def check_losing_def
        check_missing_in_db_def check_missing_on_chain_def check_stale_def empty_discrepancy_def)
qed

text \<open>C29. If every claim and event amount is a decimal number, the payout check finishes; it looks once at every user and
  market that occurs in a prediction, a claim or an event; the matched keys are exactly the consistent ones (at most one
  event; neither claims nor events on a lost prediction; if there is an event there is a claim, and the first claim and the
  first event, in the order the queries returned them, have the same amount; if there is no event no claim is paid or
  settled; no stale win without claim and event); the report is empty exactly when every key is consistent; and the six
  counters add up to the discrepancies. Claims of a key after the first are not compared.\<close>

theorem payout_exact:
  assumes "\<forall>c \<in> set clms. parseExactStroops (Some (rc_amount c)) \<noteq> None"
    and "\<forall>e \<in> set evts. parseExactStroops (Some (ce_amount e)) \<noteq> None"
  shows "\<exists>r. reconcile_core now st preds clms evts = Some r
    \<and> set (co_keys r) = pred_key ` set preds \<union> claim_key ` set clms \<union> event_key ` set evts
    \<and> length (co_keys r) = card (set (co_keys r))
    \<and> co_matchedKeys r = card {k \<in> set (co_keys r). consistent_at now st preds clms evts k}
    \<and> (co_discrepancies r = [] \<longleftrightarrow> (\<forall>k \<in> set (co_keys r). consistent_at now st preds clms evts k))
    \<and> kind_counts (co_discrepancies r) ClaimedOnChainMissingInDb + kind_counts (co_discrepancies r) DbPaidMissingOnChain
       + kind_counts (co_discrepancies r) AmountMismatch + kind_counts (co_discrepancies r) ClaimForLosingPrediction
       + kind_counts (co_discrepancies r) DuplicateOnChainClaim + kind_counts (co_discrepancies r) StaleUnclaimed
       = length (co_discrepancies r)"
proof -
  from reconcile_core_spec [OF assms(1,2)] obtain r f where r: "reconcile_core now st preds clms evts = Some r"
    "set (co_keys r) = pred_key ` set preds \<union> claim_key ` set clms \<union> event_key ` set evts" "distinct (co_keys r)"
    "co_matchedKeys r = length (filter (\<lambda>k. f k = []) (co_keys r))" "co_discrepancies r = concat (map f (co_keys r))"
    and f: "\<And>k. check_key now st k (filter (\<lambda>p. pred_key p = k) preds) (filter (\<lambda>c. claim_key c = k) clms)
          (filter (\<lambda>e. event_key e = k) evts) = Some (f k)" by blast
  have ok: "f k = [] \<longleftrightarrow> consistent_at now st preds clms evts k" for k
  proof -
    have "\<exists>ds. check_key now st k (filter (\<lambda>p. pred_key p = k) preds) (filter (\<lambda>c. claim_key c = k) clms)
          (filter (\<lambda>e. event_key e = k) evts) = Some ds \<and> (ds = [] \<longleftrightarrow> consistent_at now st preds clms evts k)"
      unfolding consistent_at_def by (rule check_key_exact) (use assms(1,2) in auto)
    with f show ?thesis by auto
  qed
  have "co_matchedKeys r = card {k \<in> set (co_keys r). consistent_at now st preds clms evts k}"
    unfolding r(4) ok using distinct_card [OF distinct_filter [OF r(3)], of "consistent_at now st preds clms evts"] by simp
  moreover have "co_discrepancies r = [] \<longleftrightarrow> (\<forall>k \<in> set (co_keys r). consistent_at now st preds clms evts k)" using ok by (simp add: r(5))
  moreover have "length (co_keys r) = card (set (co_keys r))" using distinct_card [OF r(3)] by simp
  ultimately show ?thesis using r(1,2) kind_counts_sum [of "co_discrepancies r"] by blast
qed

theorem payout_exact_witness:
  "let p = \<lparr>rp_id = ''p1'', rp_userId = ''u1'', rp_stellarAddress = ''GA'', rp_marketId = ''m'', rp_amount = ''5'', rp_status = ''confirmed'',
      rp_result = Some ''won'', rp_claimTxHash = Some ''t'', rp_createdAt = 0\<rparr>;
     c = \<lparr>rc_id = ''c1'', rc_userId = ''u1'', rc_stellarAddress = Some ''GA'', rc_marketId = ''m'', rc_amount = ''10.5'', rc_status = Settled,
      rc_settlementTx = Some ''t'', rc_createdAt = 1\<rparr>;
     e = \<lparr>ce_id = None, ce_txHash = ''t'', ce_ledger = None, ce_marketId = ''m'', ce_userAddress = ''GA'', ce_amount = ''10.50'', ce_createdAt = 2\<rparr>
   in \<exists>r. reconcile_core 9 1 [p] [c] [e] = Some r \<and> co_matchedKeys r = card {k \<in> set (co_keys r). consistent_at 9 1 [p] [c] [e] k}
     \<and> set (co_keys r) = {''GA::m''} \<and> (co_discrepancies r = [] \<longleftrightarrow> consistent_at 9 1 [p] [c] [e] ''GA::m'')
     \<and> consistent_at 9 1 [p] [c] [e] ''GA::m''"
proof -
  let ?p = "\<lparr>rp_id = ''p1'', rp_userId = ''u1'', rp_stellarAddress = ''GA'', rp_marketId = ''m'', rp_amount = ''5'', rp_status = ''confirmed'',
      rp_result = Some ''won'', rp_claimTxHash = Some ''t'', rp_createdAt = 0\<rparr>"
  let ?c = "\<lparr>rc_id = ''c1'', rc_userId = ''u1'', rc_stellarAddress = Some ''GA'', rc_marketId = ''m'', rc_amount = ''10.5'', rc_status = Settled,
      rc_settlementTx = Some ''t'', rc_createdAt = 1\<rparr>"
  let ?e = "\<lparr>ce_id = None, ce_txHash = ''t'', ce_ledger = None, ce_marketId = ''m'', ce_userAddress = ''GA'', ce_amount = ''10.50'', ce_createdAt = 2\<rparr>"
  have digits: "bigint_of_string s = map_option int (digits_value 10 0 s)" if "s = ''10'' \<or> s = ''5000000''" for s
    by (rule bigint_of_digits) (use that in \<open>auto simp: is_digit_def\<close>)
  have nums: "bigint_of_string ''10'' = Some 10" "bigint_of_string ''5000000'' = Some 5000000"
    by (subst digits, blast, simp add: digit_value_def)+
  have amts: "parseExactStroops (Some ''10.5'') = Some 105000000" "parseExactStroops (Some ''10.50'') = Some 105000000"
    by (simp_all add: parseExactStroops_def parse_magnitude_def js_trim_def is_space_def STROOP_FACTOR_def nums)
  have keys: "pred_key ` set [?p] \<union> claim_key ` set [?c] \<union> event_key ` set [?e] = {''GA::m''}"
    by (simp add: pred_key_def claim_key_def event_key_def js_or_def)
  have "consistent_at 9 1 [?p] [?c] [?e] ''GA::m''"
    by (simp add: consistent_at_def key_consistent_def pred_key_def claim_key_def event_key_def js_or_def amts)
  moreover have "\<forall>c \<in> set [?c]. parseExactStroops (Some (rc_amount c)) \<noteq> None"
    and "\<forall>e \<in> set [?e]. parseExactStroops (Some (ce_amount e)) \<noteq> None" by (simp_all add: amts)
  moreover obtain r where "reconcile_core 9 1 [?p] [?c] [?e] = Some r" "set (co_keys r) = {''GA::m''}"
    "co_matchedKeys r = card {k \<in> set (co_keys r). consistent_at 9 1 [?p] [?c] [?e] k}"
    "co_discrepancies r = [] \<longleftrightarrow> (\<forall>k \<in> set (co_keys r). consistent_at 9 1 [?p] [?c] [?e] k)"
    using payout_exact [OF calculation(2,3), of 9 1 "[?p]"] unfolding keys by blast
  ultimately show ?thesis unfolding Let_def by (intro exI [of _ r]) simp
qed

section \<open>With the rows the indexer writes\<close>

lemma scan_keys_has:
  "scan_keys chk ks (ds, m) = Some (ds', m') \<Longrightarrow> set ds \<subseteq> set ds' \<and> (\<forall>k \<in> set ks. \<exists>l. chk k = Some l \<and> set l \<subseteq> set ds')"
proof (induction ks arbitrary: ds m)
  case (Cons k ks)
  then obtain l where l: "chk k = Some l" by (auto split: option.splits)
  with Cons.prems Cons.IH [of "ds @ l"] show ?case by auto
qed simp

lemma reconcile_core_has:
  assumes "reconcile_core now st preds clms evts = Some r"
    and "k \<in> pred_key ` set preds \<union> claim_key ` set clms \<union> event_key ` set evts"
  shows "\<exists>l. check_key now st k (filter (\<lambda>p. pred_key p = k) preds) (filter (\<lambda>c. claim_key c = k) clms)
      (filter (\<lambda>e. event_key e = k) evts) = Some l \<and> set l \<subseteq> set (co_discrepancies r)"
proof -
  let ?keys = "sort_strings (js_unique (map pred_key preds @ map claim_key clms @ map event_key evts))"
  let ?chk = "\<lambda>k. check_key now st k (filter (\<lambda>p. pred_key p = k) preds) (filter (\<lambda>c. claim_key c = k) clms)
     (filter (\<lambda>e. event_key e = k) evts)"
  have e: "entries_of (group_by key xs []) k = filter (\<lambda>x. key x = k) xs" for key :: "'z \<Rightarrow> string" and xs k
    by (simp add: entries_of_group_by) (simp add: entries_of_def)
  from assms(1) obtain ds m where "scan_keys ?chk ?keys ([], 0) = Some (ds, m)" "co_discrepancies r = ds"
    by (auto simp: reconcile_core_def Let_def e scan_batches_concat concat_batches BATCH_SIZE_def)
  moreover have "k \<in> set ?keys" using assms(2) by auto
  ultimately show ?thesis using scan_keys_has by blast
qed

definition indexed_claims :: "indexer_event_row table \<Rightarrow> bool" where
  "indexed_claims events \<longleftrightarrow> (\<forall>r \<in> set events. ie_eventType r = ''win_clm'' \<longrightarrow>
     (\<exists>m f. ie_data r = Some (eventDataOf (Decoded win_clm m (WinningsClaimed f)))))"

lemma indexed_claim_no_user:
  assumes "indexed_claims events" and "e \<in> set (getClaimEvents since until events)"
  shows "ce_userAddress e = []"
proof -
  from assms obtain r m f where "e = claim_event_of r" "ie_data r = Some (eventDataOf (Decoded win_clm m (WinningsClaimed f)))"
    by (fastforce simp: getClaimEvents_def indexed_claims_def)
  then show ?thesis by (simp add: claim_event_of_def Let_def first_prop_def json_prop_def map_filter_simps)
qed

text \<open>The decoder stores the claiming user under \<^verbatim>\<open>user\<close>, the reconciliation reads \<^verbatim>\<open>userAddress\<close>. So when the event
  rows are those the indexer writes, every paid or settled claim is reported missing on the chain and every claim event is
  reported missing in the database, also when they are the two sides of one payout.\<close>

lemma decoded_claim_never_matches:
  assumes "indexed_claims events" and "\<forall>u \<in> set (db_users db). u_stellarAddress u \<noteq> [] \<and> hd (u_stellarAddress u) \<noteq> CHR '':''"
    and "reconcile_core now st (select_predictions since until db) (select_claims since until db) (getClaimEvents since until events) = Some r"
    and "c \<in> set (db_claims db)" and "c_status c = Paid \<or> c_status c = Settled" and "in_window since until (c_createdAt c)"
    and "u \<in> set (db_users db)" and "u_id u = c_userId c"
    and "ev \<in> set events" and "ie_eventType ev = ''win_clm''" and "ie_canonical ev" and "in_window since until (ie_createdAt ev)"
  shows "(\<exists>d \<in> set (co_discrepancies r). pd_kind d = DbPaidMissingOnChain \<and> pd_claimId d = Some (c_id c))
    \<and> (\<exists>d \<in> set (co_discrepancies r). pd_kind d = ClaimedOnChainMissingInDb \<and> pd_txHash d = Some (ie_txHash ev))"
proof -
  let ?clms = "select_claims since until db" and ?evts = "getClaimEvents since until events"
  have colon: "claim_key x \<noteq> event_key e" if x: "x \<in> set ?clms" and e: "e \<in> set ?evts" for x e
  proof -
    from x obtain v where v: "v \<in> set (db_users db)" "rc_stellarAddress x = Some (u_stellarAddress v)"
      by (auto simp: select_claims_def)
    with assms(2) obtain a as where "u_stellarAddress v = a # as" "a \<noteq> CHR '':''" by (cases "u_stellarAddress v") auto
    with v(2) indexed_claim_no_user [OF assms(1) e] show ?thesis by (simp add: claim_key_def event_key_def js_or_def)
  qed
  obtain x where x: "x \<in> set ?clms" "rc_id x = c_id c" "rc_status x = c_status c"
    using assms(4,6,7,8) by (fastforce simp: select_claims_def)
  obtain e where e: "e \<in> set ?evts" "ce_txHash e = ie_txHash ev"
    using assms(9-12) by (fastforce simp: getClaimEvents_def claim_event_of_def Let_def)
  let ?k = "claim_key x" and ?j = "event_key e"
  have none: "filter (\<lambda>e. event_key e = ?k) ?evts = []" "filter (\<lambda>c. claim_key c = ?j) ?clms = []"
    using colon x(1) e(1) by (auto simp: filter_empty_conv) metis+
  obtain l where l: "check_key now st ?k (filter (\<lambda>p. pred_key p = ?k) (select_predictions since until db))
      (filter (\<lambda>c. claim_key c = ?k) ?clms) [] = Some l" "set l \<subseteq> set (co_discrepancies r)"
    using reconcile_core_has [OF assms(3), of ?k] x(1) unfolding none by blast
  obtain l' where l': "check_key now st ?j (filter (\<lambda>p. pred_key p = ?j) (select_predictions since until db))
      [] (filter (\<lambda>e. event_key e = ?j) ?evts) = Some l'" "set l' \<subseteq> set (co_discrepancies r)"
    using reconcile_core_has [OF assms(3), of ?j] e(1) unfolding none by blast
  have "\<exists>d \<in> set l. pd_kind d = DbPaidMissingOnChain \<and> pd_claimId d = Some (c_id c)"
  proof -
    obtain a m where k: "key_parts ?k = (a, m)" by fastforce
    let ?d = "(empty_discrepancy DbPaidMissingOnChain a m)
      \<lparr>pd_claimId := Some (rc_id x), pd_dbAmount := Some (rc_amount x), pd_details := Some (SettlementDetails (rc_settlementTx x))\<rparr>"
    have "x \<in> set (filter (\<lambda>c. rc_status c = Paid \<or> rc_status c = Settled) (filter (\<lambda>c. claim_key c = ?k) ?clms))"
      using x assms(5) by simp
    then have "?d \<in> set (check_missing_on_chain a m (filter (\<lambda>c. claim_key c = ?k) ?clms) [])"
      unfolding check_missing_on_chain_def by (simp only: simp_thms if_True set_map) (erule imageI)
    with l(1) have "?d \<in> set l" by (auto simp: check_key_def k check_amount_def split: list.splits)
    moreover have "pd_kind ?d = DbPaidMissingOnChain \<and> pd_claimId ?d = Some (c_id c)" by (simp add: empty_discrepancy_def x(2))
    ultimately show ?thesis by blast
  qed
  moreover have "\<exists>d \<in> set l'. pd_kind d = ClaimedOnChainMissingInDb \<and> pd_txHash d = Some (ie_txHash ev)"
  proof -
    obtain a m where k: "key_parts ?j = (a, m)" by fastforce
    let ?d = "(empty_discrepancy ClaimedOnChainMissingInDb a m)
      \<lparr>pd_txHash := Some (ce_txHash e), pd_onChainAmount := Some (ce_amount e), pd_details := Some (LedgerDetails (ce_ledger e))\<rparr>"
    have m: "e \<in> set (filter (\<lambda>e. event_key e = ?j) ?evts)" using e(1) by simp
    then have "filter (\<lambda>e. event_key e = ?j) ?evts \<noteq> []" by (metis empty_iff empty_set)
    with m have "?d \<in> set (check_missing_in_db a m [] (filter (\<lambda>e. event_key e = ?j) ?evts))"
      unfolding check_missing_in_db_def by (simp only: simp_thms if_True set_map) (erule imageI)
    with l'(1) have "?d \<in> set l'" by (auto simp: check_key_def k check_amount_def split: list.splits)
    moreover have "pd_kind ?d = ClaimedOnChainMissingInDb \<and> pd_txHash ?d = Some (ie_txHash ev)" by (simp add: empty_discrepancy_def e(2))
    ultimately show ?thesis by blast
  qed
  ultimately show ?thesis using l(2) l'(2) by blast
qed

lemma decoded_claim_never_matches_witness:
  "\<exists>db events r u c ev. u \<in> set (db_users db) \<and> c \<in> set (db_claims db) \<and> ev \<in> set events
    \<and> ie_data ev = Some (eventDataOf (Decoded win_clm ''m'' (WinningsClaimed
        \<lparr>wc_user = u_stellarAddress u, wc_amount = c_amount c, wc_nonce = ''1'', wc_timestamp = ''1''\<rparr>)))
    \<and> c_userId c = u_id u \<and> ie_marketId ev = Some (c_marketId c)
    \<and> reconcile_core 9 1 (select_predictions None None db) (select_claims None None db) (getClaimEvents None None events) = Some r
    \<and> (\<exists>d \<in> set (co_discrepancies r). pd_kind d = DbPaidMissingOnChain \<and> pd_claimId d = Some (c_id c))
    \<and> (\<exists>d \<in> set (co_discrepancies r). pd_kind d = ClaimedOnChainMissingInDb \<and> pd_txHash d = Some (ie_txHash ev))"
proof -
  let ?c = "\<lparr>c_id = ''c1'', c_userId = ''u1'', c_marketId = ''m'', c_amount = ''10'', c_status = Settled, c_settlementTx = Some ''t'',
     c_claimNonce = None, c_expectedTxHash = None, c_preparedXdr = None, c_expiresAt = None, c_errorCode = None, c_createdAt = 1,
     c_settleAttempts = 1, c_nextSettleAttemptAt = None, c_settledAt = Some 2\<rparr> :: claim_row"
  let ?u = "\<lparr>u_id = ''u1'', u_stellarAddress = ''GA'', u_createdAt = 0\<rparr> :: user_row"
  let ?db = "\<lparr>db_users = [?u], db_markets = [], db_predictions = [], db_claims = [?c]\<rparr> :: app_db"
  let ?f = "\<lparr>wc_user = ''GA'', wc_amount = ''10'', wc_nonce = ''1'', wc_timestamp = ''1''\<rparr>"
  let ?ev = "\<lparr>ie_id = ''e'', ie_ledger = 7, ie_txHash = ''t'', ie_txApplicationOrder = 0, ie_opIndex = 0, ie_eventIndex = 0,
     ie_eventType = ''win_clm'', ie_createdAt = 2, ie_marketId = Some ''m'', ie_data = Some (eventDataOf (Decoded win_clm ''m'' (WinningsClaimed ?f))),
     ie_canonical = True\<rparr>"
  have "bigint_of_string ''10'' = map_option int (digits_value 10 0 ''10'')" by (rule bigint_of_digits) (auto simp: is_digit_def)
  then have ten: "bigint_of_string ''10'' = Some 10" by (simp add: digit_value_def)
  have "bigint_of_string ''0000000'' = map_option int (digits_value 10 0 ''0000000'')" by (rule bigint_of_digits) (auto simp: is_digit_def)
  then have zero: "bigint_of_string ''0000000'' = Some 0" by (simp add: digit_value_def)
  have amt: "parseExactStroops (Some ''10'') = Some 100000000"
    by (simp add: parseExactStroops_def parse_magnitude_def js_trim_def is_space_def STROOP_FACTOR_def ten zero)
  have w: "in_window None None t" for t by (simp add: in_window_def)
  have "\<forall>c \<in> set (select_claims None None ?db). parseExactStroops (Some (rc_amount c)) \<noteq> None"
    by (simp add: select_claims_def w amt)
  moreover have "\<forall>e \<in> set (getClaimEvents None None [?ev]). parseExactStroops (Some (ce_amount e)) \<noteq> None"
    by (simp add: getClaimEvents_def w claim_event_of_def first_prop_def json_prop_def map_filter_simps amt)
  ultimately obtain r where r: "reconcile_core 9 1 (select_predictions None None ?db) (select_claims None None ?db)
      (getClaimEvents None None [?ev]) = Some r" using reconcile_core_spec by blast
  have ix: "indexed_claims [?ev]" unfolding indexed_claims_def by (simp del: eventDataOf.simps) blast
  have us: "\<forall>u \<in> set (db_users ?db). u_stellarAddress u \<noteq> [] \<and> hd (u_stellarAddress u) \<noteq> CHR '':''" by simp
  have "(\<exists>d \<in> set (co_discrepancies r). pd_kind d = DbPaidMissingOnChain \<and> pd_claimId d = Some (c_id ?c))
    \<and> (\<exists>d \<in> set (co_discrepancies r). pd_kind d = ClaimedOnChainMissingInDb \<and> pd_txHash d = Some (ie_txHash ?ev))"
    by (rule decoded_claim_never_matches [OF ix us r, of ?c ?u ?ev]) (simp_all add: w)
  with r show ?thesis
    by (intro exI [of _ ?db] exI [of _ "[?ev]"] exI [of _ r] exI [of _ ?u] exI [of _ ?c] exI [of _ ?ev]) (simp del: eventDataOf.simps)
qed

end
