(* ===== verification/Reconciliation_Reports.thy ===== *)
theory Reconciliation_Reports
  imports Payout_Reconciliation
begin

text \<open>
  The stored reports of \<^verbatim>\<open>src/services/reconciliationService.ts\<close>. Persisting is three statements (look the
  fingerprint up, insert the report, insert its discrepancies) that runs of several workers interleave; any of them may
  fail, which the code catches and logs.

  \<^item> \<open>report_rows_complete\<close>: a fingerprint has one report, and a report has all of its discrepancies or none.
  \<^item> \<open>lost_insert_dangling\<close>: the run that loses the race for a fingerprint answers with the id of no report.
  \<^item> \<open>report_roundtrip\<close>: a persisted result is read back as it was.
  \<^item> \<open>report_pages\<close>: following the cursor gives consecutive slices when no two reports share a millisecond.
\<close>

section \<open>Reports\<close>

datatype report_status = ReportOk | DiscrepanciesFound

record recon_result =
  re_reportId :: string
  re_fingerprint :: string
  re_status :: report_status
  re_since :: "time option"
  re_until :: "time option"
  re_totalKeys :: nat
  re_matchedKeys :: nat
  re_unmatchedKeys :: int
  re_discrepancyCount :: nat
  re_summary :: "(discrepancy_kind \<times> nat) list"
  re_discrepancies :: "payout_discrepancy list"
  re_createdAt :: time

record report_row =
  rr_id :: string
  rr_fingerprint :: string
  rr_status :: report_status
  rr_since :: "time option"
  rr_until :: "time option"
  rr_totalKeys :: nat
  rr_matchedKeys :: nat
  rr_unmatchedKeys :: int
  rr_discrepancyCount :: nat
  rr_summary :: "(discrepancy_kind \<times> nat) list"
  rr_createdAt :: int

record discrepancy_row =
  dr_reportId :: string
  dr_discrepancy :: payout_discrepancy

record report_db =
  rd_reports :: "report_row table"
  rd_discrepancies :: "discrepancy_row table"

fun kind_text :: "discrepancy_kind \<Rightarrow> string" where
  "kind_text ClaimedOnChainMissingInDb = ''claimed_on_chain_missing_in_db''"
| "kind_text DbPaidMissingOnChain = ''db_paid_missing_on_chain''"
| "kind_text AmountMismatch = ''amount_mismatch''"
| "kind_text ClaimForLosingPrediction = ''claim_for_losing_prediction''"
| "kind_text DuplicateOnChainClaim = ''duplicate_on_chain_claim''"
| "kind_text StaleUnclaimed = ''stale_unclaimed''"

definition empty_if_none :: "string option \<Rightarrow> string" where
  "empty_if_none x = (case x of None \<Rightarrow> '''' | Some s \<Rightarrow> s)"

definition compare_discrepancies :: "(string \<Rightarrow> string \<Rightarrow> int) \<Rightarrow> payout_discrepancy \<Rightarrow> payout_discrepancy \<Rightarrow> int" where
  "compare_discrepancies lc a b =
    (let m = lc (pd_marketId a) (pd_marketId b) in if m \<noteq> 0 then m else
     let s = lc (empty_if_none (pd_stellarAddress a)) (empty_if_none (pd_stellarAddress b)) in if s \<noteq> 0 then s else
     let k = lc (kind_text (pd_kind a)) (kind_text (pd_kind b)) in if k \<noteq> 0 then k else
     lc (empty_if_none (pd_txHash a)) (empty_if_none (pd_txHash b)))"

type_synonym fingerprint_json =
  "string \<times> string \<times> string option \<times> string option \<times> string option \<times> string option \<times> string option \<times> string option \<times> string option"

definition fingerprint_item :: "payout_discrepancy \<Rightarrow> fingerprint_json" where
  "fingerprint_item d = (kind_text (pd_kind d), pd_marketId d, pd_stellarAddress d, pd_predictionId d, pd_claimId d,
     pd_txHash d, pd_difference d, pd_dbAmount d, pd_onChainAmount d)"

type_synonym sha_json = "time option \<times> time option \<times> fingerprint_json list \<Rightarrow> string"

definition computeReportFingerprint ::
  "sha_json \<Rightarrow> (string \<Rightarrow> string \<Rightarrow> int) \<Rightarrow> time option \<Rightarrow> time option \<Rightarrow> payout_discrepancy list \<Rightarrow> string" where
  "computeReportFingerprint sha lc since until ds =
     sha (since, until, map fingerprint_item (js_sort (compare_discrepancies lc) ds))"

section \<open>Persisting\<close>

datatype persist_pc = PSelect | PInsert | PRows | PDone

record persist_run =
  ru_pc :: persist_pc
  ru_newId :: string
  ru_reportId :: string
  ru_warned :: bool
  ru_result :: recon_result

definition report_of :: "string \<Rightarrow> int \<Rightarrow> recon_result \<Rightarrow> report_row" where
  "report_of i created r = \<lparr>rr_id = i, rr_fingerprint = re_fingerprint r, rr_status = re_status r, rr_since = re_since r,
     rr_until = re_until r, rr_totalKeys = re_totalKeys r, rr_matchedKeys = re_matchedKeys r,
     rr_unmatchedKeys = int (re_totalKeys r) - int (re_matchedKeys r), rr_discrepancyCount = length (re_discrepancies r),
     rr_summary = re_summary r, rr_createdAt = created\<rparr>"

definition persist_step :: "int \<Rightarrow> persist_run \<times> report_db \<Rightarrow> persist_run \<times> report_db" where
  "persist_step created s = (case s of (u, db) \<Rightarrow> (case ru_pc u of
     PSelect \<Rightarrow> (case select_first (\<lambda>r. rr_fingerprint r = re_fingerprint (ru_result u)) (rd_reports db) of
         Some r \<Rightarrow> (u\<lparr>ru_reportId := rr_id r, ru_pc := PDone\<rparr>, db)
       | None \<Rightarrow> (u\<lparr>ru_pc := PInsert\<rparr>, db))
   | PInsert \<Rightarrow>
       if list_ex (\<lambda>r. rr_fingerprint r = re_fingerprint (ru_result u)) (rd_reports db) then (u\<lparr>ru_pc := PDone\<rparr>, db)
       else (u\<lparr>ru_pc := (if re_discrepancies (ru_result u) = [] then PDone else PRows)\<rparr>,
             db\<lparr>rd_reports := rd_reports db @ [report_of (ru_reportId u) created (ru_result u)]\<rparr>)
   | PRows \<Rightarrow> (u\<lparr>ru_pc := PDone\<rparr>, db\<lparr>rd_discrepancies := rd_discrepancies db
       @ map (\<lambda>d. \<lparr>dr_reportId = ru_reportId u, dr_discrepancy = d\<rparr>) (re_discrepancies (ru_result u))\<rparr>)
   | PDone \<Rightarrow> (u, db)))"

definition persist_fail :: "persist_run \<Rightarrow> persist_run" where
  "persist_fail u = (if ru_pc u = PDone then u else u\<lparr>ru_pc := PDone, ru_warned := True\<rparr>)"

definition start_run :: "string \<Rightarrow> recon_result \<Rightarrow> persist_run" where
  "start_run i r = \<lparr>ru_pc = PSelect, ru_newId = i, ru_reportId = i, ru_warned = False, ru_result = r\<rparr>"

text \<open>A persist call alone: three statements are the longest path.\<close>

definition persist_report :: "int \<Rightarrow> string \<Rightarrow> recon_result \<Rightarrow> report_db \<Rightarrow> recon_result \<times> report_db" where
  "persist_report created i r db =
    (case (persist_step created ^^ 3) (start_run i r, db) of (u, db1) \<Rightarrow> (r\<lparr>re_reportId := ru_reportId u\<rparr>, db1))"

record recon_options =
  ro_since :: "time option"
  ro_until :: "time option"
  ro_staleThresholdDays :: "int option"
  ro_predictionsFixture :: "recon_prediction list option"
  ro_claimsFixture :: "recon_claim list option"
  ro_eventsFixture :: "claim_event list option"
  ro_persist :: "bool option"

text \<open>With a database: the selected rows or the fixtures, the checks, the fingerprint and the stored report.\<close>

definition performReconciliation ::
  "sha_json \<Rightarrow> (string \<Rightarrow> string \<Rightarrow> int) \<Rightarrow> recon_options \<Rightarrow> time \<Rightarrow> int \<Rightarrow> string \<Rightarrow> app_db \<Rightarrow> indexer_event_row table \<Rightarrow> report_db
    \<Rightarrow> report_db \<times> recon_result option" where
  "performReconciliation sha lc opts now created newId db events rdb =
    (let since = ro_since opts; until = ro_until opts;
         staleMs = (case ro_staleThresholdDays opts of None \<Rightarrow> 7 | Some d \<Rightarrow> d) * DAY_MS;
         preds = (case ro_predictionsFixture opts of Some ps \<Rightarrow> ps | None \<Rightarrow> select_predictions since until db);
         clms = (case ro_claimsFixture opts of Some cs \<Rightarrow> cs | None \<Rightarrow> select_claims since until db);
         evts = (case ro_eventsFixture opts of Some es \<Rightarrow> es | None \<Rightarrow> getClaimEvents since until events)
     in (case reconcile_core now staleMs preds clms evts of
           None \<Rightarrow> (rdb, None)
         | Some c \<Rightarrow>
             (let ds = co_discrepancies c;
                  r = \<lparr>re_reportId = newId, re_fingerprint = computeReportFingerprint sha lc since until ds,
                       re_status = (if ds = [] then ReportOk else DiscrepanciesFound), re_since = since, re_until = until,
                       re_totalKeys = length (co_keys c), re_matchedKeys = co_matchedKeys c,
                       re_unmatchedKeys = int (length (co_keys c)) - int (co_matchedKeys c), re_discrepancyCount = length ds,
                       re_summary = map (\<lambda>k. (k, kind_counts ds k)) [ClaimedOnChainMissingInDb, DbPaidMissingOnChain, AmountMismatch,
                         ClaimForLosingPrediction, DuplicateOnChainClaim, StaleUnclaimed],
                       re_discrepancies = ds, re_createdAt = now\<rparr>;
                  shouldPersist = (case ro_persist opts of Some b \<Rightarrow> b | None \<Rightarrow> ro_predictionsFixture opts = None)
              in if shouldPersist then (case persist_report created newId r rdb of (r1, rdb1) \<Rightarrow> (rdb1, Some r1))
                 else (rdb, Some r))))"

section \<open>Reading\<close>

definition js_date :: "int \<Rightarrow> time" where "js_date micros = micros div 1000"

definition getReconciliationReport :: "string \<Rightarrow> report_db \<Rightarrow> recon_result option" where
  "getReconciliationReport reportId db = map_option
     (\<lambda>r. \<lparr>re_reportId = rr_id r, re_fingerprint = rr_fingerprint r, re_status = rr_status r, re_since = rr_since r,
        re_until = rr_until r, re_totalKeys = rr_totalKeys r, re_matchedKeys = rr_matchedKeys r,
        re_unmatchedKeys = rr_unmatchedKeys r, re_discrepancyCount = rr_discrepancyCount r, re_summary = rr_summary r,
        re_discrepancies = map dr_discrepancy (filter (\<lambda>d. dr_reportId d = reportId) (rd_discrepancies db)),
        re_createdAt = js_date (rr_createdAt r)\<rparr>)
     (row_by rr_id (rd_reports db) reportId)"

text \<open>The cursor is the base64 text of the ISO date and the id; \<open>encode\<close> and \<open>decode\<close> stand for that library code:
  \<open>decode\<close> gives \<open>None\<close> for a text without a date part and an id part, which is ignored, and no date for a date part that
  is not one, with which the query fails and the list is empty. The order is newest first, then by descending id.\<close>

definition report_before :: "report_row \<Rightarrow> report_row \<Rightarrow> bool" where
  "report_before a b \<longleftrightarrow> rr_createdAt b < rr_createdAt a
     \<or> rr_createdAt a = rr_createdAt b \<and> \<not> string_less_eq (rr_id a) (rr_id b)"

definition sort_reports :: "report_row list \<Rightarrow> report_row list" where
  "sort_reports rs = js_sort (\<lambda>a b. if report_before b a then 1 else 0) rs"

definition clamp_limit :: "int option \<Rightarrow> nat" where
  "clamp_limit limit = nat (min (max (case limit of None \<Rightarrow> 10 | Some l \<Rightarrow> l) 1) 100)"

definition after_cursor :: "time \<times> string \<Rightarrow> report_row \<Rightarrow> bool" where
  "after_cursor c r \<longleftrightarrow> rr_createdAt r < fst c * 1000
     \<or> rr_createdAt r = fst c * 1000 \<and> \<not> string_less_eq (snd c) (rr_id r)"

definition page_of :: "(time \<times> string \<Rightarrow> string) \<Rightarrow> nat \<Rightarrow> report_row list \<Rightarrow> report_row list \<times> string option" where
  "page_of encode n rows =
    (let hasMore = n < length rows;
         pageRows = (if hasMore then take n rows else rows);
         nextCursor = (if hasMore \<and> pageRows \<noteq> [] then
            Some (encode (js_date (rr_createdAt (last pageRows)), rr_id (last pageRows))) else None)
     in (pageRows, nextCursor))"

definition listReconciliationReports ::
  "(time \<times> string \<Rightarrow> string) \<Rightarrow> (string \<Rightarrow> (time option \<times> string) option) \<Rightarrow> int option \<Rightarrow> string option \<Rightarrow> report_db
    \<Rightarrow> report_row list \<times> string option" where
  "listReconciliationReports encode decode limit cursor db =
    (let n = clamp_limit limit;
         query = (\<lambda>cond. page_of encode n (take (n + 1) (sort_reports (filter cond (rd_reports db)))))
     in (case cursor of
           None \<Rightarrow> query (\<lambda>_. True)
         | Some c \<Rightarrow> if c = [] then query (\<lambda>_. True)
             else (case decode c of
                None \<Rightarrow> query (\<lambda>_. True)
              | Some (None, _) \<Rightarrow> ([], None)
              | Some (Some t, i) \<Rightarrow> query (after_cursor (t, i)))))"

section \<open>Concurrent runs\<close>

type_synonym persist_system = "report_db \<times> persist_run list"

definition rows_of :: "report_db \<Rightarrow> string \<Rightarrow> payout_discrepancy list" where
  "rows_of db i = map dr_discrepancy (filter (\<lambda>d. dr_reportId d = i) (rd_discrepancies db))"

definition report_ids :: "report_db \<Rightarrow> string set" where
  "report_ids db = rr_id ` set (rd_reports db)"

inductive persist_sys :: "persist_system \<Rightarrow> persist_system \<Rightarrow> bool" where
  started: "i \<notin> ru_newId ` set us \<Longrightarrow> i \<notin> report_ids db \<Longrightarrow> persist_sys (db, us) (db, us @ [start_run i r])"
| stepped: "n < length us \<Longrightarrow> persist_step created (us ! n, db) = (u, db') \<Longrightarrow> persist_sys (db, us) (db', us[n := u])"
| failed: "n < length us \<Longrightarrow> persist_sys (db, us) (db, us[n := persist_fail (us ! n)])"

definition run_ok :: "report_db \<Rightarrow> persist_run \<Rightarrow> bool" where
  "run_ok db u \<longleftrightarrow>
     (ru_pc u \<in> {PSelect, PInsert} \<longrightarrow> ru_newId u \<notin> report_ids db \<and> ru_reportId u = ru_newId u)
   \<and> (ru_pc u = PRows \<longrightarrow> rows_of db (ru_newId u) = [] \<and> ru_reportId u = ru_newId u
        \<and> (\<exists>r \<in> set (rd_reports db). rr_id r = ru_newId u \<and> rr_discrepancyCount r = length (re_discrepancies (ru_result u))))
   \<and> (ru_pc u = PDone \<and> \<not> ru_warned u \<and> ru_newId u \<in> report_ids db \<longrightarrow>
        rows_of db (ru_newId u) = re_discrepancies (ru_result u))"

definition reports_ok :: "report_db \<Rightarrow> bool" where
  "reports_ok db \<longleftrightarrow> key_unique rr_fingerprint (rd_reports db) \<and> key_unique rr_id (rd_reports db)
     \<and> dr_reportId ` set (rd_discrepancies db) \<subseteq> report_ids db
     \<and> (\<forall>r \<in> set (rd_reports db). rows_of db (rr_id r) = [] \<or> length (rows_of db (rr_id r)) = rr_discrepancyCount r)"

definition persist_ok :: "persist_system \<Rightarrow> bool" where
  "persist_ok s \<longleftrightarrow> (case s of (db, us) \<Rightarrow> reports_ok db \<and> distinct (map ru_newId us) \<and> (\<forall>u \<in> set us. run_ok db u))"

lemma run_ok_frame:
  assumes "run_ok db v" and "rows_of db' (ru_newId v) = rows_of db (ru_newId v)"
    and "ru_newId v \<in> report_ids db' \<longleftrightarrow> ru_newId v \<in> report_ids db" and "set (rd_reports db) \<subseteq> set (rd_reports db')"
  shows "run_ok db' v"
  using assms(1,4) unfolding run_ok_def assms(2,3) by blast

lemma rows_of_absent: "reports_ok db \<Longrightarrow> i \<notin> report_ids db \<Longrightarrow> rows_of db i = []"
  by (force simp: reports_ok_def rows_of_def filter_empty_conv)

text \<open>One step of a run: what it does to its own part, and that it leaves the part of every other run alone.\<close>

lemma persist_step_ok:
  assumes ok: "reports_ok db" and u: "run_ok db u" and s: "persist_step created (u, db) = (u', db')"
  shows "reports_ok db' \<and> run_ok db' u' \<and> ru_newId u' = ru_newId u \<and> set (rd_reports db) \<subseteq> set (rd_reports db')
    \<and> (\<forall>i. i \<noteq> ru_newId u \<longrightarrow> rows_of db' i = rows_of db i \<and> (i \<in> report_ids db' \<longleftrightarrow> i \<in> report_ids db))"
proof (cases "ru_pc u")
  case PSelect
  with s ok u show ?thesis by (auto simp: persist_step_def run_ok_def split: option.splits)
next
  case PDone
  with s ok u show ?thesis by (simp add: persist_step_def)
next
  case PInsert
  show ?thesis
  proof (cases "list_ex (\<lambda>r. rr_fingerprint r = re_fingerprint (ru_result u)) (rd_reports db)")
    case True
    with s ok u PInsert show ?thesis by (auto simp: persist_step_def run_ok_def)
  next
    case False
    let ?r = "report_of (ru_reportId u) created (ru_result u)"
    from False s PInsert have u': "u' = u\<lparr>ru_pc := (if re_discrepancies (ru_result u) = [] then PDone else PRows)\<rparr>"
      and db': "db' = db\<lparr>rd_reports := rd_reports db @ [?r]\<rparr>" by (simp_all add: persist_step_def)
    have fresh: "ru_newId u \<notin> report_ids db" "ru_reportId u = ru_newId u" using u PInsert by (simp_all add: run_ok_def)
    have none: "rows_of db (ru_newId u) = []" using rows_of_absent [OF ok fresh(1)] .
    have rows: "rows_of db' i = rows_of db i" for i by (simp add: rows_of_def db')
    have ids: "report_ids db' = insert (ru_newId u) (report_ids db)" by (simp add: report_ids_def db' report_of_def fresh(2))
    have "reports_ok db'"
      using ok False fresh none unfolding reports_ok_def
      by (auto simp: db' key_unique_snoc report_of_def rows_of_def report_ids_def list_ex_iff)
    moreover have "run_ok db' u'"
      using none by (auto simp: run_ok_def u' rows ids fresh(2)) (simp add: db' report_of_def fresh(2))
    ultimately show ?thesis using rows ids by (auto simp: u' db')
  qed
next
  case PRows
  let ?ds = "re_discrepancies (ru_result u)"
  from s PRows have u': "u' = u\<lparr>ru_pc := PDone\<rparr>"
    and db': "db' = db\<lparr>rd_discrepancies := rd_discrepancies db @ map (\<lambda>d. \<lparr>dr_reportId = ru_reportId u, dr_discrepancy = d\<rparr>) ?ds\<rparr>"
    by (simp_all add: persist_step_def)
  obtain r where r: "rows_of db (ru_newId u) = []" "ru_reportId u = ru_newId u" "r \<in> set (rd_reports db)" "rr_id r = ru_newId u"
    "rr_discrepancyCount r = length ?ds" using u PRows by (auto simp: run_ok_def)
  have rows: "rows_of db' i = (if i = ru_newId u then ?ds else rows_of db i)" for i
    using r(1) by (auto simp: rows_of_def db' r(2) filter_map o_def)
  have ids: "report_ids db' = report_ids db" by (simp add: report_ids_def db')
  have "ru_newId u \<in> report_ids db" unfolding report_ids_def r(4) [symmetric] by (rule imageI) (rule r(3))
  have "q = r" if "q \<in> set (rd_reports db)" "rr_id q = ru_newId u" for q
    using ok r(3,4) that key_unique_eq unfolding reports_ok_def by metis
  then have "rows_of db' (rr_id q) = [] \<or> length (rows_of db' (rr_id q)) = rr_discrepancyCount q" if "q \<in> set (rd_reports db)" for q
    using ok r(5) that by (cases "rr_id q = ru_newId u") (simp_all add: rows reports_ok_def)
  moreover have "dr_reportId ` set (rd_discrepancies db') \<subseteq> report_ids db'"
    unfolding ids using ok r(2) \<open>ru_newId u \<in> report_ids db\<close> by (auto simp: reports_ok_def db')
  moreover have "rd_reports db' = rd_reports db" by (simp add: db')
  ultimately have "reports_ok db'" using ok unfolding reports_ok_def by simp
  moreover have "run_ok db' u'" using rows by (simp add: run_ok_def u')
  ultimately show ?thesis using rows ids by (simp add: u' db')
qed

lemma persist_fail_ok: "run_ok db u \<Longrightarrow> run_ok db (persist_fail u) \<and> ru_newId (persist_fail u) = ru_newId u"
  by (auto simp: persist_fail_def run_ok_def)

lemma persist_sys_ok:
  assumes "persist_ok s" and "persist_sys s t"
  shows "persist_ok t"
  using assms(2)
proof cases
  case (started i us db r)
  with assms(1) show ?thesis by (auto simp: persist_ok_def start_run_def run_ok_def)
next
  case (failed n us db)
  note f = persist_fail_ok [of db "us ! n"]
  have "run_ok db (us ! n)" using assms(1) failed by (simp add: persist_ok_def)
  with f have g: "run_ok db (persist_fail (us ! n))" "ru_newId (persist_fail (us ! n)) = ru_newId (us ! n)" by blast+
  have "map ru_newId (us[n := persist_fail (us ! n)]) = map ru_newId us"
    using failed(3) by (simp add: map_update g(2)) (metis list_update_id map_update)
  with assms(1) failed g(1) show ?thesis by (auto simp: persist_ok_def dest!: subsetD [OF set_update_subset_insert])
next
  case (stepped n us created db u db')
  have ok: "reports_ok db" "distinct (map ru_newId us)" "\<forall>u \<in> set us. run_ok db u" using assms(1) stepped(1) by (auto simp: persist_ok_def)
  have "run_ok db (us ! n)" using ok(3) stepped(3) by simp
  note p = persist_step_ok [OF ok(1) this stepped(4)]
  have ids: "map ru_newId (us[n := u]) = map ru_newId us"
    using stepped(3) p by (simp add: map_update) (metis list_update_id map_update)
  have "run_ok db' v" if v: "v \<in> set (us[n := u])" for v
  proof -
    from v obtain m where m: "m < length us" "v = us[n := u] ! m" by (auto simp: in_set_conv_nth)
    show ?thesis
    proof (cases "m = n")
      case True
      with m p show ?thesis by simp
    next
      case False
      with m have "v = us ! m" by simp
      moreover have "ru_newId (us ! m) \<noteq> ru_newId (us ! n)"
        using ok(2) m(1) stepped(3) False by (simp add: distinct_conv_nth)
      ultimately show ?thesis using p ok(3) m(1) run_ok_frame [of db v db'] by (metis nth_mem)
    qed
  qed
  with p ok(2) ids show ?thesis by (simp add: persist_ok_def stepped(2))
qed

interpretation persists: inductive_invariant "\<lambda>s. s = (\<lparr>rd_reports = [], rd_discrepancies = []\<rparr>, [])" persist_sys persist_ok
proof unfold_locales
  show "persist_ok s" if "s = (\<lparr>rd_reports = [], rd_discrepancies = []\<rparr>, [])" for s
    using that by (simp add: persist_ok_def reports_ok_def key_unique_def)
  show "persist_ok t" if "persist_ok s" "persist_sys s t" for s t using persist_sys_ok that by blast
qed

definition empty_reports :: report_db where "empty_reports = \<lparr>rd_reports = [], rd_discrepancies = []\<rparr>"

lemma reached_ok: "persist_sys\<^sup>*\<^sup>* (empty_reports, []) (db, us) \<Longrightarrow> persist_ok (db, us)"
  by (rule persists.reach_inv_star) (auto simp: empty_reports_def intro: persists.inv_init)

text \<open>C31. Whatever runs persist their reports at the same time and whichever of their statements fail, a fingerprint and
  an id have one report, a report has all of its discrepancy rows or none, no row is without a report, and a run that
  inserted its report and finished without a failure has left exactly its discrepancies.\<close>

theorem report_rows_complete:
  assumes "persist_sys\<^sup>*\<^sup>* (empty_reports, []) (db, us)"
  shows "key_unique rr_fingerprint (rd_reports db) \<and> key_unique rr_id (rd_reports db)
    \<and> (\<forall>r \<in> set (rd_reports db). rows_of db (rr_id r) = [] \<or> length (rows_of db (rr_id r)) = rr_discrepancyCount r)
    \<and> dr_reportId ` set (rd_discrepancies db) \<subseteq> report_ids db
    \<and> (\<forall>u \<in> set us. ru_pc u = PDone \<and> \<not> ru_warned u \<and> ru_newId u \<in> report_ids db \<longrightarrow>
         rows_of db (ru_newId u) = re_discrepancies (ru_result u))"
  using reached_ok [OF assms] by (auto simp: persist_ok_def reports_ok_def run_ok_def)

text \<open>When two runs find the same discrepancies at the same time, the one that looked the fingerprint up before the other
  inserted it, and inserts after it, answers with the id of no report: reading that id gives nothing.\<close>

lemma lost_insert_dangling:
  assumes "persist_sys\<^sup>*\<^sup>* (empty_reports, []) (db, us)" and "u \<in> set us" and "ru_pc u = PInsert"
    and "r \<in> set (rd_reports db)" and "rr_fingerprint r = re_fingerprint (ru_result u)"
  shows "\<exists>u'. persist_step created (u, db) = (u', db) \<and> ru_pc u' = PDone \<and> ru_warned u' = ru_warned u
    \<and> getReconciliationReport (ru_reportId u') db = None"
proof -
  have "run_ok db u" using reached_ok [OF assms(1)] assms(2) by (simp add: persist_ok_def)
  with assms(3) have "ru_reportId u \<notin> rr_id ` set (rd_reports db)" by (simp add: run_ok_def report_ids_def)
  then have "row_by rr_id (rd_reports db) (ru_reportId u) = None" by (simp add: row_by_None)
  moreover have "list_ex (\<lambda>r. rr_fingerprint r = re_fingerprint (ru_result u)) (rd_reports db)"
    using assms(4,5) by (auto simp: list_ex_iff)
  ultimately show ?thesis using assms(3) by (simp add: persist_step_def getReconciliationReport_def)
qed

text \<open>A result that is persisted without interference under a new fingerprint is read back under its id with the same
  fingerprint, status, window, counters, summary and discrepancies; only the creation time is the database's, cut to
  milliseconds.\<close>

lemma report_roundtrip:
  assumes "\<forall>q \<in> set (rd_reports db). rr_fingerprint q \<noteq> re_fingerprint r \<and> rr_id q \<noteq> i"
    and "\<forall>d \<in> set (rd_discrepancies db). dr_reportId d \<noteq> i"
    and "re_discrepancyCount r = length (re_discrepancies r)" and "re_unmatchedKeys r = int (re_totalKeys r) - int (re_matchedKeys r)"
  shows "case persist_report created i r db of (r', db') \<Rightarrow>
    re_reportId r' = i \<and> getReconciliationReport i db' = Some (r'\<lparr>re_createdAt := created div 1000\<rparr>)"
proof -
  let ?rep = "report_of i created r" and ?rows = "map (\<lambda>d. \<lparr>dr_reportId = i, dr_discrepancy = d\<rparr>) (re_discrepancies r)"
  let ?db = "db\<lparr>rd_reports := rd_reports db @ [?rep], rd_discrepancies := rd_discrepancies db @ ?rows\<rparr>"
  have none: "select_first (\<lambda>q. rr_fingerprint q = re_fingerprint r) (rd_reports db) = None"
    "\<not> list_ex (\<lambda>q. rr_fingerprint q = re_fingerprint r) (rd_reports db)"
    using assms(1) by (auto simp: table_simps list_ex_iff)
  have "persist_report created i r db = (r\<lparr>re_reportId := i\<rparr>, ?db)"
    using none by (simp add: persist_report_def numeral_3_eq_3 persist_step_def start_run_def)
  moreover have "row_by rr_id (rd_reports ?db) i = Some ?rep"
    using assms(1) by (auto simp: row_by_snoc row_by_None report_of_def split: option.split dest!: row_by_SomeD)
  moreover have "filter (\<lambda>d. dr_reportId d = i) (rd_discrepancies ?db) = ?rows"
    using assms(2) by (simp add: filter_empty_conv)
  ultimately show ?thesis
    using assms(3,4) by (simp add: getReconciliationReport_def report_of_def js_date_def o_def)
qed

definition demo_result :: recon_result where
  "demo_result = \<lparr>re_reportId = ''r'', re_fingerprint = ''fp'', re_status = DiscrepanciesFound, re_since = None, re_until = None,
     re_totalKeys = 2, re_matchedKeys = 1, re_unmatchedKeys = 1, re_discrepancyCount = 1, re_summary = [(StaleUnclaimed, 1)],
     re_discrepancies = [empty_discrepancy StaleUnclaimed ''GA'' ''m''], re_createdAt = 5\<rparr>"

text \<open>Two runs with one fingerprint: both look it up, the first inserts.\<close>

definition demo_run :: "string \<Rightarrow> persist_pc \<Rightarrow> persist_run" where
  "demo_run i p = (start_run i demo_result)\<lparr>ru_pc := p\<rparr>"

lemma demo_race:
  "persist_sys\<^sup>*\<^sup>* (empty_reports, [])
     (\<lparr>rd_reports = [report_of ''a'' 5000 demo_result], rd_discrepancies = []\<rparr>, [demo_run ''a'' PRows, demo_run ''b'' PInsert])"
proof -
  let ?db = "\<lparr>rd_reports = [report_of ''a'' 5000 demo_result], rd_discrepancies = []\<rparr>"
  have 1: "persist_sys (empty_reports, []) (empty_reports, [demo_run ''a'' PSelect])"
    using persist_sys.started [of "''a''" "[]" empty_reports demo_result] by (simp add: demo_run_def start_run_def empty_reports_def report_ids_def)
  have 2: "persist_sys (empty_reports, [demo_run ''a'' PSelect]) (empty_reports, [demo_run ''a'' PSelect, demo_run ''b'' PSelect])"
    using persist_sys.started [of "''b''" "[demo_run ''a'' PSelect]" empty_reports demo_result]
    by (simp add: demo_run_def start_run_def empty_reports_def report_ids_def)
  have 3: "persist_sys (empty_reports, [demo_run ''a'' PSelect, demo_run ''b'' PSelect])
      (empty_reports, [demo_run ''a'' PInsert, demo_run ''b'' PSelect])"
    using persist_sys.stepped [of 0 "[demo_run ''a'' PSelect, demo_run ''b'' PSelect]" 5000 empty_reports]
    by (simp add: persist_step_def demo_run_def start_run_def empty_reports_def)
  have 4: "persist_sys (empty_reports, [demo_run ''a'' PInsert, demo_run ''b'' PSelect])
      (empty_reports, [demo_run ''a'' PInsert, demo_run ''b'' PInsert])"
    using persist_sys.stepped [of 1 "[demo_run ''a'' PInsert, demo_run ''b'' PSelect]" 5000 empty_reports]
    by (simp add: persist_step_def demo_run_def start_run_def empty_reports_def)
  have 5: "persist_sys (empty_reports, [demo_run ''a'' PInsert, demo_run ''b'' PInsert])
      (?db, [demo_run ''a'' PRows, demo_run ''b'' PInsert])"
    using persist_sys.stepped [of 0 "[demo_run ''a'' PInsert, demo_run ''b'' PInsert]" 5000 empty_reports]
    by (simp add: persist_step_def demo_run_def start_run_def empty_reports_def demo_result_def)
  from 1 2 3 4 5 show ?thesis by (meson converse_rtranclp_into_rtranclp r_into_rtranclp)
qed

theorem report_rows_complete_witness:
  "\<exists>db us. persist_sys\<^sup>*\<^sup>* (empty_reports, []) (db, us) \<and> length us = 2 \<and> length (rd_reports db) = 1
    \<and> key_unique rr_fingerprint (rd_reports db) \<and> dr_reportId ` set (rd_discrepancies db) \<subseteq> report_ids db"
  using demo_race report_rows_complete [OF demo_race] by (metis One_nat_def length_Cons list.size(3) numeral_2_eq_2 report_db.select_convs(1))

lemma lost_insert_dangling_witness:
  "\<exists>u'. persist_step 6000 (demo_run ''b'' PInsert, \<lparr>rd_reports = [report_of ''a'' 5000 demo_result], rd_discrepancies = []\<rparr>)
      = (u', \<lparr>rd_reports = [report_of ''a'' 5000 demo_result], rd_discrepancies = []\<rparr>)
    \<and> ru_pc u' = PDone \<and> ru_warned u' = ru_warned (demo_run ''b'' PInsert)
    \<and> getReconciliationReport (ru_reportId u') \<lparr>rd_reports = [report_of ''a'' 5000 demo_result], rd_discrepancies = []\<rparr> = None"
  by (rule lost_insert_dangling [OF demo_race, where r = "report_of ''a'' 5000 demo_result"]) (simp_all add: demo_run_def start_run_def report_of_def)

lemma report_roundtrip_witness:
  "case persist_report 7123 ''x'' demo_result empty_reports of (r', db') \<Rightarrow>
    re_reportId r' = ''x'' \<and> getReconciliationReport ''x'' db' = Some (r'\<lparr>re_createdAt := 7123 div 1000\<rparr>)"
  by (rule report_roundtrip) (simp_all add: empty_reports_def demo_result_def)

section \<open>Pages\<close>

lemma report_le_iff:
  "\<not> report_before b a \<longleftrightarrow> rr_createdAt b < rr_createdAt a \<or> rr_createdAt b = rr_createdAt a \<and> string_less_eq (rr_id b) (rr_id a)"
  by (auto simp: report_before_def)

lemma report_order: "consistent (\<lambda>a b. if report_before b a then 1 else 0)"
proof -
  have "\<not> report_before b a \<or> \<not> report_before a b" for a b
    unfolding report_le_iff using string_le_total [of "rr_id a" "rr_id b"] by auto
  moreover have "\<not> report_before c a" if "\<not> report_before b a" "\<not> report_before c b" for a b c
    using that string_le_trans [of "rr_id c" "rr_id b" "rr_id a"] unfolding report_le_iff by auto
  moreover have "(if P then 1 else 0) \<le> (0 :: int) \<longleftrightarrow> \<not> P" for P by simp
  ultimately show ?thesis unfolding consistent_def by blast
qed

definition cursor_at :: "(time \<times> string \<Rightarrow> string) \<Rightarrow> report_row list \<Rightarrow> nat \<Rightarrow> string option" where
  "cursor_at encode S k =
    (if k = 0 then None else Some (encode (js_date (rr_createdAt (S ! (k - 1))), rr_id (S ! (k - 1)))))"

text \<open>When no two reports were created in the same millisecond, the page after the \<open>j\<close>-th report of the order newest
  first is the slice of at most the clamped limit that follows it, and its cursor, present exactly when more follow, leads
  on from its last report: walking the pages shows every report once.\<close>

lemma report_pages:
  assumes "distinct (map (\<lambda>r. js_date (rr_createdAt r)) (rd_reports db))"
    and "\<And>t i. decode (encode (t, i)) = Some (Some t, i)" and "\<And>c. encode c \<noteq> []"
    and "j \<le> length (rd_reports db)"
    and "S = sort_reports (rd_reports db)"
  shows "listReconciliationReports encode decode limit (cursor_at encode S j) db =
    (take (clamp_limit limit) (drop j S),
     if clamp_limit limit < length S - j then cursor_at encode S (j + clamp_limit limit) else None)"
proof -
  note S_def = assms(5)
  define n where "n = clamp_limit limit"
  define cur where cur_def0: "cur = cursor_at encode S"
  note cur_def = cur_def0 [THEN fun_cong, unfolded cursor_at_def]
  let ?cmp = "\<lambda>a b. if report_before b a then 1 else 0 :: int"
  have n0: "0 < n" by (simp add: n_def clamp_limit_def)
  have len: "length S = length (rd_reports db)" unfolding S_def sort_reports_def by (metis mset_js_sort size_mset)
  have d: "distinct (map (\<lambda>r. js_date (rr_createdAt r)) S)"
    unfolding S_def sort_reports_def using assms(1) by (subst distinct_map_mset [OF mset_js_sort])
  have srt: "sorted_wrt (\<lambda>a b. ?cmp a b \<le> 0) S" unfolding S_def sort_reports_def by (rule sorted_js_sort [OF report_order])
  have lt: "js_date (rr_createdAt (S ! b)) < js_date (rr_createdAt (S ! a))" if "a < b" "b < length S" for a b
  proof -
    have "\<not> report_before (S ! b) (S ! a)" using sorted_wrt_nth_less [OF srt that] by (simp split: if_splits)
    then have "rr_createdAt (S ! b) \<le> rr_createdAt (S ! a)" by (auto simp: report_before_def)
    then have "js_date (rr_createdAt (S ! b)) \<le> js_date (rr_createdAt (S ! a))" unfolding js_date_def by (rule zdiv_mono1) simp
    moreover have "js_date (rr_createdAt (S ! b)) \<noteq> js_date (rr_createdAt (S ! a))"
      using d that by (auto simp: distinct_conv_nth)
    ultimately show ?thesis by simp
  qed
  have page: "page_of encode n (take (n + 1) (drop j S)) = (take n (drop j S), if n < length S - j then cur (j + n) else None)"
  proof (cases "n < length S - j")
    case True
    then have l: "last (take n (drop j S)) = S ! (j + n - 1)" and "take n (drop j S) \<noteq> []" using n0 by (simp_all add: last_conv_nth)
    moreover have "n < length (take (n + 1) (drop j S))" "take n (take (n + 1) (drop j S)) = take n (drop j S)"
      using True by (simp_all add: take_take min_def)
    ultimately have "page_of encode n (take (n + 1) (drop j S)) =
        (take n (drop j S), Some (encode (js_date (rr_createdAt (S ! (j + n - 1))), rr_id (S ! (j + n - 1)))))"
      unfolding page_of_def Let_def by (simp only: if_True simp_thms l)
    then show ?thesis using True n0 by (simp add: cur_def)
  next
    case False
    then show ?thesis by (simp add: page_of_def Let_def)
  qed
  show ?thesis
  proof (cases "j = 0")
    case True
    with page show ?thesis
      unfolding cur_def0 n_def by (simp add: listReconciliationReports_def Let_def S_def cursor_at_def [of _ _ 0])
  next
    case False
    let ?x = "S ! (j - 1)"
    let ?P = "after_cursor (js_date (rr_createdAt ?x), rr_id ?x)"
    have cases3: "?P (S ! k) \<longleftrightarrow> j \<le> k" if k: "k < length S" for k
    proof -
      consider "k < j - 1" | "k = j - 1" | "j - 1 < k" by linarith
      then show ?thesis
      proof cases
        case 1
        with lt [of k "j - 1"] assms(4) len False have "js_date (rr_createdAt ?x) < js_date (rr_createdAt (S ! k))" by simp
        then have "js_date (rr_createdAt ?x) * 1000 < rr_createdAt (S ! k)" unfolding js_date_def by linarith
        with 1 show ?thesis by (simp add: after_cursor_def)
      next
        case 2
        have "js_date (rr_createdAt ?x) * 1000 \<le> rr_createdAt ?x" unfolding js_date_def by linarith
        moreover have "string_less_eq i i" for i using string_le_total by blast
        ultimately show ?thesis using 2 False by (simp add: after_cursor_def)
      next
        case 3
        with lt [of "j - 1" k] k have "js_date (rr_createdAt (S ! k)) < js_date (rr_createdAt ?x)" by simp
        then have "rr_createdAt (S ! k) < js_date (rr_createdAt ?x) * 1000" unfolding js_date_def by linarith
        with 3 show ?thesis by (simp add: after_cursor_def)
      qed
    qed
    have "filter ?P S = drop j S"
    proof -
      have "filter ?P (take j S) = []"
        using cases3 by (auto simp: filter_empty_conv in_set_conv_nth)
      moreover have "filter ?P (drop j S) = drop j S"
        using cases3 by (intro filter_True) (auto simp: in_set_conv_nth)
      ultimately show ?thesis by (metis append_Nil append_take_drop_id filter_append)
    qed
    then have "sort_reports (filter ?P (rd_reports db)) = drop j S"
      unfolding S_def sort_reports_def by (simp add: js_sort_filter [OF report_order])
    with page False show ?thesis
      unfolding cur_def0 n_def by (simp add: listReconciliationReports_def Let_def assms(2,3) cursor_at_def [of _ _ j])
  qed
qed

text \<open>A cursor text for the examples.\<close>

definition demo_encode :: "time \<times> string \<Rightarrow> string" where
  "demo_encode c = int_to_string (fst c) @ CHR ''|'' # snd c"

definition demo_decode :: "string \<Rightarrow> (time option \<times> string) option" where
  "demo_decode s = (let a = takeWhile (\<lambda>c. c \<noteq> CHR ''|'') s in Some (bigint_of_string a, drop (Suc (length a)) s))"

lemma demo_cursor: "demo_decode (demo_encode (t, i)) = Some (Some t, i) \<and> demo_encode c \<noteq> []"
proof -
  have "c \<noteq> CHR ''|''" if "c \<in> set (int_to_string t)" for c
  proof
    assume "c = CHR ''|''"
    with that have "CHR ''|'' \<in> set (nat_to_string (nat (- t))) \<union> set (nat_to_string (nat t))" by (auto simp: int_to_string_def split: if_splits)
    then have "is_digit CHR ''|''" using nat_to_string_digits by blast
    then show False by (simp add: is_digit_def)
  qed
  then have "takeWhile (\<lambda>c. c \<noteq> CHR ''|'') (int_to_string t @ CHR ''|'' # i) = int_to_string t" by (simp add: takeWhile_append)
  then show ?thesis by (simp add: demo_decode_def demo_encode_def Let_def)
qed

definition demo_reports :: "int list \<Rightarrow> report_db" where
  "demo_reports ts = \<lparr>rd_reports = map (\<lambda>t. report_of ''id'' t demo_result) ts, rd_discrepancies = []\<rparr>"

lemma report_pages_witness:
  "listReconciliationReports demo_encode demo_decode (Some 1)
      (cursor_at demo_encode (sort_reports (rd_reports (demo_reports [5000, 9000]))) 1) (demo_reports [5000, 9000])
    = (take (clamp_limit (Some 1)) (drop 1 (sort_reports (rd_reports (demo_reports [5000, 9000])))),
       if clamp_limit (Some 1) < length (sort_reports (rd_reports (demo_reports [5000, 9000]))) - 1
       then cursor_at demo_encode (sort_reports (rd_reports (demo_reports [5000, 9000]))) (1 + clamp_limit (Some 1)) else None)"
  by (rule report_pages) (simp_all add: demo_cursor demo_reports_def report_of_def js_date_def)

text \<open>Reports of one millisecond: the cursor cuts the time of its report, and the other report of that millisecond is on
  no page.\<close>

lemma same_millisecond_skipped:
  "fst (listReconciliationReports demo_encode demo_decode (Some 1)
     (cursor_at demo_encode (sort_reports (rd_reports (demo_reports [5200, 5700]))) 1) (demo_reports [5200, 5700])) = []"
proof -
  have "sort_reports (rd_reports (demo_reports [5200, 5700])) = [report_of ''id'' 5700 demo_result, report_of ''id'' 5200 demo_result]"
    by (simp add: sort_reports_def demo_reports_def js_sort_def report_before_def report_of_def)
  then have "cursor_at demo_encode (sort_reports (rd_reports (demo_reports [5200, 5700]))) 1 = Some (demo_encode (5, ''id''))"
    by (simp add: cursor_at_def report_of_def js_date_def)
  moreover have "filter (after_cursor (5, ''id'')) (rd_reports (demo_reports [5200, 5700])) = []"
    by (simp add: demo_reports_def after_cursor_def report_of_def)
  ultimately show ?thesis
    by (simp add: listReconciliationReports_def Let_def demo_cursor page_of_def sort_reports_def js_sort_def)
qed

end
