(* ===== verification/Signup_Anomaly.thy ===== *)
theory Signup_Anomaly
  imports Schema Indexer_Recovery Complex_Main
begin

text \<open>
  The signup flood detector, \<^verbatim>\<open>src/services/anomalyDetector.ts\<close>. Statistics are real numbers (the code uses
  doubles); a bucket is its start in milliseconds and its count. ISO dates compare like the times they print.

  \<^item> \<open>scan_counts_signups\<close>: the evaluated buckets are the last ones of the window and count every signup in them once.
  \<^item> \<open>flood_detected\<close>: a bucket far above what more than half of the baseline buckets show is reported, whatever the
    other baseline buckets hold.
  \<^item> \<open>anomaly_exact\<close>: which buckets are reported and with which triggers.
\<close>

section \<open>Constants and configuration\<close>

definition DEFAULT_BUCKET_MS :: int where "DEFAULT_BUCKET_MS = 5 * 60 * 1000"
definition DEFAULT_BASELINE_WINDOW_MS :: int where "DEFAULT_BASELINE_WINDOW_MS = 24 * 60 * 60 * 1000"
definition DEFAULT_EVALUATION_WINDOW_MS :: int where "DEFAULT_EVALUATION_WINDOW_MS = 30 * 60 * 1000"
definition DEFAULT_Z_THRESHOLD :: real where "DEFAULT_Z_THRESHOLD = 35 / 10"
definition DEFAULT_RATIO_THRESHOLD :: real where "DEFAULT_RATIO_THRESHOLD = 4"
definition DEFAULT_MIN_COUNT :: int where "DEFAULT_MIN_COUNT = 10"
definition DEFAULT_MIN_BASELINE_BUCKETS :: int where "DEFAULT_MIN_BASELINE_BUCKETS = 6"
definition MAD_SCALE :: real where "MAD_SCALE = 6745 / 10000"
definition MEAN_AD_SCALE :: real where "MEAN_AD_SCALE = 1253314 / 1000000"
definition MAX_SCORE :: real where "MAX_SCORE = 1000"
definition MAX_BUCKETS_PER_SCAN :: int where "MAX_BUCKETS_PER_SCAN = 5000"

record signup_bucket =
  sb_start :: time
  sb_count :: int

datatype anomaly_trigger = MODIFIED_Z_SCORE | RATIO_TO_BASELINE | COLD_START_BURST

datatype anomaly_severity = Warning | Critical

record signup_anomaly =
  sa_bucketStart :: time
  sa_bucketEnd :: time
  sa_count :: int
  sa_expected :: real
  sa_ratio :: real
  sa_score :: real
  sa_severity :: anomaly_severity
  sa_triggers :: "anomaly_trigger list"

record baseline =
  bl_median :: real
  bl_mad :: real
  bl_meanAbsDev :: real
  bl_sampleSize :: nat

record anomaly_options =
  ao_bucketMs :: "real option"
  ao_baselineWindowMs :: "real option"
  ao_evaluationWindowMs :: "real option"
  ao_zThreshold :: "real option"
  ao_ratioThreshold :: "real option"
  ao_minCount :: "real option"
  ao_minBaselineBuckets :: "real option"

record detector_config =
  dc_bucketMs :: int
  dc_baselineWindowMs :: int
  dc_evaluationWindowMs :: int
  dc_zThreshold :: real
  dc_ratioThreshold :: real
  dc_minCount :: int
  dc_minBaselineBuckets :: int

text \<open>A field of the schema: absent, or an integer or number within its bounds.\<close>

definition int_field :: "real option \<Rightarrow> real \<Rightarrow> real \<Rightarrow> bool" where
  "int_field v lo hi = (case v of None \<Rightarrow> True | Some x \<Rightarrow> of_int \<lfloor>x\<rfloor> = x \<and> lo \<le> x \<and> x \<le> hi)"

definition num_field :: "real option \<Rightarrow> real \<Rightarrow> real \<Rightarrow> bool" where
  "num_field v lo hi = (case v of None \<Rightarrow> True | Some x \<Rightarrow> lo \<le> x \<and> x \<le> hi)"

definition int_or :: "real option \<Rightarrow> int \<Rightarrow> int" where
  "int_or v d = (case v of None \<Rightarrow> d | Some x \<Rightarrow> \<lfloor>x\<rfloor>)"

definition resolveConfig :: "anomaly_options \<Rightarrow> detector_config" where
  "resolveConfig opts = \<lparr>dc_bucketMs = int_or (ao_bucketMs opts) DEFAULT_BUCKET_MS,
     dc_baselineWindowMs = int_or (ao_baselineWindowMs opts) DEFAULT_BASELINE_WINDOW_MS,
     dc_evaluationWindowMs = int_or (ao_evaluationWindowMs opts) DEFAULT_EVALUATION_WINDOW_MS,
     dc_zThreshold = (case ao_zThreshold opts of None \<Rightarrow> DEFAULT_Z_THRESHOLD | Some x \<Rightarrow> x),
     dc_ratioThreshold = (case ao_ratioThreshold opts of None \<Rightarrow> DEFAULT_RATIO_THRESHOLD | Some x \<Rightarrow> x),
     dc_minCount = int_or (ao_minCount opts) DEFAULT_MIN_COUNT,
     dc_minBaselineBuckets = int_or (ao_minBaselineBuckets opts) DEFAULT_MIN_BASELINE_BUCKETS\<rparr>"

text \<open>\<^verbatim>\<open>signupAnomalyOptionsSchema.parse\<close> succeeds exactly on these options.\<close>

definition options_valid :: "anomaly_options \<Rightarrow> bool" where
  "options_valid opts \<longleftrightarrow>
     int_field (ao_bucketMs opts) 60000 3600000
   \<and> int_field (ao_baselineWindowMs opts) 60000 (7 * 24 * 60 * 60 * 1000)
   \<and> int_field (ao_evaluationWindowMs opts) 60000 (24 * 60 * 60 * 1000)
   \<and> num_field (ao_zThreshold opts) 1 100
   \<and> num_field (ao_ratioThreshold opts) 1 1000
   \<and> int_field (ao_minCount opts) 1 1000000
   \<and> int_field (ao_minBaselineBuckets opts) 1 1000
   \<and> (let c = resolveConfig opts
      in dc_bucketMs c \<le> dc_evaluationWindowMs c \<and> dc_bucketMs c \<le> dc_baselineWindowMs c
         \<and> real_of_int (dc_baselineWindowMs c + dc_evaluationWindowMs c) / real_of_int (dc_bucketMs c) \<le> real_of_int MAX_BUCKETS_PER_SCAN)"

section \<open>Statistics\<close>

definition median_of :: "real list \<Rightarrow> real" where
  "median_of values =
    (if values = [] then 0
     else (let sorted_v = sort values; mid = length values div 2
           in if length values mod 2 = 1 then sorted_v ! mid else (sorted_v ! (mid - 1) + sorted_v ! mid) / 2))"

definition computeBaseline :: "real list \<Rightarrow> baseline" where
  "computeBaseline counts =
    (if counts = [] then \<lparr>bl_median = 0, bl_mad = 0, bl_meanAbsDev = 0, bl_sampleSize = 0\<rparr>
     else (let med = median_of counts; deviations = map (\<lambda>c. \<bar>c - med\<bar>) counts;
               meanAbsDev = fold (\<lambda>d s. s + d) deviations 0 / real (length deviations)
           in \<lparr>bl_median = med, bl_mad = median_of deviations, bl_meanAbsDev = meanAbsDev, bl_sampleSize = length counts\<rparr>))"

definition poissonSpreadFloor :: "real \<Rightarrow> real" where
  "poissonSpreadFloor medianCount = MAD_SCALE * sqrt (max medianCount 0)"

definition modifiedZScore :: "real \<Rightarrow> baseline \<Rightarrow> real" where
  "modifiedZScore v b =
    (if bl_sampleSize b = 0 then 0
     else (let delta = v - bl_median b
           in if delta \<le> 0 then 0
              else (let observed = (if 0 < bl_mad b then bl_mad b
                          else if 0 < bl_meanAbsDev b then bl_meanAbsDev b * MEAN_AD_SCALE else 0);
                        spread = max observed (poissonSpreadFloor (bl_median b))
                    in if spread = 0 then MAX_SCORE else min (MAD_SCALE * delta / spread) MAX_SCORE)))"

section \<open>Buckets\<close>

definition bucketStartFor :: "time \<Rightarrow> int \<Rightarrow> time" where
  "bucketStartFor timestampMs bucketMs = timestampMs div bucketMs * bucketMs"

text \<open>The loop over the starts; a validated bucket width is positive.\<close>

function starts_from :: "time \<Rightarrow> time \<Rightarrow> int \<Rightarrow> time list" where
  "starts_from t untilMs bucketMs =
    (if t < untilMs \<and> 0 < bucketMs then t # starts_from (t + bucketMs) untilMs bucketMs else [])"
  by pat_completeness auto
termination by (relation "measure (\<lambda>(t, u, b). nat (u - t))") auto

declare starts_from.simps [simp del]

definition add_bucket :: "time \<Rightarrow> time \<Rightarrow> int \<Rightarrow> signup_bucket \<Rightarrow> (time \<times> int) list \<Rightarrow> (time \<times> int) list" where
  "add_bucket firstStart untilMs bucketMs b counts =
    (let startMs = bucketStartFor (sb_start b) bucketMs
     in if startMs < firstStart \<or> untilMs \<le> startMs then counts
        else if sb_count b \<le> 0 then counts
        else AList.update startMs ((case map_of counts startMs of None \<Rightarrow> 0 | Some n \<Rightarrow> n) + sb_count b) counts)"

definition densifyBuckets :: "signup_bucket list \<Rightarrow> time \<Rightarrow> time \<Rightarrow> int \<Rightarrow> signup_bucket list" where
  "densifyBuckets buckets since untilMs bucketMs =
    (let firstStart = bucketStartFor since bucketMs;
         counts = fold (add_bucket firstStart untilMs bucketMs) buckets []
     in map (\<lambda>t. \<lparr>sb_start = t, sb_count = (case map_of counts t of None \<Rightarrow> 0 | Some n \<Rightarrow> n)\<rparr>)
          (starts_from firstStart untilMs bucketMs))"

definition bucketizeSignups :: "time list \<Rightarrow> time \<Rightarrow> time \<Rightarrow> int \<Rightarrow> signup_bucket list" where
  "bucketizeSignups timestamps since untilMs bucketMs =
     densifyBuckets (map (\<lambda>t. \<lparr>sb_start = t, sb_count = 1\<rparr>) timestamps) since untilMs bucketMs"

section \<open>Detection\<close>

definition round2 :: "real \<Rightarrow> real" where
  "round2 n = of_int \<lfloor>n * 100 + 1 / 2\<rfloor> / 100"

definition bucket_triggers :: "detector_config \<Rightarrow> baseline \<Rightarrow> real \<Rightarrow> real \<Rightarrow> anomaly_trigger list" where
  "bucket_triggers cfg b score ratio =
    (if \<not> dc_minBaselineBuckets cfg \<le> int (bl_sampleSize b) then [COLD_START_BURST]
     else (if dc_zThreshold cfg \<le> score then [MODIFIED_Z_SCORE] else [])
        @ (if dc_ratioThreshold cfg \<le> ratio then [RATIO_TO_BASELINE] else []))"

definition bucket_score :: "detector_config \<Rightarrow> baseline \<Rightarrow> signup_bucket \<Rightarrow> real" where
  "bucket_score cfg b bk =
    (if dc_minBaselineBuckets cfg \<le> int (bl_sampleSize b) then modifiedZScore (of_int (sb_count bk)) b else 0)"

definition bucket_expected :: "detector_config \<Rightarrow> baseline \<Rightarrow> real" where
  "bucket_expected cfg b = (if dc_minBaselineBuckets cfg \<le> int (bl_sampleSize b) then bl_median b else 0)"

definition score_bucket :: "detector_config \<Rightarrow> baseline \<Rightarrow> signup_bucket \<Rightarrow> signup_anomaly list" where
  "score_bucket cfg b bk =
    (let score = bucket_score cfg b bk
     in if sb_count bk < dc_minCount cfg then []
        else (let expected = bucket_expected cfg b;
                  ratio = of_int (sb_count bk) / max expected 1;
                  triggers = bucket_triggers cfg b score ratio
              in if triggers = [] then []
                 else [\<lparr>sa_bucketStart = sb_start bk, sa_bucketEnd = sb_start bk + dc_bucketMs cfg, sa_count = sb_count bk,
                        sa_expected = expected, sa_ratio = round2 ratio, sa_score = round2 score,
                        sa_severity = (if dc_zThreshold cfg * 2 \<le> score \<or> dc_ratioThreshold cfg * 2 \<le> ratio then Critical else Warning),
                        sa_triggers = triggers\<rparr>]))"

definition compare_anomalies :: "signup_anomaly \<Rightarrow> signup_anomaly \<Rightarrow> int" where
  "compare_anomalies a b =
    (if sa_score b \<noteq> sa_score a then (if sa_score b < sa_score a then -1 else 1) else sgn (sa_bucketStart b - sa_bucketStart a))"

fun detect_loop ::
  "detector_config \<Rightarrow> baseline \<Rightarrow> signup_bucket list \<Rightarrow> signup_anomaly list \<times> real \<Rightarrow> signup_anomaly list \<times> real" where
  "detect_loop cfg b [] acc = acc"
| "detect_loop cfg b (bk # bks) (anomalies, topScore) =
     detect_loop cfg b bks (anomalies @ score_bucket cfg b bk,
       if topScore < bucket_score cfg b bk then bucket_score cfg b bk else topScore)"

definition detectAnomalies ::
  "signup_bucket list \<Rightarrow> signup_bucket list \<Rightarrow> detector_config \<Rightarrow> baseline \<times> signup_anomaly list \<times> real" where
  "detectAnomalies baselineSeries evaluation cfg =
    (let b = computeBaseline (map (\<lambda>x. of_int (sb_count x)) baselineSeries)
     in (case detect_loop cfg b evaluation ([], 0) of (anomalies, topScore) \<Rightarrow>
           (b, js_sort compare_anomalies anomalies, round2 topScore)))"

section \<open>The scan\<close>

record anomaly_report =
  ar_since :: time
  ar_until :: time
  ar_evaluationSince :: time
  ar_bucketMs :: int
  ar_baseline :: baseline
  ar_evaluated :: nat
  ar_totalSignups :: int
  ar_peak :: "signup_bucket option"
  ar_anomalies :: "signup_anomaly list"
  ar_topScore :: real

text \<open>The grouping query on \<^verbatim>\<open>users\<close>.\<close>

definition loadSignupBuckets :: "time \<Rightarrow> time \<Rightarrow> int \<Rightarrow> user_row table \<Rightarrow> signup_bucket list" where
  "loadSignupBuckets since untilMs bucketMs users =
    (let ts = map u_createdAt (filter (\<lambda>u. since \<le> u_createdAt u \<and> u_createdAt u < untilMs) users);
         starts = sort (remdups (map (\<lambda>t. bucketStartFor t bucketMs) ts))
     in map (\<lambda>s. \<lparr>sb_start = s, sb_count = int (length (filter (\<lambda>t. bucketStartFor t bucketMs = s) ts))\<rparr>) starts)"

definition peak_bucket :: "signup_bucket list \<Rightarrow> signup_bucket option" where
  "peak_bucket bs = fold (\<lambda>b best. case best of None \<Rightarrow> Some b | Some x \<Rightarrow> if sb_count x < sb_count b then Some b else Some x) bs None"

definition scan_series :: "detector_config \<Rightarrow> time \<Rightarrow> user_row table \<Rightarrow> signup_bucket list" where
  "scan_series cfg now users =
    (let untilMs = bucketStartFor now (dc_bucketMs cfg) + dc_bucketMs cfg;
         sinceMs = untilMs - dc_evaluationWindowMs cfg - dc_baselineWindowMs cfg
     in densifyBuckets (loadSignupBuckets sinceMs untilMs (dc_bucketMs cfg) users) sinceMs untilMs (dc_bucketMs cfg))"

text \<open>\<open>None\<close> is the \<^verbatim>\<open>ZodError\<close>. Splitting at the first index with a start in the evaluation window.\<close>

definition runSignupAnomalyScan :: "anomaly_options \<Rightarrow> time \<Rightarrow> user_row table \<Rightarrow> anomaly_report option" where
  "runSignupAnomalyScan opts now users =
    (if \<not> options_valid opts then None
     else (let cfg = resolveConfig opts;
               untilMs = bucketStartFor now (dc_bucketMs cfg) + dc_bucketMs cfg;
               evaluationSinceMs = untilMs - dc_evaluationWindowMs cfg;
               sinceMs = evaluationSinceMs - dc_baselineWindowMs cfg;
               series = scan_series cfg now users;
               baselineSeries = takeWhile (\<lambda>b. \<not> evaluationSinceMs \<le> sb_start b) series;
               evaluation = dropWhile (\<lambda>b. \<not> evaluationSinceMs \<le> sb_start b) series
           in (case detectAnomalies baselineSeries evaluation cfg of (b, anomalies, topScore) \<Rightarrow>
                 Some \<lparr>ar_since = sinceMs, ar_until = untilMs, ar_evaluationSince = evaluationSinceMs, ar_bucketMs = dc_bucketMs cfg,
                   ar_baseline = b, ar_evaluated = length evaluation, ar_totalSignups = fold (\<lambda>b s. s + sb_count b) evaluation 0,
                   ar_peak = peak_bucket evaluation, ar_anomalies = anomalies, ar_topScore = topScore\<rparr>)))"

section \<open>The series\<close>

lemma starts_from_upto: "0 < b \<Longrightarrow> starts_from (i * b) (m * b) b = map (\<lambda>k. k * b) [i..m - 1]"
proof (induction "nat (m - i)" arbitrary: i)
  case 0
  then show ?case by (simp add: starts_from.simps [of "i * b"])
next
  case (Suc n)
  then have "i < m" by linarith
  with Suc.prems have "starts_from (i * b) (m * b) b = i * b # starts_from (i * b + b) (m * b) b"
    by (simp add: starts_from.simps [of "i * b"])
  also have "i * b + b = (i + 1) * b" by (simp add: algebra_simps)
  also have "starts_from ((i + 1) * b) (m * b) b = map (\<lambda>k. k * b) [i + 1..m - 1]" using Suc by simp
  also have "i * b # \<dots> = map (\<lambda>k. k * b) [i..m - 1]" using \<open>i < m\<close> by (simp add: upto.simps [of i])
  finally show ?case .
qed

definition count_at :: "(time \<times> int) list \<Rightarrow> time \<Rightarrow> int" where
  "count_at counts t = (case map_of counts t of None \<Rightarrow> 0 | Some n \<Rightarrow> n)"

lemma count_at_fold:
  assumes "f \<le> t" and "t < u" and "\<forall>b \<in> set bs. 0 < sb_count b"
  shows "count_at (fold (add_bucket f u w) bs counts) t =
    count_at counts t + sum_list (map sb_count (filter (\<lambda>b. bucketStartFor (sb_start b) w = t) bs))"
  using assms(3)
proof (induction bs arbitrary: counts)
  case (Cons b bs)
  have "count_at (add_bucket f u w b counts) t = count_at counts t + (if bucketStartFor (sb_start b) w = t then sb_count b else 0)"
    using assms(1,2) Cons.prems by (auto simp: add_bucket_def Let_def count_at_def update_conv')
  with Cons show ?case by simp
qed simp

definition signups_between :: "user_row table \<Rightarrow> time \<Rightarrow> time \<Rightarrow> int" where
  "signups_between users a b = int (length (filter (\<lambda>u. a \<le> u_createdAt u \<and> u_createdAt u < b) users))"

lemma bucket_iff: "0 < w \<Longrightarrow> bucketStartFor t w = k * w \<longleftrightarrow> k * w \<le> t \<and> t < k * w + w"
proof -
  assume w: "0 < w"
  have "t div w = k \<longleftrightarrow> k * w \<le> t \<and> t < k * w + w"
  proof
    assume k: "t div w = k"
    have "t = k * w + t mod w" unfolding k [symmetric] by simp
    with w show "k * w \<le> t \<and> t < k * w + w" using pos_mod_sign [of w t] pos_mod_bound [of w t] by linarith
  next
    assume "k * w \<le> t \<and> t < k * w + w"
    then have "0 \<le> t - k * w" "t - k * w < w" by linarith+
    then have "(t - k * w) div w = 0" by simp
    moreover have "((t - k * w) + k * w) div w = k + (t - k * w) div w" by (rule div_mult_self1) (use w in simp)
    ultimately show "t div w = k" by simp
  qed
  with w show ?thesis by (simp add: bucketStartFor_def)
qed

lemma load_count:
  assumes "0 < w"
  shows "sum_list (map sb_count (filter (\<lambda>b. bucketStartFor (sb_start b) w = t) (loadSignupBuckets s u w users)))
    = int (length (filter (\<lambda>x. s \<le> u_createdAt x \<and> u_createdAt x < u \<and> bucketStartFor (u_createdAt x) w = t) users))
    \<and> (\<forall>b \<in> set (loadSignupBuckets s u w users). 0 < sb_count b)"
proof -
  let ?ts = "map u_createdAt (filter (\<lambda>x. s \<le> u_createdAt x \<and> u_createdAt x < u) users)"
  let ?n = "\<lambda>s. int (length (filter (\<lambda>t. bucketStartFor t w = s) ?ts))"
  let ?st = "sort (remdups (map (\<lambda>t. bucketStartFor t w) ?ts))"
  have load: "loadSignupBuckets s u w users = map (\<lambda>s. \<lparr>sb_start = s, sb_count = ?n s\<rparr>) ?st"
    by (simp add: loadSignupBuckets_def Let_def)
  have al: "bucketStartFor s' w = s'" if "s' \<in> set ?st" for s' using that assms by (auto simp: bucketStartFor_def)
  have one: "filter (\<lambda>s'. s' = t) xs = (if t \<in> set xs then [t] else [])" if "distinct xs" for xs :: "int list"
    using that by (induction xs) (auto simp: filter_empty_conv)
  have "filter (\<lambda>s'. bucketStartFor s' w = t) ?st = filter (\<lambda>s'. s' = t) ?st"
    by (rule filter_cong [OF refl]) (simp only: al)
  also have "\<dots> = (if t \<in> set ?st then [t] else [])" by (rule one) simp
  finally have sel: "filter (\<lambda>s'. bucketStartFor s' w = t) ?st = (if t \<in> set ?st then [t] else [])" .
  have "filter (\<lambda>b. bucketStartFor (sb_start b) w = t) (loadSignupBuckets s u w users)
      = map (\<lambda>s. \<lparr>sb_start = s, sb_count = ?n s\<rparr>) (filter (\<lambda>s'. bucketStartFor s' w = t) ?st)"
    unfolding load filter_map o_def signup_bucket.select_convs ..
  then have "sum_list (map sb_count (filter (\<lambda>b. bucketStartFor (sb_start b) w = t) (loadSignupBuckets s u w users)))
      = (if t \<in> set ?st then ?n t else 0)"
    unfolding sel by (simp only: list.map sum_list.Cons sum_list.Nil signup_bucket.select_convs add_0_right split: if_split) blast
  also have "\<dots> = ?n t"
  proof (cases "t \<in> set ?st")
    case False
    then have "filter (\<lambda>t'. bucketStartFor t' w = t) ?ts = []" unfolding filter_empty_conv by force
    with False show ?thesis by (simp only: if_False list.size of_nat_0)
  qed simp
  also have "\<dots> = int (length (filter (\<lambda>x. s \<le> u_createdAt x \<and> u_createdAt x < u \<and> bucketStartFor (u_createdAt x) w = t) users))"
    by (simp add: filter_map o_def conj_assoc)
  finally have 1: "sum_list (map sb_count (filter (\<lambda>b. bucketStartFor (sb_start b) w = t) (loadSignupBuckets s u w users)))
    = int (length (filter (\<lambda>x. s \<le> u_createdAt x \<and> u_createdAt x < u \<and> bucketStartFor (u_createdAt x) w = t) users))" .
  have "0 < ?n s'" if "s' \<in> set ?st" for s' using that by (force simp: filter_empty_conv)
  with 1 show ?thesis by (auto simp: load)
qed

text \<open>The index of the bucket after now, of the first evaluated bucket and of the first bucket.\<close>

definition until_index :: "detector_config \<Rightarrow> time \<Rightarrow> int" where
  "until_index cfg now = now div dc_bucketMs cfg + 1"

definition evaluation_index :: "detector_config \<Rightarrow> time \<Rightarrow> int" where
  "evaluation_index cfg now = until_index cfg now - dc_evaluationWindowMs cfg div dc_bucketMs cfg"

definition since_ms :: "detector_config \<Rightarrow> time \<Rightarrow> time" where
  "since_ms cfg now = until_index cfg now * dc_bucketMs cfg - dc_evaluationWindowMs cfg - dc_baselineWindowMs cfg"

definition bucket_at :: "detector_config \<Rightarrow> time \<Rightarrow> user_row table \<Rightarrow> int \<Rightarrow> signup_bucket" where
  "bucket_at cfg now users k = \<lparr>sb_start = k * dc_bucketMs cfg,
     sb_count = signups_between users (max (since_ms cfg now) (k * dc_bucketMs cfg)) (k * dc_bucketMs cfg + dc_bucketMs cfg)\<rparr>"

lemma scan_series_spec:
  assumes w: "0 < dc_bucketMs cfg"
  shows "scan_series cfg now users =
    map (bucket_at cfg now users) [since_ms cfg now div dc_bucketMs cfg..until_index cfg now - 1]"
proof -
  let ?w = "dc_bucketMs cfg" and ?m = "until_index cfg now" and ?s = "since_ms cfg now"
  have u: "bucketStartFor now ?w + ?w = ?m * ?w" by (simp add: bucketStartFor_def until_index_def algebra_simps)
  let ?bs = "loadSignupBuckets ?s (?m * ?w) ?w users"
  let ?c = "fold (add_bucket (?s div ?w * ?w) (?m * ?w) ?w) ?bs []"
  have "scan_series cfg now users = map (\<lambda>t. \<lparr>sb_start = t, sb_count = count_at ?c t\<rparr>) (map (\<lambda>k. k * ?w) [?s div ?w..?m - 1])"
    unfolding scan_series_def Let_def u since_ms_def [symmetric] densifyBuckets_def
    by (simp add: bucketStartFor_def starts_from_upto [OF w] count_at_def)
  also have "\<dots> = map (bucket_at cfg now users) [?s div ?w..?m - 1]"
  proof -
    have "count_at ?c (k * ?w) = signups_between users (max ?s (k * ?w)) (k * ?w + ?w)" if k: "?s div ?w \<le> k" "k \<le> ?m - 1" for k
    proof -
      have r: "?s div ?w * ?w \<le> k * ?w" "k * ?w < ?m * ?w" using k w by (simp_all add: mult_right_mono)
      have b: "\<forall>b \<in> set ?bs. 0 < sb_count b" using load_count [OF w] by blast
      have in_bucket: "s0 \<le> t \<and> t < ?m * ?w \<and> bucketStartFor t ?w = k * ?w \<longleftrightarrow> max s0 (k * ?w) \<le> t \<and> t < k * ?w + ?w" for t s0
      proof -
        have "k * ?w + ?w \<le> ?m * ?w" using k(2) w mult_right_mono [of "k + 1" ?m ?w] by (simp add: algebra_simps)
        then show ?thesis unfolding bucket_iff [OF w] by auto
      qed
      show ?thesis
        unfolding count_at_fold [OF r b] using load_count [OF w, of "k * ?w" ?s "?m * ?w" users]
        by (simp add: count_at_def in_bucket signups_between_def)
    qed
    then show ?thesis by (simp add: bucket_at_def)
  qed
  finally show ?thesis .
qed

definition baseline_series :: "detector_config \<Rightarrow> time \<Rightarrow> user_row table \<Rightarrow> signup_bucket list" where
  "baseline_series cfg now users =
     map (bucket_at cfg now users) [since_ms cfg now div dc_bucketMs cfg..evaluation_index cfg now - 1]"

definition evaluation_series :: "detector_config \<Rightarrow> time \<Rightarrow> user_row table \<Rightarrow> signup_bucket list" where
  "evaluation_series cfg now users = map (bucket_at cfg now users) [evaluation_index cfg now..until_index cfg now - 1]"

lemma int_or_lower: "int_field v (real_of_int l) h \<Longrightarrow> l \<le> d \<Longrightarrow> l \<le> int_or v d"
  by (simp add: int_field_def int_or_def le_floor_iff split: option.splits)

lemma options_valid_config:
  assumes "options_valid opts"
  shows "0 < dc_bucketMs (resolveConfig opts) \<and> dc_bucketMs (resolveConfig opts) \<le> dc_evaluationWindowMs (resolveConfig opts)
    \<and> dc_bucketMs (resolveConfig opts) \<le> dc_baselineWindowMs (resolveConfig opts) \<and> 1 \<le> dc_minCount (resolveConfig opts)
    \<and> 1 \<le> dc_minBaselineBuckets (resolveConfig opts) \<and> 1 \<le> dc_ratioThreshold (resolveConfig opts)"
proof -
  note v = assms [unfolded options_valid_def Let_def]
  have "60000 \<le> int_or (ao_bucketMs opts) DEFAULT_BUCKET_MS"
    by (rule int_or_lower [where h = 3600000]) (use v in \<open>simp_all add: DEFAULT_BUCKET_MS_def\<close>)
  moreover have "1 \<le> int_or (ao_minCount opts) DEFAULT_MIN_COUNT"
    by (rule int_or_lower [where h = 1000000]) (use v in \<open>simp_all add: DEFAULT_MIN_COUNT_def\<close>)
  moreover have "1 \<le> int_or (ao_minBaselineBuckets opts) DEFAULT_MIN_BASELINE_BUCKETS"
    by (rule int_or_lower [where h = 1000]) (use v in \<open>simp_all add: DEFAULT_MIN_BASELINE_BUCKETS_def\<close>)
  moreover have "1 \<le> dc_ratioThreshold (resolveConfig opts)"
    using v by (simp add: resolveConfig_def num_field_def DEFAULT_RATIO_THRESHOLD_def split: option.splits)
  ultimately show ?thesis using v by (simp add: resolveConfig_def)
qed

lemma split_series:
  assumes w: "0 < dc_bucketMs cfg" and e: "0 \<le> dc_evaluationWindowMs cfg" and b: "0 \<le> dc_baselineWindowMs cfg"
    and ev_def: "ev = until_index cfg now * dc_bucketMs cfg - dc_evaluationWindowMs cfg"
  shows "takeWhile (\<lambda>b. \<not> ev \<le> sb_start b) (scan_series cfg now users) = baseline_series cfg now users"
    and "dropWhile (\<lambda>b. \<not> ev \<le> sb_start b) (scan_series cfg now users) = evaluation_series cfg now users"
proof -
  let ?w = "dc_bucketMs cfg" and ?m = "until_index cfg now" and ?p = "evaluation_index cfg now" and ?E = "dc_evaluationWindowMs cfg"
  have e1: "?E div ?w * ?w \<le> ?E" using w pos_mod_sign [of ?w ?E] by (metis div_mult_mod_eq le_add_same_cancel1)
  have e2: "?E < ?E div ?w * ?w + ?w" using w pos_mod_bound [of ?w ?E] by (metis add_strict_left_mono div_mult_mod_eq)
  have iff: "ev \<le> k * ?w \<longleftrightarrow> ?p \<le> k" for k
  proof
    assume "?p \<le> k"
    then have "?p * ?w \<le> k * ?w" using w by simp
    moreover have "?p * ?w = ?m * ?w - ?E div ?w * ?w" by (simp add: evaluation_index_def algebra_simps)
    ultimately show "ev \<le> k * ?w" using e1 by (simp add: ev_def)
  next
    assume a: "ev \<le> k * ?w"
    have "?m * ?w - ?E div ?w * ?w - ?w < k * ?w" using a e2 by (simp add: ev_def)
    then have "(?p - 1) * ?w < k * ?w" by (simp add: evaluation_index_def algebra_simps)
    with w show "?p \<le> k" by simp
  qed
  have le: "since_ms cfg now div ?w \<le> ?p" "?p \<le> ?m"
  proof -
    have "since_ms cfg now \<le> ev" using b by (simp add: since_ms_def ev_def)
    also have "ev \<le> ?p * ?w" using iff by simp
    finally show "since_ms cfg now div ?w \<le> ?p" using zdiv_mono1 [of "since_ms cfg now" "?p * ?w" ?w] w by simp
    show "?p \<le> ?m" using e w by (simp add: evaluation_index_def pos_imp_zdiv_nonneg_iff)
  qed
  have "[since_ms cfg now div ?w..?m - 1] = [since_ms cfg now div ?w..?p - 1] @ [?p..?m - 1]"
  proof (cases "?p = ?m")
    case False
    with le show ?thesis by (intro upto_split1) auto
  qed simp
  then have s: "scan_series cfg now users = baseline_series cfg now users @ evaluation_series cfg now users"
    by (simp add: scan_series_spec [OF w] baseline_series_def evaluation_series_def)
  have 1: "\<forall>x \<in> set (baseline_series cfg now users). \<not> ev \<le> sb_start x"
    by (auto simp: baseline_series_def bucket_at_def iff)
  have 2: "\<forall>x \<in> set (evaluation_series cfg now users). ev \<le> sb_start x"
    by (auto simp: evaluation_series_def bucket_at_def iff)
  have t: "takeWhile (\<lambda>b. \<not> ev \<le> sb_start b) (evaluation_series cfg now users) = []"
    and d: "dropWhile (\<lambda>b. \<not> ev \<le> sb_start b) (evaluation_series cfg now users) = evaluation_series cfg now users"
    using 2 by (cases "evaluation_series cfg now users"; simp)+
  show "takeWhile (\<lambda>b. \<not> ev \<le> sb_start b) (scan_series cfg now users) = baseline_series cfg now users"
    unfolding s using 1 t by (simp add: takeWhile_append)
  show "dropWhile (\<lambda>b. \<not> ev \<le> sb_start b) (scan_series cfg now users) = evaluation_series cfg now users"
    unfolding s using 1 d by (simp add: dropWhile_append)
qed

lemma scan_Some:
  assumes "runSignupAnomalyScan opts now users = Some r"
  defines "cfg \<equiv> resolveConfig opts"
  shows "options_valid opts
    \<and> detectAnomalies (baseline_series cfg now users) (evaluation_series cfg now users) cfg = (ar_baseline r, ar_anomalies r, ar_topScore r)
    \<and> ar_evaluated r = length (evaluation_series cfg now users)
    \<and> ar_totalSignups r = sum_list (map sb_count (evaluation_series cfg now users))
    \<and> ar_until r = until_index cfg now * dc_bucketMs cfg \<and> ar_peak r = peak_bucket (evaluation_series cfg now users)"
proof -
  from assms(1) have v: "options_valid opts" by (simp add: runSignupAnomalyScan_def split: if_splits)
  from options_valid_config [OF v] have c: "0 < dc_bucketMs cfg" "0 \<le> dc_evaluationWindowMs cfg" "0 \<le> dc_baselineWindowMs cfg"
    unfolding cfg_def by linarith+
  have u: "bucketStartFor now (dc_bucketMs cfg) + dc_bucketMs cfg = until_index cfg now * dc_bucketMs cfg"
    by (simp add: bucketStartFor_def until_index_def algebra_simps)
  have sum: "fold (\<lambda>b s. s + sb_count b) bs a = a + sum_list (map sb_count bs)" for bs a
    by (induction bs arbitrary: a) auto
  from assms(1) v show ?thesis
    unfolding runSignupAnomalyScan_def Let_def cfg_def [symmetric] u split_series [OF c refl]
    by (auto simp: sum split: prod.splits)
qed

section \<open>What the report says\<close>

lemma signups_split: "a \<le> b \<Longrightarrow> b \<le> c \<Longrightarrow> signups_between users a b + signups_between users b c = signups_between users a c"
  by (induction users) (auto simp: signups_between_def)

lemma signups_telescope:
  "0 < w \<Longrightarrow> p \<le> m \<Longrightarrow> sum_list (map (\<lambda>k. signups_between users (k * w) (k * w + w)) [p..m - 1]) = signups_between users (p * w) (m * w)"
proof (induction "nat (m - p)" arbitrary: p)
  case 0
  then show ?case by (simp add: signups_between_def)
next
  case (Suc n)
  then have lt: "p < m" by linarith
  have "[p..m - 1] = p # [p + 1..m - 1]" using lt by (simp add: upto.simps [of p])
  moreover have "sum_list (map (\<lambda>k. signups_between users (k * w) (k * w + w)) [p + 1..m - 1]) = signups_between users ((p + 1) * w) (m * w)"
    using Suc lt by simp
  moreover have "(p + 1) * w = p * w + w" by (simp add: algebra_simps)
  moreover have "p * w + w \<le> m * w" using lt Suc.prems(1) mult_right_mono [of "p + 1" m w] by (simp add: algebra_simps)
  ultimately show ?case using Suc.prems(1) signups_split [of "p * w" "p * w + w" "m * w" users] by simp
qed

lemma evaluation_series_spec:
  assumes w: "0 < dc_bucketMs cfg" and e: "0 \<le> dc_evaluationWindowMs cfg" and b: "0 \<le> dc_baselineWindowMs cfg"
  shows "evaluation_series cfg now users = map (\<lambda>k. \<lparr>sb_start = k * dc_bucketMs cfg,
    sb_count = signups_between users (k * dc_bucketMs cfg) (k * dc_bucketMs cfg + dc_bucketMs cfg)\<rparr>) [evaluation_index cfg now..until_index cfg now - 1]"
proof -
  let ?w = "dc_bucketMs cfg" and ?E = "dc_evaluationWindowMs cfg"
  have "max (since_ms cfg now) (k * ?w) = k * ?w" if "evaluation_index cfg now \<le> k" for k
  proof -
    have "(until_index cfg now - ?E div ?w) * ?w \<le> k * ?w" using that w by (simp add: evaluation_index_def)
    moreover have "?E div ?w * ?w \<le> ?E" using w pos_mod_sign [of ?w ?E] by (metis div_mult_mod_eq le_add_same_cancel1)
    ultimately have "since_ms cfg now \<le> k * ?w" using b by (simp add: since_ms_def algebra_simps)
    then show ?thesis by simp
  qed
  then show ?thesis by (simp add: evaluation_series_def bucket_at_def)
qed

text \<open>A scan that is accepted evaluates the buckets that fit into the evaluation window, the last of them the bucket
  of the current time, each holding the number of users who signed up in it; the reported total is the number of signups
  from the start of the first evaluated bucket to the end of the window, each counted once.\<close>

lemma scan_counts_signups:
  assumes "runSignupAnomalyScan opts now users = Some r"
  shows "ar_evaluated r = nat (dc_evaluationWindowMs (resolveConfig opts) div dc_bucketMs (resolveConfig opts))
    \<and> ar_totalSignups r = signups_between users
        (ar_until r - dc_evaluationWindowMs (resolveConfig opts) div dc_bucketMs (resolveConfig opts) * dc_bucketMs (resolveConfig opts)) (ar_until r)
    \<and> now < ar_until r \<and> ar_until r - dc_bucketMs (resolveConfig opts) \<le> now
    \<and> (\<forall>b \<in> set (evaluation_series (resolveConfig opts) now users).
         sb_count b = signups_between users (sb_start b) (sb_start b + dc_bucketMs (resolveConfig opts)))"
proof -
  let ?c = "resolveConfig opts"
  let ?w = "dc_bucketMs ?c" and ?m = "until_index ?c now" and ?p = "evaluation_index ?c now"
  note s = scan_Some [OF assms]
  then have c: "0 < ?w" "0 \<le> dc_evaluationWindowMs ?c" "0 \<le> dc_baselineWindowMs ?c" using options_valid_config by fastforce+
  note ev = evaluation_series_spec [OF c, of now users]
  have le: "?p \<le> ?m" using c by (simp add: evaluation_index_def pos_imp_zdiv_nonneg_iff)
  have "ar_totalSignups r = signups_between users (?p * ?w) (?m * ?w)"
    using s signups_telescope [OF c(1) le] unfolding ev by (simp add: o_def)
  moreover have "?p * ?w = ?m * ?w - dc_evaluationWindowMs ?c div ?w * ?w" by (simp add: evaluation_index_def algebra_simps)
  moreover have "ar_evaluated r = nat (dc_evaluationWindowMs ?c div ?w)" using s unfolding ev by (simp add: evaluation_index_def)
  moreover have "now < ?m * ?w \<and> ?m * ?w - ?w \<le> now"
    using bucket_iff [OF c(1), of now "now div ?w"] by (simp add: bucketStartFor_def until_index_def algebra_simps)
  moreover have "\<forall>b \<in> set (evaluation_series ?c now users). sb_count b = signups_between users (sb_start b) (sb_start b + ?w)"
    unfolding ev by simp
  ultimately show ?thesis using s by simp
qed

lemma detect_loop_spec:
  "fst (detect_loop cfg b bks (found, t0)) = found @ concat (map (score_bucket cfg b) bks)"
  by (induction bks arbitrary: found t0) auto

lemma score_bucket_iff:
  "score_bucket cfg b bk \<noteq> [] \<longleftrightarrow> dc_minCount cfg \<le> sb_count bk
     \<and> bucket_triggers cfg b (bucket_score cfg b bk) (of_int (sb_count bk) / max (bucket_expected cfg b) 1) \<noteq> []"
  by (simp add: score_bucket_def Let_def)

lemma score_bucket_set:
  "a \<in> set (score_bucket cfg b bk) \<Longrightarrow> sa_bucketStart a = sb_start bk \<and> sa_count a = sb_count bk
     \<and> sa_triggers a = bucket_triggers cfg b (bucket_score cfg b bk) (of_int (sb_count bk) / max (bucket_expected cfg b) 1)"
  by (auto simp: score_bucket_def Let_def split: if_splits)

lemma scan_anomalies:
  assumes "runSignupAnomalyScan opts now users = Some r"
  shows "set (ar_anomalies r) =
    (\<Union>bk \<in> set (evaluation_series (resolveConfig opts) now users). set (score_bucket (resolveConfig opts) (ar_baseline r) bk))"
    and "ar_baseline r = computeBaseline (map (\<lambda>x. of_int (sb_count x)) (baseline_series (resolveConfig opts) now users))"
proof -
  have d: "detectAnomalies (baseline_series (resolveConfig opts) now users) (evaluation_series (resolveConfig opts) now users) (resolveConfig opts)
    = (ar_baseline r, ar_anomalies r, ar_topScore r)" using scan_Some [OF assms] by blast
  then show b: "ar_baseline r = computeBaseline (map (\<lambda>x. of_int (sb_count x)) (baseline_series (resolveConfig opts) now users))"
    by (simp add: detectAnomalies_def Let_def split: prod.splits)
  have "ar_anomalies r = js_sort compare_anomalies (fst (detect_loop (resolveConfig opts) (ar_baseline r)
      (evaluation_series (resolveConfig opts) now users) ([], 0)))"
    using d unfolding b by (simp add: detectAnomalies_def Let_def case_prod_beta)
  then show "set (ar_anomalies r) =
    (\<Union>bk \<in> set (evaluation_series (resolveConfig opts) now users). set (score_bucket (resolveConfig opts) (ar_baseline r) bk))"
    by (simp add: detect_loop_spec)
qed

section \<open>The median resists outliers\<close>

lemma sorted_nth_le:
  assumes "sorted xs" and "i < length (filter (\<lambda>x. x \<le> M) xs)"
  shows "xs ! i \<le> (M :: real)"
proof (rule ccontr)
  assume a: "\<not> xs ! i \<le> M"
  have i: "i < length xs" using assms(2) length_filter_le [of "\<lambda>x. x \<le> M" xs] by linarith
  have "filter (\<lambda>x. x \<le> M) (drop i xs) = []"
  proof -
    have "\<not> x \<le> M" if "x \<in> set (drop i xs)" for x
    proof -
      from that obtain j where j: "j < length xs - i" "x = xs ! (i + j)" by (auto simp: in_set_conv_nth)
      then have "xs ! i \<le> x" using assms(1) sorted_nth_mono [of xs i "i + j"] by simp
      with a show ?thesis by simp
    qed
    then show ?thesis by (simp add: filter_empty_conv)
  qed
  then have "filter (\<lambda>x. x \<le> M) xs = filter (\<lambda>x. x \<le> M) (take i xs)"
    by (metis append_Nil2 append_take_drop_id filter_append)
  then have "length (filter (\<lambda>x. x \<le> M) xs) \<le> i" using length_filter_le [of "\<lambda>x. x \<le> M" "take i xs"] i by simp
  with assms(2) show False by simp
qed

lemma median_le:
  assumes "length vs < 2 * length (filter (\<lambda>x. x \<le> M) vs)"
  shows "median_of vs \<le> M"
proof -
  have "mset (filter (\<lambda>x. x \<le> M) (sort vs)) = mset (filter (\<lambda>x. x \<le> M) vs)" by simp
  then have len: "length (filter (\<lambda>x. x \<le> M) (sort vs)) = length (filter (\<lambda>x. x \<le> M) vs)" by (metis size_mset)
  have *: "sort vs ! i \<le> M" if "i \<le> length vs div 2" for i
    by (rule sorted_nth_le) (use that assms len in auto)
  have ne: "vs \<noteq> []" using assms by auto
  show ?thesis using * [of "length vs div 2"] * [of "length vs div 2 - 1"] ne by (simp add: median_of_def Let_def)
qed

text \<open>A flood cannot hide in its own baseline: if more than half of the baseline buckets hold at most \<open>M\<close> signups,
  then every evaluated bucket with at least the absolute floor and at least the ratio threshold times \<open>M\<close> (or times one)
  signups is reported with its count, whatever the other baseline buckets hold.\<close>

lemma flood_detected:
  assumes "runSignupAnomalyScan opts now users = Some r"
    and "bk \<in> set (evaluation_series (resolveConfig opts) now users)"
    and "length (baseline_series (resolveConfig opts) now users)
      < 2 * length (filter (\<lambda>b. real_of_int (sb_count b) \<le> M) (baseline_series (resolveConfig opts) now users))"
    and "dc_minCount (resolveConfig opts) \<le> sb_count bk"
    and "dc_ratioThreshold (resolveConfig opts) * max M 1 \<le> real_of_int (sb_count bk)"
  shows "\<exists>a \<in> set (ar_anomalies r). sa_bucketStart a = sb_start bk \<and> sa_count a = sb_count bk \<and> sa_triggers a \<noteq> []"
proof -
  let ?c = "resolveConfig opts" and ?b = "ar_baseline r"
  let ?vs = "map (\<lambda>x. real_of_int (sb_count x)) (baseline_series ?c now users)"
  have "median_of ?vs \<le> M" by (rule median_le) (use assms(3) in \<open>simp add: filter_map o_def\<close>)
  moreover have "?vs \<noteq> []" using assms(3) by auto
  ultimately have med: "bl_median ?b \<le> M" unfolding scan_anomalies(2) [OF assms(1)] by (simp add: computeBaseline_def Let_def)
  have pos: "1 \<le> dc_ratioThreshold ?c" using scan_Some [OF assms(1)] options_valid_config by blast
  let ?ratio = "real_of_int (sb_count bk) / max (bucket_expected ?c ?b) 1"
  have "bucket_triggers ?c ?b (bucket_score ?c ?b bk) ?ratio \<noteq> []"
  proof (cases "dc_minBaselineBuckets ?c \<le> int (bl_sampleSize ?b)")
    case True
    then have "max (bucket_expected ?c ?b) 1 \<le> max M 1" using med by (simp add: bucket_expected_def)
    then have "dc_ratioThreshold ?c * max (bucket_expected ?c ?b) 1 \<le> real_of_int (sb_count bk)"
      using pos assms(5) mult_left_mono [of "max (bucket_expected ?c ?b) 1" "max M 1" "dc_ratioThreshold ?c"] by linarith
    then have "dc_ratioThreshold ?c \<le> ?ratio" by (simp add: pos_le_divide_eq)
    with True show ?thesis by (simp add: bucket_triggers_def)
  qed (simp add: bucket_triggers_def)
  with assms(4) obtain a where a: "a \<in> set (score_bucket ?c ?b bk)" using score_bucket_iff [of ?c ?b bk] by (metis list.set_sel(1))
  with assms(2) have "a \<in> set (ar_anomalies r)" unfolding scan_anomalies(1) [OF assms(1)] by blast
  with score_bucket_set [OF a] \<open>bucket_triggers ?c ?b (bucket_score ?c ?b bk) ?ratio \<noteq> []\<close> show ?thesis by metis
qed

section \<open>What is reported\<close>

text \<open>The empty buckets are filled in, so the number of baseline buckets is a matter of the configuration alone: the cold
  start rule never fires for lack of history.\<close>

lemma baseline_length_by_configuration:
  "length (baseline_series cfg now users) = nat (evaluation_index cfg now - since_ms cfg now div dc_bucketMs cfg)"
  by (simp add: baseline_series_def)

lemma score_bounds: "0 \<le> modifiedZScore v b \<and> modifiedZScore v b \<le> MAX_SCORE" if "0 \<le> bl_mad b \<and> 0 \<le> bl_meanAbsDev b"
proof -
  let ?o = "if 0 < bl_mad b then bl_mad b else if 0 < bl_meanAbsDev b then bl_meanAbsDev b * MEAN_AD_SCALE else 0"
  have "0 \<le> max ?o (poissonSpreadFloor (bl_median b))" using that by (simp add: MEAN_AD_SCALE_def le_max_iff_disj)
  then have "0 \<le> MAD_SCALE * d / max ?o (poissonSpreadFloor (bl_median b))" if "0 \<le> d" for d
    using that by (simp add: MAD_SCALE_def)
  then show ?thesis by (simp add: modifiedZScore_def Let_def MAX_SCORE_def)
qed

lemma anomaly_source:
  assumes "runSignupAnomalyScan opts now users = Some r" and "a \<in> set (ar_anomalies r)"
  shows "\<exists>bk \<in> set (evaluation_series (resolveConfig opts) now users). a \<in> set (score_bucket (resolveConfig opts) (ar_baseline r) bk)"
  using assms(2) unfolding scan_anomalies(1) [OF assms(1)] by blast

lemma evaluated_bucket:
  assumes "runSignupAnomalyScan opts now users = Some r" and "bk \<in> set (evaluation_series (resolveConfig opts) now users)"
  shows "sb_count bk = signups_between users (sb_start bk) (sb_start bk + dc_bucketMs (resolveConfig opts))
    \<and> sb_start bk + dc_bucketMs (resolveConfig opts) \<le> ar_until r"
proof -
  let ?c = "resolveConfig opts"
  let ?w = "dc_bucketMs ?c" and ?e = "dc_evaluationWindowMs ?c" and ?m = "until_index ?c now"
  have w: "0 < ?w" "0 \<le> dc_baselineWindowMs ?c" and u: "ar_until r = ?m * ?w"
    using scan_Some [OF assms(1)] options_valid_config by fastforce+
  obtain k where k: "evaluation_index ?c now \<le> k" "k \<le> ?m - 1" "bk = bucket_at ?c now users k"
    using assms(2) by (auto simp: evaluation_series_def)
  have "?e div ?w * ?w \<le> ?e" using w(1) by (simp add: div_times_less_eq_dividend minus_mod_eq_div_mult [symmetric])
  then have "?m * ?w - ?e \<le> evaluation_index ?c now * ?w" by (simp add: evaluation_index_def left_diff_distrib)
  also have "\<dots> \<le> k * ?w" using k(1) w(1) by (simp add: mult_right_mono)
  finally have "since_ms ?c now \<le> k * ?w" using w(2) by (simp add: since_ms_def)
  moreover have "k * ?w + ?w \<le> ?m * ?w" using k(2) w(1) mult_right_mono [of "k + 1" ?m ?w] by (simp add: algebra_simps)
  ultimately show ?thesis by (simp add: k(3) bucket_at_def u max_def)
qed

lemma evaluation_distinct:
  "0 < dc_bucketMs cfg \<Longrightarrow> distinct (map sb_start (evaluation_series cfg now users))"
  by (simp add: evaluation_series_def bucket_at_def distinct_map inj_on_def)

lemma anomalies_distinct:
  assumes "runSignupAnomalyScan opts now users = Some r"
  shows "distinct (map sa_bucketStart (ar_anomalies r))"
proof -
  let ?c = "resolveConfig opts" and ?b = "ar_baseline r"
  let ?ev = "evaluation_series ?c now users"
  have d: "detectAnomalies (baseline_series ?c now users) ?ev ?c = (?b, ar_anomalies r, ar_topScore r)"
    using scan_Some [OF assms] by blast
  then have "ar_anomalies r = js_sort compare_anomalies (fst (detect_loop ?c ?b ?ev ([], 0)))"
    using scan_anomalies(2) [OF assms] by (simp add: detectAnomalies_def Let_def case_prod_beta)
  then have "mset (map sa_bucketStart (ar_anomalies r)) = mset (map sa_bucketStart (concat (map (score_bucket ?c ?b) ?ev)))"
    by (simp add: detect_loop_spec)
  moreover have "distinct (map sa_bucketStart (concat (map (score_bucket ?c ?b) bks)))" if "distinct (map sb_start bks)" for bks
    using that
  proof (induction bks)
    case (Cons bk bks)
    have "score_bucket ?c ?b bk = [] \<or> (\<exists>a. score_bucket ?c ?b bk = [a] \<and> sa_bucketStart a = sb_start bk)"
      by (simp add: score_bucket_def Let_def)
    moreover have "sa_bucketStart a \<noteq> sb_start bk" if "a \<in> set (concat (map (score_bucket ?c ?b) bks))" for a
    proof -
      from that obtain bk' where "bk' \<in> set bks" "a \<in> set (score_bucket ?c ?b bk')" by auto
      with score_bucket_set [of a ?c ?b bk'] Cons.prems show ?thesis by (metis distinct.simps(2) image_eqI list.set_map list.simps(9))
    qed
    ultimately show ?case using Cons by fastforce
  qed simp
  moreover have "0 < dc_bucketMs ?c" using scan_Some [OF assms] options_valid_config by blast
  ultimately show ?thesis using evaluation_distinct mset_eq_imp_distinct_iff by metis
qed

text \<open>C32. A bucket of the evaluation window is reported exactly when it reaches the absolute floor and either the window has
  fewer baseline buckets than required, or its score or its ratio to the baseline median reaches the threshold. Every
  reported anomaly comes from a bucket of the evaluation window, with that bucket's start, end and count; the count is the
  number of users created between the two, the end is not after the end of the scanned time, and no bucket is reported
  twice.\<close>

theorem anomaly_exact:
  assumes "runSignupAnomalyScan opts now users = Some r"
  shows "(\<forall>bk \<in> set (evaluation_series (resolveConfig opts) now users).
      (\<exists>a \<in> set (ar_anomalies r). sa_bucketStart a = sb_start bk) \<longleftrightarrow>
        dc_minCount (resolveConfig opts) \<le> sb_count bk
      \<and> (int (length (baseline_series (resolveConfig opts) now users)) < dc_minBaselineBuckets (resolveConfig opts)
         \<or> dc_zThreshold (resolveConfig opts) \<le> modifiedZScore (of_int (sb_count bk)) (ar_baseline r)
         \<or> dc_ratioThreshold (resolveConfig opts) \<le> of_int (sb_count bk) / max (bl_median (ar_baseline r)) 1))
    \<and> (\<forall>a \<in> set (ar_anomalies r). (\<exists>bk \<in> set (evaluation_series (resolveConfig opts) now users).
          sa_bucketStart a = sb_start bk \<and> sa_count a = sb_count bk)
        \<and> sa_bucketEnd a = sa_bucketStart a + dc_bucketMs (resolveConfig opts) \<and> sa_bucketEnd a \<le> ar_until r
        \<and> sa_count a = signups_between users (sa_bucketStart a) (sa_bucketEnd a))
    \<and> distinct (map sa_bucketStart (ar_anomalies r))"
proof (intro conjI ballI)
  fix bk
  assume bk: "bk \<in> set (evaluation_series (resolveConfig opts) now users)"
  let ?c = "resolveConfig opts" and ?b = "ar_baseline r"
  have w: "0 < dc_bucketMs ?c" using scan_Some [OF assms(1)] options_valid_config by blast
  have n: "bl_sampleSize ?b = length (baseline_series ?c now users)"
    unfolding scan_anomalies(2) [OF assms(1)] by (simp add: computeBaseline_def Let_def)
  have inj: "bk' = bk" if "bk' \<in> set (evaluation_series ?c now users)" "sb_start bk' = sb_start bk" for bk'
    using that bk w by (auto simp: evaluation_series_def bucket_at_def)
  have "(\<exists>a \<in> set (ar_anomalies r). sa_bucketStart a = sb_start bk) \<longleftrightarrow> score_bucket ?c ?b bk \<noteq> []"
  proof
    assume "\<exists>a \<in> set (ar_anomalies r). sa_bucketStart a = sb_start bk"
    then obtain a bk' where "bk' \<in> set (evaluation_series ?c now users)" "a \<in> set (score_bucket ?c ?b bk')" "sa_bucketStart a = sb_start bk"
      using anomaly_source [OF assms] by blast
    with score_bucket_set inj have "a \<in> set (score_bucket ?c ?b bk)" by metis
    then show "score_bucket ?c ?b bk \<noteq> []" by auto
  next
    assume "score_bucket ?c ?b bk \<noteq> []"
    then obtain a where a: "a \<in> set (score_bucket ?c ?b bk)" by (metis list.set_sel(1))
    with bk have "a \<in> set (ar_anomalies r)" unfolding scan_anomalies(1) [OF assms(1)] by blast
    with score_bucket_set [OF a] show "\<exists>a \<in> set (ar_anomalies r). sa_bucketStart a = sb_start bk" by blast
  qed
  then show "(\<exists>a \<in> set (ar_anomalies r). sa_bucketStart a = sb_start bk) \<longleftrightarrow> dc_minCount ?c \<le> sb_count bk
      \<and> (int (length (baseline_series ?c now users)) < dc_minBaselineBuckets ?c
         \<or> dc_zThreshold ?c \<le> modifiedZScore (of_int (sb_count bk)) ?b
         \<or> dc_ratioThreshold ?c \<le> of_int (sb_count bk) / max (bl_median ?b) 1)"
    unfolding score_bucket_iff by (auto simp: bucket_triggers_def bucket_score_def bucket_expected_def n)
next
  fix a
  assume "a \<in> set (ar_anomalies r)"
  then obtain bk where bk: "bk \<in> set (evaluation_series (resolveConfig opts) now users)"
    "a \<in> set (score_bucket (resolveConfig opts) (ar_baseline r) bk)" using anomaly_source [OF assms] by blast
  have e: "sa_bucketEnd a = sb_start bk + dc_bucketMs (resolveConfig opts)" using bk(2) by (auto simp: score_bucket_def Let_def split: if_splits)
  show "\<exists>bk \<in> set (evaluation_series (resolveConfig opts) now users). sa_bucketStart a = sb_start bk \<and> sa_count a = sb_count bk"
    using bk score_bucket_set by blast
  show "sa_bucketEnd a = sa_bucketStart a + dc_bucketMs (resolveConfig opts)" "sa_bucketEnd a \<le> ar_until r"
    "sa_count a = signups_between users (sa_bucketStart a) (sa_bucketEnd a)"
    using score_bucket_set [OF bk(2)] evaluated_bucket [OF assms bk(1)] by (simp_all add: e)
qed (rule anomalies_distinct [OF assms])

definition demo_options :: anomaly_options where
  "demo_options = \<lparr>ao_bucketMs = Some 3600000, ao_baselineWindowMs = Some 3600000, ao_evaluationWindowMs = Some 3600000,
     ao_zThreshold = None, ao_ratioThreshold = Some 1, ao_minCount = Some 1, ao_minBaselineBuckets = Some 1\<rparr>"

lemma demo_config:
  "resolveConfig demo_options = \<lparr>dc_bucketMs = 3600000, dc_baselineWindowMs = 3600000, dc_evaluationWindowMs = 3600000,
     dc_zThreshold = DEFAULT_Z_THRESHOLD, dc_ratioThreshold = 1, dc_minCount = 1, dc_minBaselineBuckets = 1\<rparr>"
  by (simp add: resolveConfig_def demo_options_def int_or_def)

lemma demo_valid: "options_valid demo_options"
  by (simp add: options_valid_def demo_config Let_def MAX_BUCKETS_PER_SCAN_def) (simp add: demo_options_def int_field_def num_field_def)

lemma demo_scan: "\<exists>r. runSignupAnomalyScan demo_options now users = Some r"
  by (simp add: runSignupAnomalyScan_def demo_valid Let_def split: prod.split)

lemma demo_series:
  "evaluation_series (resolveConfig demo_options) 7200005 users = [bucket_at (resolveConfig demo_options) 7200005 users 2]"
  "baseline_series (resolveConfig demo_options) 7200005 users = [bucket_at (resolveConfig demo_options) 7200005 users 1]"
  by (simp_all add: evaluation_series_def baseline_series_def evaluation_index_def until_index_def since_ms_def demo_config)

abbreviation demo_user :: user_row where
  "demo_user \<equiv> \<lparr>u_id = ''u1'', u_stellarAddress = ''GA'', u_createdAt = 7200003\<rparr>"

lemma demo_bucket:
  "bucket_at (resolveConfig demo_options) 7200005 [demo_user] 2 = \<lparr>sb_start = 7200000, sb_count = 1\<rparr>"
  "bucket_at (resolveConfig demo_options) 7200005 [demo_user] 1 = \<lparr>sb_start = 3600000, sb_count = 0\<rparr>"
  by (simp_all add: bucket_at_def since_ms_def until_index_def demo_config signups_between_def)

lemma scan_counts_signups_witness:
  "\<exists>r. runSignupAnomalyScan demo_options 7200005 [demo_user] = Some r \<and> ar_evaluated r = 1
    \<and> ar_totalSignups r = signups_between [demo_user] (ar_until r - 3600000) (ar_until r)"
proof -
  obtain r where r: "runSignupAnomalyScan demo_options 7200005 [demo_user] = Some r" using demo_scan by blast
  with scan_counts_signups [OF r] show ?thesis by (simp add: demo_config)
qed

lemma flood_detected_witness:
  "\<exists>r. runSignupAnomalyScan demo_options 7200005 [demo_user] = Some r
    \<and> (\<exists>a \<in> set (ar_anomalies r). sa_bucketStart a = 7200000 \<and> sa_count a = 1 \<and> sa_triggers a \<noteq> [])"
proof -
  obtain r where r: "runSignupAnomalyScan demo_options 7200005 [demo_user] = Some r" using demo_scan by blast
  have "\<lparr>sb_start = 7200000, sb_count = 1\<rparr> \<in> set (evaluation_series (resolveConfig demo_options) 7200005 [demo_user])"
    by (simp add: demo_series demo_bucket)
  from flood_detected [OF r this, of 0] r show ?thesis by (simp add: demo_series demo_bucket) (simp add: demo_config)
qed

theorem anomaly_exact_witness:
  "\<exists>r. runSignupAnomalyScan demo_options 7200005 [demo_user] = Some r
    \<and> ((\<exists>a \<in> set (ar_anomalies r). sa_bucketStart a = 7200000) \<longleftrightarrow>
         dc_zThreshold (resolveConfig demo_options) \<le> modifiedZScore 1 (ar_baseline r) \<or> 1 \<le> 1 / max (bl_median (ar_baseline r)) 1)"
proof -
  obtain r where r: "runSignupAnomalyScan demo_options 7200005 [demo_user] = Some r" using demo_scan by blast
  have "\<lparr>sb_start = 7200000, sb_count = 1\<rparr> \<in> set (evaluation_series (resolveConfig demo_options) 7200005 [demo_user])"
    by (simp add: demo_series demo_bucket)
  from anomaly_exact [OF r, THEN conjunct1, rule_format, OF this] r show ?thesis by (simp add: demo_series demo_bucket) (simp add: demo_config)
qed

end
