(* ===== verification/Utc_Calendar.thy ===== *)
theory Utc_Calendar
  imports Prelude
begin

text \<open>
  The UTC fields of a JavaScript \<^verbatim>\<open>Date\<close>, as the ECMAScript standard defines them, on the proleptic Gregorian
  calendar: days since 1970-01-01 and their year, month (counted from 0), day of month and weekday. A month is an
  interval of days (\<open>month_interval\<close>), which is what the calendar arithmetic of the scheduler needs.
\<close>

section \<open>Years\<close>

definition leap_year :: "int \<Rightarrow> bool" where
  "leap_year y \<longleftrightarrow> y mod 4 = 0 \<and> (y mod 100 \<noteq> 0 \<or> y mod 400 = 0)"

definition days_in_year :: "int \<Rightarrow> int" where
  "days_in_year y = (if leap_year y then 366 else 365)"

text \<open>\<^verbatim>\<open>DayFromYear\<close> of the standard.\<close>

definition day_from_year :: "int \<Rightarrow> int" where
  "day_from_year y = 365 * (y - 1970) + (y - 1969) div 4 - (y - 1901) div 100 + (y - 1601) div 400"

text \<open>\<^verbatim>\<open>YearFromTime\<close>: the year whose first day is the last one not after the day. The mean length of a year gives it up
  to one.\<close>

definition year_of_day :: "int \<Rightarrow> int" where
  "year_of_day d = (let y = 1970 + (400 * d) div 146097
     in if day_from_year (y + 1) \<le> d then y + 1 else if d < day_from_year y then y - 1 else y)"

lemma div_succ: "0 < (n :: int) \<Longrightarrow> (a + 1) div n = a div n + (if (a + 1) mod n = 0 then 1 else 0)"
proof -
  assume n: "0 < n"
  have "a + 1 = a div n * n + (a mod n + 1)" by simp
  moreover have "0 \<le> a mod n" "a mod n < n" using n by simp_all
  ultimately show ?thesis
  proof (cases "a mod n + 1 = n")
    case True
    then have "a + 1 = (a div n + 1) * n" using \<open>a + 1 = a div n * n + (a mod n + 1)\<close> by (simp add: algebra_simps)
    then have "(a + 1) div n = a div n + 1" "(a + 1) mod n = 0" using n by (metis nonzero_mult_div_cancel_right less_irrefl, metis mod_mult_self2_is_0)
    then show ?thesis by simp
  next
    case False
    with \<open>0 \<le> a mod n\<close> \<open>a mod n < n\<close> have r: "0 < a mod n + 1" "a mod n + 1 < n" by linarith+
    have "(a + 1) div n = a div n" using r \<open>a + 1 = a div n * n + (a mod n + 1)\<close>
      by (intro int_div_pos_eq [where r = "a mod n + 1"]) (simp_all add: mult.commute)
    moreover have "(a + 1) mod n = a mod n + 1" using r by (simp add: mod_add_eq [of a n 1, symmetric] mod_add_left_eq [of a n 1, symmetric])
    ultimately show ?thesis using r by simp
  qed
qed

lemma div_bounds: "0 < (n :: int) \<Longrightarrow> n * (a div n) \<le> a \<and> a < n * (a div n) + n"
  using mult_div_mod_eq [of n a] pos_mod_sign [of n a] pos_mod_bound [of n a] by linarith

lemma mod_shift: "(c :: int) mod n = 0 \<Longrightarrow> (y - c) mod n = y mod n"
  by (metis diff_zero mod_diff_right_eq)

lemma day_from_year_succ: "day_from_year (y + 1) = day_from_year y + days_in_year y"
proof -
  have step: "(y + 1 - c) div n = (y - c) div n + (if y mod n = 0 then 1 else 0)" if "0 < n" "(c - 1) mod n = 0" for c n :: int
  proof -
    have e: "y + 1 - c = y - c + 1" "y - c + 1 = y - (c - 1)" by simp_all
    have "(y - c + 1) mod n = y mod n" unfolding e(2) by (rule mod_shift [OF that(2)])
    with div_succ [OF that(1), of "y - c"] show ?thesis unfolding e(1) by simp
  qed
  have "400 dvd y \<Longrightarrow> 100 dvd y" "100 dvd y \<Longrightarrow> 4 dvd y" by (erule dvd_trans [rotated], simp)+
  then have m: "y mod 400 = 0 \<Longrightarrow> y mod 100 = 0" "y mod 100 = 0 \<Longrightarrow> y mod 4 = 0" by (simp_all add: mod_eq_0_iff_dvd)
  define p q r where "p = (y mod 4 = 0)" and "q = (y mod 100 = 0)" and "r = (y mod 400 = 0)"
  have imp: "r \<Longrightarrow> q" "q \<Longrightarrow> p" unfolding p_def q_def r_def by (fact m)+
  define a b c where "a = (y - 1969) div 4" and "b = (y - 1901) div 100" and "c = (y - 1601) div 400"
  have s: "(y + 1 - 1969) div 4 = a + (if p then 1 else 0)" "(y + 1 - 1901) div 100 = b + (if q then 1 else 0)"
    "(y + 1 - 1601) div 400 = c + (if r then 1 else 0)"
    unfolding a_def b_def c_def p_def q_def r_def by (rule step; simp)+
  have "365 * (y + 1 - 1970) + (a + (if p then 1 else 0)) - (b + (if q then 1 else 0)) + (c + (if r then 1 else 0))
      = 365 * (y - 1970) + a - b + c + (if p \<and> (\<not> q \<or> r) then 366 else 365)"
    using imp by (cases p; cases q; cases r) simp_all
  then show ?thesis
    unfolding day_from_year_def days_in_year_def leap_year_def s a_def [symmetric] b_def [symmetric] c_def [symmetric]
      p_def [symmetric] q_def [symmetric] r_def [symmetric] .
qed

lemma scaled_le: "400 * a \<le> 146097 * (x - 1) + 589 \<Longrightarrow> 146097 * x \<le> 400 * d \<Longrightarrow> a \<le> (d :: int)"
  by (simp add: algebra_simps)

lemma scaled_less: "146097 * (x + 2) - 506 \<le> 400 * a \<Longrightarrow> 400 * d < 146097 * x + 146097 \<Longrightarrow> d < (a :: int)"
  by (simp add: algebra_simps)

lemma day_from_year_mono: "y \<le> z \<Longrightarrow> day_from_year y + (z - y) \<le> day_from_year z"
proof (induction "nat (z - y)" arbitrary: z)
  case (Suc n)
  then have "day_from_year y + (z - 1 - y) \<le> day_from_year (z - 1)" by simp
  moreover have "1 \<le> days_in_year (z - 1)" by (simp add: days_in_year_def)
  ultimately show ?case using day_from_year_succ [of "z - 1"] by simp
qed simp

lemma day_from_year_bounds:
  "146097 * (y - 1970) - 506 \<le> 400 * day_from_year y \<and> 400 * day_from_year y \<le> 146097 * (y - 1970) + 589"
proof -
  show ?thesis
    using div_bounds [of 4 "y - 1969"] div_bounds [of 100 "y - 1901"] div_bounds [of 400 "y - 1601"]
    unfolding day_from_year_def by simp
qed

lemma year_of_day_spec: "day_from_year (year_of_day d) \<le> d \<and> d < day_from_year (year_of_day d + 1)"
proof -
  define x where "x = (400 * d) div 146097"
  let ?x = x
  have x: "146097 * ?x \<le> 400 * d" "400 * d < 146097 * ?x + 146097"
    unfolding x_def using div_bounds [of 146097 "400 * d"] by simp_all
  have "400 * day_from_year (1970 + ?x - 1) \<le> 146097 * (?x - 1) + 589" using day_from_year_bounds [of "1970 + ?x - 1"] by simp
  then have lo: "day_from_year (1970 + ?x - 1) \<le> d" using x(1) by (rule scaled_le)
  have "146097 * (?x + 2) - 506 \<le> 400 * day_from_year (1970 + ?x + 2)" using day_from_year_bounds [of "1970 + ?x + 2"] by simp
  then have hi: "d < day_from_year (1970 + ?x + 2)" using x(2) by (rule scaled_less)
  show ?thesis using lo hi by (auto simp: year_of_day_def Let_def x_def [symmetric] add.commute)
qed

lemma year_of_day_unique: "day_from_year y \<le> d \<Longrightarrow> d < day_from_year (y + 1) \<Longrightarrow> year_of_day d = y"
proof -
  assume a: "day_from_year y \<le> d" "d < day_from_year (y + 1)"
  note s = year_of_day_spec [of d]
  have "\<not> y + 1 \<le> year_of_day d" using day_from_year_mono [of "y + 1" "year_of_day d"] a s by linarith
  moreover have "\<not> year_of_day d + 1 \<le> y" using day_from_year_mono [of "year_of_day d + 1" y] a s by linarith
  ultimately show ?thesis by linarith
qed

section \<open>Months\<close>

text \<open>Days of the year before a month.\<close>

definition cum_days :: "bool \<Rightarrow> int \<Rightarrow> int" where
  "cum_days leap m = (let b = (if leap then 1 else 0) in
     if m \<le> 0 then 0 else if m = 1 then 31 else if m = 2 then 59 + b else if m = 3 then 90 + b else if m = 4 then 120 + b
     else if m = 5 then 151 + b else if m = 6 then 181 + b else if m = 7 then 212 + b else if m = 8 then 243 + b
     else if m = 9 then 273 + b else if m = 10 then 304 + b else if m = 11 then 334 + b else 365 + b)"

definition month_in_year :: "bool \<Rightarrow> int \<Rightarrow> int" where
  "month_in_year leap n = int (length (filter (\<lambda>m. cum_days leap m \<le> n) [1, 2, 3, 4, 5, 6, 7, 8, 9, 10, 11]))"

definition utc_month :: "int \<Rightarrow> int" where
  "utc_month d = month_in_year (leap_year (year_of_day d)) (d - day_from_year (year_of_day d))"

definition utc_date :: "int \<Rightarrow> int" where
  "utc_date d = d - day_from_year (year_of_day d) - cum_days (leap_year (year_of_day d)) (utc_month d) + 1"

text \<open>\<^verbatim>\<open>WeekDay\<close>: the epoch was a Thursday.\<close>

definition utc_day :: "int \<Rightarrow> int" where
  "utc_day d = (d + 4) mod 7"

text \<open>\<^verbatim>\<open>MakeDay\<close>: months outside 0 to 11 carry over into the year.\<close>

definition make_day :: "int \<Rightarrow> int \<Rightarrow> int \<Rightarrow> int" where
  "make_day y m dt = (let ym = y + m div 12; mn = m mod 12 in day_from_year ym + cum_days (leap_year ym) mn + dt - 1)"

lemma int_less_12: "0 \<le> m \<Longrightarrow> m < 12 \<Longrightarrow> m \<in> {0, 1, 2, 3, 4, 5, 6, 7, 8, 9, 10, 11 :: int}"
  by (simp only: insert_iff empty_iff) presburger

lemma month_in_year_iff:
  assumes "0 \<le> m" and "m < 12" and "0 \<le> n" and "n < cum_days leap 12"
  shows "month_in_year leap n = m \<longleftrightarrow> cum_days leap m \<le> n \<and> n < cum_days leap (m + 1)"
  using int_less_12 [OF assms(1,2)] assms(3,4) by (auto simp: month_in_year_def cum_days_def Let_def)

lemma cum_days_12: "cum_days (leap_year y) 12 = days_in_year y"
  by (simp add: cum_days_def days_in_year_def Let_def)

lemma month_in_year_range: "0 \<le> month_in_year leap n \<and> month_in_year leap n < 12"
proof -
  have "length (filter (\<lambda>m. cum_days leap m \<le> n) [1, 2, 3, 4, 5, 6, 7, 8, 9, 10, 11]) \<le> 11"
    using length_filter_le [of "\<lambda>m. cum_days leap m \<le> n" "[1, 2, 3, 4, 5, 6, 7, 8, 9, 10, 11]"] by simp
  then show ?thesis by (simp add: month_in_year_def)
qed

lemma year_offset: "0 \<le> d - day_from_year (year_of_day d) \<and> d - day_from_year (year_of_day d) < days_in_year (year_of_day d)"
  using year_of_day_spec [of d] day_from_year_succ [of "year_of_day d"] by linarith

text \<open>The days of one month form an interval, from its first day up to the first day of the next.\<close>

lemma month_interval:
  "make_day (year_of_day d) (utc_month d) 1 \<le> d \<and> d < make_day (year_of_day d) (utc_month d + 1) 1
   \<and> (d' \<ge> make_day (year_of_day d) (utc_month d) 1 \<longrightarrow> d' < make_day (year_of_day d) (utc_month d + 1) 1 \<longrightarrow>
        year_of_day d' = year_of_day d \<and> utc_month d' = utc_month d)"
proof -
  let ?y = "year_of_day d" and ?m = "utc_month d" and ?l = "leap_year (year_of_day d)"
  have m: "0 \<le> ?m" "?m < 12" using month_in_year_range by (simp_all add: utc_month_def)
  have off: "0 \<le> d - day_from_year ?y" "d - day_from_year ?y < cum_days ?l 12" using year_offset [of d] by (simp_all add: cum_days_12)
  have c: "cum_days ?l ?m \<le> d - day_from_year ?y" "d - day_from_year ?y < cum_days ?l (?m + 1)"
    using month_in_year_iff [OF m off] by (simp_all add: utc_month_def)
  have first: "make_day ?y ?m 1 = day_from_year ?y + cum_days ?l ?m" using m by (simp add: make_day_def Let_def)
  have next_month: "make_day ?y (?m + 1) 1 = day_from_year ?y + cum_days ?l (?m + 1)"
  proof (cases "?m = 11")
    case True
    then show ?thesis using cum_days_12 [of ?y] by (simp add: make_day_def Let_def day_from_year_succ cum_days_def)
  next
    case False
    then have "(?m + 1) div 12 = 0" "(?m + 1) mod 12 = ?m + 1" using m by simp_all
    then show ?thesis by (simp add: make_day_def Let_def)
  qed
  have "year_of_day d' = ?y \<and> utc_month d' = ?m" if "make_day ?y ?m 1 \<le> d'" "d' < make_day ?y (?m + 1) 1" for d'
  proof -
    have o': "cum_days ?l ?m \<le> d' - day_from_year ?y" "d' - day_from_year ?y < cum_days ?l (?m + 1)"
      using that first next_month by linarith+
    have "0 \<le> cum_days ?l ?m" "cum_days ?l (?m + 1) \<le> cum_days ?l 12"
      using int_less_12 [OF m] by (auto simp: cum_days_def Let_def)
    with o' have r: "0 \<le> d' - day_from_year ?y" "d' - day_from_year ?y < cum_days ?l 12" by linarith+
    have y: "year_of_day d' = ?y"
      by (rule year_of_day_unique) (use r in \<open>simp_all add: day_from_year_succ cum_days_12\<close>)
    with o' month_in_year_iff [OF m r] show ?thesis by (simp add: utc_month_def)
  qed
  moreover have "make_day ?y ?m 1 \<le> d" "d < make_day ?y (?m + 1) 1" using c unfolding first next_month by linarith+
  ultimately show ?thesis by blast
qed

end
