(* ===== verification/Cron.thy ===== *)
theory Cron
  imports Utc_Calendar Exact_Amounts
begin

text \<open>
  Cron expressions of \<^verbatim>\<open>src/services/scheduler.ts\<close>: \<^verbatim>\<open>parseCron\<close> with every error it throws, \<^verbatim>\<open>matchesCron\<close>, and
  \<^verbatim>\<open>nextCronSlot\<close> with its jumps from month to month, day to day, hour to hour and minute to minute. A \<^verbatim>\<open>Date\<close> is its
  time value in milliseconds; time values next to the limit of \<^verbatim>\<open>Date\<close> (the year 275760) are left out. A
  \<^verbatim>\<open>Set<number>\<close> is the list of its members in the order they were added.

  \<^item> \<open>next_slot_least\<close>: the slot is the first matching minute after the reference, and an error means there is none up to
    the end of the eighth year after it.
  \<^item> \<open>accepted_cron_fires\<close>: an accepted expression that leaves the weekday free always has a next slot.
  \<^item> \<open>accepted_cron_without_slot\<close>: with a weekday the validation accepts expressions that have none.
\<close>

section \<open>Parsing\<close>

datatype cron_error =
    InvalidToken string string
  | EmptyListElement string string
  | InvalidStepSyntax string string
  | StepOutOfBounds string int int
  | InvalidRange string string
  | RangeOutOfBounds string int int int int
  | StepRequiresRange string string
  | ValueOutOfBounds string int int int
  | EmptyExpression
  | FieldCount nat
  | ImpossibleDate string int "int list"
  | NoSlot string

record parsed_cron =
  pc_expression :: string
  pc_minutes :: "int list"
  pc_hours :: "int list"
  pc_daysOfMonth :: "int list"
  pc_months :: "int list"
  pc_daysOfWeek :: "int list"

definition MAX_DAYS_BY_MONTH :: "int \<Rightarrow> int" where
  "MAX_DAYS_BY_MONTH m = (if m = 2 then 29 else if m \<in> {4, 6, 9, 11} then 30 else 31)"

definition parseStrictInt :: "string \<Rightarrow> string \<Rightarrow> cron_error + int" where
  "parseStrictInt raw fieldName =
    (if raw = [] \<or> \<not> list_all is_digit raw then Inl (InvalidToken fieldName raw)
     else (case digits_value 10 0 raw of None \<Rightarrow> Inl (InvalidToken fieldName raw) | Some n \<Rightarrow> Inr (int n)))"

definition parse_step :: "string option \<Rightarrow> int \<Rightarrow> string \<Rightarrow> cron_error + int" where
  "parse_step stepPart mx fieldName = (case stepPart of
     None \<Rightarrow> Inr 1
   | Some raw \<Rightarrow> (case parseStrictInt raw fieldName of
       Inl e \<Rightarrow> Inl e
     | Inr step \<Rightarrow> if step < 1 \<or> step > mx then Inl (StepOutOfBounds fieldName step mx) else Inr step))"

definition parse_range :: "string \<Rightarrow> int \<Rightarrow> int \<Rightarrow> string \<Rightarrow> cron_error + int \<times> int" where
  "parse_range rangePart mn mx fieldName = (case js_split ''-'' rangePart of
     [lo, hi] \<Rightarrow>
       if lo = [] \<or> hi = [] then Inl (InvalidRange rangePart fieldName)
       else (case parseStrictInt lo fieldName of
         Inl e \<Rightarrow> Inl e
       | Inr rangeStart \<Rightarrow> (case parseStrictInt hi fieldName of
           Inl e \<Rightarrow> Inl e
         | Inr rangeEnd \<Rightarrow>
             if rangeStart < mn \<or> rangeEnd > mx \<or> rangeStart > rangeEnd
             then Inl (RangeOutOfBounds fieldName rangeStart rangeEnd mn mx) else Inr (rangeStart, rangeEnd)))
   | _ \<Rightarrow> Inl (InvalidRange rangePart fieldName))"

definition parse_bounds :: "string \<Rightarrow> string option \<Rightarrow> string \<Rightarrow> int \<Rightarrow> int \<Rightarrow> string \<Rightarrow> cron_error + int \<times> int" where
  "parse_bounds rangePart stepPart part mn mx fieldName =
    (if rangePart = ''*'' then Inr (mn, mx)
     else if CHR ''-'' \<in> set rangePart then parse_range rangePart mn mx fieldName
     else if stepPart \<noteq> None then Inl (StepRequiresRange fieldName part)
     else (case parseStrictInt rangePart fieldName of
       Inl e \<Rightarrow> Inl e
     | Inr single \<Rightarrow>
         if single < mn \<or> single > mx then Inl (ValueOutOfBounds fieldName single mn mx) else Inr (single, single)))"

text \<open>\<^verbatim>\<open>for (let v = rangeStart; v <= rangeEnd; v += step) values.add(v)\<close>, for a positive step.\<close>

function add_range :: "int \<Rightarrow> int \<Rightarrow> int \<Rightarrow> int list \<Rightarrow> int list" where
  "add_range v rangeEnd step values =
    (if 1 \<le> step \<and> v \<le> rangeEnd
     then add_range (v + step) rangeEnd step (if v \<in> set values then values else values @ [v]) else values)"
  by pat_completeness auto
termination by (relation "measure (\<lambda>(v, rangeEnd, step, values). nat (rangeEnd + 1 - v))") auto

declare add_range.simps [simp del]

definition parse_part :: "string \<Rightarrow> string \<Rightarrow> int \<Rightarrow> int \<Rightarrow> string \<Rightarrow> int list \<Rightarrow> cron_error + int list" where
  "parse_part part field mn mx fieldName values =
    (if part = [] then Inl (EmptyListElement fieldName field)
     else (let slashParts = js_split ''/'' part in
       if length slashParts > 2 then Inl (InvalidStepSyntax fieldName part)
       else (let rangePart = hd slashParts;
                 stepPart = (if length slashParts = 2 then Some (slashParts ! 1) else None)
         in case parse_step stepPart mx fieldName of
              Inl e \<Rightarrow> Inl e
            | Inr step \<Rightarrow> (case parse_bounds rangePart stepPart part mn mx fieldName of
                Inl e \<Rightarrow> Inl e
              | Inr (rangeStart, rangeEnd) \<Rightarrow> Inr (add_range rangeStart rangeEnd step values)))))"

fun parse_parts :: "string list \<Rightarrow> string \<Rightarrow> int \<Rightarrow> int \<Rightarrow> string \<Rightarrow> int list \<Rightarrow> cron_error + int list" where
  "parse_parts [] field mn mx fieldName values = Inr values"
| "parse_parts (part # parts) field mn mx fieldName values = (case parse_part part field mn mx fieldName values of
     Inl e \<Rightarrow> Inl e
   | Inr values' \<Rightarrow> parse_parts parts field mn mx fieldName values')"

definition parseCronField :: "string \<Rightarrow> int \<Rightarrow> int \<Rightarrow> string \<Rightarrow> cron_error + int list" where
  "parseCronField field mn mx fieldName = parse_parts (js_split '','' field) field mn mx fieldName []"

text \<open>\<^verbatim>\<open>s.split(/\s+/)\<close>.\<close>

function split_spaces :: "string \<Rightarrow> string list" where
  "split_spaces s = takeWhile (\<lambda>c. \<not> is_space c) s #
     (case dropWhile (\<lambda>c. \<not> is_space c) s of [] \<Rightarrow> [] | c # cs \<Rightarrow> split_spaces (dropWhile is_space cs))"
  by pat_completeness auto
termination
proof (relation "measure length")
  fix s c cs
  assume a: "dropWhile (\<lambda>c. \<not> is_space c) s = c # cs"
  have "length (c # cs) \<le> length s" unfolding a [symmetric] by (rule length_dropWhile_le)
  moreover have "length (dropWhile is_space cs) \<le> length cs" by (rule length_dropWhile_le)
  ultimately show "(dropWhile is_space cs, s) \<in> measure length" by simp
qed simp

declare split_spaces.simps [simp del]

definition canOccur :: "int list \<Rightarrow> int \<Rightarrow> bool" where
  "canOccur months day \<longleftrightarrow> list_ex (\<lambda>m. day \<le> MAX_DAYS_BY_MONTH m) months"

definition validate_dates :: "string \<Rightarrow> string \<Rightarrow> int list \<Rightarrow> int list \<Rightarrow> cron_error option" where
  "validate_dates expression domField daysOfMonth months =
    (if domField = ''*'' then None
     else map_option (\<lambda>day. ImpossibleDate expression day months) (find (\<lambda>day. \<not> canOccur months day) daysOfMonth))"

definition parse_fields :: "string \<Rightarrow> string \<Rightarrow> string \<Rightarrow> string \<Rightarrow> string \<Rightarrow> string \<Rightarrow> string \<Rightarrow> cron_error + parsed_cron" where
  "parse_fields expression trimmed minField hourField domField monthField dowField =
    (case parseCronField minField 0 59 ''minute'' of Inl e \<Rightarrow> Inl e | Inr minutes \<Rightarrow>
     (case parseCronField hourField 0 23 ''hour'' of Inl e \<Rightarrow> Inl e | Inr hours \<Rightarrow>
     (case parseCronField domField 1 31 ''day'' of Inl e \<Rightarrow> Inl e | Inr daysOfMonth \<Rightarrow>
     (case parseCronField monthField 1 12 ''month'' of Inl e \<Rightarrow> Inl e | Inr months \<Rightarrow>
     (case parseCronField dowField 0 6 ''weekday'' of Inl e \<Rightarrow> Inl e | Inr daysOfWeek \<Rightarrow>
     (case validate_dates expression domField daysOfMonth months of
        Some e \<Rightarrow> Inl e
      | None \<Rightarrow> Inr \<lparr>pc_expression = trimmed, pc_minutes = minutes, pc_hours = hours, pc_daysOfMonth = daysOfMonth,
                    pc_months = months, pc_daysOfWeek = daysOfWeek\<rparr>))))))"

definition parseCron :: "string \<Rightarrow> cron_error + parsed_cron" where
  "parseCron expression =
    (let trimmed = js_trim expression in
     if trimmed = [] then Inl EmptyExpression
     else (let fields = split_spaces trimmed in
       case fields of
         [minField, hourField, domField, monthField, dowField] \<Rightarrow>
           parse_fields expression trimmed minField hourField domField monthField dowField
       | _ \<Rightarrow> Inl (FieldCount (length fields))))"

section \<open>Matching\<close>

definition MS_PER_DAY :: int where "MS_PER_DAY = 86400000"
definition MS_PER_HOUR :: int where "MS_PER_HOUR = 3600000"
definition MS_PER_MINUTE :: int where "MS_PER_MINUTE = 60000"

definition getUTCFullYear :: "time \<Rightarrow> int" where "getUTCFullYear t = year_of_day (t div MS_PER_DAY)"
definition getUTCMonth :: "time \<Rightarrow> int" where "getUTCMonth t = utc_month (t div MS_PER_DAY)"
definition getUTCDate :: "time \<Rightarrow> int" where "getUTCDate t = utc_date (t div MS_PER_DAY)"
definition getUTCDay :: "time \<Rightarrow> int" where "getUTCDay t = utc_day (t div MS_PER_DAY)"
definition getUTCHours :: "time \<Rightarrow> int" where "getUTCHours t = (t div MS_PER_HOUR) mod 24"
definition getUTCMinutes :: "time \<Rightarrow> int" where "getUTCMinutes t = (t div MS_PER_MINUTE) mod 60"

definition matchesCron :: "parsed_cron \<Rightarrow> time \<Rightarrow> bool" where
  "matchesCron cron date \<longleftrightarrow>
     getUTCMinutes date \<in> set (pc_minutes cron) \<and> getUTCHours date \<in> set (pc_hours cron)
   \<and> getUTCDate date \<in> set (pc_daysOfMonth cron) \<and> getUTCMonth date + 1 \<in> set (pc_months cron)
   \<and> getUTCDay date \<in> set (pc_daysOfWeek cron)"

section \<open>The next slot\<close>

text \<open>The setters of \<^verbatim>\<open>Date\<close> the loop calls, as \<^verbatim>\<open>MakeDate\<close> of the standard.\<close>

definition make_date :: "int \<Rightarrow> int \<Rightarrow> time" where
  "make_date day ms = day * MS_PER_DAY + ms"

definition setUTCMonth :: "int \<Rightarrow> int \<Rightarrow> time \<Rightarrow> time" where
  "setUTCMonth m dt t = make_date (make_day (getUTCFullYear t) m dt) (t mod MS_PER_DAY)"

definition setUTCDate :: "int \<Rightarrow> time \<Rightarrow> time" where
  "setUTCDate dt t = make_date (make_day (getUTCFullYear t) (getUTCMonth t) dt) (t mod MS_PER_DAY)"

definition setUTCHours :: "int \<Rightarrow> int \<Rightarrow> int \<Rightarrow> int \<Rightarrow> time \<Rightarrow> time" where
  "setUTCHours h m s ms t = make_date (t div MS_PER_DAY) (h * MS_PER_HOUR + m * MS_PER_MINUTE + s * 1000 + ms)"

definition setUTCMinutes :: "int \<Rightarrow> int \<Rightarrow> int \<Rightarrow> time \<Rightarrow> time" where
  "setUTCMinutes m s ms t =
     make_date (t div MS_PER_DAY) (getUTCHours t * MS_PER_HOUR + m * MS_PER_MINUTE + s * 1000 + ms)"

text \<open>One iteration: \<open>None\<close> when the candidate is returned, otherwise the next candidate.\<close>

definition cron_jump :: "parsed_cron \<Rightarrow> time \<Rightarrow> time option" where
  "cron_jump parsed candidate =
    (if getUTCMonth candidate + 1 \<notin> set (pc_months parsed)
     then Some (setUTCHours 0 0 0 0 (setUTCMonth (getUTCMonth candidate + 1) 1 candidate))
     else if getUTCDate candidate \<notin> set (pc_daysOfMonth parsed) \<or> getUTCDay candidate \<notin> set (pc_daysOfWeek parsed)
     then Some (setUTCHours 0 0 0 0 (setUTCDate (getUTCDate candidate + 1) candidate))
     else if getUTCHours candidate \<notin> set (pc_hours parsed)
     then Some (setUTCHours (getUTCHours candidate + 1) 0 0 0 candidate)
     else if getUTCMinutes candidate \<notin> set (pc_minutes parsed)
     then Some (setUTCMinutes (getUTCMinutes candidate + 1) 0 0 candidate)
     else None)"

section \<open>The jumps skip no match\<close>

lemma div_mono_chain: "0 < (a :: int) \<Longrightarrow> 0 < k \<Longrightarrow> u div a = v div a \<Longrightarrow> u div (a * k) = v div (a * k)"
  by (simp add: zdiv_zmult2_eq)

lemma same_minute: "u div MS_PER_MINUTE = t div MS_PER_MINUTE \<Longrightarrow> u div MS_PER_HOUR = t div MS_PER_HOUR"
  using div_mono_chain [of MS_PER_MINUTE 60 u t] by (simp add: MS_PER_MINUTE_def MS_PER_HOUR_def)

lemma same_hour: "u div MS_PER_HOUR = t div MS_PER_HOUR \<Longrightarrow> u div MS_PER_DAY = t div MS_PER_DAY"
  using div_mono_chain [of MS_PER_HOUR 24 u t] by (simp add: MS_PER_DAY_def MS_PER_HOUR_def)

lemma div_interval: "0 < (n :: int) \<Longrightarrow> n * q \<le> u \<Longrightarrow> u < n * (q + 1) \<Longrightarrow> u div n = q"
  by (rule int_div_pos_eq [where r = "u - n * q"]) (simp_all add: algebra_simps)

lemma make_date_day: "0 \<le> ms \<Longrightarrow> ms < MS_PER_DAY \<Longrightarrow> make_date d ms div MS_PER_DAY = d"
  by (rule div_interval) (simp_all add: make_date_def MS_PER_DAY_def)

lemma set_month_zero:
  "setUTCHours 0 0 0 0 (setUTCMonth m dt t) = MS_PER_DAY * make_day (getUTCFullYear t) m dt"
proof -
  have "0 \<le> t mod MS_PER_DAY" "t mod MS_PER_DAY < MS_PER_DAY" by (simp_all add: MS_PER_DAY_def)
  then show ?thesis by (simp add: setUTCHours_def setUTCMonth_def make_date_day) (simp add: make_date_def)
qed

lemma make_day_self: "make_day (year_of_day d) (utc_month d) (utc_date d + k) = d + k"
proof -
  have "0 \<le> utc_month d" "utc_month d < 12" using month_in_year_range by (simp_all add: utc_month_def)
  then show ?thesis by (simp add: make_day_def utc_date_def Let_def)
qed

lemma set_date_zero: "setUTCHours 0 0 0 0 (setUTCDate (getUTCDate t + 1) t) = MS_PER_DAY * (t div MS_PER_DAY + 1)"
proof -
  have "0 \<le> t mod MS_PER_DAY" "t mod MS_PER_DAY < MS_PER_DAY" by (simp_all add: MS_PER_DAY_def)
  then show ?thesis
    by (simp add: setUTCHours_def setUTCDate_def make_date_day getUTCFullYear_def getUTCMonth_def getUTCDate_def make_day_self)
      (simp add: make_date_def)
qed

lemma day_hour: "MS_PER_DAY * (t div MS_PER_DAY) + MS_PER_HOUR * getUTCHours t = MS_PER_HOUR * (t div MS_PER_HOUR)"
proof -
  have "t div MS_PER_DAY = t div MS_PER_HOUR div 24"
    by (simp add: MS_PER_DAY_def MS_PER_HOUR_def zdiv_zmult2_eq [of 24 t 3600000, simplified])
  then have "t div MS_PER_HOUR = 24 * (t div MS_PER_DAY) + getUTCHours t" by (simp add: getUTCHours_def)
  then show ?thesis by (simp add: MS_PER_DAY_def MS_PER_HOUR_def)
qed

lemma hour_minute: "MS_PER_HOUR * (t div MS_PER_HOUR) + MS_PER_MINUTE * getUTCMinutes t = MS_PER_MINUTE * (t div MS_PER_MINUTE)"
proof -
  have "t div MS_PER_HOUR = t div MS_PER_MINUTE div 60"
    by (simp add: MS_PER_MINUTE_def MS_PER_HOUR_def zdiv_zmult2_eq [of 60 t 60000, simplified])
  then have "t div MS_PER_MINUTE = 60 * (t div MS_PER_HOUR) + getUTCMinutes t" by (simp add: getUTCMinutes_def)
  then show ?thesis by (simp add: MS_PER_MINUTE_def MS_PER_HOUR_def)
qed

lemma set_hour_next: "setUTCHours (getUTCHours t + 1) 0 0 0 t = MS_PER_HOUR * (t div MS_PER_HOUR + 1)"
  using day_hour [of t] by (simp add: setUTCHours_def make_date_def algebra_simps)

lemma set_minute_next: "setUTCMinutes (getUTCMinutes t + 1) 0 0 t = MS_PER_MINUTE * (t div MS_PER_MINUTE + 1)"
  using day_hour [of t] hour_minute [of t] by (simp add: setUTCMinutes_def make_date_def algebra_simps)

lemma between_div:
  assumes "0 < (n :: int)" and "t \<le> u" and "u < n * (t div n + 1)"
  shows "u div n = t div n"
proof (rule div_interval [OF assms(1) _ assms(3)])
  show "n * (t div n) \<le> u" using div_bounds [OF assms(1), of t] assms(2) by linarith
qed

lemma next_multiple: "0 < (n :: int) \<Longrightarrow> t < n * (t div n + 1)"
  using div_bounds [of n t] by (simp add: algebra_simps)

text \<open>A jump moves forward to a whole minute and passes over no match.\<close>

lemma month_jump:
  fixes t u :: time
  assumes "t \<le> u" and "u < MS_PER_DAY * make_day (getUTCFullYear t) (getUTCMonth t + 1) 1"
  shows "getUTCMonth u = getUTCMonth t"
proof -
  let ?d = "t div MS_PER_DAY" and ?e = "u div MS_PER_DAY"
  have pos: "0 < MS_PER_DAY" by (simp add: MS_PER_DAY_def)
  have "?d \<le> ?e" using assms(1) pos by (rule zdiv_mono1)
  moreover have "MS_PER_DAY * ?e < MS_PER_DAY * make_day (year_of_day ?d) (utc_month ?d + 1) 1"
    using div_bounds [OF pos, of u] assms(2) unfolding getUTCFullYear_def getUTCMonth_def by linarith
  then have "?e < make_day (year_of_day ?d) (utc_month ?d + 1) 1" using pos by simp
  ultimately show ?thesis using month_interval [of ?d ?e] unfolding getUTCMonth_def by linarith
qed

lemma month_jump_forward: "t < MS_PER_DAY * make_day (getUTCFullYear t) (getUTCMonth t + 1) 1"
proof -
  have pos: "0 < MS_PER_DAY" by (simp add: MS_PER_DAY_def)
  have "t div MS_PER_DAY + 1 \<le> make_day (getUTCFullYear t) (getUTCMonth t + 1) 1"
    using month_interval [of "t div MS_PER_DAY" 0] unfolding getUTCFullYear_def getUTCMonth_def by linarith
  then have "MS_PER_DAY * (t div MS_PER_DAY + 1) \<le> MS_PER_DAY * make_day (getUTCFullYear t) (getUTCMonth t + 1) 1"
    using pos by (intro mult_left_mono) simp_all
  with next_multiple [OF pos, of t] show ?thesis by linarith
qed

lemma jump_cases:
  assumes "(if a then Some w else if b then Some x else if c then Some y else if d then Some z else None) = Some r"
  obtains "a" "r = w" | "b" "r = x" | "c" "r = y" | "d" "r = z"
  using assms by (auto split: if_splits)

lemma cron_jump_sound:
  assumes "cron_jump c t = Some t'"
  shows "t < t' \<and> t' mod MS_PER_MINUTE = 0 \<and> (\<forall>u. t \<le> u \<longrightarrow> u < t' \<longrightarrow> \<not> matchesCron c u)"
proof -
  have pos: "0 < MS_PER_DAY" "0 < MS_PER_HOUR" "0 < MS_PER_MINUTE"
    by (simp_all add: MS_PER_DAY_def MS_PER_HOUR_def MS_PER_MINUTE_def)
  have whole: "(MS_PER_DAY * k) mod MS_PER_MINUTE = 0" "(MS_PER_HOUR * k) mod MS_PER_MINUTE = 0" "(MS_PER_MINUTE * k) mod MS_PER_MINUTE = 0" for k
    by (simp_all add: MS_PER_DAY_def MS_PER_HOUR_def MS_PER_MINUTE_def mod_eq_0_iff_dvd)
  from assms show ?thesis
    unfolding cron_jump_def set_month_zero set_date_zero set_hour_next set_minute_next
  proof (cases rule: jump_cases [case_names month day hour minute])
    case month
    have "\<not> matchesCron c u" if "t \<le> u" "u < t'" for u
    proof -
      have "getUTCMonth u = getUTCMonth t" using that unfolding month(2) by (rule month_jump)
      with month(1) show ?thesis by (simp add: matchesCron_def)
    qed
    moreover have "t < t'" "t' mod MS_PER_MINUTE = 0" unfolding month(2) by (rule month_jump_forward, rule whole(1))
    ultimately show ?thesis by blast
  next
    case day
    have "\<not> matchesCron c u" if "t \<le> u" "u < t'" for u
    proof -
      have "u div MS_PER_DAY = t div MS_PER_DAY" using that unfolding day(2) by (rule between_div [OF pos(1)])
      with day(1) show ?thesis by (auto simp add: matchesCron_def getUTCDate_def getUTCDay_def)
    qed
    moreover have "t < t'" "t' mod MS_PER_MINUTE = 0" unfolding day(2) by (rule next_multiple [OF pos(1)], rule whole(1))
    ultimately show ?thesis by blast
  next
    case hour
    have "\<not> matchesCron c u" if "t \<le> u" "u < t'" for u
    proof -
      have "u div MS_PER_HOUR = t div MS_PER_HOUR" using that unfolding hour(2) by (rule between_div [OF pos(2)])
      with hour(1) show ?thesis by (simp add: matchesCron_def getUTCHours_def)
    qed
    moreover have "t < t'" "t' mod MS_PER_MINUTE = 0" unfolding hour(2) by (rule next_multiple [OF pos(2)], rule whole(2))
    ultimately show ?thesis by blast
  next
    case minute
    have "\<not> matchesCron c u" if "t \<le> u" "u < t'" for u
    proof -
      have "u div MS_PER_MINUTE = t div MS_PER_MINUTE" using that unfolding minute(2) by (rule between_div [OF pos(3)])
      with minute(1) show ?thesis by (simp add: matchesCron_def getUTCMinutes_def)
    qed
    moreover have "t < t'" "t' mod MS_PER_MINUTE = 0" unfolding minute(2) by (rule next_multiple [OF pos(3)], rule whole(3))
    ultimately show ?thesis by blast
  qed
qed

lemma cron_jump_None: "cron_jump c t = None \<longleftrightarrow> matchesCron c t"
  by (auto simp: cron_jump_def matchesCron_def)

section \<open>The search\<close>

text \<open>\<^verbatim>\<open>while (candidate.getUTCFullYear() <= maxYear)\<close>. The candidates increase and the years are bounded, so it ends.\<close>

lemma div_less_iff_int: "0 < (n :: int) \<Longrightarrow> t div n < k \<longleftrightarrow> t < n * k"
proof
  assume n: "0 < n" and "t div n < k"
  then have "n * (t div n + 1) \<le> n * k" by (intro mult_left_mono) simp_all
  with next_multiple [OF n, of t] show "t < n * k" by linarith
next
  assume n: "0 < n" and "t < n * k"
  with div_bounds [OF n, of t] have "n * (t div n) < n * k" by linarith
  with n show "t div n < k" by simp
qed

lemma year_le_iff: "getUTCFullYear t \<le> y \<longleftrightarrow> t < MS_PER_DAY * day_from_year (y + 1)"
proof -
  let ?d = "t div MS_PER_DAY"
  have pos: "0 < MS_PER_DAY" by (simp add: MS_PER_DAY_def)
  have "year_of_day ?d \<le> y \<longleftrightarrow> ?d < day_from_year (y + 1)"
    using year_of_day_spec [of ?d] day_from_year_mono [of "year_of_day ?d + 1" "y + 1"] day_from_year_mono [of "y + 1" "year_of_day ?d"] by linarith
  moreover have "?d < k \<longleftrightarrow> t < MS_PER_DAY * k" for k
    using div_less_iff_int [OF pos, of t k] .
  ultimately show ?thesis by (simp add: getUTCFullYear_def)
qed

function cron_loop :: "parsed_cron \<Rightarrow> int \<Rightarrow> time \<Rightarrow> time option" where
  "cron_loop parsed maxYear candidate =
    (if getUTCFullYear candidate \<le> maxYear
     then (case cron_jump parsed candidate of
             None \<Rightarrow> Some candidate
           | Some candidate' \<Rightarrow> cron_loop parsed maxYear candidate')
     else None)"
  by pat_completeness auto
termination
proof (relation "measure (\<lambda>(parsed, maxYear, candidate). nat (MS_PER_DAY * day_from_year (maxYear + 1) - candidate))")
  fix parsed maxYear candidate candidate'
  assume a: "getUTCFullYear candidate \<le> maxYear" "cron_jump parsed candidate = Some candidate'"
  from a(2) have "candidate < candidate'" by (simp add: cron_jump_sound)
  moreover have "candidate < MS_PER_DAY * day_from_year (maxYear + 1)" using a(1) by (simp add: year_le_iff)
  ultimately show "((parsed, maxYear, candidate'), parsed, maxYear, candidate)
    \<in> measure (\<lambda>(parsed, maxYear, candidate). nat (MS_PER_DAY * day_from_year (maxYear + 1) - candidate))" by simp
qed simp

declare cron_loop.simps [simp del]

definition first_candidate :: "time \<Rightarrow> time" where
  "first_candidate fromDate = (fromDate div MS_PER_MINUTE) * MS_PER_MINUTE + MS_PER_MINUTE"

definition nextCronSlot :: "parsed_cron \<Rightarrow> time \<Rightarrow> cron_error + time" where
  "nextCronSlot parsed fromDate =
    (let candidate = first_candidate fromDate;
         maxYear = getUTCFullYear candidate + 8
     in case cron_loop parsed maxYear candidate of
          Some slot \<Rightarrow> Inr slot
        | None \<Rightarrow> Inl (NoSlot (pc_expression parsed)))"

lemma cron_loop_spec:
  assumes "t mod MS_PER_MINUTE = 0"
  shows "case cron_loop c y t of
     Some s \<Rightarrow> t \<le> s \<and> s mod MS_PER_MINUTE = 0 \<and> getUTCFullYear s \<le> y \<and> matchesCron c s \<and> (\<forall>u. t \<le> u \<longrightarrow> u < s \<longrightarrow> \<not> matchesCron c u)
   | None \<Rightarrow> (\<forall>u. t \<le> u \<longrightarrow> getUTCFullYear u \<le> y \<longrightarrow> \<not> matchesCron c u)"
  using assms
proof (induction c y t rule: cron_loop.induct)
  case (1 c y t)
  show ?case
  proof (cases "getUTCFullYear t \<le> y")
    case False
    then have "\<not> getUTCFullYear u \<le> y" if "t \<le> u" for u using that by (simp add: year_le_iff)
    with False show ?thesis by (simp add: cron_loop.simps [of c y t])
  next
    case True
    note le = this
    show ?thesis
    proof (cases "cron_jump c t")
      case None
      then have "matchesCron c t" "cron_loop c y t = Some t"
        using le by (simp_all add: cron_loop.simps [of c y t] cron_jump_None [symmetric])
      with le 1(2) show ?thesis by simp
    next
      case (Some t')
      note j = cron_jump_sound [OF Some]
      have unfold: "cron_loop c y t = cron_loop c y t'" using le Some by (simp add: cron_loop.simps [of c y t])
      have low: "\<not> matchesCron c u" if "t \<le> u" "u < t'" for u using j that by blast
      have IH: "case cron_loop c y t' of
          Some s \<Rightarrow> t' \<le> s \<and> s mod MS_PER_MINUTE = 0 \<and> getUTCFullYear s \<le> y \<and> matchesCron c s
            \<and> (\<forall>u. t' \<le> u \<longrightarrow> u < s \<longrightarrow> \<not> matchesCron c u)
        | None \<Rightarrow> (\<forall>u. t' \<le> u \<longrightarrow> getUTCFullYear u \<le> y \<longrightarrow> \<not> matchesCron c u)"
        using j by (intro 1(1) [OF le Some]) blast
      have split: "u < t' \<or> t' \<le> u" for u by linarith
      have tt: "t \<le> t'" using j by simp
      show ?thesis
      proof (cases "cron_loop c y t'")
        case None
        with IH have "t' \<le> u \<Longrightarrow> getUTCFullYear u \<le> y \<Longrightarrow> \<not> matchesCron c u" for u by simp
        with None unfold low split show ?thesis by fastforce
      next
        case (Some s)
        with IH have s: "t' \<le> s" "s mod MS_PER_MINUTE = 0" "getUTCFullYear s \<le> y" "matchesCron c s"
          and up: "t' \<le> u \<Longrightarrow> u < s \<Longrightarrow> \<not> matchesCron c u" for u by simp_all
        have "\<not> matchesCron c u" if "t \<le> u" "u < s" for u using split [of u] low up that by blast
        with s tt Some unfold show ?thesis by simp
      qed
    qed
  qed
qed


lemma Collect_none: "(\<And>u. P u \<Longrightarrow> Q u \<Longrightarrow> R u \<Longrightarrow> \<not> S u) \<Longrightarrow> {u. P u \<and> Q u \<and> R u \<and> S u} = {}"
  by blast

lemma cron_loop_None:
  assumes "cron_loop c y t = None" and "t mod MS_PER_MINUTE = 0"
  shows "\<forall>u. t \<le> u \<longrightarrow> getUTCFullYear u \<le> y \<longrightarrow> \<not> matchesCron c u"
  using cron_loop_spec [OF assms(2), where c = c and y = y] unfolding assms(1) option.case .

lemma cron_loop_Some:
  assumes "cron_loop c y t = Some s" and "t mod MS_PER_MINUTE = 0"
  shows "t \<le> s \<and> s mod MS_PER_MINUTE = 0 \<and> getUTCFullYear s \<le> y \<and> matchesCron c s \<and> (\<forall>u. t \<le> u \<longrightarrow> u < s \<longrightarrow> \<not> matchesCron c u)"
  using cron_loop_spec [OF assms(2), where c = c and y = y] unfolding assms(1) option.case .

lemma first_candidate_le: "start < u \<Longrightarrow> u mod MS_PER_MINUTE = 0 \<Longrightarrow> first_candidate start \<le> u"
proof -
  assume a: "start < u" "u mod MS_PER_MINUTE = 0"
  have pos: "0 < MS_PER_MINUTE" by (simp add: MS_PER_MINUTE_def)
  have u: "u = MS_PER_MINUTE * (u div MS_PER_MINUTE)" using a(2) mult_div_mod_eq [of MS_PER_MINUTE u] by simp
  have "start < MS_PER_MINUTE * (u div MS_PER_MINUTE)" using a(1) u by simp
  then have "start div MS_PER_MINUTE + 1 \<le> u div MS_PER_MINUTE" using div_less_iff_int [OF pos, of start] by (metis zless_imp_add1_zle)
  then have "MS_PER_MINUTE * (start div MS_PER_MINUTE + 1) \<le> MS_PER_MINUTE * (u div MS_PER_MINUTE)"
    using pos by (intro mult_left_mono) simp_all
  then show ?thesis unfolding u [symmetric] by (simp add: first_candidate_def algebra_simps)
qed

lemma first_candidate_after: "start < first_candidate start \<and> first_candidate start mod MS_PER_MINUTE = 0"
  using next_multiple [of MS_PER_MINUTE start] by (simp add: first_candidate_def MS_PER_MINUTE_def algebra_simps)

text \<open>C33. \<^verbatim>\<open>nextCronSlot\<close> gives the first whole minute strictly after the reference that matches the expression: no
  matching minute lies in between, whatever the months, days and hours the search jumps over. It throws only when no
  minute up to the end of the eighth year after the first candidate matches.\<close>

theorem next_slot_least:
  "case nextCronSlot c start of
     Inr s \<Rightarrow> start < s \<and> s mod MS_PER_MINUTE = 0 \<and> matchesCron c s
         \<and> {u. start < u \<and> u mod MS_PER_MINUTE = 0 \<and> u < s \<and> matchesCron c u} = {}
   | Inl e \<Rightarrow> e = NoSlot (pc_expression c)
         \<and> {u. start < u \<and> u mod MS_PER_MINUTE = 0 \<and> getUTCFullYear u \<le> getUTCFullYear (first_candidate start) + 8
                \<and> matchesCron c u} = {}"
proof -
  let ?t = "first_candidate start" and ?y = "getUTCFullYear (first_candidate start) + 8"
  note t = first_candidate_after [of start]
  show ?thesis
  proof (cases "cron_loop c ?y ?t")
    case None
    note no = cron_loop_None [OF None conjunct2 [OF t]]
    have "\<not> matchesCron c u" if "start < u" "u mod MS_PER_MINUTE = 0" "getUTCFullYear u \<le> ?y" for u
      using no first_candidate_le [OF that(1,2)] that(3) by blast
    then have "{u. start < u \<and> u mod MS_PER_MINUTE = 0 \<and> getUTCFullYear u \<le> ?y \<and> matchesCron c u} = {}"
      by (rule Collect_none)
    then show ?thesis unfolding nextCronSlot_def Let_def None option.case sum.case by (intro conjI refl)
  next
    case (Some s)
    note yes = cron_loop_Some [OF Some conjunct2 [OF t]]
    have "\<not> matchesCron c u" if "start < u" "u mod MS_PER_MINUTE = 0" "u < s" for u
      using yes first_candidate_le [OF that(1,2)] that(3) by blast
    then have "{u. start < u \<and> u mod MS_PER_MINUTE = 0 \<and> u < s \<and> matchesCron c u} = {}"
      by (rule Collect_none)
    moreover have "?t \<le> s" "s mod MS_PER_MINUTE = 0" "matchesCron c s" using yes by blast+
    moreover have "start < s" using \<open>?t \<le> s\<close> t by linarith
    ultimately show ?thesis unfolding nextCronSlot_def Let_def Some option.case sum.case by (intro conjI)
  qed
qed

section \<open>What an accepted expression contains\<close>

lemma add_range_old: "set vals \<subseteq> set (add_range v hi step vals)"
  by (induction v hi step vals rule: add_range.induct) (subst add_range.simps, auto split: if_splits)

lemma add_range_mem: "1 \<le> step \<Longrightarrow> v \<le> hi \<Longrightarrow> v \<in> set (add_range v hi step vals)"
  using add_range_old [of "if v \<in> set vals then vals else vals @ [v]" "v + step" hi step]
  by (subst add_range.simps) (auto split: if_splits)

lemma add_range_bounds: "set (add_range v hi step vals) \<subseteq> set vals \<union> {v..hi}"
proof (induction v hi step vals rule: add_range.induct)
  case (1 v hi step vals)
  show ?case
  proof (cases "1 \<le> step \<and> v \<le> hi")
    case True
    have "set (add_range v hi step vals) = set (add_range (v + step) hi step (if v \<in> set vals then vals else vals @ [v]))"
      using True by (subst add_range.simps) simp
    moreover have "set (if v \<in> set vals then vals else vals @ [v]) = insert v (set vals)" by auto
    ultimately show ?thesis using 1 [OF True] True by auto
  next
    case False
    then have "add_range v hi step vals = vals" by (subst add_range.simps) (simp only: if_False)
    then show ?thesis by simp
  qed
qed

lemma parse_step_pos: "parse_step sp mx n = Inr step \<Longrightarrow> 1 \<le> step"
  by (auto simp: parse_step_def split: option.splits sum.splits if_splits)

lemma parse_bounds_range: "parse_bounds r sp p mn mx n = Inr (lo, hi) \<Longrightarrow> mn \<le> mx \<Longrightarrow> mn \<le> lo \<and> lo \<le> hi \<and> hi \<le> mx"
  by (auto simp: parse_bounds_def parse_range_def split: list.splits sum.splits if_splits)

lemma parse_part_values:
  assumes "parse_part part field mn mx n vals = Inr vals'" and "mn \<le> mx" and "set vals \<subseteq> {mn..mx}"
  shows "vals' \<noteq> [] \<and> set vals' \<subseteq> {mn..mx}"
proof -
  from assms(1) obtain sp r step lo hi where s: "parse_step sp mx n = Inr step"
    and b: "parse_bounds r sp part mn mx n = Inr (lo, hi)" and v: "vals' = add_range lo hi step vals"
    by (auto simp: parse_part_def Let_def split: sum.splits if_splits)
  note range = parse_bounds_range [OF b assms(2)]
  have "lo \<in> set vals'" using add_range_mem [OF parse_step_pos [OF s], of lo hi vals] range v by simp
  moreover have "set vals' \<subseteq> {mn..mx}" using add_range_bounds [of lo hi step vals] range assms(3) v by auto
  ultimately show ?thesis by auto
qed

lemma parse_parts_values:
  "parse_parts parts field mn mx n vals = Inr vs \<Longrightarrow> mn \<le> mx \<Longrightarrow> set vals \<subseteq> {mn..mx} \<Longrightarrow> parts \<noteq> [] \<or> vals \<noteq> [] \<Longrightarrow>
   vs \<noteq> [] \<and> set vs \<subseteq> {mn..mx}"
proof (induction parts arbitrary: vals)
  case (Cons part parts)
  from Cons.prems(1) obtain vals' where p: "parse_part part field mn mx n vals = Inr vals'"
    and r: "parse_parts parts field mn mx n vals' = Inr vs" by (auto split: sum.splits)
  from parse_part_values [OF p Cons.prems(2,3)] Cons.IH [OF r Cons.prems(2)] show ?case by blast
qed auto

lemma js_split_not_Nil [simp]: "js_split sep s \<noteq> []"
  by (induction sep s rule: js_split.induct) (auto split: list.splits)

lemma parseCronField_values:
  "parseCronField field mn mx n = Inr vs \<Longrightarrow> mn \<le> mx \<Longrightarrow> vs \<noteq> [] \<and> set vs \<subseteq> {mn..mx}"
  unfolding parseCronField_def by (drule parse_parts_values) simp_all

lemma parseCronField_star: "mn \<le> mx \<Longrightarrow> \<exists>vs. parseCronField ''*'' mn mx n = Inr vs \<and> mn \<in> set vs"
  by (simp add: parseCronField_def parse_part_def parse_step_def parse_bounds_def add_range_mem)

lemma parse_fields_ok:
  assumes "parse_fields e tr fm fh fd fmo fw = Inr c"
  shows "parseCronField fm 0 59 ''minute'' = Inr (pc_minutes c) \<and> parseCronField fh 0 23 ''hour'' = Inr (pc_hours c)
    \<and> parseCronField fd 1 31 ''day'' = Inr (pc_daysOfMonth c) \<and> parseCronField fmo 1 12 ''month'' = Inr (pc_months c)
    \<and> parseCronField fw 0 6 ''weekday'' = Inr (pc_daysOfWeek c) \<and> validate_dates e fd (pc_daysOfMonth c) (pc_months c) = None"
  using assms unfolding parse_fields_def by (auto split: sum.splits option.splits)

definition accepted :: "parsed_cron \<Rightarrow> bool" where
  "accepted c \<longleftrightarrow> pc_minutes c \<noteq> [] \<and> set (pc_minutes c) \<subseteq> {0..59} \<and> pc_hours c \<noteq> [] \<and> set (pc_hours c) \<subseteq> {0..23}
     \<and> set (pc_months c) \<subseteq> {1..12} \<and> set (pc_daysOfMonth c) \<subseteq> {1..31}
     \<and> (\<exists>m \<in> set (pc_months c). \<exists>d \<in> set (pc_daysOfMonth c). d \<le> MAX_DAYS_BY_MONTH m)"

lemma parseCron_accepted: "parseCron e = Inr c \<Longrightarrow> accepted c"
proof -
  assume p: "parseCron e = Inr c"
  then obtain tr fm fh fd fmo fw where f: "parse_fields e tr fm fh fd fmo fw = Inr c"
    by (auto simp: parseCron_def Let_def split: if_splits list.splits)
  note q = parse_fields_ok [OF f]
  have mi: "pc_minutes c \<noteq> [] \<and> set (pc_minutes c) \<subseteq> {0..59}" using q by (elim conjE) (drule parseCronField_values [of fm], simp_all)
  have h: "pc_hours c \<noteq> [] \<and> set (pc_hours c) \<subseteq> {0..23}" using q by (elim conjE) (drule parseCronField_values [of fh], simp_all)
  have d: "pc_daysOfMonth c \<noteq> [] \<and> set (pc_daysOfMonth c) \<subseteq> {1..31}" using q by (elim conjE) (drule parseCronField_values [of fd], simp_all)
  have m: "pc_months c \<noteq> [] \<and> set (pc_months c) \<subseteq> {1..12}" using q by (elim conjE) (drule parseCronField_values [of fmo], simp_all)
  have "\<exists>m \<in> set (pc_months c). \<exists>d \<in> set (pc_daysOfMonth c). d \<le> MAX_DAYS_BY_MONTH m"
  proof (cases "fd = ''*''")
    case True
    with parseCronField_star [of 1 31 "''day''"] q have "1 \<in> set (pc_daysOfMonth c)" by auto
    moreover obtain m where "m \<in> set (pc_months c)" using m by (cases "pc_months c") auto
    moreover have "1 \<le> MAX_DAYS_BY_MONTH m" by (simp add: MAX_DAYS_BY_MONTH_def)
    ultimately show ?thesis by blast
  next
    case False
    obtain d where "d \<in> set (pc_daysOfMonth c)" using d by (cases "pc_daysOfMonth c") auto
    moreover with False q have "canOccur (pc_months c) d" by (auto simp: validate_dates_def find_None_iff)
    ultimately show ?thesis by (auto simp: canOccur_def list_ex_iff)
  qed
  with mi h d m show ?thesis by (simp add: accepted_def)
qed


section \<open>Whether there is a slot\<close>

lemma leap_within_8: "\<exists>k. 1 \<le> k \<and> k \<le> 8 \<and> leap_year (y + k)"
proof -
  define a where "a = 4 - y mod 4"
  have a: "1 \<le> a" "a \<le> 4" by (simp_all add: a_def)
  have "y + a = 4 + (y - y mod 4)" by (simp add: a_def)
  then have e: "y + a = 4 * (1 + y div 4)" unfolding minus_mod_eq_mult_div by simp
  then have m: "(y + a) mod 4 = 0" "(y + (a + 4)) mod 4 = 0" unfolding add.assoc [symmetric] e by simp_all
  have "\<not> ((y + a) mod 100 = 0 \<and> (y + (a + 4)) mod 100 = 0)"
  proof
    assume "(y + a) mod 100 = 0 \<and> (y + (a + 4)) mod 100 = 0"
    then have "100 dvd (y + (a + 4)) - (y + a)" by (intro dvd_diff) (simp_all add: mod_eq_0_iff_dvd)
    then show False by simp
  qed
  then have "leap_year (y + a) \<or> leap_year (y + (a + 4))" using m by (auto simp: leap_year_def)
  then show ?thesis
  proof
    assume "leap_year (y + a)"
    with a show ?thesis by (intro exI [where x = a]) simp
  next
    assume "leap_year (y + (a + 4))"
    with a show ?thesis by (intro exI [where x = "a + 4"]) simp
  qed
qed

lemma month_days: "1 \<le> m \<Longrightarrow> m \<le> 12 \<Longrightarrow> cum_days True m = cum_days True (m - 1) + MAX_DAYS_BY_MONTH m"
  using int_less_12 [of "m - 1"] by (auto simp: cum_days_def MAX_DAYS_BY_MONTH_def Let_def)

lemma cum_days_range: "0 \<le> m \<Longrightarrow> m < 12 \<Longrightarrow> 0 \<le> cum_days leap m \<and> cum_days leap (m + 1) \<le> cum_days leap 12"
  using int_less_12 [of m] by (auto simp: cum_days_def Let_def)

text \<open>In a leap year every day the validation allows exists.\<close>

lemma leap_day_fields:
  assumes "leap_year y" and "1 \<le> m" and "m \<le> 12" and "1 \<le> d" and "d \<le> MAX_DAYS_BY_MONTH m"
  shows "year_of_day (make_day y (m - 1) d) = y \<and> utc_month (make_day y (m - 1) d) = m - 1 \<and> utc_date (make_day y (m - 1) d) = d"
proof -
  let ?t = "make_day y (m - 1) d" and ?n = "cum_days True (m - 1) + d - 1"
  have m: "0 \<le> m - 1" "m - 1 < 12" using assms by simp_all
  have t: "?t = day_from_year y + ?n" using assms(1) m by (simp add: make_day_def Let_def)
  have r: "0 \<le> cum_days True (m - 1)" "cum_days True (m - 1 + 1) \<le> cum_days True 12" using cum_days_range [OF m] by blast+
  have n: "0 \<le> ?n" "?n < cum_days True 12" "cum_days True (m - 1) \<le> ?n" "?n < cum_days True (m - 1 + 1)"
    using r month_days [OF assms(2,3)] assms(4,5) by simp_all
  have y: "year_of_day ?t = y"
  proof (rule year_of_day_unique)
    show "day_from_year y \<le> ?t" unfolding t using n(1) by linarith
    show "?t < day_from_year (y + 1)"
      unfolding t day_from_year_succ cum_days_12 [symmetric] using n(2) assms(1) by simp
  qed
  have "utc_month ?t = m - 1"
    using month_in_year_iff [OF m n(1,2)] n(3,4) y assms(1) unfolding utc_month_def t by simp
  moreover then have "utc_date ?t = d" using y assms(1) unfolding utc_date_def t by simp
  ultimately show ?thesis using y by blast
qed

lemma clock_fields:
  assumes "0 \<le> h" and "h \<le> 23" and "0 \<le> mi" and "mi \<le> 59"
  shows "(D * MS_PER_DAY + (h * MS_PER_HOUR + mi * MS_PER_MINUTE)) div MS_PER_DAY = D
    \<and> getUTCHours (D * MS_PER_DAY + (h * MS_PER_HOUR + mi * MS_PER_MINUTE)) = h
    \<and> getUTCMinutes (D * MS_PER_DAY + (h * MS_PER_HOUR + mi * MS_PER_MINUTE)) = mi"
proof -
  let ?t = "D * MS_PER_DAY + (h * MS_PER_HOUR + mi * MS_PER_MINUTE)"
  have "?t div MS_PER_DAY = D" using assms by (intro div_interval) (simp_all add: MS_PER_DAY_def MS_PER_HOUR_def MS_PER_MINUTE_def)
  moreover have "?t div MS_PER_HOUR = h + D * 24"
    using assms by (intro div_interval) (simp_all add: MS_PER_DAY_def MS_PER_HOUR_def MS_PER_MINUTE_def)
  moreover have "?t div MS_PER_MINUTE = mi + (h + D * 24) * 60"
    using assms by (intro div_interval) (simp_all add: MS_PER_DAY_def MS_PER_HOUR_def MS_PER_MINUTE_def)
  moreover have "(mi + (h + D * 24) * 60) mod 60 = mi" "(h + D * 24) mod 24 = h"
    unfolding mod_mult_self1 using assms by simp_all
  ultimately show ?thesis unfolding getUTCHours_def getUTCMinutes_def by simp
qed

lemma match_within_8_years:
  assumes "accepted c" and "{0..6} \<subseteq> set (pc_daysOfWeek c)"
  shows "\<exists>u. first_candidate start \<le> u \<and> getUTCFullYear u \<le> getUTCFullYear (first_candidate start) + 8 \<and> matchesCron c u"
proof -
  let ?y = "getUTCFullYear (first_candidate start)"
  from leap_within_8 obtain k where k: "1 \<le> k" "k \<le> 8" "leap_year (?y + k)" by blast
  from assms(1) obtain m d where md: "m \<in> set (pc_months c)" "d \<in> set (pc_daysOfMonth c)" "d \<le> MAX_DAYS_BY_MONTH m"
    by (auto simp: accepted_def)
  with assms(1) have range: "1 \<le> m" "m \<le> 12" "1 \<le> d" by (auto simp: accepted_def)
  obtain h where h: "h \<in> set (pc_hours c)" using assms(1) by (cases "pc_hours c") (auto simp: accepted_def)
  obtain mi where mi: "mi \<in> set (pc_minutes c)" using assms(1) by (cases "pc_minutes c") (auto simp: accepted_def)
  have clock: "0 \<le> h" "h \<le> 23" "0 \<le> mi" "mi \<le> 59" using assms(1) h mi by (auto simp: accepted_def)
  define D where "D = make_day (?y + k) (m - 1) d"
  define u where "u = D * MS_PER_DAY + (h * MS_PER_HOUR + mi * MS_PER_MINUTE)"
  note f = clock_fields [OF clock, of D, folded u_def]
  note g = leap_day_fields [OF k(3) range md(3), folded D_def]
  have y: "getUTCFullYear u = ?y + k" using f g by (simp add: getUTCFullYear_def)
  have "getUTCDay u \<in> {0..6}" by (simp add: getUTCDay_def utc_day_def)
  then have "matchesCron c u"
    using f g h mi md assms(2) by (auto simp: matchesCron_def getUTCDate_def getUTCMonth_def)
  moreover have "\<not> getUTCFullYear u \<le> ?y" using y k(1) by simp
  then have "first_candidate start \<le> u"
    unfolding year_le_iff using year_le_iff [of "first_candidate start" ?y] by simp
  ultimately show ?thesis using y k(2) by (intro exI [where x = u]) simp
qed

lemma unrestricted_slot:
  assumes "accepted c" and "{0..6} \<subseteq> set (pc_daysOfWeek c)"
  shows "\<exists>s. nextCronSlot c start = Inr s"
proof (cases "cron_loop c (getUTCFullYear (first_candidate start) + 8) (first_candidate start)")
  case None
  have w: "first_candidate start mod MS_PER_MINUTE = 0" using first_candidate_after by blast
  from match_within_8_years [OF assms, of start] cron_loop_None [OF None w] show ?thesis by blast
next
  case (Some s)
  then show ?thesis by (simp add: nextCronSlot_def Let_def)
qed

lemma nextCronSlot_Inr:
  assumes "nextCronSlot c start = Inr s"
  shows "start < s \<and> s mod MS_PER_MINUTE = 0 \<and> matchesCron c s"
proof -
  note t = first_candidate_after [of start]
  from assms have "cron_loop c (getUTCFullYear (first_candidate start) + 8) (first_candidate start) = Some s"
    by (simp add: nextCronSlot_def Let_def split: option.splits)
  note r = cron_loop_Some [OF this conjunct2 [OF t]]
  from r have "first_candidate start \<le> s" "s mod MS_PER_MINUTE = 0" "matchesCron c s" by blast+
  moreover from this(1) t have "start < s" by linarith
  ultimately show ?thesis by blast
qed

text \<open>C34. An expression \<^verbatim>\<open>parseCron\<close> accepts and that does not restrict the weekday always has a next slot: the check
  against the longest length of each month rules out every impossible date, and eight years always hold a 29
  February, over a century that is not a leap year too.\<close>

theorem accepted_cron_fires:
  assumes "parseCron e = Inr c" and "{0..6} \<subseteq> set (pc_daysOfWeek c)"
  shows "\<exists>s. nextCronSlot c start = Inr s"
  using parseCron_accepted [OF assms(1)] assms(2) by (rule unrestricted_slot)

definition feb29_cron :: parsed_cron where
  "feb29_cron = \<lparr>pc_expression = ''30 4 29 2 *'', pc_minutes = [30], pc_hours = [4], pc_daysOfMonth = [29], pc_months = [2],
     pc_daysOfWeek = [0, 1, 2, 3, 4, 5, 6]\<rparr>"

lemma parse_feb29: "parseCron ''30 4 29 2 *'' = Inr feb29_cron"
  by code_simp

theorem accepted_cron_fires_witness: "\<exists>s. nextCronSlot feb29_cron 3981657600000 = Inr s"
proof (rule accepted_cron_fires [OF parse_feb29])
  show "{0..6} \<subseteq> set (pc_daysOfWeek feb29_cron)" by code_simp
qed


definition leap_monday :: parsed_cron where
  "leap_monday = \<lparr>pc_expression = ''0 0 29 2 1'', pc_minutes = [0], pc_hours = [0], pc_daysOfMonth = [29], pc_months = [2],
     pc_daysOfWeek = [1]\<rparr>"

lemma parse_leap_monday: "parseCron ''0 0 29 2 1'' = Inr leap_monday"
  by code_simp

lemma feb29_is_leap: "utc_month d = 1 \<Longrightarrow> utc_date d = 29 \<Longrightarrow> leap_year (year_of_day d) \<and> d = day_from_year (year_of_day d) + 59"
proof -
  let ?y = "year_of_day d"
  let ?n = "d - day_from_year ?y"
  assume a: "utc_month d = 1" "utc_date d = 29"
  have n: "?n = 59" using a by (simp add: utc_date_def cum_days_def Let_def)
  have off: "0 \<le> ?n" "?n < cum_days (leap_year ?y) 12" using year_offset [of d] unfolding cum_days_12 by blast+
  have "month_in_year (leap_year ?y) ?n = 1" using a(1) by (simp add: utc_month_def)
  then have "?n < cum_days (leap_year ?y) (1 + 1)" using month_in_year_iff [of 1 ?n, OF _ _ off] by simp
  with n show ?thesis by (cases "leap_year ?y") (simp_all add: cum_days_def Let_def)
qed

lemma no_leap_monday:
  assumes "2017 \<le> y" and "y \<le> 2043" and "leap_year y"
  shows "utc_day (day_from_year y + 59) \<noteq> 1"
proof -
  define q where "q = y div 4"
  have "y mod 4 = 0" using assms(3) by (simp add: leap_year_def)
  then have y: "y = 4 * q" unfolding q_def using mult_div_mod_eq [of 4 y] by simp
  with assms have "505 \<le> q" "q \<le> 510" by simp_all
  then have "q = 505 \<or> q = 506 \<or> q = 507 \<or> q = 508 \<or> q = 509 \<or> q = 510" by linarith
  then show ?thesis unfolding y by (elim disjE) (simp_all add: utc_day_def day_from_year_def)
qed

lemma leap_monday_none:
  assumes "2017 \<le> getUTCFullYear u" and "getUTCFullYear u \<le> 2043"
  shows "\<not> matchesCron leap_monday u"
proof
  let ?d = "u div MS_PER_DAY"
  assume "matchesCron leap_monday u"
  then have "utc_month ?d = 1" "utc_date ?d = 29" "utc_day ?d = 1"
    by (simp_all add: matchesCron_def leap_monday_def getUTCMonth_def getUTCDate_def getUTCDay_def)
  with feb29_is_leap [of ?d] no_leap_monday [of "year_of_day ?d"] assms show False by (auto simp: getUTCFullYear_def)
qed

text \<open>The validation accepts \<^verbatim>\<open>0 0 29 2 1\<close>, a 29 February that is a Monday, but \<^verbatim>\<open>nextCronSlot\<close> throws for it from
  every reference between 2017 and 2035: the next such day is more than eight years away. \<^verbatim>\<open>Scheduler.schedule\<close> has
  stored the task by then, so the task stays registered without a timer.\<close>

lemma accepted_cron_without_slot:
  assumes "2017 \<le> getUTCFullYear (first_candidate start)" and "getUTCFullYear (first_candidate start) \<le> 2035"
  shows "parseCron ''0 0 29 2 1'' = Inr leap_monday \<and> nextCronSlot leap_monday start = Inl (NoSlot ''0 0 29 2 1'')"
proof -
  let ?t = "first_candidate start" and ?y = "getUTCFullYear (first_candidate start) + 8"
  have w: "?t mod MS_PER_MINUTE = 0" using first_candidate_after by blast
  have "cron_loop leap_monday ?y ?t = None"
  proof (rule ccontr)
    assume "cron_loop leap_monday ?y ?t \<noteq> None"
    then obtain s where "cron_loop leap_monday ?y ?t = Some s" by blast
    note s = cron_loop_Some [OF this w]
    have "2017 \<le> getUTCFullYear s" using s assms(1) year_le_iff [of s 2016] year_le_iff [of ?t 2016] by linarith
    with leap_monday_none [of s] s assms(2) show False by simp
  qed
  then show ?thesis by (simp add: nextCronSlot_def parse_leap_monday) (simp add: leap_monday_def)
qed

lemma accepted_cron_without_slot_witness:
  "parseCron ''0 0 29 2 1'' = Inr leap_monday \<and> nextCronSlot leap_monday 1767225600000 = Inl (NoSlot ''0 0 29 2 1'')"
  by (rule accepted_cron_without_slot) code_simp+

end
