(* ===== verification/Slot_Scheduler.thy ===== *)
theory Slot_Scheduler
  imports Cron
begin

text \<open>
  The class \<^verbatim>\<open>Scheduler\<close> of \<^verbatim>\<open>src/services/scheduler.ts\<close> and the deterministic job ids of the reconciliation queue.
  A timer of \<^verbatim>\<open>setTimeout\<close> is a pending callback with the variables it closes over; every run of the event loop is one
  step, in any order and with any clock reading. An entry is an object that is compared by identity, so it carries a
  number. \<open>sc_runs\<close> records the calls of a task, with the clock reading of the timer that fired it (\<open>None\<close> for a direct
  call of \<^verbatim>\<open>runSlotIfNotExecuted\<close>); what the task returns is chosen by the environment.

  \<^item> \<open>slots_strictly_increase\<close>: one registered task is fired for strictly increasing slots, none before its time.
  \<^item> \<open>stopped_tasks_have_no_timer\<close>: every pending timer belongs to a registered task, which has at most one.
  \<^item> \<open>slot_guard_window\<close>: the in-process guard refuses a slot until 1024 other keys have been recorded.
  \<^item> \<open>slot_id_determines_minute\<close>: different minutes have different job ids.
\<close>

section \<open>Slot keys\<close>

definition pad_int :: "nat \<Rightarrow> int \<Rightarrow> string" where
  "pad_int n i = padStart n CHR ''0'' (nat_to_string (nat i))"

text \<open>\<^verbatim>\<open>date.toISOString()\<close>: four digits of the year from 0 to 9999, a sign and six digits otherwise.\<close>

definition iso_year :: "int \<Rightarrow> string" where
  "iso_year y = (if 0 \<le> y \<and> y \<le> 9999 then pad_int 4 y
     else if y < 0 then CHR ''-'' # pad_int 6 (- y) else CHR ''+'' # pad_int 6 y)"

definition toISOString :: "time \<Rightarrow> string" where
  "toISOString t = iso_year (getUTCFullYear t) @ ''-'' @ pad_int 2 (getUTCMonth t + 1) @ ''-'' @ pad_int 2 (getUTCDate t)
     @ ''T'' @ pad_int 2 (getUTCHours t) @ '':'' @ pad_int 2 (getUTCMinutes t)
     @ '':'' @ pad_int 2 ((t div 1000) mod 60) @ ''.'' @ pad_int 3 (t mod 1000) @ ''Z''"

definition formatSlotIsoMinute :: "time \<Rightarrow> string" where
  "formatSlotIsoMinute date = take 16 (toISOString date) @ ''Z''"

definition buildReconciliationJobId :: "time \<Rightarrow> string" where
  "buildReconciliationJobId slotDate = ''reconciliation:'' @ formatSlotIsoMinute slotDate"

definition MAX_TIMEOUT_MS :: int where "MAX_TIMEOUT_MS = 2147483647"
definition MAX_TRACKED_SLOTS :: nat where "MAX_TRACKED_SLOTS = 1024"

text \<open>A \<^verbatim>\<open>Set<string>\<close> is the list of its members, the oldest first.\<close>

definition addBoundedSlot :: "string list \<Rightarrow> string \<Rightarrow> string list" where
  "addBoundedSlot slots key =
    (let slots' = (if length slots \<ge> MAX_TRACKED_SLOTS then tl slots else slots)
     in if key \<in> set slots' then slots' else slots' @ [key])"

datatype task_outcome = Enqueued | Deduped

record queue_call =
  qc_name :: string
  qc_jobId :: string

text \<open>\<open>inQueue\<close> is the answer of \<^verbatim>\<open>queue.getJob\<close>, \<open>None\<close> for a queue without it; \<open>addFails\<close> a rejection of \<^verbatim>\<open>queue.add\<close>.
  The result is the outcome, \<open>None\<close> when the error propagates, the calls of the queue and the set of seen ids.\<close>

definition enqueueReconciliationJob ::
  "time \<Rightarrow> (string \<Rightarrow> bool) option \<Rightarrow> bool \<Rightarrow> string list \<Rightarrow> task_outcome option \<times> queue_call list \<times> string list" where
  "enqueueReconciliationJob slotDate inQueue addFails seenSet =
    (let jobId = buildReconciliationJobId slotDate;
         existingInQueue = (case inQueue of None \<Rightarrow> False | Some has \<Rightarrow> has jobId);
         alreadySeen = jobId \<in> set seenSet;
         call = \<lparr>qc_name = ''reconciliation-job'', qc_jobId = jobId\<rparr>
     in if addFails then (None, [call], seenSet)
        else (Some (if existingInQueue \<or> alreadySeen then Deduped else Enqueued), [call], addBoundedSlot seenSet jobId))"

section \<open>The scheduler\<close>

record task_entry =
  te_id :: nat
  te_name :: string
  te_cron :: parsed_cron
  te_timer :: "nat option"

record pending_timer =
  tm_handle :: nat
  tm_entry :: nat
  tm_name :: string
  tm_target :: time
  tm_wait :: int

record task_run =
  rn_entry :: nat
  rn_name :: string
  rn_cron :: parsed_cron
  rn_slot :: time
  rn_seen :: "time option"

text \<open>A continuation after \<^verbatim>\<open>await entry.task(slotDate)\<close>; \<open>rc_fired\<close> tells whether \<^verbatim>\<open>fireSlot\<close> waits for it.\<close>

record run_cont =
  rc_entry :: nat
  rc_name :: string
  rc_slot :: time
  rc_fired :: bool

record sched =
  sc_tasks :: "(string \<times> task_entry) list"
  sc_executed :: "string list"
  sc_timers :: "pending_timer list"
  sc_running :: "run_cont list"
  sc_next :: nat
  sc_runs :: "task_run list"
  sc_metrics :: "(string \<times> string) list"

definition new_scheduler :: sched where
  "new_scheduler = \<lparr>sc_tasks = [], sc_executed = [], sc_timers = [], sc_running = [], sc_next = 0, sc_runs = [], sc_metrics = []\<rparr>"

text \<open>\<^verbatim>\<open>this.tasks.get(name) === entry\<close>.\<close>

definition current_entry :: "string \<Rightarrow> nat \<Rightarrow> sched \<Rightarrow> task_entry option" where
  "current_entry name i s = (case map_of (sc_tasks s) name of
     Some e \<Rightarrow> if te_id e = i then Some e else None | None \<Rightarrow> None)"

definition wait_ms :: "time \<Rightarrow> time \<Rightarrow> int" where
  "wait_ms targetSlot now = min (max 0 (targetSlot - now)) MAX_TIMEOUT_MS"

definition armTimerUntilSlot :: "task_entry \<Rightarrow> time \<Rightarrow> time \<Rightarrow> sched \<Rightarrow> sched" where
  "armTimerUntilSlot entry targetSlot now s =
     s\<lparr>sc_timers := sc_timers s @ [\<lparr>tm_handle = sc_next s, tm_entry = te_id entry, tm_name = te_name entry,
                                   tm_target = targetSlot, tm_wait = wait_ms targetSlot now\<rparr>],
       sc_tasks := AList.update (te_name entry) (entry\<lparr>te_timer := Some (sc_next s)\<rparr>) (sc_tasks s),
       sc_next := sc_next s + 1\<rparr>"

definition armNextSlot :: "task_entry \<Rightarrow> time \<Rightarrow> time \<Rightarrow> sched \<Rightarrow> sched \<times> cron_error option" where
  "armNextSlot entry referenceDate now s = (case nextCronSlot (te_cron entry) referenceDate of
     Inl e \<Rightarrow> (s, Some e)
   | Inr nextSlot \<Rightarrow> (armTimerUntilSlot entry nextSlot now s, None))"

definition schedule :: "string \<Rightarrow> string \<Rightarrow> time \<Rightarrow> time \<Rightarrow> sched \<Rightarrow> sched \<times> cron_error option" where
  "schedule name cronExpression now now' s = (case parseCron cronExpression of
     Inl e \<Rightarrow> (s, Some e)
   | Inr parsedCron \<Rightarrow>
       if map_of (sc_tasks s) name \<noteq> None then (s, None)
       else (let entry = \<lparr>te_id = sc_next s, te_name = name, te_cron = parsedCron, te_timer = None\<rparr>
         in armNextSlot entry now now' (s\<lparr>sc_tasks := AList.update name entry (sc_tasks s), sc_next := sc_next s + 1\<rparr>)))"

definition slot_key :: "string \<Rightarrow> time \<Rightarrow> string" where
  "slot_key name slotDate = name @ '':'' @ formatSlotIsoMinute slotDate"

text \<open>The part of \<^verbatim>\<open>runSlotIfNotExecuted\<close> up to its \<^verbatim>\<open>await\<close>, and whether it calls the task.\<close>

definition runSlotIfNotExecuted :: "time option \<Rightarrow> string \<Rightarrow> time \<Rightarrow> sched \<Rightarrow> sched \<times> bool" where
  "runSlotIfNotExecuted seen name slotDate s = (case map_of (sc_tasks s) name of
     None \<Rightarrow> (s, False)
   | Some entry \<Rightarrow>
       (let key = slot_key (te_name entry) slotDate in
        if key \<in> set (sc_executed s) then (s, False)
        else (s\<lparr>sc_executed := addBoundedSlot (sc_executed s) key,
                sc_running := sc_running s @ [\<lparr>rc_entry = te_id entry, rc_name = te_name entry, rc_slot = slotDate,
                                                    rc_fired = (seen \<noteq> None)\<rparr>],
                sc_runs := sc_runs s @ [\<lparr>rn_entry = te_id entry, rn_name = te_name entry, rn_cron = te_cron entry,
                                          rn_slot = slotDate, rn_seen = seen\<rparr>]\<rparr>, True)))"

text \<open>The \<^verbatim>\<open>finally\<close> of \<^verbatim>\<open>fireSlot\<close>; an error of \<^verbatim>\<open>armNextSlot\<close> is an unhandled rejection and leaves the entry without
  a timer.\<close>

definition fireSlot_finally :: "nat \<Rightarrow> string \<Rightarrow> time \<Rightarrow> time \<Rightarrow> time \<Rightarrow> sched \<Rightarrow> sched" where
  "fireSlot_finally i name slotDate now now' s = (case current_entry name i s of
     None \<Rightarrow> s
   | Some entry \<Rightarrow> fst (armNextSlot entry (max now slotDate) now' s))"

definition fireSlot :: "task_entry \<Rightarrow> time \<Rightarrow> time \<Rightarrow> time \<Rightarrow> time \<Rightarrow> sched \<Rightarrow> sched" where
  "fireSlot entry slotDate seen now now' s = (case runSlotIfNotExecuted (Some seen) (te_name entry) slotDate s of
     (s1, True) \<Rightarrow> s1
   | (s1, False) \<Rightarrow> fireSlot_finally (te_id entry) (te_name entry) slotDate now now' s1)"

definition timer_callback :: "pending_timer \<Rightarrow> time \<Rightarrow> time \<Rightarrow> time \<Rightarrow> sched \<Rightarrow> sched" where
  "timer_callback tm now now' now'' s = (case current_entry (tm_name tm) (tm_entry tm) s of
     None \<Rightarrow> s
   | Some entry \<Rightarrow>
       if now < tm_target tm then armTimerUntilSlot entry (tm_target tm) now' s
       else fireSlot entry (tm_target tm) now now' now'' s)"

text \<open>What the task gave: a result (\<open>Some Deduped\<close> is the string \<^verbatim>\<open>deduped\<close>) or an error.\<close>

datatype task_result = Gave "task_outcome option" | Threw

definition outcome_label :: "task_result \<Rightarrow> string" where
  "outcome_label r = (case r of Threw \<Rightarrow> ''error'' | Gave (Some Deduped) \<Rightarrow> ''deduped'' | Gave _ \<Rightarrow> ''enqueued'')"

definition finish_run :: "run_cont \<Rightarrow> task_result \<Rightarrow> time \<Rightarrow> time \<Rightarrow> sched \<Rightarrow> sched" where
  "finish_run rc r now now' s =
    (let s1 = s\<lparr>sc_running := remove1 rc (sc_running s), sc_metrics := sc_metrics s @ [(rc_name rc, outcome_label r)]\<rparr>
     in if rc_fired rc then fireSlot_finally (rc_entry rc) (rc_name rc) (rc_slot rc) now now' s1 else s1)"

definition unschedule :: "string \<Rightarrow> sched \<Rightarrow> sched" where
  "unschedule name s = (case map_of (sc_tasks s) name of
     None \<Rightarrow> s
   | Some entry \<Rightarrow> s\<lparr>sc_timers := filter (\<lambda>tm. Some (tm_handle tm) \<noteq> te_timer entry) (sc_timers s),
                      sc_tasks := AList.delete name (sc_tasks s)\<rparr>)"

definition stopAll :: "sched \<Rightarrow> sched" where
  "stopAll s = s\<lparr>sc_timers := filter (\<lambda>tm. \<forall>e \<in> snd ` set (sc_tasks s). Some (tm_handle tm) \<noteq> te_timer e) (sc_timers s),
                 sc_tasks := []\<rparr>"

definition initializeScheduler :: "bool \<Rightarrow> string \<Rightarrow> time \<Rightarrow> time \<Rightarrow> sched \<Rightarrow> sched \<times> cron_error option" where
  "initializeScheduler enabled scheduleExpr now now' s =
    (if enabled then schedule ''reconciliation'' scheduleExpr now now' s else (s, None))"

inductive sched_step :: "sched \<Rightarrow> sched \<Rightarrow> bool" where
  S_schedule: "sched_step s (fst (schedule name expr now now' s))"
| S_timer: "tm \<in> set (sc_timers s) \<Longrightarrow> sched_step s (timer_callback tm now now' now'' (s\<lparr>sc_timers := remove1 tm (sc_timers s)\<rparr>))"
| S_run: "sched_step s (fst (runSlotIfNotExecuted None name slot s))"
| S_finish: "rc \<in> set (sc_running s) \<Longrightarrow> sched_step s (finish_run rc r now now' s)"
| S_unschedule: "sched_step s (unschedule name s)"
| S_stop: "sched_step s (stopAll s)"


section \<open>The invariant of the scheduler\<close>

definition fired_runs :: "nat \<Rightarrow> sched \<Rightarrow> time list" where
  "fired_runs i s = map rn_slot (filter (\<lambda>r. rn_entry r = i \<and> rn_seen r \<noteq> None) (sc_runs s))"

text \<open>The entries that a pending timer or a fired run will arm again.\<close>

definition owners :: "sched \<Rightarrow> nat list" where
  "owners s = map tm_entry (sc_timers s) @ map rc_entry (filter rc_fired (sc_running s))"

definition unrestricted :: "parsed_cron \<Rightarrow> bool" where
  "unrestricted c \<longleftrightarrow> accepted c \<and> {0..6} \<subseteq> set (pc_daysOfWeek c)"

definition tasks_ok :: "(string \<times> task_entry) list \<Rightarrow> nat \<Rightarrow> bool" where
  "tasks_ok tasks n \<longleftrightarrow> (\<forall>k e. map_of tasks k = Some e \<longrightarrow> te_name e = k \<and> te_id e < n)
     \<and> (\<forall>k e k' e'. map_of tasks k = Some e \<longrightarrow> map_of tasks k' = Some e' \<longrightarrow> te_id e = te_id e' \<longrightarrow> k = k')
     \<and> (\<forall>k e h. map_of tasks k = Some e \<longrightarrow> te_timer e = Some h \<longrightarrow> h < n)
     \<and> (\<forall>k e k' e' h. map_of tasks k = Some e \<longrightarrow> map_of tasks k' = Some e' \<longrightarrow> te_timer e = Some h \<longrightarrow> te_timer e' = Some h \<longrightarrow> k = k')"

definition owners_ok :: "sched \<Rightarrow> bool" where
  "owners_ok s \<longleftrightarrow> distinct (owners s) \<and> (\<forall>i \<in> set (owners s). i < sc_next s)
     \<and> distinct (map tm_handle (sc_timers s)) \<and> (\<forall>tm \<in> set (sc_timers s). tm_handle tm < sc_next s)"

definition timer_ok :: "sched \<Rightarrow> pending_timer \<Rightarrow> bool" where
  "timer_ok s tm \<longleftrightarrow> 0 \<le> tm_wait tm \<and> tm_wait tm \<le> MAX_TIMEOUT_MS
     \<and> (\<exists>e. map_of (sc_tasks s) (tm_name tm) = Some e \<and> te_id e = tm_entry tm \<and> te_timer e = Some (tm_handle tm)
          \<and> matchesCron (te_cron e) (tm_target tm) \<and> tm_target tm mod MS_PER_MINUTE = 0)
     \<and> (\<forall>x \<in> set (fired_runs (tm_entry tm) s). x < tm_target tm)"

definition run_ok :: "nat \<Rightarrow> task_run \<Rightarrow> bool" where
  "run_ok n r \<longleftrightarrow> rn_entry r < n \<and> (\<forall>w. rn_seen r = Some w \<longrightarrow>
     rn_slot r \<le> w \<and> rn_slot r mod MS_PER_MINUTE = 0 \<and> matchesCron (rn_cron r) (rn_slot r))"

definition runs_ok :: "sched \<Rightarrow> bool" where
  "runs_ok s \<longleftrightarrow> (\<forall>i. sorted_wrt (<) (fired_runs i s)) \<and> (\<forall>r \<in> set (sc_runs s). run_ok (sc_next s) r)
     \<and> (\<forall>rc \<in> set (sc_running s). rc_fired rc \<longrightarrow> (\<forall>x \<in> set (fired_runs (rc_entry rc) s). x \<le> rc_slot rc))"

text \<open>Every task whose cron cannot run dry is armed, but for the entries in \<open>X\<close>.\<close>

definition armed :: "nat set \<Rightarrow> sched \<Rightarrow> bool" where
  "armed X s \<longleftrightarrow> (\<forall>k e. map_of (sc_tasks s) k = Some e \<longrightarrow> unrestricted (te_cron e) \<longrightarrow> te_id e \<in> X \<union> set (owners s))"

definition named :: "sched \<Rightarrow> nat \<Rightarrow> string \<Rightarrow> bool" where
  "named s i name \<longleftrightarrow> (\<forall>k e. map_of (sc_tasks s) k = Some e \<longrightarrow> te_id e = i \<longrightarrow> k = name)"

definition sched_inv :: "nat set \<Rightarrow> sched \<Rightarrow> bool" where
  "sched_inv X s \<longleftrightarrow> tasks_ok (sc_tasks s) (sc_next s) \<and> owners_ok s \<and> (\<forall>tm \<in> set (sc_timers s). timer_ok s tm) \<and> runs_ok s
     \<and> (\<forall>rc \<in> set (sc_running s). rc_fired rc \<longrightarrow> named s (rc_entry rc) (rc_name rc)) \<and> armed X s"

lemma tasks_ok_name: "tasks_ok T n \<Longrightarrow> map_of T k = Some e \<Longrightarrow> te_name e = k \<and> te_id e < n"
  by (simp add: tasks_ok_def)

lemma tasks_ok_inj: "tasks_ok T n \<Longrightarrow> map_of T k = Some e \<Longrightarrow> map_of T k' = Some e' \<Longrightarrow> te_id e = te_id e' \<Longrightarrow> k = k'"
  unfolding tasks_ok_def by blast

lemma tasks_ok_handle: "tasks_ok T n \<Longrightarrow> map_of T k = Some e \<Longrightarrow> te_timer e = Some h \<Longrightarrow> h < n"
  unfolding tasks_ok_def by blast

lemma tasks_ok_handle_inj:
  "tasks_ok T n \<Longrightarrow> map_of T k = Some e \<Longrightarrow> map_of T k' = Some e' \<Longrightarrow> te_timer e = Some h \<Longrightarrow> te_timer e' = Some h \<Longrightarrow> k = k'"
  unfolding tasks_ok_def by blast

lemma tasks_ok_new:
  assumes t: "tasks_ok T n" and e: "te_id e = n" "te_name e = name" "te_timer e = None"
  shows "tasks_ok (AList.update name e T) (n + 1)"
proof -
  have c: "k = name \<and> f = e \<or> map_of T k = Some f" if "map_of (AList.update name e T) k = Some f" for k f
    using that by (auto simp: update_conv' split: if_splits)
  show ?thesis
    unfolding tasks_ok_def
  proof (intro conjI allI impI)
    fix k f assume "map_of (AList.update name e T) k = Some f"
    from c [OF this] show "te_name f = k" "te_id f < n + 1" using e tasks_ok_name [OF t, of k f] by auto
  next
    fix k f k' f' assume a: "map_of (AList.update name e T) k = Some f" "map_of (AList.update name e T) k' = Some f'" "te_id f = te_id f'"
    from c [OF a(1)] c [OF a(2)] show "k = k'"
      using e a(3) tasks_ok_name [OF t, of k f] tasks_ok_name [OF t, of k' f'] tasks_ok_inj [OF t, of k f k' f'] by auto
  next
    fix k f h assume a: "map_of (AList.update name e T) k = Some f" "te_timer f = Some h"
    from c [OF a(1)] show "h < n + 1" using e a(2) tasks_ok_handle [OF t, of k f h] by auto
  next
    fix k f k' f' h assume a: "map_of (AList.update name e T) k = Some f" "map_of (AList.update name e T) k' = Some f'"
      "te_timer f = Some h" "te_timer f' = Some h"
    from c [OF a(1)] c [OF a(2)] show "k = k'" using e a(3,4) tasks_ok_handle_inj [OF t, of k f k' f' h] by auto
  qed
qed

lemma tasks_ok_delete:
  assumes t: "tasks_ok T n"
  shows "tasks_ok (AList.delete name T) n"
proof -
  have c: "map_of T k = Some f" if "map_of (AList.delete name T) k = Some f" for k f
    using that by (auto simp: delete_conv' split: if_splits)
  show ?thesis
    unfolding tasks_ok_def
  proof (intro conjI allI impI)
    fix k f assume "map_of (AList.delete name T) k = Some f"
    from tasks_ok_name [OF t c [OF this]] show "te_name f = k" "te_id f < n" by simp_all
  next
    fix k f k' f' assume a: "map_of (AList.delete name T) k = Some f" "map_of (AList.delete name T) k' = Some f'" "te_id f = te_id f'"
    show "k = k'" using tasks_ok_inj [OF t c [OF a(1)] c [OF a(2)] a(3)] .
  next
    fix k f h assume a: "map_of (AList.delete name T) k = Some f" "te_timer f = Some h"
    show "h < n" using tasks_ok_handle [OF t c [OF a(1)] a(2)] .
  next
    fix k f k' f' h assume a: "map_of (AList.delete name T) k = Some f" "map_of (AList.delete name T) k' = Some f'"
      "te_timer f = Some h" "te_timer f' = Some h"
    show "k = k'" using tasks_ok_handle_inj [OF t c [OF a(1)] c [OF a(2)] a(3,4)] .
  qed
qed

lemma wait_ms_bounds: "0 \<le> wait_ms x y \<and> wait_ms x y \<le> MAX_TIMEOUT_MS"
  by (simp add: wait_ms_def MAX_TIMEOUT_MS_def)

text \<open>Arming an entry that nothing else will arm.\<close>

lemma arm_inv:
  assumes inv: "sched_inv (insert (te_id entry) X) s" and cur: "map_of (sc_tasks s) (te_name entry) = Some entry"
    and free: "te_id entry \<notin> set (owners s)" and later: "\<forall>x \<in> set (fired_runs (te_id entry) s). x < target"
    and match: "matchesCron (te_cron entry) target" "target mod MS_PER_MINUTE = 0"
  shows "sched_inv X (armTimerUntilSlot entry target now s)"
proof -
  let ?s = "armTimerUntilSlot entry target now s" and ?e = "entry\<lparr>te_timer := Some (sc_next s)\<rparr>"
  have m: "map_of (sc_tasks ?s) = (map_of (sc_tasks s))(te_name entry \<mapsto> ?e)" by (simp add: armTimerUntilSlot_def update_conv')
  have fr: "fired_runs i ?s = fired_runs i s" for i by (simp add: armTimerUntilSlot_def fired_runs_def)
  have ow: "set (owners ?s) = insert (te_id entry) (set (owners s))" by (auto simp: armTimerUntilSlot_def owners_def)
  have t: "tasks_ok (sc_tasks s) (sc_next s)" and o: "owners_ok s" and tm: "\<forall>tm \<in> set (sc_timers s). timer_ok s tm"
    and r: "runs_ok s" and a: "armed (insert (te_id entry) X) s" using inv by (simp_all add: sched_inv_def)
  have id: "te_id entry < sc_next s" using t cur unfolding tasks_ok_def by blast
  have orig: "te_name e = k \<and> te_id e < sc_next ?s \<and> (\<forall>h. te_timer e = Some h \<longrightarrow> h < sc_next ?s)
      \<and> (\<exists>e'. map_of (sc_tasks s) k = Some e' \<and> te_id e' = te_id e)"
      if "map_of (sc_tasks ?s) k = Some e" for k e
  proof (cases "k = te_name entry")
    case True
    then show ?thesis using that id cur unfolding m by (auto simp: armTimerUntilSlot_def)
  next
    case False
    then have "map_of (sc_tasks s) k = Some e" using that unfolding m by simp
    with t show ?thesis unfolding tasks_ok_def armTimerUntilSlot_def by (auto intro: less_SucI)
  qed
  have handles: "k = k'" if "map_of (sc_tasks ?s) k = Some e" "map_of (sc_tasks ?s) k' = Some e'"
      "te_timer e = Some h" "te_timer e' = Some h" for k e k' e' h
    using that t unfolding m tasks_ok_def by (auto split: if_splits) (metis less_irrefl)+
  have "tasks_ok (sc_tasks ?s) (sc_next ?s)"
    unfolding tasks_ok_def
  proof (intro conjI allI impI)
    fix k e k' e' assume k: "map_of (sc_tasks ?s) k = Some e" "map_of (sc_tasks ?s) k' = Some e'" "te_id e = te_id e'"
    from orig [OF k(1)] orig [OF k(2)] k(3) obtain f f' where
      "map_of (sc_tasks s) k = Some f" "map_of (sc_tasks s) k' = Some f'" "te_id f = te_id f'" by auto
    then show "k = k'" using t unfolding tasks_ok_def by blast
  qed (use orig handles in blast)+
  moreover have "owners_ok ?s"
  proof -
    have "distinct (owners ?s)" using o free by (auto simp: owners_ok_def owners_def armTimerUntilSlot_def)
    moreover have "i < sc_next ?s" if "i \<in> set (owners ?s)" for i
      using that o id unfolding ow owners_ok_def by (auto simp: armTimerUntilSlot_def intro: less_SucI)
    moreover have "distinct (map tm_handle (sc_timers ?s))" using o by (auto simp: owners_ok_def armTimerUntilSlot_def)
    moreover have "tm_handle x < sc_next ?s" if "x \<in> set (sc_timers ?s)" for x
      using that o by (auto simp: owners_ok_def armTimerUntilSlot_def intro: less_SucI)
    ultimately show ?thesis unfolding owners_ok_def by blast
  qed
  moreover have "timer_ok ?s x" if "x \<in> set (sc_timers ?s)" for x
  proof (cases "x \<in> set (sc_timers s)")
    case True
    then have "tm_entry x \<noteq> te_id entry" using free by (force simp: owners_def)
    with tm True cur show ?thesis unfolding timer_ok_def fr m by auto
  next
    case False
    with that have "x = \<lparr>tm_handle = sc_next s, tm_entry = te_id entry, tm_name = te_name entry, tm_target = target, tm_wait = wait_ms target now\<rparr>"
      by (simp add: armTimerUntilSlot_def)
    with later match show ?thesis unfolding timer_ok_def fr m by (simp add: wait_ms_bounds)
  qed
  moreover have "runs_ok ?s" using r unfolding runs_ok_def fr
    by (auto simp: armTimerUntilSlot_def run_ok_def intro: less_SucI)
  moreover have "named ?s i k" if "named s i k" for i k using that orig unfolding named_def by metis
  then have "\<forall>rc \<in> set (sc_running ?s). rc_fired rc \<longrightarrow> named ?s (rc_entry rc) (rc_name rc)"
    using inv by (simp add: sched_inv_def armTimerUntilSlot_def)
  moreover have "armed X ?s" using a cur unfolding armed_def m ow by auto
  ultimately show ?thesis by (simp add: sched_inv_def)
qed


lemma armNext_inv:
  assumes inv: "sched_inv (insert (te_id entry) X) s" and cur: "map_of (sc_tasks s) (te_name entry) = Some entry"
    and free: "te_id entry \<notin> set (owners s)" and later: "\<forall>x \<in> set (fired_runs (te_id entry) s). x \<le> ref"
  shows "sched_inv X (fst (armNextSlot entry ref now s))"
proof (cases "nextCronSlot (te_cron entry) ref")
  case (Inl err)
  have "\<not> unrestricted (te_cron entry)"
    using Inl unrestricted_slot [of "te_cron entry" ref] by (auto simp: unrestricted_def)
  moreover have "e = entry" if "map_of (sc_tasks s) k = Some e" "te_id e = te_id entry" for k e
    using inv cur that unfolding sched_inv_def tasks_ok_def by (metis option.inject)
  ultimately have "armed X s" using inv unfolding sched_inv_def armed_def by blast
  then show ?thesis using inv Inl by (simp add: sched_inv_def armNextSlot_def)
next
  case (Inr slot)
  note n = nextCronSlot_Inr [OF Inr]
  have "\<forall>x \<in> set (fired_runs (te_id entry) s). x < slot" using later n by fastforce
  then show ?thesis using arm_inv [OF inv cur free] n Inr by (simp add: armNextSlot_def)
qed

lemma current_entry_Some:
  "current_entry k i s = Some e \<Longrightarrow> tasks_ok (sc_tasks s) n \<Longrightarrow> map_of (sc_tasks s) (te_name e) = Some e \<and> te_id e = i \<and> te_name e = k"
  by (auto simp: current_entry_def tasks_ok_def split: option.splits if_splits)

text \<open>A timer that has been taken: its entry is the only one that nothing arms.\<close>

lemma take_timer_inv:
  assumes inv: "sched_inv {} s" and tm: "tm \<in> set (sc_timers s)"
  shows "sched_inv {tm_entry tm} (s\<lparr>sc_timers := remove1 tm (sc_timers s)\<rparr>)
    \<and> tm_entry tm \<notin> set (owners (s\<lparr>sc_timers := remove1 tm (sc_timers s)\<rparr>))"
proof -
  let ?s = "s\<lparr>sc_timers := remove1 tm (sc_timers s)\<rparr>"
  from tm obtain xs ys where split: "sc_timers s = xs @ tm # ys" and new: "tm \<notin> set xs"
    by (meson split_list_first)
  then have rem: "remove1 tm (xs @ tm # ys) = xs @ ys" by (simp add: remove1_append)
  have o: "owners_ok s" and a: "armed {} s" using inv by (simp_all add: sched_inv_def)
  have free: "tm_entry tm \<notin> set (owners ?s)" using o by (simp add: owners_ok_def owners_def rem split)
  have "owners_ok ?s" using o by (auto simp: owners_ok_def owners_def rem split)
  moreover have "set (owners s) = insert (tm_entry tm) (set (owners ?s))" by (auto simp: owners_def rem split)
  then have "armed {tm_entry tm} ?s" using a by (simp add: armed_def)
  moreover have "fired_runs i ?s = fired_runs i s" for i by (simp add: fired_runs_def)
  then have "runs_ok ?s" "\<forall>x \<in> set (sc_timers ?s). timer_ok ?s x"
    using inv by (auto simp: sched_inv_def runs_ok_def timer_ok_def rem split)
  moreover have "\<forall>rc \<in> set (sc_running ?s). rc_fired rc \<longrightarrow> named ?s (rc_entry rc) (rc_name rc)"
    using inv by (simp add: sched_inv_def named_def)
  ultimately show ?thesis using inv free by (simp add: sched_inv_def)
qed

lemma finally_inv:
  assumes inv: "sched_inv {i} s" and free: "i \<notin> set (owners s)" and later: "\<forall>x \<in> set (fired_runs i s). x \<le> slot"
    and name: "named s i name"
  shows "sched_inv {} (fireSlot_finally i name slot now now' s)"
proof (cases "current_entry name i s")
  case None
  then have "te_id e \<noteq> i" if "map_of (sc_tasks s) k = Some e" for k e
    using name that by (auto simp: current_entry_def named_def)
  then have "armed {} s" using inv unfolding sched_inv_def armed_def by blast
  then show ?thesis using inv None by (simp add: fireSlot_finally_def sched_inv_def)
next
  case (Some e)
  have "tasks_ok (sc_tasks s) (sc_next s)" using inv by (simp add: sched_inv_def)
  from current_entry_Some [OF Some this] have e: "map_of (sc_tasks s) (te_name e) = Some e" "te_id e = i" by blast+
  have "\<forall>x \<in> set (fired_runs (te_id e) s). x \<le> max now slot" using later e(2) by fastforce
  then have "sched_inv {} (fst (armNextSlot e (max now slot) now' s))"
    using inv free e by (intro armNext_inv) simp_all
  then show ?thesis using Some by (simp add: fireSlot_finally_def)
qed


lemma fire_inv:
  assumes inv: "sched_inv {te_id entry} s" and cur: "map_of (sc_tasks s) (te_name entry) = Some entry"
    and free: "te_id entry \<notin> set (owners s)" and later: "\<forall>x \<in> set (fired_runs (te_id entry) s). x < slot"
    and match: "matchesCron (te_cron entry) slot" "slot mod MS_PER_MINUTE = 0" "slot \<le> seen"
  shows "sched_inv {} (fireSlot entry slot seen now now' s)"
proof -
  have name: "named s (te_id entry) (te_name entry)"
    using inv cur unfolding named_def sched_inv_def tasks_ok_def by metis
  have id: "te_id entry < sc_next s" using inv cur unfolding sched_inv_def tasks_ok_def by blast
  show ?thesis
  proof (cases "slot_key (te_name entry) slot \<in> set (sc_executed s)")
    case True
    then have "fireSlot entry slot seen now now' s = fireSlot_finally (te_id entry) (te_name entry) slot now now' s"
      by (simp add: fireSlot_def runSlotIfNotExecuted_def cur)
    moreover have "\<forall>x \<in> set (fired_runs (te_id entry) s). x \<le> slot" using later by fastforce
    then have "sched_inv {} (fireSlot_finally (te_id entry) (te_name entry) slot now now' s)"
      by (rule finally_inv [OF inv free _ name])
    ultimately show ?thesis by simp
  next
    case False
    let ?s = "s\<lparr>sc_executed := addBoundedSlot (sc_executed s) (slot_key (te_name entry) slot),
       sc_running := sc_running s @ [\<lparr>rc_entry = te_id entry, rc_name = te_name entry, rc_slot = slot, rc_fired = True\<rparr>],
       sc_runs := sc_runs s @ [\<lparr>rn_entry = te_id entry, rn_name = te_name entry, rn_cron = te_cron entry, rn_slot = slot,
                                 rn_seen = Some seen\<rparr>]\<rparr>"
    have eq: "fireSlot entry slot seen now now' s = ?s"
      using False by (simp add: fireSlot_def runSlotIfNotExecuted_def cur Let_def)
    have fr: "fired_runs i ?s = (if i = te_id entry then fired_runs i s @ [slot] else fired_runs i s)" for i
      by (simp add: fired_runs_def)
    have ow: "owners ?s = owners s @ [te_id entry]" by (simp add: owners_def)
    have o: "owners_ok s" and tm: "\<forall>x \<in> set (sc_timers s). timer_ok s x" and r: "runs_ok s" and a: "armed {te_id entry} s"
      using inv by (simp_all add: sched_inv_def)
    have "owners_ok ?s" using o free id unfolding owners_ok_def ow by simp
    moreover have "timer_ok ?s x" if "x \<in> set (sc_timers s)" for x
    proof -
      have "tm_entry x \<noteq> te_id entry" using that free by (force simp: owners_def)
      with tm that show ?thesis unfolding timer_ok_def fr by simp
    qed
    moreover have "runs_ok ?s"
      unfolding runs_ok_def
    proof (intro conjI allI ballI impI)
      fix i show "sorted_wrt (<) (fired_runs i ?s)" using r later unfolding fr by (simp add: runs_ok_def sorted_wrt_append)
    next
      fix x assume "x \<in> set (sc_runs ?s)"
      then show "run_ok (sc_next ?s) x" using r match id by (auto simp: runs_ok_def run_ok_def)
    next
      fix rc x assume rc: "rc \<in> set (sc_running ?s)" "rc_fired rc" "x \<in> set (fired_runs (rc_entry rc) ?s)"
      show "x \<le> rc_slot rc"
      proof (cases "rc \<in> set (sc_running s)")
        case True
        then have "rc_entry rc \<noteq> te_id entry" using free rc(2) by (force simp: owners_def)
        then show ?thesis using r True rc(2,3) unfolding fr runs_ok_def by simp
      next
        case False
        then have "rc_slot rc = slot" "rc_entry rc = te_id entry" using rc(1) by auto
        then show ?thesis using rc(3) later unfolding fr by fastforce
      qed
    qed
    moreover have "\<forall>rc \<in> set (sc_running ?s). rc_fired rc \<longrightarrow> named ?s (rc_entry rc) (rc_name rc)"
      using inv name by (auto simp: sched_inv_def named_def)
    moreover have "armed {} ?s" using a unfolding armed_def ow by simp
    ultimately show ?thesis using inv unfolding eq by (simp add: sched_inv_def)
  qed
qed

lemma run_direct_inv: "sched_inv {} s \<Longrightarrow> sched_inv {} (fst (runSlotIfNotExecuted None name slot s))"
proof (cases "map_of (sc_tasks s) name")
  case (Some entry)
  assume inv: "sched_inv {} s"
  then have id: "te_id entry < sc_next s" using Some unfolding sched_inv_def tasks_ok_def by blast
  let ?s = "fst (runSlotIfNotExecuted None name slot s)"
  have same: "sc_tasks ?s = sc_tasks s" "sc_timers ?s = sc_timers s" "sc_next ?s = sc_next s"
    "filter rc_fired (sc_running ?s) = filter rc_fired (sc_running s)" "fired_runs i ?s = fired_runs i s" for i
    by (simp_all add: runSlotIfNotExecuted_def Some Let_def fired_runs_def)
  have run: "rc \<in> set (sc_running ?s) \<and> rc_fired rc \<longleftrightarrow> rc \<in> set (sc_running s) \<and> rc_fired rc" for rc
    using arg_cong [OF same(4), of set] by auto
  have ow: "owners ?s = owners s" by (simp add: owners_def same)
  have "\<forall>r \<in> set (sc_runs ?s). run_ok (sc_next s) r"
    using inv id by (auto simp: sched_inv_def runs_ok_def runSlotIfNotExecuted_def Some Let_def run_ok_def)
  then have "runs_ok ?s" using inv run unfolding sched_inv_def runs_ok_def same by blast
  moreover have "\<forall>rc \<in> set (sc_running ?s). rc_fired rc \<longrightarrow> named ?s (rc_entry rc) (rc_name rc)"
    using inv run unfolding sched_inv_def named_def same by blast
  ultimately show ?thesis using inv unfolding sched_inv_def owners_ok_def timer_ok_def armed_def same ow by blast
qed (simp add: runSlotIfNotExecuted_def)


lemma timer_inv:
  assumes inv: "sched_inv {} s" and tm: "tm \<in> set (sc_timers s)"
  shows "sched_inv {} (timer_callback tm now now' now'' (s\<lparr>sc_timers := remove1 tm (sc_timers s)\<rparr>))"
proof -
  let ?s = "s\<lparr>sc_timers := remove1 tm (sc_timers s)\<rparr>"
  note taken = take_timer_inv [OF assms]
  from inv tm obtain e where e: "map_of (sc_tasks s) (tm_name tm) = Some e" "te_id e = tm_entry tm"
      "matchesCron (te_cron e) (tm_target tm)" "tm_target tm mod MS_PER_MINUTE = 0"
    and later: "\<forall>x \<in> set (fired_runs (tm_entry tm) s). x < tm_target tm"
    unfolding sched_inv_def timer_ok_def by blast
  have name: "te_name e = tm_name tm" using inv e(1) unfolding sched_inv_def tasks_ok_def by blast
  have cur: "current_entry (tm_name tm) (tm_entry tm) ?s = Some e" using e by (simp add: current_entry_def)
  have p: "sched_inv {te_id e} ?s" "map_of (sc_tasks ?s) (te_name e) = Some e" "te_id e \<notin> set (owners ?s)"
    "\<forall>x \<in> set (fired_runs (te_id e) ?s). x < tm_target tm"
    using taken e(1,2) name later by (simp_all add: fired_runs_def)
  show ?thesis
  proof (cases "now < tm_target tm")
    case True
    then show ?thesis using arm_inv [OF p e(3,4)] cur by (simp add: timer_callback_def)
  next
    case False
    then show ?thesis using fire_inv [OF p e(3,4)] cur by (simp add: timer_callback_def)
  qed
qed

lemma finish_inv:
  assumes inv: "sched_inv {} s" and rc: "rc \<in> set (sc_running s)"
  shows "sched_inv {} (finish_run rc r now now' s)"
proof -
  let ?s = "s\<lparr>sc_running := remove1 rc (sc_running s), sc_metrics := sc_metrics s @ [(rc_name rc, outcome_label r)]\<rparr>"
  let ?X = "if rc_fired rc then {rc_entry rc} else {}"
  from rc obtain xs ys where split: "sc_running s = xs @ rc # ys" and new: "rc \<notin> set xs"
    by (meson split_list_first)
  then have rem: "remove1 rc (xs @ rc # ys) = xs @ ys" by (simp add: remove1_append)
  have fr: "fired_runs i ?s = fired_runs i s" for i by (simp add: fired_runs_def)
  have o: "owners_ok s" using inv by (simp add: sched_inv_def)
  have ow: "set (owners s) = ?X \<union> set (owners ?s)" by (auto simp: owners_def rem split)
  have "owners_ok ?s" using o by (cases "rc_fired rc") (auto simp: owners_ok_def owners_def rem split)
  moreover have "armed ?X ?s" using inv ow by (simp add: sched_inv_def armed_def)
  moreover have sel: "sc_runs ?s = sc_runs s" "sc_timers ?s = sc_timers s" "sc_next ?s = sc_next s" "sc_tasks ?s = sc_tasks s"
    by simp_all
  have sub: "set (sc_running ?s) \<subseteq> set (sc_running s)" by (simp add: set_remove1_subset)
  then have "runs_ok ?s" "\<forall>rc \<in> set (sc_running ?s). rc_fired rc \<longrightarrow> named ?s (rc_entry rc) (rc_name rc)"
    using inv unfolding sched_inv_def runs_ok_def named_def fr sel by blast+
  moreover have "\<forall>x \<in> set (sc_timers ?s). timer_ok ?s x" using inv unfolding sched_inv_def timer_ok_def fr sel by blast
  ultimately have left: "sched_inv ?X ?s" using inv by (simp add: sched_inv_def)
  show ?thesis
  proof (cases "rc_fired rc")
    case True
    have "rc_entry rc \<notin> set (owners ?s)" using o True by (auto simp: owners_ok_def owners_def rem split)
    moreover have "\<forall>x \<in> set (fired_runs (rc_entry rc) ?s). x \<le> rc_slot rc" "named ?s (rc_entry rc) (rc_name rc)"
      using inv rc True by (simp_all add: sched_inv_def runs_ok_def fr named_def)
    ultimately show ?thesis using finally_inv left True by (simp add: finish_run_def Let_def)
  next
    case False
    then show ?thesis using left by (simp add: finish_run_def Let_def)
  qed
qed

lemma schedule_inv:
  assumes inv: "sched_inv {} s"
  shows "sched_inv {} (fst (schedule name expr now now' s))"
proof (cases "parseCron expr")
  case (Inr c)
  show ?thesis
  proof (cases "map_of (sc_tasks s) name")
    case None
    let ?e = "\<lparr>te_id = sc_next s, te_name = name, te_cron = c, te_timer = None\<rparr>"
    let ?s = "s\<lparr>sc_tasks := AList.update name ?e (sc_tasks s), sc_next := sc_next s + 1\<rparr>"
    have m: "map_of (sc_tasks ?s) = (map_of (sc_tasks s))(name \<mapsto> ?e)" by (simp add: update_conv')
    have fr: "fired_runs i ?s = fired_runs i s" and ow: "owners ?s = owners s" for i by (simp_all add: fired_runs_def owners_def)
    have t: "tasks_ok (sc_tasks s) (sc_next s)" and o: "owners_ok s" and r: "runs_ok s" using inv by (simp_all add: sched_inv_def)
    have "tasks_ok (sc_tasks ?s) (sc_next ?s)" using tasks_ok_new [OF t, of ?e name] by simp
    moreover have "owners_ok ?s" using o unfolding owners_ok_def ow by (auto intro: less_SucI)
    moreover have "timer_ok ?s x" if "x \<in> set (sc_timers ?s)" for x
      using inv that None unfolding sched_inv_def timer_ok_def fr m by auto
    moreover have "runs_ok ?s" using r unfolding runs_ok_def fr by (auto simp: run_ok_def intro: less_SucI)
    moreover have "named ?s (rc_entry rc) (rc_name rc)" if "rc \<in> set (sc_running s)" "rc_fired rc" for rc
    proof -
      have "rc_entry rc < sc_next s" using o that by (auto simp: owners_ok_def owners_def)
      then show ?thesis using inv that unfolding sched_inv_def named_def m by auto
    qed
    moreover have "armed {sc_next s} ?s" using inv unfolding sched_inv_def armed_def m ow by auto
    ultimately have "sched_inv {sc_next s} ?s" by (simp add: sched_inv_def)
    moreover have "sc_next s \<notin> set (owners s)" using o by (auto simp: owners_ok_def)
    moreover have "fired_runs (sc_next s) s = []"
      using r by (auto simp: fired_runs_def runs_ok_def run_ok_def filter_empty_conv)
    ultimately have "sched_inv {} (fst (armNextSlot ?e now now' ?s))"
    proof (intro armNext_inv)
      assume p: "sched_inv {sc_next s} ?s" "sc_next s \<notin> set (owners s)" "fired_runs (sc_next s) s = []"
      show "sched_inv (insert (te_id ?e) {}) ?s" using p(1) by (simp only: task_entry.select_convs)
      show "map_of (sc_tasks ?s) (te_name ?e) = Some ?e" unfolding m by simp
      show "te_id ?e \<notin> set (owners ?s)" unfolding ow using p(2) by simp
      show "\<forall>x \<in> set (fired_runs (te_id ?e) ?s). x \<le> now" unfolding fr using p(3) by simp
    qed
    then show ?thesis using Inr None by (simp add: schedule_def Let_def)
  qed (simp add: schedule_def Inr inv)
qed (simp add: schedule_def inv)

lemma unschedule_inv:
  assumes inv: "sched_inv {} s"
  shows "sched_inv {} (unschedule name s)"
proof (cases "map_of (sc_tasks s) name")
  case (Some entry)
  let ?s = "unschedule name s"
  have m: "map_of (sc_tasks ?s) = (map_of (sc_tasks s))(name := None)" by (simp add: unschedule_def Some delete_conv')
  have ti: "sc_timers ?s = filter (\<lambda>tm. Some (tm_handle tm) \<noteq> te_timer entry) (sc_timers s)"
    and same: "sc_next ?s = sc_next s" "sc_running ?s = sc_running s" "sc_runs ?s = sc_runs s"
    by (simp_all add: unschedule_def Some)
  have fr: "fired_runs i ?s = fired_runs i s" for i by (simp add: fired_runs_def same)
  have t: "tasks_ok (sc_tasks s) (sc_next s)" and o: "owners_ok s" using inv by (simp_all add: sched_inv_def)
  have "tasks_ok (sc_tasks ?s) (sc_next ?s)" using tasks_ok_delete [OF t, of name] by (simp add: unschedule_def Some)
  moreover have "owners_ok ?s"
  proof -
    have "distinct (owners ?s)" using o unfolding owners_ok_def owners_def ti same distinct_append
      by (simp add: distinct_map_filter) blast
    moreover have "set (owners ?s) \<subseteq> set (owners s)" unfolding owners_def ti same by auto
    moreover have "distinct (map tm_handle (sc_timers ?s))" using o unfolding owners_ok_def ti by (simp add: distinct_map_filter)
    moreover have "set (sc_timers ?s) \<subseteq> set (sc_timers s)" unfolding ti by auto
    ultimately show ?thesis using o unfolding owners_ok_def same by blast
  qed
  moreover have "timer_ok ?s x" if "x \<in> set (sc_timers ?s)" for x
  proof -
    have x: "x \<in> set (sc_timers s)" "Some (tm_handle x) \<noteq> te_timer entry" using that unfolding ti by auto
    then have ok: "timer_ok s x" using inv by (simp add: sched_inv_def)
    then have "tm_name x \<noteq> name" using x(2) Some unfolding timer_ok_def by auto
    then have "map_of (sc_tasks ?s) (tm_name x) = map_of (sc_tasks s) (tm_name x)" unfolding m by simp
    then show ?thesis using ok unfolding timer_ok_def fr by simp
  qed
  moreover have "runs_ok ?s" using inv unfolding sched_inv_def runs_ok_def fr same by blast
  moreover have "\<forall>rc \<in> set (sc_running ?s). rc_fired rc \<longrightarrow> named ?s (rc_entry rc) (rc_name rc)"
    using inv unfolding sched_inv_def named_def m same by auto
  moreover have "armed {} ?s"
    unfolding armed_def
  proof (intro allI impI)
    fix k e assume k: "map_of (sc_tasks ?s) k = Some e" "unrestricted (te_cron e)"
    then have ks: "map_of (sc_tasks s) k = Some e" "k \<noteq> name" unfolding m by (auto split: if_splits)
    then have "te_id e \<in> set (owners s)" using inv k(2) unfolding sched_inv_def armed_def by auto
    moreover have "tm \<in> set (sc_timers ?s)" if tm: "tm \<in> set (sc_timers s)" "tm_entry tm = te_id e" for tm
    proof -
      obtain f where f: "map_of (sc_tasks s) (tm_name tm) = Some f" "te_id f = te_id e" "te_timer f = Some (tm_handle tm)"
        using inv tm unfolding sched_inv_def timer_ok_def by auto
      then have "tm_name tm = k" using tasks_ok_inj [OF t f(1) ks(1)] by simp
      then have "te_timer entry \<noteq> Some (tm_handle tm)" using tasks_ok_handle_inj [OF t f(1) Some f(3)] ks(2) by blast
      then show ?thesis using tm(1) unfolding ti by auto
    qed
    ultimately show "te_id e \<in> {} \<union> set (owners ?s)" unfolding owners_def same by force
  qed
  ultimately show ?thesis by (simp add: sched_inv_def)
qed (simp add: unschedule_def inv)

lemma stop_inv:
  assumes inv: "sched_inv {} s"
  shows "sched_inv {} (stopAll s)"
proof -
  have "\<exists>e \<in> snd ` set (sc_tasks s). Some (tm_handle tm) = te_timer e" if tm: "tm \<in> set (sc_timers s)" for tm
  proof -
    from inv tm obtain e where "map_of (sc_tasks s) (tm_name tm) = Some e" "te_timer e = Some (tm_handle tm)"
      unfolding sched_inv_def timer_ok_def by blast
    then show ?thesis by (force dest: map_of_SomeD)
  qed
  then have "sc_timers (stopAll s) = []" by (auto simp: stopAll_def filter_empty_conv)
  moreover have "sc_tasks (stopAll s) = []" "sc_next (stopAll s) = sc_next s" "sc_running (stopAll s) = sc_running s"
    "fired_runs i (stopAll s) = fired_runs i s" "sc_runs (stopAll s) = sc_runs s" for i
    by (simp_all add: stopAll_def fired_runs_def)
  ultimately show ?thesis
    using inv by (auto simp: sched_inv_def tasks_ok_def owners_ok_def owners_def runs_ok_def named_def armed_def)
qed

interpretation scheduler_run: inductive_invariant "\<lambda>s. s = new_scheduler" sched_step "sched_inv {}"
proof
  fix s assume "s = new_scheduler"
  then show "sched_inv {} s"
    by (simp add: sched_inv_def new_scheduler_def tasks_ok_def owners_ok_def owners_def runs_ok_def fired_runs_def armed_def)
next
  fix s t assume "sched_inv {} s" "sched_step s t"
  from this(2,1) show "sched_inv {} t"
    by cases (simp_all add: schedule_inv timer_inv run_direct_inv finish_inv unschedule_inv stop_inv)
qed


section \<open>An example run\<close>

definition demo_cron :: parsed_cron where
  "demo_cron = \<lparr>pc_expression = ''1 0 1 1 4'', pc_minutes = [1], pc_hours = [0], pc_daysOfMonth = [1], pc_months = [1],
     pc_daysOfWeek = [4]\<rparr>"

definition demo_scheduled :: sched where
  "demo_scheduled = fst (schedule ''r'' ''1 0 1 1 4'' 0 0 new_scheduler)"

definition demo_tm :: pending_timer where
  "demo_tm = \<lparr>tm_handle = 1, tm_entry = 0, tm_name = ''r'', tm_target = 60000, tm_wait = 60000\<rparr>"

definition demo_fired :: sched where
  "demo_fired = timer_callback demo_tm 60005 60006 60007 (demo_scheduled\<lparr>sc_timers := remove1 demo_tm (sc_timers demo_scheduled)\<rparr>)"

lemma parse_demo: "parseCron ''1 0 1 1 4'' = Inr demo_cron"
  by code_simp

lemma demo_slot: "nextCronSlot demo_cron 0 = Inr 60000"
  by code_simp

lemmas demo_simps = demo_scheduled_def demo_tm_def schedule_def parse_demo demo_slot new_scheduler_def armNextSlot_def
  armTimerUntilSlot_def wait_ms_def MAX_TIMEOUT_MS_def

lemma demo_timers: "sc_timers demo_scheduled = [demo_tm]"
  by (simp add: demo_simps)

lemma new_reach: "reach (\<lambda>s. s = new_scheduler) sched_step new_scheduler"
  by (rule reach_init) (rule refl)

lemma demo_sched_reach: "reach (\<lambda>s. s = new_scheduler) sched_step demo_scheduled"
  unfolding demo_scheduled_def by (rule reach_step [OF new_reach S_schedule])

lemma demo_fired_reach: "reach (\<lambda>s. s = new_scheduler) sched_step demo_fired"
proof (rule reach_step [OF demo_sched_reach])
  have "demo_tm \<in> set (sc_timers demo_scheduled)" by (simp add: demo_timers)
  then show "sched_step demo_scheduled demo_fired" unfolding demo_fired_def by (rule S_timer)
qed

lemma demo_fired_runs: "fired_runs 0 demo_fired = [60000]"
  by (simp add: demo_fired_def demo_simps timer_callback_def current_entry_def fireSlot_def runSlotIfNotExecuted_def
      fired_runs_def)

text \<open>C35. Whatever the order of timers, task completions, direct runs and re-registrations: the slots one registered task
  is fired for strictly increase, so no slot is fired twice for it, and each fired run starts at a clock reading not
  before its slot, which is a minute the cron expression of the task matches.\<close>

theorem slots_strictly_increase:
  assumes "reach (\<lambda>s. s = new_scheduler) sched_step s"
  shows "sorted_wrt (<) (fired_runs i s)
    \<and> (\<forall>r \<in> set (sc_runs s). \<forall>w. rn_seen r = Some w \<longrightarrow>
         rn_slot r \<le> w \<and> rn_slot r mod MS_PER_MINUTE = 0 \<and> matchesCron (rn_cron r) (rn_slot r))"
  using scheduler_run.reach_inv [OF assms] unfolding sched_inv_def runs_ok_def run_ok_def by blast

theorem slots_strictly_increase_witness: "sorted_wrt (<) (fired_runs 0 demo_fired) \<and> fired_runs 0 demo_fired = [60000]"
  using slots_strictly_increase [OF demo_fired_reach, of 0] demo_fired_runs by simp

text \<open>Every pending timer belongs to a task that is registered now, is the one its entry remembers, and waits at least
  0 and at most 2147483647 ms; no task has two. So \<^verbatim>\<open>unschedule\<close> and \<^verbatim>\<open>stopAll\<close> leave no timer of what they removed.\<close>

lemma stopped_tasks_have_no_timer:
  assumes "reach (\<lambda>s. s = new_scheduler) sched_step s"
  shows "distinct (map tm_entry (sc_timers s))
    \<and> (\<forall>tm \<in> set (sc_timers s). 0 \<le> tm_wait tm \<and> tm_wait tm \<le> MAX_TIMEOUT_MS
         \<and> (\<exists>e. map_of (sc_tasks s) (tm_name tm) = Some e \<and> te_id e = tm_entry tm \<and> te_timer e = Some (tm_handle tm)))"
  using scheduler_run.reach_inv [OF assms] unfolding sched_inv_def owners_ok_def owners_def timer_ok_def by auto

lemma stopped_tasks_have_no_timer_witness:
  "\<exists>e. map_of (sc_tasks demo_scheduled) ''r'' = Some e \<and> te_id e = 0 \<and> te_timer e = Some 1"
  using stopped_tasks_have_no_timer [OF demo_sched_reach] unfolding demo_timers by (simp add: demo_tm_def)

text \<open>C36. A registered task whose expression leaves the weekday free stays alive: at every moment it has a pending timer or
  a fired run whose end will arm the next one, also after the task failed or its slot was skipped.\<close>

theorem registered_tasks_stay_armed:
  assumes "reach (\<lambda>s. s = new_scheduler) sched_step s" and "map_of (sc_tasks s) name = Some e"
    and "parseCron expr = Inr (te_cron e)" and "{0..6} \<subseteq> set (pc_daysOfWeek (te_cron e))"
  shows "te_id e \<in> set (owners s)"
proof -
  have "unrestricted (te_cron e)" using assms(3,4) by (simp add: unrestricted_def parseCron_accepted)
  then show ?thesis using scheduler_run.reach_inv [OF assms(1)] assms(2) unfolding sched_inv_def armed_def by auto
qed

definition feb29_scheduled :: sched where
  "feb29_scheduled = fst (schedule ''r'' ''30 4 29 2 *'' 0 0 new_scheduler)"

lemma feb29_reach: "reach (\<lambda>s. s = new_scheduler) sched_step feb29_scheduled"
  unfolding feb29_scheduled_def by (rule reach_step [OF new_reach S_schedule])

lemma feb29_task: "\<exists>e. map_of (sc_tasks feb29_scheduled) ''r'' = Some e \<and> te_id e = 0 \<and> te_cron e = feb29_cron"
  by (auto simp: feb29_scheduled_def schedule_def parse_feb29 new_scheduler_def armNextSlot_def armTimerUntilSlot_def
      Let_def split: sum.splits)

theorem registered_tasks_stay_armed_witness: "0 \<in> set (owners feb29_scheduled)"
proof -
  obtain e where e: "map_of (sc_tasks feb29_scheduled) ''r'' = Some e" "te_id e = 0" "te_cron e = feb29_cron"
    using feb29_task by blast
  have "{0..6} \<subseteq> set (pc_daysOfWeek (te_cron e))" unfolding e(3) by code_simp
  then show ?thesis
    using registered_tasks_stay_armed [OF feb29_reach e(1), of "''30 4 29 2 *''"] e parse_feb29 by simp
qed

section \<open>The slot guard\<close>

lemma addBoundedSlot_keeps:
  assumes "slots = xs @ key # ys" and "length slots \<le> MAX_TRACKED_SLOTS" and "length ys + 1 < MAX_TRACKED_SLOTS"
  shows "\<exists>xs' ys'. addBoundedSlot slots k = xs' @ key # ys' \<and> length ys' \<le> length ys + 1"
proof -
  have tl: "\<exists>zs. (if length slots \<ge> MAX_TRACKED_SLOTS then tl slots else slots) = zs @ key # ys"
  proof (cases "length slots \<ge> MAX_TRACKED_SLOTS")
    case True
    with assms have "xs \<noteq> []" by auto
    then have "tl slots = tl xs @ key # ys" using assms(1) by simp
    then show ?thesis using True by auto
  qed (use assms(1) in auto)
  then obtain zs where zs: "(if length slots \<ge> MAX_TRACKED_SLOTS then tl slots else slots) = zs @ key # ys" by blast
  show ?thesis
  proof (cases "k \<in> set (zs @ key # ys)")
    case True
    then have "addBoundedSlot slots k = zs @ key # ys" unfolding addBoundedSlot_def zs Let_def by simp
    moreover have "length ys \<le> length ys + 1" by simp
    ultimately show ?thesis by blast
  next
    case False
    then have "addBoundedSlot slots k = zs @ key # (ys @ [k])" unfolding addBoundedSlot_def zs Let_def by simp
    moreover have "length (ys @ [k]) \<le> length ys + 1" by simp
    ultimately show ?thesis by blast
  qed
qed

lemma addBoundedSlot_bounded: "length slots \<le> MAX_TRACKED_SLOTS \<Longrightarrow> length (addBoundedSlot slots k) \<le> MAX_TRACKED_SLOTS"
  by (auto simp: addBoundedSlot_def Let_def MAX_TRACKED_SLOTS_def)

lemma guard_kept:
  "slots = xs @ key # ys \<Longrightarrow> length slots \<le> MAX_TRACKED_SLOTS \<Longrightarrow> length ys + length keys < MAX_TRACKED_SLOTS \<Longrightarrow>
   key \<in> set (foldl addBoundedSlot slots keys)"
proof (induction keys arbitrary: slots xs ys)
  case (Cons k keys)
  then have "length ys + 1 < MAX_TRACKED_SLOTS" by simp
  from addBoundedSlot_keeps [OF Cons.prems(1,2) this, of k] obtain xs' ys'
    where a: "addBoundedSlot slots k = xs' @ key # ys'" "length ys' \<le> length ys + 1" by blast
  have "key \<in> set (foldl addBoundedSlot (addBoundedSlot slots k) keys)"
    using Cons.prems(3) a(2) by (intro Cons.IH [OF a(1) addBoundedSlot_bounded [OF Cons.prems(2)]]) simp
  then show ?case by simp
qed simp

text \<open>Once \<^verbatim>\<open>runSlotIfNotExecuted\<close> has called a task for a slot, it refuses the same name and slot, whoever asks, as
  long as fewer than 1024 keys have been recorded since.\<close>

lemma slot_guard_window:
  assumes "length (sc_executed s) \<le> MAX_TRACKED_SLOTS" and "snd (runSlotIfNotExecuted seen name slot s)"
    and "sc_executed t = foldl addBoundedSlot (sc_executed (fst (runSlotIfNotExecuted seen name slot s))) keys"
    and "length keys < MAX_TRACKED_SLOTS"
    and "map_of (sc_tasks s) name = Some e" and "te_name e = name" and "map_of (sc_tasks t) name = Some e'" and "te_name e' = name"
  shows "runSlotIfNotExecuted seen' name slot t = (t, False)"
proof -
  let ?k = "slot_key name slot"
  have new: "?k \<notin> set (sc_executed s)" and ex: "sc_executed (fst (runSlotIfNotExecuted seen name slot s)) = addBoundedSlot (sc_executed s) ?k"
    using assms(2,5,6) by (auto simp: runSlotIfNotExecuted_def Let_def split: if_splits)
  have "?k \<notin> set (if length (sc_executed s) \<ge> MAX_TRACKED_SLOTS then tl (sc_executed s) else sc_executed s)"
    using new by (cases "sc_executed s") auto
  then have "\<exists>zs. addBoundedSlot (sc_executed s) ?k = zs @ ?k # []" by (simp add: addBoundedSlot_def Let_def)
  then obtain zs where zs: "addBoundedSlot (sc_executed s) ?k = zs @ ?k # []" by blast
  have "?k \<in> set (foldl addBoundedSlot (addBoundedSlot (sc_executed s) ?k) keys)"
    using assms(4) by (intro guard_kept [OF zs addBoundedSlot_bounded [OF assms(1)]]) simp
  then show ?thesis using assms(3,7,8) ex by (simp add: runSlotIfNotExecuted_def)
qed


section \<open>Job ids\<close>

lemma pad_int_value: "0 \<le> i \<Longrightarrow> digits_value 10 0 (pad_int n i) = Some (nat i)"
  by (simp add: pad_int_def padStart_def digits_value_zeros digits_value_nat_to_string)

lemma pad_int_inject: "pad_int n i = pad_int n j \<Longrightarrow> 0 \<le> i \<Longrightarrow> 0 \<le> j \<Longrightarrow> i = j"
  using pad_int_value [of i n] pad_int_value [of j n] by simp

lemma length_pad_int: "0 \<le> i \<Longrightarrow> nat i < 10 ^ Suc k \<Longrightarrow> length (pad_int (Suc k) i) = Suc k"
  using length_nat_to_string [of "nat i" k] by (simp add: pad_int_def padStart_def)

lemma length_pad2: "0 \<le> i \<Longrightarrow> i < 100 \<Longrightarrow> length (pad_int 2 i) = 2"
  using length_pad_int [of i 1] by (simp add: numeral_2_eq_2 nat_less_iff)

lemma length_pad4: "0 \<le> i \<Longrightarrow> i \<le> 9999 \<Longrightarrow> length (pad_int 4 i) = 4"
  using length_pad_int [of i 3] by (simp add: nat_less_iff)

lemma utc_month_range: "0 \<le> utc_month d \<and> utc_month d < 12"
  using month_in_year_range by (simp add: utc_month_def)

lemma utc_date_range: "1 \<le> utc_date d \<and> utc_date d \<le> 31"
proof -
  let ?l = "leap_year (year_of_day d)" and ?m = "utc_month d"
  have first: "make_day (year_of_day d) ?m 1 \<le> d" "d < make_day (year_of_day d) (?m + 1) 1" using month_interval [of d d] by blast+
  have m: "0 \<le> ?m" "?m < 12" using utc_month_range by blast+
  have off: "0 \<le> d - day_from_year (year_of_day d)" "d - day_from_year (year_of_day d) < cum_days ?l 12"
    using year_offset [of d] unfolding cum_days_12 by blast+
  have "cum_days ?l ?m \<le> d - day_from_year (year_of_day d) \<and> d - day_from_year (year_of_day d) < cum_days ?l (?m + 1)"
    using month_in_year_iff [OF m off] by (simp add: utc_month_def)
  moreover have "cum_days ?l (?m + 1) \<le> cum_days ?l ?m + 31" using int_less_12 [OF m] by (auto simp: cum_days_def Let_def)
  ultimately show ?thesis unfolding utc_date_def by linarith
qed

lemma clock_range: "0 \<le> getUTCHours t \<and> getUTCHours t < 24 \<and> 0 \<le> getUTCMinutes t \<and> getUTCMinutes t < 60"
  by (simp add: getUTCHours_def getUTCMinutes_def)

lemma slot_text:
  assumes "0 \<le> getUTCFullYear t" and "getUTCFullYear t \<le> 9999"
  shows "formatSlotIsoMinute t = pad_int 4 (getUTCFullYear t) @ ''-'' @ pad_int 2 (getUTCMonth t + 1) @ ''-'' @ pad_int 2 (getUTCDate t)
    @ ''T'' @ pad_int 2 (getUTCHours t) @ '':'' @ pad_int 2 (getUTCMinutes t) @ ''Z''"
proof -
  have l: "length (pad_int 4 (getUTCFullYear t)) = 4" "length (pad_int 2 (getUTCMonth t + 1)) = 2" "length (pad_int 2 (getUTCDate t)) = 2"
    "length (pad_int 2 (getUTCHours t)) = 2" "length (pad_int 2 (getUTCMinutes t)) = 2"
    using assms utc_month_range [of "t div MS_PER_DAY"] utc_date_range [of "t div MS_PER_DAY"] clock_range [of t]
    by (simp_all add: length_pad4 length_pad2 getUTCMonth_def getUTCDate_def)
  show ?thesis using assms by (simp add: formatSlotIsoMinute_def toISOString_def iso_year_def l)
qed

lemma time_of_fields:
  assumes "t mod MS_PER_MINUTE = 0"
  shows "t = MS_PER_DAY * make_day (getUTCFullYear t) (getUTCMonth t) (getUTCDate t) + MS_PER_HOUR * getUTCHours t
    + MS_PER_MINUTE * getUTCMinutes t"
proof -
  have "make_day (getUTCFullYear t) (getUTCMonth t) (getUTCDate t) = t div MS_PER_DAY"
    using make_day_self [of "t div MS_PER_DAY" 0] by (simp add: getUTCFullYear_def getUTCMonth_def getUTCDate_def)
  moreover have "t = MS_PER_MINUTE * (t div MS_PER_MINUTE)" using assms mult_div_mod_eq [of MS_PER_MINUTE t] by simp
  ultimately show ?thesis using day_hour [of t] hour_minute [of t] by simp
qed

text \<open>The job id of a reconciliation slot determines its minute: two slots of the years 0 to 9999 with the same id are
  the same slot, so the queue drops only true duplicates.\<close>

lemma slot_id_determines_minute:
  assumes "buildReconciliationJobId t = buildReconciliationJobId u" and "t mod MS_PER_MINUTE = 0" and "u mod MS_PER_MINUTE = 0"
    and "getUTCFullYear t \<in> {0..9999}" and "getUTCFullYear u \<in> {0..9999}"
  shows "t = u"
proof -
  have y: "0 \<le> getUTCFullYear t" "getUTCFullYear t \<le> 9999" "0 \<le> getUTCFullYear u" "getUTCFullYear u \<le> 9999" using assms(4,5) by auto
  have r: "0 \<le> getUTCMonth x \<and> getUTCMonth x < 12 \<and> 0 \<le> getUTCDate x \<and> getUTCDate x \<le> 31" for x
    using utc_month_range [of "x div MS_PER_DAY"] utc_date_range [of "x div MS_PER_DAY"] by (simp add: getUTCMonth_def getUTCDate_def)
  have "formatSlotIsoMinute t = formatSlotIsoMinute u" using assms(1) by (simp add: buildReconciliationJobId_def)
  then have "pad_int 4 (getUTCFullYear t) = pad_int 4 (getUTCFullYear u) \<and> pad_int 2 (getUTCMonth t + 1) = pad_int 2 (getUTCMonth u + 1)
      \<and> pad_int 2 (getUTCDate t) = pad_int 2 (getUTCDate u) \<and> pad_int 2 (getUTCHours t) = pad_int 2 (getUTCHours u)
      \<and> pad_int 2 (getUTCMinutes t) = pad_int 2 (getUTCMinutes u)"
    unfolding slot_text [OF y(1,2)] slot_text [OF y(3,4)]
    using r [of t] r [of u] y clock_range [of t] clock_range [of u] by (simp add: length_pad4 length_pad2)
  then have "getUTCFullYear t = getUTCFullYear u" "getUTCMonth t = getUTCMonth u" "getUTCDate t = getUTCDate u"
      "getUTCHours t = getUTCHours u" "getUTCMinutes t = getUTCMinutes u"
    using r [of t] r [of u] y clock_range [of t] clock_range [of u] pad_int_inject [of 2 "getUTCMonth t + 1" "getUTCMonth u + 1"]
    by (auto dest: pad_int_inject)
  then show ?thesis using time_of_fields [OF assms(2)] time_of_fields [OF assms(3)] by simp
qed

lemma slot_id_determines_minute_witness:
  "formatSlotIsoMinute 0 = ''1970-01-01T00:00Z'' \<and> buildReconciliationJobId 0 \<noteq> buildReconciliationJobId 60000"
proof -
  have "(0 :: time) \<noteq> 60000" by simp
  moreover have "(60000 :: time) mod MS_PER_MINUTE = 0" "(0 :: time) mod MS_PER_MINUTE = 0" "getUTCFullYear 0 = 1970"
    "getUTCFullYear 60000 = 1970" by code_simp+
  ultimately have "buildReconciliationJobId 0 \<noteq> buildReconciliationJobId 60000" using slot_id_determines_minute [of 0 60000] by auto
  moreover have "formatSlotIsoMinute 0 = ''1970-01-01T00:00Z''" by code_simp
  ultimately show ?thesis by blast
qed

end
