(* ===== verification/Report_Runs.thy ===== *)
theory Report_Runs
  imports Slot_Scheduler
begin

text \<open>
  Scheduled report runs (\<^verbatim>\<open>src/services/scheduledReportJobService.ts\<close>, \<^verbatim>\<open>src/workers/scheduledReportWorker.ts\<close>): one row
  per report and period, claimed under a lease, finished under the token of the claim. Workers claim, generate,
  finish and die in any order.

  \<^item> \<open>report_output_once\<close>: a period has one row, and at most one worker is ever told that its output was accepted; the
    output it gave is the one that is stored.
  \<^item> \<open>redelivery_strands_run\<close>: a job redelivered before the lease of its dead worker ends is consumed without effect.
\<close>

section \<open>Rows and updates\<close>

definition RUN_MAX_ATTEMPTS :: int where "RUN_MAX_ATTEMPTS = 3"
definition RUN_LEASE_MS :: int where "RUN_LEASE_MS = 5 * 60 * 1000"
definition RUN_RETRY_BASE_MS :: int where "RUN_RETRY_BASE_MS = 30 * 1000"
definition RUN_MAX_RETRY_DELAY_MS :: int where "RUN_MAX_RETRY_DELAY_MS = 60 * 60 * 1000"

datatype run_status = RunPending | RunRunning | RunRetryable | RunSucceeded | RunFailed

record report_run =
  rr_id :: string
  rr_scheduledReportId :: string
  rr_scheduleKey :: string
  rr_runFor :: time
  rr_status :: run_status
  rr_attempt :: int
  rr_leaseToken :: "string option"
  rr_leaseUntil :: "time option"
  rr_startedAt :: "time option"
  rr_completedAt :: "time option"
  rr_nextAttemptAt :: "time option"
  rr_outputRef :: "string option"
  rr_lastError :: "string option"
  rr_createdAt :: time
  rr_updatedAt :: time

definition period :: "report_run \<Rightarrow> string \<times> time" where
  "period r = (rr_scheduledReportId r, rr_runFor r)"

definition new_run :: "string \<Rightarrow> time \<Rightarrow> string \<Rightarrow> string \<Rightarrow> time \<Rightarrow> report_run" where
  "new_run newId dbNow scheduledReportId scheduleKey runFor =
     \<lparr>rr_id = newId, rr_scheduledReportId = scheduledReportId, rr_scheduleKey = scheduleKey, rr_runFor = runFor,
      rr_status = RunPending, rr_attempt = 0, rr_leaseToken = None, rr_leaseUntil = None, rr_startedAt = None,
      rr_completedAt = None, rr_nextAttemptAt = Some runFor, rr_outputRef = None, rr_lastError = None,
      rr_createdAt = dbNow, rr_updatedAt = dbNow\<rparr>"

text \<open>The insert is refused by \<^verbatim>\<open>scheduled_report_runs_identity_unique\<close> of the migration.\<close>

definition createOrGetRun ::
  "string \<Rightarrow> time \<Rightarrow> string \<Rightarrow> string \<Rightarrow> time \<Rightarrow> report_run table \<Rightarrow> report_run table \<times> report_run option" where
  "createOrGetRun newId dbNow scheduledReportId scheduleKey runFor runs =
     (let runs' = (if \<exists>r \<in> set runs. period r = (scheduledReportId, runFor) then runs
                   else runs @ [new_run newId dbNow scheduledReportId scheduleKey runFor])
      in (runs', row_by period runs' (scheduledReportId, runFor)))"

datatype run_op =
    ClaimRun string time int
  | SucceedRun string string time
  | FailRun string string time int time

fun run_guard :: "run_op \<Rightarrow> report_run \<Rightarrow> bool" where
  "run_guard (ClaimRun token now leaseMs) r \<longleftrightarrow>
     rr_status r = RunPending
     \<or> rr_status r = RunRetryable \<and> (case rr_nextAttemptAt r of None \<Rightarrow> True | Some t \<Rightarrow> t \<le> now)
     \<or> rr_status r = RunRunning \<and> (case rr_leaseUntil r of None \<Rightarrow> True | Some t \<Rightarrow> t < now)"
| "run_guard (SucceedRun token outputRef now) r \<longleftrightarrow> rr_leaseToken r = Some token \<and> rr_status r = RunRunning"
| "run_guard (FailRun token err now maxAttempts nextAt) r \<longleftrightarrow> rr_leaseToken r = Some token \<and> rr_status r = RunRunning"

fun run_set :: "run_op \<Rightarrow> report_run \<Rightarrow> report_run" where
  "run_set (ClaimRun token now leaseMs) r =
     r\<lparr>rr_status := RunRunning, rr_attempt := rr_attempt r + 1, rr_leaseToken := Some token,
       rr_leaseUntil := Some (now + leaseMs),
       rr_startedAt := (case rr_startedAt r of None \<Rightarrow> Some now | Some t \<Rightarrow> Some t), rr_updatedAt := now\<rparr>"
| "run_set (SucceedRun token outputRef now) r =
     r\<lparr>rr_status := RunSucceeded, rr_outputRef := Some outputRef, rr_completedAt := Some now,
       rr_leaseToken := None, rr_leaseUntil := None, rr_updatedAt := now\<rparr>"
| "run_set (FailRun token err now maxAttempts nextAt) r =
     r\<lparr>rr_status := (if rr_attempt r \<ge> maxAttempts then RunFailed else RunRetryable),
       rr_lastError := Some (take 2000 err), rr_nextAttemptAt := Some nextAt,
       rr_completedAt := (if rr_attempt r \<ge> maxAttempts then Some now else None),
       rr_leaseToken := None, rr_leaseUntil := None, rr_updatedAt := now\<rparr>"

definition run_update :: "run_op \<Rightarrow> string \<Rightarrow> report_run table \<Rightarrow> report_run table \<times> report_run option" where
  "run_update a = guarded_write rr_id (run_guard a) (run_set a)"

definition claimRun :: "string \<Rightarrow> string \<Rightarrow> time \<Rightarrow> int \<Rightarrow> report_run table \<Rightarrow> report_run table \<times> report_run option" where
  "claimRun runId token now leaseMs = run_update (ClaimRun token now leaseMs) runId"

definition markRunSucceeded :: "string \<Rightarrow> string \<Rightarrow> string \<Rightarrow> time \<Rightarrow> report_run table \<Rightarrow> report_run table \<times> bool" where
  "markRunSucceeded runId token outputRef now runs =
     (case run_update (SucceedRun token outputRef now) runId runs of (runs', r) \<Rightarrow> (runs', r \<noteq> None))"

definition markRunFailed ::
  "string \<Rightarrow> string \<Rightarrow> string \<Rightarrow> time \<Rightarrow> int \<Rightarrow> time \<Rightarrow> report_run table \<Rightarrow> report_run table \<times> (run_status \<times> int) option" where
  "markRunFailed runId token err now maxAttempts nextAt runs =
     (case run_update (FailRun token err now maxAttempts nextAt) runId runs of
        (runs', r) \<Rightarrow> (runs', map_option (\<lambda>r. (rr_status r, rr_attempt r)) r))"

section \<open>Queueing and processing\<close>

text \<open>\<open>None\<close>: the error for an empty report id (an invalid date has no time here).\<close>

definition buildScheduleKey :: "string \<Rightarrow> time \<Rightarrow> string option" where
  "buildScheduleKey scheduledReportId runFor =
    (if scheduledReportId = [] then None else Some (scheduledReportId @ '':'' @ toISOString runFor))"

definition runRetryDelayMs :: "int \<Rightarrow> int \<Rightarrow> int option" where
  "runRetryDelayMs attempt baseMs =
    (if attempt < 1 \<or> baseMs < 0 then None else Some (min RUN_MAX_RETRY_DELAY_MS (baseMs * 2 ^ nat (attempt - 1))))"

record run_job =
  rj_runId :: string
  rj_scheduledReportId :: string
  rj_runFor :: string
  rj_scheduleKey :: string

record run_queue_add =
  rq_job :: run_job
  rq_jobId :: string
  rq_delay :: int

definition enqueueScheduledReportRun ::
  "string \<Rightarrow> time \<Rightarrow> string \<Rightarrow> time \<Rightarrow> report_run table \<Rightarrow> report_run table \<times> (report_run \<times> bool) option \<times> run_queue_add list" where
  "enqueueScheduledReportRun newId dbNow scheduledReportId runFor runs =
    (case buildScheduleKey scheduledReportId runFor of
       None \<Rightarrow> (runs, None, [])
     | Some scheduleKey \<Rightarrow> (case createOrGetRun newId dbNow scheduledReportId scheduleKey runFor runs of
         (runs', None) \<Rightarrow> (runs', None, [])
       | (runs', Some run) \<Rightarrow>
           if rr_status run \<in> {RunSucceeded, RunFailed} then (runs', Some (run, False), [])
           else (runs', Some (run, True),
                 [\<lparr>rq_job = \<lparr>rj_runId = rr_id run, rj_scheduledReportId = scheduledReportId,
                             rj_runFor = toISOString runFor, rj_scheduleKey = scheduleKey\<rparr>,
                   rq_jobId = scheduleKey, rq_delay = 0\<rparr>])))"

record run_config =
  cg_leaseMs :: int
  cg_maxAttempts :: int
  cg_retryBaseMs :: int

definition new_run_coordinator :: "int option \<Rightarrow> int option \<Rightarrow> int option \<Rightarrow> run_config option" where
  "new_run_coordinator leaseMs maxAttempts retryBaseMs =
    (let c = \<lparr>cg_leaseMs = (case leaseMs of None \<Rightarrow> RUN_LEASE_MS | Some x \<Rightarrow> x),
              cg_maxAttempts = (case maxAttempts of None \<Rightarrow> RUN_MAX_ATTEMPTS | Some x \<Rightarrow> x),
              cg_retryBaseMs = (case retryBaseMs of None \<Rightarrow> RUN_RETRY_BASE_MS | Some x \<Rightarrow> x)\<rparr>
     in if cg_maxAttempts c < 1 then None else Some c)"

datatype gen_result = Generated string | GenerateThrew string

text \<open>\<open>RunRejected\<close>: the promise of \<^verbatim>\<open>process\<close> rejects, with the error of \<^verbatim>\<open>retryDelayMs\<close>.\<close>

datatype run_answer = RunSkipped | RunAccepted | RunAnswered run_status | RunRejected

definition process_run_error ::
  "run_config \<Rightarrow> string \<Rightarrow> report_run \<Rightarrow> run_job \<Rightarrow> string \<Rightarrow> time \<Rightarrow> time \<Rightarrow> time \<Rightarrow> report_run table
     \<Rightarrow> report_run table \<times> run_answer \<times> run_queue_add list" where
  "process_run_error c token claimed job message now now' now'' runs =
    (case runRetryDelayMs (rr_attempt claimed) (cg_retryBaseMs c) of
       None \<Rightarrow> (runs, RunRejected, [])
     | Some delay \<Rightarrow>
         (let retryAt = now + delay in
          case markRunFailed (rr_id claimed) token message now' (cg_maxAttempts c) retryAt runs of
            (runs', None) \<Rightarrow> (runs', RunSkipped, [])
          | (runs', Some (status, attempt)) \<Rightarrow>
              (runs', RunAnswered status,
               if status = RunRetryable
               then [\<lparr>rq_job = job, rq_jobId = rj_scheduleKey job @ '':retry:'' @ int_to_string attempt, rq_delay = retryAt - now''\<rparr>]
               else [])))"

definition process_run_finish ::
  "run_config \<Rightarrow> string \<Rightarrow> report_run \<Rightarrow> run_job \<Rightarrow> gen_result \<Rightarrow> time \<Rightarrow> time \<Rightarrow> time \<Rightarrow> report_run table
     \<Rightarrow> report_run table \<times> run_answer \<times> run_queue_add list" where
  "process_run_finish c token claimed job g now now' now'' runs = (case g of
     Generated outputRef \<Rightarrow>
       if outputRef = [] \<or> length outputRef > 2000
       then process_run_error c token claimed job ''report generator returned an invalid output reference'' now now' now'' runs
       else (case markRunSucceeded (rr_id claimed) token outputRef now runs of
               (runs', ok) \<Rightarrow> (runs', if ok then RunAccepted else RunSkipped, []))
   | GenerateThrew message \<Rightarrow> process_run_error c token claimed job message now now' now'' runs)"

text \<open>A whole turn of \<^verbatim>\<open>process\<close> with nobody between its claim and its finish.\<close>

definition process_run ::
  "run_config \<Rightarrow> string \<Rightarrow> run_job \<Rightarrow> (report_run \<Rightarrow> gen_result) \<Rightarrow> time \<Rightarrow> time \<Rightarrow> time \<Rightarrow> time \<Rightarrow> report_run table
     \<Rightarrow> report_run table \<times> run_answer \<times> run_queue_add list" where
  "process_run c token job generate claimNow now now' now'' runs =
    (case claimRun (rj_runId job) token claimNow (cg_leaseMs c) runs of
       (runs', None) \<Rightarrow> (runs', RunSkipped, [])
     | (runs', Some claimed) \<Rightarrow> process_run_finish c token claimed job (generate claimed) now now' now'' runs')"


section \<open>Workers on the table\<close>

lemma run_set_frame [simp]:
  "rr_id (run_set a r) = rr_id r" "period (run_set a r) = period r"
  by (cases a; simp add: period_def)+

interpretation run_rows: keyed_table rr_id run_guard run_set
  by standard simp

lemma run_update_miss:
  "key_unique rr_id runs \<Longrightarrow> (\<And>r. row_by rr_id runs i = Some r \<Longrightarrow> \<not> run_guard a r) \<Longrightarrow> run_update a i runs = (runs, None)"
  using run_rows.tbl.upd_miss [of runs i a] by (simp add: run_update_def)

lemma run_update_row:
  "row_by rr_id (fst (run_update a i runs)) j =
     (if j = i then map_option (\<lambda>r. if run_guard a r then run_set a r else r) (row_by rr_id runs i) else row_by rr_id runs j)"
  unfolding run_update_def by (rule guarded_write_row) simp

lemma run_update_Some:
  assumes "run_update a i runs = (runs', Some r')" and "key_unique rr_id runs"
  shows "\<exists>r. row_by rr_id runs i = Some r \<and> run_guard a r"
  using assms run_update_miss [OF assms(2), of i a] by fastforce

record run_sys =
  rs_runs :: "report_run table"
  rs_live :: "(string \<times> report_run \<times> run_job) list"
  rs_used :: "string list"
  rs_accepted :: "(string \<times> string) list"

definition empty_run_sys :: run_sys where
  "empty_run_sys = \<lparr>rs_runs = [], rs_live = [], rs_used = [], rs_accepted = []\<rparr>"

text \<open>Tokens are \<^verbatim>\<open>randomUUID()\<close>: never used before. \<open>rs_accepted\<close> records the runs whose worker was told that its output
  was accepted, with that output.\<close>

inductive run_step :: "run_config \<Rightarrow> run_sys \<Rightarrow> run_sys \<Rightarrow> bool" for c where
  R_enqueue: "newId \<notin> rr_id ` set (rs_runs s) \<Longrightarrow>
    run_step c s (s\<lparr>rs_runs := fst (enqueueScheduledReportRun newId dbNow reportId runFor (rs_runs s))\<rparr>)"
| R_skip: "token \<notin> set (rs_used s) \<Longrightarrow> claimRun (rj_runId (job :: run_job)) token now (cg_leaseMs c) (rs_runs s) = (runs', None) \<Longrightarrow>
    run_step c s (s\<lparr>rs_runs := runs', rs_used := token # rs_used s\<rparr>)"
| R_claim: "token \<notin> set (rs_used s) \<Longrightarrow> claimRun (rj_runId job) token now (cg_leaseMs c) (rs_runs s) = (runs', Some claimed) \<Longrightarrow>
    run_step c s (s\<lparr>rs_runs := runs', rs_used := token # rs_used s, rs_live := (token, claimed, job) # rs_live s\<rparr>)"
| R_finish: "(token, claimed, job) \<in> set (rs_live s) \<Longrightarrow>
    process_run_finish c token claimed job g now now' now'' (rs_runs s) = (runs', answer, adds) \<Longrightarrow>
    run_step c s (s\<lparr>rs_runs := runs', rs_live := remove1 (token, claimed, job) (rs_live s),
      rs_accepted := (case g of Generated outputRef \<Rightarrow>
          if answer = RunAccepted then rs_accepted s @ [(rr_id claimed, outputRef)] else rs_accepted s
        | GenerateThrew _ \<Rightarrow> rs_accepted s)\<rparr>)"
| R_die: "run_step c s (s\<lparr>rs_live := remove1 w (rs_live s)\<rparr>)"

definition run_tables_ok :: "report_run table \<Rightarrow> (string \<times> string) list \<Rightarrow> bool" where
  "run_tables_ok runs acc \<longleftrightarrow> key_unique rr_id runs \<and> key_unique period runs \<and> distinct (map fst acc)
     \<and> (\<forall>(i, out) \<in> set acc. \<exists>r. row_by rr_id runs i = Some r \<and> rr_status r = RunSucceeded \<and> rr_outputRef r = Some out)
     \<and> (\<forall>r \<in> set runs. rr_status r = RunSucceeded \<longrightarrow> rr_id r \<in> fst ` set acc)"

lemma guard_not_succeeded: "run_guard a r \<Longrightarrow> rr_status r \<noteq> RunSucceeded"
  by (cases a) auto

lemma run_update_unique:
  "key_unique rr_id runs \<Longrightarrow> key_unique rr_id (fst (run_update a i runs))"
  "key_unique period runs \<Longrightarrow> key_unique period (fst (run_update a i runs))"
  by (simp_all add: run_update_def guarded_write_def)

text \<open>An update that does not complete a run keeps the accepted outputs.\<close>

lemma run_update_ok:
  assumes ok: "run_tables_ok runs acc" and a: "\<And>t out now. a \<noteq> SucceedRun t out now"
  shows "run_tables_ok (fst (run_update a i runs)) acc"
proof -
  let ?runs = "fst (run_update a i runs)"
  have kept: "row_by rr_id ?runs j = Some r" if "row_by rr_id runs j = Some r" "rr_status r = RunSucceeded" for j r
    using that guard_not_succeeded [of a r] by (auto simp: run_update_row)
  have "\<exists>r. row_by rr_id ?runs j = Some r \<and> rr_status r = RunSucceeded \<and> rr_outputRef r = Some out" if "(j, out) \<in> set acc" for j out
    using ok that kept unfolding run_tables_ok_def by fast
  moreover have "rr_id r \<in> fst ` set acc" if "r \<in> set ?runs" "rr_status r = RunSucceeded" for r
  proof -
    have "rr_status (run_set a q) \<noteq> RunSucceeded" for q using a by (cases a) auto
    then have "r \<in> set runs"
      using that by (auto simp: run_update_def guarded_write_def set_update_where split: if_splits)
    then show ?thesis using ok that(2) unfolding run_tables_ok_def by blast
  qed
  ultimately show ?thesis using ok unfolding run_tables_ok_def by (auto simp: run_update_unique)
qed

lemma succeed_ok:
  assumes ok: "run_tables_ok runs acc" and m: "markRunSucceeded i token out now runs = (runs', won)"
  shows "run_tables_ok runs' (if won then acc @ [(i, out)] else acc)"
proof (cases "run_update (SucceedRun token out now) i runs")
  case (Pair runs1 r')
  have uq: "key_unique rr_id runs" using ok by (simp add: run_tables_ok_def)
  show ?thesis
  proof (cases r')
    case None
    have "run_update (SucceedRun token out now) i runs = (runs, None)"
    proof (rule run_update_miss [OF uq])
      fix r assume "row_by rr_id runs i = Some r"
      then show "\<not> run_guard (SucceedRun token out now) r"
        using run_rows.tbl.upd_hit [OF uq] Pair None by (fastforce simp: run_update_def)
    qed
    then show ?thesis using ok m by (auto simp: markRunSucceeded_def)
  next
    case (Some q)
    from run_update_Some [OF Pair [unfolded Some] uq] obtain r where r: "row_by rr_id runs i = Some r"
      "run_guard (SucceedRun token out now) r" by blast
    have res: "runs' = fst (run_update (SucceedRun token out now) i runs)" "won" using m Pair Some by (auto simp: markRunSucceeded_def)
    have new: "i \<notin> fst ` set acc" using ok r unfolding run_tables_ok_def by fastforce
    have rows: "row_by rr_id runs' j = (if j = i then Some (run_set (SucceedRun token out now) r) else row_by rr_id runs j)" for j
      unfolding res run_update_row using r by simp
    have uq': "key_unique rr_id runs'" "key_unique period runs'"
      using ok unfolding res run_tables_ok_def by (simp_all add: run_update_unique)
    have "rr_id q \<in> insert i (fst ` set acc)" if "q \<in> set runs'" "rr_status q = RunSucceeded" for q
    proof (cases "rr_id q = i")
      case False
      then have "row_by rr_id runs (rr_id q) = Some q" using rows row_by_unique [OF uq'(1) that(1)] by simp
      then have "q \<in> set runs" using row_by_SomeD by fast
      then show ?thesis using ok that(2) unfolding run_tables_ok_def by blast
    qed simp
    moreover have "\<exists>r. row_by rr_id runs' j = Some r \<and> rr_status r = RunSucceeded \<and> rr_outputRef r = Some x" if "(j, x) \<in> set acc" for j x
      using ok that new rows unfolding run_tables_ok_def by (force simp: image_iff)
    ultimately show ?thesis using ok new uq' rows res(2) unfolding run_tables_ok_def by auto
  qed
qed


lemma fail_ok:
  assumes ok: "run_tables_ok runs acc" and e: "process_run_error c token claimed job msg now now' now'' runs = (runs', answer, adds)"
  shows "run_tables_ok runs' acc \<and> answer \<noteq> RunAccepted"
proof (cases "runRetryDelayMs (rr_attempt claimed) (cg_retryBaseMs c)")
  case None
  then show ?thesis using assms by (auto simp: process_run_error_def)
next
  case (Some delay)
  let ?a = "FailRun token msg now' (cg_maxAttempts c) (now + delay)"
  have "runs' = fst (run_update ?a (rr_id claimed) runs) \<and> answer \<noteq> RunAccepted"
    using e Some by (cases "run_update ?a (rr_id claimed) runs") (auto simp: process_run_error_def markRunFailed_def Let_def split: option.splits)
  then show ?thesis using run_update_ok [OF ok, of ?a] by simp
qed

lemma finish_ok:
  assumes ok: "run_tables_ok runs acc" and e: "process_run_finish c token claimed job g now now' now'' runs = (runs', answer, adds)"
  shows "run_tables_ok runs' (case g of Generated out \<Rightarrow> if answer = RunAccepted then acc @ [(rr_id claimed, out)] else acc | GenerateThrew _ \<Rightarrow> acc)"
proof (cases g)
  case (GenerateThrew m)
  then show ?thesis using fail_ok [OF ok] e by (simp add: process_run_finish_def)
next
  case (Generated out)
  show ?thesis
  proof (cases "out = [] \<or> length out > 2000")
    case True
    then show ?thesis using fail_ok [OF ok] e Generated by (auto simp: process_run_finish_def)
  next
    case False
    obtain won where w: "markRunSucceeded (rr_id claimed) token out now runs = (runs', won)" "answer = (if won then RunAccepted else RunSkipped)"
      using e Generated False by (auto simp: process_run_finish_def split: prod.splits)
    then show ?thesis using succeed_ok [OF ok w(1)] Generated by (auto split: if_splits)
  qed
qed

lemma enqueue_ok:
  assumes ok: "run_tables_ok runs acc" and new: "newId \<notin> rr_id ` set runs"
  shows "run_tables_ok (fst (enqueueScheduledReportRun newId dbNow reportId runFor runs)) acc"
proof -
  let ?runs = "fst (enqueueScheduledReportRun newId dbNow reportId runFor runs)"
  consider "?runs = runs" | k where "?runs = runs @ [new_run newId dbNow reportId k runFor]" "(reportId, runFor) \<notin> period ` set runs"
  proof (cases "buildScheduleKey reportId runFor")
    case (Some k)
    have "?runs = fst (createOrGetRun newId dbNow reportId k runFor runs)"
      using Some by (cases "createOrGetRun newId dbNow reportId k runFor runs")
        (auto simp: enqueueScheduledReportRun_def split: option.splits)
    then have "?runs = runs \<or> ?runs = runs @ [new_run newId dbNow reportId k runFor] \<and> (reportId, runFor) \<notin> period ` set runs"
      by (auto simp: createOrGetRun_def Let_def)
    then show thesis using that by blast
  qed (simp add: enqueueScheduledReportRun_def that)
  then show ?thesis
  proof cases
    case (2 k)
    have "key_unique rr_id ?runs" "key_unique period ?runs"
      using ok new 2 by (simp_all add: run_tables_ok_def key_unique_snoc new_run_def period_def)
    moreover have "row_by rr_id ?runs j = Some r" if "row_by rr_id runs j = Some r" for j r
      unfolding 2(1) using that by (simp add: row_by_snoc)
    then have "\<exists>r. row_by rr_id ?runs j = Some r \<and> rr_status r = RunSucceeded \<and> rr_outputRef r = Some out" if "(j, out) \<in> set acc" for j out
      using ok that unfolding run_tables_ok_def by fast
    moreover have "rr_id r \<in> fst ` set acc" if "r \<in> set ?runs" "rr_status r = RunSucceeded" for r
      using that ok unfolding 2(1) run_tables_ok_def by (auto simp: new_run_def)
    ultimately show ?thesis using ok unfolding run_tables_ok_def by auto
  qed (use ok in simp)
qed

interpretation report_system: inductive_invariant "\<lambda>s. s = empty_run_sys" "run_step c"
  "\<lambda>s. run_tables_ok (rs_runs s) (rs_accepted s)"
proof
  fix s assume "s = empty_run_sys"
  then show "run_tables_ok (rs_runs s) (rs_accepted s)" by (simp add: empty_run_sys_def run_tables_ok_def key_unique_def)
next
  fix s t assume ok: "run_tables_ok (rs_runs s) (rs_accepted s)" and "run_step c s t"
  from this(2) show "run_tables_ok (rs_runs t) (rs_accepted t)"
  proof cases
    case R_enqueue
    then show ?thesis using enqueue_ok [OF ok] by simp
  next
    case (R_skip token job now runs')
    then show ?thesis using run_update_ok [OF ok, of "ClaimRun token now (cg_leaseMs c)" "rj_runId job"] by (simp add: claimRun_def)
  next
    case (R_claim token job now runs' claimed)
    then show ?thesis using run_update_ok [OF ok, of "ClaimRun token now (cg_leaseMs c)" "rj_runId job"] by (simp add: claimRun_def)
  next
    case R_finish
    then show ?thesis using finish_ok [OF ok] by simp
  qed (use ok in simp)
qed

text \<open>C20. Whatever dispatchers enqueue, workers claim, finish and die, in any order and with any clocks: a report has one run
  per period, at most one worker is told that its output for a run was accepted, the run is succeeded exactly then,
  and the output it stores for ever is the one that worker gave.\<close>

theorem report_output_once:
  assumes "reach (\<lambda>s. s = empty_run_sys) (run_step c) s"
  shows "key_unique period (rs_runs s) \<and> distinct (map fst (rs_accepted s))
    \<and> (\<forall>(i, out) \<in> set (rs_accepted s). \<exists>r. row_by rr_id (rs_runs s) i = Some r \<and> rr_status r = RunSucceeded \<and> rr_outputRef r = Some out)
    \<and> (\<forall>r \<in> set (rs_runs s). rr_status r = RunSucceeded \<longrightarrow> rr_id r \<in> fst ` set (rs_accepted s))"
  using report_system.reach_inv [OF assms] unfolding run_tables_ok_def by blast

definition demo_run_config :: run_config where
  "demo_run_config = \<lparr>cg_leaseMs = 300000, cg_maxAttempts = 3, cg_retryBaseMs = 30000\<rparr>"

definition demo_run :: report_run where
  "demo_run = new_run ''r1'' 5 ''s1'' ''s1:1970-01-01T00:00:00.000Z'' 0"

definition demo_run_job :: run_job where
  "demo_run_job = \<lparr>rj_runId = ''r1'', rj_scheduledReportId = ''s1'', rj_runFor = ''1970-01-01T00:00:00.000Z'',
     rj_scheduleKey = ''s1:1970-01-01T00:00:00.000Z''\<rparr>"

definition demo_claimed :: report_run where
  "demo_claimed = run_set (ClaimRun ''t1'' 10 300000) demo_run"

definition demo_done :: report_run where
  "demo_done = run_set (SucceedRun ''t1'' ''out'' 20) demo_claimed"

lemma demo_done_reach:
  "reach (\<lambda>s. s = empty_run_sys) (run_step demo_run_config)
     \<lparr>rs_runs = [demo_done], rs_live = [], rs_used = [''t1''], rs_accepted = [(''r1'', ''out'')]\<rparr>"
proof -
  let ?s1 = "\<lparr>rs_runs = [demo_run], rs_live = [], rs_used = [], rs_accepted = []\<rparr>"
  let ?s2 = "\<lparr>rs_runs = [demo_claimed], rs_live = [(''t1'', demo_claimed, demo_run_job)], rs_used = [''t1''], rs_accepted = []\<rparr>"
  let ?s3 = "\<lparr>rs_runs = [demo_done], rs_live = [], rs_used = [''t1''], rs_accepted = [(''r1'', ''out'')]\<rparr>"
  have iso: "toISOString 0 = ''1970-01-01T00:00:00.000Z''" by code_simp
  have "reach (\<lambda>s. s = empty_run_sys) (run_step demo_run_config) empty_run_sys" by (rule reach_init) (rule refl)
  moreover have "run_step demo_run_config empty_run_sys ?s1"
    using R_enqueue [of "''r1''" empty_run_sys demo_run_config 5 "''s1''" 0]
    by (simp add: empty_run_sys_def enqueueScheduledReportRun_def buildScheduleKey_def iso createOrGetRun_def demo_run_def
        new_run_def period_def)
  moreover have "run_step demo_run_config ?s1 ?s2"
  proof -
    have "claimRun (rj_runId demo_run_job) ''t1'' 10 (cg_leaseMs demo_run_config) [demo_run] = ([demo_claimed], Some demo_claimed)"
      by (simp add: claimRun_def run_update_def guarded_write_def returning_def demo_run_job_def demo_run_config_def demo_claimed_def
          demo_run_def new_run_def)
    then show ?thesis using R_claim [of "''t1''" ?s1 demo_run_job 10 demo_run_config "[demo_claimed]" demo_claimed] by simp
  qed
  moreover have "run_step demo_run_config ?s2 ?s3"
  proof -
    have "process_run_finish demo_run_config ''t1'' demo_claimed demo_run_job (Generated ''out'') 20 20 20 [demo_claimed]
        = ([demo_done], RunAccepted, [])"
      by (simp add: process_run_finish_def markRunSucceeded_def run_update_def guarded_write_def returning_def demo_done_def
          demo_claimed_def demo_run_def new_run_def)
    moreover have "rr_id demo_claimed = ''r1''" by (simp add: demo_claimed_def demo_run_def new_run_def)
    ultimately show ?thesis
      using R_finish [of "''t1''" demo_claimed demo_run_job ?s2 demo_run_config "Generated ''out''" 20 20 20] by simp
  qed
  ultimately show ?thesis by (meson reach_step)
qed

theorem report_output_once_witness: "\<exists>r. row_by rr_id [demo_done] ''r1'' = Some r \<and> rr_outputRef r = Some ''out''"
  using report_output_once [OF demo_done_reach] by (simp split: if_splits)

text \<open>C21. The lease of a worker that died keeps its run out of reach of the job that is delivered again: if that happens
  before the lease ends, \<^verbatim>\<open>process\<close> answers that there is nothing to do, adds nothing to the queue and leaves the run
  running, and the only other source of jobs, \<^verbatim>\<open>enqueueScheduledReportRun\<close>, asks for the job id the queue has kept
  since the first time.\<close>

theorem redelivery_strands_run:
  assumes "key_unique rr_id runs" and "key_unique period runs" and "row_by rr_id runs (rj_runId job) = Some r"
    and "rr_status r = RunRunning" and "rr_leaseUntil r = Some until" and "claimNow \<le> until"
    and "buildScheduleKey (rr_scheduledReportId r) (rr_runFor r) = Some key"
  shows "process_run c token job generate claimNow now now' now'' runs = (runs, RunSkipped, [])
    \<and> fst (enqueueScheduledReportRun newId dbNow (rr_scheduledReportId r) (rr_runFor r) runs) = runs
    \<and> map rq_jobId (snd (snd (enqueueScheduledReportRun newId dbNow (rr_scheduledReportId r) (rr_runFor r) runs))) = [key]"
proof -
  have "claimRun (rj_runId job) token claimNow (cg_leaseMs c) runs = (runs, None)"
    unfolding claimRun_def by (rule run_update_miss [OF assms(1)]) (use assms(3-6) in auto)
  moreover have r: "r \<in> set runs" using row_by_SomeD [OF assms(3)] by blast
  then have "row_by period runs (rr_scheduledReportId r, rr_runFor r) = Some r"
    using row_by_unique [OF assms(2)] by (simp add: period_def)
  moreover have "\<exists>q \<in> set runs. period q = (rr_scheduledReportId r, rr_runFor r)" using r by (auto simp: period_def)
  ultimately show ?thesis
    using assms(4,7) by (simp add: process_run_def enqueueScheduledReportRun_def createOrGetRun_def)
qed

theorem redelivery_strands_run_witness:
  "process_run demo_run_config ''t2'' demo_run_job (\<lambda>_. Generated ''x'') 200000 1 1 1 [demo_claimed] = ([demo_claimed], RunSkipped, [])"
proof -
  have iso: "toISOString 0 = ''1970-01-01T00:00:00.000Z''" by code_simp
  show ?thesis
    using redelivery_strands_run [of "[demo_claimed]" demo_run_job demo_claimed 300010 200000
        "''s1:1970-01-01T00:00:00.000Z''" demo_run_config "''t2''" "\<lambda>_. Generated ''x''" 1 1 1]
    by (simp add: demo_claimed_def demo_run_def new_run_def demo_run_job_def key_unique_def buildScheduleKey_def iso)
qed

end
