(* ===== verification/User_Activity.thy ===== *)
theory User_Activity
  imports Market_Admin Exact_Amounts
begin

text \<open>
  A user's portfolio and statistics (\<^verbatim>\<open>src/services/userPortfolioService.ts\<close>, \<^verbatim>\<open>src/services/userStatsService.ts\<close>),
  computed from the rows of the tables and kept for thirty seconds per address.

  \<^item> \<open>portfolio_accounts\<close>: the totals and the entries of the portfolio are the sums over the user's predictions.
  \<^item> \<open>win_rate_always_zero\<close>: in every state the indexer, confirmer, resolver and prediction service reach together the
    statistics report no won and no lost prediction, whatever the results of the predictions are.
\<close>

section \<open>Amounts\<close>

definition parseAmount :: "string \<Rightarrow> nat" where
  "parseAmount amount =
    (if amount = [] \<or> \<not> list_all is_digit amount then 0
     else (case digits_value 10 0 amount of None \<Rightarrow> 0 | Some n \<Rightarrow> n))"

definition addDecimalStrings :: "string \<Rightarrow> string \<Rightarrow> string" where
  "addDecimalStrings a b = nat_to_string (parseAmount a + parseAmount b)"

lemma parseAmount_print [simp]: "parseAmount (nat_to_string n) = n"
proof -
  have "list_all is_digit (nat_to_string n)" using nat_to_string_digits by (auto simp: list_all_iff)
  then show ?thesis by (simp add: parseAmount_def digits_value_nat_to_string)
qed

lemma parseAmount_add [simp]: "parseAmount (addDecimalStrings a b) = parseAmount a + parseAmount b"
  by (simp add: addDecimalStrings_def)

section \<open>The portfolio\<close>

record portfolio_market =
  pm_marketId :: string
  pm_question :: string
  pm_status :: string
  pm_resolutionTime :: time
  pm_outcome :: string
  pm_predictionCount :: nat
  pm_totalStaked :: string
  pm_claimableAmount :: string
  pm_latestPredictionAt :: time

record portfolio_totals =
  pt_marketCount :: nat
  pt_predictionCount :: nat
  pt_totalStaked :: string
  pt_claimableAmount :: string
  pt_won :: nat
  pt_lost :: nat
  pt_pending :: nat
  pt_confirmed :: nat
  pt_claimed :: nat

record user_portfolio =
  up_address :: string
  up_totals :: portfolio_totals
  up_markets :: "portfolio_market list"
  up_cachedAt :: time

definition CACHE_TTL_MS :: int where "CACHE_TTL_MS = 30000"

text \<open>The strings of the type \<^verbatim>\<open>ClaimStatus\<close> as they are stored.\<close>

fun claim_status_text :: "claim_status \<Rightarrow> string" where
  "claim_status_text Prepared = ''prepared''"
| "claim_status_text Submitting = ''submitting''"
| "claim_status_text Paid = ''paid''"
| "claim_status_text Failed = ''failed''"
| "claim_status_text Expired = ''expired''"
| "claim_status_text Settled = ''settled''"
| "claim_status_text Rejected = ''rejected''"

definition portfolio_rows :: "string \<Rightarrow> market_row table \<Rightarrow> prediction_row table \<Rightarrow> (prediction_row \<times> market_row) list" where
  "portfolio_rows userId markets predictions =
     concat (map (\<lambda>p. map (Pair p) (filter (\<lambda>m. m_id m = p_marketId p) markets)) (filter (\<lambda>p. p_userId p = userId) predictions))"

definition claim_rows :: "string \<Rightarrow> claim_row table \<Rightarrow> (string \<times> string) list" where
  "claim_rows userId claims =
     map (\<lambda>c. (c_marketId c, c_amount c)) (filter (\<lambda>c. c_userId c = userId \<and> claim_status_text (c_status c) = ''pending'') claims)"

definition add_claimable :: "string \<times> string \<Rightarrow> (string \<times> string) list \<Rightarrow> (string \<times> string) list" where
  "add_claimable row byMarket = AList.update (fst row)
     (addDecimalStrings (case map_of byMarket (fst row) of None \<Rightarrow> ''0'' | Some a \<Rightarrow> a) (snd row)) byMarket"

text \<open>\<^verbatim>\<open>row.status in totals && typeof totals[row.status] === "number"\<close>, then one more.\<close>

definition count_status_in :: "string \<Rightarrow> portfolio_totals \<Rightarrow> portfolio_totals" where
  "count_status_in status t =
    (if status = ''won'' then t\<lparr>pt_won := pt_won t + 1\<rparr>
     else if status = ''lost'' then t\<lparr>pt_lost := pt_lost t + 1\<rparr>
     else if status = ''pending'' then t\<lparr>pt_pending := pt_pending t + 1\<rparr>
     else if status = ''confirmed'' then t\<lparr>pt_confirmed := pt_confirmed t + 1\<rparr>
     else if status = ''claimed'' then t\<lparr>pt_claimed := pt_claimed t + 1\<rparr>
     else if status = ''marketCount'' then t\<lparr>pt_marketCount := pt_marketCount t + 1\<rparr>
     else if status = ''predictionCount'' then t\<lparr>pt_predictionCount := pt_predictionCount t + 1\<rparr>
     else t)"

definition add_totals :: "prediction_row \<Rightarrow> portfolio_totals \<Rightarrow> portfolio_totals" where
  "add_totals p t = count_status_in (p_status p)
     (t\<lparr>pt_predictionCount := pt_predictionCount t + 1, pt_totalStaked := addDecimalStrings (pt_totalStaked t) (p_amount p)\<rparr>)"

definition add_market ::
  "(string \<times> string) list \<Rightarrow> prediction_row \<times> market_row \<Rightarrow> (string \<times> portfolio_market) list \<Rightarrow> (string \<times> portfolio_market) list" where
  "add_market claimable row byMarket = (case row of (p, m) \<Rightarrow>
     (case map_of byMarket (p_marketId p) of
        Some existing \<Rightarrow> AList.update (p_marketId p)
          (existing\<lparr>pm_predictionCount := pm_predictionCount existing + 1,
                    pm_totalStaked := addDecimalStrings (pm_totalStaked existing) (p_amount p),
                    pm_latestPredictionAt := max (pm_latestPredictionAt existing) (p_createdAt p)\<rparr>) byMarket
      | None \<Rightarrow> AList.update (p_marketId p)
          \<lparr>pm_marketId = p_marketId p, pm_question = m_question m, pm_status = m_status m,
           pm_resolutionTime = m_resolutionTime m, pm_outcome = p_outcome p, pm_predictionCount = 1,
           pm_totalStaked = p_amount p,
           pm_claimableAmount = (case map_of claimable (p_marketId p) of None \<Rightarrow> ''0'' | Some a \<Rightarrow> a),
           pm_latestPredictionAt = p_createdAt p\<rparr> byMarket))"

definition empty_totals :: portfolio_totals where
  "empty_totals = \<lparr>pt_marketCount = 0, pt_predictionCount = 0, pt_totalStaked = ''0'', pt_claimableAmount = ''0'',
     pt_won = 0, pt_lost = 0, pt_pending = 0, pt_confirmed = 0, pt_claimed = 0\<rparr>"

definition portfolio_of ::
  "string \<Rightarrow> time \<Rightarrow> (prediction_row \<times> market_row) list \<Rightarrow> (string \<times> string) list \<Rightarrow> user_portfolio" where
  "portfolio_of address now rows claims =
    (let claimable = fold add_claimable claims [];
         byMarket = fold (add_market claimable) rows [];
         totals = fold add_totals (map fst rows) empty_totals
     in \<lparr>up_address = address,
         up_totals = totals\<lparr>pt_marketCount := length byMarket,
           pt_claimableAmount := fold (\<lambda>a t. addDecimalStrings t a) (map snd claimable) (pt_claimableAmount totals)\<rparr>,
         up_markets = js_sort (\<lambda>a b. pm_latestPredictionAt b - pm_latestPredictionAt a) (map snd byMarket),
         up_cachedAt = now\<rparr>)"

text \<open>The cache: per address the end of its validity and the value.\<close>

definition cached_value :: "string \<Rightarrow> time \<Rightarrow> (string \<times> time \<times> 'v) list \<Rightarrow> 'v option" where
  "cached_value address now cache = (case map_of cache address of
     Some (expiresAt, v) \<Rightarrow> if expiresAt > now then Some v else None | None \<Rightarrow> None)"

definition clearUserPortfolioCache :: "(string \<times> time \<times> user_portfolio) list \<Rightarrow> (string \<times> time \<times> user_portfolio) list" where
  "clearUserPortfolioCache cache = []"

definition getUserPortfolio ::
  "string \<Rightarrow> time \<Rightarrow> settlement_db \<Rightarrow> claim_row table \<Rightarrow> (string \<times> time \<times> user_portfolio) list
     \<Rightarrow> user_portfolio option \<times> (string \<times> time \<times> user_portfolio) list" where
  "getUserPortfolio address now db claims cache = (case cached_value address now cache of
     Some v \<Rightarrow> (Some v, cache)
   | None \<Rightarrow> (case select_first (\<lambda>u. u_stellarAddress u = address) (sd_users db) of
       None \<Rightarrow> (None, cache)
     | Some user \<Rightarrow>
         (let v = portfolio_of (u_stellarAddress user) now (portfolio_rows (u_id user) (sd_markets db) (sd_predictions db))
                    (claim_rows (u_id user) claims)
          in (Some v, AList.update address (now + CACHE_TTL_MS, v) cache))))"

section \<open>The statistics\<close>

definition addStatsAmount :: "string \<Rightarrow> string \<Rightarrow> string" where
  "addStatsAmount a b =
    (let ok = (\<lambda>s. s \<noteq> [] \<and> list_all is_digit s) in
     if a = [] \<and> b = [] then ''0''
     else if \<not> ok a then (if ok b then b else ''0'')
     else if \<not> ok b then a
     else nat_to_string (parseAmount a + parseAmount b))"

record status_counts =
  ct_won :: nat
  ct_lost :: nat
  ct_pending :: nat
  ct_confirmed :: nat
  ct_claimed :: nat

record user_stats =
  us_address :: string
  us_totalPredictions :: nat
  us_totalStaked :: string
  us_marketsParticipated :: nat
  us_byStatus :: status_counts
  us_totalClaimed :: string
  us_winRate :: rat
  us_cachedAt :: time

definition count_stats_status :: "string \<Rightarrow> status_counts \<Rightarrow> status_counts" where
  "count_stats_status key c =
    (if key = ''won'' then c\<lparr>ct_won := ct_won c + 1\<rparr>
     else if key = ''lost'' then c\<lparr>ct_lost := ct_lost c + 1\<rparr>
     else if key = ''pending'' then c\<lparr>ct_pending := ct_pending c + 1\<rparr>
     else if key = ''confirmed'' then c\<lparr>ct_confirmed := ct_confirmed c + 1\<rparr>
     else if key = ''claimed'' then c\<lparr>ct_claimed := ct_claimed c + 1\<rparr>
     else c)"

definition stats_of :: "string \<Rightarrow> time \<Rightarrow> prediction_row list \<Rightarrow> string list \<Rightarrow> user_stats" where
  "stats_of address now rows claimAmounts =
    (let byStatus = fold count_stats_status (map p_status rows)
           \<lparr>ct_won = 0, ct_lost = 0, ct_pending = 0, ct_confirmed = 0, ct_claimed = 0\<rparr>;
         resolvedTotal = ct_won byStatus + ct_lost byStatus
     in \<lparr>us_address = address, us_totalPredictions = length rows,
         us_totalStaked = fold (\<lambda>p t. addStatsAmount t (p_amount p)) rows ''0'',
         us_marketsParticipated = length (remdups (map p_marketId rows)), us_byStatus = byStatus,
         us_totalClaimed = fold (\<lambda>a t. addStatsAmount t a) claimAmounts ''0'',
         us_winRate = (if resolvedTotal > 0 then of_nat (ct_won byStatus) / of_nat resolvedTotal else 0),
         us_cachedAt = now\<rparr>)"

definition clearUserStatsCache :: "(string \<times> time \<times> user_stats) list \<Rightarrow> (string \<times> time \<times> user_stats) list" where
  "clearUserStatsCache cache = []"

definition getUserStats ::
  "string \<Rightarrow> time \<Rightarrow> settlement_db \<Rightarrow> claim_row table \<Rightarrow> (string \<times> time \<times> user_stats) list
     \<Rightarrow> user_stats option \<times> (string \<times> time \<times> user_stats) list" where
  "getUserStats address now db claims cache = (case cached_value address now cache of
     Some v \<Rightarrow> (Some v, cache)
   | None \<Rightarrow> (case select_first (\<lambda>u. u_stellarAddress u = address) (sd_users db) of
       None \<Rightarrow> (None, cache)
     | Some user \<Rightarrow>
         (let v = stats_of (u_stellarAddress user) now (filter (\<lambda>p. p_userId p = u_id user) (sd_predictions db))
                    (map c_amount (filter (\<lambda>c. c_userId c = u_id user) claims))
          in (Some v, AList.update address (now + CACHE_TTL_MS, v) cache))))"


section \<open>What the portfolio adds up\<close>

definition rows_of :: "string \<Rightarrow> (prediction_row \<times> market_row) list \<Rightarrow> (prediction_row \<times> market_row) list" where
  "rows_of k rows = filter (\<lambda>r. p_marketId (fst r) = k) rows"

definition staked :: "(prediction_row \<times> market_row) list \<Rightarrow> nat" where
  "staked rows = sum_list (map (\<lambda>r. parseAmount (p_amount (fst r))) rows)"

definition entry_ok :: "(prediction_row \<times> market_row) list \<Rightarrow> string \<Rightarrow> portfolio_market \<Rightarrow> bool" where
  "entry_ok rows k x \<longleftrightarrow> pm_marketId x = k \<and> pm_predictionCount x = length (rows_of k rows)
     \<and> parseAmount (pm_totalStaked x) = staked (rows_of k rows)"

lemma add_market_update:
  "\<exists>y. add_market cl (p, m) bm = AList.update (p_marketId p) y bm \<and>
     (case map_of bm (p_marketId p) of
        None \<Rightarrow> pm_marketId y = p_marketId p \<and> pm_predictionCount y = 1 \<and> pm_totalStaked y = p_amount p
      | Some x \<Rightarrow> pm_marketId y = pm_marketId x \<and> pm_predictionCount y = pm_predictionCount x + 1
          \<and> pm_totalStaked y = addDecimalStrings (pm_totalStaked x) (p_amount p))"
proof (cases "map_of bm (p_marketId p)")
  case None
  show ?thesis unfolding add_market_def prod.case None option.case by (intro exI conjI, rule refl) simp_all
next
  case (Some x)
  show ?thesis unfolding add_market_def prod.case Some option.case by (intro exI conjI, rule refl) simp_all
qed

lemma add_market_spec:
  "distinct (map fst (fold (add_market cl) rows [])) \<and>
   (\<forall>k. map_of (fold (add_market cl) rows []) k = None \<longleftrightarrow> rows_of k rows = []) \<and>
   (\<forall>k x. map_of (fold (add_market cl) rows []) k = Some x \<longrightarrow> entry_ok rows k x)"
proof (induction rows rule: rev_induct)
  case (snoc r rows)
  obtain p m where r: "r = (p, m)" by (cases r)
  let ?bm = "fold (add_market cl) rows []" and ?k = "p_marketId p"
  have IH: "distinct (map fst ?bm)" "map_of ?bm k = None \<longleftrightarrow> rows_of k rows = []"
    "map_of ?bm k = Some x \<Longrightarrow> entry_ok rows k x" for k x using snoc.IH by blast+
  have sel: "rows_of k (rows @ [r]) = (if k = ?k then rows_of k rows @ [r] else rows_of k rows)" for k
    by (simp add: rows_of_def r)
  have f: "fold (add_market cl) (rows @ [r]) [] = add_market cl (p, m) ?bm" by (simp add: r)
  obtain y where up: "add_market cl (p, m) ?bm = AList.update ?k y ?bm" and c: "case map_of ?bm ?k of
        None \<Rightarrow> pm_marketId y = p_marketId p \<and> pm_predictionCount y = 1 \<and> pm_totalStaked y = p_amount p
      | Some x \<Rightarrow> pm_marketId y = pm_marketId x \<and> pm_predictionCount y = pm_predictionCount x + 1
          \<and> pm_totalStaked y = addDecimalStrings (pm_totalStaked x) (p_amount p)"
    using add_market_update [of cl p m ?bm] by blast
  have y: "entry_ok (rows @ [r]) ?k y"
  proof (cases "map_of ?bm ?k")
    case None
    then have "rows_of ?k rows = []" using IH(2) by blast
    then show ?thesis using c unfolding None option.case by (simp add: entry_ok_def sel [unfolded r] staked_def r)
  next
    case (Some z)
    show ?thesis using IH(3) [OF Some] c unfolding Some option.case by (simp add: entry_ok_def sel [unfolded r] staked_def r)
  qed
  have "entry_ok (rows @ [r]) k x" if "entry_ok rows k x" "k \<noteq> ?k" for k x using that by (simp add: entry_ok_def sel)
  then show ?case
    unfolding f up using IH y by (auto simp: update_conv' distinct_update sel)
qed (simp add: rows_of_def)

lemma count_status_staked [simp]: "pt_totalStaked (count_status_in st t) = pt_totalStaked t"
  by (simp add: count_status_in_def)

lemma zero_text: "nat_to_string 0 = ''0''"
  by code_simp

lemma totals_staked:
  "pt_totalStaked (fold add_totals (map fst rows) empty_totals) = nat_to_string (staked rows)"
proof (induction rows rule: rev_induct)
  case (snoc r rows)
  then show ?case by (simp add: add_totals_def addDecimalStrings_def staked_def)
qed (simp add: empty_totals_def staked_def zero_text)

lemma claim_rows_none: "claim_rows userId claims = []"
proof -
  have "claim_status_text s \<noteq> ''pending''" for s by (cases s) simp_all
  then show ?thesis by (simp add: claim_rows_def)
qed

lemma latest_consistent: "consistent (\<lambda>a b. pm_latestPredictionAt b - pm_latestPredictionAt a)"
  by (auto simp: consistent_def)

text \<open>A portfolio that is computed has one entry for each market of the user's predictions, in the order of the latest
  prediction, with the number of the predictions on it and the sum of their amounts; the total stake is the sum of
  all amounts (an amount that is not a row of digits counts 0). The claimable amount is 0 for everybody: it adds the
  claims with status \<^verbatim>\<open>pending\<close>, which no claim of the claim service has.\<close>

lemma portfolio_accounts:
  assumes "cached_value address now cache = None" and "select_first (\<lambda>u. u_stellarAddress u = address) (sd_users db) = Some user"
    and "rows = portfolio_rows (u_id user) (sd_markets db) (sd_predictions db)"
  shows "\<exists>v. fst (getUserPortfolio address now db claims cache) = Some v
    \<and> pt_totalStaked (up_totals v) = nat_to_string (staked rows)
    \<and> pt_marketCount (up_totals v) = card ((\<lambda>r. p_marketId (fst r)) ` set rows)
    \<and> distinct (map pm_marketId (up_markets v)) \<and> pm_marketId ` set (up_markets v) = (\<lambda>r. p_marketId (fst r)) ` set rows
    \<and> (\<forall>x \<in> set (up_markets v). entry_ok rows (pm_marketId x) x)
    \<and> sorted_wrt (\<lambda>a b. pm_latestPredictionAt b \<le> pm_latestPredictionAt a) (up_markets v)
    \<and> pt_claimableAmount (up_totals v) = ''0''"
proof -
  let ?bm = "fold (add_market []) rows []"
  let ?v = "portfolio_of (u_stellarAddress user) now rows (claim_rows (u_id user) claims)"
  have v: "fst (getUserPortfolio address now db claims cache) = Some ?v"
    using assms by (simp add: getUserPortfolio_def Let_def)
  note spec = add_market_spec [of "[]" rows]
  have d: "distinct (map fst ?bm)" using spec by blast
  have entry: "entry_ok rows k x" if "(k, x) \<in> set ?bm" for k x using spec d that by auto
  have keys: "map pm_marketId (map snd ?bm) = map fst ?bm" using entry by (auto simp: entry_ok_def)
  have "k \<in> fst ` set ?bm \<longleftrightarrow> k \<in> (\<lambda>r. p_marketId (fst r)) ` set rows" for k
    using spec map_of_eq_None_iff [of ?bm k] by (auto simp: rows_of_def filter_empty_conv image_iff)
  then have ids: "fst ` set ?bm = (\<lambda>r. p_marketId (fst r)) ` set rows" by blast
  have m: "up_markets ?v = js_sort (\<lambda>a b. pm_latestPredictionAt b - pm_latestPredictionAt a) (map snd ?bm)"
    by (simp add: portfolio_of_def claim_rows_none Let_def)
  have ms: "mset (map pm_marketId (up_markets ?v)) = mset (map fst ?bm)" unfolding m keys [symmetric] by (simp del: map_map)
  have "distinct (map pm_marketId (up_markets ?v))" using mset_eq_imp_distinct_iff [OF ms] d by blast
  moreover have "pm_marketId ` set (up_markets ?v) = (\<lambda>r. p_marketId (fst r)) ` set rows"
    using mset_eq_setD [OF ms] ids by simp
  moreover have "\<forall>x \<in> set (up_markets ?v). entry_ok rows (pm_marketId x) x"
    unfolding m using entry by (auto simp: entry_ok_def)
  moreover have "sorted_wrt (\<lambda>a b. pm_latestPredictionAt b \<le> pm_latestPredictionAt a) (up_markets ?v)"
    unfolding m using sorted_js_sort [OF latest_consistent, of "map snd ?bm"] by simp
  moreover have "pt_marketCount (up_totals ?v) = card ((\<lambda>r. p_marketId (fst r)) ` set rows)"
    using distinct_card [OF d] ids by (simp add: portfolio_of_def claim_rows_none Let_def)
  moreover have "pt_totalStaked (up_totals ?v) = nat_to_string (staked rows)"
    using totals_staked [of rows] by (simp add: portfolio_of_def claim_rows_none Let_def)
  moreover have "pt_claimableAmount (fold add_totals ps empty_totals) = ''0''" for ps
    by (induction ps rule: rev_induct) (simp_all add: empty_totals_def add_totals_def count_status_in_def)
  then have "pt_claimableAmount (up_totals ?v) = ''0''" by (simp add: portfolio_of_def claim_rows_none Let_def)
  ultimately show ?thesis using v by blast
qed

section \<open>The win rate\<close>

definition live_statuses :: "settlement_db \<Rightarrow> bool" where
  "live_statuses db \<longleftrightarrow> p_status ` set (sd_predictions db) \<subseteq> {''pending'', ''confirmed'', ''failed''}"

definition no_predictions :: "settlement_db \<Rightarrow> bool" where
  "no_predictions db \<longleftrightarrow> sd_predictions db = []"

lemma live_step: "settle_step db db' \<Longrightarrow> live_statuses db \<Longrightarrow> live_statuses db'"
proof (induction rule: settle_step.induct)
  case (step_tick db jt batch maxA)
  then show ?case
    unfolding live_statuses_def tick_rows_fst by (auto simp: tick_row_def confirm_row_def)
next
  case (step_resolve db m w)
  then show ?case
    by (auto simp: live_statuses_def atomicResolve_def set_predictions_def set_update_where score_row_def split: option.splits)
next
  case (step_index db gen now e)
  from persist_predictions [of gen now e "sd_ix db"] obtain h where
    "ix_predictions (fst (persist_event gen now e (sd_ix db))) = update_where (repairable h) repair_prediction (sd_predictions db)
     \<or> ix_predictions (fst (persist_event gen now e (sd_ix db))) = sd_predictions db" by blast
  with step_index show ?case
    unfolding live_statuses_def image_subset_iff by (auto simp: set_update_where repair_prediction_def)
next
  case (step_place db newId now q)
  then show ?case
    by (auto simp: live_statuses_def createPrediction_def fresh_prediction_def set_predictions_def Let_def split: option.splits)
qed

interpretation statuses: inductive_invariant no_predictions settle_step live_statuses
  by unfold_locales (simp add: no_predictions_def live_statuses_def, rule live_step)

lemma never_won:
  "set sts \<subseteq> {''pending'', ''confirmed'', ''failed''} \<Longrightarrow>
   ct_won (fold count_stats_status sts c) = ct_won c \<and> ct_lost (fold count_stats_status sts c) = ct_lost c
   \<and> ct_claimed (fold count_stats_status sts c) = ct_claimed c"
  by (induction sts arbitrary: c) (auto simp: count_stats_status_def)

text \<open>C39. The statistics count the predictions whose \<^verbatim>\<open>status\<close> is \<^verbatim>\<open>won\<close> or \<^verbatim>\<open>lost\<close>, but the outcome is stored in \<^verbatim>\<open>result\<close> and
  the status of a prediction is only ever pending, confirmed or failed: in every state that the indexer, the
  confirmer, the resolver and the prediction service reach together, a fresh answer has no won, lost or claimed
  prediction and the win rate 0, whatever the results are.\<close>

theorem win_rate_always_zero:
  assumes "reach no_predictions settle_step db" and "cached_value address now cache = None"
    and "fst (getUserStats address now db claims cache) = Some st"
  shows "ct_won (us_byStatus st) = 0 \<and> ct_lost (us_byStatus st) = 0 \<and> ct_claimed (us_byStatus st) = 0 \<and> us_winRate st = 0"
proof -
  obtain user where u: "select_first (\<lambda>u. u_stellarAddress u = address) (sd_users db) = Some user"
    using assms(2,3) by (cases "select_first (\<lambda>u. u_stellarAddress u = address) (sd_users db)") (simp_all add: getUserStats_def)
  then have st: "st = stats_of (u_stellarAddress user) now
      (filter (\<lambda>p. p_userId p = u_id user) (sd_predictions db)) (map c_amount (filter (\<lambda>c. c_userId c = u_id user) claims))"
    using assms(2,3) by (simp add: getUserStats_def Let_def)
  have "live_statuses db" by (rule statuses.reach_inv [OF assms(1)])
  then have s: "set (map p_status (filter (\<lambda>p. p_userId p = u_id user) (sd_predictions db))) \<subseteq> {''pending'', ''confirmed'', ''failed''}"
    by (auto simp: live_statuses_def)
  show ?thesis using never_won [OF s] unfolding st stats_of_def Let_def by simp
qed

definition demo_start :: settlement_db where
  "demo_start = demo_open\<lparr>sd_ix := (sd_ix demo_open)\<lparr>ix_predictions := []\<rparr>\<rparr>"

definition demo_bet :: new_prediction where
  "demo_bet = \<lparr>np_marketId = ''m'', np_userId = ''u'', np_outcome = ''yes'', np_amount = ''5'', np_txHash = ''T''\<rparr>"

definition demo_won :: settlement_db where
  "demo_won = fst (atomicResolve ''m'' ''yes'' (fst (transactionalTick (\<lambda>_. []) 10 3 (fst (createPrediction ''p1'' (-1) demo_bet demo_start)))))"

lemma demo_won_reach: "reach no_predictions settle_step demo_won"
proof -
  have "reach no_predictions settle_step demo_start" by (rule reach_init) (simp add: no_predictions_def demo_start_def)
  from reach_step [OF reach_step [OF reach_step [OF this step_place] step_tick] step_resolve] show ?thesis
    unfolding demo_won_def .
qed

lemma demo_won_result: "map p_result (sd_predictions demo_won) = [Some ''won'']"
  by code_simp

theorem win_rate_always_zero_witness:
  "map p_result (sd_predictions demo_won) = [Some ''won''] \<and>
   (\<exists>st. fst (getUserStats ''GA'' 2000 demo_won [] []) = Some st \<and> us_winRate st = 0)"
proof -
  have c: "cached_value ''GA'' 2000 ([] :: (string \<times> time \<times> user_stats) list) = None" by (simp add: cached_value_def)
  have "select_first (\<lambda>u. u_stellarAddress u = ''GA'') (sd_users demo_won) \<noteq> None" by code_simp
  then obtain st where "fst (getUserStats ''GA'' 2000 demo_won [] []) = Some st"
    by (auto simp: getUserStats_def c Let_def split: option.splits)
  then show ?thesis using win_rate_always_zero [OF demo_won_reach c] demo_won_result by blast
qed

lemma portfolio_accounts_witness:
  "\<exists>v. fst (getUserPortfolio ''GA'' 2000 demo_won [] []) = Some v \<and> pt_marketCount (up_totals v) = 1"
proof -
  have c: "cached_value ''GA'' 2000 ([] :: (string \<times> time \<times> user_portfolio) list) = None" by (simp add: cached_value_def)
  have u: "select_first (\<lambda>u. u_stellarAddress u = ''GA'') (sd_users demo_won) = Some \<lparr>u_id = ''u'', u_stellarAddress = ''GA'', u_createdAt = 0\<rparr>"
    by code_simp
  have r: "map (\<lambda>r. p_marketId (fst r)) (portfolio_rows ''u'' (sd_markets demo_won) (sd_predictions demo_won)) = [''m'']" by code_simp
  then have "card ((\<lambda>r. p_marketId (fst r)) ` set (portfolio_rows ''u'' (sd_markets demo_won) (sd_predictions demo_won))) = 1"
    by (metis card_1_singleton_iff list.simps(15) list.set(1) set_map One_nat_def)
  then show ?thesis using portfolio_accounts [OF c u refl, of "[]"] by auto
qed

end
