(* ===== verification/Leaderboard.thy ===== *)
theory Leaderboard
  imports Cursor Indexer_Recovery
begin

text \<open>
  The leaderboard of a period (\<^verbatim>\<open>src/services/leaderboardService.ts\<close>) and its route. The rows come from a materialised
  view, whose content is what its last refresh computed; redis keeps pages and single entries for five minutes. The keys of
  pages and of single entries differ after \<^verbatim>\<open>leaderboard:\<close> (a period or \<^verbatim>\<open>user\<close>), so the two kinds of value are kept in two
  stores. Each redis call may fail. A failing query rejects the request before it changes anything and is left out.

  \<^item> \<open>page_step\<close>: requests and refreshes interleaved call by call, every call may fail.
  \<^item> \<open>leaderboard_walk\<close>: five minutes after the last refresh the cache is invisible behind the route, and following the
    cursors lists the view once, in order.
  \<^item> \<open>shared_cache_key\<close>: the two ways of asking for the first page write different values under one key.
\<close>

section \<open>Rows, views and cache\<close>

datatype leaderboard_period = ALL_TIME | MONTHLY | WEEKLY

fun period_text :: "leaderboard_period \<Rightarrow> string" where
  "period_text ALL_TIME = ''all-time''"
| "period_text MONTHLY = ''monthly''"
| "period_text WEEKLY = ''weekly''"

fun getMaterializationViewName :: "leaderboard_period \<Rightarrow> string" where
  "getMaterializationViewName ALL_TIME = ''leaderboard_mv''"
| "getMaterializationViewName MONTHLY = ''leaderboard_monthly_mv''"
| "getMaterializationViewName WEEKLY = ''leaderboard_weekly_mv''"

record aggregate =
  ag_user_id :: string
  ag_stellar_address :: string
  ag_total_predictions :: nat
  ag_correct_predictions :: nat
  ag_accuracy_percentage :: rat
  ag_rank :: int

type_synonym 'v redis_store = "(string \<times> time \<times> 'v) list"

text \<open>Whether redis is configured and which of its calls succeed during a request.\<close>

record redis_io =
  io_configured :: bool
  io_read :: bool
  io_write :: bool
  io_invalidate :: bool

record board =
  lb_views :: "string \<Rightarrow> aggregate list"
  lb_pages :: "aggregate list redis_store"
  lb_users :: "aggregate option redis_store"

definition redis_get :: "redis_io \<Rightarrow> string \<Rightarrow> time \<Rightarrow> 'v redis_store \<Rightarrow> 'v option" where
  "redis_get io key now store =
    (if io_configured io \<and> io_read io
     then (case map_of store key of Some (expiresAt, v) \<Rightarrow> if now < expiresAt then Some v else None | None \<Rightarrow> None)
     else None)"

definition redis_setex :: "redis_io \<Rightarrow> string \<Rightarrow> time \<Rightarrow> int \<Rightarrow> 'v \<Rightarrow> 'v redis_store \<Rightarrow> 'v redis_store" where
  "redis_setex io key now seconds v store =
    (if io_configured io \<and> io_write io then AList.update key (now + seconds * 1000, v) store else store)"

definition getCacheKey :: "leaderboard_period \<Rightarrow> nat \<Rightarrow> nat \<Rightarrow> string" where
  "getCacheKey p limit offset =
     ''leaderboard:'' @ period_text p @ CHR '':'' # nat_to_string limit @ CHR '':'' # nat_to_string offset"

definition getUserCacheKey :: "string \<Rightarrow> leaderboard_period \<Rightarrow> string" where
  "getUserCacheKey stellarAddress p = ''leaderboard:user:'' @ stellarAddress @ CHR '':'' # period_text p"

text \<open>\<^verbatim>\<open>ORDER BY rank ASC, user_id ASC\<close>\<close>

definition rank_order :: "aggregate \<Rightarrow> aggregate \<Rightarrow> int" where
  "rank_order a b =
    (if ag_rank a \<noteq> ag_rank b then ag_rank a - ag_rank b
     else if ag_user_id a < ag_user_id b then - 1 else if ag_user_id a = ag_user_id b then 0 else 1)"

definition view_rows :: "board \<Rightarrow> leaderboard_period \<Rightarrow> aggregate list" where
  "view_rows st p = js_sort rank_order (lb_views st (getMaterializationViewName p))"

section \<open>Operations\<close>

definition period_pattern :: "leaderboard_period \<Rightarrow> string" where
  "period_pattern p = ''leaderboard:'' @ period_text p @ '':''"

definition invalidatePeriodCache :: "redis_io \<Rightarrow> leaderboard_period \<Rightarrow> board \<Rightarrow> board" where
  "invalidatePeriodCache io p st =
    (let pattern = period_pattern p in
     if io_configured io \<and> io_invalidate io
     then st\<lparr>lb_pages := filter (\<lambda>e. \<not> prefix pattern (fst e)) (lb_pages st),
             lb_users := filter (\<lambda>e. \<not> prefix pattern (fst e)) (lb_users st)\<rparr>
     else st)"

text \<open>\<open>computed\<close>: the rows the refresh computes, or that it fails.\<close>

definition refreshLeaderboard :: "redis_io \<Rightarrow> aggregate list option \<Rightarrow> leaderboard_period \<Rightarrow> board \<Rightarrow> board option" where
  "refreshLeaderboard io computed p st = (case computed of
     None \<Rightarrow> None
   | Some rows \<Rightarrow> Some (invalidatePeriodCache io p (st\<lparr>lb_views := (lb_views st)(getMaterializationViewName p := rows)\<rparr>)))"

definition getLeaderboard ::
  "redis_io \<Rightarrow> time \<Rightarrow> nat \<Rightarrow> nat \<Rightarrow> leaderboard_period \<Rightarrow> board \<Rightarrow> aggregate list \<times> board" where
  "getLeaderboard io now limit offset p st =
    (let cacheKey = getCacheKey p limit offset in
     case redis_get io cacheKey now (lb_pages st) of
       Some rows \<Rightarrow> (rows, st)
     | None \<Rightarrow>
         (let rows = take limit (drop offset (view_rows st p))
          in (rows, if rows = [] then st else st\<lparr>lb_pages := redis_setex io cacheKey now 300 rows (lb_pages st)\<rparr>)))"

definition getUserLeaderboardEntry ::
  "redis_io \<Rightarrow> time \<Rightarrow> string \<Rightarrow> leaderboard_period \<Rightarrow> board \<Rightarrow> aggregate option \<times> board" where
  "getUserLeaderboardEntry io now stellarAddress p st =
    (let cacheKey = getUserCacheKey stellarAddress p in
     case redis_get io cacheKey now (lb_users st) of
       Some entry \<Rightarrow> (entry, st)
     | None \<Rightarrow>
         (let entry = select_first (\<lambda>r. ag_stellar_address r = stellarAddress) (lb_views st (getMaterializationViewName p))
          in (entry, st\<lparr>lb_users := redis_setex io cacheKey now 300 entry (lb_users st)\<rparr>)))"

definition RANK_PAD_WIDTH :: nat where "RANK_PAD_WIDTH = 10"

definition row_cursor :: "aggregate \<Rightarrow> cursor_key" where
  "row_cursor r = \<lparr>ck_sortValue = padStart RANK_PAD_WIDTH CHR ''0'' (int_to_string (ag_rank r)), ck_id = ag_user_id r\<rparr>"

definition makePage :: "aggregate list \<Rightarrow> nat \<Rightarrow> aggregate list \<times> string option" where
  "makePage rows limit =
    (let hasMore = length rows > limit; entries = take limit rows
     in (entries, if hasMore \<and> entries \<noteq> [] then Some (encodeCursor (row_cursor (last entries))) else None))"

definition first_page :: "redis_io \<Rightarrow> time \<Rightarrow> nat \<Rightarrow> leaderboard_period \<Rightarrow> board \<Rightarrow> (aggregate list \<times> string option) \<times> board" where
  "first_page io now limit p st =
    (let cacheKey = getCacheKey p limit 0 in
     case redis_get io cacheKey now (lb_pages st) of
       Some rows \<Rightarrow> (makePage rows limit, st)
     | None \<Rightarrow>
         (let rows = take (limit + 1) (view_rows st p)
          in (makePage rows limit,
              if rows = [] then st else st\<lparr>lb_pages := redis_setex io cacheKey now 300 rows (lb_pages st)\<rparr>)))"

text \<open>The position a cursor names: the safe rank and the user, \<open>None\<close> for every cursor the code falls back on.\<close>

definition cursor_position :: "(string \<Rightarrow> string) \<Rightarrow> string \<Rightarrow> (int \<times> string) option" where
  "cursor_position utf8 cursor = (case decodeCursor utf8 (Some cursor) of
     None \<Rightarrow> None
   | Some key \<Rightarrow> (case parseInt10 (ck_sortValue key) of
       None \<Rightarrow> None
     | Some rank \<Rightarrow> if \<bar>rank\<bar> \<le> 2 ^ 53 - 1 \<and> 1 \<le> rank \<and> ck_id key \<noteq> [] then Some (rank, ck_id key) else None))"

definition getLeaderboardPage ::
  "(string \<Rightarrow> string) \<Rightarrow> redis_io \<Rightarrow> time \<Rightarrow> nat \<Rightarrow> leaderboard_period \<Rightarrow> string option \<Rightarrow> board
     \<Rightarrow> (aggregate list \<times> string option) \<times> board" where
  "getLeaderboardPage utf8 io now limit p cursor st = (case cursor of
     None \<Rightarrow> first_page io now limit p st
   | Some c \<Rightarrow>
     if c = [] then first_page io now limit p st
     else (case cursor_position utf8 c of
       None \<Rightarrow> first_page io now limit p st
     | Some (cursorRank, cursorUserId) \<Rightarrow>
         (makePage (take (limit + 1) (filter (\<lambda>r. ag_rank r > cursorRank \<or> ag_rank r = cursorRank \<and> ag_user_id r > cursorUserId)
            (view_rows st p))) limit, st)))"

definition getLeaderboardWithRefresh ::
  "redis_io \<Rightarrow> aggregate list option \<Rightarrow> time \<Rightarrow> nat \<Rightarrow> nat \<Rightarrow> leaderboard_period \<Rightarrow> board \<Rightarrow> (aggregate list \<times> board) option" where
  "getLeaderboardWithRefresh io computed now limit offset p st =
     map_option (getLeaderboard io now limit offset p) (refreshLeaderboard io computed p st)"

definition getLeaderboardPageWithRefresh ::
  "(string \<Rightarrow> string) \<Rightarrow> redis_io \<Rightarrow> aggregate list option \<Rightarrow> time \<Rightarrow> nat \<Rightarrow> leaderboard_period \<Rightarrow> string option \<Rightarrow> board
     \<Rightarrow> ((aggregate list \<times> string option) \<times> board) option" where
  "getLeaderboardPageWithRefresh utf8 io computed now limit p cursor st =
     map_option (getLeaderboardPage utf8 io now limit p cursor) (refreshLeaderboard io computed p st)"

text \<open>The route: a validated query, \<open>None\<close> where the service throws.\<close>

record board_query =
  bq_limit :: nat
  bq_offset :: nat
  bq_refresh :: bool
  bq_period :: leaderboard_period
  bq_cursor :: "string option"

definition leaderboard_route ::
  "(string \<Rightarrow> string) \<Rightarrow> redis_io \<Rightarrow> aggregate list option \<Rightarrow> time \<Rightarrow> board_query \<Rightarrow> board
     \<Rightarrow> ((aggregate list \<times> string option) \<times> board) option" where
  "leaderboard_route utf8 io computed now q st =
    (let limit = bq_limit q; offset = bq_offset q; p = bq_period q; useCursor = bq_cursor q \<noteq> None \<or> offset = 0 in
     if useCursor
     then (if bq_refresh q then getLeaderboardPageWithRefresh utf8 io computed now limit p (bq_cursor q) st
           else Some (getLeaderboardPage utf8 io now limit p (bq_cursor q) st))
     else map_option (\<lambda>(rows, st'). ((rows, None), st'))
       (if bq_refresh q then getLeaderboardWithRefresh io computed now limit offset p st
        else Some (getLeaderboard io now limit offset p st)))"

section \<open>Requests and refreshes, call by call\<close>

text \<open>What a request or a refresh still has to do: query after a read that found nothing, failed or was skipped; write the
  rows to redis after the query; list the keys after the view is refreshed; delete the listed keys.\<close>

datatype open_call =
    AfterMiss leaderboard_period nat nat
  | AfterQuery leaderboard_period nat nat "aggregate list"
  | AfterView leaderboard_period
  | AfterKeys leaderboard_period "string list"

record page_world =
  pw_board :: board
  pw_clock :: time
  pw_open :: "open_call list"

definition page_rows :: "board \<Rightarrow> leaderboard_period \<Rightarrow> nat \<Rightarrow> nat \<Rightarrow> aggregate list" where
  "page_rows st p limit offset =
    (if offset = 0 then take (limit + 1) (view_rows st p) else take limit (drop offset (view_rows st p)))"

lemma append_delim:
  "d \<notin> set a \<Longrightarrow> d \<notin> set a' \<Longrightarrow> a @ d # b = a' @ d # b' \<longleftrightarrow> a = a' \<and> b = b'"
proof (induction a arbitrary: a')
  case (Cons x xs)
  then show ?case by (cases a') auto
qed (auto simp: Cons_eq_append_conv)

lemma no_colon_key [simp]: "CHR '':'' \<notin> set (nat_to_string n)" "CHR '':'' \<notin> set (period_text p)"
proof -
  show "CHR '':'' \<notin> set (nat_to_string n)" using nat_to_string_digits by (fastforce simp: is_digit_def Let_def)
  show "CHR '':'' \<notin> set (period_text p)" by (cases p) simp_all
qed

lemma nat_to_string_inject [simp]: "nat_to_string m = nat_to_string n \<longleftrightarrow> m = n"
  by (metis digits_value_nat_to_string option.inject)

lemma period_text_inject [simp]: "period_text p = period_text p' \<longleftrightarrow> p = p'"
  by (cases p; cases p') simp_all

lemma view_name_inject [simp]: "getMaterializationViewName p = getMaterializationViewName p' \<longleftrightarrow> p = p'"
  by (cases p; cases p') simp_all

lemma getCacheKey_inject [simp]: "getCacheKey p l off = getCacheKey p' l' off' \<longleftrightarrow> p = p' \<and> l = l' \<and> off = off'"
  by (simp add: getCacheKey_def append_delim)

lemma prefix_key [simp]: "prefix (period_pattern p) (getCacheKey p' l off) \<longleftrightarrow> p = p'"
proof
  assume "prefix (period_pattern p) (getCacheKey p' l off)"
  then obtain zs where "getCacheKey p' l off = period_pattern p @ zs" by (auto elim: prefixE)
  then show "p = p'" by (simp add: getCacheKey_def period_pattern_def append_delim)
qed (simp add: getCacheKey_def period_pattern_def)

lemma map_of_filter_key: "map_of (filter (\<lambda>e. P (fst e)) xs) k = (if P k then map_of xs k else None)"
  by (induction xs) auto

abbreviation pw_pages :: "page_world \<Rightarrow> aggregate list redis_store" where
  "pw_pages w \<equiv> lb_pages (pw_board w)"

definition answered :: "open_call \<Rightarrow> board \<Rightarrow> open_call list \<Rightarrow> page_world \<Rightarrow> page_world" where
  "answered c st next w = w\<lparr>pw_board := st, pw_open := next @ remove1 c (pw_open w)\<rparr>"

text \<open>\<open>Q\<close>: the periods whose view is refreshed. A page read that hits changes nothing, nor does a page behind a cursor.
  Every call can fail (\<open>step_drop\<close>; for the redis write also \<open>io\<close>), and a read can always miss, since it can fail. The
  entries of single users live in a store of their own.\<close>

inductive page_step :: "leaderboard_period set \<Rightarrow> page_world \<Rightarrow> page_world \<Rightarrow> bool" for Q where
  step_clock: "pw_clock w \<le> t \<Longrightarrow> page_step Q w (w\<lparr>pw_clock := t\<rparr>)"
| step_miss: "page_step Q w (w\<lparr>pw_open := AfterMiss p l off # pw_open w\<rparr>)"
| step_query: "c = AfterMiss p l off \<Longrightarrow> c \<in> set (pw_open w) \<Longrightarrow> rows = page_rows (pw_board w) p l off \<Longrightarrow>
    page_step Q w (answered c (pw_board w) [AfterQuery p l off rows] w)"
| step_write: "c = AfterQuery p l off rows \<Longrightarrow> c \<in> set (pw_open w) \<Longrightarrow> rows \<noteq> [] \<Longrightarrow>
    page_step Q w (answered c ((pw_board w)\<lparr>lb_pages :=
       redis_setex io (getCacheKey p l off) (pw_clock w) 300 rows (pw_pages w)\<rparr>) [] w)"
| step_refresh: "p \<in> Q \<Longrightarrow> page_step Q w (w\<lparr>pw_board := (pw_board w)\<lparr>lb_views :=
       (lb_views (pw_board w))(getMaterializationViewName p := rows)\<rparr>, pw_open := AfterView p # pw_open w\<rparr>)"
| step_keys: "c = AfterView p \<Longrightarrow> c \<in> set (pw_open w) \<Longrightarrow> page_step Q w (answered c (pw_board w)
       [AfterKeys p (filter (prefix (period_pattern p)) (map fst (pw_pages w)))] w)"
| step_delete: "c = AfterKeys p ks \<Longrightarrow> c \<in> set (pw_open w) \<Longrightarrow> page_step Q w (answered c
       ((pw_board w)\<lparr>lb_pages := filter (\<lambda>e. fst e \<notin> set ks) (pw_pages w)\<rparr>) [] w)"
| step_drop: "c \<in> set (pw_open w) \<Longrightarrow> page_step Q w (answered c (pw_board w) [] w)"
| step_users: "page_step Q w (w\<lparr>pw_board := (pw_board w)\<lparr>lb_users := users\<rparr>\<rparr>)"

definition cold_cache :: "page_world \<Rightarrow> bool" where
  "cold_cache w \<longleftrightarrow> pw_pages w = [] \<and> pw_open w = []"

text \<open>The functions of the service run alone are runs of these steps.\<close>

lemma page_steps_write:
  fixes w :: page_world
  assumes "rows = page_rows (pw_board w) p l off"
  shows "(page_step Q)\<^sup>*\<^sup>* w (w\<lparr>pw_board := if rows = [] then pw_board w
     else (pw_board w)\<lparr>lb_pages := redis_setex io (getCacheKey p l off) (pw_clock w) 300 rows (pw_pages w)\<rparr>\<rparr>)"
proof -
  let ?m = "AfterMiss p l off" and ?q = "AfterQuery p l off rows"
  let ?w1 = "w\<lparr>pw_open := ?m # pw_open w\<rparr>" and ?w2 = "w\<lparr>pw_open := ?q # pw_open w\<rparr>"
  have "page_step Q w ?w1" by (rule step_miss)
  moreover have "page_step Q ?w1 ?w2"
    using step_query [of ?m p l off ?w1 rows Q] assms by (simp add: answered_def)
  moreover have "page_step Q ?w2 (w\<lparr>pw_board := if rows = [] then pw_board w
     else (pw_board w)\<lparr>lb_pages := redis_setex io (getCacheKey p l off) (pw_clock w) 300 rows (pw_pages w)\<rparr>\<rparr>)"
    using step_drop [of ?q ?w2 Q] step_write [of ?q p l off rows ?w2 Q io] by (cases "rows = []") (simp_all add: answered_def)
  ultimately show ?thesis by (meson converse_rtranclp_into_rtranclp r_into_rtranclp)
qed

lemma first_page_steps:
  fixes w :: page_world
  shows "(page_step Q)\<^sup>*\<^sup>* w (w\<lparr>pw_board := snd (first_page io (pw_clock w) l p (pw_board w))\<rparr>)"
proof (cases "redis_get io (getCacheKey p l 0) (pw_clock w) (pw_pages w)")
  case None
  have "snd (first_page io (pw_clock w) l p (pw_board w)) = (if page_rows (pw_board w) p l 0 = [] then pw_board w
     else (pw_board w)\<lparr>lb_pages := redis_setex io (getCacheKey p l 0) (pw_clock w) 300 (page_rows (pw_board w) p l 0) (pw_pages w)\<rparr>)"
    by (simp add: first_page_def Let_def None page_rows_def)
  then show ?thesis using page_steps_write [OF refl, of Q w p l 0 io] by (simp only:)
qed (simp add: first_page_def Let_def)

lemma offset_page_steps:
  fixes w :: page_world
  assumes "off \<noteq> 0"
  shows "(page_step Q)\<^sup>*\<^sup>* w (w\<lparr>pw_board := snd (getLeaderboard io (pw_clock w) l off p (pw_board w))\<rparr>)"
proof (cases "redis_get io (getCacheKey p l off) (pw_clock w) (pw_pages w)")
  case None
  have "snd (getLeaderboard io (pw_clock w) l off p (pw_board w)) = (if page_rows (pw_board w) p l off = [] then pw_board w
     else (pw_board w)\<lparr>lb_pages := redis_setex io (getCacheKey p l off) (pw_clock w) 300 (page_rows (pw_board w) p l off) (pw_pages w)\<rparr>)"
    using assms by (simp add: getLeaderboard_def Let_def None page_rows_def)
  then show ?thesis using page_steps_write [OF refl, of Q w p l off io] by (simp only:)
qed (simp add: getLeaderboard_def Let_def)

lemma refresh_steps:
  fixes w :: page_world
  assumes "refreshLeaderboard io (Some rows) p (pw_board w) = Some st" and "p \<in> Q"
  shows "(page_step Q)\<^sup>*\<^sup>* w (w\<lparr>pw_board := st\<rparr>)"
proof -
  let ?pat = "period_pattern p"
  let ?st1 = "(pw_board w)\<lparr>lb_views := (lb_views (pw_board w))(getMaterializationViewName p := rows)\<rparr>"
  let ?ks = "filter (prefix ?pat) (map fst (pw_pages w))" and ?users = "filter (\<lambda>e. \<not> prefix ?pat (fst e)) (lb_users (pw_board w))"
  let ?st2 = "?st1\<lparr>lb_pages := filter (\<lambda>e. fst e \<notin> set ?ks) (pw_pages w)\<rparr>"
  let ?w = "\<lambda>b os. w\<lparr>pw_board := b, pw_open := os @ pw_open w\<rparr>"
  have st: "st = invalidatePeriodCache io p ?st1" using assms(1) by (simp add: refreshLeaderboard_def)
  have s1: "page_step Q w (?w ?st1 [AfterView p])" using step_refresh [OF assms(2), of w rows] by simp
  have s2: "page_step Q (?w ?st1 [AfterView p]) (?w ?st1 [AfterKeys p ?ks])"
    using step_keys [of "AfterView p" p "?w ?st1 [AfterView p]" Q] by (simp add: answered_def)
  have s3: "page_step Q (?w ?st1 [AfterKeys p ?ks]) (?w ?st2 [])"
    using step_delete [of "AfterKeys p ?ks" p ?ks "?w ?st1 [AfterKeys p ?ks]" Q] by (simp add: answered_def)
  have s4: "page_step Q (?w ?st2 []) (?w (?st2\<lparr>lb_users := ?users\<rparr>) [])" using step_users [of Q "?w ?st2 []" ?users] by simp
  have s5: "page_step Q (?w ?st1 [AfterView p]) (?w ?st1 [])"
    using step_drop [of "AfterView p" "?w ?st1 [AfterView p]" Q] by (simp add: answered_def)
  have f: "filter (\<lambda>e. fst e \<notin> set ?ks) (pw_pages w) = filter (\<lambda>e. \<not> prefix ?pat (fst e)) (pw_pages w)"
    by (rule filter_cong) auto
  show ?thesis
  proof (cases "io_configured io \<and> io_invalidate io")
    case True
    then have "st = ?st2\<lparr>lb_users := ?users\<rparr>" unfolding st f by (simp add: invalidatePeriodCache_def Let_def)
    then have "w\<lparr>pw_board := st\<rparr> = ?w (?st2\<lparr>lb_users := ?users\<rparr>) []" by simp
    then show ?thesis using s1 s2 s3 s4 by (metis (no_types, lifting) converse_rtranclp_into_rtranclp rtranclp.rtrancl_refl)
  next
    case False
    then have "w\<lparr>pw_board := st\<rparr> = ?w ?st1 []" unfolding st by (auto simp: invalidatePeriodCache_def Let_def)
    then show ?thesis using s1 s5 by (metis (no_types, lifting) converse_rtranclp_into_rtranclp rtranclp.rtrancl_refl)
  qed
qed

section \<open>Outdated pages expire\<close>

lemma page_rows_cong:
  "lb_views st' (getMaterializationViewName p) = lb_views st (getMaterializationViewName p) \<Longrightarrow> page_rows st' p l off = page_rows st p l off"
  by (simp add: page_rows_def view_rows_def)

text \<open>No page lives longer than five minutes from now.\<close>

definition short_lived :: "page_world \<Rightarrow> bool" where
  "short_lived w \<longleftrightarrow> (\<forall>k e rows. map_of (pw_pages w) k = Some (e, rows) \<longrightarrow> e \<le> pw_clock w + 300000)"

lemma map_of_setex:
  "map_of (redis_setex io k now s v store) j = (if j = k \<and> io_configured io \<and> io_write io then Some (now + s * 1000, v) else map_of store j)"
  by (simp add: redis_setex_def update_conv')

lemma page_step_short_lived: "page_step Q w w' \<Longrightarrow> short_lived w \<Longrightarrow> short_lived w'"
proof (induction rule: page_step.induct)
  case (step_clock w t)
  then show ?case unfolding short_lived_def by (metis add_le_cancel_right order_trans page_world.select_convs(1,2) page_world.surjective page_world.update_convs(2))
next
  case (step_write c p l off rows w io)
  then show ?case by (auto simp: short_lived_def answered_def map_of_setex)
next
  case (step_delete c p ks w)
  then show ?case
    using map_of_filter_key [of "\<lambda>k. k \<notin> set ks" "pw_pages w"] by (auto simp: short_lived_def answered_def)
qed (simp_all add: short_lived_def answered_def)

interpretation lived: inductive_invariant cold_cache "page_step Q" short_lived for Q
  by unfold_locales (simp add: cold_cache_def short_lived_def, rule page_step_short_lived)

text \<open>Since a moment at which the view of \<open>p\<close> was \<open>v\<close> and the pages of then end by \<open>T\<close>: the view is the same, and a page of
  \<open>p\<close> that lives longer than \<open>T\<close>, or is going to be written, is a page of it.\<close>

definition settled :: "time \<Rightarrow> leaderboard_period \<Rightarrow> aggregate list \<Rightarrow> page_world \<Rightarrow> bool" where
  "settled T p v w \<longleftrightarrow> lb_views (pw_board w) (getMaterializationViewName p) = v
     \<and> (\<forall>l off e rows. map_of (pw_pages w) (getCacheKey p l off) = Some (e, rows) \<longrightarrow> e \<le> T \<or> rows = page_rows (pw_board w) p l off)
     \<and> (\<forall>l off rows. AfterQuery p l off rows \<in> set (pw_open w) \<longrightarrow> rows = page_rows (pw_board w) p l off)"

lemma settledI:
  assumes "lb_views (pw_board w') (getMaterializationViewName p) = lb_views (pw_board w) (getMaterializationViewName p)"
    and "\<And>l off e rows. map_of (pw_pages w') (getCacheKey p l off) = Some (e, rows) \<Longrightarrow>
        map_of (pw_pages w) (getCacheKey p l off) = Some (e, rows) \<or> rows = page_rows (pw_board w) p l off"
    and "\<And>l off rows. AfterQuery p l off rows \<in> set (pw_open w') \<Longrightarrow>
        AfterQuery p l off rows \<in> set (pw_open w) \<or> rows = page_rows (pw_board w) p l off"
    and "settled T p v w"
  shows "settled T p v w'"
  using assms(2-4) page_rows_cong [OF assms(1)] assms(1) unfolding settled_def by metis

lemma answered_open: "x \<in> set (pw_open (answered c st next w)) \<Longrightarrow> x \<in> set next \<or> x \<in> set (pw_open w)"
  by (auto simp: answered_def dest: notin_set_remove1)

lemma answered_board [simp]: "pw_board (answered c st next w) = st"
  by (simp add: answered_def)

lemma page_step_settled:
  assumes "page_step (- {p}) w w'" and "settled T p v w"
  shows "settled T p v w'"
  using assms(1)
proof cases
  case (step_query c p' l off rows)
  show ?thesis by (rule settledI [OF _ _ _ assms(2)]) (use step_query in \<open>auto dest: answered_open\<close>)
next
  case (step_write c p' l off rows io)
  have "p' = p \<Longrightarrow> rows = page_rows (pw_board w) p l off" using step_write assms(2) by (auto simp: settled_def)
  then show ?thesis
    by (intro settledI [OF _ _ _ assms(2)]) (use step_write in \<open>auto dest: answered_open simp: map_of_setex split: if_splits\<close>)
next
  case (step_refresh p' rows)
  then show ?thesis by (intro settledI [OF _ _ _ assms(2)]) auto
next
  case (step_delete c p' ks)
  show ?thesis
    by (rule settledI [OF _ _ _ assms(2)])
      (use step_delete map_of_filter_key [of "\<lambda>k. k \<notin> set ks" "pw_pages w"] in \<open>auto dest: answered_open split: if_splits\<close>)
next
  case (step_keys c p')
  show ?thesis by (rule settledI [OF _ _ _ assms(2)]) (use step_keys in \<open>auto dest: answered_open\<close>)
next
  case (step_drop c)
  show ?thesis by (rule settledI [OF _ _ _ assms(2)]) (use step_drop in \<open>auto dest: answered_open\<close>)
next
  case (step_clock t)
  show ?thesis by (rule settledI [OF _ _ _ assms(2)]) (use step_clock in auto)
next
  case (step_miss p' l off)
  show ?thesis by (rule settledI [OF _ _ _ assms(2)]) (use step_miss in auto)
next
  case (step_users users)
  show ?thesis by (rule settledI [OF _ _ _ assms(2)]) (use step_users in auto)
qed

lemma page_step_clock: "page_step Q w w' \<Longrightarrow> pw_clock w \<le> pw_clock w'"
  by (induction rule: page_step.induct) (simp_all add: answered_def)

lemma page_steps_settled:
  "(page_step (- {p}))\<^sup>*\<^sup>* w w' \<Longrightarrow> settled T p v w \<Longrightarrow> settled T p v w' \<and> pw_clock w \<le> pw_clock w'"
  by (induction rule: rtranclp_induct) (auto dest: page_step_settled page_step_clock)

lemma quiet_settled:
  assumes "reach cold_cache (page_step Q) w" and "\<And>l off rows. AfterQuery p l off rows \<notin> set (pw_open w)"
  shows "settled (pw_clock w + 300000) p (lb_views (pw_board w) (getMaterializationViewName p)) w"
  using lived.reach_inv [OF assms(1)] assms(2) unfolding settled_def short_lived_def by blast

text \<open>From \<open>T\<close> on a page of the route is a page of the view, wherever it comes from.\<close>

definition page_after :: "(string \<Rightarrow> string) \<Rightarrow> nat \<Rightarrow> string option \<Rightarrow> aggregate list \<Rightarrow> aggregate list \<times> string option" where
  "page_after utf8 limit cursor rows = (case cursor of
     None \<Rightarrow> makePage (take (limit + 1) rows) limit
   | Some c \<Rightarrow> (case (if c = [] then None else cursor_position utf8 c) of
       None \<Rightarrow> makePage (take (limit + 1) rows) limit
     | Some (rank, uid) \<Rightarrow>
         makePage (take (limit + 1) (filter (\<lambda>r. ag_rank r > rank \<or> ag_rank r = rank \<and> ag_user_id r > uid) rows)) limit))"

lemma settled_page:
  assumes "settled T p v w" and "T \<le> pw_clock w"
  shows "fst (getLeaderboardPage utf8 io (pw_clock w) l p cur (pw_board w)) = page_after utf8 l cur (view_rows (pw_board w) p)"
proof -
  have first: "fst (first_page io (pw_clock w) l p (pw_board w)) = makePage (take (l + 1) (view_rows (pw_board w) p)) l"
  proof (cases "redis_get io (getCacheKey p l 0) (pw_clock w) (pw_pages w)")
    case None
    then show ?thesis by (simp add: first_page_def Let_def)
  next
    case (Some rows)
    then obtain e where "map_of (pw_pages w) (getCacheKey p l 0) = Some (e, rows)" "pw_clock w < e"
      by (auto simp: redis_get_def split: if_splits option.splits)
    then have "rows = page_rows (pw_board w) p l 0" using assms unfolding settled_def by force
    then show ?thesis using Some by (simp add: first_page_def Let_def page_rows_def)
  qed
  then show ?thesis by (auto simp: getLeaderboardPage_def page_after_def split: option.split)
qed

section \<open>Following the cursors\<close>

text \<open>A client that asks the route for page after page, without a refresh, while the steps of others (and the redis calls of
  its own requests) go on: the pages so far, the cursor it got last, and the world of its last answer.\<close>

definition page_query :: "nat \<Rightarrow> leaderboard_period \<Rightarrow> string option \<Rightarrow> board_query" where
  "page_query limit p cursor = \<lparr>bq_limit = limit, bq_offset = 0, bq_refresh = False, bq_period = p, bq_cursor = cursor\<rparr>"

inductive cursor_walk ::
  "(string \<Rightarrow> string) \<Rightarrow> leaderboard_period set \<Rightarrow> nat \<Rightarrow> leaderboard_period \<Rightarrow> page_world \<Rightarrow> aggregate list list \<Rightarrow> string option
     \<Rightarrow> page_world \<Rightarrow> bool" for utf8 Q limit p w where
  walk_first: "(page_step Q)\<^sup>*\<^sup>* w w1 \<Longrightarrow>
    leaderboard_route utf8 io None (pw_clock w1) (page_query limit p None) (pw_board w1) = Some ((entries, next), st) \<Longrightarrow>
    cursor_walk utf8 Q limit p w [entries] next w1"
| walk_next: "cursor_walk utf8 Q limit p w pages (Some c) w1 \<Longrightarrow> (page_step Q)\<^sup>*\<^sup>* w1 w2 \<Longrightarrow>
    leaderboard_route utf8 io None (pw_clock w2) (page_query limit p (Some c)) (pw_board w2) = Some ((entries, next), st) \<Longrightarrow>
    cursor_walk utf8 Q limit p w (pages @ [entries]) next w2"

lemma page_route:
  "leaderboard_route utf8 io None now (page_query l p cur) st = Some (getLeaderboardPage utf8 io now l p cur st)"
  by (simp add: leaderboard_route_def page_query_def)

definition ranked_after :: "aggregate \<Rightarrow> aggregate \<Rightarrow> bool" where
  "ranked_after a b \<longleftrightarrow> ag_rank b > ag_rank a \<or> ag_rank b = ag_rank a \<and> ag_user_id b > ag_user_id a"

definition view_ok :: "(string \<Rightarrow> string) \<Rightarrow> aggregate list \<Rightarrow> bool" where
  "view_ok utf8 rows \<longleftrightarrow> distinct (map ag_user_id rows) \<and>
     (\<forall>r \<in> set rows. 1 \<le> ag_rank r \<and> ag_rank r \<le> 2 ^ 53 - 1 \<and> key_ok utf8 (row_cursor r))"

lemma rank_order_consistent: "consistent rank_order"
  by (auto simp: consistent_def rank_order_def split: if_splits)

lemma sorted_wrt_distinct:
  "sorted_wrt R xs \<Longrightarrow> distinct (map f xs) \<Longrightarrow> sorted_wrt (\<lambda>a b. R a b \<and> f a \<noteq> f b) xs"
  by (induction xs) auto

lemma view_sorted:
  assumes "distinct (map ag_user_id rows)"
  shows "sorted_wrt ranked_after (js_sort rank_order rows)"
proof -
  have "mset (map ag_user_id (js_sort rank_order rows)) = mset (map ag_user_id rows)" by simp
  then have "distinct (map ag_user_id (js_sort rank_order rows))" using assms mset_eq_imp_distinct_iff by blast
  from sorted_wrt_distinct [OF sorted_js_sort [OF rank_order_consistent] this] show ?thesis
    by (rule sorted_wrt_mono_rel [rotated]) (auto simp: rank_order_def ranked_after_def split: if_splits)
qed

lemma ranked_after_asym: "ranked_after x z \<Longrightarrow> \<not> ranked_after z x"
  unfolding ranked_after_def using order_less_asym by force

lemma filter_after_last:
  assumes "sorted_wrt ranked_after (xs @ ys)" and "xs \<noteq> []"
  shows "filter (ranked_after (last xs)) (xs @ ys) = ys"
proof -
  obtain zs z where xs: "xs = zs @ [z]" using assms(2) by (cases xs rule: rev_cases) auto
  have "\<not> ranked_after z x" if "x \<in> set xs" for x
  proof (cases "x = z")
    case True
    then show ?thesis by (simp add: ranked_after_def)
  next
    case False
    then have "ranked_after x z" using assms(1) that by (simp add: xs sorted_wrt_append)
    then show ?thesis by (rule ranked_after_asym)
  qed
  moreover have "ranked_after z y" if "y \<in> set ys" for y using assms(1) that by (simp add: xs sorted_wrt_append)
  moreover have "last xs = z" by (simp add: xs)
  ultimately show ?thesis unfolding filter_append by (metis append_Nil filter_False filter_True)
qed

lemma cursor_position_row:
  assumes "key_ok utf8 (row_cursor r)" and "1 \<le> ag_rank r" and "ag_rank r \<le> 2 ^ 53 - 1"
  shows "cursor_position utf8 (encodeCursor (row_cursor r)) = Some (ag_rank r, ag_user_id r)"
proof -
  let ?d = "padStart RANK_PAD_WIDTH CHR ''0'' (nat_to_string (nat (ag_rank r)))"
  have d: "all_digits ?d" using nat_to_string_digits by (auto simp: all_digits_def padStart_def list_all_iff)
  have k: "row_cursor r = \<lparr>ck_sortValue = ?d, ck_id = ag_user_id r\<rparr>" using assms(2) by (simp add: row_cursor_def int_to_string_def)
  have "parseInt10 ?d = Some (ag_rank r)"
    using all_digits_parseInt [OF d] assms(2) by (simp add: padStart_def digits_value_zeros digits_value_nat_to_string)
  then show ?thesis
    using decode_encode [OF assms(1)] assms by (simp add: cursor_position_def k key_ok_def)
qed

lemma page_after_split:
  assumes "sorted_wrt ranked_after (seen @ rest)" and "view_ok utf8 (seen @ rest)"
    and "cur = (if seen = [] then None else Some (encodeCursor (row_cursor (last seen))))"
  shows "page_after utf8 l cur (seen @ rest) = makePage (take (l + 1) rest) l"
proof (cases "seen = []")
  case True
  then show ?thesis using assms(3) by (simp add: page_after_def)
next
  case False
  let ?z = "last seen"
  have ok: "key_ok utf8 (row_cursor ?z)" "1 \<le> ag_rank ?z" "ag_rank ?z \<le> 2 ^ 53 - 1"
    using assms(2) False last_in_set [OF False] unfolding view_ok_def by auto
  have ne: "encodeCursor (row_cursor ?z) \<noteq> []"
    using decode_encode [OF ok(1)] by (auto simp: decodeCursor_def)
  have pred: "(\<lambda>r. ag_rank r > ag_rank ?z \<or> ag_rank r = ag_rank ?z \<and> ag_user_id r > ag_user_id ?z) = ranked_after ?z"
    by (simp add: fun_eq_iff ranked_after_def)
  have cur: "cur = Some (encodeCursor (row_cursor ?z))" using assms(3) False by simp
  show ?thesis
    unfolding cur page_after_def option.case if_not_P [OF ne] cursor_position_row [OF ok] prod.case pred
      filter_after_last [OF assms(1) False] ..
qed

lemma makePage_rest:
  assumes "0 < l"
  shows "makePage (take (l + 1) rest) l = (take l rest,
    if l < length rest then Some (encodeCursor (row_cursor (last (take l rest)))) else None)"
  using assms by (auto simp: makePage_def Let_def min_def)

lemma rows_settled: "settled T p v w \<Longrightarrow> view_rows (pw_board w) p = js_sort rank_order v"
  by (simp add: settled_def view_rows_def)

lemma next_page:
  assumes "settled T p v w" and "T \<le> pw_clock w" and "0 < l" and "rows = js_sort rank_order v"
    and "sorted_wrt ranked_after rows" and "view_ok utf8 rows" and "n = 0 \<or> n < length rows"
    and "cur = (if n = 0 then None else Some (encodeCursor (row_cursor (last (take n rows)))))"
    and "leaderboard_route utf8 io None (pw_clock w) (page_query l p cur) (pw_board w) = Some ((entries, next), st)"
  shows "take n rows @ entries = take (n + l) rows
    \<and> next = (if n + l < length rows then Some (encodeCursor (row_cursor (last (take (n + l) rows)))) else None)"
proof -
  have split: "take n rows @ drop n rows = rows" by simp
  have e: "take n rows = [] \<longleftrightarrow> n = 0" using assms(7) by auto
  have "(entries, next) = page_after utf8 l cur rows"
    using assms(9) settled_page [OF assms(1,2), of utf8 io l cur] rows_settled [OF assms(1)] by (simp add: page_route assms(4))
  also have "\<dots> = makePage (take (l + 1) (drop n rows)) l"
    using page_after_split [of "take n rows" "drop n rows" utf8 cur l] assms(5,6,8) unfolding split e by simp
  finally have page: "entries = take l (drop n rows)"
    "next = (if l < length rows - n then Some (encodeCursor (row_cursor (last (take l (drop n rows))))) else None)"
    unfolding makePage_rest [OF assms(3)] by simp_all
  have "last (take (n + l) rows) = last (take l (drop n rows))" if "n + l < length rows"
    using that assms(3) by (simp add: take_add)
  then show ?thesis using page by (auto simp: take_add)
qed

lemma walk_pages:
  assumes "settled T p v w" and "T \<le> pw_clock w" and "0 < l" and "rows = js_sort rank_order v"
    and "sorted_wrt ranked_after rows" and "view_ok utf8 rows"
  shows "cursor_walk utf8 (- {p}) l p w pages next w' \<Longrightarrow> settled T p v w' \<and> T \<le> pw_clock w' \<and> pages \<noteq> []
    \<and> concat pages = take (l * length pages) rows
    \<and> next = (if l * length pages < length rows then Some (encodeCursor (row_cursor (last (take (l * length pages) rows)))) else None)"
proof (induction rule: cursor_walk.induct)
  case (walk_first w1 io entries "next" st)
  have s: "settled T p v w1" "T \<le> pw_clock w1" using page_steps_settled [OF walk_first(1) assms(1)] assms(2) by auto
  show ?case using next_page [OF s assms(3-6), of 0 None, OF _ _ walk_first(2)] s by simp
next
  case (walk_next pages c w1 w2 io entries "next" st)
  let ?n = "l * length pages"
  have s: "settled T p v w2" "T \<le> pw_clock w2" using page_steps_settled [OF walk_next(2)] walk_next(4) by force+
  have n: "?n < length rows" "c = encodeCursor (row_cursor (last (take ?n rows)))" "?n \<noteq> 0" "concat pages = take ?n rows"
    using walk_next(4) assms(3) by (auto split: if_splits)
  from next_page [OF s assms(3-6), of ?n "Some c", OF _ _ walk_next(3)] n
  have "take ?n rows @ entries = take (?n + l) rows
    \<and> next = (if ?n + l < length rows then Some (encodeCursor (row_cursor (last (take (?n + l) rows)))) else None)" by simp
  then show ?case using s n(4) by (simp add: add.commute)
qed

text \<open>C37. Five minutes after the last refresh of its view the redis cache is invisible behind the route. Requests and
  refreshes are interleaved call by call (redis read, query, redis write; view, key listing, deletion), every call may
  fail, and a failed invalidation is swallowed as in the code. Take a moment of any run from an empty cache at which no
  request of the period is between its query and its redis write, and suppose the view of the period is not refreshed
  from then on. Then a client that starts at least five minutes later and follows the cursors from the first page gets
  the rows of the view in rank order and each once, page by page without a gap, whatever others do in between; it is told
  that there is no next page exactly when it has all rows; and while there is one, it can go on. The view is assumed to
  have one row per user, ranks from 1 to the largest safe integer, and user identifiers a cursor can carry.\<close>

theorem leaderboard_walk:
  assumes "reach cold_cache (page_step UNIV) w0" and "\<forall>l off rows. AfterQuery p l off rows \<notin> set (pw_open w0)"
    and "(page_step (- {p}))\<^sup>*\<^sup>* w0 w" and "pw_clock w0 + 300000 \<le> pw_clock w" and "0 < limit"
    and "view_ok utf8 (lb_views (pw_board w0) (getMaterializationViewName p))"
    and "cursor_walk utf8 (- {p}) limit p w pages next w'"
  shows "concat pages = take (limit * length pages) (view_rows (pw_board w0) p)
    \<and> (next = None \<longleftrightarrow> length (view_rows (pw_board w0) p) \<le> limit * length pages)
    \<and> (next \<noteq> None \<longrightarrow> (\<exists>entries next'. cursor_walk utf8 (- {p}) limit p w (pages @ [entries]) next' w'))
    \<and> sorted_wrt ranked_after (view_rows (pw_board w0) p)
    \<and> set (view_rows (pw_board w0) p) = set (lb_views (pw_board w0) (getMaterializationViewName p))"
proof -
  let ?v = "lb_views (pw_board w0) (getMaterializationViewName p)" and ?T = "pw_clock w0 + 300000"
  have "settled ?T p ?v w0" by (rule quiet_settled [OF assms(1)]) (use assms(2) in blast)
  then have s: "settled ?T p ?v w" using page_steps_settled [OF assms(3)] by blast
  have sorted: "sorted_wrt ranked_after (js_sort rank_order ?v)" using view_sorted assms(6) by (simp add: view_ok_def)
  have "mset (map ag_user_id (js_sort rank_order ?v)) = mset (map ag_user_id ?v)" by simp
  then have "distinct (map ag_user_id (js_sort rank_order ?v))" using assms(6) mset_eq_imp_distinct_iff view_ok_def by blast
  then have ok: "view_ok utf8 (js_sort rank_order ?v)" using assms(6) by (simp add: view_ok_def)
  note walk = walk_pages [OF s assms(4,5) refl sorted ok assms(7)]
  have "\<exists>entries next'. cursor_walk utf8 (- {p}) limit p w (pages @ [entries]) next' w'" if "next = Some c" for c
  proof -
    let ?io = "\<lparr>io_configured = True, io_read = True, io_write = True, io_invalidate = True\<rparr>"
    obtain entries next' st where "leaderboard_route utf8 ?io None (pw_clock w') (page_query limit p (Some c)) (pw_board w') =
        Some ((entries, next'), st)" unfolding page_route by (metis prod.collapse)
    with assms(7) that show ?thesis by (blast intro: walk_next)
  qed
  then show ?thesis using walk sorted by (auto simp: view_rows_def split: if_splits)
qed

text \<open>Why the quiet moment is asked for: a request that queried before a refresh and writes to redis after the refresh has
  deleted the keys leaves an outdated page, although no call failed.\<close>

lemma late_write_outdated:
  fixes st :: board
  assumes "old = page_rows st p l 0" and "old \<noteq> []"
  shows "\<exists>w. (page_step UNIV)\<^sup>*\<^sup>* \<lparr>pw_board = st, pw_clock = now, pw_open = []\<rparr> w \<and> pw_open w = []
    \<and> lb_views (pw_board w) (getMaterializationViewName p) = new \<and> map_of (pw_pages w) (getCacheKey p l 0) = Some (now + 300000, old)"
proof -
  let ?io = "\<lparr>io_configured = True, io_read = True, io_write = True, io_invalidate = True\<rparr>"
  let ?m = "AfterMiss p l 0" and ?q = "AfterQuery p l 0 old"
  let ?st1 = "st\<lparr>lb_views := (lb_views st)(getMaterializationViewName p := new)\<rparr>"
  let ?ks = "filter (prefix (period_pattern p)) (map fst (lb_pages st))"
  let ?st2 = "?st1\<lparr>lb_pages := filter (\<lambda>e. fst e \<notin> set ?ks) (lb_pages st)\<rparr>"
  let ?st3 = "?st2\<lparr>lb_pages := redis_setex ?io (getCacheKey p l 0) now 300 old (lb_pages ?st2)\<rparr>"
  let ?w = "\<lambda>b os. \<lparr>pw_board = b, pw_clock = now, pw_open = os\<rparr>"
  have "page_step UNIV (?w st []) (?w st [?m])" using step_miss [of UNIV "?w st []" p l 0] by simp
  moreover have "page_step UNIV (?w st [?m]) (?w st [?q])"
    using step_query [of ?m p l 0 "?w st [?m]" old UNIV] assms by (simp add: answered_def)
  moreover have "page_step UNIV (?w st [?q]) (?w ?st1 [AfterView p, ?q])"
    using step_refresh [of p UNIV "?w st [?q]" new] by simp
  moreover have "page_step UNIV (?w ?st1 [AfterView p, ?q]) (?w ?st1 [AfterKeys p ?ks, ?q])"
    using step_keys [of "AfterView p" p "?w ?st1 [AfterView p, ?q]" UNIV] by (simp add: answered_def)
  moreover have "page_step UNIV (?w ?st1 [AfterKeys p ?ks, ?q]) (?w ?st2 [?q])"
    using step_delete [of "AfterKeys p ?ks" p ?ks "?w ?st1 [AfterKeys p ?ks, ?q]" UNIV] by (simp add: answered_def)
  moreover have "page_step UNIV (?w ?st2 [?q]) (?w ?st3 [])"
    using step_write [of ?q p l 0 old "?w ?st2 [?q]" UNIV ?io] assms by (simp add: answered_def)
  ultimately have "(page_step UNIV)\<^sup>*\<^sup>* (?w st []) (?w ?st3 [])" by (meson converse_rtranclp_into_rtranclp rtranclp.rtrancl_refl)
  then show ?thesis by (intro exI [of _ "?w ?st3 []"]) (simp add: map_of_setex)
qed

section \<open>The shared key\<close>

text \<open>The offset page 0 and the first cursor page are stored under one key with different contents: right after
  \<^verbatim>\<open>getLeaderboard(limit, 0)\<close> the first cursor page has no next cursor although the view has more rows, and right after
  the first cursor page \<^verbatim>\<open>getLeaderboard(limit, 0)\<close> returns one row too many. (The route asks for offset 0 only with
  cursors, and so never mixes them.)\<close>

lemma shared_cache_key:
  assumes "limit < length (view_rows st p)" and "0 < limit" and "io_configured io" and "io_write io" and "io_read io"
    and "redis_get io (getCacheKey p limit 0) now (lb_pages st) = None" and "later < now + 300000"
  shows "fst (first_page io later limit p (snd (getLeaderboard io now limit 0 p st))) = (take limit (view_rows st p), None)
    \<and> fst (getLeaderboard io later limit 0 p (snd (first_page io now limit p st))) = take (limit + 1) (view_rows st p)"
proof
  have ne: "take limit (view_rows st p) \<noteq> []" "take (limit + 1) (view_rows st p) \<noteq> []" using assms(1,2) by auto
  show "fst (first_page io later limit p (snd (getLeaderboard io now limit 0 p st))) = (take limit (view_rows st p), None)"
    using assms ne by (simp add: getLeaderboard_def first_page_def Let_def redis_setex_def redis_get_def update_conv' makePage_def)
  show "fst (getLeaderboard io later limit 0 p (snd (first_page io now limit p st))) = take (limit + 1) (view_rows st p)"
    using assms ne by (simp add: getLeaderboard_def first_page_def Let_def redis_setex_def redis_get_def update_conv')
qed

text \<open>A refresh drops the pages of its period, but no entry of a single user: such a key starts with another text than the
  pattern of any period.\<close>

lemma refresh_keeps_users:
  assumes "refreshLeaderboard io computed p st = Some st'"
  shows "map_of (lb_users st') (getUserCacheKey a p') = map_of (lb_users st) (getUserCacheKey a p')"
proof -
  have no: "\<not> prefix (period_pattern p) (getUserCacheKey a p')"
    by (cases p) (simp_all add: period_pattern_def getUserCacheKey_def)
  obtain rows where st': "st' = invalidatePeriodCache io p (st\<lparr>lb_views := (lb_views st)(getMaterializationViewName p := rows)\<rparr>)"
    using assms by (auto simp: refreshLeaderboard_def split: option.splits)
  show ?thesis
    using no map_of_filter_key [of "\<lambda>k. \<not> prefix (period_pattern p) k" "lb_users st"] by (simp add: st' invalidatePeriodCache_def Let_def)
qed

definition demo_row :: "string \<Rightarrow> int \<Rightarrow> aggregate" where
  "demo_row u k = \<lparr>ag_user_id = u, ag_stellar_address = u, ag_total_predictions = 3, ag_correct_predictions = 1,
     ag_accuracy_percentage = 33, ag_rank = k\<rparr>"

definition demo_board :: board where
  "demo_board = \<lparr>lb_views = (\<lambda>_. [demo_row ''b'' 1, demo_row ''a'' 1]), lb_pages = [], lb_users = []\<rparr>"

definition demo_io :: redis_io where
  "demo_io = \<lparr>io_configured = True, io_read = True, io_write = True, io_invalidate = True\<rparr>"

lemma demo_view: "view_rows demo_board p = [demo_row ''a'' 1, demo_row ''b'' 1]"
proof -
  have "(''a'' :: string) < ''b''" by (simp add: less_char_def)
  then show ?thesis by (simp add: view_rows_def demo_board_def js_sort_def rank_order_def demo_row_def)
qed

definition demo_world :: "time \<Rightarrow> page_world" where
  "demo_world now = \<lparr>pw_board = demo_board, pw_clock = now, pw_open = []\<rparr>"

theorem leaderboard_walk_witness:
  "\<exists>pages next w'. cursor_walk (\<lambda>s. s) (- {WEEKLY}) 1 WEEKLY (demo_world 300000) pages next w'
    \<and> concat pages = [demo_row ''a'' 1] \<and> next \<noteq> None"
proof -
  have r: "reach cold_cache (page_step UNIV) (demo_world 0)" by (rule reach_init) (simp add: cold_cache_def demo_world_def demo_board_def)
  have q: "\<forall>l off rows. AfterQuery WEEKLY l off rows \<notin> set (pw_open (demo_world 0))" by (simp add: demo_world_def)
  have "page_step (- {WEEKLY}) (demo_world 0) (demo_world 300000)"
    using step_clock [of "demo_world 0" 300000] by (simp add: demo_world_def)
  then have c: "(page_step (- {WEEKLY}))\<^sup>*\<^sup>* (demo_world 0) (demo_world 300000)" by (rule r_into_rtranclp)
  have one: "int_to_string 1 = ''1''" by code_simp
  have v: "view_ok (\<lambda>s. s) (lb_views (pw_board (demo_world 0)) (getMaterializationViewName WEEKLY))"
    by (simp add: demo_world_def view_ok_def demo_board_def demo_row_def key_ok_def row_cursor_def js_finite_def padStart_def RANK_PAD_WIDTH_def one)
  obtain entries "next" st where "leaderboard_route (\<lambda>s. s) demo_io None (pw_clock (demo_world 300000))
      (page_query 1 WEEKLY None) (pw_board (demo_world 300000)) = Some ((entries, next), st)" unfolding page_route by (metis prod.collapse)
  then have w: "cursor_walk (\<lambda>s. s) (- {WEEKLY}) 1 WEEKLY (demo_world 300000) [entries] next (demo_world 300000)"
    by (intro walk_first) simp_all
  have b: "pw_board (demo_world 0) = demo_board" "pw_clock (demo_world 0) + 300000 \<le> pw_clock (demo_world 300000)" by (simp_all add: demo_world_def)
  from leaderboard_walk [OF r q c b(2) _ v w] have "concat [entries] = [demo_row ''a'' 1]" "next \<noteq> None"
    unfolding b(1) demo_view by simp_all
  with w show ?thesis by blast
qed

lemma shared_cache_key_witness:
  "fst (first_page demo_io 5 1 MONTHLY (snd (getLeaderboard demo_io 0 1 0 MONTHLY demo_board))) = ([demo_row ''a'' 1], None)
   \<and> length (fst (getLeaderboard demo_io 5 1 0 MONTHLY (snd (first_page demo_io 0 1 MONTHLY demo_board)))) = 2"
proof -
  have "redis_get demo_io (getCacheKey MONTHLY 1 0) 0 (lb_pages demo_board) = None" by (simp add: redis_get_def demo_board_def)
  from shared_cache_key [OF _ _ _ _ _ this, of 5] show ?thesis by (simp add: demo_view demo_io_def)
qed

end
