(* ===== verification/Global_Leaderboard.thy ===== *)
theory Global_Leaderboard
  imports Leaderboard Schema
begin

text \<open>
  The leaderboard over all markets (\<^verbatim>\<open>src/services/globalLeaderboardService.ts\<close>) and the aggregates per address
  (\<^verbatim>\<open>src/services/addressAggregatesService.ts\<close>), both over the view \<^verbatim>\<open>address_aggregates_mv\<close>. \<open>global_refresh_clears\<close>:
  a refresh drops every page and every entry of the global leaderboard, so that what is read next is the new view.
\<close>

section \<open>Aggregates per address\<close>

definition aggregates_view :: string where "aggregates_view = ''address_aggregates_mv''"

definition refreshAddressAggregates :: "aggregate list option \<Rightarrow> board \<Rightarrow> board option" where
  "refreshAddressAggregates computed st = (case computed of
     None \<Rightarrow> None | Some rows \<Rightarrow> Some (st\<lparr>lb_views := (lb_views st)(aggregates_view := rows)\<rparr>))"

definition getAddressAggregates :: "nat \<Rightarrow> nat \<Rightarrow> board \<Rightarrow> aggregate list" where
  "getAddressAggregates limit offset st = take limit (drop offset (js_sort rank_order (lb_views st aggregates_view)))"

definition getAddressAggregate :: "string \<Rightarrow> board \<Rightarrow> aggregate option" where
  "getAddressAggregate stellarAddress st = select_first (\<lambda>r. ag_stellar_address r = stellarAddress) (lb_views st aggregates_view)"

definition getAddressAggregatesWithRefresh :: "aggregate list option \<Rightarrow> nat \<Rightarrow> nat \<Rightarrow> board \<Rightarrow> (aggregate list \<times> board) option" where
  "getAddressAggregatesWithRefresh computed limit offset st =
     map_option (\<lambda>st'. (getAddressAggregates limit offset st', st')) (refreshAddressAggregates computed st)"

section \<open>The global leaderboard\<close>

record global_entry = aggregate +
  ge_total_markets :: nat

record global_board =
  gb_view :: "aggregate list"
  gb_predictions :: "prediction_row table"
  gb_pages :: "global_entry list redis_store"
  gb_users :: "global_entry option redis_store"

definition CACHE_TTL_SECONDS :: int where "CACHE_TTL_SECONDS = 300"
definition CACHE_KEY_PREFIX :: string where "CACHE_KEY_PREFIX = ''leaderboard:global''"

definition getPageCacheKey :: "nat \<Rightarrow> nat \<Rightarrow> string" where
  "getPageCacheKey limit offset = CACHE_KEY_PREFIX @ CHR '':'' # nat_to_string limit @ CHR '':'' # nat_to_string offset"

definition getUserCacheKey :: "string \<Rightarrow> string" where
  "getUserCacheKey stellarAddress = CACHE_KEY_PREFIX @ '':user:'' @ stellarAddress"

definition invalidateGlobalCache :: "redis_io \<Rightarrow> global_board \<Rightarrow> global_board" where
  "invalidateGlobalCache io st =
    (let pattern = CACHE_KEY_PREFIX @ '':'' in
     if io_configured io \<and> io_invalidate io
     then st\<lparr>gb_pages := filter (\<lambda>e. \<not> prefix pattern (fst e)) (gb_pages st),
             gb_users := filter (\<lambda>e. \<not> prefix pattern (fst e)) (gb_users st)\<rparr>
     else st)"

text \<open>The left join with the number of distinct markets of the user.\<close>

definition with_markets :: "prediction_row table \<Rightarrow> aggregate \<Rightarrow> global_entry" where
  "with_markets predictions aa = aggregate.extend aa \<lparr>ge_total_markets =
     length (remdups (map p_marketId (filter (\<lambda>p. p_userId p = ag_user_id aa) predictions)))\<rparr>"

text \<open>\<^verbatim>\<open>ORDER BY aa.rank ASC\<close>\<close>

definition global_rows :: "global_board \<Rightarrow> global_entry list" where
  "global_rows st = map (with_markets (gb_predictions st)) (js_sort (\<lambda>a b. ag_rank a - ag_rank b) (gb_view st))"

definition refreshGlobalLeaderboard :: "redis_io \<Rightarrow> aggregate list option \<Rightarrow> global_board \<Rightarrow> global_board option" where
  "refreshGlobalLeaderboard io computed st = (case computed of
     None \<Rightarrow> None | Some rows \<Rightarrow> Some (invalidateGlobalCache io (st\<lparr>gb_view := rows\<rparr>)))"

definition getGlobalLeaderboard :: "redis_io \<Rightarrow> time \<Rightarrow> nat \<Rightarrow> nat \<Rightarrow> global_board \<Rightarrow> global_entry list \<times> global_board" where
  "getGlobalLeaderboard io now limit offset st =
    (let cacheKey = getPageCacheKey limit offset in
     case redis_get io cacheKey now (gb_pages st) of
       Some rows \<Rightarrow> (rows, st)
     | None \<Rightarrow>
         (let rows = take limit (drop offset (global_rows st))
          in (rows, if rows = [] then st
                    else st\<lparr>gb_pages := redis_setex io cacheKey now CACHE_TTL_SECONDS rows (gb_pages st)\<rparr>)))"

definition getGlobalLeaderboardEntry :: "redis_io \<Rightarrow> time \<Rightarrow> string \<Rightarrow> global_board \<Rightarrow> global_entry option \<times> global_board" where
  "getGlobalLeaderboardEntry io now stellarAddress st =
    (let cacheKey = getUserCacheKey stellarAddress in
     case redis_get io cacheKey now (gb_users st) of
       Some entry \<Rightarrow> (entry, st)
     | None \<Rightarrow>
         (let entry = map_option (with_markets (gb_predictions st))
                (select_first (\<lambda>r. ag_stellar_address r = stellarAddress) (gb_view st))
          in (entry, st\<lparr>gb_users := redis_setex io cacheKey now CACHE_TTL_SECONDS entry (gb_users st)\<rparr>)))"

definition getGlobalLeaderboardWithRefresh ::
  "redis_io \<Rightarrow> aggregate list option \<Rightarrow> time \<Rightarrow> nat \<Rightarrow> nat \<Rightarrow> global_board \<Rightarrow> (global_entry list \<times> global_board) option" where
  "getGlobalLeaderboardWithRefresh io computed now limit offset st =
     map_option (getGlobalLeaderboard io now limit offset) (refreshGlobalLeaderboard io computed st)"

lemma global_keys [simp]:
  "prefix (CACHE_KEY_PREFIX @ '':'') (getPageCacheKey l off)" "prefix (CACHE_KEY_PREFIX @ '':'') (getUserCacheKey a)"
  by (simp_all add: getPageCacheKey_def getUserCacheKey_def)

lemma redis_get_absent: "map_of store key = None \<Longrightarrow> redis_get io key now store = None"
  by (simp add: redis_get_def)

text \<open>After a refresh whose invalidation succeeds, both a page and the entry of a user come from the new view, whatever the
  cache held before.\<close>

lemma global_refresh_clears:
  assumes "refreshGlobalLeaderboard io computed st = Some st'" and "io_configured io" and "io_invalidate io"
  shows "fst (getGlobalLeaderboard io now l off st') = take l (drop off (global_rows st'))
    \<and> fst (getGlobalLeaderboardEntry io now a st') = map_option (with_markets (gb_predictions st))
        (select_first (\<lambda>r. ag_stellar_address r = a) (the computed))"
proof -
  obtain rows where c: "computed = Some rows" and st': "st' = invalidateGlobalCache io (st\<lparr>gb_view := rows\<rparr>)"
    using assms(1) by (auto simp: refreshGlobalLeaderboard_def split: option.splits)
  let ?P = "\<lambda>k. \<not> prefix (CACHE_KEY_PREFIX @ '':'') k"
  have "map_of (gb_pages st') (getPageCacheKey l off) = None" "map_of (gb_users st') (getUserCacheKey a) = None"
    using assms(2,3) map_of_filter_key [of ?P "gb_pages st"] map_of_filter_key [of ?P "gb_users st"]
    by (simp_all add: st' invalidateGlobalCache_def Let_def)
  moreover have "gb_view st' = rows" "gb_predictions st' = gb_predictions st"
    using assms(2,3) by (simp_all add: st' invalidateGlobalCache_def Let_def)
  ultimately show ?thesis
    by (simp add: getGlobalLeaderboard_def getGlobalLeaderboardEntry_def Let_def redis_get_absent c)
qed

end
