(* ===== verification/Referrals.thy ===== *)
theory Referrals
  imports Indexer_Recovery
begin

text \<open>
  Referral codes and reward allocations (\<^verbatim>\<open>src/services/referralService.ts\<close>, tables \<^verbatim>\<open>referrals\<close> and
  \<^verbatim>\<open>referral_reward_allocations\<close>). The insert of an allocation is one statement; the look-up after a conflict is a second
  one, with anything in between. No code of the service removes a row, so the cascading deletes of the tables are not
  modelled. \<open>uuid\<close> stands for the input function of Postgres' type \<^verbatim>\<open>uuid\<close>, the type of \<^verbatim>\<open>referral_id\<close>: it answers the text
  the column gives back (lower-case digits in the standard groups) or refuses the text.
  \<open>reward_allocated_once\<close>: all successful calls for a referral, or with a key, get one and the same row.
\<close>

section \<open>Tables\<close>

record referral_row =
  rf_id :: string
  rf_userId :: string
  rf_referralCode :: string
  rf_campaignId :: "string option"
  rf_referredUser :: "string option"
  rf_status :: string
  rf_createdAt :: time

record allocation_row =
  al_id :: string
  al_referralId :: string
  al_idempotencyKey :: string
  al_amount :: string
  al_asset :: string
  al_createdAt :: time

record referral_db =
  rd_referrals :: "referral_row table"
  rd_allocations :: "allocation_row table"

record allocate_input =
  ai_referralId :: string
  ai_idempotencyKey :: string
  ai_amount :: string
  ai_asset :: string

datatype referral_error =
    ReferralRewardValidationError string
  | ReferralRewardConflictError string
  | DatabaseError
  | AllocationUnresolved

section \<open>Codes\<close>

definition code_chars :: string where "code_chars = ''ABCDEFGHIJKLMNOPQRSTUVWXYZ0123456789''"

text \<open>\<open>draws\<close>: the eight indices \<^verbatim>\<open>Math.floor(Math.random() * chars.length)\<close>, each below 36.\<close>

definition generateReferralCode :: "nat list \<Rightarrow> string" where
  "generateReferralCode draws =
    (let cs = map ((!) code_chars) draws in ''REF-'' @ take 4 cs @ ''-'' @ take 4 (drop 4 cs))"

definition createReferral ::
  "nat list \<Rightarrow> string \<Rightarrow> time \<Rightarrow> string \<Rightarrow> string option \<Rightarrow> referral_db \<Rightarrow> referral_db \<times> (referral_error + string)" where
  "createReferral draws newId now userId campaignId db =
    (let code = generateReferralCode draws in
     if (\<exists>r \<in> set (rd_referrals db). rf_referralCode r = code) then (db, Inl DatabaseError)
     else (db\<lparr>rd_referrals := rd_referrals db @ [\<lparr>rf_id = newId, rf_userId = userId, rf_referralCode = code,
             rf_campaignId = campaignId, rf_referredUser = None, rf_status = ''pending'', rf_createdAt = now\<rparr>]\<rparr>, Inr code))"

definition listUserReferrals :: "string \<Rightarrow> referral_db \<Rightarrow> referral_row list" where
  "listUserReferrals userId db =
     js_sort (\<lambda>a b. rf_createdAt b - rf_createdAt a) (filter (\<lambda>r. rf_userId r = userId) (rd_referrals db))"

section \<open>Validation\<close>

text \<open>The two regular expressions for amounts, as the digits before and after the point.\<close>

definition amount_parts :: "string \<Rightarrow> (string \<times> string) option" where
  "amount_parts s = (let whole = takeWhile is_digit s; rest = dropWhile is_digit s in
     if whole = [] \<or> hd whole = CHR ''0'' \<and> tl whole \<noteq> [] then None
     else (case rest of
       [] \<Rightarrow> Some (whole, [])
     | c # frac \<Rightarrow> if c = CHR ''.'' \<and> 1 \<le> length frac \<and> length frac \<le> 18 \<and> list_all is_digit frac then Some (whole, frac) else None))"

definition zero_amount :: "string \<Rightarrow> bool" where
  "zero_amount s \<longleftrightarrow> (case amount_parts s of None \<Rightarrow> False | Some (whole, frac) \<Rightarrow> whole = ''0'' \<and> list_all (\<lambda>c. c = CHR ''0'') frac)"

definition asset_char :: "char \<Rightarrow> bool" where
  "asset_char c \<longleftrightarrow> is_digit c \<or> (let n = of_char c :: nat in 65 \<le> n \<and> n \<le> 90)"

definition validateRewardInput :: "allocate_input \<Rightarrow> referral_error option" where
  "validateRewardInput input =
    (if js_trim (ai_referralId input) = [] then Some (ReferralRewardValidationError ''referralId is required'')
     else if js_trim (ai_idempotencyKey input) = [] \<or> length (ai_idempotencyKey input) > 128
     then Some (ReferralRewardValidationError ''idempotencyKey must be 1-128 characters'')
     else if amount_parts (ai_amount input) = None \<or> zero_amount (ai_amount input)
     then Some (ReferralRewardValidationError ''amount must be a positive decimal with up to 18 places'')
     else if \<not> (1 \<le> length (ai_asset input) \<and> length (ai_asset input) \<le> 12 \<and> list_all asset_char (ai_asset input))
     then Some (ReferralRewardValidationError ''asset must be 1-12 uppercase alphanumeric characters'')
     else None)"

definition matchesAllocation :: "allocation_row \<Rightarrow> allocate_input \<Rightarrow> bool" where
  "matchesAllocation allocation input \<longleftrightarrow> al_referralId allocation = ai_referralId input
     \<and> al_amount allocation = ai_amount input \<and> al_asset allocation = ai_asset input"

section \<open>Allocation\<close>

text \<open>\<^verbatim>\<open>INSERT ... ON CONFLICT DO NOTHING RETURNING\<close>: the row, or none on a conflict; an unknown referral breaks the
  foreign key.\<close>

definition insert_allocation ::
  "(string \<Rightarrow> string option) \<Rightarrow> string \<Rightarrow> time \<Rightarrow> allocate_input \<Rightarrow> referral_db \<Rightarrow> referral_db \<times> (referral_error + allocation_row option)" where
  "insert_allocation uuid newId now input db = (case uuid (ai_referralId input) of
     None \<Rightarrow> (db, Inl DatabaseError)
   | Some referralId \<Rightarrow>
     if (\<exists>r \<in> set (rd_allocations db). al_referralId r = referralId \<or> al_idempotencyKey r = ai_idempotencyKey input)
     then (db, Inr None)
     else if \<not> (\<exists>r \<in> set (rd_referrals db). rf_id r = referralId) then (db, Inl DatabaseError)
     else (let row = \<lparr>al_id = newId, al_referralId = referralId, al_idempotencyKey = ai_idempotencyKey input,
                      al_amount = ai_amount input, al_asset = ai_asset input, al_createdAt = now\<rparr>
           in (db\<lparr>rd_allocations := rd_allocations db @ [row]\<rparr>, Inr (Some row))))"

text \<open>The two look-ups by key and by referral, with the state each of them meets. The stored identifier is then compared with
  the text of the request.\<close>

definition resolve_conflict ::
  "(string \<Rightarrow> string option) \<Rightarrow> allocate_input \<Rightarrow> referral_db \<Rightarrow> referral_db \<Rightarrow> referral_error + allocation_row" where
  "resolve_conflict uuid input db1 db2 =
    (let byKey = select_first (\<lambda>r. al_idempotencyKey r = ai_idempotencyKey input) (rd_allocations db1);
         byReferral = (case byKey of Some r \<Rightarrow> Some r
           | None \<Rightarrow> select_first (\<lambda>r. uuid (ai_referralId input) = Some (al_referralId r)) (rd_allocations db2))
     in case byReferral of
          None \<Rightarrow> Inl AllocationUnresolved
        | Some r \<Rightarrow> if matchesAllocation r input then Inr r
                    else Inl (ReferralRewardConflictError ''referral reward allocation does not match the existing allocation''))"

text \<open>A whole call without anything in between.\<close>

definition allocateReferralReward ::
  "(string \<Rightarrow> string option) \<Rightarrow> string \<Rightarrow> time \<Rightarrow> allocate_input \<Rightarrow> referral_db \<Rightarrow> referral_db \<times> (referral_error + allocation_row)" where
  "allocateReferralReward uuid newId now input db = (case validateRewardInput input of
     Some e \<Rightarrow> (db, Inl e)
   | None \<Rightarrow> (case insert_allocation uuid newId now input db of
       (db', Inl e) \<Rightarrow> (db', Inl e)
     | (db', Inr (Some row)) \<Rightarrow> (db', Inr row)
     | (db', Inr None) \<Rightarrow> (db', resolve_conflict uuid input db' db')))"

section \<open>Interleaved calls\<close>

text \<open>The state with the answers given so far. A call inserts, and if it meets a conflict it is waiting; a waiting call
  remembers the state of its first look-up, then makes the second one.\<close>

datatype waiting = AfterInsert allocate_input | AfterKey allocate_input referral_db

record reward_world =
  rw_db :: referral_db
  rw_waiting :: "waiting list"
  rw_answers :: "(allocate_input \<times> allocation_row) list"

inductive reward_step :: "(string \<Rightarrow> string option) \<Rightarrow> reward_world \<Rightarrow> reward_world \<Rightarrow> bool" for uuid where
  step_create: "createReferral draws newId now userId campaignId (rw_db w) = (db', answer) \<Longrightarrow> reward_step uuid w (w\<lparr>rw_db := db'\<rparr>)"
| step_won: "validateRewardInput input = None \<Longrightarrow> insert_allocation uuid newId now input (rw_db w) = (db', Inr (Some row)) \<Longrightarrow>
    reward_step uuid w (w\<lparr>rw_db := db', rw_answers := rw_answers w @ [(input, row)]\<rparr>)"
| step_conflict: "validateRewardInput input = None \<Longrightarrow> insert_allocation uuid newId now input (rw_db w) = (db', Inr None) \<Longrightarrow>
    reward_step uuid w (w\<lparr>rw_db := db', rw_waiting := AfterInsert input # rw_waiting w\<rparr>)"
| step_by_key: "AfterInsert input \<in> set (rw_waiting w) \<Longrightarrow>
    reward_step uuid w (w\<lparr>rw_waiting := AfterKey input (rw_db w) # remove1 (AfterInsert input) (rw_waiting w)\<rparr>)"
| step_answer: "AfterKey input db1 \<in> set (rw_waiting w) \<Longrightarrow> resolve_conflict uuid input db1 (rw_db w) = Inr row \<Longrightarrow>
    reward_step uuid w (w\<lparr>rw_waiting := remove1 (AfterKey input db1) (rw_waiting w), rw_answers := rw_answers w @ [(input, row)]\<rparr>)"
| step_refuse: "AfterKey input db1 \<in> set (rw_waiting w) \<Longrightarrow> resolve_conflict uuid input db1 (rw_db w) = Inl e \<Longrightarrow>
    reward_step uuid w (w\<lparr>rw_waiting := remove1 (AfterKey input db1) (rw_waiting w)\<rparr>)"

definition rewards_init :: "reward_world \<Rightarrow> bool" where
  "rewards_init w \<longleftrightarrow> rd_allocations (rw_db w) = [] \<and> rw_waiting w = [] \<and> rw_answers w = []"

section \<open>The invariant\<close>

text \<open>What is asked of \<open>uuid\<close>: the text a column gives back is accepted and denotes itself.\<close>

definition uuid_column :: "(string \<Rightarrow> string option) \<Rightarrow> bool" where
  "uuid_column uuid \<longleftrightarrow> (\<forall>s t. uuid s = Some t \<longrightarrow> uuid t = Some t)"

definition allocs :: "reward_world \<Rightarrow> allocation_row table" where
  "allocs w = rd_allocations (rw_db w)"

definition conflicts :: "(string \<Rightarrow> string option) \<Rightarrow> allocation_row table \<Rightarrow> allocate_input \<Rightarrow> bool" where
  "conflicts uuid rows i \<longleftrightarrow>
     (\<exists>r \<in> set rows. uuid (ai_referralId i) = Some (al_referralId r) \<or> al_idempotencyKey r = ai_idempotencyKey i)"

definition unique_rows :: "allocation_row table \<Rightarrow> bool" where
  "unique_rows rows \<longleftrightarrow> distinct (map al_referralId rows) \<and> distinct (map al_idempotencyKey rows)"

definition stored_ids :: "(string \<Rightarrow> string option) \<Rightarrow> allocation_row table \<Rightarrow> bool" where
  "stored_ids uuid rows \<longleftrightarrow> (\<forall>r \<in> set rows. uuid (al_referralId r) = Some (al_referralId r))"

fun waiting_ok :: "(string \<Rightarrow> string option) \<Rightarrow> allocation_row table \<Rightarrow> waiting \<Rightarrow> bool" where
  "waiting_ok uuid rows (AfterInsert i) \<longleftrightarrow> conflicts uuid rows i"
| "waiting_ok uuid rows (AfterKey i db1) \<longleftrightarrow> conflicts uuid (rd_allocations db1) i \<and> set (rd_allocations db1) \<subseteq> set rows"

text \<open>The row has the referral, amount and asset of the call.\<close>

definition row_of :: "(string \<Rightarrow> string option) \<Rightarrow> allocate_input \<Rightarrow> allocation_row \<Rightarrow> bool" where
  "row_of uuid i row \<longleftrightarrow> uuid (ai_referralId i) = Some (al_referralId row) \<and> al_amount row = ai_amount i \<and> al_asset row = ai_asset i"

definition answer_ok :: "(string \<Rightarrow> string option) \<Rightarrow> allocation_row table \<Rightarrow> allocate_input \<times> allocation_row \<Rightarrow> bool" where
  "answer_ok uuid rows a \<longleftrightarrow> snd a \<in> set rows \<and> row_of uuid (fst a) (snd a)"

definition reward_ok :: "(string \<Rightarrow> string option) \<Rightarrow> reward_world \<Rightarrow> bool" where
  "reward_ok uuid w \<longleftrightarrow> unique_rows (allocs w) \<and> stored_ids uuid (allocs w)
     \<and> list_all (waiting_ok uuid (allocs w)) (rw_waiting w) \<and> list_all (answer_ok uuid (allocs w)) (rw_answers w)"

lemma ok_mono:
  assumes "set rows \<subseteq> set rows'"
  shows "waiting_ok uuid rows x \<Longrightarrow> waiting_ok uuid rows' x" and "answer_ok uuid rows a \<Longrightarrow> answer_ok uuid rows' a"
proof -
  show "waiting_ok uuid rows x \<Longrightarrow> waiting_ok uuid rows' x"
    using assms by (cases x) (auto simp: conflicts_def)
  show "answer_ok uuid rows a \<Longrightarrow> answer_ok uuid rows' a" using assms by (auto simp: answer_ok_def)
qed

lemma insert_cases:
  assumes "insert_allocation uuid newId now i db = (db', Inr a)"
  shows "case a of None \<Rightarrow> db' = db \<and> conflicts uuid (rd_allocations db) i
    | Some row \<Rightarrow> rd_allocations db' = rd_allocations db @ [row] \<and> \<not> conflicts uuid (rd_allocations db) i
        \<and> row_of uuid i row \<and> al_idempotencyKey row = ai_idempotencyKey i"
proof -
  obtain referralId where u: "uuid (ai_referralId i) = Some referralId"
    using assms by (cases "uuid (ai_referralId i)") (simp_all add: insert_allocation_def)
  show ?thesis
  proof (cases "conflicts uuid (rd_allocations db) i")
    case True
    then have "insert_allocation uuid newId now i db = (db, Inr None)" by (auto simp: insert_allocation_def conflicts_def u)
    then show ?thesis using assms True by simp
  next
    case False
    then have "\<exists>r \<in> set (rd_referrals db). rf_id r = referralId"
      using assms by (auto simp: insert_allocation_def conflicts_def u split: if_splits)
    then show ?thesis
      using assms False by (auto simp: insert_allocation_def conflicts_def row_of_def u Let_def split: if_splits)
  qed
qed

lemma unique_insert:
  assumes "unique_rows rows" and "\<not> conflicts uuid rows i" and "row_of uuid i row" and "al_idempotencyKey row = ai_idempotencyKey i"
  shows "unique_rows (rows @ [row])"
  using assms by (auto simp: unique_rows_def conflicts_def row_of_def)

lemma resolve_answer:
  assumes "resolve_conflict uuid i db1 db2 = Inr row" and "set (rd_allocations db1) \<subseteq> set (rd_allocations db2)"
    and "stored_ids uuid (rd_allocations db2)"
  shows "row \<in> set (rd_allocations db2) \<and> row_of uuid i row"
proof -
  have "row \<in> set (rd_allocations db2) \<and> matchesAllocation row i"
    using assms(1,2) by (auto simp: resolve_conflict_def Let_def split: option.splits if_splits dest!: select_first_SomeD)
  with assms(3) show ?thesis by (auto simp: stored_ids_def row_of_def matchesAllocation_def)
qed

lemma resolve_resolves:
  assumes "conflicts uuid (rd_allocations db1) i" and "set (rd_allocations db1) \<subseteq> set (rd_allocations db2)"
  shows "resolve_conflict uuid i db1 db2 \<noteq> Inl AllocationUnresolved"
proof
  assume u: "resolve_conflict uuid i db1 db2 = Inl AllocationUnresolved"
  then have "select_first (\<lambda>r. al_idempotencyKey r = ai_idempotencyKey i) (rd_allocations db1) = None"
    "select_first (\<lambda>r. uuid (ai_referralId i) = Some (al_referralId r)) (rd_allocations db2) = None"
    by (auto simp: resolve_conflict_def Let_def split: option.splits if_splits)
  then show False using assms by (auto simp: select_first_None conflicts_def)
qed

lemma list_all_remove1: "list_all P xs \<Longrightarrow> list_all P (remove1 x xs)"
  by (induction xs) auto

lemma create_allocations: "createReferral draws newId now u c db = (db', answer) \<Longrightarrow> rd_allocations db' = rd_allocations db"
  by (auto simp: createReferral_def Let_def split: if_splits)

lemma reward_step_ok: "reward_step uuid w w' \<Longrightarrow> uuid_column uuid \<Longrightarrow> reward_ok uuid w \<Longrightarrow> reward_ok uuid w'"
proof (induction rule: reward_step.induct)
  case (step_create draws newId now userId campaignId w db' answer)
  then show ?case using create_allocations [OF step_create(1)] by (simp add: reward_ok_def allocs_def)
next
  case (step_won input newId now w db' row)
  have i: "rd_allocations db' = allocs w @ [row]" "\<not> conflicts uuid (allocs w) input" "row_of uuid input row"
      "al_idempotencyKey row = ai_idempotencyKey input"
    using insert_cases [OF step_won(2)] by (simp_all add: allocs_def)
  have sub: "set (allocs w) \<subseteq> set (allocs w @ [row])" by auto
  have "list_all (waiting_ok uuid (allocs w @ [row])) (rw_waiting w)" "list_all (answer_ok uuid (allocs w @ [row])) (rw_answers w)"
    using step_won(4) ok_mono [OF sub] by (simp_all add: reward_ok_def list_all_iff)
  moreover have "stored_ids uuid (allocs w @ [row])"
    using step_won(3,4) i(3) by (auto simp: reward_ok_def stored_ids_def uuid_column_def row_of_def)
  ultimately show ?case
    using step_won(4) i unique_insert [OF _ i(2-4)] by (simp add: reward_ok_def allocs_def answer_ok_def)
next
  case (step_conflict input newId now w db')
  then show ?case using insert_cases [OF step_conflict(2)] by (simp add: reward_ok_def allocs_def)
next
  case (step_by_key input w)
  then have "waiting_ok uuid (allocs w) (AfterInsert input)" by (auto simp: reward_ok_def list_all_iff)
  then show ?case using step_by_key by (simp add: reward_ok_def allocs_def list_all_remove1)
next
  case (step_answer input db1 w row)
  then have "waiting_ok uuid (allocs w) (AfterKey input db1)" "stored_ids uuid (allocs w)" unfolding reward_ok_def list_all_iff by blast+
  then have "answer_ok uuid (allocs w) (input, row)" using resolve_answer [OF step_answer(2)] by (simp add: answer_ok_def allocs_def)
  then show ?case using step_answer by (simp add: reward_ok_def allocs_def list_all_remove1)
next
  case (step_refuse input db1 w e)
  then show ?case by (simp add: reward_ok_def allocs_def list_all_remove1)
qed

interpretation rewards: inductive_invariant rewards_init "reward_step uuid" "\<lambda>w. uuid_column uuid \<longrightarrow> reward_ok uuid w" for uuid
proof
  show "rewards_init w \<Longrightarrow> uuid_column uuid \<longrightarrow> reward_ok uuid w" for w
    by (simp add: rewards_init_def reward_ok_def allocs_def unique_rows_def stored_ids_def)
qed (blast intro: reward_step_ok)

lemma unique_row:
  "unique_rows rows \<Longrightarrow> r \<in> set rows \<Longrightarrow> r' \<in> set rows \<Longrightarrow>
     al_referralId r = al_referralId r' \<or> al_idempotencyKey r = al_idempotencyKey r' \<Longrightarrow> r = r'"
  by (auto simp: unique_rows_def distinct_map dest: inj_onD)

text \<open>A repeated call with the key of a stored row gets the row if it writes the referral as the column does, and a conflict
  otherwise.\<close>

lemma repeated_call:
  assumes "unique_rows (rd_allocations db)" and "row \<in> set (rd_allocations db)" and "row_of uuid i row"
    and "al_idempotencyKey row = ai_idempotencyKey i" and "validateRewardInput i = None"
  shows "allocateReferralReward uuid newId now i db = (db,
    if ai_referralId i = al_referralId row then Inr row
    else Inl (ReferralRewardConflictError ''referral reward allocation does not match the existing allocation''))"
proof -
  have ins: "insert_allocation uuid newId now i db = (db, Inr None)"
    using assms(2-4) by (auto simp: insert_allocation_def row_of_def)
  obtain r where r: "select_first (\<lambda>r. al_idempotencyKey r = ai_idempotencyKey i) (rd_allocations db) = Some r"
    using assms(2,4) by (cases "select_first (\<lambda>r. al_idempotencyKey r = ai_idempotencyKey i) (rd_allocations db)")
      (auto simp: select_first_None)
  have "r = row" using select_first_SomeD [OF r] assms(2,4) by (intro unique_row [OF assms(1)]) simp_all
  then show ?thesis
    using r assms(3) by (auto simp: allocateReferralReward_def assms(5) ins resolve_conflict_def matchesAllocation_def row_of_def)
qed

text \<open>C22. Reward allocations are made exactly once. However calls interleave, at the level of single statements, a referral
  and a key have at most one row; every successful call got a row of the table with its own referral, amount and asset;
  all successful calls for one referral, however they spell its identifier, got the same row; and a call that met a
  conflict never fails to find the row. Repeating a successful call with the key of its row changes nothing: it answers
  that row again if the call spells the referral's identifier as the \<^verbatim>\<open>uuid\<close> column gives it back, and fails with a
  conflict if it spells it in another way (the column accepts upper case, but the stored text is compared with the
  request's).\<close>

theorem reward_allocated_once:
  assumes "uuid_column uuid" and "reach rewards_init (reward_step uuid) w"
  shows "distinct (map al_referralId (allocs w)) \<and> distinct (map al_idempotencyKey (allocs w))
    \<and> (\<forall>(i, row) \<in> set (rw_answers w). row \<in> set (allocs w) \<and> row_of uuid i row
        \<and> (\<forall>(j, row') \<in> set (rw_answers w). uuid (ai_referralId j) = uuid (ai_referralId i) \<longrightarrow> row' = row)
        \<and> (validateRewardInput i = None \<and> al_idempotencyKey row = ai_idempotencyKey i \<longrightarrow>
            allocateReferralReward uuid newId now i (rw_db w) = (rw_db w,
              if ai_referralId i = al_referralId row then Inr row
              else Inl (ReferralRewardConflictError ''referral reward allocation does not match the existing allocation''))))
    \<and> (\<forall>i db1. AfterKey i db1 \<in> set (rw_waiting w) \<longrightarrow> resolve_conflict uuid i db1 (rw_db w) \<noteq> Inl AllocationUnresolved)"
proof -
  have ok: "unique_rows (allocs w)" "\<And>x. x \<in> set (rw_waiting w) \<Longrightarrow> waiting_ok uuid (allocs w) x"
      "\<And>a. a \<in> set (rw_answers w) \<Longrightarrow> answer_ok uuid (allocs w) a"
    using rewards.reach_inv [OF assms(2)] assms(1) by (simp_all add: reward_ok_def list_all_iff)
  have "row' = row" if "(i, row) \<in> set (rw_answers w)" "(j, row') \<in> set (rw_answers w)" "uuid (ai_referralId j) = uuid (ai_referralId i)"
    for i row j row'
    using ok(3) [OF that(1)] ok(3) [OF that(2)] that(3)
    by (intro unique_row [OF ok(1)]) (auto simp: answer_ok_def row_of_def)
  moreover have "allocateReferralReward uuid newId now i (rw_db w) = (rw_db w,
      if ai_referralId i = al_referralId row then Inr row
      else Inl (ReferralRewardConflictError ''referral reward allocation does not match the existing allocation''))"
    if "(i, row) \<in> set (rw_answers w)" "validateRewardInput i = None" "al_idempotencyKey row = ai_idempotencyKey i" for i row
    using ok(1) ok(3) [OF that(1)] that(2,3) by (intro repeated_call) (simp_all add: answer_ok_def allocs_def)
  moreover have "resolve_conflict uuid i db1 (rw_db w) \<noteq> Inl AllocationUnresolved" if "AfterKey i db1 \<in> set (rw_waiting w)" for i db1
    using ok(2) [OF that] by (intro resolve_resolves) (simp_all add: allocs_def)
  ultimately show ?thesis using ok(1,3) by (force simp: unique_rows_def answer_ok_def)
qed

text \<open>A validated amount is positive.\<close>

lemma digit_of: "is_digit c \<Longrightarrow> \<exists>d. digit_value c = Some d \<and> d < 10 \<and> (d = 0 \<longleftrightarrow> c = CHR ''0'')"
proof -
  assume c: "is_digit c"
  then have "digit_value c = Some (of_char c - 48)" "(of_char c :: nat) \<le> 57" "48 \<le> (of_char c :: nat)"
    by (simp_all add: is_digit_def digit_value_def Let_def)
  moreover have "(of_char c :: nat) = 48 \<longleftrightarrow> c = CHR ''0''" using of_char_eq_iff [of c "CHR ''0''", where ?'a = nat] by simp
  ultimately show ?thesis by auto
qed

lemma digits_positive:
  "list_all is_digit s \<Longrightarrow> \<exists>n. digits_value 10 acc s = Some n \<and> (n = 0 \<longleftrightarrow> acc = 0 \<and> list_all (\<lambda>c. c = CHR ''0'') s)"
proof (induction s arbitrary: acc)
  case (Cons c cs)
  obtain d where d: "digit_value c = Some d" "d < 10" "d = 0 \<longleftrightarrow> c = CHR ''0''" using digit_of [of c] Cons.prems by auto
  obtain n where "digits_value 10 (acc * 10 + d) cs = Some n" "n = 0 \<longleftrightarrow> acc * 10 + d = 0 \<and> list_all (\<lambda>c. c = CHR ''0'') cs"
    using Cons.IH [of "acc * 10 + d"] Cons.prems by auto
  then show ?case using d by auto
qed simp

lemma validated_amount_positive:
  assumes "validateRewardInput input = None"
  shows "\<exists>whole frac n. amount_parts (ai_amount input) = Some (whole, frac) \<and> digits_value 10 0 (whole @ frac) = Some n \<and> 0 < n"
proof -
  obtain whole frac where p: "amount_parts (ai_amount input) = Some (whole, frac)" and z: "\<not> zero_amount (ai_amount input)"
    using assms by (auto simp: validateRewardInput_def split: if_splits)
  have w: "list_all is_digit whole" "whole \<noteq> []" "hd whole = CHR ''0'' \<Longrightarrow> tl whole = []" "list_all is_digit frac"
    using p set_takeWhileD by (fastforce simp: amount_parts_def Let_def list_all_iff split: if_splits list.splits)+
  have "\<not> list_all (\<lambda>c. c = CHR ''0'') (whole @ frac)"
  proof
    assume a: "list_all (\<lambda>c. c = CHR ''0'') (whole @ frac)"
    then have "whole = ''0''" using w(2,3) by (cases whole) auto
    then show False using a z by (simp add: zero_amount_def p)
  qed
  then show ?thesis using p digits_positive [of "whole @ frac" 0] w by auto
qed

text \<open>Two spellings of one identifier.\<close>

definition demo_uuid :: "string \<Rightarrow> string option" where
  "demo_uuid s = (if s \<in> {''a0'', ''A0''} then Some ''a0'' else None)"

definition demo_input :: "string \<Rightarrow> allocate_input" where
  "demo_input referralId = \<lparr>ai_referralId = referralId, ai_idempotencyKey = ''k'', ai_amount = ''0.5'', ai_asset = ''XLM''\<rparr>"

definition demo_world :: "allocation_row table \<Rightarrow> waiting list \<Rightarrow> (allocate_input \<times> allocation_row) list \<Rightarrow> reward_world" where
  "demo_world rows ws as = \<lparr>rw_db = \<lparr>rd_referrals = [\<lparr>rf_id = ''a0'', rf_userId = ''u'', rf_referralCode = ''REF-AAAA-AAAA'',
     rf_campaignId = None, rf_referredUser = None, rf_status = ''pending'', rf_createdAt = 0\<rparr>], rd_allocations = rows\<rparr>,
     rw_waiting = ws, rw_answers = as\<rparr>"

definition demo_allocation :: allocation_row where
  "demo_allocation = \<lparr>al_id = ''a1'', al_referralId = ''a0'', al_idempotencyKey = ''k'', al_amount = ''0.5'', al_asset = ''XLM'', al_createdAt = 1\<rparr>"

lemma demo_reward_valid: "validateRewardInput (demo_input ''a0'') = None" "validateRewardInput (demo_input ''A0'') = None"
  by code_simp+

lemma demo_uuid_column: "uuid_column demo_uuid"
  by (simp add: uuid_column_def demo_uuid_def)

text \<open>Two calls for one referral, the first in upper case: the second meets the row of the first, and both get it.\<close>

lemma demo_two_calls:
  "reach rewards_init (reward_step demo_uuid)
     (demo_world [demo_allocation] [] [(demo_input ''A0'', demo_allocation), (demo_input ''a0'', demo_allocation)])"
proof -
  let ?i = "demo_input ''a0''" and ?a = "(demo_input ''A0'', demo_allocation)" and ?b = "(demo_input ''a0'', demo_allocation)"
  let ?db = "rw_db (demo_world [demo_allocation] [] [])" and ?step = "reward_step demo_uuid"
  have r0: "reach rewards_init ?step (demo_world [] [] [])" by (rule reach_init) (simp add: rewards_init_def demo_world_def)
  have s1: "?step (demo_world [] [] []) (demo_world [demo_allocation] [] [?a])"
    using step_won [OF demo_reward_valid(2), of demo_uuid "''a1''" 1 "demo_world [] [] []" ?db demo_allocation]
    by (simp add: insert_allocation_def Let_def demo_world_def demo_input_def demo_allocation_def demo_uuid_def)
  have s2: "?step (demo_world [demo_allocation] [] [?a]) (demo_world [demo_allocation] [AfterInsert ?i] [?a])"
    using step_conflict [OF demo_reward_valid(1), of demo_uuid "''a2''" 2 "demo_world [demo_allocation] [] [?a]" ?db]
    by (simp add: insert_allocation_def demo_world_def demo_input_def demo_allocation_def demo_uuid_def)
  have s3: "?step (demo_world [demo_allocation] [AfterInsert ?i] [?a]) (demo_world [demo_allocation] [AfterKey ?i ?db] [?a])"
    using step_by_key [of ?i "demo_world [demo_allocation] [AfterInsert ?i] [?a]" demo_uuid] by (simp add: demo_world_def)
  have s4: "?step (demo_world [demo_allocation] [AfterKey ?i ?db] [?a]) (demo_world [demo_allocation] [] [?a, ?b])"
    using step_answer [of ?i ?db "demo_world [demo_allocation] [AfterKey ?i ?db] [?a]" demo_uuid demo_allocation]
    by (simp add: resolve_conflict_def demo_world_def demo_input_def demo_allocation_def matchesAllocation_def)
  from r0 s1 have "reach rewards_init ?step (demo_world [demo_allocation] [] [?a])" by (rule reach_step)
  from this s2 have "reach rewards_init ?step (demo_world [demo_allocation] [AfterInsert ?i] [?a])" by (rule reach_step)
  from this s3 have "reach rewards_init ?step (demo_world [demo_allocation] [AfterKey ?i ?db] [?a])" by (rule reach_step)
  from this s4 show ?thesis by (rule reach_step)
qed

theorem reward_allocated_once_witness:
  "allocateReferralReward demo_uuid ''a3'' 9 (demo_input ''a0'') (rw_db (demo_world [demo_allocation] [] [])) =
     (rw_db (demo_world [demo_allocation] [] []), Inr demo_allocation)
   \<and> (\<exists>e. allocateReferralReward demo_uuid ''a3'' 9 (demo_input ''A0'') (rw_db (demo_world [demo_allocation] [] [])) =
     (rw_db (demo_world [demo_allocation] [] []), Inl e))"
proof -
  let ?w = "demo_world [demo_allocation] [] [(demo_input ''A0'', demo_allocation), (demo_input ''a0'', demo_allocation)]"
  have db: "rw_db ?w = rw_db (demo_world [demo_allocation] [] [])" by (simp add: demo_world_def)
  have k: "al_idempotencyKey demo_allocation = ai_idempotencyKey (demo_input s)" for s by (simp add: demo_allocation_def demo_input_def)
  note all = reward_allocated_once [OF demo_uuid_column demo_two_calls, of "''a3''" 9, THEN conjunct2, THEN conjunct2, THEN conjunct1]
  have in_w: "(demo_input ''a0'', demo_allocation) \<in> set (rw_answers ?w)" "(demo_input ''A0'', demo_allocation) \<in> set (rw_answers ?w)"
    by (simp_all add: demo_world_def)
  from bspec [OF all in_w(1)] k demo_reward_valid(1)
  have lower: "allocateReferralReward demo_uuid ''a3'' 9 (demo_input ''a0'') (rw_db ?w) = (rw_db ?w,
      if ai_referralId (demo_input ''a0'') = al_referralId demo_allocation then Inr demo_allocation
      else Inl (ReferralRewardConflictError ''referral reward allocation does not match the existing allocation''))" by blast
  from bspec [OF all in_w(2)] k demo_reward_valid(2)
  have upper: "allocateReferralReward demo_uuid ''a3'' 9 (demo_input ''A0'') (rw_db ?w) = (rw_db ?w,
      if ai_referralId (demo_input ''A0'') = al_referralId demo_allocation then Inr demo_allocation
      else Inl (ReferralRewardConflictError ''referral reward allocation does not match the existing allocation''))" by blast
  show ?thesis using lower upper unfolding db by (simp add: demo_allocation_def demo_input_def)
qed

end
