(* ===== verification/Auth_Login.thy ===== *)
theory Auth_Login
  imports Refresh_Tokens Exact_Amounts
begin

text \<open>
  Login and bearer authentication: the key ring (\<^verbatim>\<open>src/utils/jwtKeyFormat.ts\<close>, \<^verbatim>\<open>src/utils/keyRing.ts\<close>), access tokens
  (\<^verbatim>\<open>src/services/jwtService.ts\<close>), the challenge and its verification (\<^verbatim>\<open>authChallengeService.ts\<close>, \<^verbatim>\<open>authVerifyService.ts\<close>,
  \<^verbatim>\<open>db/userRepo.ts\<close>) and the middleware \<^verbatim>\<open>requireAuth.ts\<close>. The library that signs and verifies tokens and the check of a
  Stellar signature are parameters; random values, identifiers and clock readings are arguments.

  \<^item> \<open>login_once\<close>: with requests one after the other a challenge logs in at most once, with a valid signature over it.
  \<^item> \<open>rotated_token_rejected\<close>: the access token that a rotation hands out never authenticates.
\<close>

section \<open>The key ring\<close>

record jwt_key =
  jk_kid :: string
  jk_secret :: string

definition DEFAULT_KID :: string where "DEFAULT_KID = ''default''"
definition MIN_SECRET_LENGTH :: nat where "MIN_SECRET_LENGTH = 32"

definition kid_char :: "char \<Rightarrow> bool" where
  "kid_char c \<longleftrightarrow> (let n = of_char c :: nat in 65 \<le> n \<and> n \<le> 90 \<or> 97 \<le> n \<and> n \<le> 122 \<or> 48 \<le> n \<and> n \<le> 57)
     \<or> c = CHR ''.'' \<or> c = CHR ''_'' \<or> c = CHR ''-''"

datatype key_error = MissingSeparator string | InvalidKid string | ShortSecret string | DuplicateKid string | UnknownActiveKid string

definition parse_entry :: "string \<Rightarrow> key_error + jwt_key" where
  "parse_entry entry =
    (if CHR '':'' \<notin> set entry then Inl (MissingSeparator entry)
     else (let kid = js_trim (takeWhile (\<lambda>c. c \<noteq> CHR '':'') entry);
               secret = js_trim (tl (dropWhile (\<lambda>c. c \<noteq> CHR '':'') entry))
           in if kid = [] \<or> \<not> list_all kid_char kid then Inl (InvalidKid kid)
              else if length secret < MIN_SECRET_LENGTH then Inl (ShortSecret kid)
              else Inr \<lparr>jk_kid = kid, jk_secret = secret\<rparr>))"

fun parse_entries :: "string list \<Rightarrow> key_error + jwt_key list" where
  "parse_entries [] = Inr []"
| "parse_entries (e # es) = (case parse_entry e of Inl x \<Rightarrow> Inl x
     | Inr k \<Rightarrow> (case parse_entries es of Inl x \<Rightarrow> Inl x | Inr ks \<Rightarrow> Inr (k # ks)))"

definition parseJwtKeysEnv :: "string \<Rightarrow> key_error + jwt_key list" where
  "parseJwtKeysEnv raw = parse_entries (filter (\<lambda>e. e \<noteq> []) (map js_trim (js_split '','' raw)))"

fun join_comma :: "string list \<Rightarrow> string" where
  "join_comma [] = []"
| "join_comma [s] = s"
| "join_comma (s # ss) = s @ CHR '','' # join_comma ss"

definition formatJwtKeysEnv :: "jwt_key list \<Rightarrow> string" where
  "formatJwtKeysEnv keys = join_comma (map (\<lambda>k. jk_kid k @ CHR '':'' # jk_secret k) keys)"

record key_ring =
  kr_activeKid :: string
  kr_keys :: "(string \<times> jwt_key) list"

fun add_keys :: "jwt_key list \<Rightarrow> (string \<times> jwt_key) list \<Rightarrow> key_error + (string \<times> jwt_key) list" where
  "add_keys [] keys = Inr keys"
| "add_keys (k # ks) keys = (if map_of keys (jk_kid k) \<noteq> None then Inl (DuplicateKid (jk_kid k)) else add_keys ks (keys @ [(jk_kid k, k)]))"

text \<open>\<open>secret\<close>, \<open>jwtKeys\<close> and \<open>activeKidEnv\<close> are the environment variables.\<close>

definition buildKeyRing :: "string \<Rightarrow> string option \<Rightarrow> string option \<Rightarrow> key_error + key_ring" where
  "buildKeyRing secret jwtKeys activeKidEnv =
    (let base = [(DEFAULT_KID, \<lparr>jk_kid = DEFAULT_KID, jk_secret = secret\<rparr>)];
         extra = (case jwtKeys of None \<Rightarrow> Inr [] | Some raw \<Rightarrow> if js_trim raw = [] then Inr [] else parseJwtKeysEnv raw)
     in case extra of Inl e \<Rightarrow> Inl e
      | Inr ks \<Rightarrow> (case add_keys ks base of Inl e \<Rightarrow> Inl e
        | Inr keys \<Rightarrow>
            (let activeKid = (case activeKidEnv of None \<Rightarrow> DEFAULT_KID | Some a \<Rightarrow> if js_trim a = [] then DEFAULT_KID else js_trim a)
             in if map_of keys activeKid = None then Inl (UnknownActiveKid activeKid)
                else Inr \<lparr>kr_activeKid = activeKid, kr_keys = keys\<rparr>)))"

definition getSigningKey :: "key_ring \<Rightarrow> jwt_key" where
  "getSigningKey ring = the (map_of (kr_keys ring) (kr_activeKid ring))"

definition getVerificationKey :: "key_ring \<Rightarrow> string option \<Rightarrow> jwt_key option" where
  "getVerificationKey ring kid =
     map_of (kr_keys ring) (case kid of None \<Rightarrow> DEFAULT_KID | Some k \<Rightarrow> if k = [] then DEFAULT_KID else k)"

definition listKids :: "key_ring \<Rightarrow> string list" where
  "listKids ring = map fst (kr_keys ring)"

section \<open>Access tokens\<close>

record jwt_claims =
  cl_sub :: string
  cl_stellarAddress :: "string option"

datatype jwt_error = TokenExpiredError | JsonWebTokenError

text \<open>The library: \<^verbatim>\<open>jwt.sign\<close> with the secret, the key identifier, the claims, the lifetime in seconds and the clock; the key
  identifier in the header of a token; \<^verbatim>\<open>jwt.verify\<close> with the secret and the clock. Algorithm, issuer and audience are the
  same constants in both.\<close>

record jwt_lib =
  jl_sign :: "string \<Rightarrow> string \<Rightarrow> jwt_claims \<Rightarrow> int \<Rightarrow> time \<Rightarrow> string"
  jl_kid :: "string \<Rightarrow> string option"
  jl_verify :: "string \<Rightarrow> string \<Rightarrow> time \<Rightarrow> jwt_error + jwt_claims"

definition signAccessToken :: "jwt_lib \<Rightarrow> key_ring \<Rightarrow> int \<Rightarrow> jwt_claims \<Rightarrow> time \<Rightarrow> string" where
  "signAccessToken lib ring ttl payload now =
     jl_sign lib (jk_secret (getSigningKey ring)) (jk_kid (getSigningKey ring)) payload ttl now"

definition verifyAccessToken :: "jwt_lib \<Rightarrow> key_ring \<Rightarrow> string \<Rightarrow> time \<Rightarrow> jwt_error + jwt_claims" where
  "verifyAccessToken lib ring token now = (case getVerificationKey ring (jl_kid lib token) of
     None \<Rightarrow> Inl JsonWebTokenError
   | Some key \<Rightarrow> jl_verify lib (jk_secret key) token now)"

text \<open>\<^verbatim>\<open>generateAccessToken(userId, stellarAddress)\<close> of the refresh-token service.\<close>

definition generateAccessToken :: "jwt_lib \<Rightarrow> key_ring \<Rightarrow> int \<Rightarrow> time \<Rightarrow> string \<Rightarrow> string \<Rightarrow> string" where
  "generateAccessToken lib ring ttl now userId stellarAddress =
     signAccessToken lib ring ttl \<lparr>cl_sub = userId, cl_stellarAddress = Some stellarAddress\<rparr> now"

section \<open>The middleware\<close>

datatype auth_error = AuthError string

definition extractBearerToken :: "string option \<Rightarrow> auth_error + string" where
  "extractBearerToken header = (case header of
     None \<Rightarrow> Inl (AuthError ''Missing or malformed Authorization header'')
   | Some h \<Rightarrow>
       if \<not> prefix ''Bearer '' h then Inl (AuthError ''Missing or malformed Authorization header'')
       else (let token = js_trim (drop 7 h) in if token = [] then Inl (AuthError ''Empty Bearer token'') else Inr token))"

definition verifyToken :: "jwt_lib \<Rightarrow> key_ring \<Rightarrow> string \<Rightarrow> time \<Rightarrow> auth_error + jwt_claims" where
  "verifyToken lib ring token now = (case verifyAccessToken lib ring token now of
     Inl TokenExpiredError \<Rightarrow> Inl (AuthError ''Token has expired'')
   | Inl JsonWebTokenError \<Rightarrow> Inl (AuthError ''Invalid token'')
   | Inr payload \<Rightarrow> if cl_sub payload = [] then Inl (AuthError ''Token payload is missing subject'') else Inr payload)"

definition loadUser :: "string \<Rightarrow> token_db \<Rightarrow> auth_error + user_row" where
  "loadUser stellarAddress db = (case select_first (\<lambda>u. u_stellarAddress u = stellarAddress) (tk_users db) of
     None \<Rightarrow> Inl (AuthError ''User not found'') | Some u \<Rightarrow> Inr u)"

definition authenticate :: "jwt_lib \<Rightarrow> key_ring \<Rightarrow> time \<Rightarrow> string option \<Rightarrow> token_db \<Rightarrow> auth_error + user_row" where
  "authenticate lib ring now header db = (case extractBearerToken header of
     Inl e \<Rightarrow> Inl e
   | Inr token \<Rightarrow> (case verifyToken lib ring token now of
       Inl e \<Rightarrow> Inl e
     | Inr payload \<Rightarrow> loadUser (cl_sub payload) db))"

datatype auth_answer = Proceed "user_row option" | Respond int string

definition requireAuth :: "jwt_lib \<Rightarrow> key_ring \<Rightarrow> time \<Rightarrow> string option \<Rightarrow> token_db \<Rightarrow> auth_answer" where
  "requireAuth lib ring now header db = (case authenticate lib ring now header db of
     Inl _ \<Rightarrow> Respond 401 ''unauthenticated'' | Inr u \<Rightarrow> Proceed (Some u))"

definition requireAuthForbidden :: "jwt_lib \<Rightarrow> key_ring \<Rightarrow> time \<Rightarrow> string option \<Rightarrow> token_db \<Rightarrow> auth_answer" where
  "requireAuthForbidden lib ring now header db = (case authenticate lib ring now header db of
     Inl _ \<Rightarrow> Respond 403 ''forbidden'' | Inr u \<Rightarrow> Proceed (Some u))"

definition optionalAuth :: "jwt_lib \<Rightarrow> key_ring \<Rightarrow> time \<Rightarrow> string option \<Rightarrow> token_db \<Rightarrow> auth_answer" where
  "optionalAuth lib ring now header db =
    (if header = None \<or> header = Some [] then Proceed None
     else (case authenticate lib ring now header db of
       Inl _ \<Rightarrow> Respond 401 ''unauthenticated'' | Inr u \<Rightarrow> Proceed (Some u)))"

section \<open>Challenges\<close>

record challenge_row =
  ch_nonce :: string
  ch_stellarAddress :: string
  ch_expiresAt :: time
  ch_used :: bool

record auth_db =
  ad_challenges :: "challenge_row table"
  ad_tokens :: token_db

definition CHALLENGE_TTL_MS :: int where "CHALLENGE_TTL_MS = 5 * 60 * 1000"

text \<open>\<open>None\<close>: the nonce is taken, the insert is rejected.\<close>

definition createChallenge :: "string \<Rightarrow> time \<Rightarrow> string \<Rightarrow> auth_db \<Rightarrow> (auth_db \<times> string \<times> time) option" where
  "createChallenge nonce now stellarAddress db =
    (if nonce \<in> ch_nonce ` set (ad_challenges db) then None
     else Some (db\<lparr>ad_challenges := ad_challenges db @
        [\<lparr>ch_nonce = nonce, ch_stellarAddress = stellarAddress, ch_expiresAt = now + CHALLENGE_TTL_MS, ch_used = False\<rparr>]\<rparr>,
        nonce, now + CHALLENGE_TTL_MS))"

section \<open>Verification, one statement at a time\<close>

text \<open>The parameters of a request; \<open>la_verify\<close> is \<^verbatim>\<open>Keypair.fromPublicKey(address).verify(nonce, signature)\<close>, \<open>None\<close> where
  it throws on a malformed address.\<close>

record login_args =
  la_lib :: jwt_lib
  la_ring :: key_ring
  la_ttl :: int
  la_verify :: "string \<Rightarrow> string \<Rightarrow> string \<Rightarrow> bool option"
  la_stellarAddress :: string
  la_nonce :: string
  la_signature :: string
  la_now :: time
  la_newUserId :: string
  la_createdAt :: time
  la_issuedAt :: time

datatype login_pc =
    L_select
  | L_update challenge_row
  | L_insert
  | L_load
  | L_done "string + string"
  | L_threw

definition after_consume :: "login_args \<Rightarrow> challenge_row \<Rightarrow> login_pc" where
  "after_consume a c = (case la_verify a (la_stellarAddress a) (ch_nonce c) (la_signature a) of
     None \<Rightarrow> L_threw
   | Some good \<Rightarrow> if good then L_insert else L_done (Inl ''Signature did not match the provided Stellar address''))"

definition insert_user :: "login_args \<Rightarrow> token_db \<Rightarrow> token_db option" where
  "insert_user a db =
    (if la_stellarAddress a \<in> u_stellarAddress ` set (tk_users db) then Some db
     else if la_newUserId a \<in> u_id ` set (tk_users db) then None
     else Some (db\<lparr>tk_users := tk_users db @
       [\<lparr>u_id = la_newUserId a, u_stellarAddress = la_stellarAddress a, u_createdAt = la_createdAt a\<rparr>]\<rparr>))"

fun login_step :: "login_args \<Rightarrow> login_pc \<Rightarrow> auth_db \<Rightarrow> login_pc \<times> auth_db" where
  "login_step a L_select db = (case select_first (\<lambda>c. ch_nonce c = la_nonce a) (ad_challenges db) of
     None \<Rightarrow> (L_done (Inl ''Challenge is invalid, expired, or already used''), db)
   | Some c \<Rightarrow>
       if ch_used c \<or> la_now a > ch_expiresAt c
       then (L_done (Inl ''Challenge is invalid, expired, or already used''), db)
       else (L_update c, db))"
| "login_step a (L_update c) db =
     (after_consume a c,
      db\<lparr>ad_challenges := update_where (\<lambda>r. ch_nonce r = la_nonce a) (\<lambda>r. r\<lparr>ch_used := True\<rparr>) (ad_challenges db)\<rparr>)"
| "login_step a L_insert db = (case insert_user a (ad_tokens db) of
     None \<Rightarrow> (L_threw, db) | Some t \<Rightarrow> (L_load, db\<lparr>ad_tokens := t\<rparr>))"
| "login_step a L_load db = (case select_first (\<lambda>u. u_stellarAddress u = la_stellarAddress a) (tk_users (ad_tokens db)) of
     None \<Rightarrow> (L_threw, db)
   | Some u \<Rightarrow> (L_done (Inr (signAccessToken (la_lib a) (la_ring a) (la_ttl a)
       \<lparr>cl_sub = u_stellarAddress u, cl_stellarAddress = None\<rparr> (la_issuedAt a))), db))"
| "login_step a (L_done r) db = (L_done r, db)"
| "login_step a L_threw db = (L_threw, db)"

fun login_run :: "nat \<Rightarrow> login_args \<Rightarrow> login_pc \<Rightarrow> auth_db \<Rightarrow> login_pc \<times> auth_db" where
  "login_run 0 a pc db = (pc, db)"
| "login_run (Suc n) a pc db = (case login_step a pc db of (pc', db') \<Rightarrow> login_run n a pc' db')"

text \<open>Four statements are the longest path, so four steps end every request.\<close>

definition verifyChallengeAndIssueJwt :: "login_args \<Rightarrow> auth_db \<Rightarrow> login_pc \<times> auth_db" where
  "verifyChallengeAndIssueJwt a db = login_run 4 a L_select db"

section \<open>Requests one after the other\<close>

text \<open>The tables with the requests that were answered with a token so far.\<close>

record login_world =
  lw_db :: auth_db
  lw_logins :: "login_args list"

inductive login_world_step :: "login_world \<Rightarrow> login_world \<Rightarrow> bool" where
  step_challenge: "createChallenge nonce now addr (lw_db w) = Some (db', r) \<Longrightarrow> login_world_step w (w\<lparr>lw_db := db'\<rparr>)"
| step_login: "verifyChallengeAndIssueJwt a (lw_db w) = (L_done (Inr token), db') \<Longrightarrow>
    login_world_step w (w\<lparr>lw_db := db', lw_logins := lw_logins w @ [a]\<rparr>)"
| step_refused: "verifyChallengeAndIssueJwt a (lw_db w) = (pc, db') \<Longrightarrow> (\<nexists>token. pc = L_done (Inr token)) \<Longrightarrow>
    login_world_step w (w\<lparr>lw_db := db'\<rparr>)"

definition no_logins :: "login_world \<Rightarrow> bool" where
  "no_logins w \<longleftrightarrow> ad_challenges (lw_db w) = [] \<and> lw_logins w = []"

definition spent :: "string \<Rightarrow> auth_db \<Rightarrow> bool" where
  "spent nonce db \<longleftrightarrow> (\<exists>c \<in> set (ad_challenges db). ch_nonce c = nonce) \<and> (\<forall>c \<in> set (ad_challenges db). ch_nonce c = nonce \<longrightarrow> ch_used c)"

definition logins_ok :: "login_world \<Rightarrow> bool" where
  "logins_ok w \<longleftrightarrow> distinct (map la_nonce (lw_logins w)) \<and> list_all (\<lambda>a. spent (la_nonce a) (lw_db w)
     \<and> la_verify a (la_stellarAddress a) (la_nonce a) (la_signature a) = Some True) (lw_logins w)"

lemma login_cases:
  "verifyChallengeAndIssueJwt a db =
    (case select_first (\<lambda>c. ch_nonce c = la_nonce a) (ad_challenges db) of
       None \<Rightarrow> (L_done (Inl ''Challenge is invalid, expired, or already used''), db)
     | Some c \<Rightarrow>
         if ch_used c \<or> la_now a > ch_expiresAt c
         then (L_done (Inl ''Challenge is invalid, expired, or already used''), db)
         else login_run 2 a (after_consume a c)
           (db\<lparr>ad_challenges := update_where (\<lambda>r. ch_nonce r = la_nonce a) (\<lambda>r. r\<lparr>ch_used := True\<rparr>) (ad_challenges db)\<rparr>))"
  by (simp add: verifyChallengeAndIssueJwt_def eval_nat_numeral split: option.split)

lemma finish_challenges: "ad_challenges (snd (login_run 2 a (after_consume a c) db)) = ad_challenges db"
  by (simp add: after_consume_def eval_nat_numeral split: option.split)

lemma finish_token:
  "fst (login_run 2 a (after_consume a c) db) = L_done (Inr token) \<Longrightarrow>
     la_verify a (la_stellarAddress a) (ch_nonce c) (la_signature a) = Some True"
  by (simp add: after_consume_def eval_nat_numeral split: option.splits if_splits)

lemma spent_keep:
  assumes "spent n db" and "ad_challenges db' = ad_challenges db
    \<or> (\<exists>c. ad_challenges db' = ad_challenges db @ [c] \<and> ch_nonce c \<notin> ch_nonce ` set (ad_challenges db))
    \<or> (\<exists>m. ad_challenges db' = update_where (\<lambda>r. ch_nonce r = m) (\<lambda>r. r\<lparr>ch_used := True\<rparr>) (ad_challenges db))"
  shows "spent n db'"
  using assms(2)
proof (elim disjE exE conjE)
  fix m assume u: "ad_challenges db' = update_where (\<lambda>r. ch_nonce r = m) (\<lambda>r. r\<lparr>ch_used := True\<rparr>) (ad_challenges db)"
  obtain c where c: "c \<in> set (ad_challenges db)" "ch_nonce c = n" using assms(1) by (auto simp: spent_def)
  have "(if ch_nonce c = m then c\<lparr>ch_used := True\<rparr> else c) \<in> set (ad_challenges db')" using c(1) by (auto simp: u set_update_where)
  moreover have "ch_nonce (if ch_nonce c = m then c\<lparr>ch_used := True\<rparr> else c) = n" using c(2) by simp
  ultimately show ?thesis using assms(1) unfolding spent_def u by (fastforce simp: set_update_where split: if_splits)
qed (use assms(1) in \<open>auto simp: spent_def\<close>)

lemma login_challenges:
  "ad_challenges (snd (verifyChallengeAndIssueJwt a db)) = ad_challenges db
   \<or> ad_challenges (snd (verifyChallengeAndIssueJwt a db)) =
       update_where (\<lambda>r. ch_nonce r = la_nonce a) (\<lambda>r. r\<lparr>ch_used := True\<rparr>) (ad_challenges db)"
  unfolding login_cases by (simp add: finish_challenges split: option.split)

lemma spent_marked:
  assumes "c \<in> set (ad_challenges db)" and "ch_nonce c = n"
    and "ad_challenges db' = update_where (\<lambda>r. ch_nonce r = n) (\<lambda>r. r\<lparr>ch_used := True\<rparr>) (ad_challenges db)"
  shows "spent n db'"
proof -
  have "c\<lparr>ch_used := True\<rparr> \<in> set (ad_challenges db')"
    unfolding assms(3) update_where_def set_map by (rule image_eqI [of _ _ c]) (simp_all add: assms(1,2))
  moreover have "ch_nonce (c\<lparr>ch_used := True\<rparr>) = n" using assms(2) by simp
  moreover have "ch_used r" if r: "r \<in> set (ad_challenges db')" and n: "ch_nonce r = n" for r
  proof -
    obtain q where "r = (if ch_nonce q = n then q\<lparr>ch_used := True\<rparr> else q)"
      using r unfolding assms(3) set_update_where by blast
    then show ?thesis using n by (cases "ch_nonce q = n") simp_all
  qed
  ultimately show ?thesis unfolding spent_def by blast
qed

lemma login_success:
  assumes "verifyChallengeAndIssueJwt a db = (L_done (Inr token), db')"
  shows "\<not> spent (la_nonce a) db \<and> spent (la_nonce a) db' \<and> la_verify a (la_stellarAddress a) (la_nonce a) (la_signature a) = Some True"
proof -
  let ?mark = "\<lambda>cs. update_where (\<lambda>r. ch_nonce r = la_nonce a) (\<lambda>r. r\<lparr>ch_used := True\<rparr>) cs"
  obtain c where c: "select_first (\<lambda>c. ch_nonce c = la_nonce a) (ad_challenges db) = Some c" and u: "\<not> ch_used c"
    and run: "login_run 2 a (after_consume a c) (db\<lparr>ad_challenges := ?mark (ad_challenges db)\<rparr>) = (L_done (Inr token), db')"
    using assms unfolding login_cases by (auto split: option.splits if_splits)
  from select_first_SomeD [OF c] have row: "c \<in> set (ad_challenges db)" "ch_nonce c = la_nonce a" by simp_all
  have "\<not> spent (la_nonce a) db" using row u by (auto simp: spent_def)
  moreover have "ad_challenges db' = ?mark (ad_challenges db)"
    using finish_challenges [of a c "db\<lparr>ad_challenges := ?mark (ad_challenges db)\<rparr>"] run by simp
  then have "spent (la_nonce a) db'" by (rule spent_marked [OF row])
  moreover have "la_verify a (la_stellarAddress a) (la_nonce a) (la_signature a) = Some True"
    using finish_token [of a c "db\<lparr>ad_challenges := ?mark (ad_challenges db)\<rparr>" token] run row by simp
  ultimately show ?thesis by blast
qed

lemma login_world_ok: "logins_ok w \<Longrightarrow> login_world_step w w' \<Longrightarrow> logins_ok w'"
proof (erule login_world_step.cases)
  fix nonce now addr v db' r
  assume "logins_ok w" and eq: "w = v" "w' = v\<lparr>lw_db := db'\<rparr>" and c: "createChallenge nonce now addr (lw_db v) = Some (db', r)"
  have "spent n (lw_db v) \<Longrightarrow> spent n db'" for n
    by (erule spent_keep) (use c in \<open>auto simp: createChallenge_def split: if_splits\<close>)
  then show ?thesis using \<open>logins_ok w\<close> eq by (auto simp: logins_ok_def list_all_iff)
next
  fix a v token db'
  assume ok: "logins_ok w" and eq: "w = v" "w' = v\<lparr>lw_db := db', lw_logins := lw_logins v @ [a]\<rparr>"
    and run: "verifyChallengeAndIssueJwt a (lw_db v) = (L_done (Inr token), db')"
  have "spent n (lw_db v) \<Longrightarrow> spent n db'" for n
    by (erule spent_keep) (use login_challenges [of a "lw_db v"] run in auto)
  moreover have "la_nonce a \<notin> la_nonce ` set (lw_logins v)"
    using login_success [OF run] ok eq by (auto simp: logins_ok_def list_all_iff)
  ultimately show ?thesis using login_success [OF run] ok eq by (simp add: logins_ok_def list_all_iff)
next
  fix a v pc db'
  assume ok: "logins_ok w" and eq: "w = v" "w' = v\<lparr>lw_db := db'\<rparr>" and run: "verifyChallengeAndIssueJwt a (lw_db v) = (pc, db')"
  have "spent n (lw_db v) \<Longrightarrow> spent n db'" for n
    by (erule spent_keep) (use login_challenges [of a "lw_db v"] run in auto)
  then show ?thesis using ok eq by (auto simp: logins_ok_def list_all_iff)
qed

interpretation logins: inductive_invariant no_logins login_world_step logins_ok
  by unfold_locales (simp add: no_logins_def logins_ok_def, rule login_world_ok)

lemma spent_refused:
  assumes "spent (la_nonce b) db"
  shows "verifyChallengeAndIssueJwt b db = (L_done (Inl ''Challenge is invalid, expired, or already used''), db)"
proof (cases "select_first (\<lambda>c. ch_nonce c = la_nonce b) (ad_challenges db)")
  case (Some c)
  then have "ch_used c" using assms select_first_SomeD [OF Some] by (simp add: spent_def)
  then show ?thesis by (simp add: login_cases Some)
qed (simp add: login_cases)

text \<open>C12. With requests one after the other, a challenge logs in at most once: of all the requests that were answered with
  an access token no two carried the same nonce, each carried a valid signature by its own address over its nonce,
  and its challenge is used up, so that the same request or any other one with that nonce is refused from then on.\<close>

theorem login_once:
  assumes "reach no_logins login_world_step w"
  shows "distinct (map la_nonce (lw_logins w))
    \<and> (\<forall>a \<in> set (lw_logins w). la_verify a (la_stellarAddress a) (la_nonce a) (la_signature a) = Some True)
    \<and> (\<forall>a \<in> set (lw_logins w). \<forall>b. la_nonce b = la_nonce a \<longrightarrow> verifyChallengeAndIssueJwt b (lw_db w) =
         (L_done (Inl ''Challenge is invalid, expired, or already used''), lw_db w))"
proof -
  have ok: "logins_ok w" by (rule logins.reach_inv [OF assms])
  have "verifyChallengeAndIssueJwt b (lw_db w) = (L_done (Inl ''Challenge is invalid, expired, or already used''), lw_db w)"
    if "a \<in> set (lw_logins w)" "la_nonce b = la_nonce a" for a b
    using ok that by (intro spent_refused) (simp add: logins_ok_def list_all_iff)
  then show ?thesis using ok unfolding logins_ok_def list_all_iff by blast
qed

section \<open>What the tokens are good for\<close>

text \<open>A token that the library accepts again, until it expires, under the secret and the identifier it was signed with.\<close>

definition jwt_accepts :: "jwt_lib \<Rightarrow> key_ring \<Rightarrow> int \<Rightarrow> jwt_claims \<Rightarrow> time \<Rightarrow> time \<Rightarrow> bool" where
  "jwt_accepts lib ring ttl payload now later \<longleftrightarrow>
    (let key = getSigningKey ring; token = jl_sign lib (jk_secret key) (jk_kid key) payload ttl now
     in token \<noteq> [] \<and> js_trim token = token \<and> jl_kid lib token = Some (jk_kid key)
        \<and> jl_verify lib (jk_secret key) token later = Inr payload)"

definition ring_ok :: "key_ring \<Rightarrow> bool" where
  "ring_ok ring \<longleftrightarrow> (\<forall>(kid, key) \<in> set (kr_keys ring). jk_kid key = kid \<and> kid \<noteq> []) \<and> distinct (map fst (kr_keys ring))
     \<and> map_of (kr_keys ring) (kr_activeKid ring) \<noteq> None"

lemma signed_authenticates:
  assumes "jwt_accepts lib ring ttl payload now later" and "ring_ok ring" and "cl_sub payload \<noteq> []"
  shows "authenticate lib ring later (Some (''Bearer '' @ signAccessToken lib ring ttl payload now)) db = loadUser (cl_sub payload) db"
proof -
  let ?key = "getSigningKey ring"
  let ?token = "jl_sign lib (jk_secret ?key) (jk_kid ?key) payload ttl now"
  have t: "?token \<noteq> []" "js_trim ?token = ?token" "jl_kid lib ?token = Some (jk_kid ?key)"
    "jl_verify lib (jk_secret ?key) ?token later = Inr payload"
    using assms(1) by (simp_all add: jwt_accepts_def Let_def)
  obtain key where key: "map_of (kr_keys ring) (kr_activeKid ring) = Some key" using assms(2) by (auto simp: ring_ok_def)
  have k: "getSigningKey ring = key" by (simp add: getSigningKey_def key)
  have "jk_kid key = kr_activeKid ring" "kr_activeKid ring \<noteq> []"
    using assms(2) map_of_SomeD [OF key] by (auto simp: ring_ok_def)
  then have "getVerificationKey ring (Some (jk_kid ?key)) = Some ?key" by (simp add: getVerificationKey_def k key)
  then show ?thesis
    using t assms(3) by (simp add: authenticate_def extractBearerToken_def verifyToken_def verifyAccessToken_def signAccessToken_def Let_def)
qed

text \<open>The token of a login authenticates as the user it was issued to.\<close>

lemma login_token_authenticates:
  assumes "jwt_accepts lib ring ttl \<lparr>cl_sub = u_stellarAddress u, cl_stellarAddress = None\<rparr> now later" and "ring_ok ring"
    and "select_first (\<lambda>v. u_stellarAddress v = u_stellarAddress u) (tk_users db) = Some u" and "u_stellarAddress u \<noteq> []"
  shows "requireAuth lib ring later
    (Some (''Bearer '' @ signAccessToken lib ring ttl \<lparr>cl_sub = u_stellarAddress u, cl_stellarAddress = None\<rparr> now)) db = Proceed (Some u)"
  using signed_authenticates [OF assms(1,2)] assms(3,4) by (simp add: requireAuth_def loadUser_def)

lemma rotation_token:
  assumes "rotateRefreshToken a db = (R_done (Inr pair), db')"
  shows "tk_users db' = tk_users db \<and> (\<exists>u \<in> set (tk_users db). accessToken pair = ra_signAccess a (u_id u) (u_stellarAddress u))"
proof -
  obtain t u where u: "findUserById (rt_userId t) db = Some u"
    and run: "rotate_step a (R_issue t u) (revoke_presented (ra_now a) t db) = (R_done (Inr pair), db')"
    using assms unfolding rotate_cases by (auto split: option.splits if_splits simp del: rotate_step.simps)
  have "u \<in> set (tk_users db)" using u by (auto simp: findUserById_def dest: select_first_SomeD)
  moreover have "tk_users db' = tk_users db \<and> accessToken pair = ra_signAccess a (u_id u) (u_stellarAddress u)"
    using run by (auto simp: issueRefreshToken_def revoke_presented_def Let_def split: option.splits if_splits)
  ultimately show ?thesis by blast
qed

text \<open>C13. The access token of every successful rotation is useless. It names the user's identifier as its subject, and the
  middleware looks for a user whose Stellar address is the subject: although the library accepts the token, the request
  is answered 401 (403 by the second variant), and also where authentication is optional. It is assumed that the
  library accepts a token under the key that signed it until it expires, and that identifiers (36 characters) are
  never addresses (56).\<close>

theorem rotated_token_rejected:
  assumes "rotateRefreshToken a db = (R_done (Inr pair), db')" and "ra_signAccess a = generateAccessToken lib ring ttl now"
    and "ring_ok ring" and "\<forall>u \<in> set (tk_users db). length (u_id u) = 36 \<and> length (u_stellarAddress u) = 56
      \<and> jwt_accepts lib ring ttl \<lparr>cl_sub = u_id u, cl_stellarAddress = Some (u_stellarAddress u)\<rparr> now later"
  shows "requireAuth lib ring later (Some (''Bearer '' @ accessToken pair)) db' = Respond 401 ''unauthenticated''
    \<and> requireAuthForbidden lib ring later (Some (''Bearer '' @ accessToken pair)) db' = Respond 403 ''forbidden''
    \<and> optionalAuth lib ring later (Some (''Bearer '' @ accessToken pair)) db' = Respond 401 ''unauthenticated''"
proof -
  obtain u where u: "u \<in> set (tk_users db)" and tok: "accessToken pair = generateAccessToken lib ring ttl now (u_id u) (u_stellarAddress u)"
    and users: "tk_users db' = tk_users db" using rotation_token [OF assms(1)] assms(2) by auto
  let ?p = "\<lparr>cl_sub = u_id u, cl_stellarAddress = Some (u_stellarAddress u)\<rparr>"
  have len: "length (u_id u) = 36" and acc: "jwt_accepts lib ring ttl ?p now later" using assms(4) u by auto
  have "u_stellarAddress v \<noteq> u_id u" if "v \<in> set (tk_users db)" for v
  proof
    assume "u_stellarAddress v = u_id u"
    then show False using assms(4) that len by auto
  qed
  then have "select_first (\<lambda>v. u_stellarAddress v = u_id u) (tk_users db') = None"
    unfolding users select_first_None by blast
  then have load: "loadUser (u_id u) db' = Inl (AuthError ''User not found'')" by (simp add: loadUser_def)
  have sub: "cl_sub ?p \<noteq> []" using len by auto
  have "authenticate lib ring later (Some (''Bearer '' @ accessToken pair)) db' = Inl (AuthError ''User not found'')"
    using signed_authenticates [OF acc assms(3) sub, of db'] load by (simp add: tok generateAccessToken_def)
  then show ?thesis by (simp add: requireAuth_def requireAuthForbidden_def optionalAuth_def)
qed

section \<open>The format of the key ring\<close>

lemma js_split_comma: "CHR '','' \<notin> set s \<Longrightarrow> js_split '','' (s @ CHR '','' # rest) = s # js_split '','' rest"
  by (induction s) auto

lemma js_split_one: "CHR '','' \<notin> set s \<Longrightarrow> js_split '','' s = [s]"
  by (induction s) auto

lemma js_split_join: "ss \<noteq> [] \<Longrightarrow> list_all (\<lambda>s. CHR '','' \<notin> set s) ss \<Longrightarrow> js_split '','' (join_comma ss) = ss"
  by (induction ss rule: join_comma.induct) (simp_all add: js_split_comma js_split_one)

lemma js_trim_ends:
  assumes "s \<noteq> []" and "\<not> is_space (hd s)" and "\<not> is_space (last s)"
  shows "js_trim s = s"
proof -
  have "dropWhile is_space s = s" using assms(1,2) by (cases s) simp_all
  moreover have "dropWhile is_space (rev s) = rev s" using assms(1,3) by (cases "rev s") (auto simp: last_rev hd_rev [symmetric])
  ultimately show ?thesis by (simp add: js_trim_def)
qed

lemma js_trim_last:
  assumes "js_trim s = s" and "s \<noteq> []"
  shows "\<not> is_space (last s)"
proof -
  let ?d = "dropWhile is_space (rev (dropWhile is_space s))"
  have s: "s = rev ?d" using assms(1) by (simp add: js_trim_def)
  then have "?d \<noteq> []" using assms(2) by (metis rev.simps(1))
  then have "\<not> is_space (hd ?d)" by (rule hd_dropWhile)
  then show ?thesis using s by (metis last_rev)
qed

lemma kid_char_facts: "kid_char c \<Longrightarrow> \<not> is_space c" "\<not> kid_char CHR '',''" "\<not> kid_char CHR '':''"
  by (auto simp: kid_char_def is_space_def Let_def)

definition key_wf :: "jwt_key \<Rightarrow> bool" where
  "key_wf k \<longleftrightarrow> jk_kid k \<noteq> [] \<and> list_all kid_char (jk_kid k) \<and> MIN_SECRET_LENGTH \<le> length (jk_secret k)
     \<and> CHR '','' \<notin> set (jk_secret k) \<and> js_trim (jk_secret k) = jk_secret k"

lemma parse_entry_format:
  assumes "key_wf k"
  shows "parse_entry (jk_kid k @ CHR '':'' # jk_secret k) = Inr k" and "js_trim (jk_kid k @ CHR '':'' # jk_secret k) = jk_kid k @ CHR '':'' # jk_secret k"
    and "CHR '','' \<notin> set (jk_kid k @ CHR '':'' # jk_secret k)"
proof -
  let ?kid = "jk_kid k"
  have kid: "?kid \<noteq> []" "\<And>c. c \<in> set ?kid \<Longrightarrow> kid_char c" using assms by (simp_all add: key_wf_def list_all_iff)
  have sec: "jk_secret k \<noteq> []" using assms by (auto simp: key_wf_def MIN_SECRET_LENGTH_def)
  have colon: "\<And>c. c \<in> set ?kid \<Longrightarrow> c \<noteq> CHR '':''" using kid(2) kid_char_facts(3) by blast
  have tw: "takeWhile (\<lambda>c. c \<noteq> CHR '':'') (?kid @ CHR '':'' # jk_secret k) = ?kid"
    "dropWhile (\<lambda>c. c \<noteq> CHR '':'') (?kid @ CHR '':'' # jk_secret k) = CHR '':'' # jk_secret k"
    using colon by (simp_all add: takeWhile_append2 dropWhile_append2)
  have "js_trim ?kid = ?kid" using kid kid_char_facts(1) by (intro js_trim_ends) simp_all
  then show "parse_entry (?kid @ CHR '':'' # jk_secret k) = Inr k"
    unfolding parse_entry_def tw Let_def using assms by (simp add: key_wf_def)
  have "hd (?kid @ CHR '':'' # jk_secret k) = hd ?kid" using kid(1) by simp
  then have h: "\<not> is_space (hd (?kid @ CHR '':'' # jk_secret k))" using kid kid_char_facts(1) by simp
  have "js_trim (jk_secret k) = jk_secret k" using assms by (simp add: key_wf_def)
  from js_trim_last [OF this sec] have l: "\<not> is_space (last (?kid @ CHR '':'' # jk_secret k))" using sec by simp
  show "js_trim (?kid @ CHR '':'' # jk_secret k) = ?kid @ CHR '':'' # jk_secret k" by (rule js_trim_ends [OF _ h l]) simp
  show "CHR '','' \<notin> set (?kid @ CHR '':'' # jk_secret k)" using assms kid(2) kid_char_facts(2) by (auto simp: key_wf_def)
qed

lemma parse_entries_format: "list_all key_wf keys \<Longrightarrow> parse_entries (map (\<lambda>k. jk_kid k @ CHR '':'' # jk_secret k) keys) = Inr keys"
  by (induction keys) (simp_all add: parse_entry_format(1))

text \<open>Keys written by \<^verbatim>\<open>formatJwtKeysEnv\<close> are read back by \<^verbatim>\<open>parseJwtKeysEnv\<close>, provided the identifiers are well formed
  and every secret is long enough, trimmed and without commas; colons in a secret do no harm.\<close>

lemma jwt_keys_roundtrip:
  assumes "list_all key_wf keys"
  shows "parseJwtKeysEnv (formatJwtKeysEnv keys) = Inr keys"
proof (cases "keys = []")
  case True
  then show ?thesis by (simp add: parseJwtKeysEnv_def formatJwtKeysEnv_def js_trim_def)
next
  case False
  let ?entry = "\<lambda>k. jk_kid k @ CHR '':'' # jk_secret k"
  have sp: "js_split '','' (formatJwtKeysEnv keys) = map ?entry keys"
    unfolding formatJwtKeysEnv_def using False assms parse_entry_format(3) by (intro js_split_join) (simp_all add: list_all_iff)
  have "map js_trim (map ?entry keys) = map ?entry keys"
    using assms parse_entry_format(2) by (simp add: list_all_iff)
  then have "filter (\<lambda>e. e \<noteq> []) (map js_trim (js_split '','' (formatJwtKeysEnv keys))) = map ?entry keys"
    unfolding sp by (simp add: filter_id_conv)
  then show ?thesis unfolding parseJwtKeysEnv_def by (simp only: parse_entries_format [OF assms])
qed

section \<open>Examples\<close>

definition demo_lib :: jwt_lib where
  "demo_lib = \<lparr>jl_sign = (\<lambda>secret kid payload ttl now. cl_sub payload), jl_kid = (\<lambda>token. Some DEFAULT_KID),
     jl_verify = (\<lambda>secret token now. Inr \<lparr>cl_sub = token,
       cl_stellarAddress = if length token = 36 then Some (replicate 56 CHR ''G'') else None\<rparr>)\<rparr>"

definition demo_ring :: key_ring where
  "demo_ring = \<lparr>kr_activeKid = DEFAULT_KID, kr_keys = [(DEFAULT_KID, \<lparr>jk_kid = DEFAULT_KID, jk_secret = replicate 32 CHR ''s''\<rparr>)]\<rparr>"

definition demo_user :: user_row where
  "demo_user = \<lparr>u_id = replicate 36 CHR ''a'', u_stellarAddress = replicate 56 CHR ''G'', u_createdAt = 0\<rparr>"

definition demo_tokens :: token_db where
  "demo_tokens = \<lparr>tk_tokens = [first_token\<lparr>rt_userId := u_id demo_user\<rparr>], tk_users = [demo_user]\<rparr>"

definition demo_rotate :: rotate_args where
  "demo_rotate = rotate_a\<lparr>ra_signAccess := generateAccessToken demo_lib demo_ring 900 12\<rparr>"

lemma demo_ring_ok: "ring_ok demo_ring"
  by (simp add: ring_ok_def demo_ring_def DEFAULT_KID_def)

theorem rotated_token_rejected_witness:
  "\<exists>pair db'. rotateRefreshToken demo_rotate demo_tokens = (R_done (Inr pair), db') \<and>
     requireAuth demo_lib demo_ring 20 (Some (''Bearer '' @ accessToken pair)) db' = Respond 401 ''unauthenticated''"
proof -
  obtain pair db' where run: "rotateRefreshToken demo_rotate demo_tokens = (R_done (Inr pair), db')"
    by (simp add: rotate_cases demo_rotate_def demo_tokens_def demo_user_def token_examples Let_def)
  have t: "js_trim (replicate 36 CHR ''a'') = replicate 36 CHR ''a''" by (rule js_trim_ends) (simp_all add: is_space_def)
  have "\<forall>u \<in> set (tk_users demo_tokens). length (u_id u) = 36 \<and> length (u_stellarAddress u) = 56
      \<and> jwt_accepts demo_lib demo_ring 900 \<lparr>cl_sub = u_id u, cl_stellarAddress = Some (u_stellarAddress u)\<rparr> 12 20"
    using t by (simp add: demo_tokens_def demo_user_def jwt_accepts_def demo_lib_def demo_ring_def getSigningKey_def Let_def)
  from rotated_token_rejected [OF run _ demo_ring_ok this] run show ?thesis by (simp add: demo_rotate_def)
qed

definition demo_login :: "string \<Rightarrow> login_args" where
  "demo_login uid = \<lparr>la_lib = demo_lib, la_ring = demo_ring, la_ttl = 900,
     la_verify = (\<lambda>addr nonce sig. Some (sig = addr @ nonce)), la_stellarAddress = ''GA'', la_nonce = ''n'', la_signature = ''GAn'',
     la_now = 5, la_newUserId = uid, la_createdAt = 6, la_issuedAt = 7\<rparr>"

definition demo_auth :: auth_db where
  "demo_auth = \<lparr>ad_challenges = [\<lparr>ch_nonce = ''n'', ch_stellarAddress = ''GA'', ch_expiresAt = CHALLENGE_TTL_MS, ch_used = False\<rparr>],
     ad_tokens = \<lparr>tk_tokens = [], tk_users = []\<rparr>\<rparr>"

lemma demo_first_login: "fst (verifyChallengeAndIssueJwt (demo_login ''u1'') demo_auth) = L_done (Inr ''GA'')"
  by code_simp

theorem login_once_witness:
  "fst (verifyChallengeAndIssueJwt (demo_login ''u2'') (snd (verifyChallengeAndIssueJwt (demo_login ''u1'') demo_auth))) =
     L_done (Inl ''Challenge is invalid, expired, or already used'')"
proof -
  let ?w0 = "\<lparr>lw_db = demo_auth\<lparr>ad_challenges := []\<rparr>, lw_logins = []\<rparr>"
  let ?run = "verifyChallengeAndIssueJwt (demo_login ''u1'') demo_auth"
  have r0: "reach no_logins login_world_step ?w0" by (rule reach_init) (simp add: no_logins_def)
  have c: "createChallenge ''n'' 0 ''GA'' (lw_db ?w0) = Some (demo_auth, ''n'', CHALLENGE_TTL_MS)"
    by (simp add: createChallenge_def demo_auth_def)
  have run: "verifyChallengeAndIssueJwt (demo_login ''u1'') (lw_db (?w0\<lparr>lw_db := demo_auth\<rparr>)) = (L_done (Inr ''GA''), snd ?run)"
    using demo_first_login by (simp add: prod_eq_iff)
  have n: "la_nonce (demo_login ''u2'') = la_nonce (demo_login ''u1'')" by (simp add: demo_login_def)
  have refused: "verifyChallengeAndIssueJwt b (lw_db w) = (L_done (Inl ''Challenge is invalid, expired, or already used''), lw_db w)"
    if "reach no_logins login_world_step w" "a \<in> set (lw_logins w)" "la_nonce b = la_nonce a" for a b w
    using login_once [OF that(1)] that(2,3) by blast
  let ?v = "?w0\<lparr>lw_db := demo_auth\<rparr>"
  have r1: "reach no_logins login_world_step ?v" by (rule reach_step [OF r0 step_challenge [OF c]])
  define w where "w = ?v\<lparr>lw_db := snd ?run, lw_logins := lw_logins ?v @ [demo_login ''u1'']\<rparr>"
  have "login_world_step ?v w" unfolding w_def by (rule step_login [OF run])
  then have w: "reach no_logins login_world_step w" "lw_db w = snd ?run" "lw_logins w = [demo_login ''u1'']"
    using reach_step [OF r1] by (blast, simp_all only: w_def login_world.simps append_Nil)
  have "demo_login ''u1'' \<in> set (lw_logins w)" unfolding w(3) by (rule list.set_intros(1))
  note e = refused [OF w(1) this n, unfolded w(2)]
  show ?thesis unfolding e by (rule fst_conv)
qed

text \<open>The requests must not overlap: after both have read the challenge, both mark it used and both get a token.\<close>

lemma overlapping_logins:
  "fst (login_run 2 (demo_login ''u2'') (fst (login_step (demo_login ''u2'') (fst (login_step (demo_login ''u2'') L_select demo_auth))
      (snd (verifyChallengeAndIssueJwt (demo_login ''u1'') demo_auth))))
      (snd (verifyChallengeAndIssueJwt (demo_login ''u1'') demo_auth))) = L_done (Inr ''GA'')"
  by code_simp

lemma jwt_keys_roundtrip_witness:
  "parseJwtKeysEnv (formatJwtKeysEnv [\<lparr>jk_kid = ''k1'', jk_secret = replicate 32 CHR '':''\<rparr>, \<lparr>jk_kid = ''k.2'', jk_secret = replicate 33 CHR ''s''\<rparr>]) =
     Inr [\<lparr>jk_kid = ''k1'', jk_secret = replicate 32 CHR '':''\<rparr>, \<lparr>jk_kid = ''k.2'', jk_secret = replicate 33 CHR ''s''\<rparr>]"
proof (rule jwt_keys_roundtrip)
  have "js_trim (replicate 32 CHR '':'') = replicate 32 CHR '':''" "js_trim (replicate 33 CHR ''s'') = replicate 33 CHR ''s''"
    by (rule js_trim_ends; simp add: is_space_def)+
  then show "list_all key_wf [\<lparr>jk_kid = ''k1'', jk_secret = replicate 32 CHR '':''\<rparr>, \<lparr>jk_kid = ''k.2'', jk_secret = replicate 33 CHR ''s''\<rparr>]"
    by (simp add: key_wf_def kid_char_def MIN_SECRET_LENGTH_def)
qed

end
