(* ===== verification/Admin_Switches.thy ===== *)
theory Admin_Switches
  imports Indexer_Recovery
begin

text \<open>
  Small registries: quota requests with their route (\<^verbatim>\<open>src/services/quotaRequestService.ts\<close>, \<^verbatim>\<open>src/routes/quota/requests.ts\<close>),
  frozen users (\<^verbatim>\<open>src/services/userFreezeService.ts\<close>) and the switches of the workers with their route
  (\<^verbatim>\<open>src/services/circuitBreakerService.ts\<close>, \<^verbatim>\<open>src/routes/admin/circuit-breaker.ts\<close>).

  \<^item> \<open>quota_pending_bound\<close>: how far overlapping requests can exceed the cap on pending requests.
  \<^item> \<open>patch_switches_partial\<close>: a refused change of both switches may have made the first one.
\<close>

section \<open>Quota requests\<close>

definition VALID_QUOTA_TYPES :: "string list" where
  "VALID_QUOTA_TYPES = [''prediction_limit'', ''daily_prediction_limit'', ''claim_limit'']"

record quota_row =
  qr_id :: string
  qr_userId :: string
  qr_quotaType :: string
  qr_requestedValue :: int
  qr_reason :: string
  qr_status :: string
  qr_reviewedBy :: "string option"
  qr_reviewNotes :: "string option"
  qr_reviewedAt :: "time option"
  qr_createdAt :: time
  qr_updatedAt :: time

record quota_input =
  qi_userId :: string
  qi_quotaType :: string
  qi_requestedValue :: int
  qi_reason :: string

datatype quota_error = QuotaValidation string | QuotaBadRequest nat

definition quota_validation :: "quota_input \<Rightarrow> quota_error option" where
  "quota_validation input =
    (if qi_quotaType input \<notin> set VALID_QUOTA_TYPES then Some (QuotaValidation ''Invalid quota type'')
     else if qi_requestedValue input < 1 then Some (QuotaValidation ''requestedValue must be a positive integer'')
     else if length (js_trim (qi_reason input)) < 10 then Some (QuotaValidation ''reason must be at least 10 characters'')
     else if length (qi_reason input) > 1000 then Some (QuotaValidation ''reason must not exceed 1000 characters'')
     else None)"

definition createQuotaRequest :: "string \<Rightarrow> time \<Rightarrow> quota_input \<Rightarrow> quota_row table \<Rightarrow> quota_row table \<times> (quota_error + quota_row)" where
  "createQuotaRequest newId now input rows = (case quota_validation input of
     Some e \<Rightarrow> (rows, Inl e)
   | None \<Rightarrow>
       (let row = \<lparr>qr_id = newId, qr_userId = qi_userId input, qr_quotaType = qi_quotaType input,
            qr_requestedValue = qi_requestedValue input, qr_reason = js_trim (qi_reason input), qr_status = ''pending'',
            qr_reviewedBy = None, qr_reviewNotes = None, qr_reviewedAt = None, qr_createdAt = now, qr_updatedAt = now\<rparr>
        in (rows @ [row], Inr row)))"

definition getQuotaRequestsByUser :: "string \<Rightarrow> quota_row table \<Rightarrow> quota_row list" where
  "getQuotaRequestsByUser userId rows =
     js_sort (\<lambda>a b. qr_createdAt b - qr_createdAt a) (filter (\<lambda>r. qr_userId r = userId) rows)"

definition getPendingCountByUser :: "string \<Rightarrow> quota_row table \<Rightarrow> nat" where
  "getPendingCountByUser userId rows = length (filter (\<lambda>r. qr_userId r = userId \<and> qr_status r = ''pending'') rows)"

definition MAX_PENDING_REQUESTS :: nat where "MAX_PENDING_REQUESTS = 5"

text \<open>The two statements of the route: the count, then the insert.\<close>

definition quota_check :: "string \<Rightarrow> quota_row table \<Rightarrow> quota_error option" where
  "quota_check userId rows =
    (let pendingCount = getPendingCountByUser userId rows
     in if pendingCount \<ge> MAX_PENDING_REQUESTS then Some (QuotaBadRequest pendingCount) else None)"

definition quota_post :: "string \<Rightarrow> time \<Rightarrow> quota_input \<Rightarrow> quota_row table \<Rightarrow> quota_row table \<times> (quota_error + quota_row)" where
  "quota_post newId now input rows = (case quota_check (qi_userId input) rows of
     Some e \<Rightarrow> (rows, Inl e) | None \<Rightarrow> createQuotaRequest newId now input rows)"

text \<open>Overlapping requests, at most \<open>k\<close> of one user at a time between the two statements.\<close>

record quota_world =
  qw_rows :: "quota_row table"
  qw_passed :: "quota_input list"

definition in_flight :: "string \<Rightarrow> quota_world \<Rightarrow> nat" where
  "in_flight userId w = length (filter (\<lambda>i. qi_userId i = userId) (qw_passed w))"

inductive quota_step :: "nat \<Rightarrow> quota_world \<Rightarrow> quota_world \<Rightarrow> bool" for k where
  step_check: "quota_check (qi_userId i) (qw_rows w) = None \<Longrightarrow> in_flight (qi_userId i) w < k \<Longrightarrow>
     quota_step k w (w\<lparr>qw_passed := i # qw_passed w\<rparr>)"
| step_insert: "i \<in> set (qw_passed w) \<Longrightarrow> newId \<notin> qr_id ` set (qw_rows w) \<Longrightarrow>
     createQuotaRequest newId now i (qw_rows w) = (rows, answer) \<Longrightarrow>
     quota_step k w (w\<lparr>qw_rows := rows, qw_passed := remove1 i (qw_passed w)\<rparr>)"

definition no_quota_requests :: "quota_world \<Rightarrow> bool" where
  "no_quota_requests w \<longleftrightarrow> qw_rows w = [] \<and> qw_passed w = []"

definition quota_ok :: "nat \<Rightarrow> quota_world \<Rightarrow> bool" where
  "quota_ok k w \<longleftrightarrow> (\<forall>u. getPendingCountByUser u (qw_rows w) + in_flight u w \<le> MAX_PENDING_REQUESTS - 1 + k)"

lemma pending_append:
  "getPendingCountByUser u (rows @ [r]) = getPendingCountByUser u rows + (if qr_userId r = u \<and> qr_status r = ''pending'' then 1 else 0)"
  by (simp add: getPendingCountByUser_def)

lemma filter_remove1_length:
  "x \<in> set xs \<Longrightarrow> length (filter P xs) = length (filter P (remove1 x xs)) + (if P x then 1 else 0)"
  by (induction xs) auto

lemma create_pending:
  assumes "createQuotaRequest newId now i rows = (rows', answer)"
  shows "getPendingCountByUser u rows' \<le> getPendingCountByUser u rows + (if qi_userId i = u then 1 else 0)"
proof (cases "quota_validation i")
  case None
  then have "\<exists>r. rows' = rows @ [r] \<and> qr_userId r = qi_userId i" using assms by (auto simp: createQuotaRequest_def Let_def)
  then show ?thesis by (auto simp: pending_append)
next
  case (Some e)
  then show ?thesis using assms by (simp add: createQuotaRequest_def)
qed

lemma quota_step_ok: "quota_step k w w' \<Longrightarrow> quota_ok k w \<Longrightarrow> quota_ok k w'"
proof (induction rule: quota_step.induct)
  case (step_check i w)
  have "getPendingCountByUser (qi_userId i) (qw_rows w) \<le> MAX_PENDING_REQUESTS - 1"
    using step_check(1) by (simp add: quota_check_def Let_def split: if_splits)
  then show ?case using step_check(2,3) by (auto simp: quota_ok_def in_flight_def)
next
  case (step_insert i w newId now rows answer)
  have "getPendingCountByUser u rows + in_flight u (w\<lparr>qw_rows := rows, qw_passed := remove1 i (qw_passed w)\<rparr>)
      \<le> MAX_PENDING_REQUESTS - 1 + k" for u
  proof -
    have old: "getPendingCountByUser u (qw_rows w) + in_flight u w \<le> MAX_PENDING_REQUESTS - 1 + k"
      using step_insert(4) by (simp add: quota_ok_def)
    have "in_flight u w = in_flight u (w\<lparr>qw_rows := rows, qw_passed := remove1 i (qw_passed w)\<rparr>) + (if qi_userId i = u then 1 else 0)"
      using filter_remove1_length [OF step_insert(1), of "\<lambda>i. qi_userId i = u"] by (simp add: in_flight_def)
    with create_pending [OF step_insert(3), of u] old show ?thesis by linarith
  qed
  then show ?case by (simp add: quota_ok_def)
qed

interpretation quota: inductive_invariant no_quota_requests "quota_step k" "quota_ok k" for k
  by unfold_locales (simp add: no_quota_requests_def quota_ok_def getPendingCountByUser_def in_flight_def, rule quota_step_ok)

text \<open>How the cap is exceeded: four requests one after the other, then \<open>k\<close> that all count before the first of them inserts.\<close>

definition demo_quota :: quota_input where
  "demo_quota = \<lparr>qi_userId = ''u'', qi_quotaType = ''claim_limit'', qi_requestedValue = 3, qi_reason = ''I play a lot''\<rparr>"

definition quota_input_of :: "string \<Rightarrow> quota_input" where
  "quota_input_of u = demo_quota\<lparr>qi_userId := u\<rparr>"

lemma quota_input_of [simp]: "qi_userId (quota_input_of u) = u" "quota_validation (quota_input_of u) = None"
  by (simp_all add: quota_input_of_def demo_quota_def quota_validation_def VALID_QUOTA_TYPES_def js_trim_def is_space_def)

lemma quota_check_iff: "quota_check u rows = None \<longleftrightarrow> getPendingCountByUser u rows < MAX_PENDING_REQUESTS"
  by (simp add: quota_check_def Let_def)

lemma create_one_pending:
  "\<exists>rows' row. createQuotaRequest newId now (quota_input_of u) rows = (rows', Inr row)
     \<and> getPendingCountByUser u rows' = Suc (getPendingCountByUser u rows)"
  by (simp add: createQuotaRequest_def Let_def pending_append)

lemma reach_insert:
  assumes "reach no_quota_requests (quota_step k) \<lparr>qw_rows = rows, qw_passed = quota_input_of u # passed\<rparr>"
  shows "\<exists>rows'. reach no_quota_requests (quota_step k) \<lparr>qw_rows = rows', qw_passed = passed\<rparr>
    \<and> getPendingCountByUser u rows' = Suc (getPendingCountByUser u rows)"
proof -
  let ?w = "\<lparr>qw_rows = rows, qw_passed = quota_input_of u # passed\<rparr>"
  have "finite (qr_id ` set rows)" by simp
  then obtain newId where new: "newId \<notin> qr_id ` set rows" using ex_new_if_finite [OF infinite_UNIV_listI] by blast
  obtain rows' row where c: "createQuotaRequest newId 0 (quota_input_of u) rows = (rows', Inr row)"
    "getPendingCountByUser u rows' = Suc (getPendingCountByUser u rows)" using create_one_pending by blast
  have "quota_step k ?w (?w\<lparr>qw_rows := rows', qw_passed := remove1 (quota_input_of u) (qw_passed ?w)\<rparr>)"
    by (rule step_insert [where answer = "Inr row"]) (use new c(1) in simp_all)
  from reach_step [OF assms this] c(2) show ?thesis by (intro exI [of _ rows']) simp
qed

lemma reach_check:
  assumes "reach no_quota_requests (quota_step k) \<lparr>qw_rows = rows, qw_passed = replicate j (quota_input_of u)\<rparr>"
    and "getPendingCountByUser u rows < MAX_PENDING_REQUESTS" and "j < k"
  shows "reach no_quota_requests (quota_step k) \<lparr>qw_rows = rows, qw_passed = replicate (Suc j) (quota_input_of u)\<rparr>"
proof -
  have "in_flight u \<lparr>qw_rows = rows, qw_passed = replicate j (quota_input_of u)\<rparr> < k" using assms(3) by (simp add: in_flight_def)
  with step_check [of "quota_input_of u" "\<lparr>qw_rows = rows, qw_passed = replicate j (quota_input_of u)\<rparr>" k] assms(2)
  have "quota_step k \<lparr>qw_rows = rows, qw_passed = replicate j (quota_input_of u)\<rparr>
      \<lparr>qw_rows = rows, qw_passed = replicate (Suc j) (quota_input_of u)\<rparr>" by (simp add: quota_check_iff)
  with assms(1) show ?thesis by (rule reach_step)
qed

lemma reach_pending:
  assumes "0 < k" and "n < MAX_PENDING_REQUESTS"
  shows "\<exists>rows. reach no_quota_requests (quota_step k) \<lparr>qw_rows = rows, qw_passed = []\<rparr> \<and> getPendingCountByUser u rows = n"
  using assms(2)
proof (induction n)
  case 0
  have "reach no_quota_requests (quota_step k) \<lparr>qw_rows = [], qw_passed = []\<rparr>" by (rule reach_init) (simp add: no_quota_requests_def)
  then show ?case by (intro exI [of _ "[]"]) (simp add: getPendingCountByUser_def)
next
  case (Suc n)
  then obtain rows where r: "reach no_quota_requests (quota_step k) \<lparr>qw_rows = rows, qw_passed = replicate 0 (quota_input_of u)\<rparr>"
    "getPendingCountByUser u rows = n" by auto
  from reach_check [OF r(1) _ assms(1)] Suc.prems r(2) reach_insert [of k rows u "[]"] show ?case by auto
qed

lemma reach_all_checked:
  assumes "reach no_quota_requests (quota_step k) \<lparr>qw_rows = rows, qw_passed = []\<rparr>"
    and "getPendingCountByUser u rows < MAX_PENDING_REQUESTS" and "j \<le> k"
  shows "reach no_quota_requests (quota_step k) \<lparr>qw_rows = rows, qw_passed = replicate j (quota_input_of u)\<rparr>"
  using assms(3)
proof (induction j)
  case (Suc j)
  then show ?case using reach_check [OF _ assms(2)] by simp
qed (use assms(1) in simp)

lemma reach_all_inserted:
  "reach no_quota_requests (quota_step k) \<lparr>qw_rows = rows, qw_passed = replicate j (quota_input_of u)\<rparr> \<Longrightarrow>
   \<exists>rows'. reach no_quota_requests (quota_step k) \<lparr>qw_rows = rows', qw_passed = []\<rparr>
     \<and> getPendingCountByUser u rows' = getPendingCountByUser u rows + j"
proof (induction j arbitrary: rows)
  case (Suc j)
  obtain rows1 where r1: "reach no_quota_requests (quota_step k) \<lparr>qw_rows = rows1, qw_passed = replicate j (quota_input_of u)\<rparr>"
    "getPendingCountByUser u rows1 = Suc (getPendingCountByUser u rows)" using reach_insert [of k rows u "replicate j (quota_input_of u)"] Suc.prems by auto
  from Suc.IH [OF r1(1)] r1(2) show ?case by auto
qed auto

text \<open>C40. The route counts the pending requests and inserts in two statements. If at most \<open>k\<close> requests of a user are between
  the two at a time, he never has more than \<open>4 + k\<close> pending requests; and for every positive \<open>k\<close> and every user some run
  from the empty table reaches exactly \<open>4 + k\<close>. So the cap of 5 holds when the requests of a user do not overlap, and
  two overlapping ones can make it 6.\<close>

theorem quota_pending_bound:
  shows "(\<forall>w userId. reach no_quota_requests (quota_step k) w \<longrightarrow>
        getPendingCountByUser userId (qw_rows w) \<le> MAX_PENDING_REQUESTS - 1 + k)
    \<and> (0 < k \<longrightarrow> (\<forall>userId. \<exists>w. reach no_quota_requests (quota_step k) w
        \<and> getPendingCountByUser userId (qw_rows w) = MAX_PENDING_REQUESTS - 1 + k))"
proof (intro conjI allI impI)
  fix w userId
  assume "reach no_quota_requests (quota_step k) w"
  then have "quota_ok k w" by (rule quota.reach_inv)
  then show "getPendingCountByUser userId (qw_rows w) \<le> MAX_PENDING_REQUESTS - 1 + k"
    unfolding quota_ok_def using add_leD1 by blast
next
  fix u
  assume "0 < k"
  moreover have "MAX_PENDING_REQUESTS - 1 < MAX_PENDING_REQUESTS" by (simp add: MAX_PENDING_REQUESTS_def)
  ultimately obtain rows where r: "reach no_quota_requests (quota_step k) \<lparr>qw_rows = rows, qw_passed = []\<rparr>"
    "getPendingCountByUser u rows = MAX_PENDING_REQUESTS - 1" using reach_pending by blast
  have lt: "getPendingCountByUser u rows < MAX_PENDING_REQUESTS" using r(2) by (simp add: MAX_PENDING_REQUESTS_def)
  from reach_all_inserted [OF reach_all_checked [OF r(1) lt order_refl]] r(2)
  show "\<exists>w. reach no_quota_requests (quota_step k) w \<and> getPendingCountByUser u (qw_rows w) = MAX_PENDING_REQUESTS - 1 + k"
    by (metis quota_world.select_convs(1))
qed

theorem quota_pending_bound_witness:
  "\<exists>w. reach no_quota_requests (quota_step 2) w \<and> getPendingCountByUser ''u'' (qw_rows w) = 6"
  using quota_pending_bound [of 2] by (simp add: MAX_PENDING_REQUESTS_def)

section \<open>Frozen users\<close>

record freeze_record =
  fz_address :: string
  fz_frozen :: bool
  fz_reason :: "string option"
  fz_updatedBy :: string
  fz_updatedAt :: time

type_synonym freeze_store = "(string \<times> freeze_record) list"

definition resetUserFreezeForTests :: "freeze_store \<Rightarrow> freeze_store" where
  "resetUserFreezeForTests store = []"

definition getFreezeStatus :: "string \<Rightarrow> freeze_store \<Rightarrow> freeze_record" where
  "getFreezeStatus address store = (case map_of store address of
     Some r \<Rightarrow> r
   | None \<Rightarrow> \<lparr>fz_address = address, fz_frozen = False, fz_reason = None, fz_updatedBy = [], fz_updatedAt = 0\<rparr>)"

definition isUserFrozen :: "string \<Rightarrow> freeze_store \<Rightarrow> bool" where
  "isUserFrozen address store = (case map_of store address of None \<Rightarrow> False | Some r \<Rightarrow> fz_frozen r)"

definition freezeUser :: "string \<Rightarrow> string \<Rightarrow> string option \<Rightarrow> time \<Rightarrow> freeze_store \<Rightarrow> freeze_record \<times> freeze_store" where
  "freezeUser address adminAddress reason now store =
    (let r = \<lparr>fz_address = address, fz_frozen = True, fz_reason = reason, fz_updatedBy = adminAddress, fz_updatedAt = now\<rparr>
     in (r, AList.update address r store))"

definition unfreezeUser :: "string \<Rightarrow> string \<Rightarrow> time \<Rightarrow> freeze_store \<Rightarrow> freeze_record \<times> freeze_store" where
  "unfreezeUser address adminAddress now store =
    (let r = \<lparr>fz_address = address, fz_frozen = False, fz_reason = None, fz_updatedBy = adminAddress, fz_updatedAt = now\<rparr>
     in (r, AList.update address r store))"

lemma freeze_status:
  "isUserFrozen b (snd (freezeUser a admin reason now store)) = (b = a \<or> isUserFrozen b store)"
  "isUserFrozen b (snd (unfreezeUser a admin now store)) = (b \<noteq> a \<and> isUserFrozen b store)"
  "fz_frozen (getFreezeStatus b store) = isUserFrozen b store"
  by (auto simp: isUserFrozen_def freezeUser_def unfreezeUser_def getFreezeStatus_def Let_def update_conv' split: option.split)

section \<open>Switches of the workers\<close>

datatype breaker_type = IndexerBreaker | WebhookBreaker

record breaker_state =
  bs_type :: breaker_type
  bs_enabled :: bool
  bs_updatedAt :: time
  bs_updatedBy :: "string option"

type_synonym breaker_store = "(breaker_type \<times> breaker_state) list"

datatype breaker_error = CircuitBreakerNotFoundError breaker_type | CircuitBreakerConflictError breaker_type bool

definition getInitialState :: "breaker_type \<Rightarrow> time \<Rightarrow> breaker_state" where
  "getInitialState t now = \<lparr>bs_type = t, bs_enabled = True, bs_updatedAt = now, bs_updatedBy = None\<rparr>"

definition ensureInitialized :: "time \<Rightarrow> breaker_store \<Rightarrow> breaker_store" where
  "ensureInitialized now store =
    (let store1 = (if map_of store IndexerBreaker = None
           then AList.update IndexerBreaker (getInitialState IndexerBreaker now) store else store)
     in if map_of store1 WebhookBreaker = None
        then AList.update WebhookBreaker (getInitialState WebhookBreaker now) store1 else store1)"

definition resetCircuitBreakersForTests :: "time \<Rightarrow> breaker_store \<Rightarrow> breaker_store" where
  "resetCircuitBreakersForTests now store = ensureInitialized now []"

text \<open>Sorted by the name of the type: the indexer's first.\<close>

definition breaker_order :: "breaker_state \<Rightarrow> breaker_state \<Rightarrow> int" where
  "breaker_order a b = (if bs_type a = bs_type b then 0 else if bs_type a = IndexerBreaker then - 1 else 1)"

definition listCircuitBreakers :: "time \<Rightarrow> breaker_store \<Rightarrow> breaker_state list \<times> breaker_store" where
  "listCircuitBreakers now store =
    (let s = ensureInitialized now store in (js_sort breaker_order (map snd s), s))"

definition getCircuitBreaker :: "breaker_type \<Rightarrow> time \<Rightarrow> breaker_store \<Rightarrow> (breaker_error + breaker_state) \<times> breaker_store" where
  "getCircuitBreaker t now store =
    (let s = ensureInitialized now store
     in (case map_of s t of None \<Rightarrow> Inl (CircuitBreakerNotFoundError t) | Some x \<Rightarrow> Inr x, s))"

definition setCircuitBreaker ::
  "breaker_type \<Rightarrow> bool \<Rightarrow> string \<Rightarrow> time \<Rightarrow> breaker_store \<Rightarrow> (breaker_error + breaker_state) \<times> breaker_store" where
  "setCircuitBreaker t enabled actor now store =
    (let s = ensureInitialized now store
     in case map_of s t of
          None \<Rightarrow> (Inl (CircuitBreakerNotFoundError t), s)
        | Some existing \<Rightarrow>
            if bs_enabled existing = enabled then (Inl (CircuitBreakerConflictError t enabled), s)
            else (let updated = existing\<lparr>bs_enabled := enabled, bs_updatedAt := now, bs_updatedBy := Some actor\<rparr>
                  in (Inr updated, AList.update t updated s)))"

definition isCircuitBreakerEnabled :: "breaker_type \<Rightarrow> time \<Rightarrow> breaker_store \<Rightarrow> bool \<times> breaker_store" where
  "isCircuitBreakerEnabled t now store =
    (let s = ensureInitialized now store
     in (case map_of s t of None \<Rightarrow> True | Some x \<Rightarrow> bs_enabled x, s))"

text \<open>The body of the \<^verbatim>\<open>PATCH\<close> handler.\<close>

definition patch_switches ::
  "bool option \<Rightarrow> bool option \<Rightarrow> string \<Rightarrow> time \<Rightarrow> breaker_store \<Rightarrow> (breaker_error + breaker_state list) \<times> breaker_store" where
  "patch_switches indexer webhook actor now store =
    (let step = (\<lambda>t v (acc, s). case (acc, v) of
           (Inr results, Some enabled) \<Rightarrow> (case setCircuitBreaker t enabled actor now s of
               (Inl e, s') \<Rightarrow> (Inl e, s') | (Inr x, s') \<Rightarrow> (Inr (results @ [x]), s'))
         | _ \<Rightarrow> (acc, s))
     in step WebhookBreaker webhook (step IndexerBreaker indexer (Inr [], store)))"

definition switch_of :: "breaker_type \<Rightarrow> time \<Rightarrow> breaker_store \<Rightarrow> bool" where
  "switch_of t now store = fst (isCircuitBreakerEnabled t now store)"

lemma initialized [simp]:
  "map_of (ensureInitialized now store) t = (case map_of store t of None \<Rightarrow> Some (getInitialState t now) | Some x \<Rightarrow> Some x)"
  by (cases t) (simp_all add: ensureInitialized_def Let_def update_conv' split: option.split)

lemma switch_after_set:
  assumes "setCircuitBreaker t enabled actor now store = (Inr x, store')"
  shows "switch_of t' later store' = (if t' = t then enabled else switch_of t' later store)" and "switch_of t now store \<noteq> enabled"
proof -
  obtain ex where ex: "map_of (ensureInitialized now store) t = Some ex" "bs_enabled ex \<noteq> enabled"
    and s': "store' = AList.update t (ex\<lparr>bs_enabled := enabled, bs_updatedAt := now, bs_updatedBy := Some actor\<rparr>) (ensureInitialized now store)"
    using assms by (auto simp: setCircuitBreaker_def Let_def simp del: initialized split: option.splits if_splits)
  show "switch_of t' later store' = (if t' = t then enabled else switch_of t' later store)"
    by (auto simp: switch_of_def isCircuitBreakerEnabled_def Let_def s' update_conv' getInitialState_def split: option.splits)
  show "switch_of t now store \<noteq> enabled"
    using ex by (auto simp: switch_of_def isCircuitBreakerEnabled_def Let_def simp del: initialized)
qed

text \<open>A change of both switches that is answered 409 may have made the first one: the indexer's switch is set before the
  conflict of the webhook's is found.\<close>

lemma patch_switches_partial:
  assumes "switch_of IndexerBreaker now store \<noteq> a" and "switch_of WebhookBreaker now store = b"
  shows "\<exists>store'. patch_switches (Some a) (Some b) actor now store = (Inl (CircuitBreakerConflictError WebhookBreaker b), store')
    \<and> switch_of IndexerBreaker now store' = a"
proof -
  have first: "\<exists>x s. setCircuitBreaker IndexerBreaker a actor now store = (Inr x, s)"
    using assms(1) by (auto simp: setCircuitBreaker_def switch_of_def isCircuitBreakerEnabled_def Let_def split: option.splits)
  then obtain x s where s: "setCircuitBreaker IndexerBreaker a actor now store = (Inr x, s)" by blast
  have sw: "switch_of IndexerBreaker now s = a" "switch_of WebhookBreaker now s = b"
    using switch_after_set(1) [OF s, of _ now] assms(2) by simp_all
  have second: "setCircuitBreaker WebhookBreaker b actor now s = (Inl (CircuitBreakerConflictError WebhookBreaker b), ensureInitialized now s)"
    using sw(2) by (auto simp: setCircuitBreaker_def switch_of_def isCircuitBreakerEnabled_def Let_def split: option.splits)
  have "switch_of IndexerBreaker now (ensureInitialized now s) = a"
    using sw(1) by (simp add: switch_of_def isCircuitBreakerEnabled_def Let_def split: option.splits)
  then show ?thesis by (simp add: patch_switches_def s second)
qed

end
