(* ===== verification/Listings.thy ===== *)
theory Listings
  imports Leaderboard Slot_Scheduler Watcher_Jobs Schema
begin

text \<open>
  Lists that the database pages by \<^verbatim>\<open>(created_at, id)\<close>, newest first: markets and recommendations (\<^verbatim>\<open>src/services/marketService.ts\<close>),
  watchers (\<^verbatim>\<open>marketWatcherService.ts\<close>), users (\<^verbatim>\<open>userService.ts\<close>) and notifications (\<^verbatim>\<open>notificationService.ts\<close>). A row carries the
  \<^verbatim>\<open>created_at\<close> that a \<^verbatim>\<open>Date\<close> shows; the stored time in microseconds is an argument (\<open>micros\<close>) or a field of its own.
  \<open>parseDate\<close> is \<^verbatim>\<open>new Date(text)\<close>, with \<open>None\<close> for an invalid date.

  \<^item> \<open>keyset_walk_complete\<close>, \<open>list_markets_walk\<close>: following the cursors lists every row once, if no two rows share a
    millisecond without being on it.
  \<^item> \<open>same_millisecond_lost\<close>: otherwise rows are lost.
\<close>

section \<open>Paging by creation time and identifier\<close>

definition newest :: "('r \<Rightarrow> int) \<Rightarrow> ('r \<Rightarrow> string) \<Rightarrow> 'r \<Rightarrow> 'r \<Rightarrow> int" where
  "newest created rid a b =
    (if created a \<noteq> created b then created b - created a
     else if rid b < rid a then - 1 else if rid a = rid b then 0 else 1)"

text \<open>The condition a cursor adds to the query; an invalid date makes the query throw.\<close>

definition cursor_filter ::
  "(string \<Rightarrow> string) \<Rightarrow> (string \<Rightarrow> time option) \<Rightarrow> ('r \<Rightarrow> int) \<Rightarrow> ('r \<Rightarrow> string) \<Rightarrow> string option \<Rightarrow> string + ('r \<Rightarrow> bool)" where
  "cursor_filter utf8 parseDate created rid cursor = (case decodeCursor utf8 cursor of
     None \<Rightarrow> Inr (\<lambda>_. True)
   | Some k \<Rightarrow> (case parseDate (ck_sortValue k) of
       None \<Rightarrow> Inl ''RangeError: Invalid time value''
     | Some t \<Rightarrow> Inr (\<lambda>r. created r < t * 1000 \<or> created r = t * 1000 \<and> rid r < ck_id k)))"

definition created_key :: "('r \<Rightarrow> int) \<Rightarrow> ('r \<Rightarrow> string) \<Rightarrow> 'r \<Rightarrow> cursor_key" where
  "created_key created rid r = \<lparr>ck_sortValue = toISOString (created r div 1000), ck_id = rid r\<rparr>"

definition list_page :: "('r \<Rightarrow> int) \<Rightarrow> ('r \<Rightarrow> string) \<Rightarrow> nat \<Rightarrow> 'r list \<Rightarrow> 'r list \<times> string option" where
  "list_page created rid limit rows =
    (let hasMore = length rows > limit; data = take limit rows
     in (data, if hasMore \<and> data \<noteq> [] then Some (encodeCursor (created_key created rid (last data))) else None))"

definition keyset_list ::
  "(string \<Rightarrow> string) \<Rightarrow> (string \<Rightarrow> time option) \<Rightarrow> ('r \<Rightarrow> int) \<Rightarrow> ('r \<Rightarrow> string) \<Rightarrow> nat \<Rightarrow> string option \<Rightarrow> 'r list
     \<Rightarrow> string + 'r list \<times> string option" where
  "keyset_list utf8 parseDate created rid limit cursor rows = (case cursor_filter utf8 parseDate created rid cursor of
     Inl e \<Rightarrow> Inl e
   | Inr P \<Rightarrow> Inr (list_page created rid limit (take (limit + 1) (js_sort (newest created rid) (filter P rows)))))"

section \<open>Markets\<close>

record market_view =
  mv_id :: string
  mv_question :: string
  mv_status :: string
  mv_resolutionTime :: time

definition view_of :: "market_row \<Rightarrow> market_view" where
  "view_of m = \<lparr>mv_id = m_id m, mv_question = m_question m, mv_status = m_status m, mv_resolutionTime = m_resolutionTime m\<rparr>"

definition listMarkets ::
  "(string \<Rightarrow> string) \<Rightarrow> (string \<Rightarrow> time option) \<Rightarrow> (market_row \<Rightarrow> int) \<Rightarrow> nat option \<Rightarrow> string option \<Rightarrow> market_row table
     \<Rightarrow> string + market_view list \<times> string option" where
  "listMarkets utf8 parseDate micros limitOption cursor markets =
    (let limit = (case limitOption of None \<Rightarrow> 20 | Some l \<Rightarrow> l)
     in map_sum id (map_prod (map view_of) id)
          (keyset_list utf8 parseDate micros m_id limit cursor (filter (\<lambda>m. \<not> m_archived m) markets)))"

definition getMarketById :: "string \<Rightarrow> market_row table \<Rightarrow> string + (market_view \<times> int) option" where
  "getMarketById i markets =
    (if i = [] then Inl ''Market ID must be a non-empty string''
     else Inr (map_option (\<lambda>m. (view_of m, m_version m)) (select_first (\<lambda>m. m_id m = i) markets)))"

definition UPCOMING_MARKET_STATUSES :: "string list" where
  "UPCOMING_MARKET_STATUSES = [''upcoming'', ''pending'', ''scheduled'']"

definition soonest :: "market_row \<Rightarrow> market_row \<Rightarrow> int" where
  "soonest a b =
    (if m_resolutionTime a \<noteq> m_resolutionTime b then m_resolutionTime a - m_resolutionTime b
     else if m_id a < m_id b then - 1 else if m_id a = m_id b then 0 else 1)"

definition listUpcomingMarkets :: "int option \<Rightarrow> market_row table \<Rightarrow> market_view list" where
  "listUpcomingMarkets limitOption markets =
    (let limit = min (max (case limitOption of None \<Rightarrow> 50 | Some l \<Rightarrow> l) 1) 100
     in map view_of (take (nat limit) (js_sort soonest
          (filter (\<lambda>m. \<not> m_archived m \<and> (m_status m = ''upcoming'' \<or> m_status m \<in> set UPCOMING_MARKET_STATUSES)) markets))))"

subsection \<open>Recommendations\<close>

definition lower_char :: "char \<Rightarrow> char" where
  "lower_char c = (let n = of_char c :: nat in if 65 \<le> n \<and> n \<le> 90 then char_of (n + 32) else c)"

text \<open>The words of \<^verbatim>\<open>toLowerCase().split(/\W+/)\<close>; the empty pieces at the ends are dropped by the length test that follows.\<close>

definition word_char :: "char \<Rightarrow> bool" where
  "word_char c \<longleftrightarrow> (let n = of_char c :: nat in 48 \<le> n \<and> n \<le> 57 \<or> 65 \<le> n \<and> n \<le> 90 \<or> 97 \<le> n \<and> n \<le> 122) \<or> c = CHR ''_''"

fun words_of :: "string \<Rightarrow> string \<Rightarrow> string list" where
  "words_of word [] = [rev word]"
| "words_of word (c # cs) = (if word_char c then words_of (c # word) cs else rev word # words_of [] cs)"

definition keywords_of :: "string list \<Rightarrow> string list" where
  "keywords_of questions = take 10 (filter (\<lambda>w. length w > 3) (concat (map (\<lambda>q. words_of [] (map lower_char q)) questions)))"

text \<open>\<^verbatim>\<open>question ILIKE %k%\<close> for a keyword whose only pattern character can be the underscore, which stands for any character.\<close>

fun like_prefix :: "string \<Rightarrow> string \<Rightarrow> bool" where
  "like_prefix [] s = True"
| "like_prefix (k # ks) [] = False"
| "like_prefix (k # ks) (c # cs) \<longleftrightarrow> (k = CHR ''_'' \<or> lower_char c = lower_char k) \<and> like_prefix ks cs"

fun ilike :: "string \<Rightarrow> string \<Rightarrow> bool" where
  "ilike k [] \<longleftrightarrow> like_prefix k []"
| "ilike k (c # cs) \<longleftrightarrow> like_prefix k (c # cs) \<or> ilike k cs"

text \<open>Here an invalid date in the cursor is ignored.\<close>

definition recommend_filter ::
  "(string \<Rightarrow> string) \<Rightarrow> (string \<Rightarrow> time option) \<Rightarrow> (market_row \<Rightarrow> int) \<Rightarrow> string option \<Rightarrow> market_row \<Rightarrow> bool" where
  "recommend_filter utf8 parseDate micros cursor =
    (case cursor_filter utf8 parseDate micros m_id cursor of Inl _ \<Rightarrow> (\<lambda>_. True) | Inr P \<Rightarrow> P)"

definition getRecommendedMarkets ::
  "(string \<Rightarrow> string) \<Rightarrow> (string \<Rightarrow> time option) \<Rightarrow> (market_row \<Rightarrow> int) \<Rightarrow> string \<Rightarrow> nat option \<Rightarrow> string option
     \<Rightarrow> market_row table \<Rightarrow> prediction_row table \<Rightarrow> market_row list \<times> string option" where
  "getRecommendedMarkets utf8 parseDate micros userId limitOption cursor markets predictions =
    (let limit = (case limitOption of None \<Rightarrow> 20 | Some l \<Rightarrow> l);
         historyIds = map p_marketId (filter (\<lambda>p. p_userId p = userId) predictions);
         keywords = (if historyIds = [] then []
           else keywords_of (map m_question (filter (\<lambda>m. m_id m \<in> set historyIds) markets)));
         candidates = filter (\<lambda>m. \<not> m_archived m \<and> m_status m = ''active'' \<and> m_id m \<notin> set historyIds
           \<and> recommend_filter utf8 parseDate micros cursor m) markets;
         top = (\<lambda>ms. take (limit + 1) (js_sort (newest micros m_id) ms));
         matching = (if keywords = [] then [] else top (filter (\<lambda>m. list_ex (\<lambda>k. ilike k (m_question m)) keywords) candidates));
         rows = (if matching = [] then top candidates else matching)
     in list_page micros m_id limit rows)"

section \<open>Watchers of a market\<close>

record watcher_entry =
  we_id :: string
  we_marketId :: string
  we_userId :: string
  we_createdAt :: int

record watcher_view =
  wv_id :: string
  wv_marketId :: string
  wv_userId :: string
  wv_stellarAddress :: "string option"
  wv_createdAt :: time

datatype watcher_error = NotFoundError string | InvalidTime

definition watcher_view_of :: "user_row table \<Rightarrow> watcher_entry \<Rightarrow> watcher_view" where
  "watcher_view_of users w = \<lparr>wv_id = we_id w, wv_marketId = we_marketId w, wv_userId = we_userId w,
     wv_stellarAddress = map_option u_stellarAddress (select_first (\<lambda>u. u_id u = we_userId w) users),
     wv_createdAt = we_createdAt w div 1000\<rparr>"

definition assertMarketExists :: "string \<Rightarrow> market_row table \<Rightarrow> watcher_error option" where
  "assertMarketExists marketId markets =
    (if select_first (\<lambda>m. m_id m = marketId) markets = None then Some (NotFoundError marketId) else None)"

definition listMarketWatchers ::
  "(string \<Rightarrow> string) \<Rightarrow> (string \<Rightarrow> time option) \<Rightarrow> string \<Rightarrow> raw_limit \<Rightarrow> string option
     \<Rightarrow> market_row table \<Rightarrow> user_row table \<Rightarrow> watcher_entry table
     \<Rightarrow> watcher_error + watcher_view list \<times> string option \<times> nat" where
  "listMarketWatchers utf8 parseDate marketId limit cursor markets users watchers =
    (case assertMarketExists marketId markets of
       Some e \<Rightarrow> Inl e
     | None \<Rightarrow>
         (let mine = filter (\<lambda>w. we_marketId w = marketId) watchers
          in case keyset_list utf8 parseDate we_createdAt we_id (clampLimit limit) cursor mine of
               Inl _ \<Rightarrow> Inl InvalidTime
             | Inr (data, nextCursor) \<Rightarrow> Inr (map (watcher_view_of users) data, nextCursor, length mine)))"

text \<open>The first query of \<^verbatim>\<open>addMarketWatcher\<close>, and its insert when it found nothing.\<close>

definition find_watcher :: "string \<Rightarrow> string \<Rightarrow> watcher_entry table \<Rightarrow> watcher_entry option" where
  "find_watcher marketId userId watchers = select_first (\<lambda>w. we_marketId w = marketId \<and> we_userId w = userId) watchers"

definition insert_watcher :: "string \<Rightarrow> int \<Rightarrow> string \<Rightarrow> string \<Rightarrow> watcher_entry table \<Rightarrow> watcher_entry \<times> watcher_entry table" where
  "insert_watcher newId now marketId userId watchers =
    (let w = \<lparr>we_id = newId, we_marketId = marketId, we_userId = userId, we_createdAt = now\<rparr> in (w, watchers @ [w]))"

definition addMarketWatcher ::
  "string \<Rightarrow> int \<Rightarrow> string \<Rightarrow> string \<Rightarrow> market_row table \<Rightarrow> user_row table \<Rightarrow> watcher_entry table
     \<Rightarrow> (watcher_error + watcher_view) \<times> watcher_entry table" where
  "addMarketWatcher newId now marketId userId markets users watchers = (case assertMarketExists marketId markets of
     Some e \<Rightarrow> (Inl e, watchers)
   | None \<Rightarrow> (case find_watcher marketId userId watchers of
       Some w \<Rightarrow> (Inr (watcher_view_of users w), watchers)
     | None \<Rightarrow> (case insert_watcher newId now marketId userId watchers of
         (w, watchers') \<Rightarrow> (Inr (watcher_view_of users w), watchers'))))"

definition removeMarketWatcher ::
  "string \<Rightarrow> string \<Rightarrow> market_row table \<Rightarrow> watcher_entry table \<Rightarrow> (watcher_error + bool) \<times> watcher_entry table" where
  "removeMarketWatcher marketId userId markets watchers = (case assertMarketExists marketId markets of
     Some e \<Rightarrow> (Inl e, watchers)
   | None \<Rightarrow>
       (let hit = (\<lambda>w. we_marketId w = marketId \<and> we_userId w = userId)
        in (Inr (filter hit watchers \<noteq> []), filter (\<lambda>w. \<not> hit w) watchers)))"

section \<open>Users\<close>

definition listUsers ::
  "(string \<Rightarrow> string) \<Rightarrow> (string \<Rightarrow> time option) \<Rightarrow> (user_row \<Rightarrow> int) \<Rightarrow> raw_limit option \<Rightarrow> string option \<Rightarrow> user_row table
     \<Rightarrow> string + user_row list \<times> string option" where
  "listUsers utf8 parseDate micros limitOption cursor users =
    (let limit = (case limitOption of None \<Rightarrow> DEFAULT_PAGE_SIZE | Some l \<Rightarrow> clampLimit l)
     in keyset_list utf8 parseDate micros u_id limit cursor users)"

record current_profile =
  cp_id :: string
  cp_stellarAddress :: string
  cp_createdAt :: time
  cp_predictionCount :: nat
  cp_claimCount :: nat

definition getCurrentUserProfile :: "string \<Rightarrow> user_row table \<Rightarrow> prediction_row table \<Rightarrow> current_profile option" where
  "getCurrentUserProfile userId users predictions =
     map_option (\<lambda>u. \<lparr>cp_id = u_id u, cp_stellarAddress = u_stellarAddress u, cp_createdAt = u_createdAt u,
         cp_predictionCount = length (filter (\<lambda>p. p_userId p = userId) predictions), cp_claimCount = 0\<rparr>)
       (select_first (\<lambda>u. u_id u = userId) users)"

definition getUserByAddress :: "string \<Rightarrow> user_row table \<Rightarrow> user_row option" where
  "getUserByAddress address users = select_first (\<lambda>u. u_stellarAddress u = address) users"

section \<open>Notifications\<close>

record notification =
  nt_id :: string
  nt_userId :: string
  nt_type :: string
  nt_title :: string
  nt_body :: string
  nt_data :: string
  nt_readAt :: "time option"
  nt_createdAt :: int

text \<open>\<open>ids\<close> and \<open>everything\<close> are the optional parameters; the answer counts the updated rows.\<close>

definition markNotificationsAsRead ::
  "time \<Rightarrow> string \<Rightarrow> string list option \<Rightarrow> bool \<Rightarrow> notification table \<Rightarrow> notification table \<times> nat" where
  "markNotificationsAsRead now userId ids everything rows =
    (let upd = (\<lambda>P. (update_where P (\<lambda>n. n\<lparr>nt_readAt := Some now\<rparr>) rows, length (filter P rows)));
         unread = (\<lambda>n. nt_userId n = userId \<and> nt_readAt n = None)
     in if everything then upd unread
        else (case ids of
          None \<Rightarrow> (rows, 0)
        | Some is \<Rightarrow> if is = [] then (rows, 0) else upd (\<lambda>n. unread n \<and> nt_id n \<in> set is)))"

definition listNotifications ::
  "(string \<Rightarrow> string) \<Rightarrow> (string \<Rightarrow> time option) \<Rightarrow> string \<Rightarrow> raw_limit \<Rightarrow> string option \<Rightarrow> notification table
     \<Rightarrow> string + notification list \<times> string option" where
  "listNotifications utf8 parseDate userId limit cursor rows =
     keyset_list utf8 parseDate nt_createdAt nt_id (clampLimit limit) cursor (filter (\<lambda>n. nt_userId n = userId) rows)"

definition BATCH_SIZE :: nat where "BATCH_SIZE = 500"

text \<open>\<open>newId\<close> and \<open>created\<close> give the identifier and the time of the \<open>n\<close>-th row; \<open>fail_at\<close> is the batch whose insert fails, if
  one does, after which the call throws with the earlier batches stored.\<close>

definition notification_for :: "(nat \<Rightarrow> string) \<Rightarrow> (nat \<Rightarrow> int) \<Rightarrow> string \<Rightarrow> string \<Rightarrow> string \<Rightarrow> string \<Rightarrow> nat \<Rightarrow> user_row \<Rightarrow> notification" where
  "notification_for newId created title body kind data n u =
     \<lparr>nt_id = newId n, nt_userId = u_id u, nt_type = kind, nt_title = title, nt_body = body, nt_data = data,
      nt_readAt = None, nt_createdAt = created n\<rparr>"

function insert_batches :: "nat option \<Rightarrow> notification list \<Rightarrow> notification table \<Rightarrow> notification table \<times> bool" where
  "insert_batches fail_at new rows =
    (if new = [] then (rows, True)
     else if fail_at = Some 0 then (rows, False)
     else insert_batches (map_option (\<lambda>k. k - 1) fail_at) (drop BATCH_SIZE new) (rows @ take BATCH_SIZE new))"
  by pat_completeness auto

termination
  by (relation "measure (\<lambda>(f, new, rows). length new)") (auto simp: BATCH_SIZE_def)

declare insert_batches.simps [simp del]

definition broadcastNotification ::
  "(nat \<Rightarrow> string) \<Rightarrow> (nat \<Rightarrow> int) \<Rightarrow> nat option \<Rightarrow> string \<Rightarrow> string \<Rightarrow> string option \<Rightarrow> string option
     \<Rightarrow> user_row table \<Rightarrow> notification table \<Rightarrow> notification table \<times> (nat \<times> nat) option" where
  "broadcastNotification newId created fail_at title body kind data users rows =
    (let k = (case kind of None \<Rightarrow> ''system_broadcast'' | Some t \<Rightarrow> t);
         d = (case data of None \<Rightarrow> ''{}'' | Some x \<Rightarrow> x);
         new = map (\<lambda>(n, u). notification_for newId created title body k d n u) (enumerate 0 users)
     in if users = [] then (rows, Some (0, 0))
        else (case insert_batches fail_at new rows of
          (rows', ok) \<Rightarrow> (rows', if ok then Some (length users, length new) else None)))"

section \<open>Following the cursors\<close>

fun keyset_walk :: "nat \<Rightarrow> (string option \<Rightarrow> string + 'r list \<times> string option) \<Rightarrow> string option \<Rightarrow> 'r list list" where
  "keyset_walk 0 page cursor = []"
| "keyset_walk (Suc n) page cursor = (case page cursor of
     Inl _ \<Rightarrow> []
   | Inr (data, next) \<Rightarrow> data # (case next of None \<Rightarrow> [] | Some c \<Rightarrow> keyset_walk n page (Some c)))"

definition comes_after :: "('r \<Rightarrow> int) \<Rightarrow> ('r \<Rightarrow> string) \<Rightarrow> 'r \<Rightarrow> 'r \<Rightarrow> bool" where
  "comes_after created rid a b \<longleftrightarrow> created b < created a \<or> created b = created a \<and> rid b < rid a"

text \<open>Two rows may share a millisecond only if both lie on it.\<close>

definition on_the_millisecond :: "('r \<Rightarrow> int) \<Rightarrow> 'r list \<Rightarrow> bool" where
  "on_the_millisecond created rows \<longleftrightarrow> (\<forall>a \<in> set rows. \<forall>b \<in> set rows. a \<noteq> b \<longrightarrow> created a div 1000 = created b div 1000 \<longrightarrow>
     created a mod 1000 = 0 \<and> created b mod 1000 = 0)"

definition cursors_ok :: "(string \<Rightarrow> string) \<Rightarrow> (string \<Rightarrow> time option) \<Rightarrow> ('r \<Rightarrow> int) \<Rightarrow> ('r \<Rightarrow> string) \<Rightarrow> 'r list \<Rightarrow> bool" where
  "cursors_ok utf8 parseDate created rid rows \<longleftrightarrow> (\<forall>r \<in> set rows. key_ok utf8 (created_key created rid r)
     \<and> parseDate (toISOString (created r div 1000)) = Some (created r div 1000))"

lemma newest_consistent: "consistent (newest created rid)"
  by (auto simp: consistent_def newest_def split: if_splits)

lemma newest_sorted:
  assumes "distinct (map rid rows)"
  shows "sorted_wrt (comes_after created rid) (js_sort (newest created rid) rows)"
proof -
  have "mset (map rid (js_sort (newest created rid) rows)) = mset (map rid rows)" by simp
  then have "distinct (map rid (js_sort (newest created rid) rows))" using assms mset_eq_imp_distinct_iff by blast
  from sorted_wrt_distinct [OF sorted_js_sort [OF newest_consistent] this] show ?thesis
    by (rule sorted_wrt_mono_rel [rotated]) (auto simp: newest_def comes_after_def split: if_splits)
qed

lemma keyset_page_rest:
  assumes "sorted_wrt (comes_after created rid) (seen @ rest)" and "js_sort (newest created rid) rows = seen @ rest"
    and "on_the_millisecond created rows" and "cursors_ok utf8 parseDate created rid rows" and "0 < limit"
    and "cursor = (if seen = [] then None else Some (encodeCursor (created_key created rid (last seen))))"
  shows "keyset_list utf8 parseDate created rid limit cursor rows = Inr (take limit rest,
    if limit < length rest then Some (encodeCursor (created_key created rid (last (take limit rest)))) else None)"
proof -
  have set_rows: "set rows = set (seen @ rest)" using arg_cong [OF assms(2), of set] by simp
  have "\<exists>P. cursor_filter utf8 parseDate created rid cursor = Inr P \<and> filter P (seen @ rest) = rest"
  proof (cases "seen = []")
    case True
    then show ?thesis using assms(6) by (simp add: cursor_filter_def decodeCursor_def)
  next
    case False
    define z where "z = last seen"
    define t where "t = created z div 1000"
    have z: "z \<in> set seen" using False by (simp add: z_def)
    then have ok: "key_ok utf8 (created_key created rid z)" "parseDate (toISOString t) = Some t"
      using assms(4) set_rows by (simp_all add: cursors_ok_def t_def)
    let ?P = "\<lambda>r. created r < t * 1000 \<or> created r = t * 1000 \<and> rid r < rid z"
    have f: "cursor_filter utf8 parseDate created rid cursor = Inr ?P"
      using False assms(6) decode_encode [OF ok(1)] ok(2)
      by (simp add: cursor_filter_def created_key_def z_def [symmetric] t_def [symmetric])
    obtain xs where seen: "seen = xs @ [z]" using False by (metis append_butlast_last_id z_def)
    have tz: "t * 1000 \<le> created z" by (simp add: t_def)
    have no: "\<not> ?P x" if x: "x \<in> set seen" for x
    proof (cases "x = z")
      case True
      then show ?thesis using tz by auto
    next
      case False
      then have "comes_after created rid x z" using x assms(1) by (simp add: seen sorted_wrt_append)
      then show ?thesis using tz by (auto simp: comes_after_def)
    qed
    have yes: "?P y" if y: "y \<in> set rest" for y
    proof -
      have after: "comes_after created rid z y" using y assms(1) by (simp add: seen sorted_wrt_append)
      show ?thesis
      proof (cases "created y div 1000 = t")
        case False
        have "created y \<le> created z" using after by (auto simp: comes_after_def)
        then have "created y div 1000 \<le> t" unfolding t_def by (rule zdiv_mono1) simp
        then show ?thesis using False by linarith
      next
        case True
        have "y \<noteq> z" using after by (auto simp: comes_after_def)
        then have "created y mod 1000 = 0" "created z mod 1000 = 0"
          using assms(3) True y z set_rows unfolding on_the_millisecond_def t_def by auto
        then have "created y = t * 1000" "created z = t * 1000"
          using True div_mult_mod_eq [of "created y" 1000] div_mult_mod_eq [of "created z" 1000] unfolding t_def by linarith+
        then show ?thesis using after by (simp add: comes_after_def)
      qed
    qed
    have "filter ?P seen = []" using no by (intro filter_False) blast
    moreover have "filter ?P rest = rest" using yes by (intro filter_True) blast
    ultimately have "filter ?P (seen @ rest) = rest" unfolding filter_append by (simp only: append_Nil)
    then show ?thesis using f by blast
  qed
  then obtain P where P: "cursor_filter utf8 parseDate created rid cursor = Inr P" "filter P (seen @ rest) = rest" by blast
  have "js_sort (newest created rid) (filter P rows) = rest"
    unfolding js_sort_filter [OF newest_consistent] assms(2) by (rule P(2))
  then show ?thesis using assms(5) by (auto simp: keyset_list_def P(1) list_page_def Let_def min_def)
qed

lemma keyset_walk_rest:
  assumes "0 < limit" and "js_sort (newest created rid) rows = seen @ rest" and "sorted_wrt (comes_after created rid) (seen @ rest)"
    and "on_the_millisecond created rows" and "cursors_ok utf8 parseDate created rid rows"
  shows "length rest < n \<Longrightarrow> cursor = (if seen = [] then None else Some (encodeCursor (created_key created rid (last seen)))) \<Longrightarrow>
    concat (keyset_walk n (\<lambda>c. keyset_list utf8 parseDate created rid limit c rows) cursor) = rest"
  using assms(2,3)
proof (induction n arbitrary: seen rest cursor)
  case (Suc n)
  let ?page = "\<lambda>c. keyset_list utf8 parseDate created rid limit c rows"
  note page = keyset_page_rest [OF Suc.prems(4,3) assms(4,5,1) Suc.prems(2)]
  show ?case
  proof (cases "limit < length rest")
    case False
    then show ?thesis by (simp add: page)
  next
    case True
    have ne: "take limit rest \<noteq> []" using True assms(1) by auto
    let ?next = "Some (encodeCursor (created_key created rid (last (take limit rest))))"
    have "concat (keyset_walk n ?page ?next) = drop limit rest"
    proof (rule Suc.IH [of _ _ "seen @ take limit rest"])
      show "length (drop limit rest) < n" using Suc.prems(1) True assms(1) by simp
      show "?next = (if seen @ take limit rest = [] then None
          else Some (encodeCursor (created_key created rid (last (seen @ take limit rest)))))" using ne by simp
    qed (use Suc.prems in simp_all)
    then show ?thesis using True by (simp add: page)
  qed
qed simp

text \<open>Paging by \<^verbatim>\<open>(created_at, id)\<close> with a cursor: a client that follows the cursors gets every row exactly once, newest first.\<close>

lemma keyset_walk_complete:
  assumes "distinct (map rid rows)" and "on_the_millisecond created rows" and "cursors_ok utf8 parseDate created rid rows" and "0 < limit"
    and "length rows < n"
  shows "concat (keyset_walk n (\<lambda>c. keyset_list utf8 parseDate created rid limit c rows) None) = js_sort (newest created rid) rows"
proof -
  have "length (js_sort (newest created rid) rows) < n" using assms(5) by (metis mset_js_sort size_mset)
  moreover have "sorted_wrt (comes_after created rid) (js_sort (newest created rid) rows)" by (rule newest_sorted [OF assms(1)])
  ultimately show ?thesis
    using keyset_walk_rest [where seen = "[]" and rest = "js_sort (newest created rid) rows" and cursor = None, OF assms(4) _ _ assms(2,3)]
    by simp
qed

lemma walk_views:
  "keyset_walk n (\<lambda>c. map_sum id (map_prod (map f) id) (page c)) cursor = map (map f) (keyset_walk n page cursor)"
  by (induction n arbitrary: cursor) (auto split: sum.split option.split prod.split)

text \<open>A client that follows the cursors of the market list gets every market that is not archived exactly once, newest
  first, within one request more than there are markets, provided that no two markets were stored within the same
  millisecond unless exactly on it (the cursor has millisecond precision, the column microseconds). Identifiers are
  unique, and reading a printed ISO time gives the time back.\<close>

lemma list_markets_walk:
  assumes "distinct (map m_id markets)" and "on_the_millisecond micros markets" and "cursors_ok utf8 parseDate micros m_id markets"
    and "0 < limit" and "length markets < n"
  shows "concat (keyset_walk n (\<lambda>c. listMarkets utf8 parseDate micros (Some limit) c markets) None) =
      map view_of (js_sort (newest micros m_id) (filter (\<lambda>m. \<not> m_archived m) markets))
    \<and> sorted_wrt (comes_after micros m_id) (js_sort (newest micros m_id) (filter (\<lambda>m. \<not> m_archived m) markets))"
proof
  let ?live = "filter (\<lambda>m. \<not> m_archived m) markets"
  have live: "distinct (map m_id ?live)" "on_the_millisecond micros ?live" "cursors_ok utf8 parseDate micros m_id ?live"
    using assms(1-3) by (auto simp: distinct_map_filter on_the_millisecond_def cursors_ok_def)
  have "length ?live < n" using assms(5) by (rule order.strict_trans1 [OF length_filter_le])
  note walk = keyset_walk_complete [OF live assms(4) this]
  have "(\<lambda>c. listMarkets utf8 parseDate micros (Some limit) c markets) =
      (\<lambda>c. map_sum id (map_prod (map view_of) id) (keyset_list utf8 parseDate micros m_id limit c ?live))"
    by (simp add: fun_eq_iff listMarkets_def)
  then show "concat (keyset_walk n (\<lambda>c. listMarkets utf8 parseDate micros (Some limit) c markets) None) =
      map view_of (js_sort (newest micros m_id) ?live)"
    by (simp only: walk_views map_concat [symmetric] walk)
  show "sorted_wrt (comes_after micros m_id) (js_sort (newest micros m_id) ?live)" by (rule newest_sorted [OF live(1)])
qed

text \<open>What happens without that condition: after a page that ends inside a millisecond, the other rows of that millisecond
  that follow are on no page.\<close>

lemma same_millisecond_lost:
  assumes "keyset_list utf8 parseDate created rid limit (Some (encodeCursor (created_key created rid z))) rows = Inr (data, next)"
    and "key_ok utf8 (created_key created rid z)" and "parseDate (toISOString (created z div 1000)) = Some (created z div 1000)"
    and "created r div 1000 = created z div 1000" and "created r mod 1000 \<noteq> 0"
  shows "r \<notin> set data"
proof
  assume "r \<in> set data"
  then have "r \<in> set (filter (\<lambda>r. created r < created z div 1000 * 1000 \<or> created r = created z div 1000 * 1000 \<and> rid r < rid z) rows)"
    using assms(1) decode_encode [OF assms(2)] assms(3)
    by (auto simp: keyset_list_def cursor_filter_def created_key_def list_page_def Let_def dest!: in_set_takeD split: if_splits)
  then show False using assms(4,5) div_mult_mod_eq [of "created r" 1000] by auto
qed

section \<open>Races and batches\<close>

text \<open>One request after the other a user watches a market at most once; two that overlap both insert, since the index on the
  pair is not unique.\<close>

definition watching :: "string \<Rightarrow> string \<Rightarrow> watcher_entry table \<Rightarrow> nat" where
  "watching marketId userId watchers = length (filter (\<lambda>w. we_marketId w = marketId \<and> we_userId w = userId) watchers)"

lemma add_watcher_once:
  assumes "\<forall>m u. watching m u watchers \<le> 1"
  shows "watching m u (snd (addMarketWatcher newId now marketId userId markets users watchers)) \<le> 1"
proof (cases "find_watcher marketId userId watchers")
  case None
  then have "filter (\<lambda>w. we_marketId w = marketId \<and> we_userId w = userId) watchers = []"
    by (simp add: find_watcher_def select_first_None filter_empty_conv)
  then show ?thesis
    using assms by (auto simp: addMarketWatcher_def assertMarketExists_def None insert_watcher_def Let_def watching_def)
next
  case (Some w)
  then show ?thesis using assms by (simp add: addMarketWatcher_def assertMarketExists_def)
qed

lemma overlapping_watchers:
  assumes "find_watcher m u watchers = None"
  shows "watching m u (snd (insert_watcher b t' m u (snd (insert_watcher a t m u watchers)))) = 2"
  using assms by (simp add: find_watcher_def select_first_None watching_def insert_watcher_def Let_def filter_empty_conv)

lemma insert_batches_all: "insert_batches None new rows = (rows @ new, True)"
proof (induction "length new" arbitrary: new rows rule: less_induct)
  case less
  show ?case
  proof (cases "new = []")
    case False
    then have "length (drop BATCH_SIZE new) < length new" by (simp add: BATCH_SIZE_def)
    then show ?thesis using less False by (subst insert_batches.simps) simp
  qed (simp add: insert_batches.simps)
qed

text \<open>Without a failure a broadcast adds one row per user, and a failing batch leaves the rows of the batches before it.\<close>

lemma insert_batches_some: "insert_batches (Some k) new rows = (rows @ take (k * BATCH_SIZE) new, length new \<le> k * BATCH_SIZE)"
proof (induction k arbitrary: new rows)
  case 0
  then show ?case by (simp add: insert_batches.simps)
next
  case (Suc k)
  show ?case
  proof (cases "new = []")
    case False
    then show ?thesis by (subst insert_batches.simps) (auto simp: Suc.IH take_add add.commute)
  qed (simp add: insert_batches.simps)
qed

lemma broadcast_reaches_all:
  "fst (broadcastNotification newId created None title body kind data users rows) =
     rows @ map (\<lambda>(n, u). notification_for newId created title body (case kind of None \<Rightarrow> ''system_broadcast'' | Some t \<Rightarrow> t)
       (case data of None \<Rightarrow> ''{}'' | Some x \<Rightarrow> x) n u) (enumerate 0 users)"
  by (simp add: broadcastNotification_def insert_batches_all Let_def)

end
