(* ===== verification/Notification_Prefs.thy ===== *)
theory Notification_Prefs
  imports Prelude
begin

text \<open>
  Notification preferences (\<^verbatim>\<open>src/services/notificationPrefs.ts\<close>): a row per user, category and channel that was ever
  set; what was never set counts as enabled. The text \<^verbatim>\<open>category:channel\<close> that keys the maps of the code is the pair.
  \<open>preferences_after_patch\<close>: what a patch answers and what is asked for later.
\<close>

datatype notification_category = MarketResolved | ClaimReady | DisputeOpened
datatype notification_channel = EmailChannel | WebhookChannel

definition notificationCategories :: "notification_category list" where
  "notificationCategories = [MarketResolved, ClaimReady, DisputeOpened]"

definition notificationChannels :: "notification_channel list" where
  "notificationChannels = [EmailChannel, WebhookChannel]"

record notification_preference =
  np_category :: notification_category
  np_channel :: notification_channel
  np_enabled :: bool

record preference_row = notification_preference +
  pw_userId :: string
  pw_updatedAt :: time

definition same_slot :: "string \<Rightarrow> notification_category \<Rightarrow> notification_channel \<Rightarrow> preference_row \<Rightarrow> bool" where
  "same_slot userId category channel r \<longleftrightarrow> pw_userId r = userId \<and> np_category r = category \<and> np_channel r = channel"

section \<open>Repository\<close>

definition listByUser :: "string \<Rightarrow> preference_row table \<Rightarrow> preference_row list" where
  "listByUser userId rows = filter (\<lambda>r. pw_userId r = userId) rows"

definition upsert_preference :: "time \<Rightarrow> string \<Rightarrow> notification_preference \<Rightarrow> preference_row table \<Rightarrow> preference_row table" where
  "upsert_preference now userId p rows =
    (if list_ex (same_slot userId (np_category p) (np_channel p)) rows
     then update_where (same_slot userId (np_category p) (np_channel p)) (\<lambda>r. r\<lparr>np_enabled := np_enabled p, pw_updatedAt := now\<rparr>) rows
     else rows @ [notification_preference.extend p \<lparr>pw_userId = userId, pw_updatedAt = now\<rparr>])"

definition upsertMany :: "time \<Rightarrow> string \<Rightarrow> notification_preference list \<Rightarrow> preference_row table \<Rightarrow> preference_row table" where
  "upsertMany now userId ps rows = fold (upsert_preference now userId) ps rows"

definition findOne :: "string \<Rightarrow> notification_category \<Rightarrow> notification_channel \<Rightarrow> preference_row table \<Rightarrow> preference_row option" where
  "findOne userId category channel rows = select_first (same_slot userId category channel) rows"

section \<open>Service\<close>

definition preference_key :: "'a notification_preference_scheme \<Rightarrow> notification_category \<times> notification_channel" where
  "preference_key p = (np_category p, np_channel p)"

definition buildCompleteMatrix :: "preference_row list \<Rightarrow> notification_preference list" where
  "buildCompleteMatrix rows =
    (let rowMap = fold (\<lambda>r m. AList.update (preference_key r) (np_enabled r) m) rows []
     in concat (map (\<lambda>category. map (\<lambda>channel.
          \<lparr>np_category = category, np_channel = channel,
           np_enabled = (case map_of rowMap (category, channel) of None \<Rightarrow> True | Some e \<Rightarrow> e)\<rparr>) notificationChannels)
        notificationCategories))"

definition getNotificationPreferences :: "string \<Rightarrow> preference_row table \<Rightarrow> notification_preference list" where
  "getNotificationPreferences userId rows = buildCompleteMatrix (listByUser userId rows)"

definition dedupe_updates :: "notification_preference list \<Rightarrow> notification_preference list" where
  "dedupe_updates updates = map snd (fold (\<lambda>u m. AList.update (preference_key u) u m) updates [])"

definition patchNotificationPreferences ::
  "time \<Rightarrow> string \<Rightarrow> notification_preference list \<Rightarrow> preference_row table \<Rightarrow> notification_preference list \<times> preference_row table" where
  "patchNotificationPreferences now userId updates rows =
    (let rows' = upsertMany now userId (dedupe_updates updates) rows in (getNotificationPreferences userId rows', rows'))"

definition isNotificationChannelEnabled :: "string \<Rightarrow> notification_category \<Rightarrow> notification_channel \<Rightarrow> preference_row table \<Rightarrow> bool" where
  "isNotificationChannelEnabled userId category channel rows =
    (case findOne userId category channel rows of None \<Rightarrow> True | Some r \<Rightarrow> np_enabled r)"

section \<open>What a patch does\<close>

definition slots_unique :: "preference_row table \<Rightarrow> bool" where
  "slots_unique rows \<longleftrightarrow> distinct (map (\<lambda>r. (pw_userId r, preference_key r)) rows)"

definition last_update :: "notification_preference list \<Rightarrow> notification_category \<Rightarrow> notification_channel \<Rightarrow> bool option" where
  "last_update updates category channel =
     map_option np_enabled (select_first (\<lambda>u. preference_key u = (category, channel)) (rev updates))"

lemma upsert_enabled:
  "isNotificationChannelEnabled v c h (upsert_preference now u p rows) =
    (if v = u \<and> preference_key p = (c, h) then np_enabled p else isNotificationChannelEnabled v c h rows)"
proof (cases "list_ex (same_slot u (np_category p) (np_channel p)) rows")
  case True
  have keep: "same_slot v' c' h' (r\<lparr>np_enabled := e, pw_updatedAt := t\<rparr>) = same_slot v' c' h' r" for v' c' h' r e t
    by (simp add: same_slot_def)
  have "findOne v' c' h' (update_where Q (\<lambda>r. r\<lparr>np_enabled := e, pw_updatedAt := now\<rparr>) rows) =
      map_option (\<lambda>r. if Q r then r\<lparr>np_enabled := e, pw_updatedAt := now\<rparr> else r) (findOne v' c' h' rows)" for Q e v' c' h'
    unfolding findOne_def by (induction rows) (auto simp: keep)
  note found = this
  show ?thesis
  proof (cases "v = u \<and> preference_key p = (c, h)")
    case hit: True
    then have "findOne v c h rows \<noteq> None"
      using True by (auto simp: findOne_def select_first_None list_ex_iff preference_key_def)
    then obtain r where r: "findOne v c h rows = Some r" by blast
    then have "same_slot v c h r" unfolding findOne_def by (blast dest: select_first_SomeD)
    then show ?thesis
      using True hit r by (simp add: isNotificationChannelEnabled_def upsert_preference_def found preference_key_def)
  next
    case False
    have "\<not> same_slot u (np_category p) (np_channel p) r" if "findOne v c h rows = Some r" for r
    proof -
      have "same_slot v c h r" using that unfolding findOne_def by (blast dest: select_first_SomeD)
      then show ?thesis using False by (auto simp: same_slot_def preference_key_def)
    qed
    then show ?thesis
      using True False by (auto simp: isNotificationChannelEnabled_def upsert_preference_def found split: option.split)
  qed
next
  case False
  then have none: "findOne u (np_category p) (np_channel p) rows = None" by (auto simp: findOne_def select_first_None list_ex_iff)
  let ?r = "notification_preference.extend p \<lparr>pw_userId = u, pw_updatedAt = now\<rparr>"
  have "findOne v c h (rows @ [?r]) = (case findOne v c h rows of None \<Rightarrow> if v = u \<and> preference_key p = (c, h) then Some ?r else None
      | Some x \<Rightarrow> Some x)"
    by (auto simp: findOne_def select_first_append same_slot_def preference_key_def notification_preference.defs split: option.split)
  then show ?thesis
    using False none
    by (auto simp: isNotificationChannelEnabled_def upsert_preference_def preference_key_def notification_preference.defs split: option.splits)
qed

lemma upsertMany_enabled:
  assumes "distinct (map preference_key ps)"
  shows "isNotificationChannelEnabled v c h (upsertMany now u ps rows) =
    (case select_first (\<lambda>p. preference_key p = (c, h)) ps of
       Some p \<Rightarrow> if v = u then np_enabled p else isNotificationChannelEnabled v c h rows
     | None \<Rightarrow> isNotificationChannelEnabled v c h rows)"
  using assms
proof (induction ps arbitrary: rows)
  case (Cons p ps)
  then have IH: "isNotificationChannelEnabled v c h (upsertMany now u ps rows') =
    (case select_first (\<lambda>p. preference_key p = (c, h)) ps of
       Some p \<Rightarrow> if v = u then np_enabled p else isNotificationChannelEnabled v c h rows'
     | None \<Rightarrow> isNotificationChannelEnabled v c h rows')" for rows' by simp
  have step: "upsertMany now u (p # ps) rows = upsertMany now u ps (upsert_preference now u p rows)" by (simp add: upsertMany_def)
  show ?case
  proof (cases "preference_key p = (c, h)")
    case True
    then have "select_first (\<lambda>p. preference_key p = (c, h)) ps = None"
      using Cons.prems by (force simp: select_first_None)
    then show ?thesis using True by (simp add: step IH upsert_enabled)
  next
    case False
    then show ?thesis by (auto simp: step IH upsert_enabled split: option.split)
  qed
qed (simp add: upsertMany_def)

lemma rowMap_lookup:
  "map_of (fold (\<lambda>r m. AList.update (preference_key r) (f r) m) rs []) k =
     map_option f (select_first (\<lambda>r. preference_key r = k) (rev rs))"
proof (induction rs rule: rev_induct)
  case (snoc r rs)
  then show ?case by (simp add: update_conv')
qed simp

lemma rowMap_distinct: "distinct (map fst (fold (\<lambda>r m. AList.update (preference_key r) (f r) m) rs []))"
  by (induction rs rule: rev_induct) (simp_all add: distinct_update)

lemma rowMap_keys: "list_all (\<lambda>(k, u). preference_key u = k) (fold (\<lambda>u m. AList.update (preference_key u) u m) us [])"
proof (induction us rule: rev_induct)
  case (snoc u us)
  have "list_all (\<lambda>(k, u). preference_key u = k) xs \<Longrightarrow> list_all (\<lambda>(k, u). preference_key u = k) (AList.update (preference_key u) u xs)" for xs
    by (induction xs) auto
  with snoc show ?case by simp
qed simp

lemma map_of_select: "list_all (\<lambda>(k, u). f u = k) kvs \<Longrightarrow> select_first (\<lambda>u. f u = k) (map snd kvs) = map_of kvs k"
  by (induction kvs) auto

lemma dedupe_spec:
  "distinct (map preference_key (dedupe_updates us))"
  "select_first (\<lambda>u. preference_key u = k) (dedupe_updates us) = select_first (\<lambda>u. preference_key u = k) (rev us)"
proof -
  let ?m = "fold (\<lambda>u m. AList.update (preference_key u) u m) us []"
  have "map preference_key (map snd ?m) = map fst ?m" using rowMap_keys [of us] by (auto simp: list_all_iff)
  then show "distinct (map preference_key (dedupe_updates us))" unfolding dedupe_updates_def using rowMap_distinct by metis
  show "select_first (\<lambda>u. preference_key u = k) (dedupe_updates us) = select_first (\<lambda>u. preference_key u = k) (rev us)"
    unfolding dedupe_updates_def using map_of_select [OF rowMap_keys, of k us] rowMap_lookup [of "\<lambda>u. u" us k] by (simp add: option.map_ident)
qed

lemma select_first_rev:
  "distinct (map f rs) \<Longrightarrow> select_first (\<lambda>r. f r = k) (rev rs) = select_first (\<lambda>r. f r = k) rs"
proof (induction rs)
  case (Cons r rs)
  then have IH: "select_first (\<lambda>r. f r = k) (rev rs) = select_first (\<lambda>r. f r = k) rs" by simp
  have "select_first (\<lambda>r. f r = k) rs = None" if "f r = k"
    using Cons.prems that unfolding select_first_None by (metis distinct.simps(2) image_eqI list.set_map list.simps(9))
  then show ?case using IH by (auto simp: select_first_append split: option.split)
qed simp

lemma matrix_entry:
  assumes "slots_unique rows"
  shows "(case map_of (fold (\<lambda>r m. AList.update (preference_key r) (np_enabled r) m) (listByUser userId rows) []) (c, h) of
      None \<Rightarrow> True | Some e \<Rightarrow> e) = isNotificationChannelEnabled userId c h rows"
proof -
  have d: "distinct (map (\<lambda>r. (pw_userId r, preference_key r)) (filter (\<lambda>r. pw_userId r = userId) rows))"
    using assms by (simp add: slots_unique_def distinct_map_filter)
  have "select_first (\<lambda>r. preference_key r = (c, h)) (rev (filter (\<lambda>r. pw_userId r = userId) rows)) =
      select_first (\<lambda>r. preference_key r = (c, h)) (filter (\<lambda>r. pw_userId r = userId) rows)"
    by (rule select_first_rev) (use d in \<open>auto simp: distinct_map inj_on_def\<close>)
  also have "\<dots> = findOne userId c h rows"
    unfolding findOne_def by (induction rows) (auto simp: same_slot_def preference_key_def)
  finally show ?thesis
    by (simp add: rowMap_lookup listByUser_def isNotificationChannelEnabled_def split: option.split)
qed

lemma upsert_unique:
  assumes "slots_unique rows"
  shows "slots_unique (upsert_preference now u p rows)"
proof (cases "list_ex (same_slot u (np_category p) (np_channel p)) rows")
  case True
  have "map (\<lambda>r. (pw_userId r, preference_key r)) (update_where Q (\<lambda>r. r\<lparr>np_enabled := e, pw_updatedAt := now\<rparr>) rows) =
      map (\<lambda>r. (pw_userId r, preference_key r)) rows" for Q e
    by (induction rows) (simp_all add: preference_key_def)
  then show ?thesis using assms True by (simp add: slots_unique_def upsert_preference_def)
next
  case False
  then show ?thesis
    using assms by (auto simp: slots_unique_def upsert_preference_def list_ex_iff same_slot_def preference_key_def notification_preference.defs)
qed

lemma upsertMany_unique: "slots_unique rows \<Longrightarrow> slots_unique (upsertMany now u ps rows)"
  unfolding upsertMany_def by (induction ps arbitrary: rows) (simp_all add: upsert_unique)

text \<open>C38. After a patch the last update of a slot in it decides, the other slots of the user and all slots of other users
  keep their value (enabled if never set), every slot has at most one row, and the answer of the patch is the complete
  table of the three categories and two channels with the values that later questions get.\<close>

theorem preferences_after_patch:
  assumes "slots_unique rows" and "patchNotificationPreferences now userId updates rows = (answer, rows')"
  shows "slots_unique rows'
    \<and> (\<forall>v c h. isNotificationChannelEnabled v c h rows' =
        (case last_update updates c h of Some e \<Rightarrow> if v = userId then e else isNotificationChannelEnabled v c h rows
         | None \<Rightarrow> isNotificationChannelEnabled v c h rows))
    \<and> answer = map (\<lambda>(c, h). \<lparr>np_category = c, np_channel = h, np_enabled = isNotificationChannelEnabled userId c h rows'\<rparr>)
        (List.product notificationCategories notificationChannels)"
proof -
  have r: "rows' = upsertMany now userId (dedupe_updates updates) rows" and a: "answer = getNotificationPreferences userId rows'"
    using assms(2) by (auto simp: patchNotificationPreferences_def Let_def)
  have u: "slots_unique rows'" unfolding r by (rule upsertMany_unique [OF assms(1)])
  have "isNotificationChannelEnabled v c h rows' =
        (case last_update updates c h of Some e \<Rightarrow> if v = userId then e else isNotificationChannelEnabled v c h rows
         | None \<Rightarrow> isNotificationChannelEnabled v c h rows)" for v c h
    unfolding r upsertMany_enabled [OF dedupe_spec(1)] dedupe_spec(2) last_update_def by (simp split: option.split)
  moreover have "answer = map (\<lambda>(c, h). \<lparr>np_category = c, np_channel = h, np_enabled = isNotificationChannelEnabled userId c h rows'\<rparr>)
        (List.product notificationCategories notificationChannels)"
    unfolding a getNotificationPreferences_def buildCompleteMatrix_def Let_def matrix_entry [OF u]
    by (simp add: notificationCategories_def notificationChannels_def)
  ultimately show ?thesis using u by blast
qed

theorem preferences_after_patch_witness:
  "fst (patchNotificationPreferences 5 ''u'' [\<lparr>np_category = ClaimReady, np_channel = EmailChannel, np_enabled = False\<rparr>] []) =
     map (\<lambda>(c, h). \<lparr>np_category = c, np_channel = h, np_enabled = \<not> (c = ClaimReady \<and> h = EmailChannel)\<rparr>)
       (List.product notificationCategories notificationChannels)"
proof -
  let ?p = "[\<lparr>np_category = ClaimReady, np_channel = EmailChannel, np_enabled = False\<rparr>]"
  have "slots_unique []" by (simp add: slots_unique_def)
  note patch = preferences_after_patch [OF this prod.collapse [symmetric], of 5 "''u''" ?p]
  have "isNotificationChannelEnabled ''u'' c h (snd (patchNotificationPreferences 5 ''u'' ?p [])) = (\<not> (c = ClaimReady \<and> h = EmailChannel))" for c h
    unfolding patch [THEN conjunct2, THEN conjunct1, rule_format]
    by (auto simp: last_update_def preference_key_def isNotificationChannelEnabled_def findOne_def)
  then show ?thesis unfolding patch [THEN conjunct2, THEN conjunct2] by simp
qed

end
