(* ===== verification/Drizzle_Webhook_Store.thy ===== *)
theory Drizzle_Webhook_Store
  imports Webhook_Store Schema
begin

text \<open>
  The class \<^verbatim>\<open>DrizzleWebhookStore\<close> of \<^verbatim>\<open>src/services/drizzleWebhookStore.ts\<close> on the tables \<^verbatim>\<open>webhook_deliveries\<close> and
  \<^verbatim>\<open>webhook_deliveries_dlq\<close> as \<^verbatim>\<open>src/db/schema.ts\<close> and the migration declare them (the same columns twice). An insert
  leaves the columns it does not name to their defaults; \<^verbatim>\<open>subscription_id\<close> is \<^verbatim>\<open>NOT NULL\<close> without a default, and no
  insert of the class names it. So nothing can be created or dead-lettered through this store.
  \<^verbatim>\<open>updateDelivery\<close>, \<^verbatim>\<open>markReplayed\<close> and \<^verbatim>\<open>listDlq\<close> also name columns the tables do not have; what happens then is a matter
  of the query builder, and they are left out.
\<close>

section \<open>Tables\<close>

record drizzle_row =
  z_id :: string
  z_subscriptionId :: string
  z_eventType :: string
  z_payload :: json
  z_status :: string
  z_attempt :: int
  z_nextRetryAt :: time
  z_lastStatusCode :: "int option"
  z_lastError :: "string option"
  z_createdAt :: time
  z_updatedAt :: time

record drizzle_db =
  dz_deliveries :: "drizzle_row table"
  dz_dlq :: "drizzle_row table"

datatype drizzle_error = NotNullViolation string

text \<open>The values of an insert, as far as the tables have columns for them; \<open>None\<close> is a column the statement does not name.\<close>

record insert_values =
  iv_subscriptionId :: "string option"
  iv_eventType :: string
  iv_payload :: json
  iv_status :: "string option"
  iv_lastError :: "string option"

definition insert_delivery_row :: "string \<Rightarrow> time \<Rightarrow> string \<Rightarrow> insert_values \<Rightarrow> drizzle_row table \<Rightarrow> drizzle_error + (drizzle_row table \<times> drizzle_row)" where
  "insert_delivery_row newId now defaultStatus v rows = (case iv_subscriptionId v of
     None \<Rightarrow> Inl (NotNullViolation ''subscription_id'')
   | Some subscriptionId \<Rightarrow>
       (let row = \<lparr>z_id = newId, z_subscriptionId = subscriptionId, z_eventType = iv_eventType v, z_payload = iv_payload v,
              z_status = (case iv_status v of None \<Rightarrow> defaultStatus | Some st \<Rightarrow> st), z_attempt = 0, z_nextRetryAt = now,
              z_lastStatusCode = None, z_lastError = iv_lastError v, z_createdAt = now, z_updatedAt = now\<rparr>
        in Inr (rows @ [row], row)))"

section \<open>Methods\<close>

definition drizzle_createDelivery :: "string \<Rightarrow> time \<Rightarrow> new_delivery \<Rightarrow> drizzle_db \<Rightarrow> drizzle_db \<times> (drizzle_error + drizzle_row)" where
  "drizzle_createDelivery newId now input db =
    (case insert_delivery_row newId now ''pending'' \<lparr>iv_subscriptionId = None, iv_eventType = n_eventType input,
        iv_payload = JStr (n_payload input), iv_status = Some ''pending'', iv_lastError = None\<rparr> (dz_deliveries db) of
       Inl e \<Rightarrow> (db, Inl e)
     | Inr (rows, row) \<Rightarrow> (db\<lparr>dz_deliveries := rows\<rparr>, Inr row))"

definition drizzle_getDelivery :: "drizzle_db \<Rightarrow> string \<Rightarrow> drizzle_row option" where
  "drizzle_getDelivery db i = row_by z_id (dz_deliveries db) i"

text \<open>One transaction: an error rolls it back.\<close>

definition drizzle_moveToDlq :: "string \<Rightarrow> time \<Rightarrow> string \<Rightarrow> string \<Rightarrow> drizzle_db \<Rightarrow> drizzle_db \<times> (drizzle_error + drizzle_row option)" where
  "drizzle_moveToDlq newId now deliveryId lastError db = (case row_by z_id (dz_deliveries db) deliveryId of
     None \<Rightarrow> (db, Inr None)
   | Some live \<Rightarrow>
     (case insert_delivery_row newId now ''dlq'' \<lparr>iv_subscriptionId = None, iv_eventType = z_eventType live,
        iv_payload = z_payload live, iv_status = None, iv_lastError = Some lastError\<rparr> (dz_dlq db) of
        Inl e \<Rightarrow> (db, Inl e)
      | Inr (rows, row) \<Rightarrow>
          (db\<lparr>dz_dlq := rows, dz_deliveries := filter (\<lambda>d. z_id d \<noteq> deliveryId) (dz_deliveries db)\<rparr>, Inr (Some row))))"

definition drizzle_getDlqRow :: "drizzle_db \<Rightarrow> string \<Rightarrow> drizzle_row option" where
  "drizzle_getDlqRow db i = row_by z_id (dz_dlq db) i"

section \<open>Nothing is stored\<close>

text \<open>Creating a delivery always fails on \<^verbatim>\<open>subscription_id\<close>, dead-lettering a live row (which only the queue path of
  \<^verbatim>\<open>webhookDispatcher.ts\<close> can have written) fails the same way and keeps the row live, and no sequence of the two changes
  the tables.\<close>

inductive drizzle_step :: "drizzle_db \<Rightarrow> drizzle_db \<Rightarrow> bool" where
  drizzle_create: "drizzle_step db (fst (drizzle_createDelivery newId now input db))"
| drizzle_move: "drizzle_step db (fst (drizzle_moveToDlq newId now i err db))"

lemma drizzle_store_refuses:
  "drizzle_createDelivery newId now input db = (db, Inl (NotNullViolation ''subscription_id''))"
  "drizzle_moveToDlq newId now i err db =
     (db, if drizzle_getDelivery db i = None then Inr None else Inl (NotNullViolation ''subscription_id''))"
  by (simp_all add: drizzle_createDelivery_def drizzle_moveToDlq_def drizzle_getDelivery_def insert_delivery_row_def split: option.split)

lemma drizzle_never_stores: "drizzle_step\<^sup>*\<^sup>* db db' \<Longrightarrow> db' = db"
  by (induction rule: rtranclp_induct) (auto simp: drizzle_store_refuses elim!: drizzle_step.cases)

end
