(* ===== verification/Settlement_Interleaving.thy ===== *)
theory Settlement_Interleaving
  imports Market_Admin
begin

text \<open>
  The settlement transactions statement by statement. The tick of \<^verbatim>\<open>predictionsConfirmer.ts\<close>, \<^verbatim>\<open>atomicResolve\<close> of
  \<^verbatim>\<open>marketResolutionService.ts\<close> and the repair of a reorganisation in \<^verbatim>\<open>indexerService.ts\<close> run as Postgres transactions at
  the level READ COMMITTED, any number of each at a time:

  \<^item> a statement reads what is committed when it starts, and what its own transaction has written; an \<^verbatim>\<open>UPDATE\<close> then visits
    the matching rows one by one, in any order, waits while another transaction holds a row, and tests its condition
    again on the newest committed version of the row (subqueries keep the snapshot of the statement);
  \<^item> written rows are locked, and seen by others when the transaction commits; a transaction may abort at any point;
  \<^item> a row of \<open>predictions\<close> may be inserted at any time, and the tables of events and users may change at any time in any
    way.

  \<open>tx_step False\<close> excludes that a tick and a resolution are open at the same time. \<open>results_interleaved\<close>: a result that is
  present is always right; results are complete if ticks and resolutions do not overlap, and need not be if they do.
\<close>

section \<open>State\<close>

datatype update_stmt =
    Confirm "json \<Rightarrow> string" int settlement_db "string list"
  | Increment "json \<Rightarrow> string" int settlement_db
  | Fail "json \<Rightarrow> string" int settlement_db
  | Score string string
  | Repair string

text \<open>Where a transaction stands: a tick that has found its candidates, a resolution that holds the market, one that has
  written it, or an \<^verbatim>\<open>UPDATE\<close> with the rows it still has to visit.\<close>

datatype tx_pc =
    Candidates "json \<Rightarrow> string" int "string list"
  | Locked string string
  | Updated string string
  | Running update_stmt "string list"

text \<open>The committed tables; the locked rows with their uncommitted version and the transaction that holds them.\<close>

record tx_world =
  tw_db :: settlement_db
  tw_rows :: "string \<Rightarrow> (nat \<times> prediction_row) option"
  tw_markets :: "string \<Rightarrow> (nat \<times> market_row) option"
  tw_txs :: "nat \<Rightarrow> tx_pc option"

abbreviation tw_predictions :: "tx_world \<Rightarrow> prediction_row table" where
  "tw_predictions w \<equiv> sd_predictions (tw_db w)"

section \<open>Statements\<close>

fun stmt_sel :: "update_stmt \<Rightarrow> prediction_row \<Rightarrow> bool" where
  "stmt_sel (Confirm jt a snap ids) p = (p_id p \<in> set ids)"
| "stmt_sel (Increment jt a snap) p = (unmatched jt snap p \<and> p_confirmAttempts p < a)"
| "stmt_sel (Fail jt a snap) p = (unmatched jt snap p \<and> p_confirmAttempts p \<ge> a)"
| "stmt_sel (Score m wo) p = score_open m p"
| "stmt_sel (Repair h) p = repairable h p"

fun stmt_set :: "update_stmt \<Rightarrow> prediction_row \<Rightarrow> prediction_row" where
  "stmt_set (Confirm jt a snap ids) p = confirm_row snap p"
| "stmt_set (Increment jt a snap) p = p\<lparr>p_confirmAttempts := p_confirmAttempts p + 1\<rparr>"
| "stmt_set (Fail jt a snap) p = p\<lparr>p_status := ''failed'', p_lastError := Some (failed_message a)\<rparr>"
| "stmt_set (Score m wo) p = score_row wo p"
| "stmt_set (Repair h) p = repair_prediction p"

text \<open>The version of a row that transaction \<open>t\<close> sees.\<close>

definition seen :: "nat \<Rightarrow> tx_world \<Rightarrow> prediction_row \<Rightarrow> prediction_row" where
  "seen t w p = (case tw_rows w (p_id p) of Some (u, v) \<Rightarrow> if u = t then v else p | None \<Rightarrow> p)"

definition seen_market :: "nat \<Rightarrow> tx_world \<Rightarrow> market_row \<Rightarrow> market_row" where
  "seen_market t w m = (case tw_markets w (m_id m) of Some (u, v) \<Rightarrow> if u = t then v else m | None \<Rightarrow> m)"

definition matching :: "nat \<Rightarrow> update_stmt \<Rightarrow> tx_world \<Rightarrow> string list" where
  "matching t s w = map p_id (filter (\<lambda>p. stmt_sel s (seen t w p)) (tw_predictions w))"

text \<open>A row can be visited unless another transaction holds it.\<close>

definition free_row :: "nat \<Rightarrow> string \<Rightarrow> tx_world \<Rightarrow> bool" where
  "free_row t i w \<longleftrightarrow> (case tw_rows w i of None \<Rightarrow> True | Some (u, v) \<Rightarrow> u = t)"

definition newest_row :: "string \<Rightarrow> tx_world \<Rightarrow> prediction_row option" where
  "newest_row i w = (case tw_rows w i of Some (u, v) \<Rightarrow> Some v | None \<Rightarrow> row_by p_id (tw_predictions w) i)"

definition visit_row :: "nat \<Rightarrow> update_stmt \<Rightarrow> string \<Rightarrow> tx_world \<Rightarrow> tx_world" where
  "visit_row t s i w = (case newest_row i w of
     None \<Rightarrow> w
   | Some v \<Rightarrow> if stmt_sel s v then w\<lparr>tw_rows := (tw_rows w)(i \<mapsto> (t, stmt_set s v))\<rparr> else w)"

definition release :: "nat \<Rightarrow> ('k \<Rightarrow> (nat \<times> 'r) option) \<Rightarrow> 'k \<Rightarrow> (nat \<times> 'r) option" where
  "release t held = (\<lambda>i. case held i of Some (u, v) \<Rightarrow> if u = t then None else Some (u, v) | None \<Rightarrow> None)"

definition roll_back :: "nat \<Rightarrow> tx_world \<Rightarrow> tx_world" where
  "roll_back t w = w\<lparr>tw_rows := release t (tw_rows w), tw_markets := release t (tw_markets w), tw_txs := (tw_txs w)(t := None)\<rparr>"

definition commit_tx :: "nat \<Rightarrow> tx_world \<Rightarrow> tx_world" where
  "commit_tx t w = (roll_back t w)\<lparr>tw_db :=
     set_predictions (map (seen t w)) ((tw_db w)\<lparr>sd_markets := map (seen_market t w) (sd_markets (tw_db w))\<rparr>)\<rparr>"

definition set_pc :: "nat \<Rightarrow> tx_pc \<Rightarrow> tx_world \<Rightarrow> tx_world" where
  "set_pc t pc w = w\<lparr>tw_txs := (tw_txs w)(t \<mapsto> pc)\<rparr>"

definition hold_market :: "nat \<Rightarrow> market_row \<Rightarrow> tx_world \<Rightarrow> tx_world" where
  "hold_market t r w = w\<lparr>tw_markets := (tw_markets w)(m_id r \<mapsto> (t, r))\<rparr>"

section \<open>Steps\<close>

fun is_tick :: "tx_pc \<Rightarrow> bool" where
  "is_tick (Candidates _ _ _) = True"
| "is_tick (Running (Confirm _ _ _ _) _) = True"
| "is_tick (Running (Increment _ _ _) _) = True"
| "is_tick (Running (Fail _ _ _) _) = True"
| "is_tick _ = False"

fun resolves :: "tx_pc \<Rightarrow> string option" where
  "resolves (Locked m _) = Some m"
| "resolves (Updated m _) = Some m"
| "resolves (Running (Score m _) _) = Some m"
| "resolves _ = None"

fun last_stmt :: "update_stmt \<Rightarrow> bool" where
  "last_stmt (Confirm _ _ _ _) = False"
| "last_stmt (Increment _ _ _) = False"
| "last_stmt _ = True"

definition no_open :: "(tx_pc \<Rightarrow> bool) \<Rightarrow> tx_world \<Rightarrow> bool" where
  "no_open P w \<longleftrightarrow> (\<forall>t pc. tw_txs w t = Some pc \<longrightarrow> \<not> P pc)"

inductive tx_step :: "bool \<Rightarrow> tx_world \<Rightarrow> tx_world \<Rightarrow> bool" for overlap where
  tick_find: "tw_txs w t = None \<Longrightarrow> overlap \<or> no_open (\<lambda>pc. resolves pc \<noteq> None) w \<Longrightarrow>
    \<forall>i \<in> set ids. \<exists>p \<in> set (tw_predictions w). p_id p = i \<and> confirm_candidate jt (tw_db w) p \<Longrightarrow>
    tx_step overlap w (set_pc t (Candidates jt a ids) w)"
| tick_confirm: "tw_txs w t = Some (Candidates jt a ids) \<Longrightarrow>
    tx_step overlap w (set_pc t (Running (Confirm jt a (tw_db w) ids) ids) w)"
| tick_increment: "tw_txs w t = Some (Running (Confirm jt a snap ids) []) \<Longrightarrow> s = Increment jt a (tw_db w) \<Longrightarrow>
    tx_step overlap w (set_pc t (Running s (matching t s w)) w)"
| tick_fail: "tw_txs w t = Some (Running (Increment jt a snap) []) \<Longrightarrow> s = Fail jt a (tw_db w) \<Longrightarrow>
    tx_step overlap w (set_pc t (Running s (matching t s w)) w)"
| resolve_lock: "tw_txs w t = None \<Longrightarrow> overlap \<or> no_open is_tick w \<Longrightarrow> tw_markets w m = None \<Longrightarrow>
    row_by m_id (sd_markets (tw_db w)) m = Some r \<Longrightarrow> m_status r \<noteq> ''resolved'' \<Longrightarrow>
    tx_step overlap w (set_pc t (Locked m wo) (hold_market t r w))"
| resolve_market: "tw_txs w t = Some (Locked m wo) \<Longrightarrow> tw_markets w m = Some (t, r) \<Longrightarrow>
    tx_step overlap w (set_pc t (Updated m wo) (hold_market t (r\<lparr>m_status := ''resolved'', m_winningOutcome := Some wo\<rparr>) w))"
| resolve_score: "tw_txs w t = Some (Updated m wo) \<Longrightarrow> s = Score m wo \<Longrightarrow>
    tx_step overlap w (set_pc t (Running s (matching t s w)) w)"
| index_repair: "tw_txs w t = None \<Longrightarrow> s = Repair h \<Longrightarrow> tx_step overlap w (set_pc t (Running s (matching t s w)) w)"
| visit: "tw_txs w t = Some (Running s is) \<Longrightarrow> i \<in> set is \<Longrightarrow> free_row t i w \<Longrightarrow>
    tx_step overlap w (set_pc t (Running s (removeAll i is)) (visit_row t s i w))"
| commit: "tw_txs w t = Some (Running s []) \<Longrightarrow> last_stmt s \<Longrightarrow> tx_step overlap w (commit_tx t w)"
| abort: "tw_txs w t \<noteq> None \<Longrightarrow> tx_step overlap w (roll_back t w)"
| place: "newId \<notin> p_id ` set (tw_predictions w) \<Longrightarrow>
    tx_step overlap w (w\<lparr>tw_db := set_predictions (\<lambda>rows. rows @ [fresh_prediction newId now q]) (tw_db w)\<rparr>)"
| others: "ix_predictions ix = tw_predictions w \<Longrightarrow> tx_step overlap w (w\<lparr>tw_db := (tw_db w)\<lparr>sd_ix := ix, sd_users := us\<rparr>\<rparr>)"

definition tx_init :: "tx_world \<Rightarrow> bool" where
  "tx_init w \<longleftrightarrow> no_results (tw_db w) \<and> key_unique p_id (tw_predictions w)
     \<and> tw_rows w = (\<lambda>_. None) \<and> tw_markets w = (\<lambda>_. None) \<and> tw_txs w = (\<lambda>_. None)"

section \<open>What a market decides\<close>

definition decided_row :: "market_row \<Rightarrow> string option" where
  "decided_row r = (if m_status r = ''resolved'' then m_winningOutcome r else None)"

definition decided :: "market_row table \<Rightarrow> string \<Rightarrow> string option" where
  "decided ms m = (case row_by m_id ms m of None \<Rightarrow> None | Some r \<Rightarrow> decided_row r)"

definition score_of :: "prediction_row \<Rightarrow> string option \<Rightarrow> string option" where
  "score_of p d = map_option (\<lambda>w. if w = p_outcome p then ''won'' else ''lost'') d"

abbreviation now_decided :: "tx_world \<Rightarrow> string \<Rightarrow> string option" where
  "now_decided w \<equiv> decided (sd_markets (tw_db w))"

text \<open>What it will decide when transaction \<open>t\<close> commits.\<close>

definition tx_decided :: "nat \<Rightarrow> tx_world \<Rightarrow> string \<Rightarrow> string option" where
  "tx_decided t w m = (case tw_markets w m of Some (u, r) \<Rightarrow> if u = t then decided_row r else now_decided w m | None \<Rightarrow> now_decided w m)"

lemma late_score_decided: "late_score db p = score_of p (decided (sd_markets db) (p_marketId p))"
  by (simp add: late_score_def decided_def decided_row_def score_of_def split: option.split)

lemma score_of_None [simp]: "score_of p None = None"
  by (simp add: score_of_def)

lemma score_of_eq_None [simp]: "score_of p d = None \<longleftrightarrow> d = None"
  by (simp add: score_of_def)

lemma score_of_cong: "p_outcome q = p_outcome p \<Longrightarrow> score_of q d = score_of p d"
  by (simp add: score_of_def)

section \<open>Results that are present are right\<close>

text \<open>The base invariant: a result belongs to a confirmed row and is the score under what its market decides, for committed
  rows and for uncommitted versions under what their transaction will have decided.\<close>

abbreviation below :: "'a option \<Rightarrow> 'a option \<Rightarrow> bool" where
  "below d d' \<equiv> \<forall>x. d = Some x \<longrightarrow> d' = Some x"

definition row_right :: "string option \<Rightarrow> prediction_row \<Rightarrow> bool" where
  "row_right d p \<longleftrightarrow> (p_result p \<noteq> None \<longrightarrow> p_status p = ''confirmed'' \<and> p_result p = score_of p d)"

definition rows_ok :: "tx_world \<Rightarrow> bool" where
  "rows_ok w \<longleftrightarrow> key_unique p_id (tw_predictions w)
     \<and> (\<forall>p \<in> set (tw_predictions w). row_right (now_decided w (p_marketId p)) p)"

definition dirty_ok :: "tx_world \<Rightarrow> bool" where
  "dirty_ok w \<longleftrightarrow> (\<forall>i t v. tw_rows w i = Some (t, v) \<longrightarrow>
     tw_txs w t \<noteq> None \<and> p_id v = i \<and> row_right (tx_decided t w (p_marketId v)) v)"

definition markets_ok :: "tx_world \<Rightarrow> bool" where
  "markets_ok w \<longleftrightarrow> (\<forall>m t r. tw_markets w m = Some (t, r) \<longrightarrow>
     now_decided w m = None \<and> m_id r = m \<and> row_by m_id (sd_markets (tw_db w)) m \<noteq> None
     \<and> (\<exists>pc. tw_txs w t = Some pc \<and> resolves pc = Some m))"

definition holds :: "nat \<Rightarrow> tx_world \<Rightarrow> string \<Rightarrow> string option \<Rightarrow> bool" where
  "holds t w m d \<longleftrightarrow> (\<exists>r. tw_markets w m = Some (t, r) \<and> decided_row r = d)"

fun pc_ok :: "nat \<Rightarrow> tx_world \<Rightarrow> tx_pc \<Rightarrow> bool" where
  "pc_ok t w (Locked m wo) = holds t w m None"
| "pc_ok t w (Updated m wo) = holds t w m (Some wo)"
| "pc_ok t w (Running (Score m wo) is) = holds t w m (Some wo)"
| "pc_ok t w (Running (Confirm jt a snap ids) is) = (\<forall>m. below (decided (sd_markets snap) m) (now_decided w m))"
| "pc_ok t w _ = True"

definition pcs_ok :: "tx_world \<Rightarrow> bool" where
  "pcs_ok w \<longleftrightarrow> (\<forall>t pc. tw_txs w t = Some pc \<longrightarrow> pc_ok t w pc)"

definition base_inv :: "tx_world \<Rightarrow> bool" where
  "base_inv w \<longleftrightarrow> rows_ok w \<and> dirty_ok w \<and> markets_ok w \<and> pcs_ok w"

lemma base_pc: "base_inv w \<Longrightarrow> tw_txs w t = Some pc \<Longrightarrow> pc_ok t w pc"
  by (simp add: base_inv_def pcs_ok_def)

lemma row_right_mono: "row_right d p \<Longrightarrow> below d d' \<Longrightarrow> row_right d' p"
  by (cases d) (auto simp: row_right_def)

lemma holds_decided: "holds t w m d \<Longrightarrow> tx_decided t w m = d"
  by (auto simp: holds_def tx_decided_def)

lemma set_pc_simps [simp]:
  "tw_db (set_pc t pc w) = tw_db w" "tw_rows (set_pc t pc w) = tw_rows w" "tw_markets (set_pc t pc w) = tw_markets w"
  "tw_txs (set_pc t pc w) = (tw_txs w)(t \<mapsto> pc)" "tx_decided u (set_pc t pc w) = tx_decided u w"
  "holds u (set_pc t pc w) = holds u w"
  by (auto simp: set_pc_def tx_decided_def holds_def fun_eq_iff split: option.split)

lemma pc_ok_set_pc [simp]: "pc_ok u (set_pc t pc w) pc' = pc_ok u w pc'"
  by (cases "(u, w, pc')" rule: pc_ok.cases) simp_all

lemma below_tx:
  assumes "markets_ok w" shows "below (now_decided w m) (tx_decided t w m)"
  using assms by (auto simp: markets_ok_def tx_decided_def split: option.split)

lemma set_pc_base:
  assumes "base_inv w" and "pc_ok t w pc"
    and "case tw_txs w t of None \<Rightarrow> True | Some pc0 \<Rightarrow> resolves pc0 = None \<or> resolves pc = resolves pc0"
  shows "base_inv (set_pc t pc w)"
proof -
  have "markets_ok (set_pc t pc w)"
    unfolding markets_ok_def
  proof (intro allI impI)
    fix m u r assume "tw_markets (set_pc t pc w) m = Some (u, r)"
    then have h: "tw_markets w m = Some (u, r)" by simp
    with assms(1) obtain pc0 where k: "now_decided w m = None" "m_id r = m" "row_by m_id (sd_markets (tw_db w)) m \<noteq> None"
      "tw_txs w u = Some pc0" "resolves pc0 = Some m" unfolding base_inv_def markets_ok_def by blast
    with assms(3) show "now_decided (set_pc t pc w) m = None \<and> m_id r = m \<and> row_by m_id (sd_markets (tw_db (set_pc t pc w))) m \<noteq> None
        \<and> (\<exists>pc'. tw_txs (set_pc t pc w) u = Some pc' \<and> resolves pc' = Some m)"
      by (cases "u = t") auto
  qed
  then show ?thesis using assms(1,2)
    by (simp add: base_inv_def rows_ok_def dirty_ok_def pcs_ok_def) blast
qed

lemma hold_market_simps [simp]:
  "tw_db (hold_market t r w) = tw_db w" "tw_rows (hold_market t r w) = tw_rows w" "tw_txs (hold_market t r w) = tw_txs w"
  "tw_markets (hold_market t r w) = (tw_markets w)(m_id r \<mapsto> (t, r))"
  by (simp_all add: hold_market_def)

text \<open>A transaction takes a market it does not hold yet, or writes one it holds.\<close>

lemma hold_market_base:
  assumes "base_inv w" and "resolves pc = Some m" and "m_id r = m" and "now_decided w m = None"
    and "row_by m_id (sd_markets (tw_db w)) m \<noteq> None" and "pc_ok t (hold_market t r w) pc"
    and "(tw_markets w m = None \<and> tw_txs w t = None)
      \<or> (\<exists>pc0. tw_txs w t = Some pc0 \<and> resolves pc0 = Some m \<and> holds t w m None)"
  shows "base_inv (set_pc t pc (hold_market t r w))"
proof -
  let ?w = "set_pc t pc (hold_market t r w)"
  have other: "tx_decided u ?w n = tx_decided u w n" "holds u ?w n d = holds u w n d" if "u \<noteq> t" for u n d
    using that assms(3,4,7) by (auto simp: tx_decided_def holds_def split: option.splits)
  have mine: "below (tx_decided t w n) (tx_decided t ?w n)" for n
    using assms(3,4,7) by (auto simp: tx_decided_def holds_def split: option.splits)
  have up: "below (tx_decided u w n) (tx_decided u ?w n)" for u n
    using other mine by (cases "u = t") auto
  have "dirty_ok ?w" unfolding dirty_ok_def
  proof (intro allI impI conjI)
    fix i u v assume "tw_rows ?w i = Some (u, v)"
    then have d: "tw_txs w u \<noteq> None" "p_id v = i" "row_right (tx_decided u w (p_marketId v)) v"
      using assms(1) by (auto simp: base_inv_def dirty_ok_def)
    then show "tw_txs ?w u \<noteq> None" "p_id v = i" "row_right (tx_decided u ?w (p_marketId v)) v"
      using row_right_mono up by auto
  qed
  moreover have "markets_ok ?w" unfolding markets_ok_def
  proof (intro allI impI)
    fix n u r' assume h: "tw_markets ?w n = Some (u, r')"
    show "now_decided ?w n = None \<and> m_id r' = n \<and> row_by m_id (sd_markets (tw_db ?w)) n \<noteq> None
        \<and> (\<exists>pc'. tw_txs ?w u = Some pc' \<and> resolves pc' = Some n)"
    proof (cases "n = m")
      case True
      with h assms(2-5) show ?thesis by auto
    next
      case False
      with h assms(3) have "tw_markets w n = Some (u, r')" by auto
      with assms(1) obtain pc' where o: "now_decided w n = None" "m_id r' = n" "row_by m_id (sd_markets (tw_db w)) n \<noteq> None"
        "tw_txs w u = Some pc'" "resolves pc' = Some n" unfolding base_inv_def markets_ok_def by blast
      with assms(7) False have "u \<noteq> t" by auto
      with o show ?thesis by auto
    qed
  qed
  moreover have "pcs_ok ?w" unfolding pcs_ok_def
  proof (intro allI impI)
    fix u pc' assume u: "tw_txs ?w u = Some pc'"
    show "pc_ok u ?w pc'"
    proof (cases "u = t")
      case True
      with u assms(6) show ?thesis by simp
    next
      case False
      with u assms(1) have "pc_ok u w pc'" by (auto simp: base_inv_def pcs_ok_def)
      then show ?thesis using other(2) [OF False] by (cases "(u, w, pc')" rule: pc_ok.cases) auto
    qed
  qed
  ultimately show ?thesis using assms(1) by (simp add: base_inv_def rows_ok_def)
qed

lemma visit_row_simps [simp]:
  "tw_db (visit_row t s i w) = tw_db w" "tw_markets (visit_row t s i w) = tw_markets w" "tw_txs (visit_row t s i w) = tw_txs w"
  "tx_decided u (visit_row t s i w) = tx_decided u w" "holds u (visit_row t s i w) = holds u w"
  by (auto simp: visit_row_def tx_decided_def holds_def fun_eq_iff split: option.split)

lemma pc_ok_visit [simp]: "pc_ok u (visit_row t s i w) pc = pc_ok u w pc"
  by (cases "(u, w, pc)" rule: pc_ok.cases) simp_all

lemma newest_right:
  assumes "base_inv w" and "free_row t i w" and "newest_row i w = Some v"
  shows "p_id v = i \<and> row_right (tx_decided t w (p_marketId v)) v"
proof (cases "tw_rows w i")
  case None
  with assms(3) have v: "v \<in> set (tw_predictions w)" "p_id v = i" by (auto simp: newest_row_def dest: row_by_SomeD)
  with assms(1) have "row_right (now_decided w (p_marketId v)) v" by (auto simp: base_inv_def rows_ok_def)
  with v below_tx [of w "p_marketId v" t] assms(1) show ?thesis
    by (auto simp: base_inv_def intro: row_right_mono)
next
  case (Some a)
  with assms show ?thesis by (auto simp: newest_row_def free_row_def base_inv_def dirty_ok_def)
qed

text \<open>What a statement writes is right when what it reads is.\<close>

lemma stmt_set_same [simp]:
  "p_id (stmt_set s v) = p_id v" "p_marketId (stmt_set s v) = p_marketId v" "p_outcome (stmt_set s v) = p_outcome v"
  by (cases s; simp add: confirm_row_def score_row_def repair_prediction_def)+

lemma stmt_set_right:
  assumes "base_inv w" and "pc_ok t w (Running s is)" and "stmt_sel s v" and "row_right (tx_decided t w (p_marketId v)) v"
  shows "row_right (tx_decided t w (p_marketId v)) (stmt_set s v)"
proof (cases s)
  case (Confirm jt a snap ids)
  have "below (decided (sd_markets snap) (p_marketId v)) (tx_decided t w (p_marketId v))"
    using assms(1,2) below_tx [of w "p_marketId v" t] Confirm by (auto simp: base_inv_def)
  with assms(4) Confirm show ?thesis
    by (cases "decided (sd_markets snap) (p_marketId v)")
      (auto simp: row_right_def confirm_row_def late_score_decided score_of_def split: option.splits)
next
  case (Score m wo)
  with assms(2,3) have "tx_decided t w (p_marketId v) = Some wo" using holds_decided by (auto simp: score_open_def)
  with assms(3) Score show ?thesis by (auto simp: row_right_def score_row_def score_open_def score_of_def)
qed (use assms(3,4) in \<open>auto simp: row_right_def unmatched_def repair_prediction_def\<close>)

lemma visit_base:
  assumes "base_inv w" and "tw_txs w t = Some (Running s is)" and "free_row t i w"
  shows "base_inv (visit_row t s i w)"
proof -
  have pc: "pc_ok t w (Running s is)" using assms(1,2) by (simp add: base_inv_def pcs_ok_def)
  have "dirty_ok (visit_row t s i w)" unfolding dirty_ok_def
  proof (intro allI impI)
    fix j u v' assume "tw_rows (visit_row t s i w) j = Some (u, v')"
    then consider "tw_rows w j = Some (u, v')"
      | v where "j = i" "u = t" "newest_row i w = Some v" "stmt_sel s v" "v' = stmt_set s v"
      by (auto simp: visit_row_def split: option.splits if_splits)
    then show "tw_txs (visit_row t s i w) u \<noteq> None \<and> p_id v' = j
        \<and> row_right (tx_decided u (visit_row t s i w) (p_marketId v')) v'"
    proof cases
      case 1
      with assms(1) show ?thesis by (simp add: base_inv_def dirty_ok_def)
    next
      case 2
      with assms(2) newest_right [OF assms(1,3)] stmt_set_right [OF assms(1) pc] show ?thesis by simp
    qed
  qed
  then show ?thesis using assms(1)
    by (simp add: base_inv_def rows_ok_def markets_ok_def pcs_ok_def)
qed

lemma release_Some: "release t held i = Some (u, v) \<longleftrightarrow> held i = Some (u, v) \<and> u \<noteq> t"
  by (auto simp: release_def split: option.split)

lemma roll_back_simps [simp]:
  "tw_db (roll_back t w) = tw_db w" "tw_rows (roll_back t w) = release t (tw_rows w)"
  "tw_markets (roll_back t w) = release t (tw_markets w)" "tw_txs (roll_back t w) = (tw_txs w)(t := None)"
  by (simp_all add: roll_back_def)

lemma commit_tx_simps [simp]:
  "tw_predictions (commit_tx t w) = map (seen t w) (tw_predictions w)"
  "sd_markets (tw_db (commit_tx t w)) = map (seen_market t w) (sd_markets (tw_db w))"
  "tw_rows (commit_tx t w) = release t (tw_rows w)"
  "tw_markets (commit_tx t w) = release t (tw_markets w)" "tw_txs (commit_tx t w) = (tw_txs w)(t := None)"
  by (simp_all add: commit_tx_def)

text \<open>A commit makes what the transaction has decided the decision.\<close>

lemma commit_decided:
  assumes "markets_ok w"
  shows "now_decided (commit_tx t w) m = tx_decided t w m"
proof -
  have id: "m_id (seen_market t w r) = m_id r" for r
    using assms by (auto simp: seen_market_def markets_ok_def split: option.split)
  have "row_by m_id (map (seen_market t w) ms) m = map_option (seen_market t w) (row_by m_id ms m)" for ms
    by (induction ms) (simp_all add: id)
  then show ?thesis using assms
    by (auto simp: decided_def tx_decided_def seen_market_def markets_ok_def row_by_None split: option.splits dest!: row_by_SomeD)
qed

lemma seen_dirty: "seen t w p = p \<or> tw_rows w (p_id p) = Some (t, seen t w p)"
  by (auto simp: seen_def split: option.split)

lemma seen_id: "dirty_ok w \<Longrightarrow> p_id (seen t w p) = p_id p"
  using seen_dirty [of t w p] by (auto simp: dirty_ok_def)

lemma leave_decided:
  assumes "markets_ok w" and "u \<noteq> t"
  shows "tx_decided u (roll_back t w) m = tx_decided u w m" and "below (tx_decided u w m) (tx_decided u (commit_tx t w) m)"
    and "holds u (roll_back t w) m d = holds u w m d" and "holds u (commit_tx t w) m d = holds u w m d"
proof -
  show "tx_decided u (roll_back t w) m = tx_decided u w m"
    using assms(2) by (auto simp: tx_decided_def release_def split: option.split)
  show "below (tx_decided u w m) (tx_decided u (commit_tx t w) m)"
    using commit_decided [OF assms(1), of t m] below_tx [OF assms(1), of m t] assms(2)
    by (auto simp: tx_decided_def release_def split: option.splits if_splits)
  show "holds u (roll_back t w) m d = holds u w m d" "holds u (commit_tx t w) m d = holds u w m d"
    using assms(2) by (simp_all add: holds_def release_Some)
qed

lemma pc_ok_mono:
  assumes "pc_ok u w pc" and "\<And>m d. holds u w m d \<Longrightarrow> holds u w' m d" and "\<And>m. below (now_decided w m) (now_decided w' m)"
  shows "pc_ok u w' pc"
proof -
  have "pc_ok u w pc \<longrightarrow> pc_ok u w' pc"
    using assms(2,3) by (induction u w pc rule: pc_ok.induct) auto
  with assms(1) show ?thesis by simp
qed

lemma leave_pcs:
  assumes "base_inv w"
  shows "pcs_ok (roll_back t w)" and "pcs_ok (commit_tx t w)"
proof -
  have mk: "markets_ok w" using assms by (simp add: base_inv_def)
  have up: "below (now_decided w m) (now_decided (commit_tx t w) m)" for m
    using commit_decided [OF mk] below_tx [OF mk] by simp
  have "pc_ok u (roll_back t w) pc \<and> pc_ok u (commit_tx t w) pc" if "u \<noteq> t" "tw_txs w u = Some pc" for u pc
  proof -
    have "pc_ok u w pc" using assms that(2) by (simp add: base_inv_def pcs_ok_def)
    then show ?thesis using leave_decided(3,4) [OF mk that(1)] up
      by (metis pc_ok_mono roll_back_simps(1))
  qed
  then show "pcs_ok (roll_back t w)" "pcs_ok (commit_tx t w)" by (auto simp: pcs_ok_def split: if_splits)
qed

lemma leave_markets:
  assumes "markets_ok w"
  shows "markets_ok (roll_back t w)" and "markets_ok (commit_tx t w)"
proof -
  show "markets_ok (roll_back t w)" using assms by (auto simp: markets_ok_def release_Some)
  have id: "m_id (seen_market t w r) = m_id r" for r
    using assms by (auto simp: seen_market_def markets_ok_def split: option.split)
  have "now_decided (commit_tx t w) m = None" if "tw_markets w m = Some (u, r)" "u \<noteq> t" for m u r
    using assms that commit_decided [OF assms, of t m] by (auto simp: markets_ok_def tx_decided_def)
  moreover have "row_by m_id (map (seen_market t w) (sd_markets (tw_db w))) m \<noteq> None \<longleftrightarrow> row_by m_id (sd_markets (tw_db w)) m \<noteq> None" for m
    unfolding row_by_None set_map image_image id by simp
  ultimately show "markets_ok (commit_tx t w)"
    using assms unfolding markets_ok_def by (auto simp: release_Some simp del: not_None_eq)
qed

lemma leave_base:
  assumes "base_inv w"
  shows "base_inv (roll_back t w)" and "base_inv (commit_tx t w)"
proof -
  have mk: "markets_ok w" and rk: "rows_ok w" and dk: "dirty_ok w" using assms by (simp_all add: base_inv_def)
  have "row_right (tx_decided u (roll_back t w) (p_marketId v)) v \<and> row_right (tx_decided u (commit_tx t w) (p_marketId v)) v"
    if "tw_rows w i = Some (u, v)" "u \<noteq> t" for i u v
    using dk that leave_decided(1) [OF mk that(2)] row_right_mono [OF _ leave_decided(2) [OF mk that(2)]]
    by (simp add: dirty_ok_def)
  then have d: "dirty_ok (roll_back t w)" "dirty_ok (commit_tx t w)"
    using dk by (auto simp: dirty_ok_def release_Some)
  have "row_right (now_decided (commit_tx t w) (p_marketId q)) q" if "p \<in> set (tw_predictions w)" "q = seen t w p" for p q
    using seen_dirty [of t w p]
  proof
    assume "seen t w p = p"
    with rk that have "row_right (now_decided w (p_marketId q)) q" by (simp add: rows_ok_def)
    then show ?thesis using below_tx [OF mk] unfolding commit_decided [OF mk] by (rule row_right_mono)
  next
    assume "tw_rows w (p_id p) = Some (t, seen t w p)"
    with dk that show ?thesis unfolding commit_decided [OF mk] by (simp add: dirty_ok_def)
  qed
  moreover have "key_unique p_id (map (seen t w) (tw_predictions w))"
    using rk seen_id [OF dk] by (simp add: rows_ok_def key_unique_def comp_def)
  ultimately have "rows_ok (commit_tx t w)" unfolding rows_ok_def commit_tx_simps(1) by auto
  with d leave_markets [OF mk] leave_pcs [OF assms] rk show "base_inv (roll_back t w)" "base_inv (commit_tx t w)"
    by (simp_all add: base_inv_def rows_ok_def)
qed

text \<open>Other writers leave markets, results and keys alone.\<close>

lemma outside_base:
  assumes "base_inv w" and "sd_markets db' = sd_markets (tw_db w)" and "key_unique p_id (sd_predictions db')"
    and "\<forall>p \<in> set (sd_predictions db'). p \<in> set (tw_predictions w) \<or> p_result p = None"
  shows "base_inv (w\<lparr>tw_db := db'\<rparr>)"
proof -
  let ?w = "w\<lparr>tw_db := db'\<rparr>"
  have d: "now_decided ?w m = now_decided w m" "tx_decided t ?w m = tx_decided t w m" "holds t ?w m e = holds t w m e" for t m e
    by (auto simp: tx_decided_def assms(2) holds_def split: option.split)
  have "rows_ok ?w" using assms by (auto simp: rows_ok_def base_inv_def row_right_def)
  moreover have "dirty_ok ?w" using assms(1) by (simp add: base_inv_def dirty_ok_def d(2))
  moreover have "markets_ok ?w" using assms(1,2) by (simp add: base_inv_def markets_ok_def)
  moreover have "pcs_ok ?w" using assms(1,2) pc_ok_mono [of _ w _ ?w] d by (auto simp: base_inv_def pcs_ok_def)
  ultimately show ?thesis by (simp add: base_inv_def)
qed

lemma tx_step_base:
  assumes "tx_step overlap w w'" and "base_inv w"
  shows "base_inv w'"
  using assms(1)
proof cases
  case (tick_confirm t jt a ids)
  with assms(2) show ?thesis by (auto intro!: set_pc_base)
next
  case (resolve_lock t m r wo)
  then have r: "m_id r = m" "decided_row r = None" "now_decided w m = None"
    by (auto simp: decided_row_def decided_def dest: row_by_SomeD)
  with resolve_lock assms(2) show ?thesis
    by (auto intro!: hold_market_base [where m = m] simp: holds_def)
next
  case (resolve_market t m wo r)
  have "pc_ok t w (Locked m wo)" by (rule base_pc [OF assms(2) resolve_market(2)])
  then have h: "holds t w m None" by simp
  with assms(2) obtain r' where "tw_markets w m = Some (t, r')" by (auto simp: holds_def)
  with resolve_market assms(2) have "m_id r = m" "now_decided w m = None" "row_by m_id (sd_markets (tw_db w)) m \<noteq> None"
    by (auto simp: base_inv_def markets_ok_def)
  with resolve_market h assms(2) show ?thesis
    by (auto intro!: hold_market_base [where m = m] simp: holds_def decided_row_def)
next
  case (resolve_score t m wo s)
  have "pc_ok t w (Updated m wo)" by (rule base_pc [OF assms(2) resolve_score(2)])
  with resolve_score assms(2) show ?thesis by (auto intro!: set_pc_base)
next
  case (visit t s "is" i)
  have "pc_ok t w (Running s is)" by (rule base_pc [OF assms(2) visit(2)])
  then have "pc_ok t w (Running s (removeAll i is))" by (cases s) auto
  moreover have "resolves (Running s (removeAll i is)) = resolves (Running s is)" by (cases s) auto
  ultimately show ?thesis
    using visit visit_base [OF assms(2)] by (auto intro!: set_pc_base)
next
  case (place newId now q)
  have "key_unique p_id (tw_predictions w)" using assms(2) by (simp add: base_inv_def rows_ok_def)
  with place show ?thesis unfolding place(1)
    by (intro outside_base [OF assms(2)]) (auto simp: key_unique_snoc fresh_prediction_def)
next
  case (others ix us)
  have "key_unique p_id (tw_predictions w)" using assms(2) by (simp add: base_inv_def rows_ok_def)
  with others show ?thesis unfolding others(1)
    by (intro outside_base [OF assms(2)]) auto
qed (use assms(2) leave_base in \<open>auto intro!: set_pc_base\<close>)

lemma tx_init_base: "tx_init w \<Longrightarrow> base_inv w"
  by (auto simp: tx_init_def base_inv_def rows_ok_def dirty_ok_def markets_ok_def pcs_ok_def row_right_def no_results_def)

interpretation tx_scoring: inductive_invariant tx_init "tx_step overlap" base_inv for overlap
  by unfold_locales (auto intro: tx_init_base tx_step_base)

section \<open>Results are complete when ticks and resolutions do not overlap\<close>

definition exact :: "string option \<Rightarrow> prediction_row \<Rightarrow> bool" where
  "exact d p \<longleftrightarrow> (p_status p = ''confirmed'' \<longrightarrow> p_result p = score_of p d)"

text \<open>Ticks and resolutions exclude each other.\<close>

definition apart :: "tx_world \<Rightarrow> bool" where
  "apart w \<longleftrightarrow> no_open is_tick w \<or> no_open (\<lambda>pc. resolves pc \<noteq> None) w"

definition dirty_exact :: "tx_world \<Rightarrow> bool" where
  "dirty_exact w \<longleftrightarrow> (\<forall>i t v pc. tw_rows w i = Some (t, v) \<longrightarrow> tw_txs w t = Some pc \<longrightarrow> p_status v = ''confirmed'' \<longrightarrow>
     p_result v = score_of v (tx_decided t w (p_marketId v)) \<and> (is_tick pc \<or> resolves pc = Some (p_marketId v)))"

text \<open>A tick's snapshot is current; a resolution that has not scored yet has written no row; one that is scoring has still to
  visit every row it has not written.\<close>

fun pc_exact :: "nat \<Rightarrow> tx_world \<Rightarrow> tx_pc \<Rightarrow> bool" where
  "pc_exact t w (Locked m wo) = (\<forall>i v. tw_rows w i \<noteq> Some (t, v))"
| "pc_exact t w (Running (Confirm jt a snap ids) is) = (decided (sd_markets snap) = now_decided w)"
| "pc_exact t w (Running (Score m wo) is) = (\<forall>p \<in> set (tw_predictions w).
     score_open m p \<longrightarrow> p_id p \<in> set is \<or> (\<exists>v. tw_rows w (p_id p) = Some (t, v)))"
| "pc_exact t w _ = True"

definition full_inv :: "tx_world \<Rightarrow> bool" where
  "full_inv w \<longleftrightarrow> base_inv w \<and> apart w \<and> dirty_exact w
     \<and> (\<forall>p \<in> set (tw_predictions w). exact (now_decided w (p_marketId p)) p)
     \<and> (\<forall>t pc. tw_txs w t = Some pc \<longrightarrow> pc_exact t w pc)"

lemma pc_exact_set_pc [simp]: "pc_exact u (set_pc t pc w) pc' = pc_exact u w pc'"
  by (induction u w pc' rule: pc_exact.induct) simp_all

lemma full_invD:
  assumes "full_inv w"
  shows "base_inv w" "apart w" "dirty_exact w" "markets_ok w" "dirty_ok w" "rows_ok w"
    "p \<in> set (tw_predictions w) \<Longrightarrow> exact (now_decided w (p_marketId p)) p"
    "tw_txs w t = Some pc \<Longrightarrow> pc_exact t w pc" "tw_txs w t = Some pc \<Longrightarrow> pc_ok t w pc"
  using assms by (simp_all add: full_inv_def base_inv_def pcs_ok_def)

text \<open>A transaction that does not resolve a market sees the committed decisions.\<close>

lemma no_market_decided:
  assumes "markets_ok w" and "\<And>pc. tw_txs w t = Some pc \<Longrightarrow> resolves pc \<noteq> Some m"
  shows "tx_decided t w m = now_decided w m"
  using assms by (fastforce simp: tx_decided_def markets_ok_def split: option.split)

lemma apartD: "apart w \<Longrightarrow> tw_txs w t = Some pc \<Longrightarrow> tw_txs w u = Some pc' \<Longrightarrow> is_tick pc \<Longrightarrow> resolves pc' = None"
  unfolding apart_def no_open_def by blast

lemma apart_same:
  assumes "apart w" and "tw_txs w t = Some pc0" and "is_tick pc = is_tick pc0" and "resolves pc = resolves pc0"
  shows "apart (set_pc t pc w)"
  using assms unfolding apart_def no_open_def by simp metis

lemma apart_new: "no_open (\<lambda>pc. resolves pc \<noteq> None) w \<Longrightarrow> resolves pc = None \<Longrightarrow> apart (set_pc t pc w)"
    "no_open is_tick w \<Longrightarrow> \<not> is_tick pc \<Longrightarrow> apart (set_pc t pc w)"
  by (simp_all add: apart_def no_open_def)

lemma apart_leave: "apart w \<Longrightarrow> tw_txs w' = (tw_txs w)(t := None) \<Longrightarrow> apart w'"
  by (auto simp: apart_def no_open_def)

lemma apart_eq: "tw_txs w' = tw_txs w \<Longrightarrow> apart w' = apart w"
  by (simp add: apart_def no_open_def)

lemma tick_or_resolve: "is_tick pc \<Longrightarrow> resolves pc = None"
  by (induction pc rule: is_tick.induct) auto

lemma full_invI:
  assumes "base_inv w" and "apart w" and "dirty_exact w" and "\<And>p. p \<in> set (tw_predictions w) \<Longrightarrow> exact (now_decided w (p_marketId p)) p"
    and "\<And>t pc. tw_txs w t = Some pc \<Longrightarrow> pc_exact t w pc"
  shows "full_inv w"
  using assms by (simp add: full_inv_def)

lemma put_full:
  assumes "full_inv w" and "base_inv (set_pc t pc w)" and "apart (set_pc t pc w)" and "pc_exact t w pc"
    and "\<forall>pc0. tw_txs w t = Some pc0 \<longrightarrow> is_tick pc = is_tick pc0 \<and> resolves pc = resolves pc0"
  shows "full_inv (set_pc t pc w)"
proof (rule full_invI [OF assms(2,3)])
  note D = full_invD [OF assms(1)]
  show "dirty_exact (set_pc t pc w)"
    using D(3,5) assms(5) by (fastforce simp: dirty_exact_def dirty_ok_def)
qed (use assms(1,4) full_invD(7,8) in \<open>auto split: if_splits\<close>)

lemma same_full:
  assumes "full_inv w" and "tw_txs w t = Some pc0" and "is_tick pc = is_tick pc0" and "resolves pc = resolves pc0"
    and "pc_ok t w pc" and "pc_exact t w pc"
  shows "full_inv (set_pc t pc w)"
  using assms full_invD(1,2) [OF assms(1)]
  by (intro put_full) (auto intro: set_pc_base apart_same)

lemma start_full:
  assumes "full_inv w" and "tw_txs w t = None" and "pc_ok t w pc" and "pc_exact t w pc" and "apart (set_pc t pc w)"
  shows "full_inv (set_pc t pc w)"
  using assms full_invD(1) [OF assms(1)] by (intro put_full) (auto intro: set_pc_base)

lemma hold_full:
  assumes "full_inv w" and "base_inv (set_pc t pc (hold_market t r w))" and "apart (set_pc t pc w)"
    and "\<forall>i v. tw_rows w i \<noteq> Some (t, v)" and "now_decided w (m_id r) = None" and "pc_exact t w pc"
    and "\<forall>u r'. tw_markets w (m_id r) = Some (u, r') \<longrightarrow> u = t"
  shows "full_inv (set_pc t pc (hold_market t r w))"
proof (rule full_invI [OF assms(2)])
  let ?w = "set_pc t pc (hold_market t r w)"
  note D = full_invD [OF assms(1)]
  show "apart ?w" using assms(3) by (simp add: apart_def no_open_def)
  have other: "tx_decided u ?w n = tx_decided u w n" if "u \<noteq> t" for u n
    using that assms(5,7) by (auto simp: tx_decided_def split: option.splits)
  show "dirty_exact ?w" unfolding dirty_exact_def
  proof (intro allI impI)
    fix i u v pc' assume h: "tw_rows ?w i = Some (u, v)" "tw_txs ?w u = Some pc'" "p_status v = ''confirmed''"
    then have "u \<noteq> t" using assms(4) by auto
    with h other D(3) show "p_result v = score_of v (tx_decided u ?w (p_marketId v)) \<and> (is_tick pc' \<or> resolves pc' = Some (p_marketId v))"
      by (simp add: dirty_exact_def)
  qed
  have e: "pc_exact u (hold_market t r w) pc' = pc_exact u w pc'" for u pc'
    by (induction u w pc' rule: pc_exact.induct) simp_all
  show "pc_exact u ?w pc'" if "tw_txs ?w u = Some pc'" for u pc'
    using that assms(6) D(8) by (auto simp: e split: if_splits)
qed (use full_invD(7) [OF assms(1)] in simp)

text \<open>A visit writes an exact row, and a row it leaves does not match.\<close>

lemma visit_exact:
  assumes "full_inv w" and "tw_txs w t = Some (Running s is)" and "free_row t i w" and "newest_row i w = Some v"
    and "stmt_sel s v" and "p_status (stmt_set s v) = ''confirmed''"
  shows "p_result (stmt_set s v) = score_of (stmt_set s v) (tx_decided t w (p_marketId v))
    \<and> (is_tick (Running s is) \<or> resolves (Running s is) = Some (p_marketId v))"
proof -
  note D = full_invD [OF assms(1)]
  have v: "p_id v = i" "row_right (tx_decided t w (p_marketId v)) v" using newest_right [OF D(1) assms(3,4)] by auto
  have ok: "pc_ok t w (Running s is)" and ex: "pc_exact t w (Running s is)" using D(8,9) assms(2) by blast+
  show ?thesis
  proof (cases s)
    case (Confirm jt a snap ids)
    have "tx_decided t w (p_marketId v) = now_decided w (p_marketId v)"
      using assms(2) Confirm by (intro no_market_decided [OF D(4)]) auto
    with Confirm ex v(2) show ?thesis
      by (auto simp: confirm_row_def late_score_decided row_right_def score_of_def split: option.split)
  next
    case (Score m wo)
    with ok assms(5) have "tx_decided t w (p_marketId v) = Some wo" using holds_decided by (auto simp: score_open_def)
    with Score assms(5) show ?thesis by (auto simp: score_row_def score_open_def score_of_def)
  qed (use assms(5,6) in \<open>auto simp: unmatched_def repair_prediction_def\<close>)
qed

lemma visit_rows:
  assumes "tw_rows (visit_row t s i w) j = Some (u, v')"
  shows "tw_rows w j = Some (u, v') \<or> (j = i \<and> u = t \<and> (\<exists>v. newest_row i w = Some v \<and> stmt_sel s v \<and> v' = stmt_set s v))"
  using assms by (auto simp: visit_row_def split: option.splits if_splits)

lemma visit_kept: "tw_rows w j = Some (u, v) \<Longrightarrow> free_row t i w \<Longrightarrow> \<exists>v'. tw_rows (visit_row t s i w) j = Some (u, v')"
  by (auto simp: visit_row_def free_row_def split: option.splits)

lemma visit_scored:
  assumes "rows_ok w" and "p \<in> set (tw_predictions w)" and "score_open m p" and "free_row t (p_id p) w"
  shows "\<exists>v. tw_rows (visit_row t (Score m wo) (p_id p) w) (p_id p) = Some (t, v)"
proof (cases "tw_rows w (p_id p)")
  case None
  with assms have "newest_row (p_id p) w = Some p" by (simp add: newest_row_def rows_ok_def row_by_unique)
  with assms(3) show ?thesis by (simp add: visit_row_def)
next
  case (Some a)
  with assms(4) show ?thesis by (auto simp: visit_row_def free_row_def newest_row_def)
qed

lemma visit_full:
  assumes "full_inv w" and "tw_txs w t = Some (Running s is)" and "free_row t i w"
    and "base_inv (set_pc t (Running s (removeAll i is)) (visit_row t s i w))"
  shows "full_inv (set_pc t (Running s (removeAll i is)) (visit_row t s i w))"
proof (rule full_invI [OF assms(4)])
  let ?w = "set_pc t (Running s (removeAll i is)) (visit_row t s i w)"
  note D = full_invD [OF assms(1)]
  have same: "is_tick (Running s (removeAll i is)) = is_tick (Running s is)"
    "resolves (Running s (removeAll i is)) = resolves (Running s is)" by (cases s; simp)+
  show "apart ?w"
    using apart_same [OF D(2) assms(2) same] by (simp add: apart_def no_open_def)
  show "dirty_exact ?w" unfolding dirty_exact_def
  proof (intro allI impI)
    fix j u v' pc assume h: "tw_rows ?w j = Some (u, v')" "tw_txs ?w u = Some pc" "p_status v' = ''confirmed''"
    then have "tw_rows (visit_row t s i w) j = Some (u, v')" by simp
    from visit_rows [OF this]
    show "p_result v' = score_of v' (tx_decided u ?w (p_marketId v')) \<and> (is_tick pc \<or> resolves pc = Some (p_marketId v'))"
    proof
      assume "tw_rows w j = Some (u, v')"
      with h D(3) assms(2) same show ?thesis by (auto simp: dirty_exact_def split: if_splits)
    next
      assume "j = i \<and> u = t \<and> (\<exists>v. newest_row i w = Some v \<and> stmt_sel s v \<and> v' = stmt_set s v)"
      with h visit_exact [OF assms(1-3)] same show ?thesis by auto
    qed
  qed
  show "pc_exact u ?w pc" if u: "tw_txs ?w u = Some pc" for u pc
  proof (cases "u = t")
    case True
    with u have pc: "pc = Running s (removeAll i is)" by simp
    have ex: "pc_exact t w (Running s is)" by (rule D(8) [OF assms(2)])
    show ?thesis
    proof (cases s)
      case (Score m wo)
      have "p_id p \<in> set (removeAll i is) \<or> (\<exists>v. tw_rows (visit_row t s i w) (p_id p) = Some (t, v))"
        if p: "p \<in> set (tw_predictions w)" "score_open m p" for p
      proof (cases "p_id p = i")
        case True
        with visit_scored [OF D(6) p] assms(3) Score show ?thesis by auto
      next
        case False
        with ex p Score visit_kept [OF _ assms(3)] show ?thesis by fastforce
      qed
      with Score True pc show ?thesis by simp
    qed (use ex True pc in auto)
  next
    case False
    then have "tw_txs w u = Some pc" using u by simp
    then have ex: "pc_exact u w pc" by (rule D(8))
    show ?thesis
    proof (cases "(u, w, pc)" rule: pc_exact.cases)
      case (1 _ _ m wo)
      have "tw_rows (visit_row t s i w) j \<noteq> Some (u, v)" for j v
        using ex False 1 visit_rows [of t s i w j u v] by auto
      with 1 show ?thesis by simp
    next
      case (3 _ _ m wo js)
      then show ?thesis using ex visit_kept [OF _ assms(3)] by fastforce
    qed (use ex in auto)
  qed
qed (use full_invD(7) [OF assms(1)] in simp)

lemma leave_tx_decided:
  assumes "full_inv w" and "u \<noteq> t" and "tw_txs w t = Some pc" and "resolves pc \<noteq> Some m"
  shows "tx_decided u (commit_tx t w) m = tx_decided u w m"
proof -
  have mk: "markets_ok w" by (rule full_invD [OF assms(1)])
  have "tx_decided t w m = now_decided w m" using assms(3,4) by (intro no_market_decided [OF mk]) simp
  then have "now_decided (commit_tx t w) m = now_decided w m" using commit_decided [OF mk] by simp
  moreover have "tw_markets w m \<noteq> Some (t, r)" for r
    using mk assms(3,4) unfolding markets_ok_def by (metis option.inject)
  ultimately show ?thesis using assms(2) by (auto simp: tx_decided_def release_def split: option.split)
qed

lemma roll_back_full:
  assumes "full_inv w"
  shows "full_inv (roll_back t w)"
proof (rule full_invI [OF leave_base(1) [OF full_invD(1) [OF assms]]])
  note D = full_invD [OF assms]
  show "apart (roll_back t w)" using D(2) by (rule apart_leave) simp
  show "dirty_exact (roll_back t w)"
    using D(3) leave_decided(1) [OF D(4)] by (auto simp: dirty_exact_def release_Some split: if_splits)
  show "pc_exact u (roll_back t w) pc" if u: "tw_txs (roll_back t w) u = Some pc" for u pc
  proof -
    have "u \<noteq> t" "pc_exact u w pc" using u D(8) by (auto split: if_splits)
    then show ?thesis by (cases "(u, w, pc)" rule: pc_exact.cases) (auto simp: release_Some)
  qed
qed (use full_invD(7) [OF assms] in simp)

text \<open>When a resolution has visited every row, a commit leaves no open score.\<close>

lemma commit_exact:
  assumes "full_inv w" and "tw_txs w t = Some (Running s [])" and "p \<in> set (tw_predictions w)"
  shows "exact (now_decided (commit_tx t w) (p_marketId (seen t w p))) (seen t w p)"
  unfolding exact_def
proof
  note D = full_invD [OF assms(1)]
  let ?v = "seen t w p"
  assume c: "p_status ?v = ''confirmed''"
  from seen_dirty [of t w p]
  have "p_result ?v = score_of ?v (tx_decided t w (p_marketId ?v))"
  proof
    assume "tw_rows w (p_id p) = Some (t, ?v)"
    with c D(3) assms(2) show ?thesis by (auto simp: dirty_exact_def)
  next
    assume v: "?v = p"
    then have old: "p_result p = score_of p (now_decided w (p_marketId p))"
      using c D(7) [OF assms(3)] by (simp add: exact_def)
    show ?thesis
    proof (cases "resolves (Running s []) = Some (p_marketId p)")
      case False
      then have "tx_decided t w (p_marketId p) = now_decided w (p_marketId p)"
        using assms(2) by (intro no_market_decided [OF D(4)]) auto
      with old v show ?thesis by simp
    next
      case True
      then obtain wo where s: "s = Score (p_marketId p) wo" by (cases s) auto
      with D(9) [OF assms(2)] have "holds t w (p_marketId p) (Some wo)" by simp
      then have "now_decided w (p_marketId p) = None" using D(4) by (auto simp: holds_def markets_ok_def)
      with old c v have "score_open (p_marketId p) p" by (simp add: score_open_def)
      with D(8) [OF assms(2)] s assms(3) obtain v' where "tw_rows w (p_id p) = Some (t, v')" by auto
      with v have "v' = p" by (simp add: seen_def)
      with \<open>tw_rows w (p_id p) = Some (t, v')\<close> c v D(3) assms(2) show ?thesis by (auto simp: dirty_exact_def)
    qed
  qed
  then show "p_result ?v = score_of ?v (now_decided (commit_tx t w) (p_marketId ?v))"
    by (simp only: commit_decided [OF D(4)])
qed

lemma commit_full:
  assumes "full_inv w" and "tw_txs w t = Some (Running s [])"
  shows "full_inv (commit_tx t w)"
proof (rule full_invI [OF leave_base(2) [OF full_invD(1) [OF assms(1)]]])
  note D = full_invD [OF assms(1)]
  show "apart (commit_tx t w)" using D(2) by (rule apart_leave) simp
  have excl: "resolves (Running s []) \<noteq> Some m" if "u \<noteq> t" "tw_txs w u = Some pc" "is_tick pc \<or> resolves pc = Some m" for u pc m
    using that(3)
  proof
    assume "is_tick pc"
    with apartD [OF D(2) that(2) assms(2)] show ?thesis by simp
  next
    assume r: "resolves pc = Some m"
    show ?thesis
    proof
      assume t: "resolves (Running s []) = Some m"
      have "\<exists>r. tw_markets w m = Some (t, r)" using D(9) [OF assms(2)] t by (cases s) (auto simp: holds_def)
      moreover have "\<exists>r. tw_markets w m = Some (u, r)"
        using D(9) [OF that(2)] r by (induction u w pc rule: pc_ok.induct) (auto simp: holds_def)
      ultimately show False using that(1) by auto
    qed
  qed
  show "dirty_exact (commit_tx t w)" unfolding dirty_exact_def
  proof (intro allI impI)
    fix i u v pc
    assume "tw_rows (commit_tx t w) i = Some (u, v)" "tw_txs (commit_tx t w) u = Some pc" and c: "p_status v = ''confirmed''"
    then have h: "tw_rows w i = Some (u, v)" "u \<noteq> t" "tw_txs w u = Some pc" by (auto simp: release_Some)
    with D(3) c have e: "p_result v = score_of v (tx_decided u w (p_marketId v))" "is_tick pc \<or> resolves pc = Some (p_marketId v)"
      by (auto simp: dirty_exact_def)
    with leave_tx_decided [OF assms(1) h(2) assms(2) excl [OF h(2,3) e(2)]]
    show "p_result v = score_of v (tx_decided u (commit_tx t w) (p_marketId v)) \<and> (is_tick pc \<or> resolves pc = Some (p_marketId v))"
      by simp
  qed
  show "exact (now_decided (commit_tx t w) (p_marketId q)) q" if "q \<in> set (tw_predictions (commit_tx t w))" for q
    using that commit_exact [OF assms] by auto
  show "pc_exact u (commit_tx t w) pc" if u: "tw_txs (commit_tx t w) u = Some pc" for u pc
  proof -
    have o: "u \<noteq> t" "tw_txs w u = Some pc" using u by (auto split: if_splits)
    then have ex: "pc_exact u w pc" by (intro D(8))
    show ?thesis
    proof (cases "(u, w, pc)" rule: pc_exact.cases)
      case (2 _ _ jt a snap ids js)
      have "now_decided (commit_tx t w) m = now_decided w m" for m
        using no_market_decided [OF D(4), of t m] excl [OF o, of m] assms(2) 2 commit_decided [OF D(4)] by auto
      with ex 2 show ?thesis by (auto simp: fun_eq_iff simp del: commit_tx_simps(2))
    next
      case (3 _ _ m wo js)
      have "score_open m p \<and> p_id (seen t w p) = p_id p"
        if p: "p \<in> set (tw_predictions w)" "score_open m (seen t w p)" for p
      proof -
        have "tw_rows w (p_id p) \<noteq> Some (t, seen t w p)"
        proof
          assume "tw_rows w (p_id p) = Some (t, seen t w p)"
          with D(3) p(2) assms(2) have "is_tick (Running s []) \<or> resolves (Running s []) = Some m"
            by (auto simp: dirty_exact_def score_open_def)
          with excl [OF o, of m] apartD [OF D(2) assms(2) o(2)] 3 show False by auto
        qed
        with seen_dirty [of t w p] p(2) show ?thesis by auto
      qed
      with ex 3 o(1) show ?thesis by (fastforce simp: release_Some)
    qed (use ex o in \<open>auto simp: release_Some\<close>)
  qed
qed

lemma outside_full:
  assumes "full_inv w" and "base_inv (w\<lparr>tw_db := db'\<rparr>)" and "sd_markets db' = sd_markets (tw_db w)"
    and "\<forall>p \<in> set (sd_predictions db'). p \<in> set (tw_predictions w) \<or> p_status p = ''pending''"
  shows "full_inv (w\<lparr>tw_db := db'\<rparr>)"
proof (rule full_invI [OF assms(2)])
  let ?w = "w\<lparr>tw_db := db'\<rparr>"
  note D = full_invD [OF assms(1)]
  have d: "tx_decided t ?w m = tx_decided t w m" for t m by (auto simp: tx_decided_def assms(3) split: option.split)
  show "apart ?w" using D(2) by (simp add: apart_eq [of ?w w])
  show "dirty_exact ?w" using D(3) by (simp add: dirty_exact_def d)
  show "exact (now_decided ?w (p_marketId p)) p" if "p \<in> set (tw_predictions ?w)" for p
    using that assms(3,4) D(7) by (auto simp: exact_def)
  show "pc_exact u ?w pc" if u: "tw_txs ?w u = Some pc" for u pc
  proof -
    have "pc_exact u w pc" using u D(8) by simp
    then show ?thesis using assms(3,4) by (cases "(u, w, pc)" rule: pc_exact.cases) (auto simp: score_open_def)
  qed
qed

lemma no_rows: "dirty_ok w \<Longrightarrow> tw_txs w t = None \<Longrightarrow> tw_rows w i \<noteq> Some (t, v)"
  unfolding dirty_ok_def by (metis (no_types))

lemma tx_step_full:
  assumes "tx_step False w w'" and "full_inv w"
  shows "full_inv w'"
proof -
  note D = full_invD [OF assms(2)]
  have b: "base_inv w'" by (rule tx_step_base [OF assms(1) D(1)])
  show ?thesis using assms(1)
  proof cases
    case (tick_find t ids jt a)
    then show ?thesis by (auto intro!: start_full [OF assms(2)] apart_new(1))
  next
    case (tick_confirm t jt a ids)
    then show ?thesis by (auto intro!: same_full [OF assms(2)])
  next
    case (tick_increment t jt a snap ids s)
    then show ?thesis by (auto intro!: same_full [OF assms(2)])
  next
    case (tick_fail t jt a snap s)
    then show ?thesis by (auto intro!: same_full [OF assms(2)])
  next
    case (resolve_lock t m r wo)
    then have "m_id r = m" "now_decided w m = None"
      by (auto simp: decided_row_def decided_def dest: row_by_SomeD)
    with resolve_lock b no_rows [OF D(5)] show ?thesis
      by (auto intro!: hold_full [OF assms(2)] apart_new(2))
  next
    case (resolve_market t m wo r)
    have "\<forall>i v. tw_rows w i \<noteq> Some (t, v)" using D(8) [OF resolve_market(2)] by simp
    with resolve_market b D(2,4) show ?thesis
      by (auto intro!: hold_full [OF assms(2)] apart_same simp: markets_ok_def)
  next
    case (resolve_score t m wo s)
    have "pc_ok t w (Updated m wo)" by (rule D(9) [OF resolve_score(2)])
    moreover have "p_id p \<in> set (matching t (Score m wo) w) \<or> (\<exists>v. tw_rows w (p_id p) = Some (t, v))"
      if "p \<in> set (tw_predictions w)" "score_open m p" for p
      using that seen_dirty [of t w p] by (cases "seen t w p = p") (auto simp: matching_def)
    ultimately show ?thesis using resolve_score by (auto intro!: same_full [OF assms(2)])
  next
    case (index_repair t s h)
    then show ?thesis
      by (auto intro!: start_full [OF assms(2)] simp: apart_def no_open_def) (use D(2) in \<open>auto simp: apart_def no_open_def\<close>)
  next
    case (visit t s "is" i)
    with b visit_full [OF assms(2)] show ?thesis by simp
  next
    case (commit t s)
    with commit_full [OF assms(2)] show ?thesis by simp
  next
    case (abort t)
    with roll_back_full [OF assms(2)] show ?thesis by simp
  next
    case (place newId now q)
    then show ?thesis using outside_full [OF assms(2)] b by (auto simp: fresh_prediction_def)
  next
    case (others ix us)
    then show ?thesis using outside_full [OF assms(2)] b by auto
  qed
qed

lemma tx_init_full: "tx_init w \<Longrightarrow> full_inv w"
  using tx_init_base [of w]
  by (auto simp: full_inv_def tx_init_def apart_def no_open_def dirty_exact_def exact_def no_results_def)

interpretation tx_complete: inductive_invariant tx_init "tx_step False" full_inv
  by unfold_locales (auto intro: tx_init_full tx_step_full)

section \<open>Overlap\<close>

definition race_world :: tx_world where
  "race_world = \<lparr>tw_db = demo_open\<lparr>sd_ix := (sd_ix demo_open)\<lparr>ix_predictions := [demo_pending ''p1'' ''T'']\<rparr>\<rparr>,
     tw_rows = (\<lambda>_. None), tw_markets = (\<lambda>_. None), tw_txs = (\<lambda>_. None)\<rparr>"

definition race_confirm :: update_stmt where
  "race_confirm = Confirm (\<lambda>_. []) 3 (tw_db race_world) [''p1'']"

text \<open>A tick finds and confirms the prediction; its other statements match nothing, and it commits.\<close>

definition run_confirm :: "tx_world \<Rightarrow> tx_world" where
  "run_confirm w = set_pc 1 (Running race_confirm []) (visit_row 1 race_confirm ''p1''
     (set_pc 1 (Running race_confirm [''p1'']) (set_pc 1 (Candidates (\<lambda>_. []) 3 [''p1'']) w)))"

definition run_commit :: "tx_world \<Rightarrow> tx_world" where
  "run_commit w = commit_tx 1 (set_pc 1 (Running (Fail (\<lambda>_. []) 3 (tw_db w)) [])
     (set_pc 1 (Running (Increment (\<lambda>_. []) 3 (tw_db w)) []) w))"

text \<open>A resolution takes the market, writes it and starts to score.\<close>

definition run_write :: "tx_world \<Rightarrow> tx_world" where
  "run_write w = set_pc 2 (Updated ''m'' ''yes'')
     (hold_market 2 (demo_market\<lparr>m_status := ''resolved'', m_winningOutcome := Some ''yes''\<rparr>)
     (set_pc 2 (Locked ''m'' ''yes'') (hold_market 2 demo_market w)))"

definition run_score :: "string list \<Rightarrow> tx_world \<Rightarrow> tx_world" where
  "run_score is w = set_pc 2 (Running (Score ''m'' ''yes'') is) (run_write w)"

text \<open>The resolution scores while the tick is uncommitted; or the tick commits first, and the resolution finds its row.\<close>

definition race_end :: tx_world where
  "race_end = commit_tx 2 (run_commit (run_score [] (run_confirm race_world)))"

definition serial_end :: tx_world where
  "serial_end = commit_tx 2 (set_pc 2 (Running (Score ''m'' ''yes'') []) (visit_row 2 (Score ''m'' ''yes'') ''p1''
     (run_score [''p1''] (run_commit (run_confirm race_world)))))"

lemma race_init: "tx_init race_world"
  by (simp add: tx_init_def race_world_def no_results_def demo_open_def demo_settlement_def demo_pending_def demo_prediction_def key_unique_def)

lemma matching_set_pc [simp]: "matching t s (set_pc u pc w) = matching t s w"
  by (simp add: matching_def seen_def)

lemma star_2: "P a b \<Longrightarrow> P b c \<Longrightarrow> P\<^sup>*\<^sup>* a c" and star_3: "P a b \<Longrightarrow> P b c \<Longrightarrow> P c d \<Longrightarrow> P\<^sup>*\<^sup>* a d"
  by (meson converse_rtranclp_into_rtranclp rtranclp.rtrancl_refl)+

lemma confirm_steps: "(tx_step overlap)\<^sup>*\<^sup>* race_world (run_confirm race_world)"
proof (rule star_3)
  let ?J = "\<lambda>_ :: json. []" and ?c = "set_pc 1 (Candidates (\<lambda>_. []) 3 [''p1'']) race_world"
  have "\<exists>p \<in> set (tw_predictions race_world). p_id p = ''p1'' \<and> confirm_candidate ?J (tw_db race_world) p" by code_simp
  then show "tx_step overlap race_world ?c" by (intro tx_step.tick_find) (auto simp: race_world_def no_open_def)
  show "tx_step overlap ?c (set_pc 1 (Running race_confirm [''p1'']) ?c)"
    using tx_step.tick_confirm [of ?c 1 ?J 3 "[''p1'']" overlap] by (simp add: race_confirm_def)
  show "tx_step overlap (set_pc 1 (Running race_confirm [''p1'']) ?c) (run_confirm race_world)"
    using tx_step.visit [of "set_pc 1 (Running race_confirm [''p1'']) ?c" 1 race_confirm "[''p1'']" "''p1''" overlap]
    by (simp add: run_confirm_def free_row_def race_world_def)
qed

lemma finish_steps:
  assumes "tw_txs w 1 = Some (Running race_confirm [])" and "matching 1 (Increment (\<lambda>_. []) 3 (tw_db w)) w = []"
    and "matching 1 (Fail (\<lambda>_. []) 3 (tw_db w)) w = []"
  shows "(tx_step overlap)\<^sup>*\<^sup>* w (run_commit w)"
proof (rule star_3)
  let ?i = "set_pc 1 (Running (Increment (\<lambda>_. []) 3 (tw_db w)) []) w" and ?f = "Fail (\<lambda>_. []) 3 (tw_db w)"
  show "tx_step overlap w ?i"
    using tx_step.tick_increment [OF assms(1) [unfolded race_confirm_def] refl] assms(2) by simp
  have "tw_txs ?i 1 = Some (Running (Increment (\<lambda>_. []) 3 (tw_db w)) [])" by simp
  from tx_step.tick_fail [OF this refl] assms(3) show "tx_step overlap ?i (set_pc 1 (Running ?f []) ?i)" by simp
  show "tx_step overlap (set_pc 1 (Running ?f []) ?i) (run_commit w)" unfolding run_commit_def
    by (rule tx_step.commit [where s = ?f]) simp_all
qed

lemma score_steps:
  assumes "tw_txs w 2 = None" and "overlap \<or> no_open is_tick w" and "tw_markets w ''m'' = None"
    and "row_by m_id (sd_markets (tw_db w)) ''m'' = Some demo_market" and "matching 2 (Score ''m'' ''yes'') (run_write w) = is"
  shows "(tx_step overlap)\<^sup>*\<^sup>* w (run_score is w)"
proof (rule star_3)
  let ?l = "set_pc 2 (Locked ''m'' ''yes'') (hold_market 2 demo_market w)"
  have m: "m_status demo_market \<noteq> ''resolved''" "m_id demo_market = ''m''" by (simp_all add: demo_market_def)
  show "tx_step overlap w ?l" using assms m by (intro tx_step.resolve_lock) simp_all
  show "tx_step overlap ?l (run_write w)" unfolding run_write_def
    using m by (intro tx_step.resolve_market) simp_all
  show "tx_step overlap (run_write w) (run_score is w)"
    using tx_step.resolve_score [of "run_write w" 2 "''m''" "''yes''" "Score ''m'' ''yes''" overlap] assms(5)
    by (simp add: run_score_def run_write_def)
qed

lemma commit_steps:
  assumes "tw_txs w 2 = Some (Running (Score ''m'' ''yes'') [])" shows "(tx_step overlap)\<^sup>*\<^sup>* w (commit_tx 2 w)"
  using assms by (intro r_into_rtranclp tx_step.commit [where s = "Score ''m'' ''yes''"]) simp_all

lemmas run_defs = run_confirm_def run_commit_def run_write_def run_score_def

lemma run_markets:
  "row_by m_id (sd_markets (tw_db (run_confirm race_world))) ''m'' = Some demo_market"
  "row_by m_id (sd_markets (tw_db (run_commit (run_confirm race_world)))) ''m'' = Some demo_market"
  by (simp_all add: run_defs race_world_def demo_open_def demo_market_def seen_market_def)

lemma reach_star: "reach init step s \<Longrightarrow> step\<^sup>*\<^sup>* s t \<Longrightarrow> reach init step t"
  by (rotate_tac, induction rule: rtranclp_induct) (auto intro: reach_step)

lemma race_reach: "reach tx_init (tx_step True) race_end"
proof -
  let ?c = "run_confirm race_world" and ?s = "run_score [] (run_confirm race_world)"
  have c: "tw_txs ?c = [1 \<mapsto> Running race_confirm []]" "tw_markets ?c = (\<lambda>_. None)"
    by (simp_all add: run_confirm_def race_world_def)
  have "reach tx_init (tx_step True) race_world" using race_init by (rule reach_init)
  note r = reach_star [OF reach_star [OF this confirm_steps]]
  have "matching 2 (Score ''m'' ''yes'') (run_write ?c) = []" by code_simp
  then have "(tx_step True)\<^sup>*\<^sup>* ?c ?s" using c run_markets by (intro score_steps) simp_all
  note r = r [OF this]
  have "(tx_step True)\<^sup>*\<^sup>* ?s (run_commit ?s)"
    by (rule finish_steps) (simp add: run_score_def run_write_def c, code_simp+)
  note r = reach_star [OF r this]
  have "(tx_step True)\<^sup>*\<^sup>* (run_commit ?s) race_end"
    unfolding race_end_def by (rule commit_steps) (simp add: run_commit_def run_score_def)
  from reach_star [OF r this] show ?thesis .
qed

lemma serial_reach: "reach tx_init (tx_step False) serial_end"
proof -
  let ?c = "run_confirm race_world" and ?s = "Score ''m'' ''yes''"
  let ?d = "run_commit (run_confirm race_world)"
  let ?v = "set_pc 2 (Running ?s []) (visit_row 2 ?s ''p1'' (run_score [''p1''] ?d))"
  have c: "tw_txs ?c = [1 \<mapsto> Running race_confirm []]" "tw_markets ?c = (\<lambda>_. None)"
    by (simp_all add: run_confirm_def race_world_def)
  have d: "tw_txs ?d = (\<lambda>_. None)" "tw_markets ?d = (\<lambda>_. None)"
    by (simp_all add: run_commit_def c fun_eq_iff release_def)
  have "reach tx_init (tx_step False) race_world" using race_init by (rule reach_init)
  note r = reach_star [OF reach_star [OF this confirm_steps]]
  have "(tx_step False)\<^sup>*\<^sup>* ?c ?d"
    by (rule finish_steps) (simp add: c, code_simp+)
  note r = r [OF this]
  have "matching 2 ?s (run_write ?d) = [''p1'']" by code_simp
  then have "(tx_step False)\<^sup>*\<^sup>* ?d (run_score [''p1''] ?d)"
    using d run_markets by (intro score_steps) (simp_all add: no_open_def)
  note r = reach_star [OF r this]
  have "free_row 2 ''p1'' (run_score [''p1''] ?d)" by code_simp
  then have "tx_step False (run_score [''p1''] ?d) ?v"
    using tx_step.visit [of "run_score [''p1''] ?d" 2 ?s "[''p1'']" "''p1''" False] by (simp add: run_score_def)
  then have "(tx_step False)\<^sup>*\<^sup>* (run_score [''p1''] ?d) ?v" by (rule r_into_rtranclp)
  note r = reach_star [OF r this]
  have "(tx_step False)\<^sup>*\<^sup>* ?v serial_end" unfolding serial_end_def by (rule commit_steps) simp
  from reach_star [OF r this] show ?thesis .
qed

lemma serial_row:
  "map (\<lambda>p. (p_status p, p_marketId p, p_outcome p)) (tw_predictions serial_end) = [(''confirmed'', ''m'', ''yes'')]"
  "map_option (\<lambda>m. (m_status m, m_winningOutcome m)) (row_by m_id (sd_markets (tw_db serial_end)) ''m'') = Some (''resolved'', Some ''yes'')"
  by code_simp+

lemma race_result:
  "map (\<lambda>p. (p_id p, p_marketId p, p_status p, p_result p, p_outcome p)) (tw_predictions race_end) =
     [(''p1'', ''m'', ''confirmed'', None, ''yes'')]"
  "map_option (\<lambda>m. (m_status m, m_winningOutcome m)) (row_by m_id (sd_markets (tw_db race_end)) ''m'') = Some (''resolved'', Some ''yes'')"
  by code_simp+

lemma race_closed: "tw_txs race_end = (\<lambda>_. None)"
  by (simp add: race_end_def run_defs race_world_def fun_eq_iff)

text \<open>The bet of the race won, has no result, and gets none from any later tick or resolution.\<close>

lemma race_stranded: "stranded 0 ''m'' (tw_db race_end)"
proof -
  from race_result(1) obtain p where "tw_predictions race_end = [p]" "p_marketId p = ''m''" "p_status p = ''confirmed''" "p_result p = None"
    by auto
  with race_result(2) show ?thesis by (auto simp: stranded_def market_resolved_def)
qed

lemma decided_SomeD:
  "decided ms i = Some wo \<Longrightarrow> \<exists>m. row_by m_id ms i = Some m \<and> m_status m = ''resolved'' \<and> m_winningOutcome m = Some wo"
  by (auto simp: decided_def decided_row_def split: option.splits if_splits)

lemma row_rightD:
  "row_right d p \<Longrightarrow> p_result p = Some r \<Longrightarrow>
   p_status p = ''confirmed'' \<and> (\<exists>wo. d = Some wo \<and> r = (if p_outcome p = wo then ''won'' else ''lost''))"
  by (cases d) (auto simp: row_right_def score_of_def)

section \<open>Properties\<close>

text \<open>C5. Results follow the market across the statements of concurrent transactions. In every state that any number of ticks,
  resolutions and reorganisation repairs reach, statement by statement at READ COMMITTED, with aborts, new predictions and
  any changes of events and users in between, from tables without confirmed or scored predictions:
  a committed result belongs to a confirmed prediction of a resolved market, and is \<^verbatim>\<open>won\<close> exactly if its outcome is the
  winning one and \<^verbatim>\<open>lost\<close> otherwise. If no tick is open while a resolution is (\<open>\<not> overlap\<close>), the converse holds too: every
  confirmed prediction of a resolved market with an outcome has its result. If they overlap it need not: some such
  run, with all its transactions committed, leaves a confirmed winning prediction of a resolved market without a result, and no later tick
  or resolution gives it one.\<close>

theorem results_interleaved:
  assumes "reach tx_init (tx_step overlap) w" and "p \<in> set (tw_predictions w)"
  shows "(\<forall>r. p_result p = Some r \<longrightarrow> p_status p = ''confirmed''
      \<and> (\<exists>m wo. row_by m_id (sd_markets (tw_db w)) (p_marketId p) = Some m \<and> m_status m = ''resolved''
           \<and> m_winningOutcome m = Some wo \<and> r = (if p_outcome p = wo then ''won'' else ''lost'')))
    \<and> (\<forall>m wo. \<not> overlap \<and> p_status p = ''confirmed'' \<and> row_by m_id (sd_markets (tw_db w)) (p_marketId p) = Some m
        \<and> m_status m = ''resolved'' \<and> m_winningOutcome m = Some wo
        \<longrightarrow> p_result p = Some (if p_outcome p = wo then ''won'' else ''lost''))
    \<and> (\<exists>v q m. reach tx_init (tx_step True) v \<and> tw_txs v = (\<lambda>_. None) \<and> tw_predictions v = [q]
        \<and> p_status q = ''confirmed'' \<and> row_by m_id (sd_markets (tw_db v)) (p_marketId q) = Some m
        \<and> m_status m = ''resolved'' \<and> m_winningOutcome m = Some (p_outcome q) \<and> p_result q = None
        \<and> (\<forall>final. scoring_step\<^sup>*\<^sup>* (tw_db v) final \<longrightarrow> p_result (sd_predictions final ! 0) = None))"
proof (intro conjI allI impI)
  have right: "row_right (now_decided w (p_marketId p)) p"
    using tx_scoring.reach_inv [OF assms(1)] assms(2) by (simp add: base_inv_def rows_ok_def)
  fix r assume "p_result p = Some r"
  from row_rightD [OF right this] obtain wo where s: "p_status p = ''confirmed''" "now_decided w (p_marketId p) = Some wo"
    "r = (if p_outcome p = wo then ''won'' else ''lost'')" by blast
  then show "p_status p = ''confirmed''"
    and "\<exists>m wo. row_by m_id (sd_markets (tw_db w)) (p_marketId p) = Some m \<and> m_status m = ''resolved''
           \<and> m_winningOutcome m = Some wo \<and> r = (if p_outcome p = wo then ''won'' else ''lost'')"
    using decided_SomeD [OF s(2)] by blast+
next
  fix m wo assume h: "\<not> overlap \<and> p_status p = ''confirmed'' \<and> row_by m_id (sd_markets (tw_db w)) (p_marketId p) = Some m
        \<and> m_status m = ''resolved'' \<and> m_winningOutcome m = Some wo"
  then have "reach tx_init (tx_step False) w" using assms(1) by simp
  then have "full_inv w" by (rule tx_complete.reach_inv)
  then have "exact (now_decided w (p_marketId p)) p" using assms(2) by (rule full_invD(7))
  with h show "p_result p = Some (if p_outcome p = wo then ''won'' else ''lost'')"
    by (auto simp: exact_def score_of_def decided_def decided_row_def)
next
  from race_result(1) obtain q where q: "tw_predictions race_end = [q]" "p_marketId q = ''m''" "p_status q = ''confirmed''"
    "p_result q = None" "p_outcome q = ''yes''" by auto
  from race_result(2) obtain m where "row_by m_id (sd_markets (tw_db race_end)) ''m'' = Some m" "m_status m = ''resolved''"
    "m_winningOutcome m = Some ''yes''" by auto
  with q race_reach race_closed scoring_stranded [OF _ race_stranded]
  show "\<exists>v q m. reach tx_init (tx_step True) v \<and> tw_txs v = (\<lambda>_. None) \<and> tw_predictions v = [q]
        \<and> p_status q = ''confirmed'' \<and> row_by m_id (sd_markets (tw_db v)) (p_marketId q) = Some m
        \<and> m_status m = ''resolved'' \<and> m_winningOutcome m = Some (p_outcome q) \<and> p_result q = None
        \<and> (\<forall>final. scoring_step\<^sup>*\<^sup>* (tw_db v) final \<longrightarrow> p_result (sd_predictions final ! 0) = None)"
    by (intro exI [of _ race_end] exI [of _ q] exI [of _ m]) (auto simp: stranded_def)
qed

theorem results_interleaved_witness: "map p_result (tw_predictions serial_end) = [Some ''won'']"
proof -
  from serial_row obtain p m where p: "tw_predictions serial_end = [p]" "p_status p = ''confirmed''" "p_marketId p = ''m''" "p_outcome p = ''yes''"
    and m: "row_by m_id (sd_markets (tw_db serial_end)) ''m'' = Some m" "m_status m = ''resolved''" "m_winningOutcome m = Some ''yes''"
    by auto
  have "p \<in> set (tw_predictions serial_end)" by (simp add: p(1))
  with p m have "p_result p = Some (if p_outcome p = ''yes'' then ''won'' else ''lost'')"
    using results_interleaved [OF serial_reach, THEN conjunct2, THEN conjunct1, rule_format, of p m "''yes''"] by simp
  then have "p_result p = Some ''won''" by (simp add: p(4))
  then show ?thesis by (simp add: p(1))
qed

end
