(* ===== verification/Spec2Isabelle.thy ===== *)
theory Spec2Isabelle
  imports Claim_Flow Watcher_Jobs Cursor Webhook_Dispatcher Webhook_Queue Market_Admin Refresh_Tokens
    Request_Limits Circuit_Breaker Idempotency Fraud_Flags Side_Effect_Outbox Reconciliation_Reports Signup_Anomaly Slot_Scheduler
    Report_Runs User_Activity Global_Leaderboard Referrals Auth_Login Admin_Switches
    Listings Notification_Prefs Drizzle_Webhook_Store Settlement_Interleaving
begin

text \<open>
  Verification of the Predictify backend, a TypeScript service (Express, Drizzle on Postgres, BullMQ, Stellar
  Soroban) for prediction markets. Paths below are relative to the repository.

  \<^bold>\<open>The program.\<close> Users place predictions on markets. The indexer copies contract events from the chain into
  \<^verbatim>\<open>indexer_events\<close>; the predictions confirmer matches predictions against them; a market is resolved by an
  oracle-guarded event or by an administrator, and confirmed predictions are scored; winners prepare, sign and
  submit a claim transaction, which the settle confirmer follows to the end. Webhooks report events to
  subscribers; market-watcher jobs notify users; side effects leave through an outbox. A fraud scan flags clusters
  of addresses, a detector floods of signups, and a reconciliation compares the tables with the chain. A scheduler
  fires cron slots, and report jobs run under leases. Users log in with a signed challenge and get access and
  refresh tokens; they look at portfolios, statistics and leaderboards, earn referral rewards and ask for quotas. In
  front of it all are rate and concurrency limits and idempotency keys.

  \<^bold>\<open>How code is modelled.\<close> A table is the list of its rows (a \<open>record\<close> per row, \<^verbatim>\<open>Schema.thy\<close>); one SQL statement
  is one function on tables, so a handler with several statements is a small-step function over a program
  counter wherever requests can interleave. Errors are values of a sum or option type. Timestamps are integers
  in milliseconds; every clock reading, generated identifier and random token is an argument. A JavaScript
  \<^verbatim>\<open>Map\<close> is an association list in insertion order, a \<^verbatim>\<open>Set\<close> a list without repetition. Code outside the
  repository (hashes, HMAC, the Stellar SDK, the RPC server, JSON printing, HTTP peers) is a parameter of the
  definitions that use it.

  \<^bold>\<open>Theories, in the order of the data flow.\<close>

  \<^item> \<^verbatim>\<open>Prelude\<close>: tables, unique keys, the conditional update; the locales \<open>guarded_update\<close> and \<open>keyed_table\<close> (an
    atomic \<^verbatim>\<open>UPDATE .. WHERE guard RETURNING\<close>), \<open>inductive_invariant\<close> (step relations) and
    \<open>functional_refinement\<close> (an implementation of an abstract specification). \<^verbatim>\<open>Schema\<close>: the shared rows of
    \<^verbatim>\<open>src/db/schema.ts\<close>. \<^verbatim>\<open>Js_Numerals\<close>: decimal printing and parsing, \<^verbatim>\<open>BigInt\<close>, \<^verbatim>\<open>trim\<close>.
  \<^item> \<^verbatim>\<open>Event_Decoder\<close> (\<^verbatim>\<open>src/indexer/eventDecoder.ts\<close>): contract events to typed payloads; decoded events satisfy
    their schema. \<^verbatim>\<open>Indexer_Recovery\<close> (\<^verbatim>\<open>src/services/indexerRecovery.ts\<close>): event identifiers, deduplication,
    replay plans and the checkpoint decision. \<^verbatim>\<open>Indexer_Service\<close> (\<^verbatim>\<open>src/services/indexerService.ts\<close>,
    \<^verbatim>\<open>src/workers/indexerGapScan.ts\<close>): polling, persistence with reorganisation repair, gap scan. The cursor never
    passes an event that is not stored, and a position has one canonical event after recovery.
  \<^item> \<^verbatim>\<open>Predictions_Confirmer\<close> (\<^verbatim>\<open>src/workers/predictionsConfirmer.ts\<close>), \<^verbatim>\<open>Oracle_Guard\<close>
    (\<^verbatim>\<open>src/services/oracleSettlementGuard.ts\<close>), \<^verbatim>\<open>Market_Resolution\<close> (\<^verbatim>\<open>src/services/marketResolutionService.ts\<close>) and
    \<^verbatim>\<open>Market_Admin\<close> (\<^verbatim>\<open>marketAdmin.ts\<close>, \<^verbatim>\<open>marketService.ts\<close>, \<^verbatim>\<open>marketFeatureService.ts\<close>, \<^verbatim>\<open>predictionService.ts\<close>,
    \<^verbatim>\<open>disputeService.ts\<close>, \<^verbatim>\<open>routes/admin/force-resolve.ts\<close>): confirmation, resolution and scoring.
    \<^verbatim>\<open>Settlement_Interleaving\<close> runs their transactions statement by statement at READ COMMITTED
    (\<open>results_interleaved\<close>): a result that is present is right; results are complete if ticks and resolutions do not
    overlap, and overlapping ones can lose a result. \<open>Market_Admin.settle_step\<close> is the coarser view in which the
    transactions run one after the other (\<open>results_exact\<close>).
  \<^item> \<^verbatim>\<open>Claim_Repo\<close>, \<^verbatim>\<open>Claim_Chain\<close>, \<^verbatim>\<open>Claim_Service\<close>, \<^verbatim>\<open>Settle_Confirmer\<close> (\<^verbatim>\<open>claimRepo.ts\<close>, \<^verbatim>\<open>claimErrors.ts\<close>,
    \<^verbatim>\<open>claimChain.ts\<close>, \<^verbatim>\<open>claimService.ts\<close>, \<^verbatim>\<open>settleConfirmerService.ts\<close>), composed in \<^verbatim>\<open>Claim_System\<close> (any number of
    concurrent requests and confirmer turns; single submitter, authentic relay, status machine, one live claim)
    and \<^verbatim>\<open>Claim_Flow\<close> (each handler run alone: what it answers and leaves).
  \<^item> \<^verbatim>\<open>Watcher_Jobs\<close> (\<^verbatim>\<open>marketWatcherJobService.ts\<close>, \<^verbatim>\<open>jobs/marketWatcherLeaseSweeper.ts\<close>): leases with fencing.
  \<^item> \<^verbatim>\<open>Webhook_Store\<close>, \<^verbatim>\<open>Webhook_Security\<close>, \<^verbatim>\<open>Webhook_Dispatcher\<close>, \<^verbatim>\<open>Webhook_Queue\<close> (\<^verbatim>\<open>webhookStore.ts\<close>,
    \<^verbatim>\<open>drizzleWebhookStore.ts\<close>, \<^verbatim>\<open>signedWebhookSecurity.ts\<close>, \<^verbatim>\<open>webhookDispatcher.ts\<close>, \<^verbatim>\<open>workers/webhookWorker.ts\<close>): delivery
    attempts, dead letters and replay, signatures and nonces, over the in-memory store.
    \<^verbatim>\<open>Drizzle_Webhook_Store\<close> is the Postgres store against the columns of \<^verbatim>\<open>schema.ts\<close>: it cannot create a delivery.
  \<^item> \<^verbatim>\<open>Union_Find\<close>, \<^verbatim>\<open>Fraud_Graph\<close>, \<^verbatim>\<open>Fraud_Flags\<close> (\<^verbatim>\<open>fraudService.ts\<close>, \<^verbatim>\<open>routes/admin/fraud.ts\<close>): the clusters are the
    connected components of the suspicion graph, and reviewer decisions survive every later scan.
  \<^item> \<^verbatim>\<open>Refresh_Tokens\<close> (\<^verbatim>\<open>refreshTokenService.ts\<close>), \<^verbatim>\<open>Request_Limits\<close> (\<^verbatim>\<open>middleware/perUserConcurrency.ts\<close>,
    \<^verbatim>\<open>middleware/rateLimit.ts\<close>), \<^verbatim>\<open>Circuit_Breaker\<close> (\<^verbatim>\<open>lib/circuitBreaker.ts\<close>), \<^verbatim>\<open>Idempotency\<close>
    (\<^verbatim>\<open>middleware/idempotency.ts\<close>, \<^verbatim>\<open>workers/cleanupIdempotency.ts\<close>), \<^verbatim>\<open>Cursor\<close> (\<^verbatim>\<open>utils/cursor.ts\<close>).
    \<^verbatim>\<open>Auth_Login\<close> (\<^verbatim>\<open>utils/keyRing.ts\<close>, \<^verbatim>\<open>utils/jwtKeyFormat.ts\<close>, \<^verbatim>\<open>jwtService.ts\<close>, \<^verbatim>\<open>authChallengeService.ts\<close>,
    \<^verbatim>\<open>authVerifyService.ts\<close>, \<^verbatim>\<open>middleware/requireAuth.ts\<close>): a challenge logs in once, and the tokens of a login and of
    a rotation are followed to the middleware (\<open>rotated_token_rejected\<close> spans both services).
  \<^item> \<^verbatim>\<open>Side_Effect_Outbox\<close> (\<^verbatim>\<open>sideEffectOutbox.ts\<close>): transactions, leases and completion of events.
  \<^item> \<^verbatim>\<open>Exact_Amounts\<close>, \<^verbatim>\<open>Market_Reconciliation\<close>, \<^verbatim>\<open>Payout_Reconciliation\<close>, \<^verbatim>\<open>Reconciliation_Reports\<close>
    (\<^verbatim>\<open>reconciliationService.ts\<close>): amounts in stroops, the comparison of positions, of payouts, and the stored reports.
  \<^item> \<^verbatim>\<open>Signup_Anomaly\<close> (\<^verbatim>\<open>anomalyDetector.ts\<close>): buckets, robust baseline and triggers over real numbers.
  \<^item> \<^verbatim>\<open>Utc_Calendar\<close>, \<^verbatim>\<open>Cron\<close>, \<^verbatim>\<open>Slot_Scheduler\<close> (\<^verbatim>\<open>scheduler.ts\<close>): the calendar of \<^verbatim>\<open>Date\<close>, cron expressions with the
    search for the least next slot, and the scheduler as a step relation over timers. \<^verbatim>\<open>Report_Runs\<close>
    (\<^verbatim>\<open>scheduledReportJobService.ts\<close>, \<^verbatim>\<open>workers/scheduledReportWorker.ts\<close>): runs of reports under leases.
  \<^item> \<^verbatim>\<open>User_Activity\<close> (\<^verbatim>\<open>userPortfolioService.ts\<close>, \<^verbatim>\<open>userStatsService.ts\<close>), \<^verbatim>\<open>Leaderboard\<close> and \<^verbatim>\<open>Global_Leaderboard\<close>
    (\<^verbatim>\<open>leaderboardService.ts\<close>, \<^verbatim>\<open>globalLeaderboardService.ts\<close>, \<^verbatim>\<open>addressAggregatesService.ts\<close>), \<^verbatim>\<open>Referrals\<close>
    (\<^verbatim>\<open>referralService.ts\<close>), \<^verbatim>\<open>Admin_Switches\<close> (\<^verbatim>\<open>quotaRequestService.ts\<close>, \<^verbatim>\<open>userFreezeService.ts\<close>,
    \<^verbatim>\<open>circuitBreakerService.ts\<close>): what users and administrators read and ask for.
  \<^item> \<^verbatim>\<open>Listings\<close> (the lists of \<^verbatim>\<open>marketService.ts\<close>, \<^verbatim>\<open>marketWatcherService.ts\<close>, \<^verbatim>\<open>userService.ts\<close> and
    \<^verbatim>\<open>notificationService.ts\<close>): keyset pages, watching a market, recommendations and broadcasts.
    \<^verbatim>\<open>Notification_Prefs\<close> (\<^verbatim>\<open>notificationPrefs.ts\<close>): partial updates of the stored preferences.

  \<^bold>\<open>Loops and fuel.\<close> \<^verbatim>\<open>prepareClaim\<close> runs for six steps, \<^verbatim>\<open>submitClaim\<close> for seven and token rotation for four,
  the lengths of their longest paths: a rank that every step lowers shows that they have answered by then
  (\<open>Claim_Service.prepareClaim_returns\<close>, \<open>submitClaim_returns\<close>, \<open>Refresh_Tokens.rotate_returns\<close>).
  A page walk gets one step more than there are items (\<open>Cursor.paginate_walk\<close>). The event fetch loop of the
  indexer and the two loops of \<^verbatim>\<open>find\<close> are partial functions, with \<open>None\<close> for not returning; \<open>Union_Find.climb_returns\<close> and \<open>compress_returns\<close> show that they
  return, and \<open>Fraud_Graph.clusters_are_components\<close> that clustering always does. The search for a cron slot is a total
  function: each jump brings the time nearer to the end of the last year it looks at. A login runs for four steps,
  its longest path. \<open>Leaderboard.cursor_walk\<close> follows the cursors of an unchanged view to its end.

  \<^bold>\<open>What is simplified.\<close> Postgres statements never fail except by the constraints that are written out, and
  a statement is atomic except in \<^verbatim>\<open>Settlement_Interleaving\<close>, where an \<^verbatim>\<open>UPDATE\<close> locks row by row;
  log lines, metrics and audit rows outside market administration are left out; prices and token counts are
  exact rationals instead of doubles; strings are lists of 8-bit characters; an integer column does not overflow.
  A \<^verbatim>\<open>uuid\<close> column compares its text, except for the referral of a reward in \<^verbatim>\<open>Referrals\<close>, where the column
  rewrites it. \<open>settle_step\<close> and \<open>scoring_step\<close> run their transactions one after the other. A fraud scan reads and
  writes in one step, patches of one user's preferences do not overlap, there is one settle confirmer, and deleting a
  scheduled report with its runs is not a step.

  \<^bold>\<open>Not modelled.\<close> The definitions of scheduled reports, market comments, the notification digest, the other
  statistics, exports and the feature-flag tables are single queries or text rendering around the database, whose
  engine does the work. \<^verbatim>\<open>getUserPredictions\<close> of \<^verbatim>\<open>userService.ts\<close> uses an undeclared name, so that every call
  throws; it is left out. Routes (apart from the ones named above), validators, the OpenAPI
  description, configuration, telemetry, health probes and process start-up only wire libraries to the services.
  The timers and queue wiring of the worker processes are left out; the operations they call are modelled.
\<close>

end
